(* ===== verification/Rust_Prelude.thy ===== *)
theory Rust_Prelude
  imports Main
begin

text \<open>
  Shared vocabulary of the development: Rust's \<open>Result\<close>, fixed-width unsigned and signed
  arithmetic written out on \<^typ>\<open>nat\<close> and \<^typ>\<open>int\<close>, the string operations of the
  standard library that the sources use, and generic lemmas on lists.

  A Rust \<open>str\<close> is a list of Unicode scalar values. It is modelled by \<^typ>\<open>string\<close>, whose
  characters are read as the scalar values U+0000 to U+00FF (\<open>of_char c\<close>); every
  literal, separator and identifier of the modelled sources is in this range. On it
  \<open>is_whitespace\<close> and \<open>to_lowercase\<close> are Unicode's, and \<open>byte_len\<close> is the UTF-8
  length that \<open>str::len\<close> returns.

  The locale \<open>bounded_window\<close> is the contract of every queue of the program that keeps its most
  recent entries; \<open>guarded_machine\<close> is the contract of a component whose operations keep an
  invariant.
\<close>

section \<open>Results\<close>

datatype ('a, 'e) result = Ok 'a | Err 'e

fun is_ok :: "('a, 'e) result \<Rightarrow> bool" where
  "is_ok (Ok _) = True"
| "is_ok (Err _) = False"

fun result_ok :: "('a, 'e) result \<Rightarrow> 'a option" where
  "result_ok (Ok x) = Some x"
| "result_ok (Err _) = None"

fun result_bind :: "('a, 'e) result \<Rightarrow> ('a \<Rightarrow> ('b, 'e) result) \<Rightarrow> ('b, 'e) result" where
  "result_bind (Ok x) f = f x"
| "result_bind (Err e) f = Err e"

lemma result_bind_eq_Ok:
  "result_bind r f = Ok y \<longleftrightarrow> (\<exists>x. r = Ok x \<and> f x = Ok y)"
  by (cases r) auto

lemma is_ok_iff: "is_ok r \<longleftrightarrow> (\<exists>x. r = Ok x)"
  by (cases r) auto

section \<open>Machine integers\<close>

definition u8_max :: nat where "u8_max = 255"
definition u16_max :: nat where "u16_max = 65535"
definition u32_max :: nat where "u32_max = 4294967295"
definition u64_max :: nat where "u64_max = 18446744073709551615"

definition add_u32 :: "nat \<Rightarrow> nat \<Rightarrow> nat" where
  "add_u32 a b = (a + b) mod (u32_max + 1)"

definition add_u64 :: "nat \<Rightarrow> nat \<Rightarrow> nat" where
  "add_u64 a b = (a + b) mod (u64_max + 1)"

definition sat_add :: "nat \<Rightarrow> nat \<Rightarrow> nat \<Rightarrow> nat" where
  "sat_add mx a b = min (a + b) mx"

text \<open>\<open>saturating_sub\<close> on an unsigned type is subtraction on \<^typ>\<open>nat\<close>.\<close>

definition sat_sub :: "nat \<Rightarrow> nat \<Rightarrow> nat" where
  "sat_sub a b = a - b"

definition checked_sub :: "nat \<Rightarrow> nat \<Rightarrow> nat option" where
  "checked_sub a b = (if b \<le> a then Some (a - b) else None)"

definition checked_add :: "nat \<Rightarrow> nat \<Rightarrow> nat \<Rightarrow> nat option" where
  "checked_add mx a b = (if a + b \<le> mx then Some (a + b) else None)"

definition checked_mul :: "nat \<Rightarrow> nat \<Rightarrow> nat \<Rightarrow> nat option" where
  "checked_mul mx a b = (if a * b \<le> mx then Some (a * b) else None)"

definition clamp_nat :: "nat \<Rightarrow> nat \<Rightarrow> nat \<Rightarrow> nat" where
  "clamp_nat x lo hi = (if x < lo then lo else if hi < x then hi else x)"

definition i64_min :: int where "i64_min = - 9223372036854775808"
definition i64_max :: int where "i64_max = 9223372036854775807"
definition i32_max :: int where "i32_max = 2147483647"

definition sat_i64 :: "int \<Rightarrow> int" where
  "sat_i64 x = max i64_min (min i64_max x)"

text \<open>\<open>wrapping_add\<close> and casts to \<open>i32\<close>; \<open>as i32\<close> keeps the low bits.\<close>

definition wrap_i32 :: "int \<Rightarrow> int" where
  "wrap_i32 n = (n + 2147483648) mod 4294967296 - 2147483648"

lemma wrap_i32_range: "- 2147483648 \<le> wrap_i32 n \<and> wrap_i32 n \<le> 2147483647"
proof -
  have "0 \<le> (n + 2147483648) mod 4294967296 \<and> (n + 2147483648) mod 4294967296 < 4294967296" by simp
  then show ?thesis unfolding wrap_i32_def by linarith
qed

lemma wrap_i32_id: "- 2147483648 \<le> n \<Longrightarrow> n \<le> 2147483647 \<Longrightarrow> wrap_i32 n = n"
  by (simp add: wrap_i32_def)

lemma clamp_nat_bounds: "lo \<le> hi \<Longrightarrow> lo \<le> clamp_nat x lo hi \<and> clamp_nat x lo hi \<le> hi"
  by (simp add: clamp_nat_def)

lemma clamp_nat_id: "lo \<le> x \<Longrightarrow> x \<le> hi \<Longrightarrow> clamp_nat x lo hi = x"
  by (simp add: clamp_nat_def)

lemma add_u32_small [simp]: "a + b \<le> u32_max \<Longrightarrow> add_u32 a b = a + b"
  by (simp add: add_u32_def)

lemma add_u32_bound: "add_u32 a b \<le> u32_max"
  unfolding add_u32_def using less_Suc_eq_le by fastforce

lemma add_u64_small [simp]: "a + b \<le> u64_max \<Longrightarrow> add_u64 a b = a + b"
  by (simp add: add_u64_def)

lemma sat_add_le [simp]: "sat_add mx a b \<le> mx"
  by (simp add: sat_add_def)

lemmas machine_int_defs =
  u8_max_def u16_max_def u32_max_def u64_max_def i64_min_def i64_max_def i32_max_def
  sat_add_def sat_sub_def checked_sub_def checked_add_def checked_mul_def clamp_nat_def
  sat_i64_def add_u32_def add_u64_def

section \<open>Characters\<close>

definition is_whitespace :: "char \<Rightarrow> bool" where
  "is_whitespace c =
     (let n = (of_char c :: nat) in 9 \<le> n \<and> n \<le> 13 \<or> n = 32 \<or> n = 133 \<or> n = 160)"

definition is_ascii_digit :: "char \<Rightarrow> bool" where
  "is_ascii_digit c = (let n = (of_char c :: nat) in 48 \<le> n \<and> n \<le> 57)"

definition is_ascii_upper :: "char \<Rightarrow> bool" where
  "is_ascii_upper c = (let n = (of_char c :: nat) in 65 \<le> n \<and> n \<le> 90)"

definition is_ascii_lower :: "char \<Rightarrow> bool" where
  "is_ascii_lower c = (let n = (of_char c :: nat) in 97 \<le> n \<and> n \<le> 122)"

definition is_ascii_alphanumeric :: "char \<Rightarrow> bool" where
  "is_ascii_alphanumeric c = (is_ascii_digit c \<or> is_ascii_upper c \<or> is_ascii_lower c)"

definition ascii_lower :: "char \<Rightarrow> char" where
  "ascii_lower c = (if is_ascii_upper c then char_of ((of_char c :: nat) + 32) else c)"

text \<open>Unicode lower case on U+0000 to U+00FF: ASCII capitals and U+00C0 to U+00DE without
  the multiplication sign U+00D7.\<close>

definition unicode_lower :: "char \<Rightarrow> char" where
  "unicode_lower c =
     (let n = (of_char c :: nat) in
      if is_ascii_upper c \<or> (192 \<le> n \<and> n \<le> 222 \<and> n \<noteq> 215) then char_of (n + 32) else c)"

definition utf8_width :: "char \<Rightarrow> nat" where
  "utf8_width c = (if (of_char c :: nat) < 128 then 1 else 2)"

definition utf8_bytes :: "char \<Rightarrow> nat list" where
  "utf8_bytes c =
     (let n = of_char c in if n < 128 then [n] else [192 + n div 64, 128 + n mod 64])"

definition as_bytes :: "string \<Rightarrow> nat list" where
  "as_bytes s = concat (map utf8_bytes s)"

lemma utf8_bytes_split:
  assumes "utf8_bytes c @ xs = utf8_bytes d @ ys"
  shows "c = d \<and> xs = ys"
proof -
  define m n where "m = (of_char c :: nat)" and "n = (of_char d :: nat)"
  have "m = n \<and> xs = ys"
  proof (cases "m < 128 \<or> n < 128")
    case True
    with assms show ?thesis by (auto simp: utf8_bytes_def m_def [symmetric] n_def [symmetric] split: if_splits)
  next
    case False
    with assms have "m div 64 = n div 64" "m mod 64 = n mod 64" "xs = ys"
      by (simp_all add: utf8_bytes_def m_def [symmetric] n_def [symmetric])
    then show ?thesis by (metis div_mult_mod_eq)
  qed
  then show ?thesis by (simp add: m_def n_def)
qed

lemma utf8_bytes_not_Nil [simp]: "utf8_bytes c \<noteq> []"
  by (simp add: utf8_bytes_def Let_def)

lemma as_bytes_simps [simp]: "as_bytes [] = []" "as_bytes (c # s) = utf8_bytes c @ as_bytes s" "as_bytes (s @ t) = as_bytes s @ as_bytes t"
  by (simp_all add: as_bytes_def)

lemma as_bytes_inj: "as_bytes s = as_bytes t \<longleftrightarrow> s = t"
proof (induction s arbitrary: t)
  case Nil
  then show ?case by (cases t) simp_all
next
  case (Cons c s)
  then show ?case by (cases t) (auto dest: utf8_bytes_split)
qed

section \<open>Strings\<close>

definition to_ascii_lowercase :: "string \<Rightarrow> string" where
  "to_ascii_lowercase s = map ascii_lower s"

definition to_lowercase :: "string \<Rightarrow> string" where
  "to_lowercase s = map unicode_lower s"

definition eq_ignore_ascii_case :: "string \<Rightarrow> string \<Rightarrow> bool" where
  "eq_ignore_ascii_case a b = (to_ascii_lowercase a = to_ascii_lowercase b)"

definition byte_len :: "string \<Rightarrow> nat" where
  "byte_len s = sum_list (map utf8_width s)"

definition trim_start_matches :: "(char \<Rightarrow> bool) \<Rightarrow> string \<Rightarrow> string" where
  "trim_start_matches P s = dropWhile P s"

definition trim_end_matches :: "(char \<Rightarrow> bool) \<Rightarrow> string \<Rightarrow> string" where
  "trim_end_matches P s = rev (dropWhile P (rev s))"

definition trim :: "string \<Rightarrow> string" where
  "trim s = trim_end_matches is_whitespace (trim_start_matches is_whitespace s)"

text \<open>\<open>split\<close> with a character pattern: the pieces between the matches, at least one.\<close>

fun split_on :: "(char \<Rightarrow> bool) \<Rightarrow> string \<Rightarrow> string list" where
  "split_on P [] = [[]]"
| "split_on P (c # cs) =
     (if P c then [] # split_on P cs
      else (case split_on P cs of [] \<Rightarrow> [[c]] | p # ps \<Rightarrow> (c # p) # ps))"

fun split_once :: "(char \<Rightarrow> bool) \<Rightarrow> string \<Rightarrow> (string \<times> string) option" where
  "split_once P [] = None"
| "split_once P (c # cs) =
     (if P c then Some ([], cs)
      else map_option (\<lambda>(a, b). (c # a, b)) (split_once P cs))"

fun rsplit_once :: "(char \<Rightarrow> bool) \<Rightarrow> string \<Rightarrow> (string \<times> string) option" where
  "rsplit_once P [] = None"
| "rsplit_once P (c # cs) =
     (case rsplit_once P cs of
        Some (a, b) \<Rightarrow> Some (c # a, b)
      | None \<Rightarrow> if P c then Some ([], cs) else None)"

fun join :: "string \<Rightarrow> string list \<Rightarrow> string" where
  "join sep [] = []"
| "join sep [s] = s"
| "join sep (s # t # ts) = s @ sep @ join sep (t # ts)"

definition starts_with :: "string \<Rightarrow> string \<Rightarrow> bool" where
  "starts_with s p = (take (length p) s = p)"

definition digit_val :: "char \<Rightarrow> nat option" where
  "digit_val c = (if is_ascii_digit c then Some (of_char c - 48) else None)"

fun digits_val :: "nat \<Rightarrow> nat \<Rightarrow> string \<Rightarrow> nat option" where
  "digits_val mx acc [] = Some acc"
| "digits_val mx acc (c # cs) =
     (case digit_val c of
        None \<Rightarrow> None
      | Some d \<Rightarrow> (let n = acc * 10 + d in if n \<le> mx then digits_val mx n cs else None))"

text \<open>\<open>parse\<close> to an unsigned integer: an optional plus sign, at least one digit, no overflow.\<close>

definition parse_uint :: "nat \<Rightarrow> string \<Rightarrow> nat option" where
  "parse_uint mx s =
     (case s of
        [] \<Rightarrow> None
      | c # cs \<Rightarrow>
          if c = CHR ''+'' then (if cs = [] then None else digits_val mx 0 cs)
          else digits_val mx 0 s)"

lemma split_on_not_Nil [simp]: "split_on P s \<noteq> []"
  by (induction s) (auto split: list.splits)

lemma split_on_pieces: "p \<in> set (split_on P s) \<Longrightarrow> c \<in> set p \<Longrightarrow> \<not> P c \<and> c \<in> set s"
proof (induction s arbitrary: p)
  case (Cons a s)
  obtain q qs where q: "split_on P s = q # qs" by (cases "split_on P s") auto
  have "\<forall>r\<in>set (q # qs). c \<in> set r \<longrightarrow> \<not> P c \<and> c \<in> set s"
    using Cons.IH q by auto
  with Cons.prems q show ?case by (auto split: if_splits)
qed simp

lemma split_once_Some:
  "split_once P s = Some (a, b) \<Longrightarrow> (\<exists>c. P c \<and> s = a @ c # b) \<and> (\<forall>x\<in>set a. \<not> P x)"
  by (induction s arbitrary: a b) (auto split: if_splits)

lemma split_once_append:
  "\<forall>x\<in>set a. \<not> P x \<Longrightarrow> P c \<Longrightarrow> split_once P (a @ c # b) = Some (a, b)"
  by (induction a) auto

lemma digits_val_le: "digits_val mx acc s = Some n \<Longrightarrow> acc \<le> mx \<Longrightarrow> n \<le> mx"
  by (induction mx acc s rule: digits_val.induct) (auto simp: Let_def split: option.splits if_splits)

lemma parse_uint_le: "parse_uint mx s = Some n \<Longrightarrow> n \<le> mx"
  by (auto simp: parse_uint_def simp del: digits_val.simps split: list.splits if_splits
      dest: digits_val_le)

lemma byte_len_Cons [simp]: "byte_len [] = 0" "byte_len (c # s) = utf8_width c + byte_len s"
  by (simp_all add: byte_len_def)

lemma trim_subset: "set (trim s) \<subseteq> set s"
  by (auto simp: trim_def trim_end_matches_def trim_start_matches_def dest!: set_dropWhileD)

lemma trim_id: "\<forall>c\<in>set s. \<not> is_whitespace c \<Longrightarrow> trim s = s"
proof -
  assume a: "\<forall>c\<in>set s. \<not> is_whitespace c"
  have "dropWhile is_whitespace t = t" if "\<forall>c\<in>set t. \<not> is_whitespace c" for t
    using that by (cases t) auto
  from this [of s] this [of "rev s"] show ?thesis using a
    by (simp add: trim_def trim_end_matches_def trim_start_matches_def)
qed

lemma split_on_none: "\<forall>c\<in>set s. \<not> P c \<Longrightarrow> split_on P s = [s]"
  by (induction s) auto

lemma split_on_append:
  "\<forall>c\<in>set a. \<not> P c \<Longrightarrow> P x \<Longrightarrow> split_on P (a @ x # b) = a # split_on P b"
  by (induction a) auto

lemma split_on_join:
  assumes "xs \<noteq> []" "\<forall>s\<in>set xs. \<forall>c\<in>set s. \<not> P c" "P x"
  shows "split_on P (join [x] xs) = xs"
  using assms
proof (induction xs rule: list_nonempty_induct)
  case (single s)
  then show ?case by (simp add: split_on_none)
next
  case (cons s ts)
  then show ?case by (cases ts) (auto simp: split_on_append)
qed

lemmas string_defs =
  trim_def trim_start_matches_def trim_end_matches_def is_whitespace_def to_ascii_lowercase_def
  ascii_lower_def is_ascii_upper_def is_ascii_lower_def is_ascii_digit_def
  is_ascii_alphanumeric_def eq_ignore_ascii_case_def byte_len_def utf8_width_def
  starts_with_def digit_val_def parse_uint_def to_lowercase_def unicode_lower_def

text \<open>\<open>while q.len() > n { q.pop_front() }\<close>.\<close>

fun pop_excess :: "nat \<Rightarrow> 'a list \<Rightarrow> 'a list" where
  "pop_excess n [] = []"
| "pop_excess n (x # xs) = (if length (x # xs) > n then pop_excess n xs else x # xs)"

lemma pop_excess_eq: "pop_excess n xs = drop (length xs - n) xs"
  by (induction xs) (auto simp: Suc_diff_le not_less)

lemma length_filter_imp: "(\<And>x. P x \<Longrightarrow> Q x) \<Longrightarrow> length (filter P xs) \<le> length (filter Q xs)"
  by (induction xs) (auto simp: le_SucI)

text \<open>\<open>sort\<close> followed by \<open>dedup\<close>.\<close>

lemma distinct_dedup: "sorted xs \<Longrightarrow> distinct (remdups_adj xs)"
  for xs :: "'a::linorder list"
  by (induction xs rule: remdups_adj.induct) auto

section \<open>Hash maps\<close>

text \<open>A \<open>HashMap\<close> is an association list with one entry per key, read by \<^const>\<open>map_of\<close>; the
  iteration order is the list's, which no result of the model depends on unless stated.\<close>

definition assoc_insert :: "'k \<Rightarrow> 'v \<Rightarrow> ('k \<times> 'v) list \<Rightarrow> ('k \<times> 'v) list" where
  "assoc_insert k v xs = (k, v) # filter (\<lambda>e. fst e \<noteq> k) xs"

definition assoc_remove :: "'k \<Rightarrow> ('k \<times> 'v) list \<Rightarrow> ('k \<times> 'v) list" where
  "assoc_remove k xs = filter (\<lambda>e. fst e \<noteq> k) xs"

definition assoc_update :: "'k \<Rightarrow> ('v \<Rightarrow> 'v) \<Rightarrow> ('k \<times> 'v) list \<Rightarrow> ('k \<times> 'v) list" where
  "assoc_update k f xs = map (\<lambda>(i, v). (i, if i = k then f v else v)) xs"

definition keys_ok :: "('k \<times> 'v) list \<Rightarrow> bool" where
  "keys_ok xs \<longleftrightarrow> distinct (map fst xs)"

lemma map_of_filter_key: "map_of (filter (\<lambda>e. fst e \<noteq> k) xs) = (map_of xs)(k := None)"
  by (induction xs) (auto simp: fun_eq_iff)

lemma map_of_assoc_insert [simp]: "map_of (assoc_insert k v xs) = (map_of xs)(k \<mapsto> v)"
  by (auto simp: assoc_insert_def map_of_filter_key fun_eq_iff)

lemma map_of_assoc_remove [simp]: "map_of (assoc_remove k xs) = (map_of xs)(k := None)"
  by (simp add: assoc_remove_def map_of_filter_key)

lemma map_of_assoc_update [simp]:
  "map_of (assoc_update k f xs) = (\<lambda>i. if i = k then map_option f (map_of xs k) else map_of xs i)"
  by (induction xs) (auto simp: assoc_update_def fun_eq_iff)

lemma keys_ok_filter: "keys_ok xs \<Longrightarrow> keys_ok (filter P xs)"
  by (induction xs) (auto simp: keys_ok_def)

lemma keys_ok_assoc [simp]:
  "keys_ok []" "keys_ok xs \<Longrightarrow> keys_ok (assoc_insert k v xs)" "keys_ok xs \<Longrightarrow> keys_ok (assoc_remove k xs)"
  "keys_ok (assoc_update k f xs) \<longleftrightarrow> keys_ok xs"
  by (auto simp: assoc_insert_def assoc_remove_def assoc_update_def keys_ok_filter o_def split_def
      keys_ok_def dest: keys_ok_filter [unfolded keys_ok_def])

lemma length_assoc_insert:
  "length (assoc_insert k v xs) \<le> Suc (length xs)"
  by (simp add: assoc_insert_def le_imp_less_Suc)

lemma length_assoc_replace:
  assumes "keys_ok xs" "map_of xs k = Some v0"
  shows "length (assoc_insert k v xs) = length xs"
proof -
  have "length (filter (\<lambda>e. fst e = k) ys) = 1" if "keys_ok ys" "map_of ys k = Some v0" for ys
    using that
  proof (induction ys)
    case (Cons y ys)
    show ?case
    proof (cases "fst y = k")
      case True
      with Cons.prems(1) have "filter (\<lambda>e. fst e = k) ys = []" 
        by (simp add: keys_ok_def filter_empty_conv) (metis image_eqI)
      with True show ?thesis by simp
    next
      case False
      with Cons show ?thesis by (cases y) (auto simp: keys_ok_def)
    qed
  qed simp
  from this [OF assms] sum_length_filter_compl [of "\<lambda>e. fst e = k" xs] show ?thesis
    by (simp add: assoc_insert_def)
qed

text \<open>Among more candidates than entries, some candidate is not a key.\<close>

lemma pigeon_free:
  assumes "inj_on f {..<m}" "length xs < m"
  shows "\<exists>i<m. map_of xs (f i) = None"
proof (rule ccontr)
  assume "\<not> (\<exists>i<m. map_of xs (f i) = None)"
  then have "f ` {..<m} \<subseteq> set (map fst xs)" by (force simp: map_of_eq_None_iff)
  from card_mono [OF _ this] have "card (f ` {..<m}) \<le> card (set (map fst xs))" by simp
  also have "\<dots> \<le> length xs" using card_length [of "map fst xs"] by simp
  finally show False using assms by (simp add: card_image)
qed

lemma length_assoc_remove: "length (assoc_remove k xs) \<le> length xs"
  by (simp add: assoc_remove_def)

lemma set_assoc_update: "kr \<in> set (assoc_update k f xs) \<Longrightarrow> \<exists>v. (fst kr, v) \<in> set xs \<and> snd kr = (if fst kr = k then f v else v)"
  by (auto simp: assoc_update_def)

lemma length_assoc_update [simp]: "length (assoc_update k f xs) = length xs"
  by (simp add: assoc_update_def)

text \<open>What the components rely on of a map: lookup after each change.\<close>

locale rust_map =
  fixes get :: "'m \<Rightarrow> 'k \<rightharpoonup> 'v" and insert :: "'k \<Rightarrow> 'v \<Rightarrow> 'm \<Rightarrow> 'm" and remove :: "'k \<Rightarrow> 'm \<Rightarrow> 'm"
  assumes get_insert: "get (insert k v m) = (get m)(k \<mapsto> v)"
    and get_remove: "get (remove k m) = (get m)(k := None)"
begin

lemma get_insert_other: "k \<noteq> k' \<Longrightarrow> get (insert k v m) k' = get m k'"
  by (simp add: get_insert)

lemma remove_insert: "get (remove k (insert k v m)) = (get m)(k := None)"
  by (simp add: get_insert get_remove fun_upd_twist)

end

interpretation assoc: rust_map map_of assoc_insert assoc_remove
  by unfold_locales simp_all

section \<open>Contracts\<close>

text \<open>A queue that keeps its most recent entries: pushing appends at the end and drops from the
  front until at most \<open>cap\<close> entries are left.\<close>

locale bounded_window =
  fixes push :: "'a \<Rightarrow> 'a list \<Rightarrow> 'a list" and cap :: nat
  assumes push_eq: "length xs \<le> cap \<Longrightarrow> push x xs = drop (Suc (length xs) - cap) (xs @ [x])"
begin

lemma push_length: "length xs \<le> cap \<Longrightarrow> length (push x xs) \<le> cap"
  by (simp add: push_eq)

lemma push_suffix:
  "length xs \<le> cap \<Longrightarrow> push x xs = drop (length (xs @ [x]) - cap) (xs @ [x])"
  by (simp add: push_eq)

lemma run_length: "length xs \<le> cap \<Longrightarrow> length (fold push ys xs) \<le> cap"
  by (induction ys arbitrary: xs) (simp_all add: push_length)

text \<open>After any number of pushes the window holds exactly the last \<open>cap\<close> entries.\<close>

lemma run_eq:
  assumes "length xs \<le> cap"
  shows "fold push ys xs = drop (length (xs @ ys) - cap) (xs @ ys)"
proof (induction ys rule: rev_induct)
  case Nil
  with assms show ?case by simp
next
  case (snoc y ys)
  define zs where "zs = xs @ ys"
  let ?k = "length zs - cap"
  have "push y (drop ?k zs) = drop (Suc (length (drop ?k zs)) - cap) (drop ?k zs @ [y])"
    by (rule push_eq) simp
  also have "drop ?k zs @ [y] = drop ?k (zs @ [y])" by simp
  also have "drop (Suc (length (drop ?k zs)) - cap) (drop ?k (zs @ [y]))
      = drop (length (zs @ [y]) - cap) (zs @ [y])"
  proof -
    have "Suc (length (drop ?k zs)) - cap + ?k = length (zs @ [y]) - cap" by auto
    then show ?thesis by (simp only: drop_drop)
  qed
  finally show ?case using snoc by (simp add: zs_def)
qed

end

text \<open>A component whose operations keep an invariant; runs are sequences of operations.\<close>

locale guarded_machine =
  fixes step :: "'op \<Rightarrow> 's \<Rightarrow> 's" and inv :: "'s \<Rightarrow> bool" and ok :: "'op \<Rightarrow> bool"
  assumes step_inv: "inv s \<Longrightarrow> ok op \<Longrightarrow> inv (step op s)"
begin

lemma run_inv: "inv s \<Longrightarrow> \<forall>op\<in>set ops. ok op \<Longrightarrow> inv (fold step ops s)"
  by (induction ops arbitrary: s) (simp_all add: step_inv)

end

end
