(* ===== verification/Access_Hours.thy ===== *)
theory Access_Hours
  imports Rust_Prelude
begin

text \<open>
  The host's access hours, \<^verbatim>\<open>src/src/clanto/access_hours.rs\<close>: the parser of the option
  \<open>clanto-access-hours\<close>, the check of a local time against the parsed windows and the
  login gate. The lemmas show that the loop over an interval of days returns, which days it
  sets, that every parsed window is well formed, that the check agrees with intervals of the
  week in minutes, and that the gate is closed on an invalid option.
\<close>

section \<open>Model\<close>

definition OPT_ACCESS_HOURS :: string where
  "OPT_ACCESS_HOURS = ''clanto-access-hours''"

definition LOGIN_ERROR :: string where
  "LOGIN_ERROR = ''clanto_access_hours_error''"

definition DAY_MINUTES :: nat where
  "DAY_MINUTES = 24 * 60"

record Window =
  w_days :: "bool list"
  w_start :: nat
  w_end :: nat

fun position :: "('a \<Rightarrow> bool) \<Rightarrow> 'a list \<Rightarrow> nat option" where
  "position P [] = None"
| "position P (x # xs) = (if P x then Some 0 else map_option Suc (position P xs))"

definition day :: "string \<Rightarrow> nat option" where
  "day nm =
     (let EN = [''mon'', ''tue'', ''wed'', ''thu'', ''fri'', ''sat'', ''sun''];
          IT = [''lun'', ''mar'', ''mer'', ''gio'', ''ven'', ''sab'', ''dom''];
          nm = to_ascii_lowercase (trim nm)
      in case position (\<lambda>d. d = nm) EN of
           Some i \<Rightarrow> Some i
         | None \<Rightarrow> position (\<lambda>d. d = nm) IT)"

text \<open>The \<open>loop\<close> that sets the days of an interval; \<open>None\<close> would be a loop that never ends.\<close>

partial_function (option) days_loop :: "nat \<Rightarrow> nat \<Rightarrow> bool list \<Rightarrow> bool list option" where
  "days_loop d b out =
     (let out = out[d := True] in
      if d = b then Some out else days_loop ((d + 1) mod 7) b out)"

declare days_loop.simps [code]

fun days_parts :: "string list \<Rightarrow> bool list \<Rightarrow> bool list option" where
  "days_parts [] out = Some out"
| "days_parts (part # parts) out =
     (case split_once (\<lambda>c. c = CHR ''-'') part of
        Some (a, b) \<Rightarrow>
          (case day a of
             None \<Rightarrow> None
           | Some a \<Rightarrow>
               (case day b of
                  None \<Rightarrow> None
                | Some b \<Rightarrow>
                    (case days_loop a b out of
                       None \<Rightarrow> None
                     | Some out \<Rightarrow> days_parts parts out)))
      | None \<Rightarrow>
          (case day part of
             None \<Rightarrow> None
           | Some d \<Rightarrow> days_parts parts (out[d := True])))"

definition days :: "string \<Rightarrow> bool list option" where
  "days spec = days_parts (split_on (\<lambda>c. c = CHR '','') spec) (replicate 7 False)"

definition minutes :: "string \<Rightarrow> nat option" where
  "minutes hhmm =
     (case split_once (\<lambda>c. c = CHR '':'') (trim hhmm) of
        None \<Rightarrow> None
      | Some (h, m) \<Rightarrow>
          (case (parse_uint u32_max h, parse_uint u32_max m) of
             (Some h, Some m) \<Rightarrow>
               (case checked_mul u32_max h 60 of
                  None \<Rightarrow> None
                | Some hm \<Rightarrow>
                    (case checked_add u32_max hm m of
                       None \<Rightarrow> None
                     | Some tot \<Rightarrow>
                         if m < 60 \<and> tot \<le> DAY_MINUTES then Some tot else None))
           | _ \<Rightarrow> None))"

fun parse_ranges :: "bool list \<Rightarrow> string list \<Rightarrow> Window list \<Rightarrow> Window list option" where
  "parse_ranges ds [] ws = Some ws"
| "parse_ranges ds (rng # rngs) ws =
     (case split_once (\<lambda>c. c = CHR ''-'') (trim rng) of
        None \<Rightarrow> None
      | Some (s, e) \<Rightarrow>
          (case (minutes s, minutes e) of
             (Some s, Some e) \<Rightarrow>
               if s = e \<or> s = DAY_MINUTES then None
               else parse_ranges ds rngs (ws @ [\<lparr>w_days = ds, w_start = s, w_end = e\<rparr>])
           | _ \<Rightarrow> None))"

fun parse_entries :: "string list \<Rightarrow> Window list \<Rightarrow> Window list option" where
  "parse_entries [] ws = Some ws"
| "parse_entries (entry # entries) ws =
     (if eq_ignore_ascii_case entry ''none'' then parse_entries entries ws
      else
        (case split_once is_whitespace entry of
           None \<Rightarrow> None
         | Some (day_spec, ranges) \<Rightarrow>
             (case days day_spec of
                None \<Rightarrow> None
              | Some ds \<Rightarrow>
                  (case parse_ranges ds (split_on (\<lambda>c. c = CHR '','') ranges) ws of
                     None \<Rightarrow> None
                   | Some ws \<Rightarrow> parse_entries entries ws))))"

definition parse :: "string \<Rightarrow> Window list option" where
  "parse value =
     parse_entries
       (filter (\<lambda>e. e \<noteq> []) (map trim (split_on (\<lambda>c. c = CHR '';'') value))) []"

definition window_allows :: "nat \<Rightarrow> nat \<Rightarrow> Window \<Rightarrow> bool" where
  "window_allows weekday minute w =
     (let yesterday = (weekday + 6) mod 7 in
      if w_start w < w_end w
      then w_days w ! weekday \<and> minute \<ge> w_start w \<and> minute < w_end w
      else (w_days w ! weekday \<and> minute \<ge> w_start w)
         \<or> (w_days w ! yesterday \<and> minute < w_end w))"

definition allowed_at :: "Window list \<Rightarrow> nat \<Rightarrow> nat \<Rightarrow> bool" where
  "allowed_at windows weekday minute = list_ex (window_allows weekday minute) windows"

text \<open>The gate: \<open>get_option\<close> is the configuration (\<open>hbb_common\<close>), the weekday counts
  from Monday, hour and minute are local time; the message key stands for its translation.\<close>

definition login_block :: "(string \<Rightarrow> string) \<Rightarrow> nat \<Rightarrow> nat \<Rightarrow> nat \<Rightarrow> string option" where
  "login_block get_option weekday hour minute =
     (let value = get_option OPT_ACCESS_HOURS in
      if trim value = [] then None
      else
        (let allowed =
           (case parse value of
              Some windows \<Rightarrow> allowed_at windows weekday (hour * 60 + minute)
            | None \<Rightarrow> False)
         in if allowed then None else Some LOGIN_ERROR))"

section \<open>The days of an interval\<close>

lemma position_less: "position P xs = Some i \<Longrightarrow> i < length xs"
  by (induction xs arbitrary: i) (auto split: if_splits)

lemma day_less: "day nm = Some d \<Longrightarrow> d < 7"
  by (auto simp: day_def Let_def simp del: position.simps split: option.splits dest!: position_less)

text \<open>The days reached from \<open>a\<close> going forward to \<open>b\<close> over the end of the week.\<close>

definition in_days :: "nat \<Rightarrow> nat \<Rightarrow> nat \<Rightarrow> bool" where
  "in_days a b k = ((k + 7 - a) mod 7 \<le> (b + 7 - a) mod 7)"

lemma days_forward:
  "a < 7 \<Longrightarrow> x < 7 \<Longrightarrow> (x + 7 - a) mod 7 = (if a \<le> x then x - a else x + 7 - a)" for x :: nat
  by (simp add: mod_if)

lemma next_day: "d < 7 \<Longrightarrow> Suc d mod 7 = (if d = 6 then 0 else Suc d)" for d :: nat
  by auto

lemma in_days_step:
  assumes "d < 7" "b < 7" "d \<noteq> b" "k < 7"
  shows "in_days d b k \<longleftrightarrow> k = d \<or> in_days ((d + 1) mod 7) b k"
proof -
  have "(d + 1) mod 7 < 7" by simp
  then show ?thesis
    using assms unfolding in_days_def by (simp add: days_forward next_day) auto
qed

lemma days_loop_spec:
  assumes "d < 7" "b < 7" "length out = 7"
  shows "\<exists>r. days_loop d b out = Some r \<and> length r = 7
    \<and> (\<forall>k<7. r ! k \<longleftrightarrow> out ! k \<or> in_days d b k)"
  using assms
proof (induction "(b + 7 - d) mod 7" arbitrary: d out rule: less_induct)
  case less
  show ?case
  proof (cases "d = b")
    case True
    moreover have "k = b" if "k < 7" "in_days b b k" for k
      using that less.prems(2) by (simp add: in_days_def days_forward split: if_splits)
    moreover have "in_days b b b" by (simp add: in_days_def)
    ultimately show ?thesis using less.prems
      by (subst days_loop.simps) (auto simp: nth_list_update)
  next
    case False
    let ?d = "(d + 1) mod 7" and ?out = "out[d := True]"
    have "(b + 7 - ?d) mod 7 < (b + 7 - d) mod 7"
      using less.prems(1,2) False by (simp add: days_forward next_day) arith
    from less.hyps [OF this, of ?out] less.prems obtain r where
      "days_loop ?d b ?out = Some r" "length r = 7"
      and r: "\<forall>k<7. r ! k \<longleftrightarrow> ?out ! k \<or> in_days ?d b k" by auto
    moreover have "\<forall>k<7. r ! k \<longleftrightarrow> out ! k \<or> in_days d b k"
      using r in_days_step [OF less.prems(1,2) False] less.prems by (auto simp: nth_list_update)
    ultimately show ?thesis using False by (subst days_loop.simps) simp
  qed
qed

lemma days_parts_length:
  "days_parts parts out = Some r \<Longrightarrow> length out = 7 \<Longrightarrow> length r = 7"
proof (induction parts out rule: days_parts.induct)
  case (2 part parts out)
  show ?case
  proof (cases "split_once (\<lambda>c. c = CHR ''-'') part")
    case None
    with 2 show ?thesis by (auto split: option.splits)
  next
    case (Some ab)
    then obtain a b where ab: "split_once (\<lambda>c. c = CHR ''-'') part = Some (a, b)"
      by (cases ab) auto
    with 2(3) obtain a' b' out' where *: "day a = Some a'" "day b = Some b'"
      "days_loop a' b' out = Some out'" "days_parts parts out' = Some r"
      by (auto split: option.splits)
    moreover have "length out' = 7"
      using days_loop_spec [of a' b' out] * day_less 2(4) by auto
    ultimately show ?thesis using 2(2) [OF ab refl *(1,2,3)] by simp
  qed
qed simp

section \<open>Well-formed windows\<close>

definition window_ok :: "Window \<Rightarrow> bool" where
  "window_ok w \<longleftrightarrow> length (w_days w) = 7 \<and> w_start w < DAY_MINUTES \<and> w_end w \<le> DAY_MINUTES
     \<and> w_start w \<noteq> w_end w"

lemma minutes_le: "minutes s = Some m \<Longrightarrow> m \<le> DAY_MINUTES"
  by (auto simp: minutes_def split: option.splits prod.splits if_splits)

lemma parse_ranges_ok:
  "parse_ranges ds rs ws = Some r \<Longrightarrow> length ds = 7 \<Longrightarrow> list_all window_ok ws \<Longrightarrow> list_all window_ok r"
proof (induction ds rs ws rule: parse_ranges.induct)
  case (2 ds rng rngs ws)
  from 2(2) obtain s e s' e' where *:
    "split_once (\<lambda>c. c = CHR ''-'') (trim rng) = Some (s, e)" "minutes s = Some s'"
    "minutes e = Some e'" "\<not> (s' = e' \<or> s' = DAY_MINUTES)"
    "parse_ranges ds rngs (ws @ [\<lparr>w_days = ds, w_start = s', w_end = e'\<rparr>]) = Some r"
    by (auto split: option.splits if_splits)
  have "window_ok \<lparr>w_days = ds, w_start = s', w_end = e'\<rparr>"
    using *(4) minutes_le [OF *(2)] minutes_le [OF *(3)] 2(3) by (simp add: window_ok_def)
  with 2 * show ?case by auto
qed simp

lemma parse_entries_ok:
  "parse_entries es ws = Some r \<Longrightarrow> list_all window_ok ws \<Longrightarrow> list_all window_ok r"
proof (induction es ws rule: parse_entries.induct)
  case (2 entry entries ws)
  show ?case
  proof (cases "eq_ignore_ascii_case entry ''none''")
    case True
    with 2 show ?thesis by simp
  next
    case False
    with 2(3) obtain a b ds ws' where *: "split_once is_whitespace entry = Some (a, b)"
      "days a = Some ds" "parse_ranges ds (split_on (\<lambda>c. c = CHR '','') b) ws = Some ws'"
      "parse_entries entries ws' = Some r"
      by (auto split: option.splits)
    have "length ds = 7"
      using *(2) unfolding days_def by (rule days_parts_length) simp
    with *(3) 2(4) have "list_all window_ok ws'" by (simp add: parse_ranges_ok)
    with 2(2) [OF False *(1) refl *(2,3)] *(4) show ?thesis by simp
  qed
qed simp

section \<open>The week in minutes\<close>

definition WEEK_MINUTES :: nat where
  "WEEK_MINUTES = 7 * DAY_MINUTES"

definition duration :: "Window \<Rightarrow> nat" where
  "duration w = (if w_start w < w_end w then w_end w - w_start w
     else w_end w + DAY_MINUTES - w_start w)"

text \<open>Minutes of the week from the opening on day \<open>d\<close> to minute \<open>t\<close> of the week.\<close>

definition elapsed :: "Window \<Rightarrow> nat \<Rightarrow> nat \<Rightarrow> nat" where
  "elapsed w d t = (t + WEEK_MINUTES - (d * DAY_MINUTES + w_start w)) mod WEEK_MINUTES"

definition covers :: "Window \<Rightarrow> nat \<Rightarrow> bool" where
  "covers w t \<longleftrightarrow> (\<exists>d<7. w_days w ! d \<and> elapsed w d t < duration w)"

lemmas minute_defs = DAY_MINUTES_def WEEK_MINUTES_def duration_def elapsed_def

lemma elapsed_eq:
  assumes "d < 7" "wd < 7" "m < DAY_MINUTES" "w_start w < DAY_MINUTES"
  defines "k \<equiv> (if d \<le> wd then wd - d else wd + 7 - d)"
  shows "elapsed w d (wd * DAY_MINUTES + m)
    = (if w_start w \<le> k * DAY_MINUTES + m then k * DAY_MINUTES + m - w_start w
       else m + WEEK_MINUTES - w_start w)"
proof (cases "d \<le> wd")
  case True
  then obtain j where "wd = d + j" using le_Suc_ex by blast
  with assms True show ?thesis by (cases j) (auto simp: minute_defs mod_if)
next
  case False
  then obtain j where "d = wd + j" "0 < j" by (metis le_Suc_ex linorder_linear less_add_same_cancel1 not_le)
  with assms False show ?thesis by (auto simp: minute_defs mod_if)
qed

lemma elapsed_less_duration:
  assumes "window_ok w" "d < 7" "wd < 7" "m < DAY_MINUTES"
  shows "elapsed w d (wd * DAY_MINUTES + m) < duration w \<longleftrightarrow>
    (if w_start w < w_end w then d = wd \<and> w_start w \<le> m \<and> m < w_end w
     else d = wd \<and> w_start w \<le> m \<or> d = (wd + 6) mod 7 \<and> m < w_end w)"
proof -
  have y: "(wd + 6) mod 7 = (if wd = 0 then 6 else wd - 1)" using assms(3) by (simp add: mod_if)
  have "w_start w < DAY_MINUTES" "w_end w \<le> DAY_MINUTES" "w_start w \<noteq> w_end w"
    using assms(1) by (simp_all add: window_ok_def)
  then show ?thesis
    using assms(2,3,4) unfolding y
    by (subst elapsed_eq) (auto simp: minute_defs split: if_splits)
qed

lemma window_allows_covers:
  assumes "window_ok w" "wd < 7" "m < DAY_MINUTES"
  shows "window_allows wd m w \<longleftrightarrow> covers w (wd * DAY_MINUTES + m)"
proof -
  have y: "(wd + 6) mod 7 < 7" by simp
  have "covers w (wd * DAY_MINUTES + m) \<longleftrightarrow> (\<exists>d<7. w_days w ! d \<and>
      (if w_start w < w_end w then d = wd \<and> w_start w \<le> m \<and> m < w_end w
       else d = wd \<and> w_start w \<le> m \<or> d = (wd + 6) mod 7 \<and> m < w_end w))"
    unfolding covers_def using assms elapsed_less_duration by blast
  also have "\<dots> \<longleftrightarrow> window_allows wd m w"
    unfolding window_allows_def Let_def using y assms(2) by auto
  finally show ?thesis ..
qed

lemma parse_ok: "parse value = Some ws \<Longrightarrow> list_all window_ok ws"
  using parse_entries_ok [of _ "[]" ws] by (simp add: parse_def)

section \<open>Properties\<close>

text \<open>The loop over an interval of days returns for every pair of weekday names and sets
  exactly the days from the first to the last, going over the end of the week when the last
  precedes the first.\<close>

theorem days_interval:
  assumes "day a = Some i" "day b = Some j" "length out = 7"
  shows "\<exists>r. days_loop i j out = Some r \<and> length r = 7
    \<and> (\<forall>k<7. r ! k \<longleftrightarrow> out ! k \<or> (k + 7 - i) mod 7 \<le> (j + 7 - i) mod 7)"
  using days_loop_spec [of i j out] assms day_less by (simp add: in_days_def)

lemma day_values: "day ''sat'' = Some 5" "day ''lun'' = Some 0"
  by code_simp+

theorem days_interval_witness:
  "\<exists>r. days_loop 5 0 (replicate 7 False) = Some r \<and> length r = 7
    \<and> (\<forall>k<7. r ! k \<longleftrightarrow> replicate 7 False ! k \<or> (k + 7 - 5) mod 7 \<le> (0 + 7 - 5) mod (7::nat))"
  using days_interval [OF day_values, of "replicate 7 False"] by simp

text \<open>C18: at every minute of the week, the check accepts exactly when some window of the parsed
  option, opened on one of its days, has not yet run for its duration: a window whose end precedes
  its start runs into the following day, Sunday into Monday included.\<close>

theorem allowed_at_week:
  assumes "parse value = Some ws" "wd < 7" "m < DAY_MINUTES"
  shows "allowed_at ws wd m \<longleftrightarrow> (\<exists>w\<in>set ws. covers w (wd * DAY_MINUTES + m))"
  using parse_ok [OF assms(1)] assms(2,3) window_allows_covers
  by (auto simp: allowed_at_def list_ex_iff list_all_iff)

lemma days_sample: "days ''ven'' = Some [False, False, False, False, True, False, False]"
  by code_simp

lemma minutes_sample: "minutes ''22:00'' = Some 1320" "minutes ''06:00'' = Some 360"
  by (simp_all add: minutes_def string_defs machine_int_defs DAY_MINUTES_def Let_def)

lemma parse_sample:
  "parse ''ven 22:00-06:00'' =
     Some [\<lparr>w_days = [False, False, False, False, True, False, False], w_start = 1320, w_end = 360\<rparr>]"
  by (simp add: parse_def days_sample minutes_sample string_defs DAY_MINUTES_def Let_def)

theorem allowed_at_week_witness:
  "allowed_at [\<lparr>w_days = [False, False, False, False, True, False, False], w_start = 1320,
      w_end = 360\<rparr>] 5 300 \<longleftrightarrow>
   (\<exists>w\<in>{\<lparr>w_days = [False, False, False, False, True, False, False], w_start = 1320,
      w_end = 360\<rparr>}. covers w (5 * DAY_MINUTES + 300))"
  using allowed_at_week [OF parse_sample, of 5 300] by (simp add: DAY_MINUTES_def)

text \<open>The login gate. Access is refused exactly when the option is not blank and it either
  does not parse (at every time) or no parsed window covers the current minute of the week.\<close>

theorem login_block_iff:
  assumes "wd < 7" "h < 24" "m < 60"
  shows "login_block get_option wd h m \<noteq> None \<longleftrightarrow>
    trim (get_option OPT_ACCESS_HOURS) \<noteq> [] \<and>
    (case parse (get_option OPT_ACCESS_HOURS) of
       None \<Rightarrow> True
     | Some ws \<Rightarrow> \<forall>w\<in>set ws. \<not> covers w (wd * DAY_MINUTES + (h * 60 + m)))"
proof (cases "parse (get_option OPT_ACCESS_HOURS)")
  case (Some ws)
  have "h * 60 + m < DAY_MINUTES" using assms(2,3) by (simp add: DAY_MINUTES_def)
  with parse_ok [OF Some] assms(1) window_allows_covers Some show ?thesis
    by (auto simp: login_block_def allowed_at_def list_ex_iff list_all_iff Let_def)
qed (simp add: login_block_def Let_def)

theorem login_block_iff_witness:
  "login_block (\<lambda>_. ''ven 22:00-06:00'') 5 5 0 \<noteq> None \<longleftrightarrow>
    trim ''ven 22:00-06:00'' \<noteq> [] \<and>
    (case parse ''ven 22:00-06:00'' of
       None \<Rightarrow> True
     | Some ws \<Rightarrow> \<forall>w\<in>set ws. \<not> covers w (5 * DAY_MINUTES + (5 * 60 + 0)))"
  by (rule login_block_iff) simp_all

end
