(* ===== verification/Id_Permissions.thy ===== *)
theory Id_Permissions
  imports Rust_Prelude
begin

text \<open>
  Permissions by controller ID, \<^verbatim>\<open>src/src/clanto/id_permissions.rs\<close>: profiles and their
  permissions, the choice of the whitelist entry that applies to a controller, and the resolution
  of its profile. The backtracking wildcard matcher is shown to return on every input and to
  agree with the recursive definition of glob matching; the chosen entry is shown to be the first
  of the highest rank. The parser of the JSON option is a parameter (\<open>serde_json\<close>).
\<close>

section \<open>Model\<close>

datatype Permission = Keyboard | Clipboard | File | Audio | Camera | Terminal | Tunnel | Restart
  | Recording | BlockInput | PrivacyMode | RemotePrinter

record CustomPermissions =
  cp_keyboard :: bool
  cp_clipboard :: bool
  cp_file :: bool
  cp_audio :: bool
  cp_camera :: bool
  cp_terminal :: bool
  cp_tunnel :: bool
  cp_restart :: bool
  cp_recording :: bool
  cp_block_input :: bool
  cp_privacy_mode :: bool
  cp_remote_printer :: bool

definition custom_default :: CustomPermissions where
  "custom_default = \<lparr>cp_keyboard = False, cp_clipboard = False, cp_file = False, cp_audio = False,
     cp_camera = False, cp_terminal = False, cp_tunnel = False, cp_restart = False, cp_recording = False,
     cp_block_input = False, cp_privacy_mode = False, cp_remote_printer = False\<rparr>"

fun custom_allows :: "CustomPermissions \<Rightarrow> Permission \<Rightarrow> bool" where
  "custom_allows p Keyboard = cp_keyboard p"
| "custom_allows p Clipboard = cp_clipboard p"
| "custom_allows p File = cp_file p"
| "custom_allows p Audio = cp_audio p"
| "custom_allows p Camera = cp_camera p"
| "custom_allows p Terminal = cp_terminal p"
| "custom_allows p Tunnel = cp_tunnel p"
| "custom_allows p Restart = cp_restart p"
| "custom_allows p Recording = cp_recording p"
| "custom_allows p BlockInput = cp_block_input p"
| "custom_allows p PrivacyMode = cp_privacy_mode p"
| "custom_allows p RemotePrinter = cp_remote_printer p"

datatype Profile = View | Support | Full | Custom

fun profile_as_str :: "Profile \<Rightarrow> string" where
  "profile_as_str View = ''view''"
| "profile_as_str Support = ''support''"
| "profile_as_str Full = ''full''"
| "profile_as_str Custom = ''custom''"

record ProfileConfig =
  pc_name :: string
  pc_profile :: Profile
  pc_perms :: CustomPermissions

record ResolvedProfile =
  rp_name :: string
  rp_profile :: Profile
  rp_permissions :: CustomPermissions

definition resolved_view :: ResolvedProfile where
  "resolved_view = \<lparr>rp_name = [], rp_profile = View, rp_permissions = custom_default\<rparr>"

definition resolved_full :: ResolvedProfile where
  "resolved_full = \<lparr>rp_name = [], rp_profile = Full, rp_permissions = custom_default\<rparr>"

definition allows :: "ResolvedProfile \<Rightarrow> Permission \<Rightarrow> bool" where
  "allows r permission =
     (case rp_profile r of
        View \<Rightarrow> False
      | Support \<Rightarrow> permission \<in> {Keyboard, Clipboard, File, Audio, Restart, BlockInput,
                                    PrivacyMode, RemotePrinter}
      | Full \<Rightarrow> True
      | Custom \<Rightarrow> custom_allows (rp_permissions r) permission)"

record Resolution =
  res_profile :: "ResolvedProfile option"
  res_invalid_json :: bool

text \<open>The loop of \<open>wildcard_match\<close>: pattern index, text index, and the position after the last
  star with the text index it was met at. \<open>None\<close> would be a loop that never ends.\<close>

partial_function (option) wildcard_loop ::
    "string \<Rightarrow> string \<Rightarrow> nat \<Rightarrow> nat \<Rightarrow> (nat \<times> nat) option \<Rightarrow> nat option option" where
  "wildcard_loop pattern txt pi ti star =
     (if ti < length txt then
        (if pi < length pattern \<and> pattern ! pi = CHR ''*'' then
           wildcard_loop pattern txt (pi + 1) ti (Some (pi + 1, ti))
         else if pi < length pattern \<and> (pattern ! pi = CHR ''?'' \<or> pattern ! pi = txt ! ti) then
           wildcard_loop pattern txt (pi + 1) (ti + 1) star
         else
           (case star of
              Some (after_star, star_text_index) \<Rightarrow>
                wildcard_loop pattern txt after_star (star_text_index + 1)
                  (Some (after_star, star_text_index + 1))
            | None \<Rightarrow> Some None))
      else Some (Some pi))"

declare wildcard_loop.simps [code]

function skip_stars :: "string \<Rightarrow> nat \<Rightarrow> nat" where
  "skip_stars pattern pi =
     (if pi < length pattern \<and> pattern ! pi = CHR ''*'' then skip_stars pattern (pi + 1) else pi)"
  by pat_completeness auto
termination by (relation "measure (\<lambda>(p, i). length p - i)") auto

declare skip_stars.simps [simp del]

definition wildcard_match :: "string \<Rightarrow> string \<Rightarrow> bool option" where
  "wildcard_match pattern txt =
     (let pattern = to_lowercase (trim pattern); txt = to_lowercase (trim txt)
      in case wildcard_loop pattern txt 0 0 None of
           None \<Rightarrow> None
         | Some None \<Rightarrow> Some False
         | Some (Some pi) \<Rightarrow> Some (skip_stars pattern pi = length pattern))"

definition is_wild :: "char \<Rightarrow> bool" where
  "is_wild c = (c = CHR ''*'' \<or> c = CHR ''?'')"

definition match_rank :: "string \<Rightarrow> string \<Rightarrow> string \<Rightarrow> (nat \<times> nat) option" where
  "match_rank pattern controller_id bare_id =
     (if \<not> list_ex is_wild pattern then
        (if eq_ignore_ascii_case pattern controller_id then Some (3, length pattern)
         else if eq_ignore_ascii_case pattern bare_id then Some (2, length pattern)
         else None)
      else if wildcard_match pattern controller_id \<noteq> Some True
              \<and> wildcard_match pattern bare_id \<noteq> Some True then None
      else if pattern = ''*'' then Some (0, 0)
      else Some (1, length (filter (\<lambda>c. \<not> is_wild c) pattern)))"

definition rank_less :: "nat \<times> nat \<Rightarrow> nat \<times> nat \<Rightarrow> bool" where
  "rank_less a b = (fst a < fst b \<or> fst a = fst b \<and> snd a < snd b)"

fun matching_loop ::
    "string \<Rightarrow> string \<Rightarrow> string list \<Rightarrow> (string \<times> (nat \<times> nat)) option
       \<Rightarrow> (string \<times> (nat \<times> nat)) option" where
  "matching_loop controller_id bare_id [] best = best"
| "matching_loop controller_id bare_id (entry # entries) best =
     (let entry = trim entry in
      case match_rank entry controller_id bare_id of
        None \<Rightarrow> matching_loop controller_id bare_id entries best
      | Some rank \<Rightarrow>
          matching_loop controller_id bare_id entries
            (if (case best of None \<Rightarrow> True | Some (_, best_rank) \<Rightarrow> rank_less best_rank rank)
             then Some (entry, rank) else best))"

definition matching_entry :: "string list \<Rightarrow> string \<Rightarrow> string option" where
  "matching_entry id_whitelist controller_id =
     (let controller_id = trim controller_id;
          bare_id = (case split_on (\<lambda>c. c = CHR ''@'') controller_id of
                       [] \<Rightarrow> controller_id | p # _ \<Rightarrow> p)
      in map_option fst (matching_loop controller_id bare_id id_whitelist None))"

text \<open>\<open>from_json\<close> stands for \<open>serde_json\<close> into a \<open>BTreeMap\<close>: the entries in key order.\<close>

definition resolve_profile ::
    "(string \<Rightarrow> (string \<times> ProfileConfig) list option) \<Rightarrow> string list \<Rightarrow> string \<Rightarrow> string
       \<Rightarrow> Resolution" where
  "resolve_profile from_json id_whitelist json controller_id =
     (case matching_entry id_whitelist controller_id of
        None \<Rightarrow> \<lparr>res_profile = None, res_invalid_json = False\<rparr>
      | Some entry \<Rightarrow>
          if trim json = [] then \<lparr>res_profile = Some resolved_full, res_invalid_json = False\<rparr>
          else
            (case from_json json of
               None \<Rightarrow> \<lparr>res_profile = Some resolved_view, res_invalid_json = True\<rparr>
             | Some profiles \<Rightarrow>
                 (case List.find (\<lambda>(key, _). eq_ignore_ascii_case key entry) profiles of
                    None \<Rightarrow> \<lparr>res_profile = Some resolved_full, res_invalid_json = False\<rparr>
                  | Some (_, config) \<Rightarrow>
                      \<lparr>res_profile = Some \<lparr>rp_name = pc_name config, rp_profile = pc_profile config,
                         rp_permissions = pc_perms config\<rparr>,
                       res_invalid_json = False\<rparr>)))"

definition resolve_profile_logged ::
    "(string \<Rightarrow> (string \<times> ProfileConfig) list option) \<Rightarrow> string list \<Rightarrow> string \<Rightarrow> string
       \<Rightarrow> ResolvedProfile option" where
  "resolve_profile_logged from_json id_whitelist json controller_id =
     res_profile (resolve_profile from_json id_whitelist json controller_id)"

section \<open>Glob matching\<close>

fun glob :: "string \<Rightarrow> string \<Rightarrow> bool" where
  "glob [] ts = (ts = [])"
| "glob (p # ps) ts =
     (if p = CHR ''*'' then glob ps ts \<or> (case ts of [] \<Rightarrow> False | _ # ts' \<Rightarrow> glob (p # ps) ts')
      else (case ts of [] \<Rightarrow> False | t # ts' \<Rightarrow> (p = CHR ''?'' \<or> p = t) \<and> glob ps ts'))"

definition fits :: "char \<Rightarrow> char \<Rightarrow> bool" where
  "fits p t \<longleftrightarrow> p \<noteq> CHR ''*'' \<and> (p = CHR ''?'' \<or> p = t)"

lemma glob_star: "glob (CHR ''*'' # ps) ts \<longleftrightarrow> (\<exists>j\<le>length ts. glob ps (drop j ts))"
proof (induction ts)
  case (Cons t ts)
  have "(\<exists>j\<le>length (t # ts). glob ps (drop j (t # ts)))
      \<longleftrightarrow> glob ps (t # ts) \<or> (\<exists>j\<le>length ts. glob ps (drop j ts))"
    by (metis (no_types, lifting) Suc_le_mono bot_nat_0.extremum drop0 drop_Suc_Cons length_Cons
        not0_implies_Suc)
  with Cons show ?case by simp
qed simp

lemma glob_star_drop:
  assumes "i \<le> k" "glob (CHR ''*'' # ps) (drop k ts)"
  shows "glob (CHR ''*'' # ps) (drop i ts)"
proof -
  from assms(2) obtain j where j: "j \<le> length ts - k" "glob ps (drop (j + k) ts)"
    unfolding glob_star by auto
  show ?thesis
  proof (cases "j + k \<le> length ts")
    case True
    with assms(1) have "j + k - i \<le> length ts - i" "drop (j + k - i) (drop i ts) = drop (j + k) ts"
      by simp_all
    with j(2) show ?thesis unfolding glob_star by (metis length_drop)
  next
    case False
    with j(2) have "glob ps (drop (length ts - i) (drop i ts))" by simp
    then show ?thesis unfolding glob_star by (metis length_drop order_refl)
  qed
qed

lemma glob_segment:
  assumes "CHR ''*'' \<notin> set seg"
  shows "glob (seg @ ps) ts \<longleftrightarrow>
    list_all2 fits seg (take (length seg) ts) \<and> glob ps (drop (length seg) ts)"
  using assms
proof (induction seg arbitrary: ts)
  case (Cons p seg)
  then show ?case by (cases ts) (auto simp: fits_def)
qed simp

lemma fits_no_star: "list_all2 fits seg ts \<Longrightarrow> CHR ''*'' \<notin> set seg"
  by (induction rule: list_all2_induct) (auto simp: fits_def)

lemma glob_empty: "glob ps [] \<longleftrightarrow> (\<forall>c\<in>set ps. c = CHR ''*'')"
  by (induction ps) auto

lemma skip_stars_end: "pi \<le> length p \<Longrightarrow>
  skip_stars p pi = length p \<longleftrightarrow> (\<forall>c\<in>set (drop pi p). c = CHR ''*'')"
proof (induction p pi rule: skip_stars.induct)
  case (1 p pi)
  show ?case
  proof (cases "pi < length p")
    case True
    then have "drop pi p = p ! pi # drop (Suc pi) p" by (simp add: Cons_nth_drop_Suc)
    with 1 True show ?thesis by (subst skip_stars.simps) auto
  qed (use 1 in \<open>subst skip_stars.simps, auto\<close>)
qed

declare glob.simps(2) [simp del]

section \<open>The backtracking loop\<close>

definition wild_inv :: "string \<Rightarrow> string \<Rightarrow> nat \<times> nat \<times> (nat \<times> nat) option \<Rightarrow> bool" where
  "wild_inv P T st = (case st of (pi, ti, star) \<Rightarrow>
     pi \<le> length P \<and> ti \<le> length T \<and>
     (case star of
        None \<Rightarrow> list_all2 fits (take pi P) (take ti T)
      | Some (a, s) \<Rightarrow> a \<le> pi \<and> s \<le> ti
          \<and> list_all2 fits (take (pi - a) (drop a P)) (take (ti - s) (drop s T))
          \<and> (glob P T \<longleftrightarrow> glob (CHR ''*'' # drop a P) (drop s T))))"

definition wild_rank :: "string \<Rightarrow> string \<Rightarrow> ((nat \<times> nat \<times> (nat \<times> nat) option) \<times>
    (nat \<times> nat \<times> (nat \<times> nat) option)) set" where
  "wild_rank P T = measures
     [\<lambda>(pi, ti, star). case star of None \<Rightarrow> Suc (length P) | Some (a, s) \<Rightarrow> length P - a,
      \<lambda>(pi, ti, star). case star of None \<Rightarrow> Suc (length T) | Some (a, s) \<Rightarrow> length T - s,
      \<lambda>(pi, ti, star). length P - pi]"

definition wild_result :: "string \<Rightarrow> nat option \<Rightarrow> bool" where
  "wild_result P r = (case r of None \<Rightarrow> False | Some pi \<Rightarrow> skip_stars P pi = length P)"

lemma fits_lengths:
  "list_all2 fits (take i P) (take j T) \<Longrightarrow> i \<le> length P \<Longrightarrow> j \<le> length T \<Longrightarrow> i = j"
  by (drule list_all2_lengthD) simp

lemma fits_snoc:
  assumes "list_all2 fits (take i P) (take i T)" "i < length P" "i < length T" "fits (P ! i) (T ! i)"
  shows "list_all2 fits (take (Suc i) P) (take (Suc i) T)"
  using assms by (simp add: take_Suc_conv_app_nth list_all2_appendI)

text \<open>What remains to be matched, seen from the last star (or from the start).\<close>

lemma glob_rest:
  assumes "list_all2 fits (take n P) (take n T)" "n \<le> length P" "n \<le> length T"
  shows "glob P T \<longleftrightarrow> glob (drop n P) (drop n T)"
  using glob_segment [of "take n P" "drop n P" T] fits_no_star [OF assms(1)] assms by simp

text \<open>A second star makes the first choice of a position for the segment between them final.\<close>

lemma glob_second_star:
  assumes "list_all2 fits (take n P) (take n T)" "n < length P" "n \<le> length T" "P ! n = CHR ''*''"
  shows "glob (CHR ''*'' # P) T \<longleftrightarrow> glob (CHR ''*'' # drop (Suc n) P) (drop n T)"
proof
  let ?seg = "take n P"
  have split: "P = ?seg @ CHR ''*'' # drop (Suc n) P"
    using assms(2,4) by (metis id_take_nth_drop)
  have nostar: "CHR ''*'' \<notin> set ?seg" using assms(1) by (rule fits_no_star)
  assume "glob (CHR ''*'' # P) T"
  then obtain j where "glob P (drop j T)" unfolding glob_star by auto
  then have "glob (CHR ''*'' # drop (Suc n) P) (drop (length ?seg) (drop j T))"
    using glob_segment [OF nostar, of "CHR ''*'' # drop (Suc n) P" "drop j T"] split by metis
  then have "glob (CHR ''*'' # drop (Suc n) P) (drop (n + j) T)"
    using assms(2) by (simp add: drop_drop add.commute)
  then show "glob (CHR ''*'' # drop (Suc n) P) (drop n T)"
    by (rule glob_star_drop [rotated]) simp
next
  assume r: "glob (CHR ''*'' # drop (Suc n) P) (drop n T)"
  have "drop n P = CHR ''*'' # drop (Suc n) P"
    using assms(2,4) by (simp add: Cons_nth_drop_Suc [symmetric])
  then have "glob P (drop 0 T)"
    using glob_rest [OF assms(1)] assms(2,3) r by simp
  then show "glob (CHR ''*'' # P) T" unfolding glob_star by blast
qed

text \<open>A mismatch rules the current position out.\<close>

lemma glob_mismatch:
  assumes "list_all2 fits (take n P) (take n T)" "n \<le> length P" "n < length T"
    and "n < length P \<Longrightarrow> P ! n \<noteq> CHR ''*'' \<and> P ! n \<noteq> CHR ''?'' \<and> P ! n \<noteq> T ! n"
  shows "\<not> glob P T"
proof -
  have "\<not> glob (drop n P) (drop n T)"
  proof (cases "n < length P")
    case True
    with assms(3,4) show ?thesis by (simp add: Cons_nth_drop_Suc [symmetric] glob.simps)
  qed (use assms(3) in simp)
  with glob_rest [OF assms(1,2)] assms(3) show ?thesis by simp
qed

lemma glob_star_skip:
  assumes "\<not> glob P T" "T \<noteq> []"
  shows "glob (CHR ''*'' # P) T \<longleftrightarrow> glob (CHR ''*'' # P) (drop 1 T)"
  using assms by (cases T) (simp_all add: glob.simps)

text \<open>At the end of the text only stars may be left.\<close>

lemma glob_at_end:
  assumes "list_all2 fits (take n P) T" "n \<le> length P"
  shows "glob (CHR ''*'' # P) T \<longleftrightarrow> (\<forall>c\<in>set (drop n P). c = CHR ''*'')"
proof -
  let ?seg = "take n P"
  have len: "length T = n" using list_all2_lengthD [OF assms(1)] assms(2) by simp
  have nostar: "CHR ''*'' \<notin> set ?seg" using assms(1) by (rule fits_no_star)
  have seg: "glob P ts \<longleftrightarrow> list_all2 fits ?seg (take n ts) \<and> glob (drop n P) (drop n ts)" for ts
    using glob_segment [OF nostar, of "drop n P" ts] assms(2) by simp
  have "glob P (drop j T) \<Longrightarrow> j \<le> length T \<Longrightarrow> glob (drop n P) []" for j
    using seg [of "drop j T"] len by simp
  moreover have "glob (drop n P) [] \<Longrightarrow> glob P (drop 0 T)"
    using seg [of T] assms(1) len by simp
  ultimately show ?thesis unfolding glob_star glob_empty [symmetric] by blast
qed

lemma wild_inv_None:
  "wild_inv P T (pi, ti, None) \<longleftrightarrow> pi \<le> length P \<and> ti = pi \<and> ti \<le> length T
     \<and> list_all2 fits (take pi P) (take pi T)"
  using fits_lengths [of pi P ti T] by (auto simp: wild_inv_def)

lemma wild_inv_Some:
  "wild_inv P T (pi, ti, Some (a, s)) \<longleftrightarrow> a \<le> pi \<and> pi \<le> length P \<and> s \<le> ti \<and> ti \<le> length T
     \<and> ti - s = pi - a \<and> list_all2 fits (take (pi - a) (drop a P)) (take (pi - a) (drop s T))
     \<and> (glob P T \<longleftrightarrow> glob (CHR ''*'' # drop a P) (drop s T))"
proof (cases "a \<le> pi \<and> pi \<le> length P \<and> s \<le> ti \<and> ti \<le> length T")
  case True
  then have "pi - a \<le> length (drop a P)" "ti - s \<le> length (drop s T)" by (auto simp: diff_le_mono)
  with fits_lengths [of "pi - a" "drop a P" "ti - s" "drop s T"] True show ?thesis
    by (auto simp: wild_inv_def)
qed (auto simp: wild_inv_def)

lemma wild_star_step:
  assumes "wild_inv P T (pi, ti, star)" "pi < length P" "P ! pi = CHR ''*''"
  shows "wild_inv P T (pi + 1, ti, Some (pi + 1, ti))"
proof (cases star)
  case None
  with assms have *: "ti = pi" "pi \<le> length T" "list_all2 fits (take pi P) (take pi T)"
    by (auto simp: wild_inv_None)
  have "drop pi P = CHR ''*'' # drop (Suc pi) P"
    using assms(2,3) by (simp add: Cons_nth_drop_Suc [symmetric])
  with glob_rest [OF *(3)] * assms(2) show ?thesis by (simp add: wild_inv_Some)
next
  case (Some as)
  then obtain a s where "star = Some (a, s)" by (cases as) auto
  with assms(1) have *: "a \<le> pi" "s \<le> ti" "ti \<le> length T" "ti - s = pi - a"
      "list_all2 fits (take (pi - a) (drop a P)) (take (pi - a) (drop s T))"
      "glob P T \<longleftrightarrow> glob (CHR ''*'' # drop a P) (drop s T)"
    by (auto simp: wild_inv_Some)
  have "pi - a < length (drop a P)" "pi - a \<le> length (drop s T)" "drop a P ! (pi - a) = CHR ''*''"
    using * assms(2,3) by auto
  note second = glob_second_star [OF *(5) this]
  have "pi - a + s = ti" using *(2,4) by simp
  have "drop (pi - a) (drop s T) = drop ti T" "drop (Suc (pi - a)) (drop a P) = drop (Suc pi) P"
    using \<open>pi - a + s = ti\<close> *(1) by simp_all
  with second *(3,6) assms(2) show ?thesis by (simp add: wild_inv_Some)
qed

lemma wild_match_step:
  assumes "wild_inv P T (pi, ti, star)" "pi < length P" "ti < length T" "fits (P ! pi) (T ! ti)"
  shows "wild_inv P T (pi + 1, ti + 1, star)"
proof (cases star)
  case None
  with assms fits_snoc [of pi P T] show ?thesis by (simp add: wild_inv_None)
next
  case (Some as)
  then obtain a s where st: "star = Some (a, s)" by (cases as) auto
  with assms(1) have *: "a \<le> pi" "s \<le> ti" "ti - s = pi - a"
      "list_all2 fits (take (pi - a) (drop a P)) (take (pi - a) (drop s T))"
    by (auto simp: wild_inv_Some)
  have "s + (pi - a) = ti" using *(2,3) by simp
  then have "list_all2 fits (take (Suc (pi - a)) (drop a P)) (take (Suc (pi - a)) (drop s T))"
    using * assms(2-4) by (intro fits_snoc) auto
  with st assms * show ?thesis by (simp add: wild_inv_Some Suc_diff_le)
qed

lemma wild_back_step:
  assumes "wild_inv P T (pi, ti, Some (a, s))" "ti < length T"
    and "pi < length P \<Longrightarrow> P ! pi \<noteq> CHR ''*'' \<and> P ! pi \<noteq> CHR ''?'' \<and> P ! pi \<noteq> T ! ti"
  shows "wild_inv P T (a, s + 1, Some (a, s + 1))"
proof -
  from assms(1) have *: "a \<le> pi" "pi \<le> length P" "s \<le> ti" "ti - s = pi - a"
      "list_all2 fits (take (pi - a) (drop a P)) (take (pi - a) (drop s T))"
      "glob P T \<longleftrightarrow> glob (CHR ''*'' # drop a P) (drop s T)"
    by (auto simp: wild_inv_Some)
  have "s + (pi - a) = ti" using *(3,4) by simp
  then have "\<not> glob (drop a P) (drop s T)"
    using * assms(2,3) by (intro glob_mismatch [OF *(5)]) auto
  from glob_star_skip [OF this] * assms(2) show ?thesis by (simp add: wild_inv_Some)
qed

lemma wild_end:
  assumes "wild_inv P T (pi, ti, star)" "\<not> ti < length T"
  shows "glob P T \<longleftrightarrow> skip_stars P pi = length P"
proof (cases star)
  case None
  with assms have *: "pi \<le> length P" "pi = length T" "list_all2 fits (take pi P) (take pi T)"
    by (auto simp: wild_inv_None)
  have "glob P T \<longleftrightarrow> glob (drop pi P) []"
    using glob_rest [OF *(3,1)] *(2) by simp
  then show ?thesis using *(1) by (simp only: glob_empty skip_stars_end)
next
  case (Some as)
  then obtain a s where "star = Some (a, s)" by (cases as) auto
  with assms have *: "a \<le> pi" "pi \<le> length P" "length T - s = pi - a"
      "list_all2 fits (take (pi - a) (drop a P)) (drop s T)"
      "glob P T \<longleftrightarrow> glob (CHR ''*'' # drop a P) (drop s T)"
    by (auto simp: wild_inv_Some)
  from glob_at_end [OF *(4)] * show ?thesis by (simp add: skip_stars_end)
qed

lemma wf_wild_rank: "wf (wild_rank P T)"
  by (simp add: wild_rank_def)

lemma wildcard_loop_spec:
  assumes "wild_inv P T st"
  shows "\<exists>r. wildcard_loop P T (fst st) (fst (snd st)) (snd (snd st)) = Some r
    \<and> wild_result P r = glob P T"
  using assms
proof (induction st rule: wf_induct_rule [OF wf_wild_rank [of P T]])
  case (1 st)
  obtain pi ti star where st: "st = (pi, ti, star)" by (cases st) auto
  note inv = 1(2) [unfolded st]
  have IH: "\<exists>r. wildcard_loop P T pi' ti' star' = Some r \<and> wild_result P r = glob P T"
    if "((pi', ti', star'), st) \<in> wild_rank P T" "wild_inv P T (pi', ti', star')" for pi' ti' star'
    using 1(1) [OF that] by simp
  have bounds: "pi \<le> length P" "ti \<le> length T" "\<And>a s. star = Some (a, s) \<Longrightarrow> a \<le> pi \<and> s \<le> ti"
    using inv by (auto simp: wild_inv_def)
  consider (fin) "\<not> ti < length T"
    | (star) "ti < length T" "pi < length P" "P ! pi = CHR ''*''"
    | (match) "ti < length T" "pi < length P" "fits (P ! pi) (T ! ti)"
    | (stop) "ti < length T"
        "pi < length P \<Longrightarrow> P ! pi \<noteq> CHR ''*'' \<and> P ! pi \<noteq> CHR ''?'' \<and> P ! pi \<noteq> T ! ti"
    by (auto simp: fits_def)
  then show ?case
  proof cases
    case fin
    with wild_end [OF inv] show ?thesis
      by (simp add: st wildcard_loop.simps [of P T pi ti star] wild_result_def)
  next
    case star
    have "((pi + 1, ti, Some (pi + 1, ti)), st) \<in> wild_rank P T"
      using bounds star(2) by (auto simp: wild_rank_def st split: option.splits)
    from IH [OF this wild_star_step [OF inv star(2,3)]] star show ?thesis
      by (simp add: st wildcard_loop.simps [of P T pi ti])
  next
    case match
    have "((pi + 1, ti + 1, star), st) \<in> wild_rank P T"
      using match(2) by (auto simp: wild_rank_def st split: option.splits)
    from IH [OF this wild_match_step [OF inv match(2,1,3)]] match show ?thesis
      by (simp add: st wildcard_loop.simps [of P T pi ti] fits_def)
  next
    case stop
    show ?thesis
    proof (cases star)
      case None
      with inv have "\<not> glob P T"
        using glob_mismatch [of pi P T] stop by (auto simp: wild_inv_None)
      with None stop show ?thesis
        by (auto simp: st wildcard_loop.simps [of P T pi ti] wild_result_def)
    next
      case (Some as)
      then obtain a s where as: "star = Some (a, s)" by (cases as) auto
      have "((a, s + 1, Some (a, s + 1)), st) \<in> wild_rank P T"
        using bounds as stop(1) by (auto simp: wild_rank_def st)
      from IH [OF this wild_back_step [OF inv [unfolded as] stop]] as stop show ?thesis
        by (auto simp: st wildcard_loop.simps [of P T pi ti "Some (a, s)"])
    qed
  qed
qed

section \<open>The entry that applies\<close>

declare split_paired_All [simp del] split_paired_Ex [simp del]

definition bare_of :: "string \<Rightarrow> string" where
  "bare_of cid = hd (split_on (\<lambda>c. c = CHR ''@'') cid)"

definition entry_rank :: "string \<Rightarrow> string \<Rightarrow> (nat \<times> nat) option" where
  "entry_rank controller_id entry =
     match_rank (trim entry) (trim controller_id) (bare_of (trim controller_id))"

lemma matching_entry_loop:
  "matching_entry wl cid =
     map_option fst (matching_loop (trim cid) (bare_of (trim cid)) wl None)"
  by (cases "split_on (\<lambda>c. c = CHR ''@'') (trim cid)")
    (simp_all add: matching_entry_def bare_of_def Let_def)

lemma matching_loop_snoc:
  "matching_loop cid bare (es @ [e]) best =
     (let prev = matching_loop cid bare es best in
      case match_rank (trim e) cid bare of
        None \<Rightarrow> prev
      | Some r \<Rightarrow> if (case prev of None \<Rightarrow> True | Some (_, b) \<Rightarrow> rank_less b r)
          then Some (trim e, r) else prev)"
  by (induction es arbitrary: best) (simp_all add: Let_def split: option.splits)

definition first_best ::
    "('a \<Rightarrow> (nat \<times> nat) option) \<Rightarrow> 'a list \<Rightarrow> nat \<Rightarrow> nat \<times> nat \<Rightarrow> bool" where
  "first_best rank es i r \<longleftrightarrow> i < length es \<and> rank (es ! i) = Some r
     \<and> (\<forall>j<length es. \<forall>r'. rank (es ! j) = Some r' \<longrightarrow>
          \<not> rank_less r r' \<and> (j < i \<longrightarrow> rank_less r' r))"

lemma first_best_snoc_keep:
  assumes "first_best rank es i r" "\<And>r'. rank e = Some r' \<Longrightarrow> \<not> rank_less r r'"
  shows "first_best rank (es @ [e]) i r"
  unfolding first_best_def
proof (intro conjI allI impI)
  fix j r' assume j: "j < length (es @ [e])" "rank ((es @ [e]) ! j) = Some r'"
  show "\<not> rank_less r r'"
    using assms j by (cases "j = length es") (auto simp: first_best_def nth_append less_Suc_eq)
  assume "j < i"
  with assms(1) have "j < length es" by (simp add: first_best_def)
  moreover from this j have "rank (es ! j) = Some r'" by (simp add: nth_append)
  ultimately show "rank_less r' r" using assms(1) \<open>j < i\<close> unfolding first_best_def by blast
qed (use assms(1) in \<open>auto simp: first_best_def nth_append\<close>)

lemma first_best_snoc_new:
  assumes "rank e = Some r" "\<And>x r'. x \<in> set es \<Longrightarrow> rank x = Some r' \<Longrightarrow> rank_less r' r"
  shows "first_best rank (es @ [e]) (length es) r"
  unfolding first_best_def
proof (intro conjI allI impI)
  fix j r' assume j: "j < length (es @ [e])" "rank ((es @ [e]) ! j) = Some r'"
  have less: "rank_less r' r" if "j < length es"
    using assms(2) [of "es ! j"] j that by (simp add: nth_append)
  show "\<not> rank_less r r'"
    using less j assms(1) by (cases "j = length es") (auto simp: rank_less_def nth_append)
  assume "j < length es"
  then show "rank_less r' r" by (rule less)
qed (use assms(1) in simp_all)

lemma first_best_below:
  "first_best rank es i r \<Longrightarrow> rank_less r q \<Longrightarrow> x \<in> set es \<Longrightarrow> rank x = Some r' \<Longrightarrow> rank_less r' q"
proof -
  assume "first_best rank es i r" "rank_less r q" "x \<in> set es" "rank x = Some r'"
  then have "\<not> rank_less r r'" by (auto simp: first_best_def in_set_conv_nth)
  with \<open>rank_less r q\<close> show ?thesis by (auto simp: rank_less_def)
qed

lemma matching_loop_best:
  "case matching_loop cid bare es None of
     None \<Rightarrow> \<forall>e\<in>set es. match_rank (trim e) cid bare = None
   | Some (e, r) \<Rightarrow> \<exists>i. e = trim (es ! i)
       \<and> first_best (\<lambda>e. match_rank (trim e) cid bare) es i r"
proof (induction es rule: rev_induct)
  case (snoc e es)
  let ?rank = "\<lambda>e. match_rank (trim e) cid bare"
  note keep = first_best_snoc_keep [of ?rank es _ _ e] and new = first_best_snoc_new [of ?rank e _ es]
  show ?case
  proof (cases "matching_loop cid bare es None")
    case None
    with snoc have none: "\<forall>x\<in>set es. ?rank x = None" by simp
    show ?thesis
    proof (cases "?rank e")
      case (Some r)
      with new [of r] none None show ?thesis
        by (auto simp: matching_loop_snoc intro!: exI [of _ "length es"])
    qed (use None none in \<open>simp add: matching_loop_snoc\<close>)
  next
    case (Some br)
    then obtain b rb where br: "matching_loop cid bare es None = Some (b, rb)" by (cases br) auto
    with snoc obtain i where i: "b = trim (es ! i)" "first_best ?rank es i rb" by auto
    then have nth: "(es @ [e]) ! i = es ! i" by (simp add: first_best_def nth_append)
    show ?thesis
    proof (cases "\<exists>r. ?rank e = Some r \<and> rank_less rb r")
      case True
      then obtain r where r: "?rank e = Some r" "rank_less rb r" by blast
      have "first_best ?rank (es @ [e]) (length es) r"
        using first_best_below [OF i(2) r(2)] by (intro new r(1))
      with r br show ?thesis
        by (auto simp: matching_loop_snoc intro!: exI [of _ "length es"])
    next
      case False
      then have "first_best ?rank (es @ [e]) i rb" by (intro keep [OF i(2)]) blast
      with False br i(1) nth show ?thesis
        by (cases "?rank e") (auto simp: matching_loop_snoc intro!: exI [of _ i])
    qed
  qed
qed simp

lemma rank_exact:
  "match_rank e cid bare = Some r \<Longrightarrow>
   fst r = 3 \<longleftrightarrow> \<not> list_ex is_wild e \<and> eq_ignore_ascii_case e cid"
  by (auto simp: match_rank_def split: if_splits)

lemma rank_le_3: "match_rank e cid bare = Some r \<Longrightarrow> fst r \<le> 3"
  by (auto simp: match_rank_def split: if_splits)

section \<open>Properties\<close>

lemma wildcard_loop_glob:
  "\<exists>r. wildcard_loop pat txt 0 0 None = Some r \<and> wild_result pat r = glob pat txt"
  using wildcard_loop_spec [of pat "txt" "(0, 0, None)"] by (simp add: wild_inv_None)

text \<open>C17: the backtracking matcher returns on every pattern and text, and its answer is the
  recursive definition of glob matching on the trimmed, lower-cased strings: a star matches any
  run of characters, a question mark any single one.\<close>

theorem wildcard_match_glob:
  "wildcard_match pat txt = Some (glob (to_lowercase (trim pat)) (to_lowercase (trim txt)))"
  using wildcard_loop_glob [of "to_lowercase (trim pat)" "to_lowercase (trim txt)"]
  by (auto simp: wildcard_match_def Let_def wild_result_def split: option.splits)

text \<open>The whitelist entry chosen for a controller is the first entry of the highest rank: no
  entry ranks higher and every earlier entry that matches ranks lower.\<close>

theorem matching_entry_best:
  assumes "matching_entry wl cid = Some e"
  shows "\<exists>i r. e = trim (wl ! i) \<and> first_best (entry_rank cid) wl i r"
proof -
  from assms obtain r where "matching_loop (trim cid) (bare_of (trim cid)) wl None = Some (e, r)"
    by (auto simp: matching_entry_loop)
  moreover have "entry_rank cid = (\<lambda>e. match_rank (trim e) (trim cid) (bare_of (trim cid)))"
    by (rule ext) (simp add: entry_rank_def)
  ultimately show ?thesis
    using matching_loop_best [where es = wl and cid = "trim cid" and bare = "bare_of (trim cid)"]
    by auto
qed

lemma matching_entry_sample:
  "matching_entry [''*'', ''12?'', '' 123 '', ''123''] ''123@srv'' = Some ''123''"
  by code_simp

theorem matching_entry_best_witness:
  "\<exists>i r. ''123'' = trim ([''*'', ''12?'', '' 123 '', ''123''] ! i)
     \<and> first_best (entry_rank ''123@srv'') [''*'', ''12?'', '' 123 '', ''123''] i r"
  by (rule matching_entry_best [OF matching_entry_sample])

text \<open>An entry that is the controller's full ID, without wildcards, is never overridden by a
  wildcard entry or by an entry for the ID without its server.\<close>

theorem exact_entry_wins:
  assumes "x \<in> set wl" "\<not> list_ex is_wild (trim x)" "eq_ignore_ascii_case (trim x) (trim cid)"
  shows "\<exists>e. matching_entry wl cid = Some e \<and> \<not> list_ex is_wild e
    \<and> eq_ignore_ascii_case e (trim cid)"
proof -
  let ?c = "trim cid" and ?b = "bare_of (trim cid)"
  from assms(2,3) have x: "match_rank (trim x) ?c ?b = Some (3, length (trim x))"
    by (simp add: match_rank_def)
  with assms(1) matching_loop_best [of wl ?c ?b] obtain e r where
    e: "matching_loop ?c ?b wl None = Some (e, r)" "match_rank e ?c ?b = Some r"
    and best: "\<forall>j<length wl. \<forall>r'. match_rank (trim (wl ! j)) ?c ?b = Some r' \<longrightarrow> \<not> rank_less r r'"
    by (fastforce simp: first_best_def split: option.splits)
  obtain j where "j < length wl" "wl ! j = x" using assms(1) by (auto simp: in_set_conv_nth)
  with best x have "\<not> rank_less r (3, length (trim x))" by auto
  with rank_le_3 [OF e(2)] have "fst r = 3" by (auto simp: rank_less_def)
  with rank_exact [OF e(2)] e(1) show ?thesis by (simp add: matching_entry_loop)
qed

lemma exact_sample:
  "\<not> list_ex is_wild (trim ''123@srv'')" "eq_ignore_ascii_case (trim ''123@srv'') (trim ''123@SRV'')"
  by code_simp+

theorem exact_entry_wins_witness:
  "\<exists>e. matching_entry [''*'', ''123'', ''123@srv''] ''123@SRV'' = Some e \<and> \<not> list_ex is_wild e
    \<and> eq_ignore_ascii_case e (trim ''123@SRV'')"
  by (rule exact_entry_wins [OF _ exact_sample]) simp

text \<open>A controller that no entry matches has no profile, and when the option is not valid JSON
  a matched controller is left with a profile that allows no permission at all.\<close>

theorem resolve_profile_closed:
  "((\<forall>e\<in>set wl. entry_rank cid e = None) \<longrightarrow>
      resolve_profile from_json wl json cid = \<lparr>res_profile = None, res_invalid_json = False\<rparr>)
   \<and> (from_json json = None \<and> trim json \<noteq> [] \<longrightarrow>
      (\<forall>r p. resolve_profile_logged from_json wl json cid = Some r \<longrightarrow> \<not> allows r p))"
proof (intro conjI impI)
  assume "\<forall>e\<in>set wl. entry_rank cid e = None"
  then have "matching_loop (trim cid) (bare_of (trim cid)) wl None = None"
    using matching_loop_best [of wl "trim cid" "bare_of (trim cid)"]
    by (auto simp: entry_rank_def first_best_def split: option.splits)
  then show "resolve_profile from_json wl json cid = \<lparr>res_profile = None, res_invalid_json = False\<rparr>"
    by (simp add: resolve_profile_def matching_entry_loop)
qed (auto simp: resolve_profile_logged_def resolve_profile_def allows_def resolved_view_def
      split: option.splits)

theorem resolve_profile_closed_witness:
  "resolve_profile (\<lambda>_. None) [''456''] ''x'' ''123'' = \<lparr>res_profile = None, res_invalid_json = False\<rparr>
   \<and> \<not> allows resolved_view Keyboard"
proof
  have "\<forall>e\<in>set [''456'']. entry_rank ''123'' e = None" by code_simp
  then show "resolve_profile (\<lambda>_. None) [''456''] ''x'' ''123''
      = \<lparr>res_profile = None, res_invalid_json = False\<rparr>"
    using resolve_profile_closed [of "[''456'']" "''123''" "\<lambda>_. None" "''x''"] by blast
  have "resolve_profile_logged (\<lambda>_. None) [''*''] ''{'' ''123'' = Some resolved_view" "trim ''{'' \<noteq> []"
    by code_simp+
  then show "\<not> allows resolved_view Keyboard"
    using resolve_profile_closed [of "[''*'']" "''123''" "\<lambda>_. None" "''{''"] by blast
qed

end
