(* ===== verification/Tenant_Keys.thy ===== *)
theory Tenant_Keys
  imports Rust_Prelude
begin

text \<open>
  The signing keys of the tenant, \<^verbatim>\<open>src/src/clanto/tenant_keys.rs\<close>: the key store kept in
  memory and on disk, verification of signed documents, key rotation, the signed list of grant
  keys and revocations. Base64, SHA-256 and Ed25519 are external (\<open>sodiumoxide\<close>) and
  \<open>serde_json\<close> decodes the payloads: they are the fields of \<open>Crypto\<close>, an argument of every
  operation. Clock readings are arguments in seconds, as unbounded integers.
\<close>

section \<open>Model\<close>

type_synonym bytes = "nat list"

record Enrollment =
  en_device_id :: string
  en_tenant_id :: string
  en_tenant_name :: string
  en_tenant_key :: string
  en_enrolled_at :: int
  en_api :: string

record Signed =
  sg_payload :: string
  sg_signature :: string

record TenantKey =
  tk_kid :: string
  tk_public_key :: string
  tk_state :: string
  tk_not_after :: "int option"

record Revocation =
  rv_nonce :: "string option"
  rv_session_id :: "string option"
  rv_user_id :: "string option"
  rv_until :: int

record Store =
  st_tenant_id :: string
  st_keys :: "TenantKey list"
  st_rotation_seq :: nat
  st_grant_keys_version :: nat
  st_revocations :: "Revocation list"

record Rotation =
  ro_kind :: string
  ro_tenant_id :: string
  ro_new_key :: string
  ro_new_key_id :: string
  ro_valid_from :: int
  ro_seq :: nat

record GrantKeys =
  gk_version :: nat
  gk_keys :: "TenantKey list"
  gk_revocations :: "Revocation list"

record Crypto =
  decode64 :: "string \<Rightarrow> bytes option"
  encode64 :: "bytes \<Rightarrow> string"
  sha256 :: "bytes \<Rightarrow> bytes"
  pk_from_slice :: "bytes \<Rightarrow> bool"
  sig_from_bytes :: "bytes \<Rightarrow> bool"
  verify_detached :: "bytes \<Rightarrow> bytes \<Rightarrow> bytes \<Rightarrow> bool"
  root_key :: "bytes option"
  rotation_of :: "bytes \<Rightarrow> Rotation option"
  grant_keys_of :: "bytes \<Rightarrow> GrantKeys option"

datatype KeyError = NotARotation | AnotherTenant | AlreadyApplied nat | BadBase64 | InvalidNewKey
  | NotYetValid | SignatureNotTrusted | BadPayload | NotNewer nat nat | InvalidKey string
  | InvalidKeyState string | NoActiveKey | NotEnrolled | SignatureNotValid

definition RETIRING_SECS :: int where
  "RETIRING_SECS = 7 * 24 * 60 * 60"

definition kid_of :: "Crypto \<Rightarrow> bytes \<Rightarrow> string" where
  "kid_of C pk = encode64 C (take 8 (sha256 C pk))"

definition initial :: "Crypto \<Rightarrow> Enrollment \<Rightarrow> Store option" where
  "initial C e =
     (case decode64 C (en_tenant_key e) of
        None \<Rightarrow> None
      | Some pk \<Rightarrow>
          Some \<lparr>st_tenant_id = en_tenant_id e,
            st_keys = [\<lparr>tk_kid = kid_of C pk, tk_public_key = en_tenant_key e,
                        tk_state = ''active'', tk_not_after = None\<rparr>],
            st_rotation_seq = 0, st_grant_keys_version = 0, st_revocations = []\<rparr>)"

text \<open>The store in memory and the one last written to the state file (when it is readable).\<close>

record KeyState =
  ks_mem :: "Store option"
  ks_file :: "Store option"

definition load :: "Crypto \<Rightarrow> Enrollment \<Rightarrow> Store option \<Rightarrow> Store option" where
  "load C e saved =
     (case saved of
        Some s \<Rightarrow> if st_tenant_id s = en_tenant_id e \<and> st_keys s \<noteq> [] then Some s else initial C e
      | None \<Rightarrow> initial C e)"

definition prune_key :: "int \<Rightarrow> TenantKey \<Rightarrow> TenantKey" where
  "prune_key now key =
     (if tk_state key = ''retiring''
         \<and> (case tk_not_after key of None \<Rightarrow> False | Some t \<Rightarrow> t \<le> now)
      then key\<lparr>tk_state := ''revoked''\<rparr> else key)"

definition prune :: "Store \<Rightarrow> int \<Rightarrow> Store" where
  "prune s now = s\<lparr>st_keys := map (prune_key now) (st_keys s),
     st_revocations := filter (\<lambda>r. rv_until r > now) (st_revocations s)\<rparr>"

definition usable :: "TenantKey \<Rightarrow> int \<Rightarrow> bool" where
  "usable key now =
     (if tk_state key = ''active'' then True
      else if tk_state key = ''retiring'' then
        (case tk_not_after key of None \<Rightarrow> True | Some t \<Rightarrow> t > now)
      else False)"

text \<open>\<open>with_store\<close>: the closure sees the pruned store of the current tenant; \<open>None\<close> when the
  device is not enrolled or no key can be loaded. The closure returns whether it saved.\<close>

definition with_store ::
    "Crypto \<Rightarrow> Enrollment option \<Rightarrow> int \<Rightarrow> (Store \<Rightarrow> 'a \<times> Store) \<Rightarrow> KeyState \<Rightarrow> 'a option \<times> KeyState" where
  "with_store C e now f ks =
     (case e of
        None \<Rightarrow> (None, ks)
      | Some e \<Rightarrow>
          (let mem = (case ks_mem ks of
                        None \<Rightarrow> load C e (ks_file ks)
                      | Some s \<Rightarrow> if st_tenant_id s \<noteq> en_tenant_id e then load C e (ks_file ks)
                                 else Some s)
           in case mem of
                None \<Rightarrow> (None, ks\<lparr>ks_mem := None\<rparr>)
              | Some s \<Rightarrow>
                  (case f (prune s now) of (r, s') \<Rightarrow> (Some r, ks\<lparr>ks_mem := Some s'\<rparr>))))"

definition reset :: "KeyState \<Rightarrow> KeyState" where
  "reset ks = ks\<lparr>ks_mem := None, ks_file := None\<rparr>"

definition verify_with :: "Crypto \<Rightarrow> string \<Rightarrow> Signed \<Rightarrow> bytes option" where
  "verify_with C pk_b64 signed =
     (case decode64 C pk_b64 of
        None \<Rightarrow> None
      | Some pk \<Rightarrow>
          if \<not> pk_from_slice C pk then None
          else
            (case decode64 C (sg_payload signed) of
               None \<Rightarrow> None
             | Some payload \<Rightarrow>
                 (case decode64 C (sg_signature signed) of
                    None \<Rightarrow> None
                  | Some sig \<Rightarrow>
                      if sig_from_bytes C sig \<and> verify_detached C sig payload pk
                      then Some payload else None)))"

fun find_map :: "('a \<Rightarrow> 'b option) \<Rightarrow> 'a list \<Rightarrow> 'b option" where
  "find_map f [] = None"
| "find_map f (x # xs) = (case f x of Some y \<Rightarrow> Some y | None \<Rightarrow> find_map f xs)"

definition verify_in :: "Crypto \<Rightarrow> Store \<Rightarrow> Signed \<Rightarrow> string option \<Rightarrow> int \<Rightarrow> bytes option" where
  "verify_in C s signed kid now =
     find_map (\<lambda>k. verify_with C (tk_public_key k) signed)
       (filter (\<lambda>k. usable k now \<and> (case kid of None \<Rightarrow> True | Some kid \<Rightarrow> kid = tk_kid k)) (st_keys s))"

definition verify ::
    "Crypto \<Rightarrow> Enrollment option \<Rightarrow> int \<Rightarrow> Signed \<Rightarrow> string option \<Rightarrow> KeyState
       \<Rightarrow> (bytes, KeyError) result \<times> KeyState" where
  "verify C e now signed kid ks =
     (case with_store C e now (\<lambda>s. (verify_in C s signed kid now, s)) ks of
        (Some (Some payload), ks) \<Rightarrow> (Ok payload, ks)
      | (Some None, ks) \<Rightarrow> (Err SignatureNotValid, ks)
      | (None, ks) \<Rightarrow> (Err NotEnrolled, ks))"

definition verify_root :: "Crypto \<Rightarrow> Signed \<Rightarrow> bytes option" where
  "verify_root C signed =
     (case root_key C of None \<Rightarrow> None | Some pk \<Rightarrow> verify_with C (encode64 C pk) signed)"

definition current_kid :: "Crypto \<Rightarrow> Enrollment option \<Rightarrow> int \<Rightarrow> KeyState \<Rightarrow> string option \<times> KeyState" where
  "current_kid C e now ks =
     (case with_store C e now
             (\<lambda>s. (map_option tk_kid (List.find (\<lambda>k. tk_state k = ''active'') (rev (st_keys s))), s)) ks of
        (r, ks) \<Rightarrow> (Option.bind r id, ks))"

definition retire_key :: "bool \<Rightarrow> int \<Rightarrow> TenantKey \<Rightarrow> TenantKey" where
  "retire_key by_root now key =
     (if tk_state key \<noteq> ''revoked'' then
        (if by_root then key\<lparr>tk_state := ''revoked''\<rparr>
         else if tk_state key = ''active'' then
           key\<lparr>tk_state := ''retiring'', tk_not_after := Some (now + RETIRING_SECS)\<rparr>
         else key)
      else key)"

definition apply_rotation ::
    "Crypto \<Rightarrow> Store \<Rightarrow> Rotation \<Rightarrow> bool \<Rightarrow> int \<Rightarrow> (Store, KeyError) result" where
  "apply_rotation C s r by_root now =
     (if ro_kind r \<noteq> [] \<and> ro_kind r \<noteq> ''tenant_key_rotation'' then Err NotARotation
      else if ro_tenant_id r \<noteq> st_tenant_id s then Err AnotherTenant
      else if ro_seq r \<le> st_rotation_seq s then Err (AlreadyApplied (ro_seq r))
      else
        (case decode64 C (ro_new_key r) of
           None \<Rightarrow> Err BadBase64
         | Some pk \<Rightarrow>
             if \<not> pk_from_slice C pk \<or> kid_of C pk \<noteq> ro_new_key_id r then Err InvalidNewKey
             else if ro_valid_from r > now + 300 then Err NotYetValid
             else
               Ok (s\<lparr>st_keys :=
                       filter (\<lambda>k. tk_kid k \<noteq> ro_new_key_id r)
                         (map (retire_key by_root now) (st_keys s))
                       @ [\<lparr>tk_kid = ro_new_key_id r, tk_public_key = ro_new_key r,
                           tk_state = ''active'', tk_not_after = None\<rparr>],
                     st_rotation_seq := ro_seq r\<rparr>)))"

text \<open>The signer of an update: a usable key of the store, else the root key.\<close>

definition signer :: "Crypto \<Rightarrow> Store \<Rightarrow> Signed \<Rightarrow> int \<Rightarrow> (bytes \<times> bool) option" where
  "signer C s signed now =
     (case verify_in C s signed None now of
        Some payload \<Rightarrow> Some (payload, False)
      | None \<Rightarrow> (case verify_root C signed of
                   Some payload \<Rightarrow> Some (payload, True)
                 | None \<Rightarrow> None))"

definition rotate_store :: "Crypto \<Rightarrow> int \<Rightarrow> Signed \<Rightarrow> Store \<Rightarrow> (Store, KeyError) result" where
  "rotate_store C now signed s =
     (case signer C s signed now of
        None \<Rightarrow> Err SignatureNotTrusted
      | Some (payload, by_root) \<Rightarrow>
          (case rotation_of C payload of
             None \<Rightarrow> Err BadPayload
           | Some r \<Rightarrow> apply_rotation C s r by_root now))"

text \<open>\<open>disk_ok\<close> is whether the write of the state file succeeds; a failure is only logged.\<close>

definition keep_result :: "(Store, KeyError) result \<Rightarrow> Store \<Rightarrow> (unit, KeyError) result \<times> Store" where
  "keep_result r s = (case r of Ok s' \<Rightarrow> (Ok (), s') | Err e \<Rightarrow> (Err e, s))"

definition save :: "bool \<Rightarrow> (unit, KeyError) result option \<times> KeyState \<Rightarrow>
    (unit, KeyError) result option \<times> KeyState" where
  "save disk_ok rk =
     (case rk of (r, ks) \<Rightarrow>
        (r, if r = Some (Ok ()) \<and> disk_ok then ks\<lparr>ks_file := ks_mem ks\<rparr> else ks))"

definition receive_rotation ::
    "Crypto \<Rightarrow> Enrollment option \<Rightarrow> int \<Rightarrow> bool \<Rightarrow> Signed \<Rightarrow> KeyState
       \<Rightarrow> (unit, KeyError) result option \<times> KeyState" where
  "receive_rotation C e now disk_ok signed ks =
     save disk_ok (with_store C e now (\<lambda>s. keep_result (rotate_store C now signed s) s) ks)"

fun check_keys :: "Crypto \<Rightarrow> TenantKey list \<Rightarrow> (TenantKey list, KeyError) result" where
  "check_keys C [] = Ok []"
| "check_keys C (k # ks) =
     (case decode64 C (tk_public_key k) of
        None \<Rightarrow> Err BadBase64
      | Some pk \<Rightarrow>
          if \<not> pk_from_slice C pk \<or> kid_of C pk \<noteq> tk_kid k then Err (InvalidKey (tk_kid k))
          else if tk_state k \<notin> {''active'', ''retiring'', ''revoked''} then
            Err (InvalidKeyState (tk_state k))
          else result_bind (check_keys C ks) (\<lambda>rest. Ok (k # rest)))"

definition apply_grant_keys ::
    "Crypto \<Rightarrow> Store \<Rightarrow> GrantKeys \<Rightarrow> bool \<Rightarrow> (Store, KeyError) result" where
  "apply_grant_keys C s lst by_root =
     (if gk_version lst \<le> st_grant_keys_version s
      then Err (NotNewer (gk_version lst) (st_grant_keys_version s))
      else result_bind (check_keys C (gk_keys lst)) (\<lambda>keys.
        if \<not> by_root \<and> \<not> list_ex (\<lambda>k. tk_state k = ''active'') keys then Err NoActiveKey
        else Ok (s\<lparr>st_keys := (if keys \<noteq> [] then keys else st_keys s),
                   st_revocations := gk_revocations lst,
                   st_grant_keys_version := gk_version lst\<rparr>)))"

definition grant_store :: "Crypto \<Rightarrow> int \<Rightarrow> Signed \<Rightarrow> Store \<Rightarrow> (Store, KeyError) result" where
  "grant_store C now signed s =
     (case signer C s signed now of
        None \<Rightarrow> Err SignatureNotTrusted
      | Some (payload, by_root) \<Rightarrow>
          (case grant_keys_of C payload of
             None \<Rightarrow> Err BadPayload
           | Some lst \<Rightarrow>
               result_bind (apply_grant_keys C s lst by_root) (\<lambda>s. Ok (prune s now))))"

definition receive_grant_keys ::
    "Crypto \<Rightarrow> Enrollment option \<Rightarrow> int \<Rightarrow> bool \<Rightarrow> Signed \<Rightarrow> KeyState
       \<Rightarrow> (unit, KeyError) result \<times> KeyState" where
  "receive_grant_keys C e now disk_ok signed ks =
     (case save disk_ok (with_store C e now (\<lambda>s. keep_result (grant_store C now signed s) s) ks) of
        (Some r, ks) \<Rightarrow> (r, ks)
      | (None, ks) \<Rightarrow> (Err NotEnrolled, ks))"

definition grant_keys_version :: "Crypto \<Rightarrow> Enrollment option \<Rightarrow> int \<Rightarrow> KeyState \<Rightarrow> nat \<times> KeyState" where
  "grant_keys_version C e now ks =
     (case with_store C e now (\<lambda>s. (st_grant_keys_version s, s)) ks of
        (r, ks) \<Rightarrow> (case r of None \<Rightarrow> 0 | Some v \<Rightarrow> v, ks))"

definition revokes :: "string \<Rightarrow> string \<Rightarrow> string \<Rightarrow> Revocation \<Rightarrow> bool" where
  "revokes nonce session_id user_id r =
     (rv_nonce r = Some nonce
      \<or> (session_id \<noteq> [] \<and> rv_session_id r = Some session_id)
      \<or> (user_id \<noteq> [] \<and> rv_user_id r = Some user_id))"

definition is_revoked ::
    "Crypto \<Rightarrow> Enrollment option \<Rightarrow> int \<Rightarrow> string \<Rightarrow> string \<Rightarrow> string \<Rightarrow> KeyState \<Rightarrow> bool \<times> KeyState" where
  "is_revoked C e now nonce session_id user_id ks =
     (case with_store C e now (\<lambda>s. (list_ex (revokes nonce session_id user_id) (st_revocations s), s)) ks of
        (r, ks) \<Rightarrow> (case r of None \<Rightarrow> False | Some b \<Rightarrow> b, ks))"

section \<open>Verification\<close>

lemma find_map_Some: "find_map f xs = Some y \<Longrightarrow> \<exists>x\<in>set xs. f x = Some y"
  by (induction xs) (auto split: option.splits)

lemma find_map_None: "find_map f xs = None \<longleftrightarrow> (\<forall>x\<in>set xs. f x = None)"
  by (induction xs) (auto split: option.splits)

lemma verify_in_Some:
  "verify_in C s d kid now = Some payload \<Longrightarrow>
   \<exists>k\<in>set (st_keys s). usable k now \<and> (\<forall>x. kid = Some x \<longrightarrow> x = tk_kid k)
     \<and> verify_with C (tk_public_key k) d = Some payload"
  by (fastforce simp: verify_in_def dest: find_map_Some split: option.splits)

lemma verify_with_payload:
  "verify_with C pk d = Some payload \<Longrightarrow> decode64 C (sg_payload d) = Some payload"
  by (auto simp: verify_with_def split: option.splits if_splits)

lemma usable_prune: "usable (prune_key now k) t \<Longrightarrow> usable k t"
  by (auto simp: usable_def prune_key_def split: if_splits)

lemma prune_usable: "now \<le> t \<Longrightarrow> usable k t \<Longrightarrow> prune_key now k = k"
  by (auto simp: usable_def prune_key_def split: if_splits option.splits)

lemma prune_fields [simp]:
  "st_tenant_id (prune s now) = st_tenant_id s" "st_rotation_seq (prune s now) = st_rotation_seq s"
  "st_grant_keys_version (prune s now) = st_grant_keys_version s"
  "st_keys (prune s now) = [] \<longleftrightarrow> st_keys s = []"
  by (simp_all add: prune_def)

lemma prune_key_active [simp]: "tk_state (prune_key now k) = ''active'' \<longleftrightarrow> tk_state k = ''active''"
  by (auto simp: prune_key_def)

section \<open>Updates are authenticated and keep the store anchored\<close>

text \<open>An update by a signed document: a document that is not authentic in the current state
  changes nothing, and an update keeps the invariant.\<close>

locale authenticated_update =
  fixes update :: "'doc \<Rightarrow> 's \<Rightarrow> 's" and authentic :: "'s \<Rightarrow> 'doc \<Rightarrow> bool" and inv :: "'s \<Rightarrow> bool"
  assumes forged: "\<not> authentic s d \<Longrightarrow> update d s = s"
    and keeps: "inv s \<Longrightarrow> inv (update d s)"
begin

lemma forged_run: "\<forall>d\<in>set ds. \<not> authentic s d \<Longrightarrow> fold update ds s = s"
  by (induction ds) (simp_all add: forged)

lemma run_keeps: "inv s \<Longrightarrow> inv (fold update ds s)"
  by (induction ds arbitrary: s) (simp_all add: keeps)

end

definition rotate_keys :: "Crypto \<Rightarrow> int \<Rightarrow> Signed \<Rightarrow> Store \<Rightarrow> Store" where
  "rotate_keys C now d s = snd (keep_result (rotate_store C now d s) s)"

definition install_list :: "Crypto \<Rightarrow> int \<Rightarrow> Signed \<Rightarrow> Store \<Rightarrow> Store" where
  "install_list C now d s = snd (keep_result (grant_store C now d s) s)"

definition trusted_doc :: "Crypto \<Rightarrow> int \<Rightarrow> Store \<Rightarrow> Signed \<Rightarrow> bool" where
  "trusted_doc C now s d \<longleftrightarrow>
     (\<exists>k\<in>set (st_keys s). usable k now \<and> verify_with C (tk_public_key k) d \<noteq> None)
     \<or> verify_root C d \<noteq> None"

definition anchored :: "Store \<Rightarrow> bool" where
  "anchored s \<longleftrightarrow> (\<exists>k\<in>set (st_keys s). tk_state k = ''active'')"

lemma signer_trusted: "signer C s d now \<noteq> None \<Longrightarrow> trusted_doc C now s d"
  by (auto simp: signer_def trusted_doc_def split: option.splits dest!: verify_in_Some)

lemma signer_by_root: "signer C s d now = Some (payload, True) \<Longrightarrow> verify_root C d = Some payload"
  by (auto simp: signer_def split: option.splits)

lemma apply_rotation_Ok:
  assumes "apply_rotation C s r by_root now = Ok s'"
  shows "ro_tenant_id r = st_tenant_id s" "st_rotation_seq s < ro_seq r"
    "st_rotation_seq s' = ro_seq r" "st_tenant_id s' = st_tenant_id s"
    "st_grant_keys_version s' = st_grant_keys_version s"
    "\<exists>pk. decode64 C (ro_new_key r) = Some pk \<and> kid_of C pk = ro_new_key_id r"
    "st_keys s' = filter (\<lambda>k. tk_kid k \<noteq> ro_new_key_id r) (map (retire_key by_root now) (st_keys s))
       @ [\<lparr>tk_kid = ro_new_key_id r, tk_public_key = ro_new_key r, tk_state = ''active'',
           tk_not_after = None\<rparr>]"
  using assms by (auto simp: apply_rotation_def split: option.splits if_splits)

lemma apply_grant_keys_Ok:
  assumes "apply_grant_keys C s lst by_root = Ok s'"
  shows "st_grant_keys_version s < gk_version lst" "st_grant_keys_version s' = gk_version lst"
    "st_rotation_seq s' = st_rotation_seq s" "st_tenant_id s' = st_tenant_id s"
    "st_revocations s' = gk_revocations lst"
    "st_keys s \<noteq> [] \<Longrightarrow> st_keys s' \<noteq> []" "\<not> by_root \<Longrightarrow> anchored s'"
  using assms
  by (auto simp: apply_grant_keys_def result_bind_eq_Ok anchored_def list_ex_iff split: if_splits)

lemma rotate_keys_cases:
  "rotate_keys C now d s = s \<or>
   (\<exists>r b. signer C s d now \<noteq> None \<and> apply_rotation C s r b now = Ok (rotate_keys C now d s))"
  by (auto simp: rotate_keys_def keep_result_def rotate_store_def
      split: option.splits prod.splits result.splits)

lemma install_list_cases:
  "install_list C now d s = s \<or>
   (\<exists>lst b s'. signer C s d now \<noteq> None \<and> apply_grant_keys C s lst b = Ok s'
      \<and> install_list C now d s = prune s' now \<and> (b \<longrightarrow> verify_root C d \<noteq> None))"
proof (cases "grant_store C now d s")
  case (Ok s1)
  then obtain payload b lst s' where *: "signer C s d now = Some (payload, b)"
    "apply_grant_keys C s lst b = Ok s'" "s1 = prune s' now"
    by (auto simp: grant_store_def result_bind_eq_Ok split: option.splits)
  moreover have "b \<longrightarrow> verify_root C d \<noteq> None" using *(1) signer_by_root by fastforce
  ultimately show ?thesis using Ok by (auto simp: install_list_def keep_result_def)
qed (simp add: install_list_def keep_result_def)

lemma rotate_keys_anchored: "anchored s \<Longrightarrow> anchored (rotate_keys C now d s)"
  using rotate_keys_cases [of C now d s] by (auto simp: anchored_def dest: apply_rotation_Ok(7))

interpretation rotation: authenticated_update "rotate_keys C now" "trusted_doc C now" anchored for C now
proof unfold_locales
  show "rotate_keys C now d s = s" if "\<not> trusted_doc C now s d" for s d
    using that rotate_keys_cases [of C now d s] signer_trusted [of C s d now] by auto
  show "anchored (rotate_keys C now d s)" if "anchored s" for s d
    using that by (rule rotate_keys_anchored)
qed

interpretation grant_list: authenticated_update "install_list C now" "trusted_doc C now"
  "\<lambda>s. st_keys s \<noteq> []" for C now
proof unfold_locales
  show "install_list C now d s = s" if "\<not> trusted_doc C now s d" for s d
    using that install_list_cases [of C now d s] signer_trusted [of C s d now] by auto
  show "st_keys (install_list C now d s) \<noteq> []" if "st_keys s \<noteq> []" for s d
    using that install_list_cases [of C now d s] by (auto dest: apply_grant_keys_Ok(6))
qed

section \<open>Histories of updates\<close>

datatype KeyUpdate = RotationDoc int Signed | GrantListDoc int Signed

fun key_step :: "Crypto \<Rightarrow> KeyUpdate \<Rightarrow> Store \<Rightarrow> Store" where
  "key_step C (RotationDoc now d) s = rotate_keys C now d s"
| "key_step C (GrantListDoc now d) s = install_list C now d s"

text \<open>The counters never go back.\<close>

definition not_before :: "nat \<Rightarrow> nat \<Rightarrow> Store \<Rightarrow> bool" where
  "not_before n v s \<longleftrightarrow> n \<le> st_rotation_seq s \<and> v \<le> st_grant_keys_version s"

lemma apply_rotation_mono:
  "apply_rotation C s r b now = Ok s' \<Longrightarrow>
   st_rotation_seq s < st_rotation_seq s' \<and> st_grant_keys_version s' = st_grant_keys_version s"
  using apply_rotation_Ok [of C s r b now s'] by simp

lemma apply_grant_keys_mono:
  "apply_grant_keys C s lst b = Ok s' \<Longrightarrow>
   st_grant_keys_version s < st_grant_keys_version s' \<and> st_rotation_seq s' = st_rotation_seq s"
  using apply_grant_keys_Ok [of C s lst b s'] by simp

lemma rotate_keys_not_before: "not_before n v s \<Longrightarrow> not_before n v (rotate_keys C now d s)"
  using rotate_keys_cases [of C now d s] by (auto simp: not_before_def dest: apply_rotation_mono)

lemma install_list_not_before: "not_before n v s \<Longrightarrow> not_before n v (install_list C now d s)"
  using install_list_cases [of C now d s] by (auto simp: not_before_def dest: apply_grant_keys_mono)

interpretation key_history: guarded_machine "key_step C" "not_before n v" "\<lambda>_. True" for C n v
proof unfold_locales
  show "not_before n v (key_step C op s)" if "not_before n v s" for s op
    using that by (cases op) (simp_all add: rotate_keys_not_before install_list_not_before)
qed

section \<open>The store a caller sees\<close>

definition current_store :: "Crypto \<Rightarrow> Enrollment option \<Rightarrow> int \<Rightarrow> KeyState \<Rightarrow> Store option" where
  "current_store C e now ks =
     (case e of
        None \<Rightarrow> None
      | Some e \<Rightarrow>
          map_option (\<lambda>s. prune s now)
            (case ks_mem ks of
               None \<Rightarrow> load C e (ks_file ks)
             | Some s \<Rightarrow> if st_tenant_id s \<noteq> en_tenant_id e then load C e (ks_file ks) else Some s))"

lemma with_store_current:
  "with_store C e now f ks =
     (case current_store C e now ks of
        None \<Rightarrow> (None, if e = None then ks else ks\<lparr>ks_mem := None\<rparr>)
      | Some s \<Rightarrow> (Some (fst (f s)), ks\<lparr>ks_mem := Some (snd (f s))\<rparr>))"
  by (auto simp: with_store_def current_store_def Let_def split: option.splits prod.splits)

lemma current_store_tenant: "current_store C (Some e) now ks = Some s \<Longrightarrow> st_tenant_id s = en_tenant_id e"
  by (auto simp: current_store_def load_def initial_def split: option.splits if_splits)

lemma prune_key_idem: "prune_key now (prune_key now k) = prune_key now k"
  by (simp add: prune_key_def)

lemma prune_idem [simp]: "prune (prune s now) now = prune s now"
  by (simp add: prune_def prune_key_idem o_def)

lemma current_store_again:
  "current_store C e now ks = Some s \<Longrightarrow> current_store C e now (ks\<lparr>ks_mem := Some s\<rparr>) = Some s"
proof (cases e)
  case (Some en)
  assume a: "current_store C e now ks = Some s"
  then obtain s0 where "s = prune s0 now" unfolding current_store_def Some by auto
  then have "prune s now = s" by simp
  moreover have "st_tenant_id s = en_tenant_id en" using a current_store_tenant Some by blast
  ultimately show ?thesis by (simp add: current_store_def Some)
qed (simp add: current_store_def)

lemma verify_current:
  "current_store C e now ks = Some s \<Longrightarrow>
   verify C e now d kid ks =
     (case verify_in C s d kid now of Some payload \<Rightarrow> Ok payload | None \<Rightarrow> Err SignatureNotValid,
      ks\<lparr>ks_mem := Some s\<rparr>)"
  by (simp add: verify_def with_store_current split: option.splits)

lemma verify_no_store: "current_store C e now ks = None \<Longrightarrow> fst (verify C e now d kid ks) = Err NotEnrolled"
  by (simp add: verify_def with_store_current)

lemma verify_Ok:
  assumes "fst (verify C e now d kid ks) = Ok payload"
  shows "\<exists>s k. current_store C e now ks = Some s \<and> k \<in> set (st_keys s) \<and> usable k now
    \<and> verify_with C (tk_public_key k) d = Some payload"
proof (cases "current_store C e now ks")
  case None
  from verify_no_store [OF this] assms show ?thesis by simp
next
  case (Some s)
  with assms have "verify_in C s d kid now = Some payload"
    by (auto simp: verify_current split: option.splits)
  from verify_in_Some [OF this] Some show ?thesis by blast
qed

lemma is_revoked_current:
  "current_store C e now ks = Some s \<Longrightarrow>
   is_revoked C e now nonce sid uid ks =
     (list_ex (revokes nonce sid uid) (st_revocations s), ks\<lparr>ks_mem := Some s\<rparr>)"
  by (simp add: is_revoked_def with_store_current)

lemma receive_rotation_current:
  assumes "current_store C e now ks = Some s"
  shows "receive_rotation C e now disk_ok d ks =
    (case rotate_store C now d s of
       Ok s' \<Rightarrow> (Some (Ok ()), ks\<lparr>ks_mem := Some s', ks_file := if disk_ok then Some s' else ks_file ks\<rparr>)
     | Err x \<Rightarrow> (Some (Err x), ks\<lparr>ks_mem := Some s\<rparr>))"
  using assms by (auto simp: receive_rotation_def with_store_current save_def keep_result_def
      split: result.splits)

text \<open>A store and a crypto for concrete runs: a signature is the public key followed by the
  payload, the payload \<open>''R''\<close> is a rotation to the key \<open>''k2''\<close>.\<close>

definition toy_rotation :: Rotation where
  "toy_rotation = \<lparr>ro_kind = ''tenant_key_rotation'', ro_tenant_id = ''t1'', ro_new_key = ''k2'',
     ro_new_key_id = ''k2'', ro_valid_from = 0, ro_seq = 1\<rparr>"

definition toy :: Crypto where
  "toy = \<lparr>decode64 = (\<lambda>s. Some (map of_char s)), encode64 = map char_of, sha256 = (\<lambda>b. b),
     pk_from_slice = (\<lambda>b. length b = 2), sig_from_bytes = (\<lambda>_. True),
     verify_detached = (\<lambda>sig payload pk. sig = pk @ payload), root_key = None,
     rotation_of = (\<lambda>b. if b = map of_char ''R'' then Some toy_rotation else None),
     grant_keys_of = (\<lambda>_. None)\<rparr>"

definition toy_enrollment :: Enrollment where
  "toy_enrollment = \<lparr>en_device_id = ''d1'', en_tenant_id = ''t1'', en_tenant_name = ''Acme'',
     en_tenant_key = ''k1'', en_enrolled_at = 0, en_api = ''https://a''\<rparr>"

definition toy_store :: Store where
  "toy_store = the (initial toy toy_enrollment)"

lemma toy_store_eq: "toy_store = \<lparr>st_tenant_id = ''t1'', st_keys = [\<lparr>tk_kid = ''k1'',
    tk_public_key = ''k1'', tk_state = ''active'', tk_not_after = None\<rparr>],
    st_rotation_seq = 0, st_grant_keys_version = 0, st_revocations = []\<rparr>"
  by code_simp

lemma toy_current: "current_store toy (Some toy_enrollment) 100 \<lparr>ks_mem = None, ks_file = None\<rparr> = Some toy_store"
  by code_simp

definition toy_rotated :: Store where
  "toy_rotated = toy_store\<lparr>st_keys := [\<lparr>tk_kid = ''k1'', tk_public_key = ''k1'',
     tk_state = ''retiring'', tk_not_after = Some (100 + RETIRING_SECS)\<rparr>,
     \<lparr>tk_kid = ''k2'', tk_public_key = ''k2'', tk_state = ''active'', tk_not_after = None\<rparr>],
     st_rotation_seq := 1\<rparr>"

lemma toy_apply: "apply_rotation toy toy_store toy_rotation False 100 = Ok toy_rotated"
  by code_simp

section \<open>Properties\<close>

text \<open>C25: a key rotation takes effect only when a usable key of the tenant's current store, or the
  root key, signed it; the accepted store has a higher rotation number, and is what the state file
  holds when the write succeeds.\<close>

theorem rotation_authentic:
  assumes "receive_rotation C (Some e) now disk_ok d ks = (Some (Ok ()), ks')"
  shows "\<exists>s s'. current_store C (Some e) now ks = Some s \<and> trusted_doc C now s d
    \<and> ks_mem ks' = Some s' \<and> st_tenant_id s' = en_tenant_id e
    \<and> st_rotation_seq s < st_rotation_seq s' \<and> anchored s'
    \<and> ks_file ks' = (if disk_ok then Some s' else ks_file ks)"
proof -
  obtain s where s: "current_store C (Some e) now ks = Some s"
    using assms by (cases "current_store C (Some e) now ks")
      (auto simp: receive_rotation_def with_store_current save_def)
  with assms obtain s' where s': "rotate_store C now d s = Ok s'"
    and ks': "ks' = ks\<lparr>ks_mem := Some s', ks_file := if disk_ok then Some s' else ks_file ks\<rparr>"
    by (auto simp: receive_rotation_current split: result.splits)
  from s' obtain r b where sg: "signer C s d now \<noteq> None" and ar: "apply_rotation C s r b now = Ok s'"
    by (auto simp: rotate_store_def split: option.splits)
  have "anchored s'" unfolding anchored_def apply_rotation_Ok(7) [OF ar] by simp
  then show ?thesis
    using s ks' signer_trusted [OF sg] apply_rotation_mono [OF ar] apply_rotation_Ok(4) [OF ar]
      current_store_tenant [OF s] by auto
qed

lemma toy_receive:
  "receive_rotation toy (Some toy_enrollment) 100 True \<lparr>sg_payload = ''R'', sg_signature = ''k1R''\<rparr>
     \<lparr>ks_mem = None, ks_file = None\<rparr>
   = (Some (Ok ()), \<lparr>ks_mem = Some toy_rotated, ks_file = Some toy_rotated\<rparr>)"
  by code_simp

theorem rotation_authentic_witness:
  "\<exists>s s'. current_store toy (Some toy_enrollment) 100 \<lparr>ks_mem = None, ks_file = None\<rparr> = Some s
    \<and> trusted_doc toy 100 s \<lparr>sg_payload = ''R'', sg_signature = ''k1R''\<rparr>
    \<and> Some toy_rotated = Some s' \<and> st_tenant_id s' = ''t1''
    \<and> st_rotation_seq s < st_rotation_seq s' \<and> anchored s'"
  using rotation_authentic [OF toy_receive] by (auto simp: toy_enrollment_def)

text \<open>Which keys verify after a rotation. After one by the root key only the new key does; after
  an ordinary one a key that was active verifies for seven days more and then never again, and a
  key that was already retiring gains no time.\<close>

theorem rotation_usable_keys:
  assumes "apply_rotation C s r by_root now = Ok s'" "k' \<in> set (st_keys s')" "usable k' t"
  shows "tk_kid k' = ro_new_key_id r \<and> tk_public_key k' = ro_new_key r \<or>
    (\<not> by_root \<and> (\<exists>k\<in>set (st_keys s). tk_public_key k' = tk_public_key k \<and> tk_kid k' = tk_kid k
       \<and> (if tk_state k = ''active'' then t < now + RETIRING_SECS else usable k t)))"
  using assms(2,3) unfolding apply_rotation_Ok(7) [OF assms(1)]
  by (fastforce simp: retire_key_def usable_def split: if_splits)

theorem rotation_usable_keys_witness:
  "tk_kid (hd (st_keys toy_rotated)) = ro_new_key_id toy_rotation
     \<and> tk_public_key (hd (st_keys toy_rotated)) = ro_new_key toy_rotation \<or>
   (\<not> False \<and> (\<exists>k\<in>set (st_keys toy_store). tk_public_key (hd (st_keys toy_rotated)) = tk_public_key k
      \<and> tk_kid (hd (st_keys toy_rotated)) = tk_kid k
      \<and> (if tk_state k = ''active'' then 200 < 100 + RETIRING_SECS else usable k 200)))"
proof (rule rotation_usable_keys [OF toy_apply])
  show "hd (st_keys toy_rotated) \<in> set (st_keys toy_rotated)" by code_simp
  show "usable (hd (st_keys toy_rotated)) 200" by code_simp
qed

text \<open>A rotation document that was applied is refused ever after, whatever rotations and key
  lists were received in between, and so is every rotation with a lower number; the same holds
  for key lists and their version.\<close>

theorem key_updates_not_replayed:
  assumes "s' = fold (key_step C) us s"
  shows "(ro_seq r \<le> st_rotation_seq s \<longrightarrow> \<not> is_ok (apply_rotation C s' r b now))
    \<and> (gk_version lst \<le> st_grant_keys_version s \<longrightarrow> \<not> is_ok (apply_grant_keys C s' lst b))"
proof -
  have "not_before (st_rotation_seq s) (st_grant_keys_version s) s'"
    unfolding assms by (rule key_history.run_inv) (simp_all add: not_before_def)
  then show ?thesis
    by (auto simp: not_before_def is_ok_iff dest: apply_rotation_Ok(2) apply_grant_keys_Ok(1))
qed

theorem key_updates_not_replayed_witness:
  "\<not> is_ok (apply_rotation toy (fold (key_step toy) [] toy_rotated) toy_rotation False 500)"
  using key_updates_not_replayed [OF refl, where C = toy and us = "[]" and s = toy_rotated
      and r = toy_rotation and b = False and now = 500]
  by (simp add: toy_rotation_def toy_rotated_def)

text \<open>An attacker without a trusted key leaves the store unchanged with any sequence of
  rotations and key lists, and no sequence of rotations leaves the device without an active key;
  only a list signed by the root key can.\<close>

theorem forged_updates_ignored:
  "((\<forall>d\<in>set ds. \<not> trusted_doc C now s d) \<longrightarrow>
      fold (rotate_keys C now) ds s = s \<and> fold (install_list C now) ds s = s)
   \<and> (anchored s \<longrightarrow> anchored (fold (rotate_keys C now) ds s))
   \<and> (anchored s \<and> verify_root C d = None \<longrightarrow> anchored (install_list C now d s))"
proof (intro conjI impI)
  assume "anchored s \<and> verify_root C d = None"
  with install_list_cases [of C now d s] show "anchored (install_list C now d s)"
    by (fastforce simp: anchored_def prune_def dest: apply_grant_keys_Ok(7) [unfolded anchored_def])
qed (auto intro: rotation.forged_run grant_list.forged_run rotation.run_keeps)

theorem forged_updates_ignored_witness:
  "fold (rotate_keys toy 100) [\<lparr>sg_payload = ''R'', sg_signature = ''k2R''\<rparr>] toy_store = toy_store"
proof -
  have "\<forall>d\<in>set [\<lparr>sg_payload = ''R'', sg_signature = ''k2R''\<rparr>]. \<not> trusted_doc toy 100 toy_store d"
    by code_simp
  then show ?thesis using forged_updates_ignored by blast
qed

end
