(* ===== verification/Session_Grant.thy ===== *)
theory Session_Grant
  imports Tenant_Keys
begin

text \<open>
  Session grants, \<^verbatim>\<open>src/src/clanto/session_grant.rs\<close>: the host's decision on a login, the
  nonces already used, the table of active sessions with the commands that close or block them,
  and the controller's cache of fetched grants. \<open>GrantJson\<close> stands for \<open>serde_json\<close>; the access
  mode of the policy, the clock and the outcome of file and network operations are arguments. One
  clock reading serves a whole decision.
\<close>

section \<open>Model\<close>

definition CLOCK_SKEW_SECS :: int where "CLOCK_SKEW_SECS = 120"
definition CONTROLLER_GRANT_TTL :: nat where "CONTROLLER_GRANT_TTL = 280 * 1000"
definition MSG_GRANT_REQUIRED :: string where "MSG_GRANT_REQUIRED = ''clanto_grant_required''"
definition MSG_GRANT_INVALID :: string where "MSG_GRANT_INVALID = ''clanto_grant_invalid''"
definition MSG_SESSIONS_BLOCKED :: string where "MSG_SESSIONS_BLOCKED = ''clanto_sessions_blocked''"

record Requirements =
  rq_account :: bool
  rq_password :: bool
  rq_confirm :: bool

definition requirements :: "string \<Rightarrow> Requirements" where
  "requirements access_mode =
     (case (if access_mode = ''account_password'' \<or> access_mode = ''account_2fa_password''
            then (True, True, False)
            else if access_mode = ''account_2fa'' then (True, False, False)
            else if access_mode = ''account_2fa_confirm'' then (True, False, True)
            else (False, True, False)) of
        (account, password, confirm) \<Rightarrow>
          \<lparr>rq_account = account, rq_password = password, rq_confirm = confirm\<rparr>)"

record GrantInfo =
  gi_session_id :: string
  gi_user_id :: string
  gi_username :: string
  gi_nonce :: string
  gi_permissions :: "string list"
  gi_max_duration_s :: nat
  gi_needs :: Requirements

definition grant_allows :: "GrantInfo \<Rightarrow> string \<Rightarrow> bool" where
  "grant_allows g permission =
     (gi_permissions g = [] \<or> list_ex (\<lambda>p. p = permission) (gi_permissions g))"

datatype Decision =
    Unmanaged
  | Refuse (refuse_code: string) (refuse_message: string) (refuse_session: string) (refuse_nonce: string)
  | Grant GrantInfo

record Constraints =
  co_max_duration_s :: nat
  co_permissions :: "string list"
  co_not_before :: int
  co_expires_at :: int

record GrantPayload =
  gp_kind :: string
  gp_kid :: "string option"
  gp_tenant_id :: string
  gp_device_id :: string
  gp_session_id :: string
  gp_user_id :: string
  gp_username :: string
  gp_requires :: "string list"
  gp_constraints :: Constraints
  gp_nonce :: string

record GrantJson =
  gj_signed :: "string \<Rightarrow> Signed option"
  gj_payload :: "bytes \<Rightarrow> GrantPayload option"

text \<open>The result of an addition of two \<open>i64\<close> in a release build.\<close>

definition wrap_i64 :: "int \<Rightarrow> int" where
  "wrap_i64 n = (n + 9223372036854775808) mod 18446744073709551616 - 9223372036854775808"


definition mark_seen ::
    "string \<Rightarrow> int \<Rightarrow> int \<Rightarrow> (string \<times> int) list \<Rightarrow> bool \<times> (string \<times> int) list" where
  "mark_seen nonce until now seen =
     (let seen = filter (\<lambda>(_, t). t > now) seen in
      if list_ex (\<lambda>(n, _). n = nonce) seen then (False, seen)
      else (True, seen @ [(nonce, wrap_i64 (until + CLOCK_SKEW_SECS))]))"

definition check_payload ::
    "GrantPayload \<Rightarrow> Enrollment \<Rightarrow> Requirements \<Rightarrow> int \<Rightarrow> (GrantInfo, string) result" where
  "check_payload p e loc now =
     (if gp_kind p \<noteq> ''session_grant'' then Err ''signature_invalid''
      else if gp_tenant_id p \<noteq> en_tenant_id e \<or> gp_device_id p \<noteq> en_device_id e
      then Err ''device_mismatch''
      else if now + CLOCK_SKEW_SECS < co_not_before (gp_constraints p)
              \<or> now - CLOCK_SKEW_SECS > co_expires_at (gp_constraints p)
      then Err ''expired''
      else if gp_nonce p = [] \<or> gp_session_id p = [] then Err ''signature_invalid''
      else
        (let wants = (\<lambda>r. list_ex (\<lambda>x. x = r) (gp_requires p)) in
         Ok \<lparr>gi_session_id = gp_session_id p, gi_user_id = gp_user_id p,
              gi_username = gp_username p, gi_nonce = gp_nonce p,
              gi_permissions = co_permissions (gp_constraints p),
              gi_max_duration_s = co_max_duration_s (gp_constraints p),
              gi_needs = \<lparr>rq_account = True,
                rq_password = rq_password loc \<or> wants ''password'',
                rq_confirm = rq_confirm loc \<or> wants ''confirm'' \<or> wants ''consent''\<rparr>\<rparr>))"

record GrantState =
  gs_keys :: KeyState
  gs_seen :: "(string \<times> int) list"
  gs_blocked :: bool

text \<open>From the readable payload on: the named key, the payload's checks, revocation and replay.\<close>

definition evaluate_payload ::
    "Crypto \<Rightarrow> Enrollment \<Rightarrow> Requirements \<Rightarrow> int \<Rightarrow> Signed \<Rightarrow> GrantPayload \<Rightarrow> GrantState
       \<Rightarrow> Decision \<times> GrantState" where
  "evaluate_payload C en loc now signed p gs =
     (let refuse_known = (\<lambda>code. Refuse code MSG_GRANT_INVALID (gp_session_id p) (gp_nonce p));
          (kid_ok, ks) =
            (case gp_kid p of
               None \<Rightarrow> (True, gs_keys gs)
             | Some kid \<Rightarrow>
                 (case Tenant_Keys.verify C (Some en) now signed (Some kid) (gs_keys gs) of
                    (r, ks) \<Rightarrow> (is_ok r, ks)));
          gs = gs\<lparr>gs_keys := ks\<rparr>
      in
      if \<not> kid_ok then (refuse_known ''kid_unknown'', gs)
      else
        (case check_payload p en loc now of
           Err code \<Rightarrow>
             (if code = ''device_mismatch'' then Refuse code MSG_GRANT_INVALID [] []
              else refuse_known code, gs)
         | Ok info \<Rightarrow>
             (let (revoked, ks) = is_revoked C (Some en) now (gi_nonce info) (gi_session_id info)
                    (gi_user_id info) (gs_keys gs);
                  gs = gs\<lparr>gs_keys := ks\<rparr>
              in
              if revoked then (refuse_known ''revoked'', gs)
              else
                (let (fresh, seen) = mark_seen (gi_nonce info) (co_expires_at (gp_constraints p)) now
                       (gs_seen gs);
                     gs = gs\<lparr>gs_seen := seen\<rparr>
                 in if \<not> fresh then (refuse_known ''replayed'', gs) else (Grant info, gs)))))"

definition evaluate ::
    "Crypto \<Rightarrow> GrantJson \<Rightarrow> Enrollment option \<Rightarrow> string \<Rightarrow> string \<Rightarrow> int \<Rightarrow> GrantState
       \<Rightarrow> Decision \<times> GrantState" where
  "evaluate C J e access_mode grant now gs =
     (case e of
        None \<Rightarrow> (Unmanaged, gs)
      | Some en \<Rightarrow>
          (let loc = requirements access_mode;
               refuse = (\<lambda>code. Refuse code MSG_GRANT_INVALID [] [])
           in
           if gs_blocked gs then (Refuse ''sessions_blocked'' MSG_SESSIONS_BLOCKED [] [], gs)
           else if trim grant = [] then
             (if rq_account loc then (Refuse ''grant_required'' MSG_GRANT_REQUIRED [] [], gs)
              else (Unmanaged, gs))
           else
             (case gj_signed J grant of
                None \<Rightarrow> (refuse ''signature_invalid'', gs)
              | Some signed \<Rightarrow>
                  (let (verified, ks) = Tenant_Keys.verify C e now signed None (gs_keys gs);
                       gs = gs\<lparr>gs_keys := ks\<rparr>
                   in case verified of
                        Err _ \<Rightarrow> (refuse ''signature_invalid'', gs)
                      | Ok payload \<Rightarrow>
                          (case gj_payload J payload of
                             None \<Rightarrow> (refuse ''signature_invalid'', gs)
                           | Some p \<Rightarrow> evaluate_payload C en loc now signed p gs)))))"

section \<open>Model: active sessions\<close>

record Active =
  ac_session_id :: string
  ac_started :: nat

type_synonym ActiveTable = "(int \<times> Active) list"

text \<open>\<open>register\<close> returns the duration limit of the timer it starts (in milliseconds), if any.\<close>

definition register :: "int \<Rightarrow> GrantInfo \<Rightarrow> nat \<Rightarrow> ActiveTable \<Rightarrow> nat option \<times> ActiveTable" where
  "register conn_id info now tab =
     (if gi_max_duration_s info = 0 then None else Some (gi_max_duration_s info * 1000),
      assoc_insert conn_id \<lparr>ac_session_id = gi_session_id info, ac_started = now\<rparr> tab)"

text \<open>What the timer does when it fires at \<open>now\<close>: the connections it disconnects.\<close>

definition limit_reached :: "int \<Rightarrow> string \<Rightarrow> nat \<Rightarrow> nat \<Rightarrow> ActiveTable \<Rightarrow> int list" where
  "limit_reached conn_id session_id limit now tab =
     (case map_of tab conn_id of
        None \<Rightarrow> []
      | Some a \<Rightarrow> if ac_session_id a = session_id \<and> now - ac_started a \<ge> limit then [conn_id] else [])"

definition unregister :: "int \<Rightarrow> ActiveTable \<Rightarrow> ActiveTable" where
  "unregister conn_id tab = assoc_remove conn_id tab"

text \<open>The answer and the connections to disconnect.\<close>

definition close_session :: "string \<Rightarrow> ActiveTable \<Rightarrow> bool \<times> int list" where
  "close_session session_id tab =
     (let conns = map fst (filter (\<lambda>(_, a). ac_session_id a = session_id) tab);
          found = conns \<noteq> []
      in (found, if found then conns else []))"

definition set_sessions_blocked ::
    "bool \<Rightarrow> bool \<Rightarrow> int list \<Rightarrow> ActiveTable \<Rightarrow> GrantState \<Rightarrow> bool \<times> int list \<times> GrantState" where
  "set_sessions_blocked blocked io_ok authed tab gs =
     (let ok = (if blocked then io_ok else \<not> gs_blocked gs \<or> io_ok);
          gs' = (if blocked then (if io_ok then gs\<lparr>gs_blocked := True\<rparr> else gs)
                 else if io_ok then gs\<lparr>gs_blocked := False\<rparr> else gs);
          conns = (if blocked then remdups_adj (sort (map fst tab @ authed)) else [])
      in (ok, conns, gs'))"

section \<open>Model: controller\<close>

record Fetched =
  fe_at :: nat
  fe_grant :: string
  fe_session_id :: string

text \<open>The reply of \<open>POST /sessions\<close>: status, the grant when it is an object, the session.\<close>

definition request_session ::
    "string \<Rightarrow> bool \<Rightarrow> (nat \<times> string option \<times> string option) option \<Rightarrow> nat
       \<Rightarrow> (string \<times> Fetched) list \<Rightarrow> (string \<times> Fetched) list" where
  "request_session peer_id has_account reply now fetched =
     (if \<not> has_account then fetched
      else
        (case reply of
           None \<Rightarrow> fetched
         | Some (status, grant, session_id) \<Rightarrow>
             if \<not> (200 \<le> status \<and> status < 300) then fetched
             else
               (case (grant, session_id) of
                  (Some grant, Some session_id) \<Rightarrow>
                    assoc_insert peer_id
                      \<lparr>fe_at = now, fe_grant = grant, fe_session_id = session_id\<rparr> fetched
                | _ \<Rightarrow> fetched)))"

definition grant_for :: "string \<Rightarrow> nat \<Rightarrow> (string \<times> Fetched) list \<Rightarrow> string" where
  "grant_for peer_id now fetched =
     (case map_of fetched peer_id of
        None \<Rightarrow> []
      | Some f \<Rightarrow> if now - fe_at f < CONTROLLER_GRANT_TTL then fe_grant f else [])"

text \<open>The session to close on the server, if any, and the cache without it.\<close>

definition controller_closed ::
    "string \<Rightarrow> bool \<Rightarrow> (string \<times> Fetched) list \<Rightarrow> string option \<times> (string \<times> Fetched) list" where
  "controller_closed peer_id has_account fetched =
     (case map_of fetched peer_id of
        None \<Rightarrow> (None, fetched)
      | Some f \<Rightarrow> (if has_account then Some (fe_session_id f) else None, assoc_remove peer_id fetched))"

section \<open>What a granted login has passed\<close>

lemma mark_seen_True:
  assumes "mark_seen nonce until now seen = (True, seen')"
  shows "(nonce, t) \<in> set seen \<Longrightarrow> t \<le> now"
    and "seen' = filter (\<lambda>(_, t). t > now) seen @ [(nonce, wrap_i64 (until + CLOCK_SKEW_SECS))]"
  using assms by (fastforce simp: mark_seen_def Let_def list_ex_iff split: if_splits)+


text \<open>The checks of \<open>evaluate\<close> that precede the nonce, as one predicate.\<close>

definition passes ::
    "Crypto \<Rightarrow> GrantJson \<Rightarrow> Enrollment \<Rightarrow> string \<Rightarrow> string \<Rightarrow> int \<Rightarrow> KeyState \<Rightarrow> GrantPayload
       \<Rightarrow> GrantInfo \<Rightarrow> bool" where
  "passes C J en mode grant now ks p info \<longleftrightarrow>
     (\<exists>signed payload s k. gj_signed J grant = Some signed
        \<and> current_store C (Some en) now ks = Some s
        \<and> k \<in> set (st_keys s) \<and> usable k now
        \<and> verify_with C (tk_public_key k) signed = Some payload
        \<and> gj_payload J payload = Some p
        \<and> (\<forall>kid. gp_kid p = Some kid \<longrightarrow> verify_in C s signed (Some kid) now \<noteq> None)
        \<and> check_payload p en (requirements mode) now = Ok info
        \<and> \<not> list_ex (revokes (gi_nonce info) (gi_session_id info) (gi_user_id info)) (st_revocations s))"

lemma evaluate_payload_Grant:
  assumes "evaluate_payload C en loc now signed p gs = (Grant info, gs')"
    and s: "current_store C (Some en) now (gs_keys gs) = Some s"
  shows "(\<forall>kid. gp_kid p = Some kid \<longrightarrow> verify_in C s signed (Some kid) now \<noteq> None)
    \<and> check_payload p en loc now = Ok info
    \<and> \<not> list_ex (revokes (gi_nonce info) (gi_session_id info) (gi_user_id info)) (st_revocations s)
    \<and> mark_seen (gi_nonce info) (co_expires_at (gp_constraints p)) now (gs_seen gs) = (True, gs_seen gs')"
  using assms(1)
  by (cases "gp_kid p")
    (auto simp: evaluate_payload_def Let_def verify_current [OF s] is_revoked_current [OF s]
      is_revoked_current [OF current_store_again [OF s]] split: result.splits if_splits prod.splits option.splits)

lemma evaluate_Grant:
  assumes "evaluate C J e mode grant now gs = (Grant info, gs')"
  shows "\<exists>en p. e = Some en \<and> \<not> gs_blocked gs \<and> passes C J en mode grant now (gs_keys gs) p info
    \<and> mark_seen (gi_nonce info) (co_expires_at (gp_constraints p)) now (gs_seen gs) = (True, gs_seen gs')"
proof (cases e)
  case None
  with assms show ?thesis by (simp add: evaluate_def)
next
  case (Some en)
  let ?ks = "gs_keys gs"
  note ev = assms [unfolded evaluate_def Some Let_def, simplified]
  from ev have nb: "\<not> gs_blocked gs" and nt: "trim grant \<noteq> []" by (auto split: if_splits)
  from ev nb nt obtain signed where signed: "gj_signed J grant = Some signed"
    by (auto split: option.splits)
  obtain s where s: "current_store C (Some en) now ?ks = Some s"
  proof (cases "current_store C (Some en) now ?ks")
    case None
    from verify_no_store [OF this, of signed None] ev nb nt signed show ?thesis
      by (auto split: prod.splits)
  qed auto
  from ev nb nt signed obtain payload p where p: "verify_in C s signed None now = Some payload"
      "gj_payload J payload = Some p"
      "evaluate_payload C en (requirements mode) now signed p (gs\<lparr>gs_keys := ?ks\<lparr>ks_mem := Some s\<rparr>\<rparr>)
         = (Grant info, gs')"
    by (auto simp: verify_current [OF s] split: option.splits)
  have "current_store C (Some en) now (gs_keys (gs\<lparr>gs_keys := ?ks\<lparr>ks_mem := Some s\<rparr>\<rparr>)) = Some s"
    using current_store_again [OF s] by simp
  from evaluate_payload_Grant [OF p(3) this] Some nb signed s p(2) verify_in_Some [OF p(1)]
  show ?thesis unfolding passes_def by auto
qed

section \<open>One use per nonce\<close>







section \<open>A concrete login\<close>

definition toy_payload :: GrantPayload where
  "toy_payload = \<lparr>gp_kind = ''session_grant'', gp_kid = Some ''k1'', gp_tenant_id = ''t1'',
     gp_device_id = ''d1'', gp_session_id = ''s1'', gp_user_id = ''u1'', gp_username = ''tech'',
     gp_requires = [''consent''],
     gp_constraints = \<lparr>co_max_duration_s = 60, co_permissions = [], co_not_before = 900,
       co_expires_at = 1000\<rparr>, gp_nonce = ''n1''\<rparr>"

definition toy_json :: GrantJson where
  "toy_json = \<lparr>gj_signed = (\<lambda>g. Some \<lparr>sg_payload = g, sg_signature = ''k1'' @ g\<rparr>),
     gj_payload = (\<lambda>b. Some toy_payload)\<rparr>"

definition toy_info :: GrantInfo where
  "toy_info = \<lparr>gi_session_id = ''s1'', gi_user_id = ''u1'', gi_username = ''tech'', gi_nonce = ''n1'',
     gi_permissions = [], gi_max_duration_s = 60,
     gi_needs = \<lparr>rq_account = True, rq_password = False, rq_confirm = True\<rparr>\<rparr>"

definition toy_grants :: GrantState where
  "toy_grants = \<lparr>gs_keys = \<lparr>ks_mem = Some toy_store, ks_file = None\<rparr>, gs_seen = [], gs_blocked = False\<rparr>"

definition toy_used :: GrantState where
  "toy_used = toy_grants\<lparr>gs_seen := [(''n1'', 1120)]\<rparr>"

lemma toy_login:
  "evaluate toy toy_json (Some toy_enrollment) ''account_2fa'' ''g'' 950 toy_grants = (Grant toy_info, toy_used)"
  by code_simp

section \<open>Properties\<close>

text \<open>C3: a login is granted only on an enrolled device whose sessions are not blocked, with a
  document that a usable key of the tenant signed, issued for this tenant and device, inside its
  validity window (two minutes of clock skew), not revoked and with a nonce not held as used; and
  the login then asks for the password or the confirmation whenever the local policy does.\<close>

theorem grant_checked:
  assumes "evaluate C J e mode grant now gs = (Grant info, gs')"
  shows "\<exists>en s k signed payload p. e = Some en \<and> \<not> gs_blocked gs
    \<and> current_store C e now (gs_keys gs) = Some s \<and> gj_signed J grant = Some signed
    \<and> k \<in> set (st_keys s) \<and> usable k now \<and> verify_with C (tk_public_key k) signed = Some payload
    \<and> gj_payload J payload = Some p \<and> gp_kind p = ''session_grant''
    \<and> gp_tenant_id p = en_tenant_id en \<and> gp_device_id p = en_device_id en
    \<and> co_not_before (gp_constraints p) \<le> now + 120 \<and> now \<le> co_expires_at (gp_constraints p) + 120
    \<and> gi_nonce info = gp_nonce p \<and> gi_nonce info \<noteq> [] \<and> gi_session_id info = gp_session_id p
    \<and> (\<forall>r\<in>set (st_revocations s). \<not> revokes (gi_nonce info) (gi_session_id info) (gi_user_id info) r)
    \<and> (\<forall>t. (gi_nonce info, t) \<in> set (gs_seen gs) \<longrightarrow> t \<le> now)
    \<and> (rq_password (requirements mode) \<longrightarrow> rq_password (gi_needs info))
    \<and> (rq_confirm (requirements mode) \<longrightarrow> rq_confirm (gi_needs info))"
proof -
  from evaluate_Grant [OF assms] obtain en p where e: "e = Some en" "\<not> gs_blocked gs"
    and pass: "passes C J en mode grant now (gs_keys gs) p info"
    and mark: "mark_seen (gi_nonce info) (co_expires_at (gp_constraints p)) now (gs_seen gs) = (True, gs_seen gs')"
    by blast
  from pass obtain signed payload s k where *: "gj_signed J grant = Some signed"
      "current_store C (Some en) now (gs_keys gs) = Some s" "k \<in> set (st_keys s)" "usable k now"
      "verify_with C (tk_public_key k) signed = Some payload" "gj_payload J payload = Some p"
      "check_payload p en (requirements mode) now = Ok info"
      "\<not> list_ex (revokes (gi_nonce info) (gi_session_id info) (gi_user_id info)) (st_revocations s)"
    unfolding passes_def by blast
  from *(7) have chk: "gp_kind p = ''session_grant''" "gp_tenant_id p = en_tenant_id en"
      "gp_device_id p = en_device_id en" "co_not_before (gp_constraints p) \<le> now + 120"
      "now \<le> co_expires_at (gp_constraints p) + 120" "gi_nonce info = gp_nonce p" "gi_nonce info \<noteq> []"
      "gi_session_id info = gp_session_id p"
      "rq_password (requirements mode) \<longrightarrow> rq_password (gi_needs info)"
      "rq_confirm (requirements mode) \<longrightarrow> rq_confirm (gi_needs info)"
    by (auto simp: check_payload_def Let_def CLOCK_SKEW_SECS_def split: if_splits)
  show ?thesis
    using e * chk mark_seen_True(1) [OF mark] unfolding list_ex_iff by blast
qed

theorem grant_checked_witness:
  "\<exists>en s k signed payload p. Some toy_enrollment = Some en \<and> \<not> gs_blocked toy_grants
    \<and> current_store toy (Some toy_enrollment) 950 (gs_keys toy_grants) = Some s
    \<and> gj_signed toy_json ''g'' = Some signed
    \<and> k \<in> set (st_keys s) \<and> usable k 950 \<and> verify_with toy (tk_public_key k) signed = Some payload
    \<and> gj_payload toy_json payload = Some p \<and> co_not_before (gp_constraints p) \<le> 950 + 120"
  using grant_checked [OF toy_login] by blast





text \<open>A document that expires in the last 120 seconds of the \<open>i64\<close> range is accepted, but the time until which its nonce
  is held wraps to the past: the nonce is forgotten at the next login and the same document is granted again.\<close>

theorem grant_replayed_far_expiry:
  "\<exists>C J e mode grant gs now info gs1 gs2.
     evaluate C J e mode grant now gs = (Grant info, gs1) \<and> evaluate C J e mode grant now gs1 = (Grant info, gs2)"
proof -
  let ?J = "toy_json\<lparr>gj_payload := (\<lambda>b. Some (toy_payload\<lparr>gp_constraints := (gp_constraints toy_payload)\<lparr>co_expires_at := i64_max\<rparr>\<rparr>))\<rparr>"
  have "case evaluate toy ?J (Some toy_enrollment) ''account_2fa'' ''g'' 950 toy_grants of (r, gs1) \<Rightarrow>
      r = Grant toy_info \<and> fst (evaluate toy ?J (Some toy_enrollment) ''account_2fa'' ''g'' 950 gs1) = Grant toy_info"
    by code_simp
  then show ?thesis by (auto split: prod.splits) (metis prod.collapse)
qed

text \<open>The limit of the previous property is exact, and it is one second short: a grant is
  accepted up to and including the second \<open>expires_at + 120\<close>, but its nonce is forgotten in that
  very second, so the same document is granted a second time.\<close>

theorem grant_replayed_in_last_second:
  "\<exists>C J e mode grant gs now1 now2 info gs1 gs2.
     evaluate C J e mode grant now1 gs = (Grant info, gs1) \<and> now1 < now2
     \<and> evaluate C J e mode grant now2 gs1 = (Grant info, gs2)"
proof -
  have "evaluate toy toy_json (Some toy_enrollment) ''account_2fa'' ''g'' 1120 toy_used = (Grant toy_info, toy_used\<lparr>gs_seen := [(''n1'', 1120)]\<rparr>)"
    by code_simp
  moreover have "(950::int) < 1120" by simp
  ultimately show ?thesis using toy_login by blast
qed

text \<open>The only logins that go on without a grant are those of a device that is not enrolled, or
  of a device whose sessions are not blocked and whose access mode asks for no account, with a
  blank grant; a blocked device refuses every login.\<close>

theorem ungranted_logins:
  "(\<exists>gs'. evaluate C J e mode grant now gs = (Unmanaged, gs')) \<longleftrightarrow>
   e = None \<or> (\<not> gs_blocked gs \<and> trim grant = [] \<and> \<not> rq_account (requirements mode))"
proof -
  have "fst (evaluate_payload C en loc now signed p gs) \<noteq> Unmanaged" for en loc signed p gs
    by (auto simp: evaluate_payload_def Let_def split_beta split: result.splits)
  then have p: "evaluate_payload C en loc now signed p gs \<noteq> (Unmanaged, gs')" for en loc signed p gs gs'
    by (metis fst_conv)
  show ?thesis
    by (auto simp: evaluate_def Let_def split_beta p split: option.splits result.splits)
qed

text \<open>Closing and blocking. \<open>close_session\<close> answers true exactly when a connection of that
  session is active and disconnects exactly those; blocking disconnects every active and every
  authorised connection once, and after it is stored every login of the enrolled device is refused.\<close>

theorem close_and_block:
  "(fst (close_session sid tab) \<longleftrightarrow> (\<exists>c a. (c, a) \<in> set tab \<and> ac_session_id a = sid))
   \<and> set (snd (close_session sid tab)) = {c. \<exists>a. (c, a) \<in> set tab \<and> ac_session_id a = sid}
   \<and> (case set_sessions_blocked True io_ok authed tab gs of (ok, conns, gs') \<Rightarrow>
        set conns = fst ` set tab \<union> set authed \<and> distinct conns \<and> ok = io_ok
        \<and> gs_blocked gs' = (io_ok \<or> gs_blocked gs))
   \<and> fst (evaluate C J (Some en) mode grant now (snd (snd (set_sessions_blocked True True authed tab gs))))
       = Refuse ''sessions_blocked'' MSG_SESSIONS_BLOCKED [] []"
proof (intro conjI)
  show "fst (close_session sid tab) \<longleftrightarrow> (\<exists>c a. (c, a) \<in> set tab \<and> ac_session_id a = sid)"
    by (auto simp: close_session_def Let_def filter_empty_conv)
  have "snd (close_session sid tab) = map fst (filter (\<lambda>(_, a). ac_session_id a = sid) tab)"
    by (simp add: close_session_def Let_def)
  then show "set (snd (close_session sid tab)) = {c. \<exists>a. (c, a) \<in> set tab \<and> ac_session_id a = sid}"
    by (auto simp: image_iff)
  have "distinct (remdups_adj (sort xs))" for xs :: "int list"
    by (simp add: distinct_dedup)
  then show "case set_sessions_blocked True io_ok authed tab gs of (ok, conns, gs') \<Rightarrow>
        set conns = fst ` set tab \<union> set authed \<and> distinct conns \<and> ok = io_ok
        \<and> gs_blocked gs' = (io_ok \<or> gs_blocked gs)"
    by (auto simp: set_sessions_blocked_def Let_def)
  show "fst (evaluate C J (Some en) mode grant now (snd (snd (set_sessions_blocked True True authed tab gs))))
       = Refuse ''sessions_blocked'' MSG_SESSIONS_BLOCKED [] []"
    by (simp add: set_sessions_blocked_def Let_def evaluate_def)
qed

end
