(* ===== verification/Json_Value.thy ===== *)
theory Json_Value
  imports Rust_Prelude
begin

text \<open>
  \<open>serde_json::Value\<close> as the sources use it: a tree whose objects have one entry per key and
  whose numbers are integers. Reading text into a value is the library's; the operations that take
  text have the parser as an argument.
\<close>

datatype Value =
    VNull
  | VBool bool
  | VNumber int
  | VString string
  | VArray "Value list"
  | VObject "(string \<times> Value) list"

fun value_get :: "string \<Rightarrow> Value \<Rightarrow> Value option" where
  "value_get k (VObject fs) = map_of fs k"
| "value_get k _ = None"

text \<open>\<open>v[k]\<close> reads \<open>Null\<close> for a missing key.\<close>

definition value_index :: "string \<Rightarrow> Value \<Rightarrow> Value" where
  "value_index k v = (case value_get k v of None \<Rightarrow> VNull | Some x \<Rightarrow> x)"

text \<open>\<open>v[k] = x\<close> makes an object of \<open>Null\<close> and panics on any other non-object.\<close>

fun value_set :: "string \<Rightarrow> Value \<Rightarrow> Value \<Rightarrow> Value option" where
  "value_set k x (VObject fs) = Some (VObject (assoc_insert k x fs))"
| "value_set k x VNull = Some (VObject [(k, x)])"
| "value_set k x _ = None"

fun as_str :: "Value \<Rightarrow> string option" where
  "as_str (VString s) = Some s"
| "as_str _ = None"

fun as_u64 :: "Value \<Rightarrow> nat option" where
  "as_u64 (VNumber n) = (if 0 \<le> n \<and> nat n \<le> u64_max then Some (nat n) else None)"
| "as_u64 _ = None"

fun as_i64 :: "Value \<Rightarrow> int option" where
  "as_i64 (VNumber n) = (if i64_min \<le> n \<and> n \<le> i64_max then Some n else None)"
| "as_i64 _ = None"

fun as_bool :: "Value \<Rightarrow> bool option" where
  "as_bool (VBool b) = Some b"
| "as_bool _ = None"

text \<open>\<open>as_object_mut\<close> followed by \<open>remove\<close>.\<close>

fun value_remove :: "string \<Rightarrow> Value \<Rightarrow> Value" where
  "value_remove k (VObject fs) = VObject (assoc_remove k fs)"
| "value_remove k v = v"

text \<open>\<open>v.get(k).and_then(Value::as_str)\<close> and its kin.\<close>

definition get_str :: "string \<Rightarrow> Value \<Rightarrow> string option" where
  "get_str k v = Option.bind (value_get k v) as_str"

definition get_i64 :: "string \<Rightarrow> Value \<Rightarrow> int option" where
  "get_i64 k v = Option.bind (value_get k v) as_i64"

definition get_u64 :: "string \<Rightarrow> Value \<Rightarrow> nat option" where
  "get_u64 k v = Option.bind (value_get k v) as_u64"

fun as_array :: "Value \<Rightarrow> Value list option" where
  "as_array (VArray xs) = Some xs"
| "as_array _ = None"

text \<open>Decimal text of an integer.\<close>

fun show_nat :: "nat \<Rightarrow> string" where
  "show_nat n = (if n < 10 then [char_of (48 + n)] else show_nat (n div 10) @ [char_of (48 + n mod 10)])"

declare show_nat.simps [simp del]

definition show_int :: "int \<Rightarrow> string" where
  "show_int n = (if n < 0 then CHR ''-'' # show_nat (nat (- n)) else show_nat (nat n))"

lemma value_set_get: "value_set k x v = Some w \<Longrightarrow> value_get k' w = (if k' = k then Some x else value_get k' v)"
  by (cases v) auto

lemma of_char_digit: "d < 10 \<Longrightarrow> of_char (char_of (48 + d) :: char) = (48 + d :: nat)"
  by (simp add: take_bit_nat_eq_self)

lemma digits_val_append:
  "digits_val mx acc (s @ t) = Option.bind (digits_val mx acc s) (\<lambda>n. digits_val mx n t)"
  by (induction mx acc s rule: digits_val.induct) (auto simp: Let_def split: option.splits)

lemma digit_val_char: "d < 10 \<Longrightarrow> digit_val (char_of (48 + d)) = Some d"
  unfolding digit_val_def is_ascii_digit_def Let_def by (simp only: of_char_digit) simp

lemma digits_val_show: "n \<le> mx \<Longrightarrow> digits_val mx 0 (show_nat n) = Some n"
proof (induction n rule: show_nat.induct)
  case (1 n)
  show ?case
  proof (cases "n < 10")
    case True
    with 1(2) show ?thesis by (simp add: show_nat.simps [of n] digit_val_char)
  next
    case False
    then have "digits_val mx 0 (show_nat (n div 10)) = Some (n div 10)" using 1 by simp
    then show ?thesis using False 1(2)
      by (simp add: show_nat.simps [of n] digits_val_append digit_val_char mult.commute [of _ 10])
  qed
qed

lemma show_nat_digits: "set (show_nat n) \<subseteq> {c. is_ascii_digit c}"
proof (induction n rule: show_nat.induct)
  case (1 n)
  have "is_ascii_digit (char_of (48 + d))" if "d < 10" for d :: nat
    using that unfolding is_ascii_digit_def Let_def by (simp only: of_char_digit) simp
  with 1 show ?case by (auto simp: show_nat.simps [of n])
qed

lemma show_nat_not_Nil [simp]: "show_nat n \<noteq> []"
  by (simp add: show_nat.simps [of n])

text \<open>Printing and parsing an unsigned integer are inverse.\<close>

lemma parse_show: "n \<le> mx \<Longrightarrow> parse_uint mx (show_nat n) = Some n"
proof -
  assume "n \<le> mx"
  obtain c cs where c: "show_nat n = c # cs" by (cases "show_nat n") auto
  then have "is_ascii_digit c" using show_nat_digits [of n] by auto
  then have "c \<noteq> CHR ''+''" by (auto simp: is_ascii_digit_def Let_def)
  with c digits_val_show [OF \<open>n \<le> mx\<close>] show ?thesis by (simp add: parse_uint_def)
qed

end
