(* ===== verification/Tenant_Policy.thy ===== *)
theory Tenant_Policy
  imports Tenant_Keys Json_Value "HOL-Library.Char_ord" "HOL-Library.List_Lexorder"
    "HOL-Library.Product_Lexorder"
begin

text \<open>
  Tenant policies, \<^verbatim>\<open>src/src/clanto/policy.rs\<close>, with the key list of \<^verbatim>\<open>gpo.rs\<close>, the MDM
  configuration of \<^verbatim>\<open>managed_config.rs\<close> and the readers \<^verbatim>\<open>settings_lock.rs\<close> and
  \<^verbatim>\<open>outgoing.rs\<close>. The process-wide maps (\<open>OVERWRITE_SETTINGS\<close>, \<open>HARD_SETTINGS\<close>), the applied
  policy, the saved file and the key store are one record, passed and returned; what the clock, the
  disk, the network and \<open>serde_json\<close> answer are arguments.
\<close>

section \<open>Model: keys and merging\<close>

type_synonym Options = "(string \<times> string) list"

definition GPO_KEYS :: "string list" where
  "GPO_KEYS =
   [
    ''enable-remote-printer'', ''enable-clipboard'', ''enable-file-transfer'', ''enable-camera'',
    ''enable-terminal'', ''enable-tunnel'', ''enable-remote-restart'', ''enable-record-session'',
    ''enable-keyboard'', ''enable-audio'', ''enable-lan-discovery'', ''allow-auto-disconnect'',
    ''auto-disconnect-timeout'', ''verification-method'', ''approve-mode'', ''id-whitelist'',
    ''clanto-id-permissions'', ''clanto-trusted-controllers'', ''clanto-require-2fa'',
    ''clanto-access-hours'', ''clanto-share-device-identity'', ''clanto-forward-enabled'',
    ''clanto-forward-services-host'', ''clanto-forward-services-controller'',
    ''clanto-forward-custom-host'', ''clanto-forward-custom-host-targets'',
    ''clanto-forward-reverse'', ''clanto-forward-custom-controller'',
    ''clanto-forward-custom-controller-targets'', ''clanto-forward-webcam'',
    ''clanto-forward-webcam-send'', ''clanto-forward-webcam-receive'',
    ''clanto-forward-camera-device'', ''clanto-temp-password-rotate-minutes'',
    ''clanto-require-protected-device'', ''clanto-posture-bypass'', ''clanto-file-scan'',
    ''clanto-file-scan-clamd'', ''clanto-file-scan-max-mb'', ''clanto-file-direction'',
    ''clanto-file-blocked-ext'', ''clanto-eventlog-enabled'', ''clanto-syslog-enabled'',
    ''clanto-syslog-host'', ''clanto-syslog-port'', ''clanto-syslog-protocol'',
    ''clanto-syslog-facility'', ''clanto-syslog-tls-ca'', ''clanto-syslog-format'',
    ''clanto-session-log-days'', ''clanto-privacy-prompt'', ''allow-auto-update'',
    ''clanto-outgoing-file-transfer'', ''clanto-outgoing-clipboard'', ''clanto-outgoing-tunnel'',
    ''clanto-outgoing-terminal'', ''clanto-outgoing-remote-printer'', ''clanto-outgoing-record'',
    ''clanto-require-controller-watermark'', ''clanto-host-watermark'', ''clanto-lock-settings'',
    ''clanto-enroll-token'', ''clanto-unenroll''
   ]"

definition ENROLLMENT_KEYS :: "string list" where
  "ENROLLMENT_KEYS = [''clanto-enroll-token'', ''clanto-unenroll'']"

definition OPT_LOCK_SETTINGS :: string where "OPT_LOCK_SETTINGS = ''clanto-lock-settings''"

definition REQUIRE_WINS :: "string list" where
  "REQUIRE_WINS = [''clanto-host-watermark'', OPT_LOCK_SETTINGS]"

record PolicySettings =
  ps_enable_account :: bool
  ps_record_upload :: bool
  ps_access_mode :: string

definition default_settings :: PolicySettings where
  "default_settings = \<lparr>ps_enable_account = False, ps_record_upload = False, ps_access_mode = []\<rparr>"

record Policy =
  pl_tenant_id :: string
  pl_device_id :: string
  pl_version :: nat
  pl_issued_at :: int
  pl_options :: Options
  pl_settings :: PolicySettings

record Applied =
  ap_baseline :: "Options option"
  ap_effective :: Options
  ap_policy :: "Policy option"
  ap_last_ui_sync :: "nat option"

record Ack =
  ak_version :: nat
  ak_applied_at :: int
  ak_conflicts :: "(string \<times> string \<times> string) list"
  ak_rejected :: "string list"
  ak_nonce :: string

text \<open>The state the module reads and writes; \<open>pw_acks\<close> are the acknowledgements handed to the
  network, \<open>pw_mdm\<close> the keys of the last MDM configuration.\<close>

record PolicyWorld =
  pw_applied :: Applied
  pw_overwrite :: Options
  pw_hard :: Options
  pw_file :: "bytes option"
  pw_resync :: bool
  pw_keys :: KeyState
  pw_acks :: "Ack list"
  pw_mdm :: "string list"

record PolicyJson =
  pj_policy :: "bytes \<Rightarrow> Policy option"
  pj_signed :: "bytes \<Rightarrow> Signed option"
  pj_to_vec :: "Signed \<Rightarrow> bytes option"

definition policy_key_allowed :: "string \<Rightarrow> bool" where
  "policy_key_allowed key = (key \<in> set GPO_KEYS \<and> key \<notin> set ENROLLMENT_KEYS)"

definition merge :: "string \<Rightarrow> string option \<Rightarrow> string \<Rightarrow> string" where
  "merge key gpo policy =
     (case gpo of
        None \<Rightarrow> policy
      | Some gpo \<Rightarrow>
          if starts_with key ''enable-'' then (if gpo = ''N'' \<or> policy = ''N'' then ''N'' else gpo)
          else if starts_with key ''clanto-require-'' \<or> key \<in> set REQUIRE_WINS then
            (if gpo = ''Y'' \<or> policy = ''Y'' then ''Y'' else gpo)
          else gpo)"

section \<open>Model: verification\<close>

datatype PolicyError =
    KeysRejected KeyError
  | InvalidTenantKey
  | BadPolicyBase64
  | InvalidSignature
  | SignatureMismatch
  | BadPolicyJson
  | AnotherDevice

definition decode_key :: "Crypto \<Rightarrow> string \<Rightarrow> bytes option" where
  "decode_key C b64 =
     (case decode64 C b64 of None \<Rightarrow> None | Some pk \<Rightarrow> if pk_from_slice C pk then Some pk else None)"

text \<open>Before the enrolment is stored the key is the one of the enrolment answer.\<close>

definition verify_first :: "Crypto \<Rightarrow> Signed \<Rightarrow> Enrollment \<Rightarrow> (bytes, PolicyError) result" where
  "verify_first C signed e =
     (case decode_key C (en_tenant_key e) of
        None \<Rightarrow> Err InvalidTenantKey
      | Some key \<Rightarrow>
          (case (decode64 C (sg_payload signed), decode64 C (sg_signature signed)) of
             (Some payload, Some signature) \<Rightarrow>
               if \<not> sig_from_bytes C signature then Err InvalidSignature
               else if \<not> verify_detached C signature payload key then Err SignatureMismatch
               else Ok payload
           | _ \<Rightarrow> Err BadPolicyBase64))"

definition verify_policy ::
    "Crypto \<Rightarrow> PolicyJson \<Rightarrow> Enrollment option \<Rightarrow> int \<Rightarrow> Signed \<Rightarrow> Enrollment \<Rightarrow> KeyState
       \<Rightarrow> (Policy, PolicyError) result \<times> KeyState" where
  "verify_policy C J current now signed e ks =
     (let (payload, ks) =
            (if current \<noteq> None then
               (case Tenant_Keys.verify C current now signed None ks of
                  (Ok p, ks) \<Rightarrow> (Ok p, ks)
                | (Err err, ks) \<Rightarrow> (Err (KeysRejected err), ks))
             else (verify_first C signed e, ks))
      in (result_bind payload (\<lambda>payload.
            case pj_policy J payload of
              None \<Rightarrow> Err BadPolicyJson
            | Some policy \<Rightarrow>
                if pl_device_id policy \<noteq> en_device_id e \<or> pl_tenant_id policy \<noteq> en_tenant_id e
                then Err AnotherDevice else Ok policy), ks))"

section \<open>Model: application\<close>

definition restore_key :: "Options \<Rightarrow> string \<Rightarrow> Options \<Rightarrow> Options" where
  "restore_key baseline key overwrite =
     (case map_of baseline key of
        Some v \<Rightarrow> assoc_insert key v overwrite
      | None \<Rightarrow> assoc_remove key overwrite)"

definition write_overwrite :: "Options \<Rightarrow> Options \<Rightarrow> Options \<Rightarrow> Options \<Rightarrow> Options" where
  "write_overwrite overwrite baseline previous next =
     fold (\<lambda>(key, value). assoc_insert key value) next
       (fold (restore_key baseline) (filter (\<lambda>k. map_of next k = None) (map fst previous)) overwrite)"

definition effective_options :: "Policy \<Rightarrow> Options \<Rightarrow> Options" where
  "effective_options policy baseline =
     map (\<lambda>(k, v). (k, merge k (map_of baseline k) v))
       (filter (\<lambda>(k, _). policy_key_allowed k) (pl_options policy))"

definition set_account_enabled :: "bool \<Rightarrow> Options \<Rightarrow> Options" where
  "set_account_enabled enabled hard =
     assoc_insert ''disable-account'' (if enabled then ''N'' else ''Y'') hard"

definition apply_effective :: "Options \<Rightarrow> Policy option \<Rightarrow> PolicyWorld \<Rightarrow> PolicyWorld" where
  "apply_effective next policy w =
     (let state = pw_applied w;
          baseline = (case ap_baseline state of
                        Some b \<Rightarrow> b
                      | None \<Rightarrow> filter (\<lambda>(k, _). policy_key_allowed k) (pw_overwrite w))
      in w\<lparr>pw_overwrite := write_overwrite (pw_overwrite w) baseline (ap_effective state) next,
           pw_hard := set_account_enabled
             (case policy of None \<Rightarrow> False | Some p \<Rightarrow> ps_enable_account (pl_settings p)) (pw_hard w),
           pw_applied := state\<lparr>ap_baseline := Some baseline, ap_effective := next, ap_policy := policy\<rparr>\<rparr>)"

text \<open>The body of the acknowledgement; the winner of a conflict is always the local value.\<close>

definition ack_body :: "Policy \<Rightarrow> Options \<Rightarrow> int \<Rightarrow> string \<Rightarrow> Ack" where
  "ack_body policy baseline now nonce =
     (let keys = sort (pl_options policy) in
      \<lparr>ak_version = pl_version policy, ak_applied_at = now,
       ak_conflicts = List.map_filter (\<lambda>(key, value).
          if \<not> policy_key_allowed key then None
          else (let effective = merge key (map_of baseline key) value in
                if effective \<noteq> value then Some (key, value, effective) else None)) keys,
       ak_rejected = map fst (filter (\<lambda>(key, _). \<not> policy_key_allowed key) keys),
       ak_nonce = nonce\<rparr>)"

definition send_ack :: "Ack \<Rightarrow> string option \<Rightarrow> PolicyWorld \<Rightarrow> PolicyWorld" where
  "send_ack body api w = (case api of None \<Rightarrow> w | Some _ \<Rightarrow> w\<lparr>pw_acks := pw_acks w @ [body]\<rparr>)"

definition apply_and_ack :: "Policy \<Rightarrow> bool \<Rightarrow> int \<Rightarrow> string \<Rightarrow> string option \<Rightarrow> PolicyWorld \<Rightarrow> PolicyWorld" where
  "apply_and_ack policy ack now nonce api w =
     (let baseline = (case ap_baseline (pw_applied w) of
                        Some b \<Rightarrow> b
                      | None \<Rightarrow> filter (\<lambda>(k, _). policy_key_allowed k) (pw_overwrite w));
          next = effective_options policy baseline;
          w = (if ack then send_ack (ack_body policy baseline now nonce) api w else w)
      in apply_effective next (Some policy) w)"

definition version :: "PolicyWorld \<Rightarrow> nat" where
  "version w = (case ap_policy (pw_applied w) of None \<Rightarrow> 0 | Some p \<Rightarrow> pl_version p)"

definition settings :: "PolicyWorld \<Rightarrow> PolicySettings" where
  "settings w = (case ap_policy (pw_applied w) of None \<Rightarrow> default_settings | Some p \<Rightarrow> pl_settings p)"

text \<open>What a call reads from outside: the enrolment, the clock, a fresh nonce, the address of the
  server, and whether the disk operation succeeds.\<close>

record PolicyEnv =
  pe_current :: "Enrollment option"
  pe_now :: int
  pe_nonce :: string
  pe_api :: "string option"
  pe_io_ok :: bool

definition receive :: "Crypto \<Rightarrow> PolicyJson \<Rightarrow> PolicyEnv \<Rightarrow> Signed \<Rightarrow> PolicyWorld \<Rightarrow> PolicyWorld" where
  "receive C J E signed w =
     (case pe_current E of
        None \<Rightarrow> w
      | Some enrollment \<Rightarrow>
          (let (result, ks) = verify_policy C J (pe_current E) (pe_now E) signed enrollment (pw_keys w);
               w = w\<lparr>pw_keys := ks\<rparr>
           in case result of
                Err _ \<Rightarrow> w
              | Ok policy \<Rightarrow>
                  if pl_version policy < version w then w
                  else
                    (let w = (case pj_to_vec J signed of
                                Some bytes \<Rightarrow> if pe_io_ok E then w\<lparr>pw_file := Some bytes\<rparr> else w
                              | None \<Rightarrow> w)
                     in apply_and_ack policy True (pe_now E) (pe_nonce E) (pe_api E) w)))"

definition request_resync :: "PolicyWorld \<Rightarrow> PolicyWorld" where
  "request_resync w = w\<lparr>pw_resync := True\<rparr>"

definition heartbeat_version :: "PolicyWorld \<Rightarrow> nat \<times> PolicyWorld" where
  "heartbeat_version w = (if pw_resync w then 0 else version w, w\<lparr>pw_resync := False\<rparr>)"

definition apply_saved :: "Crypto \<Rightarrow> PolicyJson \<Rightarrow> PolicyEnv \<Rightarrow> PolicyWorld \<Rightarrow> PolicyWorld" where
  "apply_saved C J E w =
     (case (pe_current E, pw_file w) of
        (Some enrollment, Some bytes) \<Rightarrow>
          (case pj_signed J bytes of
             None \<Rightarrow> w
           | Some signed \<Rightarrow>
               (let (result, ks) = verify_policy C J (pe_current E) (pe_now E) signed enrollment (pw_keys w);
                    w = w\<lparr>pw_keys := ks\<rparr>
                in case result of
                     Ok policy \<Rightarrow> apply_and_ack policy False (pe_now E) (pe_nonce E) (pe_api E) w
                   | Err _ \<Rightarrow> w))
      | _ \<Rightarrow> w)"

definition clear :: "PolicyEnv \<Rightarrow> PolicyWorld \<Rightarrow> PolicyWorld" where
  "clear E w =
     apply_effective [] None (if pw_file w \<noteq> None \<and> pe_io_ok E then w\<lparr>pw_file := None\<rparr> else w)"

definition effective_json :: "PolicyWorld \<Rightarrow> Options \<times> PolicySettings" where
  "effective_json w = (ap_effective (pw_applied w), settings w)"

definition UI_SYNC_INTERVAL :: nat where "UI_SYNC_INTERVAL = 5000"

text \<open>\<open>ipc\<close> is the service's answer read as JSON, with the two fields when they have the right
  type; \<open>elapsed\<close> of a clock in milliseconds.\<close>

definition sync_ui ::
    "bool \<Rightarrow> nat \<Rightarrow> (Options option \<times> PolicySettings option) option \<Rightarrow> PolicyWorld \<Rightarrow> PolicyWorld" where
  "sync_ui is_server now ipc w =
     (if is_server then w
      else if (case ap_last_ui_sync (pw_applied w) of None \<Rightarrow> False | Some t \<Rightarrow> now - t < UI_SYNC_INTERVAL)
      then w
      else
        (let w = w\<lparr>pw_applied := (pw_applied w)\<lparr>ap_last_ui_sync := Some now\<rparr>\<rparr> in
         case ipc of
           None \<Rightarrow> w
         | Some (o_opt, s_opt) \<Rightarrow>
             (let options = filter (\<lambda>(k, _). policy_key_allowed k) (case o_opt of None \<Rightarrow> [] | Some o' \<Rightarrow> o');
                  settings = (case s_opt of None \<Rightarrow> default_settings | Some s \<Rightarrow> s);
                  policy = (if options \<noteq> [] \<or> settings \<noteq> default_settings
                            then Some \<lparr>pl_tenant_id = [], pl_device_id = [], pl_version = 0,
                              pl_issued_at = 0, pl_options = [], pl_settings = settings\<rparr>
                            else None)
              in apply_effective options policy w)))"

definition managed_keys :: "PolicyWorld \<Rightarrow> string set" where
  "managed_keys w = fst ` set (ap_effective (pw_applied w))"

section \<open>Model: MDM configuration and readers\<close>

definition value_string :: "Value \<Rightarrow> string option" where
  "value_string value =
     (case value of
        VString s \<Rightarrow> if trim s \<noteq> [] then Some (trim s) else None
      | VBool b \<Rightarrow> Some (if b then ''Y'' else ''N'')
      | VNumber n \<Rightarrow> Some (show_int n)
      | _ \<Rightarrow> None)"

definition managed_pairs :: "(string \<Rightarrow> Value option) \<Rightarrow> string \<Rightarrow> (string \<times> string) list" where
  "managed_pairs from_str json =
     (case from_str json of
        Some (VObject obj) \<Rightarrow>
          List.map_filter (\<lambda>(key, value). map_option (Pair key) (value_string value))
            (filter (\<lambda>(key, _). key \<in> set GPO_KEYS) obj)
      | _ \<Rightarrow> [])"

definition apply_json :: "(string \<Rightarrow> Value option) \<Rightarrow> string \<Rightarrow> PolicyWorld \<Rightarrow> PolicyWorld" where
  "apply_json from_str json w =
     (let pairs = managed_pairs from_str json;
          overwrite = fold assoc_remove (pw_mdm w) (pw_overwrite w)
      in w\<lparr>pw_overwrite := fold (\<lambda>(key, value). assoc_insert key value) pairs overwrite,
           pw_mdm := map fst pairs\<rparr>)"

definition user_write_allowed :: "string \<Rightarrow> bool" where
  "user_write_allowed lock_value = (lock_value \<noteq> ''Y'')"

definition user_write_allowed_now :: "Options \<Rightarrow> bool" where
  "user_write_allowed_now overwrite =
     user_write_allowed (case map_of overwrite OPT_LOCK_SETTINGS of None \<Rightarrow> [] | Some v \<Rightarrow> v)"

definition user_option_write_allowed :: "string \<Rightarrow> Options \<Rightarrow> bool" where
  "user_option_write_allowed key overwrite =
     (key \<noteq> OPT_LOCK_SETTINGS \<and> user_write_allowed_now overwrite)"

definition LOCKED_LOCAL_FLUTTER_OPTIONS :: "string list" where
  "LOCKED_LOCAL_FLUTTER_OPTIONS = [''clanto-local-password'', ''clanto-local-password-scope'']"

definition user_local_flutter_option_write_allowed :: "string \<Rightarrow> string \<Rightarrow> bool" where
  "user_local_flutter_option_write_allowed key lock_value =
     (key \<notin> set LOCKED_LOCAL_FLUTTER_OPTIONS \<or> user_write_allowed lock_value)"

text \<open>\<open>Config::get_option\<close> reads the overwritten value first.\<close>

definition outgoing_allowed_value :: "string \<Rightarrow> bool" where
  "outgoing_allowed_value value = (value \<noteq> ''N'')"

section \<open>What the overwritten settings are after an application\<close>

declare split_paired_All [simp del] split_paired_Ex [simp del]

named_theorems policy_simps \<open>unfolding of the steps of a policy's application\<close>

lemma map_of_fold_insert:
  "distinct (map fst kvs) \<Longrightarrow>
   map_of (fold (\<lambda>(k, v). assoc_insert k v) kvs m) = (\<lambda>k. case map_of kvs k of Some v \<Rightarrow> Some v | None \<Rightarrow> map_of m k)"
proof (induction kvs arbitrary: m)
  case (Cons kv kvs)
  obtain k v where kv: "kv = (k, v)" by (cases kv)
  have "map_of kvs k = None" using Cons.prems kv by (simp add: map_of_eq_None_iff)
  with Cons kv show ?case by (auto simp: fun_eq_iff split: option.splits)
qed simp

lemma map_of_restore [simp]: "map_of (restore_key b k ov) = (map_of ov)(k := map_of b k)"
  by (auto simp: restore_key_def fun_eq_iff split: option.splits)

lemma map_of_fold_restore:
  "map_of (fold (restore_key b) ks ov) = (\<lambda>k. if k \<in> set ks then map_of b k else map_of ov k)"
  by (induction ks arbitrary: ov) (auto simp: fun_eq_iff)

lemma map_of_write_overwrite:
  assumes "keys_ok next"
  shows "map_of (write_overwrite ov b prev next) k =
    (case map_of next k of
       Some v \<Rightarrow> Some v
     | None \<Rightarrow> if k \<in> fst ` set prev then map_of b k else map_of ov k)"
  using assms
  by (auto simp: write_overwrite_def map_of_fold_insert map_of_fold_restore keys_ok_def split: option.splits)

lemma map_of_filter_allowed:
  "map_of (filter (\<lambda>(k, _). P k) m) = (\<lambda>k. if P k then map_of m k else None)"
  by (induction m) (auto simp: fun_eq_iff)

lemma map_of_map_filter:
  "map_of (map (\<lambda>(k, v). (k, f k v)) (filter (\<lambda>(k, _). P k) xs)) k
     = (if P k then map_option (f k) (map_of xs k) else None)"
  by (induction xs) auto

lemma map_of_effective [simp]:
  "map_of (effective_options p b) k =
     (if policy_key_allowed k then map_option (merge k (map_of b k)) (map_of (pl_options p) k) else None)"
  unfolding effective_options_def by (rule map_of_map_filter)

lemma fst_filter_allowed: "set (map fst (filter (\<lambda>(k, _). P k) m)) \<subseteq> {k. P k}"
  by auto

lemma keys_ok_effective: "keys_ok (pl_options p) \<Longrightarrow> keys_ok (effective_options p b)"
proof -
  assume "keys_ok (pl_options p)"
  then have "keys_ok (filter (\<lambda>(k, _). policy_key_allowed k) (pl_options p))" by (rule keys_ok_filter)
  then show ?thesis by (simp add: effective_options_def keys_ok_def o_def split_def)
qed

lemma effective_allowed: "fst ` set (effective_options p b) \<subseteq> {k. policy_key_allowed k}"
  by (auto simp: effective_options_def)

section \<open>The invariant: only the policy's keys differ from the administrator's settings\<close>

text \<open>\<open>orig\<close> are the settings before the first policy.\<close>

definition policy_inv :: "Options \<Rightarrow> PolicyWorld \<Rightarrow> bool" where
  "policy_inv orig w \<longleftrightarrow>
     (let a = pw_applied w in
      keys_ok (ap_effective a)
      \<and> fst ` set (ap_effective a) \<subseteq> {k. policy_key_allowed k}
      \<and> (case ap_baseline a of
           None \<Rightarrow> ap_effective a = []
         | Some b \<Rightarrow> map_of b = (\<lambda>k. if policy_key_allowed k then map_of orig k else None))
      \<and> map_of (pw_overwrite w)
          = (\<lambda>k. case map_of (ap_effective a) k of Some v \<Rightarrow> Some v | None \<Rightarrow> map_of orig k))"

text \<open>The baseline an application uses.\<close>

definition baseline_of :: "PolicyWorld \<Rightarrow> Options" where
  "baseline_of w =
     (case ap_baseline (pw_applied w) of
        Some b \<Rightarrow> b
      | None \<Rightarrow> filter (\<lambda>(k, _). policy_key_allowed k) (pw_overwrite w))"

lemma baseline_of_inv:
  "policy_inv orig w \<Longrightarrow> map_of (baseline_of w) = (\<lambda>k. if policy_key_allowed k then map_of orig k else None)"
  by (auto simp: policy_inv_def baseline_of_def Let_def map_of_filter_allowed fun_eq_iff split: option.splits)

lemma apply_effective_fields [policy_simps]:
  "ap_effective (pw_applied (apply_effective nxt p w)) = nxt"
  "ap_policy (pw_applied (apply_effective nxt p w)) = p"
  "ap_baseline (pw_applied (apply_effective nxt p w)) = Some (baseline_of w)"
  "pw_overwrite (apply_effective nxt p w) = write_overwrite (pw_overwrite w) (baseline_of w) (ap_effective (pw_applied w)) nxt"
  "pw_file (apply_effective nxt p w) = pw_file w" "pw_keys (apply_effective nxt p w) = pw_keys w"
  "pw_acks (apply_effective nxt p w) = pw_acks w"
  by (auto simp: apply_effective_def baseline_of_def Let_def)

lemma apply_effective_inv:
  assumes inv: "policy_inv orig w" and nxt: "keys_ok nxt" "fst ` set nxt \<subseteq> {k. policy_key_allowed k}"
  shows "policy_inv orig (apply_effective nxt p w)"
proof -
  have ov: "map_of (pw_overwrite w) = (\<lambda>k. case map_of (ap_effective (pw_applied w)) k of Some v \<Rightarrow> Some v | None \<Rightarrow> map_of orig k)"
    and al: "fst ` set (ap_effective (pw_applied w)) \<subseteq> {k. policy_key_allowed k}"
    using inv by (auto simp: policy_inv_def Let_def)
  have "map_of (pw_overwrite (apply_effective nxt p w)) k = (case map_of nxt k of Some v \<Rightarrow> Some v | None \<Rightarrow> map_of orig k)" for k
  proof (cases "map_of nxt k")
    case None
    have "map_of (ap_effective (pw_applied w)) k = None" if "k \<notin> fst ` set (ap_effective (pw_applied w))"
      using that by (simp add: map_of_eq_None_iff)
    with None al show ?thesis
      by (auto simp: policy_simps map_of_write_overwrite [OF nxt(1)] baseline_of_inv [OF inv] ov)
  qed (simp add: policy_simps map_of_write_overwrite [OF nxt(1)])
  with nxt baseline_of_inv [OF inv] show ?thesis by (simp add: policy_inv_def policy_simps Let_def fun_eq_iff)
qed

lemma policy_inv_overwrite:
  "policy_inv orig w \<Longrightarrow> map_of (pw_overwrite w) k =
     (case map_of (ap_effective (pw_applied w)) k of Some v \<Rightarrow> Some v | None \<Rightarrow> map_of orig k)"
  by (simp add: policy_inv_def Let_def)

text \<open>The invariant only reads these two parts of the state.\<close>

lemma policy_inv_cong:
  assumes "policy_inv orig w" "pw_overwrite w' = pw_overwrite w"
    "ap_baseline (pw_applied w') = ap_baseline (pw_applied w)" "ap_effective (pw_applied w') = ap_effective (pw_applied w)"
  shows "policy_inv orig w'"
  using assms(1) unfolding policy_inv_def Let_def assms(2-4) .

lemma policy_inv_fields [simp]:
  "policy_inv orig (w\<lparr>pw_keys := ks\<rparr>) = policy_inv orig w" "policy_inv orig (w\<lparr>pw_file := f\<rparr>) = policy_inv orig w"
  "policy_inv orig (w\<lparr>pw_acks := a\<rparr>) = policy_inv orig w" "policy_inv orig (w\<lparr>pw_resync := b\<rparr>) = policy_inv orig w"
  by (simp_all add: policy_inv_def)

lemma apply_and_ack_eq:
  "\<exists>acks. apply_and_ack p ack now nonce api w
     = apply_effective (effective_options p (baseline_of w)) (Some p) (w\<lparr>pw_acks := acks\<rparr>)"
proof -
  obtain acks where "(if ack then send_ack (ack_body p (baseline_of w) now nonce) api w else w) = w\<lparr>pw_acks := acks\<rparr>"
    by (cases "ack \<and> api \<noteq> None") (auto simp: send_ack_def intro: that [of "pw_acks w"] that)
  then have "apply_and_ack p ack now nonce api w
     = apply_effective (effective_options p (baseline_of w)) (Some p) (w\<lparr>pw_acks := acks\<rparr>)"
    unfolding apply_and_ack_def Let_def baseline_of_def [symmetric] by (simp only:)
  then show ?thesis ..
qed

lemma apply_and_ack_inv:
  assumes "policy_inv orig w" "keys_ok (pl_options p)"
  shows "policy_inv orig (apply_and_ack p ack now nonce api w)"
proof -
  from apply_and_ack_eq obtain acks where
    "apply_and_ack p ack now nonce api w
     = apply_effective (effective_options p (baseline_of w)) (Some p) (w\<lparr>pw_acks := acks\<rparr>)" by blast
  moreover have "policy_inv orig (w\<lparr>pw_acks := acks\<rparr>)" using assms(1) by (rule policy_inv_cong) simp_all
  ultimately show ?thesis
    using keys_ok_effective [OF assms(2)] effective_allowed by (simp add: apply_effective_inv)
qed

section \<open>Runs of the service\<close>

datatype PolicyOp =
    Receive PolicyEnv Signed
  | ApplySaved PolicyEnv
  | Clear PolicyEnv
  | RequestResync
  | Heartbeat
  | SyncUi bool nat "(Options option \<times> PolicySettings option) option"

fun policy_step :: "Crypto \<Rightarrow> PolicyJson \<Rightarrow> PolicyOp \<Rightarrow> PolicyWorld \<Rightarrow> PolicyWorld" where
  "policy_step C J (Receive E signed) w = receive C J E signed w"
| "policy_step C J (ApplySaved E) w = apply_saved C J E w"
| "policy_step C J (Clear E) w = clear E w"
| "policy_step C J RequestResync w = request_resync w"
| "policy_step C J Heartbeat w = snd (heartbeat_version w)"
| "policy_step C J (SyncUi server now ipc) w = sync_ui server now ipc w"

text \<open>\<open>serde_json\<close> reads an object into a \<open>HashMap\<close>: one entry per key.\<close>

definition json_maps :: "PolicyJson \<Rightarrow> bool" where
  "json_maps J \<longleftrightarrow> (\<forall>b p. pj_policy J b = Some p \<longrightarrow> keys_ok (pl_options p))"

fun ipc_ok :: "PolicyOp \<Rightarrow> bool" where
  "ipc_ok (SyncUi _ _ (Some (Some opts, _))) = keys_ok opts"
| "ipc_ok _ = True"

lemma verify_policy_Ok:
  assumes "verify_policy C J current now signed e ks = (Ok p, ks')"
  shows "(\<exists>payload. pj_policy J payload = Some p
            \<and> (if current = None then verify_first C signed e = Ok payload
               else fst (Tenant_Keys.verify C current now signed None ks) = Ok payload))
         \<and> pl_device_id p = en_device_id e \<and> pl_tenant_id p = en_tenant_id e"
  using assms
  by (fastforce simp: verify_policy_def Let_def result_bind_eq_Ok split_beta
      split: if_splits option.splits result.splits prod.splits)

lemma verify_policy_keys: "json_maps J \<Longrightarrow> verify_policy C J cur now signed e ks = (Ok p, ks') \<Longrightarrow> keys_ok (pl_options p)"
  by (auto dest!: verify_policy_Ok simp: json_maps_def)

text \<open>The outcomes of \<open>receive\<close>: ignored up to the key store, or a verified policy applied.\<close>

lemma receive_cases:
  "(\<exists>ks. receive C J E signed w = w\<lparr>pw_keys := ks\<rparr>) \<or>
   (\<exists>en p ks ks' f. pe_current E = Some en \<and> verify_policy C J (Some en) (pe_now E) signed en (pw_keys w) = (Ok p, ks)
      \<and> version w \<le> pl_version p
      \<and> receive C J E signed w
          = apply_and_ack p True (pe_now E) (pe_nonce E) (pe_api E) (w\<lparr>pw_keys := ks', pw_file := f\<rparr>))"
proof (cases "pe_current E")
  case None
  then have "receive C J E signed w = w\<lparr>pw_keys := pw_keys w\<rparr>" by (simp add: receive_def)
  then show ?thesis by blast
next
  case (Some en)
  obtain r ks where v: "verify_policy C J (Some en) (pe_now E) signed en (pw_keys w) = (r, ks)" by fastforce
  show ?thesis
  proof (cases r)
    case (Err e)
    then have "receive C J E signed w = w\<lparr>pw_keys := ks\<rparr>" by (simp add: receive_def Some v)
    then show ?thesis by blast
  next
    case (Ok p)
    have ver: "version (w\<lparr>pw_keys := ks\<rparr>) = version w" by (simp add: version_def)
    show ?thesis
    proof (cases "pl_version p < version w")
      case True
      then have "receive C J E signed w = w\<lparr>pw_keys := ks\<rparr>" by (simp add: receive_def Some v Ok ver)
      then show ?thesis by blast
    next
      case False
      have "\<exists>f. receive C J E signed w = apply_and_ack p True (pe_now E) (pe_nonce E) (pe_api E) (w\<lparr>pw_keys := ks, pw_file := f\<rparr>)"
      proof -
        have "w\<lparr>pw_keys := ks\<rparr> = w\<lparr>pw_keys := ks, pw_file := pw_file w\<rparr>" by simp
        with False show ?thesis
          by (cases "pj_to_vec J signed"; cases "pe_io_ok E")
            (auto simp: receive_def Some v Ok ver intro: exI [of _ "pw_file w"])
      qed
      with Some v Ok False show ?thesis by force
    qed
  qed
qed

lemma apply_saved_cases:
  "(\<exists>ks. apply_saved C J E w = w\<lparr>pw_keys := ks\<rparr>) \<or>
   (\<exists>en p signed ks. verify_policy C J (Some en) (pe_now E) signed en (pw_keys w) = (Ok p, ks)
      \<and> apply_saved C J E w = apply_and_ack p False (pe_now E) (pe_nonce E) (pe_api E) (w\<lparr>pw_keys := ks\<rparr>))"
proof (cases "\<exists>en bytes signed. pe_current E = Some en \<and> pw_file w = Some bytes \<and> pj_signed J bytes = Some signed")
  case False
  then have "apply_saved C J E w = w\<lparr>pw_keys := pw_keys w\<rparr>"
    by (auto simp: apply_saved_def split: option.splits)
  then show ?thesis by blast
next
  case True
  then obtain en bytes signed where s: "pe_current E = Some en" "pw_file w = Some bytes" "pj_signed J bytes = Some signed"
    by blast
  obtain r ks where v: "verify_policy C J (Some en) (pe_now E) signed en (pw_keys w) = (r, ks)" by fastforce
  show ?thesis
  proof (cases r)
    case (Ok p)
    then have "apply_saved C J E w = apply_and_ack p False (pe_now E) (pe_nonce E) (pe_api E) (w\<lparr>pw_keys := ks\<rparr>)"
      by (simp add: apply_saved_def s v)
    with v Ok show ?thesis by blast
  next
    case (Err e)
    then have "apply_saved C J E w = w\<lparr>pw_keys := ks\<rparr>" by (simp add: apply_saved_def s v)
    then show ?thesis by blast
  qed
qed

lemma receive_inv: "policy_inv orig w \<Longrightarrow> json_maps J \<Longrightarrow> policy_inv orig (receive C J E signed w)"
  using receive_cases [of C J E signed w]
  by (auto intro!: apply_and_ack_inv elim!: verify_policy_keys)

lemma apply_saved_inv: "policy_inv orig w \<Longrightarrow> json_maps J \<Longrightarrow> policy_inv orig (apply_saved C J E w)"
  using apply_saved_cases [of C J E w]
  by (auto intro!: apply_and_ack_inv elim!: verify_policy_keys)

lemma clear_inv: "policy_inv orig w \<Longrightarrow> policy_inv orig (clear E w)"
  unfolding clear_def by (rule apply_effective_inv) auto

lemma sync_ui_inv:
  assumes "policy_inv orig w" "ipc_ok (SyncUi server now ipc)"
  shows "policy_inv orig (sync_ui server now ipc w)"
proof -
  let ?w = "w\<lparr>pw_applied := (pw_applied w)\<lparr>ap_last_ui_sync := Some now\<rparr>\<rparr>"
  have w: "policy_inv orig ?w" using assms(1) by (rule policy_inv_cong) simp_all
  have ok: "keys_ok (filter (\<lambda>(k, _). policy_key_allowed k) (case o_opt of None \<Rightarrow> [] | Some o' \<Rightarrow> o'))"
    if "ipc = Some (o_opt, s)" for o_opt s
    using assms(2) that by (cases o_opt) (auto intro: keys_ok_filter)
  show ?thesis unfolding sync_ui_def Let_def
    by (auto simp: assms(1) w split: option.splits intro!: apply_effective_inv ok)
qed

lemma policy_step_inv:
  assumes "policy_inv orig w" "json_maps J \<and> ipc_ok op"
  shows "policy_inv orig (policy_step C J op w)"
proof (cases op)
  case (SyncUi server now ipc)
  with assms sync_ui_inv show ?thesis by simp
qed (use assms in \<open>auto simp: receive_inv apply_saved_inv clear_inv request_resync_def heartbeat_version_def\<close>)

interpretation service: guarded_machine "policy_step C J" "policy_inv orig" "\<lambda>op. json_maps J \<and> ipc_ok op" for C J orig
  by unfold_locales (rule policy_step_inv)

text \<open>A process that has applied no policy yet.\<close>

definition fresh :: "PolicyWorld \<Rightarrow> bool" where
  "fresh w \<longleftrightarrow> ap_baseline (pw_applied w) = None \<and> ap_effective (pw_applied w) = []"

lemma fresh_inv: "fresh w \<Longrightarrow> policy_inv (pw_overwrite w) w"
  by (simp add: fresh_def policy_inv_def Let_def)

section \<open>A policy only restricts\<close>

definition merged_inv :: "Options \<Rightarrow> PolicyWorld \<Rightarrow> bool" where
  "merged_inv orig w \<longleftrightarrow> policy_inv orig w
     \<and> (\<forall>k v. map_of (ap_effective (pw_applied w)) k = Some v \<longrightarrow> (\<exists>u. v = merge k (map_of orig k) u))"

fun service_op :: "PolicyOp \<Rightarrow> bool" where
  "service_op (SyncUi _ _ _) = False"
| "service_op _ = True"

lemma merged_apply_and_ack:
  assumes "merged_inv orig w" "keys_ok (pl_options p)"
  shows "merged_inv orig (apply_and_ack p ack now nonce api w)"
proof -
  have inv: "policy_inv orig w" using assms(1) by (simp add: merged_inv_def)
  from apply_and_ack_eq obtain acks where
    "apply_and_ack p ack now nonce api w
     = apply_effective (effective_options p (baseline_of w)) (Some p) (w\<lparr>pw_acks := acks\<rparr>)" by blast
  then have "ap_effective (pw_applied (apply_and_ack p ack now nonce api w)) = effective_options p (baseline_of w)"
    by (simp add: policy_simps)
  with apply_and_ack_inv [OF inv assms(2)] baseline_of_inv [OF inv] show ?thesis
    by (auto simp: merged_inv_def split: if_splits)
qed

lemma merged_inv_fields [simp]:
  "merged_inv orig (w\<lparr>pw_keys := ks\<rparr>) = merged_inv orig w" "merged_inv orig (w\<lparr>pw_file := f\<rparr>) = merged_inv orig w"
  "merged_inv orig (w\<lparr>pw_resync := b\<rparr>) = merged_inv orig w"
  by (simp_all add: merged_inv_def)

lemma merged_step:
  assumes "merged_inv orig w" "json_maps J \<and> service_op op"
  shows "merged_inv orig (policy_step C J op w)"
proof (cases op)
  case (Receive E signed)
  with receive_cases [of C J E signed w] assms show ?thesis
    by (auto intro!: merged_apply_and_ack elim!: verify_policy_keys)
next
  case (ApplySaved E)
  with apply_saved_cases [of C J E w] assms show ?thesis
    by (auto intro!: merged_apply_and_ack elim!: verify_policy_keys)
next
  case (Clear E)
  with assms clear_inv [of orig w E] show ?thesis by (simp add: merged_inv_def clear_def policy_simps)
qed (use assms in \<open>auto simp: request_resync_def heartbeat_version_def\<close>)

interpretation restricting: guarded_machine "policy_step C J" "merged_inv orig" "\<lambda>op. json_maps J \<and> service_op op" for C J orig
  by unfold_locales (rule merged_step)

lemma fresh_merged: "fresh w \<Longrightarrow> merged_inv (pw_overwrite w) w"
  by (simp add: fresh_inv merged_inv_def) (simp add: fresh_def)

lemma merged_value:
  "merged_inv orig w \<Longrightarrow>
   map_of (pw_overwrite w) k = map_of orig k \<or>
   policy_key_allowed k \<and> (\<exists>u. map_of (pw_overwrite w) k = Some (merge k (map_of orig k) u))"
  by (auto simp: merged_inv_def policy_inv_def Let_def split: option.splits) (force dest: map_of_SomeD)


section \<open>A concrete service\<close>

definition toy_policy :: Policy where
  "toy_policy = \<lparr>pl_tenant_id = ''t1'', pl_device_id = ''d1'', pl_version = 3, pl_issued_at = 900,
     pl_options = [(''enable-clipboard'', ''N''), (''enable-audio'', ''Y''), (''clanto-lock-settings'', ''N''),
       (''clanto-unenroll'', ''Y''), (''approve-mode'', ''click'')],
     pl_settings = \<lparr>ps_enable_account = True, ps_record_upload = False, ps_access_mode = ''account_2fa''\<rparr>\<rparr>"

definition toy_pjson :: PolicyJson where
  "toy_pjson = \<lparr>pj_policy = (\<lambda>b. Some toy_policy), pj_signed = (\<lambda>b. Some \<lparr>sg_payload = ''p'', sg_signature = ''k1p''\<rparr>),
     pj_to_vec = (\<lambda>s. Some [1])\<rparr>"

definition toy_gpo :: Options where
  "toy_gpo = [(''enable-audio'', ''N''), (''clanto-lock-settings'', ''Y''), (''enable-clipboard'', ''Y''),
     (''theme'', ''dark'')]"

definition toy_world :: PolicyWorld where
  "toy_world = \<lparr>pw_applied = \<lparr>ap_baseline = None, ap_effective = [], ap_policy = None, ap_last_ui_sync = None\<rparr>,
     pw_overwrite = toy_gpo, pw_hard = [], pw_file = None, pw_resync = False,
     pw_keys = \<lparr>ks_mem = Some toy_store, ks_file = None\<rparr>, pw_acks = [], pw_mdm = [''enable-clipboard'']\<rparr>"

definition toy_env :: PolicyEnv where
  "toy_env = \<lparr>pe_current = Some toy_enrollment, pe_now = 950, pe_nonce = ''n'', pe_api = Some ''https://a'', pe_io_ok = True\<rparr>"

definition toy_doc :: Signed where "toy_doc = \<lparr>sg_payload = ''p'', sg_signature = ''k1p''\<rparr>"

definition toy_managed :: PolicyWorld where
  "toy_managed = receive toy toy_pjson toy_env toy_doc toy_world"

lemma toy_json_maps: "json_maps toy_pjson"
  by (auto simp: json_maps_def toy_pjson_def toy_policy_def keys_ok_def)

lemma toy_fresh: "fresh toy_world"
  by (simp add: fresh_def toy_world_def)

lemma toy_applied: "version toy_managed = 3"
  unfolding toy_managed_def by code_simp

section \<open>Properties\<close>

text \<open>A received policy takes effect only when the tenant's keys signed it for this device and it
  is not older than the one applied; then every setting is the merged value for the keys the policy
  may set, the administrator's value for the keys the previous policy set and this one does not, and
  unchanged otherwise.\<close>

theorem policy_takes_effect:
  assumes "fresh w0" "json_maps J" "\<forall>op\<in>set ops. service_op op"
    and "w = fold (policy_step C J) ops w0" "w' = receive C J E signed w"
  shows "pw_applied w' = pw_applied w \<and> pw_overwrite w' = pw_overwrite w \<and> pw_file w' = pw_file w \<or>
    (\<exists>en p payload. pe_current E = Some en
       \<and> fst (Tenant_Keys.verify C (Some en) (pe_now E) signed None (pw_keys w)) = Ok payload
       \<and> pj_policy J payload = Some p \<and> pl_device_id p = en_device_id en \<and> pl_tenant_id p = en_tenant_id en
       \<and> version w \<le> pl_version p \<and> version w' = pl_version p \<and> settings w' = pl_settings p
       \<and> (\<forall>k. map_of (pw_overwrite w') k =
            (case map_of (pl_options p) k of
               Some v \<Rightarrow> if policy_key_allowed k then Some (merge k (map_of (pw_overwrite w0) k) v)
                         else map_of (pw_overwrite w0) k
             | None \<Rightarrow> map_of (pw_overwrite w0) k)))"
proof -
  let ?orig = "pw_overwrite w0"
  have inv: "merged_inv ?orig w" unfolding assms(4)
    using assms(1-3) by (intro restricting.run_inv fresh_merged) auto
  then have pinv: "policy_inv ?orig w" by (simp add: merged_inv_def)
  from receive_cases [of C J E signed w] show ?thesis
  proof (elim disjE exE conjE)
    fix ks assume "receive C J E signed w = w\<lparr>pw_keys := ks\<rparr>"
    then show ?thesis by (simp add: assms(5))
  next
    fix en p ks ks' f
    let ?w = "w\<lparr>pw_keys := ks', pw_file := f\<rparr>"
    assume e: "pe_current E = Some en" and v: "verify_policy C J (Some en) (pe_now E) signed en (pw_keys w) = (Ok p, ks)"
      and ver: "version w \<le> pl_version p"
      and rc: "receive C J E signed w = apply_and_ack p True (pe_now E) (pe_nonce E) (pe_api E) ?w"
    obtain acks where w': "w' = apply_effective (effective_options p (baseline_of ?w)) (Some p) (?w\<lparr>pw_acks := acks\<rparr>)"
      using apply_and_ack_eq [of p True] assms(5) rc by metis
    have inv': "policy_inv ?orig w'"
      using pinv verify_policy_keys [OF assms(2) v] unfolding assms(5) rc by (intro apply_and_ack_inv) auto
    have "map_of (pw_overwrite w') k =
            (case map_of (pl_options p) k of
               Some v \<Rightarrow> if policy_key_allowed k then Some (merge k (map_of ?orig k) v) else map_of ?orig k
             | None \<Rightarrow> map_of ?orig k)" for k
    proof -
      have "ap_effective (pw_applied w') = effective_options p (baseline_of ?w)" by (simp add: w' policy_simps)
      moreover have "map_of (baseline_of ?w) = (\<lambda>k. if policy_key_allowed k then map_of ?orig k else None)"
        using pinv by (intro baseline_of_inv) simp
      ultimately show ?thesis using policy_inv_overwrite [OF inv', of k] by (simp split: option.splits)
    qed
    moreover have "version w' = pl_version p" "settings w' = pl_settings p"
      by (simp_all add: w' version_def settings_def policy_simps)
    ultimately show ?thesis using verify_policy_Ok [OF v] e ver by auto
  qed
qed

theorem policy_takes_effect_witness:
  "version toy_managed = 3 \<and> map_of (pw_overwrite toy_managed) ''enable-clipboard'' = Some ''N''
   \<and> map_of (pw_overwrite toy_managed) ''clanto-unenroll'' = None"
proof -
  have "pw_applied toy_managed \<noteq> pw_applied toy_world" unfolding toy_managed_def by code_simp
  moreover have "pe_current toy_env = Some toy_enrollment" by code_simp
  ultimately obtain p payload where p: "pj_policy toy_pjson payload = Some p" "version toy_managed = pl_version p"
    "\<forall>k. map_of (pw_overwrite toy_managed) k =
            (case map_of (pl_options p) k of
               Some v \<Rightarrow> if policy_key_allowed k then Some (merge k (map_of (pw_overwrite toy_world) k) v)
                         else map_of (pw_overwrite toy_world) k
             | None \<Rightarrow> map_of (pw_overwrite toy_world) k)"
    using policy_takes_effect [OF toy_fresh toy_json_maps, of "[]" toy_world toy toy_managed toy_env toy_doc]
    by (auto simp: toy_managed_def)
  have pp: "p = toy_policy" using p(1) by (simp add: toy_pjson_def)
  have "version toy_managed = 3" using p(2) pp by (simp add: toy_policy_def)
  moreover have "map_of (pw_overwrite toy_managed) ''enable-clipboard'' = Some ''N''"
    unfolding p(3) [rule_format] pp by code_simp
  moreover have "map_of (pw_overwrite toy_managed) ''clanto-unenroll'' = None"
    unfolding p(3) [rule_format] pp by code_simp
  ultimately show ?thesis by blast
qed

text \<open>C11: whatever policies are received, saved, reapplied or cleared, they never loosen what the
  administrator set: an \<open>enable-\<close> option set to N stays N, a \<open>clanto-require-\<close> option and the
  settings lock set to Y stay Y, every other option the administrator set keeps its value, and keys
  outside the policy's list, the enrolment keys included, are not written.\<close>

theorem policy_only_restricts:
  assumes "fresh w0" "json_maps J" "\<forall>op\<in>set ops. service_op op" "w = fold (policy_step C J) ops w0"
    and "map_of (pw_overwrite w0) k = Some g"
  shows "(starts_with k ''enable-'' \<longrightarrow> g = ''N'' \<longrightarrow> map_of (pw_overwrite w) k = Some ''N'')
    \<and> (starts_with k ''clanto-require-'' \<or> k \<in> set REQUIRE_WINS \<longrightarrow> g = ''Y'' \<longrightarrow> map_of (pw_overwrite w) k = Some ''Y'')
    \<and> (\<not> starts_with k ''enable-'' \<and> \<not> starts_with k ''clanto-require-'' \<and> k \<notin> set REQUIRE_WINS
         \<or> \<not> policy_key_allowed k \<longrightarrow> map_of (pw_overwrite w) k = Some g)
    \<and> (k = OPT_LOCK_SETTINGS \<and> g = ''Y'' \<longrightarrow> \<not> user_option_write_allowed any (pw_overwrite w))"
proof -
  have "merged_inv (pw_overwrite w0) w" unfolding assms(4)
    using assms(1-3) by (intro restricting.run_inv fresh_merged) auto
  note val = merged_value [OF this, of k, unfolded assms(5)]
  have not_both: "\<not> (starts_with k ''enable-'' \<and> (starts_with k ''clanto-require-'' \<or> k \<in> set REQUIRE_WINS))"
  proof -
    have "hd k = CHR ''e''" if "starts_with k ''enable-''" using that by (cases k) (auto simp: starts_with_def)
    moreover have "hd k = CHR ''c''" if "starts_with k ''clanto-require-'' \<or> k \<in> set REQUIRE_WINS"
      using that by (cases k) (auto simp: starts_with_def REQUIRE_WINS_def OPT_LOCK_SETTINGS_def)
    ultimately show ?thesis by fastforce
  qed
  have 2: "starts_with k ''clanto-require-'' \<or> k \<in> set REQUIRE_WINS \<longrightarrow> g = ''Y'' \<longrightarrow> map_of (pw_overwrite w) k = Some ''Y''"
    using val not_both by (auto simp: merge_def)
  moreover have "k = OPT_LOCK_SETTINGS \<and> g = ''Y'' \<longrightarrow> \<not> user_option_write_allowed any (pw_overwrite w)"
    using 2 by (auto simp: REQUIRE_WINS_def user_option_write_allowed_def user_write_allowed_now_def user_write_allowed_def)
  moreover have "starts_with k ''enable-'' \<longrightarrow> g = ''N'' \<longrightarrow> map_of (pw_overwrite w) k = Some ''N''"
    using val by (auto simp: merge_def)
  moreover have "\<not> starts_with k ''enable-'' \<and> \<not> starts_with k ''clanto-require-'' \<and> k \<notin> set REQUIRE_WINS
         \<or> \<not> policy_key_allowed k \<longrightarrow> map_of (pw_overwrite w) k = Some g"
    using val by (auto simp: merge_def)
  ultimately show ?thesis by blast
qed

theorem policy_only_restricts_witness:
  "\<not> user_option_write_allowed ''theme'' (pw_overwrite (fold (policy_step toy toy_pjson) [Receive toy_env toy_doc] toy_world))"
proof -
  have "map_of (pw_overwrite toy_world) OPT_LOCK_SETTINGS = Some ''Y''" by code_simp
  from policy_only_restricts [OF toy_fresh toy_json_maps _ refl this, of "[Receive toy_env toy_doc]" toy "''theme''"]
  show ?thesis by simp
qed

text \<open>Unlinking restores the administrator's settings: after any run of the service or of the UI
  process, \<open>clear\<close> leaves every overwritten setting as it was before the first policy and disables
  the account.\<close>

theorem clear_restores:
  assumes "fresh w0" "json_maps J" "\<forall>op\<in>set ops. ipc_ok op"
  shows "map_of (pw_overwrite (clear E (fold (policy_step C J) ops w0))) = map_of (pw_overwrite w0)
    \<and> managed_keys (clear E (fold (policy_step C J) ops w0)) = {}
    \<and> map_of (pw_hard (clear E (fold (policy_step C J) ops w0))) ''disable-account'' = Some ''Y''"
proof -
  let ?w = "fold (policy_step C J) ops w0"
  have "policy_inv (pw_overwrite w0) ?w"
    using assms by (intro service.run_inv fresh_inv) auto
  from clear_inv [OF this, of E] have "policy_inv (pw_overwrite w0) (clear E ?w)" .
  moreover have "ap_effective (pw_applied (clear E ?w)) = []" by (simp add: clear_def policy_simps)
  moreover have "map_of (pw_hard (clear E ?w)) ''disable-account'' = Some ''Y''"
    by (simp add: clear_def apply_effective_def Let_def set_account_enabled_def)
  ultimately show ?thesis by (simp add: policy_inv_def Let_def managed_keys_def)
qed

theorem clear_restores_witness:
  "map_of (pw_overwrite (clear toy_env toy_managed)) = map_of toy_gpo"
  using clear_restores [OF toy_fresh toy_json_maps, of "[Receive toy_env toy_doc]" toy_env toy]
  by (simp add: toy_managed_def toy_world_def)

text \<open>The applied version never goes down, whatever policies are received.\<close>

theorem version_monotone:
  "version w \<le> version (fold (\<lambda>(E, signed). receive C J E signed) rs w)"
proof (induction rs arbitrary: w)
  case (Cons r rs)
  obtain E signed where r: "r = (E, signed)" by (cases r)
  have "version w \<le> version (receive C J E signed w)"
    using receive_cases [of C J E signed w]
  proof (elim disjE exE conjE)
    fix en p ks ks' f
    assume "version w \<le> pl_version p" and
      "receive C J E signed w = apply_and_ack p True (pe_now E) (pe_nonce E) (pe_api E) (w\<lparr>pw_keys := ks', pw_file := f\<rparr>)"
    moreover have "version (apply_and_ack p a n x api v) = pl_version p" for a n x api v
      using apply_and_ack_eq [of p a n x api v] by (auto simp: version_def policy_simps)
    ultimately show ?thesis by simp
  qed (simp add: version_def)
  also have "\<dots> \<le> version (fold (\<lambda>(E, signed). receive C J E signed) rs (receive C J E signed w))"
    by (rule Cons)
  finally show ?case by (simp add: r)
qed simp

text \<open>C26: the UI process mirrors the service. After a synchronisation that is due and answered, every
  setting of the UI process is the service's effective value where the service has one and its own
  administrator's value elsewhere, and both processes read the same policy settings.\<close>

theorem sync_ui_mirrors:
  assumes "policy_inv orig ws" "policy_inv orig_ui wu"
    and "case ap_last_ui_sync (pw_applied wu) of None \<Rightarrow> True | Some t \<Rightarrow> t + 5000 \<le> now"
    and "effective_json ws = (opts, s)"
  shows "map_of (pw_overwrite (sync_ui False now (Some (Some opts, Some s)) wu)) k =
      (case map_of (ap_effective (pw_applied ws)) k of Some v \<Rightarrow> Some v | None \<Rightarrow> map_of orig_ui k)
    \<and> settings (sync_ui False now (Some (Some opts, Some s)) wu) = settings ws"
proof -
  have o: "opts = ap_effective (pw_applied ws)" "s = settings ws" using assms(4) by (auto simp: effective_json_def)
  have "filter (\<lambda>(k, _). policy_key_allowed k) opts = opts" "keys_ok opts"
    using assms(1) by (auto simp: policy_inv_def Let_def o intro!: filter_True)
  moreover have "\<not> (case ap_last_ui_sync (pw_applied wu) of None \<Rightarrow> False | Some t \<Rightarrow> now - t < UI_SYNC_INTERVAL)"
    using assms(3) by (auto simp: UI_SYNC_INTERVAL_def split: option.splits)
  moreover define p where "p = (if opts \<noteq> [] \<or> s \<noteq> default_settings
    then Some \<lparr>pl_tenant_id = [], pl_device_id = [], pl_version = 0, pl_issued_at = 0, pl_options = [], pl_settings = s\<rparr>
    else None)"
  ultimately have "sync_ui False now (Some (Some opts, Some s)) wu
      = apply_effective opts p (wu\<lparr>pw_applied := (pw_applied wu)\<lparr>ap_last_ui_sync := Some now\<rparr>\<rparr>)"
    by (simp add: sync_ui_def Let_def)
  moreover have "case p of None \<Rightarrow> s = default_settings | Some p \<Rightarrow> pl_settings p = s" by (simp add: p_def)
  ultimately have p: "sync_ui False now (Some (Some opts, Some s)) wu
      = apply_effective opts p (wu\<lparr>pw_applied := (pw_applied wu)\<lparr>ap_last_ui_sync := Some now\<rparr>\<rparr>)"
    "case p of None \<Rightarrow> s = default_settings | Some p \<Rightarrow> pl_settings p = s" by blast+
  have "policy_inv orig_ui (sync_ui False now (Some (Some opts, Some s)) wu)"
    using assms(2) \<open>keys_ok opts\<close> by (intro sync_ui_inv) simp_all
  with p o(2) show ?thesis
    by (auto simp: policy_inv_def Let_def policy_simps settings_def o(1) split: option.splits)
qed

theorem sync_ui_mirrors_witness:
  "map_of (pw_overwrite (sync_ui False 100 (Some (Some (ap_effective (pw_applied toy_managed)), Some (settings toy_managed))) toy_world))
     ''enable-clipboard'' = Some ''N''"
proof -
  have i: "policy_inv toy_gpo toy_managed"
    using receive_inv [OF fresh_inv [OF toy_fresh] toy_json_maps] by (simp add: toy_managed_def toy_world_def)
  have "map_of (ap_effective (pw_applied toy_managed)) ''enable-clipboard'' = Some ''N''"
    unfolding toy_managed_def by code_simp
  moreover have "case ap_last_ui_sync (pw_applied toy_world) of None \<Rightarrow> True | Some t \<Rightarrow> t + 5000 \<le> 100"
    by (simp add: toy_world_def)
  ultimately show ?thesis
    using sync_ui_mirrors [OF i fresh_inv [OF toy_fresh] _ effective_json_def, of 100 "''enable-clipboard''"] by simp
qed

text \<open>A configuration pushed again by the device management overwrites the merged values: with
  the clipboard forbidden by the applied policy, the MDM value Y is what the process reads after
  the push, while the policy is still the applied one.\<close>

theorem mdm_push_undoes_policy:
  "\<exists>C J E signed w0 from_str json. fresh w0 \<and> json_maps J
     \<and> map_of (pw_overwrite (receive C J E signed w0)) ''enable-clipboard'' = Some ''N''
     \<and> map_of (pw_overwrite (apply_json from_str json (receive C J E signed w0))) ''enable-clipboard'' = Some ''Y''
     \<and> map_of (ap_effective (pw_applied (apply_json from_str json (receive C J E signed w0)))) ''enable-clipboard'' = Some ''N''"
proof -
  have 1: "map_of (pw_overwrite (receive toy toy_pjson toy_env toy_doc toy_world)) ''enable-clipboard'' = Some ''N''"
    by code_simp
  have 2: "map_of (pw_overwrite (apply_json (\<lambda>_. Some (VObject [(''enable-clipboard'', VBool True)])) ''{}''
      (receive toy toy_pjson toy_env toy_doc toy_world))) ''enable-clipboard'' = Some ''Y''"
    by code_simp
  have 3: "map_of (ap_effective (pw_applied (apply_json (\<lambda>_. Some (VObject [(''enable-clipboard'', VBool True)])) ''{}''
      (receive toy toy_pjson toy_env toy_doc toy_world)))) ''enable-clipboard'' = Some ''N''"
    by code_simp
  show ?thesis
    by (intro exI conjI) (rule toy_fresh toy_json_maps 1 2 3)+
qed

end
