(* ===== verification/Device_Commands.thy ===== *)
theory Device_Commands
  imports Session_Grant Tenant_Policy
begin

text \<open>
  The command channel of an enrolled device, \<^verbatim>\<open>src/src/clanto/device_commands.rs\<close>: opening and
  checking a signed command, its execution on the rest of the device, the results reported, the ids
  remembered so that a command delivered again is not executed again, and the polling loop with its
  cursor and backoff. The outcomes of the updater, of the disk, of the upload of diagnostics and of
  the HTTP calls are arguments; a panic is \<open>None\<close>. The key store is the one of the grant state.
\<close>

section \<open>Model: commands\<close>

definition REMEMBERED_IDS :: nat where "REMEMBERED_IDS = 256"
definition MAX_BACKOFF :: nat where "MAX_BACKOFF = 300"
definition MIN_EMPTY_INTERVAL :: nat where "MIN_EMPTY_INTERVAL = 5000"

record Command =
  cm_id :: string
  cm_kind :: string
  cm_args :: Value
  cm_device_id :: string
  cm_expires_at :: int

record Outcome =
  oc_state :: string
  oc_detail :: string
  oc_data :: Value

definition Outcome_new :: "string \<Rightarrow> string \<Rightarrow> Outcome" where
  "Outcome_new state detail = \<lparr>oc_state = state, oc_detail = detail, oc_data = VNull\<rparr>"

text \<open>\<open>serde_json\<close> on a raw command and on the signed payload.\<close>

record CommandJson =
  cj_signed :: "Value \<Rightarrow> Signed option"
  cj_command :: "bytes \<Rightarrow> Command option"

definition check ::
    "Command \<Rightarrow> string \<Rightarrow> int \<Rightarrow> (Command, string option \<times> Outcome) result" where
  "check cmd device_id now =
     (if cm_device_id cmd \<noteq> device_id then
        Err (Some (cm_id cmd), Outcome_new ''rejected'' ''device_mismatch'')
      else if cm_expires_at cmd > 0 \<and> cm_expires_at cmd < now then
        Err (Some (cm_id cmd), Outcome_new ''expired'' [])
      else Ok cmd)"

definition open_command ::
    "Crypto \<Rightarrow> CommandJson \<Rightarrow> Enrollment option \<Rightarrow> Value \<Rightarrow> string \<Rightarrow> int \<Rightarrow> KeyState
       \<Rightarrow> (Command, string option \<times> Outcome) result \<times> KeyState" where
  "open_command C J e raw device_id now ks =
     (let unsigned_id = Option.bind (value_get ''id'' raw) as_str in
      case cj_signed J raw of
        None \<Rightarrow> (Err (unsigned_id, Outcome_new ''rejected'' ''unsigned''), ks)
      | Some signed \<Rightarrow>
          (let (verified, ks) = Tenant_Keys.verify C e now signed None ks in
           case verified of
             Err _ \<Rightarrow> (Err (unsigned_id, Outcome_new ''rejected'' ''signature''), ks)
           | Ok payload \<Rightarrow>
               (case cj_command J payload of
                  None \<Rightarrow> (Err (unsigned_id, Outcome_new ''rejected'' ''invalid_payload''), ks)
                | Some cmd \<Rightarrow> (check cmd device_id now, ks))))"

section \<open>Model: the device\<close>

text \<open>\<open>dv_reports\<close> are the results posted, \<open>dv_disconnects\<close> the calls that disconnect, and
  \<open>dv_executed\<close> the ids of the commands handed to \<open>execute\<close>, in order.\<close>

record Device =
  dv_grants :: GrantState
  dv_active :: ActiveTable
  dv_authed :: "int list"
  dv_policy :: PolicyWorld
  dv_force_sysinfo :: bool
  dv_done :: "string list"
  dv_reports :: "(string \<times> Outcome) list"
  dv_disconnects :: "int list list"
  dv_executed :: "string list"

text \<open>What happens outside while a command is handled; \<open>cx_crash\<close> is what a panicking execution
  leaves of the device (it has no access to the state of the channel itself).\<close>

record CommandEnv =
  cx_current :: "Enrollment option"
  cx_now :: int
  cx_api :: bool
  cx_update_started :: bool
  cx_diagnostics :: "(string, string) result"
  cx_io_ok :: bool
  cx_crash :: "(Device \<Rightarrow> Device) option"

definition take_force_sysinfo :: "Device \<Rightarrow> bool \<times> Device" where
  "take_force_sysinfo d = (dv_force_sysinfo d, d\<lparr>dv_force_sysinfo := False\<rparr>)"

definition disconnect :: "int list \<Rightarrow> Device \<Rightarrow> Device" where
  "disconnect conns d = (if conns = [] then d else d\<lparr>dv_disconnects := dv_disconnects d @ [conns]\<rparr>)"

definition execute :: "CommandEnv \<Rightarrow> Command \<Rightarrow> Device \<Rightarrow> Outcome \<times> Device" where
  "execute X cmd d =
     (if cm_kind cmd = ''update_now'' then
        (if cx_update_started X then Outcome_new ''done'' ''update check started''
         else Outcome_new ''failed'' ''updater not available'', d)
      else if cm_kind cmd = ''resync_policy'' then
        (Outcome_new ''done'' [], d\<lparr>dv_policy := request_resync (dv_policy d)\<rparr>)
      else if cm_kind cmd = ''resync_sysinfo'' then
        (Outcome_new ''done'' [], d\<lparr>dv_force_sysinfo := True\<rparr>)
      else if cm_kind cmd = ''close_session'' then
        (let session_id = (case as_str (value_index ''session_id'' (cm_args cmd)) of None \<Rightarrow> [] | Some s \<Rightarrow> s);
             (found, conns) = close_session session_id (dv_active d)
         in (if found then Outcome_new ''done'' [] else Outcome_new ''failed'' ''session not open on this device'',
             disconnect conns d))
      else if cm_kind cmd = ''collect_logs'' then
        (case cx_diagnostics X of
           Ok did \<Rightarrow> (\<lparr>oc_state = ''done'', oc_detail = [], oc_data = VObject [(''diagnostic_id'', VString did)]\<rparr>, d)
         | Err err \<Rightarrow> (Outcome_new ''failed'' err, d))
      else if cm_kind cmd = ''block_sessions'' \<or> cm_kind cmd = ''unblock_sessions'' then
        (let (ok, conns, gs) = set_sessions_blocked (cm_kind cmd = ''block_sessions'') (cx_io_ok X)
               (dv_authed d) (dv_active d) (dv_grants d)
         in (if ok then Outcome_new ''done'' [] else Outcome_new ''failed'' ''state not saved'',
             disconnect conns (d\<lparr>dv_grants := gs\<rparr>)))
      else (Outcome_new ''unsupported'' [], d))"

text \<open>\<open>String::truncate\<close>: no effect on a shorter string, a panic inside a character.\<close>

fun take_bytes :: "nat \<Rightarrow> string \<Rightarrow> string option" where
  "take_bytes n [] = Some []"
| "take_bytes n (c # cs) =
     (if n = 0 then Some []
      else if n < utf8_width c then None
      else map_option (Cons c) (take_bytes (n - utf8_width c) cs))"

definition truncate_str :: "nat \<Rightarrow> string \<Rightarrow> string option" where
  "truncate_str n s = (if byte_len s \<le> n then Some s else take_bytes n s)"

definition report :: "CommandEnv \<Rightarrow> string \<Rightarrow> Outcome \<Rightarrow> Device \<Rightarrow> Device option" where
  "report X cid outcome d =
     (if \<not> cx_api X then Some d
      else
        (case truncate_str 1024 (oc_detail outcome) of
           None \<Rightarrow> None
         | Some detail \<Rightarrow> Some (d\<lparr>dv_reports := dv_reports d @ [(cid, outcome\<lparr>oc_detail := detail\<rparr>)]\<rparr>)))"

definition remember :: "string \<Rightarrow> string list \<Rightarrow> string list" where
  "remember cid done_ids =
     pop_excess REMEMBERED_IDS (done_ids @ [cid])"

text \<open>The blocking task: the command with its outcome, or the replacement after a panic.\<close>

definition run_task :: "CommandEnv \<Rightarrow> Command \<Rightarrow> Device \<Rightarrow> string \<times> Outcome \<times> Device" where
  "run_task X cmd d =
     (let d = d\<lparr>dv_executed := dv_executed d @ [cm_id cmd]\<rparr> in
      case cx_crash X of
        None \<Rightarrow> (case execute X cmd d of (outcome, d) \<Rightarrow> (cm_id cmd, outcome, d))
      | Some left \<Rightarrow>
          ([], Outcome_new ''failed'' ''internal error'',
           (left d)\<lparr>dv_done := dv_done d, dv_reports := dv_reports d, dv_executed := dv_executed d\<rparr>))"

definition handle_command :: "CommandEnv \<Rightarrow> Command \<Rightarrow> Device \<Rightarrow> Device option" where
  "handle_command X cmd d =
     (if cm_id cmd \<in> set (dv_done d) then Some d
      else
        Option.bind (report X (cm_id cmd) (Outcome_new ''accepted'' []) d) (\<lambda>d.
          case run_task X cmd d of (cid, outcome, d) \<Rightarrow>
            if cid = [] then Some d
            else Option.bind (report X cid outcome d) (\<lambda>d.
                   Some (d\<lparr>dv_done := remember cid (dv_done d)\<rparr>))))"

definition handle :: "Crypto \<Rightarrow> CommandJson \<Rightarrow> CommandEnv \<Rightarrow> Value \<Rightarrow> Device \<Rightarrow> Device option" where
  "handle C J X raw d =
     (case cx_current X of
        None \<Rightarrow> Some d
      | Some e \<Rightarrow>
          (let (opened, ks) = open_command C J (Some e) raw (en_device_id e) (cx_now X) (gs_keys (dv_grants d));
               d = d\<lparr>dv_grants := (dv_grants d)\<lparr>gs_keys := ks\<rparr>\<rparr>
           in case opened of
                Ok cmd \<Rightarrow> handle_command X cmd d
              | Err (Some cid, outcome) \<Rightarrow> report X cid outcome d
              | Err (None, outcome) \<Rightarrow> Some d))"

section \<open>Model: the polling loop\<close>

definition is_unreserved :: "nat \<Rightarrow> bool" where
  "is_unreserved b =
     (65 \<le> b \<and> b \<le> 90 \<or> 97 \<le> b \<and> b \<le> 122 \<or> 48 \<le> b \<and> b \<le> 57 \<or> b \<in> {45, 95, 46, 126})"

definition hex_digit :: "nat \<Rightarrow> char" where
  "hex_digit n = (if n < 10 then char_of (48 + n) else char_of (55 + n))"

definition encode_byte :: "nat \<Rightarrow> string" where
  "encode_byte b =
     (if is_unreserved b then [char_of b] else [CHR ''%'', hex_digit (b div 16), hex_digit (b mod 16)])"

definition urlencode :: "string \<Rightarrow> string" where
  "urlencode s = concat (map encode_byte (concat (map utf8_bytes s)))"

record Poll =
  po_cursor :: string
  po_backoff :: nat

text \<open>One turn of the loop: the request made, the new loop state, the device and the seconds slept
  at the end. \<open>base\<close> is the address when enrolled; \<open>reply\<close> the JSON, \<open>elapsed\<close> in milliseconds.\<close>

definition poll_url :: "string \<Rightarrow> Poll \<Rightarrow> string" where
  "poll_url base p =
     base @ ''?wait=50'' @ (if po_cursor p \<noteq> [] then ''&after='' @ urlencode (po_cursor p) else [])"

fun handle_all :: "Crypto \<Rightarrow> CommandJson \<Rightarrow> (CommandEnv \<times> Value) list \<Rightarrow> Device \<Rightarrow> Device option" where
  "handle_all C J [] d = Some d"
| "handle_all C J ((X, raw) # cs) d = Option.bind (handle C J X raw d) (handle_all C J cs)"

definition poll_turn ::
    "Crypto \<Rightarrow> CommandJson \<Rightarrow> string option \<Rightarrow> Value option \<Rightarrow> nat \<Rightarrow> (nat \<Rightarrow> CommandEnv) \<Rightarrow> Poll \<Rightarrow> Device
       \<Rightarrow> (Poll \<times> Device \<times> nat) option" where
  "poll_turn C J base reply elapsed Xs p d =
     (case base of
        None \<Rightarrow> Some (p\<lparr>po_cursor := []\<rparr>, d, 60)
      | Some _ \<Rightarrow>
          (case reply of
             Some v \<Rightarrow>
               (let p = p\<lparr>po_backoff := 5\<rparr>;
                    p = (case Option.bind (value_get ''cursor'' v) as_str of Some c \<Rightarrow> p\<lparr>po_cursor := c\<rparr> | None \<Rightarrow> p);
                    commands = (case Option.bind (value_get ''commands'' v) as_array of Some cs \<Rightarrow> cs | None \<Rightarrow> [])
                in map_option (\<lambda>d. (p, d, if commands = [] \<and> elapsed < MIN_EMPTY_INTERVAL then 5 else 0))
                     (handle_all C J (zip (map Xs [0..<length commands]) commands) d))
           | None \<Rightarrow> Some (p\<lparr>po_backoff := min (po_backoff p * 2) MAX_BACKOFF\<rparr>, d, po_backoff p)))"

section \<open>What a handled command changes\<close>

interpretation ids: bounded_window remember REMEMBERED_IDS
  by unfold_locales (simp add: remember_def pop_excess_eq Let_def)

lemma close_session_fields [simp]:
  "dv_done (disconnect cs d) = dv_done d" "dv_executed (disconnect cs d) = dv_executed d"
  "dv_reports (disconnect cs d) = dv_reports d" "dv_grants (disconnect cs d) = dv_grants d"
  by (simp_all add: disconnect_def)

lemma execute_fields:
  assumes "execute X cmd d = (outcome, d')"
  shows "dv_done d' = dv_done d" "dv_executed d' = dv_executed d" "dv_reports d' = dv_reports d"
  using assms
  by (auto simp: execute_def Let_def split: if_splits prod.splits result.splits)

lemma report_fields:
  assumes "report X cid outcome d = Some d'"
  shows "dv_done d' = dv_done d" "dv_executed d' = dv_executed d" "dv_grants d' = dv_grants d"
    "\<exists>r. d' = d\<lparr>dv_reports := dv_reports d @ r\<rparr>"
proof -
  have "\<exists>r. d' = d\<lparr>dv_reports := dv_reports d @ r\<rparr>"
    using assms by (auto simp: report_def split: if_splits option.splits intro: exI [of _ "[]"])
  then show "\<exists>r. d' = d\<lparr>dv_reports := dv_reports d @ r\<rparr>" "dv_done d' = dv_done d"
    "dv_executed d' = dv_executed d" "dv_grants d' = dv_grants d" by auto
qed

lemma run_task_fields:
  assumes "run_task X cmd d = (cid, outcome, d')"
  shows "dv_done d' = dv_done d" "dv_executed d' = dv_executed d @ [cm_id cmd]" "cid = [] \<or> cid = cm_id cmd"
  using assms execute_fields [of X cmd]
  by (auto simp: run_task_def Let_def split: option.splits prod.splits)

text \<open>Handling an open command: nothing, or one execution of an id that is not remembered, which is
  then remembered unless it is empty or the execution panicked.\<close>

lemma handle_command_cases:
  assumes "handle_command X cmd d = Some d'"
  shows "d' = d \<and> cm_id cmd \<in> set (dv_done d) \<or>
    cm_id cmd \<notin> set (dv_done d) \<and> dv_executed d' = dv_executed d @ [cm_id cmd]
      \<and> dv_done d' = (if cm_id cmd = [] \<or> cx_crash X \<noteq> None then dv_done d else remember (cm_id cmd) (dv_done d))"
proof (cases "cm_id cmd \<in> set (dv_done d)")
  case False
  with assms obtain d1 where d1: "report X (cm_id cmd) (Outcome_new ''accepted'' []) d = Some d1"
    and rest: "(case run_task X cmd d1 of (cid, outcome, d) \<Rightarrow>
            if cid = [] then Some d
            else Option.bind (report X cid outcome d) (\<lambda>d. Some (d\<lparr>dv_done := remember cid (dv_done d)\<rparr>))) = Some d'"
    by (auto simp: handle_command_def bind_eq_Some_conv)
  obtain cid outcome d2 where t: "run_task X cmd d1 = (cid, outcome, d2)" by (cases "run_task X cmd d1") auto
  have cid: "cid = (if cx_crash X \<noteq> None then [] else cm_id cmd)"
    using t by (auto simp: run_task_def Let_def split: option.splits prod.splits)
  note f = run_task_fields [OF t] report_fields [OF d1]
  show ?thesis
  proof (cases "cid = []")
    case True
    with rest t have "d' = d2" by simp
    with f cid True False show ?thesis by (auto split: if_splits)
  next
    case False2: False
    with rest t obtain d3 where "report X cid outcome d2 = Some d3" "d' = d3\<lparr>dv_done := remember cid (dv_done d3)\<rparr>"
      by (auto simp: bind_eq_Some_conv)
    with f report_fields [of X cid outcome d2 d3] cid False2 False show ?thesis by (auto split: if_splits)
  qed
qed (use assms in \<open>simp add: handle_command_def\<close>)

text \<open>A delivery that executes nothing changes the key store and the reports only.\<close>

definition only_reports :: "Device \<Rightarrow> Device \<Rightarrow> bool" where
  "only_reports d d' \<longleftrightarrow>
     (\<exists>ks r. d' = d\<lparr>dv_grants := (dv_grants d)\<lparr>gs_keys := ks\<rparr>, dv_reports := dv_reports d @ r\<rparr>)"

lemma only_reports_refl: "only_reports d (d\<lparr>dv_grants := (dv_grants d)\<lparr>gs_keys := ks\<rparr>\<rparr>)"
  unfolding only_reports_def by (rule exI [of _ ks], rule exI [of _ "[]"]) simp

lemma only_reports_same: "only_reports d d"
  using only_reports_refl [of d "gs_keys (dv_grants d)"] by simp

lemma report_only:
  "report X cid outcome (d\<lparr>dv_grants := (dv_grants d)\<lparr>gs_keys := ks\<rparr>\<rparr>) = Some d' \<Longrightarrow> only_reports d d'"
  by (drule report_fields(4)) (auto simp: only_reports_def)

lemma handle_cases:
  assumes "handle C J X raw d = Some d'"
  shows "only_reports d d' \<or>
    (\<exists>e cmd ks. cx_current X = Some e
       \<and> open_command C J (Some e) raw (en_device_id e) (cx_now X) (gs_keys (dv_grants d)) = (Ok cmd, ks)
       \<and> cm_id cmd \<notin> set (dv_done d) \<and> dv_executed d' = dv_executed d @ [cm_id cmd]
       \<and> dv_done d' = (if cm_id cmd = [] \<or> cx_crash X \<noteq> None then dv_done d else remember (cm_id cmd) (dv_done d)))"
proof (cases "cx_current X")
  case (Some e)
  obtain opened ks where o: "open_command C J (Some e) raw (en_device_id e) (cx_now X) (gs_keys (dv_grants d)) = (opened, ks)"
    by fastforce
  let ?d = "d\<lparr>dv_grants := (dv_grants d)\<lparr>gs_keys := ks\<rparr>\<rparr>"
  show ?thesis
  proof (cases opened)
    case (Ok cmd)
    then have "handle_command X cmd ?d = Some d'" using assms by (simp add: handle_def Some o)
    from handle_command_cases [OF this] Some o Ok show ?thesis
      by (elim disjE) (use only_reports_refl in auto)
  next
    case (Err err)
    obtain i outcome where err: "err = (i, outcome)" by fastforce
    have "only_reports d d'"
    proof (cases i)
      case None
      with Err err assms have "d' = ?d" by (simp add: handle_def Some o)
      then show ?thesis using only_reports_refl by simp
    next
      case (Some c)
      with Err err assms have "report X c outcome ?d = Some d'" by (simp add: handle_def \<open>cx_current X = Some e\<close> o)
      then show ?thesis by (rule report_only)
    qed
    then show ?thesis ..
  qed
qed (use assms only_reports_same in \<open>auto simp: handle_def\<close>)

text \<open>The ids one delivery remembers and executes.\<close>

lemma handle_ids:
  assumes "handle C J X raw d = Some d'"
  shows "\<exists>ys ey. dv_done d' = fold remember ys (dv_done d) \<and> length ys \<le> 1
    \<and> dv_executed d' = dv_executed d @ ey \<and> (\<forall>c\<in>set ey. c \<notin> set (dv_done d))"
  using handle_cases [OF assms]
proof
  assume "only_reports d d'"
  then show ?thesis by (intro exI [of _ "[]"]) (auto simp: only_reports_def)
next
  assume "\<exists>e cmd ks. cx_current X = Some e
       \<and> open_command C J (Some e) raw (en_device_id e) (cx_now X) (gs_keys (dv_grants d)) = (Ok cmd, ks)
       \<and> cm_id cmd \<notin> set (dv_done d) \<and> dv_executed d' = dv_executed d @ [cm_id cmd]
       \<and> dv_done d' = (if cm_id cmd = [] \<or> cx_crash X \<noteq> None then dv_done d else remember (cm_id cmd) (dv_done d))"
  then obtain c where c: "c \<notin> set (dv_done d)" "dv_executed d' = dv_executed d @ [c]"
    "dv_done d' = dv_done d \<or> dv_done d' = remember c (dv_done d)" by (auto split: if_splits)
  then have "\<exists>ys. dv_done d' = fold remember ys (dv_done d) \<and> length ys \<le> 1"
    by (elim disjE) (auto intro: exI [of _ "[]"] exI [of _ "[c]"])
  with c show ?thesis by (auto intro: exI [of _ "[c]"])
qed

lemma open_command_Ok:
  assumes "open_command C J e raw device_id now ks = (Ok cmd, ks')"
  shows "\<exists>signed payload. cj_signed J raw = Some signed
      \<and> fst (Tenant_Keys.verify C e now signed None ks) = Ok payload \<and> cj_command J payload = Some cmd
      \<and> cm_device_id cmd = device_id \<and> (cm_expires_at cmd \<le> 0 \<or> now \<le> cm_expires_at cmd)"
  using assms
  by (fastforce simp: open_command_def Let_def check_def split: option.splits prod.splits result.splits if_splits)

lemma remembered_after:
  assumes "c = last ds" "ds \<noteq> []" "length ds \<le> REMEMBERED_IDS" "length xs < REMEMBERED_IDS"
  shows "c \<in> set (fold remember xs ds)"
proof -
  let ?n = "length (ds @ xs) - REMEMBERED_IDS"
  have "?n < length ds" using assms by (cases ds) auto
  then have "drop ?n (ds @ xs) = drop ?n ds @ xs" by simp
  moreover have "last ds \<in> set (drop ?n ds)" using \<open>?n < length ds\<close> by (metis drop_eq_Nil last_drop last_in_set linorder_not_less)
  ultimately show ?thesis using ids.run_eq [OF assms(3), of xs] assms(1) by simp
qed

lemma not_executed_again:
  assumes "handle_all C J cs d = Some d'" "dv_done d = fold remember xs ds" "ds \<noteq> []"
    "length ds \<le> REMEMBERED_IDS" "length xs + length cs \<le> REMEMBERED_IDS"
  shows "\<exists>ex. dv_executed d' = dv_executed d @ ex \<and> last ds \<notin> set ex"
  using assms
proof (induction cs arbitrary: d xs)
  case (Cons c cs)
  obtain X raw where c: "c = (X, raw)" by (cases c)
  with Cons.prems obtain d1 where d1: "handle C J X raw d = Some d1" "handle_all C J cs d1 = Some d'"
    by (auto simp: bind_eq_Some_conv)
  have held: "last ds \<in> set (dv_done d)"
    using Cons.prems remembered_after [of "last ds" ds xs] by simp
  from handle_ids [OF d1(1)] held obtain ys ey where y: "dv_done d1 = fold remember ys (dv_done d)" "length ys \<le> 1"
    "dv_executed d1 = dv_executed d @ ey" "last ds \<notin> set ey" by blast
  from Cons.IH [OF d1(2), of "xs @ ys"] y Cons.prems
  obtain ex where "dv_executed d' = dv_executed d1 @ ex" "last ds \<notin> set ex" by auto
  with y show ?case by (intro exI [of _ "ey @ ex"]) simp
qed simp

section \<open>A concrete command\<close>

definition toy_command :: Command where
  "toy_command = \<lparr>cm_id = ''c1'', cm_kind = ''block_sessions'', cm_args = VNull, cm_device_id = ''d1'', cm_expires_at = 2000\<rparr>"

definition toy_cjson :: CommandJson where
  "toy_cjson = \<lparr>cj_signed = (\<lambda>v. Some toy_doc), cj_command = (\<lambda>b. Some toy_command)\<rparr>"

definition toy_device :: Device where
  "toy_device = \<lparr>dv_grants = toy_grants, dv_active = [(7, \<lparr>ac_session_id = ''s1'', ac_started = 0\<rparr>)], dv_authed = [7, 9],
     dv_policy = toy_world, dv_force_sysinfo = False, dv_done = [''c0''], dv_reports = [], dv_disconnects = [], dv_executed = []\<rparr>"

definition toy_cx :: CommandEnv where
  "toy_cx = \<lparr>cx_current = Some toy_enrollment, cx_now = 950, cx_api = True, cx_update_started = False,
     cx_diagnostics = Err ''offline'', cx_io_ok = True, cx_crash = None\<rparr>"

definition toy_handled :: Device where
  "toy_handled = toy_device\<lparr>dv_grants := toy_grants\<lparr>gs_blocked := True\<rparr>, dv_done := [''c0'', ''c1''],
     dv_reports := [(''c1'', Outcome_new ''accepted'' []), (''c1'', Outcome_new ''done'' [])],
     dv_disconnects := [[7, 9]], dv_executed := [''c1'']\<rparr>"

lemma toy_handle: "handle toy toy_cjson toy_cx VNull toy_device = Some toy_handled"
  by code_simp

section \<open>Properties\<close>

text \<open>C14: a command is executed only on an enrolled device, when a key the tenant can use now signed
  it, for this device, not expired, and with an id that is not among the remembered ones; one
  delivery executes at most one command. Any other delivery leaves the remembered ids and changes
  nothing of the device but the key store and the reports.\<close>

theorem command_authentic:
  assumes "handle C J X raw d = Some d'"
  shows "(\<exists>e signed payload cmd k s. cx_current X = Some e \<and> cj_signed J raw = Some signed
        \<and> current_store C (Some e) (cx_now X) (gs_keys (dv_grants d)) = Some s \<and> k \<in> set (st_keys s)
        \<and> usable k (cx_now X) \<and> verify_with C (tk_public_key k) signed = Some payload
        \<and> cj_command J payload = Some cmd \<and> cm_device_id cmd = en_device_id e
        \<and> (cm_expires_at cmd \<le> 0 \<or> cx_now X \<le> cm_expires_at cmd)
        \<and> cm_id cmd \<notin> set (dv_done d) \<and> dv_executed d' = dv_executed d @ [cm_id cmd])
    \<or> (\<exists>ks r. d' = d\<lparr>dv_grants := (dv_grants d)\<lparr>gs_keys := ks\<rparr>, dv_reports := dv_reports d @ r\<rparr>)"
  using handle_cases [OF assms]
proof
  assume "only_reports d d'"
  then show ?thesis unfolding only_reports_def by blast
next
  assume "\<exists>e cmd ks. cx_current X = Some e
       \<and> open_command C J (Some e) raw (en_device_id e) (cx_now X) (gs_keys (dv_grants d)) = (Ok cmd, ks)
       \<and> cm_id cmd \<notin> set (dv_done d) \<and> dv_executed d' = dv_executed d @ [cm_id cmd]
       \<and> dv_done d' = (if cm_id cmd = [] \<or> cx_crash X \<noteq> None then dv_done d else remember (cm_id cmd) (dv_done d))"
  then obtain e cmd ks where e: "cx_current X = Some e" "cm_id cmd \<notin> set (dv_done d)"
      "dv_executed d' = dv_executed d @ [cm_id cmd]"
    and o: "open_command C J (Some e) raw (en_device_id e) (cx_now X) (gs_keys (dv_grants d)) = (Ok cmd, ks)" by blast
  from open_command_Ok [OF o] obtain signed payload where
    s: "cj_signed J raw = Some signed" "cj_command J payload = Some cmd" "cm_device_id cmd = en_device_id e"
      "cm_expires_at cmd \<le> 0 \<or> cx_now X \<le> cm_expires_at cmd"
    and v: "fst (Tenant_Keys.verify C (Some e) (cx_now X) signed None (gs_keys (dv_grants d))) = Ok payload" by blast
  from verify_Ok [OF v] e s show ?thesis by blast
qed

theorem command_authentic_witness:
  "\<exists>e signed payload cmd k s. cx_current toy_cx = Some e \<and> cj_signed toy_cjson VNull = Some signed
        \<and> current_store toy (Some e) (cx_now toy_cx) (gs_keys (dv_grants toy_device)) = Some s \<and> k \<in> set (st_keys s)
        \<and> usable k (cx_now toy_cx) \<and> verify_with toy (tk_public_key k) signed = Some payload
        \<and> cj_command toy_cjson payload = Some cmd \<and> cm_device_id cmd = en_device_id e
        \<and> cm_id cmd \<notin> set (dv_done toy_device) \<and> dv_executed toy_handled = dv_executed toy_device @ [cm_id cmd]"
proof -
  have "dv_executed toy_handled \<noteq> dv_executed toy_device" by code_simp
  moreover have "dv_executed toy_handled = dv_executed toy_device"
    if "toy_handled = toy_device\<lparr>dv_grants := g, dv_reports := r\<rparr>" for g r
    using arg_cong [OF that, of dv_executed] by simp
  ultimately show ?thesis using command_authentic [OF toy_handle] by blast
qed

text \<open>A command is executed once. After a delivery that remembers an id, no delivery among the next
  255 executes a command with that id, whatever the deliveries are and whatever is delivered again.\<close>

theorem command_once:
  assumes "length (dv_done d) \<le> 256" "handle C J X raw d = Some d1"
    and "dv_executed d1 = dv_executed d @ [c]" "c \<noteq> []" "cx_crash X = None"
    and "handle_all C J cs d1 = Some d2" "length cs \<le> 256"
  shows "\<exists>ex. dv_executed d2 = dv_executed d1 @ ex \<and> c \<notin> set ex"
proof -
  have "dv_done d1 = remember c (dv_done d)"
    using handle_cases [OF assms(2)] assms(3-5) by (auto simp: only_reports_def)
  then have d1: "dv_done d1 = drop (Suc (length (dv_done d)) - REMEMBERED_IDS) (dv_done d @ [c])"
    using ids.push_eq assms(1) by (simp add: REMEMBERED_IDS_def)
  moreover have "Suc (length (dv_done d)) - REMEMBERED_IDS < length (dv_done d @ [c])" by (simp add: REMEMBERED_IDS_def)
  ultimately have "last (dv_done d1) = c" "dv_done d1 \<noteq> []" by (simp_all add: last_drop)
  moreover have "length (dv_done d1) \<le> REMEMBERED_IDS" unfolding d1 by simp
  ultimately show ?thesis
    using not_executed_again [OF assms(6), of "[]" "dv_done d1"] assms(7) by (simp add: REMEMBERED_IDS_def)
qed

theorem command_once_witness:
  "\<exists>ex. dv_executed (the (handle_all toy toy_cjson [(toy_cx, VNull)] toy_handled)) = dv_executed toy_handled @ ex
     \<and> ''c1'' \<notin> set ex"
proof (rule command_once [OF _ toy_handle])
  show "length (dv_done toy_device) \<le> 256" by (simp add: toy_device_def)
  show "dv_executed toy_handled = dv_executed toy_device @ [''c1'']" by code_simp
  show "cx_crash toy_cx = None" by code_simp
  show "handle_all toy toy_cjson [(toy_cx, VNull)] toy_handled = Some (the (handle_all toy toy_cjson [(toy_cx, VNull)] toy_handled))"
    by code_simp
qed simp_all

text \<open>With an empty id the guarantee fails: such a signed command is executed at every delivery,
  since its id is never remembered.\<close>

theorem empty_id_repeats:
  "\<exists>C J X raw d d1 d2. handle C J X raw d = Some d1 \<and> handle C J X raw d1 = Some d2
     \<and> dv_executed d = [] \<and> dv_executed d2 = [[], []] \<and> length (dv_reports d2) = 2"
proof -
  define J where "J = toy_cjson\<lparr>cj_command := (\<lambda>b. Some (toy_command\<lparr>cm_id := [], cm_kind := ''resync_sysinfo''\<rparr>))\<rparr>"
  have "handle toy J toy_cx VNull toy_device = Some (toy_device\<lparr>dv_force_sysinfo := True,
      dv_reports := [([], Outcome_new ''accepted'' [])], dv_executed := [[]]\<rparr>)"
    unfolding J_def by code_simp
  moreover have "handle toy J toy_cx VNull (toy_device\<lparr>dv_force_sysinfo := True,
      dv_reports := [([], Outcome_new ''accepted'' [])], dv_executed := [[]]\<rparr>)
      = Some (toy_device\<lparr>dv_force_sysinfo := True,
          dv_reports := [([], Outcome_new ''accepted'' []), ([], Outcome_new ''accepted'' [])], dv_executed := [[], []]\<rparr>)"
    unfolding J_def by code_simp
  moreover have "dv_executed toy_device = []" by code_simp
  ultimately show ?thesis by force
qed

text \<open>Truncation fails exactly inside a character.\<close>

lemma take_bytes_None:
  "take_bytes n s = None \<longleftrightarrow> n < byte_len s \<and> \<not> (\<exists>t u. s = t @ u \<and> byte_len t = n)"
proof (induction n s rule: take_bytes.induct)
  case (2 n c cs)
  have w: "0 < utf8_width c" by (simp add: utf8_width_def)
  consider "n = 0" | "n \<noteq> 0" "n < utf8_width c" | "n \<noteq> 0" "utf8_width c \<le> n" by fastforce
  then show ?case
  proof cases
    case 1
    have "\<exists>t u. c # cs = t @ u \<and> byte_len t = 0" by (rule exI [of _ "[]"]) simp
    with 1 show ?thesis by simp
  next
    case 2
    then have "\<not> (\<exists>t u. c # cs = t @ u \<and> byte_len t = n)" by (auto simp: Cons_eq_append_conv)
    with 2 show ?thesis by auto
  next
    case 3
    have "(\<exists>t u. c # cs = t @ u \<and> byte_len t = n) \<longleftrightarrow> (\<exists>t u. cs = t @ u \<and> byte_len t = n - utf8_width c)"
    proof
      assume "\<exists>t u. c # cs = t @ u \<and> byte_len t = n"
      with 3 show "\<exists>t u. cs = t @ u \<and> byte_len t = n - utf8_width c" by (auto simp: Cons_eq_append_conv)
    next
      assume "\<exists>t u. cs = t @ u \<and> byte_len t = n - utf8_width c"
      then obtain t u where "cs = t @ u" "byte_len t = n - utf8_width c" by blast
      with 3 have "c # cs = (c # t) @ u \<and> byte_len (c # t) = n" by simp
      then show "\<exists>t u. c # cs = t @ u \<and> byte_len t = n" by blast
    qed
    with 3 "2.IH" show ?thesis by auto
  qed
qed simp

text \<open>Reporting panics exactly when the detail is longer than 1024 bytes and byte 1024 falls inside
  a character.\<close>

theorem report_panics:
  "report X cid outcome d = None \<longleftrightarrow>
   cx_api X \<and> 1024 < byte_len (oc_detail outcome)
     \<and> \<not> (\<exists>t u. oc_detail outcome = t @ u \<and> byte_len t = 1024)"
  using take_bytes_None [of 1024 "oc_detail outcome"]
  by (cases "take_bytes 1024 (oc_detail outcome)") (auto simp: report_def truncate_str_def)

end
