(* ===== verification/Audit_Queue.thy ===== *)
theory Audit_Queue
  imports Json_Value
begin

text \<open>
  The queue of audit events for the server, \<^verbatim>\<open>src/src/clanto/audit_queue.rs\<close>: the sequence
  numbers, the queue in memory and its two files, the delivery of queued events. The state file is
  modelled as the JSON value it holds, the queue file as its lines; sealing with the machine key, the
  fresh UUIDs, the clock, the success of writes and the server's answers are arguments. Counters are
  \<open>u64\<close> values that wrap, as in a release build.

  \<open>flush_once\<close> releases the lock while a request is under way: \<open>flush_peek\<close> and
  \<open>flush_commit\<close> are its two critical sections, and \<open>flush_once\<close> runs them without interference.
\<close>

section \<open>Model\<close>

definition MAX_QUEUED :: nat where "MAX_QUEUED = 10000"
definition KINDS :: "string list" where "KINDS = [''conn'', ''file'', ''alarm'']"

record Queue =
  q_loaded :: bool
  q_epoch :: string
  q_next_seq :: nat
  q_dropped :: nat
  q_items :: "(string \<times> Value) list"

record AuditState =
  au_queue :: Queue
  au_state_file :: "Value option"
  au_queue_file :: "string list option"

text \<open>What a call meets outside: a fresh UUID, sealing and unsealing of a record (\<open>None\<close> without the
  machine key), and the success of the two writes.\<close>

record AuditEnv =
  ae_uuid :: string
  ae_seal :: "Value \<Rightarrow> string option"
  ae_unseal :: "string \<Rightarrow> Value option"
  ae_state_ok :: bool
  ae_queue_ok :: bool

definition save_state :: "AuditEnv \<Rightarrow> AuditState \<Rightarrow> AuditState" where
  "save_state A st =
     (if ae_state_ok A then
        st\<lparr>au_state_file := Some (VObject
             [(''seq_epoch'', VString (q_epoch (au_queue st))),
              (''next_seq'', VNumber (int (q_next_seq (au_queue st)))),
              (''dropped'', VNumber (int (q_dropped (au_queue st))))])\<rparr>
      else st)"

definition save_queue :: "AuditEnv \<Rightarrow> AuditState \<Rightarrow> AuditState" where
  "save_queue A st =
     (if q_items (au_queue st) = [] then
        (if au_queue_file st \<noteq> None \<and> ae_queue_ok A then st\<lparr>au_queue_file := None\<rparr> else st)
      else if ae_queue_ok A then
        st\<lparr>au_queue_file := Some (List.map_filter
             (\<lambda>(kind, body). ae_seal A (VObject [(''kind'', VString kind), (''body'', body)]))
             (q_items (au_queue st)))\<rparr>
      else st)"

definition u64_field :: "string \<Rightarrow> Value \<Rightarrow> nat" where
  "u64_field k v = (case as_u64 (value_index k v) of None \<Rightarrow> 0 | Some n \<Rightarrow> n)"

definition str_field :: "string \<Rightarrow> Value \<Rightarrow> string" where
  "str_field k v = (case as_str (value_index k v) of None \<Rightarrow> [] | Some s \<Rightarrow> s)"

definition load_line :: "AuditEnv \<Rightarrow> string \<Rightarrow> Queue \<Rightarrow> Queue" where
  "load_line A line q =
     (case ae_unseal A line of
        Some v \<Rightarrow>
          (let kind = str_field ''kind'' v in
           if kind \<in> set KINDS then q\<lparr>q_items := q_items q @ [(kind, value_index ''body'' v)]\<rparr> else q)
      | None \<Rightarrow> q\<lparr>q_dropped := add_u64 (q_dropped q) 1\<rparr>)"

definition load_state :: "Value option \<Rightarrow> Queue \<Rightarrow> Queue" where
  "load_state sf q =
     (case sf of
        Some v \<Rightarrow> q\<lparr>q_next_seq := u64_field ''next_seq'' v, q_dropped := u64_field ''dropped'' v,
                     q_epoch := str_field ''seq_epoch'' v\<rparr>
      | None \<Rightarrow> q)"

definition load :: "AuditEnv \<Rightarrow> AuditState \<Rightarrow> AuditState" where
  "load A st =
     (if q_loaded (au_queue st) then st
      else
        (let st = st\<lparr>au_queue := load_state (au_state_file st) ((au_queue st)\<lparr>q_loaded := True\<rparr>)\<rparr>;
             st = (if q_epoch (au_queue st) = [] then
                     save_state A (st\<lparr>au_queue := (au_queue st)\<lparr>q_epoch := ae_uuid A, q_next_seq := 0\<rparr>\<rparr>)
                   else st)
         in case au_queue_file st of
              None \<Rightarrow> st
            | Some lines \<Rightarrow>
                st\<lparr>au_queue := fold (load_line A) (filter (\<lambda>l. l \<noteq> []) lines) (au_queue st)\<rparr>))"

text \<open>The event with \<open>seq\<close>, \<open>seq_epoch\<close> and \<open>ts\<close>; \<open>None\<close> when the event is not an object.\<close>

definition stamp :: "AuditEnv \<Rightarrow> int \<Rightarrow> Value \<Rightarrow> AuditState \<Rightarrow> Value option \<times> AuditState" where
  "stamp A now v st =
     (let st = load A st; q = au_queue st in
      (Option.bind (value_set ''seq'' (VNumber (int (q_next_seq q))) v) (\<lambda>v.
         Option.bind (value_set ''seq_epoch'' (VString (q_epoch q)) v) (value_set ''ts'' (VNumber now))),
       save_state A (st\<lparr>au_queue := q\<lparr>q_next_seq := add_u64 (q_next_seq q) 1\<rparr>\<rparr>)))"

definition ends_with :: "string \<Rightarrow> string \<Rightarrow> bool" where
  "ends_with s p = (length p \<le> length s \<and> drop (length s - length p) s = p)"

definition kind_of :: "(string \<Rightarrow> string option) \<Rightarrow> string \<Rightarrow> string option" where
  "kind_of url_path url =
     Option.bind (url_path url) (\<lambda>path. List.find (\<lambda>k. ends_with path (''/api/audit/'' @ k)) KINDS)"

definition audit_url :: "string option \<Rightarrow> string \<Rightarrow> string" where
  "audit_url api kind = (case api of None \<Rightarrow> [] | Some api \<Rightarrow> api @ ''/api/audit/'' @ kind)"

text \<open>The loop that makes room, with its count, then the insertion.\<close>

fun make_room :: "(string \<times> Value) list \<Rightarrow> nat \<Rightarrow> (string \<times> Value) list \<times> nat" where
  "make_room [] dropped = ([], dropped)"
| "make_room (x # xs) dropped =
     (if length (x # xs) \<ge> MAX_QUEUED then make_room xs (add_u64 dropped 1) else (x # xs, dropped))"

definition enqueue :: "string \<times> Value \<Rightarrow> Queue \<Rightarrow> Queue" where
  "enqueue item q =
     (case make_room (q_items q) (q_dropped q) of
        (xs, n) \<Rightarrow> q\<lparr>q_items := xs @ [item], q_dropped := n\<rparr>)"

definition push ::
    "AuditEnv \<Rightarrow> (string \<Rightarrow> string option) \<Rightarrow> bool \<Rightarrow> string \<Rightarrow> Value \<Rightarrow> AuditState \<Rightarrow> AuditState" where
  "push A url_path enrolled url v st =
     (case kind_of url_path url of
        None \<Rightarrow> st
      | Some kind \<Rightarrow>
          if \<not> enrolled then st
          else
            (let st = load A st;
                 st = st\<lparr>au_queue := enqueue (kind, v) (au_queue st)\<rparr>
             in save_state A (save_queue A st)))"

definition dropped :: "AuditEnv \<Rightarrow> AuditState \<Rightarrow> nat \<times> AuditState" where
  "dropped A st = (let st = load A st in (q_dropped (au_queue st), st))"

definition dropped_reported :: "AuditEnv \<Rightarrow> nat \<Rightarrow> AuditState \<Rightarrow> AuditState" where
  "dropped_reported A count st =
     save_state A (st\<lparr>au_queue := (au_queue st)\<lparr>q_dropped := sat_sub (q_dropped (au_queue st)) count\<rparr>\<rparr>)"

definition clear :: "AuditEnv \<Rightarrow> string \<Rightarrow> AuditState \<Rightarrow> AuditState" where
  "clear A uuid st =
     (let st = load A st;
          st = st\<lparr>au_queue := (au_queue st)\<lparr>q_items := [], q_dropped := 0, q_epoch := uuid, q_next_seq := 0\<rparr>\<rparr>
      in save_state A (save_queue A st))"

text \<open>Before the request: the front of the queue.\<close>

definition flush_peek :: "AuditEnv \<Rightarrow> AuditState \<Rightarrow> (string \<times> Value) option \<times> AuditState" where
  "flush_peek A st =
     (let st = load A st in
      (case q_items (au_queue st) of [] \<Rightarrow> None | x # _ \<Rightarrow> Some x, st))"

definition delivered :: "nat \<Rightarrow> string \<Rightarrow> bool" where
  "delivered status rsp = (200 \<le> status \<and> status < 300 \<and> trim rsp = [])"

definition rejected :: "nat \<Rightarrow> bool" where
  "rejected status = (400 \<le> status \<and> status < 500 \<and> status \<noteq> 401 \<and> status \<noteq> 408 \<and> status \<noteq> 429)"

text \<open>After a request that delivered the event or that the server rejected for good.\<close>

definition flush_commit :: "AuditEnv \<Rightarrow> AuditState \<Rightarrow> AuditState" where
  "flush_commit A st =
     save_queue A (st\<lparr>au_queue := (au_queue st)\<lparr>q_items := tl (q_items (au_queue st))\<rparr>\<rparr>)"

text \<open>The loop, one reply per request (\<open>None\<close> when the request fails), until a reply stops it, the
  queue is empty or the device is not enrolled; it returns the events sent with their replies.\<close>

fun flush_once ::
    "AuditEnv \<Rightarrow> string option \<Rightarrow> (nat \<times> string) option list \<Rightarrow> AuditState
       \<Rightarrow> ((string \<times> Value) \<times> (nat \<times> string) option) list \<times> AuditState" where
  "flush_once A api [] st = ([], st)"
| "flush_once A api (reply # replies) st =
     (if api = None then ([], st)
      else
        (case flush_peek A st of
           (None, st) \<Rightarrow> ([], st)
         | (Some item, st) \<Rightarrow>
             (case reply of
                None \<Rightarrow> ([(item, None)], st)
              | Some (status, rsp) \<Rightarrow>
                  if \<not> delivered status rsp \<and> \<not> rejected status then ([(item, reply)], st)
                  else
                    (case flush_once A api replies (flush_commit A st) of
                       (sent, st) \<Rightarrow> ((item, reply) # sent, st)))))"

section \<open>Sequence numbers\<close>

text \<open>The counter of the state file, and the one the next operation sees.\<close>

definition file_counter :: "Value option \<Rightarrow> string \<times> nat" where
  "file_counter sf = (case sf of None \<Rightarrow> ([], 0) | Some v \<Rightarrow> (str_field ''seq_epoch'' v, u64_field ''next_seq'' v))"

definition counter :: "AuditState \<Rightarrow> string \<times> nat" where
  "counter st =
     (if q_loaded (au_queue st) then (q_epoch (au_queue st), q_next_seq (au_queue st))
      else file_counter (au_state_file st))"

definition disk_inv :: "AuditState \<Rightarrow> bool" where
  "disk_inv st \<longleftrightarrow>
     (if q_loaded (au_queue st) then file_counter (au_state_file st) = counter st
      else q_epoch (au_queue st) = [] \<and> q_next_seq (au_queue st) = 0)"

lemma load_line_fields [simp]:
  "q_loaded (load_line A l q) = q_loaded q" "q_epoch (load_line A l q) = q_epoch q"
  "q_next_seq (load_line A l q) = q_next_seq q"
  by (auto simp: load_line_def Let_def split: option.splits)

lemma fold_load_line [simp]:
  "q_loaded (fold (load_line A) ls q) = q_loaded q" "q_epoch (fold (load_line A) ls q) = q_epoch q"
  "q_next_seq (fold (load_line A) ls q) = q_next_seq q"
  by (induction ls arbitrary: q) auto

lemma save_state_queue [simp]: "au_queue (save_state A st) = au_queue st" "au_queue_file (save_state A st) = au_queue_file st"
  by (simp_all add: save_state_def)

lemma save_queue_fields [simp]: "au_queue (save_queue A st) = au_queue st" "au_state_file (save_queue A st) = au_state_file st"
  by (simp_all add: save_queue_def)

lemma file_counter_saved:
  "q_next_seq (au_queue st) \<le> u64_max \<Longrightarrow> ae_state_ok A \<Longrightarrow>
   file_counter (au_state_file (save_state A st)) = (q_epoch (au_queue st), q_next_seq (au_queue st))"
  by (simp add: save_state_def file_counter_def str_field_def u64_field_def value_index_def)

lemma enqueue_fields [simp]:
  "q_loaded (enqueue i q) = q_loaded q" "q_epoch (enqueue i q) = q_epoch q" "q_next_seq (enqueue i q) = q_next_seq q"
  by (simp_all add: enqueue_def split_beta)

lemma file_counter_le: "snd (file_counter sf) \<le> u64_max"
proof -
  have "as_u64 v = Some n \<Longrightarrow> n \<le> u64_max" for v n by (cases v) (auto split: if_splits)
  then show ?thesis by (auto simp: file_counter_def u64_field_def split: option.splits)
qed

lemma load_counter:
  assumes "disk_inv st" "ae_state_ok A" "ae_uuid A \<noteq> []"
  shows "q_loaded (au_queue (load A st))" "disk_inv (load A st)"
    "counter (load A st) = (if fst (counter st) = [] \<and> \<not> q_loaded (au_queue st) then (ae_uuid A, 0) else counter st)"
proof -
  show l: "q_loaded (au_queue (load A st))"
    by (auto simp: load_def load_state_def Let_def split: option.splits)
  have "disk_inv (load A st) \<and> counter (load A st)
      = (if fst (counter st) = [] \<and> \<not> q_loaded (au_queue st) then (ae_uuid A, 0) else counter st)"
  proof (cases "q_loaded (au_queue st)")
    case True
    then have "load A st = st" by (simp add: load_def)
    with assms True show ?thesis by simp
  next
    case False
    with assms(1) have q: "q_epoch (au_queue st) = []" "q_next_seq (au_queue st) = 0" by (simp_all add: disk_inv_def)
    let ?st1 = "st\<lparr>au_queue := load_state (au_state_file st) ((au_queue st)\<lparr>q_loaded := True\<rparr>)\<rparr>"
    have c1: "(q_epoch (au_queue ?st1), q_next_seq (au_queue ?st1)) = file_counter (au_state_file st)"
      using q by (auto simp: load_state_def file_counter_def split: option.splits)
    show ?thesis
    proof (cases "q_epoch (au_queue ?st1) = []")
      case True
      let ?st2 = "save_state A (?st1\<lparr>au_queue := (au_queue ?st1)\<lparr>q_epoch := ae_uuid A, q_next_seq := 0\<rparr>\<rparr>)"
      have sf: "au_state_file (load A st) = au_state_file ?st2" and
        f: "q_epoch (au_queue (load A st)) = ae_uuid A" "q_next_seq (au_queue (load A st)) = 0"
        using True False by (auto simp: load_def Let_def split: option.splits)
      have "file_counter (au_state_file ?st2) = (ae_uuid A, 0)" by (subst file_counter_saved) (simp_all add: assms)
      moreover have e: "fst (file_counter (au_state_file st)) = []" using c1 True by (metis fst_conv)
      ultimately show ?thesis using sf f l False by (auto simp: disk_inv_def counter_def)
    next
      case nonempty: False
      then have "au_state_file (load A st) = au_state_file st"
        "q_epoch (au_queue (load A st)) = q_epoch (au_queue ?st1)" "q_next_seq (au_queue (load A st)) = q_next_seq (au_queue ?st1)"
        using False by (auto simp: load_def Let_def split: option.splits)
      moreover have "fst (file_counter (au_state_file st)) \<noteq> []" using c1 nonempty by (metis fst_conv)
      ultimately show ?thesis using c1 l False by (auto simp: disk_inv_def counter_def)
    qed
  qed
  then show "disk_inv (load A st)" "counter (load A st)
      = (if fst (counter st) = [] \<and> \<not> q_loaded (au_queue st) then (ae_uuid A, 0) else counter st)" by blast+
qed

lemma loaded_counter [simp]: "q_loaded (au_queue st) \<Longrightarrow> counter st = (q_epoch (au_queue st), q_next_seq (au_queue st))"
  by (simp add: counter_def)

lemma counter_saved:
  assumes "q_loaded (au_queue st)" "q_next_seq (au_queue st) \<le> u64_max" "ae_state_ok A"
  shows "disk_inv (save_state A st)" "counter (save_state A st) = (q_epoch (au_queue st), q_next_seq (au_queue st))"
  using assms file_counter_saved [OF assms(2,3)] by (simp_all add: disk_inv_def)

text \<open>The operations of the module and the restart of the process, which loses the memory.\<close>

datatype AuditOp =
    Stamp AuditEnv int Value
  | Push AuditEnv "string \<Rightarrow> string option" bool string Value
  | Dropped AuditEnv
  | DroppedReported AuditEnv nat
  | Clear AuditEnv string
  | FlushPeek AuditEnv
  | FlushCommit AuditEnv
  | Restart

definition empty_queue :: Queue where
  "empty_queue = \<lparr>q_loaded = False, q_epoch = [], q_next_seq = 0, q_dropped = 0, q_items = []\<rparr>"

definition audit_init :: AuditState where
  "audit_init = \<lparr>au_queue = empty_queue, au_state_file = None, au_queue_file = None\<rparr>"

fun audit_step :: "AuditOp \<Rightarrow> AuditState \<Rightarrow> AuditState" where
  "audit_step (Stamp A now v) st = snd (stamp A now v st)"
| "audit_step (Push A url_path enrolled url v) st = push A url_path enrolled url v st"
| "audit_step (Dropped A) st = snd (dropped A st)"
| "audit_step (DroppedReported A n) st = dropped_reported A n st"
| "audit_step (Clear A uuid) st = clear A uuid st"
| "audit_step (FlushPeek A) st = snd (flush_peek A st)"
| "audit_step (FlushCommit A) st = flush_commit A st"
| "audit_step Restart st = st\<lparr>au_queue := empty_queue\<rparr>"

text \<open>The number a stamp gives to its event.\<close>

fun stamped :: "AuditOp \<Rightarrow> AuditState \<Rightarrow> (string \<times> nat) list" where
  "stamped (Stamp A now v) st = [(q_epoch (au_queue (load A st)), q_next_seq (au_queue (load A st)))]"
| "stamped _ st = []"

fun stamps :: "AuditOp list \<Rightarrow> AuditState \<Rightarrow> (string \<times> nat) list" where
  "stamps [] st = []"
| "stamps (op # ops) st = stamped op st @ stamps ops (audit_step op st)"

fun op_uuids :: "AuditOp \<Rightarrow> string list" where
  "op_uuids (Stamp A _ _) = [ae_uuid A]"
| "op_uuids (Push A _ _ _ _) = [ae_uuid A]"
| "op_uuids (Dropped A) = [ae_uuid A]"
| "op_uuids (Clear A uuid) = [ae_uuid A, uuid]"
| "op_uuids (FlushPeek A) = [ae_uuid A]"
| "op_uuids _ = []"

fun op_writes :: "AuditOp \<Rightarrow> bool" where
  "op_writes (Stamp A _ _) = ae_state_ok A"
| "op_writes (Push A _ _ _ _) = ae_state_ok A"
| "op_writes (Dropped A) = ae_state_ok A"
| "op_writes (DroppedReported A _) = ae_state_ok A"
| "op_writes (Clear A _) = ae_state_ok A"
| "op_writes (FlushPeek A) = ae_state_ok A"
| "op_writes (FlushCommit A) = True"
| "op_writes Restart = True"

text \<open>How one operation moves the counter: on within the epoch, to zero in an epoch of its own, or
  back to no epoch.\<close>

definition rebased :: "string list \<Rightarrow> string \<times> nat \<Rightarrow> string \<times> nat \<Rightarrow> bool" where
  "rebased us c b \<longleftrightarrow> b = c \<or> (fst b \<in> set us \<and> snd b = 0) \<or> b = ([], 0)"

definition moves :: "string list \<Rightarrow> (string \<times> nat) list \<Rightarrow> string \<times> nat \<Rightarrow> string \<times> nat \<Rightarrow> bool" where
  "moves us ns c c' \<longleftrightarrow>
     ns = [] \<and> rebased us c c'
     \<or> (\<exists>b. ns = [b] \<and> rebased us c b \<and> fst b \<noteq> [] \<and> c' = (fst b, Suc (snd b)))"

lemma moves_Nil [simp]: "moves us [] c c' \<longleftrightarrow> rebased us c c'"
  by (simp add: moves_def)

lemma rebased_intros [simp]: "rebased us c c" "e \<in> set us \<Longrightarrow> rebased us c (e, 0)" "rebased us c ([], 0)"
  by (simp_all add: rebased_def)

lemma moves_stamp:
  "rebased us c (e, k) \<Longrightarrow> e \<noteq> [] \<Longrightarrow> moves us [(e, k)] c (e, Suc k)"
  by (simp add: moves_def)

lemma moves_load:
  assumes "disk_inv st" "ae_state_ok A" "ae_uuid A \<noteq> []"
  shows "moves [ae_uuid A] [] (counter st) (counter (load A st))"
  using load_counter [OF assms] by simp

text \<open>A loaded counter has an epoch: part of the invariant of a run.\<close>

definition run_inv :: "nat \<Rightarrow> AuditState \<Rightarrow> bool" where
  "run_inv n st \<longleftrightarrow> disk_inv st \<and> snd (counter st) \<le> n
     \<and> (q_loaded (au_queue st) \<longrightarrow> fst (counter st) \<noteq> [])"

lemma load_run_inv:
  assumes "run_inv n st" "ae_state_ok A" "ae_uuid A \<noteq> []"
  shows "run_inv n (load A st) \<and> q_loaded (au_queue (load A st)) \<and> moves [ae_uuid A] [] (counter st) (counter (load A st))
    \<and> q_epoch (au_queue (load A st)) \<noteq> [] \<and> q_next_seq (au_queue (load A st)) \<le> n"
proof -
  note l = load_counter [OF _ assms(2,3), of st]
  have "run_inv n (load A st)" "q_loaded (au_queue (load A st))" using assms l by (auto simp: run_inv_def split: if_splits)
  moreover have "moves [ae_uuid A] [] (counter st) (counter (load A st))"
    using assms by (intro moves_load) (simp_all add: run_inv_def)
  ultimately show ?thesis by (simp add: run_inv_def)
qed

lemma stamp_moves:
  assumes "run_inv n st" "n < u64_max" "ae_state_ok A" "ae_uuid A \<noteq> []"
  shows "run_inv (Suc n) (audit_step (Stamp A now v) st)
    \<and> moves (op_uuids (Stamp A now v)) (stamped (Stamp A now v) st) (counter st) (counter (audit_step (Stamp A now v) st))"
proof -
  note l = load_run_inv [OF assms(1,3,4)]
  let ?q = "au_queue (load A st)"
  let ?st = "(load A st)\<lparr>au_queue := ?q\<lparr>q_next_seq := Suc (q_next_seq ?q)\<rparr>\<rparr>"
  have step: "audit_step (Stamp A now v) st = save_state A ?st"
    using l assms(2) by (simp add: stamp_def Let_def)
  have c: "disk_inv (save_state A ?st)" "counter (save_state A ?st) = (q_epoch ?q, Suc (q_next_seq ?q))"
    using counter_saved [of ?st A] l assms(2,3) by simp_all
  have "run_inv (Suc n) (save_state A ?st)" using c l by (simp add: run_inv_def)
  moreover have "moves [ae_uuid A] [counter (load A st)] (counter st) (q_epoch ?q, Suc (q_next_seq ?q))"
    using l by (auto simp: moves_stamp)
  ultimately show ?thesis using l unfolding step c by simp
qed

lemma audit_step_moves:
  assumes inv: "run_inv n st" and n: "n < u64_max" and w: "op_writes op" and u: "\<forall>x\<in>set (op_uuids op). x \<noteq> []"
  shows "run_inv (Suc n) (audit_step op st)
    \<and> moves (op_uuids op) (stamped op st) (counter st) (counter (audit_step op st))"
proof (cases op)
  case (Stamp A now v)
  with stamp_moves [OF inv n] w u show ?thesis by simp
next
  case (Push A url_path enrolled url v)
  note l = load_run_inv [OF inv, of A]
  show ?thesis
  proof (cases "enrolled \<and> kind_of url_path url \<noteq> None")
    case True
    then obtain kind where k: "kind_of url_path url = Some kind" by blast
    let ?st = "save_queue A ((load A st)\<lparr>au_queue := enqueue (kind, v) (au_queue (load A st))\<rparr>)"
    have s: "audit_step op st = save_state A ?st" using True k by (simp add: Push push_def Let_def)
    have "disk_inv (save_state A ?st)" "counter (save_state A ?st) = counter (load A st)"
      using counter_saved [of ?st A] l w u n by (simp_all add: Push)
    with l w u s show ?thesis by (auto simp: Push run_inv_def)
  next
    case False
    then have "audit_step op st = st" by (auto simp: Push push_def split: option.splits)
    with inv show ?thesis by (auto simp: Push run_inv_def)
  qed
next
  case (Dropped A)
  with load_run_inv [OF inv, of A] w u show ?thesis by (auto simp: dropped_def Let_def run_inv_def)
next
  case (DroppedReported A k)
  let ?st = "st\<lparr>au_queue := (au_queue st)\<lparr>q_dropped := sat_sub (q_dropped (au_queue st)) k\<rparr>\<rparr>"
  show ?thesis
  proof (cases "q_loaded (au_queue st)")
    case True
    with counter_saved [of ?st A] inv w n show ?thesis
      by (auto simp: DroppedReported dropped_reported_def run_inv_def)
  next
    case False
    then have "file_counter (au_state_file (save_state A ?st)) = ([], 0)"
      using file_counter_saved [of ?st A] inv w by (simp add: run_inv_def disk_inv_def DroppedReported)
    with False inv w show ?thesis
      by (auto simp: DroppedReported dropped_reported_def run_inv_def disk_inv_def counter_def)
  qed
next
  case (Clear A uuid)
  note l = load_run_inv [OF inv, of A]
  let ?st = "save_queue A ((load A st)\<lparr>au_queue := (au_queue (load A st))\<lparr>q_items := [], q_dropped := 0, q_epoch := uuid, q_next_seq := 0\<rparr>\<rparr>)"
  have s: "audit_step op st = save_state A ?st" by (simp add: Clear clear_def Let_def)
  have "disk_inv (save_state A ?st)" "counter (save_state A ?st) = (uuid, 0)"
    using counter_saved [of ?st A] l w u by (simp_all add: Clear)
  with l w u s show ?thesis by (auto simp: Clear run_inv_def)
next
  case (FlushPeek A)
  with load_run_inv [OF inv, of A] w u show ?thesis by (auto simp: flush_peek_def Let_def run_inv_def)
next
  case (FlushCommit A)
  with inv show ?thesis by (auto simp: flush_commit_def run_inv_def disk_inv_def counter_def)
next
  case Restart
  have "counter (st\<lparr>au_queue := empty_queue\<rparr>) = counter st"
    using inv by (auto simp: run_inv_def disk_inv_def counter_def empty_queue_def)
  moreover have "\<not> q_loaded empty_queue" "q_epoch empty_queue = []" "q_next_seq empty_queue = 0"
    by (simp_all add: empty_queue_def)
  ultimately show ?thesis using inv by (simp add: Restart run_inv_def disk_inv_def)
qed


text \<open>The numbers given so far, with the epochs used so far.\<close>

definition used_ok :: "string set \<Rightarrow> (string \<times> nat) set \<Rightarrow> string \<times> nat \<Rightarrow> bool" where
  "used_ok U used c \<longleftrightarrow> [] \<notin> U \<and> fst c \<in> insert [] U
     \<and> (\<forall>x\<in>used. fst x \<in> U \<and> (fst x = fst c \<longrightarrow> snd x < snd c))"

lemma used_ok_moves:
  assumes "used_ok U used c" "moves us ns c c'" "set us \<inter> U = {}" "[] \<notin> set us"
  shows "used_ok (U \<union> set us) (used \<union> set ns) c'" "distinct ns" "set ns \<inter> used = {}"
proof -
  from assms(2) consider "ns = []" "c' = c" | "ns = []" "fst c' \<in> set us" "snd c' = 0" | "ns = []" "c' = ([], 0)"
    | "ns = [c]" "fst c \<noteq> []" "c' = (fst c, Suc (snd c))"
    | b where "ns = [b]" "fst b \<in> set us" "snd b = 0" "c' = (fst b, Suc 0)"
    by (auto simp: moves_def rebased_def)
  then have "used_ok (U \<union> set us) (used \<union> set ns) c' \<and> distinct ns \<and> set ns \<inter> used = {}"
    using assms(1,3,4) by cases (fastforce simp: used_ok_def less_Suc_eq)+
  then show "used_ok (U \<union> set us) (used \<union> set ns) c'" "distinct ns" "set ns \<inter> used = {}" by blast+
qed

lemma stamps_run:
  assumes "run_inv n st" "length ops + n \<le> u64_max" "\<forall>op\<in>set ops. op_writes op"
    "distinct (concat (map op_uuids ops))" "[] \<notin> set (concat (map op_uuids ops))"
    "set (concat (map op_uuids ops)) \<inter> U = {}" "used_ok U used (counter st)"
  shows "distinct (stamps ops st) \<and> set (stamps ops st) \<inter> used = {}"
  using assms
proof (induction ops arbitrary: st n U used)
  case (Cons op ops)
  have s: "run_inv (Suc n) (audit_step op st)"
    "moves (op_uuids op) (stamped op st) (counter st) (counter (audit_step op st))"
    using audit_step_moves [OF Cons.prems(1), of op] Cons.prems(2,3,5) by auto
  have d: "set (op_uuids op) \<inter> U = {}" "[] \<notin> set (op_uuids op)" using Cons.prems(5,6) by auto
  note m = used_ok_moves [OF Cons.prems(7) s(2) d]
  have "distinct (stamps ops (audit_step op st)) \<and> set (stamps ops (audit_step op st)) \<inter> (used \<union> set (stamped op st)) = {}"
    using Cons.prems by (intro Cons.IH [OF s(1) _ _ _ _ _ m(1)]) auto
  with m show ?case by auto
qed simp

section \<open>The events that carry the numbers\<close>

fun stamped_event :: "AuditOp \<Rightarrow> AuditState \<Rightarrow> Value list" where
  "stamped_event (Stamp A now v) st = (case fst (stamp A now v st) of None \<Rightarrow> [] | Some e \<Rightarrow> [e])"
| "stamped_event _ st = []"

text \<open>The events returned by the stamps of a run, in order.\<close>

fun stamped_events :: "AuditOp list \<Rightarrow> AuditState \<Rightarrow> Value list" where
  "stamped_events [] st = []"
| "stamped_events (op # ops) st = stamped_event op st @ stamped_events ops (audit_step op st)"

text \<open>What the server reads in an event.\<close>

definition event_stamp :: "Value \<Rightarrow> Value option \<times> Value option" where
  "event_stamp v = (value_get ''seq_epoch'' v, value_get ''seq'' v)"

definition written_stamp :: "string \<times> nat \<Rightarrow> Value option \<times> Value option" where
  "written_stamp c = (Some (VString (fst c)), Some (VNumber (int (snd c))))"

lemma written_stamp_inj: "written_stamp c = written_stamp c' \<longleftrightarrow> c = c'"
  by (auto simp: written_stamp_def prod_eq_iff)

lemma event_set_get:
  assumes "value_set k x v = Some v'"
  shows "value_get k v' = Some x" "k' \<noteq> k \<Longrightarrow> value_get k' v' = value_get k' v"
  using assms by (cases v; auto)+

lemma stamp_event:
  assumes "fst (stamp A now v st) = Some e"
  shows "event_stamp e = written_stamp (q_epoch (au_queue (load A st)), q_next_seq (au_queue (load A st)))"
proof -
  let ?q = "au_queue (load A st)"
  from assms obtain v1 v2 where v: "value_set ''seq'' (VNumber (int (q_next_seq ?q))) v = Some v1"
      "value_set ''seq_epoch'' (VString (q_epoch ?q)) v1 = Some v2" "value_set ''ts'' (VNumber now) v2 = Some e"
    by (auto simp: stamp_def Let_def bind_eq_Some_conv)
  show ?thesis
    using event_set_get [OF v(1)] event_set_get [OF v(2)] event_set_get [OF v(3)]
    by (simp add: event_stamp_def written_stamp_def)
qed

lemma stamped_event_stamp: "map event_stamp (stamped_event op st) \<in> {[], map written_stamp (stamped op st)}"
  by (cases op) (auto simp: stamp_event split: option.split)

lemma stamped_events_stamps:
  "set (map event_stamp (stamped_events ops st)) \<subseteq> written_stamp ` set (stamps ops st)
   \<and> (distinct (stamps ops st) \<longrightarrow> distinct (map event_stamp (stamped_events ops st)))"
proof (induction ops arbitrary: st)
  case (Cons op ops)
  let ?st = "audit_step op st"
  note I = Cons [of ?st]
  have "distinct (stamped op st) \<Longrightarrow> distinct (map written_stamp (stamped op st))"
    by (simp add: distinct_map inj_on_def written_stamp_inj)
  then have h: "set (map event_stamp (stamped_event op st)) \<subseteq> written_stamp ` set (stamped op st)"
    "distinct (stamped op st) \<Longrightarrow> distinct (map event_stamp (stamped_event op st))"
    using stamped_event_stamp [of op st] by (elim insertE emptyE; simp del: map_eq_conv)+
  have "distinct (map event_stamp (stamped_events (op # ops) st))" if d: "distinct (stamps (op # ops) st)"
  proof -
    have "written_stamp ` set (stamped op st) \<inter> written_stamp ` set (stamps ops ?st) = {}"
      using d by (auto simp: written_stamp_inj)
    then have "set (map event_stamp (stamped_event op st)) \<inter> set (map event_stamp (stamped_events ops ?st)) = {}"
      using h(1) I by blast
    then show ?thesis using d h(2) I by (auto simp: distinct_append)
  qed
  moreover have "set (map event_stamp (stamped_events (op # ops) st)) \<subseteq> written_stamp ` set (stamps (op # ops) st)"
    using h(1) I by auto
  ultimately show ?case by blast
qed simp

section \<open>The queue keeps the most recent events\<close>

lemma make_room_eq:
  "make_room xs n = (drop (Suc (length xs) - MAX_QUEUED) xs, ((\<lambda>m. add_u64 m 1) ^^ (Suc (length xs) - MAX_QUEUED)) n)"
proof (induction xs n rule: make_room.induct)
  case (2 x xs n)
  show ?case
  proof (cases "length (x # xs) \<ge> MAX_QUEUED")
    case True
    then have "Suc (length (x # xs)) - MAX_QUEUED = Suc (Suc (length xs) - MAX_QUEUED)" by simp
    with True 2 funpow_swap1 [of "\<lambda>m. add_u64 m 1" "Suc (length xs) - MAX_QUEUED" n] show ?thesis by simp
  next
    case False
    then show ?thesis by simp
  qed
qed (simp add: MAX_QUEUED_def)

definition enqueue_items :: "string \<times> Value \<Rightarrow> (string \<times> Value) list \<Rightarrow> (string \<times> Value) list" where
  "enqueue_items item xs = q_items (enqueue item (empty_queue\<lparr>q_items := xs\<rparr>))"

lemma enqueue_items: "q_items (enqueue item q) = enqueue_items item (q_items q)"
  by (simp add: enqueue_items_def enqueue_def make_room_eq)

interpretation recent: bounded_window enqueue_items MAX_QUEUED
proof unfold_locales
  fix xs :: "(string \<times> Value) list" and x assume "length xs \<le> MAX_QUEUED"
  moreover have "0 < MAX_QUEUED" by (simp add: MAX_QUEUED_def)
  ultimately show "enqueue_items x xs = drop (Suc (length xs) - MAX_QUEUED) (xs @ [x])"
    by (simp add: enqueue_items_def enqueue_def make_room_eq Suc_diff_le)
qed

lemma add_u64_funpow: "m + k \<le> u64_max \<Longrightarrow> ((\<lambda>m. add_u64 m 1) ^^ k) m = m + k"
  by (induction k) auto

lemma enqueue_dropped:
  assumes "q_dropped q + Suc (length (q_items q)) \<le> u64_max"
  shows "q_dropped (enqueue i q) = q_dropped q + (Suc (length (q_items q)) - MAX_QUEUED)"
proof -
  have "((\<lambda>m. add_u64 m 1) ^^ (Suc (length (q_items q)) - MAX_QUEUED)) (q_dropped q)
      = q_dropped q + (Suc (length (q_items q)) - MAX_QUEUED)"
    using assms by (intro add_u64_funpow) simp
  then show ?thesis by (simp add: enqueue_def make_room_eq)
qed

section \<open>Delivery\<close>

lemma load_loaded [simp]: "q_loaded (au_queue st) \<Longrightarrow> load A st = st"
  by (simp add: load_def)

text \<open>What was sent and settled is a prefix of the queue; the rest stays, in order.\<close>

lemma flush_once_prefix:
  assumes "q_loaded (au_queue st)" "flush_once A api replies st = (sent, st')"
  shows "\<exists>dn rest. q_items (au_queue st) = dn @ rest \<and> q_items (au_queue st') = rest
    \<and> q_loaded (au_queue st') \<and> q_dropped (au_queue st') = q_dropped (au_queue st)
    \<and> (take (length dn) (map fst sent) = dn
       \<and> (\<forall>i<length dn. \<exists>status rsp. snd (sent ! i) = Some (status, rsp) \<and> (delivered status rsp \<or> rejected status)))"
  using assms
proof (induction replies arbitrary: st sent)
  case Nil
  then show ?case by (auto intro: exI [of _ "[]"] exI [of _ "q_items (au_queue st)"])
next
  case (Cons reply replies)
  show ?case
  proof (cases "api = None \<or> q_items (au_queue st) = []")
    case True
    then have "sent = []" "st' = st" using Cons.prems by (auto simp: flush_peek_def split: if_splits)
    with Cons.prems show ?thesis by (auto intro: exI [of _ "[]"])
  next
    case False
    then obtain api0 item items where i: "api = Some api0" "q_items (au_queue st) = item # items"
      by (cases "q_items (au_queue st)") auto
    show ?thesis
    proof (cases "\<exists>status rsp. reply = Some (status, rsp) \<and> (delivered status rsp \<or> rejected status)")
      case no: False
      then have "st' = st" using Cons.prems i by (auto simp: flush_peek_def split: option.splits if_splits prod.splits)
      with Cons.prems(1) show ?thesis by (auto intro: exI [of _ "[]"])
    next
      case True
      then obtain status rsp where r: "reply = Some (status, rsp)" "delivered status rsp \<or> rejected status" by blast
      let ?st = "flush_commit A st"
      obtain sent1 where s: "flush_once A api replies ?st = (sent1, st')" "sent = (item, reply) # sent1"
        using Cons.prems i r by (auto simp: flush_peek_def split: prod.splits)
      have c: "q_items (au_queue ?st) = items" "q_loaded (au_queue ?st)" "q_dropped (au_queue ?st) = q_dropped (au_queue st)"
        using Cons.prems(1) i by (simp_all add: flush_commit_def)
      have "\<exists>dn rest. q_items (au_queue ?st) = dn @ rest \<and> q_items (au_queue st') = rest
          \<and> q_loaded (au_queue st') \<and> q_dropped (au_queue st') = q_dropped (au_queue ?st)
          \<and> (take (length dn) (map fst sent1) = dn
             \<and> (\<forall>i<length dn. \<exists>status rsp. snd (sent1 ! i) = Some (status, rsp) \<and> (delivered status rsp \<or> rejected status)))"
        by (rule Cons.IH [OF c(2) s(1)])
      then obtain dn rest where d: "items = dn @ rest" "q_items (au_queue st') = rest" "q_loaded (au_queue st')"
        "q_dropped (au_queue st') = q_dropped (au_queue st)" "take (length dn) (map fst sent1) = dn"
        "\<forall>i<length dn. \<exists>status rsp. snd (sent1 ! i) = Some (status, rsp) \<and> (delivered status rsp \<or> rejected status)"
        using c by auto
      show ?thesis
        using d i r s(2) by (intro exI [of _ "item # dn"] exI [of _ rest]) (auto simp: less_Suc_eq_0_disj)
    qed
  qed
qed


section \<open>Properties\<close>

text \<open>C21: sequence numbers are never reused. Along any run of the operations and of restarts of the process, in which
  every write of the state file succeeds and the UUIDs drawn are all different and not empty, every event that a stamp
  returns carries an epoch and a number, and no two of them carry the same.\<close>

theorem stamps_unique:
  assumes "\<forall>op\<in>set ops. op_writes op" "distinct (concat (map op_uuids ops))"
    "[] \<notin> set (concat (map op_uuids ops))" "length ops \<le> u64_max"
  shows "distinct (map event_stamp (stamped_events ops audit_init))
    \<and> (\<forall>v\<in>set (stamped_events ops audit_init). \<exists>epoch n. value_get ''seq_epoch'' v = Some (VString epoch) \<and> value_get ''seq'' v = Some (VNumber (int n)))"
proof -
  have "run_inv 0 audit_init"
    by (simp add: run_inv_def disk_inv_def counter_def file_counter_def audit_init_def empty_queue_def)
  moreover have "used_ok {} {} (counter audit_init)"
    by (simp add: used_ok_def counter_def file_counter_def audit_init_def empty_queue_def)
  ultimately have "distinct (stamps ops audit_init)" using stamps_run [of 0 audit_init ops "{}" "{}"] assms by simp
  with stamped_events_stamps [of ops audit_init] show ?thesis
    by (fastforce simp: event_stamp_def written_stamp_def)
qed

definition toy_audit :: "string \<Rightarrow> AuditEnv" where
  "toy_audit uuid = \<lparr>ae_uuid = uuid, ae_seal = (\<lambda>v. case value_get ''kind'' v of Some (VString k) \<Rightarrow> Some k | _ \<Rightarrow> None),
     ae_unseal = (\<lambda>l. Some (VObject [(''kind'', VString l)])), ae_state_ok = True, ae_queue_ok = True\<rparr>"

definition toy_audit_ops :: "AuditOp list" where
  "toy_audit_ops = [Stamp (toy_audit ''u1'') 5 VNull, Stamp (toy_audit ''u2'') 6 VNull, Restart,
     Stamp (toy_audit ''u3'') 7 VNull, Clear (toy_audit ''u4'') ''u5'', Stamp (toy_audit ''u6'') 8 VNull,
     Restart, DroppedReported (toy_audit []) 0, Stamp (toy_audit ''u7'') 9 VNull]"

theorem stamps_unique_witness:
  "distinct (map event_stamp (stamped_events toy_audit_ops audit_init))
   \<and> map event_stamp (stamped_events toy_audit_ops audit_init)
     = map written_stamp [(''u1'', 0), (''u1'', 1), (''u1'', 2), (''u5'', 0), (''u7'', 0)]"
proof
  have "length toy_audit_ops \<le> u64_max" by (simp add: toy_audit_ops_def u64_max_def)
  moreover have "\<forall>op\<in>set toy_audit_ops. op_writes op" "distinct (concat (map op_uuids toy_audit_ops))"
      "[] \<notin> set (concat (map op_uuids toy_audit_ops))" by code_simp+
  ultimately show "distinct (map event_stamp (stamped_events toy_audit_ops audit_init))"
    using stamps_unique [of toy_audit_ops] by blast
  show "map event_stamp (stamped_events toy_audit_ops audit_init)
     = map written_stamp [(''u1'', 0), (''u1'', 1), (''u1'', 2), (''u5'', 0), (''u7'', 0)]"
    by (simp add: toy_audit_ops_def toy_audit_def audit_init_def empty_queue_def stamp_def load_def load_state_def
        save_state_def clear_def save_queue_def dropped_reported_def str_field_def u64_field_def value_index_def
        Let_def sat_sub_def u64_max_def event_stamp_def written_stamp_def)
qed

text \<open>The queue holds the most recent 10,000 undelivered events in order, and each event it had to
  give up is counted, whatever was in the queue.\<close>

theorem push_keeps_recent:
  assumes "q_loaded (au_queue st)" "length (q_items (au_queue st)) \<le> 10000"
    "q_dropped (au_queue st) + 10001 \<le> u64_max" "kind_of url_path url = Some kind"
  shows "q_items (au_queue (push A url_path True url v st))
      = drop (length (q_items (au_queue st)) + 1 - 10000) (q_items (au_queue st) @ [(kind, v)])
    \<and> q_dropped (au_queue (push A url_path True url v st)) + length (q_items (au_queue (push A url_path True url v st)))
      = q_dropped (au_queue st) + length (q_items (au_queue st)) + 1"
proof -
  have q: "au_queue (push A url_path True url v st) = enqueue (kind, v) (au_queue st)"
    using assms(1,4) by (simp add: push_def Let_def)
  have l: "length (q_items (au_queue st)) \<le> MAX_QUEUED" using assms(2) by (simp add: MAX_QUEUED_def)
  have "q_dropped (enqueue (kind, v) (au_queue st)) = q_dropped (au_queue st) + (Suc (length (q_items (au_queue st))) - MAX_QUEUED)"
    using assms(2,3) by (intro enqueue_dropped) simp
  with recent.push_eq [OF l, of "(kind, v)"] l show ?thesis
    unfolding q enqueue_items by (auto simp: MAX_QUEUED_def)
qed

theorem push_keeps_recent_witness:
  "q_items (au_queue (push (toy_audit ''u1'') Some True ''/api/audit/conn'' VNull
      (audit_init\<lparr>au_queue := empty_queue\<lparr>q_loaded := True, q_items := replicate 10000 (''file'', VNull)\<rparr>\<rparr>)))
   = replicate 9999 (''file'', VNull) @ [(''conn'', VNull)]"
proof -
  let ?st = "audit_init\<lparr>au_queue := empty_queue\<lparr>q_loaded := True, q_items := replicate 10000 (''file'', VNull)\<rparr>\<rparr>"
  have "kind_of Some ''/api/audit/conn'' = Some ''conn''" by code_simp
  from push_keeps_recent [OF _ _ _ this, of ?st "toy_audit ''u1''" VNull]
  show ?thesis by (simp add: empty_queue_def u64_max_def)
qed

text \<open>Delivering without interference removes from the queue exactly the events, from the front,
  that the server took or rejected for good; the others stay in order and none is counted as
  dropped.\<close>

theorem flush_removes_settled:
  assumes "q_loaded (au_queue st)" "flush_once A api replies st = (sent, st')"
  shows "\<exists>n. q_items (au_queue st') = drop n (q_items (au_queue st)) \<and> n \<le> length (q_items (au_queue st))
    \<and> take n (map fst sent) = take n (q_items (au_queue st)) \<and> q_dropped (au_queue st') = q_dropped (au_queue st)
    \<and> (\<forall>i<n. \<exists>status rsp. snd (sent ! i) = Some (status, rsp) \<and> (delivered status rsp \<or> rejected status))"
proof -
  from flush_once_prefix [OF assms] obtain dn rest where "q_items (au_queue st) = dn @ rest"
    "q_items (au_queue st') = rest" "q_dropped (au_queue st') = q_dropped (au_queue st)"
    "take (length dn) (map fst sent) = dn"
    "\<forall>i<length dn. \<exists>status rsp. snd (sent ! i) = Some (status, rsp) \<and> (delivered status rsp \<or> rejected status)"
    by blast
  then show ?thesis by (intro exI [of _ "length dn"]) simp
qed

theorem flush_removes_settled_witness:
  "\<exists>n sent st'. flush_once (toy_audit ''u1'') (Some ''https://a'') [Some (200, ''''), Some (500, ''''), Some (200, '''')]
       (audit_init\<lparr>au_queue := empty_queue\<lparr>q_loaded := True, q_items := [(''conn'', VNull), (''file'', VNull)]\<rparr>\<rparr>) = (sent, st')
     \<and> q_items (au_queue st') = drop n [(''conn'', VNull), (''file'', VNull)] \<and> n = 1"
proof -
  let ?st = "audit_init\<lparr>au_queue := empty_queue\<lparr>q_loaded := True, q_items := [(''conn'', VNull), (''file'', VNull)]\<rparr>\<rparr>"
  obtain sent st' where f: "flush_once (toy_audit ''u1'') (Some ''https://a'') [Some (200, ''''), Some (500, ''''), Some (200, '''')] ?st = (sent, st')"
    by fastforce
  have "q_items (au_queue st') = [(''file'', VNull)]"
    using arg_cong [OF f, of "\<lambda>r. q_items (au_queue (snd r))"]
    by (simp add: flush_peek_def flush_commit_def save_queue_def delivered_def rejected_def string_defs toy_audit_def
        empty_queue_def audit_init_def List.map_filter_def)
  with flush_removes_settled [OF _ f] f show ?thesis by (auto simp: empty_queue_def)
qed

text \<open>With interference it does not: the event at the front is read, the lock released, and the
  front removed later. When the queue was cleared and a new event queued in between, that event is
  removed although it was never sent, and nothing counts it.\<close>

theorem flush_race_loses_event:
  assumes "q_loaded (au_queue st)" "q_items (au_queue st) = sent # rest" "kind_of url_path url = Some kind"
  shows "fst (flush_peek A st) = Some sent
    \<and> q_items (au_queue (push A url_path True url v (clear A uuid (snd (flush_peek A st))))) = [(kind, v)]
    \<and> q_items (au_queue (flush_commit A (push A url_path True url v (clear A uuid (snd (flush_peek A st)))))) = []
    \<and> q_dropped (au_queue (flush_commit A (push A url_path True url v (clear A uuid (snd (flush_peek A st)))))) = 0"
proof -
  have p: "flush_peek A st = (Some sent, st)" using assms(1,2) by (simp add: flush_peek_def)
  have "au_queue (clear A uuid st) = (au_queue st)\<lparr>q_items := [], q_dropped := 0, q_epoch := uuid, q_next_seq := 0\<rparr>"
    using assms(1) by (simp add: clear_def Let_def)
  moreover from this have "load A (clear A uuid st) = clear A uuid st" using assms(1) by (intro load_loaded) simp
  ultimately have "au_queue (push A url_path True url v (clear A uuid st))
      = (au_queue st)\<lparr>q_items := [(kind, v)], q_dropped := 0, q_epoch := uuid, q_next_seq := 0\<rparr>"
    using assms(3) by (simp add: push_def Let_def enqueue_def)
  then show ?thesis using p by (simp add: flush_commit_def)
qed

theorem flush_race_loses_event_witness:
  "q_items (au_queue (flush_commit (toy_audit ''u1'') (push (toy_audit ''u1'') Some True ''/api/audit/conn'' VNull
     (clear (toy_audit ''u1'') ''u2'' (audit_init\<lparr>au_queue := empty_queue\<lparr>q_loaded := True, q_items := [(''file'', VNull)]\<rparr>\<rparr>))))) = []"
proof -
  let ?st = "audit_init\<lparr>au_queue := empty_queue\<lparr>q_loaded := True, q_items := [(''file'', VNull)]\<rparr>\<rparr>"
  have k: "kind_of Some ''/api/audit/conn'' = Some ''conn''" by code_simp
  have "snd (flush_peek (toy_audit ''u1'') ?st) = ?st" by (simp add: flush_peek_def)
  with flush_race_loses_event [OF _ _ k, of ?st "(''file'', VNull)" "[]" "toy_audit ''u1''" VNull "''u2''"]
  show ?thesis by simp
qed

end
