(* ===== verification/Port_Mux.thy ===== *)
theory Port_Mux
  imports Rust_Prelude
begin

text \<open>
  Port forwarding over one connection, \<^verbatim>\<open>src/src/port_forward_mux.rs\<close> (windows, credit, the
  relay halves, the controller's tunnel) and \<^verbatim>\<open>src/src/server/port_forward_mux.rs\<close> (the
  controlled side). Frames carry the length of their data; sockets, the task scheduler and the codec
  are outside. \<open>u32\<close> amounts are \<^typ>\<open>nat\<close> with the checked and saturating operations
  of the source.

  The entries of the controlled side have no \<open>opened\<close> flag; it is true in their model. The relation
  \<open>link_step\<close> composes the operations of a sender and of a receiver of one direction
  of a channel with the frames in flight between them, in any interleaving.
\<close>

section \<open>Model: windows and credit\<close>

definition INITIAL_WINDOW :: nat where "INITIAL_WINDOW = 64 * 1024"
definition MIN_FRAME_CHARGE :: nat where "MIN_FRAME_CHARGE = 64"
definition CHANNEL_WINDOW :: nat where "CHANNEL_WINDOW = 256 * 1024"
definition MAX_FRAME :: nat where "MAX_FRAME = 64 * 1024"
definition UPDATE_THRESHOLD :: nat where "UPDATE_THRESHOLD = CHANNEL_WINDOW div 2"
definition MAX_CHANNELS :: nat where "MAX_CHANNELS = 256"
definition MAX_SEND_CREDIT :: nat where "MAX_SEND_CREDIT = CHANNEL_WINDOW"

lemmas window_consts = INITIAL_WINDOW_def MIN_FRAME_CHARGE_def CHANNEL_WINDOW_def MAX_FRAME_def
  UPDATE_THRESHOLD_def MAX_CHANNELS_def MAX_SEND_CREDIT_def

definition effective_window :: "nat \<Rightarrow> nat" where
  "effective_window advertised = max advertised INITIAL_WINDOW"

definition charge :: "nat \<Rightarrow> nat" where
  "charge len = max (if len \<le> u32_max then len else u32_max) MIN_FRAME_CHARGE"

record RecvWindow =
  rw_remaining :: nat
  rw_drained :: nat

definition RecvWindow_new :: "nat \<Rightarrow> RecvWindow" where
  "RecvWindow_new granted = \<lparr>rw_remaining = effective_window granted, rw_drained = 0\<rparr>"

definition accept :: "nat \<Rightarrow> RecvWindow \<Rightarrow> bool \<times> RecvWindow" where
  "accept len w =
     (case checked_sub (rw_remaining w) (charge len) of
        Some left \<Rightarrow> (True, w\<lparr>rw_remaining := left\<rparr>)
      | None \<Rightarrow> (False, w))"

definition grant :: "nat \<Rightarrow> RecvWindow \<Rightarrow> RecvWindow" where
  "grant n w = w\<lparr>rw_remaining := sat_add u32_max (rw_remaining w) n\<rparr>"

definition drained :: "nat \<Rightarrow> RecvWindow \<Rightarrow> nat option \<times> RecvWindow" where
  "drained n w =
     (let d = sat_add u32_max (rw_drained w) (charge n) in
      if d < UPDATE_THRESHOLD then (None, w\<lparr>rw_drained := d\<rparr>)
      else (Some d, w\<lparr>rw_drained := 0, rw_remaining := sat_add u32_max (rw_remaining w) d\<rparr>))"

text \<open>The credit is the number under the mutex; \<open>take\<close> parks (\<open>None\<close>) below a minimum charge.\<close>

definition SendCredit_new :: "nat \<Rightarrow> nat" where
  "SendCredit_new initial = min initial MAX_SEND_CREDIT"

definition take_credit :: "nat \<Rightarrow> nat \<Rightarrow> (nat \<times> nat) option" where
  "take_credit mx credit =
     (if credit \<ge> MIN_FRAME_CHARGE then (let n = min credit mx in Some (n, credit - n)) else None)"

definition add_credit :: "nat \<Rightarrow> nat \<Rightarrow> nat" where
  "add_credit n credit = min (sat_add u32_max credit n) MAX_SEND_CREDIT"

definition raise_initial :: "nat \<Rightarrow> nat \<Rightarrow> nat" where
  "raise_initial total_window credit =
     (let extra = effective_window total_window - INITIAL_WINDOW in
      if extra > 0 then add_credit extra credit else credit)"

section \<open>Model: frames and relays\<close>

datatype Frame =
    Open int string int nat
  | Opened int bool string nat
  | Data int nat
  | Close int
  | WindowUpdate int nat

datatype Inbound = InData nat | InClose | InViolation

datatype RelayEnd = LocalEof | PeerClosed | RelayViolation | Cancelled | TunnelGone

text \<open>After a read of \<open>got\<close> bytes into a buffer of \<open>allow\<close>: the credit with the unspent part
  refunded, and the frame to send or the end of the relay.\<close>

definition relay_read :: "int \<Rightarrow> nat \<Rightarrow> nat \<Rightarrow> nat \<Rightarrow> (Frame, RelayEnd) result \<times> nat" where
  "relay_read chan allow got credit =
     (let spent = (if got = 0 then 0 else charge got);
          credit = (if spent < allow then add_credit (allow - spent) credit else credit)
      in (if got = 0 then Err LocalEof else Ok (Data chan got), credit))"

text \<open>What the other half does with the next entry of its queue; \<open>written\<close> is whether the local
  socket took the chunk.\<close>

definition relay_write ::
    "int \<Rightarrow> Inbound option \<Rightarrow> bool \<Rightarrow> RecvWindow \<Rightarrow> (Frame option, RelayEnd) result \<times> RecvWindow" where
  "relay_write chan entry written w =
     (case entry of
        None \<Rightarrow> (Err TunnelGone, w)
      | Some InClose \<Rightarrow> (Err PeerClosed, w)
      | Some InViolation \<Rightarrow> (Err RelayViolation, w)
      | Some (InData len) \<Rightarrow>
          if \<not> written then (Err LocalEof, w)
          else (case drained len w of (update, w) \<Rightarrow> (Ok (map_option (WindowUpdate chan) update), w)))"

text \<open>When both halves have ended: the \<open>close\<close> to send.\<close>

definition run_channel_close :: "int \<Rightarrow> RelayEnd \<Rightarrow> RelayEnd \<Rightarrow> Frame option" where
  "run_channel_close chan first second =
     (let peer_closed = (first = PeerClosed \<or> second = PeerClosed);
          tunnel_gone = (first = TunnelGone \<or> second = TunnelGone);
          local_reason = (first \<in> {LocalEof, RelayViolation} \<or> second \<in> {LocalEof, RelayViolation})
      in if \<not> peer_closed \<and> \<not> tunnel_gone \<and> local_reason then Some (Close chan) else None)"

section \<open>Model: the controller's tunnel\<close>

text \<open>The queue of a channel is \<open>None\<close> once its task has dropped the receiving end.\<close>

record ChannelEntry =
  ce_inbound :: "Inbound list option"
  ce_credit :: nat
  ce_window :: RecvWindow
  ce_opened :: bool

record Tunnel =
  tu_channels :: "(int \<times> ChannelEntry) list"
  tu_next_id :: int
  tu_reported :: "(string \<times> nat) list"
  tu_teardown :: bool

text \<open>\<open>fetch_add\<close> on an \<open>i32\<close> wraps.\<close>

partial_function (option) free_id :: "(int \<times> ChannelEntry) list \<Rightarrow> int \<Rightarrow> (int \<times> int) option" where
  "free_id channels next =
     (if map_of channels next = None then Some (next, wrap_i32 (next + 1))
      else free_id channels (wrap_i32 (next + 1)))"

declare free_id.simps [code]

datatype OpenError = TunnelIsGone | TooManyChannels

definition tunnel_open :: "bool \<Rightarrow> Tunnel \<Rightarrow> ((int, OpenError) result \<times> Tunnel) option" where
  "tunnel_open sink_closed t =
     (if sink_closed then Some (Err TunnelIsGone, t)
      else if length (tu_channels t) \<ge> MAX_CHANNELS then Some (Err TooManyChannels, t)
      else
        map_option (\<lambda>(chan, next).
          (Ok chan, t\<lparr>tu_next_id := next,
             tu_channels := assoc_insert chan
               \<lparr>ce_inbound = Some [], ce_credit = SendCredit_new INITIAL_WINDOW,
                ce_window = RecvWindow_new CHANNEL_WINDOW, ce_opened = False\<rparr> (tu_channels t)\<rparr>))
          (free_id (tu_channels t) (tu_next_id t)))"

definition MAX_REPORTED_OPEN_ERRORS :: nat where "MAX_REPORTED_OPEN_ERRORS = 8"
definition REPORT_AGAIN_AFTER :: nat where "REPORT_AGAIN_AFTER = 10"

definition first_report_at :: "string \<Rightarrow> nat \<Rightarrow> Tunnel \<Rightarrow> string option \<times> Tunnel" where
  "first_report_at message now t =
     (if message = [] then (None, t)
      else
        (let reported = filter (\<lambda>(_, last). now - last < REPORT_AGAIN_AFTER) (tu_reported t) in
         if map_of reported message \<noteq> None then
           (None, t\<lparr>tu_reported := assoc_insert message now reported\<rparr>)
         else if length reported \<ge> MAX_REPORTED_OPEN_ERRORS then (None, t\<lparr>tu_reported := reported\<rparr>)
         else (Some message, t\<lparr>tu_reported := assoc_insert message now reported\<rparr>)))"

text \<open>Sending to a channel's queue fails when its task is gone.\<close>

definition push_inbound :: "Inbound \<Rightarrow> ChannelEntry \<Rightarrow> bool \<times> ChannelEntry" where
  "push_inbound m e =
     (case ce_inbound e of
        None \<Rightarrow> (False, e)
      | Some q \<Rightarrow> (True, e\<lparr>ce_inbound := Some (q @ [m])\<rparr>))"

text \<open>A \<open>data\<close> frame on a table of channels, the same in the three multiplexers: accepted and
  delivered, or the entry is dropped and, on an overrun, its task told. The second result is the
  dropped entry.\<close>

definition on_data ::
    "int \<Rightarrow> nat \<Rightarrow> (int \<times> ChannelEntry) list \<Rightarrow> (int \<times> ChannelEntry) list \<times> ChannelEntry option" where
  "on_data chan len channels =
     (case map_of channels chan of
        None \<Rightarrow> (channels, None)
      | Some e \<Rightarrow>
          (let (accepted, w) = accept len (ce_window e);
               e = e\<lparr>ce_window := w\<rparr>;
               (delivered, e') = (if accepted then push_inbound (InData len) e else (False, e))
           in if delivered then (assoc_insert chan e' channels, None)
              else (assoc_remove chan channels,
                    Some (if \<not> accepted then snd (push_inbound InViolation e) else e))))"

definition on_close ::
    "int \<Rightarrow> (int \<times> ChannelEntry) list \<Rightarrow> (int \<times> ChannelEntry) list \<times> ChannelEntry option" where
  "on_close chan channels =
     (case map_of channels chan of
        None \<Rightarrow> (channels, None)
      | Some e \<Rightarrow> (assoc_remove chan channels, Some (snd (push_inbound InClose e))))"

definition on_update :: "int \<Rightarrow> nat \<Rightarrow> (int \<times> ChannelEntry) list \<Rightarrow> (int \<times> ChannelEntry) list" where
  "on_update chan n channels = assoc_update chan (\<lambda>e. e\<lparr>ce_credit := add_credit n (ce_credit e)\<rparr>) channels"

definition on_opened_ok :: "int \<Rightarrow> nat \<Rightarrow> (int \<times> ChannelEntry) list \<Rightarrow> (int \<times> ChannelEntry) list" where
  "on_opened_ok chan window channels =
     assoc_update chan (\<lambda>e. if ce_opened e then e
       else e\<lparr>ce_opened := True, ce_credit := raise_initial window (ce_credit e)\<rparr>) channels"

definition on_frame :: "nat \<Rightarrow> Frame \<Rightarrow> Tunnel \<Rightarrow> string option \<times> Tunnel" where
  "on_frame now frame t =
     (case frame of
        Opened chan success message window \<Rightarrow>
          if success then (None, t\<lparr>tu_channels := on_opened_ok chan window (tu_channels t)\<rparr>)
          else
            (case on_close chan (tu_channels t) of
               (channels, None) \<Rightarrow> (None, t)
             | (channels, Some _) \<Rightarrow> first_report_at message now (t\<lparr>tu_channels := channels\<rparr>))
      | Data chan len \<Rightarrow> (None, t\<lparr>tu_channels := fst (on_data chan len (tu_channels t))\<rparr>)
      | Close chan \<Rightarrow> (None, t\<lparr>tu_channels := fst (on_close chan (tu_channels t))\<rparr>)
      | WindowUpdate chan n \<Rightarrow> (None, t\<lparr>tu_channels := on_update chan n (tu_channels t)\<rparr>)
      | Open _ _ _ _ \<Rightarrow> (None, t))"

definition close_all :: "Tunnel \<Rightarrow> Tunnel" where
  "close_all t = t\<lparr>tu_channels := [], tu_teardown := True\<rparr>"

section \<open>Model: the controlled side\<close>

record Mux =
  mx_channels :: "(int \<times> ChannelEntry) list"
  mx_login_target :: string
  mx_teardown :: bool

definition pending_fits :: "nat \<Rightarrow> nat \<Rightarrow> bool" where
  "pending_fits charged add_len = (charged + charge add_len \<le> INITIAL_WINDOW)"

text \<open>\<open>norm_target\<close> is \<open>normalize_port_forward_target\<close>; the reply, if any, and whether the
  channel's task starts.\<close>

definition mux_on_open ::
    "(string \<Rightarrow> int \<Rightarrow> string) \<Rightarrow> int \<Rightarrow> string \<Rightarrow> int \<Rightarrow> nat \<Rightarrow> bool \<Rightarrow> Mux \<Rightarrow> Frame option \<times> bool \<times> Mux" where
  "mux_on_open norm_target chan host port window permitted m =
     (let m = m\<lparr>mx_channels := filter (\<lambda>(_, e). ce_inbound e \<noteq> None) (mx_channels m)\<rparr> in
      if \<not> permitted then (Some (Opened chan False ''No permission of IP tunneling'' 0), False, m)
      else if length (mx_channels m) \<ge> MAX_CHANNELS then
        (Some (Opened chan False ''Too many port forward channels'' 0), False, m)
      else if map_of (mx_channels m) chan \<noteq> None then (None, False, m)
      else if norm_target host port \<noteq> mx_login_target m then
        (Some (Opened chan False ''Port forward target not authorized'' 0), False, m)
      else
        (None, True, m\<lparr>mx_channels := assoc_insert chan
           \<lparr>ce_inbound = Some [], ce_credit = SendCredit_new (effective_window window),
            ce_window = RecvWindow_new INITIAL_WINDOW, ce_opened = True\<rparr> (mx_channels m)\<rparr>))"

definition mux_handle ::
    "(string \<Rightarrow> int \<Rightarrow> string) \<Rightarrow> Frame \<Rightarrow> bool \<Rightarrow> Mux \<Rightarrow> Frame option \<times> Mux" where
  "mux_handle norm_target frame permitted m =
     (case frame of
        Open chan host port window \<Rightarrow>
          (case mux_on_open norm_target chan host port window permitted m of (reply, _, m) \<Rightarrow> (reply, m))
      | Data chan len \<Rightarrow> (None, m\<lparr>mx_channels := fst (on_data chan len (mx_channels m))\<rparr>)
      | Close chan \<Rightarrow> (None, m\<lparr>mx_channels := fst (on_close chan (mx_channels m))\<rparr>)
      | WindowUpdate chan n \<Rightarrow> (None, m\<lparr>mx_channels := on_update chan n (mx_channels m)\<rparr>)
      | Opened _ _ _ _ \<Rightarrow> (None, m))"

definition mux_close_all :: "Mux \<Rightarrow> Mux" where
  "mux_close_all m = m\<lparr>mx_channels := [], mx_teardown := True\<rparr>"

text \<open>While the channel's task connects: the commands queued so far are taken one by one.
  \<open>Ok\<close> is the data to write first, \<open>Err\<close> the frame sent before the task ends, if any.\<close>

fun connecting :: "int \<Rightarrow> nat list \<Rightarrow> nat \<Rightarrow> Inbound list \<Rightarrow> (nat list, Frame option) result" where
  "connecting chan pending charged [] = Ok pending"
| "connecting chan pending charged (InData len # cmds) =
     (if \<not> pending_fits charged len then Err (Some (Close chan))
      else connecting chan (pending @ [len]) (charged + charge len) cmds)"
| "connecting chan pending charged (InClose # cmds) = Err None"
| "connecting chan pending charged (InViolation # cmds) = Err (Some (Close chan))"

text \<open>Connected: the window is granted before \<open>opened\<close> leaves.\<close>

definition connected_grant :: "int \<Rightarrow> RecvWindow \<Rightarrow> Frame \<times> RecvWindow" where
  "connected_grant chan w =
     (Opened chan True [] CHANNEL_WINDOW, grant (CHANNEL_WINDOW - INITIAL_WINDOW) w)"

section \<open>One direction of a channel\<close>

datatype Back = Update nat | Granted nat

record Link =
  lk_credit :: nat
  lk_held :: "nat option"
  lk_flight :: "nat list"
  lk_window :: RecvWindow
  lk_pending :: "nat list"
  lk_connected :: bool
  lk_back :: "Back list"
  lk_violated :: bool

text \<open>The direction whose receiver has to connect first, and the one whose receiver is the
  opener of the channel.\<close>

definition link_to_acceptor :: Link where
  "link_to_acceptor = \<lparr>lk_credit = SendCredit_new INITIAL_WINDOW, lk_held = None, lk_flight = [],
     lk_window = RecvWindow_new INITIAL_WINDOW, lk_pending = [], lk_connected = False, lk_back = [],
     lk_violated = False\<rparr>"

definition link_to_opener :: Link where
  "link_to_opener = \<lparr>lk_credit = SendCredit_new (effective_window CHANNEL_WINDOW), lk_held = None,
     lk_flight = [], lk_window = RecvWindow_new CHANNEL_WINDOW, lk_pending = [], lk_connected = True,
     lk_back = [], lk_violated = False\<rparr>"

inductive link_step :: "Link \<Rightarrow> Link \<Rightarrow> bool" where
  Take: "lk_held l = None \<Longrightarrow> take_credit MAX_FRAME (lk_credit l) = Some (n, c) \<Longrightarrow>
    link_step l (l\<lparr>lk_held := Some n, lk_credit := c\<rparr>)"
| Read: "lk_held l = Some allow \<Longrightarrow> got \<le> allow \<Longrightarrow> relay_read chan allow got (lk_credit l) = (Ok (Data chan n), c) \<Longrightarrow>
    link_step l (l\<lparr>lk_held := None, lk_credit := c, lk_flight := lk_flight l @ [n]\<rparr>)"
| Eof: "lk_held l = Some allow \<Longrightarrow> relay_read chan allow 0 (lk_credit l) = (Err e, c) \<Longrightarrow>
    link_step l (l\<lparr>lk_held := None, lk_credit := c\<rparr>)"
| Arrive: "lk_flight l = n # ns \<Longrightarrow> accept n (lk_window l) = (True, w) \<Longrightarrow>
    link_step l (l\<lparr>lk_flight := ns, lk_window := w, lk_pending := lk_pending l @ [n]\<rparr>)"
| Overrun: "lk_flight l = n # ns \<Longrightarrow> accept n (lk_window l) = (False, w) \<Longrightarrow>
    link_step l (l\<lparr>lk_flight := ns, lk_window := w, lk_violated := True\<rparr>)"
| Connect: "\<not> lk_connected l \<Longrightarrow> connected_grant chan (lk_window l) = (Opened chan True m tot, w) \<Longrightarrow>
    link_step l (l\<lparr>lk_connected := True, lk_window := w, lk_back := lk_back l @ [Granted tot]\<rparr>)"
| Drain: "lk_connected l \<Longrightarrow> lk_pending l = n # ns \<Longrightarrow>
    relay_write chan (Some (InData n)) True (lk_window l) = (Ok update, w) \<Longrightarrow>
    link_step l (l\<lparr>lk_pending := ns, lk_window := w,
      lk_back := lk_back l @ (case update of Some (WindowUpdate _ a) \<Rightarrow> [Update a] | _ \<Rightarrow> [])\<rparr>)"
| UpdateArrives: "lk_back l = xs @ Update a # ys \<Longrightarrow>
    link_step l (l\<lparr>lk_back := xs @ ys, lk_credit := add_credit a (lk_credit l)\<rparr>)"
| OpenedArrives: "lk_back l = xs @ Granted tot # ys \<Longrightarrow>
    link_step l (l\<lparr>lk_back := xs @ ys, lk_credit := raise_initial tot (lk_credit l)\<rparr>)"

inductive link_reachable :: "Link \<Rightarrow> bool" where
  start_acceptor: "link_reachable link_to_acceptor"
| start_opener: "link_reachable link_to_opener"
| later: "link_reachable l \<Longrightarrow> link_step l l' \<Longrightarrow> link_reachable l'"

fun amount :: "Back \<Rightarrow> nat" where
  "amount (Update a) = a"
| "amount (Granted tot) = effective_window tot - INITIAL_WINDOW"

definition charges :: "nat list \<Rightarrow> nat" where
  "charges ns = sum_list (map charge ns)"

definition link_inv :: "Link \<Rightarrow> bool" where
  "link_inv l \<longleftrightarrow>
     lk_credit l + (case lk_held l of None \<Rightarrow> 0 | Some n \<Rightarrow> n) + charges (lk_flight l)
       + sum_list (map amount (lk_back l)) = rw_remaining (lk_window l)
     \<and> rw_remaining (lk_window l) + charges (lk_pending l) + rw_drained (lk_window l)
       = (if lk_connected l then CHANNEL_WINDOW else INITIAL_WINDOW)
     \<and> rw_drained (lk_window l) < UPDATE_THRESHOLD
     \<and> (\<not> lk_connected l \<longrightarrow> rw_drained (lk_window l) = 0 \<and> lk_back l = [])
     \<and> (case lk_held l of None \<Rightarrow> True | Some n \<Rightarrow> MIN_FRAME_CHARGE \<le> n \<and> n \<le> MAX_FRAME)
     \<and> (\<forall>n\<in>set (lk_flight l @ lk_pending l). n \<le> MAX_FRAME)
     \<and> \<not> lk_violated l"

lemma charges_simps [simp]:
  "charges [] = 0" "charges (n # ns) = charge n + charges ns" "charges (ms @ ns) = charges ms + charges ns"
  by (simp_all add: charges_def)

lemma charge_small: "n \<le> MAX_FRAME \<Longrightarrow> charge n = max n 64"
  by (simp add: charge_def window_consts u32_max_def)

lemma add_credit_exact: "c + n \<le> MAX_SEND_CREDIT \<Longrightarrow> add_credit n c = c + n"
  by (simp add: add_credit_def sat_add_def window_consts u32_max_def)

lemma link_inv_start: "link_inv link_to_acceptor" "link_inv link_to_opener"
  by (simp_all add: link_inv_def link_to_acceptor_def link_to_opener_def SendCredit_new_def RecvWindow_new_def
      effective_window_def window_consts)


text \<open>The invariant is kept by every step.\<close>

lemma inv_take:
  assumes "link_inv l" "lk_held l = None" "take_credit MAX_FRAME (lk_credit l) = Some (n, c)"
  shows "link_inv (l\<lparr>lk_held := Some n, lk_credit := c\<rparr>)"
proof -
  from assms(3) have "MIN_FRAME_CHARGE \<le> lk_credit l" "n = min (lk_credit l) MAX_FRAME" "c = lk_credit l - n"
    by (auto simp: take_credit_def Let_def split: if_splits)
  then have "c + n = lk_credit l" "MIN_FRAME_CHARGE \<le> n \<and> n \<le> MAX_FRAME" by (auto simp: window_consts)
  with assms(1,2) show ?thesis by (simp add: link_inv_def)
qed

lemma credit_bound:
  assumes "link_inv l"
  shows "lk_credit l + (case lk_held l of None \<Rightarrow> 0 | Some n \<Rightarrow> n) + charges (lk_flight l)
    + sum_list (map amount (lk_back l)) \<le> MAX_SEND_CREDIT" "rw_remaining (lk_window l) \<le> CHANNEL_WINDOW"
  using assms by (auto simp: link_inv_def window_consts split: if_splits)

lemma inv_read:
  assumes inv: "link_inv l" and held: "lk_held l = Some allow" and got: "got \<le> allow" "got > 0"
  shows "snd (relay_read chan allow got (lk_credit l)) + charge got = lk_credit l + allow" "got \<le> MAX_FRAME"
proof -
  have h: "MIN_FRAME_CHARGE \<le> allow" "allow \<le> MAX_FRAME" using inv held by (simp_all add: link_inv_def)
  then show g: "got \<le> MAX_FRAME" using got by simp
  have c: "charge got \<le> allow" using h got charge_small [OF g] by (simp add: window_consts)
  have "lk_credit l + allow \<le> MAX_SEND_CREDIT" using credit_bound(1) [OF inv] held by simp
  then have "lk_credit l + (allow - charge got) \<le> MAX_SEND_CREDIT" by linarith
  from add_credit_exact [OF this] c show "snd (relay_read chan allow got (lk_credit l)) + charge got = lk_credit l + allow"
    using got(2) by (auto simp: relay_read_def Let_def)
qed

lemma inv_drain:
  assumes inv: "link_inv l" and p: "lk_pending l = n # ns" and d: "drained n (lk_window l) = (u, w)"
  shows "rw_drained w < UPDATE_THRESHOLD" "(case u of None \<Rightarrow> 0 | Some a \<Rightarrow> a) + rw_remaining (lk_window l) = rw_remaining w"
    "rw_remaining w + charges ns + rw_drained w
       = rw_remaining (lk_window l) + charges (lk_pending l) + rw_drained (lk_window l)"
proof -
  have bound: "rw_remaining (lk_window l) + charge n + charges ns + rw_drained (lk_window l) \<le> CHANNEL_WINDOW"
    using inv p by (auto simp: link_inv_def window_consts split: if_splits)
  have s: "sat_add u32_max (rw_drained (lk_window l)) (charge n) = rw_drained (lk_window l) + charge n"
    "sat_add u32_max (rw_remaining (lk_window l)) (rw_drained (lk_window l) + charge n)
      = rw_remaining (lk_window l) + (rw_drained (lk_window l) + charge n)"
    using bound by (simp_all add: sat_add_def window_consts u32_max_def)
  show "rw_drained w < UPDATE_THRESHOLD" "(case u of None \<Rightarrow> 0 | Some a \<Rightarrow> a) + rw_remaining (lk_window l) = rw_remaining w"
    "rw_remaining w + charges ns + rw_drained w
       = rw_remaining (lk_window l) + charges (lk_pending l) + rw_drained (lk_window l)"
    using d p s by (auto simp: drained_def Let_def UPDATE_THRESHOLD_def CHANNEL_WINDOW_def split: if_splits)
qed

lemma inv_accept:
  assumes inv: "link_inv l" and f: "lk_flight l = n # ns"
  shows "accept n (lk_window l) = (True, (lk_window l)\<lparr>rw_remaining := rw_remaining (lk_window l) - charge n\<rparr>)"
    "charge n \<le> rw_remaining (lk_window l)"
proof -
  show "charge n \<le> rw_remaining (lk_window l)" using inv f by (simp add: link_inv_def)
  then show "accept n (lk_window l) = (True, (lk_window l)\<lparr>rw_remaining := rw_remaining (lk_window l) - charge n\<rparr>)"
    by (simp add: accept_def checked_sub_def)
qed

lemma inv_grant:
  assumes "link_inv l" "\<not> lk_connected l"
  shows "rw_remaining (grant (CHANNEL_WINDOW - INITIAL_WINDOW) (lk_window l))
      = rw_remaining (lk_window l) + (CHANNEL_WINDOW - INITIAL_WINDOW)"
  using assms by (simp add: link_inv_def grant_def sat_add_def window_consts u32_max_def)

lemma raise_initial_exact:
  "c + (effective_window tot - INITIAL_WINDOW) \<le> MAX_SEND_CREDIT \<Longrightarrow>
   raise_initial tot c = c + (effective_window tot - INITIAL_WINDOW)"
  by (simp add: raise_initial_def Let_def add_credit_exact)

lemma link_inv_step:
  assumes "link_step l l'" "link_inv l"
  shows "link_inv l'"
  using assms
proof cases
  case (Take n c)
  with inv_take [OF assms(2)] show ?thesis by simp
next
  case (Read allow got chan n c)
  then have g: "got > 0" "n = got" by (auto simp: relay_read_def Let_def split: if_splits)
  from inv_read(1) [OF assms(2) Read(2,3) g(1), of chan] inv_read(2) [OF assms(2) Read(2,3) g(1)] Read g
  have "c + charge n = lk_credit l + allow" "n \<le> MAX_FRAME" by simp_all
  with assms(2) Read show ?thesis by (auto simp: link_inv_def)
next
  case (Eof allow chan e c)
  have "MIN_FRAME_CHARGE \<le> allow" "lk_credit l + allow \<le> MAX_SEND_CREDIT"
    using assms(2) credit_bound(1) [OF assms(2)] Eof(2) by (simp_all add: link_inv_def)
  then have "c = lk_credit l + allow" using Eof by (auto simp: relay_read_def Let_def add_credit_exact window_consts)
  with assms(2) Eof show ?thesis by (simp add: link_inv_def)
next
  case (Arrive n ns w)
  with inv_accept [OF assms(2) Arrive(2)] assms(2) show ?thesis by (auto simp: link_inv_def)
next
  case (Overrun n ns w)
  with inv_accept(1) [OF assms(2) Overrun(2)] show ?thesis by simp
next
  case (Connect chan m tot w)
  then have w: "w = grant (CHANNEL_WINDOW - INITIAL_WINDOW) (lk_window l)" "tot = CHANNEL_WINDOW"
    by (simp_all add: connected_grant_def)
  have "rw_drained w = rw_drained (lk_window l)" by (simp add: w grant_def)
  with inv_grant [OF assms(2) Connect(2)] assms(2) Connect w show ?thesis
    by (auto simp: link_inv_def effective_window_def window_consts)
next
  case (Drain n ns chan update w)
  obtain u where d: "drained n (lk_window l) = (u, w)" "update = map_option (WindowUpdate chan) u"
    using Drain(4) by (auto simp: relay_write_def split: prod.splits)
  note i = inv_drain [OF assms(2) Drain(3) d(1)]
  have "lk_back l' = lk_back l @ (case u of None \<Rightarrow> [] | Some a \<Rightarrow> [Update a])"
    using Drain(1) d(2) by (auto split: option.splits)
  then have "sum_list (map amount (lk_back l')) = sum_list (map amount (lk_back l)) + (case u of None \<Rightarrow> 0 | Some a \<Rightarrow> a)"
    by (auto split: option.splits)
  with i assms(2) Drain(1,2,3) show ?thesis by (simp add: link_inv_def)
next
  case (UpdateArrives xs a ys)
  have "lk_credit l + a \<le> MAX_SEND_CREDIT" using credit_bound(1) [OF assms(2)] UpdateArrives by simp
  with assms(2) UpdateArrives show ?thesis by (auto simp: link_inv_def add_credit_exact)
next
  case (OpenedArrives xs tot ys)
  have "lk_credit l + (effective_window tot - INITIAL_WINDOW) \<le> MAX_SEND_CREDIT"
    using credit_bound(1) [OF assms(2)] OpenedArrives by simp
  with assms(2) OpenedArrives show ?thesis by (auto simp: link_inv_def raise_initial_exact)
qed

lemma link_reachable_inv: "link_reachable l \<Longrightarrow> link_inv l"
  by (induction rule: link_reachable.induct) (auto simp: link_inv_start intro: link_inv_step)

section \<open>Channel tables\<close>

definition table_ok :: "(int \<times> ChannelEntry) list \<Rightarrow> bool" where
  "table_ok channels \<longleftrightarrow> keys_ok channels \<and> length channels \<le> MAX_CHANNELS"

lemma table_shrink: "table_ok channels \<Longrightarrow> table_ok (assoc_remove k channels)"
  using length_assoc_remove [of k channels] by (auto simp: table_ok_def)

lemma table_filter: "table_ok channels \<Longrightarrow> table_ok (filter P channels)"
  using le_trans [OF length_filter_le [of P channels]] by (simp add: table_ok_def keys_ok_filter)

lemma table_insert_new: "table_ok channels \<Longrightarrow> length channels < MAX_CHANNELS \<Longrightarrow> table_ok (assoc_insert k e channels)"
  using length_assoc_insert [of k e channels] by (auto simp: table_ok_def)

lemma table_replace: "table_ok channels \<Longrightarrow> map_of channels k = Some e0 \<Longrightarrow> table_ok (assoc_insert k e channels)"
  by (auto simp: table_ok_def length_assoc_replace)

lemma on_data_table: "table_ok channels \<Longrightarrow> table_ok (fst (on_data chan len channels))"
  by (auto simp: on_data_def Let_def split_beta table_shrink table_replace split: option.splits)

lemma on_close_table: "table_ok channels \<Longrightarrow> table_ok (fst (on_close chan channels))"
  by (auto simp: on_close_def table_shrink split: option.splits)

lemma on_update_table: "table_ok channels \<Longrightarrow> table_ok (on_update chan n channels)"
  by (simp add: on_update_def table_ok_def)

lemma on_opened_table: "table_ok channels \<Longrightarrow> table_ok (on_opened_ok chan n channels)"
  by (simp add: on_opened_ok_def table_ok_def)

lemma mux_on_open_table: "table_ok (mx_channels m) \<Longrightarrow> table_ok (mx_channels (snd (snd (mux_on_open nt chan host port w perm m))))"
  by (auto simp: mux_on_open_def Let_def table_filter table_insert_new)

text \<open>The tables of the controlled side keep the limit along any sequence of frames.\<close>

interpretation mux_frames: guarded_machine
  "\<lambda>(frame, perm) m. snd (mux_handle nt frame perm m)" "\<lambda>m. table_ok (mx_channels m)" "\<lambda>_. True" for nt
proof unfold_locales
  fix m :: Mux and op :: "Frame \<times> bool"
  assume t: "table_ok (mx_channels m)"
  obtain frame perm where op: "op = (frame, perm)" by (cases op)
  from t show "table_ok (mx_channels ((\<lambda>(frame, perm) m. snd (mux_handle nt frame perm m)) op m))"
    by (cases frame)
      (auto simp: op mux_handle_def on_data_table on_close_table on_update_table split_beta dest: mux_on_open_table)
qed

section \<open>Fresh identifiers\<close>

lemma wrap_i32_add: "wrap_i32 (wrap_i32 a + b) = wrap_i32 (a + b)"
proof -
  have "wrap_i32 a + b + 2147483648 = (a + 2147483648) mod 4294967296 + b" by (simp add: wrap_i32_def)
  then have "wrap_i32 (wrap_i32 a + b) = ((a + 2147483648) mod 4294967296 + b) mod 4294967296 - 2147483648"
    by (simp only: wrap_i32_def)
  also have "((a + 2147483648) mod 4294967296 + b) mod 4294967296 = (a + b + 2147483648) mod 4294967296"
    by (simp only: mod_add_left_eq add.assoc add.commute [of b])
  finally show ?thesis by (simp only: wrap_i32_def)
qed

lemma wrap_i32_drop: "wrap_i32 (1 + wrap_i32 a) = wrap_i32 (1 + a)"
  using wrap_i32_add [of a 1] by (simp only: add.commute)
lemma wrap_i32_inj:
  assumes "wrap_i32 (n + int i) = wrap_i32 (n + int j)" "i < 4294967296" "j < 4294967296"
  shows "i = j"
proof -
  have "(n + int i + 2147483648) mod 4294967296 = (n + int j + 2147483648) mod 4294967296"
    using assms(1) by (simp add: wrap_i32_def)
  then have "4294967296 dvd ((n + int i + 2147483648) - (n + int j + 2147483648))"
    by (simp only: mod_eq_dvd_iff)
  then have "4294967296 dvd (int i - int j)" by simp
  then obtain k where "int i - int j = 4294967296 * k" by (auto simp: dvd_def)
  moreover from this have "k = 0" using assms(2,3) by linarith
  ultimately show ?thesis by simp
qed

lemma next_id_iter:
  "wrap_i32 n = n \<Longrightarrow> ((\<lambda>n. wrap_i32 (n + 1)) ^^ i) n = wrap_i32 (n + int i)"
  by (induction i) (simp_all add: wrap_i32_drop add.commute add.left_commute)

lemma free_id_at:
  "map_of channels (((\<lambda>n. wrap_i32 (n + 1)) ^^ k) n) = None \<Longrightarrow>
   \<exists>r nxt. free_id channels n = Some (r, nxt) \<and> map_of channels r = None \<and> nxt = wrap_i32 (r + 1)"
proof (induction k arbitrary: n)
  case (Suc k)
  then have "map_of channels (((\<lambda>n. wrap_i32 (n + 1)) ^^ k) (wrap_i32 (n + 1))) = None"
    by (simp only: funpow_Suc_right o_apply)
  from Suc.IH [OF this] show ?case by (subst free_id.simps) auto
qed (subst free_id.simps, auto)

lemma free_id_returns:
  assumes "wrap_i32 n = n" "length channels < MAX_CHANNELS"
  shows "\<exists>r nxt. free_id channels n = Some (r, nxt) \<and> map_of channels r = None \<and> wrap_i32 nxt = nxt"
proof -
  have "inj_on (\<lambda>i. wrap_i32 (n + int i)) {..<MAX_CHANNELS}"
    by (rule inj_onI) (auto simp: MAX_CHANNELS_def dest!: wrap_i32_inj)
  from pigeon_free [OF this assms(2)] obtain i where "map_of channels (wrap_i32 (n + int i)) = None" by blast
  then have "map_of channels (((\<lambda>n. wrap_i32 (n + 1)) ^^ i) n) = None" using next_id_iter [OF assms(1)] by simp
  from free_id_at [OF this] show ?thesis using wrap_i32_add [of _ 0] by fastforce
qed

section \<open>Properties\<close>

text \<open>C12: flow control between two ends that follow the protocol. In every state that a direction of a
  channel can reach, with takes, reads, arrivals, the connection, drains, window updates and
  \<open>opened\<close> in any order: no frame overruns the receiver's window, the data the receiver holds
  is at most 256 KiB of charge and 4096 frames, what the sender may still send and has in flight fits
  the receiver's window, and before the connection the task accepts everything that has arrived.\<close>

theorem flow_never_overruns:
  assumes "link_reachable l"
  shows "\<not> lk_violated l \<and> charges (lk_pending l) \<le> 262144 \<and> length (lk_pending l) \<le> 4096
    \<and> lk_credit l + charges (lk_flight l) \<le> rw_remaining (lk_window l)
    \<and> (lk_connected l \<or> connecting chan [] 0 (map InData (lk_pending l)) = Ok (lk_pending l))"
proof -
  note inv = link_reachable_inv [OF assms]
  have pend: "charges (lk_pending l) \<le> (if lk_connected l then CHANNEL_WINDOW else INITIAL_WINDOW)"
    using inv by (auto simp: link_inv_def)
  have "64 * length ns \<le> charges ns" for ns
    by (induction ns) (auto simp: charge_def MIN_FRAME_CHARGE_def)
  from this [of "lk_pending l"] pend have "length (lk_pending l) \<le> 4096"
    by (auto simp: window_consts split: if_splits)
  moreover have "connecting chan p c (map InData ns) = Ok (p @ ns)" if "c + charges ns \<le> INITIAL_WINDOW" for p c ns
    using that by (induction ns arbitrary: p c) (auto simp: pending_fits_def)
  from this [of 0 "lk_pending l" "[]"] pend
  have "lk_connected l \<or> connecting chan [] 0 (map InData (lk_pending l)) = Ok (lk_pending l)"
    by (cases "lk_connected l") simp_all
  ultimately show ?thesis using inv pend
    by (auto simp: link_inv_def window_consts split: if_splits)
qed

text \<open>C22: the sender is never starved. In every reachable state of a connected direction in which
  nothing is in flight, queued or on its way back, the sender has credit for more than half the
  channel's window, so a frame can be taken.\<close>

theorem flow_never_stalls:
  assumes "link_reachable l" "lk_connected l" "lk_held l = None" "lk_flight l = []" "lk_pending l = []" "lk_back l = []"
  shows "lk_credit l > 131072 \<and> take_credit MAX_FRAME (lk_credit l) = Some (MAX_FRAME, lk_credit l - MAX_FRAME)"
proof -
  have "lk_credit l > 131072" using link_reachable_inv [OF assms(1)] assms(2-6)
    by (auto simp: link_inv_def window_consts)
  then show ?thesis by (simp add: take_credit_def Let_def window_consts)
qed

text \<open>A run of one direction: 100 bytes are sent before the connection, arrive, the receiver connects,
  drains them, and \<open>opened\<close> reaches the sender.\<close>

definition toy_link :: Link where
  "toy_link = \<lparr>lk_credit = 262044, lk_held = None, lk_flight = [], lk_window = \<lparr>rw_remaining = 262044, rw_drained = 100\<rparr>,
     lk_pending = [], lk_connected = True, lk_back = [], lk_violated = False\<rparr>"

lemma toy_link_reachable: "link_reachable toy_link"
proof -
  let ?l1 = "link_to_acceptor\<lparr>lk_held := Some 65536, lk_credit := 0\<rparr>"
  let ?l2 = "?l1\<lparr>lk_held := None, lk_credit := 65436, lk_flight := [100]\<rparr>"
  let ?l3 = "?l2\<lparr>lk_flight := [], lk_window := \<lparr>rw_remaining = 65436, rw_drained = 0\<rparr>, lk_pending := [100]\<rparr>"
  let ?l4 = "?l3\<lparr>lk_connected := True, lk_window := \<lparr>rw_remaining = 262044, rw_drained = 0\<rparr>, lk_back := [Granted CHANNEL_WINDOW]\<rparr>"
  let ?l5 = "?l4\<lparr>lk_pending := [], lk_window := \<lparr>rw_remaining = 262044, rw_drained = 100\<rparr>\<rparr>"
  note defs = window_consts take_credit_def relay_read_def charge_def add_credit_def sat_add_def u32_max_def
    accept_def checked_sub_def connected_grant_def grant_def relay_write_def drained_def raise_initial_def
    effective_window_def link_to_acceptor_def SendCredit_new_def RecvWindow_new_def
  have 1: "link_reachable ?l1"
    by (rule later [OF start_acceptor], rule Take [of _ 65536 0]) (simp_all add: defs)
  have "link_step ?l1 (?l1\<lparr>lk_held := None, lk_credit := 65436, lk_flight := lk_flight ?l1 @ [100]\<rparr>)"
    by (rule Read [of _ 65536 100 1 100 65436]) (simp_all add: defs)
  then have 2: "link_reachable ?l2" using later [OF 1] by (simp add: link_to_acceptor_def)
  have "link_step ?l2 (?l2\<lparr>lk_flight := [], lk_window := \<lparr>rw_remaining = 65436, rw_drained = 0\<rparr>, lk_pending := lk_pending ?l2 @ [100]\<rparr>)"
    by (rule Arrive) (simp_all add: defs)
  then have 3: "link_reachable ?l3" using later [OF 2] by (simp add: link_to_acceptor_def)
  have "link_step ?l3 (?l3\<lparr>lk_connected := True, lk_window := \<lparr>rw_remaining = 262044, rw_drained = 0\<rparr>, lk_back := lk_back ?l3 @ [Granted CHANNEL_WINDOW]\<rparr>)"
    by (rule Connect [of _ 1 "[]"]) (simp_all add: defs)
  then have 4: "link_reachable ?l4" using later [OF 3] by (simp add: link_to_acceptor_def)
  have "link_step ?l4 (?l4\<lparr>lk_pending := [], lk_window := \<lparr>rw_remaining = 262044, rw_drained = 100\<rparr>,
      lk_back := lk_back ?l4 @ (case None of Some (WindowUpdate _ a) \<Rightarrow> [Update a] | _ \<Rightarrow> [])\<rparr>)"
    by (rule Drain [of _ 100 "[]" 1]) (simp_all add: defs)
  then have 5: "link_reachable ?l5" using later [OF 4] by (simp add: link_to_acceptor_def)
  have "link_step ?l5 (?l5\<lparr>lk_back := [] @ [], lk_credit := raise_initial CHANNEL_WINDOW (lk_credit ?l5)\<rparr>)"
    by (rule OpenedArrives) simp
  then show ?thesis using later [OF 5] by (simp add: toy_link_def defs)
qed

theorem flow_never_overruns_witness:
  "\<not> lk_violated toy_link \<and> lk_credit toy_link + charges (lk_flight toy_link) \<le> rw_remaining (lk_window toy_link)"
  using flow_never_overruns [OF toy_link_reachable] by blast

theorem flow_never_stalls_witness:
  "take_credit MAX_FRAME (lk_credit toy_link) = Some (MAX_FRAME, lk_credit toy_link - MAX_FRAME)"
  using flow_never_stalls [OF toy_link_reachable] by (simp add: toy_link_def)

text \<open>The controlled side opens a channel only for a permitted request whose target is the one the
  connection logged in for, on an identifier that is not live and below the limit of 256 channels;
  every other request leaves the live channels as they are. The limit holds along any sequence of
  frames.\<close>

theorem mux_opens_authorized:
  "(case mux_on_open nt chan host port window permitted m of (reply, started, m') \<Rightarrow>
      let live = filter (\<lambda>(_, e). ce_inbound e \<noteq> None) (mx_channels m) in
      started = (permitted \<and> length live < 256 \<and> map_of live chan = None \<and> nt host port = mx_login_target m)
      \<and> (if started then reply = None \<and> map_of (mx_channels m') =
            (map_of live)(chan \<mapsto> \<lparr>ce_inbound = Some [], ce_credit = SendCredit_new (effective_window window),
               ce_window = RecvWindow_new INITIAL_WINDOW, ce_opened = True\<rparr>)
         else mx_channels m' = live))
   \<and> length (mx_channels (fold (\<lambda>(frame, perm) m. snd (mux_handle nt frame perm m)) frames
        \<lparr>mx_channels = [], mx_login_target = target, mx_teardown = False\<rparr>)) \<le> 256"
proof
  show "length (mx_channels (fold (\<lambda>(frame, perm) m. snd (mux_handle nt frame perm m)) frames
        \<lparr>mx_channels = [], mx_login_target = target, mx_teardown = False\<rparr>)) \<le> 256"
    using mux_frames.run_inv [of "\<lparr>mx_channels = [], mx_login_target = target, mx_teardown = False\<rparr>" frames nt]
    by (simp add: table_ok_def MAX_CHANNELS_def)
qed (auto simp: mux_on_open_def Let_def MAX_CHANNELS_def)

text \<open>Opening a channel on the controller always returns: the search for an identifier ends, wrapping
  at the bounds of \<open>i32\<close>, on one that no live channel has, and the table stays within its limit.\<close>

theorem tunnel_open_returns:
  assumes "table_ok (tu_channels t)" "- 2147483648 \<le> tu_next_id t" "tu_next_id t \<le> 2147483647"
  shows "\<exists>r t'. tunnel_open closed t = Some (r, t') \<and> table_ok (tu_channels t')
    \<and> (r = Err TunnelIsGone \<and> closed \<and> t' = t
       \<or> r = Err TooManyChannels \<and> length (tu_channels t) = 256 \<and> t' = t
       \<or> (\<exists>chan e. r = Ok chan \<and> map_of (tu_channels t) chan = None \<and> map_of (tu_channels t') = (map_of (tu_channels t))(chan \<mapsto> e)
            \<and> ce_credit e = 65536 \<and> rw_remaining (ce_window e) = 262144))"
proof (cases "closed \<or> length (tu_channels t) \<ge> MAX_CHANNELS")
  case True
  then show ?thesis using assms(1) by (auto simp: tunnel_open_def table_ok_def MAX_CHANNELS_def)
next
  case False
  then have l: "length (tu_channels t) < MAX_CHANNELS" by simp
  from free_id_returns [OF wrap_i32_id [OF assms(2,3)] l] obtain r nxt where
    r: "free_id (tu_channels t) (tu_next_id t) = Some (r, nxt)" "map_of (tu_channels t) r = None" by blast
  show ?thesis using False r table_insert_new [OF assms(1) l]
    by (auto simp: tunnel_open_def SendCredit_new_def RecvWindow_new_def effective_window_def window_consts)
qed

theorem tunnel_open_returns_witness:
  "\<exists>r t'. tunnel_open False \<lparr>tu_channels = [], tu_next_id = 2147483647, tu_reported = [], tu_teardown = False\<rparr> = Some (r, t')
     \<and> table_ok (tu_channels t')"
  using tunnel_open_returns [of "\<lparr>tu_channels = [], tu_next_id = 2147483647, tu_reported = [], tu_teardown = False\<rparr>" False]
  by (auto simp: table_ok_def)

end
