(* ===== verification/Forward_Policy.thy ===== *)
theory Forward_Policy
  imports Rust_Prelude "HOL-Library.Word"
begin

text \<open>
  Who may open which forwarding target: \<^verbatim>\<open>src/src/clanto/forwarding/policy.rs\<close> and
  \<^verbatim>\<open>catalog.rs\<close>. The IP address parser is the one of the Rust standard library. The
  configuration is the argument \<open>get_option\<close>, name resolution the argument \<open>lookup\<close>, the catalogue's
  JSON decoder the argument of \<open>parse_catalog\<close>.
\<close>

unbundle bit_operations_syntax

section \<open>Model: IP addresses of the standard library\<close>

datatype IpAddr = V4 "32 word" | V6 "128 word"

definition hex_val :: "char \<Rightarrow> nat option" where
  "hex_val c =
     (let n = (of_char c :: nat) in
      if 48 \<le> n \<and> n \<le> 57 then Some (n - 48)
      else if 97 \<le> n \<and> n \<le> 102 then Some (n - 87)
      else if 65 \<le> n \<and> n \<le> 70 then Some (n - 55)
      else None)"

text \<open>\<open>read_number\<close>: digits up to the first other character; too many digits or too large a value
  fail, as does a leading zero where it is not allowed.\<close>

fun read_digits :: "(char \<Rightarrow> nat option) \<Rightarrow> int \<Rightarrow> nat \<Rightarrow> int \<Rightarrow> nat \<Rightarrow> int \<Rightarrow> string \<Rightarrow> (int \<times> nat \<times> string) option" where
  "read_digits dig radix max_digits mx count acc [] = Some (acc, count, [])"
| "read_digits dig radix max_digits mx count acc (c # cs) =
     (case dig c of
        None \<Rightarrow> Some (acc, count, c # cs)
      | Some d \<Rightarrow>
          let v = acc * radix + int d in
          if v > mx \<or> count + 1 > max_digits then None
          else read_digits dig radix max_digits mx (count + 1) v cs)"

definition read_number ::
    "(char \<Rightarrow> nat option) \<Rightarrow> int \<Rightarrow> nat \<Rightarrow> int \<Rightarrow> bool \<Rightarrow> string \<Rightarrow> (int \<times> string) option" where
  "read_number dig radix max_digits mx allow_zero_prefix s =
     (case read_digits dig radix max_digits mx 0 0 s of
        None \<Rightarrow> None
      | Some (v, count, rest) \<Rightarrow>
          if count = 0 \<or> (\<not> allow_zero_prefix \<and> take 1 s = ''0'' \<and> count > 1) then None
          else Some (v, rest))"

definition read_char :: "char \<Rightarrow> string \<Rightarrow> string option" where
  "read_char c s = (case s of x # xs \<Rightarrow> if x = c then Some xs else None | [] \<Rightarrow> None)"

definition read_separator :: "char \<Rightarrow> nat \<Rightarrow> (string \<Rightarrow> ('a \<times> string) option) \<Rightarrow> string \<Rightarrow> ('a \<times> string) option" where
  "read_separator sep i f s = (if i > 0 then Option.bind (read_char sep s) f else f s)"

definition read_octet :: "string \<Rightarrow> (int \<times> string) option" where
  "read_octet = read_number digit_val 10 3 255 False"

text \<open>The address as a number.\<close>

definition read_ipv4 :: "string \<Rightarrow> (int \<times> string) option" where
  "read_ipv4 s =
     Option.bind (read_octet s) (\<lambda>(a, s).
     Option.bind (read_separator CHR ''.'' 1 read_octet s) (\<lambda>(b, s).
     Option.bind (read_separator CHR ''.'' 2 read_octet s) (\<lambda>(c, s).
     Option.bind (read_separator CHR ''.'' 3 read_octet s) (\<lambda>(d, s).
       Some (((a * 256 + b) * 256 + c) * 256 + d, s)))))"

text \<open>\<open>read_groups\<close> from group \<open>i\<close> on, at most \<open>n\<close> more groups: the groups, whether the last
  two were an IPv4 address, and the rest.\<close>

fun read_groups :: "nat \<Rightarrow> nat \<Rightarrow> string \<Rightarrow> int list \<times> bool \<times> string" where
  "read_groups i 0 s = ([], False, s)"
| "read_groups i (Suc n) s =
     (case (if 0 < n then read_separator CHR '':'' i read_ipv4 s else None) of
        Some (v4, rest) \<Rightarrow> ([v4 div 65536, v4 mod 65536], True, rest)
      | None \<Rightarrow>
          (case read_separator CHR '':'' i (read_number hex_val 16 4 65535 True) s of
             None \<Rightarrow> ([], False, s)
           | Some (g, rest) \<Rightarrow>
               (case read_groups (Suc i) n rest of (gs, ipv4, rest) \<Rightarrow> (g # gs, ipv4, rest))))"

definition read_ipv6 :: "string \<Rightarrow> (int list \<times> string) option" where
  "read_ipv6 s =
     (case read_groups 0 8 s of (head, head_ipv4, s) \<Rightarrow>
        if length head = 8 then Some (head, s)
        else if head_ipv4 then None
        else
          Option.bind (read_char CHR '':'' s) (\<lambda>s. Option.bind (read_char CHR '':'' s) (\<lambda>s.
            case read_groups 0 (8 - (length head + 1)) s of (tail, _, s) \<Rightarrow>
              Some (head @ replicate (8 - length head - length tail) 0 @ tail, s))))"

definition parse_ip :: "string \<Rightarrow> IpAddr option" where
  "parse_ip s =
     (case read_ipv4 s of
        Some (v, []) \<Rightarrow> Some (V4 (word_of_int v))
      | _ \<Rightarrow>
          (case read_ipv6 s of
             Some (gs, []) \<Rightarrow> Some (V6 (word_of_int (foldl (\<lambda>a g. a * 65536 + g) 0 gs)))
           | _ \<Rightarrow> None))"

definition is_ipv4 :: "IpAddr \<Rightarrow> bool" where
  "is_ipv4 ip = (case ip of V4 _ \<Rightarrow> True | V6 _ \<Rightarrow> False)"

definition is_loopback :: "IpAddr \<Rightarrow> bool" where
  "is_loopback ip = (case ip of V4 a \<Rightarrow> drop_bit 24 a = 127 | V6 a \<Rightarrow> a = 1)"

definition LOCALHOST4 :: IpAddr where "LOCALHOST4 = V4 0x7F000001"
definition LOCALHOST6 :: IpAddr where "LOCALHOST6 = V6 1"

section \<open>Model: patterns\<close>

datatype Direction = ToHost | ToController

datatype Addr = Any | Name string | Net IpAddr nat

record Pattern =
  pt_addr :: Addr
  pt_ports :: "nat \<times> nat"

definition valid_id :: "string \<Rightarrow> bool" where
  "valid_id i =
     (i \<noteq> [] \<and> byte_len i \<le> 64
      \<and> list_all (\<lambda>c. is_ascii_alphanumeric c \<or> c = CHR ''-'' \<or> c = CHR ''_'' \<or> c = CHR ''.'') i)"

definition parse_ports :: "string \<Rightarrow> (nat \<times> nat) option" where
  "parse_ports s =
     (if s = ''*'' then Some (1, u16_max)
      else
        (let (a, b) = (case split_once (\<lambda>c. c = CHR ''-'') s of Some ab \<Rightarrow> ab | None \<Rightarrow> (s, s)) in
         Option.bind (parse_uint u16_max (trim a)) (\<lambda>a.
         Option.bind (parse_uint u16_max (trim b)) (\<lambda>b.
           if 1 \<le> a \<and> a \<le> b then Some (a, b) else None))))"

definition strip_brackets :: "string \<Rightarrow> string" where
  "strip_brackets s =
     trim_end_matches (\<lambda>c. c = CHR '']'') (trim_start_matches (\<lambda>c. c = CHR ''['') s)"

definition parse_addr :: "string \<Rightarrow> Addr option" where
  "parse_addr s =
     (if s = ''*'' then Some Any
      else
        (let bare = strip_brackets s in
         case split_once (\<lambda>c. c = CHR ''/'') bare of
           Some (ip, bits) \<Rightarrow>
             Option.bind (parse_ip ip) (\<lambda>ip.
             Option.bind (parse_uint u8_max bits) (\<lambda>bits.
               if bits \<le> (if is_ipv4 ip then 32 else 128) then Some (Net ip bits) else None))
         | None \<Rightarrow>
             (case parse_ip bare of
                Some ip \<Rightarrow> Some (Net ip (if is_ipv4 ip then 32 else 128))
              | None \<Rightarrow>
                  (let name = to_ascii_lowercase bare in
                   if name \<noteq> [] \<and> byte_len name \<le> 253
                      \<and> list_all (\<lambda>c. is_ascii_alphanumeric c \<or> c = CHR ''-'' \<or> c = CHR ''.'') name
                   then Some (Name name) else None))))"

definition parse_pattern :: "string \<Rightarrow> Pattern option" where
  "parse_pattern item =
     Option.bind (rsplit_once (\<lambda>c. c = CHR '':'') (trim item)) (\<lambda>(addr, ports).
     Option.bind (parse_addr (trim addr)) (\<lambda>addr.
     Option.bind (parse_ports (trim ports)) (\<lambda>ports.
       Some \<lparr>pt_addr = addr, pt_ports = ports\<rparr>)))"

definition is_list_sep :: "char \<Rightarrow> bool" where
  "is_list_sep c = (c = CHR '','' \<or> c = CHR '';'' \<or> is_whitespace c)"

fun sort_items :: "string list \<Rightarrow> Pattern list \<times> string list" where
  "sort_items [] = ([], [])"
| "sort_items (item # items) =
     (case sort_items items of (ok, bad) \<Rightarrow>
        (case parse_pattern item of Some p \<Rightarrow> (p # ok, bad) | None \<Rightarrow> (ok, item # bad)))"

definition parse_list :: "string \<Rightarrow> Pattern list \<times> string list" where
  "parse_list lst = sort_items (filter (\<lambda>s. s \<noteq> []) (split_on is_list_sep lst))"

definition parse_service :: "string \<Rightarrow> (string \<times> Pattern) option" where
  "parse_service entry =
     Option.bind (split_once (\<lambda>c. c = CHR ''='') (trim entry)) (\<lambda>(i, target).
       if valid_id (trim i) then map_option (Pair (trim i)) (parse_pattern (trim target)) else None)"

definition parse_services :: "string \<Rightarrow> (string \<times> Pattern) list" where
  "parse_services value = List.map_filter parse_service (split_on (\<lambda>c. c = CHR '';'') value)"

definition in_net :: "IpAddr \<Rightarrow> IpAddr \<Rightarrow> nat \<Rightarrow> bool" where
  "in_net ip net bits =
     (case (ip, net) of
        (V4 a, V4 b) \<Rightarrow>
          (let mask = (if bits = 0 then 0 else push_bit (32 - bits) (- 1)) in a AND mask = b AND mask)
      | (V6 a, V6 b) \<Rightarrow>
          (let mask = (if bits = 0 then 0 else push_bit (128 - bits) (- 1)) in a AND mask = b AND mask)
      | _ \<Rightarrow> False)"

definition is_loopback_name :: "string \<Rightarrow> bool" where
  "is_loopback_name name = eq_ignore_ascii_case name ''localhost''"

definition port_ok :: "Pattern \<Rightarrow> nat \<Rightarrow> bool" where
  "port_ok p port = (fst (pt_ports p) \<le> port \<and> port \<le> snd (pt_ports p))"

definition name_ok :: "Pattern \<Rightarrow> string \<Rightarrow> bool" where
  "name_ok p name =
     (case pt_addr p of Any \<Rightarrow> True | Name n \<Rightarrow> eq_ignore_ascii_case n name | Net _ _ \<Rightarrow> False)"

definition ip_ok :: "Pattern \<Rightarrow> IpAddr \<Rightarrow> bool" where
  "ip_ok p ip =
     (case pt_addr p of
        Any \<Rightarrow> True
      | Net net bits \<Rightarrow> in_net ip net bits
      | Name n \<Rightarrow> is_loopback_name n \<and> is_loopback ip)"

definition literal_match :: "Pattern \<Rightarrow> string \<Rightarrow> nat \<Rightarrow> bool" where
  "literal_match p host port =
     (if \<not> port_ok p port then False
      else
        (let host = strip_brackets host in
         case parse_ip host of
           Some ip \<Rightarrow> ip_ok p ip
         | None \<Rightarrow> name_ok p host \<or> (is_loopback_name host \<and> ip_ok p LOCALHOST4)))"

definition may_match :: "Pattern \<Rightarrow> string \<Rightarrow> nat \<Rightarrow> bool" where
  "may_match p host port =
     (literal_match p host port
      \<or> (port_ok p port \<and> (case pt_addr p of Any \<Rightarrow> True | Net _ _ \<Rightarrow> True | Name _ \<Rightarrow> False)))"

section \<open>Model: decisions\<close>

datatype Target = Addrs "(IpAddr \<times> nat) list"

definition loopback_addrs :: "nat \<Rightarrow> (IpAddr \<times> nat) list" where
  "loopback_addrs port = [(LOCALHOST4, port), (LOCALHOST6, port)]"

definition check_target :: "Pattern list \<Rightarrow> string \<Rightarrow> nat \<Rightarrow> IpAddr list \<Rightarrow> Target option" where
  "check_target patterns host port resolved =
     (let host = strip_brackets host in
      case parse_ip host of
        Some ip \<Rightarrow>
          if list_ex (\<lambda>p. port_ok p port \<and> ip_ok p ip) patterns then Some (Addrs [(ip, port)]) else None
      | None \<Rightarrow>
          if is_loopback_name host then
            (if list_ex (\<lambda>p. port_ok p port \<and> (name_ok p host \<or> ip_ok p LOCALHOST4)) patterns
             then Some (Addrs (loopback_addrs port)) else None)
          else if list_ex (\<lambda>p. port_ok p port \<and> name_ok p host) patterns then
            (let addrs = map (\<lambda>ip. (ip, port)) resolved in if addrs \<noteq> [] then Some (Addrs addrs) else None)
          else
            (let vetted = map (\<lambda>ip. (ip, port))
                   (filter (\<lambda>ip. list_ex (\<lambda>p. port_ok p port \<and> ip_ok p ip) patterns) resolved)
             in if vetted \<noteq> [] then Some (Addrs vetted) else None))"

definition resolve :: "(string \<Rightarrow> nat \<Rightarrow> IpAddr list option) \<Rightarrow> string \<Rightarrow> nat \<Rightarrow> IpAddr list" where
  "resolve lookup host port =
     (let bare = strip_brackets host in
      if parse_ip bare \<noteq> None \<or> is_loopback_name bare then []
      else (case lookup bare port of Some addrs \<Rightarrow> addrs | None \<Rightarrow> []))"

record Decision =
  de_target :: Target
  de_service :: string

definition DENIED_DISABLED :: string where "DENIED_DISABLED = ''Forwarding is disabled on this device''"
definition DENIED_TARGET :: string where "DENIED_TARGET = ''Forwarding target not allowed''"
definition DENIED_REVERSE :: string where
  "DENIED_REVERSE = ''Forwarding towards the controller is not allowed on this device''"
definition DENIED_WEBCAM :: string where "DENIED_WEBCAM = ''Webcam forwarding is disabled on this device''"
definition DENIED_WEBCAM_SEND :: string where
  "DENIED_WEBCAM_SEND = ''Sending this PC's webcam is not allowed on this device''"
definition DENIED_WEBCAM_RECEIVE :: string where
  "DENIED_WEBCAM_RECEIVE = ''Using the remote PC's webcam is not allowed on this device''"

definition on :: "(string \<Rightarrow> string) \<Rightarrow> string \<Rightarrow> bool" where
  "on get_option key = (get_option key = ''Y'')"

definition services_key :: "Direction \<Rightarrow> string" where
  "services_key d =
     (case d of ToHost \<Rightarrow> ''clanto-forward-services-host'' | ToController \<Rightarrow> ''clanto-forward-services-controller'')"

definition custom_keys :: "Direction \<Rightarrow> string \<times> string" where
  "custom_keys d =
     (case d of
        ToHost \<Rightarrow> (''clanto-forward-custom-host'', ''clanto-forward-custom-host-targets'')
      | ToController \<Rightarrow> (''clanto-forward-custom-controller'', ''clanto-forward-custom-controller-targets''))"

text \<open>\<open>port\<close> is an \<open>i32\<close>; \<open>u16::try_from\<close> fails outside 0 to 65535.\<close>

definition authorize_target ::
    "(string \<Rightarrow> string) \<Rightarrow> (string \<Rightarrow> nat \<Rightarrow> IpAddr list option) \<Rightarrow> Direction \<Rightarrow> string \<Rightarrow> int
       \<Rightarrow> (Decision, string) result" where
  "authorize_target get_option lookup direction host port =
     (if \<not> on get_option ''clanto-forward-enabled'' then Err DENIED_DISABLED
      else if \<not> (0 < port \<and> port \<le> int u16_max) then Err DENIED_TARGET
      else
        (let port = nat port;
             service = List.find (\<lambda>(_, p). literal_match p host port)
               (parse_services (get_option (services_key direction)));
             service_patterns = (case service of None \<Rightarrow> [] | Some (_, p) \<Rightarrow> [p]);
             custom_on = on get_option (fst (custom_keys direction));
             custom_patterns =
               (if custom_on then fst (parse_list (get_option (snd (custom_keys direction)))) else [])
         in if \<not> list_ex (\<lambda>p. may_match p host port) (service_patterns @ custom_patterns)
            then Err DENIED_TARGET
            else
              (let resolved = resolve lookup host port in
               case (service, check_target service_patterns host port resolved) of
                 (Some (i, _), Some target) \<Rightarrow> Ok \<lparr>de_target = target, de_service = i\<rparr>
               | _ \<Rightarrow>
                   (case check_target custom_patterns host port resolved of
                      Some target \<Rightarrow> Ok \<lparr>de_target = target, de_service = []\<rparr>
                    | None \<Rightarrow> Err DENIED_TARGET))))"

definition offered_service :: "string \<Rightarrow> (string \<times> string) option" where
  "offered_service entry =
     Option.bind (split_once (\<lambda>c. c = CHR ''='') (trim entry)) (\<lambda>(i, target).
       if valid_id (trim i) \<and> parse_pattern (trim target) \<noteq> None then Some (trim i, trim target) else None)"

definition offered_targets :: "(string \<Rightarrow> string) \<Rightarrow> Direction \<Rightarrow> ((string \<times> string) list, string) result" where
  "offered_targets get_option direction =
     (if \<not> on get_option ''clanto-forward-enabled'' then Err DENIED_DISABLED
      else
        Ok (List.map_filter offered_service
              (split_on (\<lambda>c. c = CHR '';'') (get_option (services_key direction)))
            @ (if on get_option (fst (custom_keys direction)) then
                 map (\<lambda>item. ([], item))
                   (filter (\<lambda>item. parse_pattern item \<noteq> None)
                     (split_on is_list_sep (get_option (snd (custom_keys direction)))))
               else [])))"

definition authorize_listen :: "(string \<Rightarrow> string) \<Rightarrow> (unit, string) result" where
  "authorize_listen get_option =
     (if \<not> on get_option ''clanto-forward-enabled'' then Err DENIED_DISABLED
      else if \<not> on get_option ''clanto-forward-reverse'' then Err DENIED_REVERSE else Ok ())"

definition authorize_camera :: "(string \<Rightarrow> string) \<Rightarrow> (unit, string) result" where
  "authorize_camera get_option =
     (if \<not> on get_option ''clanto-forward-webcam'' then Err DENIED_WEBCAM else Ok ())"

definition authorize_webcam_send :: "(string \<Rightarrow> string) \<Rightarrow> (unit, string) result" where
  "authorize_webcam_send get_option =
     result_bind (authorize_camera get_option) (\<lambda>_.
       if \<not> on get_option ''clanto-forward-webcam-send'' then Err DENIED_WEBCAM_SEND else Ok ())"

definition authorize_webcam_receive :: "(string \<Rightarrow> string) \<Rightarrow> (unit, string) result" where
  "authorize_webcam_receive get_option =
     result_bind (authorize_camera get_option) (\<lambda>_.
       if \<not> on get_option ''clanto-forward-webcam-receive'' then Err DENIED_WEBCAM_RECEIVE else Ok ())"

section \<open>Model: the catalogue\<close>

record Service =
  sv_id :: string
  sv_name :: string
  sv_kind :: string
  sv_direction :: Direction
  sv_target :: string
  sv_description :: string

definition MAX_SERVICES :: nat where "MAX_SERVICES = 500"
definition REFRESH_AFTER :: nat where "REFRESH_AFTER = 60 * 60"
definition RETRY_AFTER :: nat where "RETRY_AFTER = 5 * 60"

definition service_matches :: "Service \<Rightarrow> string \<Rightarrow> nat \<Rightarrow> bool" where
  "service_matches s host port =
     (case parse_pattern (sv_target s) of None \<Rightarrow> False | Some p \<Rightarrow> literal_match p host port)"

datatype CatalogError = BadCatalog | UnsupportedVersion nat | FetchFailed

text \<open>\<open>decode\<close> is \<open>serde_json\<close> on the body: the version and the services.\<close>

definition parse_catalog ::
    "(string \<Rightarrow> (nat \<times> Service list) option) \<Rightarrow> string \<Rightarrow> (Service list, CatalogError) result" where
  "parse_catalog decode body =
     (case decode body of
        None \<Rightarrow> Err BadCatalog
      | Some (version, services) \<Rightarrow>
          if version \<noteq> 1 then Err (UnsupportedVersion version)
          else Ok (take MAX_SERVICES (filter (\<lambda>s. valid_id (sv_id s) \<and> sv_kind s = ''tcp''
                 \<and> parse_pattern (sv_target s) \<noteq> None) services)))"

record Cache =
  ca_services :: "Service list"
  ca_fetched :: "nat option"
  ca_next_try :: "nat option"

text \<open>Whether a refresh at \<open>now\<close> asks the server, and what its result leaves; \<open>busy\<close> is whether
  another refresh is under way.\<close>

definition refresh_wanted :: "nat \<Rightarrow> bool \<Rightarrow> Cache \<Rightarrow> bool" where
  "refresh_wanted now busy cache =
     (let fresh = (case ca_fetched cache of None \<Rightarrow> False | Some t \<Rightarrow> now - t < REFRESH_AFTER);
          waiting = (case ca_next_try cache of None \<Rightarrow> False | Some t \<Rightarrow> now < t)
      in \<not> fresh \<and> \<not> waiting \<and> \<not> busy)"

definition refresh_if_stale ::
    "nat \<Rightarrow> bool \<Rightarrow> (Service list, CatalogError) result \<Rightarrow> Cache \<Rightarrow> Cache" where
  "refresh_if_stale now busy result cache =
     (if \<not> refresh_wanted now busy cache then cache
      else
        (case result of
           Ok services \<Rightarrow> cache\<lparr>ca_services := services, ca_fetched := Some now, ca_next_try := None\<rparr>
         | Err _ \<Rightarrow> cache\<lparr>ca_next_try := Some (now + RETRY_AFTER)\<rparr>))"

section \<open>Networks and patterns\<close>

lemma mask_eq_iff:
  fixes x y :: "'a::len word"
  assumes "n \<le> LENGTH('a)"
  shows "x AND push_bit n (- 1) = y AND push_bit n (- 1) \<longleftrightarrow> drop_bit n x = drop_bit n y"
proof
  assume l: "x AND push_bit n (- 1) = y AND push_bit n (- 1)"
  show "drop_bit n x = drop_bit n y"
  proof (rule bit_word_eqI)
    fix i assume "i < LENGTH('a)"
    from l have "bit (x AND push_bit n (- 1)) (n + i) = bit (y AND push_bit n (- 1)) (n + i)" by simp
    then show "bit (drop_bit n x) i = bit (drop_bit n y) i"
      using bit_imp_le_length [of x "n + i"] bit_imp_le_length [of y "n + i"]
      by (auto simp: bit_simps)
  qed
next
  assume r: "drop_bit n x = drop_bit n y"
  show "x AND push_bit n (- 1) = y AND push_bit n (- 1)"
  proof (rule bit_word_eqI)
    fix i assume i: "i < LENGTH('a)"
    have "bit x i = bit y i" if "n \<le> i"
      using arg_cong [OF r, of "\<lambda>w. bit w (i - n)"] that by (simp add: bit_simps)
    then show "bit (x AND push_bit n (- 1)) i = bit (y AND push_bit n (- 1)) i"
      by (auto simp: bit_simps)
  qed
qed

lemma drop_bit_all: "drop_bit (LENGTH('a)) (x :: 'a::len word) = 0"
  by (rule bit_word_eqI) (auto simp: bit_simps dest: bit_imp_le_length)

text \<open>A CIDR block is the addresses that share its first \<open>bits\<close> bits; the two families never mix.\<close>

lemma in_net_v4: "b \<le> 32 \<Longrightarrow> in_net (V4 x) (V4 y) b \<longleftrightarrow> drop_bit (32 - b) x = drop_bit (32 - b) y"
  using mask_eq_iff [of "32 - b" x y] drop_bit_all [of x] drop_bit_all [of y] by (auto simp: in_net_def Let_def)

lemma in_net_v6: "b \<le> 128 \<Longrightarrow> in_net (V6 x) (V6 y) b \<longleftrightarrow> drop_bit (128 - b) x = drop_bit (128 - b) y"
  using mask_eq_iff [of "128 - b" x y] drop_bit_all [of x] drop_bit_all [of y] by (auto simp: in_net_def Let_def)

text \<open>The patterns that come out of the parser.\<close>

definition pattern_ok :: "Pattern \<Rightarrow> bool" where
  "pattern_ok p \<longleftrightarrow> 1 \<le> fst (pt_ports p) \<and> fst (pt_ports p) \<le> snd (pt_ports p) \<and> snd (pt_ports p) \<le> 65535
     \<and> (case pt_addr p of Net (V4 _) b \<Rightarrow> b \<le> 32 | Net (V6 _) b \<Rightarrow> b \<le> 128 | _ \<Rightarrow> True)"

lemma parse_addr_ok:
  "parse_addr s = Some a \<Longrightarrow> (case a of Net (V4 _) b \<Rightarrow> b \<le> 32 | Net (V6 _) b \<Rightarrow> b \<le> 128 | _ \<Rightarrow> True)"
  unfolding parse_addr_def Let_def
  by (auto simp: is_ipv4_def bind_eq_Some_conv split: if_splits option.splits IpAddr.splits)

lemma parse_ports_ok: "parse_ports s = Some (a, b) \<Longrightarrow> 1 \<le> a \<and> a \<le> b \<and> b \<le> 65535"
  unfolding parse_ports_def
  by (auto simp: bind_eq_Some_conv u16_max_def split: if_splits option.splits prod.splits dest: parse_uint_le)

lemma parse_pattern_ok: "parse_pattern s = Some p \<Longrightarrow> pattern_ok p"
  using parse_addr_ok parse_ports_ok
  by (fastforce simp: parse_pattern_def pattern_ok_def bind_eq_Some_conv split: prod.splits)

lemma sort_items_ok: "p \<in> set (fst (sort_items xs)) \<Longrightarrow> \<exists>s\<in>set xs. parse_pattern s = Some p"
  by (induction xs) (auto split: option.splits prod.splits)

lemma parse_list_ok: "p \<in> set (fst (parse_list s)) \<Longrightarrow> pattern_ok p"
  using sort_items_ok parse_pattern_ok by (fastforce simp: parse_list_def)

lemma parse_services_ok: "(i, p) \<in> set (parse_services s) \<Longrightarrow> pattern_ok p"
  by (auto simp: parse_services_def List.map_filter_def parse_service_def bind_eq_Some_conv split: if_splits
      dest: parse_pattern_ok)

section \<open>Decisions are justified by a pattern\<close>

text \<open>Why an address may be opened for a requested host: a pattern admits the address itself, or a
  pattern admits the name and the address is a resolution of it, or the host is the loopback name.\<close>

definition admits :: "Pattern list \<Rightarrow> string \<Rightarrow> nat \<Rightarrow> IpAddr list \<Rightarrow> IpAddr \<Rightarrow> bool" where
  "admits ps host port resolved ip \<longleftrightarrow>
     (\<exists>p\<in>set ps. port_ok p port \<and>
        (ip_ok p ip \<and> (parse_ip host = Some ip \<or> ip \<in> set resolved)
         \<or> name_ok p host \<and> parse_ip host = None \<and> ip \<in> set resolved
         \<or> is_loopback_name host \<and> ip \<in> {LOCALHOST4, LOCALHOST6} \<and> (name_ok p host \<or> ip_ok p LOCALHOST4)))"

lemma check_target_sound:
  assumes "check_target ps host port resolved = Some (Addrs addrs)"
  shows "addrs \<noteq> [] \<and> (\<forall>(ip, q)\<in>set addrs. q = port \<and> admits ps (strip_brackets host) port resolved ip)"
  using assms
  by (fastforce simp: check_target_def Let_def admits_def list_ex_iff loopback_addrs_def split: option.splits if_splits)

text \<open>The filter before name resolution refuses nothing that the check would accept, a name that
  resolves to the loopback address under a \<open>localhost\<close> pattern apart.\<close>

lemma check_target_may_match:
  assumes "check_target ps host port resolved = Some t"
    and "\<forall>p\<in>set ps. \<forall>n. pt_addr p = Name n \<longrightarrow> \<not> is_loopback_name n"
  shows "\<exists>p\<in>set ps. may_match p host port"
proof -
  let ?h = "strip_brackets host"
  have net: "may_match p host port" if "p \<in> set ps" "port_ok p port" "parse_ip ?h = None" "ip_ok p ip" for p ip
    using that assms(2) by (cases "pt_addr p") (auto simp: may_match_def ip_ok_def)
  show ?thesis
  proof (cases "parse_ip ?h")
    case (Some ip)
    with assms(1) show ?thesis
      by (auto simp: check_target_def Let_def list_ex_iff may_match_def literal_match_def split: if_splits)
  next
    case None
    have "\<exists>p\<in>set ps. port_ok p port \<and> (name_ok p ?h \<or> is_loopback_name ?h \<and> ip_ok p LOCALHOST4 \<or> (\<exists>ip. ip_ok p ip))"
      using assms(1) None
      by (auto simp: check_target_def Let_def list_ex_iff filter_empty_conv split: if_splits)
    then obtain p where p: "p \<in> set ps" "port_ok p port" "name_ok p ?h \<or> (\<exists>ip. ip_ok p ip)" by blast
    then have "may_match p host port"
      using net [OF p(1,2) None] None by (auto simp: may_match_def literal_match_def)
    with p(1) show ?thesis ..
  qed
qed

text \<open>What the configuration of a side lets it open.\<close>

definition enabled_patterns :: "(string \<Rightarrow> string) \<Rightarrow> Direction \<Rightarrow> Pattern list" where
  "enabled_patterns get_option d =
     map snd (parse_services (get_option (services_key d)))
     @ (if on get_option (fst (custom_keys d)) then fst (parse_list (get_option (snd (custom_keys d)))) else [])"

lemma admits_mono: "admits ps host port resolved ip \<Longrightarrow> set ps \<subseteq> set qs \<Longrightarrow> admits qs host port resolved ip"
  unfolding admits_def by blast

lemma find_Some_in: "List.find P xs = Some x \<Longrightarrow> x \<in> set xs \<and> P x"
  by (auto simp: find_Some_iff)

lemma authorize_target_Ok:
  assumes "authorize_target get_option lookup d host port = Ok dec"
  shows "on get_option ''clanto-forward-enabled'' \<and> 0 < port \<and> port \<le> 65535
    \<and> (\<exists>ps. set ps \<subseteq> set (enabled_patterns get_option d)
         \<and> check_target ps host (nat port) (resolve lookup host (nat port)) = Some (de_target dec)
         \<and> (de_service dec \<noteq> [] \<longrightarrow> (\<exists>p. ps = [p] \<and> (de_service dec, p) \<in> set (parse_services (get_option (services_key d))))))"
proof -
  let ?svc = "List.find (\<lambda>(_, p). literal_match p host (nat port)) (parse_services (get_option (services_key d)))"
  let ?sp = "case ?svc of None \<Rightarrow> [] | Some (_, p) \<Rightarrow> [p]"
  let ?cp = "if on get_option (fst (custom_keys d)) then fst (parse_list (get_option (snd (custom_keys d)))) else []"
  have sp: "set ?sp \<subseteq> set (enabled_patterns get_option d)"
  proof (cases ?svc)
    case (Some x)
    then have "x \<in> set (parse_services (get_option (services_key d)))" using find_Some_in by fast
    with Some show ?thesis by (cases x) (force simp: enabled_patterns_def)
  qed simp
  have cp: "set ?cp \<subseteq> set (enabled_patterns get_option d)" by (auto simp: enabled_patterns_def)
  have g: "on get_option ''clanto-forward-enabled''" "0 < port" "port \<le> 65535"
    using assms by (auto simp: authorize_target_def u16_max_def split: if_splits)
  consider i p t where "?svc = Some (i, p)" "check_target [p] host (nat port) (resolve lookup host (nat port)) = Some t"
      "dec = \<lparr>de_target = t, de_service = i\<rparr>"
    | t where "check_target ?cp host (nat port) (resolve lookup host (nat port)) = Some t"
      "dec = \<lparr>de_target = t, de_service = []\<rparr>"
    using assms unfolding authorize_target_def Let_def
    by (fastforce split: if_splits option.splits prod.splits)
  then show ?thesis
  proof cases
    case 1
    then have "(i, p) \<in> set (parse_services (get_option (services_key d)))" using find_Some_in by fast
    with 1 g sp show ?thesis by (intro conjI exI [of _ "[p]"]) auto
  next
    case 2
    with g cp show ?thesis by (intro conjI exI [of _ ?cp]) auto
  qed
qed

section \<open>Properties\<close>

text \<open>C15: a forwarding target is opened only when forwarding is enabled, the port is valid, and every
  address to connect to is justified by a pattern that this side enabled in its own settings (a
  ticked service or, when custom targets are on, the custom list): the pattern admits the port and the
  address, or the name the address is a resolution of. The decision never names a service
  that is not ticked, and its list of addresses is not empty.\<close>

theorem authorized_targets_justified:
  assumes "authorize_target get_option lookup d host port = Ok dec" "de_target dec = Addrs addrs"
  shows "get_option ''clanto-forward-enabled'' = ''Y'' \<and> addrs \<noteq> []
    \<and> (\<forall>(ip, q)\<in>set addrs. int q = port \<and>
         (\<exists>p\<in>set (enabled_patterns get_option d). pattern_ok p \<and> port_ok p q \<and>
            (ip_ok p ip \<and> (parse_ip (strip_brackets host) = Some ip \<or> ip \<in> set (resolve lookup host q))
             \<or> name_ok p (strip_brackets host) \<and> ip \<in> set (resolve lookup host q)
             \<or> is_loopback_name (strip_brackets host) \<and> ip \<in> {LOCALHOST4, LOCALHOST6}
                 \<and> (name_ok p (strip_brackets host) \<or> ip_ok p LOCALHOST4))))
    \<and> (de_service dec \<noteq> [] \<longrightarrow> (\<exists>p. (de_service dec, p) \<in> set (parse_services (get_option (services_key d)))))"
proof -
  note a = authorize_target_Ok [OF assms(1)]
  then obtain ps where ps: "set ps \<subseteq> set (enabled_patterns get_option d)"
    "check_target ps host (nat port) (resolve lookup host (nat port)) = Some (Addrs addrs)"
    and svc: "de_service dec \<noteq> [] \<longrightarrow> (\<exists>p. (de_service dec, p) \<in> set (parse_services (get_option (services_key d))))"
    using assms(2) by auto
  have ok: "pattern_ok p" if "p \<in> set (enabled_patterns get_option d)" for p
    using that parse_services_ok parse_list_ok by (fastforce simp: enabled_patterns_def split: if_splits)
  have just: "int q = port \<and> admits (enabled_patterns get_option d) (strip_brackets host) q (resolve lookup host q) ip"
    if "(ip, q) \<in> set addrs" for ip q
    using check_target_sound [OF ps(2)] that admits_mono [OF _ ps(1)] a by fastforce
  have "addrs \<noteq> []" using check_target_sound [OF ps(2)] by simp
  moreover have "get_option ''clanto-forward-enabled'' = ''Y''" using a by (simp add: on_def)
  moreover have "\<forall>(ip, q)\<in>set addrs. int q = port \<and>
         (\<exists>p\<in>set (enabled_patterns get_option d). pattern_ok p \<and> port_ok p q \<and>
            (ip_ok p ip \<and> (parse_ip (strip_brackets host) = Some ip \<or> ip \<in> set (resolve lookup host q))
             \<or> name_ok p (strip_brackets host) \<and> ip \<in> set (resolve lookup host q)
             \<or> is_loopback_name (strip_brackets host) \<and> ip \<in> {LOCALHOST4, LOCALHOST6}
                 \<and> (name_ok p (strip_brackets host) \<or> ip_ok p LOCALHOST4)))"
    using just ok unfolding admits_def by fast
  ultimately show ?thesis using svc by blast
qed

definition toy_forward :: "string \<Rightarrow> string" where
  "toy_forward key =
     (if key = ''clanto-forward-enabled'' then ''Y''
      else if key = ''clanto-forward-services-host'' then ''nas=10.0.0.0/8:80-90''
      else [])"

lemma toy_pattern: "parse_pattern ''10.0.0.0/8:80-90'' = Some \<lparr>pt_addr = Net (V4 0x0A000000) 8, pt_ports = (80, 90)\<rparr>"
proof -
  have "rsplit_once (\<lambda>c. c = CHR '':'') (trim ''10.0.0.0/8:80-90'') = Some (''10.0.0.0/8'', ''80-90'')"
    "parse_addr (trim ''10.0.0.0/8'') = Some (Net (V4 0x0A000000) 8)"
    "trim ''80-90'' = ''80-90''"
    by code_simp+
  moreover have "parse_ports ''80-90'' = Some (80, 90)"
    by (simp add: parse_ports_def string_defs u16_max_def)
  ultimately show ?thesis by (simp add: parse_pattern_def)
qed

lemma toy_services: "parse_services ''nas=10.0.0.0/8:80-90''
    = [(''nas'', \<lparr>pt_addr = Net (V4 0x0A000000) 8, pt_ports = (80, 90)\<rparr>)]"
proof -
  have "split_on (\<lambda>c. c = CHR '';'') ''nas=10.0.0.0/8:80-90'' = [''nas=10.0.0.0/8:80-90'']"
    "split_once (\<lambda>c. c = CHR ''='') (trim ''nas=10.0.0.0/8:80-90'') = Some (''nas'', ''10.0.0.0/8:80-90'')"
    "trim ''nas'' = ''nas''" "valid_id ''nas''" "trim ''10.0.0.0/8:80-90'' = ''10.0.0.0/8:80-90''"
    by code_simp+
  then show ?thesis by (simp add: parse_services_def parse_service_def List.map_filter_def toy_pattern)
qed

lemma toy_authorized:
  "authorize_target toy_forward (\<lambda>_ _. None) ToHost ''10.1.2.3'' 80
   = Ok \<lparr>de_target = Addrs [(V4 0x0A010203, 80)], de_service = ''nas''\<rparr>"
proof -
  define p where "p = \<lparr>pt_addr = Net (V4 0x0A000000) 8, pt_ports = (80, 90)\<rparr>"
  have "literal_match p ''10.1.2.3'' 80" "may_match p ''10.1.2.3'' 80"
    "check_target [p] ''10.1.2.3'' 80 [] = Some (Addrs [(V4 0x0A010203, 80)])"
    "resolve (\<lambda>_ _. None) ''10.1.2.3'' 80 = []"
    unfolding p_def by code_simp+
  moreover have "parse_services (toy_forward (services_key ToHost)) = [(''nas'', p)]"
    by (simp add: toy_forward_def services_key_def toy_services p_def)
  ultimately show ?thesis
    by (simp add: authorize_target_def on_def u16_max_def custom_keys_def) (simp add: toy_forward_def)
qed

theorem authorized_targets_justified_witness:
  "\<exists>p\<in>set (enabled_patterns toy_forward ToHost). pattern_ok p \<and> port_ok p 80"
  using authorized_targets_justified [OF toy_authorized] by auto

text \<open>The filter that decides whether a name is resolved at all refuses nothing that the check of the
  resolved addresses would accept, unless some pattern is the name localhost.\<close>

theorem prefilter_complete:
  assumes "check_target ps host port resolved = Some t"
    and "\<forall>p\<in>set ps. \<forall>n. pt_addr p = Name n \<longrightarrow> \<not> is_loopback_name n"
  shows "\<exists>p\<in>set ps. may_match p host port"
  using assms by (rule check_target_may_match)

theorem prefilter_complete_witness:
  "\<exists>p\<in>set [\<lparr>pt_addr = Net (V4 0x0A000000) 8, pt_ports = (80, 90)\<rparr>]. may_match p ''nas.lan'' 80"
proof (rule prefilter_complete)
  show "check_target [\<lparr>pt_addr = Net (V4 0x0A000000) 8, pt_ports = (80, 90)\<rparr>] ''nas.lan'' 80 [V4 0x0A010203]
    = Some (Addrs [(V4 0x0A010203, 80)])" by code_simp
qed simp

text \<open>A CIDR pattern admits exactly the addresses of its family whose first \<open>bits\<close> bits are the
  network's, for the patterns that parsing produces.\<close>

theorem net_pattern_prefix:
  assumes "parse_pattern item = Some p" "pt_addr p = Net net bits"
  shows "ip_ok p ip \<longleftrightarrow>
    (case (ip, net) of
       (V4 a, V4 b) \<Rightarrow> drop_bit (32 - bits) a = drop_bit (32 - bits) b
     | (V6 a, V6 b) \<Rightarrow> drop_bit (128 - bits) a = drop_bit (128 - bits) b
     | _ \<Rightarrow> False)"
proof -
  have "case net of V4 _ \<Rightarrow> bits \<le> 32 | V6 _ \<Rightarrow> bits \<le> 128"
    using parse_pattern_ok [OF assms(1)] assms(2) by (simp add: pattern_ok_def split: IpAddr.splits)
  then show ?thesis
    by (cases ip; cases net) (simp_all add: ip_ok_def assms(2) in_net_v4 in_net_v6, simp_all add: in_net_def)
qed

theorem net_pattern_prefix_witness:
  "ip_ok \<lparr>pt_addr = Net (V4 0x0A000000) 8, pt_ports = (80, 90)\<rparr> (V4 0x0AFFFFFF)
   \<longleftrightarrow> drop_bit 24 (0x0AFFFFFF :: 32 word) = drop_bit 24 (0x0A000000 :: 32 word)"
  using net_pattern_prefix [OF toy_pattern, of "V4 0x0A000000" 8 "V4 0x0AFFFFFF"] by simp

end
