(* ===== verification/Forward_Engine.thy ===== *)
theory Forward_Engine
  imports Port_Mux Forward_Policy Json_Value
begin

text \<open>
  The symmetric forwarding engine, \<^verbatim>\<open>src/src/clanto/forwarding/engine.rs\<close>: the channel
  table with identifiers of the two parities, frames from the peer, listeners of the host, and the
  life of a channel accepted from the peer up to its relay. The windows, the relay and the handling of
  single frames are those of \<^verbatim>\<open>port_forward_mux.rs\<close>; sockets, tasks and the decisions of the
  side (\<open>Hooks\<close>) are arguments.
\<close>

section \<open>Model\<close>

datatype Side = Host | Controller

definition first_id :: "Side \<Rightarrow> int" where
  "first_id s = (case s of Controller \<Rightarrow> 1 | Host \<Rightarrow> 2)"

definition peer_owns :: "Side \<Rightarrow> int \<Rightarrow> bool" where
  "peer_owns s chan =
     (case s of Host \<Rightarrow> chan > 0 \<and> chan mod 2 = 1 | Controller \<Rightarrow> chan > 0 \<and> chan mod 2 = 0)"

definition MAX_LISTENERS :: nat where "MAX_LISTENERS = 32"

record Engine =
  eg_side :: Side
  eg_channels :: "(int \<times> ChannelEntry) list"
  eg_next_id :: int
  eg_listeners :: "int list"
  eg_listener_channels :: "(int \<times> int list) list"
  eg_teardown :: bool

text \<open>\<open>checked_add(2)\<close> on an \<open>i32\<close>, else back to the first identifier.\<close>

definition bump :: "Side \<Rightarrow> int \<Rightarrow> int" where
  "bump s chan = (if chan + 2 \<le> i32_max then chan + 2 else first_id s)"

partial_function (option) engine_free_id :: "Side \<Rightarrow> (int \<times> ChannelEntry) list \<Rightarrow> int \<Rightarrow> int option" where
  "engine_free_id s channels chan =
     (if map_of channels chan = None then Some chan else engine_free_id s channels (bump s chan))"

declare engine_free_id.simps [code]

datatype EngineError = SessionGone | TooManyForwards

text \<open>The channel opened and the frame sent ahead of its data.\<close>

definition open_outgoing ::
    "bool \<Rightarrow> string \<Rightarrow> int \<Rightarrow> Engine \<Rightarrow> ((int \<times> Frame, EngineError) result \<times> Engine) option" where
  "open_outgoing raw_closed host port g =
     (if raw_closed then Some (Err SessionGone, g)
      else if length (eg_channels g) \<ge> MAX_CHANNELS then Some (Err TooManyForwards, g)
      else
        map_option (\<lambda>chan.
          (Ok (chan, Open chan host port CHANNEL_WINDOW),
           g\<lparr>eg_next_id := bump (eg_side g) chan,
             eg_channels := assoc_insert chan
               \<lparr>ce_inbound = Some [], ce_credit = SendCredit_new INITIAL_WINDOW,
                ce_window = RecvWindow_new CHANNEL_WINDOW, ce_opened = False\<rparr> (eg_channels g)\<rparr>))
          (engine_free_id (eg_side g) (eg_channels g) (eg_next_id g)))"

text \<open>The reply, if any, and whether the accepted channel's task starts.\<close>

definition engine_on_open :: "int \<Rightarrow> nat \<Rightarrow> Engine \<Rightarrow> Frame option \<times> bool \<times> Engine" where
  "engine_on_open chan window g =
     (if \<not> peer_owns (eg_side g) chan then (None, False, g)
      else
        (let g = g\<lparr>eg_channels := filter (\<lambda>(_, e). ce_inbound e \<noteq> None) (eg_channels g)\<rparr> in
         if map_of (eg_channels g) chan \<noteq> None then (None, False, g)
         else if length (eg_channels g) \<ge> MAX_CHANNELS then
           (Some (Opened chan False ''Too many forwarding channels'' 0), False, g)
         else
           (None, True, g\<lparr>eg_channels := assoc_insert chan
              \<lparr>ce_inbound = Some [], ce_credit = SendCredit_new (effective_window window),
               ce_window = RecvWindow_new INITIAL_WINDOW, ce_opened = True\<rparr> (eg_channels g)\<rparr>)))"

text \<open>The reply and the refusal handed to the side, if any.\<close>

definition on_channel :: "Frame \<Rightarrow> Engine \<Rightarrow> Frame option \<times> (int \<times> string) option \<times> Engine" where
  "on_channel frame g =
     (case frame of
        Open chan host port window \<Rightarrow>
          (case engine_on_open chan window g of (reply, _, g) \<Rightarrow> (reply, None, g))
      | Opened chan success message window \<Rightarrow>
          if success then (None, None, g\<lparr>eg_channels := on_opened_ok chan window (eg_channels g)\<rparr>)
          else
            (case on_close chan (eg_channels g) of
               (_, None) \<Rightarrow> (None, None, g)
             | (channels, Some _) \<Rightarrow> (None, Some (chan, message), g\<lparr>eg_channels := channels\<rparr>))
      | Data chan len \<Rightarrow> (None, None, g\<lparr>eg_channels := fst (on_data chan len (eg_channels g))\<rparr>)
      | Close chan \<Rightarrow> (None, None, g\<lparr>eg_channels := fst (on_close chan (eg_channels g))\<rparr>)
      | WindowUpdate chan n \<Rightarrow> (None, None, g\<lparr>eg_channels := on_update chan n (eg_channels g)\<rparr>))"

text \<open>The channels closed, each announced to the peer.\<close>

fun close_channels :: "int list \<Rightarrow> Engine \<Rightarrow> Frame list \<times> Engine" where
  "close_channels [] g = ([], g)"
| "close_channels (chan # chans) g =
     (case on_close chan (eg_channels g) of
        (_, None) \<Rightarrow> close_channels chans g
      | (channels, Some _) \<Rightarrow>
          (case close_channels chans (g\<lparr>eg_channels := channels\<rparr>) of
             (frames, g) \<Rightarrow> (Close chan # frames, g)))"

definition engine_close_all :: "Engine \<Rightarrow> Engine" where
  "engine_close_all g = g\<lparr>eg_channels := [], eg_listeners := [], eg_teardown := True\<rparr>"

text \<open>\<open>authorized\<close> is the side's answer, \<open>bound\<close> the port the socket got or the system's error;
  the result is the answer sent.\<close>

definition on_listen ::
    "int \<Rightarrow> int \<Rightarrow> (unit, string) result \<Rightarrow> (int, string) result \<Rightarrow> Engine \<Rightarrow> (int, string) result \<times> Engine" where
  "on_listen listen_id port authorized bound g =
     (case authorized of
        Err e \<Rightarrow> (Err e, g)
      | Ok _ \<Rightarrow>
          if \<not> (port = 0 \<or> (1024 \<le> port \<and> port \<le> int u16_max)) then (Err ''Invalid port'', g)
          else if length (eg_listeners g) \<ge> MAX_LISTENERS then (Err ''Too many forwarding listeners'', g)
          else
            (case bound of
               Err e \<Rightarrow> (Err (''Cannot listen on port '' @ show_int port @ '': '' @ e), g)
             | Ok p \<Rightarrow> (Ok p, g\<lparr>eg_listeners := listen_id # filter (\<lambda>i. i \<noteq> listen_id) (eg_listeners g)\<rparr>)))"

text \<open>A connection accepted by a listener opened channel \<open>chan\<close>.\<close>

definition listener_opened :: "int \<Rightarrow> int \<Rightarrow> Engine \<Rightarrow> Engine" where
  "listener_opened listen_id chan g =
     (let old = (case map_of (eg_listener_channels g) listen_id of None \<Rightarrow> [] | Some cs \<Rightarrow> cs) in
      g\<lparr>eg_listener_channels := assoc_insert listen_id
          (filter (\<lambda>c. map_of (eg_channels g) c \<noteq> None) old @ [chan]) (eg_listener_channels g)\<rparr>)"

definition unlisten :: "int \<Rightarrow> Engine \<Rightarrow> Frame list \<times> Engine" where
  "unlisten listen_id g =
     (let chans = (case map_of (eg_listener_channels g) listen_id of None \<Rightarrow> [] | Some cs \<Rightarrow> cs) in
      close_channels chans
        (g\<lparr>eg_listeners := filter (\<lambda>i. i \<noteq> listen_id) (eg_listeners g),
           eg_listener_channels := assoc_remove listen_id (eg_listener_channels g)\<rparr>))"

datatype ForwardMsg =
    Channel Frame
  | Listen int int
  | Unlisten int
  | Listening int bool

text \<open>Messages that do not belong to the side are ignored. \<open>authorized\<close> and \<open>bound\<close> are read for
  \<open>Listen\<close> only.\<close>

definition on_message ::
    "(unit, string) result \<Rightarrow> (int, string) result \<Rightarrow> ForwardMsg \<Rightarrow> Engine \<Rightarrow> Engine" where
  "on_message authorized bound msg g =
     (case msg of
        Channel frame \<Rightarrow> snd (snd (on_channel frame g))
      | Listen lid port \<Rightarrow> if eg_side g = Host then snd (on_listen lid port authorized bound g) else g
      | Unlisten lid \<Rightarrow> if eg_side g = Host then snd (unlisten lid g) else g
      | Listening _ _ \<Rightarrow> g)"

text \<open>\<open>connect_any\<close>: the first address that connects, else the last error.\<close>

fun connect_any :: "('a \<Rightarrow> ('s, string) result) \<Rightarrow> 'a list \<Rightarrow> string \<Rightarrow> ('s, string) result" where
  "connect_any connect [] last_error = Err last_error"
| "connect_any connect (a # addrs) last_error =
     (case connect a of Ok s \<Rightarrow> Ok s | Err e \<Rightarrow> connect_any connect addrs e)"

text \<open>An accepted channel, with the commands that arrived before its setup completed: the data to
  write first and the frame that opens it, or the frame sent on the way out.\<close>

definition run_accepted ::
    "int \<Rightarrow> (('a list), string) result \<Rightarrow> ('a \<Rightarrow> ('s, string) result) \<Rightarrow> Inbound list \<Rightarrow> RecvWindow
       \<Rightarrow> ('s \<times> nat list \<times> Frame \<times> RecvWindow, Frame option) result" where
  "run_accepted chan authorized connect cmds w =
     (case connecting chan [] 0 cmds of
        Err f \<Rightarrow> Err f
      | Ok pending \<Rightarrow>
          (case result_bind authorized (\<lambda>addrs. connect_any connect addrs ''no address'') of
             Err e \<Rightarrow> Err (Some (Opened chan False e 0))
           | Ok s \<Rightarrow> (case connected_grant chan w of (f, w) \<Rightarrow> Ok (s, pending, f, w))))"

section \<open>Identifiers\<close>

definition other :: "Side \<Rightarrow> Side" where
  "other s = (case s of Host \<Rightarrow> Controller | Controller \<Rightarrow> Host)"

definition own_id :: "Side \<Rightarrow> int \<Rightarrow> bool" where
  "own_id s chan \<longleftrightarrow> peer_owns (other s) chan \<and> chan \<le> i32_max"

lemma own_id_iff: "own_id s chan \<longleftrightarrow> chan > 0 \<and> chan \<le> i32_max \<and> chan mod 2 = (case s of Host \<Rightarrow> 0 | Controller \<Rightarrow> 1)"
  by (cases s) (auto simp: own_id_def other_def peer_owns_def)

lemma own_id_first: "own_id s (first_id s)"
  by (cases s) (simp_all add: own_id_iff first_id_def i32_max_def)

lemma own_id_bump: "own_id s chan \<Longrightarrow> own_id s (bump s chan)"
  using own_id_first [of s] by (auto simp: bump_def own_id_iff)

lemma own_not_peer: "own_id s chan \<Longrightarrow> \<not> peer_owns s chan"
  by (cases s) (auto simp: own_id_iff peer_owns_def)

text \<open>The place of an identifier in the cycle of its side, and the number of them.\<close>

definition place :: "Side \<Rightarrow> int \<Rightarrow> int" where
  "place s chan = (chan - first_id s) div 2"

definition cycle :: "Side \<Rightarrow> int" where
  "cycle s = (case s of Controller \<Rightarrow> 1073741824 | Host \<Rightarrow> 1073741823)"

lemma place_bump:
  assumes "own_id s chan"
  shows "0 \<le> place s chan \<and> place s chan < cycle s \<and> place s (bump s chan) = (place s chan + 1) mod cycle s"
proof (cases s)
  case Host
  define k where "k = (chan - 2) div 2"
  have k: "chan = 2 + 2 * k" "0 \<le> k" "k < 1073741823"
    using assms unfolding k_def by (simp_all add: Host own_id_iff i32_max_def) presburger+
  show ?thesis
  proof (cases "k = 1073741822")
    case False
    then show ?thesis using k by (simp add: Host place_def bump_def first_id_def cycle_def i32_max_def)
  qed (use k in \<open>simp add: Host place_def bump_def first_id_def cycle_def i32_max_def\<close>)
next
  case Controller
  define k where "k = (chan - 1) div 2"
  have k: "chan = 1 + 2 * k" "0 \<le> k" "k < 1073741824"
    using assms unfolding k_def by (simp_all add: Controller own_id_iff i32_max_def) presburger+
  show ?thesis
  proof (cases "k = 1073741823")
    case False
    then show ?thesis using k by (simp add: Controller place_def bump_def first_id_def cycle_def i32_max_def)
  qed (use k in \<open>simp add: Controller place_def bump_def first_id_def cycle_def i32_max_def\<close>)
qed

lemma place_iter:
  "own_id s chan \<Longrightarrow> own_id s ((bump s ^^ i) chan) \<and> place s ((bump s ^^ i) chan) = (place s chan + int i) mod cycle s"
proof (induction i)
  case 0
  then show ?case using place_bump [of s chan] by simp
next
  case (Suc i)
  then have o: "own_id s ((bump s ^^ i) chan)" and p: "place s ((bump s ^^ i) chan) = (place s chan + int i) mod cycle s" by auto
  from place_bump [OF o] p have "place s ((bump s ^^ Suc i) chan) = ((place s chan + int i) mod cycle s + 1) mod cycle s" by simp
  also have "\<dots> = (place s chan + int i + 1) mod cycle s" by (rule mod_add_left_eq)
  also have "place s chan + int i + 1 = place s chan + int (Suc i)" by simp
  finally show ?case using own_id_bump [OF o] by simp
qed

lemma iter_inj:
  assumes "own_id s chan" "(bump s ^^ i) chan = (bump s ^^ j) chan" "i < 1073741823" "j < 1073741823"
  shows "i = j"
proof -
  have "(place s chan + int i) mod cycle s = (place s chan + int j) mod cycle s"
    using place_iter [OF assms(1), of i] place_iter [OF assms(1), of j] assms(2) by simp
  then have "cycle s dvd (int i - int j)" by (simp add: mod_eq_dvd_iff)
  then obtain k where k: "int i - int j = cycle s * k" by (auto simp: dvd_def)
  have "k = 0"
    using k assms(3,4) by (cases s) (simp_all add: cycle_def)
  with k show ?thesis by simp
qed

lemma engine_free_id_at:
  "map_of channels ((bump s ^^ k) chan) = None \<Longrightarrow>
   \<exists>i. engine_free_id s channels chan = Some ((bump s ^^ i) chan) \<and> map_of channels ((bump s ^^ i) chan) = None"
proof (induction k arbitrary: chan)
  case 0
  then show ?case by (subst engine_free_id.simps) (auto intro: exI [of _ 0])
next
  case (Suc k)
  then have "map_of channels ((bump s ^^ k) (bump s chan)) = None" by (simp only: funpow_Suc_right o_apply)
  from Suc.IH [OF this] obtain i where i: "engine_free_id s channels (bump s chan) = Some ((bump s ^^ i) (bump s chan))"
    "map_of channels ((bump s ^^ i) (bump s chan)) = None" by blast
  show ?case
  proof (cases "map_of channels chan = None")
    case True
    then show ?thesis by (subst engine_free_id.simps) (auto intro: exI [of _ 0])
  next
    case False
    have "(bump s ^^ i) (bump s chan) = (bump s ^^ Suc i) chan" by (simp only: funpow_Suc_right o_apply)
    with False i show ?thesis by (subst engine_free_id.simps) (auto intro: exI [of _ "Suc i"])
  qed
qed

lemma engine_free_id_returns:
  assumes "own_id s chan" "length channels < MAX_CHANNELS"
  shows "\<exists>r. engine_free_id s channels chan = Some r \<and> map_of channels r = None \<and> own_id s r"
proof -
  have "inj_on (\<lambda>i. (bump s ^^ i) chan) {..<MAX_CHANNELS}"
    by (rule inj_onI) (auto simp: MAX_CHANNELS_def dest!: iter_inj [OF assms(1)])
  from pigeon_free [OF this assms(2)] obtain i where "map_of channels ((bump s ^^ i) chan) = None" by blast
  from engine_free_id_at [OF this] place_iter [OF assms(1)] show ?thesis by fastforce
qed

section \<open>The engine's invariant\<close>

text \<open>Every channel has an identifier of one of the two sides, and the table keeps its limit.\<close>

definition ids_ok :: "Side \<Rightarrow> int set \<Rightarrow> bool" where
  "ids_ok s ids \<longleftrightarrow> (\<forall>c\<in>ids. own_id s c \<or> peer_owns s c)"

definition engine_inv :: "Engine \<Rightarrow> bool" where
  "engine_inv g \<longleftrightarrow> table_ok (eg_channels g) \<and> own_id (eg_side g) (eg_next_id g)
     \<and> length (eg_listeners g) \<le> MAX_LISTENERS \<and> ids_ok (eg_side g) (dom (map_of (eg_channels g)))"

lemma ids_ok_mono: "ids_ok s A \<Longrightarrow> B \<subseteq> A \<Longrightarrow> ids_ok s B"
  by (auto simp: ids_ok_def)

lemma ids_ok_insert: "ids_ok s A \<Longrightarrow> own_id s c \<or> peer_owns s c \<Longrightarrow> ids_ok s (insert c A)"
  by (auto simp: ids_ok_def)

lemma engine_inv_channels:
  assumes "engine_inv g" "table_ok cs" "dom (map_of cs) \<subseteq> dom (map_of (eg_channels g))"
  shows "engine_inv (g\<lparr>eg_channels := cs\<rparr>)"
  using assms ids_ok_mono by (auto simp: engine_inv_def)

lemma engine_inv_add:
  assumes "engine_inv g" "length (eg_channels g) < MAX_CHANNELS" "own_id (eg_side g) c \<or> peer_owns (eg_side g) c"
  shows "engine_inv (g\<lparr>eg_channels := assoc_insert c e (eg_channels g)\<rparr>)"
  using assms table_insert_new [of "eg_channels g" c e] ids_ok_insert [of "eg_side g" _ c] by (simp add: engine_inv_def)

lemma on_data_keys: "dom (map_of (fst (on_data chan len cs))) \<subseteq> dom (map_of cs)"
  by (auto simp: on_data_def Let_def split_beta split: option.splits if_splits)

lemma on_close_keys: "dom (map_of (fst (on_close chan cs))) \<subseteq> dom (map_of cs)"
  by (auto simp: on_close_def split: option.splits if_splits)

lemma assoc_update_keys: "dom (map_of (assoc_update chan f cs)) = dom (map_of cs)"
  by (auto split: if_splits)

lemma on_close_inv: "engine_inv g \<Longrightarrow> engine_inv (g\<lparr>eg_channels := fst (on_close chan (eg_channels g))\<rparr>)"
  using on_close_keys on_close_table by (intro engine_inv_channels) (auto simp: engine_inv_def)

lemma close_channels_inv: "engine_inv g \<Longrightarrow> engine_inv (snd (close_channels chans g))"
proof (induction chans arbitrary: g)
  case (Cons chan chans)
  note step = on_close_inv [OF Cons.prems, of chan]
  show ?case
  proof (cases "on_close chan (eg_channels g)")
    case (Pair channels gone)
    then show ?thesis using Cons Cons.IH [OF step] by (cases gone) (simp_all add: split_beta)
  qed
qed simp

lemma engine_on_open_inv: "engine_inv g \<Longrightarrow> engine_inv (snd (snd (engine_on_open chan window g)))"
proof -
  assume inv: "engine_inv g"
  let ?g = "g\<lparr>eg_channels := filter (\<lambda>(_, e). ce_inbound e \<noteq> None) (eg_channels g)\<rparr>"
  have "dom (map_of (filter P xs)) \<subseteq> dom (map_of xs)" for P and xs :: "(int \<times> ChannelEntry) list"
    using set_filter [of P xs] by (auto simp: dom_map_of_conv_image_fst)
  then have f: "engine_inv ?g" using inv by (intro engine_inv_channels) (auto simp: engine_inv_def table_filter)
  show ?thesis
    using inv f engine_inv_add [OF f, of chan]
    by (auto simp: engine_on_open_def Let_def not_le)
qed

lemma on_channel_inv: "engine_inv g \<Longrightarrow> engine_inv (snd (snd (on_channel frame g)))"
proof (cases frame)
  case (Open chan host port window)
  assume "engine_inv g"
  from engine_on_open_inv [OF this] show ?thesis by (simp add: Open on_channel_def split_beta)
next
  case (Opened chan success message window)
  assume inv: "engine_inv g"
  have ok: "engine_inv (g\<lparr>eg_channels := on_opened_ok chan window (eg_channels g)\<rparr>)"
    using inv on_opened_table by (intro engine_inv_channels) (simp_all add: engine_inv_def on_opened_ok_def assoc_update_keys del: map_of_assoc_update)
  from inv ok on_close_inv [OF inv, of chan] show ?thesis
    by (cases "on_close chan (eg_channels g)") (auto simp: Opened on_channel_def split: option.splits)
next
  case (Data chan len)
  assume inv: "engine_inv g"
  have "engine_inv (g\<lparr>eg_channels := fst (on_data chan len (eg_channels g))\<rparr>)"
    using inv on_data_keys on_data_table by (intro engine_inv_channels) (auto simp: engine_inv_def)
  then show ?thesis by (simp add: Data on_channel_def)
next
  case (Close chan)
  assume "engine_inv g"
  then show ?thesis using on_close_inv by (simp add: Close on_channel_def)
next
  case (WindowUpdate chan n)
  assume inv: "engine_inv g"
  have "engine_inv (g\<lparr>eg_channels := on_update chan n (eg_channels g)\<rparr>)"
    using inv on_update_table by (intro engine_inv_channels) (simp_all add: engine_inv_def on_update_def assoc_update_keys del: map_of_assoc_update)
  then show ?thesis by (simp add: WindowUpdate on_channel_def)
qed

lemma on_message_inv: "engine_inv g \<Longrightarrow> engine_inv (on_message auth bound msg g)"
proof (cases msg)
  case (Listen lid port)
  assume inv: "engine_inv g"
  have "length (lid # filter (\<lambda>i. i \<noteq> lid) (eg_listeners g)) \<le> MAX_LISTENERS" if "length (eg_listeners g) < MAX_LISTENERS"
    using le_less_trans [OF length_filter_le that] by (simp add: Suc_le_eq)
  with inv show ?thesis
    by (auto simp: Listen on_message_def on_listen_def engine_inv_def not_le split: result.splits)
next
  case (Unlisten lid)
  assume inv: "engine_inv g"
  have "length (filter (\<lambda>i. i \<noteq> lid) (eg_listeners g)) \<le> MAX_LISTENERS"
    using inv le_trans [OF length_filter_le [of "\<lambda>i. i \<noteq> lid" "eg_listeners g"]] by (simp add: engine_inv_def)
  then have "engine_inv (g\<lparr>eg_listeners := filter (\<lambda>i. i \<noteq> lid) (eg_listeners g),
      eg_listener_channels := assoc_remove lid (eg_listener_channels g)\<rparr>)" using inv by (simp add: engine_inv_def)
  from close_channels_inv [OF this] inv show ?thesis by (simp add: Unlisten on_message_def unlisten_def Let_def)
qed (auto simp: on_message_def on_channel_inv)

lemma open_outgoing_Some:
  assumes "engine_inv g" "\<not> closed" "length (eg_channels g) < MAX_CHANNELS"
  shows "\<exists>c g'. open_outgoing closed host port g = Some (Ok (c, Open c host port CHANNEL_WINDOW), g')
    \<and> engine_inv g' \<and> own_id (eg_side g) c \<and> map_of (eg_channels g) c = None"
proof -
  from engine_free_id_returns [OF _ assms(3), of "eg_side g" "eg_next_id g"] assms(1) obtain c where
    c: "engine_free_id (eg_side g) (eg_channels g) (eg_next_id g) = Some c" "own_id (eg_side g) c"
      "map_of (eg_channels g) c = None"
    by (auto simp: engine_inv_def)
  have "engine_inv (g\<lparr>eg_next_id := bump (eg_side g) c\<rparr>)" using assms(1) own_id_bump [OF c(2)] by (simp add: engine_inv_def)
  from engine_inv_add [OF this, of c] c(2) assms(3)
  have "engine_inv (g\<lparr>eg_next_id := bump (eg_side g) c, eg_channels := assoc_insert c e (eg_channels g)\<rparr>)" for e by simp
  with c assms(2,3) show ?thesis by (auto simp: open_outgoing_def)
qed

section \<open>Properties\<close>

definition engine_new :: "Side \<Rightarrow> Engine" where
  "engine_new s = \<lparr>eg_side = s, eg_channels = [], eg_next_id = first_id s, eg_listeners = [],
     eg_listener_channels = [], eg_teardown = False\<rparr>"

text \<open>The events of an engine: a message of the peer, a channel opened from here, a channel that a listener opened put on its
  account, the end of a channel's task, channels closed from here, the end of the session.\<close>

datatype EngineOp =
    Peer "(unit, string) result" "(int, string) result" ForwardMsg
  | OpenOut bool string int
  | ListenerOpened int int
  | TaskEnd int
  | CloseChannels "int list"
  | CloseAll

definition task_end :: "int \<Rightarrow> Engine \<Rightarrow> Engine" where
  "task_end chan g = g\<lparr>eg_channels := assoc_remove chan (eg_channels g)\<rparr>"

fun engine_step :: "EngineOp \<Rightarrow> Engine \<Rightarrow> Engine" where
  "engine_step (Peer authorized bound msg) g = on_message authorized bound msg g"
| "engine_step (OpenOut closed host port) g = (case open_outgoing closed host port g of Some (_, g') \<Rightarrow> g' | None \<Rightarrow> g)"
| "engine_step (ListenerOpened lid chan) g = listener_opened lid chan g"
| "engine_step (TaskEnd chan) g = task_end chan g"
| "engine_step (CloseChannels chans) g = snd (close_channels chans g)"
| "engine_step CloseAll g = engine_close_all g"

lemma open_outgoing_inv: "engine_inv g \<Longrightarrow> open_outgoing closed host port g = Some (r, g') \<Longrightarrow> engine_inv g'"
  using open_outgoing_Some [of g closed host port] by (auto simp: open_outgoing_def not_le split: if_splits)

lemma engine_step_inv: "engine_inv g \<Longrightarrow> engine_inv (engine_step op g)"
proof (cases op)
  case (OpenOut closed host port)
  assume "engine_inv g"
  with open_outgoing_inv show ?thesis by (auto simp: OpenOut split: option.split)
next
  case (TaskEnd chan)
  assume inv: "engine_inv g"
  have "length (assoc_remove chan (eg_channels g)) \<le> length (eg_channels g)" by (simp add: assoc_remove_def)
  then have "table_ok (assoc_remove chan (eg_channels g))" using inv by (auto simp: engine_inv_def table_ok_def)
  moreover have "dom (map_of (assoc_remove chan (eg_channels g))) \<subseteq> dom (map_of (eg_channels g))" by (auto split: if_splits)
  ultimately show ?thesis using engine_inv_channels [OF inv] by (simp add: TaskEnd task_end_def)
next
  case (ListenerOpened lid chan)
  assume "engine_inv g"
  then show ?thesis by (simp add: ListenerOpened listener_opened_def Let_def engine_inv_def)
next
  case CloseAll
  assume "engine_inv g"
  then show ?thesis by (simp add: CloseAll engine_close_all_def engine_inv_def table_ok_def ids_ok_def)
qed (simp_all add: on_message_inv close_channels_inv)

interpretation engine: guarded_machine engine_step engine_inv "\<lambda>_. True"
  by unfold_locales (rule engine_step_inv)

lemma engine_new_inv: "engine_inv (engine_new s)"
  using own_id_first [of s] by (simp add: engine_inv_def engine_new_def table_ok_def ids_ok_def)

text \<open>Between two channels opened from here the place where the search begins stays.\<close>

definition opens :: "EngineOp \<Rightarrow> bool" where
  "opens op = (case op of OpenOut _ _ _ \<Rightarrow> True | _ \<Rightarrow> False)"

lemma close_channels_next: "eg_next_id (snd (close_channels chans g)) = eg_next_id g \<and> eg_side (snd (close_channels chans g)) = eg_side g"
  by (induction chans g rule: close_channels.induct) (auto split: prod.splits option.splits)

lemma on_message_next: "eg_next_id (on_message a b msg g) = eg_next_id g \<and> eg_side (on_message a b msg g) = eg_side g"
  by (cases msg)
    (auto simp: on_message_def on_channel_def engine_on_open_def on_listen_def unlisten_def Let_def close_channels_next split_beta
      split: Frame.split result.split option.split)

lemma engine_step_next: "\<not> opens op \<Longrightarrow> eg_next_id (engine_step op g) = eg_next_id g \<and> eg_side (engine_step op g) = eg_side g"
  by (cases op) (simp_all add: opens_def on_message_next close_channels_next listener_opened_def task_end_def engine_close_all_def Let_def)

lemma engine_steps_next:
  "list_all (\<lambda>op. \<not> opens op) ops \<Longrightarrow> eg_next_id (fold engine_step ops g) = eg_next_id g \<and> eg_side (fold engine_step ops g) = eg_side g"
  by (induction ops arbitrary: g) (simp_all add: engine_step_next)

text \<open>The search takes fewer steps than there may be channels, so it does not come back to where the last one ended.\<close>

lemma engine_free_id_first:
  "map_of channels ((bump s ^^ k) chan) = None \<Longrightarrow> \<exists>i\<le>k. engine_free_id s channels chan = Some ((bump s ^^ i) chan)"
proof (induction k arbitrary: chan)
  case 0
  then show ?case by (subst engine_free_id.simps) simp
next
  case (Suc k)
  show ?case
  proof (cases "map_of channels chan = None")
    case True
    then show ?thesis by (subst engine_free_id.simps) (auto intro: exI [of _ 0])
  next
    case False
    have "map_of channels ((bump s ^^ k) (bump s chan)) = None" using Suc.prems by (simp only: funpow_Suc_right o_apply)
    from Suc.IH [OF this] obtain i where i: "i \<le> k" "engine_free_id s channels (bump s chan) = Some ((bump s ^^ i) (bump s chan))" by blast
    have "(bump s ^^ i) (bump s chan) = (bump s ^^ Suc i) chan" by (simp only: funpow_Suc_right o_apply)
    with False i show ?thesis by (subst engine_free_id.simps) (auto intro: exI [of _ "Suc i"])
  qed
qed

lemma engine_free_id_moves:
  assumes "own_id s c" "length channels < MAX_CHANNELS"
  shows "engine_free_id s channels (bump s c) \<noteq> Some c"
proof
  assume e: "engine_free_id s channels (bump s c) = Some c"
  have o: "own_id s (bump s c)" using own_id_bump [OF assms(1)] .
  have "inj_on (\<lambda>i. (bump s ^^ i) (bump s c)) {..<MAX_CHANNELS}"
    by (rule inj_onI) (auto simp: MAX_CHANNELS_def dest!: iter_inj [OF o])
  from pigeon_free [OF this assms(2)] obtain k where "k < MAX_CHANNELS" "map_of channels ((bump s ^^ k) (bump s c)) = None" by auto
  from engine_free_id_first [OF this(2)] this(1) e obtain i where i: "i < MAX_CHANNELS" "(bump s ^^ i) (bump s c) = c"
    by (metis le_less_trans option.inject)
  have "(bump s ^^ Suc i) c = (bump s ^^ 0) c" using i(2) by (simp only: funpow_Suc_right o_apply funpow_0)
  from iter_inj [OF assms(1) this] i(1) show False by (simp add: MAX_CHANNELS_def)
qed

lemma next_open_differs:
  assumes "open_outgoing closed host port g = Some (Ok (c, f), g')" "engine_inv g" "list_all (\<lambda>op. \<not> opens op) ops"
    "open_outgoing closed2 host2 port2 (fold engine_step ops g') = Some (Ok (c2, f2), g2)"
  shows "c2 \<noteq> c"
proof -
  let ?h = "fold engine_step ops g'"
  from assms(1) have c: "engine_free_id (eg_side g) (eg_channels g) (eg_next_id g) = Some c" "length (eg_channels g) < MAX_CHANNELS"
      "eg_next_id g' = bump (eg_side g) c" "eg_side g' = eg_side g"
    by (auto simp: open_outgoing_def split: if_splits)
  have "own_id (eg_side g) c" using engine_free_id_returns [OF _ c(2), of "eg_side g" "eg_next_id g"] c(1) assms(2) by (auto simp: engine_inv_def)
  moreover have "eg_next_id ?h = bump (eg_side g) c" "eg_side ?h = eg_side g"
    using engine_steps_next [OF assms(3), of g'] c(3,4) by auto
  moreover from assms(4) have "engine_free_id (eg_side ?h) (eg_channels ?h) (eg_next_id ?h) = Some c2" "length (eg_channels ?h) < MAX_CHANNELS"
    by (auto simp: open_outgoing_def split: if_splits)
  ultimately show ?thesis using engine_free_id_moves by metis
qed

text \<open>C27: after any history of an engine, channels opened and closed by either side included, opening a channel towards the
  peer returns. It fails only when the session is gone or 256 channels are live; otherwise the channel gets an identifier
  of this side's parity that no live channel has, which the peer accepts and which no \<open>open\<close> of the peer can
  take. The next channel opened gets another identifier, even when the first one has been closed in between, so the
  end of the first one's task does not remove it. The tables keep their limits.\<close>

theorem engine_opens_own_ids:
  "let g = fold engine_step ops (engine_new s) in
    length (eg_channels g) \<le> 256 \<and> length (eg_listeners g) \<le> 32
    \<and> (open_outgoing closed host port g = Some (Err SessionGone, g) \<and> closed
       \<or> open_outgoing closed host port g = Some (Err TooManyForwards, g) \<and> length (eg_channels g) = 256
       \<or> (\<exists>c g'. open_outgoing closed host port g = Some (Ok (c, Open c host port 262144), g')
            \<and> map_of (eg_channels g) c = None \<and> peer_owns (other (eg_side g)) c \<and> \<not> peer_owns (eg_side g) c
            \<and> c \<le> 2147483647 \<and> engine_on_open c window g' = (None, False, g')
            \<and> (case open_outgoing closed2 host2 port2 (fold engine_step (filter (\<lambda>op. \<not> opens op) ops2) g') of
                 Some (Ok (c2, _), _) \<Rightarrow> c2 \<noteq> c | _ \<Rightarrow> True)))"
proof -
  define g where "g = fold engine_step ops (engine_new s)"
  have inv: "engine_inv g" unfolding g_def
    using engine.run_inv [OF engine_new_inv] by simp
  then have l: "length (eg_channels g) \<le> MAX_CHANNELS" "length (eg_listeners g) \<le> MAX_LISTENERS"
    by (simp_all add: engine_inv_def table_ok_def)
  consider "closed" | "\<not> closed" "length (eg_channels g) = MAX_CHANNELS" | "\<not> closed" "length (eg_channels g) < MAX_CHANNELS"
    using l(1) by linarith
  then show ?thesis unfolding Let_def g_def [symmetric]
  proof cases
    case 3
    from open_outgoing_Some [OF inv 3, of host port] obtain c g' where
      c: "open_outgoing closed host port g = Some (Ok (c, Open c host port CHANNEL_WINDOW), g')" "own_id (eg_side g) c"
        "map_of (eg_channels g) c = None" by blast
    have s: "eg_side g' = eg_side g" using c(1) by (auto simp: open_outgoing_def split: if_splits)
    have n: "case open_outgoing closed2 host2 port2 (fold engine_step (filter (\<lambda>op. \<not> opens op) ops2) g') of
        Some (Ok (c2, _), _) \<Rightarrow> c2 \<noteq> c | _ \<Rightarrow> True"
      using next_open_differs [OF c(1) inv, of "filter (\<lambda>op. \<not> opens op) ops2" closed2 host2 port2]
      by (cases "open_outgoing closed2 host2 port2 (fold engine_step (filter (\<lambda>op. \<not> opens op) ops2) g')")
        (fastforce simp: list_all_iff split: result.split prod.split)+
    have p: "peer_owns (other (eg_side g)) c" "\<not> peer_owns (eg_side g) c" "c \<le> 2147483647"
      using c(2) own_not_peer [OF c(2)] by (auto simp: own_id_def i32_max_def)
    have e: "engine_on_open c window g' = (None, False, g')" using p(2) s by (simp add: engine_on_open_def)
    have "open_outgoing closed host port g = Some (Ok (c, Open c host port 262144), g')" using c(1) by (simp add: window_consts)
    with c(3) n p e l show "length (eg_channels g) \<le> 256 \<and> length (eg_listeners g) \<le> 32
    \<and> (open_outgoing closed host port g = Some (Err SessionGone, g) \<and> closed
       \<or> open_outgoing closed host port g = Some (Err TooManyForwards, g) \<and> length (eg_channels g) = 256
       \<or> (\<exists>c g'. open_outgoing closed host port g = Some (Ok (c, Open c host port 262144), g')
            \<and> map_of (eg_channels g) c = None \<and> peer_owns (other (eg_side g)) c \<and> \<not> peer_owns (eg_side g) c
            \<and> c \<le> 2147483647 \<and> engine_on_open c window g' = (None, False, g')
            \<and> (case open_outgoing closed2 host2 port2 (fold engine_step (filter (\<lambda>op. \<not> opens op) ops2) g') of
                 Some (Ok (c2, _), _) \<Rightarrow> c2 \<noteq> c | _ \<Rightarrow> True)))"
      by (intro conjI disjI2 exI [of _ c] exI [of _ g']) (assumption | simp add: MAX_CHANNELS_def MAX_LISTENERS_def)+
  qed (use l in \<open>simp_all add: open_outgoing_def MAX_CHANNELS_def MAX_LISTENERS_def\<close>)
qed

end
