(* ===== verification/Login_Guard.thy ===== *)
theory Login_Guard
  imports Id_Permissions Forward_Policy Json_Value
begin

text \<open>
  What a host does against floods and guessing before a connection is authorised:
  \<^verbatim>\<open>src/src/server/login_failure_check.rs\<close> (the backoff of logins with credentials of the
  operating system) and the parts of \<^verbatim>\<open>src/src/server/connection.rs\<close> that admit unauthorised
  connections, count failures per address and IPv6 prefix, and check the ID whitelist. Clock readings
  are arguments; messages and alarms sent to the peer are part of the results.
\<close>

section \<open>Model: backoff of operating-system logins\<close>

definition OS_CREDENTIAL_LOGIN_TOTAL_IDLE_RESET_MS :: int where
  "OS_CREDENTIAL_LOGIN_TOTAL_IDLE_RESET_MS = 120 * 60 * 1000"
definition OS_CREDENTIAL_LOGIN_BACKOFF_BASE_SECONDS :: int where
  "OS_CREDENTIAL_LOGIN_BACKOFF_BASE_SECONDS = 15"
definition OS_CREDENTIAL_LOGIN_BACKOFF_MAX_SECONDS :: int where
  "OS_CREDENTIAL_LOGIN_BACKOFF_MAX_SECONDS = 30 * 60"

datatype FailureScope = DefaultScope | TerminalOsLogin

datatype AlarmAuditType = IpWhitelist | ExceedThirtyAttempts | SixAttemptsWithinOneMinute
  | ExceedIPv6PrefixAttempts | TerminalOsLoginBackoff | TerminalOsLoginConcurrency
  | SessionScopeViolation | IdWhitelist | PostureRejected | PasswordWrong | TwoFactorWrong

record OsCredentialPolicyDecision =
  od_allowed :: bool
  od_login_error :: "string option"
  od_audit :: "AlarmAuditType option"

record OsCredentialFailureState =
  os_total_failures :: int
  os_backoff_until_ms :: "int option"
  os_last_failure_ms :: "int option"

definition os_default :: OsCredentialFailureState where
  "os_default = \<lparr>os_total_failures = 0, os_backoff_until_ms = None, os_last_failure_ms = None\<rparr>"

definition is_os_credential_scope :: "FailureScope \<Rightarrow> bool" where
  "is_os_credential_scope scope = (case scope of TerminalOsLogin \<Rightarrow> True | DefaultScope \<Rightarrow> False)"

definition backoff_audit_type_for_scope :: "FailureScope \<Rightarrow> AlarmAuditType option" where
  "backoff_audit_type_for_scope scope =
     (case scope of TerminalOsLogin \<Rightarrow> Some TerminalOsLoginBackoff | DefaultScope \<Rightarrow> None)"

definition os_credential_login_backoff_seconds :: "int \<Rightarrow> int" where
  "os_credential_login_backoff_seconds total_failures =
     (if total_failures \<le> 2 then 0
      else
        let e = min (total_failures - 3) 7;
            seconds = OS_CREDENTIAL_LOGIN_BACKOFF_BASE_SECONDS * 2 ^ nat e
        in min seconds OS_CREDENTIAL_LOGIN_BACKOFF_MAX_SECONDS)"

definition normalize_backoff :: "int \<Rightarrow> OsCredentialFailureState \<Rightarrow> OsCredentialFailureState" where
  "normalize_backoff now_ms st =
     (case os_backoff_until_ms st of
        Some until_ms \<Rightarrow> if until_ms \<le> now_ms then st\<lparr>os_backoff_until_ms := None\<rparr> else st
      | None \<Rightarrow> st)"

definition reset_totals_on_idle :: "int \<Rightarrow> OsCredentialFailureState \<Rightarrow> OsCredentialFailureState" where
  "reset_totals_on_idle now_ms st =
     (case os_last_failure_ms st of
        Some last_ms \<Rightarrow>
          if sat_i64 (now_ms - last_ms) \<ge> OS_CREDENTIAL_LOGIN_TOTAL_IDLE_RESET_MS then os_default else st
      | None \<Rightarrow> st)"

definition allow_decision :: OsCredentialPolicyDecision where
  "allow_decision = \<lparr>od_allowed = True, od_login_error = None, od_audit = None\<rparr>"

definition block_decision :: "string \<Rightarrow> AlarmAuditType option \<Rightarrow> OsCredentialPolicyDecision" where
  "block_decision login_error alarm_type =
     \<lparr>od_allowed = False, od_login_error = Some login_error, od_audit = alarm_type\<rparr>"

definition evaluate_os_credential_policy ::
    "FailureScope \<Rightarrow> int \<Rightarrow> OsCredentialFailureState \<Rightarrow> OsCredentialPolicyDecision \<times> OsCredentialFailureState" where
  "evaluate_os_credential_policy scope now_ms st =
     (if \<not> is_os_credential_scope scope then (allow_decision, st)
      else
        let st = normalize_backoff now_ms (reset_totals_on_idle now_ms st) in
        case os_backoff_until_ms st of
          None \<Rightarrow> (allow_decision, st)
        | Some until_ms \<Rightarrow>
            let remaining_ms = max (until_ms - now_ms) 0;
                remaining_seconds = max ((remaining_ms + 999) div 1000) 1;
                seconds_label = (if remaining_seconds = 1 then ''second'' else ''seconds'')
            in (block_decision
                  (''Please try again in '' @ show_int remaining_seconds @ '' '' @ seconds_label @ ''.'')
                  (backoff_audit_type_for_scope scope), st))"

definition record_os_credential_failure ::
    "FailureScope \<Rightarrow> int \<Rightarrow> OsCredentialFailureState \<Rightarrow> OsCredentialFailureState" where
  "record_os_credential_failure scope now_ms st =
     (if \<not> is_os_credential_scope scope then st
      else
        let st = normalize_backoff now_ms (reset_totals_on_idle now_ms st);
            st = st\<lparr>os_total_failures := min (os_total_failures st + 1) i32_max, os_last_failure_ms := Some now_ms\<rparr>;
            backoff_seconds = os_credential_login_backoff_seconds (os_total_failures st)
        in if backoff_seconds > 0 then st\<lparr>os_backoff_until_ms := Some (now_ms + backoff_seconds * 1000)\<rparr>
           else st)"

section \<open>Model: admission of unauthorised connections\<close>

definition MAX_UNAUTHORIZED_CONNS :: nat where "MAX_UNAUTHORIZED_CONNS = 64"
definition MAX_UNAUTHORIZED_CONNS_PER_ADDR :: nat where "MAX_UNAUTHORIZED_CONNS_PER_ADDR = 16"

text \<open>An entry of \<open>UNAUTHORIZED_CONNS\<close>, oldest first; the flag is shared with the guard of the
  connection, which watches it.\<close>

record UnauthorizedConn =
  uc_id :: int
  uc_ip :: IpAddr
  uc_evicted :: bool

definition admit_unauthorized :: "int \<Rightarrow> IpAddr \<Rightarrow> UnauthorizedConn list \<Rightarrow> bool \<times> UnauthorizedConn list" where
  "admit_unauthorized i ip conns =
     (if length (filter (\<lambda>u. uc_ip u = ip) conns) \<ge> MAX_UNAUTHORIZED_CONNS_PER_ADDR then (False, conns)
      else if length conns \<ge> MAX_UNAUTHORIZED_CONNS then
        (False, case conns of [] \<Rightarrow> [] | oldest # rest \<Rightarrow> oldest\<lparr>uc_evicted := True\<rparr> # rest)
      else (True, conns @ [\<lparr>uc_id = i, uc_ip = ip, uc_evicted = False\<rparr>]))"

definition drop_unauthorized :: "int \<Rightarrow> UnauthorizedConn list \<Rightarrow> UnauthorizedConn list" where
  "drop_unauthorized i conns = filter (\<lambda>u. uc_id u \<noteq> i) conns"

section \<open>Model: failures per address\<close>

text \<open>\<open>Ipv6Addr::from_str\<close> and the \<open>Display\<close> of an \<open>Ipv6Addr\<close>: the first longest run of at
  least two zero groups is written \<open>::\<close>.\<close>

definition parse_ipv6 :: "string \<Rightarrow> 128 word option" where
  "parse_ipv6 s =
     (case read_ipv6 s of
        Some (gs, []) \<Rightarrow> Some (word_of_int (foldl (\<lambda>a g. a * 65536 + g) 0 gs))
      | _ \<Rightarrow> None)"

definition ipv6_segments :: "128 word \<Rightarrow> nat list" where
  "ipv6_segments a = map (\<lambda>i. unat (drop_bit (112 - 16 * i) a AND 0xFFFF)) [0..<8]"

definition hex_char :: "nat \<Rightarrow> char" where
  "hex_char d = char_of (if d < 10 then 48 + d else 87 + d)"

fun show_hex :: "nat \<Rightarrow> string" where
  "show_hex n = (if n < 16 then [hex_char n] else show_hex (n div 16) @ [hex_char (n mod 16)])"

declare show_hex.simps [simp del]

text \<open>The longest span of zeros so far and the current one, each as start and length.\<close>

fun zero_span :: "nat \<Rightarrow> nat \<times> nat \<Rightarrow> nat \<times> nat \<Rightarrow> nat list \<Rightarrow> nat \<times> nat" where
  "zero_span i longest cur [] = longest"
| "zero_span i longest cur (s # ss) =
     (if s = 0 then
        let cur = ((if snd cur = 0 then i else fst cur), snd cur + 1)
        in zero_span (i + 1) (if snd cur > snd longest then cur else longest) cur ss
      else zero_span (i + 1) longest (0, 0) ss)"

definition show_segments :: "nat list \<Rightarrow> string" where
  "show_segments ss = join '':'' (map show_hex ss)"

definition show_ipv6 :: "128 word \<Rightarrow> string" where
  "show_ipv6 a =
     (let ss = ipv6_segments a in
      if take 6 ss = [0, 0, 0, 0, 0, 65535] then
        ''::ffff:'' @ join ''.'' (map (\<lambda>i. show_nat (unat (drop_bit (24 - 8 * i) a AND 0xFF))) [0..<4])
      else
        (case zero_span 0 (0, 0) (0, 0) ss of (start, len) \<Rightarrow>
           if len > 1 then show_segments (take start ss) @ ''::'' @ show_segments (drop (start + len) ss)
           else show_segments ss))"

definition mask_u128 :: "128 word \<Rightarrow> nat \<Rightarrow> 128 word" where
  "mask_u128 addr prefix =
     (let m = (if prefix = 0 \<or> prefix > 128 then 0 else push_bit (128 - prefix) (- 1)) in addr AND m)"

text \<open>The connection's fields that the checks read: the address as text and the ID that the peer
  reports.\<close>

record Conn =
  cn_ip :: string
  cn_my_id :: string

definition get_ipv6_prefixes :: "Conn \<Rightarrow> (string \<times> string \<times> string) option" where
  "get_ipv6_prefixes conn =
     (let ip_only = trim (hd (split_on (\<lambda>c. c = CHR ''%'') (cn_ip conn))) in
      case parse_ipv6 ip_only of
        None \<Rightarrow> None
      | Some a \<Rightarrow>
          Some (show_ipv6 (mask_u128 a 64) @ ''/64'', show_ipv6 (mask_u128 a 56) @ ''/56'',
                show_ipv6 (mask_u128 a 48) @ ''/48''))"

text \<open>Minute of the last failure, failures in that minute, failures in all; one map each for
  passwords, 2FA and the ID whitelist.\<close>

type_synonym Failure = "int \<times> int \<times> int"
type_synonym FailureMap = "(string \<times> Failure) list"

definition FAILURE_IDX_ID_WHITELIST :: nat where "FAILURE_IDX_ID_WHITELIST = 2"
definition ID_WHITELIST_FAILURE_DECAY_MINUTES :: int where "ID_WHITELIST_FAILURE_DECAY_MINUTES = 10"

record LoginFailures =
  lf_maps :: "FailureMap list"
  lf_os :: OsCredentialFailureState

definition failure_of :: "FailureMap \<Rightarrow> string \<Rightarrow> Failure" where
  "failure_of m k = (case map_of m k of Some v \<Rightarrow> v | None \<Rightarrow> (0, 0, 0))"

definition bump_failure_entry :: "Failure \<Rightarrow> int \<Rightarrow> Failure" where
  "bump_failure_entry cur time =
     (case cur of (t, in_minute, all) \<Rightarrow>
        if t = time then (t, wrap_i32 (in_minute + 1), wrap_i32 (all + 1))
        else (time, 1, wrap_i32 (all + 1)))"

definition bump_key :: "int \<Rightarrow> string \<Rightarrow> FailureMap \<Rightarrow> FailureMap" where
  "bump_key time k m = assoc_insert k (bump_failure_entry (failure_of m k) time) m"

text \<open>The time in minutes, \<open>(get_time() / 60_000) as i32\<close>.\<close>

definition minute_of :: "int \<Rightarrow> int" where
  "minute_of ms = wrap_i32 (if ms < 0 then - ((- ms) div 60000) else ms div 60000)"

definition update_map :: "Conn \<Rightarrow> Failure \<times> int \<Rightarrow> bool \<Rightarrow> FailureMap \<Rightarrow> FailureMap" where
  "update_map conn ft remove m =
     (if remove then
        (if fst (fst ft) \<noteq> 0 then
           (case get_ipv6_prefixes conn of
              Some (p64, p56, p48) \<Rightarrow>
                assoc_remove (cn_ip conn) (assoc_remove p48 (assoc_remove p56 (assoc_remove p64 m)))
            | None \<Rightarrow> assoc_remove (cn_ip conn) m)
         else m)
      else
        (case get_ipv6_prefixes conn of
           Some (p64, p56, p48) \<Rightarrow>
             bump_key (snd ft) (cn_ip conn) (fold (bump_key (snd ft)) [p64, p56, p48] m)
         | None \<Rightarrow> bump_key (snd ft) (cn_ip conn) m))"

definition update_failure_with_scope ::
    "Conn \<Rightarrow> Failure \<times> int \<Rightarrow> bool \<Rightarrow> nat \<Rightarrow> FailureScope \<Rightarrow> int \<Rightarrow> LoginFailures \<Rightarrow> LoginFailures" where
  "update_failure_with_scope conn ft remove i scope now_ms L =
     (if scope = TerminalOsLogin then
        (if \<not> remove then L\<lparr>lf_os := record_os_credential_failure scope now_ms (lf_os L)\<rparr> else L)
      else L\<lparr>lf_maps := (lf_maps L)[i := update_map conn ft remove (lf_maps L ! i)]\<rparr>)"

text \<open>What the peer is told and the alarm posted when an attempt is refused.\<close>

type_synonym Refusal = "string \<times> AlarmAuditType option"

definition check_failure_ipv6_prefix ::
    "FailureMap \<Rightarrow> int \<Rightarrow> string \<Rightarrow> nat \<Rightarrow> int \<Rightarrow> ((Failure \<times> int) \<times> Refusal option) option" where
  "check_failure_ipv6_prefix m time prefix prefix_num thresh =
     (case failure_of m prefix of (t, in_minute, all) \<Rightarrow>
        if all > thresh then
          Some (((t, in_minute, all), time),
            Some (''Too many wrong attempts for IPv6 prefix /'' @ show_nat prefix_num, Some ExceedIPv6PrefixAttempts))
        else None)"

text \<open>The whole check on one map; the second component is the refusal, \<open>None\<close> when the attempt may
  go on.\<close>

definition check_address :: "Conn \<Rightarrow> int \<Rightarrow> FailureMap \<Rightarrow> (Failure \<times> int) \<times> Refusal option" where
  "check_address conn time m =
     (case failure_of m (cn_ip conn) of (t, in_minute, all) \<Rightarrow>
        (((t, in_minute, all), time),
         if all > 30 then Some (''Too many wrong attempts'', Some ExceedThirtyAttempts)
         else if time = t \<and> in_minute > 6 then
           Some (''Please try 1 minute later'', Some SixAttemptsWithinOneMinute)
         else None))"

definition check_map :: "Conn \<Rightarrow> int \<Rightarrow> FailureMap \<Rightarrow> (Failure \<times> int) \<times> Refusal option" where
  "check_map conn time m =
     (case get_ipv6_prefixes conn of
        None \<Rightarrow> check_address conn time m
      | Some (p64, p56, p48) \<Rightarrow>
          (case check_failure_ipv6_prefix m time p64 64 60 of Some res \<Rightarrow> res
           | None \<Rightarrow>
               (case check_failure_ipv6_prefix m time p56 56 80 of Some res \<Rightarrow> res
                | None \<Rightarrow>
                    (case check_failure_ipv6_prefix m time p48 48 100 of Some res \<Rightarrow> res
                     | None \<Rightarrow> check_address conn time m))))"

definition check_failure_with_scope ::
    "Conn \<Rightarrow> nat \<Rightarrow> FailureScope \<Rightarrow> int \<Rightarrow> LoginFailures \<Rightarrow> ((Failure \<times> int) \<times> Refusal option) \<times> LoginFailures" where
  "check_failure_with_scope conn i scope now_ms L =
     (let time = minute_of now_ms in
      if scope = TerminalOsLogin then
        (case evaluate_os_credential_policy scope now_ms (lf_os L) of (d, os) \<Rightarrow>
           ((((0, 0, 0), time),
             if od_allowed d then None
             else Some (case od_login_error d of Some e \<Rightarrow> e | None \<Rightarrow> [], od_audit d)),
            L\<lparr>lf_os := os\<rparr>))
      else (check_map conn time (lf_maps L ! i), L))"

section \<open>Model: ID whitelist\<close>

definition failure_keys :: "Conn \<Rightarrow> string list" where
  "failure_keys conn =
     cn_ip conn # (case get_ipv6_prefixes conn of Some (p64, p56, p48) \<Rightarrow> [p64, p56, p48] | None \<Rightarrow> [])"

definition sat_i32 :: "int \<Rightarrow> int" where
  "sat_i32 n = max (- 2147483648) (min i32_max n)"

definition decay_stale_failures :: "string list \<Rightarrow> int \<Rightarrow> int \<Rightarrow> FailureMap \<Rightarrow> FailureMap" where
  "decay_stale_failures ks now window m =
     fold (\<lambda>k m. case map_of m k of
         Some v \<Rightarrow> if sat_i32 (now - fst v) \<ge> window then assoc_remove k m else m
       | None \<Rightarrow> m) ks m"

definition clear_failures :: "string list \<Rightarrow> FailureMap \<Rightarrow> FailureMap" where
  "clear_failures ks m = fold assoc_remove ks m"

text \<open>\<open>wildcard_match\<close> of \<^verbatim>\<open>connection.rs\<close>: its two loops are those of \<open>id_permissions.rs\<close>.\<close>

definition conn_wildcard_match :: "string \<Rightarrow> string \<Rightarrow> bool option" where
  "conn_wildcard_match pattern txt =
     (let p = to_lowercase (trim pattern); t = to_lowercase (trim txt)
      in case wildcard_loop p t 0 0 None of
           None \<Rightarrow> None
         | Some None \<Rightarrow> Some False
         | Some (Some pi) \<Rightarrow> Some (skip_stars p pi = length p))"

definition id_whitelist_allows :: "string list \<Rightarrow> string \<Rightarrow> bool" where
  "id_whitelist_allows id_whitelist my_id =
     (if id_whitelist = [] then True
      else
        let bare_id = hd (split_on (\<lambda>c. c = CHR ''@'') my_id)
        in list_ex (\<lambda>x. conn_wildcard_match x my_id = Some True \<or> conn_wildcard_match x bare_id = Some True) id_whitelist)"

definition whitelist_entries :: "string \<Rightarrow> string list" where
  "whitelist_entries opt = filter (\<lambda>x. x \<noteq> []) (map trim (split_on (\<lambda>c. c = CHR '','') opt))"

text \<open>The two clock readings, of the decay and of the check, are arguments.\<close>

definition check_id_whitelist ::
    "string \<Rightarrow> Conn \<Rightarrow> int \<Rightarrow> int \<Rightarrow> LoginFailures \<Rightarrow> Refusal option \<times> LoginFailures" where
  "check_id_whitelist opt conn decay_ms check_ms L =
     (let id_whitelist = whitelist_entries opt in
      if id_whitelist = [] then (None, L)
      else
        let L = L\<lparr>lf_maps := (lf_maps L)[FAILURE_IDX_ID_WHITELIST :=
                  decay_stale_failures (failure_keys conn) (minute_of decay_ms)
                    ID_WHITELIST_FAILURE_DECAY_MINUTES (lf_maps L ! FAILURE_IDX_ID_WHITELIST)]\<rparr>
        in case check_failure_with_scope conn FAILURE_IDX_ID_WHITELIST DefaultScope check_ms L of
             ((_, Some refusal), L) \<Rightarrow> (Some refusal, L)
           | ((failure, None), L) \<Rightarrow>
               if id_whitelist_allows id_whitelist (cn_my_id conn) then (None, L)
               else (Some (''Your ID is blocked by the peer'', Some IdWhitelist),
                     update_failure_with_scope conn failure False FAILURE_IDX_ID_WHITELIST DefaultScope check_ms L))"

definition clear_id_whitelist_failures :: "Conn \<Rightarrow> LoginFailures \<Rightarrow> LoginFailures" where
  "clear_id_whitelist_failures conn L =
     L\<lparr>lf_maps := (lf_maps L)[FAILURE_IDX_ID_WHITELIST :=
         clear_failures (failure_keys conn) (lf_maps L ! FAILURE_IDX_ID_WHITELIST)]\<rparr>"

section \<open>Backoff\<close>

lemma backoff_values:
  "os_credential_login_backoff_seconds n =
     (if n \<le> 2 then 0 else if n = 3 then 15 else if n = 4 then 30 else if n = 5 then 60 else if n = 6 then 120
      else if n = 7 then 240 else if n = 8 then 480 else if n = 9 then 960 else 1800)"
proof (cases "n \<le> 2 \<or> 10 \<le> n")
  case True
  then show ?thesis
    by (auto simp: os_credential_login_backoff_seconds_def OS_CREDENTIAL_LOGIN_BACKOFF_BASE_SECONDS_def
        OS_CREDENTIAL_LOGIN_BACKOFF_MAX_SECONDS_def)
next
  case False
  then have "n \<in> {3, 4, 5, 6, 7, 8, 9}" by auto
  then show ?thesis
    by (auto simp: os_credential_login_backoff_seconds_def OS_CREDENTIAL_LOGIN_BACKOFF_BASE_SECONDS_def
        OS_CREDENTIAL_LOGIN_BACKOFF_MAX_SECONDS_def numeral_eq_Suc)
qed

text \<open>At time \<open>now\<close> the state agrees with its last failure: a backoff still stored ends where the
  number of failures says, and one no longer stored is over.\<close>

definition os_inv :: "int \<Rightarrow> OsCredentialFailureState \<Rightarrow> bool" where
  "os_inv now st =
     (case os_last_failure_ms st of
        None \<Rightarrow> st = os_default
      | Some l \<Rightarrow>
          0 < os_total_failures st \<and> l \<le> now
          \<and> (case os_backoff_until_ms st of
               None \<Rightarrow> l + 1000 * os_credential_login_backoff_seconds (os_total_failures st) \<le> now
             | Some u \<Rightarrow> u = l + 1000 * os_credential_login_backoff_seconds (os_total_failures st)))"

text \<open>Seconds that the failures so far are ahead of one in fifteen minutes.\<close>

definition ahead :: "int \<Rightarrow> int" where
  "ahead n =
     (if n \<le> 1 then 0 else if n = 2 then 900 else if n = 3 then 1800 else if n = 4 then 2685 else if n = 5 then 3555
      else if n = 6 then 4395 else if n = 7 then 5175 else if n = 8 then 5835 else 6255)"

lemma ahead_bounds: "0 \<le> ahead n" "ahead n \<le> 6255"
  by (simp_all add: ahead_def)

lemma ahead_step: "0 < n \<Longrightarrow> 900 + ahead n \<le> os_credential_login_backoff_seconds n + ahead (min (n + 1) i32_max)"
  by (simp add: backoff_values ahead_def i32_max_def min_def)

lemma backoff_bounds: "0 \<le> os_credential_login_backoff_seconds n" "os_credential_login_backoff_seconds n \<le> 1800"
  by (simp_all add: backoff_values)

lemma idle_iff: "sat_i64 x \<ge> OS_CREDENTIAL_LOGIN_TOTAL_IDLE_RESET_MS \<longleftrightarrow> x \<ge> 7200000"
  by (auto simp: machine_int_defs OS_CREDENTIAL_LOGIN_TOTAL_IDLE_RESET_MS_def)

lemma os_inv_default [simp]: "os_inv now os_default"
  by (simp add: os_inv_def os_default_def)

lemma os_inv_refresh:
  assumes "os_inv now st" "now \<le> t"
  shows "os_inv t (normalize_backoff t (reset_totals_on_idle t st))"
  using assms unfolding os_inv_def
  by (auto simp: normalize_backoff_def reset_totals_on_idle_def os_default_def split: option.splits if_splits)

lemma os_refresh_cases:
  assumes "os_inv now st" "now \<le> t" "os_last_failure_ms st = Some l"
  defines "st' \<equiv> normalize_backoff t (reset_totals_on_idle t st)"
  shows "7200000 \<le> t - l \<and> st' = os_default
    \<or> t - l < 7200000 \<and> os_last_failure_ms st' = Some l \<and> os_total_failures st' = os_total_failures st
      \<and> (os_backoff_until_ms st' = None \<longleftrightarrow> l + 1000 * os_credential_login_backoff_seconds (os_total_failures st) \<le> t)"
  using assms by (auto simp: os_inv_def normalize_backoff_def reset_totals_on_idle_def os_default_def idle_iff
      split: option.splits if_splits)

text \<open>The exact effect of the policy: allowed once the backoff of the failures so far is over.\<close>

lemma evaluate_os_allowed:
  assumes "os_inv now st" "now \<le> t" "evaluate_os_credential_policy TerminalOsLogin t st = (d, st')"
  shows "os_inv t st'" "st' = normalize_backoff t (reset_totals_on_idle t st)"
    "os_last_failure_ms st = Some l \<Longrightarrow>
       od_allowed d \<longleftrightarrow> l + 1000 * os_credential_login_backoff_seconds (os_total_failures st) \<le> t"
    "os_last_failure_ms st = None \<Longrightarrow> od_allowed d"
proof -
  let ?s = "normalize_backoff t (reset_totals_on_idle t st)"
  show s': "st' = ?s" using assms(3)
    by (auto simp: evaluate_os_credential_policy_def is_os_credential_scope_def Let_def split: option.splits)
  show "os_inv t st'" unfolding s' by (rule os_inv_refresh [OF assms(1,2)])
  have d: "od_allowed d \<longleftrightarrow> os_backoff_until_ms ?s = None" using assms(3)
    by (auto simp: evaluate_os_credential_policy_def is_os_credential_scope_def Let_def allow_decision_def
        block_decision_def split: option.splits)
  show "os_last_failure_ms st = None \<Longrightarrow> od_allowed d" using assms(1) d
    by (simp add: os_inv_def os_default_def normalize_backoff_def reset_totals_on_idle_def)
  assume l: "os_last_failure_ms st = Some l"
  from os_refresh_cases [OF assms(1,2) l] d backoff_bounds(2) [of "os_total_failures st"]
  show "od_allowed d \<longleftrightarrow> l + 1000 * os_credential_login_backoff_seconds (os_total_failures st) \<le> t"
    by (auto simp: os_default_def)
qed

lemma record_os_inv:
  assumes "os_inv now st" "now \<le> t"
  shows "os_inv t (record_os_credential_failure TerminalOsLogin t st)"
    "os_last_failure_ms (record_os_credential_failure TerminalOsLogin t st) = Some t"
    "0 < os_total_failures (record_os_credential_failure TerminalOsLogin t st)"
proof -
  let ?s = "normalize_backoff t (reset_totals_on_idle t st)"
  have "0 \<le> os_total_failures ?s" using os_inv_refresh [OF assms]
    by (auto simp: os_inv_def os_default_def split: option.splits)
  then have p: "0 < min (os_total_failures ?s + 1) i32_max" by (simp add: i32_max_def)
  have b: "os_backoff_until_ms ?s = None" if "os_credential_login_backoff_seconds (min (os_total_failures ?s + 1) i32_max) \<le> 0"
  proof -
    from that have "os_total_failures ?s \<le> 2" by (auto simp: backoff_values i32_max_def min_def split: if_splits)
    then have "os_credential_login_backoff_seconds (os_total_failures ?s) = 0" by (simp add: backoff_values)
    with os_inv_refresh [OF assms] show ?thesis
      by (auto simp: os_inv_def os_default_def normalize_backoff_def split: option.splits if_splits)
  qed
  show "os_last_failure_ms (record_os_credential_failure TerminalOsLogin t st) = Some t"
    by (simp add: record_os_credential_failure_def is_os_credential_scope_def Let_def)
  show "0 < os_total_failures (record_os_credential_failure TerminalOsLogin t st)"
    using p by (simp add: record_os_credential_failure_def is_os_credential_scope_def Let_def)
  show "os_inv t (record_os_credential_failure TerminalOsLogin t st)"
    using p b by (auto simp: record_os_credential_failure_def is_os_credential_scope_def Let_def os_inv_def
        not_less dest: order.antisym [OF _ backoff_bounds(1)] split: option.splits)
qed

lemma record_os_total:
  assumes "os_inv now st" "now \<le> t" "os_last_failure_ms st = Some l"
  shows "7200000 \<le> t - l \<and> os_total_failures (record_os_credential_failure TerminalOsLogin t st) = 1
    \<or> os_total_failures (record_os_credential_failure TerminalOsLogin t st) = min (os_total_failures st + 1) i32_max"
  using os_refresh_cases [OF assms]
  by (auto simp: record_os_credential_failure_def is_os_credential_scope_def Let_def os_default_def i32_max_def)

text \<open>Attempts in a row: each is checked at its first time and, when it goes on and fails, recorded at
  its second. The result is the times of the guesses made.\<close>

fun os_run :: "(int \<times> int) list \<Rightarrow> OsCredentialFailureState \<Rightarrow> int list" where
  "os_run [] st = []"
| "os_run ((te, tr) # ats) st =
     (case evaluate_os_credential_policy TerminalOsLogin te st of (d, st') \<Rightarrow>
        if od_allowed d then tr # os_run ats (record_os_credential_failure TerminalOsLogin tr st')
        else os_run ats st')"

fun in_order :: "int \<Rightarrow> (int \<times> int) list \<Rightarrow> bool" where
  "in_order now [] = True"
| "in_order now ((te, tr) # ats) = (now \<le> te \<and> te \<le> tr \<and> in_order tr ats)"

lemma in_order_mono: "in_order now ats \<Longrightarrow> t \<le> now \<Longrightarrow> in_order t ats"
  by (cases ats) auto

text \<open>One guess more takes the time that the state is then less ahead.\<close>

lemma guess_gap:
  assumes "os_inv now st" "now \<le> te" "te \<le> tr" "os_last_failure_ms st = Some l"
    and e: "evaluate_os_credential_policy TerminalOsLogin te st = (d, st')" "od_allowed d"
  defines "st2 \<equiv> record_os_credential_failure TerminalOsLogin tr st'"
  shows "900000 + 1000 * ahead (os_total_failures st) \<le> tr - l + 1000 * ahead (os_total_failures st2)"
proof -
  let ?n = "os_total_failures st"
  have i: "os_inv te st'" and s': "st' = normalize_backoff te (reset_totals_on_idle te st)"
    using evaluate_os_allowed [OF assms(1,2) e(1)] by auto
  have w: "l + 1000 * os_credential_login_backoff_seconds ?n \<le> te"
    using evaluate_os_allowed(3) [OF assms(1,2) e(1) assms(4)] e(2) by simp
  have n: "0 < ?n" using assms(1,4) by (simp add: os_inv_def)
  show ?thesis
  proof (cases "os_last_failure_ms st'")
    case None
    then have "7200000 \<le> te - l" using os_refresh_cases [OF assms(1,2,4)] s' by auto
    then show ?thesis using ahead_bounds(2) [of ?n] ahead_bounds(1) [of "os_total_failures st2"] assms(3) by simp
  next
    case (Some l')
    with os_refresh_cases [OF assms(1,2,4)] s'
    have l': "l' = l" "os_total_failures st' = ?n" by (auto simp: os_default_def)
    from record_os_total [OF i assms(3) Some] l' consider "7200000 \<le> tr - l"
      | "os_total_failures st2 = min (?n + 1) i32_max" unfolding st2_def by auto
    then show ?thesis
    proof cases
      case 1
      then show ?thesis using ahead_bounds(2) [of ?n] ahead_bounds(1) [of "os_total_failures st2"] by simp
    next
      case 2
      then show ?thesis using ahead_step [OF n] w assms(3) by simp
    qed
  qed
qed

lemma os_run_after:
  assumes "os_inv now st" "in_order now ats" "os_last_failure_ms st = Some l" "i < length (os_run ats st)"
  shows "900000 * (int i + 1) + 1000 * ahead (os_total_failures st) \<le> os_run ats st ! i - l + 6255000"
  using assms
proof (induction ats st arbitrary: now l i rule: os_run.induct)
  case (2 te tr ats st)
  obtain d st' where e: "evaluate_os_credential_policy TerminalOsLogin te st = (d, st')" by fastforce
  note o = evaluate_os_allowed [OF "2.prems"(1) _ e]
  from "2.prems"(2) have t: "now \<le> te" "te \<le> tr" "in_order tr ats" by auto
  show ?case
  proof (cases "od_allowed d")
    case False
    with o(3) [OF t(1) "2.prems"(3)] have "te < l + 1000 * os_credential_login_backoff_seconds (os_total_failures st)" by simp
    with backoff_bounds(2) [of "os_total_failures st"] os_refresh_cases [OF "2.prems"(1) t(1) "2.prems"(3)] o(2) [OF t(1)]
    have "os_last_failure_ms st' = Some l" "os_total_failures st' = os_total_failures st" by auto
    with "2.IH"(2) [OF e [symmetric] False o(1) [OF t(1)] in_order_mono [OF t(3,2)], of l i] "2.prems"(4) e False
    show ?thesis by simp
  next
    case True
    let ?st2 = "record_os_credential_failure TerminalOsLogin tr st'"
    have r: "os_run ((te, tr) # ats) st = tr # os_run ats ?st2" using e True by simp
    have g: "900000 + 1000 * ahead (os_total_failures st) \<le> tr - l + 1000 * ahead (os_total_failures ?st2)"
      by (rule guess_gap [OF "2.prems"(1) t(1,2) "2.prems"(3) e True])
    note ri = record_os_inv [OF o(1) [OF t(1)] t(2)]
    show ?thesis
    proof (cases i)
      case 0
      then show ?thesis using g ahead_bounds(2) [of "os_total_failures ?st2"] r by simp
    next
      case (Suc j)
      with "2.IH"(1) [OF e [symmetric] True ri(1) t(3) ri(2), of j] "2.prems"(4) r g show ?thesis by simp
    qed
  qed
qed simp

lemma os_run_pairs:
  assumes "os_inv now st" "in_order now ats" "i < j" "j < length (os_run ats st)"
  shows "900000 * (int j - int i) \<le> os_run ats st ! j - os_run ats st ! i + 6255000"
  using assms
proof (induction ats st arbitrary: now i j rule: os_run.induct)
  case (2 te tr ats st)
  obtain d st' where e: "evaluate_os_credential_policy TerminalOsLogin te st = (d, st')" by fastforce
  note o = evaluate_os_allowed [OF "2.prems"(1) _ e]
  from "2.prems"(2) have t: "now \<le> te" "te \<le> tr" "in_order tr ats" by auto
  show ?case
  proof (cases "od_allowed d")
    case False
    with "2.IH"(2) [OF e [symmetric] False o(1) [OF t(1)] in_order_mono [OF t(3,2)] "2.prems"(3)] "2.prems"(4) e
    show ?thesis by simp
  next
    case True
    let ?st2 = "record_os_credential_failure TerminalOsLogin tr st'"
    have r: "os_run ((te, tr) # ats) st = tr # os_run ats ?st2" using e True by simp
    note ri = record_os_inv [OF o(1) [OF t(1)] t(2)]
    obtain k where k: "j = Suc k" "k < length (os_run ats ?st2)" using "2.prems"(3,4) r by (cases j) auto
    show ?thesis
    proof (cases i)
      case 0
      with os_run_after [OF ri(1) t(3) ri(2) k(2)] ahead_bounds(1) [of "os_total_failures ?st2"] k r
      show ?thesis by simp
    next
      case (Suc m)
      with "2.IH"(1) [OF e [symmetric] True ri(1) t(3), of m k] "2.prems"(3) r k show ?thesis by simp
    qed
  qed
qed simp

text \<open>C28: guessing credentials of the operating system is slow. Whatever the times of attempts made one
  after the other, \<open>n\<close> failed guesses that the policy lets through after a first one take at least
  \<open>900 n - 6255\<close> seconds, so that over every interval fewer than eight guesses plus one per fifteen minutes are
  made. Waiting for the counters to be reset does not help.\<close>

theorem os_login_guess_rate:
  assumes "in_order now ats" "i < j" "j < length (os_run ats os_default)"
  shows "900000 * (int j - int i) - 6255000 \<le> os_run ats os_default ! j - os_run ats os_default ! i"
  using os_run_pairs [OF os_inv_default assms] by simp

definition toy_guesses :: "(int \<times> int) list" where
  "toy_guesses = [(0, 0), (0, 0), (0, 0), (7000, 8000), (15000, 15000), (45000, 45000), (105000, 105000),
     (225000, 225000), (465000, 465000)]"

theorem os_login_guess_rate_witness:
  "os_run toy_guesses os_default = [0, 0, 0, 15000, 45000, 105000, 225000, 465000]
   \<and> 900000 * (int 7 - int 0) - 6255000 \<le> (465000 :: int) - 0"
proof -
  have r: "os_run toy_guesses os_default = [0, 0, 0, 15000, 45000, 105000, 225000, 465000]" by code_simp
  have "in_order 0 toy_guesses" by (simp add: toy_guesses_def)
  from os_login_guess_rate [OF this, of 0 7] r show ?thesis by simp
qed

section \<open>Admission\<close>

datatype AdmissionOp = Arrive int IpAddr | Leave int

fun admission_step :: "AdmissionOp \<Rightarrow> UnauthorizedConn list \<Rightarrow> UnauthorizedConn list" where
  "admission_step (Arrive i ip) conns = snd (admit_unauthorized i ip conns)"
| "admission_step (Leave i) conns = drop_unauthorized i conns"

text \<open>How many connections one address holds.\<close>

definition held_by :: "IpAddr \<Rightarrow> UnauthorizedConn list \<Rightarrow> nat" where
  "held_by ip conns = length (filter (\<lambda>u. uc_ip u = ip) conns)"

definition admission_inv :: "UnauthorizedConn list \<Rightarrow> bool" where
  "admission_inv conns \<longleftrightarrow>
     length conns \<le> MAX_UNAUTHORIZED_CONNS \<and> (\<forall>ip. held_by ip conns \<le> MAX_UNAUTHORIZED_CONNS_PER_ADDR)
     \<and> (\<forall>u\<in>set (tl conns). \<not> uc_evicted u)"

lemma held_by_simps [simp]:
  "held_by ip [] = 0" "held_by ip (u # us) = (if uc_ip u = ip then Suc (held_by ip us) else held_by ip us)"
  "held_by ip (us @ vs) = held_by ip us + held_by ip vs"
  by (simp_all add: held_by_def)

lemma held_by_drop: "held_by ip (drop_unauthorized i conns) \<le> held_by ip conns"
  by (induction conns) (simp_all add: drop_unauthorized_def)

lemma admit_eq:
  "admit_unauthorized i ip conns =
     (if held_by ip conns \<ge> MAX_UNAUTHORIZED_CONNS_PER_ADDR then (False, conns)
      else if length conns \<ge> MAX_UNAUTHORIZED_CONNS then
        (False, case conns of [] \<Rightarrow> [] | oldest # rest \<Rightarrow> oldest\<lparr>uc_evicted := True\<rparr> # rest)
      else (True, conns @ [\<lparr>uc_id = i, uc_ip = ip, uc_evicted = False\<rparr>]))"
  by (simp add: admit_unauthorized_def held_by_def)

lemma tl_filter: "set (tl (filter P xs)) \<subseteq> set (tl xs)"
proof (cases xs)
  case (Cons a ys)
  have "set (tl (filter P ys)) \<subseteq> set ys" by (cases "filter P ys") (auto simp: filter_eq_Cons_iff)
  with Cons show ?thesis by auto
qed simp

lemma admission_inv_step: "admission_inv conns \<Longrightarrow> admission_inv (admission_step op conns)"
proof (cases op)
  case (Leave i)
  assume a: "admission_inv conns"
  have "length (drop_unauthorized i conns) \<le> length conns" by (simp add: drop_unauthorized_def)
  moreover have "set (tl (drop_unauthorized i conns)) \<subseteq> set (tl conns)"
    unfolding drop_unauthorized_def by (rule tl_filter)
  ultimately show ?thesis using a Leave order_trans [OF held_by_drop]
    by (auto simp: admission_inv_def)
next
  case (Arrive i ip)
  assume a: "admission_inv conns"
  show ?thesis
  proof (cases conns)
    case Nil
    with Arrive show ?thesis
      by (simp add: admit_eq admission_inv_def MAX_UNAUTHORIZED_CONNS_def MAX_UNAUTHORIZED_CONNS_PER_ADDR_def)
  next
    case (Cons u us)
    with a Arrive show ?thesis by (auto simp: admit_eq admission_inv_def split: if_splits)
  qed
qed

interpretation admission: guarded_machine admission_step admission_inv "\<lambda>_. True"
  by unfold_locales (simp add: admission_inv_step)

lemma admission_run: "admission_inv (fold admission_step ops [])"
  by (rule admission.run_inv) (simp_all add: admission_inv_def)

text \<open>Connections that have not logged in are bounded. After any sequence of arrivals and departures
  at most 64 are held, at most 16 of one address, and at most one, the oldest, has been told to go.\<close>

theorem unauthorized_bounded:
  "length (fold admission_step ops []) \<le> 64
   \<and> held_by ip (fold admission_step ops []) \<le> 16
   \<and> (uc_evicted (fold admission_step ops [] ! i) \<and> i < length (fold admission_step ops []) \<longrightarrow> i = 0)"
proof -
  let ?c = "fold admission_step ops []"
  have "i = 0" if "uc_evicted (?c ! i)" "i < length ?c"
  proof (rule ccontr)
    assume "i \<noteq> 0"
    with that(2) have "?c ! i \<in> set (tl ?c)" by (cases ?c; cases i) auto
    with that(1) admission_run [of ops] show False by (simp add: admission_inv_def)
  qed
  with admission_run [of ops] show ?thesis
    by (simp add: admission_inv_def MAX_UNAUTHORIZED_CONNS_def MAX_UNAUTHORIZED_CONNS_PER_ADDR_def)
qed

text \<open>A full house recovers. An arrival below the share of its address is refused only when all
  places are taken; then the oldest connection has been told to go, and once it has gone the same
  arrival is admitted at the end of the queue.\<close>

theorem refused_arrival_admitted_later:
  assumes "admit_unauthorized i ip (fold admission_step ops []) = (False, conns)"
    "held_by ip (fold admission_step ops []) < 16"
  shows "length (fold admission_step ops []) = 64 \<and> uc_evicted (hd conns)
    \<and> (\<exists>rest. admit_unauthorized i ip (drop_unauthorized (uc_id (hd conns)) conns)
         = (True, rest @ [\<lparr>uc_id = i, uc_ip = ip, uc_evicted = False\<rparr>]))"
proof -
  define cs where "cs = fold admission_step ops []"
  have n: "length cs = 64"
    using assms admission_run [of ops] unfolding cs_def
    by (auto simp: admit_eq admission_inv_def MAX_UNAUTHORIZED_CONNS_def MAX_UNAUTHORIZED_CONNS_PER_ADDR_def split: if_splits)
  then obtain u us where c: "cs = u # us" by (cases cs) auto
  have c': "conns = u\<lparr>uc_evicted := True\<rparr> # us"
    using assms n c unfolding cs_def [symmetric]
    by (simp add: admit_eq MAX_UNAUTHORIZED_CONNS_def MAX_UNAUTHORIZED_CONNS_PER_ADDR_def split: if_splits)
  let ?r = "drop_unauthorized (uc_id u) us"
  have d: "drop_unauthorized (uc_id u) conns = ?r" by (simp add: c' drop_unauthorized_def)
  have "length ?r < 64" using n c length_filter_le [of "\<lambda>v. uc_id v \<noteq> uc_id u" us]
    by (simp add: drop_unauthorized_def)
  moreover have "held_by ip ?r < 16"
    using assms(2) c held_by_drop [of ip "uc_id u" us] unfolding cs_def [symmetric] by (auto split: if_splits)
  ultimately have "admit_unauthorized i ip ?r = (True, ?r @ [\<lparr>uc_id = i, uc_ip = ip, uc_evicted = False\<rparr>])"
    by (simp add: admit_eq MAX_UNAUTHORIZED_CONNS_def MAX_UNAUTHORIZED_CONNS_PER_ADDR_def)
  with d n c' show ?thesis by (auto simp: cs_def [symmetric])
qed

definition toy_flood :: "AdmissionOp list" where
  "toy_flood = map (\<lambda>k. Arrive (int k) (V4 (of_nat (k mod 8)))) [0..<64]"

definition toy_full :: "UnauthorizedConn list" where
  "toy_full = snd (admit_unauthorized 99 LOCALHOST4 (fold admission_step toy_flood []))"

lemma toy_refused:
  "admit_unauthorized 99 LOCALHOST4 (fold admission_step toy_flood []) = (False, toy_full)"
  "held_by LOCALHOST4 (fold admission_step toy_flood []) < 16"
  by code_simp+

theorem refused_arrival_admitted_later_witness:
  "length (fold admission_step toy_flood []) = 64 \<and> uc_evicted (hd toy_full)
    \<and> (\<exists>rest. admit_unauthorized 99 LOCALHOST4 (drop_unauthorized (uc_id (hd toy_full)) toy_full)
         = (True, rest @ [\<lparr>uc_id = 99, uc_ip = LOCALHOST4, uc_evicted = False\<rparr>]))"
  by (rule refused_arrival_admitted_later [OF toy_refused])

theorem unauthorized_bounded_witness:
  "length (fold admission_step toy_flood []) \<le> 64
   \<and> held_by (V4 3) (fold admission_step toy_flood []) \<le> 16"
  using unauthorized_bounded [of toy_flood "V4 3" 0] by simp

section \<open>Budgets\<close>

text \<open>The counters an attempt of a connection is checked against, with their limits.\<close>

definition limits :: "Conn \<Rightarrow> (string \<times> int) list" where
  "limits conn =
     (case get_ipv6_prefixes conn of Some (p64, p56, p48) \<Rightarrow> [(p64, 60), (p56, 80), (p48, 100)] | None \<Rightarrow> [])
     @ [(cn_ip conn, 30)]"

definition failures :: "FailureMap \<Rightarrow> string \<Rightarrow> int" where
  "failures m k = snd (snd (failure_of m k))"

text \<open>An address as it is written has no slash; the prefixes have.\<close>

definition conn_ok :: "Conn \<Rightarrow> bool" where
  "conn_ok conn = (CHR ''/'' \<notin> set (cn_ip conn))"

lemma prefix_suffixes:
  assumes "get_ipv6_prefixes conn = Some (p64, p56, p48)"
  shows "\<exists>a b c. p64 = a @ ''/64'' \<and> p56 = b @ ''/56'' \<and> p48 = c @ ''/48''"
  using assms by (auto simp: get_ipv6_prefixes_def Let_def split: option.splits)

lemma own_key: "CHR ''/'' \<notin> set ip \<Longrightarrow> ip \<in> set (failure_keys conn) \<longleftrightarrow> cn_ip conn = ip"
  by (cases "get_ipv6_prefixes conn") (auto simp: failure_keys_def split: prod.splits dest!: prefix_suffixes)

lemma limits_keys: "fst ` set (limits conn) = set (failure_keys conn)"
  by (cases "get_ipv6_prefixes conn") (auto simp: limits_def failure_keys_def image_iff split: prod.splits)

lemma keys_distinct:
  assumes "conn_ok conn"
  shows "distinct (map fst (limits conn))"
proof (cases "get_ipv6_prefixes conn")
  case None
  then show ?thesis by (simp add: limits_def)
next
  case (Some p)
  obtain p64 p56 p48 where p: "p = (p64, p56, p48)" by (cases p)
  with Some obtain a b c where "p64 = a @ ''/64''" "p56 = b @ ''/56''" "p48 = c @ ''/48''"
    using prefix_suffixes by blast
  moreover have "cn_ip conn \<noteq> x @ CHR ''/'' # y" for x y using assms by (auto simp: conn_ok_def)
  ultimately show ?thesis using Some p by (auto simp: limits_def dest: sym)
qed

text \<open>The limit can be read off the key.\<close>

definition key_limit :: "string \<Rightarrow> int" where
  "key_limit k =
     (let s = drop (length k - 3) k in
      if s = ''/64'' then 60 else if s = ''/56'' then 80 else if s = ''/48'' then 100 else 30)"

lemma key_limit_ip:
  assumes "CHR ''/'' \<notin> set k"
  shows "key_limit k = 30"
proof -
  have "drop n k \<noteq> CHR ''/'' # x" for n x using assms in_set_dropD [of "CHR ''/''" n k] by auto
  then show ?thesis by (simp add: key_limit_def)
qed

lemma key_limit_le: "key_limit k \<le> 100"
  by (simp add: key_limit_def Let_def)

lemma limits_key_limit:
  assumes "conn_ok conn"
  shows "set (limits conn) = (\<lambda>k. (k, key_limit k)) ` set (failure_keys conn)"
proof -
  have ip: "key_limit (cn_ip conn) = 30" using assms key_limit_ip by (simp add: conn_ok_def)
  show ?thesis
  proof (cases "get_ipv6_prefixes conn")
    case None
    then show ?thesis using ip by (simp add: limits_def failure_keys_def)
  next
    case (Some p)
    obtain p64 p56 p48 where p: "p = (p64, p56, p48)" by (cases p)
    with Some obtain a b c where "p64 = a @ ''/64''" "p56 = b @ ''/56''" "p48 = c @ ''/48''"
      using prefix_suffixes by blast
    then have "key_limit p64 = 60" "key_limit p56 = 80" "key_limit p48 = 100" by (simp_all add: key_limit_def)
    with ip Some p show ?thesis by (auto simp: limits_def failure_keys_def)
  qed
qed

lemma failure_of_insert [simp]: "failure_of (assoc_insert k v m) k' = (if k' = k then v else failure_of m k')"
  by (simp add: failure_of_def)

lemma failure_of_remove [simp]: "failure_of (assoc_remove k m) k' = (if k' = k then (0, 0, 0) else failure_of m k')"
  by (simp add: failure_of_def)

lemma failure_of_bumps:
  "distinct ks \<Longrightarrow> failure_of (fold (bump_key time) ks m) k =
     (if k \<in> set ks then bump_failure_entry (failure_of m k) time else failure_of m k)"
  by (induction ks arbitrary: m) (auto simp: bump_key_def)

lemma failure_of_update:
  assumes "conn_ok conn"
  shows "failure_of (update_map conn ft False m) k =
     (if k \<in> set (failure_keys conn) then bump_failure_entry (failure_of m k) (snd ft) else failure_of m k)"
proof -
  have "update_map conn ft False m = fold (bump_key (snd ft)) (map fst (limits conn)) m"
    by (auto simp: update_map_def limits_def split: option.splits)
  then show ?thesis using failure_of_bumps [OF keys_distinct [OF assms]] limits_keys [of conn] by simp
qed

lemma failure_of_clear:
  "k \<notin> set (failure_keys conn) \<Longrightarrow> failure_of (update_map conn ft True m) k = failure_of m k"
  by (auto simp: update_map_def failure_keys_def split: option.splits)

lemma check_map_None:
  assumes "check_map conn time m = (ft, None)" "(k, n) \<in> set (limits conn)"
  shows "failures m k \<le> n" "snd ft = time" "fst ft = failure_of m (cn_ip conn)"
  using assms by (auto simp: check_map_def limits_def check_failure_ipv6_prefix_def check_address_def failures_def
      split: option.splits prod.splits if_splits)

text \<open>Attempts in a row against one of the maps: the connection, the time and whether the secret was
  right. The result is the wrong guesses that were evaluated.\<close>

fun guess_run :: "nat \<Rightarrow> (Conn \<times> int \<times> bool) list \<Rightarrow> LoginFailures \<Rightarrow> (Conn \<times> int) list" where
  "guess_run i [] L = []"
| "guess_run i ((conn, now_ms, right) # ats) L =
     (case check_failure_with_scope conn i DefaultScope now_ms L of
        ((ft, Some refusal), L) \<Rightarrow> guess_run i ats L
      | ((ft, None), L) \<Rightarrow>
          let rest = guess_run i ats (update_failure_with_scope conn ft right i DefaultScope now_ms L)
          in if right then rest else (conn, minute_of now_ms) # rest)"

lemma guess_run_cases:
  assumes "i < length (lf_maps L)"
  obtains (refused) "guess_run i ((conn, now_ms, right) # ats) L = guess_run i ats L"
  | (tried) ft where "check_map conn (minute_of now_ms) (lf_maps L ! i) = (ft, None)"
    "guess_run i ((conn, now_ms, right) # ats) L =
       (if right then [] else [(conn, minute_of now_ms)])
       @ guess_run i ats (L\<lparr>lf_maps := (lf_maps L)[i := update_map conn ft right (lf_maps L ! i)]\<rparr>)"
proof (cases "check_map conn (minute_of now_ms) (lf_maps L ! i)")
  case (Pair ft r)
  then show ?thesis using refused tried
    by (cases r) (auto simp: check_failure_with_scope_def update_failure_with_scope_def Let_def)
qed

lemma bump_failures:
  "snd (snd (bump_failure_entry f time)) = wrap_i32 (snd (snd f) + 1)"
  by (simp add: bump_failure_entry_def split: prod.splits)

lemma failures_update:
  assumes "conn_ok conn" "0 \<le> failures m k" "failures m k \<le> 100"
  shows "failures (update_map conn ft False m) k = failures m k + (if k \<in> set (failure_keys conn) then 1 else 0)"
  using assms by (simp add: failures_def failure_of_update bump_failures wrap_i32_id)

text \<open>The guesses that count against a key stay within its limit.\<close>

lemma guess_budget:
  assumes "i < length (lf_maps L)" "\<forall>a\<in>set ats. conn_ok (fst a)"
    "\<forall>(c, t, right)\<in>set ats. right \<longrightarrow> k \<notin> set (failure_keys c)"
    "0 \<le> failures (lf_maps L ! i) k" "failures (lf_maps L ! i) k \<le> key_limit k + 1"
  shows "int (length (filter (\<lambda>(c, t). k \<in> set (failure_keys c)) (guess_run i ats L)))
    \<le> key_limit k + 1 - failures (lf_maps L ! i) k"
  using assms
proof (induction ats arbitrary: L)
  case (Cons a ats)
  obtain conn now_ms right where a: "a = (conn, now_ms, right)" by (cases a)
  let ?m = "lf_maps L ! i" and ?K = "k \<in> set (failure_keys conn)"
  have ok: "conn_ok conn" "right \<Longrightarrow> \<not> ?K" "?K \<Longrightarrow> (k, key_limit k) \<in> set (limits conn)"
    using Cons.prems a limits_key_limit [of conn] by auto
  show ?case
  proof (cases rule: guess_run_cases [OF Cons.prems(1), where conn = conn and now_ms = now_ms and right = right and ats = ats])
    case 1
    with Cons a show ?thesis by simp
  next
    case tried: (2 ft)
    have ft: "snd ft = minute_of now_ms" using check_map_None(2) [OF tried(1), of "cn_ip conn" 30] by (simp add: limits_def)
    let ?L = "L\<lparr>lf_maps := (lf_maps L)[i := update_map conn ft right ?m]\<rparr>"
    have new: "lf_maps ?L ! i = update_map conn ft right ?m" using Cons.prems(1) by simp
    have lim: "?K \<Longrightarrow> failures ?m k \<le> key_limit k" using check_map_None(1) [OF tried(1)] ok(3) by blast
    have f: "failures (lf_maps ?L ! i) k = failures ?m k + (if ?K \<and> \<not> right then 1 else 0)"
    proof (cases right)
      case True
      with failure_of_clear [of k conn ft ?m] ok(2) new show ?thesis by (simp add: failures_def)
    next
      case False
      have "failures (update_map conn ft False ?m) k = failures ?m k + (if ?K then 1 else 0)"
      proof (cases ?K)
        case True
        with failures_update [OF ok(1) Cons.prems(4), of ft] lim key_limit_le [of k] show ?thesis by simp
      next
        case False
        then show ?thesis by (simp add: failures_def failure_of_update [OF ok(1)])
      qed
      with False new show ?thesis by simp
    qed
    have "int (length (filter (\<lambda>(c, t). k \<in> set (failure_keys c)) (guess_run i ats ?L))) \<le> key_limit k + 1 - failures (lf_maps ?L ! i) k"
      by (rule Cons.IH) (use Cons.prems f lim in auto)
    with tried(2) f a ok(2) show ?thesis by auto
  qed
qed simp

text \<open>Guessing is bounded per address. Of any attempts made one after the other, from whatever
  connections, at most 31 wrong guesses are evaluated for one address from when its counter is new, unless one
  of its attempts succeeds.\<close>

theorem address_budget:
  assumes "i < length (lf_maps L)" "\<forall>a\<in>set ats. conn_ok (fst a)" "CHR ''/'' \<notin> set ip"
    "\<forall>(c, t, right)\<in>set ats. right \<longrightarrow> ip \<notin> set (failure_keys c)" "map_of (lf_maps L ! i) ip = None"
  shows "length (filter (\<lambda>(c, t). cn_ip c = ip) (guess_run i ats L)) \<le> 31"
proof -
  have k: "key_limit ip = 30" using key_limit_ip [OF assms(3)] .
  have f: "failures (lf_maps L ! i) ip = 0" using assms(5) by (simp add: failures_def failure_of_def)
  have "length (filter (\<lambda>(c, t). cn_ip c = ip) (guess_run i ats L))
      \<le> length (filter (\<lambda>(c, t). ip \<in> set (failure_keys c)) (guess_run i ats L))"
    by (rule length_filter_imp) (auto simp: failure_keys_def)
  moreover have "int (length (filter (\<lambda>(c, t). ip \<in> set (failure_keys c)) (guess_run i ats L)))
      \<le> key_limit ip + 1 - failures (lf_maps L ! i) ip"
    by (rule guess_budget [OF assms(1,2,4)]) (simp_all add: f k)
  ultimately show ?thesis using k f by simp
qed

text \<open>Changing the address within an IPv6 network does not help: of any attempts made one after
  the other, at most 61, 81 and 101 wrong guesses are evaluated for all addresses together
  that share a /64, /56 or /48 prefix, unless an attempt of that prefix succeeds.\<close>

theorem prefix_budget:
  assumes "i < length (lf_maps L)" "\<forall>a\<in>set ats. conn_ok (fst a)"
    "get_ipv6_prefixes conn = Some (p64, p56, p48)" "k \<in> {p64, p56, p48}"
    "\<forall>(c, t, right)\<in>set ats. right \<longrightarrow> k \<notin> set (failure_keys c)" "map_of (lf_maps L ! i) k = None"
  shows "length (filter (\<lambda>(c, t). k \<in> set (failure_keys c)) (guess_run i ats L))
    \<le> (if k = p64 then 61 else if k = p56 then 81 else 101)"
proof -
  from prefix_suffixes [OF assms(3)] obtain a b c
    where "p64 = a @ ''/64''" "p56 = b @ ''/56''" "p48 = c @ ''/48''" by blast
  then have k: "key_limit k = (if k = p64 then 60 else if k = p56 then 80 else 100)"
    using assms(4) by (auto simp: key_limit_def)
  have f: "failures (lf_maps L ! i) k = 0" using assms(6) by (simp add: failures_def failure_of_def)
  have "int (length (filter (\<lambda>(c, t). k \<in> set (failure_keys c)) (guess_run i ats L)))
      \<le> key_limit k + 1 - failures (lf_maps L ! i) k"
    by (rule guess_budget [OF assms(1,2,5)]) (simp_all add: f k)
  then show ?thesis using k f by (auto split: if_splits)
qed

lemma guess_run_minutes: "(c, m) \<in> set (guess_run i ats L) \<Longrightarrow> \<exists>t right. (c, t, right) \<in> set ats \<and> m = minute_of t"
proof (induction ats arbitrary: L)
  case (Cons a ats)
  then show ?case
    by (cases a) (auto simp: Let_def split: prod.splits option.splits if_splits; blast)
qed simp

lemma minute_count:
  assumes "i < length (lf_maps L)" "\<forall>a\<in>set ats. conn_ok (fst a)" "CHR ''/'' \<notin> set ip"
    "\<forall>(c, t, right)\<in>set ats. right \<longrightarrow> ip \<notin> set (failure_keys c)"
    "sorted (map (\<lambda>(c, t, right). minute_of t) ats)"
    "failure_of (lf_maps L ! i) ip = (t0, q, n)" "0 \<le> q" "q \<le> 7"
    "q = 0 \<or> (\<forall>(c, t, right)\<in>set ats. t0 \<le> minute_of t)"
  shows "int (length (filter (\<lambda>(c, m). cn_ip c = ip \<and> m = T) (guess_run i ats L))) \<le> 7 - (if t0 = T then q else 0)"
  using assms
proof (induction ats arbitrary: L t0 q n)
  case (Cons a ats)
  obtain conn now_ms right where a: "a = (conn, now_ms, right)" by (cases a)
  let ?m = "lf_maps L ! i" and ?M = "minute_of now_ms"
  have ok: "conn_ok conn" "right \<Longrightarrow> ip \<notin> set (failure_keys conn)" using Cons.prems(2,4) a by auto
  have later: "\<forall>(c, t, right)\<in>set ats. ?M \<le> minute_of t" using Cons.prems(5) a by (auto split: prod.splits)
  have mine: "ip \<in> set (failure_keys conn) \<longleftrightarrow> cn_ip conn = ip"
    using own_key [OF Cons.prems(3)] .
  have rest: "sorted (map (\<lambda>(c, t, right). minute_of t) ats)" "\<forall>a\<in>set ats. conn_ok (fst a)"
    "\<forall>(c, t, right)\<in>set ats. right \<longrightarrow> ip \<notin> set (failure_keys c)" using Cons.prems(2,4,5) a by auto
  show ?case
  proof (cases rule: guess_run_cases [OF Cons.prems(1), where conn = conn and now_ms = now_ms and right = right and ats = ats])
    case 1
    have "int (length (filter (\<lambda>(c, m). cn_ip c = ip \<and> m = T) (guess_run i ats L))) \<le> 7 - (if t0 = T then q else 0)"
      by (rule Cons.IH [OF Cons.prems(1) rest(2) Cons.prems(3) rest(3,1) Cons.prems(6-8)]) (use Cons.prems(9) in auto)
    with 1 a show ?thesis by simp
  next
    case tried: (2 ft)
    have ft: "snd ft = ?M" using check_map_None(2) [OF tried(1), of "cn_ip conn" 30] by (simp add: limits_def)
    let ?L = "L\<lparr>lf_maps := (lf_maps L)[i := update_map conn ft right ?m]\<rparr>"
    have new: "lf_maps ?L ! i = update_map conn ft right ?m" "i < length (lf_maps ?L)" using Cons.prems(1) by auto
    show ?thesis
    proof (cases "cn_ip conn = ip \<and> \<not> right")
      case False
      have "failure_of (lf_maps ?L ! i) ip = (t0, q, n)"
      proof (cases right)
        case True
        with failure_of_clear [of ip conn ft ?m] ok(2) new Cons.prems(6) show ?thesis by simp
      next
        case nr: False
        with False mine failure_of_update [OF ok(1), of ft ?m ip] new Cons.prems(6) show ?thesis by simp
      qed
      then have "int (length (filter (\<lambda>(c, m). cn_ip c = ip \<and> m = T) (guess_run i ats ?L))) \<le> 7 - (if t0 = T then q else 0)"
        by (rule Cons.IH [OF new(2) rest(2) Cons.prems(3) rest(3,1) _ Cons.prems(7,8)]) (use Cons.prems(9) in auto)
      with tried(2) a False show ?thesis by auto
    next
      case True
      have lim: "t0 = ?M \<Longrightarrow> q \<le> 6" using tried(1) Cons.prems(6) True
        by (auto simp: check_map_def check_address_def check_failure_ipv6_prefix_def split: option.splits prod.splits if_splits)
      let ?q = "if t0 = ?M then q + 1 else 1"
      have "failure_of (lf_maps ?L ! i) ip = (?M, ?q, wrap_i32 (n + 1))"
        using failure_of_update [OF ok(1), of ft ?m ip] new True ft mine Cons.prems(6,7) lim
        by (auto simp: bump_failure_entry_def wrap_i32_id)
      then have ih: "int (length (filter (\<lambda>(c, m). cn_ip c = ip \<and> m = T) (guess_run i ats ?L))) \<le> 7 - (if ?M = T then ?q else 0)"
        by (rule Cons.IH [OF new(2) rest(2) Cons.prems(3) rest(3,1)]) (use Cons.prems(7,8) later lim in auto)
      show ?thesis
      proof (cases "?M \<noteq> T \<and> t0 = T \<and> q \<noteq> 0")
        case gone: True
        then have "T < ?M" using Cons.prems(9) a by auto
        then have "filter (\<lambda>(c, m). cn_ip c = ip \<and> m = T) (guess_run i ats ?L) = []"
          using later by (fastforce simp: filter_empty_conv dest: guess_run_minutes)
        with tried(2) a gone Cons.prems(8) show ?thesis by auto
      next
        case False
        with ih tried(2) a True show ?thesis by (auto split: if_splits)
      qed
    qed
  qed
qed simp

text \<open>Of any attempts made in the order of time, at most seven wrong guesses of one address are
  evaluated in a minute, from when its counter is new, unless one of its attempts succeeds.\<close>

theorem minute_budget:
  assumes "i < length (lf_maps L)" "\<forall>a\<in>set ats. conn_ok (fst a)" "CHR ''/'' \<notin> set ip"
    "\<forall>(c, t, right)\<in>set ats. right \<longrightarrow> ip \<notin> set (failure_keys c)"
    "sorted (map (\<lambda>(c, t, right). minute_of t) ats)" "map_of (lf_maps L ! i) ip = None"
  shows "length (filter (\<lambda>(c, m). cn_ip c = ip \<and> m = T) (guess_run i ats L)) \<le> 7"
proof -
  have "int (length (filter (\<lambda>(c, m). cn_ip c = ip \<and> m = T) (guess_run i ats L))) \<le> 7 - (if 0 = T then 0 else 0)"
    by (rule minute_count [OF assms(1-5)]) (simp_all add: assms(6) failure_of_def)
  then show ?thesis by simp
qed

definition toy_conn :: Conn where
  "toy_conn = \<lparr>cn_ip = ''10.0.0.1'', cn_my_id = ''123''\<rparr>"

definition toy_tries :: "(Conn \<times> int \<times> bool) list" where
  "toy_tries = replicate 9 (toy_conn, 60000, False)"

definition no_failures :: LoginFailures where
  "no_failures = \<lparr>lf_maps = [[], [], []], lf_os = os_default\<rparr>"

lemma toy_tries_run: "guess_run 0 toy_tries no_failures = replicate 7 (toy_conn, 1)"
  by code_simp

lemma toy_tries_ok:
  "0 < length (lf_maps no_failures)" "\<forall>a\<in>set toy_tries. conn_ok (fst a)" "CHR ''/'' \<notin> set ''10.0.0.1''"
  "\<forall>(c, t, right)\<in>set toy_tries. right \<longrightarrow> k \<notin> set (failure_keys c)"
  "sorted (map (\<lambda>(c, t, right). minute_of t) toy_tries)" "map_of (lf_maps no_failures ! 0) k = None"
  by (auto simp: toy_tries_def toy_conn_def conn_ok_def no_failures_def)

theorem address_budget_witness:
  "length (filter (\<lambda>(c, t). cn_ip c = ''10.0.0.1'') (replicate 7 (toy_conn, 1 :: int))) \<le> 31"
  using address_budget [OF toy_tries_ok(1-4,6)] by (simp only: toy_tries_run)

theorem minute_budget_witness:
  "length (filter (\<lambda>(c, m). cn_ip c = ''10.0.0.1'' \<and> m = 1) (replicate 7 (toy_conn, 1 :: int))) \<le> 7"
  using minute_budget [OF toy_tries_ok, of 1] by (simp only: toy_tries_run)

definition toy_v6 :: Conn where
  "toy_v6 = \<lparr>cn_ip = ''2001:db8::1'', cn_my_id = ''123''\<rparr>"

definition toy_p64 :: string where
  "toy_p64 = show_ipv6 (mask_u128 0x20010DB8000000000000000000000001 64) @ ''/64''"

lemma toy_v6_prefixes:
  "get_ipv6_prefixes toy_v6 = Some (toy_p64, show_ipv6 (mask_u128 0x20010DB8000000000000000000000001 56) @ ''/56'',
     show_ipv6 (mask_u128 0x20010DB8000000000000000000000001 48) @ ''/48'')"
proof -
  have "trim (hd (split_on (\<lambda>c. c = CHR ''%'') (cn_ip toy_v6))) = ''2001:db8::1''" by code_simp
  moreover have "read_ipv6 ''2001:db8::1'' = Some ([8193, 3512, 0, 0, 0, 0, 0, 1], [])" by code_simp
  ultimately show ?thesis by (simp add: get_ipv6_prefixes_def parse_ipv6_def toy_p64_def)
qed

theorem prefix_budget_witness:
  "length (filter (\<lambda>(c, t). toy_p64 \<in> set (failure_keys c)) (guess_run 0 [(toy_v6, 60000, False)] no_failures)) \<le> 61"
  using prefix_budget [OF toy_tries_ok(1) _ toy_v6_prefixes, of "[(toy_v6, 60000, False)]" toy_p64] toy_tries_ok(6)
  by (simp add: toy_v6_def conn_ok_def)

section \<open>ID whitelist\<close>

lemma conn_wildcard_glob:
  "conn_wildcard_match pat t = Some (glob (to_lowercase (trim pat)) (to_lowercase (trim t)))"
  using wildcard_loop_glob [of "to_lowercase (trim pat)" "to_lowercase (trim t)"]
  by (auto simp: conn_wildcard_match_def Let_def wild_result_def split: option.splits)

lemma map_of_decay:
  "map_of (decay_stale_failures ks now w m) k =
     (case map_of m k of
        Some v \<Rightarrow> if k \<in> set ks \<and> sat_i32 (now - fst v) \<ge> w then None else Some v
      | None \<Rightarrow> None)"
  unfolding decay_stale_failures_def
  by (induction ks arbitrary: m) (auto split: option.splits)

lemma check_id_whitelist_eq:
  assumes "whitelist_entries opt \<noteq> []"
  shows "check_id_whitelist opt conn td tc L =
    (let L' = L\<lparr>lf_maps := (lf_maps L)[2 := decay_stale_failures (failure_keys conn) (minute_of td) 10 (lf_maps L ! 2)]\<rparr>;
         (ft, r) = check_map conn (minute_of tc) (lf_maps L' ! 2)
     in case r of
          Some refusal \<Rightarrow> (Some refusal, L')
        | None \<Rightarrow>
            if id_whitelist_allows (whitelist_entries opt) (cn_my_id conn) then (None, L')
            else (Some (''Your ID is blocked by the peer'', Some IdWhitelist),
                  L'\<lparr>lf_maps := (lf_maps L')[2 := update_map conn ft False (lf_maps L' ! 2)]\<rparr>))"
  using assms
  by (auto simp: check_id_whitelist_def check_failure_with_scope_def update_failure_with_scope_def Let_def
      FAILURE_IDX_ID_WHITELIST_def ID_WHITELIST_FAILURE_DECAY_MINUTES_def split: option.splits prod.splits)

lemma bump_keeps: "map_of (fold (bump_key t) ks m) k = None \<Longrightarrow> map_of m k = None"
proof (induction ks arbitrary: m)
  case (Cons a ks)
  from Cons.IH [of "bump_key t a m"] Cons.prems show ?case by (simp add: bump_key_def split: if_splits)
qed simp

lemma update_keeps: "map_of (update_map conn ft False m) k = None \<Longrightarrow> map_of m k = None"
  using bump_keeps [of "snd ft" "case get_ipv6_prefixes conn of Some (a, b, c) \<Rightarrow> [a, b, c, cn_ip conn] | None \<Rightarrow> [cn_ip conn]" m k]
  by (auto simp: update_map_def split: option.splits)

text \<open>The ID whitelist admits exactly the peers whose reported ID, with or without the server suffix,
  matches an entry as a glob, and these only while their address is within its budget. No login, matching or
  not, clears a counter that is younger than ten minutes: the only counters forgotten are stale ones of the
  connection itself. The budgets of passwords and of 2FA stay as they are.\<close>

theorem id_whitelist_gate:
  assumes "whitelist_entries opt \<noteq> []" "2 < length (lf_maps L)"
    "check_id_whitelist opt conn td tc L = (r, L')"
  shows "(r = None \<longleftrightarrow>
      snd (check_map conn (minute_of tc) (decay_stale_failures (failure_keys conn) (minute_of td) 10 (lf_maps L ! 2))) = None
      \<and> (\<exists>x\<in>set (whitelist_entries opt). \<exists>y\<in>{cn_my_id conn, hd (split_on (\<lambda>c. c = CHR ''@'') (cn_my_id conn))}.
           glob (to_lowercase (trim x)) (to_lowercase (trim y))))
    \<and> (\<forall>k v. map_of (lf_maps L ! 2) k = Some v \<and> map_of (lf_maps L' ! 2) k = None \<longrightarrow>
         k \<in> set (failure_keys conn) \<and> sat_i32 (minute_of td - fst v) \<ge> 10)
    \<and> lf_maps L' ! 0 = lf_maps L ! 0 \<and> lf_maps L' ! 1 = lf_maps L ! 1 \<and> lf_os L' = lf_os L"
proof -
  let ?m = "decay_stale_failures (failure_keys conn) (minute_of td) 10 (lf_maps L ! 2)"
  have allows: "id_whitelist_allows (whitelist_entries opt) i \<longleftrightarrow>
      (\<exists>x\<in>set (whitelist_entries opt). \<exists>y\<in>{i, hd (split_on (\<lambda>c. c = CHR ''@'') i)}.
         glob (to_lowercase (trim x)) (to_lowercase (trim y)))" for i
    using assms(1) by (auto simp: id_whitelist_allows_def conn_wildcard_glob list_ex_iff Let_def)
  obtain ft q where ck: "check_map conn (minute_of tc) ?m = (ft, q)" by fastforce
  have r: "r = None \<longleftrightarrow> snd (check_map conn (minute_of tc) ?m) = None
      \<and> id_whitelist_allows (whitelist_entries opt) (cn_my_id conn)"
    and m: "lf_maps L' ! 2 = ?m \<or> (\<exists>ft. lf_maps L' ! 2 = update_map conn ft False ?m)"
    and o: "lf_maps L' ! 0 = lf_maps L ! 0" "lf_maps L' ! 1 = lf_maps L ! 1" "lf_os L' = lf_os L"
    using assms(2,3) ck unfolding check_id_whitelist_eq [OF assms(1)]
    by (cases q; auto simp: Let_def simp del: split_paired_Ex split: if_splits)+
  have "map_of ?m k = None" if "map_of (lf_maps L' ! 2) k = None" for k
    using m that update_keeps by metis
  then have "k \<in> set (failure_keys conn) \<and> sat_i32 (minute_of td - fst v) \<ge> 10"
    if "map_of (lf_maps L ! 2) k = Some v" "map_of (lf_maps L' ! 2) k = None" for k v
    using that map_of_decay [of "failure_keys conn" "minute_of td" 10 "lf_maps L ! 2" k] by (simp split: if_splits)
  with r allows o show ?thesis by blast
qed

lemma toy_whitelist:
  "whitelist_entries ''1?3, 77*'' \<noteq> []" "2 < length (lf_maps no_failures)"
  "check_id_whitelist ''1?3, 77*'' toy_conn 0 0 no_failures = (None, no_failures)"
  by code_simp+

theorem id_whitelist_gate_witness:
  "\<exists>x\<in>set (whitelist_entries ''1?3, 77*''). \<exists>y\<in>{cn_my_id toy_conn, hd (split_on (\<lambda>c. c = CHR ''@'') (cn_my_id toy_conn))}.
     glob (to_lowercase (trim x)) (to_lowercase (trim y))"
  using id_whitelist_gate [OF toy_whitelist] by blast

text \<open>Checks made before any of their failures is recorded.\<close>

fun os_checks :: "int list \<Rightarrow> OsCredentialFailureState \<Rightarrow> bool list" where
  "os_checks [] st = []"
| "os_checks (t # ts) st =
     (case evaluate_os_credential_policy TerminalOsLogin t st of (d, st') \<Rightarrow> od_allowed d # os_checks ts st')"

lemma refresh_again:
  assumes "st' = normalize_backoff t (reset_totals_on_idle t st)" "os_backoff_until_ms st' = None"
  shows "normalize_backoff t (reset_totals_on_idle t st') = st'"
proof -
  have n: "normalize_backoff t st' = st'" using assms(2) by (simp add: normalize_backoff_def)
  have "reset_totals_on_idle t (reset_totals_on_idle t st) = reset_totals_on_idle t st"
    by (cases "os_last_failure_ms st") (simp_all add: reset_totals_on_idle_def os_default_def)
  moreover have "os_last_failure_ms st' = os_last_failure_ms (reset_totals_on_idle t st)"
    unfolding assms(1) by (simp add: normalize_backoff_def split: option.splits)
  ultimately have "reset_totals_on_idle t st' = st'"
    using assms by (auto simp: reset_totals_on_idle_def [of t st'] os_default_def normalize_backoff_def
        reset_totals_on_idle_def split: option.splits if_splits)
  with n show ?thesis by simp
qed

lemma evaluate_os_again:
  assumes "evaluate_os_credential_policy TerminalOsLogin t st = (d, st')" "od_allowed d"
  shows "evaluate_os_credential_policy TerminalOsLogin t st' = (d, st')"
proof -
  have "st' = normalize_backoff t (reset_totals_on_idle t st)" "os_backoff_until_ms st' = None" "d = allow_decision"
    using assms by (auto simp: evaluate_os_credential_policy_def is_os_credential_scope_def Let_def
        block_decision_def split: option.splits)
  with refresh_again [OF this(1,2)] show ?thesis
    by (simp add: evaluate_os_credential_policy_def is_os_credential_scope_def Let_def)
qed

text \<open>The backoff counts recorded failures only. The gate that serialises logins is taken after the
  check and released before the failure is recorded: any number of connections that are checked before the
  first of their failures is recorded are all let through.\<close>

theorem os_parallel_guesses:
  assumes "evaluate_os_credential_policy TerminalOsLogin t st = (d, st')" "od_allowed d"
  shows "os_checks (replicate n t) st = replicate n True"
  using assms
proof (induction n arbitrary: st)
  case (Suc n)
  with evaluate_os_again [OF Suc.prems] show ?case by simp
qed simp

theorem os_parallel_guesses_witness:
  "os_checks (replicate 64 20000) (record_os_credential_failure TerminalOsLogin 1000
      (record_os_credential_failure TerminalOsLogin 0 os_default)) = replicate 64 True"
  by (rule os_parallel_guesses) code_simp+

end
