(* ===== verification/Session_Log.thy ===== *)
theory Session_Log
  imports Json_Value "HOL-Library.Char_ord" "HOL-Library.List_Lexorder" "HOL-Library.Option_ord"
begin

text \<open>
  The local register of incoming sessions, \<^verbatim>\<open>src/src/clanto/session_log.rs\<close>: the registry of
  sessions fed by audit events, the queue to the writer, the hash chain of the written records, retention,
  and the report with its verification of the chain. \<open>serde_json\<close>, SHA-256, sealing with the machine key
  and the reader of RFC 3339 times are the record \<open>LogLib\<close>; the clock, the option and what the disk does are
  the record \<open>LogEnv\<close>. A log file is its text; every file is readable. Threads are explicit: messages to the
  writer wait in a queue that \<open>writer_step\<close> consumes, and cleanups wait in \<open>sl_cleanups\<close>.
\<close>

section \<open>Model: registry\<close>

definition MAX_FILES :: nat where "MAX_FILES = 50"
definition CLEANUP_INTERVAL :: int where "CLEANUP_INTERVAL = 24 * 60 * 60"

record FileRecord =
  fr_direction :: string
  fr_name :: string
  fr_size :: int
  fr_scan :: string

record SessionRecord =
  sr_record_type :: string
  sr_session_key :: string
  sr_session_code :: string
  sr_ticket :: string
  sr_conn_id :: int
  sr_started_at :: string
  sr_ended_at :: string
  sr_duration_secs :: "nat option"
  sr_peer_id :: string
  sr_peer_name :: string
  sr_account_user :: string
  sr_os_user :: string
  sr_pc_name :: string
  sr_ip :: string
  sr_connection_type :: string
  sr_id_profile :: string
  sr_primary_auth :: "int option"
  sr_two_factor :: "int option"
  sr_posture_result :: string
  sr_posture_bypasses :: "string list"
  sr_permissions_used :: "string list"
  sr_files :: "FileRecord list"
  sr_close_reason :: string
  sr_closed :: bool

definition session_default :: SessionRecord where
  "session_default = \<lparr>sr_record_type = [], sr_session_key = [], sr_session_code = [], sr_ticket = [],
     sr_conn_id = 0, sr_started_at = [], sr_ended_at = [], sr_duration_secs = None, sr_peer_id = [],
     sr_peer_name = [], sr_account_user = [], sr_os_user = [], sr_pc_name = [], sr_ip = [],
     sr_connection_type = [], sr_id_profile = [], sr_primary_auth = None, sr_two_factor = None,
     sr_posture_result = [], sr_posture_bypasses = [], sr_permissions_used = [], sr_files = [],
     sr_close_reason = [], sr_closed = False\<rparr>"

record Registry =
  rg_sessions :: "(string \<times> SessionRecord) list"
  rg_active_by_conn :: "(int \<times> string) list"

definition registry_default :: Registry where
  "registry_default = \<lparr>rg_sessions = [], rg_active_by_conn = []\<rparr>"

definition retention_days :: "string \<Rightarrow> nat" where
  "retention_days opt = (case parse_uint u64_max opt of Some days \<Rightarrow> min days 3650 | None \<Rightarrow> 180)"

definition logging_enabled_for :: "nat \<Rightarrow> bool" where
  "logging_enabled_for days = (days \<noteq> 0)"

definition session_key_of :: "int \<Rightarrow> string \<Rightarrow> string" where
  "session_key_of conn_id started_at = show_int conn_id @ '':'' @ started_at"

definition value_str :: "Value \<Rightarrow> string \<Rightarrow> string" where
  "value_str v k = (case get_str k v of Some s \<Rightarrow> s | None \<Rightarrow> [])"

definition conn_id_of :: "Value \<Rightarrow> int option" where
  "conn_id_of v = map_option wrap_i32 (get_i64 ''conn_id'' v)"

definition connection_type :: "Value \<Rightarrow> string" where
  "connection_type v =
     (let t = get_i64 ''type'' v in
      if t = Some 1 then ''file'' else if t = Some 2 then ''tunnel'' else if t = Some 3 then ''camera''
      else if t = Some 4 then ''terminal'' else ''control'')"

text \<open>\<open>session_for\<close> with the change made through the reference it returns.\<close>

definition session_for :: "Registry \<Rightarrow> int \<Rightarrow> (string \<times> SessionRecord) option" where
  "session_for reg conn_id =
     Option.bind (map_of (rg_active_by_conn reg) conn_id) (\<lambda>k.
       map_option (Pair k) (map_of (rg_sessions reg) k))"

definition put_session :: "string \<Rightarrow> SessionRecord \<Rightarrow> Registry \<Rightarrow> Registry" where
  "put_session k r reg = reg\<lparr>rg_sessions := assoc_update k (\<lambda>_. r) (rg_sessions reg)\<rparr>"

definition start :: "string \<Rightarrow> Value \<Rightarrow> SessionRecord option" where
  "start now v =
     map_option (\<lambda>conn_id. session_default\<lparr>sr_record_type := ''session'', sr_session_key := session_key_of conn_id now,
         sr_conn_id := conn_id, sr_started_at := now, sr_ip := value_str v ''ip'', sr_posture_result := ''not_checked''\<rparr>)
       (conn_id_of v)"

text \<open>One turn of the loop over the metadata fields: the record, and whether any field changed.\<close>

definition meta_step ::
    "Value \<Rightarrow> string \<Rightarrow> (SessionRecord \<Rightarrow> string) \<Rightarrow> (string \<Rightarrow> SessionRecord \<Rightarrow> SessionRecord)
       \<Rightarrow> SessionRecord \<times> bool \<Rightarrow> SessionRecord \<times> bool" where
  "meta_step v k get upd rc =
     (let x = value_str v k in
      if x \<noteq> [] \<and> get (fst rc) \<noteq> x then (upd x (fst rc), True) else rc)"

definition apply_metadata :: "Value \<Rightarrow> SessionRecord \<Rightarrow> SessionRecord \<times> bool" where
  "apply_metadata v r =
     meta_step v ''pc_name'' sr_pc_name (\<lambda>x r. r\<lparr>sr_pc_name := x\<rparr>)
     (meta_step v ''os_user'' sr_os_user (\<lambda>x r. r\<lparr>sr_os_user := x\<rparr>)
     (meta_step v ''account_user'' sr_account_user (\<lambda>x r. r\<lparr>sr_account_user := x\<rparr>)
     (meta_step v ''id_profile'' sr_id_profile (\<lambda>x r. r\<lparr>sr_id_profile := x\<rparr>)
     (meta_step v ''ticket'' sr_ticket (\<lambda>x r. r\<lparr>sr_ticket := x\<rparr>)
     (meta_step v ''session_code'' sr_session_code (\<lambda>x r. r\<lparr>sr_session_code := x\<rparr>) (r, False))))))"

definition apply_close :: "string \<Rightarrow> Value \<Rightarrow> SessionRecord \<Rightarrow> SessionRecord" where
  "apply_close now v r =
     r\<lparr>sr_ended_at := now, sr_duration_secs := get_u64 ''duration_secs'' v, sr_closed := True,
       sr_close_reason := (if value_str v ''reason'' = [] then ''end'' else value_str v ''reason'')\<rparr>"

definition nth_str :: "Value list \<Rightarrow> nat \<Rightarrow> string" where
  "nth_str xs i = (if i < length xs then (case as_str (xs ! i) of Some s \<Rightarrow> s | None \<Rightarrow> []) else [])"

definition apply_peer :: "Value \<Rightarrow> Value list \<Rightarrow> SessionRecord \<Rightarrow> SessionRecord" where
  "apply_peer v peer r =
     r\<lparr>sr_peer_id := nth_str peer 0, sr_peer_name := nth_str peer 1, sr_connection_type := connection_type v,
       sr_primary_auth := get_i64 ''primary_auth'' v, sr_two_factor := get_i64 ''two_factor'' v,
       sr_posture_result := (case get_str ''posture_result'' v of Some x \<Rightarrow> x | None \<Rightarrow> sr_posture_result r)\<rparr>"

definition apply_bypasses :: "Value \<Rightarrow> SessionRecord \<Rightarrow> SessionRecord" where
  "apply_bypasses v r =
     (case Option.bind (value_get ''posture_bypasses'' v) as_array of
        Some bs \<Rightarrow> r\<lparr>sr_posture_result := ''bypassed'', sr_posture_bypasses := List.map_filter as_str bs\<rparr>
      | None \<Rightarrow> r)"

text \<open>The record changed by an event of a known session, and the copy to be written. The copy of a
  closing record is taken before the bypasses are applied.\<close>

definition apply_event :: "string \<Rightarrow> Value \<Rightarrow> SessionRecord \<Rightarrow> SessionRecord option \<times> SessionRecord" where
  "apply_event now v r =
     (case apply_metadata v r of (r, changed) \<Rightarrow>
        if get_str ''action'' v = Some ''close'' then
          let r = apply_close now v r in (Some r, apply_bypasses v r)
        else
          let r = (case Option.bind (value_get ''peer'' v) as_array of Some peer \<Rightarrow> apply_peer v peer r | None \<Rightarrow> r);
              r = apply_bypasses v r
          in (if changed then Some r else None, r))"

definition apply_connection :: "string \<Rightarrow> Value \<Rightarrow> Registry \<Rightarrow> SessionRecord option \<times> Registry" where
  "apply_connection now v reg =
     (if get_str ''action'' v = Some ''new'' then
        (case start now v of
           None \<Rightarrow> (None, reg)
         | Some r \<Rightarrow>
             (Some r, \<lparr>rg_sessions = assoc_insert (sr_session_key r) r (rg_sessions reg),
                rg_active_by_conn = assoc_insert (sr_conn_id r) (sr_session_key r) (rg_active_by_conn reg)\<rparr>))
      else
        (case conn_id_of v of
           None \<Rightarrow> (None, reg)
         | Some conn_id \<Rightarrow>
             (case session_for reg conn_id of
                None \<Rightarrow> (None, reg)
              | Some (k, r) \<Rightarrow>
                  (case apply_event now v r of (to_write, r') \<Rightarrow>
                     let reg = put_session k r' reg in
                     (to_write,
                      if (case to_write of Some w \<Rightarrow> sr_closed w | None \<Rightarrow> False)
                      then reg\<lparr>rg_active_by_conn := assoc_remove conn_id (rg_active_by_conn reg)\<rparr> else reg)))))"

definition hash_insert :: "string \<Rightarrow> string list \<Rightarrow> string list" where
  "hash_insert x xs = (if x \<in> set xs then xs else xs @ [x])"

text \<open>\<open>rsplit\<close> on the separators, first piece.\<close>

definition basename :: "string \<Rightarrow> string" where
  "basename path = last (split_on (\<lambda>c. c = CHR ''/'' \<or> c = CHR 0x5C) path)"

fun push_files :: "string \<Rightarrow> string \<Rightarrow> Value list \<Rightarrow> FileRecord list \<Rightarrow> FileRecord list" where
  "push_files direction path_name [] files = files"
| "push_files direction path_name (file # rest) files =
     (if length files = MAX_FILES then files
      else
        push_files direction path_name rest
          (case as_array file of
             None \<Rightarrow> files
           | Some values \<Rightarrow>
               let name = nth_str values 0 in
               files @ [\<lparr>fr_direction = direction, fr_name = (if name = [] then path_name else name),
                 fr_size = (case (if 1 < length values then as_i64 (values ! 1) else None) of Some n \<Rightarrow> n | None \<Rightarrow> 0),
                 fr_scan = []\<rparr>]))"

definition on_file :: "(string \<Rightarrow> Value option) \<Rightarrow> Value \<Rightarrow> Registry \<Rightarrow> Registry" where
  "on_file parse v reg =
     (case conn_id_of v of
        None \<Rightarrow> reg
      | Some conn_id \<Rightarrow>
          let direction = (if get_i64 ''type'' v = Some 0 then ''to_peer'' else ''from_peer'');
              info = Option.bind (get_str ''info'' v) parse;
              path_name = basename (value_str v ''path'')
          in case session_for reg conn_id of
               None \<Rightarrow> reg
             | Some (k, r) \<Rightarrow>
                 let r = r\<lparr>sr_permissions_used := hash_insert ''file_transfer'' (sr_permissions_used r)\<rparr>;
                     r = (case Option.bind (Option.bind info (value_get ''files'')) as_array of
                            Some fs \<Rightarrow> r\<lparr>sr_files := push_files direction path_name fs (sr_files r)\<rparr>
                          | None \<Rightarrow> r)
                 in put_session k r reg)"

definition get_or_null :: "string \<Rightarrow> Value \<Rightarrow> Value" where
  "get_or_null k v = (case value_get k v of Some x \<Rightarrow> x | None \<Rightarrow> VNull)"

definition alarm_record :: "(string \<Rightarrow> Value option) \<Rightarrow> string \<Rightarrow> Value \<Rightarrow> Value" where
  "alarm_record parse now v =
     VObject
       ((case Option.bind (get_str ''info'' v) parse of
           None \<Rightarrow> []
         | Some info \<Rightarrow>
             [(''ip'', get_or_null ''ip'' info), (''peer_id'', get_or_null ''id'' info), (''peer_name'', get_or_null ''name'' info)]
             @ (case value_get ''reason_class'' info of Some x \<Rightarrow> [(''reason_class'', x)] | None \<Rightarrow> [])
             @ (case value_get ''reason'' info of Some x \<Rightarrow> [(''reason_detail'', x)] | None \<Rightarrow> [])
             @ (case value_get ''failed_rules'' info of Some x \<Rightarrow> [(''failed_rules'', x)] | None \<Rightarrow> []))
        @ [(''record_type'', VString ''rejected_attempt''), (''occurred_at'', VString now),
           (''conn_id'', get_or_null ''conn_id'' v), (''alarm_type'', get_or_null ''typ'' v),
           (''details'', get_or_null ''info'' v)])"

definition is_file_security_kind :: "string \<Rightarrow> bool" where
  "is_file_security_kind kind =
     (kind \<in> {''clanto_file_malware'', ''clanto_file_unscannable'', ''clanto_file_direction_blocked'',
        ''clanto_file_extension_blocked''})"

definition scan_label :: "string \<Rightarrow> string" where
  "scan_label kind =
     (if kind = ''clanto_file_clean'' then ''clean''
      else if kind = ''clanto_file_malware'' then ''malware''
      else if kind = ''clanto_file_unscannable'' then ''unscannable''
      else if kind = ''clanto_file_direction_blocked'' then ''blocked_direction''
      else if kind = ''clanto_file_extension_blocked'' then ''blocked_extension''
      else [])"

fun scan_first :: "string \<Rightarrow> string \<Rightarrow> FileRecord list \<Rightarrow> FileRecord list option" where
  "scan_first name scan [] = None"
| "scan_first name scan (f # fs) =
     (if fr_direction f = ''from_peer'' \<and> fr_scan f = [] \<and> basename (fr_name f) = name
      then Some (f\<lparr>fr_scan := scan\<rparr> # fs)
      else map_option (Cons f) (scan_first name scan fs))"

definition apply_file_scan :: "string \<Rightarrow> int option \<Rightarrow> string \<Rightarrow> FileRecord list \<Rightarrow> FileRecord list" where
  "apply_file_scan name sz scan files =
     (case scan_first name scan files of
        Some files' \<Rightarrow> files'
      | None \<Rightarrow>
          if length files < MAX_FILES then
            files @ [\<lparr>fr_direction = ''from_peer'', fr_name = name,
              fr_size = (case sz of Some n \<Rightarrow> n | None \<Rightarrow> 0), fr_scan = scan\<rparr>]
          else files)"

definition on_file_scan :: "string \<Rightarrow> Value \<Rightarrow> Registry \<Rightarrow> Registry" where
  "on_file_scan kind v reg =
     (case conn_id_of v of
        None \<Rightarrow> reg
      | Some conn_id \<Rightarrow>
          (case session_for reg conn_id of
             None \<Rightarrow> reg
           | Some (k, r) \<Rightarrow>
               put_session k (r\<lparr>sr_files := apply_file_scan (basename (value_str v ''name'')) (get_i64 ''size'' v)
                 (scan_label kind) (sr_files r)\<rparr>) reg))"

definition opt_number :: "int option \<Rightarrow> Value" where
  "opt_number n = (case n of Some x \<Rightarrow> VNumber x | None \<Rightarrow> VNull)"

definition file_security_record :: "string \<Rightarrow> string \<Rightarrow> Value \<Rightarrow> Value" where
  "file_security_record now kind v =
     VObject [(''record_type'', VString ''file_security''), (''occurred_at'', VString now),
       (''conn_id'', opt_number (get_i64 ''conn_id'' v)), (''event'', VString kind),
       (''name'', VString (basename (value_str v ''name''))), (''size'', opt_number (map_option int (get_u64 ''size'' v))),
       (''sha256'', VString (value_str v ''sha256'')), (''engine'', VString (value_str v ''engine'')),
       (''result'', VString (value_str v ''result''))]"

definition mark_permission_in :: "int \<Rightarrow> string \<Rightarrow> Registry \<Rightarrow> Registry" where
  "mark_permission_in conn_id permission reg =
     (case session_for reg conn_id of
        None \<Rightarrow> reg
      | Some (k, r) \<Rightarrow>
          put_session k (r\<lparr>sr_permissions_used := hash_insert permission (sr_permissions_used r)\<rparr>) reg)"

text \<open>\<open>serde_json::to_value\<close> with the derived serialisers; empty \<open>ticket\<close> and \<open>scan\<close> are left out.\<close>

definition file_value :: "FileRecord \<Rightarrow> Value" where
  "file_value f =
     VObject ([(''direction'', VString (fr_direction f)), (''name'', VString (fr_name f)), (''size'', VNumber (fr_size f))]
       @ (if fr_scan f = [] then [] else [(''scan'', VString (fr_scan f))]))"

definition session_value :: "SessionRecord \<Rightarrow> Value" where
  "session_value r =
     VObject ([(''record_type'', VString (sr_record_type r)), (''session_key'', VString (sr_session_key r)),
       (''session_code'', VString (sr_session_code r))]
     @ (if sr_ticket r = [] then [] else [(''ticket'', VString (sr_ticket r))])
     @ [(''conn_id'', VNumber (sr_conn_id r)), (''started_at'', VString (sr_started_at r)),
       (''ended_at'', VString (sr_ended_at r)), (''duration_secs'', opt_number (map_option int (sr_duration_secs r))),
       (''peer_id'', VString (sr_peer_id r)), (''peer_name'', VString (sr_peer_name r)),
       (''account_user'', VString (sr_account_user r)), (''os_user'', VString (sr_os_user r)),
       (''pc_name'', VString (sr_pc_name r)), (''ip'', VString (sr_ip r)),
       (''connection_type'', VString (sr_connection_type r)), (''id_profile'', VString (sr_id_profile r)),
       (''primary_auth'', opt_number (sr_primary_auth r)), (''two_factor'', opt_number (sr_two_factor r)),
       (''posture_result'', VString (sr_posture_result r)),
       (''posture_bypasses'', VArray (map VString (sr_posture_bypasses r))),
       (''permissions_used'', VArray (map VString (sr_permissions_used r))),
       (''files'', VArray (map file_value (sr_files r))), (''close_reason'', VString (sr_close_reason r)),
       (''closed'', VBool (sr_closed r))])"

definition completed_session :: "int \<Rightarrow> Registry \<Rightarrow> Value option \<times> Registry" where
  "completed_session conn_id reg =
     (case find (\<lambda>(k, r). sr_conn_id r = conn_id \<and> sr_closed r) (rg_sessions reg) of
        None \<Rightarrow> (None, reg)
      | Some (k, r) \<Rightarrow> (Some (session_value r), reg\<lparr>rg_sessions := assoc_remove k (rg_sessions reg)\<rparr>))"

section \<open>Model: chain\<close>

text \<open>\<open>ll_seal\<close> is \<open>encrypt_str_or_original_scoped\<close> with the machine key and the limit of
  256 Ki characters: without the key it gives its argument back. \<open>ll_unseal\<close> gives the text and whether it was
  opened. \<open>ll_sha\<close> is the hexadecimal SHA-256 of a text.\<close>

record LogLib =
  ll_print :: "Value \<Rightarrow> string"
  ll_parse :: "string \<Rightarrow> Value option"
  ll_seal :: "string \<Rightarrow> string"
  ll_unseal :: "string \<Rightarrow> string \<times> bool"
  ll_sha :: "string \<Rightarrow> string"
  ll_millis :: "string \<Rightarrow> int option"

definition NL :: char where "NL = CHR 0x0A"

definition seal_line :: "LogLib \<Rightarrow> Value \<Rightarrow> string option" where
  "seal_line J v =
     (let plain = ll_print J v; sealed = ll_seal J plain
      in if sealed = [] \<or> sealed = plain then None else Some sealed)"

definition open_line :: "LogLib \<Rightarrow> string \<Rightarrow> Value option" where
  "open_line J line =
     (if starts_with line ''{'' then ll_parse J line
      else (case ll_unseal J line of (plain, success) \<Rightarrow> if success then ll_parse J plain else None))"

record ChainLink =
  cl_seq :: nat
  cl_hash :: string

definition CHAIN_GENESIS :: string where
  "CHAIN_GENESIS = replicate 64 CHR ''0''"

definition chain_text :: "LogLib \<Rightarrow> string \<Rightarrow> Value \<Rightarrow> string" where
  "chain_text J prev v = prev @ NL # ll_print J (value_remove ''_hash'' v)"

definition chain_hash :: "LogLib \<Rightarrow> string \<Rightarrow> Value \<Rightarrow> string" where
  "chain_hash J prev v = ll_sha J (chain_text J prev v)"

text \<open>\<open>None\<close> is the panic of an indexed assignment on a value that is no object.\<close>

definition chain_value :: "LogLib \<Rightarrow> ChainLink option \<Rightarrow> Value \<Rightarrow> (ChainLink \<times> Value) option" where
  "chain_value J lst v =
     (let seq = (case lst of None \<Rightarrow> 1 | Some l \<Rightarrow> add_u64 (cl_seq l) 1);
          prev = (case lst of None \<Rightarrow> CHAIN_GENESIS | Some l \<Rightarrow> cl_hash l)
      in Option.bind (value_set ''_seq'' (VNumber (int seq)) v) (\<lambda>v.
         Option.bind (value_set ''_prev'' (VString prev) v) (\<lambda>v.
           let hash = chain_hash J prev v in
           map_option (Pair \<lparr>cl_seq = seq, cl_hash = hash\<rparr>) (value_set ''_hash'' (VString hash) v))))"

definition link_of :: "Value \<Rightarrow> (ChainLink \<times> string) option" where
  "link_of v =
     Option.bind (get_u64 ''_seq'' v) (\<lambda>seq.
     Option.bind (get_str ''_hash'' v) (\<lambda>hash.
       map_option (Pair \<lparr>cl_seq = seq, cl_hash = hash\<rparr>) (get_str ''_prev'' v)))"

record ChainVerifier =
  cv_last :: "ChainLink option"
  cv_gap :: bool

definition verifier_default :: ChainVerifier where
  "verifier_default = \<lparr>cv_last = None, cv_gap = False\<rparr>"

definition check :: "LogLib \<Rightarrow> Value option \<Rightarrow> ChainVerifier \<Rightarrow> bool option \<times> ChainVerifier" where
  "check J value cv =
     (case value of
        None \<Rightarrow> (None, cv\<lparr>cv_gap := True\<rparr>)
      | Some v \<Rightarrow>
          (case link_of v of
             None \<Rightarrow> (None, cv)
           | Some (link, prev) \<Rightarrow>
               let linked = (case cv_last cv of
                     Some l \<Rightarrow> \<not> cv_gap cv \<and> cl_seq link = add_u64 (cl_seq l) 1 \<and> prev = cl_hash l
                   | None \<Rightarrow> True);
                   good = (linked \<and> chain_hash J prev v = cl_hash link)
               in (Some good, \<lparr>cv_last = Some link, cv_gap = False\<rparr>)))"

section \<open>Model: files and the writer\<close>

record LogFile =
  lg_text :: string
  lg_modified :: int

text \<open>\<open>str::lines\<close>: without the last piece when it is empty, and without a carriage return at the end of
  a line.\<close>

definition strip_cr :: "string \<Rightarrow> string" where
  "strip_cr s = (if s \<noteq> [] \<and> last s = CHR 0x0D then butlast s else s)"

definition text_lines :: "string \<Rightarrow> string list" where
  "text_lines s =
     (let ps = split_on (\<lambda>c. c = NL) s
      in map strip_cr (if last ps = [] then butlast ps else ps))"

definition session_files :: "(string \<times> LogFile) list \<Rightarrow> string list" where
  "session_files dir = sort (filter (\<lambda>n. starts_with n ''sessions-'') (map fst dir))"

text \<open>The lines of all the files in their order.\<close>

definition log_lines :: "(string \<times> LogFile) list \<Rightarrow> string list" where
  "log_lines dir =
     concat (map (\<lambda>n. case map_of dir n of Some f \<Rightarrow> text_lines (lg_text f) | None \<Rightarrow> []) (session_files dir))"

definition last_link :: "LogLib \<Rightarrow> (string \<times> LogFile) list \<Rightarrow> ChainLink option" where
  "last_link J dir =
     fold (\<lambda>v acc. case link_of v of Some (link, _) \<Rightarrow> Some link | None \<Rightarrow> acc)
       (List.map_filter (open_line J) (log_lines dir)) None"

text \<open>A write may fail before the file is opened or after some bytes.\<close>

datatype Disk = NotOpened | Partial nat | Whole

text \<open>What a call meets outside: the option, the time as text, in seconds and as the name of the month, what the disk
  does with a write, and which files it lets the call remove (a failed removal is only logged).\<close>

record LogEnv =
  le_option :: string
  le_now :: string
  le_time :: int
  le_month :: string
  le_disk :: Disk
  le_remove :: "string \<Rightarrow> bool"

datatype WriterMessage = Append Value | ClearLog

record SessionLog =
  sl_registry :: Registry
  sl_disabled_cleared :: bool
  sl_last_cleanup :: "int option"
  sl_cleanups :: "nat list"
  sl_queue :: "WriterMessage list"
  sl_chain :: "ChainLink option option"
  sl_dir :: "(string \<times> LogFile) list"

definition enabled :: "LogEnv \<Rightarrow> bool" where
  "enabled E = logging_enabled_for (retention_days (le_option E))"

definition file_name :: "LogEnv \<Rightarrow> string" where
  "file_name E = ''sessions-'' @ le_month E @ ''.jsonl''"

definition append_text :: "LogEnv \<Rightarrow> string \<Rightarrow> (string \<times> LogFile) list \<Rightarrow> (string \<times> LogFile) list" where
  "append_text E bytes dir =
     (let old = (case map_of dir (file_name E) of Some f \<Rightarrow> lg_text f | None \<Rightarrow> [])
      in assoc_insert (file_name E) \<lparr>lg_text = old @ bytes, lg_modified = le_time E\<rparr> dir)"

definition append_record :: "LogLib \<Rightarrow> LogEnv \<Rightarrow> Value \<Rightarrow> (string \<times> LogFile) list \<Rightarrow> bool \<times> (string \<times> LogFile) list" where
  "append_record J E v dir =
     (case seal_line J v of
        None \<Rightarrow> (False, dir)
      | Some line \<Rightarrow>
          (case le_disk E of
             NotOpened \<Rightarrow> (False, dir)
           | Partial n \<Rightarrow> (False, append_text E (take n (line @ [NL])) dir)
           | Whole \<Rightarrow> (True, append_text E (line @ [NL]) dir)))"

definition clear_files :: "LogEnv \<Rightarrow> (string \<times> LogFile) list \<Rightarrow> (string \<times> LogFile) list" where
  "clear_files E dir = filter (\<lambda>(n, f). \<not> (starts_with n ''sessions-'' \<and> le_remove E n)) dir"

text \<open>The writer thread takes the next message. \<open>None\<close> is a panic of the thread.\<close>

definition writer_step :: "LogLib \<Rightarrow> LogEnv \<Rightarrow> SessionLog \<Rightarrow> SessionLog option" where
  "writer_step J E S =
     (case sl_queue S of
        [] \<Rightarrow> Some S
      | Append v # rest \<Rightarrow>
          if enabled E then
            let lst = (case sl_chain S of Some l \<Rightarrow> l | None \<Rightarrow> last_link J (sl_dir S)) in
            map_option (\<lambda>(link, v').
                case append_record J E v' (sl_dir S) of (ok, dir) \<Rightarrow>
                  S\<lparr>sl_queue := rest, sl_dir := dir, sl_chain := Some (if ok then Some link else lst)\<rparr>)
              (chain_value J lst v)
          else Some (S\<lparr>sl_queue := rest\<rparr>)
      | ClearLog # rest \<Rightarrow> Some (S\<lparr>sl_queue := rest, sl_dir := clear_files E (sl_dir S), sl_chain := Some None\<rparr>))"

definition clear_if_disabled :: "SessionLog \<Rightarrow> SessionLog" where
  "clear_if_disabled S =
     (if sl_disabled_cleared S then S
      else S\<lparr>sl_disabled_cleared := True, sl_registry := registry_default, sl_queue := sl_queue S @ [ClearLog]\<rparr>)"

definition cleanup_if_due :: "LogEnv \<Rightarrow> SessionLog \<Rightarrow> SessionLog" where
  "cleanup_if_due E S =
     (if (case sl_last_cleanup S of Some at \<Rightarrow> at \<le> le_time E \<and> le_time E - at < CLEANUP_INTERVAL | None \<Rightarrow> False) then S
      else S\<lparr>sl_last_cleanup := Some (le_time E), sl_cleanups := sl_cleanups S @ [retention_days (le_option E)]\<rparr>)"

definition is_expired :: "int \<Rightarrow> int \<Rightarrow> bool" where
  "is_expired modified cutoff = (modified < cutoff)"

definition cleanup_old_files :: "LogEnv \<Rightarrow> nat \<Rightarrow> (string \<times> LogFile) list \<Rightarrow> (string \<times> LogFile) list" where
  "cleanup_old_files E days dir =
     filter (\<lambda>(n, f). \<not> (starts_with n ''sessions-'' \<and> is_expired (lg_modified f) (le_time E - int (days * 86400))
       \<and> le_remove E n)) dir"

definition initialize :: "LogEnv \<Rightarrow> SessionLog \<Rightarrow> SessionLog" where
  "initialize E S = (if enabled E then cleanup_if_due E S else clear_if_disabled S)"

text \<open>What the maintenance thread does once a day.\<close>

definition maintenance_turn :: "LogEnv \<Rightarrow> SessionLog \<Rightarrow> SessionLog" where
  "maintenance_turn E S =
     (if enabled E then
        S\<lparr>sl_disabled_cleared := False, sl_dir := cleanup_old_files E (retention_days (le_option E)) (sl_dir S)\<rparr>
      else clear_if_disabled S)"

definition send :: "WriterMessage \<Rightarrow> SessionLog \<Rightarrow> SessionLog" where
  "send msg S = S\<lparr>sl_queue := sl_queue S @ [msg]\<rparr>"

definition on_connection :: "LogEnv \<Rightarrow> Value \<Rightarrow> SessionLog \<Rightarrow> SessionLog" where
  "on_connection E v S =
     (case apply_connection (le_now E) v (sl_registry S) of (to_write, reg) \<Rightarrow>
        let S = S\<lparr>sl_registry := reg\<rparr>
        in case to_write of Some r \<Rightarrow> send (Append (session_value r)) S | None \<Rightarrow> S)"

definition on_audit :: "LogLib \<Rightarrow> LogEnv \<Rightarrow> string \<Rightarrow> Value \<Rightarrow> SessionLog \<Rightarrow> SessionLog" where
  "on_audit J E kind v S =
     (if \<not> enabled E then clear_if_disabled S
      else
        let S = cleanup_if_due E (S\<lparr>sl_disabled_cleared := False\<rparr>) in
        if kind = ''conn'' then on_connection E v S
        else if kind = ''file'' then S\<lparr>sl_registry := on_file (ll_parse J) v (sl_registry S)\<rparr>
        else if kind = ''alarm'' then send (Append (alarm_record (ll_parse J) (le_now E) v)) S
        else if kind = ''clanto_file_clean'' then S\<lparr>sl_registry := on_file_scan kind v (sl_registry S)\<rparr>
        else if is_file_security_kind kind then
          send (Append (file_security_record (le_now E) kind v)) (S\<lparr>sl_registry := on_file_scan kind v (sl_registry S)\<rparr>)
        else S)"

definition mark_permission :: "LogEnv \<Rightarrow> bool \<Rightarrow> int \<Rightarrow> string \<Rightarrow> SessionLog \<Rightarrow> SessionLog" where
  "mark_permission E unlocked conn_id permission S =
     (if enabled E \<and> unlocked then S\<lparr>sl_registry := mark_permission_in conn_id permission (sl_registry S)\<rparr> else S)"

definition retention_changed :: "LogEnv \<Rightarrow> SessionLog \<Rightarrow> SessionLog" where
  "retention_changed E S =
     (let S = S\<lparr>sl_disabled_cleared := False\<rparr> in if enabled E then cleanup_if_due E S else clear_if_disabled S)"

section \<open>Model: report\<close>

record Report =
  rp_sessions :: "(string \<times> Value) list"
  rp_broken :: "string list"
  rp_records :: "Value list"
  rp_verifier :: ChainVerifier

definition report_default :: Report where
  "report_default = \<lparr>rp_sessions = [], rp_broken = [], rp_records = [], rp_verifier = verifier_default\<rparr>"

definition started_or_occurred :: "Value \<Rightarrow> string option" where
  "started_or_occurred v =
     Option.bind (case value_get ''started_at'' v of Some x \<Rightarrow> Some x | None \<Rightarrow> value_get ''occurred_at'' v) as_str"

text \<open>The record as shown: without the fields of the chain, with the verdict. \<open>None\<close> is the panic of the
  indexed assignment; a record with a verdict is an object.\<close>

definition shown :: "bool option \<Rightarrow> Value \<Rightarrow> Value option" where
  "shown verdict v =
     (let v = value_remove ''_hash'' (value_remove ''_prev'' (value_remove ''_seq'' v))
      in case verdict of
           None \<Rightarrow> Some v
         | Some ok \<Rightarrow> value_set ''integrity'' (VString (if ok then ''ok'' else ''broken'')) v)"

definition in_interval :: "int \<Rightarrow> int \<Rightarrow> int option \<Rightarrow> bool" where
  "in_interval from_ms to_ms at =
     (case at of Some a \<Rightarrow> (from_ms \<le> 0 \<or> a \<ge> from_ms) \<and> (to_ms \<le> 0 \<or> a \<le> to_ms) | None \<Rightarrow> False)"

definition replaces :: "(string \<times> Value) list \<Rightarrow> string \<Rightarrow> Value \<Rightarrow> bool" where
  "replaces sessions k v =
     (Option.bind (Option.bind (map_of sessions k) (value_get ''closed'')) as_bool \<noteq> Some True
      \<or> Option.bind (value_get ''closed'' v) as_bool = Some True)"

definition report_line :: "LogLib \<Rightarrow> int \<Rightarrow> int \<Rightarrow> string \<Rightarrow> Report \<Rightarrow> Report option" where
  "report_line J from_ms to_ms line R =
     (let opened = open_line J line in
      case check J opened (rp_verifier R) of (verdict, cv) \<Rightarrow>
        let R = R\<lparr>rp_verifier := cv\<rparr> in
        case opened of
          None \<Rightarrow> Some R
        | Some v \<Rightarrow>
            map_option (\<lambda>v.
              let R = (if verdict = Some False then
                         (case get_str ''session_key'' v of Some k \<Rightarrow> R\<lparr>rp_broken := hash_insert k (rp_broken R)\<rparr> | None \<Rightarrow> R)
                       else R)
              in if in_interval from_ms to_ms (Option.bind (started_or_occurred v) (ll_millis J)) then
                   (case get_str ''session_key'' v of
                      Some k \<Rightarrow>
                        if replaces (rp_sessions R) k v then R\<lparr>rp_sessions := assoc_insert k v (rp_sessions R)\<rparr> else R
                    | None \<Rightarrow> R\<lparr>rp_records := rp_records R @ [v]\<rparr>)
                 else R)
              (shown verdict v))"

fun report_lines :: "LogLib \<Rightarrow> int \<Rightarrow> int \<Rightarrow> string list \<Rightarrow> Report \<Rightarrow> Report option" where
  "report_lines J from_ms to_ms [] R = Some R"
| "report_lines J from_ms to_ms (line # rest) R =
     Option.bind (report_line J from_ms to_ms line R) (report_lines J from_ms to_ms rest)"

text \<open>The last loop: a session with a broken record is shown as broken.\<close>

definition mark_broken :: "string list \<Rightarrow> string \<times> Value \<Rightarrow> Value option" where
  "mark_broken broken kv =
     (if fst kv \<in> set broken then value_set ''integrity'' (VString ''broken'') (snd kv) else Some (snd kv))"

text \<open>\<open>sort_by\<close> with the sides exchanged: latest first, ties in their order.\<close>

definition sort_latest :: "Value list \<Rightarrow> Value list" where
  "sort_latest vs = rev (sort_key started_or_occurred (rev vs))"

definition report_values :: "LogLib \<Rightarrow> int \<Rightarrow> int \<Rightarrow> (string \<times> LogFile) list \<Rightarrow> Value list option" where
  "report_values J from_ms to_ms dir =
     Option.bind (report_lines J from_ms to_ms (log_lines dir) report_default) (\<lambda>R.
       map_option (\<lambda>vs. sort_latest (rp_records R @ vs))
         (those (map (mark_broken (rp_broken R)) (rp_sessions R))))"

definition report_json :: "LogLib \<Rightarrow> int \<Rightarrow> int \<Rightarrow> (string \<times> LogFile) list \<Rightarrow> string option" where
  "report_json J from_ms to_ms dir = map_option (\<lambda>vs. ll_print J (VArray vs)) (report_values J from_ms to_ms dir)"

section \<open>Registry\<close>

definition session_ok :: "string \<times> SessionRecord \<Rightarrow> bool" where
  "session_ok kr \<longleftrightarrow> (\<exists>t. fst kr = session_key_of (sr_conn_id (snd kr)) t) \<and> length (sr_files (snd kr)) \<le> MAX_FILES"

definition registry_ok :: "Registry \<Rightarrow> bool" where
  "registry_ok reg \<longleftrightarrow>
     keys_ok (rg_sessions reg) \<and> keys_ok (rg_active_by_conn reg) \<and> (\<forall>kr\<in>set (rg_sessions reg). session_ok kr)
     \<and> (\<forall>c k. map_of (rg_active_by_conn reg) c = Some k \<longrightarrow>
          (\<exists>r. map_of (rg_sessions reg) k = Some r \<and> sr_conn_id r = c \<and> \<not> sr_closed r))"

lemma show_nat_inj: "show_nat a = show_nat b \<Longrightarrow> a = b"
proof -
  assume e: "show_nat a = show_nat b"
  have "Some a = parse_uint (max a b) (show_nat a)" by (rule parse_show [symmetric]) simp
  also have "\<dots> = parse_uint (max a b) (show_nat b)" unfolding e ..
  also have "\<dots> = Some b" by (rule parse_show) simp
  finally show ?thesis by simp
qed

lemma show_nat_chars: "c \<in> set (show_nat n) \<Longrightarrow> is_ascii_digit c"
  using show_nat_digits by blast

lemma show_int_inj: "show_int a = show_int b \<Longrightarrow> a = b"
proof -
  assume e: "show_int a = show_int b"
  have m: "show_nat n \<noteq> CHR ''-'' # s" for n s using show_nat_chars [of "CHR ''-''" n] by (auto simp: is_ascii_digit_def)
  show ?thesis using e m [of "nat a"] m [of "nat b"] show_nat_inj [of "nat (- a)" "nat (- b)"] show_nat_inj [of "nat a" "nat b"]
    by (auto simp: show_int_def split: if_splits) (metis m)+
qed

lemma show_int_chars: "CHR '':'' \<notin> set (show_int n)"
  using show_nat_chars [of "CHR '':''"] by (auto simp: show_int_def is_ascii_digit_def)

lemma session_key_inj: "session_key_of a s = session_key_of b t \<Longrightarrow> a = b"
proof -
  assume e: "session_key_of a s = session_key_of b t"
  have "split_once (\<lambda>c. c = CHR '':'') (session_key_of n u) = Some (show_int n, u)" for n u
    using split_once_append [of "show_int n" "\<lambda>c. c = CHR '':''" "CHR '':''" u] show_int_chars [of n]
    by (auto simp: session_key_of_def)
  from this [of a s] this [of b t] e show_int_inj show ?thesis by simp
qed

lemma session_for_Some:
  "session_for reg c = Some (k, r) \<longleftrightarrow> map_of (rg_active_by_conn reg) c = Some k \<and> map_of (rg_sessions reg) k = Some r"
  by (auto simp: session_for_def bind_eq_Some_conv)

lemma active_session:
  assumes "registry_ok reg" "map_of (rg_active_by_conn reg) c = Some k" "map_of (rg_sessions reg) k = Some r"
  shows "sr_conn_id r = c" "\<not> sr_closed r"
  using assms unfolding registry_ok_def by (metis option.inject)+

lemma update_session_ok:
  assumes "registry_ok reg" "map_of (rg_sessions reg) k = Some r" "sr_conn_id r' = sr_conn_id r"
    "length (sr_files r') \<le> MAX_FILES" "kr \<in> set (assoc_update k (\<lambda>_. r') (rg_sessions reg))"
  shows "session_ok kr"
proof -
  have kr: "session_ok (k, r)" using assms(1) map_of_SomeD [OF assms(2)] by (auto simp: registry_ok_def)
  from set_assoc_update [OF assms(5)] obtain v where v: "(fst kr, v) \<in> set (rg_sessions reg)"
    "snd kr = (if fst kr = k then r' else v)" by auto
  show ?thesis
  proof (cases "fst kr = k")
    case True
    with v kr assms(3,4) show ?thesis by (auto simp: session_ok_def)
  next
    case False
    with v assms(1) show ?thesis by (cases kr) (auto simp: registry_ok_def)
  qed
qed

text \<open>Changing the record of an active session.\<close>

lemma put_session_ok:
  assumes "registry_ok reg" "session_for reg c = Some (k, r)" "sr_conn_id r' = sr_conn_id r"
    "length (sr_files r') \<le> MAX_FILES" "\<not> sr_closed r'"
  shows "registry_ok (put_session k r' reg)"
proof -
  have r: "map_of (rg_sessions reg) k = Some r" using assms(2) by (auto simp: session_for_Some)
  have "sr_conn_id r' = c'" if "map_of (rg_active_by_conn reg) c' = Some k" for c'
    using active_session(1) [OF assms(1) that r] assms(3) by simp
  with assms(1,5) r update_session_ok [OF assms(1) r assms(3,4)] show ?thesis
    by (auto simp: registry_ok_def put_session_def)
qed

text \<open>The change that closes a session also ends its activity.\<close>

lemma close_session_ok:
  assumes "registry_ok reg" "session_for reg c = Some (k, r)" "sr_conn_id r' = sr_conn_id r"
    "length (sr_files r') \<le> MAX_FILES"
  shows "registry_ok (put_session k r' reg\<lparr>rg_active_by_conn := assoc_remove c (rg_active_by_conn reg)\<rparr>)"
proof -
  have r: "map_of (rg_sessions reg) k = Some r" "map_of (rg_active_by_conn reg) c = Some k"
    using assms(2) by (auto simp: session_for_Some)
  have other: "c' = c" if "map_of (rg_active_by_conn reg) c' = Some k" for c'
    using active_session(1) [OF assms(1) that r(1)] active_session(1) [OF assms(1) r(2,1)] by simp
  with assms(1) update_session_ok [OF assms(1) r(1) assms(3,4)] show ?thesis
    by (auto simp: registry_ok_def put_session_def)
qed

lemma apply_metadata_keeps:
  "sr_conn_id (fst (apply_metadata v r)) = sr_conn_id r" "sr_files (fst (apply_metadata v r)) = sr_files r"
  "sr_closed (fst (apply_metadata v r)) = sr_closed r"
  by (simp_all add: apply_metadata_def meta_step_def Let_def)

lemma apply_event_keeps:
  assumes "apply_event now v r = (w, r')"
  shows "sr_conn_id r' = sr_conn_id r" "sr_files r' = sr_files r"
    "sr_closed r' \<longleftrightarrow> sr_closed r \<or> get_str ''action'' v = Some ''close''"
    "(case w of Some x \<Rightarrow> sr_closed x | None \<Rightarrow> False) \<Longrightarrow> sr_closed r'"
    "get_str ''action'' v = Some ''close'' \<Longrightarrow> (case w of Some x \<Rightarrow> sr_closed x | None \<Rightarrow> False)"
proof -
  obtain r1 ch where m: "apply_metadata v r = (r1, ch)" by fastforce
  have k: "sr_conn_id r1 = sr_conn_id r" "sr_files r1 = sr_files r" "sr_closed r1 = sr_closed r"
    using apply_metadata_keeps [of v r] m by auto
  note defs = apply_event_def apply_close_def apply_peer_def apply_bypasses_def Let_def
  show "sr_conn_id r' = sr_conn_id r" "sr_files r' = sr_files r"
    "sr_closed r' \<longleftrightarrow> sr_closed r \<or> get_str ''action'' v = Some ''close''"
    "(case w of Some x \<Rightarrow> sr_closed x | None \<Rightarrow> False) \<Longrightarrow> sr_closed r'"
    "get_str ''action'' v = Some ''close'' \<Longrightarrow> (case w of Some x \<Rightarrow> sr_closed x | None \<Rightarrow> False)"
    using assms k by (auto simp: defs m split: if_splits option.splits)
qed

lemma session_for_open:
  "registry_ok reg \<Longrightarrow> session_for reg c = Some (k, r) \<Longrightarrow> \<not> sr_closed r \<and> length (sr_files r) \<le> MAX_FILES"
  using active_session(2) [of reg c k r] map_of_SomeD [of "rg_sessions reg" k r]
  by (auto simp: session_for_Some registry_ok_def session_ok_def)

lemma apply_connection_ok:
  assumes "registry_ok reg" "apply_connection now v reg = (w, reg')"
  shows "registry_ok reg'"
proof (cases "get_str ''action'' v = Some ''new''")
  case True
  show ?thesis
  proof (cases "start now v")
    case None
    with True assms show ?thesis by (simp add: apply_connection_def)
  next
    case (Some r)
    let ?k = "sr_session_key r"
    have r: "?k = session_key_of (sr_conn_id r) now" "sr_files r = []" "\<not> sr_closed r"
      using Some by (auto simp: start_def session_default_def)
    have reg': "reg' = \<lparr>rg_sessions = assoc_insert ?k r (rg_sessions reg),
        rg_active_by_conn = assoc_insert (sr_conn_id r) ?k (rg_active_by_conn reg)\<rparr>"
      using assms(2) True Some by (auto simp: apply_connection_def)
    have "sr_conn_id r = c" if "map_of (rg_active_by_conn reg) c = Some ?k" for c
    proof -
      from that assms(1) obtain r0 where r0: "map_of (rg_sessions reg) ?k = Some r0" "sr_conn_id r0 = c"
        unfolding registry_ok_def by blast
      from map_of_SomeD [OF r0(1)] assms(1) obtain t where "?k = session_key_of (sr_conn_id r0) t"
        by (auto simp: registry_ok_def session_ok_def)
      with session_key_inj r(1) r0(2) show ?thesis by metis
    qed
    moreover have "\<forall>kr\<in>set (assoc_insert ?k r (rg_sessions reg)). session_ok kr"
      using assms(1) r by (auto simp: registry_ok_def session_ok_def assoc_insert_def)
    ultimately show ?thesis using assms(1) r(3) unfolding reg' by (auto simp: registry_ok_def)
  qed
next
  case False
  show ?thesis
  proof (cases "Option.bind (conn_id_of v) (session_for reg)")
    case None
    with False assms show ?thesis by (auto simp: apply_connection_def bind_eq_None_conv split: option.splits)
  next
    case (Some kr)
    then obtain c k r where c: "conn_id_of v = Some c" and s: "session_for reg c = Some (k, r)"
      by (cases kr) (auto simp: bind_eq_Some_conv)
    obtain w' r' where e: "apply_event now v r = (w', r')" by fastforce
    note k = apply_event_keeps [OF e]
    have f: "length (sr_files r') \<le> MAX_FILES" using session_for_open [OF assms(1) s] k(2) by simp
    show ?thesis
    proof (cases "case w' of Some x \<Rightarrow> sr_closed x | None \<Rightarrow> False")
      case True
      with close_session_ok [OF assms(1) s k(1) f] False assms(2) c s e show ?thesis
        by (auto simp: apply_connection_def put_session_def Let_def)
    next
      case still: False
      then have "\<not> sr_closed r'" using k(3,5) session_for_open [OF assms(1) s] by auto
      from put_session_ok [OF assms(1) s k(1) f this] still False assms(2) c s e show ?thesis
        by (auto simp: apply_connection_def Let_def)
    qed
  qed
qed

lemma push_files_bound: "length files \<le> MAX_FILES \<Longrightarrow> length (push_files d p fs files) \<le> MAX_FILES"
  by (induction d p fs files rule: push_files.induct) (auto simp: Let_def split: option.splits)

lemma scan_first_length: "scan_first n s fs = Some fs' \<Longrightarrow> length fs' = length fs"
  by (induction fs arbitrary: fs') (auto split: if_splits)

lemma apply_file_scan_bound: "length files \<le> MAX_FILES \<Longrightarrow> length (apply_file_scan n sz s files) \<le> MAX_FILES"
  by (auto simp: apply_file_scan_def scan_first_length split: option.splits)

lemma on_file_ok: "registry_ok reg \<Longrightarrow> registry_ok (on_file p v reg)"
  by (auto simp: on_file_def Let_def push_files_bound dest: session_for_open intro!: put_session_ok split: option.splits)

lemma on_file_scan_ok: "registry_ok reg \<Longrightarrow> registry_ok (on_file_scan kind v reg)"
  by (auto simp: on_file_scan_def apply_file_scan_bound dest: session_for_open intro!: put_session_ok split: option.splits)

lemma mark_permission_in_ok: "registry_ok reg \<Longrightarrow> registry_ok (mark_permission_in c p reg)"
  by (auto simp: mark_permission_in_def dest: session_for_open intro!: put_session_ok split: option.splits)

lemma completed_session_ok:
  assumes "registry_ok reg"
  shows "registry_ok (snd (completed_session c reg))"
proof (cases "find (\<lambda>(k, r). sr_conn_id r = c \<and> sr_closed r) (rg_sessions reg)")
  case None
  with assms show ?thesis by (simp add: completed_session_def)
next
  case (Some kr)
  obtain k r where kr: "kr = (k, r)" by (cases kr)
  with Some have "(k, r) \<in> set (rg_sessions reg)" "sr_closed r" by (auto simp: find_Some_iff in_set_conv_nth)
  then have "map_of (rg_sessions reg) k = Some r" "sr_closed r" using assms by (auto simp: registry_ok_def keys_ok_def)
  then have "map_of (rg_active_by_conn reg) c' \<noteq> Some k" for c' using active_session(2) [OF assms] by blast
  with assms Some kr show ?thesis
    by (fastforce simp: completed_session_def registry_ok_def assoc_remove_def [of _ "rg_sessions reg"] map_of_filter_key keys_ok_filter)
qed

datatype LogOp = Audit LogEnv string Value | Mark LogEnv bool int string | Complete int | Changed LogEnv
  | WriterTurn LogEnv | Cleanup LogEnv nat | Initialize LogEnv | Maintenance LogEnv | Restart

definition fresh_log :: "(string \<times> LogFile) list \<Rightarrow> SessionLog" where
  "fresh_log dir = \<lparr>sl_registry = registry_default, sl_disabled_cleared = False, sl_last_cleanup = None,
     sl_cleanups = [], sl_queue = [], sl_chain = None, sl_dir = dir\<rparr>"

fun log_step :: "LogLib \<Rightarrow> LogOp \<Rightarrow> SessionLog \<Rightarrow> SessionLog" where
  "log_step J (Audit E kind v) S = on_audit J E kind v S"
| "log_step J (Mark E unlocked c p) S = mark_permission E unlocked c p S"
| "log_step J (Complete c) S = S\<lparr>sl_registry := snd (completed_session c (sl_registry S))\<rparr>"
| "log_step J (Changed E) S = retention_changed E S"
| "log_step J (WriterTurn E) S = (case writer_step J E S of Some S' \<Rightarrow> S' | None \<Rightarrow> S)"
| "log_step J (Cleanup E days) S = S\<lparr>sl_dir := cleanup_old_files E days (sl_dir S)\<rparr>"
| "log_step J (Initialize E) S = initialize E S"
| "log_step J (Maintenance E) S = maintenance_turn E S"
| "log_step J Restart S = fresh_log (sl_dir S)"

fun is_object :: "Value \<Rightarrow> bool" where
  "is_object (VObject fs) = True"
| "is_object _ = False"

fun message_ok :: "WriterMessage \<Rightarrow> bool" where
  "message_ok (Append v) = is_object v"
| "message_ok ClearLog = True"

definition log_inv :: "SessionLog \<Rightarrow> bool" where
  "log_inv S \<longleftrightarrow> registry_ok (sl_registry S) \<and> list_all message_ok (sl_queue S)"

lemma registry_default_ok [simp]: "registry_ok registry_default"
  by (simp add: registry_ok_def registry_default_def)

lemma is_object_values [simp]:
  "is_object (session_value r)" "is_object (alarm_record p now v)" "is_object (file_security_record now k v)"
  by (simp_all add: session_value_def alarm_record_def file_security_record_def)

lemma is_objectE: assumes "is_object v" obtains fs where "v = VObject fs"
  using assms by (cases v) auto

lemma chain_value_object:
  assumes "is_object v"
  shows "\<exists>link v'. chain_value J lst v = Some (link, v')"
  using assms by (cases v) (auto simp: chain_value_def Let_def)

lemma writer_step_Some: "log_inv S \<Longrightarrow> \<exists>S'. writer_step J E S = Some S' \<and> log_inv S'"
proof (cases "sl_queue S")
  case (Cons msg rest)
  assume i: "log_inv S"
  show ?thesis
  proof (cases msg)
    case (Append v)
    then have "is_object v" using i Cons by (simp add: log_inv_def)
    from chain_value_object [OF this] obtain link v' where
      "chain_value J (case sl_chain S of Some l \<Rightarrow> l | None \<Rightarrow> last_link J (sl_dir S)) v = Some (link, v')" by blast
    then show ?thesis using i Cons Append by (auto simp: writer_step_def Let_def log_inv_def split: prod.splits)
  qed (use i Cons in \<open>auto simp: writer_step_def log_inv_def\<close>)
qed (auto simp: writer_step_def)

lemma on_connection_inv: "log_inv S \<Longrightarrow> log_inv (on_connection E v S)"
  by (auto simp: on_connection_def log_inv_def Let_def send_def dest: apply_connection_ok split: prod.splits option.splits)

lemma log_inv_simps [simp]:
  "log_inv (S\<lparr>sl_disabled_cleared := b\<rparr>) = log_inv S" "log_inv (S\<lparr>sl_dir := d\<rparr>) = log_inv S"
  "log_inv (send msg S) = (log_inv S \<and> message_ok msg)"
  by (auto simp: log_inv_def send_def)

lemma housekeeping_inv: "log_inv S \<Longrightarrow> log_inv (cleanup_if_due E S)" "log_inv S \<Longrightarrow> log_inv (clear_if_disabled S)"
  by (auto simp: cleanup_if_due_def clear_if_disabled_def log_inv_def)

lemma log_inv_registry: "log_inv S \<Longrightarrow> registry_ok reg \<Longrightarrow> log_inv (S\<lparr>sl_registry := reg\<rparr>)"
  by (simp add: log_inv_def)

lemma on_audit_inv: "log_inv S \<Longrightarrow> log_inv (on_audit J E kind v S)"
proof -
  assume i: "log_inv S"
  let ?S = "cleanup_if_due E (S\<lparr>sl_disabled_cleared := False\<rparr>)"
  have s: "log_inv ?S" using i by (simp add: housekeeping_inv)
  then have r: "registry_ok (sl_registry ?S)" by (simp add: log_inv_def)
  show ?thesis using i s r
    by (auto simp: on_audit_def Let_def intro!: log_inv_registry on_connection_inv on_file_ok on_file_scan_ok housekeeping_inv)
qed

lemma log_inv_step: "log_inv S \<Longrightarrow> log_inv (log_step J op S)"
proof (cases op)
  case (WriterTurn E)
  assume "log_inv S"
  with writer_step_Some [of S J E] WriterTurn show ?thesis by auto
qed (auto simp: on_audit_inv mark_permission_def retention_changed_def initialize_def maintenance_turn_def Let_def housekeeping_inv fresh_log_def log_inv_def [of "fresh_log _"]
    intro!: log_inv_registry mark_permission_in_ok completed_session_ok, auto simp: log_inv_def)

interpretation session_log: guarded_machine "log_step J" log_inv "\<lambda>_. True" for J
  by unfold_locales (rule log_inv_step)

text \<open>C29: after any sequence of events, writes, cleanups and restarts the registry is well formed: every
  active connection leads to an open session of its own, keyed by the connection, with at most fifty files; and the
  writer never panics, since every record handed to it is an object.\<close>

theorem session_log_wellformed:
  "registry_ok (sl_registry (fold (log_step J) ops (fresh_log dir)))
   \<and> writer_step J E (fold (log_step J) ops (fresh_log dir)) \<noteq> None"
proof -
  have "log_inv (fold (log_step J) ops (fresh_log dir))"
    by (rule session_log.run_inv) (simp_all add: log_inv_def fresh_log_def)
  then show ?thesis using writer_step_Some by (fastforce simp: log_inv_def)
qed

end
