(* ===== verification/Session_Chain.thy ===== *)
theory Session_Chain
  imports Session_Log "HOL-Library.Multiset" "HOL-Library.Countable"
begin

text \<open>
  The hash chain of the session log: what the writer of \<open>Session_Log\<close> leaves on disk, what the verifier of the
  report says of it, and of a log that somebody else wrote. The hypotheses on \<open>LogLib\<close> are \<open>lib_ok\<close>: a printed
  value is read back as one that reads and prints alike, and a sealed line is one line of text that opens to what
  was sealed.
\<close>

section \<open>Chain\<close>

fun verdicts :: "LogLib \<Rightarrow> ChainVerifier \<Rightarrow> Value option list \<Rightarrow> bool option list" where
  "verdicts J cv [] = []"
| "verdicts J cv (x # xs) = (case check J x cv of (r, cv') \<Rightarrow> r # verdicts J cv' xs)"

text \<open>A sequence of records linked after \<open>lst\<close>, each with its own hash.\<close>

fun linked_from :: "LogLib \<Rightarrow> ChainLink option \<Rightarrow> Value list \<Rightarrow> bool" where
  "linked_from J lst [] = True"
| "linked_from J lst (v # vs) =
     (case link_of v of
        None \<Rightarrow> False
      | Some (link, prev) \<Rightarrow>
          (case lst of None \<Rightarrow> True | Some l \<Rightarrow> cl_seq link = add_u64 (cl_seq l) 1 \<and> prev = cl_hash l)
          \<and> chain_hash J prev v = cl_hash link \<and> linked_from J (Some link) vs)"

lemma verdicts_linked:
  "verdicts J \<lparr>cv_last = lst, cv_gap = False\<rparr> (map Some vs) = replicate (length vs) (Some True) \<longleftrightarrow> linked_from J lst vs"
proof (induction vs arbitrary: lst)
  case (Cons v vs)
  show ?case
  proof (cases "link_of v")
    case None
    then show ?thesis by (simp add: check_def)
  next
    case (Some lp)
    then show ?thesis using Cons [of "Some (fst lp)"] by (cases lp; cases lst) (auto simp: check_def Let_def)
  qed
qed simp

lemma linked_append:
  "linked_from J lst (vs @ ws) \<longleftrightarrow>
     linked_from J lst vs \<and> linked_from J (if vs = [] then lst else map_option fst (link_of (last vs))) ws"
  by (induction vs arbitrary: lst) (auto split: option.splits prod.splits)

lemma linked_forget: "linked_from J lst vs \<Longrightarrow> linked_from J None vs"
  by (cases vs) (auto split: option.splits)

lemma linked_drop: "linked_from J lst vs \<Longrightarrow> linked_from J None (drop n vs)"
proof -
  assume "linked_from J lst vs"
  then have "linked_from J lst (take n vs @ drop n vs)" by simp
  then show ?thesis unfolding linked_append using linked_forget by blast
qed

text \<open>What is read back stands for what was written: the fields of the chain read the same and the
  rest prints the same.\<close>

definition reads_alike :: "LogLib \<Rightarrow> Value \<Rightarrow> Value \<Rightarrow> bool" where
  "reads_alike J v w \<longleftrightarrow> link_of w = link_of v
     \<and> ll_print J (value_remove ''_hash'' w) = ll_print J (value_remove ''_hash'' v)"

lemma linked_alike: "list_all2 (reads_alike J) vs ws \<Longrightarrow> linked_from J lst vs \<Longrightarrow> linked_from J lst ws"
proof (induction vs ws arbitrary: lst rule: list_all2_induct)
  case (Cons v vs w ws)
  then show ?case by (auto simp: reads_alike_def chain_hash_def chain_text_def split: option.splits)
qed simp

lemma add_u64_le: "add_u64 a b \<le> u64_max"
  unfolding add_u64_def using less_Suc_eq_le by fastforce

lemma value_set_object: "is_object v \<Longrightarrow> \<exists>w. value_set k x v = Some w \<and> is_object w"
  by (cases v) auto

lemma remove_set: "value_set k x v = Some w \<Longrightarrow> is_object v \<Longrightarrow> value_remove k w = value_remove k v"
  by (cases v) (auto simp: assoc_insert_def assoc_remove_def)

definition next_seq :: "ChainLink option \<Rightarrow> nat" where
  "next_seq lst = (case lst of None \<Rightarrow> 1 | Some l \<Rightarrow> add_u64 (cl_seq l) 1)"

definition prev_hash :: "ChainLink option \<Rightarrow> string" where
  "prev_hash lst = (case lst of None \<Rightarrow> CHAIN_GENESIS | Some l \<Rightarrow> cl_hash l)"

lemma chain_value_linked:
  assumes "is_object v" "chain_value J lst v = Some (link, v')"
  shows "link_of v' = Some (link, prev_hash lst)" "chain_hash J (prev_hash lst) v' = cl_hash link" "is_object v'"
    "cl_seq link = next_seq lst"
proof -
  obtain v1 where v1: "value_set ''_seq'' (VNumber (int (next_seq lst))) v = Some v1" "is_object v1"
    using value_set_object [OF assms(1)] by blast
  obtain v2 where v2: "value_set ''_prev'' (VString (prev_hash lst)) v1 = Some v2" "is_object v2"
    using value_set_object [OF v1(2)] by blast
  let ?h = "chain_hash J (prev_hash lst) v2"
  have l: "link = \<lparr>cl_seq = next_seq lst, cl_hash = ?h\<rparr>" and v': "value_set ''_hash'' (VString ?h) v2 = Some v'"
    using assms(2) v1(1) v2(1) by (auto simp: chain_value_def Let_def next_seq_def prev_hash_def)
  have "next_seq lst \<le> u64_max" using add_u64_le by (auto simp: next_seq_def u64_max_def split: option.splits)
  then show "link_of v' = Some (link, prev_hash lst)"
    using value_set_get [OF v'] value_set_get [OF v2(1)] value_set_get [OF v1(1)] l
    by (simp add: link_of_def get_u64_def get_str_def)
  show "chain_hash J (prev_hash lst) v' = cl_hash link"
    using remove_set [OF v' v2(2)] l by (simp add: chain_hash_def chain_text_def)
  show "is_object v'" using v' v2(2) by (cases v2) auto
  show "cl_seq link = next_seq lst" using l by simp
qed

text \<open>All records chained one after the other.\<close>

fun chain_all :: "LogLib \<Rightarrow> ChainLink option \<Rightarrow> Value list \<Rightarrow> Value list" where
  "chain_all J lst [] = []"
| "chain_all J lst (v # vs) =
     (case chain_value J lst v of Some (link, v') \<Rightarrow> v' # chain_all J (Some link) vs | None \<Rightarrow> [])"

lemma chain_all_linked: "list_all is_object vs \<Longrightarrow> linked_from J lst (chain_all J lst vs) \<and> length (chain_all J lst vs) = length vs"
proof (induction vs arbitrary: lst)
  case (Cons v vs)
  then obtain link v' where c: "chain_value J lst v = Some (link, v')" using chain_value_object [of v J lst] by auto
  from chain_value_linked [OF _ c] Cons.prems have "link_of v' = Some (link, prev_hash lst)"
    "chain_hash J (prev_hash lst) v' = cl_hash link" "cl_seq link = next_seq lst" by auto
  with c Cons show ?case by (auto simp: prev_hash_def next_seq_def split: option.splits)
qed simp

lemma chain_all_first:
  assumes "list_all is_object vs" "chain_all J None vs = w # ws" "link_of w = Some (l, prev)"
  shows "prev = CHAIN_GENESIS"
proof -
  obtain v vs' where v: "vs = v # vs'" using assms(2) by (cases vs) auto
  then obtain link v' where c: "chain_value J None v = Some (link, v')" using chain_value_object assms(1) by fastforce
  with chain_value_linked(1) [OF _ c] assms v show ?thesis by (simp add: prev_hash_def)
qed

section \<open>Tampering\<close>

definition hashed :: "LogLib \<Rightarrow> Value list \<Rightarrow> string set" where
  "hashed J vs = {chain_text J prev v | link prev v. v \<in> set vs \<and> link_of v = Some (link, prev)}"

definition same_content :: "LogLib \<Rightarrow> Value \<Rightarrow> Value \<Rightarrow> bool" where
  "same_content J v w \<longleftrightarrow> ll_print J (value_remove ''_hash'' v) = ll_print J (value_remove ''_hash'' w)"

definition last_hash :: "Value list \<Rightarrow> string option" where
  "last_hash vs = (if vs = [] then None else map_option (\<lambda>(link, _). cl_hash link) (link_of (last vs)))"

lemma chain_text_inj:
  assumes "chain_text J p v = chain_text J q w" "\<And>v. NL \<notin> set (ll_print J v)"
  shows "p = q \<and> same_content J v w"
proof -
  let ?a = "ll_print J (value_remove ''_hash'' v)" and ?b = "ll_print J (value_remove ''_hash'' w)"
  have "rev ?a @ NL # rev p = rev ?b @ NL # rev q"
    using arg_cong [OF assms(1), of rev] by (simp add: chain_text_def)
  moreover have "takeWhile (\<lambda>c. c \<noteq> NL) (rev x @ NL # y) = rev x" "dropWhile (\<lambda>c. c \<noteq> NL) (rev x @ NL # y) = NL # y"
    if "NL \<notin> set x" for x y
    using that takeWhile_append2 [of "rev x" "\<lambda>c. c \<noteq> NL" "NL # y"] dropWhile_append2 [of "rev x" "\<lambda>c. c \<noteq> NL" "NL # y"]
    by (auto simp: in_set_conv_decomp)
  ultimately have "rev ?a = rev ?b" "NL # rev p = NL # rev q" using assms(2) by metis+
  then show ?thesis by (simp add: same_content_def)
qed

lemma linked_snoc:
  assumes "linked_from J None (vs @ [v])"
  obtains link prev where "link_of v = Some (link, prev)" "chain_hash J prev v = cl_hash link"
    "vs \<noteq> [] \<Longrightarrow> last_hash vs = Some prev" "linked_from J None vs"
proof -
  from assms have l: "linked_from J None vs" "linked_from J (if vs = [] then None else map_option fst (link_of (last vs))) [v]"
    unfolding linked_append by auto
  from l(2) obtain link prev where v: "link_of v = Some (link, prev)" "chain_hash J prev v = cl_hash link"
    by (auto split: option.splits)
  have "last_hash vs = Some prev" if "vs \<noteq> []"
  proof -
    from that l(1) obtain us u where u: "vs = us @ [u]" by (cases vs rule: rev_cases) auto
    with l(1) obtain k q where "link_of u = Some (k, q)" unfolding linked_append u by (auto split: option.splits)
    with l(2) u v that show ?thesis by (auto simp: last_hash_def)
  qed
  with v l(1) that show ?thesis by blast
qed

lemma hashed_append [simp]: "hashed J (vs @ ws) = hashed J vs \<union> hashed J ws"
  by (auto simp: hashed_def)

lemma chain_suffix:
  assumes "linked_from J None seen" "linked_from J None ws" "seen \<noteq> []" "last_hash seen = last_hash ws"
    "\<And>v. NL \<notin> set (ll_print J v)" "inj_on (ll_sha J) (hashed J seen \<union> hashed J ws)"
    "CHAIN_GENESIS \<notin> ll_sha J ` hashed J seen"
    "\<And>w us l p. ws = w # us \<Longrightarrow> link_of w = Some (l, p) \<Longrightarrow> p = CHAIN_GENESIS"
  shows "\<exists>pre suf. ws = pre @ suf \<and> list_all2 (same_content J) seen suf"
  using assms(1-4,6-8)
proof (induction seen arbitrary: ws rule: rev_induct)
  case (snoc s seen)
  obtain l p where s: "link_of s = Some (l, p)" "chain_hash J p s = cl_hash l"
    "seen \<noteq> [] \<Longrightarrow> last_hash seen = Some p" "linked_from J None seen" using linked_snoc [OF snoc.prems(1)] by blast
  have "ws \<noteq> []" using snoc.prems(4) s(1) by (auto simp: last_hash_def split: if_splits)
  then obtain us w where ws: "ws = us @ [w]" by (cases ws rule: rev_cases) auto
  from snoc.prems(2) obtain k q where w: "link_of w = Some (k, q)" "chain_hash J q w = cl_hash k"
    "us \<noteq> [] \<Longrightarrow> last_hash us = Some q" "linked_from J None us" unfolding ws using linked_snoc by blast
  have "ll_sha J (chain_text J p s) = ll_sha J (chain_text J q w)"
    using snoc.prems(4) s(1,2) w(1,2) by (simp add: ws last_hash_def chain_hash_def)
  moreover have "chain_text J p s \<in> hashed J (seen @ [s])" "chain_text J q w \<in> hashed J ws"
    using s(1) w(1) by (auto simp: hashed_def ws)
  ultimately have "chain_text J p s = chain_text J q w" using snoc.prems(5) by (auto dest: inj_onD)
  from chain_text_inj [OF this assms(5)] have pq: "p = q" "same_content J s w" by auto
  show ?case
  proof (cases "seen = []")
    case True
    with ws pq(2) show ?thesis by (intro exI [of _ us] exI [of _ "[w]"]) simp
  next
    case False
    have us: "us \<noteq> []"
    proof
      assume "us = []"
      with snoc.prems(7) [of w "[]" k q] ws w(1) have "q = CHAIN_GENESIS" by simp
      moreover obtain vs u where u: "seen = vs @ [u]" using False by (cases seen rule: rev_cases) auto
      with s(4) obtain m r where "link_of u = Some (m, r)" "chain_hash J r u = cl_hash m" using linked_snoc by blast
      ultimately have "chain_text J r u \<in> hashed J (seen @ [s])" "ll_sha J (chain_text J r u) = CHAIN_GENESIS"
        using s(3) [OF False] pq(1) u by (auto simp: hashed_def last_hash_def chain_hash_def)
      with snoc.prems(6) show False by (metis imageI)
    qed
    have "\<exists>pre suf. us = pre @ suf \<and> list_all2 (same_content J) seen suf"
    proof (rule snoc.IH [OF s(4) w(4) False])
      show "last_hash seen = last_hash us" using s(3) [OF False] w(3) [OF us] pq(1) by simp
      show "inj_on (ll_sha J) (hashed J seen \<union> hashed J us)"
        by (rule inj_on_subset [OF snoc.prems(5)]) (auto simp: ws)
      show "CHAIN_GENESIS \<notin> ll_sha J ` hashed J seen" using snoc.prems(6) by auto
      show "p = CHAIN_GENESIS" if "us = w' # us'" "link_of w' = Some (l, p)" for w' us' l p
        using snoc.prems(7) [of w' "us' @ [w]" l p] that ws by simp
    qed
    then obtain pre suf where "us = pre @ suf" "list_all2 (same_content J) seen suf" by blast
    with ws pq(2) show ?thesis
      by (intro exI [of _ pre] exI [of _ "suf @ [w]"]) (simp add: list_all2_appendI)
  qed
qed simp

section \<open>The written log\<close>

definition lib_ok :: "LogLib \<Rightarrow> bool" where
  "lib_ok J \<longleftrightarrow>
     (\<forall>v. \<exists>w. ll_parse J (ll_print J v) = Some w \<and> reads_alike J v w)
     \<and> (\<forall>v line. seal_line J v = Some line \<longrightarrow>
          NL \<notin> set line \<and> \<not> starts_with line ''{'' \<and> last line \<noteq> CHR 0x0D \<and> ll_unseal J line = (ll_print J v, True))"

lemma open_sealed:
  assumes "lib_ok J" "seal_line J v = Some line"
  shows "\<exists>w. open_line J line = Some w \<and> reads_alike J v w"
  using assms by (auto simp: lib_ok_def open_line_def)

definition whole :: "string \<Rightarrow> bool" where
  "whole s \<longleftrightarrow> s = [] \<or> last s = NL"

lemma split_whole:
  "whole s \<Longrightarrow> last (split_on (\<lambda>c. c = NL) s) = [] \<and>
     split_on (\<lambda>c. c = NL) (s @ r) = butlast (split_on (\<lambda>c. c = NL) s) @ split_on (\<lambda>c. c = NL) r"
proof (induction s)
  case (Cons c s)
  obtain p ps where p: "split_on (\<lambda>c. c = NL) s = p # ps" by (cases "split_on (\<lambda>c. c = NL) s") auto
  show ?case
  proof (cases "s = []")
    case True
    with Cons.prems show ?thesis by (simp add: whole_def)
  next
    case False
    with Cons.prems have "whole s" by (simp add: whole_def)
    note ih = Cons.IH [OF this]
    show ?thesis
    proof (cases "c = NL")
      case True
      with ih p show ?thesis by auto
    next
      case nl: False
      have "ps \<noteq> []"
      proof
        assume "ps = []"
        with p ih have "split_on (\<lambda>c. c = NL) s = [[]]" by simp
        moreover have "\<exists>q. q \<in> set (split_on (\<lambda>c. c = NL) t) \<and> q \<noteq> [] \<or> length (split_on (\<lambda>c. c = NL) t) > 1" if "t \<noteq> []" for t
          using that by (cases t) (auto split: list.splits)
        ultimately show False using False by fastforce
      qed
      with ih p nl show ?thesis by auto
    qed
  qed
qed simp

lemma text_lines_Nil [simp]: "text_lines [] = []"
  by (simp add: text_lines_def)

lemma text_lines_append:
  assumes "whole s" "NL \<notin> set line" "line \<noteq> []" "last line \<noteq> CHR 0x0D"
  shows "text_lines (s @ line @ [NL]) = text_lines s @ [line]" "whole (s @ line @ [NL])"
proof -
  have "split_on (\<lambda>c. c = NL) (line @ [NL]) = [line, []]"
    using split_on_append [of line "\<lambda>c. c = NL" NL "[]"] assms(2) by auto
  with split_whole [OF assms(1)] show "text_lines (s @ line @ [NL]) = text_lines s @ [line]"
    using assms(3,4) by (simp add: text_lines_def strip_cr_def Let_def butlast_append)
qed (simp add: whole_def)

lemma sort_snoc:
  assumes "distinct xs" "\<forall>x\<in>set xs. x \<le> (n :: 'a :: linorder)"
  shows "sort (n # filter (\<lambda>x. x \<noteq> n) xs) = sort (filter (\<lambda>x. x \<noteq> n) xs) @ [n]"
    "n \<in> set xs \<Longrightarrow> sort xs = sort (filter (\<lambda>x. x \<noteq> n) xs) @ [n]"
proof -
  have s: "sorted (sort (filter (\<lambda>x. x \<noteq> n) xs) @ [n])" using assms(2) by (simp add: sorted_append)
  show "sort (n # filter (\<lambda>x. x \<noteq> n) xs) = sort (filter (\<lambda>x. x \<noteq> n) xs) @ [n]"
    by (rule properties_for_sort [OF _ s]) simp
  assume "n \<in> set xs"
  with assms(1) have "mset xs = mset (sort (filter (\<lambda>x. x \<noteq> n) xs) @ [n])"
    by (auto simp: multiset_eq_iff distinct_count_atmost_1)
  from properties_for_sort [OF this [symmetric] s] show "sort xs = sort (filter (\<lambda>x. x \<noteq> n) xs) @ [n]" .
qed

text \<open>The files have whole lines, names of months up to \<open>m\<close>, and were last changed up to the time \<open>t\<close>, in the order of their
  names.\<close>

definition modified :: "(string \<times> LogFile) list \<Rightarrow> string \<Rightarrow> int" where
  "modified dir n = (case map_of dir n of Some f \<Rightarrow> lg_modified f | None \<Rightarrow> 0)"

definition dir_ok :: "string \<Rightarrow> int \<Rightarrow> (string \<times> LogFile) list \<Rightarrow> bool" where
  "dir_ok m t dir \<longleftrightarrow> keys_ok dir \<and> (\<forall>n f. map_of dir n = Some f \<longrightarrow> whole (lg_text f))
     \<and> (\<forall>n\<in>set (session_files dir). n \<le> m \<and> modified dir n \<le> t)
     \<and> (\<forall>a\<in>set (session_files dir). \<forall>b\<in>set (session_files dir). a \<le> b \<longrightarrow> modified dir a \<le> modified dir b)"

lemma log_lines_append:
  assumes "dir_ok m t dir" "m \<le> file_name E" "t \<le> le_time E" "NL \<notin> set line" "line \<noteq> []" "last line \<noteq> CHR 0x0D"
  shows "log_lines (append_text E (line @ [NL]) dir) = log_lines dir @ [line]"
    "dir_ok (file_name E) (le_time E) (append_text E (line @ [NL]) dir)"
proof -
  let ?n = "file_name E" and ?names = "filter (\<lambda>n. starts_with n ''sessions-'') (map fst dir)"
  let ?dir = "append_text E (line @ [NL]) dir"
  let ?old = "case map_of dir ?n of Some f \<Rightarrow> lg_text f | None \<Rightarrow> []"
  let ?others = "sort (filter (\<lambda>x. x \<noteq> ?n) ?names)"
  have sn: "starts_with ?n ''sessions-''" by (simp add: file_name_def starts_with_def)
  have old: "whole ?old" using assms(1) by (auto simp: dir_ok_def whole_def split: option.splits)
  have d: "distinct ?names" using assms(1) by (simp add: dir_ok_def keys_ok_def)
  have le: "\<forall>x\<in>set ?names. x \<le> ?n" using assms(1,2) by (auto simp: dir_ok_def session_files_def intro: order_trans)
  have fst_new: "filter (\<lambda>n. starts_with n ''sessions-'') (map fst ?dir) = ?n # filter (\<lambda>x. x \<noteq> ?n) ?names"
    using sn by (simp add: append_text_def assoc_insert_def Let_def filter_map o_def filter_filter conj_commute)
  have new: "session_files ?dir = ?others @ [?n]"
    using sort_snoc(1) [OF d le] by (simp only: session_files_def fst_new)
  have others: "map_of ?dir x = map_of dir x" if "x \<in> set ?others" for x
    using that by (auto simp: append_text_def Let_def)
  have lines: "log_lines dir = concat (map (\<lambda>n. case map_of dir n of Some f \<Rightarrow> text_lines (lg_text f) | None \<Rightarrow> []) ?others) @ text_lines ?old"
  proof (cases "?n \<in> set ?names")
    case True
    then show ?thesis using sort_snoc(2) [OF d le] by (auto simp: log_lines_def session_files_def split: option.splits)
  next
    case False
    then have "filter (\<lambda>x. x \<noteq> ?n) ?names = ?names" by (intro filter_True) metis
    moreover have "map_of dir ?n = None" using False sn by (auto simp: map_of_eq_None_iff)
    ultimately show ?thesis by (simp add: log_lines_def session_files_def text_lines_def)
  qed
  show "log_lines ?dir = log_lines dir @ [line]"
  proof -
    let ?read = "\<lambda>d n. case map_of d n of Some f \<Rightarrow> text_lines (lg_text f) | None \<Rightarrow> []"
    have m: "map (?read ?dir) ?others = map (?read dir) ?others" using others by (intro map_cong refl) simp
    have n: "?read ?dir ?n = text_lines ?old @ [line]"
      using text_lines_append(1) [OF old assms(4-6)] by (simp add: append_text_def Let_def)
    show ?thesis unfolding log_lines_def [of ?dir] new lines map_append concat_append m by (simp only: list.map concat.simps n append_Nil2 append_assoc)
  qed
  have md: "modified ?dir x = (if x = ?n then le_time E else modified dir x)" for x
    by (simp add: modified_def append_text_def Let_def)
  have sf: "set (session_files ?dir) = insert ?n (set (session_files dir) - {?n})" unfolding new by (auto simp: session_files_def)
  have le': "modified dir x \<le> le_time E" "x \<le> ?n" if "x \<in> set (session_files dir)" for x
    using that assms(1,3) le by (auto simp: dir_ok_def session_files_def intro: order_trans)
  have "modified ?dir a \<le> modified ?dir b" if "a \<in> set (session_files ?dir)" "b \<in> set (session_files ?dir)" "a \<le> b" for a b
    using that le' [of a] le' [of b] assms(1) unfolding md sf dir_ok_def by (auto dest: order_antisym)
  moreover have "n \<le> ?n \<and> modified ?dir n \<le> le_time E" if "n \<in> set (session_files ?dir)" for n
    using that le' [of n] unfolding md sf by auto
  moreover have "keys_ok ?dir" using assms(1) by (simp add: dir_ok_def append_text_def Let_def)
  moreover have "whole (lg_text f)" if "map_of ?dir n = Some f" for n f
    using that assms(1) text_lines_append(2) [OF old assms(4-6)] by (auto simp: dir_ok_def append_text_def Let_def split: if_splits)
  ultimately show "dir_ok ?n (le_time E) ?dir" unfolding dir_ok_def by blast
qed

definition last_of :: "Value list \<Rightarrow> ChainLink option" where
  "last_of ws = (if ws = [] then None else map_option fst (link_of (last ws)))"

lemma linked_link: "linked_from J lst ws \<Longrightarrow> w \<in> set ws \<Longrightarrow> link_of w \<noteq> None"
  by (induction ws arbitrary: lst) (auto split: option.splits)

lemma fold_last:
  "\<forall>w\<in>set ws. link_of w \<noteq> None \<Longrightarrow>
     fold (\<lambda>v acc. case link_of v of Some (link, _) \<Rightarrow> Some link | None \<Rightarrow> acc) ws acc = (if ws = [] then acc else last_of ws)"
  by (induction ws arbitrary: acc) (auto simp: last_of_def split: option.splits prod.splits)

lemma last_link_eq:
  assumes "list_all2 (\<lambda>line w. open_line J line = Some w) (log_lines dir) ws" "linked_from J None ws"
  shows "last_link J dir = last_of ws"
proof -
  have "List.map_filter (open_line J) (log_lines dir) = ws"
    using assms(1) by (induction rule: list_all2_induct) (auto simp: map_filter_simps)
  then show ?thesis using fold_last [of ws None] linked_link [OF assms(2)] by (auto simp: last_link_def last_of_def)
qed

text \<open>The log and the writer's memory of it agree: \<open>ws\<close> is what the lines read as. When no line is left the writer may go on
  from a link whose line was removed.\<close>

definition written_ok :: "LogLib \<Rightarrow> string \<Rightarrow> int \<Rightarrow> SessionLog \<Rightarrow> bool" where
  "written_ok J m t S \<longleftrightarrow> log_inv S \<and> dir_ok m t (sl_dir S)
     \<and> (\<exists>ws. list_all2 (\<lambda>line w. open_line J line = Some w) (log_lines (sl_dir S)) ws \<and> linked_from J None ws
          \<and> (\<forall>lst. sl_chain S = Some lst \<longrightarrow> ws \<noteq> [] \<longrightarrow> lst = last_of ws))"

lemma written_ok_cong:
  "written_ok J m t S \<Longrightarrow> log_inv S' \<Longrightarrow> sl_dir S' = sl_dir S \<Longrightarrow> sl_chain S' = sl_chain S \<or> sl_chain S' = None \<Longrightarrow> written_ok J m t S'"
  unfolding written_ok_def by auto

lemma dir_ok_mono: "dir_ok m t dir \<Longrightarrow> m \<le> m' \<Longrightarrow> t \<le> t' \<Longrightarrow> dir_ok m' t' dir"
  unfolding dir_ok_def by (metis order_trans)

text \<open>Removing files leaves the rest in order; removing the oldest ones removes the first lines.\<close>

lemma session_files_filter:
  assumes "keys_ok dir"
  shows "session_files (filter (\<lambda>(n, f). P n f) dir) = filter (\<lambda>n. \<forall>f. map_of dir n = Some f \<longrightarrow> P n f) (session_files dir)"
    "map_of (filter (\<lambda>(n, f). P n f) dir) n = (case map_of dir n of Some f \<Rightarrow> if P n f then Some f else None | None \<Rightarrow> None)"
proof -
  have d: "distinct (map fst dir)" using assms by (simp add: keys_ok_def)
  have e: "filter P' (map fst (filter (\<lambda>(n, f). P n f) dir)) = filter (\<lambda>n. \<forall>f. map_of dir n = Some f \<longrightarrow> P n f) (filter P' (map fst dir))" for P'
    using d by (induction dir) (auto simp: filter_filter intro!: filter_cong dest: map_of_SomeD)
  show "session_files (filter (\<lambda>(n, f). P n f) dir) = filter (\<lambda>n. \<forall>f. map_of dir n = Some f \<longrightarrow> P n f) (session_files dir)"
    unfolding session_files_def e by (simp add: filter_sort)
  show "map_of (filter (\<lambda>(n, f). P n f) dir) n = (case map_of dir n of Some f \<Rightarrow> if P n f then Some f else None | None \<Rightarrow> None)"
    using d by (induction dir) (auto split: option.splits simp: map_of_eq_None_iff dest: map_of_SomeD)
qed

lemma remove_dir_ok:
  assumes "dir_ok m t dir"
  shows "dir_ok m t (filter (\<lambda>(n, f). P n f) dir)"
proof -
  let ?d = "filter (\<lambda>(n, f). P n f) dir"
  have k: "keys_ok dir" using assms by (simp add: dir_ok_def)
  note F = session_files_filter [OF k, where P = P]
  have sub: "n \<in> set (session_files dir)" "modified ?d n = modified dir n" if "n \<in> set (session_files ?d)" for n
  proof -
    show "n \<in> set (session_files dir)" using that F(1) by auto
    moreover have "\<forall>f. map_of dir n = Some f \<longrightarrow> P n f" using that F(1) by auto
    ultimately show "modified ?d n = modified dir n" using F(2) [of n] by (auto simp: modified_def split: option.splits)
  qed
  have "whole (lg_text f)" if "map_of ?d n = Some f" for n f
    using that F(2) [of n] assms by (auto simp: dir_ok_def split: option.splits if_splits)
  moreover have "keys_ok ?d" using k by (simp add: keys_ok_filter)
  ultimately show ?thesis using assms sub unfolding dir_ok_def by metis
qed

lemma filter_from:
  assumes "sorted xs" "\<And>a b. a \<in> set xs \<Longrightarrow> b \<in> set xs \<Longrightarrow> a \<le> b \<Longrightarrow> Q a \<Longrightarrow> Q b"
  shows "\<exists>k. filter Q xs = drop k xs"
  using assms
proof (induction xs)
  case (Cons x xs)
  show ?case
  proof (cases "Q x")
    case True
    then have "\<forall>y\<in>set xs. Q y" using Cons.prems by auto
    then show ?thesis using True by (intro exI [of _ 0]) (simp add: filter_id_conv)
  next
    case False
    then obtain k where "filter Q xs = drop k xs" using Cons by (meson list.set_intros(2) sorted_simps(2))
    then show ?thesis using False by (intro exI [of _ "Suc k"]) simp
  qed
qed simp

lemma concat_drop: "\<exists>j. concat (drop k xss) = drop j (concat xss)"
proof -
  have "concat xss = concat (take k xss) @ concat (drop k xss)" by (metis append_take_drop_id concat_append)
  then show ?thesis by (intro exI [of _ "length (concat (take k xss))"]) simp
qed

lemma cleanup_lines:
  assumes "dir_ok m t dir" "\<forall>n. le_remove E n"
  shows "\<exists>k. log_lines (cleanup_old_files E days dir) = drop k (log_lines dir)" "dir_ok m t (cleanup_old_files E days dir)"
proof -
  let ?c = "le_time E - int (days * 86400)" and ?d = "cleanup_old_files E days dir"
  let ?P = "\<lambda>n f. \<not> (starts_with n ''sessions-'' \<and> is_expired (lg_modified f) ?c \<and> le_remove E n)"
  let ?read = "\<lambda>d n. case map_of d n of Some f \<Rightarrow> text_lines (lg_text f) | None \<Rightarrow> []"
  have k: "keys_ok dir" using assms(1) by (simp add: dir_ok_def)
  have d: "?d = filter (\<lambda>(n, f). ?P n f) dir" by (simp add: cleanup_old_files_def)
  note F = session_files_filter [OF k, where P = ?P, folded d]
  have q: "(\<forall>f. map_of dir n = Some f \<longrightarrow> ?P n f) \<longleftrightarrow> ?c \<le> modified dir n" if "n \<in> set (session_files dir)" for n
    using that assms(2) by (auto simp: session_files_def modified_def is_expired_def map_of_eq_None_iff split: option.splits
      intro: rev_image_eqI)
  then have f: "session_files ?d = filter (\<lambda>n. ?c \<le> modified dir n) (session_files dir)" unfolding F(1) by (intro filter_cong) auto
  have "\<exists>k. filter (\<lambda>n. ?c \<le> modified dir n) (session_files dir) = drop k (session_files dir)"
  proof (rule filter_from)
    show "sorted (session_files dir)" by (simp add: session_files_def)
    show "?c \<le> modified dir b" if "a \<in> set (session_files dir)" "b \<in> set (session_files dir)" "a \<le> b" "?c \<le> modified dir a" for a b
      using that assms(1) order_trans unfolding dir_ok_def by blast
  qed
  then obtain j where j: "session_files ?d = drop j (session_files dir)" using f by metis
  have "?read ?d n = ?read dir n" if "n \<in> set (session_files ?d)" for n
  proof -
    have "\<forall>f. map_of dir n = Some f \<longrightarrow> ?P n f" using that F(1) by auto
    then show ?thesis using F(2) [of n] by (auto split: option.splits)
  qed
  then have "map (?read ?d) (session_files ?d) = map (?read dir) (session_files ?d)" by (intro map_cong refl)
  also have "\<dots> = drop j (map (?read dir) (session_files dir))" unfolding j by (simp add: drop_map)
  finally show "\<exists>k. log_lines ?d = drop k (log_lines dir)" unfolding log_lines_def using concat_drop by metis
  show "dir_ok m t ?d" unfolding d by (rule remove_dir_ok [OF assms(1)])
qed

lemma clear_lines:
  assumes "dir_ok m t dir" "\<forall>n. le_remove E n"
  shows "log_lines (clear_files E dir) = []" "dir_ok m t (clear_files E dir)"
proof -
  have "session_files (clear_files E dir) = []"
    using assms(2) by (auto simp: session_files_def clear_files_def filter_empty_conv)
  then show "log_lines (clear_files E dir) = []" by (simp add: log_lines_def)
  show "dir_ok m t (clear_files E dir)" unfolding clear_files_def by (rule remove_dir_ok [OF assms(1)])
qed

lemma linked_snoc_new:
  assumes "linked_from J None ws" "is_object v" "chain_value J lst v = Some (link, v')" "reads_alike J v' w" "ws \<noteq> [] \<Longrightarrow> lst = last_of ws"
  shows "linked_from J None (ws @ [w])" "last_of (ws @ [w]) = Some link"
proof -
  note c = chain_value_linked [OF assms(2,3)]
  have w: "link_of w = Some (link, prev_hash lst)" "chain_hash J (prev_hash lst) w = cl_hash link"
    using c assms(4) by (auto simp: reads_alike_def chain_hash_def chain_text_def)
  then show "last_of (ws @ [w]) = Some link" by (simp add: last_of_def)
  have l: "linked_from J lst [w]" using w c(4)
    by (auto simp: prev_hash_def next_seq_def split: option.splits)
  have "linked_from J (if ws = [] then None else map_option fst (link_of (last ws))) [w]"
  proof (cases "ws = []")
    case True
    then show ?thesis using linked_forget [OF l] by simp
  next
    case False
    then show ?thesis using l assms(5) by (simp add: last_of_def)
  qed
  then show "linked_from J None (ws @ [w])" using assms(1) by (simp only: linked_append)
qed

lemma writer_step_written:
  assumes J: "lib_ok J" and W: "written_ok J m t S" and E: "m \<le> file_name E" "le_disk E = NotOpened \<or> le_disk E = Whole"
    "t \<le> le_time E" "\<forall>n. le_remove E n"
    and s: "writer_step J E S = Some S'"
  shows "written_ok J (file_name E) (le_time E) S'"
proof -
  from W obtain ws where i: "log_inv S" and d: "dir_ok m t (sl_dir S)"
    and ws: "list_all2 (\<lambda>line w. open_line J line = Some w) (log_lines (sl_dir S)) ws" "linked_from J None ws"
      "\<And>lst. sl_chain S = Some lst \<Longrightarrow> ws \<noteq> [] \<Longrightarrow> lst = last_of ws" by (auto simp: written_ok_def)
  have i': "log_inv S'" using writer_step_Some [OF i, of J E] s by simp
  define lst where "lst = (case sl_chain S of Some l \<Rightarrow> l | None \<Rightarrow> last_link J (sl_dir S))"
  have lst: "ws \<noteq> [] \<Longrightarrow> lst = last_of ws"
    using ws(3) last_link_eq [OF ws(1,2)] by (auto simp: lst_def split: option.splits)
  have d': "dir_ok (file_name E) (le_time E) (sl_dir S)" by (rule dir_ok_mono [OF d E(1,3)])
  have same: "written_ok J (file_name E) (le_time E) S'"
    if "sl_dir S' = sl_dir S" "sl_chain S' = sl_chain S \<or> sl_chain S' = Some lst"
    using that i' d' ws lst unfolding written_ok_def by auto
  show ?thesis
  proof (cases "sl_queue S")
    case Nil
    with s show ?thesis by (intro same) (auto simp: writer_step_def)
  next
    case (Cons msg rest)
    show ?thesis
    proof (cases msg)
      case ClearLog
      with Cons s have S': "sl_dir S' = clear_files E (sl_dir S)" "sl_chain S' = Some None" by (auto simp: writer_step_def)
      show ?thesis unfolding written_ok_def using i' S' clear_lines [OF d' E(4)]
        by (auto intro!: exI [of _ "[]"])
    next
      case (Append v)
      then have v: "is_object v" using i Cons by (simp add: log_inv_def)
      show ?thesis
      proof (cases "enabled E")
        case False
        with Append Cons s show ?thesis by (intro same) (auto simp: writer_step_def)
      next
        case en: True
        obtain link v' where c: "chain_value J lst v = Some (link, v')" using chain_value_object [OF v] by blast
        obtain ok dir where a: "append_record J E v' (sl_dir S) = (ok, dir)" by fastforce
        have S': "S' = S\<lparr>sl_queue := rest, sl_dir := dir, sl_chain := Some (if ok then Some link else lst)\<rparr>"
          using s Cons Append en c a unfolding writer_step_def by (auto simp: lst_def)
        show ?thesis
        proof (cases ok)
          case False
          with a E(2) have "dir = sl_dir S" by (auto simp: append_record_def split: option.splits Disk.splits)
          with False S' show ?thesis by (intro same) auto
        next
          case True
          with a E(2) obtain line where l: "seal_line J v' = Some line" "dir = append_text E (line @ [NL]) (sl_dir S)"
            by (auto simp: append_record_def split: option.splits Disk.splits)
          have ln: "NL \<notin> set line" "line \<noteq> []" "last line \<noteq> CHR 0x0D"
            using J l(1) by (auto simp: lib_ok_def seal_line_def Let_def split: if_splits)
          from open_sealed [OF J l(1)] obtain w where w: "open_line J line = Some w" "reads_alike J v' w" by blast
          note new = linked_snoc_new [OF ws(2) v c w(2) lst]
          have "list_all2 (\<lambda>line w. open_line J line = Some w) (log_lines dir) (ws @ [w])"
            using log_lines_append(1) [OF d E(1,3) ln] ws(1) w(1) l(2) by (simp add: list_all2_appendI)
          with new i' True S' log_lines_append(2) [OF d E(1,3) ln] l(2) show ?thesis
            unfolding written_ok_def by auto
        qed
      qed
    qed
  qed
qed

text \<open>Operations in the order of time: the months and the clock of the writer do not go back, a write takes the whole line
  or does not happen, and a file that is to be removed is removed.\<close>

fun steady :: "string \<Rightarrow> int \<Rightarrow> LogOp list \<Rightarrow> bool" where
  "steady m t [] = True"
| "steady m t (op # ops) =
     (case op of
        WriterTurn E \<Rightarrow> m \<le> file_name E \<and> t \<le> le_time E \<and> le_disk E \<in> {NotOpened, Whole} \<and> (\<forall>n. le_remove E n)
          \<and> steady (file_name E) (le_time E) ops
      | Cleanup E days \<Rightarrow> (\<forall>n. le_remove E n) \<and> steady m t ops
      | Maintenance E \<Rightarrow> (\<forall>n. le_remove E n) \<and> steady m t ops
      | _ \<Rightarrow> steady m t ops)"

lemma cleanup_written:
  assumes "written_ok J m t S" "\<forall>n. le_remove E n" "log_inv S'" "sl_chain S' = sl_chain S"
    "sl_dir S' = cleanup_old_files E days (sl_dir S)"
  shows "written_ok J m t S'"
proof -
  obtain ws where d: "dir_ok m t (sl_dir S)" and ws: "list_all2 (\<lambda>line w. open_line J line = Some w) (log_lines (sl_dir S)) ws"
      "linked_from J None ws" "\<And>lst. sl_chain S = Some lst \<Longrightarrow> ws \<noteq> [] \<Longrightarrow> lst = last_of ws"
    using assms(1) by (auto simp: written_ok_def)
  obtain k where k: "log_lines (sl_dir S') = drop k (log_lines (sl_dir S))" using cleanup_lines(1) [OF d assms(2)] assms(5) by metis
  have "last_of (drop k ws) = last_of ws" "ws \<noteq> []" if "drop k ws \<noteq> []" using that by (auto simp: last_of_def last_drop)
  then have "\<forall>lst. sl_chain S' = Some lst \<longrightarrow> drop k ws \<noteq> [] \<longrightarrow> lst = last_of (drop k ws)" using ws(3) assms(4) by auto
  moreover have "list_all2 (\<lambda>line w. open_line J line = Some w) (log_lines (sl_dir S')) (drop k ws)"
    unfolding k by (rule list_all2_dropI [OF ws(1)])
  ultimately show ?thesis unfolding written_ok_def
    using assms(3,5) cleanup_lines(2) [OF d assms(2)] linked_drop [OF ws(2)] by metis
qed

lemma on_audit_dir:
  "sl_dir (on_audit J E kind v S) = sl_dir S \<and> sl_chain (on_audit J E kind v S) = sl_chain S"
  by (auto simp: on_audit_def Let_def on_connection_def send_def cleanup_if_due_def clear_if_disabled_def split: prod.splits option.splits)

lemma step_written:
  assumes "written_ok J m t S" "\<And>E. op \<noteq> WriterTurn E" "\<And>E d. op \<noteq> Cleanup E d" "\<And>E. op \<noteq> Maintenance E"
  shows "written_ok J m t (log_step J op S)"
proof -
  have "log_inv (log_step J op S)" using assms(1) log_inv_step by (auto simp: written_ok_def)
  moreover have "sl_dir (log_step J op S) = sl_dir S"
    "sl_chain (log_step J op S) = sl_chain S \<or> sl_chain (log_step J op S) = None"
    using assms(2-4) on_audit_dir
    by (cases op; auto simp: mark_permission_def retention_changed_def initialize_def Let_def cleanup_if_due_def clear_if_disabled_def
        fresh_log_def)+
  ultimately show ?thesis using written_ok_cong [OF assms(1)] by blast
qed

lemma run_written:
  assumes "lib_ok J" "written_ok J m t S" "steady m t ops"
  shows "\<exists>m' t'. written_ok J m' t' (fold (log_step J) ops S)"
  using assms(2,3)
proof (induction ops arbitrary: m t S)
  case (Cons op ops)
  show ?case
  proof (cases op)
    case (WriterTurn E)
    from Cons.prems(1) have "log_inv S" by (simp add: written_ok_def)
    then obtain S' where S': "writer_step J E S = Some S'" using writer_step_Some by blast
    from Cons.prems(2) WriterTurn have "m \<le> file_name E" "le_disk E = NotOpened \<or> le_disk E = Whole" "t \<le> le_time E"
      "\<forall>n. le_remove E n" "steady (file_name E) (le_time E) ops" by auto
    with Cons.IH [OF writer_step_written [OF assms(1) Cons.prems(1) _ _ _ _ S']] S' WriterTurn show ?thesis by simp
  next
    case (Cleanup E d)
    have "log_inv (log_step J op S)" using Cons.prems(1) log_inv_step by (auto simp: written_ok_def)
    then have "written_ok J m t (log_step J op S)"
      using Cons.prems Cleanup by (intro cleanup_written [OF Cons.prems(1)]) auto
    then show ?thesis using Cons.IH Cons.prems(2) Cleanup by simp
  next
    case (Maintenance E)
    have i: "log_inv (log_step J op S)" using Cons.prems(1) log_inv_step by (auto simp: written_ok_def)
    have "written_ok J m t (log_step J op S)"
    proof (cases "enabled E")
      case True
      then show ?thesis using Cons.prems Maintenance i
        by (intro cleanup_written [OF Cons.prems(1)]) (auto simp: maintenance_turn_def)
    next
      case False
      then show ?thesis using Maintenance i
        by (intro written_ok_cong [OF Cons.prems(1)]) (auto simp: maintenance_turn_def clear_if_disabled_def)
    qed
    then show ?thesis using Cons.IH Cons.prems(2) Maintenance by simp
  qed (use Cons step_written [OF Cons.prems(1), of op] in auto)
qed auto

lemma verdicts_default: "verdicts J verifier_default (map Some vs) = replicate (length vs) (Some True) \<longleftrightarrow> linked_from J None vs"
  by (simp add: verifier_default_def verdicts_linked)

text \<open>C30: what the writer wrote verifies. Whatever events, writes, clears, removals of expired files and restarts come in
  whatever order, with or without the machine key, every line of the log is read back and found intact, and so is every
  line that remains when the oldest ones are removed as well, as long as the months and the clock do not go back
  between two writes, a write takes the whole line or does not happen, and a removal of files, which runs to its end,
  removes all of them. A line cut by a failing write, or a file that a clear could not remove, does show as broken.\<close>

theorem written_log_verifies:
  assumes "lib_ok J" "steady [] t ops"
  shows "verdicts J verifier_default (map (open_line J) (drop n (log_lines (sl_dir (fold (log_step J) ops (fresh_log []))))))
    = replicate (length (log_lines (sl_dir (fold (log_step J) ops (fresh_log [])))) - n) (Some True)"
proof -
  let ?S = "fold (log_step J) ops (fresh_log [])"
  have "written_ok J [] t (fresh_log [])"
    by (auto simp: written_ok_def log_inv_def fresh_log_def dir_ok_def session_files_def log_lines_def)
  from run_written [OF assms(1) this assms(2)] obtain ws where
    ws: "list_all2 (\<lambda>line w. open_line J line = Some w) (log_lines (sl_dir ?S)) ws" "linked_from J None ws"
    by (auto simp: written_ok_def)
  have "map (open_line J) (log_lines (sl_dir ?S)) = map Some ws"
    using ws(1) by (induction rule: list_all2_induct) auto
  moreover have "length (log_lines (sl_dir ?S)) = length ws" using ws(1) by (rule list_all2_lengthD)
  ultimately show ?thesis using verdicts_default [of J "drop n ws"] linked_drop [OF ws(2), of n]
    by (simp add: drop_map [symmetric])
qed

text \<open>C31: tampering shows. Let the hash of the last written record be known from elsewhere. A sequence of
  records that verifies throughout and ends with that hash is a final part of what was written, record by record
  with the same contents, unless two of the hashed texts collide or a text hashes to the genesis value.\<close>

theorem tampering_detected:
  assumes "list_all is_object recs" "seen \<noteq> []"
    "verdicts J verifier_default (map Some seen) = replicate (length seen) (Some True)"
    "last_hash seen = last_hash (chain_all J None recs)"
    "\<And>v. NL \<notin> set (ll_print J v)" "inj_on (ll_sha J) (hashed J seen \<union> hashed J (chain_all J None recs))"
    "CHAIN_GENESIS \<notin> ll_sha J ` hashed J seen"
  shows "\<exists>pre suf. chain_all J None recs = pre @ suf \<and> list_all2 (same_content J) seen suf"
proof (rule chain_suffix)
  show "linked_from J None seen" using assms(3) by (simp add: verdicts_default)
  show "linked_from J None (chain_all J None recs)" using chain_all_linked [OF assms(1)] by blast
  show "p = CHAIN_GENESIS" if "chain_all J None recs = w # us" "link_of w = Some (l, p)" for w us l p
    using chain_all_first [OF assms(1) that] .
qed (use assms in auto)

text \<open>The chain is no seal. Whoever can write the files can put any records into the log, as plain
  lines chained with the public hash function: they all verify as intact, whatever the machine key.\<close>

theorem plain_chain_accepted:
  assumes "\<And>v. \<exists>w. ll_parse J (ll_print J v) = Some w \<and> reads_alike J v w"
    "\<And>v. is_object v \<Longrightarrow> starts_with (ll_print J v) ''{''" "list_all is_object recs"
  shows "verdicts J verifier_default (map (open_line J) (map (ll_print J) (chain_all J None recs)))
    = replicate (length recs) (Some True)"
proof -
  let ?ws = "chain_all J None recs"
  have o: "list_all is_object (chain_all J lst vs)" if "list_all is_object vs" for lst vs
    using that by (induction J lst vs rule: chain_all.induct) (auto dest: chain_value_linked(3) split: option.splits)
  have "\<exists>u. open_line J (ll_print J w) = Some u \<and> reads_alike J w u" if "w \<in> set ?ws" for w
    using that o [OF assms(3)] assms(1) [of w] assms(2) [of w] by (auto simp: open_line_def list_all_iff)
  then have "\<exists>us. map (open_line J) (map (ll_print J) ws) = map Some us \<and> list_all2 (reads_alike J) ws us" if "set ws \<subseteq> set ?ws" for ws
    using that
  proof (induction ws)
    case (Cons w ws)
    from Cons obtain us where "map (open_line J) (map (ll_print J) ws) = map Some us" "list_all2 (reads_alike J) ws us" by auto
    moreover from Cons.prems obtain u where "open_line J (ll_print J w) = Some u" "reads_alike J w u" by force
    ultimately show ?case by (intro exI [of _ "u # us"]) simp
  qed simp
  from this [of ?ws] obtain us where us: "map (open_line J) (map (ll_print J) ?ws) = map Some us"
    "list_all2 (reads_alike J) ?ws us" by blast
  have "linked_from J None us" using linked_alike [OF us(2)] chain_all_linked [OF assms(3)] by blast
  moreover have "length us = length recs" using list_all2_lengthD [OF us(2)] chain_all_linked [OF assms(3)] by simp
  ultimately show ?thesis using us(1) verdicts_default [of J us] by simp
qed

text \<open>A line without chain fields escapes the verification. One plain line at the end of the log, with the
  key of a session, replaces that session in the report; its verdict is whatever the line says, and the session is
  not marked as broken.\<close>

theorem unchained_line_replaces:
  assumes "report_lines J from_ms to_ms ls report_default = Some R" "starts_with line ''{''" "ll_parse J line = Some v"
    "link_of v = None" "value_get ''_seq'' v = None" "value_get ''_prev'' v = None" "value_get ''_hash'' v = None"
    "get_str ''session_key'' v = Some k" "value_get ''closed'' v = Some (VBool True)"
    "in_interval from_ms to_ms (Option.bind (started_or_occurred v) (ll_millis J))"
  shows "\<exists>R' v'. report_lines J from_ms to_ms (ls @ [line]) report_default = Some R' \<and> map_of (rp_sessions R') k = Some v'
    \<and> value_get ''integrity'' v' = value_get ''integrity'' v \<and> value_get ''peer_id'' v' = value_get ''peer_id'' v
    \<and> rp_broken R' = rp_broken R"
proof -
  obtain fs where fs: "v = VObject fs" using assms(9) by (cases v) auto
  let ?v = "value_remove ''_hash'' (value_remove ''_prev'' (value_remove ''_seq'' v))"
  have g: "value_get x ?v = value_get x v" if "x \<notin> {''_seq'', ''_prev'', ''_hash''}" for x
    using that by (simp add: fs)
  have same: "started_or_occurred ?v = started_or_occurred v" "get_str ''session_key'' ?v = Some k"
    "Option.bind (value_get ''closed'' ?v) as_bool = Some True"
    using assms(8,9) g [of "''started_at''"] g [of "''occurred_at''"] g [of "''session_key''"] g [of "''closed''"]
    by (auto simp: started_or_occurred_def get_str_def split: option.split)
  have "report_line J from_ms to_ms line R = Some (R\<lparr>rp_sessions := assoc_insert k ?v (rp_sessions R)\<rparr>)"
    using assms(2-4,10) same
    by (simp add: report_line_def open_line_def check_def shown_def replaces_def Let_def)
  moreover have "report_lines J from_ms to_ms (ls @ [line]) Q = Option.bind (report_lines J from_ms to_ms ls Q) (report_line J from_ms to_ms line)" for Q
    by (induction ls arbitrary: Q) (auto split: bind_splits)
  ultimately show ?thesis using assms(1) g by simp
qed

instance Value :: countable
  by countable_datatype

definition toy_lib :: LogLib where
  "toy_lib = \<lparr>ll_print = (\<lambda>v. CHR ''{'' # replicate (to_nat v) CHR ''x''),
     ll_parse = (\<lambda>s. case s of c # r \<Rightarrow> if c = CHR ''{'' then Some (from_nat (length r)) else None | [] \<Rightarrow> None),
     ll_seal = (\<lambda>p. CHR ''0'' # p), ll_unseal = (\<lambda>s. (tl s, s \<noteq> [] \<and> hd s = CHR ''0'')),
     ll_sha = (\<lambda>s. s), ll_millis = (\<lambda>_. Some 0)\<rparr>"

lemma toy_lib_reads: "ll_parse toy_lib (ll_print toy_lib v) = Some v" "reads_alike toy_lib v v"
  "starts_with (ll_print toy_lib v) ''{''" "NL \<notin> set (ll_print toy_lib v)"
  by (simp_all add: toy_lib_def reads_alike_def starts_with_def NL_def)

lemma toy_lib_ok: "lib_ok toy_lib"
proof -
  have "NL \<notin> set line \<and> \<not> starts_with line ''{'' \<and> last line \<noteq> CHR 0x0D \<and> ll_unseal toy_lib line = (ll_print toy_lib v, True)"
    if "seal_line toy_lib v = Some line" for v line
    using that by (auto simp: seal_line_def toy_lib_def Let_def starts_with_def NL_def last_replicate split: if_splits)
  then show ?thesis unfolding lib_ok_def using toy_lib_reads by blast
qed

definition toy_env :: LogEnv where
  "toy_env = \<lparr>le_option = [], le_now = ''t'', le_time = 0, le_month = ''2026-01'', le_disk = Whole, le_remove = (\<lambda>_. True)\<rparr>"

definition toy_late :: LogEnv where
  "toy_late = toy_env\<lparr>le_time := 100000000, le_month := ''2028-01''\<rparr>"

text \<open>A record, another one two years later, the removal of the expired file, a restart and a last record.\<close>

definition toy_ops :: "LogOp list" where
  "toy_ops = [Audit toy_env ''alarm'' (VObject []), WriterTurn toy_env, Audit toy_late ''alarm'' VNull, WriterTurn toy_late,
     Cleanup toy_late 180, Maintenance toy_late, Restart, Audit toy_late ''alarm'' VNull, WriterTurn toy_late]"

theorem written_log_verifies_witness:
  "verdicts toy_lib verifier_default (map (open_line toy_lib) (drop 1 (log_lines (sl_dir (fold (log_step toy_lib) toy_ops (fresh_log []))))))
    = replicate (length (log_lines (sl_dir (fold (log_step toy_lib) toy_ops (fresh_log [])))) - 1) (Some True)"
proof (rule written_log_verifies [OF toy_lib_ok, of 0])
  have "file_name toy_env \<le> file_name toy_late" by code_simp
  then show "steady [] 0 toy_ops" by (simp add: toy_ops_def toy_late_def toy_env_def)
qed

lemma toy_text_not_genesis: "ll_sha toy_lib (chain_text toy_lib p v) \<noteq> CHAIN_GENESIS"
proof -
  have "NL \<in> set (chain_text toy_lib p v)" by (simp add: chain_text_def)
  moreover have "NL \<notin> set CHAIN_GENESIS" by (simp add: CHAIN_GENESIS_def NL_def)
  moreover have "ll_sha toy_lib x = x" for x by (simp add: toy_lib_def)
  ultimately show ?thesis by metis
qed

lemma toy_no_genesis: "CHAIN_GENESIS \<notin> ll_sha toy_lib ` hashed toy_lib vs"
proof
  assume "CHAIN_GENESIS \<in> ll_sha toy_lib ` hashed toy_lib vs"
  then obtain p v where "CHAIN_GENESIS = ll_sha toy_lib (chain_text toy_lib p v)" unfolding hashed_def by blast
  then show False using toy_text_not_genesis by metis
qed

theorem tampering_detected_witness:
  "\<exists>pre suf. chain_all toy_lib None [VObject [], VObject []] = pre @ suf
     \<and> list_all2 (same_content toy_lib) (drop 1 (chain_all toy_lib None [VObject [], VObject []])) suf"
proof (rule tampering_detected)
  let ?ws = "chain_all toy_lib None [VObject [], VObject []]"
  have c: "linked_from toy_lib None ?ws" "length ?ws = 2" using chain_all_linked [of "[VObject [], VObject []]"] by auto
  show "drop 1 ?ws \<noteq> []" using c(2) by auto
  show "verdicts toy_lib verifier_default (map Some (drop 1 ?ws)) = replicate (length (drop 1 ?ws)) (Some True)"
    using linked_drop [OF c(1)] verdicts_default by blast
  show "last_hash (drop 1 ?ws) = last_hash ?ws" using c(2) by (auto simp: last_hash_def last_drop)
  show "inj_on (ll_sha toy_lib) (hashed toy_lib (drop 1 ?ws) \<union> hashed toy_lib ?ws)" by (simp add: toy_lib_def)
  show "CHAIN_GENESIS \<notin> ll_sha toy_lib ` hashed toy_lib (drop 1 ?ws)" by (rule toy_no_genesis)
qed (use toy_lib_reads(4) in auto)

theorem plain_chain_accepted_witness:
  "verdicts toy_lib verifier_default (map (open_line toy_lib) (map (ll_print toy_lib) (chain_all toy_lib None [VObject [], VObject []])))
    = replicate (length [VObject [], VObject []]) (Some True)"
  by (rule plain_chain_accepted) (use toy_lib_reads in blast, simp_all add: toy_lib_reads)

definition toy_forged :: Value where
  "toy_forged = VObject [(''session_key'', VString ''1:t''), (''closed'', VBool True), (''integrity'', VString ''ok''),
     (''started_at'', VString ''t''), (''peer_id'', VString ''someone'')]"

theorem unchained_line_replaces_witness:
  "\<exists>R' v'. report_lines toy_lib 0 0 ([] @ [ll_print toy_lib toy_forged]) report_default = Some R'
    \<and> map_of (rp_sessions R') ''1:t'' = Some v'
    \<and> value_get ''integrity'' v' = value_get ''integrity'' toy_forged \<and> value_get ''peer_id'' v' = value_get ''peer_id'' toy_forged
    \<and> rp_broken R' = rp_broken report_default"
  by (rule unchained_line_replaces [OF _ toy_lib_reads(3,1)])
    (simp_all add: toy_forged_def link_of_def get_u64_def get_str_def in_interval_def started_or_occurred_def toy_lib_def)

end
