(* ===== verification/Video_Qos.thy ===== *)
theory Video_Qos
  imports Rust_Prelude Complex_Main
begin

text \<open>
  The controller of frame rate and bitrate, \<^verbatim>\<open>src/src/server/video_qos.rs\<close>, with \<open>Quality\<close> of
  \<^verbatim>\<open>src/libs/scrap/src/common/codec.rs\<close>. Times are milliseconds; \<open>u32\<close> and \<open>u8\<close> values are natural
  numbers with the saturating and wrapping operations of the source. An \<open>f32\<close> is the rational number it stands
  for, and the rounding of every operation is the argument \<open>F\<close>, of which the theorems use that it is monotone,
  idempotent and exact on 0, 1 and 2 (\<open>f32_ok\<close>). \<open>f32::clamp\<close> panics when its bounds are in the wrong order: that is
  \<open>None\<close>. The values of the protocol's \<open>ImageQuality\<close>, generated code, are arguments of \<open>user_image_quality\<close>.
\<close>

section \<open>Model: baseline delay\<close>

definition WINDOW_SAMPLES :: nat where "WINDOW_SAMPLES = 20"
definition MAX_INCREASE_MS :: nat where "MAX_INCREASE_MS = 50"

record RttCalculator =
  rc_baseline :: "nat option"
  rc_samples :: "nat list"

definition rtt_default :: RttCalculator where
  "rtt_default = \<lparr>rc_baseline = None, rc_samples = []\<rparr>"

definition min_of :: "nat list \<Rightarrow> nat option" where
  "min_of xs = (case xs of [] \<Rightarrow> None | x # r \<Rightarrow> Some (fold min r x))"

definition rtt_push :: "nat \<Rightarrow> nat list \<Rightarrow> nat list" where
  "rtt_push delay samples = (if length samples \<ge> WINDOW_SAMPLES then tl samples else samples) @ [delay]"

definition rtt_update :: "nat \<Rightarrow> RttCalculator \<Rightarrow> RttCalculator" where
  "rtt_update delay rc =
     (let samples = rtt_push delay (rc_samples rc);
          baseline = min (case rc_baseline rc of Some b \<Rightarrow> b | None \<Rightarrow> delay) delay;
          rc = \<lparr>rc_baseline = Some baseline, rc_samples = samples\<rparr>
      in if length samples < WINDOW_SAMPLES then rc
         else
           let half = WINDOW_SAMPLES div 2 in
           case (min_of (take half samples), min_of (drop half samples)) of
             (Some older_min, Some recent_min) \<Rightarrow>
               if recent_min > sat_add u32_max older_min 10 then rc
               else
                 let rise = min older_min recent_min - baseline in
                 if rise > 0 then rc\<lparr>rc_baseline := Some (baseline + clamp_nat (rise div 2) 1 MAX_INCREASE_MS)\<rparr>
                 else rc
           | _ \<Rightarrow> rc)"

definition get_rtt :: "RttCalculator \<Rightarrow> nat" where
  "get_rtt rc = (case rc_baseline rc of Some b \<Rightarrow> b | None \<Rightarrow> 0)"

section \<open>Model: one viewer's delay\<close>

definition FPS :: nat where "FPS = 30"
definition MIN_FPS :: nat where "MIN_FPS = 1"
definition MAX_FPS :: nat where "MAX_FPS = 120"
definition INIT_FPS :: nat where "INIT_FPS = 15"
definition MIN_AUTO_FPS :: nat where "MIN_AUTO_FPS = 5"
definition HISTORY_DELAY_LEN :: nat where "HISTORY_DELAY_LEN = 2"
definition ADJUST_RATIO_INTERVAL :: nat where "ADJUST_RATIO_INTERVAL = 3"
definition DYNAMIC_SCREEN_THRESHOLD :: nat where "DYNAMIC_SCREEN_THRESHOLD = 2"
definition DELAY_THRESHOLD_150MS :: nat where "DELAY_THRESHOLD_150MS = 150"
definition RESTORE_GUARD_SAMPLES :: nat where "RESTORE_GUARD_SAMPLES = 5"

record UserDelay =
  ud_stall_ticks :: nat
  ud_delay_history :: "nat list"
  ud_fps :: "nat option"
  ud_rtt :: RttCalculator
  ud_quick_increase_fps_count :: nat
  ud_increase_fps_count :: nat
  ud_consecutive_bad_samples :: nat
  ud_fps_bad_samples :: nat
  ud_good_samples :: nat
  ud_replies_after_bitrate_reduction :: "nat option"
  ud_fps_before_congestion :: "nat option"
  ud_samples_since_restore :: "nat option"
  ud_stall_reference_fps :: "nat option"
  ud_startup_good_samples :: nat

definition delay_default :: UserDelay where
  "delay_default = \<lparr>ud_stall_ticks = 0, ud_delay_history = [], ud_fps = None, ud_rtt = rtt_default,
     ud_quick_increase_fps_count = 0, ud_increase_fps_count = 0, ud_consecutive_bad_samples = 0,
     ud_fps_bad_samples = 0, ud_good_samples = 0, ud_replies_after_bitrate_reduction = None,
     ud_fps_before_congestion = None, ud_samples_since_restore = None, ud_stall_reference_fps = None,
     ud_startup_good_samples = 0\<rparr>"

definition add_delay :: "nat \<Rightarrow> UserDelay \<Rightarrow> UserDelay" where
  "add_delay delay d =
     d\<lparr>ud_delay_history := (if length (ud_delay_history d) \<ge> HISTORY_DELAY_LEN then tl (ud_delay_history d)
        else ud_delay_history d) @ [delay]\<rparr>"

definition avg_delay :: "UserDelay \<Rightarrow> nat" where
  "avg_delay d =
     (if ud_delay_history d = [] then DELAY_THRESHOLD_150MS
      else (sum_list (ud_delay_history d) mod (u32_max + 1)) div length (ud_delay_history d) - get_rtt (ud_rtt d))"

text \<open>The first reduction of an episode remembers the level to return to.\<close>

definition on_reduction :: "nat \<Rightarrow> UserDelay \<Rightarrow> UserDelay" where
  "on_reduction current_fps d =
     d\<lparr>ud_startup_good_samples := u8_max, ud_good_samples := 0, ud_fps_bad_samples := 0,
       ud_fps_before_congestion := (case ud_fps_before_congestion d of None \<Rightarrow> Some current_fps | Some f \<Rightarrow> Some f)\<rparr>"

definition recover :: "nat \<Rightarrow> nat \<Rightarrow> UserDelay \<Rightarrow> nat \<times> UserDelay" where
  "recover current_fps fps d =
     (let gradual = current_fps + max (current_fps div 10) 1;
          level = (case ud_fps_before_congestion d of Some l \<Rightarrow> if l > current_fps then Some l else None | None \<Rightarrow> None)
      in case level of
           Some l \<Rightarrow>
             if ud_good_samples d = 2 \<or> ud_good_samples d = 3 then
               (max fps l, d\<lparr>ud_fps_before_congestion := None, ud_samples_since_restore := Some 0\<rparr>)
             else (gradual, d)
         | None \<Rightarrow>
             if ud_good_samples d = 3 then
               (max fps (current_fps + max (current_fps div 5) 2), d\<lparr>ud_fps_before_congestion := None\<rparr>)
             else (gradual, d))"

definition recently_restored :: "UserDelay \<Rightarrow> bool" where
  "recently_restored d =
     (case ud_samples_since_restore d of Some s \<Rightarrow> s \<le> RESTORE_GUARD_SAMPLES | None \<Rightarrow> False)"

text \<open>The counters after a reply with a low delay, and after one with a high delay; a level that congests right
  after being restored is not the level to return to.\<close>

definition good_reply :: "UserDelay \<Rightarrow> UserDelay" where
  "good_reply d =
     d\<lparr>ud_consecutive_bad_samples := 0, ud_fps_bad_samples := 0, ud_replies_after_bitrate_reduction := None,
       ud_good_samples := min (ud_good_samples d + 1) 3\<rparr>"

definition bad_reply :: "nat \<Rightarrow> bool \<Rightarrow> UserDelay \<Rightarrow> UserDelay" where
  "bad_reply current_fps failed_restore d =
     (let d = d\<lparr>ud_consecutive_bad_samples := min (ud_consecutive_bad_samples d + 1) 3,
                ud_fps_bad_samples := min (ud_fps_bad_samples d + 1) 3,
                ud_replies_after_bitrate_reduction := map_option (\<lambda>r. min (r + 1) 2) (ud_replies_after_bitrate_reduction d)\<rparr>
      in if recently_restored d \<and> (failed_restore \<or> ud_consecutive_bad_samples d \<ge> 3) then
           d\<lparr>ud_fps_before_congestion := Some (current_fps - current_fps div 4), ud_samples_since_restore := None\<rparr>
         else d)"

definition limit_fps_change :: "nat \<Rightarrow> nat \<Rightarrow> nat \<Rightarrow> bool \<Rightarrow> bool \<Rightarrow> UserDelay \<Rightarrow> nat \<times> UserDelay" where
  "limit_fps_change current_fps fps delay bitrate_first braked d =
     (let delay = delay - get_rtt (ud_rtt d);
          d = d\<lparr>ud_samples_since_restore := map_option (\<lambda>s. sat_add u8_max s 1) (ud_samples_since_restore d)\<rparr>
      in if delay < DELAY_THRESHOLD_150MS then recover current_fps fps (good_reply d)
         else
           let failed_restore = (delay \<ge> 600 \<and> recently_restored d);
               d = bad_reply current_fps failed_restore d
           in if fps \<ge> current_fps \<or> braked then (current_fps, d)
              else if \<not> failed_restore \<and> delay < 1000
                \<and> (ud_fps_bad_samples d < 3
                   \<or> bitrate_first \<and> (case ud_replies_after_bitrate_reduction d of Some r \<Rightarrow> r | None \<Rightarrow> 0) < 2)
              then (current_fps, d)
              else
                let divisor = (if delay \<ge> 1000 \<or> failed_restore then 2 else 5)
                in (max fps (current_fps - max (current_fps div divisor) 1), on_reduction current_fps d))"

definition accelerate_startup :: "nat \<Rightarrow> nat \<Rightarrow> nat \<Rightarrow> nat \<Rightarrow> bool \<Rightarrow> UserDelay \<Rightarrow> nat \<times> UserDelay" where
  "accelerate_startup current_fps fps cap delay braked d =
     (if ud_startup_good_samples d = u8_max then (fps, d)
      else
        let excess = delay - get_rtt (ud_rtt d) in
        if braked \<or> excess \<ge> 50 \<or> current_fps \<ge> cap then (fps, d\<lparr>ud_startup_good_samples := u8_max\<rparr>)
        else
          let d = d\<lparr>ud_startup_good_samples := ud_startup_good_samples d + 1\<rparr> in
          if ud_startup_good_samples d < 2 then (fps, d)
          else
            let accelerated = min (max fps (min (current_fps * 2) u32_max)) cap
            in (accelerated, d\<lparr>ud_startup_good_samples := (if accelerated \<ge> cap then u8_max else 0)\<rparr>))"

definition needs_bitrate_reduction :: "UserDelay \<Rightarrow> bool" where
  "needs_bitrate_reduction d = (ud_consecutive_bad_samples d \<ge> 2 \<or> ud_stall_ticks d \<ge> 2)"

definition ratio_reduction :: "(rat \<Rightarrow> rat) \<Rightarrow> UserDelay \<Rightarrow> rat option" where
  "ratio_reduction F d =
     (if \<not> needs_bitrate_reduction d then None
      else
        let excess = avg_delay d; confirmed = ud_consecutive_bad_samples d \<ge> 3 in
        Some (F (if excess < 200 then 95 / 100
           else if excess < 300 then 9 / 10
           else if excess < 500 then (if confirmed then 7 / 10 else 85 / 100)
           else if confirmed then 5 / 10 else 8 / 10)))"

section \<open>Model: viewers and displays\<close>

datatype Quality = Best | Balanced | Low | CustomQuality rat

definition BR_BEST :: "(rat \<Rightarrow> rat) \<Rightarrow> rat" where "BR_BEST F = F (3 / 2)"
definition BR_BALANCED :: "(rat \<Rightarrow> rat) \<Rightarrow> rat" where "BR_BALANCED F = F (67 / 100)"
definition BR_SPEED :: "(rat \<Rightarrow> rat) \<Rightarrow> rat" where "BR_SPEED F = F (1 / 2)"
definition BR_MAX :: "(rat \<Rightarrow> rat) \<Rightarrow> rat" where "BR_MAX F = F 40"
definition BR_MIN :: "(rat \<Rightarrow> rat) \<Rightarrow> rat" where "BR_MIN F = F (1 / 5)"
definition BR_MIN_HIGH_RESOLUTION :: "(rat \<Rightarrow> rat) \<Rightarrow> rat" where "BR_MIN_HIGH_RESOLUTION F = F (1 / 10)"
definition MAX_BR_MULTIPLE :: "(rat \<Rightarrow> rat) \<Rightarrow> rat" where "MAX_BR_MULTIPLE F = F 1"

fun quality_ratio :: "(rat \<Rightarrow> rat) \<Rightarrow> Quality \<Rightarrow> rat" where
  "quality_ratio F Best = BR_BEST F"
| "quality_ratio F Balanced = BR_BALANCED F"
| "quality_ratio F Low = BR_SPEED F"
| "quality_ratio F (CustomQuality v) = v"

definition clamp_f32 :: "rat \<Rightarrow> rat \<Rightarrow> rat \<Rightarrow> rat option" where
  "clamp_f32 v lo hi = (if lo \<le> hi then Some (if v < lo then lo else if hi < v then hi else v) else None)"

record UserData =
  us_auto_adjust_fps :: "nat option"
  us_custom_fps :: "nat option"
  us_quality :: "(int \<times> Quality) option"
  us_delay :: UserDelay
  us_record :: bool
  us_joined_at :: "nat option"

definition user_default :: UserData where
  "user_default = \<lparr>us_auto_adjust_fps = None, us_custom_fps = None, us_quality = None, us_delay = delay_default,
     us_record = False, us_joined_at = None\<rparr>"

definition fps_cap :: "UserData \<Rightarrow> nat" where
  "fps_cap u =
     (let fps = (case us_custom_fps u of Some f \<Rightarrow> f | None \<Rightarrow> FPS);
          fps = (case us_auto_adjust_fps u of Some a \<Rightarrow> if fps = 0 \<or> a < fps then a else fps | None \<Rightarrow> fps)
      in clamp_nat fps MIN_FPS MAX_FPS)"

record DisplayData =
  dd_send_counter :: nat
  dd_support_changing_quality :: bool

record VideoQoS =
  vq_fps :: nat
  vq_ratio :: rat
  vq_users :: "(int \<times> UserData) list"
  vq_displays :: "(string \<times> DisplayData) list"
  vq_bitrate_store :: nat
  vq_adjust_ratio_instant :: nat
  vq_abr_config :: bool
  vq_first_reply_adjusts_ratio :: bool

definition qos_default :: "(rat \<Rightarrow> rat) \<Rightarrow> bool \<Rightarrow> nat \<Rightarrow> VideoQoS" where
  "qos_default F linux now =
     \<lparr>vq_fps = FPS, vq_ratio = BR_BALANCED F, vq_users = [], vq_displays = [], vq_bitrate_store = 0,
      vq_adjust_ratio_instant = now, vq_abr_config = True, vq_first_reply_adjusts_ratio = (\<not> linux)\<rparr>"

text \<open>\<open>saturating_duration_since\<close> in whole seconds.\<close>

definition since_secs :: "nat \<Rightarrow> nat \<Rightarrow> nat" where
  "since_secs now instant = (now - instant) div 1000"

definition fps_of :: "VideoQoS \<Rightarrow> nat" where
  "fps_of q = (if vq_fps q \<ge> MIN_FPS \<and> vq_fps q \<le> MAX_FPS then vq_fps q else FPS)"

definition ratio_of :: "(rat \<Rightarrow> rat) \<Rightarrow> VideoQoS \<Rightarrow> rat \<times> VideoQoS" where
  "ratio_of F q =
     (let r = (if vq_ratio q < BR_MIN_HIGH_RESOLUTION F \<or> vq_ratio q > BR_MAX F then BR_BALANCED F else vq_ratio q)
      in (r, q\<lparr>vq_ratio := r\<rparr>))"

definition store_bitrate :: "nat \<Rightarrow> VideoQoS \<Rightarrow> VideoQoS" where
  "store_bitrate bitrate q = q\<lparr>vq_bitrate_store := bitrate\<rparr>"

definition record_any :: "VideoQoS \<Rightarrow> bool" where
  "record_any q = list_ex (\<lambda>(_, u). us_record u) (vq_users q)"

definition set_support_changing_quality :: "string \<Rightarrow> bool \<Rightarrow> VideoQoS \<Rightarrow> VideoQoS" where
  "set_support_changing_quality name support q =
     q\<lparr>vq_displays := assoc_update name (\<lambda>d. d\<lparr>dd_support_changing_quality := support\<rparr>) (vq_displays q)\<rparr>"

definition in_vbr_state :: "VideoQoS \<Rightarrow> bool" where
  "in_vbr_state q = (vq_abr_config q \<and> list_all (\<lambda>(_, d). dd_support_changing_quality d) (vq_displays q))"

definition highest_fps :: "VideoQoS \<Rightarrow> nat" where
  "highest_fps q =
     clamp_nat (case min_of (map (\<lambda>(_, u). fps_cap u) (vq_users q)) of Some f \<Rightarrow> f | None \<Rightarrow> FPS) MIN_FPS MAX_FPS"

text \<open>\<open>max_by\<close> keeps the last of equal times; the order is the map's.\<close>

definition latest_quality :: "VideoQoS \<Rightarrow> Quality" where
  "latest_quality q =
     (case fold (\<lambda>tq best. case best of None \<Rightarrow> Some tq | Some b \<Rightarrow> if fst b \<le> fst tq then Some tq else Some b)
        (List.map_filter (\<lambda>(_, u). us_quality u) (vq_users q)) None of
        Some (_, y) \<Rightarrow> y
      | None \<Rightarrow> Balanced)"

definition adjust_fps :: "nat \<Rightarrow> VideoQoS \<Rightarrow> VideoQoS" where
  "adjust_fps now q =
     (let fps = (case min_of (map (\<lambda>(_, u). case ud_fps (us_delay u) of Some f \<Rightarrow> f | None \<Rightarrow> INIT_FPS) (vq_users q)) of
                   Some f \<Rightarrow> f | None \<Rightarrow> INIT_FPS);
          fps = (if list_ex (\<lambda>(_, u). case us_joined_at u of Some j \<Rightarrow> since_secs now j < 1 | None \<Rightarrow> False) (vq_users q)
                 then min fps INIT_FPS else fps)
      in q\<lparr>vq_fps := clamp_nat fps MIN_FPS (highest_fps q)\<rparr>)"

definition on_connection_open :: "nat \<Rightarrow> bool \<Rightarrow> int \<Rightarrow> VideoQoS \<Rightarrow> VideoQoS" where
  "on_connection_open now abr i q =
     q\<lparr>vq_users := assoc_insert i (user_default\<lparr>us_joined_at := Some now\<rparr>) (vq_users q), vq_abr_config := abr\<rparr>"

definition on_connection_close :: "(rat \<Rightarrow> rat) \<Rightarrow> bool \<Rightarrow> nat \<Rightarrow> int \<Rightarrow> VideoQoS \<Rightarrow> VideoQoS" where
  "on_connection_close F linux now i q =
     (let q = q\<lparr>vq_users := assoc_remove i (vq_users q)\<rparr>
      in if vq_users q = [] then qos_default F linux now else adjust_fps now q)"

definition update_user :: "int \<Rightarrow> (UserData \<Rightarrow> UserData) \<Rightarrow> VideoQoS \<Rightarrow> VideoQoS" where
  "update_user i f q = q\<lparr>vq_users := assoc_update i f (vq_users q)\<rparr>"

definition user_custom_fps :: "int \<Rightarrow> nat \<Rightarrow> VideoQoS \<Rightarrow> VideoQoS" where
  "user_custom_fps i fps q =
     (if fps < MIN_FPS \<or> fps > MAX_FPS then q else update_user i (\<lambda>u. u\<lparr>us_custom_fps := Some fps\<rparr>) q)"

definition user_auto_adjust_fps :: "int \<Rightarrow> nat \<Rightarrow> VideoQoS \<Rightarrow> VideoQoS" where
  "user_auto_adjust_fps i fps q =
     (if fps < MIN_FPS \<or> fps > MAX_FPS then q else update_user i (\<lambda>u. u\<lparr>us_auto_adjust_fps := Some fps\<rparr>) q)"

definition user_record :: "int \<Rightarrow> bool \<Rightarrow> VideoQoS \<Rightarrow> VideoQoS" where
  "user_record i v q = update_user i (\<lambda>u. u\<lparr>us_record := v\<rparr>) q"

definition new_display :: "string \<Rightarrow> VideoQoS \<Rightarrow> VideoQoS" where
  "new_display name q =
     q\<lparr>vq_displays := assoc_insert name \<lparr>dd_send_counter = 0, dd_support_changing_quality = False\<rparr> (vq_displays q)\<rparr>"

definition remove_display :: "string \<Rightarrow> VideoQoS \<Rightarrow> VideoQoS" where
  "remove_display name q = q\<lparr>vq_displays := assoc_remove name (vq_displays q)\<rparr>"

section \<open>Model: bitrate ratio\<close>

text \<open>\<open>q >> 8 & 0xFFF\<close> on an \<open>i32\<close>.\<close>

definition convert_quality :: "(rat \<Rightarrow> rat) \<Rightarrow> int \<Rightarrow> int \<Rightarrow> int \<Rightarrow> int \<Rightarrow> Quality option" where
  "convert_quality F iq_balanced iq_low iq_best y =
     (if y = iq_balanced then Some Balanced
      else if y = iq_low then Some Low
      else if y = iq_best then Some Best
      else
        let b = F (F (of_int (y div 256 mod 4096 * 2)) / F 100)
        in map_option CustomQuality (clamp_f32 b (BR_MIN F) (BR_MAX F)))"

definition user_image_quality ::
    "(rat \<Rightarrow> rat) \<Rightarrow> int \<Rightarrow> int \<Rightarrow> int \<Rightarrow> int \<Rightarrow> int \<Rightarrow> int \<Rightarrow> VideoQoS \<Rightarrow> VideoQoS option" where
  "user_image_quality F iq_balanced iq_low iq_best time i y q =
     map_option (\<lambda>x.
         if map_of (vq_users q) i = None then q
         else
           let q = update_user i (\<lambda>u. u\<lparr>us_quality := Some (time, x)\<rparr>) q
           in q\<lparr>vq_ratio := quality_ratio F (latest_quality q)\<rparr>)
       (convert_quality F iq_balanced iq_low iq_best y)"

definition min_ratio :: "(rat \<Rightarrow> rat) \<Rightarrow> VideoQoS \<Rightarrow> rat" where
  "min_ratio F q =
     (let bitrate = vq_bitrate_store q;
          ratio_1mbps = (if bitrate > 0
            then Some (max (F (F (vq_ratio q * F 1000) / F (of_nat bitrate))) (BR_MIN_HIGH_RESOLUTION F)) else None);
          lower = (\<lambda>m. case ratio_1mbps of Some r \<Rightarrow> if m > r then r else m | None \<Rightarrow> m)
      in case latest_quality q of
           Best \<Rightarrow> max (lower (F (BR_BEST F / F (5 / 2)))) (BR_MIN F)
         | Balanced \<Rightarrow> max (lower (min (F (BR_BALANCED F / F 2)) (F (4 / 10)))) (BR_MIN_HIGH_RESOLUTION F)
         | _ \<Rightarrow> BR_MIN_HIGH_RESOLUTION F)"

definition can_reduce_bitrate :: "(rat \<Rightarrow> rat) \<Rightarrow> VideoQoS \<Rightarrow> bool" where
  "can_reduce_bitrate F q =
     (in_vbr_state q \<and> vq_displays q \<noteq> [] \<and> vq_ratio q > F (min_ratio F q * F (102 / 100)))"

definition reset_send_counters :: "VideoQoS \<Rightarrow> VideoQoS" where
  "reset_send_counters q = q\<lparr>vq_displays := map (\<lambda>(n, d). (n, d\<lparr>dd_send_counter := 0\<rparr>)) (vq_displays q)\<rparr>"

definition max_delay_of :: "VideoQoS \<Rightarrow> nat option" where
  "max_delay_of q = (case map (\<lambda>(_, u). avg_delay (us_delay u)) (vq_users q) of [] \<Rightarrow> None | x # r \<Rightarrow> Some (fold max r x))"

definition reduction_of :: "(rat \<Rightarrow> rat) \<Rightarrow> VideoQoS \<Rightarrow> rat option" where
  "reduction_of F q =
     (case List.map_filter (\<lambda>(_, u). ratio_reduction F (us_delay u)) (vq_users q) of
        [] \<Rightarrow> None | x # r \<Rightarrow> Some (fold min r x))"

text \<open>The ratio asked for, before it is clamped.\<close>

definition wanted_ratio :: "(rat \<Rightarrow> rat) \<Rightarrow> bool \<Rightarrow> rat option \<Rightarrow> nat \<Rightarrow> VideoQoS \<Rightarrow> rat" where
  "wanted_ratio F dynamic_screen reduction max_delay q =
     (let current = vq_ratio q; bitrate = vq_bitrate_store q;
          v = (case reduction of
                 Some factor \<Rightarrow> F (current * factor)
               | None \<Rightarrow>
                   if \<not> dynamic_screen then current
                   else if max_delay < 50 then F (current * F (115 / 100))
                   else if max_delay < 100 then F (current * F (11 / 10))
                   else F (current * F (105 / 100)))
      in if bitrate > 0 then
           (let add = F (F (F (of_nat (add_u32 bitrate 150)) * current) / F (of_nat bitrate))
            in if v > add \<and> add > current \<and> current \<ge> BR_SPEED F then add else v)
         else v)"

definition note_reduction :: "nat \<Rightarrow> UserData \<Rightarrow> UserData" where
  "note_reduction replies u =
     (if needs_bitrate_reduction (us_delay u) \<and> ud_replies_after_bitrate_reduction (us_delay u) = None
      then u\<lparr>us_delay := (us_delay u)\<lparr>ud_replies_after_bitrate_reduction := Some replies\<rparr>\<rparr> else u)"

definition adjust_ratio :: "(rat \<Rightarrow> rat) \<Rightarrow> nat \<Rightarrow> bool \<Rightarrow> VideoQoS \<Rightarrow> VideoQoS option" where
  "adjust_ratio F now dynamic_screen q =
     (if \<not> in_vbr_state q then Some q
      else
        case max_delay_of q of
          None \<Rightarrow> Some q
        | Some max_delay \<Rightarrow>
            let reduction = reduction_of F q in
            if reduction = None \<and> max_delay \<ge> DELAY_THRESHOLD_150MS then Some (reset_send_counters q)
            else
              let mx = F (quality_ratio F (latest_quality q) * MAX_BR_MULTIPLE F);
                  v = wanted_ratio F dynamic_screen reduction max_delay q
              in map_option (\<lambda>r.
                   let q' = (if reduction \<noteq> None then
                       q\<lparr>vq_users := map (\<lambda>(i, u). (i, note_reduction (if r < vq_ratio q then 0 else 2) u)) (vq_users q)\<rparr>
                     else q)
                   in (reset_send_counters (q'\<lparr>vq_ratio := r\<rparr>))\<lparr>vq_adjust_ratio_instant := now\<rparr>)
                 (clamp_f32 v (min_ratio F q) mx))"

section \<open>Model: replies and timeouts\<close>

definition fps_range :: "(rat \<Rightarrow> rat) \<Rightarrow> rat \<Rightarrow> nat \<times> nat" where
  "fps_range F target_ratio =
     (if target_ratio \<ge> BR_BEST F then (8, 16) else if target_ratio \<ge> BR_BALANCED F then (10, 20) else (12, 24))"

definition divide_fps :: "(rat \<Rightarrow> rat) \<Rightarrow> nat \<Rightarrow> nat \<Rightarrow> nat" where
  "divide_fps F fps avg =
     min (nat \<lceil>F (F (of_nat fps) / F (F (of_nat avg) / F (of_nat DELAY_THRESHOLD_150MS)))\<rceil>) u32_max"

text \<open>The rate that the average delay suggests, with the two counters of good averages.\<close>

definition suggest_fps :: "(rat \<Rightarrow> rat) \<Rightarrow> nat \<times> nat \<Rightarrow> nat \<Rightarrow> nat \<Rightarrow> nat \<Rightarrow> UserDelay \<Rightarrow> nat \<times> UserDelay" where
  "suggest_fps F mn current_fps old_avg avg d =
     (case mn of (min_fps, normal_fps) \<Rightarrow>
        let slow = (if current_fps < normal_fps then 1 else 0);
            quick = ud_quick_increase_fps_count d + 1;
            dividend_ms = DELAY_THRESHOLD_150MS * min_fps;
            (fps, d) =
              (if avg < 50 then
                 (max min_fps (current_fps + (if quick \<ge> 3 then 5 else slow)),
                  d\<lparr>ud_quick_increase_fps_count := (if quick \<ge> 3 then 0 else quick)\<rparr>)
               else if avg < 100 then (max min_fps (current_fps + (if avg < old_avg then slow else 0)), d)
               else if avg < DELAY_THRESHOLD_150MS then (max min_fps current_fps, d)
               else
                 let divided = divide_fps F current_fps avg
                 in (if avg < 200 then max min_fps divided
                     else if avg < 300 then min min_fps divided
                     else if avg < 600 then dividend_ms div avg
                     else min (dividend_ms div avg) divided, d));
            increase = (if avg < DELAY_THRESHOLD_150MS then ud_increase_fps_count d + 1 else 0);
            fps = (if increase \<ge> 3 then fps + 1 else fps);
            d = d\<lparr>ud_increase_fps_count := (if increase \<ge> 3 then 0 else increase)\<rparr>
        in (fps, if avg > 50 then d\<lparr>ud_quick_increase_fps_count := 0\<rparr> else d))"

definition current_target :: "UserData \<Rightarrow> nat" where
  "current_target u = (case ud_fps (us_delay u) of Some f \<Rightarrow> f | None \<Rightarrow> min INIT_FPS (fps_cap u))"

text \<open>What a reply does to its viewer: the viewer, whether the bitrate is to be reduced, and whether it
  was the first reply.\<close>

definition reply_user :: "(rat \<Rightarrow> rat) \<Rightarrow> rat \<Rightarrow> bool \<Rightarrow> nat \<Rightarrow> UserData \<Rightarrow> UserData \<times> bool \<times> bool" where
  "reply_user F target_ratio bitrate_first delay u =
     (let delay = max delay 10;
          d = (us_delay u)\<lparr>ud_stall_ticks := 0, ud_stall_reference_fps := None\<rparr>;
          braked = ud_stall_reference_fps (us_delay u) \<noteq> None;
          old_avg = avg_delay d;
          d = (if braked then d else d\<lparr>ud_rtt := rtt_update delay (ud_rtt d)\<rparr>);
          d = add_delay delay d;
          avg = max (avg_delay d) 10;
          user_cap = fps_cap u;
          current_fps = current_target u;
          min_fps = fst (fps_range F target_ratio);
          (fps, d) = suggest_fps F (fps_range F target_ratio) current_fps old_avg avg d;
          fps = (if bitrate_first then max fps min_fps else fps);
          fps = max fps (min MIN_AUTO_FPS user_cap);
          (fps, d) = limit_fps_change current_fps fps delay bitrate_first braked d;
          (fps, d) = accelerate_startup current_fps fps user_cap delay braked d;
          reduce_bitrate = (bitrate_first \<and> needs_bitrate_reduction d \<and> ud_replies_after_bitrate_reduction d = None);
          fps = clamp_nat fps MIN_FPS user_cap
      in (u\<lparr>us_delay := d\<lparr>ud_fps := Some fps\<rparr>\<rparr>, reduce_bitrate, ud_fps (us_delay u) = None))"

definition adjust_when_due :: "(rat \<Rightarrow> rat) \<Rightarrow> nat \<Rightarrow> bool \<Rightarrow> VideoQoS \<Rightarrow> VideoQoS option" where
  "adjust_when_due F now wanted q =
     (if wanted \<and> since_secs now (vq_adjust_ratio_instant q) \<ge> ADJUST_RATIO_INTERVAL then adjust_ratio F now False q
      else Some q)"

definition user_network_delay :: "(rat \<Rightarrow> rat) \<Rightarrow> nat \<Rightarrow> int \<Rightarrow> nat \<Rightarrow> VideoQoS \<Rightarrow> VideoQoS option" where
  "user_network_delay F now i delay q =
     (let target_ratio = quality_ratio F (latest_quality q);
          bitrate_first = can_reduce_bitrate F q;
          (q, reduce_bitrate, first_reply) =
            (case map_of (vq_users q) i of
               None \<Rightarrow> (q, False, False)
             | Some u \<Rightarrow>
                 (case reply_user F target_ratio bitrate_first delay u of (u', reduce, first) \<Rightarrow>
                    (update_user i (\<lambda>_. u') q, reduce, first)));
          q = adjust_fps now q
      in Option.bind (adjust_when_due F now (first_reply \<and> vq_first_reply_adjusts_ratio q) q)
           (adjust_when_due F now reduce_bitrate))"

definition stall_user :: "nat \<Rightarrow> UserData \<Rightarrow> UserData" where
  "stall_user elapsed u =
     (let d = us_delay u;
          d = add_delay (elapsed mod (u32_max + 1)) (d\<lparr>ud_stall_ticks := sat_add u8_max (ud_stall_ticks d) 1\<rparr>);
          reference = (case ud_stall_reference_fps d of Some r \<Rightarrow> r | None \<Rightarrow> current_target u);
          d = (if ud_stall_reference_fps d = None
               then on_reduction reference (d\<lparr>ud_stall_reference_fps := Some reference\<rparr>) else d);
          divisor = 2 ^ min ((elapsed div 1000) mod (u32_max + 1) - 1) 5;
          user_cap = fps_cap u;
          current = (case ud_fps d of Some f \<Rightarrow> f | None \<Rightarrow> reference);
          fps = min (clamp_nat (reference div divisor) (min MIN_AUTO_FPS user_cap) user_cap) current
      in u\<lparr>us_delay := d\<lparr>ud_fps := Some fps\<rparr>\<rparr>)"

definition user_delay_response_elapsed :: "nat \<Rightarrow> int \<Rightarrow> nat \<Rightarrow> VideoQoS \<Rightarrow> VideoQoS" where
  "user_delay_response_elapsed now i elapsed q =
     (if map_of (vq_users q) i = None \<or> elapsed \<le> 2000 then q
      else adjust_fps now (update_user i (stall_user elapsed) q))"

definition update_display_data :: "(rat \<Rightarrow> rat) \<Rightarrow> nat \<Rightarrow> string \<Rightarrow> nat \<Rightarrow> VideoQoS \<Rightarrow> VideoQoS option" where
  "update_display_data F now name send_counter q =
     (let q = adjust_fps now (q\<lparr>vq_displays :=
                assoc_update name (\<lambda>d. d\<lparr>dd_send_counter := dd_send_counter d + send_counter\<rparr>) (vq_displays q)\<rparr>)
      in if in_vbr_state q then
           (if since_secs now (vq_adjust_ratio_instant q) \<ge> ADJUST_RATIO_INTERVAL then
              adjust_ratio F now
                (list_ex (\<lambda>(_, d). dd_send_counter d \<ge> ADJUST_RATIO_INTERVAL * DYNAMIC_SCREEN_THRESHOLD) (vq_displays q)) q
            else Some q)
         else Some (q\<lparr>vq_ratio := quality_ratio F (latest_quality q)\<rparr>))"

end
