(* ===== verification/Qos_Bounds.thy ===== *)
theory Qos_Bounds
  imports Video_Qos
begin

text \<open>
  Theorems about the controller of \<^verbatim>\<open>src/src/server/video_qos.rs\<close>: the baseline of the delay, the
  invariant of all operations with the absence of panics, the rate of the stream as the smallest rate of its
  viewers, and when a reply or a timeout may lower a viewer's target.
\<close>

section \<open>Baseline\<close>

interpretation rtt_window: bounded_window rtt_push WINDOW_SAMPLES
  by unfold_locales (auto simp: rtt_push_def WINDOW_SAMPLES_def drop_Suc)

lemma fold_min_le: "fold min r (x :: nat) \<le> x" "y \<in> set r \<Longrightarrow> fold min r x \<le> y" "fold min r x \<in> insert x (set r)"
proof -
  have a: "fold min r x \<le> x" for r and x :: nat
  proof (induction r arbitrary: x)
    case (Cons z r)
    from Cons [of "min z x"] show ?case by simp
  qed simp
  then show "fold min r x \<le> x" .
  show "y \<in> set r \<Longrightarrow> fold min r x \<le> y"
  proof (induction r arbitrary: x)
    case (Cons z r)
    then show ?case using order_trans [OF a [of r "min z x"], of y] by (auto simp: min.commute)
  qed simp
  show "fold min r x \<in> insert x (set r)" by (induction r arbitrary: x) (auto simp: min_def split: if_splits)
qed

lemma min_of_le: "min_of xs = Some m \<Longrightarrow> x \<in> set xs \<Longrightarrow> m \<le> x"
  by (auto simp: min_of_def fold_min_le split: list.splits)

lemma min_of_in: "min_of xs = Some m \<Longrightarrow> m \<in> set xs"
  using fold_min_le(3) by (auto simp: min_of_def split: list.splits)

lemma min_of_Some: "xs \<noteq> [] \<Longrightarrow> \<exists>m. min_of xs = Some m"
  by (cases xs) (auto simp: min_of_def)

text \<open>The baseline is at most every delay of the window.\<close>

definition rtt_ok :: "RttCalculator \<Rightarrow> bool" where
  "rtt_ok rc \<longleftrightarrow> length (rc_samples rc) \<le> WINDOW_SAMPLES
     \<and> (case rc_baseline rc of None \<Rightarrow> rc_samples rc = [] | Some b \<Rightarrow> \<forall>d\<in>set (rc_samples rc). b \<le> d)"

lemma rtt_update_cases:
  assumes "rtt_ok rc"
  obtains b where "rc_baseline (rtt_update delay rc) = Some b" "rc_samples (rtt_update delay rc) = rtt_push delay (rc_samples rc)"
    "min (case rc_baseline rc of Some b \<Rightarrow> b | None \<Rightarrow> delay) delay \<le> b" "\<forall>d\<in>set (rtt_push delay (rc_samples rc)). b \<le> d"
proof -
  let ?s = "rtt_push delay (rc_samples rc)"
  let ?b = "min (case rc_baseline rc of Some b \<Rightarrow> b | None \<Rightarrow> delay) delay"
  let ?rc = "rtt_update delay rc"
  have "set ?s \<subseteq> insert delay (set (rc_samples rc))"
    using set_drop_subset [of 1 "rc_samples rc"] by (auto simp: rtt_push_def drop_Suc)
  then have base: "\<forall>d\<in>set ?s. ?b \<le> d"
    using assms by (auto simp: rtt_ok_def min_le_iff_disj split: option.splits)
  have s: "rc_samples ?rc = ?s" by (simp add: rtt_update_def Let_def split: option.splits)
  have "rc_baseline ?rc = Some ?b \<or> (\<exists>o' r. min_of (take (WINDOW_SAMPLES div 2) ?s) = Some o' \<and> min_of (drop (WINDOW_SAMPLES div 2) ?s) = Some r
      \<and> min o' r - ?b > 0 \<and> rc_baseline ?rc = Some (?b + clamp_nat ((min o' r - ?b) div 2) 1 MAX_INCREASE_MS))"
    by (auto simp: rtt_update_def Let_def split: option.splits)
  then consider "rc_baseline ?rc = Some ?b"
    | o' r where "min_of (take (WINDOW_SAMPLES div 2) ?s) = Some o'" "min_of (drop (WINDOW_SAMPLES div 2) ?s) = Some r"
      "min o' r - ?b > 0" "rc_baseline ?rc = Some (?b + clamp_nat ((min o' r - ?b) div 2) 1 MAX_INCREASE_MS)" by blast
  then show ?thesis
  proof cases
    case 1
    from that [OF 1 s _ base] show ?thesis by simp
  next
    case 2
    let ?c = "clamp_nat ((min o' r - ?b) div 2) 1 MAX_INCREASE_MS"
    have "b + clamp_nat ((n - b) div 2) 1 MAX_INCREASE_MS \<le> n" if "n - b > 0" for n b
      using that by (auto simp: clamp_nat_def MAX_INCREASE_MS_def)
    from this [OF 2(3)] have le: "?b + ?c \<le> min o' r" .
    have "min o' r \<le> d" if "d \<in> set ?s" for d
    proof -
      from that have "d \<in> set (take (WINDOW_SAMPLES div 2) ?s) \<or> d \<in> set (drop (WINDOW_SAMPLES div 2) ?s)"
        by (metis Un_iff append_take_drop_id set_append)
      then show ?thesis using min_of_le [OF 2(1)] min_of_le [OF 2(2)] by (auto simp: min_le_iff_disj)
    qed
    then have "\<forall>d\<in>set ?s. ?b + ?c \<le> d" using order_trans [OF le] by blast
    from that [OF 2(4) s _ this] show ?thesis by simp
  qed
qed

lemma rtt_update_ok:
  assumes "rtt_ok rc"
  shows "rtt_ok (rtt_update delay rc)"
proof -
  from assms have l: "length (rc_samples rc) \<le> WINDOW_SAMPLES" by (simp add: rtt_ok_def)
  obtain b where "rc_baseline (rtt_update delay rc) = Some b"
    "rc_samples (rtt_update delay rc) = rtt_push delay (rc_samples rc)" "\<forall>d\<in>set (rtt_push delay (rc_samples rc)). b \<le> d"
    using rtt_update_cases [OF assms, of delay] by blast
  with rtt_window.push_length [OF l, of delay] show ?thesis by (simp add: rtt_ok_def)
qed

text \<open>The baseline of a connection. After any replies the calculator holds the last twenty delays; its
  baseline is at most each of these, so the delay in excess of it is never negative, and at least the smallest delay
  ever seen: only real delays raise it.\<close>

theorem rtt_baseline_bounds:
  assumes "delays \<noteq> []"
  shows "\<exists>b. rc_baseline (fold rtt_update delays rtt_default) = Some b
    \<and> rc_samples (fold rtt_update delays rtt_default) = drop (length delays - 20) delays
    \<and> (\<forall>d\<in>set (drop (length delays - 20) delays). b \<le> d) \<and> Min (set delays) \<le> b"
proof -
  have samples: "rc_samples (fold rtt_update ds rc) = fold rtt_push ds (rc_samples rc)" for ds rc
    by (induction ds arbitrary: rc) (simp_all add: rtt_update_def Let_def split: option.splits)
  have "rtt_ok (fold rtt_update ds rtt_default) \<and> (ds \<noteq> [] \<longrightarrow> (\<exists>b. rc_baseline (fold rtt_update ds rtt_default) = Some b \<and> Min (set ds) \<le> b))" for ds
  proof (induction ds rule: rev_induct)
    case Nil
    show ?case by (simp add: rtt_ok_def rtt_default_def)
  next
    case (snoc d ds)
    let ?rc = "fold rtt_update ds rtt_default"
    from snoc have ok: "rtt_ok ?rc" by blast
    from rtt_update_cases [OF ok, of d] obtain b where b: "rc_baseline (rtt_update d ?rc) = Some b"
      "min (case rc_baseline ?rc of Some b \<Rightarrow> b | None \<Rightarrow> d) d \<le> b" by blast
    have "Min (set (ds @ [d])) \<le> b"
    proof (cases "ds = []")
      case True
      then show ?thesis using b(2) by (simp add: rtt_default_def)
    next
      case False
      with snoc obtain b0 where "rc_baseline ?rc = Some b0" "Min (set ds) \<le> b0" by blast
      with False b(2) show ?thesis by (auto simp: min_le_iff_disj)
    qed
    with b(1) rtt_update_ok [OF ok, of d] show ?case by simp
  qed
  from this [of delays] assms samples [of delays rtt_default] rtt_window.run_eq [of "[]" delays] show ?thesis
    by (fastforce simp: rtt_ok_def rtt_default_def WINDOW_SAMPLES_def)
qed

theorem rtt_baseline_bounds_witness:
  "\<exists>b. rc_baseline (fold rtt_update [30, 10, 20] rtt_default) = Some b \<and> b \<le> 10 \<and> 10 \<le> b"
  using rtt_baseline_bounds [of "[30, 10, 20]"] by auto

section \<open>Bounds\<close>

definition f32_ok :: "(rat \<Rightarrow> rat) \<Rightarrow> bool" where
  "f32_ok F \<longleftrightarrow> mono F \<and> (\<forall>x. F (F x) = F x) \<and> F 0 = 0 \<and> F 1 = 1"

definition fps_in :: "nat \<Rightarrow> bool" where "fps_in f \<longleftrightarrow> MIN_FPS \<le> f \<and> f \<le> MAX_FPS"

text \<open>The counters of a viewer stay within their types, and its target within the allowed rates.\<close>

definition delay_ok :: "UserDelay \<Rightarrow> bool" where
  "delay_ok d \<longleftrightarrow> length (ud_delay_history d) \<le> HISTORY_DELAY_LEN \<and> pred_option fps_in (ud_fps d) \<and> rtt_ok (ud_rtt d)
     \<and> ud_quick_increase_fps_count d < 3 \<and> ud_increase_fps_count d < 3 \<and> ud_consecutive_bad_samples d \<le> 3
     \<and> ud_fps_bad_samples d \<le> 3 \<and> ud_good_samples d \<le> 3 \<and> ud_stall_ticks d \<le> u8_max
     \<and> pred_option (\<lambda>r. r \<le> 2) (ud_replies_after_bitrate_reduction d) \<and> pred_option (\<lambda>s. s \<le> u8_max) (ud_samples_since_restore d)
     \<and> pred_option (\<lambda>f. f \<le> MAX_FPS) (ud_fps_before_congestion d) \<and> pred_option fps_in (ud_stall_reference_fps d)
     \<and> (ud_startup_good_samples d < 2 \<or> ud_startup_good_samples d = u8_max)"

fun quality_ok :: "(rat \<Rightarrow> rat) \<Rightarrow> Quality \<Rightarrow> bool" where
  "quality_ok F (CustomQuality v) \<longleftrightarrow> BR_MIN F \<le> v \<and> v \<le> BR_MAX F"
| "quality_ok F _ \<longleftrightarrow> True"

definition user_ok :: "(rat \<Rightarrow> rat) \<Rightarrow> UserData \<Rightarrow> bool" where
  "user_ok F u \<longleftrightarrow> delay_ok (us_delay u) \<and> pred_option fps_in (us_custom_fps u) \<and> pred_option fps_in (us_auto_adjust_fps u)
     \<and> pred_option (\<lambda>p. quality_ok F (snd p)) (us_quality u)
     \<and> (ud_fps (us_delay u) = None \<longrightarrow> ud_stall_reference_fps (us_delay u) = None)"

definition qos_ok :: "(rat \<Rightarrow> rat) \<Rightarrow> VideoQoS \<Rightarrow> bool" where
  "qos_ok F q \<longleftrightarrow> fps_in (vq_fps q) \<and> BR_MIN_HIGH_RESOLUTION F \<le> vq_ratio q \<and> vq_ratio q \<le> BR_MAX F
     \<and> (\<forall>p\<in>set (vq_users q). user_ok F (snd p))"

lemmas fps_consts = MIN_FPS_def MAX_FPS_def INIT_FPS_def FPS_def MIN_AUTO_FPS_def
lemmas br_consts = BR_BEST_def BR_BALANCED_def BR_SPEED_def BR_MAX_def BR_MIN_def BR_MIN_HIGH_RESOLUTION_def MAX_BR_MULTIPLE_def

lemma f32D:
  assumes "f32_ok F"
  shows "x \<le> y \<Longrightarrow> F x \<le> F y" "F (F x) = F x" "F 0 = 0" "F 1 = 1"
  using assms by (auto simp: f32_ok_def mono_def)

lemma fps_cap_in: "1 \<le> fps_cap u" "fps_cap u \<le> 120"
  by (simp_all add: fps_cap_def Let_def clamp_nat_def fps_consts)

lemma clamp_fps_in: "h \<le> 120 \<Longrightarrow> 1 \<le> h \<Longrightarrow> fps_in (clamp_nat f MIN_FPS h)"
  by (simp add: fps_in_def clamp_nat_def fps_consts)

lemma highest_fps_in: "1 \<le> highest_fps q" "highest_fps q \<le> 120"
  by (simp_all add: highest_fps_def clamp_nat_def fps_consts)

lemma adjust_fps_ok: "qos_ok F q \<Longrightarrow> qos_ok F (adjust_fps now q)"
  by (simp add: qos_ok_def adjust_fps_def Let_def clamp_fps_in [OF highest_fps_in(2,1)])

lemma current_target_in: "user_ok F u \<Longrightarrow> 1 \<le> current_target u \<and> current_target u \<le> 120"
  using fps_cap_in [of u] by (auto simp: current_target_def user_ok_def delay_ok_def fps_in_def fps_consts split: option.splits)

lemma clamp_f32_bounds: "clamp_f32 v lo hi = Some r \<Longrightarrow> lo \<le> r \<and> r \<le> hi"
  by (auto simp: clamp_f32_def split: if_splits)

lemma clamp_f32_Some: "lo \<le> hi \<Longrightarrow> \<exists>r. clamp_f32 v lo hi = Some r"
  by (simp add: clamp_f32_def)

subsection \<open>Ratio\<close>

lemma f32_le: "f32_ok F \<Longrightarrow> x \<le> y \<Longrightarrow> F x \<le> F y" by (rule f32D)

lemma quality_ratio_in:
  assumes "f32_ok F" "quality_ok F x"
  shows "BR_MIN_HIGH_RESOLUTION F \<le> quality_ratio F x" "quality_ratio F x \<le> BR_MAX F"
proof -
  have "F (1 / 10) \<le> F (1 / 5)" by (rule f32_le [OF assms(1)]) simp
  with assms show "BR_MIN_HIGH_RESOLUTION F \<le> quality_ratio F x" "quality_ratio F x \<le> BR_MAX F"
    by (cases x; auto simp: br_consts intro: f32_le)+
qed

lemma latest_quality_ok:
  assumes "\<forall>p\<in>set (vq_users q). user_ok F (snd p)"
  shows "quality_ok F (latest_quality q)"
proof -
  let ?f = "\<lambda>tq best. case best of None \<Rightarrow> Some tq | Some b \<Rightarrow> if fst b \<le> fst tq then Some tq else Some b"
  have "fold ?f ts b = Some (t, y) \<Longrightarrow> (\<forall>p\<in>set ts. quality_ok F (snd p)) \<Longrightarrow> pred_option (\<lambda>p. quality_ok F (snd p)) b \<Longrightarrow> quality_ok F y"
    for ts :: "(int \<times> Quality) list" and b t y
  proof (induction ts arbitrary: b)
    case (Cons p ts)
    then show ?case by (auto split: option.splits if_splits)
  qed simp
  moreover have "\<forall>p\<in>set (List.map_filter (\<lambda>(_, u). us_quality u) (vq_users q)). quality_ok F (snd p)"
    using assms by (fastforce simp: map_filter_def user_ok_def)
  ultimately show ?thesis by (fastforce simp: latest_quality_def split: option.splits)
qed

lemma min_ratio_in:
  assumes F: "f32_ok F" and "quality_ok F (latest_quality q)"
  shows "BR_MIN_HIGH_RESOLUTION F \<le> min_ratio F q"
    "min_ratio F q \<le> F (quality_ratio F (latest_quality q) * MAX_BR_MULTIPLE F)"
proof -
  note le = f32_le [OF F]
  have div_le: "F (F x / F y) \<le> F x" if "0 \<le> x" "1 \<le> y" for x y
  proof -
    have "0 \<le> F x" "1 \<le> F y" using le [OF that(1)] le [OF that(2)] f32D(3,4) [OF F] by simp_all
    then have "F x / F y \<le> F x" by (simp add: divide_le_eq mult_left_mono [of 1 "F y" "F x", simplified])
    from le [OF this] show ?thesis by (simp add: f32D(2) [OF F])
  qed
  have a: "F (1 / 10) \<le> F (1 / 5)" "F (1 / 5) \<le> F (3 / 2)" "F (1 / 10) \<le> F (67 / 100)" "F (1 / 10) \<le> F (1 / 2)" by (rule le; simp)+
  have b: "F (F (3 / 2) / F (5 / 2)) \<le> F (3 / 2)" "F (F (67 / 100) / F 2) \<le> F (67 / 100)" by (rule div_le; simp)+
  have c: "F (1 / 5) \<le> v \<Longrightarrow> F (1 / 10) \<le> F v" for v
    using le [of "F (1 / 5)" v] a(1) f32D(2) [OF F, of "1 / 5"] by simp
  have m: "(if m > r then r else m) = min m r" for m r :: rat by (simp add: min_def)
  show "BR_MIN_HIGH_RESOLUTION F \<le> min_ratio F q"
    using a(1) by (cases "latest_quality q") (simp_all add: min_ratio_def Let_def br_consts le_max_iff_disj)
  show "min_ratio F q \<le> F (quality_ratio F (latest_quality q) * MAX_BR_MULTIPLE F)"
    using assms(2) a b c
    by (cases "latest_quality q") (auto simp: min_ratio_def Let_def br_consts f32D [OF F] m min_le_iff_disj split: if_splits)
qed

lemma user_ok_quality: "qos_ok F q \<Longrightarrow> quality_ok F (latest_quality q)"
  by (rule latest_quality_ok) (simp add: qos_ok_def)

lemma note_reduction_ok: "r \<le> 2 \<Longrightarrow> user_ok F u \<Longrightarrow> user_ok F (note_reduction r u)"
  by (simp add: note_reduction_def user_ok_def delay_ok_def)

lemma adjust_ratio_ok:
  assumes F: "f32_ok F" and q: "qos_ok F q"
  shows "\<exists>q'. adjust_ratio F now dyn q = Some q' \<and> qos_ok F q'"
proof -
  let ?mx = "F (quality_ratio F (latest_quality q) * MAX_BR_MULTIPLE F)"
  note y = user_ok_quality [OF q]
  obtain r where r: "clamp_f32 (wanted_ratio F dyn (reduction_of F q) (the (max_delay_of q)) q) (min_ratio F q) ?mx = Some r"
    using clamp_f32_Some [OF min_ratio_in(2) [OF F y]] by blast
  have "?mx \<le> BR_MAX F"
    using f32_le [OF F quality_ratio_in(2) [OF F y]] f32D [OF F] by (simp add: br_consts)
  with clamp_f32_bounds [OF r] min_ratio_in(1) [OF F y]
  have in_r: "BR_MIN_HIGH_RESOLUTION F \<le> r" "r \<le> BR_MAX F" by simp_all
  have users: "\<forall>p\<in>set (vq_users q). user_ok F (snd p)" and fps: "fps_in (vq_fps q)" using q by (simp_all add: qos_ok_def)
  then have users': "\<forall>p\<in>set (map (\<lambda>(i, u). (i, note_reduction (if r < vq_ratio q then 0 else 2) u)) (vq_users q)). user_ok F (snd p)"
    by (auto intro!: note_reduction_ok)
  let ?q = "if reduction_of F q \<noteq> None
      then q\<lparr>vq_users := map (\<lambda>(i, u). (i, note_reduction (if r < vq_ratio q then 0 else 2) u)) (vq_users q)\<rparr> else q"
  have ok: "qos_ok F ((reset_send_counters (?q\<lparr>vq_ratio := r\<rparr>))\<lparr>vq_adjust_ratio_instant := now\<rparr>)"
    using in_r users users' fps by (simp add: qos_ok_def reset_send_counters_def)
  show ?thesis
  proof (cases "in_vbr_state q \<and> max_delay_of q \<noteq> None \<and> \<not> (reduction_of F q = None \<and> the (max_delay_of q) \<ge> DELAY_THRESHOLD_150MS)")
    case True
    then obtain m where m: "max_delay_of q = Some m" by blast
    with True have n: "(reduction_of F q = None \<and> DELAY_THRESHOLD_150MS \<le> m) = False" "in_vbr_state q" by auto
    from m r have r': "clamp_f32 (wanted_ratio F dyn (reduction_of F q) m q) (min_ratio F q) ?mx = Some r" by simp
    have "adjust_ratio F now dyn q = Some ((reset_send_counters (?q\<lparr>vq_ratio := r\<rparr>))\<lparr>vq_adjust_ratio_instant := now\<rparr>)"
      unfolding adjust_ratio_def Let_def m option.case n r' option.map using n(2) by simp
    with ok show ?thesis by blast
  next
    case False
    then consider "\<not> in_vbr_state q" | "max_delay_of q = None"
      | m where "max_delay_of q = Some m" "reduction_of F q = None" "DELAY_THRESHOLD_150MS \<le> m" by fastforce
    then have "adjust_ratio F now dyn q \<in> {Some q, Some (reset_send_counters q)}"
      by cases (simp_all add: adjust_ratio_def Let_def)
    moreover have "qos_ok F (reset_send_counters q)" using q by (simp add: qos_ok_def reset_send_counters_def)
    ultimately show ?thesis using q by blast
  qed
qed

lemma adjust_when_due_ok: "f32_ok F \<Longrightarrow> qos_ok F q \<Longrightarrow> \<exists>q'. adjust_when_due F now w q = Some q' \<and> qos_ok F q'"
  using adjust_ratio_ok [of F q now False] by (auto simp: adjust_when_due_def)

subsection \<open>Replies\<close>

lemma add_delay_ok: "delay_ok d \<Longrightarrow> delay_ok (add_delay x d)"
  by (auto simp: delay_ok_def add_delay_def HISTORY_DELAY_LEN_def)

lemma on_reduction_ok: "delay_ok d \<Longrightarrow> f \<le> 120 \<Longrightarrow> delay_ok (on_reduction f d)"
  by (auto simp: delay_ok_def on_reduction_def fps_consts split: option.splits)

lemma suggest_fps_ok:
  assumes "delay_ok d"
  shows "\<exists>a < 3. \<exists>b < 3. snd (suggest_fps F mn c old avg d) = d\<lparr>ud_quick_increase_fps_count := a, ud_increase_fps_count := b\<rparr>"
proof -
  obtain m n where mn: "mn = (m, n)" by (cases mn)
  let ?b = "if (if avg < 150 then ud_increase_fps_count d + 1 else 0) \<ge> 3 then 0 else (if avg < 150 then ud_increase_fps_count d + 1 else 0)"
  let ?a = "if avg > 50 then 0 else if avg < 50 then (if ud_quick_increase_fps_count d + 1 \<ge> 3 then 0 else ud_quick_increase_fps_count d + 1) else ud_quick_increase_fps_count d"
  have "snd (suggest_fps F mn c old avg d) = d\<lparr>ud_quick_increase_fps_count := ?a, ud_increase_fps_count := ?b\<rparr>"
    by (simp add: suggest_fps_def mn Let_def DELAY_THRESHOLD_150MS_def)
  moreover have "?a < 3" "?b < 3" using assms by (auto simp: delay_ok_def)
  ultimately show ?thesis by blast
qed

lemma recover_ok: "delay_ok d \<Longrightarrow> delay_ok (snd (recover c f d))"
  by (auto simp: recover_def Let_def delay_ok_def split: option.splits)

lemma good_reply_ok: "delay_ok d \<Longrightarrow> delay_ok (good_reply d)"
  by (simp add: delay_ok_def good_reply_def)

lemma bad_reply_ok: "delay_ok d \<Longrightarrow> c \<le> 120 \<Longrightarrow> delay_ok (bad_reply c failed d)"
  by (cases "ud_replies_after_bitrate_reduction d") (auto simp: delay_ok_def bad_reply_def Let_def fps_consts)

lemma limit_fps_change_ok:
  assumes "delay_ok d" and c: "c \<le> 120"
  shows "delay_ok (snd (limit_fps_change c f x bf br d))"
proof -
  let ?d = "d\<lparr>ud_samples_since_restore := map_option (\<lambda>s. sat_add u8_max s 1) (ud_samples_since_restore d)\<rparr>"
  have d: "delay_ok ?d" using assms(1) by (cases "ud_samples_since_restore d") (auto simp: delay_ok_def sat_add_def)
  have b: "delay_ok (bad_reply c failed ?d)" for failed by (rule bad_reply_ok [OF d c])
  show ?thesis
    unfolding limit_fps_change_def Let_def using recover_ok [OF good_reply_ok [OF d]] b on_reduction_ok [OF b c] by simp
qed

lemma accelerate_startup_ok: "delay_ok d \<Longrightarrow> delay_ok (snd (accelerate_startup c f cap x br d))"
  by (auto simp: accelerate_startup_def Let_def delay_ok_def u8_max_def)

lemma delay_ok_upd:
  "delay_ok d \<Longrightarrow> delay_ok (d\<lparr>ud_stall_ticks := 0, ud_stall_reference_fps := None\<rparr>)"
  "delay_ok d \<Longrightarrow> delay_ok (d\<lparr>ud_rtt := rtt_update x (ud_rtt d)\<rparr>)"
  "delay_ok d \<Longrightarrow> fps_in f \<Longrightarrow> delay_ok (d\<lparr>ud_fps := Some f\<rparr>)"
  by (simp_all add: delay_ok_def rtt_update_ok)

lemma delay_ok_target: "delay_ok d \<Longrightarrow> fps_in r \<Longrightarrow> fps_in (case ud_fps d of Some f \<Rightarrow> f | None \<Rightarrow> r)"
  by (auto simp: delay_ok_def split: option.split)

lemma stall_target_in: "fps_in c \<Longrightarrow> fps_in (min (clamp_nat f (min MIN_AUTO_FPS (fps_cap u)) (fps_cap u)) c)"
  using fps_cap_in [of u] by (auto simp: fps_in_def fps_consts clamp_nat_def)

lemma suggest_ok: "delay_ok d \<Longrightarrow> delay_ok (snd (suggest_fps F mn c old avg d))"
  using suggest_fps_ok [of d F mn c old avg] by (auto simp: delay_ok_def)

definition measured :: "nat \<Rightarrow> UserData \<Rightarrow> UserDelay" where
  "measured x u = (let d = (us_delay u)\<lparr>ud_stall_ticks := 0, ud_stall_reference_fps := None\<rparr>
     in add_delay x (if ud_stall_reference_fps (us_delay u) \<noteq> None then d else d\<lparr>ud_rtt := rtt_update x (ud_rtt d)\<rparr>))"

lemma measured_ok: "delay_ok (us_delay u) \<Longrightarrow> delay_ok (measured x u)"
  using delay_ok_upd(1) [of "us_delay u"] delay_ok_upd(2) [OF delay_ok_upd(1), of "us_delay u" x]
  by (simp add: measured_def Let_def add_delay_ok)

text \<open>The stages of a reply.\<close>

lemma reply_user_stages:
  obtains old avg s ds l dl a da where
    "suggest_fps F (fps_range F t) (current_target u) old avg (measured (max x 10) u) = (s, ds)"
    "limit_fps_change (current_target u) (max (if bf then max s (fst (fps_range F t)) else s) (min MIN_AUTO_FPS (fps_cap u))) (max x 10) bf
       (ud_stall_reference_fps (us_delay u) \<noteq> None) ds = (l, dl)"
    "accelerate_startup (current_target u) l (fps_cap u) (max x 10) (ud_stall_reference_fps (us_delay u) \<noteq> None) dl = (a, da)"
    "fst (reply_user F t bf x u) = u\<lparr>us_delay := da\<lparr>ud_fps := Some (clamp_nat a MIN_FPS (fps_cap u))\<rparr>\<rparr>"
proof -
  let ?old = "avg_delay ((us_delay u)\<lparr>ud_stall_ticks := 0, ud_stall_reference_fps := None\<rparr>)"
  let ?avg = "max (avg_delay (measured (max x 10) u)) 10"
  obtain s ds where 1: "suggest_fps F (fps_range F t) (current_target u) ?old ?avg (measured (max x 10) u) = (s, ds)" by fastforce
  obtain l dl where 2: "limit_fps_change (current_target u) (max (if bf then max s (fst (fps_range F t)) else s) (min MIN_AUTO_FPS (fps_cap u))) (max x 10) bf
       (ud_stall_reference_fps (us_delay u) \<noteq> None) ds = (l, dl)" by fastforce
  obtain a da where 3: "accelerate_startup (current_target u) l (fps_cap u) (max x 10) (ud_stall_reference_fps (us_delay u) \<noteq> None) dl = (a, da)" by fastforce
  have "fst (reply_user F t bf x u) = u\<lparr>us_delay := da\<lparr>ud_fps := Some (clamp_nat a MIN_FPS (fps_cap u))\<rparr>\<rparr>"
    unfolding reply_user_def Let_def using 1 [unfolded measured_def Let_def] 2 3 by (simp del: not_None_eq)
  from that [OF 1 2 3 this] show ?thesis .
qed

lemma reply_user_ok:
  assumes u: "user_ok F u"
  shows "user_ok F (fst (reply_user F t bf x u))"
proof -
  note c = conjunct2 [OF current_target_in [OF u]]
  obtain old avg s ds l dl a da where 1: "suggest_fps F (fps_range F t) (current_target u) old avg (measured (max x 10) u) = (s, ds)"
    and 2: "limit_fps_change (current_target u) (max (if bf then max s (fst (fps_range F t)) else s) (min MIN_AUTO_FPS (fps_cap u))) (max x 10) bf
       (ud_stall_reference_fps (us_delay u) \<noteq> None) ds = (l, dl)"
    and 3: "accelerate_startup (current_target u) l (fps_cap u) (max x 10) (ud_stall_reference_fps (us_delay u) \<noteq> None) dl = (a, da)"
    and 4: "fst (reply_user F t bf x u) = u\<lparr>us_delay := da\<lparr>ud_fps := Some (clamp_nat a MIN_FPS (fps_cap u))\<rparr>\<rparr>"
    by (rule reply_user_stages)
  from u have "delay_ok (us_delay u)" by (simp add: user_ok_def)
  from suggest_ok [OF measured_ok [OF this], of F "fps_range F t" "current_target u" old avg "max x 10"] 1 have "delay_ok ds" by simp
  from limit_fps_change_ok [OF this c] 2 have "delay_ok dl" by (metis snd_conv)
  from accelerate_startup_ok [OF this] 3 have "delay_ok da" by (metis snd_conv)
  with u 4 clamp_fps_in [OF fps_cap_in(2,1)] show ?thesis by (simp add: user_ok_def delay_ok_upd)
qed

lemma us_delay_upd: "us_delay (u\<lparr>us_delay := d\<rparr>) = d" by simp

lemma stall_user_ok:
  assumes u: "user_ok F u"
  shows "user_ok F (stall_user elapsed u)"
proof -
  let ?d = "add_delay (elapsed mod (u32_max + 1)) ((us_delay u)\<lparr>ud_stall_ticks := sat_add u8_max (ud_stall_ticks (us_delay u)) 1\<rparr>)"
  let ?r = "case ud_stall_reference_fps ?d of Some r \<Rightarrow> r | None \<Rightarrow> current_target u"
  let ?e = "if ud_stall_reference_fps ?d = None then on_reduction ?r (?d\<lparr>ud_stall_reference_fps := Some ?r\<rparr>) else ?d"
  let ?f = "min (clamp_nat (?r div 2 ^ min ((elapsed div 1000) mod (u32_max + 1) - 1) 5) (min MIN_AUTO_FPS (fps_cap u)) (fps_cap u))
      (case ud_fps ?e of Some f \<Rightarrow> f | None \<Rightarrow> ?r)"
  from u have d0: "delay_ok (us_delay u)" by (simp add: user_ok_def)
  then have "delay_ok ((us_delay u)\<lparr>ud_stall_ticks := sat_add u8_max (ud_stall_ticks (us_delay u)) 1\<rparr>)"
    by (simp add: delay_ok_def sat_add_def)
  from add_delay_ok [OF this] have d: "delay_ok ?d" .
  have r: "fps_in ?r" using d current_target_in [OF u] by (auto simp: delay_ok_def fps_in_def fps_consts split: option.splits)
  then have "delay_ok (?d\<lparr>ud_stall_reference_fps := Some ?r\<rparr>)" using d by (simp add: delay_ok_def)
  from on_reduction_ok [OF this] r have "delay_ok (on_reduction ?r (?d\<lparr>ud_stall_reference_fps := Some ?r\<rparr>))"
    by (simp add: fps_in_def fps_consts)
  with d have e: "delay_ok ?e" by presburger
  from delay_ok_target [OF this r] have "fps_in (case ud_fps ?e of Some f \<Rightarrow> f | None \<Rightarrow> ?r)" .
  from stall_target_in [OF this] have "fps_in ?f" .
  with e have "delay_ok (?e\<lparr>ud_fps := Some ?f\<rparr>)" by (rule delay_ok_upd(3))
  moreover have "us_delay (stall_user elapsed u) = ?e\<lparr>ud_fps := Some ?f\<rparr>"
    unfolding stall_user_def Let_def by (rule us_delay_upd)
  moreover have "us_custom_fps (stall_user elapsed u) = us_custom_fps u" "us_auto_adjust_fps (stall_user elapsed u) = us_auto_adjust_fps u"
    "us_quality (stall_user elapsed u) = us_quality u" by (simp_all add: stall_user_def Let_def)
  moreover have "ud_fps (us_delay (stall_user elapsed u)) \<noteq> None" by (simp add: stall_user_def Let_def)
  ultimately show ?thesis using u unfolding user_ok_def by presburger
qed

subsection \<open>Every operation\<close>

text \<open>Every operation of the controller, with the clock, the setting and the protocol values it reads.\<close>

datatype QosOp = OpOpen nat bool int | OpClose nat int | OpCustomFps int nat | OpAutoFps int nat | OpQuality int int int
  | OpRecord int bool | OpReply nat int nat | OpElapsed nat int nat | OpNewDisplay string | OpRemoveDisplay string
  | OpDisplayData nat string nat | OpSupport string bool | OpStoreBitrate nat | OpReadRatio

fun qos_step :: "(rat \<Rightarrow> rat) \<Rightarrow> bool \<Rightarrow> int \<times> int \<times> int \<Rightarrow> QosOp \<Rightarrow> VideoQoS \<Rightarrow> VideoQoS option" where
  "qos_step F linux iq (OpOpen now abr i) q = Some (on_connection_open now abr i q)"
| "qos_step F linux iq (OpClose now i) q = Some (on_connection_close F linux now i q)"
| "qos_step F linux iq (OpCustomFps i f) q = Some (user_custom_fps i f q)"
| "qos_step F linux iq (OpAutoFps i f) q = Some (user_auto_adjust_fps i f q)"
| "qos_step F linux (b, l, h) (OpQuality t i y) q = user_image_quality F b l h t i y q"
| "qos_step F linux iq (OpRecord i v) q = Some (user_record i v q)"
| "qos_step F linux iq (OpReply now i x) q = user_network_delay F now i x q"
| "qos_step F linux iq (OpElapsed now i x) q = Some (user_delay_response_elapsed now i x q)"
| "qos_step F linux iq (OpNewDisplay n) q = Some (new_display n q)"
| "qos_step F linux iq (OpRemoveDisplay n) q = Some (remove_display n q)"
| "qos_step F linux iq (OpDisplayData now n c) q = update_display_data F now n c q"
| "qos_step F linux iq (OpSupport n b) q = Some (set_support_changing_quality n b q)"
| "qos_step F linux iq (OpStoreBitrate b) q = Some (store_bitrate b q)"
| "qos_step F linux iq OpReadRatio q = Some (snd (ratio_of F q))"

lemma update_user_ok:
  assumes "qos_ok F q" "\<And>u. (i, u) \<in> set (vq_users q) \<Longrightarrow> user_ok F u \<Longrightarrow> user_ok F (f u)"
  shows "qos_ok F (update_user i f q)"
  using assms by (fastforce simp: qos_ok_def update_user_def dest: set_assoc_update split: if_splits)

lemma map_of_user_ok: "qos_ok F q \<Longrightarrow> map_of (vq_users q) i = Some u \<Longrightarrow> user_ok F u"
  by (fastforce simp: qos_ok_def dest: map_of_SomeD)

lemma qos_default_ok:
  assumes "f32_ok F"
  shows "qos_ok F (qos_default F linux now)"
  using quality_ratio_in [OF assms, of Balanced] by (simp add: qos_ok_def qos_default_def fps_in_def fps_consts)

lemma user_default_ok: "user_ok F (user_default\<lparr>us_joined_at := j\<rparr>)"
  by (simp add: user_ok_def user_default_def delay_ok_def delay_default_def rtt_ok_def rtt_default_def)

lemma on_connection_close_ok:
  assumes "f32_ok F" "qos_ok F q"
  shows "qos_ok F (on_connection_close F linux now i q)"
proof -
  have "qos_ok F (q\<lparr>vq_users := assoc_remove i (vq_users q)\<rparr>)" using assms(2) by (simp add: qos_ok_def assoc_remove_def)
  from adjust_fps_ok [OF this] qos_default_ok [OF assms(1)] show ?thesis by (simp add: on_connection_close_def Let_def)
qed

lemma user_image_quality_ok:
  assumes F: "f32_ok F" and q: "qos_ok F q"
  shows "\<exists>q'. user_image_quality F b l h t i y q = Some q' \<and> qos_ok F q'"
proof -
  have "BR_MIN F \<le> BR_MAX F" using f32_le [OF F, of "1 / 5" 40] by (simp add: br_consts)
  from clamp_f32_Some [OF this] have "\<exists>x. convert_quality F b l h y = Some x" by (simp add: convert_quality_def Let_def)
  then obtain x where x: "convert_quality F b l h y = Some x" by blast
  then have x': "quality_ok F x"
    by (auto simp: convert_quality_def Let_def dest: clamp_f32_bounds split: if_splits)
  let ?q = "update_user i (\<lambda>u. u\<lparr>us_quality := Some (t, x)\<rparr>) q"
  have u: "qos_ok F ?q" by (rule update_user_ok [OF q]) (use x' in \<open>simp add: user_ok_def\<close>)
  from quality_ratio_in [OF F user_ok_quality [OF u]] u
  have "qos_ok F (?q\<lparr>vq_ratio := quality_ratio F (latest_quality ?q)\<rparr>)" by (simp add: qos_ok_def)
  with x q show ?thesis by (simp add: user_image_quality_def Let_def)
qed

lemma user_network_delay_ok:
  assumes F: "f32_ok F" and q: "qos_ok F q"
  shows "\<exists>q'. user_network_delay F now i x q = Some q' \<and> qos_ok F q'"
proof -
  have fin: "\<exists>q'. Option.bind (adjust_when_due F now w (adjust_fps now r)) (adjust_when_due F now v) = Some q' \<and> qos_ok F q'"
    if "qos_ok F r" for r w v
    using adjust_when_due_ok [OF F adjust_fps_ok [OF that], of now w now] adjust_when_due_ok [OF F] by fastforce
  have "qos_ok F (update_user i (\<lambda>_. u') q)" if "map_of (vq_users q) i = Some u" "reply_user F t bf x u = (u', r, f)" for u u' t bf r f
    using update_user_ok [OF q, of i "\<lambda>_. u'"] reply_user_ok [OF map_of_user_ok [OF q that(1)], of t bf x] that(2) by simp
  with fin q show ?thesis by (simp add: user_network_delay_def Let_def split: option.split prod.split)
qed

lemma update_display_data_ok:
  assumes F: "f32_ok F" and "qos_ok F q"
  shows "\<exists>q'. update_display_data F now n c q = Some q' \<and> qos_ok F q'"
proof -
  let ?q = "adjust_fps now (q\<lparr>vq_displays := assoc_update n (\<lambda>d. d\<lparr>dd_send_counter := dd_send_counter d + c\<rparr>) (vq_displays q)\<rparr>)"
  have q: "qos_ok F ?q" by (rule adjust_fps_ok) (use assms in \<open>simp add: qos_ok_def\<close>)
  moreover have "qos_ok F (?q\<lparr>vq_ratio := quality_ratio F (latest_quality ?q)\<rparr>)"
    using q quality_ratio_in [OF F user_ok_quality [OF q]] by (simp add: qos_ok_def)
  ultimately show ?thesis using adjust_ratio_ok [OF F q] by (simp add: update_display_data_def Let_def)
qed

lemma qos_step_ok:
  assumes F: "f32_ok F" and q: "qos_ok F q"
  shows "\<exists>q'. qos_step F linux iq op q = Some q' \<and> qos_ok F q'"
proof (cases op)
  case (OpElapsed now i x)
  have "qos_ok F (update_user i (stall_user x) q)" by (rule update_user_ok [OF q]) (rule stall_user_ok)
  with q OpElapsed show ?thesis by (simp add: user_delay_response_elapsed_def adjust_fps_ok)
next
  case (OpReply now i x)
  with user_network_delay_ok [OF F q] show ?thesis by simp
next
  case (OpQuality t i y)
  with user_image_quality_ok [OF F q] show ?thesis by (cases iq) simp
next
  case (OpDisplayData now n c)
  with update_display_data_ok [OF F q] show ?thesis by simp
next
  case (OpClose now i)
  with on_connection_close_ok [OF F q] show ?thesis by simp
next
  case (OpOpen now abr i)
  with q user_default_ok show ?thesis by (auto simp: qos_ok_def on_connection_open_def assoc_insert_def)
next
  case (OpCustomFps i f)
  with q update_user_ok [OF q, of i "\<lambda>u. u\<lparr>us_custom_fps := Some f\<rparr>"] show ?thesis
    by (simp add: user_custom_fps_def user_ok_def fps_in_def)
next
  case (OpAutoFps i f)
  with q update_user_ok [OF q, of i "\<lambda>u. u\<lparr>us_auto_adjust_fps := Some f\<rparr>"] show ?thesis
    by (simp add: user_auto_adjust_fps_def user_ok_def fps_in_def)
next
  case (OpRecord i v)
  with update_user_ok [OF q, of i "\<lambda>u. u\<lparr>us_record := v\<rparr>"] show ?thesis by (simp add: user_record_def user_ok_def)
next
  case OpReadRatio
  with q quality_ratio_in [OF F, of Balanced] show ?thesis by (simp add: qos_ok_def ratio_of_def Let_def)
qed (use q in \<open>simp_all add: qos_ok_def new_display_def remove_display_def set_support_changing_quality_def store_bitrate_def\<close>)

interpretation qos: guarded_machine "\<lambda>op s. Option.bind s (qos_step F linux iq op)"
    "\<lambda>s. f32_ok F \<and> (\<exists>q. s = Some q \<and> qos_ok F q)" "\<lambda>_. True"
  using qos_step_ok by unfold_locales fastforce

text \<open>C32: bounds of the stream and absence of panics. Whatever viewers, replies, timeouts, settings and displays
  do, in any order and at any times, no \<open>clamp\<close> of the controller panics, the frame rate of the stream and every
  viewer's target stay between 1 and 120, the bitrate ratio between the lowest and the highest allowed, and every
  counter within its type.\<close>

theorem qos_bounds:
  assumes "f32_ok F"
  shows "\<exists>q. fold (\<lambda>op s. Option.bind s (qos_step F linux iq op)) ops (Some (qos_default F linux now)) = Some q
    \<and> 1 \<le> vq_fps q \<and> vq_fps q \<le> 120 \<and> fps_of q = vq_fps q
    \<and> BR_MIN_HIGH_RESOLUTION F \<le> vq_ratio q \<and> vq_ratio q \<le> BR_MAX F \<and> snd (ratio_of F q) = q
    \<and> (\<forall>p\<in>set (vq_users q). delay_ok (us_delay (snd p)))"
proof -
  from qos.run_inv [of F "Some (qos_default F linux now)" ops linux iq] qos_default_ok [OF assms] assms
  obtain q where "fold (\<lambda>op s. Option.bind s (qos_step F linux iq op)) ops (Some (qos_default F linux now)) = Some q" "qos_ok F q"
    by auto
  then show ?thesis by (auto simp: qos_ok_def fps_in_def fps_consts fps_of_def ratio_of_def Let_def user_ok_def)
qed

theorem qos_bounds_witness:
  "\<exists>q. fold (\<lambda>op s. Option.bind s (qos_step id True (1, 2, 3) op))
      [OpOpen 0 True 1, OpNewDisplay ''monitor'', OpSupport ''monitor'' True, OpReply 900 1 30, OpQuality 5 1 0x400, OpElapsed 4000 1 3000]
      (Some (qos_default id True 0)) = Some q \<and> 1 \<le> vq_fps q \<and> vq_fps q \<le> 120"
proof -
  have "f32_ok id" by (simp add: f32_ok_def mono_def)
  from qos_bounds [OF this] show ?thesis by blast
qed

section \<open>The stream and its viewers\<close>

text \<open>What one viewer allows the stream to run at: its cap, its target, and the start-up rate in its first
  second.\<close>

definition viewer_rate :: "nat \<Rightarrow> UserData \<Rightarrow> nat" where
  "viewer_rate now u =
     max 1 (min (fps_cap u) (min (case ud_fps (us_delay u) of Some f \<Rightarrow> f | None \<Rightarrow> 15)
       (case us_joined_at u of Some j \<Rightarrow> if now - j < 1000 then 15 else fps_cap u | None \<Rightarrow> fps_cap u)))"

lemma min_of_Min: "xs \<noteq> [] \<Longrightarrow> min_of xs = Some (Min (set xs))"
  using min_of_Some [of xs] min_of_le [of xs] min_of_in [of xs] by (metis List.finite_set Min_eqI)

lemma Min_eq_rate:
  assumes "finite S" "S \<noteq> {}" "\<And>u. u \<in> S \<Longrightarrow> r \<le> f u" "\<exists>u\<in>S. f u \<le> r"
  shows "r = Min (f ` S)"
  using assms by (intro antisym) (auto simp: Min_le_iff)

lemma rate_cases:
  "min (if P then min T I else T) H = H \<or> min (if P then min T I else T) H = T \<or> P \<and> min (if P then min T I else T) H = (I :: nat)"
  by (simp add: min_def)

lemma rate_le:
  assumes "T \<le> (case ud_fps (us_delay u) of Some f \<Rightarrow> f | None \<Rightarrow> INIT_FPS)" "h \<le> fps_cap u"
    "(case us_joined_at u of Some j \<Rightarrow> since_secs now j < 1 | None \<Rightarrow> False) \<longrightarrow> g \<le> INIT_FPS" "g \<le> T"
  shows "max 1 (min g h) \<le> viewer_rate now u"
  using assms by (auto simp: viewer_rate_def since_secs_def div_eq_0_iff INIT_FPS_def split: option.splits)

text \<open>The stream follows its slowest viewer. With at least one viewer, the frame rate is exactly the smallest
  rate that any viewer allows; no viewer is sent more than its own limit, more than the target its own delays led
  to, or more than the start-up rate in its first second, and no other rule slows the stream.\<close>

theorem stream_follows_slowest:
  assumes "vq_users q \<noteq> []"
  shows "vq_fps (adjust_fps now q) = Min ((\<lambda>p. viewer_rate now (snd p)) ` set (vq_users q))"
proof (rule Min_eq_rate)
  let ?t = "\<lambda>u. case ud_fps (us_delay u) of Some f \<Rightarrow> f | None \<Rightarrow> INIT_FPS"
  let ?young = "\<lambda>u. case us_joined_at u of Some j \<Rightarrow> since_secs now j < 1 | None \<Rightarrow> False"
  let ?T = "Min (?t ` snd ` set (vq_users q))" and ?H = "Min (fps_cap ` snd ` set (vq_users q))"
  let ?g = "if \<exists>u\<in>snd ` set (vq_users q). ?young u then min ?T INIT_FPS else ?T"
  have img: "set (map (\<lambda>(_, u). f u) (vq_users q)) = f ` snd ` set (vq_users q)" for f :: "UserData \<Rightarrow> nat" by force
  have "min_of (map (\<lambda>(_, u). ?t u) (vq_users q)) = Some ?T" "min_of (map (\<lambda>(_, u). fps_cap u) (vq_users q)) = Some ?H"
    using assms min_of_Min [of "map (\<lambda>(_, u). ?t u) (vq_users q)"] min_of_Min [of "map (\<lambda>(_, u). fps_cap u) (vq_users q)"]
    by (simp_all only: img map_is_Nil_conv simp_thms)
  moreover have "list_ex (\<lambda>(_, u). ?young u) (vq_users q) \<longleftrightarrow> (\<exists>u\<in>snd ` set (vq_users q). ?young u)"
    by (force simp: list_ex_iff)
  moreover have H: "1 \<le> ?H" "?H \<le> 120" using assms fps_cap_in by (auto simp: Min_le_iff)
  ultimately have eq: "vq_fps (adjust_fps now q) = max 1 (min ?g ?H)"
    by (simp add: adjust_fps_def Let_def highest_fps_def clamp_nat_def fps_consts)
  have young: "?young u \<longleftrightarrow> (\<exists>j. us_joined_at u = Some j \<and> now - j < 1000)" for u
    by (simp add: since_secs_def div_eq_0_iff split: option.split)
  show "finite (set (vq_users q))" "set (vq_users q) \<noteq> {}" using assms by simp_all
  show "vq_fps (adjust_fps now q) \<le> viewer_rate now (snd p)" if "p \<in> set (vq_users q)" for p
  proof -
    from that have p: "snd p \<in> snd ` set (vq_users q)" by simp
    then have "?T \<le> ?t (snd p)" "?H \<le> fps_cap (snd p)" by simp_all
    moreover have "?young (snd p) \<longrightarrow> ?g \<le> INIT_FPS" 
    proof
      assume "?young (snd p)"
      with p have "\<exists>u\<in>snd ` set (vq_users q). ?young u" by blast
      then show "?g \<le> INIT_FPS" by (simp only: if_P min.cobounded2)
    qed
    moreover have "?g \<le> ?T" by simp
    ultimately show ?thesis unfolding eq by (rule rate_le)
  qed
  show "\<exists>p\<in>set (vq_users q). viewer_rate now (snd p) \<le> vq_fps (adjust_fps now q)"
  proof -
    have "?T \<in> ?t ` snd ` set (vq_users q)" "?H \<in> fps_cap ` snd ` set (vq_users q)" using assms by (auto intro!: Min_in)
    then obtain pt ph where pt: "pt \<in> set (vq_users q)" "?T = ?t (snd pt)" and ph: "ph \<in> set (vq_users q)" "?H = fps_cap (snd ph)" by auto
    have t: "viewer_rate now u \<le> max 1 (?t u)" "viewer_rate now u \<le> max 1 (fps_cap u)"
      "?young u \<Longrightarrow> viewer_rate now u \<le> max 1 INIT_FPS" for u
      unfolding viewer_rate_def young by (auto simp: INIT_FPS_def split: option.split)
    from rate_cases [of "\<exists>u\<in>snd ` set (vq_users q). ?young u" ?T INIT_FPS ?H]
    consider "min ?g ?H = ?H" | "min ?g ?H = ?T" | u where "u \<in> set (vq_users q)" "?young (snd u)" "min ?g ?H = INIT_FPS"
by blast
    then show ?thesis unfolding eq by cases (use t pt ph in \<open>metis+\<close>)
  qed
qed

theorem stream_follows_slowest_witness:
  "vq_fps (adjust_fps 5000 ((qos_default id False 0)\<lparr>vq_users :=
      [(1, user_default\<lparr>us_custom_fps := Some 60, us_delay := delay_default\<lparr>ud_fps := Some 40\<rparr>\<rparr>),
       (2, user_default\<lparr>us_custom_fps := Some 60, us_joined_at := Some 0, us_delay := delay_default\<lparr>ud_fps := Some 24\<rparr>\<rparr>)]\<rparr>)) = 24"
  by (subst stream_follows_slowest)
    (simp_all add: viewer_rate_def fps_cap_def user_default_def delay_default_def clamp_nat_def fps_consts)

lemma recover_ge: "c \<le> fst (recover c f d)"
  by (auto simp: recover_def Let_def split: option.splits)

text \<open>A target falls only on confirmed congestion, and then at most to its half.\<close>

definition fresh_excess :: "nat \<Rightarrow> UserData \<Rightarrow> nat" where
  "fresh_excess x u =
     max x 10 - get_rtt (if ud_stall_reference_fps (us_delay u) = None then rtt_update (max x 10) (ud_rtt (us_delay u))
       else ud_rtt (us_delay u))"

definition restored_within :: "nat \<Rightarrow> UserDelay \<Rightarrow> bool" where
  "restored_within n d = (case ud_samples_since_restore d of Some s \<Rightarrow> s < n | None \<Rightarrow> False)"

lemma limit_fps_change_lowers:
  assumes "fst (limit_fps_change c f x bf br d) < c"
  shows "\<not> br" "f < c" "fst (limit_fps_change c f x bf br d) \<ge> c - max (c div 2) 1" "150 \<le> x - get_rtt (ud_rtt d)"
    "1000 \<le> x - get_rtt (ud_rtt d) \<or> 600 \<le> x - get_rtt (ud_rtt d) \<and> restored_within 5 d \<or> 2 \<le> ud_fps_bad_samples d"
proof -
  let ?x = "x - get_rtt (ud_rtt d)"
  define e where "e = d\<lparr>ud_samples_since_restore := map_option (\<lambda>s. sat_add u8_max s 1) (ud_samples_since_restore d)\<rparr>"
  define fr where "fr \<longleftrightarrow> 600 \<le> ?x \<and> recently_restored e"
  define b where "b = bad_reply c fr e"
  have r: "fr \<Longrightarrow> 600 \<le> ?x \<and> restored_within 5 d"
    by (auto simp: fr_def e_def recently_restored_def restored_within_def RESTORE_GUARD_SAMPLES_def sat_add_def u8_max_def
      split: option.splits if_splits)
  have bad: "ud_fps_bad_samples b = min (ud_fps_bad_samples d + 1) 3" by (simp add: b_def e_def bad_reply_def Let_def)
  have ge: "150 \<le> ?x"
  proof (rule ccontr)
    assume "\<not> 150 \<le> ?x"
    then have "limit_fps_change c f x bf br d = recover c f (good_reply e)"
      by (simp add: limit_fps_change_def Let_def DELAY_THRESHOLD_150MS_def e_def)
    with recover_ge assms show False by (metis not_less)
  qed
  then have n: "(?x < DELAY_THRESHOLD_150MS) = False" by (simp add: DELAY_THRESHOLD_150MS_def)
  have eq: "fst (limit_fps_change c f x bf br d) =
      (if f \<ge> c \<or> br then c
       else if \<not> fr \<and> ?x < 1000 \<and> (ud_fps_bad_samples b < 3 \<or> bf \<and> (case ud_replies_after_bitrate_reduction b of Some r \<Rightarrow> r | None \<Rightarrow> 0) < 2)
       then c else max f (c - max (c div (if ?x \<ge> 1000 \<or> fr then 2 else 5)) 1))"
    unfolding limit_fps_change_def Let_def e_def [symmetric] n if_False fr_def [symmetric] b_def [symmetric] by auto
  show "150 \<le> ?x" by (rule ge)
  show "\<not> br" "f < c" using assms unfolding eq by (auto split: if_splits)
  show "1000 \<le> ?x \<or> 600 \<le> ?x \<and> restored_within 5 d \<or> 2 \<le> ud_fps_bad_samples d"
    using assms r unfolding eq bad by (auto split: if_splits)
  have "c - max (c div 2) 1 \<le> c - max (c div 5) 1" by (intro diff_le_mono2 max.mono div_le_mono2) simp_all
  then show "fst (limit_fps_change c f x bf br d) \<ge> c - max (c div 2) 1" unfolding eq by (auto intro: max.coboundedI2)
qed

lemma accelerate_startup_ge: "min f cap \<le> fst (accelerate_startup c f cap x br d)"
  by (auto simp: accelerate_startup_def Let_def)

text \<open>Reductions need evidence. A reply lowers its viewer's target (below the viewer's own limit) only if no
  timeout has braked for the same probe already, and the reply itself is late by 150 ms more than the baseline and
  either this is the third such reply since the last reduction, or it is late by a second, or by 600 ms within five
  replies of a restored rate; and then the new target is at least half the old.\<close>

theorem reply_reduction_confirmed:
  assumes "user_ok F u" and "current_target (fst (reply_user F t bf x u)) < min (current_target u) (fps_cap u)"
  shows "ud_stall_reference_fps (us_delay u) = None \<and> 150 \<le> fresh_excess x u
    \<and> (1000 \<le> fresh_excess x u \<or> 600 \<le> fresh_excess x u \<and> restored_within 5 (us_delay u) \<or> 2 \<le> ud_fps_bad_samples (us_delay u))
    \<and> min (current_target u div 2) (fps_cap u) \<le> current_target (fst (reply_user F t bf x u))"
proof -
  let ?c = "current_target u" and ?br = "ud_stall_reference_fps (us_delay u) \<noteq> None"
  obtain old avg s ds l dl a da where 1: "suggest_fps F (fps_range F t) ?c old avg (measured (max x 10) u) = (s, ds)"
    and 2: "limit_fps_change ?c (max (if bf then max s (fst (fps_range F t)) else s) (min MIN_AUTO_FPS (fps_cap u))) (max x 10) bf ?br ds = (l, dl)"
    and 3: "accelerate_startup ?c l (fps_cap u) (max x 10) ?br dl = (a, da)"
    and 4: "fst (reply_user F t bf x u) = u\<lparr>us_delay := da\<lparr>ud_fps := Some (clamp_nat a MIN_FPS (fps_cap u))\<rparr>\<rparr>"
    by (rule reply_user_stages)
  have target: "current_target (fst (reply_user F t bf x u)) = max 1 (min a (fps_cap u))"
    using 4 fps_cap_in [of u] by (simp add: current_target_def clamp_nat_def fps_consts)
  from accelerate_startup_ge [of l "fps_cap u" ?c "max x 10" ?br dl] 3 have "min l (fps_cap u) \<le> a" by simp
  with target assms(2) current_target_in [OF assms(1)] have "l < ?c" and l: "min l (fps_cap u) \<le> current_target (fst (reply_user F t bf x u))"
    by auto
  then have lower: "fst (limit_fps_change ?c (max (if bf then max s (fst (fps_range F t)) else s) (min MIN_AUTO_FPS (fps_cap u))) (max x 10) bf ?br ds) < ?c"
    using 2 by simp
  note lw = limit_fps_change_lowers [OF lower]
  have "delay_ok (us_delay u)" using assms(1) by (simp add: user_ok_def)
  from suggest_fps_ok [OF measured_ok [OF this], of F "fps_range F t" ?c old avg "max x 10"] 1
  have ds: "ud_rtt ds = ud_rtt (measured (max x 10) u)" "ud_samples_since_restore ds = ud_samples_since_restore (us_delay u)"
    "ud_fps_bad_samples ds = ud_fps_bad_samples (us_delay u)" by (auto simp: measured_def Let_def add_delay_def)
  have excess: "max x 10 - get_rtt (ud_rtt ds) = fresh_excess x u" unfolding ds(1) by (simp add: fresh_excess_def measured_def Let_def add_delay_def)
  have restored: "restored_within 5 ds = restored_within 5 (us_delay u)" using ds(2) by (simp add: restored_within_def)
  have "?c div 2 \<le> max 1 l" using lw(3) 2 by simp
  moreover have "1 \<le> current_target (fst (reply_user F t bf x u))" using target by simp
  ultimately have "min (?c div 2) (fps_cap u) \<le> current_target (fst (reply_user F t bf x u))" using l by linarith
  moreover have "ud_stall_reference_fps (us_delay u) = None" using lw(1) by blast
  moreover note lw(4,5)
  ultimately show ?thesis unfolding excess restored ds(3) by blast
qed

lemmas qos_eval = user_default_def delay_default_def rtt_default_def fps_cap_def current_target_def fps_range_def
  limit_fps_change_def bad_reply_def on_reduction_def recently_restored_def accelerate_startup_def suggest_fps_def divide_fps_def
  rtt_update_def rtt_push_def get_rtt_def add_delay_def avg_delay_def clamp_nat_def  MIN_FPS_def MAX_FPS_def INIT_FPS_def FPS_def MIN_AUTO_FPS_def 
  HISTORY_DELAY_LEN_def WINDOW_SAMPLES_def DELAY_THRESHOLD_150MS_def u8_max_def u32_max_def BR_BEST_def numeral_2_eq_2 [symmetric]

lemma reply_example:
  defines "u \<equiv> user_default\<lparr>us_delay := delay_default\<lparr>ud_fps := Some 30, ud_delay_history := [1500, 1400],
    ud_rtt := \<lparr>rc_baseline = Some 20, rc_samples = [20]\<rparr>\<rparr>\<rparr>"
  shows "current_target (fst (reply_user id (3 / 2) False 1500 u)) = 15"
proof -
  define m where "m = delay_default\<lparr>ud_fps := Some 30, ud_delay_history := [1400, 1500],
    ud_rtt := \<lparr>rc_baseline = Some 20, rc_samples = [20, 1500]\<rparr>\<rparr>"
  define l where "l = on_reduction 30 (m\<lparr>ud_consecutive_bad_samples := 1, ud_fps_bad_samples := 1\<rparr>)"
  have u: "fps_cap u = 30" "current_target u = 30" "ud_stall_reference_fps (us_delay u) = None"
    "(us_delay u)\<lparr>ud_stall_ticks := 0, ud_stall_reference_fps := None\<rparr> = us_delay u" "avg_delay (us_delay u) = 1430"
    by (simp_all add: u_def qos_eval)
  have m: "add_delay 1500 ((us_delay u)\<lparr>ud_rtt := rtt_update 1500 (ud_rtt (us_delay u))\<rparr>) = m" "avg_delay m = 1430"
    by (simp_all add: m_def u_def qos_eval)
  have s: "suggest_fps id (8, 16) 30 1430 1430 m = (0, m)" by (simp add: m_def qos_eval)
  have l: "limit_fps_change 30 5 1500 False False m = (15, l)" by (simp add: l_def m_def qos_eval)
  have a: "accelerate_startup 30 15 30 1500 False l = (15, l)" by (simp add: l_def m_def qos_eval)
  have "fst (reply_user id (3 / 2) False 1500 u) = u\<lparr>us_delay := l\<lparr>ud_fps := Some 15\<rparr>\<rparr>"
    unfolding reply_user_def Let_def u by (simp add: u m s l a fps_range_def BR_BEST_def MIN_AUTO_FPS_def MIN_FPS_def clamp_nat_def)
  then show ?thesis by (simp add: current_target_def)
qed
theorem reply_reduction_confirmed_witness:
  "let u = user_default\<lparr>us_delay := delay_default\<lparr>ud_fps := Some 30, ud_delay_history := [1500, 1400],
       ud_rtt := \<lparr>rc_baseline = Some 20, rc_samples = [20]\<rparr>\<rparr>\<rparr>
   in current_target (fst (reply_user id (3 / 2) False 1500 u)) = 15 \<and> 1000 \<le> fresh_excess 1500 u"
proof -
  let ?u = "user_default\<lparr>us_delay := delay_default\<lparr>ud_fps := Some 30, ud_delay_history := [1500, 1400],
       ud_rtt := \<lparr>rc_baseline = Some 20, rc_samples = [20]\<rparr>\<rparr>\<rparr>"
  have b: "user_ok id ?u" by (simp add: user_ok_def delay_ok_def rtt_ok_def fps_in_def qos_eval)
  have c: "current_target ?u = 30" "fps_cap ?u = 30" by (simp_all add: qos_eval)
  have d: "\<not> restored_within 5 (us_delay ?u)" "\<not> 2 \<le> ud_fps_bad_samples (us_delay ?u)"
    by (simp_all add: restored_within_def user_default_def delay_default_def)
  from reply_reduction_confirmed [OF b, of "3 / 2" False 1500] reply_example c d show ?thesis unfolding Let_def by simp
qed

lemma clamp_below: "n < 5 \<Longrightarrow> clamp_nat n (min 5 c) c \<le> min 5 c"
  by (auto simp: clamp_nat_def)

lemma add_delay_keeps [simp]:
  "ud_stall_reference_fps (add_delay x d) = ud_stall_reference_fps d" "ud_fps (add_delay x d) = ud_fps d"
  by (simp_all add: add_delay_def)

text \<open>A timeout brakes and never accelerates. An outstanding probe never raises the target of its viewer, and after
  six seconds without a reply the viewer is at the floor of five frames, or its own limit.\<close>

theorem stall_only_lowers:
  assumes "user_ok F u"
  shows "current_target (stall_user elapsed u) \<le> current_target u
   \<and> (6000 \<le> elapsed \<and> elapsed div 1000 \<le> u32_max \<longrightarrow> current_target (stall_user elapsed u) \<le> min 5 (fps_cap u))"
proof -
  let ?d = "us_delay u"
  let ?r = "case ud_stall_reference_fps ?d of Some r \<Rightarrow> r | None \<Rightarrow> current_target u"
  let ?k = "min ((elapsed div 1000) mod (u32_max + 1) - 1) 5"
  have target: "current_target (stall_user elapsed u) = min (clamp_nat (?r div 2 ^ ?k) (min MIN_AUTO_FPS (fps_cap u)) (fps_cap u))
      (case ud_fps ?d of Some f \<Rightarrow> f | None \<Rightarrow> ?r)"
    by (cases "ud_stall_reference_fps ?d"; cases "ud_fps ?d") (simp_all add: stall_user_def Let_def current_target_def on_reduction_def)
  have r: "?r \<le> 120" using assms current_target_in [OF assms] by (auto simp: user_ok_def delay_ok_def fps_in_def fps_consts split: option.split)
  show ?thesis
  proof (intro conjI impI)
    show "current_target (stall_user elapsed u) \<le> current_target u"
      unfolding target using assms by (auto simp: user_ok_def current_target_def min_le_iff_disj split: option.split)
    assume "6000 \<le> elapsed \<and> elapsed div 1000 \<le> u32_max"
    moreover from this have "6 \<le> elapsed div 1000" using div_le_mono [of 6000 elapsed 1000] by simp
    ultimately have "?k = 5" by (simp add: u32_max_def)
    with r have "?r div 2 ^ ?k < 5" by simp
    then have "clamp_nat (?r div 2 ^ ?k) (min 5 (fps_cap u)) (fps_cap u) \<le> min 5 (fps_cap u)"
      by (rule clamp_below)
    then show "current_target (stall_user elapsed u) \<le> min 5 (fps_cap u)"
      unfolding target MIN_AUTO_FPS_def by (rule order_trans [OF min.cobounded1])
  qed
qed

theorem stall_only_lowers_witness:
  "let u = user_default\<lparr>us_delay := delay_default\<lparr>ud_fps := Some 30\<rparr>\<rparr> in current_target u = 30 \<and> current_target (stall_user 7000 u) \<le> 5"
proof -
  let ?u = "user_default\<lparr>us_delay := delay_default\<lparr>ud_fps := Some 30\<rparr>\<rparr>"
  have "user_ok id ?u" by (simp add: user_ok_def delay_ok_def rtt_ok_def fps_in_def qos_eval)
  from stall_only_lowers [OF this, of 7000] show ?thesis unfolding Let_def by (simp add: qos_eval)
qed

end
