(* ===== verification/Trusted_Controllers.thy ===== *)
theory Trusted_Controllers
  imports Tenant_Policy
begin

text \<open>
  Trusted controllers, \<^verbatim>\<open>src/src/clanto/trusted_controllers.rs\<close>: the list of controller IDs with the device keys
  that are exempt from the second factor, its parser and printer, the commands that change it, the controller's own key,
  and the signature that a controller puts on a login. URL-safe Base64, Ed25519 and the encryption with the
  user's key (\<open>sodiumoxide\<close>, \<open>hbb_common\<close>) are the fields of \<open>KeyLib\<close>.
\<close>

section \<open>Model: the list\<close>

definition OPT_TRUSTED_CONTROLLERS :: string where "OPT_TRUSTED_CONTROLLERS = ''clanto-trusted-controllers''"
definition SIGNATURE_DOMAIN :: string where "SIGNATURE_DOMAIN = ''clanto-controller-v1''"
definition MAX_ENTRIES :: nat where "MAX_ENTRIES = 500"
definition PUBLICKEYBYTES :: nat where "PUBLICKEYBYTES = 32"

record Entry =
  te_id :: string
  te_key :: bytes

record KeyLib =
  kl_encode :: "bytes \<Rightarrow> string"
  kl_decode :: "string \<Rightarrow> bytes option"
  kl_signature :: "bytes \<Rightarrow> bool"
  kl_verify :: "bytes \<Rightarrow> bytes \<Rightarrow> bytes \<Rightarrow> bool"
  kl_sign :: "bytes \<Rightarrow> bytes \<Rightarrow> bytes"
  kl_keypair :: "bytes \<Rightarrow> bytes \<times> bytes"
  kl_seal :: "bytes \<Rightarrow> string option"
  kl_open :: "string \<Rightarrow> bytes option"

definition decode_key :: "KeyLib \<Rightarrow> string \<Rightarrow> bytes option" where
  "decode_key K s =
     (case kl_decode K (trim s) of
        None \<Rightarrow> None
      | Some key \<Rightarrow> if length key = PUBLICKEYBYTES then Some key else None)"

definition valid_id :: "string \<Rightarrow> bool" where
  "valid_id i =
     (i \<noteq> [] \<and> byte_len i \<le> 64
      \<and> list_all (\<lambda>c. is_ascii_alphanumeric c \<or> c = CHR ''-'' \<or> c = CHR ''_'') i)"

definition to_option :: "KeyLib \<Rightarrow> Entry \<Rightarrow> string" where
  "to_option K e = te_id e @ ''='' @ kl_encode K (te_key e)"

definition is_separator :: "char \<Rightarrow> bool" where
  "is_separator c = (c = CHR '','' \<or> c = CHR '';'' \<or> is_whitespace c)"

definition parse_entry :: "KeyLib \<Rightarrow> string \<Rightarrow> Entry option" where
  "parse_entry K item =
     (case split_once (\<lambda>c. c = CHR ''='') item of
        None \<Rightarrow> None
      | Some (i, key) \<Rightarrow>
          let i = trim i in
          if valid_id i then map_option (\<lambda>key. \<lparr>te_id = i, te_key = key\<rparr>) (decode_key K key) else None)"

definition parse_item :: "KeyLib \<Rightarrow> string \<Rightarrow> Entry list \<times> string list \<Rightarrow> Entry list \<times> string list" where
  "parse_item K item acc =
     (case (parse_entry K item, acc) of
        (Some entry, (entries, invalid)) \<Rightarrow>
          if length entries < MAX_ENTRIES then (if entry \<in> set entries then (entries, invalid) else (entries @ [entry], invalid))
          else (entries, invalid @ [item])
      | (None, (entries, invalid)) \<Rightarrow> (entries, invalid @ [item]))"

definition parse_list :: "KeyLib \<Rightarrow> string \<Rightarrow> Entry list \<times> string list" where
  "parse_list K lst = fold (parse_item K) (filter (\<lambda>s. s \<noteq> []) (split_on is_separator lst)) ([], [])"

definition format_list :: "KeyLib \<Rightarrow> Entry list \<Rightarrow> string" where
  "format_list K entries = join '','' (map (to_option K) entries)"

datatype ListError = InvalidControllerId string | InvalidDeviceKey | TooMany

definition add_entry :: "KeyLib \<Rightarrow> string \<Rightarrow> string \<Rightarrow> string \<Rightarrow> (string, ListError) result" where
  "add_entry K lst i key =
     (let i = trim i in
      if \<not> valid_id i then Err (InvalidControllerId i)
      else
        (case decode_key K key of
           None \<Rightarrow> Err InvalidDeviceKey
         | Some key \<Rightarrow>
             let entries = fst (parse_list K lst); entry = \<lparr>te_id = i, te_key = key\<rparr> in
             if entry \<in> set entries then Ok (format_list K entries)
             else if length entries \<ge> MAX_ENTRIES then Err TooMany
             else Ok (format_list K (entries @ [entry]))))"

definition remove_entry :: "KeyLib \<Rightarrow> string \<Rightarrow> string \<Rightarrow> string option \<Rightarrow> string" where
  "remove_entry K lst i key =
     (let key = Option.bind key (decode_key K)
      in format_list K (filter (\<lambda>e. te_id e \<noteq> trim i \<or> (case key of Some k \<Rightarrow> te_key e \<noteq> k | None \<Rightarrow> False)) (fst (parse_list K lst))))"

section \<open>Model: signatures\<close>

definition canonical_text :: "KeyLib \<Rightarrow> string \<Rightarrow> string \<Rightarrow> string \<Rightarrow> bytes \<Rightarrow> string" where
  "canonical_text K host_id challenge controller_id key =
     SIGNATURE_DOMAIN @ [CHR 0x0A] @ host_id @ [CHR 0x0A] @ challenge @ [CHR 0x0A] @ controller_id @ [CHR 0x0A] @ kl_encode K key @ [CHR 0x0A]"

definition canonical_message :: "KeyLib \<Rightarrow> string \<Rightarrow> string \<Rightarrow> string \<Rightarrow> bytes \<Rightarrow> bytes" where
  "canonical_message K host_id challenge controller_id key = as_bytes (canonical_text K host_id challenge controller_id key)"

text \<open>The controller's key: the stored option, the seal with the user's key (\<open>None\<close> when it is
  unavailable), and the random seed of the first use are arguments.\<close>

definition store_seed :: "KeyLib \<Rightarrow> bytes \<Rightarrow> string \<Rightarrow> bool \<times> string" where
  "store_seed K seed stored = (case kl_seal K seed of None \<Rightarrow> (False, stored) | Some s \<Rightarrow> (True, s))"

definition load_keypair :: "KeyLib \<Rightarrow> string \<Rightarrow> (bytes \<times> bytes) option" where
  "load_keypair K stored =
     (if stored = [] then None
      else
        (case kl_open K stored of
           None \<Rightarrow> None
         | Some seed \<Rightarrow> if length seed = 32 then Some (kl_keypair K seed) else None))"

definition device_keypair :: "KeyLib \<Rightarrow> bytes \<Rightarrow> string \<Rightarrow> (bytes \<times> bytes) option \<times> string" where
  "device_keypair K random stored =
     (case load_keypair K stored of
        Some pair \<Rightarrow> (Some pair, stored)
      | None \<Rightarrow>
          if stored \<noteq> [] then (None, stored)
          else
            (case store_seed K random stored of (ok, stored) \<Rightarrow>
               if ok then (load_keypair K stored, stored) else (None, stored)))"

definition device_public_key :: "KeyLib \<Rightarrow> bytes \<Rightarrow> string \<Rightarrow> string option \<times> string" where
  "device_public_key K random stored =
     (case device_keypair K random stored of (pair, stored) \<Rightarrow> (map_option (\<lambda>(pk, _). kl_encode K pk) pair, stored))"

definition sign_login ::
    "KeyLib \<Rightarrow> bytes \<Rightarrow> string \<Rightarrow> string \<Rightarrow> string \<Rightarrow> string \<Rightarrow> (bytes \<times> bytes) option \<times> string" where
  "sign_login K random host_id challenge controller_id stored =
     (if host_id = [] \<or> challenge = [] \<or> controller_id = [] then (None, stored)
      else
        (case device_keypair K random stored of
           (None, stored) \<Rightarrow> (None, stored)
         | (Some (pk, sk), stored) \<Rightarrow>
             (Some (pk, kl_sign K sk (canonical_message K host_id challenge controller_id pk)), stored)))"

definition verify_with_list :: "KeyLib \<Rightarrow> string \<Rightarrow> string \<Rightarrow> string \<Rightarrow> string \<Rightarrow> bytes \<Rightarrow> bytes \<Rightarrow> bool" where
  "verify_with_list K lst host_id challenge controller_id key signature =
     (if host_id = [] \<or> challenge = [] \<or> controller_id = [] then False
      else
        let entries = fst (parse_list K lst) in
        if \<not> list_ex (\<lambda>e. te_id e = controller_id \<and> te_key e = key) entries then False
        else if length key \<noteq> PUBLICKEYBYTES \<or> \<not> kl_signature K signature then False
        else kl_verify K signature (canonical_message K host_id challenge controller_id key) key)"

definition verify_login :: "KeyLib \<Rightarrow> string \<Rightarrow> string \<Rightarrow> string \<Rightarrow> string \<Rightarrow> bytes \<Rightarrow> bytes \<Rightarrow> bool" where
  "verify_login K lst host_id challenge controller_id key signature =
     (if trim lst = [] \<or> key = [] \<or> signature = [] then False
      else verify_with_list K lst host_id challenge controller_id key signature)"

section \<open>Model: command line\<close>

definition CLI_COMMANDS :: "string list" where
  "CLI_COMMANDS = [''--device-key'', ''--trust-controller'', ''--untrust-controller'']"

definition is_cli_command :: "string \<Rightarrow> bool" where
  "is_cli_command arg = (arg \<in> set CLI_COMMANDS)"

datatype CliOutput = DeviceKey string | KeyUnavailable | Usage string | Managed | SettingsDisabled | NotAdmin
  | ListRefused ListError | CliDone | UpdateFailed

record CliEnv =
  ce_settings_disabled :: bool
  ce_admin :: bool
  ce_random :: bytes
  ce_ipc_writes :: bool

record CliState =
  cs_overwrite :: Options
  cs_options :: Options
  cs_device_key :: string

definition opt_value :: "Options \<Rightarrow> string \<Rightarrow> string" where
  "opt_value m k = (case map_of m k of Some v \<Rightarrow> v | None \<Rightarrow> [])"

text \<open>\<open>set_option\<close> over IPC may be ignored by the service (\<open>ce_ipc_writes\<close>). The first
  argument is the command; a call without one does not happen.\<close>

definition run_cli :: "KeyLib \<Rightarrow> CliEnv \<Rightarrow> string list \<Rightarrow> CliState \<Rightarrow> CliOutput \<times> CliState" where
  "run_cli K E args st =
     (let command = hd args in
      if command = ''--device-key'' then
        (case device_public_key K (ce_random E) (cs_device_key st) of (key, stored) \<Rightarrow>
           ((case key of Some k \<Rightarrow> DeviceKey k | None \<Rightarrow> KeyUnavailable), st\<lparr>cs_device_key := stored\<rparr>))
      else
        let trust = (command = ''--trust-controller'');
            arity_ok = (if trust then length args = 3 else length args = 2 \<or> length args = 3)
        in if \<not> arity_ok then (Usage command, st)
           else if \<not> user_option_write_allowed OPT_TRUSTED_CONTROLLERS (cs_overwrite st)
             \<or> map_of (cs_overwrite st) OPT_TRUSTED_CONTROLLERS \<noteq> None then (Managed, st)
           else if ce_settings_disabled E then (SettingsDisabled, st)
           else if \<not> ce_admin E then (NotAdmin, st)
           else
             let current = opt_value (cs_options st) OPT_TRUSTED_CONTROLLERS in
             (case (if trust then add_entry K current (args ! 1) (args ! 2)
                    else Ok (remove_entry K current (args ! 1) (if length args = 3 then Some (args ! 2) else None))) of
                Err e \<Rightarrow> (ListRefused e, st)
              | Ok updated \<Rightarrow>
                  let st' = (if ce_ipc_writes E
                        then st\<lparr>cs_options := assoc_insert OPT_TRUSTED_CONTROLLERS updated (cs_options st)\<rparr> else st)
                  in (if opt_value (cs_options st') OPT_TRUSTED_CONTROLLERS = updated then CliDone else UpdateFailed, st')))"

section \<open>The list\<close>

text \<open>Documented behaviour of URL-safe Base64 without padding: it decodes what it encoded, and writes letters,
  digits, minus and underscore only.\<close>

definition is_token_char :: "char \<Rightarrow> bool" where
  "is_token_char c = (is_ascii_alphanumeric c \<or> c = CHR ''-'' \<or> c = CHR ''_'')"

definition codec_ok :: "KeyLib \<Rightarrow> bool" where
  "codec_ok K \<longleftrightarrow> (\<forall>key. kl_decode K (kl_encode K key) = Some key \<and> list_all is_token_char (kl_encode K key))"

lemma token_char:
  assumes "is_token_char c"
  shows "\<not> is_separator c" "\<not> is_whitespace c" "c \<noteq> CHR ''=''" "c \<noteq> CHR 0x0A"
proof -
  have "(of_char c :: nat) \<in> {45, 95} \<union> {48..57} \<union> {65..90} \<union> {97..122}"
    using assms by (auto simp: is_token_char_def is_ascii_alphanumeric_def is_ascii_digit_def is_ascii_upper_def is_ascii_lower_def Let_def)
  then show "\<not> is_separator c" "\<not> is_whitespace c" "c \<noteq> CHR ''=''" "c \<noteq> CHR 0x0A"
    by (auto simp: is_separator_def is_whitespace_def Let_def)
qed

lemma trim_token: "list_all is_token_char s \<Longrightarrow> trim s = s"
  by (rule trim_id) (auto simp: list_all_iff token_char)

lemma valid_id_token: "valid_id i \<Longrightarrow> list_all is_token_char i"
  by (simp add: valid_id_def is_token_char_def [abs_def])

definition entry_ok :: "Entry \<Rightarrow> bool" where
  "entry_ok e \<longleftrightarrow> valid_id (te_id e) \<and> length (te_key e) = PUBLICKEYBYTES"

definition entries_ok :: "Entry list \<Rightarrow> bool" where
  "entries_ok es \<longleftrightarrow> list_all entry_ok es \<and> distinct es \<and> length es \<le> MAX_ENTRIES"

lemma parse_entry_option:
  assumes "codec_ok K" "entry_ok e"
  shows "parse_entry K (to_option K e) = Some e"
proof -
  note i = valid_id_token [of "te_id e"]
  have v: "valid_id (te_id e)" "length (te_key e) = PUBLICKEYBYTES" using assms(2) by (simp_all add: entry_ok_def)
  have "\<forall>x\<in>set (te_id e). x \<noteq> CHR ''=''" using i v(1) token_char(3) by (auto simp: list_all_iff)
  then have "split_once (\<lambda>c. c = CHR ''='') (to_option K e) = Some (te_id e, kl_encode K (te_key e))"
    unfolding to_option_def append_Cons append_Nil by (intro split_once_append) simp_all
  moreover have "decode_key K (kl_encode K (te_key e)) = Some (te_key e)"
    using assms(1) v(2) by (simp add: decode_key_def codec_ok_def trim_token)
  ultimately show ?thesis using v(1) trim_token [OF i] by (simp add: parse_entry_def)
qed

lemma parse_items_format:
  assumes "codec_ok K" "entries_ok (a @ es)"
  shows "fold (parse_item K) (map (to_option K) es) (a, bad) = (a @ es, bad)"
  using assms(2)
proof (induction es arbitrary: a)
  case (Cons e es)
  then have "entry_ok e" "e \<notin> set a" "length a < MAX_ENTRIES" by (auto simp: entries_ok_def)
  then have "parse_item K (to_option K e) (a, bad) = (a @ [e], bad)"
    by (simp add: parse_item_def parse_entry_option [OF assms(1)])
  with Cons.IH [of "a @ [e]"] Cons.prems show ?case by simp
qed simp

lemma parse_format:
  assumes "codec_ok K" "entries_ok es"
  shows "parse_list K (format_list K es) = (es, [])"
proof (cases "es = []")
  case False
  have sep: "\<forall>s\<in>set (map (to_option K) es). s \<noteq> [] \<and> (\<forall>c\<in>set s. \<not> is_separator c)"
  proof (rule ballI)
    fix s assume "s \<in> set (map (to_option K) es)"
    then obtain e where "e \<in> set es" "s = to_option K e" by auto
    moreover from this assms(2) have "list_all is_token_char (te_id e)" 
      by (intro valid_id_token) (simp add: entries_ok_def entry_ok_def list_all_iff)
    moreover have "list_all is_token_char (kl_encode K (te_key e))" using assms(1) by (simp add: codec_ok_def)
    moreover have "\<not> is_separator (CHR ''='')" by (simp add: is_separator_def is_whitespace_def)
    ultimately show "s \<noteq> [] \<and> (\<forall>c\<in>set s. \<not> is_separator c)" using token_char(1) by (auto simp: to_option_def list_all_iff)
  qed
  have "split_on is_separator (format_list K es) = map (to_option K) es"
    unfolding format_list_def using False sep by (intro split_on_join) (auto simp: is_separator_def)
  moreover have "filter (\<lambda>s. s \<noteq> []) (map (to_option K) es) = map (to_option K) es" using sep by (auto simp: filter_id_conv)
  ultimately show ?thesis using parse_items_format [of K "[]" es "[]"] assms by (simp add: parse_list_def)
qed (simp add: parse_list_def format_list_def)

lemma parse_entry_ok: "parse_entry K item = Some e \<Longrightarrow> entry_ok e"
  by (auto simp: parse_entry_def decode_key_def entry_ok_def Let_def split: option.splits if_splits)

lemma parse_item_ok: "entries_ok (fst acc) \<Longrightarrow> entries_ok (fst (parse_item K item acc))"
  using parse_entry_ok [of K item]
  by (auto simp: parse_item_def entries_ok_def split: option.splits prod.splits)

lemma parse_entries_listed: "entries_ok (fst (parse_list K lst))"
proof -
  have "entries_ok (fst acc) \<Longrightarrow> entries_ok (fst (fold (parse_item K) items acc))" for items acc
    by (induction items arbitrary: acc) (simp_all add: parse_item_ok)
  then show ?thesis by (simp add: parse_list_def entries_ok_def)
qed

lemma entries_ok_filter: "entries_ok es \<Longrightarrow> entries_ok (filter P es)"
  by (auto simp: entries_ok_def list_all_iff intro: order_trans [OF length_filter_le])

lemma add_entry_Ok:
  assumes "codec_ok K" "add_entry K lst i key = Ok lst'"
  obtains k where "decode_key K key = Some k" "valid_id (trim i)"
    "set (fst (parse_list K lst')) = insert \<lparr>te_id = trim i, te_key = k\<rparr> (set (fst (parse_list K lst)))"
proof -
  let ?es = "fst (parse_list K lst)"
  from assms(2) obtain k where k: "decode_key K key = Some k" "valid_id (trim i)"
    by (auto simp: add_entry_def Let_def split: if_splits option.splits)
  let ?e = "\<lparr>te_id = trim i, te_key = k\<rparr>"
  have e: "entry_ok ?e" using k by (auto simp: entry_ok_def decode_key_def split: option.splits if_splits)
  note ok = parse_entries_listed [of K lst]
  show thesis
  proof (cases "?e \<in> set ?es")
    case True
    with assms(2) k have "lst' = format_list K ?es" by (simp add: add_entry_def)
    with that [OF k] parse_format [OF assms(1) ok] True show thesis by auto
  next
    case False
    with assms(2) k have l: "lst' = format_list K (?es @ [?e])" "length ?es < MAX_ENTRIES"
      by (auto simp: add_entry_def Let_def split: if_splits)
    then have "entries_ok (?es @ [?e])" using ok e False by (simp add: entries_ok_def)
    from that [OF k] parse_format [OF assms(1) this] l(1) show thesis by auto
  qed
qed

lemma remove_entry_set:
  assumes "codec_ok K"
  shows "set (fst (parse_list K (remove_entry K lst i key))) =
    {e \<in> set (fst (parse_list K lst)). te_id e \<noteq> trim i \<or> (\<exists>k. Option.bind key (decode_key K) = Some k \<and> te_key e \<noteq> k)}"
proof -
  have "parse_list K (remove_entry K lst i key) = (filter (\<lambda>e. te_id e \<noteq> trim i \<or> (case Option.bind key (decode_key K) of Some k \<Rightarrow> te_key e \<noteq> k | None \<Rightarrow> False))
      (fst (parse_list K lst)), [])"
    unfolding remove_entry_def Let_def by (rule parse_format [OF assms entries_ok_filter [OF parse_entries_listed]])
  then show ?thesis by (auto split: option.splits)
qed

text \<open>The list of trusted controllers is a set of pairs. Printing and parsing it loses nothing, adding
  succeeds only for a valid ID and a 32-byte key and adds exactly that pair, removing with a key removes exactly that
  pair and without a key exactly the pairs of the ID.\<close>

theorem trusted_list_edits:
  assumes "codec_ok K"
  shows "(entries_ok es \<longrightarrow> parse_list K (format_list K es) = (es, []))
    \<and> (add_entry K lst i key = Ok lst' \<longrightarrow> (\<exists>k. decode_key K key = Some k \<and> valid_id (trim i)
         \<and> set (fst (parse_list K lst')) = insert \<lparr>te_id = trim i, te_key = k\<rparr> (set (fst (parse_list K lst)))))
    \<and> (decode_key K key = Some k \<longrightarrow> set (fst (parse_list K (remove_entry K lst i (Some key)))) = set (fst (parse_list K lst)) - {\<lparr>te_id = trim i, te_key = k\<rparr>})
    \<and> set (fst (parse_list K (remove_entry K lst i None))) = {e \<in> set (fst (parse_list K lst)). te_id e \<noteq> trim i}"
  unfolding remove_entry_set [OF assms]
  using parse_format [OF assms] by (auto elim!: add_entry_Ok [OF assms])


section \<open>Signatures\<close>

lemma line_split:
  assumes "a @ CHR 0x0A # b = a' @ CHR 0x0A # b'" "CHR 0x0A \<notin> set a" "CHR 0x0A \<notin> set a'"
  shows "a = a' \<and> b = b'"
  using assms
proof (induction a arbitrary: a')
  case Nil
  then show ?case by (cases a') auto
next
  case (Cons x a)
  then show ?case by (cases a') auto
qed

lemma entry_eta [simp]: "\<lparr>te_id = te_id e, te_key = te_key e\<rparr> = e"
  by (cases e) simp

lemma verify_loginD:
  assumes "verify_login K lst h ch c key sig"
  shows "\<lparr>te_id = c, te_key = key\<rparr> \<in> set (fst (parse_list K lst))" "kl_verify K sig (canonical_message K h ch c key) key"
  using assms by (auto simp: verify_login_def verify_with_list_def Let_def list_ex_iff split: if_splits)

lemma listed_token:
  assumes "\<lparr>te_id = c, te_key = key\<rparr> \<in> set (fst (parse_list K lst))"
  shows "CHR 0x0A \<notin> set c"
proof -
  have "list_all entry_ok (fst (parse_list K lst))" using parse_entries_listed [of K lst] by (simp add: entries_ok_def)
  with assms have "valid_id c" by (force simp: list_all_iff entry_ok_def)
  then show ?thesis using valid_id_token token_char(4) by (fastforce simp: list_all_iff)
qed

text \<open>C10: what the exemption from the second factor rests on. When the host accepts, the controller's ID and
  key are a pair of its list and the signature verifies over the message of this host and this connection's challenge. No
  login for another host, challenge, controller or key has the same message, so the signature is of no use
  there; host IDs and challenges have no line breaks.\<close>

theorem trusted_login_bound:
  assumes "codec_ok K" "verify_login K lst h ch c key sig"
    and "canonical_message K h' ch' c' key' = canonical_message K h ch c key"
    and "CHR 0x0A \<notin> set (h @ ch)" "CHR 0x0A \<notin> set (h' @ ch')" "CHR 0x0A \<notin> set c'"
  shows "\<lparr>te_id = c, te_key = key\<rparr> \<in> set (fst (parse_list K lst)) \<and> kl_verify K sig (canonical_message K h ch c key) key
    \<and> h' = h \<and> ch' = ch \<and> c' = c \<and> key' = key"
proof -
  note D = verify_loginD [OF assms(2)]
  have c: "CHR 0x0A \<notin> set c" by (rule listed_token [OF D(1)])
  have e: "CHR 0x0A \<notin> set (kl_encode K k)" for k using assms(1) token_char(4) by (auto simp: codec_ok_def list_all_iff)
  have "canonical_text K h' ch' c' key' = canonical_text K h ch c key"
    using assms(3) by (simp add: canonical_message_def as_bytes_inj)
  then have "h' @ CHR 0x0A # ch' @ CHR 0x0A # c' @ CHR 0x0A # kl_encode K key' @ [CHR 0x0A]
      = h @ CHR 0x0A # ch @ CHR 0x0A # c @ CHR 0x0A # kl_encode K key @ [CHR 0x0A]"
    by (simp add: canonical_text_def)
  then have 1: "h' = h" "ch' @ CHR 0x0A # c' @ CHR 0x0A # kl_encode K key' @ [CHR 0x0A] = ch @ CHR 0x0A # c @ CHR 0x0A # kl_encode K key @ [CHR 0x0A]"
    using line_split [of h' _ h] assms(4,5) by (metis UnCI set_append)+
  from line_split [OF 1(2)] assms(4,5) have 2: "ch' = ch" "c' @ CHR 0x0A # kl_encode K key' @ [CHR 0x0A] = c @ CHR 0x0A # kl_encode K key @ [CHR 0x0A]" by auto
  from line_split [OF 2(2)] assms(6) c have 3: "c' = c" "kl_encode K key' @ [CHR 0x0A] = kl_encode K key @ [CHR 0x0A]" by auto
  then have "kl_encode K key' = kl_encode K key" by simp
  then have "key' = key" using assms(1) by (metis codec_ok_def option.inject)
  with D 1(1) 2(1) 3(1) show ?thesis by blast
qed

text \<open>Documented behaviour of Ed25519: keys have 32 bytes, a signature verifies under its key.\<close>

definition signing_ok :: "KeyLib \<Rightarrow> bool" where
  "signing_ok K \<longleftrightarrow> (\<forall>seed m. case kl_keypair K seed of (pk, sk) \<Rightarrow>
     length pk = PUBLICKEYBYTES \<and> kl_sign K sk m \<noteq> [] \<and> kl_signature K (kl_sign K sk m) \<and> kl_verify K (kl_sign K sk m) m pk)"

lemma keypair_seed: "load_keypair K stored = Some p \<Longrightarrow> \<exists>seed. p = kl_keypair K seed"
  by (auto simp: load_keypair_def split: option.splits if_splits)

lemma device_keypair_seed: "device_keypair K random stored = (Some p, stored') \<Longrightarrow> \<exists>seed. p = kl_keypair K seed"
  by (auto simp: device_keypair_def dest: keypair_seed split: option.splits if_splits prod.splits)

lemma trim_not_Nil: "c \<in> set s \<Longrightarrow> \<not> is_whitespace c \<Longrightarrow> trim s \<noteq> []"
proof
  assume c: "c \<in> set s" "\<not> is_whitespace c" and "trim s = []"
  then have "\<forall>x\<in>set (dropWhile is_whitespace s). is_whitespace x" by (simp add: trim_def trim_end_matches_def trim_start_matches_def)
  moreover have "c \<in> set (dropWhile is_whitespace s)" using c by (metis UnE set_append set_takeWhileD takeWhile_dropWhile_id)
  ultimately show False using c(2) by blast
qed

text \<open>Trusting a controller works and can be taken back. When the key that a controller shows has been added under its
  ID, the host accepts every login that the controller signs for it; after the pair has been removed it
  accepts none with that key.\<close>

theorem trust_roundtrip:
  assumes "codec_ok K" "signing_ok K" "sign_login K random h ch c stored = (Some (pk, sig), stored')"
    and "add_entry K lst c (kl_encode K pk) = Ok lst'" "trim c = c"
  shows "verify_login K lst' h ch c pk sig
    \<and> (\<forall>h ch sig. \<not> verify_login K (remove_entry K lst' c (Some (kl_encode K pk))) h ch c pk sig)"
proof -
  from assms(3) have ne: "h \<noteq> []" "ch \<noteq> []" "c \<noteq> []" by (auto simp: sign_login_def split: if_splits)
  with assms(3) obtain sk where kp: "device_keypair K random stored = (Some (pk, sk), stored')"
    and sig: "sig = kl_sign K sk (canonical_message K h ch c pk)"
    by (auto simp: sign_login_def split: prod.splits option.splits)
  from device_keypair_seed [OF kp] obtain seed where "(pk, sk) = kl_keypair K seed" by blast
  then have pk: "length pk = PUBLICKEYBYTES" "sig \<noteq> []" "kl_signature K sig" "kl_verify K sig (canonical_message K h ch c pk) pk"
    using assms(2) unfolding sig by (auto simp: signing_ok_def split: prod.splits) (metis fst_conv snd_conv)+
  have enc: "decode_key K (kl_encode K pk) = Some pk"
    using assms(1) pk(1) by (simp add: decode_key_def codec_ok_def trim_token)
  from add_entry_Ok [OF assms(1,4)] enc assms(5)
  have mem: "\<lparr>te_id = c, te_key = pk\<rparr> \<in> set (fst (parse_list K lst'))" by (metis insertI1 option.inject)
  then have "list_ex (\<lambda>e. te_id e = c \<and> te_key e = pk) (fst (parse_list K lst'))" by (force simp: list_ex_iff)
  moreover have "trim lst' \<noteq> []"
  proof
    assume "trim lst' = []"
    then have "\<forall>x\<in>set lst'. is_whitespace x" using trim_not_Nil by blast
    then have "s = []" if "s \<in> set (split_on is_separator lst')" for s
      using split_on_pieces [OF that, of "hd s"] by (cases s) (auto simp: is_separator_def)
    then have "filter (\<lambda>s. s \<noteq> []) (split_on is_separator lst') = []" by (simp add: filter_empty_conv)
    with mem show False by (simp add: parse_list_def)
  qed
  ultimately have "verify_login K lst' h ch c pk sig"
    using ne pk by (auto simp: verify_login_def verify_with_list_def PUBLICKEYBYTES_def)
  moreover have "\<lparr>te_id = c, te_key = pk\<rparr> \<notin> set (fst (parse_list K (remove_entry K lst' c (Some (kl_encode K pk)))))"
    unfolding remove_entry_set [OF assms(1)] using enc assms(5) by simp
  ultimately show ?thesis using verify_loginD(1) by blast
qed

text \<open>A key that does not decode is treated as no key: all pairs of the ID go.\<close>

lemma remove_bad_key:
  assumes "codec_ok K" "decode_key K key = None"
  shows "set (fst (parse_list K (remove_entry K lst i (Some key)))) = {e \<in> set (fst (parse_list K lst)). te_id e \<noteq> trim i}"
  unfolding remove_entry_set [OF assms(1)] using assms(2) by simp

section \<open>Witnesses\<close>

text \<open>A toy library: a key is written in unary, a signature is the key with the message.\<close>

definition toy_code :: "bytes \<Rightarrow> string" where
  "toy_code key = concat (map (\<lambda>n. replicate n (CHR ''a'') @ ''b'') key)"

definition toy_keys :: KeyLib where
  "toy_keys = \<lparr>kl_encode = toy_code,
     kl_decode = (\<lambda>s. Some (map length (butlast (split_on (\<lambda>c. c = CHR ''b'') s)))),
     kl_signature = (\<lambda>_. True), kl_verify = (\<lambda>sig m pk. sig = pk @ m), kl_sign = (\<lambda>sk m. sk @ m),
     kl_keypair = (\<lambda>seed. (take 32 (seed @ replicate 32 0), take 32 (seed @ replicate 32 0))),
     kl_seal = (\<lambda>seed. Some (CHR ''s'' # toy_code seed)),
     kl_open = (\<lambda>s. Some (map length (butlast (split_on (\<lambda>c. c = CHR ''b'') (tl s)))))\<rparr>"

lemma toy_split: "split_on (\<lambda>c. c = CHR ''b'') (toy_code key) = map (\<lambda>n. replicate n (CHR ''a'')) key @ [[]]"
proof (induction key)
  case (Cons n key)
  have "split_on (\<lambda>c. c = CHR ''b'') (replicate n (CHR ''a'') @ CHR ''b'' # toy_code key)
      = replicate n (CHR ''a'') # split_on (\<lambda>c. c = CHR ''b'') (toy_code key)"
    by (rule split_on_append) auto
  with Cons show ?case by (simp add: toy_code_def)
qed (simp add: toy_code_def)

lemma toy_code_chars: "c \<in> set (toy_code key) \<Longrightarrow> c \<in> {CHR ''a'', CHR ''b''}"
  by (auto simp: toy_code_def split: if_splits)

lemma toy_codec_ok: "codec_ok toy_keys"
proof -
  have "is_token_char (CHR ''a'')" "is_token_char (CHR ''b'')" by code_simp+
  then have "list_all is_token_char (toy_code key)" for key using toy_code_chars [of _ key] by (fastforce simp: list_all_iff)
  then show ?thesis by (simp add: codec_ok_def toy_keys_def toy_split comp_def)
qed

lemma toy_signing_ok: "signing_ok toy_keys"
  by (auto simp: signing_ok_def toy_keys_def PUBLICKEYBYTES_def)

definition toy_pk :: bytes where "toy_pk = replicate 32 7"

lemma toy_decode: "decode_key toy_keys (toy_code toy_pk) = Some toy_pk"
proof -
  have "kl_decode toy_keys (trim (kl_encode toy_keys toy_pk)) = Some toy_pk"
    using toy_codec_ok by (simp add: codec_ok_def trim_token)
  then show ?thesis by (simp add: decode_key_def toy_keys_def toy_pk_def PUBLICKEYBYTES_def)
qed

lemma toy_sign:
  "sign_login toy_keys toy_pk ''host'' ''nonce'' ''ctl-1'' []
     = (Some (toy_pk, toy_pk @ canonical_message toy_keys ''host'' ''nonce'' ''ctl-1'' toy_pk), CHR ''s'' # toy_code toy_pk)"
proof -
  have "load_keypair toy_keys (CHR ''s'' # toy_code toy_pk) = Some (toy_pk, toy_pk)"
    by (simp add: load_keypair_def toy_keys_def toy_split comp_def) (simp add: toy_pk_def)
  moreover have "load_keypair toy_keys [] = None" by (simp add: load_keypair_def)
  moreover have "store_seed toy_keys toy_pk [] = (True, CHR ''s'' # toy_code toy_pk)" by (simp add: store_seed_def toy_keys_def)
  ultimately have "device_keypair toy_keys toy_pk [] = (Some (toy_pk, toy_pk), CHR ''s'' # toy_code toy_pk)" by (simp add: device_keypair_def)
  then show ?thesis by (simp add: sign_login_def) (simp add: toy_keys_def)
qed

lemma toy_id: "valid_id ''ctl-1''" "trim ''ctl-1'' = ''ctl-1''"
  by code_simp+

lemma toy_add: "add_entry toy_keys [] ''ctl-1'' (toy_code toy_pk) = Ok (format_list toy_keys [\<lparr>te_id = ''ctl-1'', te_key = toy_pk\<rparr>])"
  using toy_decode toy_id by (simp add: add_entry_def Let_def parse_list_def MAX_ENTRIES_def)

theorem trusted_list_edits_witness:
  "set (fst (parse_list toy_keys (format_list toy_keys [\<lparr>te_id = ''ctl-1'', te_key = toy_pk\<rparr>]))) = {\<lparr>te_id = ''ctl-1'', te_key = toy_pk\<rparr>}
   \<and> set (fst (parse_list toy_keys (remove_entry toy_keys (format_list toy_keys [\<lparr>te_id = ''ctl-1'', te_key = toy_pk\<rparr>]) ''ctl-1'' (Some (toy_code toy_pk))))) = {}"
proof -
  have e: "set (fst (parse_list toy_keys [])) = {}" by (simp add: parse_list_def)
  let ?l = "format_list toy_keys [\<lparr>te_id = ''ctl-1'', te_key = toy_pk\<rparr>]"
  from trusted_list_edits [OF toy_codec_ok, of "[]" "[]" "''ctl-1''" "toy_code toy_pk" ?l toy_pk] toy_add toy_decode toy_id(2) e
  have "set (fst (parse_list toy_keys ?l)) = {\<lparr>te_id = ''ctl-1'', te_key = toy_pk\<rparr>}" by auto
  moreover from trusted_list_edits [OF toy_codec_ok, of "[]" ?l "''ctl-1''" "toy_code toy_pk" ?l toy_pk] toy_decode toy_id(2) calculation
  have "set (fst (parse_list toy_keys (remove_entry toy_keys ?l ''ctl-1'' (Some (toy_code toy_pk))))) = {}" by auto
  ultimately show ?thesis by blast
qed

theorem trust_roundtrip_witness:
  "\<exists>lst. verify_login toy_keys lst ''host'' ''nonce'' ''ctl-1'' toy_pk (toy_pk @ canonical_message toy_keys ''host'' ''nonce'' ''ctl-1'' toy_pk)"
proof -
  have "add_entry toy_keys [] ''ctl-1'' (kl_encode toy_keys toy_pk) = Ok (format_list toy_keys [\<lparr>te_id = ''ctl-1'', te_key = toy_pk\<rparr>])"
    using toy_add by (simp add: toy_keys_def)
  from trust_roundtrip [OF toy_codec_ok toy_signing_ok toy_sign this toy_id(2)] show ?thesis by blast
qed

lemma toy_verify:
  "verify_login toy_keys (format_list toy_keys [\<lparr>te_id = ''ctl-1'', te_key = toy_pk\<rparr>]) ''host'' ''nonce'' ''ctl-1'' toy_pk
     (toy_pk @ canonical_message toy_keys ''host'' ''nonce'' ''ctl-1'' toy_pk)"
proof -
  have e: "entries_ok [\<lparr>te_id = ''ctl-1'', te_key = toy_pk\<rparr>]"
    using toy_id by (simp add: entries_ok_def entry_ok_def toy_pk_def PUBLICKEYBYTES_def MAX_ENTRIES_def)
  have "hd (format_list toy_keys [\<lparr>te_id = ''ctl-1'', te_key = toy_pk\<rparr>]) = CHR ''c''"
    "format_list toy_keys [\<lparr>te_id = ''ctl-1'', te_key = toy_pk\<rparr>] \<noteq> []" by (simp_all add: format_list_def to_option_def)
  then have "CHR ''c'' \<in> set (format_list toy_keys [\<lparr>te_id = ''ctl-1'', te_key = toy_pk\<rparr>])" by (metis hd_in_set)
  from trim_not_Nil [OF this] have "trim (format_list toy_keys [\<lparr>te_id = ''ctl-1'', te_key = toy_pk\<rparr>]) \<noteq> []" by (simp add: is_whitespace_def)
  then show ?thesis
    using parse_format [OF toy_codec_ok e]
    by (simp add: verify_login_def verify_with_list_def) (simp add: toy_keys_def toy_pk_def PUBLICKEYBYTES_def)
qed

theorem trusted_login_bound_witness:
  "\<lparr>te_id = ''ctl-1'', te_key = toy_pk\<rparr> \<in> set (fst (parse_list toy_keys (format_list toy_keys [\<lparr>te_id = ''ctl-1'', te_key = toy_pk\<rparr>])))"
  using trusted_login_bound [OF toy_codec_ok toy_verify refl] by simp

end
