(* ===== verification/Posture.thy ===== *)
theory Posture
  imports Json_Value
begin

text \<open>
  The security posture that a host may ask of a controller: the decision of \<^verbatim>\<open>src/src/clanto/posture.rs\<close> and its
  use at a login, \<open>verify_clanto_posture\<close> of \<^verbatim>\<open>src/src/server/connection.rs\<close>. The answer of the server, the parser
  of its text (\<open>serde_json\<close>) and the order of version numbers (\<open>hbb_common\<close>) are arguments.
\<close>

section \<open>Model\<close>

definition OPT_REQUIRE_PROTECTED_DEVICE :: string where "OPT_REQUIRE_PROTECTED_DEVICE = ''clanto-require-protected-device''"
definition OPT_POSTURE_BYPASS :: string where "OPT_POSTURE_BYPASS = ''clanto-posture-bypass''"
definition OPT_REQUIRE_CONTROLLER_WATERMARK :: string where
  "OPT_REQUIRE_CONTROLLER_WATERMARK = ''clanto-require-controller-watermark''"
definition MIN_POSTURE_VERSION :: string where "MIN_POSTURE_VERSION = ''1.5.0''"

datatype VerificationMode = ModeNone | ModeSignature | ModeFull

definition verification_mode :: "bool \<Rightarrow> bool \<Rightarrow> VerificationMode" where
  "verification_mode require_protected_device require_controller_watermark =
     (if require_protected_device then ModeFull
      else if require_controller_watermark then ModeSignature else ModeNone)"

definition configured_verification_mode :: "(string \<Rightarrow> string) \<Rightarrow> VerificationMode" where
  "configured_verification_mode get_option =
     verification_mode (get_option OPT_REQUIRE_PROTECTED_DEVICE = ''Y'') (get_option OPT_REQUIRE_CONTROLLER_WATERMARK = ''Y'')"

record FailedRule =
  fr_id :: string
  fr_message :: string
  fr_bypassable :: bool

datatype RejectionKind = Outdated | Unofficial | Unreachable | PolicyRules

datatype VerificationFailure = MissingCredentials | FailUnreachable | FailRules "FailedRule list"

record VerificationRejection =
  vr_kind :: RejectionKind
  vr_detail :: string
  vr_policy_message :: "string option"
  vr_failed_rules :: "string list"

definition classify_rejection :: "(string \<Rightarrow> int) \<Rightarrow> string \<Rightarrow> VerificationFailure \<Rightarrow> RejectionKind" where
  "classify_rejection version_number version failure =
     (if version_number version < version_number MIN_POSTURE_VERSION then Outdated
      else
        (case failure of
           MissingCredentials \<Rightarrow> Unofficial
         | FailUnreachable \<Rightarrow> Unreachable
         | FailRules failed \<Rightarrow>
             if list_ex (\<lambda>r. fr_id r = ''core:revoked'') failed then Outdated
             else if list_ex (\<lambda>r. fr_id r = ''core:signature'') failed then Unofficial
             else PolicyRules))"

definition contains_core :: "string \<Rightarrow> bool" where
  "contains_core s = list_ex (\<lambda>n. starts_with (drop n s) ''core:'') [0..<length s]"

definition reject_missing :: "(string \<Rightarrow> int) \<Rightarrow> string \<Rightarrow> VerificationRejection" where
  "reject_missing vn version =
     \<lparr>vr_kind = classify_rejection vn version MissingCredentials, vr_detail = ''posture or signature missing'',
      vr_policy_message = None, vr_failed_rules = []\<rparr>"

definition reject_unreachable :: "(string \<Rightarrow> int) \<Rightarrow> string \<Rightarrow> string \<Rightarrow> VerificationRejection" where
  "reject_unreachable vn version detail =
     \<lparr>vr_kind = classify_rejection vn version FailUnreachable, vr_detail = detail, vr_policy_message = None, vr_failed_rules = []\<rparr>"

definition reject_rules :: "(string \<Rightarrow> int) \<Rightarrow> string \<Rightarrow> FailedRule list \<Rightarrow> string \<Rightarrow> VerificationRejection" where
  "reject_rules vn version failed reason =
     (let failed_rules = map fr_id failed;
          policy_message = join ''; '' (filter (\<lambda>m. m \<noteq> [] \<and> \<not> contains_core m) (map (\<lambda>r. trim (fr_message r)) failed));
          detail = (if failed_rules = [] then reason else reason @ '' ['' @ join '', '' failed_rules @ '']'')
      in \<lparr>vr_kind = classify_rejection vn version (FailRules failed), vr_detail = detail,
          vr_policy_message = (if policy_message = [] then None else Some policy_message), vr_failed_rules = failed_rules\<rparr>)"

definition may_bypass :: "string list \<Rightarrow> FailedRule \<Rightarrow> bool" where
  "may_bypass bypass r = (fr_bypassable r \<and> \<not> starts_with (fr_id r) ''core:'' \<and> list_ex (\<lambda>i. i = fr_id r) bypass)"

definition decide :: "bool \<Rightarrow> FailedRule list \<Rightarrow> string list \<Rightarrow> (string list, string) result" where
  "decide ok failed bypass =
     (if ok \<and> failed = [] then Ok []
      else if \<not> ok \<and> failed \<noteq> [] \<and> list_all (may_bypass bypass) failed then Ok (map fr_id failed)
      else
        let messages = filter (\<lambda>m. m \<noteq> []) (map fr_message (filter (\<lambda>r.
              starts_with (fr_id r) ''core:'' \<or> \<not> fr_bypassable r \<or> \<not> list_ex (\<lambda>i. i = fr_id r) bypass) failed))
        in Err (if messages = [] then ''requisiti di sicurezza non soddisfatti'' else join ''; '' messages))"

text \<open>\<open>response\<close> is what the server answered, \<open>None\<close> on a timeout or a failed request.\<close>

definition bypass_ids :: "(string \<Rightarrow> string) \<Rightarrow> string list" where
  "bypass_ids get_option = filter (\<lambda>i. i \<noteq> []) (map trim (split_on (\<lambda>c. c = CHR '','') (get_option OPT_POSTURE_BYPASS)))"

definition verify_clanto_posture ::
    "(string \<Rightarrow> int) \<Rightarrow> (string \<Rightarrow> Value option) \<Rightarrow> (Value \<Rightarrow> FailedRule list option) \<Rightarrow> (string \<Rightarrow> string)
       \<Rightarrow> string \<Rightarrow> bool \<Rightarrow> string option \<Rightarrow> (string list, VerificationRejection) result" where
  "verify_clanto_posture vn from_str rules_of get_option version credentials response =
     (if \<not> credentials then Err (reject_missing vn version)
      else
        (case response of
           None \<Rightarrow> Err (reject_unreachable vn version ''posture verification request failed'')
         | Some txt \<Rightarrow>
             (case from_str txt of
                None \<Rightarrow> Err (reject_unreachable vn version ''invalid posture verification JSON'')
              | Some v \<Rightarrow>
                  (case Option.bind (value_get ''ok'' v) as_bool of
                     None \<Rightarrow> Err (reject_unreachable vn version ''posture verification response has no boolean ok field'')
                   | Some ok \<Rightarrow>
                       (case value_get ''failed'' v of
                          None \<Rightarrow> Err (reject_unreachable vn version ''posture verification response has no failed field'')
                        | Some f \<Rightarrow>
                            (case rules_of f of
                               None \<Rightarrow> Err (reject_unreachable vn version ''invalid posture verification failed rules'')
                             | Some failed \<Rightarrow>
                                 (case decide ok failed (bypass_ids get_option) of
                                    Ok bypassed \<Rightarrow> Ok bypassed
                                  | Err message \<Rightarrow> Err (reject_rules vn version failed message))))))))"

definition LOGIN_ERROR_OUTDATED :: string where "LOGIN_ERROR_OUTDATED = ''clanto_posture_outdated_error''"
definition LOGIN_ERROR_UNOFFICIAL :: string where "LOGIN_ERROR_UNOFFICIAL = ''clanto_posture_unofficial_error''"
definition LOGIN_ERROR_UNREACHABLE :: string where "LOGIN_ERROR_UNREACHABLE = ''clanto_posture_unreachable_error''"
definition LOGIN_ERROR_POLICY :: string where "LOGIN_ERROR_POLICY = ''clanto_posture_policy_error''"

text \<open>The message key stands for its translation; the marker of an outdated controller is outside the
  characters of the model, an argument.\<close>

definition clanto_posture_login_error :: "string \<Rightarrow> VerificationRejection \<Rightarrow> string" where
  "clanto_posture_login_error marker rejection =
     (case vr_kind rejection of
        Outdated \<Rightarrow> marker @ LOGIN_ERROR_OUTDATED
      | Unofficial \<Rightarrow> LOGIN_ERROR_UNOFFICIAL
      | Unreachable \<Rightarrow> LOGIN_ERROR_UNREACHABLE
      | PolicyRules \<Rightarrow> LOGIN_ERROR_POLICY @ (case vr_policy_message rejection of Some m \<Rightarrow> '' '' @ m | None \<Rightarrow> []))"

section \<open>What passes\<close>

lemma decide_Ok:
  "decide ok failed bypass = Ok ids \<longleftrightarrow>
     ids = map fr_id failed \<and> (ok \<longleftrightarrow> failed = []) \<and> list_all (may_bypass bypass) failed"
  by (auto simp: decide_def Let_def)

text \<open>The posture check fails closed. A login passes exactly when the controller sent credentials, the server answered
  readable JSON with its verdict and its list of failed rules, verdict and list agree, and every failed rule may be
  bypassed: the server marks it so, the host's option names it, and it is no \<open>core:\<close> rule. Those rules are
  the ones reported as bypassed.\<close>

theorem posture_passes_iff:
  "verify_clanto_posture vn from_str rules_of get_option version credentials response = Ok ids \<longleftrightarrow>
     credentials \<and> (\<exists>txt v ok f failed. response = Some txt \<and> from_str txt = Some v \<and> value_get ''ok'' v = Some (VBool ok)
       \<and> value_get ''failed'' v = Some f \<and> rules_of f = Some failed \<and> (ok \<longleftrightarrow> failed = []) \<and> ids = map fr_id failed
       \<and> (\<forall>r\<in>set failed. fr_bypassable r \<and> \<not> starts_with (fr_id r) ''core:'' \<and> fr_id r \<in> set (bypass_ids get_option)))"
proof -
  have b: "as_bool x = Some ok \<longleftrightarrow> x = VBool ok" for x ok by (cases x) auto
  have m: "list_all (may_bypass bs) failed \<longleftrightarrow> (\<forall>r\<in>set failed. fr_bypassable r \<and> \<not> starts_with (fr_id r) ''core:'' \<and> fr_id r \<in> set bs)" for bs failed
    by (auto simp: list_all_iff may_bypass_def list_ex_iff)
  have e: "\<not> ((ok \<longleftrightarrow> failed = []) \<and> list_all (may_bypass bs) failed)" if "decide ok failed bs = Err x" for ok failed bs x
    using that decide_Ok [of ok failed bs] by (metis result.distinct(1))
  show ?thesis
    unfolding verify_clanto_posture_def
    by (auto simp: bind_eq_Some_conv b decide_Ok m split: option.splits result.splits dest!: e)
qed

definition toy_rules :: "Value \<Rightarrow> FailedRule list option" where
  "toy_rules v = Some [\<lparr>fr_id = ''av'', fr_message = ''antivirus off'', fr_bypassable = True\<rparr>]"

theorem posture_passes_iff_witness:
  "verify_clanto_posture (\<lambda>_. 0) (\<lambda>_. Some (VObject [(''ok'', VBool False), (''failed'', VNull)])) toy_rules (\<lambda>_. ''fw, av'') ''1.5.0'' True (Some [])
     = Ok [''av'']"
proof -
  have "bypass_ids (\<lambda>_. ''fw, av'') = [''fw'', ''av'']" by code_simp
  then show ?thesis by (subst posture_passes_iff) (simp add: toy_rules_def starts_with_def, blast)
qed

end
