(* ===== verification/Conn_Login.thy ===== *)
theory Conn_Login
  imports Access_Hours Session_Grant Login_Guard Trusted_Controllers Posture Video_Qos
begin

text \<open>
  The login of a connection on the controlled side, from \<^verbatim>\<open>src/src/server/connection.rs\<close>: the login request with its
  gates, the second factor, the approval by the person at the host, switched sides, and the authorisation itself;
  with \<open>two_factor_policy.rs\<close>, the state of \<open>two_factor_store.rs\<close> and \<open>login_block\<close> of \<^verbatim>\<open>src/src/clanto/mod.rs\<close>. The components it
  asks are those of the other theories. \<open>LoginConn\<close> holds the fields of \<open>Connection\<close> that a login reads or writes,
  \<open>LoginWorld\<close> the process-wide state, \<open>LoginEnv\<close> what one event reads of configuration, clock, platform, network
  and \<open>hbb_common\<close>. An event returns whether the connection is kept. Messages sent to the peer are kept as the list of login
  errors; audits and alarms are not modelled.
\<close>

section \<open>Model: data\<close>

datatype LoginUnion = UFileTransfer string bool | UViewCamera | UTerminal string | UPortForward string int bool | UUnknown

record LoginRequest =
  lr_username :: string
  lr_password :: bytes
  lr_my_id :: string
  lr_my_name :: string
  lr_my_platform :: string
  lr_version :: string
  lr_option :: "bool option"
  lr_hwid :: bytes
  lr_session_id :: nat
  lr_union :: "LoginUnion option"
  lr_device_key :: bytes
  lr_device_sig :: bytes
  lr_clanto_grant :: string
  lr_posture :: bool
  lr_os_username :: string

record SessionKey =
  sk_peer_id :: string
  sk_name :: string
  sk_session_id :: nat

record LoginSession =
  se_last_recv :: nat
  se_random_password :: string
  se_tfa :: bool

datatype AuthConnType = ARemote | AFileTransfer | APortForward | AViewCamera | ATerminal
datatype ConnAuditPrimaryAuth = PaNone | PaClick | PaTemporaryPassword | PaPermanentPassword | PaSwitchSides | PaClantoGrant
datatype ConnAuditTwoFactor = TfNone | TfTotp | TfTrustedDevice
datatype ApproveMode = ApproveBoth | ApprovePassword | ApproveClick

record TrustedDevice =
  td_hwid :: bytes
  td_id :: string
  td_name :: string
  td_platform :: string
  td_time :: int

record LoginEnv =
  le_opt :: "string \<Rightarrow> string"
  le_builtin :: "string \<Rightarrow> string"
  le_option2bool :: "string \<Rightarrow> string \<Rightarrow> bool"
  le_cp_index :: "Permission \<Rightarrow> int"
  le_flutter_desktop :: bool
  le_id :: string
  le_instant :: nat
  le_time :: int
  le_weekday :: nat
  le_hour :: nat
  le_minute :: nat
  le_crypto :: Crypto
  le_grant_json :: GrantJson
  le_enrollment :: "Enrollment option"
  le_access_mode :: string
  le_keys :: KeyLib
  le_profiles :: "string \<Rightarrow> (string \<times> ProfileConfig) list option"
  le_version_number :: "string \<Rightarrow> int"
  le_from_str :: "string \<Rightarrow> Value option"
  le_rules_of :: "Value \<Rightarrow> FailedRule list option"
  le_posture_response :: "string option"
  le_marker :: string
  le_windows :: bool
  le_installed :: bool
  le_prelogin :: bool
  le_logon_screen :: bool
  le_direct_ip :: "string \<Rightarrow> bool"
  le_privacy_mode :: bool
  le_temporary_enabled :: bool
  le_permanent_enabled :: bool
  le_approve_mode :: ApproveMode
  le_has_valid_password :: bool
  le_new_password :: string
  le_local_storage :: string
  le_local_usable :: bool
  le_preset_storage :: string
  le_preset_salt :: string
  le_preset_usable :: bool
  le_decode_h1 :: "string \<Rightarrow> bytes option"
  le_decode_preset_h1 :: "string \<Rightarrow> bytes option"
  le_2fa :: bool
  le_totp :: "string \<Rightarrow> bool option"
  le_outdate :: "TrustedDevice \<Rightarrow> bool"
  le_add_device :: "TrustedDevice \<Rightarrow> TrustedDevice list \<Rightarrow> TrustedDevice list"
  le_os_gate :: bool
  le_terminal_error :: "string option"
  le_terminal_mismatch :: bool
  le_connect :: bool
  le_session_code :: "string option"
  le_translate :: "string \<Rightarrow> string"

record LoginWorld =
  lw_grants :: GrantState
  lw_active :: ActiveTable
  lw_failures :: LoginFailures
  lw_sessions :: "(SessionKey \<times> LoginSession) list"
  lw_temporary :: string
  lw_temporary_failures :: "string \<times> int"
  lw_switch :: "(string \<times> (nat \<times> bytes)) list"
  lw_devices :: "TrustedDevice list"
  lw_authed :: "(int \<times> AuthConnType \<times> SessionKey) list"
  lw_unauthorized :: "UnauthorizedConn list"
  lw_qos :: VideoQoS

record LoginConn =
  lc_id :: int
  lc_ip :: string
  lc_salt :: string
  lc_challenge :: string
  lc_control :: "nat option"
  lc_authorized :: bool
  lc_require_2fa :: bool
  lc_awaiting_2fa :: bool
  lc_from_switch :: bool
  lc_scope :: "bytes option"
  lc_lr :: LoginRequest
  lc_options :: "bool option"
  lc_grant :: "GrantInfo option"
  lc_perms :: "Permission \<Rightarrow> bool"
  lc_id_profile :: string
  lc_forward_profile :: bool
  lc_camera_profile :: bool
  lc_file_transfer :: "(string \<times> bool) option"
  lc_view_camera :: bool
  lc_terminal :: bool
  lc_terminal_persistent :: bool
  lc_terminal_service :: string
  lc_terminal_token :: bool
  lc_pf_address :: string
  lc_pf_socket :: bool
  lc_pf_mux :: bool
  lc_session_code :: "string option"
  lc_authed :: "AuthConnType option"
  lc_primary :: ConnAuditPrimaryAuth
  lc_two_factor :: ConnAuditTwoFactor
  lc_errors :: "string list"
  lc_close_reason :: "string option"
  lc_cm :: "bool list"
  lc_cm_ipc :: bool

definition LOGIN_MSG_PASSWORD_WRONG :: string where "LOGIN_MSG_PASSWORD_WRONG = ''Wrong Password''"
definition LOGIN_MSG_2FA_WRONG :: string where "LOGIN_MSG_2FA_WRONG = ''Wrong 2FA Code''"
definition REQUIRE_2FA :: string where "REQUIRE_2FA = ''2FA Required''"
definition LOGIN_MSG_NO_PASSWORD_ACCESS :: string where "LOGIN_MSG_NO_PASSWORD_ACCESS = ''No Password Access''"
definition LOGIN_MSG_OFFLINE :: string where "LOGIN_MSG_OFFLINE = ''Offline''"
definition SESSION_TIMEOUT :: nat where "SESSION_TIMEOUT = 30000"
definition SWITCH_SIDES_UUID_TTL :: nat where "SWITCH_SIDES_UUID_TTL = 10000"
definition MAX_CONSECUTIVE_FAILURES :: int where "MAX_CONSECUTIVE_FAILURES = 10"

definition send_login_error :: "string \<Rightarrow> LoginConn \<Rightarrow> LoginConn" where
  "send_login_error err c = c\<lparr>lc_errors := lc_errors c @ [err]\<rparr>"

definition remember_close_reason :: "string \<Rightarrow> LoginConn \<Rightarrow> LoginConn" where
  "remember_close_reason reason c = (if lc_close_reason c = None then c\<lparr>lc_close_reason := Some reason\<rparr> else c)"

definition refuse :: "string \<Rightarrow> LoginConn \<Rightarrow> LoginConn" where
  "refuse msg c = remember_close_reason msg (send_login_error msg c)"

definition try_start_cm :: "bool \<Rightarrow> LoginConn \<Rightarrow> LoginConn" where
  "try_start_cm authorized c = c\<lparr>lc_cm := lc_cm c @ [authorized]\<rparr>"

definition session_key :: "LoginConn \<Rightarrow> SessionKey" where
  "session_key c = \<lparr>sk_peer_id = lr_my_id (lc_lr c), sk_name = lr_my_name (lc_lr c), sk_session_id = lr_session_id (lc_lr c)\<rparr>"

definition guard_conn :: "LoginConn \<Rightarrow> Conn" where
  "guard_conn c = \<lparr>cn_ip = lc_ip c, cn_my_id = lr_my_id (lc_lr c)\<rparr>"

section \<open>Model: passwords and sessions\<close>

definition verify_h1 :: "LoginEnv \<Rightarrow> LoginConn \<Rightarrow> bytes \<Rightarrow> bool" where
  "verify_h1 E c h1 = (sha256 (le_crypto E) (h1 @ as_bytes (lc_challenge c)) = lr_password (lc_lr c))"

definition validate_password_plain :: "LoginEnv \<Rightarrow> LoginConn \<Rightarrow> string \<Rightarrow> bool" where
  "validate_password_plain E c password =
     (if password = [] then False
      else verify_h1 E c (sha256 (le_crypto E) (as_bytes password @ as_bytes (lc_salt c))))"

definition validate_password_storage :: "LoginEnv \<Rightarrow> LoginConn \<Rightarrow> string \<Rightarrow> bool" where
  "validate_password_storage E c storage =
     (if storage = [] then False
      else (case le_decode_h1 E storage of Some h1 \<Rightarrow> verify_h1 E c h1 | None \<Rightarrow> validate_password_plain E c storage))"

definition validate_preset_password_storage :: "LoginEnv \<Rightarrow> LoginConn \<Rightarrow> string \<Rightarrow> string \<Rightarrow> bool" where
  "validate_preset_password_storage E c storage salt =
     (if salt = [] then validate_password_plain E c storage
      else (case le_decode_preset_h1 E storage of None \<Rightarrow> False | Some h1 \<Rightarrow> verify_h1 E c h1))"

text \<open>After ten wrong guesses in a row the temporary password is replaced.\<close>

definition check_update_temporary_password :: "LoginEnv \<Rightarrow> bool \<Rightarrow> LoginWorld \<Rightarrow> LoginWorld" where
  "check_update_temporary_password E success w =
     (if \<not> le_temporary_enabled E then w
      else
        let current = lw_temporary w in
        if current = [] then w
        else
          let (password, failures) = (if fst (lw_temporary_failures w) \<noteq> current then (current, 0) else lw_temporary_failures w) in
          if success then w\<lparr>lw_temporary_failures := (password, 0)\<rparr>
          else if failures + 1 < MAX_CONSECUTIVE_FAILURES then w\<lparr>lw_temporary_failures := (password, failures + 1)\<rparr>
          else w\<lparr>lw_temporary := le_new_password E, lw_temporary_failures := (le_new_password E, 0)\<rparr>)"

definition update_or_insert_session ::
    "nat \<Rightarrow> SessionKey \<Rightarrow> string option \<Rightarrow> bool option \<Rightarrow> (SessionKey \<times> LoginSession) list \<Rightarrow> (SessionKey \<times> LoginSession) list" where
  "update_or_insert_session now key password tfa sessions =
     (case map_of sessions key of
        Some s \<Rightarrow>
          assoc_update key (\<lambda>s. s\<lparr>se_random_password := (case password of Some p \<Rightarrow> p | None \<Rightarrow> se_random_password s),
            se_tfa := (case tfa of Some t \<Rightarrow> t | None \<Rightarrow> se_tfa s)\<rparr>) sessions
      | None \<Rightarrow>
          assoc_insert key \<lparr>se_last_recv = now, se_random_password = (case password of Some p \<Rightarrow> p | None \<Rightarrow> []),
            se_tfa = (case tfa of Some t \<Rightarrow> t | None \<Rightarrow> False)\<rparr> sessions)"

definition set_session_2fa :: "nat \<Rightarrow> SessionKey \<Rightarrow> (SessionKey \<times> LoginSession) list \<Rightarrow> (SessionKey \<times> LoginSession) list" where
  "set_session_2fa now key sessions =
     (case map_of sessions key of
        Some s \<Rightarrow> assoc_update key (\<lambda>s. s\<lparr>se_tfa := True\<rparr>) sessions
      | None \<Rightarrow> assoc_insert key \<lparr>se_last_recv = now, se_random_password = [], se_tfa = True\<rparr> sessions)"

definition validate_permanent :: "LoginEnv \<Rightarrow> LoginConn \<Rightarrow> bool" where
  "validate_permanent E c =
     (if le_local_storage E \<noteq> [] then le_local_usable E \<and> validate_password_storage E c (le_local_storage E)
      else le_preset_usable E \<and> validate_preset_password_storage E c (le_preset_storage E) (le_preset_salt E))"

definition validate_password :: "LoginEnv \<Rightarrow> bool \<Rightarrow> LoginWorld \<Rightarrow> LoginConn \<Rightarrow> bool \<times> LoginWorld \<times> LoginConn" where
  "validate_password E allow_permanent w c =
     (if le_temporary_enabled E \<and> validate_password_plain E c (lw_temporary w) then
        (True,
         check_update_temporary_password E True
           (w\<lparr>lw_sessions := update_or_insert_session (le_instant E) (session_key c) (Some (lw_temporary w)) (Some False) (lw_sessions w)\<rparr>),
         c\<lparr>lc_primary := PaTemporaryPassword\<rparr>)
      else if (le_permanent_enabled E \<or> allow_permanent) \<and> validate_permanent E c then
        (True, w, c\<lparr>lc_primary := PaPermanentPassword\<rparr>)
      else (False, w, c))"

definition is_recent_session :: "LoginEnv \<Rightarrow> bool \<Rightarrow> LoginWorld \<Rightarrow> LoginConn \<Rightarrow> bool \<times> LoginWorld \<times> LoginConn" where
  "is_recent_session E tfa w c =
     (let w = w\<lparr>lw_sessions := filter (\<lambda>(_, s). le_instant E - se_last_recv s < SESSION_TIMEOUT) (lw_sessions w)\<rparr>
      in case map_of (lw_sessions w) (session_key c) of
           None \<Rightarrow> (False, w, c)
         | Some s \<Rightarrow>
             if lr_password (lc_lr c) \<noteq> [] \<and> (tfa \<and> se_tfa s \<or> \<not> tfa \<and> validate_password_plain E c (se_random_password s)) then
               (True, w, if tfa then c\<lparr>lc_two_factor := TfTotp\<rparr> else c\<lparr>lc_primary := PaTemporaryPassword\<rparr>)
             else (False, w, c))"

section \<open>Model: permissions\<close>

fun option_of :: "Permission \<Rightarrow> string" where
  "option_of Keyboard = ''enable-keyboard''"
| "option_of Clipboard = ''enable-clipboard''"
| "option_of File = ''enable-file-transfer''"
| "option_of Audio = ''enable-audio''"
| "option_of Camera = ''enable-camera''"
| "option_of Terminal = ''enable-terminal''"
| "option_of Tunnel = ''enable-tunnel''"
| "option_of Restart = ''enable-remote-restart''"
| "option_of Recording = ''enable-record-session''"
| "option_of BlockInput = ''enable-block-input''"
| "option_of PrivacyMode = ''enable-privacy-mode''"
| "option_of RemotePrinter = ''enable-remote-printer''"

definition is_permission_enabled_locally :: "LoginEnv \<Rightarrow> string \<Rightarrow> bool" where
  "is_permission_enabled_locally E opt =
     (if le_flutter_desktop E \<and> le_opt E ''access-mode'' = ''full'' then True
      else if le_flutter_desktop E \<and> le_opt E ''access-mode'' = ''view'' then False
      else le_option2bool E opt (le_opt E opt))"

definition get_control_permission :: "nat \<Rightarrow> int \<Rightarrow> bool option" where
  "get_control_permission permissions index =
     (if index \<ge> 0 \<and> index < 32 then
        let v = permissions div 4 ^ nat index mod 4 in if v = 1 then Some False else if v = 2 then Some True else None
      else None)"

definition permission :: "LoginEnv \<Rightarrow> nat option \<Rightarrow> Permission \<Rightarrow> bool" where
  "permission E control p =
     (case Option.bind control (\<lambda>ps. get_control_permission ps (le_cp_index E p)) of
        Some enabled \<Rightarrow> enabled
      | None \<Rightarrow> is_permission_enabled_locally E (option_of p))"

fun grant_name :: "Permission \<Rightarrow> string option" where
  "grant_name Keyboard = Some ''control''"
| "grant_name BlockInput = Some ''control''"
| "grant_name Restart = Some ''control''"
| "grant_name Terminal = Some ''control''"
| "grant_name Tunnel = Some ''control''"
| "grant_name File = Some ''file''"
| "grant_name Clipboard = Some ''clipboard''"
| "grant_name Recording = Some ''record''"
| "grant_name _ = None"

definition grant_limits :: "GrantInfo option \<Rightarrow> Permission \<Rightarrow> bool" where
  "grant_limits g p =
     (case (g, grant_name p) of (Some g, Some n) \<Rightarrow> grant_allows g n | _ \<Rightarrow> True)"

definition configured_recording_allowed :: "LoginEnv \<Rightarrow> bool \<Rightarrow> bool" where
  "configured_recording_allowed E requested = (requested \<and> le_opt E OPT_REQUIRE_CONTROLLER_WATERMARK \<noteq> ''Y'')"

definition apply_id_permissions :: "LoginEnv \<Rightarrow> LoginConn \<Rightarrow> LoginConn" where
  "apply_id_permissions E c =
     (let profile = resolve_profile_logged (le_profiles E) (whitelist_entries (le_opt E ''id-whitelist''))
            (le_opt E ''clanto-id-permissions'') (lr_my_id (lc_lr c));
          c = c\<lparr>lc_id_profile := [], lc_perms := permission E (lc_control c), lc_forward_profile := True, lc_camera_profile := True\<rparr>;
          c = (case profile of
                 None \<Rightarrow> c
               | Some pr \<Rightarrow>
                   c\<lparr>lc_id_profile := profile_as_str (rp_profile pr), lc_perms := (\<lambda>p. lc_perms c p \<and> allows pr p),
                     lc_forward_profile := allows pr Tunnel, lc_camera_profile := allows pr Camera\<rparr>);
          c = c\<lparr>lc_perms := (\<lambda>p. lc_perms c p \<and> grant_limits (lc_grant c) p)\<rparr>
      in c\<lparr>lc_perms := (lc_perms c)(Recording := configured_recording_allowed E (lc_perms c Recording))\<rparr>)"

definition profiled_permission :: "LoginEnv \<Rightarrow> LoginConn \<Rightarrow> Permission \<Rightarrow> bool" where
  "profiled_permission E c p = (permission E (lc_control c) p \<and> (lc_id_profile c = [] \<or> lc_perms c p))"

section \<open>Model: scope of a login\<close>

text \<open>\<open>to_le_bytes\<close> of the length and of a port; every field is preceded by its length.\<close>

definition le_bytes :: "nat \<Rightarrow> nat \<Rightarrow> bytes" where
  "le_bytes k n = map (\<lambda>i. n div 256 ^ i mod 256) [0..<k]"

definition push :: "bytes \<Rightarrow> bytes" where
  "push b = le_bytes 8 (length b) @ b"

definition flag_byte :: "bool \<Rightarrow> bytes" where
  "flag_byte b = [if b then 1 else 0]"

definition scope_fields :: "LoginRequest \<Rightarrow> bytes list" where
  "scope_fields lr =
     as_bytes (lr_my_id lr) #
     (case lr_union lr of
        Some (UFileTransfer dir show_hidden) \<Rightarrow> [as_bytes ''file_transfer'', as_bytes dir, flag_byte show_hidden]
      | Some UViewCamera \<Rightarrow> [as_bytes ''view_camera'']
      | Some (UTerminal service_id) \<Rightarrow> [as_bytes ''terminal'', as_bytes service_id]
      | Some (UPortForward host port multiplex) \<Rightarrow>
          [as_bytes ''port_forward'', as_bytes host, le_bytes 4 (nat (port mod 4294967296)), flag_byte multiplex]
      | _ \<Rightarrow> [as_bytes ''remote''])"

definition login_scope_digest :: "Crypto \<Rightarrow> LoginRequest \<Rightarrow> bytes" where
  "login_scope_digest C lr = sha256 C (concat (map push (scope_fields lr)))"

definition check_login_scope :: "LoginEnv \<Rightarrow> LoginRequest \<Rightarrow> LoginConn \<Rightarrow> bool \<times> LoginConn" where
  "check_login_scope E lr c =
     (let requested = login_scope_digest (le_crypto E) lr in
      case lc_scope c of
        Some latched \<Rightarrow> if latched \<noteq> requested then (False, refuse ''Connection not allowed'' c) else (True, c)
      | None \<Rightarrow> (True, c\<lparr>lc_scope := Some requested\<rparr>))"

definition reset_session_scope_for_login :: "LoginConn \<Rightarrow> LoginConn" where
  "reset_session_scope_for_login c =
     c\<lparr>lc_file_transfer := None, lc_view_camera := False, lc_terminal := False, lc_pf_address := [], lc_terminal_persistent := False\<rparr>"

definition normalize_port_forward_target :: "string \<Rightarrow> int \<Rightarrow> string \<times> bool" where
  "normalize_port_forward_target host port =
     (let is_rdp = (host = ''RDP'' \<and> port = 0);
          (host, port) = (if is_rdp then (''localhost'', 3389) else (host, port));
          host = (if host = [] then ''localhost'' else host)
      in (host @ '':'' @ show_int port, is_rdp))"

section \<open>Model: gates\<close>

definition enable_trusted_devices :: "LoginEnv \<Rightarrow> bool" where
  "enable_trusted_devices E = le_option2bool E ''enable-trusted-devices'' (le_opt E ''enable-trusted-devices'')"

definition trusted_device :: "LoginEnv \<Rightarrow> LoginRequest \<Rightarrow> TrustedDevice list \<Rightarrow> bool" where
  "trusted_device E lr devices =
     (lr_hwid lr \<noteq> [] \<and> enable_trusted_devices E
      \<and> (case List.find (\<lambda>d. td_hwid d = lr_hwid lr) devices of
            None \<Rightarrow> False
          | Some d \<Rightarrow> \<not> le_outdate E d \<and> td_id d = lr_my_id lr \<and> td_name d = lr_my_name lr \<and> td_platform d = lr_my_platform lr))"

definition trusted_controller :: "LoginEnv \<Rightarrow> LoginRequest \<Rightarrow> string \<Rightarrow> bool" where
  "trusted_controller E lr challenge =
     verify_login (le_keys E) (le_opt E OPT_TRUSTED_CONTROLLERS) (le_id E) challenge (lr_my_id lr) (lr_device_key lr) (lr_device_sig lr)"

definition handle_login_request :: "LoginEnv \<Rightarrow> LoginRequest \<Rightarrow> LoginWorld \<Rightarrow> LoginConn \<Rightarrow> LoginConn" where
  "handle_login_request E lr w c =
     (let c = c\<lparr>lc_lr := lr, lc_options := (case lr_option lr of Some o' \<Rightarrow> Some o' | None \<Rightarrow> lc_options c)\<rparr>;
          c = (if lc_require_2fa c \<and> trusted_device E lr (lw_devices w)
               then c\<lparr>lc_two_factor := TfTrustedDevice, lc_require_2fa := False\<rparr> else c)
      in if lc_require_2fa c \<and> trusted_controller E lr (lc_challenge c)
         then c\<lparr>lc_two_factor := TfTrustedDevice, lc_require_2fa := False\<rparr> else c)"

text \<open>\<open>two_factor_store::login_block\<close>: a secret that is stored and cannot be read blocks logins.\<close>

datatype TwoFactorState = StMissing | StValid | StUnreadable

definition local_2fa :: "LoginEnv \<Rightarrow> TwoFactorState" where
  "local_2fa E = (if le_opt E ''2fa'' = [] then StMissing else if le_2fa E then StValid else StUnreadable)"

definition two_factor_block :: "LoginEnv \<Rightarrow> string option" where
  "two_factor_block E =
     (if local_2fa E = StUnreadable then Some (le_translate E ''clanto_2fa_unreadable_error'')
      else if le_opt E ''clanto-require-2fa'' = ''Y'' \<and> \<not> le_2fa E then Some (le_translate E ''clanto_2fa_policy_error'')
      else None)"

definition host_login_block :: "LoginEnv \<Rightarrow> string option" where
  "host_login_block E =
     (case Access_Hours.login_block (le_opt E) (le_weekday E) (le_hour E) (le_minute E) of
        Some reason \<Rightarrow> Some reason
      | None \<Rightarrow> two_factor_block E)"

definition conn_whitelist :: "LoginEnv \<Rightarrow> LoginWorld \<Rightarrow> LoginConn \<Rightarrow> bool \<times> LoginWorld \<times> LoginConn" where
  "conn_whitelist E w c =
     (case check_id_whitelist (le_opt E ''id-whitelist'') (guard_conn c) (le_time E) (le_time E) (lw_failures w) of
        (None, fs) \<Rightarrow> (True, w\<lparr>lw_failures := fs\<rparr>, c)
      | (Some (msg, alarm), fs) \<Rightarrow>
          (False, w\<lparr>lw_failures := fs\<rparr>,
           remember_close_reason (if alarm = Some IdWhitelist then msg else ''ID whitelist rejected by failure policy'')
             (send_login_error msg c)))"

definition clanto_check_grant :: "LoginEnv \<Rightarrow> LoginRequest \<Rightarrow> LoginWorld \<Rightarrow> LoginConn \<Rightarrow> bool \<times> LoginWorld \<times> LoginConn" where
  "clanto_check_grant E lr w c =
     (case evaluate (le_crypto E) (le_grant_json E) (le_enrollment E) (le_access_mode E) (lr_clanto_grant lr)
             (le_time E div 1000) (lw_grants w) of
        (Unmanaged, gs) \<Rightarrow> (True, w\<lparr>lw_grants := gs\<rparr>, c\<lparr>lc_grant := None\<rparr>)
      | (Grant info, gs) \<Rightarrow> (True, w\<lparr>lw_grants := gs\<rparr>, c\<lparr>lc_grant := Some info\<rparr>)
      | (Refuse _ msg _ _, gs) \<Rightarrow> (False, w\<lparr>lw_grants := gs\<rparr>, refuse (le_translate E msg) (c\<lparr>lc_grant := None\<rparr>)))"

definition posture_error :: "LoginEnv \<Rightarrow> LoginRequest \<Rightarrow> string option" where
  "posture_error E lr =
     (if configured_verification_mode (le_opt E) = ModeNone then None
      else
        (case verify_clanto_posture (le_version_number E) (le_from_str E) (le_rules_of E) (le_opt E) (lr_version lr) (lr_posture lr)
                (le_posture_response E) of
           Ok _ \<Rightarrow> None
         | Err rejection \<Rightarrow> Some (clanto_posture_login_error (le_marker E) rejection)))"

text \<open>The requested scope: the new connection, or the refusal.\<close>

definition enter_scope :: "LoginEnv \<Rightarrow> LoginRequest \<Rightarrow> LoginConn \<Rightarrow> (LoginConn, string) result" where
  "enter_scope E lr c =
     (case lr_union lr of
        Some (UFileTransfer dir show_hidden) \<Rightarrow>
          if \<not> profiled_permission E c File then Err ''No permission of file transfer''
          else Ok (c\<lparr>lc_file_transfer := Some (dir, show_hidden)\<rparr>)
      | Some UViewCamera \<Rightarrow>
          if \<not> profiled_permission E c Camera then Err ''No permission of viewing camera'' else Ok (c\<lparr>lc_view_camera := True\<rparr>)
      | Some (UTerminal service_id) \<Rightarrow>
          if \<not> profiled_permission E c Terminal then Err ''No permission of terminal''
          else if le_windows E \<and> lr_os_username lr \<noteq> [] \<and> \<not> le_installed E then Err ''Supported only in the installed version.''
          else Ok (c\<lparr>lc_terminal := True, lc_terminal_service := service_id,
            lc_terminal_persistent := (case lc_options c of Some o' \<Rightarrow> o' | None \<Rightarrow> lc_terminal_persistent c)\<rparr>)
      | Some (UPortForward host port _) \<Rightarrow>
          if \<not> profiled_permission E c Tunnel then Err ''No permission of IP tunneling''
          else Ok (c\<lparr>lc_pf_address := fst (normalize_port_forward_target host port)\<rparr>)
      | _ \<Rightarrow> if le_privacy_mode E then Err ''Someone turns on privacy mode, exit'' else Ok c)"

definition os_login_scope :: "LoginEnv \<Rightarrow> LoginConn \<Rightarrow> bool" where
  "os_login_scope E c = (le_windows E \<and> lc_terminal c \<and> trim (lr_os_username (lc_lr c)) \<noteq> [])"

section \<open>Model: authorisation\<close>

definition check_failure :: "LoginEnv \<Rightarrow> nat \<Rightarrow> FailureScope \<Rightarrow> LoginWorld \<Rightarrow> LoginConn
    \<Rightarrow> (Failure \<times> int) option \<times> LoginWorld \<times> LoginConn" where
  "check_failure E i scope w c =
     (case check_failure_with_scope (guard_conn c) i scope (le_time E) (lw_failures w) of
        ((failure, None), fs) \<Rightarrow> (Some failure, w\<lparr>lw_failures := fs\<rparr>, c)
      | ((_, Some (msg, _)), fs) \<Rightarrow> (None, w\<lparr>lw_failures := fs\<rparr>, send_login_error msg c))"

definition update_failure :: "LoginEnv \<Rightarrow> Failure \<times> int \<Rightarrow> bool \<Rightarrow> nat \<Rightarrow> FailureScope \<Rightarrow> LoginConn \<Rightarrow> LoginWorld \<Rightarrow> LoginWorld" where
  "update_failure E failure remove i scope c w =
     w\<lparr>lw_failures := update_failure_with_scope (guard_conn c) failure remove i scope (le_time E) (lw_failures w)\<rparr>"

text \<open>\<open>Some keep\<close> ends the login; \<open>None\<close> lets it go on.\<close>

definition prepare_terminal_login ::
    "LoginEnv \<Rightarrow> LoginWorld \<Rightarrow> LoginConn \<Rightarrow> bool option \<times> LoginWorld \<times> LoginConn" where
  "prepare_terminal_login E w c =
     (if \<not> lc_terminal c \<or> lc_terminal_token c then (None, w, c)
      else
        let os = os_login_scope E c;
            (failure, w, c) = (if os then check_failure E 0 TerminalOsLogin w c else (Some ((0, 0, 0), 0), w, c))
        in case failure of
             None \<Rightarrow> (Some False, w, remember_close_reason ''OS credential login blocked by failure policy'' c)
           | Some failure \<Rightarrow>
               if os \<and> \<not> le_os_gate E then (Some False, w, refuse ''Please try 1 minute later'' c)
               else
                 (case le_terminal_error E of
                    Some msg \<Rightarrow>
                      (Some False, if os then update_failure E failure False 0 TerminalOsLogin c w else w, refuse msg c)
                  | None \<Rightarrow>
                      let w = (if os then update_failure E failure True 0 TerminalOsLogin c w else w);
                          c = c\<lparr>lc_terminal_token := True\<rparr>
                      in if le_terminal_mismatch E then (Some False, w, refuse ''Terminal service user mismatch detected.'' c)
                         else (None, w, if os then c\<lparr>lc_cm_ipc := True\<rparr> else c)))"

definition is_port_forward :: "LoginConn \<Rightarrow> bool" where
  "is_port_forward c = (lc_pf_socket c \<or> lc_pf_mux c)"

definition connect_port_forward :: "LoginEnv \<Rightarrow> LoginConn \<Rightarrow> bool \<times> LoginConn" where
  "connect_port_forward E c =
     (if is_port_forward c then (True, c)
      else
        (case lr_union (lc_lr c) of
           Some (UPortForward host port multiplex) \<Rightarrow>
             if multiplex then (True, c\<lparr>lc_pf_mux := True\<rparr>)
             else
               (case normalize_port_forward_target host port of (addr, is_rdp) \<Rightarrow>
                  let c = c\<lparr>lc_pf_address := addr\<rparr> in
                  if le_connect E then (True, c\<lparr>lc_pf_socket := True\<rparr>)
                  else (False, refuse (''Failed to access remote '' @ (if is_rdp then ''RDP'' else addr)
                         @ ''. Please make sure it is reachable/open.'') c))
         | _ \<Rightarrow> (True, c)))"

definition auth_conn_type :: "LoginConn \<Rightarrow> AuthConnType" where
  "auth_conn_type c =
     (if lc_file_transfer c \<noteq> None then AFileTransfer
      else if is_port_forward c then APortForward
      else if lc_view_camera c then AViewCamera
      else if lc_terminal c then ATerminal
      else ARemote)"

definition normalize_conn_audit :: "LoginConn \<Rightarrow> LoginConn" where
  "normalize_conn_audit c = (if lc_primary c = PaClick \<or> lc_primary c = PaSwitchSides then c\<lparr>lc_two_factor := TfNone\<rparr> else c)"

definition authorize :: "LoginEnv \<Rightarrow> string \<Rightarrow> LoginWorld \<Rightarrow> LoginConn \<Rightarrow> LoginWorld \<times> LoginConn" where
  "authorize E code w c =
     (let c = c\<lparr>lc_session_code := Some code, lc_authorized := True\<rparr>;
          w = (case lc_grant c of Some g \<Rightarrow> w\<lparr>lw_active := snd (register (lc_id c) g (le_instant E) (lw_active w))\<rparr> | None \<Rightarrow> w);
          w = w\<lparr>lw_unauthorized := drop_unauthorized (lc_id c) (lw_unauthorized w), lw_temporary := le_new_password E,
                lw_failures := clear_id_whitelist_failures (guard_conn c) (lw_failures w)\<rparr>;
          ty = auth_conn_type c;
          w = w\<lparr>lw_authed := lw_authed w @ [(lc_id c, ty, session_key c)],
                lw_qos := (if ty = ARemote \<or> ty = AViewCamera
                  then on_connection_open (le_instant E) (le_opt E ''enable-abr'' \<noteq> ''N'') (lc_id c) (lw_qos w) else lw_qos w)\<rparr>;
          c = normalize_conn_audit (c\<lparr>lc_authed := Some ty\<rparr>)
      in (w, if ty = AFileTransfer \<or> ty = ATerminal \<or> ty = AViewCamera then c\<lparr>lc_perms := (lc_perms c)(Keyboard := False)\<rparr> else c))"

definition logon_response :: "LoginEnv \<Rightarrow> LoginWorld \<Rightarrow> LoginConn \<Rightarrow> bool \<times> LoginWorld \<times> LoginConn" where
  "logon_response E w c =
     (if lc_authorized c then (True, w, c)
      else
        let (recent, w, c) = (if lc_require_2fa c then is_recent_session E True w c else (True, w, c)) in
        if \<not> recent \<and> \<not> lc_from_switch c then (True, w, send_login_error REQUIRE_2FA (c\<lparr>lc_awaiting_2fa := True\<rparr>))
        else
          (case prepare_terminal_login E w (c\<lparr>lc_awaiting_2fa := False\<rparr>) of
             (Some keep, w, c) \<Rightarrow> (keep, w, c)
           | (None, w, c) \<Rightarrow>
               (case connect_port_forward E c of
                  (False, c) \<Rightarrow> (False, w, c)
                | (True, c) \<Rightarrow>
                    (case le_session_code E of
                       None \<Rightarrow> (False, w, refuse ''Session code generation failed'' c)
                     | Some code \<Rightarrow> (case authorize E code w c of (w, c) \<Rightarrow> (True, w, c))))))"

text \<open>\<open>logon_response\<close> followed by \<open>try_start_cm\<close> when the connection is kept.\<close>

definition respond_and_show :: "LoginEnv \<Rightarrow> LoginWorld \<Rightarrow> LoginConn \<Rightarrow> bool \<times> LoginWorld \<times> LoginConn" where
  "respond_and_show E w c =
     (case logon_response E w c of
        (False, w, c) \<Rightarrow> (False, w, c)
      | (True, w, c) \<Rightarrow> (True, w, try_start_cm (lc_authorized c) c))"

section \<open>Model: events\<close>

definition show_for_approval :: "LoginEnv \<Rightarrow> bool \<Rightarrow> LoginWorld \<Rightarrow> LoginConn \<Rightarrow> bool \<times> LoginWorld \<times> LoginConn" where
  "show_for_approval E tell w c =
     (case (if os_login_scope E c then prepare_terminal_login E w c else (None, w, c)) of
        (Some keep, w, c) \<Rightarrow> (keep, w, c)
      | (None, w, c) \<Rightarrow>
          let c = try_start_cm False c
          in (True, w, if tell then send_login_error LOGIN_MSG_NO_PASSWORD_ACCESS c else c))"

definition try_password :: "LoginEnv \<Rightarrow> bool \<Rightarrow> LoginWorld \<Rightarrow> LoginConn \<Rightarrow> bool \<times> LoginWorld \<times> LoginConn" where
  "try_password E allow w c =
     (case check_failure E 0 DefaultScope w c of
        (None, w, c) \<Rightarrow> (True, w, c)
      | (Some failure, w, c) \<Rightarrow>
          (case validate_password E allow w c of
             (False, w, c) \<Rightarrow>
               (True, check_update_temporary_password E False (update_failure E failure False 0 DefaultScope c w),
                try_start_cm False (send_login_error LOGIN_MSG_PASSWORD_WRONG c))
           | (True, w, c) \<Rightarrow> respond_and_show E (update_failure E failure True 0 DefaultScope c w) c))"

text \<open>From the gates on: the grant's mode of access, approval, a recent session, the password.\<close>

definition authenticate :: "LoginEnv \<Rightarrow> LoginRequest \<Rightarrow> LoginWorld \<Rightarrow> LoginConn \<Rightarrow> bool \<times> LoginWorld \<times> LoginConn" where
  "authenticate E lr w c =
     (let allow = (le_builtin E ''allow-logon-screen-password'' = ''Y'' \<and> le_logon_screen E);
          needs = map_option gi_needs (lc_grant c);
          password_required = (case needs of Some n \<Rightarrow> rq_password n | None \<Rightarrow> False)
      in if (case needs of Some n \<Rightarrow> rq_confirm n \<and> \<not> rq_password n | None \<Rightarrow> False) then (True, w, try_start_cm False c)
         else if (case needs of Some n \<Rightarrow> \<not> rq_password n | None \<Rightarrow> False) then respond_and_show E w (c\<lparr>lc_primary := PaClantoGrant\<rparr>)
         else if \<not> password_required
           \<and> (le_approve_mode E = ApproveClick \<and> \<not> allow \<or> le_approve_mode E = ApproveBoth \<and> \<not> le_has_valid_password E)
         then show_for_approval E (le_version_number E (lr_version lr) \<ge> le_version_number E ''1.2.0'') w c
         else
           (case is_recent_session E False w c of
              (True, w, c) \<Rightarrow> respond_and_show E w c
            | (False, w, c) \<Rightarrow>
                if lr_password lr = [] then show_for_approval E False w c
                else try_password E allow w c))"

definition login_request :: "LoginEnv \<Rightarrow> LoginRequest \<Rightarrow> LoginWorld \<Rightarrow> LoginConn \<Rightarrow> bool \<times> LoginWorld \<times> LoginConn" where
  "login_request E lr w c =
     (case check_login_scope E lr c of
        (False, c) \<Rightarrow> (False, w, c)
      | (True, c) \<Rightarrow>
          let c = reset_session_scope_for_login (handle_login_request E lr w (c\<lparr>lc_awaiting_2fa := False\<rparr>)) in
          (case conn_whitelist E w c of
             (False, w, c) \<Rightarrow> (False, w, c)
           | (True, w, c) \<Rightarrow>
               (case clanto_check_grant E lr w c of
                  (False, w, c) \<Rightarrow> (False, w, c)
                | (True, w, c) \<Rightarrow>
                    let c = apply_id_permissions E c in
                    (case host_login_block E of
                       Some reason \<Rightarrow> (False, w, refuse reason c)
                     | None \<Rightarrow>
                         (case posture_error E lr of
                            Some reason \<Rightarrow> (False, w, refuse reason c)
                          | None \<Rightarrow>
                              (case enter_scope E lr c of
                                 Err reason \<Rightarrow> (False, w, refuse reason c)
                               | Ok c \<Rightarrow>
                                   if \<not> le_direct_ip E (lr_username lr) \<and> lr_username lr \<noteq> le_id E
                                   then (False, w, refuse LOGIN_MSG_OFFLINE c)
                                   else if le_windows E \<and> lc_terminal c \<and> trim (lr_os_username lr) = [] \<and> le_prelogin E
                                   then (False, w, refuse ''No active console user logged on, please connect and logon first.'' c)
                                   else authenticate E lr w (if os_login_scope E c then c else c\<lparr>lc_cm_ipc := True\<rparr>)))))))"

definition auth_2fa :: "LoginEnv \<Rightarrow> string \<Rightarrow> bytes \<Rightarrow> LoginWorld \<Rightarrow> LoginConn \<Rightarrow> bool \<times> LoginWorld \<times> LoginConn" where
  "auth_2fa E code hwid w c =
     (if \<not> lc_awaiting_2fa c then (True, w, c)
      else
        (case check_failure E 1 DefaultScope w c of
           (None, w, c) \<Rightarrow> (True, w, c)
         | (Some failure, w, c) \<Rightarrow>
             if \<not> lc_require_2fa c then (True, w, c)
             else
               (case le_totp E code of
                  None \<Rightarrow> (True, w, c)
                | Some False \<Rightarrow>
                    (True, update_failure E failure False 1 DefaultScope c w, send_login_error LOGIN_MSG_2FA_WRONG c)
                | Some True \<Rightarrow>
                    let w = update_failure E failure True 1 DefaultScope c w;
                        c = c\<lparr>lc_require_2fa := False, lc_two_factor := TfTotp\<rparr>;
                        w = w\<lparr>lw_sessions := set_session_2fa (le_instant E) (session_key c) (lw_sessions w)\<rparr>
                    in (case respond_and_show E w c of
                          (False, w, c) \<Rightarrow> (False, w, c)
                        | (True, w, c) \<Rightarrow>
                            (True,
                             if hwid \<noteq> [] \<and> enable_trusted_devices E then
                               w\<lparr>lw_devices := le_add_device E \<lparr>td_hwid = hwid, td_id = lr_my_id (lc_lr c), td_name = lr_my_name (lc_lr c),
                                 td_platform = lr_my_platform (lc_lr c), td_time = le_time E\<rparr> (lw_devices w)\<rparr>
                             else w, c)))))"

text \<open>The person at the host accepts in the connection manager.\<close>

definition cm_authorize :: "LoginEnv \<Rightarrow> LoginWorld \<Rightarrow> LoginConn \<Rightarrow> bool \<times> LoginWorld \<times> LoginConn" where
  "cm_authorize E w c =
     (case logon_response E w (c\<lparr>lc_primary := PaClick, lc_require_2fa := False\<rparr>) of
        (keep, w, c) \<Rightarrow> (keep \<and> \<not> lc_pf_socket c, w, c))"

definition switch_sides_response ::
    "LoginEnv \<Rightarrow> LoginRequest option \<Rightarrow> bytes \<Rightarrow> LoginWorld \<Rightarrow> LoginConn \<Rightarrow> bool \<times> LoginWorld \<times> LoginConn" where
  "switch_sides_response E lr uuid w c =
     (case lr of
        None \<Rightarrow> (True, w, c)
      | Some lr \<Rightarrow>
          let uuids = filter (\<lambda>(_, t, _). le_instant E - t < SWITCH_SIDES_UUID_TTL) (lw_switch w);
              w = w\<lparr>lw_switch := assoc_remove (lr_my_id lr) uuids\<rparr>
          in if length uuid = 16 \<and> (case map_of uuids (lr_my_id lr) of Some (_, old) \<Rightarrow> uuid = old | None \<Rightarrow> False) then
               (if lr_union lr \<noteq> None then (False, w, refuse ''Connection not allowed'' c)
                else
                  (case conn_whitelist E w (handle_login_request E lr w (reset_session_scope_for_login c)) of
                     (False, w, c) \<Rightarrow> (False, w, c)
                   | (True, w, c) \<Rightarrow>
                       (case respond_and_show E w ((apply_id_permissions E c)\<lparr>lc_from_switch := True, lc_primary := PaSwitchSides\<rparr>) of
                          (keep, w, c) \<Rightarrow> (keep, w, if keep then c\<lparr>lc_cm_ipc := True\<rparr> else c))))
             else (True, w, c))"

datatype ConnEvent = EvLogin LoginRequest | EvAuth2fa string bytes | EvSwitch "LoginRequest option" bytes | EvAuthorize

text \<open>An authorised connection ignores login requests; the other two messages are outside every scope but the
  remote one, and close the connection where the option says so.\<close>

definition out_of_scope :: "LoginEnv \<Rightarrow> LoginWorld \<Rightarrow> LoginConn \<Rightarrow> bool \<times> LoginWorld \<times> LoginConn" where
  "out_of_scope E w c = (\<not> le_option2bool E ''allow-scope-violation-close'' (le_opt E ''allow-scope-violation-close''), w, c)"

fun conn_step :: "LoginEnv \<Rightarrow> ConnEvent \<Rightarrow> LoginWorld \<Rightarrow> LoginConn \<Rightarrow> bool \<times> LoginWorld \<times> LoginConn" where
  "conn_step E (EvLogin lr) w c = (if lc_authorized c then (True, w, c) else login_request E lr w c)"
| "conn_step E (EvAuth2fa code hwid) w c =
     (if lc_authorized c \<and> lc_authed c \<noteq> Some ARemote then out_of_scope E w c else auth_2fa E code hwid w c)"
| "conn_step E (EvSwitch lr uuid) w c =
     (if lc_authorized c \<and> lc_authed c \<noteq> Some ARemote then out_of_scope E w c else switch_sides_response E lr uuid w c)"
| "conn_step E EvAuthorize w c = cm_authorize E w c"

end
