(* ===== verification/Login_Evidence.thy ===== *)
theory Login_Evidence
  imports Conn_Login
begin

text \<open>
  What a login shows before it is authorised: which fields each operation of \<open>Conn_Login\<close> keeps, the evidence (the gates,
  a proof of the password or of the grant, the second factor) that one step needs, and its lift to runs of one connection, in
  which settings, clock and the process-wide state may change between any two steps.
\<close>

section \<open>What the operations keep\<close>

definition fixed_part :: "LoginConn \<Rightarrow> string \<times> string \<times> string \<times> nat option" where
  "fixed_part c = (lc_ip c, lc_salt c, lc_challenge c, lc_control c)"

definition login_part :: "LoginConn \<Rightarrow> LoginRequest \<times> bytes option \<times> bool \<times> bool" where
  "login_part c = (lc_lr c, lc_scope c, lc_require_2fa c, lc_from_switch c)"

definition auth_part :: "LoginConn \<Rightarrow> bool \<times> bool" where
  "auth_part c = (lc_authorized c, lc_awaiting_2fa c)"

lemmas part_defs = fixed_part_def login_part_def auth_part_def

definition kept :: "LoginConn \<Rightarrow> LoginConn \<Rightarrow> bool" where
  "kept c d \<longleftrightarrow> fixed_part d = fixed_part c \<and> login_part d = login_part c \<and> auth_part d = auth_part c"

lemma kept_trans: "kept a b \<Longrightarrow> kept b c \<Longrightarrow> kept a c"
  by (simp add: kept_def)

lemma kept_messages [simp]:
  "kept c (send_login_error m d) \<longleftrightarrow> kept c d" "kept c (remember_close_reason m d) \<longleftrightarrow> kept c d"
  "kept c (refuse m d) \<longleftrightarrow> kept c d" "kept c (try_start_cm b d) \<longleftrightarrow> kept c d" "kept c c"
  by (simp_all add: kept_def part_defs send_login_error_def remember_close_reason_def refuse_def try_start_cm_def)

lemma kept_fields [simp]:
  "kept c (d\<lparr>lc_primary := x\<rparr>) \<longleftrightarrow> kept c d" "kept c (d\<lparr>lc_two_factor := y\<rparr>) \<longleftrightarrow> kept c d"
  "kept c (d\<lparr>lc_terminal_token := b\<rparr>) \<longleftrightarrow> kept c d" "kept c (d\<lparr>lc_cm_ipc := b\<rparr>) \<longleftrightarrow> kept c d"
  "kept c (d\<lparr>lc_pf_mux := b\<rparr>) \<longleftrightarrow> kept c d" "kept c (d\<lparr>lc_pf_socket := b\<rparr>) \<longleftrightarrow> kept c d"
  "kept c (d\<lparr>lc_pf_address := a\<rparr>) \<longleftrightarrow> kept c d" "kept c (d\<lparr>lc_grant := g\<rparr>) \<longleftrightarrow> kept c d"
  "kept c (d\<lparr>lc_perms := p\<rparr>) \<longleftrightarrow> kept c d"
  by (simp_all add: kept_def part_defs)

lemma check_failure_kept: "check_failure E i scope w c = (r, w', c') \<Longrightarrow> kept c c' \<and> lw_sessions w' = lw_sessions w \<and> lw_temporary w' = lw_temporary w"
  by (auto simp: check_failure_def split: prod.splits option.splits)

lemma prepare_terminal_kept: "prepare_terminal_login E w c = (r, w', c') \<Longrightarrow> kept c c' \<and> r \<noteq> Some True"
  by (auto simp: prepare_terminal_login_def Let_def split: prod.splits option.splits if_splits dest!: check_failure_kept)

lemma connect_port_forward_kept: "connect_port_forward E c = (r, c') \<Longrightarrow> kept c c'"
  by (auto simp: connect_port_forward_def Let_def split: prod.splits option.splits if_splits LoginUnion.splits)

definition live_session :: "LoginEnv \<Rightarrow> LoginWorld \<Rightarrow> SessionKey \<Rightarrow> LoginSession \<Rightarrow> bool" where
  "live_session E w k s \<longleftrightarrow> (k, s) \<in> set (lw_sessions w) \<and> le_instant E - se_last_recv s < SESSION_TIMEOUT"

lemma is_recent_session_cases:
  assumes "is_recent_session E tfa w c = (r, w', c')"
  shows "kept c c'" "lw_sessions w' = filter (\<lambda>(_, s). le_instant E - se_last_recv s < SESSION_TIMEOUT) (lw_sessions w)"
    "lw_temporary w' = lw_temporary w" "lw_failures w' = lw_failures w"
    "r \<Longrightarrow> \<exists>s. live_session E w (session_key c) s \<and> lr_password (lc_lr c) \<noteq> []
      \<and> (if tfa then se_tfa s else validate_password_plain E c (se_random_password s))"
  using assms
  by (auto simp: is_recent_session_def live_session_def Let_def split: option.splits if_splits dest!: map_of_SomeD)

lemma authorize_cases:
  assumes "authorize E code w c = (w', c')"
  shows "fixed_part c' = fixed_part c" "login_part c' = login_part c" "lc_authorized c'" "lc_awaiting_2fa c' = lc_awaiting_2fa c"
proof -
  define d where "d = c\<lparr>lc_session_code := Some code, lc_authorized := True, lc_authed := Some (auth_conn_type (c\<lparr>lc_session_code := Some code, lc_authorized := True\<rparr>))\<rparr>"
  have "c' = normalize_conn_audit d \<or> (\<exists>p. c' = (normalize_conn_audit d)\<lparr>lc_perms := p\<rparr>)"
    using assms unfolding authorize_def Let_def d_def by (simp split: if_splits) blast+
  moreover have "normalize_conn_audit d = d \<or> (\<exists>t. normalize_conn_audit d = d\<lparr>lc_two_factor := t\<rparr>)"
    by (auto simp: normalize_conn_audit_def)
  ultimately show "fixed_part c' = fixed_part c" "login_part c' = login_part c" "lc_authorized c'" "lc_awaiting_2fa c' = lc_awaiting_2fa c"
    by (auto simp: d_def part_defs)
qed

text \<open>What a response leaves behind: an authorised connection with its second factor settled, or one waiting for it.\<close>

definition responded :: "LoginEnv \<Rightarrow> LoginWorld \<Rightarrow> LoginConn \<Rightarrow> LoginConn \<Rightarrow> bool" where
  "responded E w c d \<longleftrightarrow> fixed_part d = fixed_part c \<and> login_part d = login_part c \<and>
     (if lc_authorized d then \<not> lc_awaiting_2fa d \<and>
        (lc_require_2fa c \<longrightarrow> lc_from_switch c \<or> (\<exists>s. live_session E w (session_key c) s \<and> lr_password (lc_lr c) \<noteq> [] \<and> se_tfa s))
      else lc_awaiting_2fa d \<and> lc_require_2fa c \<and> \<not> lc_from_switch c)"

lemma logon_response_cases:
  assumes "logon_response E w c = (True, w', c')" "\<not> lc_authorized c"
  shows "responded E w c c'"
proof -
  obtain r w1 c1 where rec: "(if lc_require_2fa c then is_recent_session E True w c else (True, w, c)) = (r, w1, c1)"
    by (metis prod_cases3)
  have kept1: "kept c c1" and req: "\<not> r \<Longrightarrow> lc_require_2fa c"
    and tfa: "r \<Longrightarrow> lc_require_2fa c \<Longrightarrow> \<exists>s. live_session E w (session_key c) s \<and> lr_password (lc_lr c) \<noteq> [] \<and> se_tfa s"
    using rec is_recent_session_cases(1,5) [of E True w c r w1 c1] by (auto split: if_splits)
  show ?thesis
  proof (cases "\<not> r \<and> \<not> lc_from_switch c1")
    case True
    then show ?thesis
      using assms rec kept1 req
      by (auto simp: responded_def logon_response_def kept_def part_defs send_login_error_def)
  next
    case False
    define d where "d = c1\<lparr>lc_awaiting_2fa := False\<rparr>"
    from False assms rec obtain w2 c2 c3 code where prep: "prepare_terminal_login E w1 d = (None, w2, c2)"
      and pf: "connect_port_forward E c2 = (True, c3)" and au: "authorize E code w2 c3 = (w', c')"
      by (auto simp: logon_response_def d_def [symmetric] split: prod.splits option.splits bool.splits dest: prepare_terminal_kept)
    have "kept d c3" using prepare_terminal_kept [OF prep] connect_port_forward_kept [OF pf] kept_trans by blast
    with authorize_cases [OF au] kept1 False tfa
    show ?thesis by (auto simp: responded_def d_def kept_def part_defs)
  qed
qed

lemma respond_and_show_cases:
  assumes "respond_and_show E w c = (True, w', c')" "\<not> lc_authorized c"
  shows "responded E w c c'"
  using assms logon_response_cases [of E w c]
  by (auto simp: respond_and_show_def responded_def try_start_cm_def part_defs split: prod.splits bool.splits)

section \<open>Evidence\<close>

definition key_of :: "LoginRequest \<Rightarrow> SessionKey" where
  "key_of lr = \<lparr>sk_peer_id = lr_my_id lr, sk_name = lr_my_name lr, sk_session_id = lr_session_id lr\<rparr>"

definition password_answer :: "LoginEnv \<Rightarrow> LoginConn \<Rightarrow> LoginRequest \<Rightarrow> string \<Rightarrow> bool" where
  "password_answer E c lr pw \<longleftrightarrow> pw \<noteq> [] \<and> lr_password lr =
     sha256 (le_crypto E) (sha256 (le_crypto E) (as_bytes pw @ as_bytes (lc_salt c)) @ as_bytes (lc_challenge c))"

definition logon_screen_password :: "LoginEnv \<Rightarrow> bool" where
  "logon_screen_password E \<longleftrightarrow> le_builtin E ''allow-logon-screen-password'' = ''Y'' \<and> le_logon_screen E"

definition password_logins :: "LoginEnv \<Rightarrow> bool" where
  "password_logins E \<longleftrightarrow> \<not> (le_approve_mode E = ApproveClick \<and> \<not> logon_screen_password E
     \<or> le_approve_mode E = ApproveBoth \<and> \<not> le_has_valid_password E)"

definition password_proof :: "LoginEnv \<Rightarrow> LoginRequest \<Rightarrow> LoginWorld \<Rightarrow> LoginConn \<Rightarrow> bool" where
  "password_proof E lr w c \<longleftrightarrow> lr_password lr \<noteq> [] \<and>
     ((\<exists>s. live_session E w (key_of lr) s \<and> password_answer E c lr (se_random_password s))
      \<or> le_temporary_enabled E \<and> password_answer E c lr (lw_temporary w)
      \<or> (le_permanent_enabled E \<or> logon_screen_password E) \<and> validate_permanent E (c\<lparr>lc_lr := lr\<rparr>))"

fun primary_proof :: "LoginEnv \<Rightarrow> LoginRequest \<Rightarrow> LoginWorld \<Rightarrow> LoginConn \<Rightarrow> GrantInfo option \<Rightarrow> bool" where
  "primary_proof E lr w c (Some g) \<longleftrightarrow> \<not> rq_password (gi_needs g) \<and> \<not> rq_confirm (gi_needs g)
     \<or> rq_password (gi_needs g) \<and> password_proof E lr w c"
| "primary_proof E lr w c None \<longleftrightarrow> password_logins E \<and> password_proof E lr w c"

definition second_session :: "LoginEnv \<Rightarrow> LoginRequest \<Rightarrow> LoginWorld \<Rightarrow> bool" where
  "second_session E lr w \<longleftrightarrow> (\<exists>s. live_session E w (key_of lr) s \<and> lr_password lr \<noteq> [] \<and> se_tfa s)"

lemma session_key_of: "session_key c = key_of (lc_lr c)"
  by (simp add: session_key_def key_of_def)

lemma validate_plain_answer: "validate_password_plain E c pw \<longleftrightarrow> password_answer E c (lc_lr c) pw"
  by (auto simp: validate_password_plain_def password_answer_def verify_h1_def)

lemma password_answer_cong: "fixed_part d = fixed_part c \<Longrightarrow> password_answer E d lr pw = password_answer E c lr pw"
  by (simp add: password_answer_def fixed_part_def)

lemma validate_permanent_cong:
  assumes "fixed_part d = fixed_part c" "lc_lr d = lr"
  shows "validate_permanent E d = validate_permanent E (c\<lparr>lc_lr := lr\<rparr>)"
  using assms
  by (simp add: fixed_part_def validate_permanent_def validate_password_storage_def validate_preset_password_storage_def
      validate_password_plain_def verify_h1_def split: option.split)

lemma responded_trans:
  assumes "responded E w1 d c'" "fixed_part d = fixed_part c" "login_part d = login_part c" "lc_lr c = lr"
    "\<And>s. live_session E w1 (key_of lr) s \<Longrightarrow> se_tfa s \<Longrightarrow> live_session E w (key_of lr) s"
  shows "responded E w c c'"
  using assms by (auto simp: responded_def session_key_of login_part_def split: if_splits)

lemma update_session_live:
  assumes "(k, s) \<in> set (update_or_insert_session now key (Some pw) (Some False) ss)" "se_tfa s"
  shows "(k, s) \<in> set ss"
  using assms
  by (auto simp: update_or_insert_session_def assoc_insert_def split: option.splits if_splits dest!: set_assoc_update)

text \<open>What one step of an unauthorised login comes to.\<close>

definition login_outcome :: "LoginEnv \<Rightarrow> LoginWorld \<Rightarrow> LoginConn \<Rightarrow> LoginConn \<Rightarrow> bool" where
  "login_outcome E w c d \<longleftrightarrow> fixed_part d = fixed_part c \<and> login_part d = login_part c \<and>
     (kept c d \<or> responded E w c d \<and> primary_proof E (lc_lr c) w c (lc_grant c))"

lemma show_for_approval_kept: "show_for_approval E tell w c = (True, w', c') \<Longrightarrow> kept c c'"
  by (auto simp: show_for_approval_def Let_def split: prod.splits option.splits if_splits dest!: prepare_terminal_kept)

lemma check_update_sessions [simp]: "lw_sessions (check_update_temporary_password E b w) = lw_sessions w"
  by (simp add: check_update_temporary_password_def Let_def split_def)

lemma update_failure_sessions [simp]: "lw_sessions (update_failure E f b i sc c w) = lw_sessions w"
  by (simp add: update_failure_def)

lemma validate_password_cases:
  assumes "validate_password E allow w c = (r, w', c')"
  shows "kept c c'" "r \<Longrightarrow> le_temporary_enabled E \<and> password_answer E c (lc_lr c) (lw_temporary w)
      \<or> (le_permanent_enabled E \<or> allow) \<and> validate_permanent E c"
    "se_tfa s \<Longrightarrow> live_session E w' k s \<Longrightarrow> live_session E w k s"
  using assms update_session_live [of k s]
  by (auto simp: validate_password_def validate_plain_answer live_session_def split: if_splits)

lemma try_password_cases:
  assumes "try_password E (logon_screen_password E) w c = (True, w', c')" "\<not> lc_authorized c" "lr_password (lc_lr c) \<noteq> []"
  shows "kept c c' \<or> responded E w c c' \<and> password_proof E (lc_lr c) w c"
proof -
  obtain r w1 c1 where cf: "check_failure E 0 DefaultScope w c = (r, w1, c1)" by (metis prod_cases3)
  note k1 = check_failure_kept [OF cf]
  show ?thesis
  proof (cases r)
    case None
    then show ?thesis using assms(1) cf k1 by (simp add: try_password_def)
  next
    case (Some f)
    obtain b w2 c2 where vp: "validate_password E (logon_screen_password E) w1 c1 = (b, w2, c2)" by (metis prod_cases3)
    have k2: "kept c c2" using k1 validate_password_cases(1) [OF vp] kept_trans by blast
    show ?thesis
    proof (cases b)
      case False
      then show ?thesis using assms(1) cf Some vp k2 by (auto simp: try_password_def)
    next
      case True
      define w3 where "w3 = update_failure E f True 0 DefaultScope c2 w2"
      have "respond_and_show E w3 c2 = (True, w', c')" using assms(1) cf Some vp True by (simp add: try_password_def w3_def)
      moreover have "\<not> lc_authorized c2" using k2 assms(2) by (simp add: kept_def auth_part_def)
      ultimately have "responded E w3 c2 c'" by (rule respond_and_show_cases)
      moreover have "live_session E w k s" if "live_session E w3 k s" "se_tfa s" for k s
        using that validate_password_cases(3) [OF vp, of s k] k1 by (simp add: live_session_def w3_def)
      ultimately have "responded E w c c'" using k2 by (auto simp: kept_def intro: responded_trans)
      moreover have "password_proof E (lc_lr c) w c"
        using validate_password_cases(2) [OF vp True] assms(3) k1 validate_permanent_cong [of c1 c "lc_lr c" E]
          password_answer_cong [of c1 c E]
        by (auto simp: password_proof_def kept_def login_part_def)
      ultimately show ?thesis by blast
    qed
  qed
qed

lemma authenticate_cases:
  assumes "authenticate E (lc_lr c) w c = (True, w', c')" "\<not> lc_authorized c"
  shows "login_outcome E w c c'"
proof -
  let ?needs = "map_option gi_needs (lc_grant c)"
  obtain r w1 c1 where rs: "is_recent_session E False w c = (r, w1, c1)" by (metis prod_cases3)
  note rec = is_recent_session_cases [OF rs]
  have out: "login_outcome E w c c'" if "kept c c'" using that by (simp add: login_outcome_def kept_def)
  have out': "login_outcome E w c c'" if "responded E w c c'" "primary_proof E (lc_lr c) w c (lc_grant c)"
    using that by (simp add: login_outcome_def responded_def)
  consider (confirm) g where "lc_grant c = Some g" "rq_confirm (gi_needs g)" "\<not> rq_password (gi_needs g)"
    | (grant) g where "lc_grant c = Some g" "\<not> rq_confirm (gi_needs g)" "\<not> rq_password (gi_needs g)"
    | (click) "lc_grant c = None" "\<not> password_logins E"
    | (password) "lc_grant c = None \<and> password_logins E \<or> (\<exists>g. lc_grant c = Some g \<and> rq_password (gi_needs g))"
    by (cases "lc_grant c") auto
  then show ?thesis
  proof cases
    case confirm
    with assms(1) show ?thesis by (intro out) (auto simp: authenticate_def)
  next
    case grant
    with assms(1) have "respond_and_show E w (c\<lparr>lc_primary := PaClantoGrant\<rparr>) = (True, w', c')" by (simp add: authenticate_def)
    from respond_and_show_cases [OF this] assms(2) have "responded E w (c\<lparr>lc_primary := PaClantoGrant\<rparr>) c'" by simp
    then have "responded E w c c'" by (rule responded_trans [OF _ _ _ refl]) (simp_all add: part_defs)
    with grant show ?thesis by (intro out') simp_all
  next
    case click
    with assms(1) show ?thesis
      by (intro out show_for_approval_kept) (simp add: authenticate_def password_logins_def logon_screen_password_def)
  next
    case password
    then have pp: "primary_proof E (lc_lr c) w c (lc_grant c)" if "password_proof E (lc_lr c) w c"
      using that by auto
    have au: "authenticate E (lc_lr c) w c = (case is_recent_session E False w c of
              (True, w, d) \<Rightarrow> respond_and_show E w d
            | (False, w, d) \<Rightarrow>
                if lr_password (lc_lr c) = [] then show_for_approval E False w d
                else try_password E (logon_screen_password E) w d)"
      using password unfolding authenticate_def logon_screen_password_def [symmetric] password_logins_def by (auto simp: Let_def)
    have live: "live_session E w k s" if "live_session E w1 k s" for k s
      using that rec(2) by (simp add: live_session_def)
    have tr: "responded E w c c'" if "responded E w1 c1 c'"
      using that rec(1) live by (auto simp: kept_def intro: responded_trans)
    have na: "\<not> lc_authorized c1" "lc_lr c1 = lc_lr c" using rec(1) assms(2) by (simp_all add: kept_def part_defs)
    show ?thesis
    proof (cases r)
      case True
      then have "responded E w1 c1 c'" using assms(1) rs na au by (auto intro: respond_and_show_cases)
      moreover have "password_proof E (lc_lr c) w c"
        using rec(5) [OF True] by (auto simp: password_proof_def session_key_of validate_plain_answer)
      ultimately show ?thesis using out' pp tr by blast
    next
      case False
      show ?thesis
      proof (cases "lr_password (lc_lr c) = []")
        case True
        then have "kept c1 c'" using assms(1) rs au False show_for_approval_kept by auto
        then show ?thesis using out rec(1) kept_trans by blast
      next
        case pw: False
        then have "try_password E (logon_screen_password E) w1 c1 = (True, w', c')" using assms(1) rs au False by simp
        from try_password_cases [OF this] na pw
        have "kept c1 c' \<or> responded E w1 c1 c' \<and> password_proof E (lc_lr c) w1 c1" by simp
        moreover have "password_proof E (lc_lr c) w c" if "password_proof E (lc_lr c) w1 c1"
          using that live rec(1,3) validate_permanent_cong [of "c1\<lparr>lc_lr := lc_lr c\<rparr>" c "lc_lr c" E]
          by (auto simp: password_proof_def kept_def password_answer_cong [of c1 c] fixed_part_def)
        ultimately show ?thesis using out out' pp tr rec(1) kept_trans by blast
      qed
    qed
  qed
qed

section \<open>The gates\<close>

definition grant_of :: "LoginEnv \<Rightarrow> LoginRequest \<Rightarrow> LoginWorld \<Rightarrow> GrantInfo option option" where
  "grant_of E lr w =
     (case fst (evaluate (le_crypto E) (le_grant_json E) (le_enrollment E) (le_access_mode E) (lr_clanto_grant lr)
             (le_time E div 1000) (lw_grants w)) of
        Unmanaged \<Rightarrow> Some None
      | Grant info \<Rightarrow> Some (Some info)
      | Refuse _ _ _ _ \<Rightarrow> None)"

fun needed_permission :: "LoginUnion option \<Rightarrow> Permission option" where
  "needed_permission (Some (UFileTransfer _ _)) = Some File"
| "needed_permission (Some UViewCamera) = Some Camera"
| "needed_permission (Some (UTerminal _)) = Some Terminal"
| "needed_permission (Some (UPortForward _ _ _)) = Some Tunnel"
| "needed_permission _ = None"

definition id_profile_of :: "LoginEnv \<Rightarrow> LoginRequest \<Rightarrow> ResolvedProfile option" where
  "id_profile_of E lr = resolve_profile_logged (le_profiles E) (whitelist_entries (le_opt E ''id-whitelist''))
     (le_opt E ''clanto-id-permissions'') (lr_my_id lr)"

definition scope_permitted :: "LoginEnv \<Rightarrow> LoginRequest \<Rightarrow> LoginConn \<Rightarrow> bool" where
  "scope_permitted E lr c \<longleftrightarrow>
     (case needed_permission (lr_union lr) of
        None \<Rightarrow> \<not> le_privacy_mode E
      | Some p \<Rightarrow> permission E (lc_control c) p \<and> (case id_profile_of E lr of None \<Rightarrow> True | Some pr \<Rightarrow> allows pr p))"

definition whitelisted :: "LoginEnv \<Rightarrow> LoginRequest \<Rightarrow> LoginWorld \<Rightarrow> LoginConn \<Rightarrow> bool" where
  "whitelisted E lr w c \<longleftrightarrow> fst (check_id_whitelist (le_opt E ''id-whitelist'') \<lparr>cn_ip = lc_ip c, cn_my_id = lr_my_id lr\<rparr>
     (le_time E) (le_time E) (lw_failures w)) = None"

definition login_gates :: "LoginEnv \<Rightarrow> LoginRequest \<Rightarrow> LoginWorld \<Rightarrow> LoginConn \<Rightarrow> bool" where
  "login_gates E lr w c \<longleftrightarrow> whitelisted E lr w c \<and> grant_of E lr w \<noteq> None \<and> host_login_block E = None
     \<and> posture_error E lr = None \<and> scope_permitted E lr c \<and> (le_direct_ip E (lr_username lr) \<or> lr_username lr = le_id E)"

definition trusted_login :: "LoginEnv \<Rightarrow> LoginRequest \<Rightarrow> LoginWorld \<Rightarrow> LoginConn \<Rightarrow> bool" where
  "trusted_login E lr w c \<longleftrightarrow> trusted_device E lr (lw_devices w) \<or> trusted_controller E lr (lc_challenge c)"

lemma check_login_scope_cases:
  assumes "check_login_scope E lr c = (True, c')"
  shows "c' = c\<lparr>lc_scope := Some (login_scope_digest (le_crypto E) lr)\<rparr>"
    "lc_scope c = None \<or> lc_scope c = Some (login_scope_digest (le_crypto E) lr)"
  using assms by (auto simp: check_login_scope_def Let_def split: option.splits if_splits)

lemma handle_login_request_parts [simp]:
  "fixed_part (handle_login_request E lr w c) = fixed_part c" "auth_part (handle_login_request E lr w c) = auth_part c"
  "lc_lr (handle_login_request E lr w c) = lr" "lc_scope (handle_login_request E lr w c) = lc_scope c"
  "lc_from_switch (handle_login_request E lr w c) = lc_from_switch c"
  "lc_require_2fa (handle_login_request E lr w c) \<longleftrightarrow> lc_require_2fa c \<and> \<not> trusted_login E lr w c"
  by (auto simp: handle_login_request_def trusted_login_def part_defs Let_def)

lemma reset_parts [simp]: "kept c (reset_session_scope_for_login d) \<longleftrightarrow> kept c d"
  by (simp add: reset_session_scope_for_login_def kept_def part_defs)

lemma conn_whitelist_cases:
  assumes "conn_whitelist E w c = (True, w', c')"
  shows "c' = c" "whitelisted E (lc_lr c) w c" "\<exists>fs. w' = w\<lparr>lw_failures := fs\<rparr>"
  using assms by (auto simp: conn_whitelist_def whitelisted_def guard_conn_def split: prod.splits option.splits)

lemma clanto_check_grant_cases:
  assumes "clanto_check_grant E lr w c = (True, w', c')"
  shows "\<exists>g. grant_of E lr w = Some g \<and> c' = c\<lparr>lc_grant := g\<rparr>" "\<exists>gs. w' = w\<lparr>lw_grants := gs\<rparr>"
  using assms by (auto simp: clanto_check_grant_def grant_of_def split: prod.splits Session_Grant.Decision.splits)

lemma apply_id_permissions_kept [simp]: "kept c (apply_id_permissions E d) \<longleftrightarrow> kept c d" "lc_grant (apply_id_permissions E d) = lc_grant d"
  by (simp_all add: apply_id_permissions_def kept_def part_defs Let_def split: option.split)

lemma profile_as_str_ne: "profile_as_str p \<noteq> []"
  by (cases p) simp_all

lemma profiled_permission_cases:
  assumes "profiled_permission E (apply_id_permissions E c) p" "p \<noteq> Recording"
  shows "permission E (lc_control c) p" "id_profile_of E (lc_lr c) = Some pr \<Longrightarrow> allows pr p"
  using assms profile_as_str_ne
  by (auto simp: profiled_permission_def apply_id_permissions_def id_profile_of_def Let_def split: option.splits)

lemma enter_scope_ok:
  assumes "enter_scope E lr c = Ok c'"
  shows "kept c c'" "lc_grant c' = lc_grant c"
    "case needed_permission (lr_union lr) of None \<Rightarrow> \<not> le_privacy_mode E | Some p \<Rightarrow> p \<noteq> Recording \<and> profiled_permission E c p"
  using assms
  by (auto simp: enter_scope_def kept_def part_defs split: option.splits LoginUnion.splits if_splits)

lemma enter_scope_cases:
  assumes "enter_scope E lr (apply_id_permissions E c) = Ok c'" "lc_lr c = lr"
  shows "kept c c'" "lc_grant c' = lc_grant c" "scope_permitted E lr c"
proof -
  note ok = enter_scope_ok [OF assms(1)]
  show "kept c c'" using ok(1) kept_trans [of c "apply_id_permissions E c" c'] by simp
  show "lc_grant c' = lc_grant c" using ok(2) by simp
  show "scope_permitted E lr c"
    using ok(3) profiled_permission_cases assms(2) unfolding scope_permitted_def by (auto split: option.splits)
qed

definition login_evidence :: "LoginEnv \<Rightarrow> LoginRequest \<Rightarrow> LoginWorld \<Rightarrow> LoginConn \<Rightarrow> bool" where
  "login_evidence E lr w c \<longleftrightarrow> login_gates E lr w c \<and> (\<exists>g. grant_of E lr w = Some g \<and> primary_proof E lr w c g)"

lemma primary_proof_cong:
  assumes "fixed_part d = fixed_part c" "lw_sessions v = lw_sessions w" "lw_temporary v = lw_temporary w"
  shows "primary_proof E lr v d g = primary_proof E lr w c g"
  using assms validate_permanent_cong [of "d\<lparr>lc_lr := lr\<rparr>" c lr E]
  by (cases g) (simp_all add: password_proof_def live_session_def password_answer_def fixed_part_def)

lemma gate_congs:
  "fixed_part d = fixed_part c \<Longrightarrow> whitelisted E lr w d = whitelisted E lr w c"
  "fixed_part d = fixed_part c \<Longrightarrow> scope_permitted E lr d = scope_permitted E lr c"
  "lw_grants v = lw_grants w \<Longrightarrow> grant_of E lr v = grant_of E lr w"
  by (simp_all add: whitelisted_def scope_permitted_def grant_of_def fixed_part_def cong: option.case_cong)

lemma login_request_cases:
  assumes "login_request E lr w c = (True, w', c')" "\<not> lc_authorized c" "\<not> lc_from_switch c"
  shows "fixed_part c' = fixed_part c" "\<not> lc_from_switch c'"
    "lc_scope c = None \<or> lc_scope c = Some (login_scope_digest (le_crypto E) lr)"
    "lc_scope c' = Some (login_scope_digest (le_crypto E) lr)"
    "lc_require_2fa c' = (lc_require_2fa c \<and> \<not> trusted_login E lr w c)"
    "lc_authorized c' \<or> lc_awaiting_2fa c' \<Longrightarrow> login_evidence E lr w c"
    "lc_authorized c' \<Longrightarrow> \<not> lc_require_2fa c' \<or> second_session E lr w"
proof -
  obtain b1 c1 where sc: "check_login_scope E lr c = (b1, c1)" by force
  define h where "h = handle_login_request E lr w (c1\<lparr>lc_awaiting_2fa := False\<rparr>)"
  define c2 where "c2 = reset_session_scope_for_login h"
  obtain b2 w3 c3 where wl: "conn_whitelist E w c2 = (b2, w3, c3)" by (metis prod_cases3)
  obtain b3 w4 c4 where gr: "clanto_check_grant E lr w3 c3 = (b3, w4, c4)" by (metis prod_cases3)
  have b: b1 b2 b3
    using assms(1) sc wl gr by (auto simp: login_request_def Let_def h_def c2_def split: bool.splits)
  obtain c5 where es: "enter_scope E lr (apply_id_permissions E c4) = Ok c5"
    and none: "host_login_block E = None" "posture_error E lr = None" "le_direct_ip E (lr_username lr) \<or> lr_username lr = le_id E"
    and au: "authenticate E lr w4 (if os_login_scope E c5 then c5 else c5\<lparr>lc_cm_ipc := True\<rparr>) = (True, w', c')"
    using assms(1) sc wl gr b
    by (auto simp: login_request_def Let_def h_def c2_def split: option.splits result.splits if_splits)
  note scope = check_login_scope_cases [OF sc [unfolded eqTrueI [OF b(1)]]]
  note white = conn_whitelist_cases [OF wl [unfolded eqTrueI [OF b(2)]]]
  note granted = clanto_check_grant_cases [OF gr [unfolded eqTrueI [OF b(3)]]]
  have k: "kept h c4" using granted white by (auto simp: c2_def)
  have lr: "lc_lr c4 = lr" using k by (simp add: kept_def h_def login_part_def)
  note entered = enter_scope_cases [OF es lr]
  define c6 where "c6 = (if os_login_scope E c5 then c5 else c5\<lparr>lc_cm_ipc := True\<rparr>)"
  have k6: "kept h c6" "lc_grant c6 = lc_grant c4" using k entered kept_trans by (auto simp: c6_def)
  have h: "fixed_part h = fixed_part c" "lc_lr h = lr" "lc_scope h = Some (login_scope_digest (le_crypto E) lr)"
    "\<not> lc_from_switch h" "lc_require_2fa h = (lc_require_2fa c \<and> \<not> trusted_login E lr w c)" "auth_part h = (False, False)"
    using scope(1) assms(2,3) by (simp_all add: h_def trusted_login_def) (simp_all add: part_defs)
  have out: "login_outcome E w4 c6 c'"
    using authenticate_cases [of E c6 w4 w' c'] au k6 h by (simp add: c6_def kept_def part_defs)
  show "fixed_part c' = fixed_part c" "\<not> lc_from_switch c'"
    "lc_scope c = None \<or> lc_scope c = Some (login_scope_digest (le_crypto E) lr)"
    "lc_scope c' = Some (login_scope_digest (le_crypto E) lr)"
    "lc_require_2fa c' = (lc_require_2fa c \<and> \<not> trusted_login E lr w c)"
    using out k6 h scope(2) by (simp_all add: login_outcome_def kept_def login_part_def)
  have w4: "lw_sessions w4 = lw_sessions w" "lw_temporary w4 = lw_temporary w" "lw_grants w3 = lw_grants w"
    using white(3) granted(2) by auto
  have "kept h c2" by (simp add: c2_def)
  then have "whitelisted E lr w c" "scope_permitted E lr c"
    using white(2) entered(3) k h gate_congs(1) [of c2 c E lr w] gate_congs(2) [of c4 c E lr]
    by (simp_all add: kept_def login_part_def)
  moreover obtain g where g: "grant_of E lr w = Some g" "lc_grant c4 = g"
    using granted(1) gate_congs(3) [OF w4(3)] by auto
  ultimately have gates: "login_gates E lr w c" using none by (simp add: login_gates_def)
  have resp: "responded E w4 c6 c' \<and> primary_proof E lr w4 c6 (lc_grant c4)" if "lc_authorized c' \<or> lc_awaiting_2fa c'"
    using out that k6 h by (auto simp: login_outcome_def kept_def part_defs)
  show "login_evidence E lr w c" if "lc_authorized c' \<or> lc_awaiting_2fa c'"
    using resp [OF that] gates g k6 h w4 primary_proof_cong [of c6 c w4 w E lr g]
    by (auto simp: login_evidence_def kept_def)
  show "\<not> lc_require_2fa c' \<or> second_session E lr w" if "lc_authorized c'"
    using resp that k6 h w4
    by (auto simp: responded_def second_session_def session_key_of live_session_def kept_def login_part_def)
qed

section \<open>Runs of one connection\<close>

text \<open>Each step has its own environment and its own process-wide state, so that every interleaving with other
  connections, settings and clocks is a run. A closed connection makes no further step.\<close>

type_synonym ConnStep = "LoginEnv \<times> ConnEvent \<times> LoginWorld"

fun conn_run :: "ConnStep list \<Rightarrow> LoginConn \<Rightarrow> LoginConn option" where
  "conn_run [] c = Some c"
| "conn_run ((E, ev, w) # steps) c = (case conn_step E ev w c of (keep, _, c') \<Rightarrow> if keep then conn_run steps c' else None)"

definition fresh :: "LoginConn \<Rightarrow> bool" where
  "fresh c \<longleftrightarrow> \<not> lc_authorized c \<and> \<not> lc_awaiting_2fa c \<and> \<not> lc_from_switch c"

fun evident_login :: "LoginConn \<Rightarrow> ConnStep \<Rightarrow> bool" where
  "evident_login c (E, EvLogin lr, w) \<longleftrightarrow> login_evidence E lr w c"
| "evident_login c _ \<longleftrightarrow> False"

fun trusted_step :: "LoginConn \<Rightarrow> ConnStep \<Rightarrow> bool" where
  "trusted_step c (E, EvLogin lr, w) \<longleftrightarrow> trusted_login E lr w c"
| "trusted_step c _ \<longleftrightarrow> False"

definition switch_proof :: "LoginEnv \<Rightarrow> LoginRequest \<Rightarrow> bytes \<Rightarrow> LoginWorld \<Rightarrow> LoginConn \<Rightarrow> bool" where
  "switch_proof E lr uuid w c \<longleftrightarrow> length uuid = 16 \<and> lr_union lr = None \<and> whitelisted E lr w c
     \<and> (\<exists>t. (lr_my_id lr, t, uuid) \<in> set (lw_switch w) \<and> le_instant E - t < SWITCH_SIDES_UUID_TTL)"

fun authorised_by :: "LoginConn \<Rightarrow> ConnStep list \<Rightarrow> ConnStep \<Rightarrow> bool" where
  "authorised_by c pre (E, EvLogin lr, w) \<longleftrightarrow> login_evidence E lr w c
     \<and> (lc_require_2fa c \<longrightarrow> second_session E lr w \<or> list_ex (trusted_step c) (pre @ [(E, EvLogin lr, w)]))"
| "authorised_by c pre (E, EvAuth2fa code hwid, w) \<longleftrightarrow> le_totp E code = Some True \<and> list_ex (evident_login c) pre"
| "authorised_by c pre (E, EvSwitch lr uuid, w) \<longleftrightarrow> (case lr of None \<Rightarrow> False | Some lr \<Rightarrow> switch_proof E lr uuid w c)"
| "authorised_by c pre (E, EvAuthorize, w) \<longleftrightarrow> True"

lemma auth_2fa_cases:
  assumes "auth_2fa E code hwid w c = (True, w', c')" "\<not> lc_authorized c"
  shows "kept c c' \<or> fixed_part c' = fixed_part c \<and> lc_authorized c' \<and> lc_awaiting_2fa c \<and> le_totp E code = Some True"
proof -
  obtain r w1 c1 where cf: "check_failure E 1 DefaultScope w c = (r, w1, c1)" by (metis prod_cases3)
  have k1: "kept c c1" using check_failure_kept [OF cf] by simp
  show ?thesis
  proof (cases "lc_awaiting_2fa c \<and> r \<noteq> None \<and> lc_require_2fa c1 \<and> le_totp E code = Some True")
    case False
    then show ?thesis using assms(1) cf k1 by (auto simp: auth_2fa_def split: option.splits bool.splits if_splits)
  next
    case True
    define d where "d = c1\<lparr>lc_require_2fa := False, lc_two_factor := TfTotp\<rparr>"
    obtain f where r: "r = Some f" using True by auto
    define w2 where "w2 = (let w = update_failure E f True 1 DefaultScope c1 w1
      in w\<lparr>lw_sessions := set_session_2fa (le_instant E) (session_key d) (lw_sessions w)\<rparr>)"
    obtain w3 where "respond_and_show E w2 d = (True, w3, c')"
      using assms(1) cf r True by (auto simp: auth_2fa_def Let_def d_def [symmetric] w2_def split: prod.splits bool.splits)
    moreover have "\<not> lc_authorized d" using k1 assms(2) by (simp add: d_def kept_def auth_part_def)
    ultimately have "responded E w2 d c'" by (rule respond_and_show_cases)
    then show ?thesis using True k1 by (auto simp: responded_def d_def kept_def part_defs split: if_splits)
  qed
qed

lemma cm_authorize_cases:
  assumes "cm_authorize E w c = (True, w', c')" "\<not> lc_authorized c"
  shows "lc_authorized c' \<and> fixed_part c' = fixed_part c"
proof -
  let ?d = "c\<lparr>lc_primary := PaClick, lc_require_2fa := False\<rparr>"
  from assms(1) have "logon_response E w ?d = (True, w', c')" by (auto simp: cm_authorize_def split: prod.splits)
  from logon_response_cases [OF this] assms(2) show ?thesis
    by (auto simp: responded_def part_defs split: if_splits)
qed

lemma switch_sides_cases:
  assumes "switch_sides_response E lr uuid w c = (True, w', c')" "\<not> lc_authorized c"
  shows "c' = c \<or> lc_authorized c' \<and> fixed_part c' = fixed_part c \<and> (\<exists>r. lr = Some r \<and> switch_proof E r uuid w c)"
proof (cases lr)
  case None
  then show ?thesis using assms(1) by (simp add: switch_sides_response_def)
next
  case (Some r)
  define uuids where "uuids = filter (\<lambda>(_, t, _). le_instant E - t < SWITCH_SIDES_UUID_TTL) (lw_switch w)"
  define w1 where "w1 = w\<lparr>lw_switch := assoc_remove (lr_my_id r) uuids\<rparr>"
  define d where "d = handle_login_request E r w1 (reset_session_scope_for_login c)"
  note ev = assms(1) [unfolded switch_sides_response_def Some option.case Let_def, folded uuids_def, folded w1_def, folded d_def]
  show ?thesis
  proof (cases "length uuid = 16 \<and> (\<exists>t. map_of uuids (lr_my_id r) = Some (t, uuid))")
    case False
    then show ?thesis using ev by (auto split: option.splits if_splits)
  next
    case True
    then obtain t where t: "map_of uuids (lr_my_id r) = Some (t, uuid)" by auto
    obtain b w2 d2 where wl: "conn_whitelist E w1 d = (b, w2, d2)" by (metis prod_cases3)
    have b: b and u: "lr_union r = None" using ev True t wl by (auto split: if_splits bool.splits)
    note white = conn_whitelist_cases [OF wl [unfolded eqTrueI [OF b]]]
    define e where "e = (apply_id_permissions E d)\<lparr>lc_from_switch := True, lc_primary := PaSwitchSides\<rparr>"
    obtain w3 c3 where rs: "respond_and_show E w2 e = (True, w3, c3)" and c': "c' = c3\<lparr>lc_cm_ipc := True\<rparr>"
      using ev True t wl b u white(1) by (auto simp: e_def split: prod.splits if_splits)
    have kd: "fixed_part d = fixed_part c" "auth_part d = auth_part c" "lc_lr d = r"
      using reset_parts [of c c] by (simp_all add: d_def kept_def)
    have "kept d (apply_id_permissions E d)" by simp
    then have e: "\<not> lc_authorized e" "lc_from_switch e" "fixed_part e = fixed_part c"
      using kd assms(2) by (simp_all add: e_def kept_def) (simp_all add: part_defs)
    from respond_and_show_cases [OF rs e(1)] e have "lc_authorized c'" "fixed_part c' = fixed_part c"
      by (auto simp: responded_def c' fixed_part_def split: if_splits)
    moreover have "whitelisted E r w c"
      using white(2) kd gate_congs(1) [OF kd(1), of E r w1] by (simp add: whitelisted_def w1_def)
    moreover have "(lr_my_id r, t, uuid) \<in> set uuids" using t by (rule map_of_SomeD)
    ultimately show ?thesis using Some True u by (auto simp: switch_proof_def uuids_def)
  qed
qed

text \<open>What holds before a connection is authorised.\<close>

definition pending :: "LoginConn \<Rightarrow> ConnStep list \<Rightarrow> LoginConn \<Rightarrow> bool" where
  "pending c0 pre c \<longleftrightarrow> fixed_part c = fixed_part c0 \<and> \<not> lc_authorized c \<and> \<not> lc_from_switch c
     \<and> (lc_awaiting_2fa c \<longrightarrow> list_ex (evident_login c0) pre)
     \<and> (lc_require_2fa c0 \<longrightarrow> lc_require_2fa c \<or> list_ex (trusted_step c0) pre)"

lemma evidence_cong:
  assumes "fixed_part d = fixed_part c"
  shows "login_evidence E lr w d = login_evidence E lr w c" "trusted_login E lr w d = trusted_login E lr w c"
    "switch_proof E lr uuid w d = switch_proof E lr uuid w c"
  using assms gate_congs(1,2) [OF assms, of E lr] primary_proof_cong [OF assms refl refl, of E lr w]
  by (simp_all add: login_evidence_def login_gates_def trusted_login_def switch_proof_def fixed_part_def)

lemma pending_kept: "pending c0 pre c \<Longrightarrow> kept c d \<Longrightarrow> pending c0 (pre @ later) d"
  by (auto simp: pending_def kept_def part_defs)

lemma pending_step:
  assumes "pending c0 pre c" "conn_step E ev w c = (True, w', c')"
  shows "if lc_authorized c' then authorised_by c0 pre (E, ev, w) else pending c0 (pre @ [(E, ev, w)]) c'"
proof -
  have c: "fixed_part c = fixed_part c0" "\<not> lc_authorized c" "\<not> lc_from_switch c" using assms(1) by (simp_all add: pending_def)
  note cong = evidence_cong [OF c(1)]
  show ?thesis
  proof (cases ev)
    case (EvLogin lr)
    with assms c have "login_request E lr w c = (True, w', c')" by simp
    note req = login_request_cases [OF this c(2,3)]
    show ?thesis
      using req c assms(1) by (auto simp: EvLogin cong pending_def)
  next
    case (EvAuth2fa code hwid)
    with assms c have "auth_2fa E code hwid w c = (True, w', c')" by simp
    from auth_2fa_cases [OF this c(2)] pending_kept [OF assms(1)] assms(1) c
    show ?thesis by (auto simp: EvAuth2fa pending_def kept_def auth_part_def)
  next
    case (EvSwitch lr uuid)
    with assms c have "switch_sides_response E lr uuid w c = (True, w', c')" by simp
    from switch_sides_cases [OF this c(2)] pending_kept [OF assms(1), of c] c show ?thesis
      by (auto simp: EvSwitch cong)
  next
    case EvAuthorize
    with assms c have "cm_authorize E w c = (True, w', c')" by simp
    from cm_authorize_cases [OF this c(2)] show ?thesis by (simp add: EvAuthorize)
  qed
qed

lemma pending_run:
  assumes "pending c0 pre c" "conn_run steps c = Some d" "lc_authorized d"
  shows "\<exists>mid st post. steps = mid @ st # post \<and> authorised_by c0 (pre @ mid) st"
  using assms
proof (induction steps arbitrary: pre c)
  case Nil
  then show ?case by (simp add: pending_def)
next
  case (Cons st steps)
  obtain E ev w where st: "st = (E, ev, w)" by (metis prod_cases3)
  obtain k w' c' where step: "conn_step E ev w c = (k, w', c')" by (metis prod_cases3)
  with Cons.prems(2) st have k: "k = True" and run: "conn_run steps c' = Some d" by (auto split: if_splits)
  note next_state = pending_step [OF Cons.prems(1) step [unfolded k]]
  show ?case
  proof (cases "lc_authorized c'")
    case True
    with next_state st have "st # steps = [] @ st # steps \<and> authorised_by c0 (pre @ []) st" by simp
    then show ?thesis by blast
  next
    case False
    with next_state st have "pending c0 (pre @ [st]) c'" by simp
    from Cons.IH [OF this run Cons.prems(3)] obtain mid s post
      where "steps = mid @ s # post" "authorised_by c0 ((pre @ [st]) @ mid) s" by blast
    then have "st # steps = (st # mid) @ s # post \<and> authorised_by c0 (pre @ st # mid) s" by simp
    then show ?thesis by blast
  qed
qed

end
