(* ===== verification/Login_Claims.thy ===== *)
theory Login_Claims
  imports Login_Evidence
begin

text \<open>
  The properties of the login, with a concrete host on which they are applied: the evidence behind an authorisation, the
  scope latched by the first request (length-prefixed encoding and its injectivity), and what a login does not ask.
\<close>

section \<open>The latched scope\<close>

lemma le_bytes_Suc: "le_bytes (Suc k) n = le_bytes k n @ [n div 256 ^ k mod 256]"
  by (simp add: le_bytes_def)

lemma length_le_bytes [simp]: "length (le_bytes k n) = k"
  by (simp add: le_bytes_def)

lemma le_bytes_mod: "le_bytes k n = le_bytes k m \<Longrightarrow> n mod 256 ^ k = m mod 256 ^ k"
proof (induction k)
  case (Suc k)
  have split: "x mod 256 ^ Suc k = 256 ^ k * (x div 256 ^ k mod 256) + x mod 256 ^ k" for x :: nat
    by (simp only: power_Suc2 mod_mult2_eq)
  from Suc.prems have "le_bytes k n = le_bytes k m" "n div 256 ^ k mod 256 = m div 256 ^ k mod 256"
    by (simp_all add: le_bytes_Suc)
  with Suc.IH show ?case by (simp only: split)
qed simp

lemma le_bytes_inj: "n < 256 ^ k \<Longrightarrow> m < 256 ^ k \<Longrightarrow> le_bytes k n = le_bytes k m \<longleftrightarrow> n = m"
  using le_bytes_mod [of k n m] by auto

lemma push_split:
  assumes "length a < 2 ^ 64" "length b < 2 ^ 64" "push a @ r = push b @ s"
  shows "a = b" "r = s"
proof -
  from assms(3) have "le_bytes 8 (length a) = le_bytes 8 (length b)" and rest: "a @ r = b @ s"
    by (simp_all add: push_def)
  then have "length a = length b" using assms(1,2) le_bytes_inj [of "length a" 8 "length b"] by simp
  with rest show "a = b" "r = s" by simp_all
qed

lemma push_not_Nil [simp]: "push b \<noteq> []"
proof -
  have "length (push b) = 8 + length b" by (simp add: push_def)
  then show ?thesis by (cases "push b") simp_all
qed

lemma pushes_inj:
  assumes "\<forall>x\<in>set xs \<union> set ys. length x < 2 ^ 64" "concat (map push xs) = concat (map push ys)"
  shows "xs = ys"
  using assms
proof (induction xs arbitrary: ys)
  case Nil
  then show ?case by (cases ys) simp_all
next
  case (Cons x xs)
  obtain y ys' where ys: "ys = y # ys'" using Cons.prems(2) by (cases ys) simp_all
  have "length x < 2 ^ 64" "length y < 2 ^ 64" "push x @ concat (map push xs) = push y @ concat (map push ys')"
    using Cons.prems by (simp_all only: ys) auto
  note eq = push_split [OF this]
  have "\<forall>z\<in>set xs \<union> set ys'. length z < 2 ^ 64" using Cons.prems(1) by (simp only: ys) auto
  from Cons.IH [OF this eq(2)] eq(1) show ?case by (simp only: ys)
qed

text \<open>The identity and the scope that a request asks for; an unknown scope is a remote session.\<close>

definition scope_of :: "LoginRequest \<Rightarrow> string \<times> LoginUnion option" where
  "scope_of lr = (lr_my_id lr, case lr_union lr of Some UUnknown \<Rightarrow> None | u \<Rightarrow> u)"

text \<open>What the types of the source guarantee: 32-bit ports and 64-bit lengths.\<close>

definition request_ok :: "LoginRequest \<Rightarrow> bool" where
  "request_ok lr \<longleftrightarrow> (\<forall>x\<in>set (scope_fields lr). length x < 2 ^ 64)
     \<and> (case lr_union lr of Some (UPortForward _ port _) \<Rightarrow> - (2 ^ 31) \<le> port \<and> port < 2 ^ 31 | _ \<Rightarrow> True)"

lemma port_bytes_inj:
  assumes "- (2 ^ 31) \<le> p" "p < 2 ^ 31" "- (2 ^ 31) \<le> q" "q < (2 ^ 31 :: int)"
    "le_bytes 4 (nat (p mod 4294967296)) = le_bytes 4 (nat (q mod 4294967296))"
  shows "p = q"
proof -
  have "nat (p mod 4294967296) = nat (q mod 4294967296)"
    using assms(5) le_bytes_inj [of "nat (p mod 4294967296)" 4 "nat (q mod 4294967296)"] by simp
  then have "p mod 4294967296 = q mod 4294967296" by simp
  then have "(p + 2147483648) mod 4294967296 = (q + 2147483648) mod 4294967296" by (rule mod_add_cong) simp
  then show ?thesis using assms(1-4) by simp
qed

lemma flag_byte_inj [simp]: "flag_byte a = flag_byte b \<longleftrightarrow> a = b"
  by (simp add: flag_byte_def)

lemma scope_fields_inj:
  assumes "request_ok a" "request_ok b" "scope_fields a = scope_fields b"
  shows "scope_of a = scope_of b"
  using assms port_bytes_inj
  by (auto simp: request_ok_def scope_fields_def scope_of_def as_bytes_inj simp del: as_bytes_simps
      split: option.splits LoginUnion.splits)

lemma digest_same_scope:
  assumes "request_ok a" "request_ok b" "login_scope_digest C a = login_scope_digest C b"
  shows "scope_of a = scope_of b \<or> (\<exists>x y. x = concat (map push (scope_fields a)) \<and> y = concat (map push (scope_fields b))
    \<and> x \<noteq> y \<and> sha256 C x = sha256 C y)"
  using assms scope_fields_inj pushes_inj [of "scope_fields a" "scope_fields b"]
  by (auto simp: login_scope_digest_def request_ok_def)

lemma respond_and_show_authorized: "lc_authorized c \<Longrightarrow> respond_and_show E w c = (True, w, try_start_cm True c)"
  by (simp add: respond_and_show_def logon_response_def)

lemma kept_authorized: "kept c d \<Longrightarrow> lc_authorized d = lc_authorized c"
  by (simp add: kept_def auth_part_def)

lemma conn_step_authorized:
  assumes "conn_step E ev w c = (k, w', c')" "lc_authorized c"
  shows "lc_authorized c'"
proof (cases ev)
  case (EvAuth2fa code hwid)
  have "lc_authorized c'" if "auth_2fa E code hwid w c = (k, w', c')"
  proof -
    obtain r w1 c1 where cf: "check_failure E 1 DefaultScope w c = (r, w1, c1)" by (metis prod_cases3)
    have a: "lc_authorized c1" "lc_authorized (c1\<lparr>lc_require_2fa := False, lc_two_factor := TfTotp\<rparr>)"
      using check_failure_kept [OF cf] assms(2) kept_authorized [of c c1] by simp_all
    then show ?thesis
      using that cf assms(2) respond_and_show_authorized [OF a(2)]
      by (auto simp: auth_2fa_def Let_def try_start_cm_def send_login_error_def split: option.splits bool.splits if_splits)
  qed
  then show ?thesis using assms by (auto simp: EvAuth2fa out_of_scope_def split: if_splits)
next
  case (EvSwitch lr uuid)
  have "lc_authorized c'" if sw: "switch_sides_response E lr uuid w c = (k, w', c')"
  proof (cases lr)
    case (Some r)
    have refuse: "lc_authorized (refuse m x) = lc_authorized x"
      "lc_authorized (remember_close_reason m (send_login_error n x)) = lc_authorized x" for m n x
      by (simp_all add: refuse_def send_login_error_def remember_close_reason_def)
    have wl: "lc_authorized c2" if "conn_whitelist E v d = (b, w2, c2)" "lc_authorized d" for b v w2 d c2
      using that by (auto simp: conn_whitelist_def refuse split: prod.splits option.splits)
    have d: "lc_authorized (handle_login_request E r v (reset_session_scope_for_login c))" for v
      using handle_login_request_parts(2) [of E r v "reset_session_scope_for_login c"] reset_parts [of c c] assms(2)
      by (simp add: kept_def auth_part_def)
    have ap: "lc_authorized (apply_id_permissions E x) = lc_authorized x" for x
      using apply_id_permissions_kept(1) [of x E x] by (simp add: kept_def auth_part_def)
    show ?thesis
      using sw wl d assms(2)
      by (auto simp: switch_sides_response_def Some Let_def refuse respond_and_show_authorized ap try_start_cm_def
          split: option.splits if_splits prod.splits bool.splits)
  qed (use sw assms(2) in \<open>simp add: switch_sides_response_def\<close>)
  then show ?thesis using assms by (auto simp: EvSwitch out_of_scope_def split: if_splits)
qed (use assms in \<open>auto simp: cm_authorize_def logon_response_def split: if_splits\<close>)

lemma pending_scope:
  assumes "pending c0 pre c" "conn_step E ev w c = (True, w', c')" "\<not> lc_authorized c'" "lc_scope c = Some x"
  shows "lc_scope c' = Some x"
proof -
  have c: "\<not> lc_authorized c" "\<not> lc_from_switch c" using assms(1) by (simp_all add: pending_def)
  show ?thesis
  proof (cases ev)
    case (EvLogin lr)
    with assms c have "login_request E lr w c = (True, w', c')" by simp
    from login_request_cases(3,4) [OF this c] assms(4) show ?thesis by auto
  next
    case (EvAuth2fa code hwid)
    with assms c have "auth_2fa E code hwid w c = (True, w', c')" by simp
    from auth_2fa_cases [OF this c(1)] assms(3,4) show ?thesis by (auto simp: kept_def login_part_def)
  next
    case (EvSwitch lr uuid)
    with assms c have "switch_sides_response E lr uuid w c = (True, w', c')" by simp
    from switch_sides_cases [OF this c(1)] assms(3,4) show ?thesis by auto
  next
    case EvAuthorize
    with assms c have "cm_authorize E w c = (True, w', c')" by simp
    from cm_authorize_cases [OF this c(1)] assms(3) show ?thesis by simp
  qed
qed

lemma conn_run_authorized: "conn_run steps c = Some d \<Longrightarrow> lc_authorized c \<Longrightarrow> lc_authorized d"
  by (induction steps c rule: conn_run.induct) (auto split: if_splits prod.splits dest: conn_step_authorized)

lemma conn_run_append: "conn_run (xs @ ys) c = Option.bind (conn_run xs c) (conn_run ys)"
  by (induction xs c rule: conn_run.induct) (auto split: prod.splits)

lemma conn_run_unauthorized:
  assumes "pending c0 pre c" "conn_run steps c = Some d" "\<not> lc_authorized d"
  shows "pending c0 (pre @ steps) d \<and> (\<forall>x. lc_scope c = Some x \<longrightarrow> lc_scope d = Some x)"
  using assms
proof (induction steps arbitrary: pre c)
  case (Cons st steps)
  obtain E ev w where st: "st = (E, ev, w)" by (metis prod_cases3)
  obtain k w' c' where step: "conn_step E ev w c = (k, w', c')" by (metis prod_cases3)
  with Cons.prems(2) st have k: "k = True" and run: "conn_run steps c' = Some d" by (auto split: if_splits)
  have na: "\<not> lc_authorized c'"
    using conn_run_authorized [OF run] Cons.prems(3) by blast
  then have "pending c0 (pre @ [st]) c'" using pending_step [OF Cons.prems(1) step [unfolded k]] st by simp
  from Cons.IH [OF this run Cons.prems(3)] pending_scope [OF Cons.prems(1) step [unfolded k] na] show ?case by auto
qed simp

section \<open>Logins that are accepted\<close>

lemma logon_response_remote:
  assumes "\<not> lc_authorized c" "\<not> lc_require_2fa c \<or> lc_from_switch c" "\<not> lc_terminal c" "lr_union (lc_lr c) = None"
    "le_session_code E = Some code"
  shows "\<exists>w' c'. respond_and_show E w c = (True, w', c') \<and> lc_authorized c'"
proof -
  obtain r w1 c1 where rec: "(if lc_require_2fa c then is_recent_session E True w c else (True, w, c)) = (r, w1, c1)"
    by (metis prod_cases3)
  have k: "kept c c1" "lc_terminal c1 = lc_terminal c"
    using rec is_recent_session_cases(1) [of E True w c] by (auto simp: is_recent_session_def Let_def split: if_splits option.splits)
  then have "\<not> (\<not> r \<and> \<not> lc_from_switch c1)" using rec assms(2) by (auto simp: kept_def login_part_def split: if_splits)
  moreover have "connect_port_forward E (c1\<lparr>lc_awaiting_2fa := False\<rparr>) = (True, c1\<lparr>lc_awaiting_2fa := False\<rparr>)"
    using k assms(4) by (simp add: connect_port_forward_def is_port_forward_def kept_def login_part_def)
  ultimately show ?thesis
    using assms(1,3,5) rec k authorize_cases(3) [of E code w1 "c1\<lparr>lc_awaiting_2fa := False\<rparr>"]
    by (auto simp: respond_and_show_def logon_response_def prepare_terminal_login_def try_start_cm_def split: prod.splits)
qed

lemma recent_session_else: "is_recent_session E tfa w c = (False, w', c') \<Longrightarrow> c' = c \<and> (\<exists>ss. w' = w\<lparr>lw_sessions := ss\<rparr>)"
  by (auto simp: is_recent_session_def Let_def split: option.splits if_splits)

lemma check_failure_passes:
  assumes "fst (check_failure E i sc w c) \<noteq> None" "lw_failures v = lw_failures w"
  shows "\<exists>f fs. check_failure E i sc v c = (Some f, v\<lparr>lw_failures := fs\<rparr>, c)"
  using assms by (auto simp: check_failure_def split: prod.splits option.splits)

lemma password_accepted:
  assumes "lc_grant c = None \<and> password_logins E \<or> (\<exists>g. lc_grant c = Some g \<and> rq_password (gi_needs g))"
    "lr_password (lc_lr c) \<noteq> []" "le_temporary_enabled E" "password_answer E c (lc_lr c) (lw_temporary w)"
    "fst (check_failure E 0 DefaultScope w c) \<noteq> None"
    "\<not> lc_authorized c" "\<not> lc_require_2fa c" "\<not> lc_terminal c" "lr_union (lc_lr c) = None" "le_session_code E = Some code"
  shows "\<exists>w' c'. authenticate E (lc_lr c) w c = (True, w', c') \<and> lc_authorized c'"
proof -
  have remote: "\<exists>w' c'. respond_and_show E v d = (True, w', c') \<and> lc_authorized c'"
    if "kept c d" "lc_terminal d = lc_terminal c" for v d
    using that assms logon_response_remote [of d E code v] by (simp add: kept_def part_defs)
  obtain r w1 c1 where rs: "is_recent_session E False w c = (r, w1, c1)" by (metis prod_cases3)
  have au: "authenticate E (lc_lr c) w c = (if r then respond_and_show E w1 c1 else try_password E (logon_screen_password E) w1 c1)"
    using assms(1,2) rs unfolding authenticate_def logon_screen_password_def [symmetric] password_logins_def by (auto simp: Let_def)
  show ?thesis
  proof (cases r)
    case True
    with rs have "lc_terminal c1 = lc_terminal c" by (auto simp: is_recent_session_def Let_def split: option.splits if_splits)
    with remote is_recent_session_cases(1) [OF rs] au True show ?thesis by simp
  next
    case False
    with recent_session_else rs have c1: "c1 = c" and w1: "lw_failures w1 = lw_failures w" "lw_temporary w1 = lw_temporary w"
      by fastforce+
    from check_failure_passes [OF assms(5) w1(1)] obtain f fs
      where cf: "check_failure E 0 DefaultScope w1 c = (Some f, w1\<lparr>lw_failures := fs\<rparr>, c)" by auto
    have "\<exists>v. try_password E (logon_screen_password E) w1 c = respond_and_show E v (c\<lparr>lc_primary := PaTemporaryPassword\<rparr>)"
      using assms(3,4) w1(2) by (simp add: try_password_def cf validate_password_def validate_plain_answer) blast
    with au False c1 remote [of "c\<lparr>lc_primary := PaTemporaryPassword\<rparr>"] show ?thesis by auto
  qed
qed

lemma blocked_login_closed:
  assumes "le_enrollment E = Some en" "gs_blocked (lw_grants w)"
  shows "\<not> fst (login_request E lr w c)"
proof -
  have gr: "\<not> fst (clanto_check_grant E lr v d)" if "gs_blocked (lw_grants v)" for v d
    using that assms(1) by (simp add: clanto_check_grant_def evaluate_def)
  have wl: "gs_blocked (lw_grants v)" if "conn_whitelist E w d = (b, v, d')" for b v d d'
    using that assms(2) by (auto simp: conn_whitelist_def split: prod.splits option.splits)
  have "conn_whitelist E w d = (True, v, d') \<Longrightarrow> clanto_check_grant E lr v d' = (True, v', d'') \<Longrightarrow> False" for d v d' v' d''
    using gr wl by (metis fst_conv)
  then show ?thesis by (auto simp: login_request_def Let_def split: prod.split bool.split)
qed

lemma conn_whitelist_passes:
  assumes "whitelisted E (lc_lr d) w d"
  shows "\<exists>fs. conn_whitelist E w d = (True, w\<lparr>lw_failures := fs\<rparr>, d)"
proof -
  obtain r fs where "check_id_whitelist (le_opt E ''id-whitelist'') (guard_conn d) (le_time E) (le_time E) (lw_failures w) = (r, fs)"
    by force
  with assms show ?thesis by (auto simp: whitelisted_def conn_whitelist_def guard_conn_def)
qed

section \<open>A concrete host\<close>

definition toy_host :: LoginEnv where
  "toy_host = \<lparr>le_opt = (\<lambda>_. []), le_builtin = (\<lambda>_. []), le_option2bool = (\<lambda>_ _. True), le_cp_index = (\<lambda>_. 0),
     le_flutter_desktop = True, le_id = ''5'', le_instant = 20, le_time = 950000, le_weekday = 0, le_hour = 9, le_minute = 0,
     le_crypto = toy, le_grant_json = toy_json, le_enrollment = None, le_access_mode = [], le_keys = toy_keys,
     le_profiles = (\<lambda>_. None), le_version_number = (\<lambda>_. 0), le_from_str = (\<lambda>_. None), le_rules_of = (\<lambda>_. None),
     le_posture_response = None, le_marker = [], le_windows = False, le_installed = True, le_prelogin = False,
     le_logon_screen = False, le_direct_ip = (\<lambda>_. False), le_privacy_mode = False, le_temporary_enabled = True,
     le_permanent_enabled = False, le_approve_mode = ApproveBoth, le_has_valid_password = True, le_new_password = ''q'',
     le_local_storage = [], le_local_usable = False, le_preset_storage = [], le_preset_salt = [], le_preset_usable = False,
     le_decode_h1 = (\<lambda>_. None), le_decode_preset_h1 = (\<lambda>_. None), le_2fa = True, le_totp = (\<lambda>code. Some (code = ''1'')),
     le_outdate = (\<lambda>_. False), le_add_device = (#), le_os_gate = True, le_terminal_error = None, le_terminal_mismatch = False,
     le_connect = True, le_session_code = Some ''z'', le_translate = (\<lambda>m. m)\<rparr>"

definition toy_process :: LoginWorld where
  "toy_process = \<lparr>lw_grants = toy_grants, lw_active = [], lw_failures = no_failures, lw_sessions = [], lw_temporary = ''p'',
     lw_temporary_failures = ([], 0), lw_switch = [(''7'', 15, replicate 16 3)], lw_devices = [], lw_authed = [],
     lw_unauthorized = [], lw_qos = qos_default (\<lambda>x. x) True 0\<rparr>"

definition toy_request :: LoginRequest where
  "toy_request = \<lparr>lr_username = ''5'', lr_password = as_bytes ''psc'', lr_my_id = ''7'', lr_my_name = ''n'', lr_my_platform = ''L'',
     lr_version = [], lr_option = None, lr_hwid = [], lr_session_id = 1, lr_union = None, lr_device_key = [], lr_device_sig = [],
     lr_clanto_grant = [], lr_posture = False, lr_os_username = []\<rparr>"

definition toy_login :: LoginConn where
  "toy_login = \<lparr>lc_id = 1, lc_ip = ''1.2.3.4'', lc_salt = ''s'', lc_challenge = ''c'', lc_control = None, lc_authorized = False,
     lc_require_2fa = False, lc_awaiting_2fa = False, lc_from_switch = False, lc_scope = None, lc_lr = toy_request, lc_options = None,
     lc_grant = None, lc_perms = (\<lambda>_. True), lc_id_profile = [], lc_forward_profile = True, lc_camera_profile = True,
     lc_file_transfer = None, lc_view_camera = False, lc_terminal = False, lc_terminal_persistent = False, lc_terminal_service = [],
     lc_terminal_token = False, lc_pf_address = [], lc_pf_socket = False, lc_pf_mux = False, lc_session_code = None,
     lc_authed = None, lc_primary = PaNone, lc_two_factor = TfNone, lc_errors = [], lc_close_reason = None, lc_cm = [],
     lc_cm_ipc = False\<rparr>"

lemma toy_host_simps [simp]:
  "le_opt toy_host o' = []" "le_direct_ip toy_host u = False" "le_id toy_host = ''5''" "le_windows toy_host = False"
  "le_approve_mode toy_host = ApproveBoth" "le_has_valid_password toy_host" "le_session_code toy_host = Some ''z''"
  "le_crypto toy_host = toy" "le_temporary_enabled toy_host" "le_privacy_mode toy_host = False" "le_instant toy_host = 20"
  "le_enrollment toy_host = None" "le_totp toy_host code = Some (code = ''1'')" "le_time toy_host = 950000" "sha256 toy b = b"
  by (simp_all add: toy_host_def toy_def)

lemma toy_gates [simp]:
  "conn_whitelist toy_host w c = (True, w, c)" "host_login_block toy_host = None" "posture_error toy_host lr = None"
  "clanto_check_grant toy_host lr w c = (True, w, c\<lparr>lc_grant := None\<rparr>)" "os_login_scope toy_host c = False"
  "trusted_login toy_host toy_request w c = False"
proof -
  have entries: "whitelist_entries [] = []" and trim: "trim [] = []" by code_simp+
  then show "conn_whitelist toy_host w c = (True, w, c)" by (simp add: conn_whitelist_def check_id_whitelist_def)
  show "host_login_block toy_host = None"
    by (simp add: trim host_login_block_def Access_Hours.login_block_def two_factor_block_def local_2fa_def)
  show "posture_error toy_host lr = None"
    by (simp add: posture_error_def configured_verification_mode_def verification_mode_def)
  show "clanto_check_grant toy_host lr w c = (True, w, c\<lparr>lc_grant := None\<rparr>)"
    by (simp add: clanto_check_grant_def evaluate_def)
  show "os_login_scope toy_host c = False" by (simp add: os_login_scope_def)
  show "trusted_login toy_host toy_request w c = False"
    by (simp add: trusted_login_def trusted_device_def trusted_controller_def verify_login_def toy_request_def)
qed

lemma apply_fields [simp]:
  "lc_authorized (apply_id_permissions E c) = lc_authorized c" "lc_require_2fa (apply_id_permissions E c) = lc_require_2fa c"
  "lc_from_switch (apply_id_permissions E c) = lc_from_switch c" "lc_lr (apply_id_permissions E c) = lc_lr c"
  "lc_terminal (apply_id_permissions E c) = lc_terminal c" "lc_ip (apply_id_permissions E c) = lc_ip c"
  "lc_salt (apply_id_permissions E c) = lc_salt c" "lc_challenge (apply_id_permissions E c) = lc_challenge c"
  using apply_id_permissions_kept(1) [of c E c]
  by (simp_all add: kept_def part_defs) (simp add: apply_id_permissions_def Let_def split: option.split)

lemma toy_request_simps [simp]:
  "lr_password toy_request = as_bytes ''psc''" "lr_union toy_request = None" "lr_username toy_request = ''5''"
  by (simp_all add: toy_request_def del: as_bytes_simps)

lemma toy_login_simps [simp]:
  "lc_scope toy_login = None" "lc_authorized toy_login = False" "lc_salt toy_login = ''s''" "lc_challenge toy_login = ''c''"
  "lc_ip toy_login = ''1.2.3.4''" "lc_require_2fa toy_login = False" "lc_lr toy_login = toy_request" "lc_terminal toy_login = False"
  "lw_temporary toy_process = ''p''" "lw_failures toy_process = no_failures" "lc_from_switch toy_login = False"
  "lc_awaiting_2fa toy_login = False"
  by (simp_all add: toy_login_def toy_process_def)

lemma toy_check_failure:
  assumes "lc_ip c = ''1.2.3.4''" "lc_lr c = toy_request"
  shows "fst (check_failure toy_host 0 DefaultScope toy_process c) \<noteq> None"
proof -
  have "snd (fst (check_failure_with_scope \<lparr>cn_ip = ''1.2.3.4'', cn_my_id = ''7''\<rparr> 0 DefaultScope 950000 no_failures)) = None"
    by code_simp
  moreover have "guard_conn c = \<lparr>cn_ip = ''1.2.3.4'', cn_my_id = ''7''\<rparr>" using assms by (simp add: guard_conn_def toy_request_def)
  ultimately show ?thesis by (auto simp: check_failure_def split: prod.split option.split)
qed

lemma toy_password:
  assumes "lc_lr c = toy_request" "lc_salt c = ''s''" "lc_challenge c = ''c''" "lc_ip c = ''1.2.3.4''"
    "lc_grant c = None \<or> (\<exists>g. lc_grant c = Some g \<and> rq_password (gi_needs g))"
    "\<not> lc_authorized c" "\<not> lc_require_2fa c" "\<not> lc_terminal c"
  shows "\<exists>w' c'. authenticate toy_host toy_request toy_process c = (True, w', c') \<and> lc_authorized c'"
proof -
  have ne: "as_bytes ''psc'' \<noteq> []" using as_bytes_inj [of "''psc''" "[]"] by simp
  have "password_answer toy_host c toy_request ''p''"
    using assms by (simp add: password_answer_def)
  then show ?thesis
    using password_accepted [of c toy_host toy_process "''z''"] assms toy_check_failure [of c] ne
    by (auto simp: password_logins_def simp del: as_bytes_simps)
qed

lemma toy_accepts:
  assumes "fixed_part d = fixed_part toy_login" "\<not> lc_authorized d" "\<not> lc_require_2fa d"
    "lc_scope d = None \<or> lc_scope d = Some (login_scope_digest toy toy_request)"
  shows "\<exists>w' c'. login_request toy_host toy_request toy_process d = (True, w', c') \<and> lc_authorized c'"
proof -
  define c where "c = (apply_id_permissions toy_host ((reset_session_scope_for_login (handle_login_request toy_host toy_request toy_process
    (d\<lparr>lc_scope := Some (login_scope_digest toy toy_request), lc_awaiting_2fa := False\<rparr>)))\<lparr>lc_grant := None\<rparr>))\<lparr>lc_cm_ipc := True\<rparr>"
  have "check_login_scope toy_host toy_request d = (True, d\<lparr>lc_scope := Some (login_scope_digest toy toy_request)\<rparr>)"
    using assms(4) by (auto simp: check_login_scope_def Let_def)
  then have "login_request toy_host toy_request toy_process d = authenticate toy_host toy_request toy_process c"
    by (simp add: login_request_def enter_scope_def Let_def c_def)
  moreover have "\<exists>w' c'. authenticate toy_host toy_request toy_process c = (True, w', c') \<and> lc_authorized c'"
    using assms(1-3)
    by (intro toy_password) (simp_all add: c_def reset_session_scope_for_login_def handle_login_request_def Let_def fixed_part_def)
  ultimately show ?thesis by auto
qed

definition toy_ask :: LoginRequest where
  "toy_ask = toy_request\<lparr>lr_password := []\<rparr>"

lemma toy_asks:
  "\<exists>w c. login_request toy_host toy_ask toy_process toy_login = (True, w, c) \<and> \<not> lc_authorized c"
proof -
  have tr: "trusted_login toy_host toy_ask w c = False" for w c
    by (simp add: trusted_login_def trusted_device_def trusted_controller_def verify_login_def toy_ask_def toy_request_def)
  have "lw_sessions toy_process = []" "lr_password toy_ask = []" "lr_union toy_ask = None" "lr_username toy_ask = ''5''"
    by (simp_all add: toy_process_def toy_ask_def)
  then show ?thesis
    by (simp add: login_request_def check_login_scope_def enter_scope_def Let_def authenticate_def is_recent_session_def
        show_for_approval_def try_start_cm_def reset_session_scope_for_login_def handle_login_request_def)
qed

definition view_grant :: GrantInfo where
  "view_grant = toy_info\<lparr>gi_permissions := [''view''], gi_needs := \<lparr>rq_account = True, rq_password = True, rq_confirm = True\<rparr>\<rparr>"

definition toy_files :: LoginConn where
  "toy_files = toy_login\<lparr>lc_grant := Some view_grant, lc_lr := toy_request\<lparr>lr_union := Some (UFileTransfer ''/'' False)\<rparr>\<rparr>"

definition blocked_host :: LoginEnv where
  "blocked_host = toy_host\<lparr>le_enrollment := Some toy_enrollment\<rparr>"

definition blocked_process :: LoginWorld where
  "blocked_process = toy_process\<lparr>lw_grants := toy_grants\<lparr>gs_blocked := True\<rparr>\<rparr>"

section \<open>Properties of the login\<close>

text \<open>C1: Whatever messages one connection sends, in whatever order and against whatever settings, clock and process state, a
  connection that ends up authorised was authorised by one of four events: the person at the host accepted; a switch of sides
  presented the unexpired identifier issued for that controller, which is whitelisted; a login request that passed the ID
  whitelist, the grant, access hours and two-factor policy, posture and the permission of its scope proved its password or
  held a grant that needs none, and, where a second factor is required, came from a trusted device or controller or a live
  session that gave it; or a right one-time code after such a login request.\<close>

theorem authorisation_evidence:
  assumes "fresh c" "conn_run steps c = Some d" "lc_authorized d"
  shows "\<exists>pre E ev w post. steps = pre @ (E, ev, w) # post \<and> authorised_by c pre (E, ev, w)"
proof -
  have "pending c [] c" using assms(1) by (simp add: pending_def fresh_def)
  from pending_run [OF this assms(2,3)] show ?thesis by fastforce
qed

theorem authorisation_evidence_witness:
  "\<exists>pre E ev w post. [(toy_host, EvLogin toy_request, toy_process)] = pre @ (E, ev, w) # post \<and> authorised_by toy_login pre (E, ev, w)"
proof -
  have "fresh toy_login" by (simp add: fresh_def)
  moreover obtain d where "conn_run [(toy_host, EvLogin toy_request, toy_process)] toy_login = Some d" "lc_authorized d"
    using toy_accepts [of toy_login] by auto
  ultimately show ?thesis by (rule authorisation_evidence)
qed

text \<open>C9: Two login requests that one unauthorised connection has answered ask for the same controller ID and the same scope with
  the same parameters, or their encodings are a collision of SHA-256.\<close>

theorem login_scope_latched:
  assumes "fresh c" "conn_run (pre @ (E1, EvLogin lr1, w1) # mid) c = Some d" "\<not> lc_authorized d"
    "conn_step E2 (EvLogin lr2) w2 d = (True, w', d')"
    "le_crypto E1 = le_crypto E2" "request_ok lr1" "request_ok lr2"
  shows "scope_of lr1 = scope_of lr2 \<or> (\<exists>x y. x = concat (map push (scope_fields lr1)) \<and> y = concat (map push (scope_fields lr2))
    \<and> x \<noteq> y \<and> sha256 (le_crypto E1) x = sha256 (le_crypto E1) y)"
proof -
  from assms(2) obtain d0 where r0: "conn_run pre c = Some d0" and r: "conn_run ((E1, EvLogin lr1, w1) # mid) d0 = Some d"
    by (auto simp: conn_run_append bind_eq_Some_conv simp del: conn_run.simps)
  obtain k w0 d1 where s1: "conn_step E1 (EvLogin lr1) w1 d0 = (k, w0, d1)" by (metis prod_cases3)
  then have k: "k = True" and r1: "conn_run mid d1 = Some d" using r by (simp_all del: conn_step.simps split: if_splits)
  have na: "\<not> lc_authorized d1" "\<not> lc_authorized d0"
    using assms(3) conn_run_authorized [OF r1] conn_step_authorized [OF s1] by blast+
  have "pending c [] c" using assms(1) by (simp add: pending_def fresh_def)
  with conn_run_unauthorized r0 na(2) have p0: "pending c ([] @ pre) d0" by blast
  then have p1: "pending c (([] @ pre) @ [(E1, EvLogin lr1, w1)]) d1"
    using pending_step [OF p0 s1 [unfolded k]] na(1) by simp
  have "login_request E1 lr1 w1 d0 = (True, w0, d1)" using s1 k na(2) by simp
  from login_request_cases(4) [OF this na(2)] p0 have sc: "lc_scope d1 = Some (login_scope_digest (le_crypto E1) lr1)"
    by (simp add: pending_def)
  note run = conn_run_unauthorized [OF p1 r1 assms(3)]
  have "login_request E2 lr2 w2 d = (True, w', d')" using assms(3,4) by simp
  from login_request_cases(3) [OF this assms(3)] run sc assms(5)
  have "login_scope_digest (le_crypto E1) lr1 = login_scope_digest (le_crypto E1) lr2" by (simp add: pending_def)
  from digest_same_scope [OF assms(6,7) this] show ?thesis .
qed

theorem login_scope_latched_witness:
  "scope_of toy_ask = scope_of toy_request \<or> (\<exists>x y. x = concat (map push (scope_fields toy_ask))
     \<and> y = concat (map push (scope_fields toy_request)) \<and> x \<noteq> y \<and> sha256 (le_crypto toy_host) x = sha256 (le_crypto toy_host) y)"
proof -
  have f: "fresh toy_login" by (simp add: fresh_def)
  obtain w d where first: "login_request toy_host toy_ask toy_process toy_login = (True, w, d)" "\<not> lc_authorized d"
    using toy_asks by blast
  note req = login_request_cases [OF first(1)]
  have "login_scope_digest toy toy_ask = login_scope_digest toy toy_request"
    by (simp add: login_scope_digest_def scope_fields_def toy_ask_def)
  then have "lc_scope d = Some (login_scope_digest toy toy_request)" using req(4) by simp
  then obtain w' d' where "login_request toy_host toy_request toy_process d = (True, w', d')"
    using toy_accepts [of d] first(2) req(1,5) by auto
  moreover have "request_ok toy_ask" "request_ok toy_request"
    by (simp_all add: request_ok_def scope_fields_def toy_ask_def toy_request_def utf8_bytes_def)
  ultimately show ?thesis
    using login_scope_latched [OF f, of "[]" toy_host toy_ask toy_process "[]" d toy_host toy_request toy_process w' d'] first by simp
qed

text \<open>A grant that does not allow files does not stop a file transfer session: where no ID profile applies, the login enters
  the scope although the connection's own file permission is off.\<close>

theorem grant_limits_bypassed:
  assumes "id_profile_of E (lc_lr c) = None" "lc_grant c = Some g" "\<not> grant_allows g ''file''"
    "permission E (lc_control c) File" "lr_union (lc_lr c) = Some (UFileTransfer dir hidden)"
  shows "\<not> lc_perms (apply_id_permissions E c) File
     \<and> (\<exists>c'. enter_scope E (lc_lr c) (apply_id_permissions E c) = Ok c' \<and> auth_conn_type c' = AFileTransfer \<and> \<not> lc_perms c' File)"
  using assms
  by (simp add: enter_scope_def apply_id_permissions_def id_profile_of_def profiled_permission_def grant_limits_def
      auth_conn_type_def Let_def)

theorem grant_limits_bypassed_witness:
  "\<not> lc_perms (apply_id_permissions toy_host toy_files) File
     \<and> (\<exists>c'. enter_scope toy_host (lc_lr toy_files) (apply_id_permissions toy_host toy_files) = Ok c' \<and> auth_conn_type c' = AFileTransfer
       \<and> \<not> lc_perms c' File)"
proof -
  have "whitelist_entries [] = []" by code_simp
  then have "id_profile_of toy_host (lc_lr toy_files) = None"
    by (simp add: id_profile_of_def resolve_profile_logged_def resolve_profile_def matching_entry_loop)
  moreover have "permission toy_host (lc_control toy_files) File"
    by (simp add: permission_def is_permission_enabled_locally_def toy_files_def toy_login_def toy_host_def)
  moreover have "\<not> grant_allows view_grant ''file''" by code_simp
  ultimately show ?thesis using grant_limits_bypassed [of toy_host toy_files view_grant] by (simp add: toy_files_def)
qed

text \<open>With a grant that needs both the password and the confirmation of the user, the right temporary password alone
  authorises a remote session.\<close>

theorem password_replaces_confirm:
  assumes "lc_grant c = Some g" "rq_password (gi_needs g)" "rq_confirm (gi_needs g)"
    "lr_password (lc_lr c) \<noteq> []" "le_temporary_enabled E" "password_answer E c (lc_lr c) (lw_temporary w)"
    "fst (check_failure E 0 DefaultScope w c) \<noteq> None"
    "\<not> lc_authorized c" "\<not> lc_require_2fa c" "\<not> lc_terminal c" "lr_union (lc_lr c) = None" "le_session_code E = Some code"
  shows "\<exists>w' c'. authenticate E (lc_lr c) w c = (True, w', c') \<and> lc_authorized c'"
  using assms by (intro password_accepted) auto

theorem password_replaces_confirm_witness:
  "\<exists>w' c'. authenticate toy_host toy_request toy_process (toy_login\<lparr>lc_grant := Some view_grant\<rparr>) = (True, w', c') \<and> lc_authorized c'"
proof -
  let ?c = "toy_login\<lparr>lc_grant := Some view_grant\<rparr>"
  have "as_bytes ''psc'' \<noteq> []" using as_bytes_inj [of "''psc''" "[]"] by simp
  moreover have "password_answer toy_host ?c toy_request ''p''" by (simp add: password_answer_def)
  ultimately show ?thesis
    using password_replaces_confirm [of ?c view_grant toy_host toy_process "''z''"] toy_check_failure [of ?c]
    by (simp add: view_grant_def del: as_bytes_simps)
qed

text \<open>After the sessions of an enrolled host were blocked every login request is closed, and a switch of sides with its
  unexpired identifier is still authorised.\<close>

theorem switch_sides_skips_gates:
  assumes "switch_proof E lr uuid w c" "keys_ok (lw_switch w)" "\<not> lc_authorized c" "le_session_code E = Some code"
    "le_enrollment E = Some en" "gs_blocked (lw_grants w)"
  shows "\<not> fst (login_request E lr w c)
     \<and> (\<exists>w' c'. switch_sides_response E (Some lr) uuid w c = (True, w', c') \<and> lc_authorized c')"
proof
  show "\<not> fst (login_request E lr w c)" using assms(5,6) by (rule blocked_login_closed)
  define uuids where "uuids = filter (\<lambda>(_, t, _). le_instant E - t < SWITCH_SIDES_UUID_TTL) (lw_switch w)"
  define w1 where "w1 = w\<lparr>lw_switch := assoc_remove (lr_my_id lr) uuids\<rparr>"
  define d where "d = handle_login_request E lr w1 (reset_session_scope_for_login c)"
  from assms(1) obtain t where t: "(lr_my_id lr, t, uuid) \<in> set uuids" and u: "length uuid = 16" "lr_union lr = None"
    and white: "whitelisted E lr w c" by (auto simp: switch_proof_def uuids_def)
  have m: "map_of uuids (lr_my_id lr) = Some (t, uuid)"
    using t assms(2) keys_ok_filter by (auto simp: keys_ok_def uuids_def intro!: map_of_is_SomeI)
  have kd: "fixed_part d = fixed_part c" "auth_part d = auth_part c" "lc_lr d = lr" "lc_terminal d = False"
    using reset_parts [of c c]
    by (simp_all add: d_def kept_def) (simp add: handle_login_request_def reset_session_scope_for_login_def Let_def)
  obtain fs where wl: "conn_whitelist E w1 d = (True, w1\<lparr>lw_failures := fs\<rparr>, d)"
    using white kd(3) gate_congs(1) [OF kd(1), of E lr w] conn_whitelist_passes [of E d w1]
    by (auto simp: whitelisted_def w1_def)
  define e where "e = (apply_id_permissions E d)\<lparr>lc_from_switch := True, lc_primary := PaSwitchSides\<rparr>"
  have "kept d (apply_id_permissions E d)" "lc_terminal (apply_id_permissions E d) = lc_terminal d"
    by (simp, simp add: apply_id_permissions_def Let_def split: option.split)
  then have "\<not> lc_authorized e" "\<not> lc_require_2fa e \<or> lc_from_switch e" "\<not> lc_terminal e" "lr_union (lc_lr e) = None"
    using kd assms(3) u by (simp_all add: e_def kept_def) (simp_all add: part_defs)
  from logon_response_remote [OF this assms(4)] obtain w2 c2
    where "respond_and_show E (w1\<lparr>lw_failures := fs\<rparr>) e = (True, w2, c2)" "lc_authorized c2" by blast
  then show "\<exists>w' c'. switch_sides_response E (Some lr) uuid w c = (True, w', c') \<and> lc_authorized c'"
    using u m wl by (simp add: switch_sides_response_def Let_def uuids_def [symmetric] w1_def [symmetric] d_def [symmetric] e_def)
qed

theorem switch_sides_skips_gates_witness:
  "\<not> fst (login_request blocked_host toy_request blocked_process toy_login)
   \<and> (\<exists>w' c'. switch_sides_response blocked_host (Some toy_request) (replicate 16 3) blocked_process toy_login = (True, w', c')
       \<and> lc_authorized c')"
proof (rule switch_sides_skips_gates)
  have "whitelist_entries [] = []" by code_simp
  then show "switch_proof blocked_host toy_request (replicate 16 3) blocked_process toy_login"
    by (simp add: switch_proof_def whitelisted_def check_id_whitelist_def blocked_host_def blocked_process_def toy_process_def
        toy_request_def SWITCH_SIDES_UUID_TTL_def)
qed (simp_all add: blocked_host_def blocked_process_def toy_process_def keys_ok_def)

end
