(* ===== verification/Conn_Scope.thy ===== *)
theory Conn_Scope
  imports Conn_Login
begin

text \<open>
  What an authorised peer may send, by the kind of its session, and the options it may set:
  \<open>authorized_scope_violation\<close>, \<open>scoped_login_option\<close> and \<open>update_options\<close> of
  \<^verbatim>\<open>src/src/server/connection.rs\<close>. The messages are those of \<^verbatim>\<open>src/libs/base/protos/message.proto\<close>, without the payloads
  these functions do not read; an enumeration's value may be unknown to this version. What an option sets off outside the
  connection, a subscription to a service or a message, is a list of effects in order. \<open>ScopeEnv\<close> holds what one call reads of
  platform, version and configuration. A desktop build is modelled; \<open>se_windows\<close> and \<open>se_file_paste\<close> are its two conditional features.
\<close>

section \<open>Model: messages\<close>

datatype 'a EnumOrUnknown = EKnown 'a | EUnknown int

datatype ImageQuality = IqNotSet | IqLow | IqBalanced | IqBest
datatype BoolOption = BoNotSet | BoNo | BoYes

record OptionMessage =
  om_image_quality :: "ImageQuality EnumOrUnknown"
  om_lock_after_session_end :: "BoolOption EnumOrUnknown"
  om_show_remote_cursor :: "BoolOption EnumOrUnknown"
  om_privacy_mode :: "BoolOption EnumOrUnknown"
  om_block_input :: "BoolOption EnumOrUnknown"
  om_custom_image_quality :: int
  om_disable_audio :: "BoolOption EnumOrUnknown"
  om_disable_clipboard :: "BoolOption EnumOrUnknown"
  om_enable_file_transfer :: "BoolOption EnumOrUnknown"
  om_supported_decoding :: "bytes option"
  om_custom_fps :: int
  om_disable_keyboard :: "BoolOption EnumOrUnknown"
  om_follow_remote_cursor :: "BoolOption EnumOrUnknown"
  om_follow_remote_window :: "BoolOption EnumOrUnknown"
  om_disable_camera :: "BoolOption EnumOrUnknown"
  om_terminal_persistent :: "BoolOption EnumOrUnknown"
  om_show_my_cursor :: "BoolOption EnumOrUnknown"

datatype MiscUnion =
    MChatMessage | MSwitchDisplay | MPermissionInfo | MOption OptionMessage | MAudioFormat | MCloseReason | MRefreshVideo
  | MVideoReceived | MBackNotification | MRestartRemoteDevice | MUac | MForegroundWindowElevated | MStopService
  | MElevationRequest | MElevationResponse | MPortableServiceRunning | MSwitchSidesRequest | MSwitchBack | MChangeResolution
  | MPluginRequest | MPluginFailure | MFullSpeedFps | MAutoAdjustFps | MClientRecordStatus | MCaptureDisplays
  | MRefreshVideoDisplay | MToggleVirtualDisplay | MTogglePrivacyMode | MSupportedEncoding | MSelectedSid
  | MChangeDisplayResolution | MMessageQuery | MFollowCurrentDisplay | MRequestCursorData | MClantoControllerIdentity

datatype MessageUnion =
    SignedId | PublicKey | TestDelay | VideoFrame | LoginRequestMsg | LoginResponse | Hash | MouseEvent | AudioFrame
  | CursorData | CursorPosition | CursorId | KeyEvent | Clipboard | FileAction | FileResponse | Misc "MiscUnion option"
  | Cliprdr | MessageBox | SwitchSidesResponse | VoiceCallRequest | VoiceCallResponse | PeerInfo | PointerDeviceEvent
  | Auth2FA | MultiClipboards | ScreenshotRequest | ScreenshotResponse | TerminalAction | TerminalResponse
  | PortForwardChannel | ClantoForward

section \<open>Model: options\<close>

definition option_default :: OptionMessage where
  "option_default = \<lparr>om_image_quality = EKnown IqNotSet, om_lock_after_session_end = EKnown BoNotSet,
     om_show_remote_cursor = EKnown BoNotSet, om_privacy_mode = EKnown BoNotSet, om_block_input = EKnown BoNotSet,
     om_custom_image_quality = 0, om_disable_audio = EKnown BoNotSet, om_disable_clipboard = EKnown BoNotSet,
     om_enable_file_transfer = EKnown BoNotSet, om_supported_decoding = None, om_custom_fps = 0,
     om_disable_keyboard = EKnown BoNotSet, om_follow_remote_cursor = EKnown BoNotSet, om_follow_remote_window = EKnown BoNotSet,
     om_disable_camera = EKnown BoNotSet, om_terminal_persistent = EKnown BoNotSet, om_show_my_cursor = EKnown BoNotSet\<rparr>"

definition is_bool_option_not_set :: "BoolOption EnumOrUnknown \<Rightarrow> bool" where
  "is_bool_option_not_set x = (x = EKnown BoNotSet)"

definition option_has_non_terminal_login_field :: "OptionMessage \<Rightarrow> bool" where
  "option_has_non_terminal_login_field o' =
     (om_image_quality o' \<noteq> EKnown IqNotSet \<or> om_custom_image_quality o' \<noteq> 0 \<or> om_custom_fps o' \<noteq> 0
      \<or> om_supported_decoding o' \<noteq> None
      \<or> \<not> is_bool_option_not_set (om_lock_after_session_end o') \<or> \<not> is_bool_option_not_set (om_show_remote_cursor o')
      \<or> \<not> is_bool_option_not_set (om_privacy_mode o') \<or> \<not> is_bool_option_not_set (om_block_input o')
      \<or> \<not> is_bool_option_not_set (om_disable_audio o') \<or> \<not> is_bool_option_not_set (om_disable_clipboard o')
      \<or> \<not> is_bool_option_not_set (om_enable_file_transfer o') \<or> \<not> is_bool_option_not_set (om_disable_keyboard o')
      \<or> \<not> is_bool_option_not_set (om_follow_remote_cursor o') \<or> \<not> is_bool_option_not_set (om_follow_remote_window o')
      \<or> \<not> is_bool_option_not_set (om_disable_camera o') \<or> \<not> is_bool_option_not_set (om_show_my_cursor o'))"

definition option_has_any_field :: "OptionMessage \<Rightarrow> bool" where
  "option_has_any_field o' = (option_has_non_terminal_login_field o' \<or> \<not> is_bool_option_not_set (om_terminal_persistent o'))"

definition option_has_non_view_camera_login_field :: "OptionMessage \<Rightarrow> bool" where
  "option_has_non_view_camera_login_field o' =
     (\<not> (is_bool_option_not_set (om_lock_after_session_end o') \<and> is_bool_option_not_set (om_show_remote_cursor o')
         \<and> is_bool_option_not_set (om_privacy_mode o') \<and> is_bool_option_not_set (om_block_input o')
         \<and> is_bool_option_not_set (om_disable_clipboard o') \<and> is_bool_option_not_set (om_enable_file_transfer o')
         \<and> is_bool_option_not_set (om_disable_keyboard o') \<and> is_bool_option_not_set (om_follow_remote_cursor o')
         \<and> is_bool_option_not_set (om_follow_remote_window o') \<and> is_bool_option_not_set (om_disable_camera o')
         \<and> is_bool_option_not_set (om_terminal_persistent o') \<and> is_bool_option_not_set (om_show_my_cursor o')))"

definition some_if :: "bool \<Rightarrow> 'a \<Rightarrow> 'a option" where
  "some_if b x = (if b then Some x else None)"

definition scoped_view_camera_option :: "OptionMessage \<Rightarrow> OptionMessage option \<times> string option" where
  "scoped_view_camera_option o' =
     (let scoped = option_default;
          scoped = (case om_image_quality o' of EKnown _ \<Rightarrow> scoped\<lparr>om_image_quality := om_image_quality o'\<rparr> | EUnknown _ \<Rightarrow> scoped);
          scoped = (if om_custom_image_quality o' \<ge> 0 then scoped\<lparr>om_custom_image_quality := om_custom_image_quality o'\<rparr> else scoped);
          scoped = (if om_custom_fps o' \<ge> 0 then scoped\<lparr>om_custom_fps := om_custom_fps o'\<rparr> else scoped);
          scoped = scoped\<lparr>om_supported_decoding := om_supported_decoding o'\<rparr>;
          scoped = (case om_disable_audio o' of EKnown v \<Rightarrow> scoped\<lparr>om_disable_audio := EKnown v\<rparr> | EUnknown _ \<Rightarrow> scoped)
      in (some_if (option_has_any_field scoped) scoped,
          some_if (option_has_non_view_camera_login_field o') ''login.option''))"

definition scoped_terminal_login_option :: "OptionMessage \<Rightarrow> OptionMessage option \<times> string option" where
  "scoped_terminal_login_option o' =
     (let (scoped, violation) =
        (case om_terminal_persistent o' of
           EKnown v \<Rightarrow> (option_default\<lparr>om_terminal_persistent := EKnown v\<rparr>, False)
         | EUnknown _ \<Rightarrow> (option_default, True));
          violation = (violation \<or> option_has_non_terminal_login_field o')
      in (some_if (option_has_any_field scoped) scoped, some_if violation ''login.option''))"

fun scoped_login_option :: "AuthConnType \<Rightarrow> OptionMessage \<Rightarrow> OptionMessage option \<times> string option" where
  "scoped_login_option ARemote o' = (Some o', None)"
| "scoped_login_option AViewCamera o' = scoped_view_camera_option o'"
| "scoped_login_option ATerminal o' = scoped_terminal_login_option o'"
| "scoped_login_option AFileTransfer o' = (None, some_if (option_has_any_field o') ''login.option'')"
| "scoped_login_option APortForward o' = (None, some_if (option_has_any_field o') ''login.option'')"

definition is_supported_decoding_only_option :: "OptionMessage \<Rightarrow> bool" where
  "is_supported_decoding_only_option o' =
     (om_supported_decoding o' \<noteq> None \<and> om_image_quality o' = EKnown IqNotSet \<and> om_custom_image_quality o' = 0 \<and> om_custom_fps o' = 0
      \<and> is_bool_option_not_set (om_lock_after_session_end o') \<and> is_bool_option_not_set (om_show_remote_cursor o')
      \<and> is_bool_option_not_set (om_privacy_mode o') \<and> is_bool_option_not_set (om_block_input o')
      \<and> is_bool_option_not_set (om_disable_audio o') \<and> is_bool_option_not_set (om_disable_clipboard o')
      \<and> is_bool_option_not_set (om_enable_file_transfer o') \<and> is_bool_option_not_set (om_disable_keyboard o')
      \<and> is_bool_option_not_set (om_follow_remote_cursor o') \<and> is_bool_option_not_set (om_follow_remote_window o')
      \<and> is_bool_option_not_set (om_disable_camera o') \<and> is_bool_option_not_set (om_terminal_persistent o')
      \<and> is_bool_option_not_set (om_show_my_cursor o'))"

section \<open>Model: scopes\<close>

definition is_connection_housekeeping_message :: "MessageUnion option \<Rightarrow> bool" where
  "is_connection_housekeeping_message msg = (msg \<in> {Some LoginRequestMsg, Some TestDelay, Some (Misc (Some MCloseReason))})"

fun is_render_broadcast_noop_compat_message :: "MessageUnion option \<Rightarrow> bool" where
  "is_render_broadcast_noop_compat_message (Some (Misc (Some MRefreshVideo))) = True"
| "is_render_broadcast_noop_compat_message (Some (Misc (Some MRefreshVideoDisplay))) = True"
| "is_render_broadcast_noop_compat_message (Some (Misc (Some (MOption o')))) = is_supported_decoding_only_option o'"
| "is_render_broadcast_noop_compat_message _ = False"

definition is_text_clipboard_noop_compat_message :: "MessageUnion option \<Rightarrow> bool" where
  "is_text_clipboard_noop_compat_message msg = (msg \<in> {Some Clipboard, Some MultiClipboards})"

fun is_file_transfer_scoped_message :: "bool \<Rightarrow> MessageUnion option \<Rightarrow> bool" where
  "is_file_transfer_scoped_message windows (Some FileAction) = True"
| "is_file_transfer_scoped_message windows (Some FileResponse) = True"
| "is_file_transfer_scoped_message windows (Some (Misc (Some MSelectedSid))) = windows"
| "is_file_transfer_scoped_message windows _ = False"

definition is_port_forward_scoped_message :: "MessageUnion option \<Rightarrow> bool" where
  "is_port_forward_scoped_message msg = (msg = Some PortForwardChannel)"

definition is_terminal_scoped_option :: "OptionMessage \<Rightarrow> bool" where
  "is_terminal_scoped_option o' = (snd (scoped_terminal_login_option o') = None)"

fun is_terminal_scoped_message :: "MessageUnion option \<Rightarrow> bool" where
  "is_terminal_scoped_message (Some TerminalAction) = True"
| "is_terminal_scoped_message (Some (Misc (Some MChatMessage))) = True"
| "is_terminal_scoped_message (Some (Misc (Some (MOption o')))) = is_terminal_scoped_option o'"
| "is_terminal_scoped_message _ = False"

definition is_view_camera_scoped_option :: "OptionMessage \<Rightarrow> bool" where
  "is_view_camera_scoped_option o' = (snd (scoped_view_camera_option o') = None)"

fun is_view_camera_scoped_misc :: "bool \<Rightarrow> MiscUnion option \<Rightarrow> bool" where
  "is_view_camera_scoped_misc windows (Some (MOption o')) = is_view_camera_scoped_option o'"
| "is_view_camera_scoped_misc windows m =
     (m \<in> set (map Some [MSwitchDisplay, MCaptureDisplays, MRefreshVideo, MRefreshVideoDisplay, MVideoReceived, MChatMessage, MAudioFormat,
         MClientRecordStatus, MMessageQuery, MTogglePrivacyMode, MToggleVirtualDisplay, MChangeResolution, MChangeDisplayResolution,
         MClantoControllerIdentity]) \<or> windows \<and> m = Some MSelectedSid)"

fun is_view_camera_scoped_message :: "bool \<Rightarrow> MessageUnion option \<Rightarrow> bool" where
  "is_view_camera_scoped_message windows (Some (Misc m)) = is_view_camera_scoped_misc windows m"
| "is_view_camera_scoped_message windows msg =
     (msg \<in> set (map Some [ScreenshotRequest, MouseEvent, PointerDeviceEvent, KeyEvent, AudioFrame, VoiceCallRequest, VoiceCallResponse]))"

fun misc_message_family :: "MiscUnion option \<Rightarrow> string" where
  "misc_message_family (Some MChatMessage) = ''misc.chat_message''"
| "misc_message_family (Some MSwitchDisplay) = ''misc.switch_display''"
| "misc_message_family (Some (MOption _)) = ''misc.option''"
| "misc_message_family (Some MAudioFormat) = ''misc.audio_format''"
| "misc_message_family (Some MCaptureDisplays) = ''misc.capture_displays''"
| "misc_message_family (Some MClientRecordStatus) = ''misc.client_record_status''"
| "misc_message_family (Some MTogglePrivacyMode) = ''misc.toggle_privacy_mode''"
| "misc_message_family (Some MToggleVirtualDisplay) = ''misc.toggle_virtual_display''"
| "misc_message_family (Some MSelectedSid) = ''misc.selected_sid''"
| "misc_message_family (Some MChangeResolution) = ''misc.change_resolution''"
| "misc_message_family (Some MChangeDisplayResolution) = ''misc.change_display_resolution''"
| "misc_message_family (Some MMessageQuery) = ''misc.message_query''"
| "misc_message_family (Some MFollowCurrentDisplay) = ''misc.follow_current_display''"
| "misc_message_family (Some MSwitchSidesRequest) = ''misc.switch_sides_request''"
| "misc_message_family (Some MClantoControllerIdentity) = ''misc.clanto_controller_identity''"
| "misc_message_family (Some _) = ''misc.other''"
| "misc_message_family None = ''misc.empty''"

fun message_family :: "MessageUnion option \<Rightarrow> string" where
  "message_family (Some MouseEvent) = ''mouse_event''"
| "message_family (Some AudioFrame) = ''audio_frame''"
| "message_family (Some PointerDeviceEvent) = ''pointer_device_event''"
| "message_family (Some KeyEvent) = ''key_event''"
| "message_family (Some Clipboard) = ''clipboard''"
| "message_family (Some FileAction) = ''file_action''"
| "message_family (Some FileResponse) = ''file_response''"
| "message_family (Some VoiceCallRequest) = ''voice_call_request''"
| "message_family (Some VoiceCallResponse) = ''voice_call_response''"
| "message_family (Some MultiClipboards) = ''multi_clipboards''"
| "message_family (Some ScreenshotRequest) = ''screenshot_request''"
| "message_family (Some ScreenshotResponse) = ''screenshot_response''"
| "message_family (Some TerminalAction) = ''terminal_action''"
| "message_family (Some TerminalResponse) = ''terminal_response''"
| "message_family (Some PortForwardChannel) = ''port_forward_channel''"
| "message_family (Some (Misc m)) = misc_message_family m"
| "message_family (Some _) = ''message.other''"
| "message_family None = ''empty''"

fun noop_compat :: "AuthConnType \<Rightarrow> MessageUnion option \<Rightarrow> bool" where
  "noop_compat AFileTransfer msg = (is_render_broadcast_noop_compat_message msg \<or> is_text_clipboard_noop_compat_message msg)"
| "noop_compat ATerminal msg = (is_render_broadcast_noop_compat_message msg \<or> is_text_clipboard_noop_compat_message msg)"
| "noop_compat APortForward msg = is_render_broadcast_noop_compat_message msg"
| "noop_compat AViewCamera msg = is_text_clipboard_noop_compat_message msg"
| "noop_compat ARemote msg = False"

fun scope_allows :: "bool \<Rightarrow> AuthConnType \<Rightarrow> MessageUnion option \<Rightarrow> bool" where
  "scope_allows windows ARemote msg = True"
| "scope_allows windows AFileTransfer msg = is_file_transfer_scoped_message windows msg"
| "scope_allows windows APortForward msg = is_port_forward_scoped_message msg"
| "scope_allows windows AViewCamera msg = is_view_camera_scoped_message windows msg"
| "scope_allows windows ATerminal msg = is_terminal_scoped_message msg"

definition authorized_message_scope_violation :: "bool \<Rightarrow> AuthConnType \<Rightarrow> MessageUnion option \<Rightarrow> string option" where
  "authorized_message_scope_violation windows ty msg =
     (if is_connection_housekeeping_message msg \<or> noop_compat ty msg then None
      else some_if (\<not> scope_allows windows ty msg) (message_family msg))"

definition authorized_scope_violation :: "bool \<Rightarrow> AuthConnType option \<Rightarrow> MessageUnion option \<Rightarrow> string option" where
  "authorized_scope_violation windows ty msg =
     (case ty of
        None \<Rightarrow> some_if (\<not> is_connection_housekeeping_message msg) ''session.auth_type''
      | Some t \<Rightarrow> authorized_message_scope_violation windows t msg)"

section \<open>Model: what options do\<close>

datatype Effect =
    EfImageQuality int | EfCustomFps int | EfDecoding bytes | EfSubscribe string bool | EfFileClipboard bool | EfEmptyFileClipboard
  | EfPrivacyDenied | EfPrivacyOn | EfPrivacyOff | EfBlockOn | EfBlockOff | EfBlockFailed bool | EfPersistent bool
  | EfWhiteboard bool | EfNotSupported | EfPermissions bool bool bool bool | EfAlarm string | EfClose string

record ScopeEnv =
  se_windows :: bool
  se_file_paste :: bool
  se_old_peer :: bool
  se_one_way_clipboard :: bool
  se_one_way_file :: bool
  se_whiteboard_ok :: bool
  se_violation_alarm :: bool
  se_violation_close :: bool

record ScopeConn =
  co_authorized :: bool
  co_type :: "AuthConnType option"
  co_login_options :: "OptionMessage option"
  co_keyboard :: bool
  co_clipboard :: bool
  co_audio :: bool
  co_file :: bool
  co_block_input :: bool
  co_privacy_mode :: bool
  co_voice_calling :: bool
  co_lock_after_session_end :: bool
  co_show_remote_cursor :: bool
  co_follow_remote_cursor :: bool
  co_follow_remote_window :: bool
  co_disable_audio :: bool
  co_enable_file_transfer :: bool
  co_disable_clipboard :: bool
  co_disable_keyboard :: bool
  co_show_my_cursor :: bool
  co_terminal_persistent :: bool
  co_violations :: "string set"
  co_out :: "Effect list"

definition emit :: "Effect list \<Rightarrow> ScopeConn \<Rightarrow> ScopeConn" where
  "emit es c = c\<lparr>co_out := co_out c @ es\<rparr>"

definition peer_keyboard_enabled :: "ScopeConn \<Rightarrow> bool" where
  "peer_keyboard_enabled c = (co_keyboard c \<and> \<not> co_disable_keyboard c)"

definition clipboard_enabled :: "ScopeConn \<Rightarrow> bool" where
  "clipboard_enabled c = (co_clipboard c \<and> \<not> co_disable_clipboard c)"

definition can_sub_clipboard_service :: "ScopeEnv \<Rightarrow> ScopeConn \<Rightarrow> bool" where
  "can_sub_clipboard_service E c = (clipboard_enabled c \<and> peer_keyboard_enabled c \<and> \<not> se_one_way_clipboard E)"

definition audio_enabled :: "ScopeConn \<Rightarrow> bool" where
  "audio_enabled c = (co_audio c \<and> \<not> co_disable_audio c)"

definition file_transfer_enabled :: "ScopeConn \<Rightarrow> bool" where
  "file_transfer_enabled c = (co_file c \<and> co_enable_file_transfer c)"

definition clanto_file_permission_enabled :: "ScopeEnv \<Rightarrow> ScopeConn \<Rightarrow> bool" where
  "clanto_file_permission_enabled E c = (if se_windows E \<or> se_file_paste E then file_transfer_enabled c else co_file c)"

definition can_sub_file_clipboard_service :: "ScopeEnv \<Rightarrow> ScopeConn \<Rightarrow> bool" where
  "can_sub_file_clipboard_service E c = (clipboard_enabled c \<and> file_transfer_enabled c \<and> \<not> se_one_way_file E)"

definition send_clanto_effective_permissions :: "ScopeEnv \<Rightarrow> ScopeConn \<Rightarrow> ScopeConn" where
  "send_clanto_effective_permissions E c =
     emit [EfPermissions (peer_keyboard_enabled c) (clipboard_enabled c) (audio_enabled c) (clanto_file_permission_enabled E c)] c"

text \<open>The value of a switch, if the message sets it\<close>

fun switch_of :: "BoolOption EnumOrUnknown \<Rightarrow> bool option" where
  "switch_of (EKnown BoYes) = Some True"
| "switch_of (EKnown BoNo) = Some False"
| "switch_of _ = None"

definition on_switch :: "BoolOption EnumOrUnknown \<Rightarrow> (bool \<Rightarrow> ScopeConn \<Rightarrow> ScopeConn) \<Rightarrow> ScopeConn \<Rightarrow> ScopeConn" where
  "on_switch x f c = (case switch_of x of None \<Rightarrow> c | Some b \<Rightarrow> f b c)"

fun quality_of :: "OptionMessage \<Rightarrow> int option" where
  "quality_of o' =
     (case om_image_quality o' of
        EUnknown _ \<Rightarrow> None
      | EKnown IqNotSet \<Rightarrow> some_if (om_custom_image_quality o' > 0) (om_custom_image_quality o')
      | EKnown IqLow \<Rightarrow> Some 2
      | EKnown IqBalanced \<Rightarrow> Some 3
      | EKnown IqBest \<Rightarrow> Some 4)"

definition set_video :: "OptionMessage \<Rightarrow> ScopeConn \<Rightarrow> ScopeConn" where
  "set_video o' c =
     emit ((case quality_of o' of None \<Rightarrow> [] | Some q \<Rightarrow> [EfImageQuality q])
           @ (if om_custom_fps o' > 0 then [EfCustomFps (om_custom_fps o')] else [])
           @ (case om_supported_decoding o' of None \<Rightarrow> [] | Some q \<Rightarrow> [EfDecoding q])) c"

definition set_show_remote_cursor :: "bool \<Rightarrow> ScopeConn \<Rightarrow> ScopeConn" where
  "set_show_remote_cursor b c =
     (let c = c\<lparr>co_show_remote_cursor := b\<rparr>
      in emit [EfSubscribe ''mouse_cursor'' (peer_keyboard_enabled c \<or> b), EfSubscribe ''mouse_pos'' b] c)"

definition set_follow_remote_window :: "bool \<Rightarrow> ScopeConn \<Rightarrow> ScopeConn" where
  "set_follow_remote_window b c = emit [EfSubscribe ''window_focus'' b] (c\<lparr>co_follow_remote_window := b\<rparr>)"

definition set_disable_audio :: "bool \<Rightarrow> ScopeConn \<Rightarrow> ScopeConn" where
  "set_disable_audio b c =
     (let c = c\<lparr>co_disable_audio := b\<rparr>
      in if co_type c = Some AViewCamera \<and> \<not> (co_voice_calling c \<or> \<not> audio_enabled c) then c
         else emit [EfSubscribe ''audio'' (audio_enabled c)] c)"

definition set_enable_file_transfer :: "ScopeEnv \<Rightarrow> bool \<Rightarrow> ScopeConn \<Rightarrow> ScopeConn" where
  "set_enable_file_transfer E b c =
     (let c = c\<lparr>co_enable_file_transfer := b\<rparr>
      in emit ((if se_windows E then [EfFileClipboard (file_transfer_enabled c)] else [])
           @ (if se_file_paste E \<and> \<not> b then [EfEmptyFileClipboard] else [])
           @ (if se_file_paste E then [EfSubscribe ''file-clipboard'' (can_sub_file_clipboard_service E c)] else [])) c)"

definition set_disable_clipboard :: "ScopeEnv \<Rightarrow> bool \<Rightarrow> ScopeConn \<Rightarrow> ScopeConn" where
  "set_disable_clipboard E b c =
     (let c = c\<lparr>co_disable_clipboard := b\<rparr> in emit [EfSubscribe ''clipboard'' (can_sub_clipboard_service E c)] c)"

definition set_disable_keyboard :: "ScopeEnv \<Rightarrow> bool \<Rightarrow> ScopeConn \<Rightarrow> ScopeConn" where
  "set_disable_keyboard E b c =
     (let c = c\<lparr>co_disable_keyboard := b\<rparr>
      in emit ([EfSubscribe ''clipboard'' (can_sub_clipboard_service E c)]
           @ (if se_file_paste E then [EfSubscribe ''file-clipboard'' (can_sub_file_clipboard_service E c)] else [])
           @ [EfSubscribe ''mouse_cursor'' (peer_keyboard_enabled c \<or> co_show_remote_cursor c)]) c)"

text \<open>\<open>turn_on_privacy\<close> up to its permission check; the privacy mode itself is a platform service.\<close>

definition turn_on_privacy :: "ScopeConn \<Rightarrow> ScopeConn" where
  "turn_on_privacy c = emit [if co_type c \<noteq> Some ARemote \<or> \<not> co_privacy_mode c then EfPrivacyDenied else EfPrivacyOn] c"

definition set_privacy :: "bool \<Rightarrow> ScopeConn \<Rightarrow> ScopeConn" where
  "set_privacy b c = (if \<not> co_keyboard c then c else if b then turn_on_privacy c else emit [EfPrivacyOff] c)"

definition set_block_input :: "bool \<Rightarrow> ScopeConn \<Rightarrow> ScopeConn" where
  "set_block_input b c =
     emit [if co_keyboard c \<and> co_block_input c then (if b then EfBlockOn else EfBlockOff) else EfBlockFailed b] c"

definition update_terminal_persistence :: "bool \<Rightarrow> ScopeConn \<Rightarrow> ScopeConn" where
  "update_terminal_persistence b c = emit [EfPersistent b] (c\<lparr>co_terminal_persistent := b\<rparr>)"

definition set_show_my_cursor :: "ScopeEnv \<Rightarrow> bool \<Rightarrow> ScopeConn \<Rightarrow> ScopeConn" where
  "set_show_my_cursor E b c =
     emit (if se_whiteboard_ok E then [EfWhiteboard b] else if b then [EfNotSupported] else []) (c\<lparr>co_show_my_cursor := b\<rparr>)"

definition permissions_changed :: "ScopeEnv \<Rightarrow> OptionMessage \<Rightarrow> bool" where
  "permissions_changed E o' =
     (switch_of (om_disable_audio o') \<noteq> None
      \<or> (se_windows E \<or> se_file_paste E) \<and> switch_of (om_enable_file_transfer o') \<noteq> None
      \<or> switch_of (om_disable_clipboard o') \<noteq> None \<or> switch_of (om_disable_keyboard o') \<noteq> None)"

definition update_options :: "ScopeEnv \<Rightarrow> OptionMessage \<Rightarrow> ScopeConn \<Rightarrow> ScopeConn" where
  "update_options E o' c =
     (let c = set_video o' c;
          c = on_switch (om_lock_after_session_end o') (\<lambda>b c. c\<lparr>co_lock_after_session_end := b\<rparr>) c;
          c = on_switch (om_show_remote_cursor o') set_show_remote_cursor c;
          c = on_switch (om_follow_remote_cursor o') (\<lambda>b c. c\<lparr>co_follow_remote_cursor := b\<rparr>) c;
          c = on_switch (om_follow_remote_window o') set_follow_remote_window c;
          c = on_switch (om_disable_audio o') set_disable_audio c;
          c = (if se_windows E \<or> se_file_paste E then on_switch (om_enable_file_transfer o') (set_enable_file_transfer E) c else c);
          c = on_switch (om_disable_clipboard o') (set_disable_clipboard E) c;
          c = on_switch (om_disable_keyboard o') (set_disable_keyboard E) c;
          c = (if se_old_peer E then on_switch (om_privacy_mode o') set_privacy c else c);
          c = on_switch (om_block_input o') set_block_input c;
          c = on_switch (om_terminal_persistent o') update_terminal_persistence c;
          c = on_switch (om_show_my_cursor o') (set_show_my_cursor E) c
      in if permissions_changed E o' then send_clanto_effective_permissions E c else c)"

definition update_scoped_login_options :: "ScopeEnv \<Rightarrow> ScopeConn \<Rightarrow> ScopeConn" where
  "update_scoped_login_options E c =
     (case co_login_options c of
        None \<Rightarrow> c
      | Some o' \<Rightarrow>
          let c = c\<lparr>co_login_options := None\<rparr> in
          (case co_type c of
             None \<Rightarrow> c
           | Some ty \<Rightarrow> (case fst (scoped_login_option ty o') of Some o' \<Rightarrow> update_options E o' c | None \<Rightarrow> c)))"

definition scoped_update_option_message :: "AuthConnType option \<Rightarrow> OptionMessage \<Rightarrow> OptionMessage option" where
  "scoped_update_option_message ty o' =
     (if ty = Some AViewCamera then fst (scoped_view_camera_option o')
      else if ty = Some ATerminal then fst (scoped_terminal_login_option o')
      else None)"

definition on_option :: "ScopeEnv \<Rightarrow> OptionMessage \<Rightarrow> ScopeConn \<Rightarrow> ScopeConn" where
  "on_option E o' c =
     (if co_type c = Some ARemote then update_options E o' c
      else (case scoped_update_option_message (co_type c) o' of Some o' \<Rightarrow> update_options E o' c | None \<Rightarrow> c))"

definition handle_authorized_scope_violation :: "ScopeEnv \<Rightarrow> string \<Rightarrow> ScopeConn \<Rightarrow> bool \<times> ScopeConn" where
  "handle_authorized_scope_violation E msg c =
     (let first = (msg \<notin> co_violations c);
          c = c\<lparr>co_violations := insert msg (co_violations c)\<rparr>;
          c = (if first \<and> se_violation_alarm E then emit [EfAlarm msg] c else c)
      in if se_violation_close E then (False, emit [EfClose ''Session scope violation''] c) else (True, c))"

text \<open>
  The head of \<open>on_message\<close>: the connection closes, the message is dropped, or it goes on to its handler, which for an
  option is \<open>on_option\<close>. The other handlers are the parameter \<open>rest\<close>.
\<close>

definition on_message :: "ScopeEnv \<Rightarrow> (MessageUnion option \<Rightarrow> ScopeConn \<Rightarrow> bool \<times> ScopeConn) \<Rightarrow> MessageUnion option \<Rightarrow> ScopeConn \<Rightarrow> bool \<times> ScopeConn" where
  "on_message E rest msg c =
     (if msg = Some (Misc (Some MCloseReason)) then (False, emit [EfClose ''Peer close''] c)
      else if co_authorized c \<and> msg = Some LoginRequestMsg then (True, c)
      else
        (case (if co_authorized c then authorized_scope_violation (se_windows E) (co_type c) msg else None) of
           Some v \<Rightarrow> handle_authorized_scope_violation E v c
         | None \<Rightarrow>
             (case msg of
                Some (Misc (Some (MOption o'))) \<Rightarrow> if co_authorized c then (True, on_option E o' c) else rest msg c
              | _ \<Rightarrow> rest msg c)))"

section \<open>Which session may send what\<close>

fun sessions_for :: "bool \<Rightarrow> MessageUnion option \<Rightarrow> AuthConnType set" where
  "sessions_for windows (Some m) =
     (case m of
        LoginRequestMsg \<Rightarrow> UNIV
      | TestDelay \<Rightarrow> UNIV
      | FileAction \<Rightarrow> {ARemote, AFileTransfer}
      | FileResponse \<Rightarrow> {ARemote, AFileTransfer}
      | PortForwardChannel \<Rightarrow> {ARemote, APortForward}
      | TerminalAction \<Rightarrow> {ARemote, ATerminal}
      | Clipboard \<Rightarrow> UNIV - {APortForward}
      | MultiClipboards \<Rightarrow> UNIV - {APortForward}
      | Misc None \<Rightarrow> {ARemote}
      | Misc (Some x) \<Rightarrow>
          (case x of
             MCloseReason \<Rightarrow> UNIV
           | MRefreshVideo \<Rightarrow> UNIV
           | MRefreshVideoDisplay \<Rightarrow> UNIV
           | MChatMessage \<Rightarrow> {ARemote, AViewCamera, ATerminal}
           | MSelectedSid \<Rightarrow> if windows then {ARemote, AFileTransfer, AViewCamera} else {ARemote}
           | MOption o' \<Rightarrow>
               {ARemote} \<union> (if option_has_non_view_camera_login_field o' then {} else {AViewCamera})
               \<union> (if option_has_non_terminal_login_field o' \<or> (\<exists>n. om_terminal_persistent o' = EUnknown n) then {} else {ATerminal})
               \<union> (if o' \<noteq> option_default \<and> o'\<lparr>om_supported_decoding := None\<rparr> = option_default then {AFileTransfer, APortForward, ATerminal} else {})
           | _ \<Rightarrow> if x \<in> {MSwitchDisplay, MCaptureDisplays, MVideoReceived, MAudioFormat, MClientRecordStatus, MMessageQuery,
                      MTogglePrivacyMode, MToggleVirtualDisplay, MChangeResolution, MChangeDisplayResolution, MClantoControllerIdentity}
                  then {ARemote, AViewCamera} else {ARemote})
      | _ \<Rightarrow> if m \<in> {ScreenshotRequest, MouseEvent, PointerDeviceEvent, KeyEvent, AudioFrame, VoiceCallRequest, VoiceCallResponse}
             then {ARemote, AViewCamera} else {ARemote})"
| "sessions_for windows None = {ARemote}"

lemma decoding_only: "is_supported_decoding_only_option o' \<longleftrightarrow> o' \<noteq> option_default \<and> o'\<lparr>om_supported_decoding := None\<rparr> = option_default"
  by (cases o') (auto simp: is_supported_decoding_only_option_def option_default_def is_bool_option_not_set_def)

lemma terminal_scoped:
  "is_terminal_scoped_option o' \<longleftrightarrow> \<not> (option_has_non_terminal_login_field o' \<or> (\<exists>n. om_terminal_persistent o' = EUnknown n))"
  by (auto simp: is_terminal_scoped_option_def scoped_terminal_login_option_def some_if_def Let_def split: EnumOrUnknown.splits)

lemma view_camera_scoped: "is_view_camera_scoped_option o' \<longleftrightarrow> \<not> option_has_non_view_camera_login_field o'"
  by (simp add: is_view_camera_scoped_option_def scoped_view_camera_option_def some_if_def Let_def)

lemmas scope_defs = authorized_message_scope_violation_def some_if_def is_connection_housekeeping_message_def
  is_text_clipboard_noop_compat_message_def is_port_forward_scoped_message_def

lemma option_scope:
  "authorized_message_scope_violation windows ty (Some (Misc (Some (MOption o')))) = None \<longleftrightarrow> ty \<in> sessions_for windows (Some (Misc (Some (MOption o'))))"
  by (cases ty) (simp_all add: scope_defs decoding_only terminal_scoped view_camera_scoped)

text \<open>Whether an authorised session of a kind may send a message is the table \<open>sessions_for\<close>: who may send what is a
property of the message, with the options judged field by field, and every message of the protocol is classified.\<close>

theorem scope_table:
  "authorized_message_scope_violation windows ty msg = None \<longleftrightarrow> ty \<in> sessions_for windows msg"
proof (cases msg)
  case None
  then show ?thesis by (cases ty) (simp_all add: scope_defs)
next
  case (Some m)
  show ?thesis
  proof (cases m)
    case (Misc x)
    show ?thesis
    proof (cases x)
      case None
      then show ?thesis using Some Misc by (cases ty) (simp_all add: scope_defs)
    next
      case x: (Some y)
      show ?thesis
      proof (cases "\<exists>o'. y = MOption o'")
        case True
        then show ?thesis using option_scope Some Misc x by auto
      next
        case False
        then show ?thesis using Some Misc x by (cases y; cases ty) (simp_all add: scope_defs)
      qed
    qed
  qed (use Some in \<open>cases ty; simp add: scope_defs\<close>)+
qed

section \<open>Options in a limited session\<close>

text \<open>What a limited session's options may set off, and what they may change\<close>

fun effect_in_scope :: "AuthConnType \<Rightarrow> Effect \<Rightarrow> bool" where
  "effect_in_scope _ (EfAlarm _) = True"
| "effect_in_scope _ (EfClose _) = True"
| "effect_in_scope ARemote _ = True"
| "effect_in_scope ATerminal (EfPersistent _) = True"
| "effect_in_scope AViewCamera (EfImageQuality _) = True"
| "effect_in_scope AViewCamera (EfCustomFps _) = True"
| "effect_in_scope AViewCamera (EfDecoding _) = True"
| "effect_in_scope AViewCamera (EfSubscribe s _) = (s = ''audio'')"
| "effect_in_scope AViewCamera (EfPermissions _ _ _ _) = True"
| "effect_in_scope _ _ = False"

definition same_core :: "ScopeConn \<Rightarrow> ScopeConn \<Rightarrow> bool" where
  "same_core c c' \<longleftrightarrow>
     c' = c\<lparr>co_login_options := co_login_options c', co_disable_audio := co_disable_audio c',
            co_terminal_persistent := co_terminal_persistent c', co_violations := co_violations c', co_out := co_out c'\<rparr>"

definition changes_in_scope :: "AuthConnType \<Rightarrow> ScopeConn \<Rightarrow> ScopeConn \<Rightarrow> bool" where
  "changes_in_scope ty c c' \<longleftrightarrow>
     same_core c c'
     \<and> (co_disable_audio c' \<noteq> co_disable_audio c \<longrightarrow> ty = AViewCamera)
     \<and> (co_terminal_persistent c' \<noteq> co_terminal_persistent c \<longrightarrow> ty = ATerminal)
     \<and> (\<exists>es. co_out c' = co_out c @ es \<and> list_all (effect_in_scope ty) es)"

lemma same_core_trans: "same_core c c' \<Longrightarrow> same_core c' c'' \<Longrightarrow> same_core c c''"
  by (cases c; cases c'; cases c'') (simp add: same_core_def)

lemma changes_refl [simp]: "changes_in_scope ty c c"
  by (simp add: changes_in_scope_def same_core_def)

lemma emit_scope: "list_all (effect_in_scope ty) es \<Longrightarrow> changes_in_scope ty c (emit es c)"
  by (simp add: changes_in_scope_def same_core_def emit_def)

lemma changes_type: "changes_in_scope ty c c' \<Longrightarrow> co_type c' = co_type c \<and> co_authorized c' = co_authorized c"
  by (cases c; cases c') (simp add: changes_in_scope_def same_core_def)

lemma changes_trans:
  assumes "changes_in_scope ty c c'" "changes_in_scope ty c' c''"
  shows "changes_in_scope ty c c''"
proof -
  from assms obtain es where es: "co_out c' = co_out c @ es" "list_all (effect_in_scope ty) es" by (auto simp: changes_in_scope_def)
  from assms obtain es' where es': "co_out c'' = co_out c' @ es'" "list_all (effect_in_scope ty) es'" by (auto simp: changes_in_scope_def)
  have "co_out c'' = co_out c @ (es @ es')" "list_all (effect_in_scope ty) (es @ es')" using es es' by simp_all
  moreover have "same_core c c''" using assms same_core_trans by (auto simp: changes_in_scope_def)
  moreover have "co_disable_audio c'' \<noteq> co_disable_audio c \<longrightarrow> ty = AViewCamera" "co_terminal_persistent c'' \<noteq> co_terminal_persistent c \<longrightarrow> ty = ATerminal"
    using assms unfolding changes_in_scope_def by metis+
  ultimately show ?thesis unfolding changes_in_scope_def by blast
qed

lemma option_default_fields:
  "om_image_quality option_default = EKnown IqNotSet" "om_lock_after_session_end option_default = EKnown BoNotSet"
  "om_show_remote_cursor option_default = EKnown BoNotSet" "om_privacy_mode option_default = EKnown BoNotSet"
  "om_block_input option_default = EKnown BoNotSet" "om_custom_image_quality option_default = 0"
  "om_disable_audio option_default = EKnown BoNotSet" "om_disable_clipboard option_default = EKnown BoNotSet"
  "om_enable_file_transfer option_default = EKnown BoNotSet" "om_supported_decoding option_default = None"
  "om_custom_fps option_default = 0" "om_disable_keyboard option_default = EKnown BoNotSet"
  "om_follow_remote_cursor option_default = EKnown BoNotSet" "om_follow_remote_window option_default = EKnown BoNotSet"
  "om_disable_camera option_default = EKnown BoNotSet" "om_terminal_persistent option_default = EKnown BoNotSet"
  "om_show_my_cursor option_default = EKnown BoNotSet"
  by (simp_all add: option_default_def)

lemma set_video_default: "set_video (option_default\<lparr>om_terminal_persistent := x\<rparr>) c = c"
  by (simp add: set_video_def option_default_fields emit_def some_if_def)

lemma terminal_option:
  assumes "fst (scoped_terminal_login_option o') = Some s"
  shows "\<exists>b. update_options E s c = update_terminal_persistence b c"
proof -
  from assms obtain v where v: "s = option_default\<lparr>om_terminal_persistent := EKnown v\<rparr>" "v \<noteq> BoNotSet"
    by (auto simp: scoped_terminal_login_option_def Let_def some_if_def option_has_any_field_def option_has_non_terminal_login_field_def
      is_bool_option_not_set_def option_default_fields split: EnumOrUnknown.splits if_splits)
  then show ?thesis
    by (cases v) (auto simp: update_options_def set_video_default Let_def on_switch_def permissions_changed_def option_default_fields)
qed

lemma view_camera_fields:
  assumes "fst (scoped_view_camera_option o') = Some s"
  shows "om_lock_after_session_end s = EKnown BoNotSet" "om_show_remote_cursor s = EKnown BoNotSet" "om_privacy_mode s = EKnown BoNotSet"
    "om_block_input s = EKnown BoNotSet" "om_disable_clipboard s = EKnown BoNotSet" "om_enable_file_transfer s = EKnown BoNotSet"
    "om_disable_keyboard s = EKnown BoNotSet" "om_follow_remote_cursor s = EKnown BoNotSet" "om_follow_remote_window s = EKnown BoNotSet"
    "om_terminal_persistent s = EKnown BoNotSet" "om_show_my_cursor s = EKnown BoNotSet"
  using assms by (auto simp: scoped_view_camera_option_def Let_def some_if_def option_default_fields split: EnumOrUnknown.splits if_splits)

lemma view_camera_option:
  assumes "fst (scoped_view_camera_option o') = Some s"
  shows "update_options E s c =
    (let c = on_switch (om_disable_audio s) set_disable_audio (set_video s c)
     in if switch_of (om_disable_audio s) \<noteq> None then send_clanto_effective_permissions E c else c)"
  using view_camera_fields [OF assms] by (simp add: update_options_def Let_def on_switch_def permissions_changed_def)

lemma set_video_scope: "changes_in_scope AViewCamera c (set_video o' c)"
  unfolding set_video_def by (rule emit_scope) (simp split: option.splits)

lemma set_disable_audio_scope: "changes_in_scope AViewCamera c (set_disable_audio b c)"
  by (simp add: changes_in_scope_def same_core_def set_disable_audio_def emit_def Let_def)

lemma view_camera_scope:
  assumes "fst (scoped_view_camera_option o') = Some s"
  shows "changes_in_scope AViewCamera c (update_options E s c)"
proof -
  let ?c1 = "set_video s c" let ?c2 = "on_switch (om_disable_audio s) set_disable_audio ?c1"
  have "changes_in_scope AViewCamera ?c1 ?c2" by (simp add: on_switch_def set_disable_audio_scope split: option.splits)
  with set_video_scope have "changes_in_scope AViewCamera c ?c2" by (rule changes_trans)
  moreover have "changes_in_scope AViewCamera ?c2 (send_clanto_effective_permissions E ?c2)"
    unfolding send_clanto_effective_permissions_def by (rule emit_scope) simp
  ultimately show ?thesis using view_camera_option [OF assms, of E c] changes_trans by (auto simp: Let_def)
qed

lemma terminal_scope:
  assumes "fst (scoped_terminal_login_option o') = Some s"
  shows "changes_in_scope ATerminal c (update_options E s c)"
  using terminal_option [OF assms, of E c] by (auto simp: changes_in_scope_def same_core_def update_terminal_persistence_def emit_def)

lemma scoped_scope:
  assumes "fst (scoped_login_option ty o') = Some s" "ty \<noteq> ARemote"
  shows "changes_in_scope ty c (update_options E s c)"
  using assms view_camera_scope terminal_scope by (cases ty) auto

lemma violation_scope: "changes_in_scope ty c (snd (handle_authorized_scope_violation E v c))"
  by (simp add: handle_authorized_scope_violation_def changes_in_scope_def same_core_def emit_def Let_def)

lemma on_option_scope: "co_type c = Some ty \<Longrightarrow> ty \<noteq> ARemote \<Longrightarrow> changes_in_scope ty c (on_option E o' c)"
  using view_camera_scope terminal_scope
  by (cases ty) (auto simp: on_option_def scoped_update_option_message_def split: option.splits)

lemma login_option_scope: "co_type c = Some ty \<Longrightarrow> ty \<noteq> ARemote \<Longrightarrow> changes_in_scope ty c (update_scoped_login_options E c)"
proof -
  assume ty: "co_type c = Some ty" "ty \<noteq> ARemote"
  have "changes_in_scope ty c (c\<lparr>co_login_options := None\<rparr>)" by (simp add: changes_in_scope_def same_core_def)
  then show ?thesis using ty scoped_scope changes_trans
    by (auto simp: update_scoped_login_options_def Let_def split: option.splits)
qed

text \<open>A run of option messages after the options of the login\<close>

definition option_run :: "ScopeEnv \<Rightarrow> OptionMessage list \<Rightarrow> ScopeConn \<Rightarrow> ScopeConn" where
  "option_run E os c =
     fold (\<lambda>o' c. snd (on_message E (\<lambda>_ c. (True, c)) (Some (Misc (Some (MOption o')))) c)) os (update_scoped_login_options E c)"

text \<open>C5: In an authorised session that is not a remote-control session, no option the peer sends, with the login or later, in
scope or not, changes anything but what its kind grants: the persistence of a terminal, or the sound of a camera session
and the picture's quality, rate and decoding. Every other setting of the connection keeps its value, and everything set
off outside it is of that kind, an alarm, or the closing of the connection.\<close>

theorem limited_session_options:
  assumes "co_authorized c" "co_type c = Some ty" "ty \<noteq> ARemote"
  shows "changes_in_scope ty c (option_run E os c)"
proof -
  have "changes_in_scope ty c' (fold (\<lambda>o' c. snd (on_message E (\<lambda>_ c. (True, c)) (Some (Misc (Some (MOption o')))) c)) os c')"
    if "co_authorized c'" "co_type c' = Some ty" for c'
    using that
  proof (induction os arbitrary: c')
    case (Cons o' os)
    let ?c = "snd (on_message E (\<lambda>_ c. (True, c)) (Some (Misc (Some (MOption o')))) c')"
    have s: "changes_in_scope ty c' ?c"
      using Cons.prems on_option_scope [OF Cons.prems(2) assms(3)] violation_scope by (simp add: on_message_def split: option.splits)
    from Cons.IH [of ?c] changes_type [OF s] Cons.prems changes_trans [OF s] show ?case by simp
  qed simp
  moreover have l: "changes_in_scope ty c (update_scoped_login_options E c)" using login_option_scope assms by blast
  ultimately show ?thesis using changes_trans [OF l] changes_type [OF l] assms by (simp add: option_run_def)
qed

definition demo_scope_env :: ScopeEnv where
  "demo_scope_env = \<lparr>se_windows = False, se_file_paste = True, se_old_peer = True, se_one_way_clipboard = False, se_one_way_file = False,
     se_whiteboard_ok = True, se_violation_alarm = True, se_violation_close = False\<rparr>"

definition demo_scope_conn :: ScopeConn where
  "demo_scope_conn = \<lparr>co_authorized = True, co_type = Some ATerminal, co_login_options = None, co_keyboard = True, co_clipboard = True,
     co_audio = True, co_file = True, co_block_input = True, co_privacy_mode = True, co_voice_calling = False,
     co_lock_after_session_end = False, co_show_remote_cursor = False, co_follow_remote_cursor = False, co_follow_remote_window = False,
     co_disable_audio = False, co_enable_file_transfer = False, co_disable_clipboard = False, co_disable_keyboard = False,
     co_show_my_cursor = False, co_terminal_persistent = False, co_violations = {}, co_out = []\<rparr>"

theorem limited_session_options_witness:
  "co_authorized demo_scope_conn \<and> co_type demo_scope_conn = Some ATerminal
   \<and> changes_in_scope ATerminal demo_scope_conn
        (option_run demo_scope_env [option_default\<lparr>om_terminal_persistent := EKnown BoYes\<rparr>, option_default\<lparr>om_block_input := EKnown BoYes\<rparr>]
          demo_scope_conn)"
  using limited_session_options [of demo_scope_conn ATerminal demo_scope_env
    "[option_default\<lparr>om_terminal_persistent := EKnown BoYes\<rparr>, option_default\<lparr>om_block_input := EKnown BoYes\<rparr>]"]
  by (simp add: demo_scope_conn_def)

end
