(* ===== verification/File_Store.thy ===== *)
theory File_Store
  imports Rust_Prelude "HOL-Library.Sublist"
begin

text \<open>
  The part of the standard library's paths and of a Unix file system that \<^verbatim>\<open>src/libs/base/src/fs.rs\<close> uses. A path
  is a \<^typ>\<open>string\<close>; \<open>components\<close> is \<open>Path::components\<close> and \<open>kernel_path\<close> what a system call sees. A directory tree maps
  canonical paths, lists of names from the root, to files (by inode), directories and symbolic links; \<open>walk\<close> resolves a
  path and follows at most forty links, as Linux does. A file has its bytes and its time in nanoseconds. \<open>fs_deny\<close> holds the entries that permissions protect.
\<close>

section \<open>Paths\<close>

type_synonym canon = "string list"

datatype Component = CRoot | CCur | CParent | CNormal string

fun piece :: "string \<Rightarrow> Component" where
  "piece s = (if s = ''.'' then CCur else if s = ''..'' then CParent else CNormal s)"

abbreviation is_slash :: "char \<Rightarrow> bool" where
  "is_slash c \<equiv> c = CHR ''/''"

definition is_absolute :: "string \<Rightarrow> bool" where
  "is_absolute p = (p \<noteq> [] \<and> is_slash (hd p))"

definition pieces :: "string \<Rightarrow> string list" where
  "pieces p = filter (\<lambda>s. s \<noteq> []) (split_on is_slash p)"

text \<open>\<open>Path::components\<close> drops every \<open>.\<close> but a leading one.\<close>

definition components :: "string \<Rightarrow> Component list" where
  "components p =
     (if is_absolute p then CRoot # map piece (filter (\<lambda>s. s \<noteq> ''.'') (pieces p))
      else if pieces p \<noteq> [] \<and> hd (pieces p) = ''.'' then CCur # map piece (filter (\<lambda>s. s \<noteq> ''.'') (pieces p))
      else map piece (filter (\<lambda>s. s \<noteq> ''.'') (pieces p)))"

text \<open>A system call also asks a directory before a trailing slash.\<close>

definition kernel_path :: "string \<Rightarrow> Component list" where
  "kernel_path p =
     (if is_absolute p then [CRoot] else []) @ map piece (pieces p)
     @ (if p \<noteq> [] \<and> is_slash (last p) then [CCur] else [])"

text \<open>\<open>Path::join\<close>\<close>

definition path_join :: "string \<Rightarrow> string \<Rightarrow> string" where
  "path_join p q =
     (if is_absolute q then q
      else if p \<noteq> [] \<and> \<not> is_slash (last p) then p @ ''/'' @ q
      else p @ q)"

text \<open>\<open>Path::parent\<close>, as components, and \<open>Path::file_name\<close>\<close>

definition path_parent :: "string \<Rightarrow> Component list option" where
  "path_parent p = (if components p = [] \<or> last (components p) = CRoot then None else Some (butlast (components p)))"

fun component_text :: "Component \<Rightarrow> string" where
  "component_text CRoot = []"
| "component_text CCur = ''.''"
| "component_text CParent = ''..''"
| "component_text (CNormal s) = s"

definition print_components :: "Component list \<Rightarrow> string" where
  "print_components cs = (if cs = [CRoot] then ''/'' else join ''/'' (map component_text cs))"

definition file_name :: "string \<Rightarrow> string option" where
  "file_name p =
     (if components p = [] then None else (case last (components p) of CNormal s \<Rightarrow> Some s | _ \<Rightarrow> None))"

section \<open>The tree\<close>

datatype Node = NFile nat | NDir | NLink string
datatype FsError = NotFound | NotADirectory | FilesystemLoop | IsADirectory | DirectoryNotEmpty | InvalidInput | PermissionDenied

record Fs =
  fs_node :: "canon \<Rightarrow> Node option"
  fs_data :: "nat \<Rightarrow> (nat list \<times> nat) option"
  fs_next :: nat
  fs_cwd :: canon
  fs_deny :: "canon \<Rightarrow> bool"
  fs_time :: nat

definition MAX_LINKS :: nat where "MAX_LINKS = 40"

function (sequential) walk :: "nat \<Rightarrow> (canon \<Rightarrow> Node option) \<Rightarrow> bool \<Rightarrow> canon \<Rightarrow> Component list \<Rightarrow> (canon, FsError) result" where
  "walk n t follow cur [] = Ok cur"
| "walk n t follow cur (CRoot # cs) = walk n t follow [] cs"
| "walk n t follow cur (CCur # cs) = walk n t follow cur cs"
| "walk n t follow cur (CParent # cs) = walk n t follow (butlast cur) cs"
| "walk n t follow cur (CNormal s # cs) =
     (case t (cur @ [s]) of
        Some NDir \<Rightarrow> walk n t follow (cur @ [s]) cs
      | Some (NFile _) \<Rightarrow> if cs = [] then Ok (cur @ [s]) else Err NotADirectory
      | None \<Rightarrow> if cs = [] then Ok (cur @ [s]) else Err NotFound
      | Some (NLink target) \<Rightarrow>
          if cs = [] \<and> \<not> follow then Ok (cur @ [s])
          else (case n of 0 \<Rightarrow> Err FilesystemLoop | Suc m \<Rightarrow> walk m t follow cur (kernel_path target @ cs)))"
  by pat_completeness auto
termination
  by (relation "measures [\<lambda>(n, _). n, \<lambda>(_, _, _, _, cs). length cs]") auto

definition resolve :: "Fs \<Rightarrow> bool \<Rightarrow> string \<Rightarrow> (canon, FsError) result" where
  "resolve fs follow p =
     (if p = [] then Err NotFound else walk MAX_LINKS (fs_node fs) follow (fs_cwd fs) (kernel_path p))"

definition node_at :: "Fs \<Rightarrow> canon \<Rightarrow> Node option" where
  "node_at fs q = (if q = [] then Some NDir else fs_node fs q)"

text \<open>\<open>metadata\<close> and \<open>symlink_metadata\<close>\<close>

definition stat :: "Fs \<Rightarrow> bool \<Rightarrow> string \<Rightarrow> (Node, FsError) result" where
  "stat fs follow p =
     (case resolve fs follow p of
        Err e \<Rightarrow> Err e
      | Ok q \<Rightarrow> (case node_at fs q of None \<Rightarrow> Err NotFound | Some n \<Rightarrow> Ok n))"

definition fs_exists :: "Fs \<Rightarrow> string \<Rightarrow> bool" where
  "fs_exists fs p = is_ok (stat fs True p)"

definition is_file :: "Fs \<Rightarrow> string \<Rightarrow> bool" where
  "is_file fs p = (case stat fs True p of Ok (NFile _) \<Rightarrow> True | _ \<Rightarrow> False)"

definition is_dir :: "Fs \<Rightarrow> string \<Rightarrow> bool" where
  "is_dir fs p = (stat fs True p = Ok NDir)"

definition data_of :: "Fs \<Rightarrow> nat \<Rightarrow> nat list \<times> nat" where
  "data_of fs i = (case fs_data fs i of Some d \<Rightarrow> d | None \<Rightarrow> ([], 0))"

section \<open>Operations\<close>

definition set_node :: "canon \<Rightarrow> Node option \<Rightarrow> Fs \<Rightarrow> Fs" where
  "set_node q n fs = fs\<lparr>fs_node := (fs_node fs)(q := n)\<rparr>"

definition set_data :: "nat \<Rightarrow> nat list \<times> nat \<Rightarrow> Fs \<Rightarrow> Fs" where
  "set_data i d fs = fs\<lparr>fs_data := (fs_data fs)(i \<mapsto> d)\<rparr>"

text \<open>\<open>File::create\<close>: the inode, truncated.\<close>

definition create_file :: "string \<Rightarrow> Fs \<Rightarrow> (nat, FsError) result \<times> Fs" where
  "create_file p fs =
     (case resolve fs True p of
        Err e \<Rightarrow> (Err e, fs)
      | Ok q \<Rightarrow>
          if fs_deny fs q then (Err PermissionDenied, fs)
          else
            (case node_at fs q of
               None \<Rightarrow>
                 (Ok (fs_next fs), set_node q (Some (NFile (fs_next fs))) (set_data (fs_next fs) ([], fs_time fs) (fs\<lparr>fs_next := fs_next fs + 1\<rparr>)))
             | Some (NFile i) \<Rightarrow> (Ok i, set_data i ([], fs_time fs) fs)
             | _ \<Rightarrow> (Err IsADirectory, fs)))"

text \<open>\<open>File::open\<close> and \<open>OpenOptions\<close> with \<open>create\<close> and \<open>write\<close>, not truncated\<close>

definition open_file :: "string \<Rightarrow> Fs \<Rightarrow> (nat, FsError) result" where
  "open_file p fs =
     (case resolve fs True p of
        Err e \<Rightarrow> Err e
      | Ok q \<Rightarrow>
          if fs_deny fs q then Err PermissionDenied
          else (case node_at fs q of None \<Rightarrow> Err NotFound | Some (NFile i) \<Rightarrow> Ok i | _ \<Rightarrow> Err IsADirectory))"

text \<open>A write at an offset; a gap is filled with zeros.\<close>

definition write_at :: "nat \<Rightarrow> nat \<Rightarrow> nat list \<Rightarrow> Fs \<Rightarrow> Fs" where
  "write_at i off b fs =
     (let old = fst (data_of fs i);
          padded = take off old @ replicate (off - length old) 0
      in if b = [] then fs else set_data i (padded @ b @ drop (off + length b) old, fs_time fs) fs)"

definition write_file :: "string \<Rightarrow> nat list \<Rightarrow> Fs \<Rightarrow> (unit, FsError) result \<times> Fs" where
  "write_file p b fs = (case create_file p fs of (Err e, fs) \<Rightarrow> (Err e, fs) | (Ok i, fs) \<Rightarrow> (Ok (), write_at i 0 b fs))"

definition read_file :: "string \<Rightarrow> Fs \<Rightarrow> nat list option" where
  "read_file p fs = map_option (\<lambda>i. fst (data_of fs i)) (result_ok (open_file p fs))"

definition remove_file :: "string \<Rightarrow> Fs \<Rightarrow> (unit, FsError) result \<times> Fs" where
  "remove_file p fs =
     (case resolve fs False p of
        Err e \<Rightarrow> (Err e, fs)
      | Ok q \<Rightarrow>
          if fs_deny fs q then (Err PermissionDenied, fs)
          else
            (case node_at fs q of
               None \<Rightarrow> (Err NotFound, fs)
             | Some NDir \<Rightarrow> (Err IsADirectory, fs)
             | Some _ \<Rightarrow> (Ok (), set_node q None fs)))"

definition empty_dir :: "Fs \<Rightarrow> canon \<Rightarrow> bool" where
  "empty_dir fs q = (\<forall>r. strict_prefix q r \<longrightarrow> fs_node fs r = None)"

definition move_tree :: "canon \<Rightarrow> canon \<Rightarrow> Fs \<Rightarrow> Fs" where
  "move_tree a b fs =
     fs\<lparr>fs_node := (\<lambda>q. if prefix b q then fs_node fs (a @ drop (length b) q) else if prefix a q then None else fs_node fs q)\<rparr>"

definition rename :: "string \<Rightarrow> string \<Rightarrow> Fs \<Rightarrow> (unit, FsError) result \<times> Fs" where
  "rename p p' fs =
     (case (resolve fs False p, resolve fs False p') of
        (Ok a, Ok b) \<Rightarrow>
          if fs_deny fs a \<or> fs_deny fs b then (Err PermissionDenied, fs)
          else if a = b then (if node_at fs a = None then Err NotFound else Ok (), fs)
          else
            (case node_at fs a of
               None \<Rightarrow> (Err NotFound, fs)
             | Some NDir \<Rightarrow>
                 if prefix a b then (Err InvalidInput, fs)
                 else
                   (case node_at fs b of
                      None \<Rightarrow> (Ok (), move_tree a b fs)
                    | Some NDir \<Rightarrow> if empty_dir fs b then (Ok (), move_tree a b fs) else (Err DirectoryNotEmpty, fs)
                    | Some _ \<Rightarrow> (Err NotADirectory, fs))
             | Some n \<Rightarrow>
                 (case node_at fs b of
                    Some NDir \<Rightarrow> (Err IsADirectory, fs)
                  | _ \<Rightarrow> (Ok (), set_node b (Some n) (set_node a None fs))))
      | (Err e, _) \<Rightarrow> (Err e, fs)
      | (_, Err e) \<Rightarrow> (Err e, fs))"

text \<open>\<open>filetime::set_file_mtime\<close>\<close>

definition set_mtime :: "string \<Rightarrow> nat \<Rightarrow> Fs \<Rightarrow> Fs" where
  "set_mtime p t fs =
     (case resolve fs True p of
        Err _ \<Rightarrow> fs
      | Ok q \<Rightarrow>
          if fs_deny fs q then fs
          else (case node_at fs q of Some (NFile i) \<Rightarrow> set_data i (fst (data_of fs i), t) fs | _ \<Rightarrow> fs))"

text \<open>\<open>create_dir_all\<close>, from the top; it stops at the first directory it cannot make.\<close>

fun make_dirs :: "Component list \<Rightarrow> Component list \<Rightarrow> Fs \<Rightarrow> Fs" where
  "make_dirs made [] fs = fs"
| "make_dirs made (c # cs) fs =
     (case walk MAX_LINKS (fs_node fs) False (fs_cwd fs) (made @ [c]) of
        Err _ \<Rightarrow> fs
      | Ok q \<Rightarrow>
          (case node_at fs q of
             None \<Rightarrow> if fs_deny fs q then fs else make_dirs (made @ [c]) cs (set_node q (Some NDir) fs)
           | Some NDir \<Rightarrow> make_dirs (made @ [c]) cs fs
           | Some (NLink _) \<Rightarrow>
               (case walk MAX_LINKS (fs_node fs) True (fs_cwd fs) (made @ [c]) of
                  Ok r \<Rightarrow> if node_at fs r = Some NDir then make_dirs (made @ [c]) cs fs else fs
                | Err _ \<Rightarrow> fs)
           | Some (NFile _) \<Rightarrow> fs))"

end
