(* ===== verification/File_Transfer.thy ===== *)
theory File_Transfer
  imports File_Store
begin

text \<open>
  The file transfer jobs of \<^verbatim>\<open>src/libs/base/src/fs.rs\<close>, on a Unix system: validation of the names a peer sends, the
  writing and the reading side of a job, overwrite detection and resume, and the table of jobs. A stream is an open inode
  with its offset, or a buffer. \<open>FsLib\<close> holds what comes from outside the repository: compression, the digest's JSON and
  whether the device accepts a write, a flush or a read.
\<close>

section \<open>Model: data\<close>

type_synonym bytes = "nat list"

record FsLib =
  fl_compress :: "bytes \<Rightarrow> bytes"
  fl_decompress :: "bytes \<Rightarrow> bytes"
  fl_digest_text :: "nat \<times> nat \<Rightarrow> bytes"
  fl_digest_of :: "bytes \<Rightarrow> (nat \<times> nat) option"
  fl_write_ok :: bool
  fl_sync_ok :: bool
  fl_read_ok :: bool

datatype JobType = Generic | Printer

record FileEntry =
  fe_name :: string
  fe_size :: nat
  fe_modified :: nat

datatype DataSource = FilePath string | MemoryCursor bytes
datatype DataStream = FileStream nat nat | BufStream bytes nat

record FileDigest =
  fd_size :: nat
  fd_modified :: nat

record TransferJob =
  tj_id :: int
  tj_type :: JobType
  tj_remote :: string
  tj_source :: DataSource
  tj_show_hidden :: bool
  tj_is_remote :: bool
  tj_is_last_job :: bool
  tj_is_resume :: bool
  tj_file_num :: int
  tj_files :: "FileEntry list"
  tj_conn_id :: int
  tj_stream :: "DataStream option"
  tj_total_size :: nat
  tj_finished_size :: nat
  tj_transferred :: nat
  tj_overwrite_detection :: bool
  tj_file_confirmed :: bool
  tj_file_skipped :: bool
  tj_file_is_waiting :: bool
  tj_overwrite_strategy :: "bool option"
  tj_digest :: FileDigest

record FileTransferBlock =
  fb_id :: int
  fb_file_num :: int
  fb_data :: bytes
  fb_compressed :: bool

record CompletedDownload =
  cd_download_path :: string
  cd_final_path :: string
  cd_name :: string

record TransferJobMeta =
  tm_id :: int
  tm_remote :: string
  tm_to :: string
  tm_show_hidden :: bool
  tm_file_num :: int
  tm_is_remote :: bool

type_synonym 'a outcome = "('a, string) result"

definition NANOS :: nat where "NANOS = 1000000000"

text \<open>\<open>as usize\<close> of an \<open>i32\<close>, and \<open>+= 1\<close>\<close>

definition as_usize :: "int \<Rightarrow> nat" where
  "as_usize n = nat (n mod 18446744073709551616)"

definition file_num_next :: "TransferJob \<Rightarrow> TransferJob" where
  "file_num_next job = job\<lparr>tj_file_num := wrap_i32 (tj_file_num job + 1)\<rparr>"

definition sum_u64 :: "nat list \<Rightarrow> nat" where
  "sum_u64 ns = fold (\<lambda>n s. add_u64 s n) ns 0"

definition from_i32 :: "int \<Rightarrow> JobType" where
  "from_i32 value = (if value = 1 then Printer else Generic)"

section \<open>Model: names\<close>

definition get_ext :: "string \<Rightarrow> string" where
  "get_ext name = (case rsplit_once (\<lambda>c. c = CHR ''.'') name of Some (_, ext) \<Rightarrow> ext | None \<Rightarrow> [])"

definition is_compressed_file :: "string \<Rightarrow> bool" where
  "is_compressed_file name =
     (get_ext name \<in> set [''xz'', ''gz'', ''zip'', ''7z'', ''rar'', ''bz2'', ''tgz'', ''png'', ''jpg''])"

definition validate_file_name_no_traversal :: "string \<Rightarrow> unit outcome" where
  "validate_file_name_no_traversal name =
     (if list_ex (\<lambda>c. c = CHR 0x00) name then Err ''file name contains null bytes''
      else if list_ex (\<lambda>s. s = ''..'') (filter (\<lambda>s. s \<noteq> []) (split_on is_slash name)) then
        Err ''path traversal detected in file name''
      else if starts_with name ''/'' then Err ''absolute path detected in file name''
      else Ok ())"

fun validate_each :: "FileEntry list \<Rightarrow> unit outcome" where
  "validate_each [] = Ok ()"
| "validate_each (file # files) =
     (if fe_name file = [] then Err ''empty file name in multi-file transfer''
      else (case validate_file_name_no_traversal (fe_name file) of Err e \<Rightarrow> Err e | Ok _ \<Rightarrow> validate_each files))"

definition validate_transfer_file_names :: "FileEntry list \<Rightarrow> unit outcome" where
  "validate_transfer_file_names files =
     (if length files = 1 \<and> fe_name (hd files) = [] then Ok () else validate_each files)"

definition validate_fs_path_argument :: "string \<Rightarrow> string \<Rightarrow> unit outcome" where
  "validate_fs_path_argument path arg_name =
     (if path = [] then Err (arg_name @ '' cannot be empty'')
      else if list_ex (\<lambda>c. c = CHR 0x00) path then Err (arg_name @ '' contains null bytes'')
      else Ok ())"

fun validate_components :: "Fs \<Rightarrow> string \<Rightarrow> Component list \<Rightarrow> unit outcome" where
  "validate_components fs current [] = Ok ()"
| "validate_components fs current (CNormal seg # cs) =
     (let current = path_join current seg in
      case stat fs False current of
        Ok (NLink _) \<Rightarrow> Err ''symlink path component is not allowed''
      | Ok _ \<Rightarrow> validate_components fs current cs
      | Err NotFound \<Rightarrow> validate_components fs current cs
      | Err _ \<Rightarrow> Err ''failed to validate path component'')"
| "validate_components fs current (CCur # cs) = validate_components fs current cs"
| "validate_components fs current (_ # cs) = Err ''invalid file name component''"

definition validate_no_symlink_components :: "Fs \<Rightarrow> string \<Rightarrow> string \<Rightarrow> unit outcome" where
  "validate_no_symlink_components fs base name =
     (if name = [] then Ok () else validate_components fs base (components name))"

definition job_join :: "string \<Rightarrow> string \<Rightarrow> string" where
  "job_join p name = (if name = [] then p else path_join p name)"

definition join_validated_path :: "Fs \<Rightarrow> string \<Rightarrow> string \<Rightarrow> string outcome" where
  "join_validated_path fs base name =
     (case validate_file_name_no_traversal name of
        Err e \<Rightarrow> Err e
      | Ok _ \<Rightarrow>
          (case validate_no_symlink_components fs base name of
             Err e \<Rightarrow> Err e
           | Ok _ \<Rightarrow> Ok (job_join base name)))"

section \<open>Model: jobs\<close>

definition job_default :: TransferJob where
  "job_default = \<lparr>tj_id = 0, tj_type = Generic, tj_remote = [], tj_source = FilePath [], tj_show_hidden = False,
     tj_is_remote = False, tj_is_last_job = False, tj_is_resume = False, tj_file_num = 0, tj_files = [], tj_conn_id = 0,
     tj_stream = None, tj_total_size = 0, tj_finished_size = 0, tj_transferred = 0, tj_overwrite_detection = False,
     tj_file_confirmed = False, tj_file_skipped = False, tj_file_is_waiting = False, tj_overwrite_strategy = None,
     tj_digest = \<lparr>fd_size = 0, fd_modified = 0\<rparr>\<rparr>"

definition new_write :: "int \<Rightarrow> JobType \<Rightarrow> string \<Rightarrow> DataSource \<Rightarrow> int \<Rightarrow> bool \<Rightarrow> bool \<Rightarrow> bool \<Rightarrow> TransferJob" where
  "new_write jid ty remote source file_num show_hidden is_remote overwrite =
     job_default\<lparr>tj_id := jid, tj_type := ty, tj_remote := remote, tj_source := source, tj_file_num := file_num,
       tj_show_hidden := show_hidden, tj_is_remote := is_remote, tj_overwrite_detection := overwrite\<rparr>"

fun validate_files :: "Fs \<Rightarrow> string \<Rightarrow> FileEntry list \<Rightarrow> unit outcome" where
  "validate_files fs base [] = Ok ()"
| "validate_files fs base (file # files) =
     (case validate_no_symlink_components fs base (fe_name file) of Err e \<Rightarrow> Err e | Ok _ \<Rightarrow> validate_files fs base files)"

definition set_files :: "Fs \<Rightarrow> FileEntry list \<Rightarrow> TransferJob \<Rightarrow> TransferJob outcome" where
  "set_files fs files job =
     (case validate_transfer_file_names files of
        Err e \<Rightarrow> Err e
      | Ok _ \<Rightarrow>
          (case (case tj_source job of FilePath base \<Rightarrow> validate_files fs base files | MemoryCursor _ \<Rightarrow> Ok ()) of
             Err e \<Rightarrow> Err e
           | Ok _ \<Rightarrow> Ok (job\<lparr>tj_total_size := sum_u64 (map fe_size files), tj_files := files\<rparr>)))"

text \<open>\<open>new_read\<close>, with the list that \<open>get_recursive_files\<close> found\<close>

definition new_read ::
    "int \<Rightarrow> JobType \<Rightarrow> string \<Rightarrow> DataSource \<Rightarrow> FileEntry list outcome \<Rightarrow> int \<Rightarrow> bool \<Rightarrow> bool \<Rightarrow> bool \<Rightarrow> TransferJob outcome" where
  "new_read jid ty remote source found file_num show_hidden is_remote overwrite =
     (let job = new_write jid ty remote source file_num show_hidden is_remote overwrite in
      case source of
        FilePath _ \<Rightarrow>
          (case found of Err e \<Rightarrow> Err e | Ok files \<Rightarrow> Ok (job\<lparr>tj_files := files, tj_total_size := sum_u64 (map fe_size files)\<rparr>))
      | MemoryCursor c \<Rightarrow> Ok (job\<lparr>tj_total_size := length c\<rparr>))"

definition get_buf_data :: "TransferJob \<Rightarrow> bytes option" where
  "get_buf_data job = (case tj_stream job of Some (BufStream b _) \<Rightarrow> Some b | _ \<Rightarrow> None)"

definition set_digest :: "nat \<Rightarrow> nat \<Rightarrow> TransferJob \<Rightarrow> TransferJob" where
  "set_digest sz modified job = job\<lparr>tj_digest := \<lparr>fd_size = sz, fd_modified = modified\<rparr>\<rparr>"

definition resolve_entry_path :: "Fs \<Rightarrow> TransferJob \<Rightarrow> string \<Rightarrow> string \<Rightarrow> string option" where
  "resolve_entry_path fs job base name =
     (if tj_type job = Generic then result_ok (join_validated_path fs base name) else Some (job_join base name))"

definition download_of :: "string \<Rightarrow> string" where "download_of path = path @ ''.download''"
definition digest_of :: "string \<Rightarrow> string" where "digest_of path = path @ ''.digest''"

definition modify_time :: "TransferJob \<Rightarrow> Fs \<Rightarrow> Fs" where
  "modify_time job fs =
     (if tj_type job = Printer then fs
      else
        (case tj_source job of
           FilePath p \<Rightarrow>
             let file_num = as_usize (tj_file_num job) in
             if file_num < length (tj_files job) then
               let entry = tj_files job ! file_num in
               (case resolve_entry_path fs job p (fe_name entry) of
                  None \<Rightarrow> fs
                | Some path \<Rightarrow>
                    let fs = snd (remove_file (digest_of path) fs);
                        fs = snd (rename (download_of path) path fs)
                    in set_mtime path (fe_modified entry * NANOS) fs)
             else fs
         | MemoryCursor _ \<Rightarrow> fs))"

definition current_download :: "Fs \<Rightarrow> TransferJob \<Rightarrow> CompletedDownload option outcome" where
  "current_download fs job =
     (if tj_type job = Printer \<or> tj_stream job = None then Ok None
      else
        (case tj_source job of
           MemoryCursor _ \<Rightarrow> Ok None
         | FilePath base \<Rightarrow>
             let file_num = as_usize (tj_file_num job) in
             if file_num \<ge> length (tj_files job) then Ok None
             else
               let entry = tj_files job ! file_num in
               (case join_validated_path fs base (fe_name entry) of
                  Err e \<Rightarrow> Err e
                | Ok final_path \<Rightarrow>
                    Ok (Some \<lparr>cd_download_path = download_of final_path, cd_final_path = final_path,
                      cd_name = (if fe_name entry = [] then (case file_name final_path of Some n \<Rightarrow> n | None \<Rightarrow> [])
                        else fe_name entry)\<rparr>))))"

fun download_paths_of :: "Fs \<Rightarrow> string \<Rightarrow> FileEntry list \<Rightarrow> string list outcome" where
  "download_paths_of fs base [] = Ok []"
| "download_paths_of fs base (entry # files) =
     (case join_validated_path fs base (fe_name entry) of
        Err e \<Rightarrow> Err e
      | Ok path \<Rightarrow>
          (case download_paths_of fs base files of
             Err e \<Rightarrow> Err e
           | Ok paths \<Rightarrow> Ok (path # download_of path # paths)))"

definition download_paths :: "Fs \<Rightarrow> TransferJob \<Rightarrow> string list outcome" where
  "download_paths fs job =
     (case tj_source job of MemoryCursor _ \<Rightarrow> Ok [] | FilePath base \<Rightarrow> download_paths_of fs base (tj_files job))"

definition drop_current_download_writer :: "FsLib \<Rightarrow> TransferJob \<Rightarrow> unit outcome \<times> TransferJob" where
  "drop_current_download_writer L job =
     (case tj_stream job of
        Some (FileStream _ _) \<Rightarrow> (if fl_sync_ok L then Ok () else Err ''flush'', job\<lparr>tj_stream := None\<rparr>)
      | _ \<Rightarrow> (Ok (), job\<lparr>tj_stream := None\<rparr>))"

definition remove_download_file :: "TransferJob \<Rightarrow> Fs \<Rightarrow> Fs" where
  "remove_download_file job fs =
     (if tj_type job = Printer then fs
      else
        (case tj_source job of
           FilePath p \<Rightarrow>
             let file_num = as_usize (tj_file_num job) in
             if file_num < length (tj_files job) then
               (case resolve_entry_path fs job p (fe_name (tj_files job ! file_num)) of
                  None \<Rightarrow> fs
                | Some path \<Rightarrow> snd (remove_file (digest_of path) (snd (remove_file (download_of path) fs))))
             else fs
         | MemoryCursor _ \<Rightarrow> fs))"

definition set_finished_size_on_resume :: "TransferJob \<Rightarrow> TransferJob" where
  "set_finished_size_on_resume job =
     (if tj_is_resume job \<and> tj_file_num job > 0
      then job\<lparr>tj_finished_size := sum_u64 (map fe_size (take (as_usize (tj_file_num job)) (tj_files job)))\<rparr>
      else job)"

section \<open>Model: writing\<close>

definition open_target :: "FsLib \<Rightarrow> string \<Rightarrow> FileEntry \<Rightarrow> TransferJob \<Rightarrow> Fs \<Rightarrow> unit outcome \<times> TransferJob \<times> Fs" where
  "open_target L p entry job fs =
     (if tj_type job = Printer then
        (case create_file p fs of
           (Err _, fs) \<Rightarrow> (Err ''create'', job, fs)
         | (Ok i, fs) \<Rightarrow> (Ok (), job\<lparr>tj_stream := Some (FileStream i 0)\<rparr>, fs))
      else
        (case join_validated_path fs p (fe_name entry) of
           Err e \<Rightarrow> (Err e, job, fs)
         | Ok path \<Rightarrow>
             let fs = (case path_parent path of Some pp \<Rightarrow> make_dirs [] pp fs | None \<Rightarrow> fs) in
             (case (if fs_exists fs (digest_of path) then remove_file (digest_of path) fs else (Ok (), fs)) of
                (Err _, fs) \<Rightarrow> (Err ''remove'', job, fs)
              | (Ok _, fs) \<Rightarrow>
                  (case create_file (download_of path) fs of
                     (Err _, fs) \<Rightarrow> (Err ''create'', job, fs)
                   | (Ok i, fs) \<Rightarrow>
                       (Ok (), job\<lparr>tj_stream := Some (FileStream i 0)\<rparr>,
                        snd (write_file (digest_of path) (fl_digest_text L (fd_size (tj_digest job), fd_modified (tj_digest job))) fs))))))"

definition select_file :: "FsLib \<Rightarrow> FileTransferBlock \<Rightarrow> TransferJob \<Rightarrow> Fs \<Rightarrow> unit outcome \<times> TransferJob \<times> Fs" where
  "select_file L block job fs =
     (case tj_source job of
        FilePath p \<Rightarrow>
          let file_num = as_usize (fb_file_num block) in
          if file_num \<ge> length (tj_files job) then (Err ''Wrong file number'', job, fs)
          else if file_num \<noteq> as_usize (tj_file_num job) \<or> tj_stream job = None then
            let fs = modify_time job fs in
            if (case tj_stream job of Some (FileStream _ _) \<Rightarrow> \<not> fl_sync_ok L | _ \<Rightarrow> False) then (Err ''sync'', job, fs)
            else open_target L p (tj_files job ! file_num) (job\<lparr>tj_file_num := fb_file_num block\<rparr>) fs
          else (Ok (), job, fs)
      | MemoryCursor c \<Rightarrow>
          (Ok (), if tj_stream job = None then job\<lparr>tj_stream := Some (BufStream c 0)\<rparr> else job, fs))"

definition stream_write :: "bytes \<Rightarrow> DataStream \<Rightarrow> Fs \<Rightarrow> DataStream \<times> Fs" where
  "stream_write b s fs =
     (case s of
        FileStream i off \<Rightarrow> (FileStream i (off + length b), write_at i off b fs)
      | BufStream c pos \<Rightarrow> (BufStream (take pos c @ b @ drop (pos + length b) c) (pos + length b), fs))"

definition write_block :: "FsLib \<Rightarrow> FileTransferBlock \<Rightarrow> TransferJob \<Rightarrow> Fs \<Rightarrow> unit outcome \<times> TransferJob \<times> Fs" where
  "write_block L block job fs =
     (if fb_id block \<noteq> tj_id job then (Err ''Wrong id'', job, fs)
      else
        (case select_file L block job fs of
           (Err e, job, fs) \<Rightarrow> (Err e, job, fs)
         | (Ok _, job, fs) \<Rightarrow>
             let b = (if fb_compressed block then fl_decompress L (fb_data block) else fb_data block) in
             (case tj_stream job of
                None \<Rightarrow> (Err ''file is None'', job, fs)
              | Some s \<Rightarrow>
                  if \<not> fl_write_ok L then (Err ''write'', job, fs)
                  else
                    (case stream_write b s fs of (s, fs) \<Rightarrow>
                       (Ok (), job\<lparr>tj_stream := Some s, tj_finished_size := add_u64 (tj_finished_size job) (length b),
                          tj_transferred := add_u64 (tj_transferred job) (length (fb_data block))\<rparr>, fs)))))"

section \<open>Model: reading\<close>

definition reset_file :: "TransferJob \<Rightarrow> TransferJob" where
  "reset_file job = job\<lparr>tj_file_confirmed := False, tj_file_is_waiting := False\<rparr>"

text \<open>\<open>Ok True\<close> when the job has no file left.\<close>

definition open_data_stream :: "Fs \<Rightarrow> TransferJob \<Rightarrow> bool outcome \<times> TransferJob" where
  "open_data_stream fs job =
     (case tj_source job of
        FilePath p \<Rightarrow>
          let file_num = as_usize (tj_file_num job) in
          if file_num \<ge> length (tj_files job) then (Ok True, job\<lparr>tj_stream := None\<rparr>)
          else if tj_stream job = None then
            (case open_file (job_join p (fe_name (tj_files job ! file_num))) fs of
               Ok i \<Rightarrow> (Ok False, reset_file (job\<lparr>tj_stream := Some (FileStream i 0)\<rparr>))
             | Err _ \<Rightarrow> (Err ''open'', reset_file (file_num_next job)))
          else (Ok False, job)
      | MemoryCursor c \<Rightarrow>
          (Ok False,
           if tj_stream job = None then job\<lparr>tj_source := MemoryCursor [], tj_stream := Some (BufStream c 0)\<rparr> else job))"

definition get_current_digest :: "Fs \<Rightarrow> TransferJob \<Rightarrow> (nat \<times> nat) outcome" where
  "get_current_digest fs job =
     (case tj_stream job of
        None \<Rightarrow> Err ''file is None''
      | Some (BufStream _ _) \<Rightarrow> Err ''No digest for buf stream''
      | Some (FileStream i _) \<Rightarrow> Ok (snd (data_of fs i) div NANOS, length (fst (data_of fs i))))"

text \<open>Returns the digest that is sent to the peer, over the network or to the connection manager.\<close>

definition init_data_stream :: "Fs \<Rightarrow> TransferJob \<Rightarrow> (nat \<times> nat) option outcome \<times> TransferJob" where
  "init_data_stream fs job =
     (case open_data_stream fs job of
        (Err e, job) \<Rightarrow> (Err e, job)
      | (Ok True, job) \<Rightarrow> (Ok None, job)
      | (Ok False, job) \<Rightarrow>
          if tj_type job = Generic \<and> tj_overwrite_detection job \<and> \<not> tj_file_confirmed job \<and> \<not> tj_file_is_waiting job then
            (case get_current_digest fs job of
               Err e \<Rightarrow> (Err e, job)
             | Ok d \<Rightarrow> (Ok (Some d), job\<lparr>tj_file_is_waiting := True\<rparr>))
          else (Ok None, job))"

definition BUF_SIZE :: nat where "BUF_SIZE = 131072"

text \<open>The loop of \<open>read\<close> ends at the end of the stream or with a full buffer.\<close>

definition stream_read :: "Fs \<Rightarrow> DataStream \<Rightarrow> bytes \<times> DataStream" where
  "stream_read fs s =
     (case s of
        FileStream i off \<Rightarrow> (let b = take BUF_SIZE (drop off (fst (data_of fs i))) in (b, FileStream i (off + length b)))
      | BufStream c pos \<Rightarrow> (let b = take BUF_SIZE (drop pos c) in (b, BufStream c (pos + length b))))"

definition is_memory :: "TransferJob \<Rightarrow> bool" where
  "is_memory job = (case tj_source job of MemoryCursor _ \<Rightarrow> True | FilePath _ \<Rightarrow> False)"

definition read_name :: "TransferJob \<Rightarrow> string" where
  "read_name job =
     (case tj_source job of
        FilePath p \<Rightarrow>
          let file = tj_files job ! as_usize (tj_file_num job) in
          if length (tj_files job) = 1 \<and> fe_name file = [] then (case file_name p of Some n \<Rightarrow> n | None \<Rightarrow> [])
          else fe_name file
      | MemoryCursor _ \<Rightarrow> [])"

definition next_read_file :: "TransferJob \<Rightarrow> TransferJob" where
  "next_read_file job = reset_file ((file_num_next job)\<lparr>tj_stream := None\<rparr>)"

definition read_block :: "FsLib \<Rightarrow> Fs \<Rightarrow> TransferJob \<Rightarrow> FileTransferBlock option outcome \<times> TransferJob" where
  "read_block L fs job =
     (if tj_type job = Generic \<and> tj_overwrite_detection job \<and> \<not> tj_file_confirmed job then (Ok None, job)
      else if \<not> is_memory job \<and> as_usize (tj_file_num job) \<ge> length (tj_files job) then (Ok None, job\<lparr>tj_stream := None\<rparr>)
      else
        (case tj_stream job of
           None \<Rightarrow> (Err ''data stream is None'', job)
         | Some s \<Rightarrow>
             if \<not> fl_read_ok L then (Err ''read'', next_read_file job)
             else
               (case stream_read fs s of (b, s) \<Rightarrow>
                  if b = [] then
                    (if is_memory job then (Ok None, job\<lparr>tj_stream := None\<rparr>)
                     else
                       (Ok (Some \<lparr>fb_id = tj_id job, fb_file_num = tj_file_num job, fb_data = [], fb_compressed = False\<rparr>),
                        next_read_file job))
                  else
                    let packed = fl_compress L b;
                        compressed = (\<not> is_memory job \<and> \<not> is_compressed_file (read_name job) \<and> length packed < length b);
                        data = (if compressed then packed else b)
                    in (Ok (Some \<lparr>fb_id = tj_id job, fb_file_num = tj_file_num job, fb_data = data, fb_compressed = compressed\<rparr>),
                        job\<lparr>tj_stream := Some s, tj_finished_size := add_u64 (tj_finished_size job) (length b),
                          tj_transferred := add_u64 (tj_transferred job) (length data)\<rparr>))))"

section \<open>Model: confirmation and resume\<close>

definition set_file_confirmed :: "bool \<Rightarrow> TransferJob \<Rightarrow> TransferJob" where
  "set_file_confirmed b job = job\<lparr>tj_file_confirmed := b, tj_file_skipped := False\<rparr>"

definition set_file_is_waiting :: "bool \<Rightarrow> TransferJob \<Rightarrow> TransferJob" where
  "set_file_is_waiting b job = job\<lparr>tj_file_is_waiting := b\<rparr>"

definition job_skipped :: "TransferJob \<Rightarrow> bool" where
  "job_skipped job = (tj_file_skipped job \<and> length (tj_files job) = 1)"

definition job_completed :: "TransferJob \<Rightarrow> bool" where
  "job_completed job = (\<not> tj_overwrite_detection job \<or> \<not> tj_file_confirmed job \<and> \<not> tj_file_is_waiting job)"

definition job_error :: "TransferJob \<Rightarrow> string option" where
  "job_error job = (if job_skipped job then Some ''skipped'' else None)"

definition set_file_skipped :: "TransferJob \<Rightarrow> TransferJob" where
  "set_file_skipped job =
     (file_num_next (set_file_is_waiting False (set_file_confirmed False (job\<lparr>tj_stream := None\<rparr>))))\<lparr>tj_file_skipped := True\<rparr>"

definition set_stream_offset :: "Fs \<Rightarrow> nat \<Rightarrow> nat \<Rightarrow> TransferJob \<Rightarrow> TransferJob" where
  "set_stream_offset fs file_num offset job =
     (if file_num \<ge> length (tj_files job) then job
      else
        (case tj_source job of
           MemoryCursor _ \<Rightarrow> job
         | FilePath p \<Rightarrow>
             (case resolve_entry_path fs job p (fe_name (tj_files job ! file_num)) of
                None \<Rightarrow> job
              | Some path \<Rightarrow>
                  let opened =
                    (if fs_exists fs (download_of path) \<and> fs_exists fs (digest_of path) then result_ok (open_file (download_of path) fs)
                     else if fs_exists fs path then result_ok (open_file path fs)
                     else None)
                  in case opened of
                       None \<Rightarrow> job
                     | Some i \<Rightarrow>
                         job\<lparr>tj_stream := Some (FileStream i offset), tj_transferred := add_u64 (tj_transferred job) offset,
                           tj_finished_size := add_u64 (tj_finished_size job) offset\<rparr>)))"

datatype ConfirmUnion = Skip bool | OffsetBlk nat

record SendConfirmRequest =
  sc_id :: int
  sc_file_num :: int
  sc_union :: "ConfirmUnion option"

definition confirm :: "Fs \<Rightarrow> SendConfirmRequest \<Rightarrow> TransferJob \<Rightarrow> TransferJob" where
  "confirm fs r job =
     (if tj_file_num job \<noteq> sc_file_num r then job
      else
        (case sc_union r of
           Some (Skip s) \<Rightarrow> if s then set_file_skipped job else set_file_confirmed True job
         | Some (OffsetBlk offset) \<Rightarrow>
             let job = set_file_confirmed True job in
             if offset > 0 then set_stream_offset fs (as_usize (sc_file_num r)) offset job else job
         | None \<Rightarrow> job))"

definition gen_meta :: "TransferJob \<Rightarrow> TransferJobMeta" where
  "gen_meta job = \<lparr>tm_id = tj_id job, tm_remote = tj_remote job,
     tm_to = (case tj_source job of FilePath p \<Rightarrow> p | MemoryCursor _ \<Rightarrow> []),
     tm_show_hidden = tj_show_hidden job, tm_file_num = tj_file_num job, tm_is_remote = tj_is_remote job\<rparr>"

record FileTransferDigest =
  dg_id :: int
  dg_file_num :: int
  dg_last_modified :: nat
  dg_file_size :: nat
  dg_is_identical :: bool
  dg_transferred_size :: nat

datatype DigestCheckResult = IsSame | NeedConfirm FileTransferDigest | NoSuchFile

definition resume_digest :: "FsLib \<Rightarrow> Fs \<Rightarrow> string \<Rightarrow> FileTransferDigest \<Rightarrow> FileTransferDigest option" where
  "resume_digest L fs file_path digest =
     (if fs_exists fs (digest_of file_path) \<and> fs_exists fs (download_of file_path) then
        (case Option.bind (read_file (digest_of file_path) fs) (fl_digest_of L) of
           None \<Rightarrow> None
         | Some (sz, modified) \<Rightarrow>
             if modified = dg_last_modified digest \<and> sz = dg_file_size digest then
               (case stat fs True (download_of file_path) of
                  Err _ \<Rightarrow> None
                | Ok n \<Rightarrow>
                    let len = (case n of NFile i \<Rightarrow> length (fst (data_of fs i)) | _ \<Rightarrow> 0) in
                    if len > 0 then
                      Some (digest\<lparr>dg_is_identical := True, dg_transferred_size := len\<rparr>)
                    else None)
             else None)
      else None)"

definition is_write_need_confirmation :: "FsLib \<Rightarrow> Fs \<Rightarrow> bool \<Rightarrow> string \<Rightarrow> FileTransferDigest \<Rightarrow> DigestCheckResult" where
  "is_write_need_confirmation L fs is_resume file_path digest =
     (case (if is_resume then resume_digest L fs file_path digest else None) of
        Some d \<Rightarrow> NeedConfirm d
      | None \<Rightarrow>
          (case stat fs True file_path of
             Ok (NFile i) \<Rightarrow>
               let (content, mt) = data_of fs i in
               NeedConfirm \<lparr>dg_id = dg_id digest, dg_file_num = dg_file_num digest, dg_last_modified = mt div NANOS,
                 dg_file_size = length content,
                 dg_is_identical = (dg_last_modified digest * NANOS = mt \<and> dg_file_size digest = length content),
                 dg_transferred_size = 0\<rparr>
           | _ \<Rightarrow> NoSuchFile))"

section \<open>Model: table of jobs\<close>

definition get_job :: "int \<Rightarrow> TransferJob list \<Rightarrow> TransferJob option" where
  "get_job i jobs = List.find (\<lambda>x. tj_id x = i) jobs"

fun remove_job :: "int \<Rightarrow> TransferJob list \<Rightarrow> TransferJob option \<times> TransferJob list" where
  "remove_job i [] = (None, [])"
| "remove_job i (x # xs) =
     (if tj_id x = i then (Some x, xs) else (case remove_job i xs of (r, xs) \<Rightarrow> (r, x # xs)))"

datatype FileMsg =
    MsgError int string int | MsgBlock FileTransferBlock | MsgDone int int | MsgDigest int int nat nat bool
  | MsgConfirm int int ConfirmUnion | MsgOverwrite FileTransferDigest

fun init_jobs :: "Fs \<Rightarrow> TransferJob list \<Rightarrow> FileMsg list \<times> TransferJob list" where
  "init_jobs fs [] = ([], [])"
| "init_jobs fs (job # jobs) =
     (let (out, job') =
        (if tj_is_last_job job then ([], job)
         else
           (case init_data_stream fs job of
              (Err e, job) \<Rightarrow> ([MsgError (tj_id job) e (tj_file_num job)], job)
            | (Ok None, job) \<Rightarrow> ([], job)
            | (Ok (Some (modified, sz)), job) \<Rightarrow> ([MsgDigest (tj_id job) (tj_file_num job) modified sz (tj_is_resume job)], job)));
          (outs, jobs) = init_jobs fs jobs
      in (out @ outs, job' # jobs))"

text \<open>The first job that is not left from an earlier session is read once.\<close>

fun read_first :: "FsLib \<Rightarrow> Fs \<Rightarrow> TransferJob list \<Rightarrow> FileMsg list \<times> TransferJob list" where
  "read_first L fs [] = ([], [])"
| "read_first L fs (job # jobs) =
     (if tj_is_last_job job then (case read_first L fs jobs of (out, jobs) \<Rightarrow> (out, job # jobs))
      else
        (case read_block L fs job of
           (Err e, job) \<Rightarrow> ([MsgError (tj_id job) e (tj_file_num job)], job # jobs)
         | (Ok (Some block), job) \<Rightarrow> ([MsgBlock block], job # jobs)
         | (Ok None, job) \<Rightarrow>
             if job_completed job then
               ([case job_error job of Some e \<Rightarrow> MsgError (tj_id job) e (tj_file_num job) | None \<Rightarrow> MsgDone (tj_id job) (tj_file_num job)],
                snd (remove_job (tj_id job) (job # jobs)))
             else ([], job # jobs)))"

definition handle_read_jobs :: "FsLib \<Rightarrow> Fs \<Rightarrow> TransferJob list \<Rightarrow> FileMsg list \<times> TransferJob list" where
  "handle_read_jobs L fs jobs =
     (case init_jobs fs jobs of (out, jobs) \<Rightarrow> (case read_first L fs jobs of (out', jobs) \<Rightarrow> (out @ out', jobs)))"

section \<open>Model: single operations\<close>

definition fs_remove_file :: "string \<Rightarrow> Fs \<Rightarrow> unit outcome \<times> Fs" where
  "fs_remove_file file fs =
     (case validate_fs_path_argument file ''file path'' of
        Err e \<Rightarrow> (Err e, fs)
      | Ok _ \<Rightarrow> (case remove_file file fs of (Ok _, fs) \<Rightarrow> (Ok (), fs) | (Err _, fs) \<Rightarrow> (Err ''remove'', fs)))"

definition rename_file :: "string \<Rightarrow> string \<Rightarrow> Fs \<Rightarrow> unit outcome \<times> Fs" where
  "rename_file path new_name fs =
     (case validate_fs_path_argument path ''path'' of
        Err e \<Rightarrow> (Err e, fs)
      | Ok _ \<Rightarrow>
          if new_name = [] then (Err ''new file name cannot be empty'', fs)
          else
            (case validate_file_name_no_traversal new_name of
               Err e \<Rightarrow> (Err e, fs)
             | Ok _ \<Rightarrow>
                 if fs_exists fs path then
                   (case path_parent path of
                      None \<Rightarrow> (Err ''Parent directoy not exists'', fs)
                    | Some parent \<Rightarrow>
                        (case rename path (path_join (print_components parent) new_name) fs of
                           (Ok _, fs) \<Rightarrow> (Ok (), fs)
                         | (Err _, fs) \<Rightarrow> (Err ''rename'', fs)))
                 else (Err ''not exists'', fs)))"

definition transform_windows_path :: "FileEntry list \<Rightarrow> FileEntry list" where
  "transform_windows_path entries =
     map (\<lambda>e. e\<lparr>fe_name := map (\<lambda>c. if c = CHR 0x5C then CHR ''/'' else c) (fe_name e)\<rparr>) entries"

end
