(* ===== verification/File_Paths.thy ===== *)
theory File_Paths
  imports File_Transfer
begin

text \<open>
  Paths in the tree of a file transfer: how a joined path is resolved, what the validation of \<^verbatim>\<open>src/libs/base/src/fs.rs\<close>
  establishes about the names of an entry, and where the entry, its \<open>.download\<close> and its \<open>.digest\<close> file lie. \<open>destination_ok\<close>
  is what a writing job needs of its destination; \<open>confined\<close> relates two trees that differ only below it.
\<close>

section \<open>Joining paths\<close>

lemma split_on_sep: "P x \<Longrightarrow> split_on P (a @ x # b) = split_on P a @ split_on P b"
proof (induction a)
  case (Cons c a)
  then show ?case by (cases "split_on P a") auto
qed simp

lemma pieces_sep: "pieces (a @ CHR ''/'' # b) = pieces a @ pieces b"
  by (simp add: pieces_def split_on_sep)

lemma pieces_Nil [simp]: "pieces [] = []"
  by (simp add: pieces_def)

definition base_path :: "string \<Rightarrow> Component list" where
  "base_path p = (if is_absolute p then [CRoot] else []) @ map piece (pieces p)"

lemma kernel_path_base: "kernel_path p = base_path p @ (if p \<noteq> [] \<and> is_slash (last p) then [CCur] else [])"
  by (simp add: kernel_path_def base_path_def)

lemma pieces_join:
  assumes "p \<noteq> []" "\<not> is_absolute n"
  shows "pieces (path_join p n) = pieces p @ pieces n"
proof (cases "is_slash (last p)")
  case True
  then have p: "p = butlast p @ [CHR ''/'']" using assms(1) by (metis append_butlast_last_id)
  have "path_join p n = p @ n" using True assms by (simp add: path_join_def)
  also have "\<dots> = butlast p @ CHR ''/'' # n" by (subst p) simp
  finally have "pieces (path_join p n) = pieces (butlast p) @ pieces n" by (simp add: pieces_sep)
  moreover have "pieces p = pieces (butlast p)" by (subst p) (simp add: pieces_sep)
  ultimately show ?thesis by simp
next
  case False
  then show ?thesis using assms by (simp add: path_join_def pieces_sep)
qed

lemma path_join_ne: "n \<noteq> [] \<Longrightarrow> path_join p n \<noteq> []"
  by (simp add: path_join_def)

lemma is_absolute_join: "p \<noteq> [] \<Longrightarrow> \<not> is_absolute n \<Longrightarrow> is_absolute (path_join p n) = is_absolute p"
  by (auto simp: path_join_def is_absolute_def hd_append)

lemma kernel_path_join:
  assumes "p \<noteq> []" "\<not> is_absolute n" "n \<noteq> []"
  shows "kernel_path (path_join p n) = base_path p @ kernel_path n"
proof -
  have "last (path_join p n) = last n" using assms by (auto simp: path_join_def)
  then show ?thesis
    using assms path_join_ne [OF assms(3), of p] is_absolute_join [OF assms(1,2)]
    by (simp add: kernel_path_def base_path_def pieces_join)
qed

lemma path_join_suffix: "n \<noteq> [] \<Longrightarrow> path_join p n @ s = path_join p (n @ s)"
  by (auto simp: path_join_def is_absolute_def)

section \<open>Resolving below a directory\<close>

definition is_dir_in :: "(canon \<Rightarrow> Node option) \<Rightarrow> canon \<Rightarrow> bool" where
  "is_dir_in t q \<longleftrightarrow> q = [] \<or> t q = Some NDir"

lemma walk_append:
  assumes "walk n t True cur cs = Ok B" "is_dir_in t B"
  shows "\<exists>m. \<forall>f ds. ds \<noteq> [] \<longrightarrow> walk n t f cur (cs @ ds) = walk m t f B ds"
  using assms
proof (induction n t True cur cs rule: walk.induct)
  case (5 n t cur s cs)
  show ?case
  proof (cases "t (cur @ [s])")
    case None
    with 5 show ?thesis by (auto simp: is_dir_in_def split: if_splits)
  next
    case (Some a)
    show ?thesis
    proof (cases a)
      case (NFile i)
      with 5 Some show ?thesis by (auto simp: is_dir_in_def split: if_splits)
    next
      case NDir
      with 5 Some show ?thesis by simp
    next
      case (NLink target)
      with 5 Some obtain m where "n = Suc m" "walk m t True cur (kernel_path target @ cs) = Ok B" by (cases n) auto
      with 5 Some NLink show ?thesis by simp
    qed
  qed
qed auto

lemma walk_CCur: "walk n t True cur (cs @ [CCur]) = Ok B \<Longrightarrow> walk n t True cur cs = Ok B"
proof (induction n t True cur cs rule: walk.induct)
  case (5 n t cur s cs)
  show ?case
  proof (cases "t (cur @ [s])")
    case None
    with 5 show ?thesis by simp
  next
    case (Some a)
    show ?thesis
    proof (cases a)
      case (NLink target)
      with 5 Some show ?thesis by (cases n) simp_all
    qed (use 5 Some in simp_all)
  qed
qed simp_all

lemma base_path_walk:
  assumes "walk n t True cur (kernel_path p) = Ok B"
  shows "walk n t True cur (base_path p) = Ok B"
  using assms by (auto simp: kernel_path_base split: if_splits intro: walk_CCur)

text \<open>The tree with nothing below \<open>B\<close>: a path that leads to \<open>B\<close> there leads to it whatever \<open>B\<close> holds.\<close>

definition mask :: "canon \<Rightarrow> (canon \<Rightarrow> Node option) \<Rightarrow> canon \<Rightarrow> Node option" where
  "mask B t q = (if strict_prefix B q then None else t q)"

lemma mask_eqI: "(\<And>q. \<not> strict_prefix B q \<Longrightarrow> t' q = t q) \<Longrightarrow> mask B t' = mask B t"
  by (rule ext) (simp add: mask_def)

lemma is_dir_mask [simp]: "is_dir_in (mask B t) B = is_dir_in t B"
  by (simp add: is_dir_in_def mask_def)

lemma walk_unmask: "walk n (mask B t) True cur cs = Ok B \<Longrightarrow> walk n t True cur cs = Ok B"
proof (induction n "mask B t" True cur cs rule: walk.induct)
  case (5 n cur s cs)
  show ?case
  proof (cases "strict_prefix B (cur @ [s])")
    case True
    with 5 show ?thesis by (auto simp: mask_def split: if_splits)
  next
    case False
    then have t: "mask B t (cur @ [s]) = t (cur @ [s])" by (simp add: mask_def)
    show ?thesis
    proof (cases "t (cur @ [s])")
      case None
      with 5 t show ?thesis by simp
    next
      case (Some a)
      show ?thesis
      proof (cases a)
        case (NLink target)
        with 5 Some t show ?thesis by (cases n) simp_all
      qed (use 5 Some t in simp_all)
    qed
  qed
qed simp_all

fun normals :: "Component list \<Rightarrow> string list" where
  "normals [] = []"
| "normals (CNormal s # cs) = s # normals cs"
| "normals (_ # cs) = normals cs"

lemma normals_append [simp]: "normals (cs @ ds) = normals cs @ normals ds"
  by (induction cs rule: normals.induct) auto

definition plain :: "Component list \<Rightarrow> bool" where
  "plain cs \<longleftrightarrow> CRoot \<notin> set cs \<and> CParent \<notin> set cs"

fun nolinks :: "(canon \<Rightarrow> Node option) \<Rightarrow> canon \<Rightarrow> string list \<Rightarrow> bool" where
  "nolinks t C [] = True"
| "nolinks t C (s # ns) = ((\<forall>target. t (C @ [s]) \<noteq> Some (NLink target)) \<and> nolinks t (C @ [s]) ns)"

lemma nolinks_append: "nolinks t C (ms @ ns) = (nolinks t C ms \<and> nolinks t (C @ ms) ns)"
  by (induction ms arbitrary: C) auto

text \<open>Where no link is in the way, the names are walked one by one.\<close>

lemma walk_plain:
  assumes "walk m t f C cs = Ok q" "is_dir_in t C" "plain cs" "nolinks t C (normals cs)"
  shows "q = C @ normals cs \<and> (normals cs \<noteq> [] \<longrightarrow> is_dir_in t (butlast q))"
  using assms
proof (induction cs arbitrary: C)
  case (Cons c cs)
  have p: "plain cs" using Cons.prems(3) by (simp add: plain_def)
  show ?case
  proof (cases c)
    case (CNormal s)
    show ?thesis
    proof (cases "t (C @ [s])")
      case None
      with Cons.prems CNormal show ?thesis by (auto split: if_splits)
    next
      case (Some a)
      show ?thesis
      proof (cases a)
        case NDir
        have "walk m t f (C @ [s]) cs = Ok q" "is_dir_in t (C @ [s])" "nolinks t (C @ [s]) (normals cs)"
          using Cons.prems(1,4) CNormal Some NDir by (simp_all add: is_dir_in_def)
        from Cons.IH [OF this(1,2) p this(3)] show ?thesis using CNormal Cons.prems(2) by (cases "normals cs") auto
      qed (use Cons.prems CNormal Some in \<open>auto split: if_splits\<close>)
    qed
  next
    case CCur
    with Cons.prems Cons.IH [OF _ _ p] show ?thesis by simp
  qed (use Cons.prems(3) in \<open>simp_all add: plain_def\<close>)
qed simp

section \<open>Names of a transfer\<close>

lemma split_on_last: "\<forall>c\<in>set s. \<not> P c \<Longrightarrow> split_on P (n @ s) = butlast (split_on P n) @ [last (split_on P n) @ s]"
proof (induction n)
  case Nil
  then show ?case by (simp add: split_on_none)
next
  case (Cons c n)
  then show ?case by (cases "split_on P n") auto
qed

text \<open>Directories of a name, and the name of its last entry\<close>

definition name_dirs :: "string \<Rightarrow> Component list" where
  "name_dirs n = map piece (filter (\<lambda>s. s \<noteq> []) (butlast (split_on is_slash n)))"

definition name_leaf :: "string \<Rightarrow> string" where
  "name_leaf n = last (split_on is_slash n)"

lemma pieces_split: "pieces n = filter (\<lambda>s. s \<noteq> []) (butlast (split_on is_slash n)) @ (if name_leaf n = [] then [] else [name_leaf n])"
proof -
  have "split_on is_slash n = butlast (split_on is_slash n) @ [name_leaf n]" by (simp add: name_leaf_def)
  then have "pieces n = filter (\<lambda>s. s \<noteq> []) (butlast (split_on is_slash n) @ [name_leaf n])" by (simp only: pieces_def)
  then show ?thesis by simp
qed

definition is_suffix :: "string \<Rightarrow> bool" where
  "is_suffix s \<longleftrightarrow> s = ''.download'' \<or> s = ''.digest''"

lemma kernel_path_suffix:
  assumes "n \<noteq> []" "\<not> is_absolute n" "is_suffix s"
  shows "kernel_path (n @ s) = name_dirs n @ [CNormal (name_leaf n @ s)]"
proof -
  have s: "\<forall>c\<in>set s. \<not> is_slash c" "s \<noteq> []" "\<not> is_slash (last s)" "2 < length s" using assms(3) by (auto simp: is_suffix_def)
  then have "2 < length (name_leaf n @ s)" by simp
  then have "name_leaf n @ s \<noteq> ''.''" "name_leaf n @ s \<noteq> ''..''" by fastforce+
  then have "map piece (pieces (n @ s)) = name_dirs n @ [CNormal (name_leaf n @ s)]"
    using split_on_last [OF s(1), of n] s(2) by (simp add: pieces_def name_dirs_def name_leaf_def)
  then show ?thesis using assms s by (simp add: kernel_path_def is_absolute_def)
qed

lemma normals_piece: "normals (map piece (filter (\<lambda>s. s \<noteq> ''.'') ps)) = normals (map piece ps)"
  by (induction ps) auto

lemma normals_components: "\<not> is_absolute n \<Longrightarrow> normals (components n) = normals (map piece (pieces n))"
  by (simp add: components_def normals_piece)

lemma normals_kernel: "\<not> is_absolute n \<Longrightarrow> normals (kernel_path n) = normals (components n)"
  by (simp add: kernel_path_def normals_components)

lemma plain_pieces: "''..'' \<notin> set ps \<Longrightarrow> plain (map piece ps)"
  by (auto simp: plain_def split: if_splits)

lemma single_piece:
  assumes "s \<noteq> []" "CHR ''/'' \<notin> set s" "s \<noteq> ''.''" "s \<noteq> ''..''"
  shows "kernel_path s = [CNormal s] \<and> \<not> is_absolute s"
proof -
  have "\<forall>c\<in>set s. \<not> is_slash c" using assms(2) by blast
  then have "pieces s = [s]" using assms(1) split_on_none [of s is_slash] by (simp add: pieces_def)
  moreover have "last s \<noteq> CHR ''/''" using assms(1,2) by (metis last_in_set)
  moreover have "hd s \<noteq> CHR ''/''" using assms(1,2) by (metis hd_in_set)
  ultimately show ?thesis using assms by (simp add: kernel_path_def is_absolute_def)
qed

lemma pieces_ne: "n \<noteq> [] \<Longrightarrow> \<not> is_absolute n \<Longrightarrow> pieces n \<noteq> []"
proof (cases n)
  case (Cons c n')
  assume "\<not> is_absolute n"
  with Cons have "c \<noteq> CHR ''/''" by (simp add: is_absolute_def)
  then show ?thesis using Cons by (cases "split_on is_slash n'") (auto simp: pieces_def)
qed simp

lemma kernel_path_ne: "n \<noteq> [] \<Longrightarrow> \<not> is_absolute n \<Longrightarrow> kernel_path n \<noteq> []"
  using pieces_ne by (simp add: kernel_path_def)

definition names_ok :: "Component list \<Rightarrow> bool" where
  "names_ok cs \<longleftrightarrow> (\<forall>s. CNormal s \<in> set cs \<longrightarrow> s \<noteq> [] \<and> CHR ''/'' \<notin> set s \<and> s \<noteq> ''.'' \<and> s \<noteq> ''..'')"

lemma names_ok_pieces: "set ps \<subseteq> set (pieces p) \<Longrightarrow> names_ok (map piece ps)"
proof -
  assume "set ps \<subseteq> set (pieces p)"
  then have "s \<in> set ps \<Longrightarrow> s \<noteq> [] \<and> CHR ''/'' \<notin> set s" for s
    using split_on_pieces [of s is_slash p] by (auto simp: pieces_def)
  then show ?thesis by (auto simp: names_ok_def split: if_splits)
qed

section \<open>The invariant\<close>

lemma below_append: "strict_prefix B q \<Longrightarrow> strict_prefix B (q @ r)"
  by (metis prefix_order.less_le_trans prefixI)

definition tree_ok :: "(canon \<Rightarrow> Node option) \<Rightarrow> bool" where
  "tree_ok t \<longleftrightarrow> (\<forall>q s. t (q @ [s]) \<noteq> None \<longrightarrow> is_dir_in t q)"

lemma tree_okD: "tree_ok t \<Longrightarrow> t (q @ [s]) \<noteq> None \<Longrightarrow> is_dir_in t q"
  unfolding tree_ok_def by blast

definition only_below :: "canon \<Rightarrow> (canon \<Rightarrow> Node option) \<Rightarrow> nat \<Rightarrow> bool" where
  "only_below B t i \<longleftrightarrow> (\<forall>q. t q = Some (NFile i) \<longrightarrow> strict_prefix B q)"

definition no_staged_links :: "canon \<Rightarrow> (canon \<Rightarrow> Node option) \<Rightarrow> bool" where
  "no_staged_links B t \<longleftrightarrow>
     (\<forall>q s x target. is_suffix x \<and> strict_prefix B (q @ [s @ x]) \<longrightarrow> t (q @ [s @ x]) \<noteq> Some (NLink target))"

lemma no_staged_linksD:
  "no_staged_links B t \<Longrightarrow> is_suffix x \<Longrightarrow> strict_prefix B (q @ [s @ x]) \<Longrightarrow> t (q @ [s @ x]) \<noteq> Some (NLink target)"
  unfolding no_staged_links_def by blast

definition destination_ok :: "string \<Rightarrow> canon \<Rightarrow> Fs \<Rightarrow> bool" where
  "destination_ok p B fs \<longleftrightarrow>
     p \<noteq> [] \<and> is_dir_in (fs_node fs) B \<and> is_dir_in (fs_node fs) (fs_cwd fs) \<and> \<not> strict_prefix B (fs_cwd fs)
     \<and> walk MAX_LINKS (mask B (fs_node fs)) True (fs_cwd fs) (kernel_path p) = Ok B
     \<and> tree_ok (fs_node fs) \<and> no_staged_links B (fs_node fs)
     \<and> (\<forall>q i. strict_prefix B q \<and> fs_node fs q = Some (NFile i) \<longrightarrow> only_below B (fs_node fs) i)
     \<and> (\<forall>q i. fs_node fs q = Some (NFile i) \<longrightarrow> i < fs_next fs)"

definition confined :: "canon \<Rightarrow> Fs \<Rightarrow> Fs \<Rightarrow> bool" where
  "confined B fs fs' \<longleftrightarrow>
     (\<forall>q. \<not> strict_prefix B q \<longrightarrow> fs_node fs' q = fs_node fs q)
     \<and> (\<forall>q i. \<not> strict_prefix B q \<and> fs_node fs q = Some (NFile i) \<longrightarrow> fs_data fs' i = fs_data fs i)"

lemma confined_refl [simp]: "confined B fs fs"
  by (simp add: confined_def)

lemma confined_trans: "confined B fs fs' \<Longrightarrow> confined B fs' fs'' \<Longrightarrow> confined B fs fs''"
  unfolding confined_def by metis

definition no_new_links :: "Fs \<Rightarrow> Fs \<Rightarrow> bool" where
  "no_new_links fs fs' \<longleftrightarrow> (\<forall>q target. fs_node fs' q = Some (NLink target) \<longrightarrow> fs_node fs q = Some (NLink target))"

lemma nolinks_mono: "no_new_links fs fs' \<Longrightarrow> nolinks (fs_node fs) C ns \<Longrightarrow> nolinks (fs_node fs') C ns"
  by (induction ns arbitrary: C) (auto simp: no_new_links_def)

lemma nolinks_absent: "tree_ok t \<Longrightarrow> \<not> is_dir_in t C \<Longrightarrow> nolinks t C ns"
proof (induction ns arbitrary: C)
  case (Cons s ns)
  then have "t (C @ [s]) = None" by (meson tree_okD)
  moreover from this have "nolinks t (C @ [s]) ns" using Cons by (simp add: is_dir_in_def)
  ultimately show ?case by simp
qed simp

lemma tree_ok_below: "tree_ok t \<Longrightarrow> t (q @ r) \<noteq> None \<Longrightarrow> r \<noteq> [] \<Longrightarrow> is_dir_in t q"
proof (induction r rule: rev_induct)
  case (snoc x r)
  then have "is_dir_in t (q @ r)" using tree_okD [of t "q @ r" x] by simp
  with snoc show ?case by (cases "r = []") (auto simp: is_dir_in_def)
qed simp

section \<open>Steps that keep the invariant\<close>

lemma good_nodes:
  assumes g: "destination_ok p B fs" and out: "\<And>q. \<not> strict_prefix B q \<Longrightarrow> t q = fs_node fs q"
    and t: "tree_ok t" "no_staged_links B t"
    and f: "\<And>q i. strict_prefix B q \<Longrightarrow> t q = Some (NFile i) \<Longrightarrow> only_below B (fs_node fs) i \<and> i < fs_next fs"
  shows "destination_ok p B (fs\<lparr>fs_node := t\<rparr>) \<and> confined B fs (fs\<lparr>fs_node := t\<rparr>)"
proof -
  have "is_dir_in t B" "is_dir_in t (fs_cwd fs)" using g out [of B] out [of "fs_cwd fs"] by (simp_all add: destination_ok_def is_dir_in_def)
  moreover have "mask B t = mask B (fs_node fs)" by (rule mask_eqI) (rule out)
  moreover have "only_below B t i" if "strict_prefix B q" "t q = Some (NFile i)" for q i
    using f [OF that] out unfolding only_below_def by metis
  moreover have "i < fs_next fs" if "t q = Some (NFile i)" for q i
    using f [of q i] out [of q] that g by (cases "strict_prefix B q") (auto simp: destination_ok_def)
  ultimately show ?thesis using g out t by (auto simp: destination_ok_def confined_def)
qed

lemma good_set_node:
  assumes g: "destination_ok p B fs" and q: "strict_prefix B q" and d: "fs_node fs q \<noteq> Some NDir"
    and par: "n \<noteq> None \<longrightarrow> is_dir_in (fs_node fs) (butlast q)"
    and n: "\<And>target. n \<noteq> Some (NLink target)"
    and f: "\<And>i. n = Some (NFile i) \<Longrightarrow> only_below B (fs_node fs) i \<and> i < fs_next fs"
  shows "destination_ok p B (set_node q n fs) \<and> confined B fs (set_node q n fs) \<and> no_new_links fs (set_node q n fs)"
proof -
  let ?t = "(fs_node fs)(q := n)"
  have nd: "\<not> is_dir_in (fs_node fs) q" using q d by (auto simp: is_dir_in_def)
  have T: "tree_ok (fs_node fs)" "no_staged_links B (fs_node fs)" using g by (auto simp: destination_ok_def)
  have "tree_ok ?t"
    unfolding tree_ok_def
  proof (intro allI impI)
    fix r s assume a: "?t (r @ [s]) \<noteq> None"
    show "is_dir_in ?t r"
    proof (cases "r @ [s] = q")
      case True
      then have "r = butlast q" by (metis butlast_snoc)
      moreover have "n \<noteq> None" using a True by simp
      moreover have "r \<noteq> q" using True by auto
      ultimately show ?thesis using par by (simp add: is_dir_in_def)
    next
      case False
      then have "is_dir_in (fs_node fs) r" using a T(1) by (auto simp: tree_ok_def)
      then show ?thesis using nd by (auto simp: is_dir_in_def)
    qed
  qed
  moreover have "no_staged_links B ?t" using T(2) n by (simp add: no_staged_links_def)
  ultimately have "destination_ok p B (fs\<lparr>fs_node := ?t\<rparr>) \<and> confined B fs (fs\<lparr>fs_node := ?t\<rparr>)"
    using g q f by (intro good_nodes) (auto simp: destination_ok_def split: if_splits)
  then show ?thesis using n by (auto simp: set_node_def no_new_links_def split: if_splits)
qed

lemma good_set_data:
  assumes "destination_ok p B fs" "only_below B (fs_node fs) i"
  shows "destination_ok p B (set_data i d fs) \<and> confined B fs (set_data i d fs) \<and> no_new_links fs (set_data i d fs)"
  using assms by (auto simp: set_data_def destination_ok_def confined_def only_below_def no_new_links_def)

lemma good_move:
  assumes g: "destination_ok p B fs" and a: "strict_prefix B a" and b: "strict_prefix B b" and ab: "\<not> prefix a b"
    and na: "fs_node fs a = Some NDir" and nb: "fs_node fs b = None \<or> empty_dir fs b"
    and par: "is_dir_in (fs_node fs) (butlast b)"
  shows "destination_ok p B (move_tree a b fs) \<and> confined B fs (move_tree a b fs)"
proof -
  let ?t = "\<lambda>q. if prefix b q then fs_node fs (a @ drop (length b) q) else if prefix a q then None else fs_node fs q"
  have T: "tree_ok (fs_node fs)" "no_staged_links B (fs_node fs)" using g by (auto simp: destination_ok_def)
  have bne: "b \<noteq> []" using b by auto
  have ba: "\<not> prefix b a"
  proof
    assume "prefix b a"
    with ab have "strict_prefix b a" by (auto simp: strict_prefix_def)
    then obtain r where r: "a = b @ r" "r \<noteq> []" by (auto elim: strict_prefixE')
    then have "is_dir_in (fs_node fs) b" using tree_ok_below [OF T(1), of b r] na by simp
    with nb bne na \<open>strict_prefix b a\<close> show False by (auto simp: is_dir_in_def empty_dir_def)
  qed
  have "tree_ok ?t"
    unfolding tree_ok_def
  proof (intro allI impI)
    fix r s assume x: "?t (r @ [s]) \<noteq> None"
    show "is_dir_in ?t r"
    proof (cases "prefix b r")
      case True
      then obtain u where u: "r = b @ u" by (auto elim: prefixE)
      with x have "fs_node fs ((a @ u) @ [s]) \<noteq> None" by (simp add: prefix_def)
      then have "is_dir_in (fs_node fs) (a @ u)" using T(1) by (simp only: tree_ok_def)
      then show ?thesis using u a by (auto simp: is_dir_in_def)
    next
      case False
      show ?thesis
      proof (cases "r @ [s] = b")
        case True
        then have "r = butlast b" by (metis butlast_snoc)
        moreover have "\<not> prefix a r" using ab True by (metis prefix_order.trans prefixI)
        ultimately show ?thesis using par False by (simp add: is_dir_in_def)
      next
        case ne: False
        then have nb: "\<not> prefix b (r @ [s])" using False by simp
        with x have "\<not> prefix a (r @ [s])" "fs_node fs (r @ [s]) \<noteq> None" by (auto split: if_splits)
        then have "\<not> prefix a r" "is_dir_in (fs_node fs) r" using T(1) by (auto simp: tree_ok_def)
        then show ?thesis using False by (simp add: is_dir_in_def)
      qed
    qed
  qed
  moreover have "no_staged_links B ?t"
    unfolding no_staged_links_def
  proof (intro allI impI)
    fix q s x target assume asm: "is_suffix x \<and> strict_prefix B (q @ [s @ x])"
    show "?t (q @ [s @ x]) \<noteq> Some (NLink target)"
    proof (cases "prefix b (q @ [s @ x])")
      case True
      show ?thesis
      proof (cases "b = q @ [s @ x]")
        case True
        then show ?thesis using na by simp
      next
        case False
        with True obtain u where u: "q = b @ u" by (auto elim: prefixE)
        have "strict_prefix B (a @ u @ [s @ x])" using a by (rule below_append)
        then have "fs_node fs ((a @ u) @ [s @ x]) \<noteq> Some (NLink target)" using no_staged_linksD [OF T(2), of x "a @ u" s target] asm by simp
        with u show ?thesis by simp
      qed
    next
      case False
      then show ?thesis using T(2) asm by (simp add: no_staged_links_def)
    qed
  qed
  moreover have "?t q = fs_node fs q" if "\<not> strict_prefix B q" for q
    using that a b by (meson prefix_order.less_le_trans)
  moreover have "only_below B (fs_node fs) i \<and> i < fs_next fs" if "?t q = Some (NFile i)" "strict_prefix B q" for q i
  proof -
    have "strict_prefix B (a @ drop (length b) q)" using a by (rule below_append)
    with that obtain r where "fs_node fs r = Some (NFile i)" "strict_prefix B r"
      by (cases "prefix b q") (auto split: if_splits)
    then show ?thesis using g by (auto simp: destination_ok_def)
  qed
  ultimately have "destination_ok p B (fs\<lparr>fs_node := ?t\<rparr>) \<and> confined B fs (fs\<lparr>fs_node := ?t\<rparr>)"
    using g by (intro good_nodes) auto
  then show ?thesis by (simp add: move_tree_def)
qed

section \<open>What validation gives\<close>

definition leads :: "Fs \<Rightarrow> string \<Rightarrow> canon \<Rightarrow> bool" where
  "leads fs p B \<longleftrightarrow> p \<noteq> [] \<and> walk MAX_LINKS (fs_node fs) True (fs_cwd fs) (kernel_path p) = Ok B \<and> is_dir_in (fs_node fs) B"

lemma good_leads: "destination_ok p B fs \<Longrightarrow> leads fs p B"
  by (auto simp: destination_ok_def leads_def intro: walk_unmask)

lemma leads_join:
  assumes "leads fs p B" "\<not> is_absolute n" "n \<noteq> []"
  shows "\<exists>m. \<forall>f. resolve fs f (path_join p n) = walk m (fs_node fs) f B (kernel_path n)"
proof -
  from assms(1) base_path_walk have "walk MAX_LINKS (fs_node fs) True (fs_cwd fs) (base_path p) = Ok B" "is_dir_in (fs_node fs) B"
    by (auto simp: leads_def)
  from walk_append [OF this] obtain m where "\<And>f ds. ds \<noteq> [] \<Longrightarrow>
    walk MAX_LINKS (fs_node fs) f (fs_cwd fs) (base_path p @ ds) = walk m (fs_node fs) f B ds" by blast
  with assms kernel_path_ne [of n] show ?thesis by (auto simp: resolve_def path_join_ne kernel_path_join leads_def)
qed

lemma validate_plain: "validate_components fs cur cs = Ok () \<Longrightarrow> plain cs"
  by (induction fs cur cs rule: validate_components.induct)
    (auto simp: plain_def Let_def split: result.splits Node.splits FsError.splits)

lemma validate_nolinks:
  assumes "validate_components fs cur cs = Ok ()" "leads fs cur C" "names_ok cs" "tree_ok (fs_node fs)"
  shows "plain cs \<and> nolinks (fs_node fs) C (normals cs)"
  using assms
proof (induction cs arbitrary: cur C)
  case (Cons c cs)
  have n: "names_ok cs" using Cons.prems(3) by (simp add: names_ok_def)
  show ?case
  proof (cases c)
    case CCur
    with Cons.prems(1,2,4) Cons.IH [OF _ _ n, of cur C] show ?thesis by (simp add: plain_def)
  next
    case (CNormal s)
    have s: "s \<noteq> []" "CHR ''/'' \<notin> set s" "s \<noteq> ''.''" "s \<noteq> ''..''" using Cons.prems(3) CNormal by (auto simp: names_ok_def)
    from single_piece [OF s] have k: "kernel_path s = [CNormal s]" "\<not> is_absolute s" by auto
    obtain m where m: "\<And>f. resolve fs f (path_join cur s) = walk m (fs_node fs) f C [CNormal s]"
      using leads_join [OF Cons.prems(2) k(2) s(1)] k(1) by auto
    show ?thesis
    proof (cases "fs_node fs (C @ [s]) = Some NDir")
      case True
      then have "stat fs False (path_join cur s) = Ok NDir" using m [of False] by (simp add: stat_def node_at_def)
      moreover have "leads fs (path_join cur s) (C @ [s])"
        using m [of True] True path_join_ne [OF s(1), of cur] by (simp add: leads_def resolve_def is_dir_in_def)
      ultimately show ?thesis
        using Cons.IH [of "path_join cur s" "C @ [s]"] Cons.prems(1,4) n CNormal True by (simp add: plain_def)
    next
      case False
      have st: "resolve fs False (path_join cur s) = Ok (C @ [s])"
        using m [of False] False by (cases "fs_node fs (C @ [s])") (auto split: Node.splits)
      then have nl: "fs_node fs (C @ [s]) \<noteq> Some (NLink target)" for target
        using Cons.prems(1) CNormal by (auto simp: stat_def node_at_def)
      have rest: "\<exists>cur'. validate_components fs cur' cs = Ok ()"
        using Cons.prems(1) CNormal by (auto simp: Let_def split: result.splits Node.splits FsError.splits)
      have pl: "plain cs" using rest validate_plain by blast
      have "nolinks (fs_node fs) (C @ [s]) (normals cs)"
        using nolinks_absent [OF Cons.prems(4), of "C @ [s]"] False by (simp add: is_dir_in_def)
      then show ?thesis using nl pl CNormal by (simp add: plain_def)
    qed
  qed (use Cons.prems(1) in simp_all)
qed (simp add: plain_def)

lemma names_ok_Cur: "names_ok (CCur # cs) = names_ok cs"
  by (simp add: names_ok_def)

definition entry_ok :: "Fs \<Rightarrow> canon \<Rightarrow> string \<Rightarrow> bool" where
  "entry_ok fs B n \<longleftrightarrow>
     n \<noteq> [] \<and> \<not> is_absolute n \<and> ''..'' \<notin> set (pieces n) \<and> nolinks (fs_node fs) B (normals (components n))"

lemma join_validated_path_Ok:
  assumes "destination_ok p B fs" "join_validated_path fs p n = Ok path" "n \<noteq> []"
  shows "path = path_join p n \<and> entry_ok fs B n"
proof -
  from assms(2,3) have v: "validate_file_name_no_traversal n = Ok ()" "validate_components fs p (components n) = Ok ()"
    "path = path_join p n"
    by (auto simp: join_validated_path_def validate_no_symlink_components_def job_join_def split: result.splits)
  have dd: "''..'' \<notin> set (pieces n)" "\<not> is_absolute n"
    using v(1) by (auto simp: validate_file_name_no_traversal_def pieces_def list_ex_iff is_absolute_def starts_with_def
      neq_Nil_conv split: if_splits)
  have "names_ok (map piece (filter (\<lambda>s. s \<noteq> ''.'') (pieces n)))" by (rule names_ok_pieces [of _ n]) auto
  then have nm: "names_ok (components n)" using dd(2) by (simp add: components_def names_ok_Cur)
  have "tree_ok (fs_node fs)" using assms(1) by (simp add: destination_ok_def)
  from validate_nolinks [OF v(2) good_leads [OF assms(1)] nm this] show ?thesis using v(3) dd assms(3) by (simp add: entry_ok_def)
qed

section \<open>Where an entry resolves to\<close>

lemma plain_kernel: "\<not> is_absolute n \<Longrightarrow> ''..'' \<notin> set (pieces n) \<Longrightarrow> plain (kernel_path n)"
  using plain_pieces [of "pieces n"] by (auto simp: kernel_path_def plain_def)

definition entry_at :: "canon \<Rightarrow> string \<Rightarrow> canon" where
  "entry_at B n = B @ normals (components n)"

definition staged_at :: "canon \<Rightarrow> string \<Rightarrow> string \<Rightarrow> canon" where
  "staged_at B n x = B @ normals (name_dirs n) @ [name_leaf n @ x]"

lemma resolve_entry:
  assumes "destination_ok p B fs" "entry_ok fs B n" "resolve fs f (path_join p n) = Ok q"
  shows "q = entry_at B n \<and> (q \<noteq> B \<longrightarrow> strict_prefix B q \<and> is_dir_in (fs_node fs) (butlast q))"
proof -
  have n: "n \<noteq> []" "\<not> is_absolute n" "''..'' \<notin> set (pieces n)" "nolinks (fs_node fs) B (normals (kernel_path n))"
    using assms(2) by (auto simp: entry_ok_def normals_kernel)
  from leads_join [OF good_leads [OF assms(1)] n(2,1)] assms(3)
  obtain m where "walk m (fs_node fs) f B (kernel_path n) = Ok q" by auto
  moreover have "is_dir_in (fs_node fs) B" using assms(1) by (simp add: destination_ok_def)
  ultimately have "q = B @ normals (kernel_path n) \<and> (normals (kernel_path n) \<noteq> [] \<longrightarrow> is_dir_in (fs_node fs) (butlast q))"
    using walk_plain plain_kernel n by blast
  then show ?thesis using n(2) by (auto simp: entry_at_def normals_kernel strict_prefix_def)
qed

lemma normals_dirs:
  assumes "\<not> is_absolute n"
  shows "\<exists>r. normals (components n) = normals (name_dirs n) @ r"
  using assms by (simp add: normals_components pieces_split name_dirs_def)

lemma staged_not_link:
  assumes "destination_ok p B fs" "is_suffix x"
  shows "fs_node fs (staged_at B n x) \<noteq> Some (NLink target)"
proof -
  have "strict_prefix B ((B @ normals (name_dirs n)) @ [name_leaf n @ x])" by (auto simp: strict_prefix_def)
  then show ?thesis using assms no_staged_linksD [of B "fs_node fs" x "B @ normals (name_dirs n)"] by (simp add: destination_ok_def staged_at_def)
qed

lemma resolve_staged:
  assumes "destination_ok p B fs" "entry_ok fs B n" "is_suffix x" "resolve fs f (path_join p n @ x) = Ok q"
  shows "q = staged_at B n x \<and> strict_prefix B q \<and> is_dir_in (fs_node fs) (butlast q)"
proof -
  have n: "n \<noteq> []" "\<not> is_absolute n" "''..'' \<notin> set (pieces n)" "nolinks (fs_node fs) B (normals (components n))"
    using assms(2) by (auto simp: entry_ok_def)
  have nx: "n @ x \<noteq> []" "\<not> is_absolute (n @ x)" using n(1,2) by (auto simp: is_absolute_def)
  have k: "kernel_path (n @ x) = name_dirs n @ [CNormal (name_leaf n @ x)]" using kernel_path_suffix n(1,2) assms(3) by blast
  have pl: "plain (name_dirs n @ [CNormal (name_leaf n @ x)])"
    using plain_pieces [of "filter (\<lambda>s. s \<noteq> []) (butlast (split_on is_slash n))"] n(3)
    by (auto simp: plain_def name_dirs_def pieces_split)
  have nl: "nolinks (fs_node fs) B (normals (name_dirs n))" using normals_dirs [OF n(2)] n(4) by (auto simp: nolinks_append)
  have "\<forall>target. fs_node fs (B @ normals (name_dirs n) @ [name_leaf n @ x]) \<noteq> Some (NLink target)"
    using staged_not_link [OF assms(1,3), of n] by (simp add: staged_at_def)
  with nl have nl': "nolinks (fs_node fs) B (normals (name_dirs n @ [CNormal (name_leaf n @ x)]))" by (simp add: nolinks_append)
  from leads_join [OF good_leads [OF assms(1)] nx(2,1)] assms(4) k n(1)
  obtain m where w: "walk m (fs_node fs) f B (name_dirs n @ [CNormal (name_leaf n @ x)]) = Ok q" by (auto simp: path_join_suffix)
  have "is_dir_in (fs_node fs) B" using assms(1) by (simp add: destination_ok_def)
  from walk_plain [OF w this pl nl'] show ?thesis by (auto simp: staged_at_def strict_prefix_def)
qed

end
