(* ===== verification/File_Confine.thy ===== *)
theory File_Confine
  imports File_Paths
begin

text \<open>
  A writing job of \<^verbatim>\<open>src/libs/base/src/fs.rs\<close> stays below its destination: each operation of the job changes only nodes
  below it and data of inodes that no path outside it names, and so does every run of a job.
\<close>

section \<open>Operations below the directory\<close>

definition keeps :: "string \<Rightarrow> canon \<Rightarrow> Fs \<Rightarrow> Fs \<Rightarrow> bool" where
  "keeps p B fs fs' \<longleftrightarrow> destination_ok p B fs' \<and> confined B fs fs'"

lemma keeps_refl: "destination_ok p B fs \<Longrightarrow> keeps p B fs fs"
  by (simp add: keeps_def)

lemma keeps_trans: "keeps p B fs fs' \<Longrightarrow> keeps p B fs' fs'' \<Longrightarrow> keeps p B fs fs''"
  using confined_trans by (auto simp: keeps_def)

lemma no_new_links_refl [simp]: "no_new_links fs fs"
  by (simp add: no_new_links_def)

lemma no_new_links_trans: "no_new_links fs fs' \<Longrightarrow> no_new_links fs' fs'' \<Longrightarrow> no_new_links fs fs''"
  by (auto simp: no_new_links_def)

lemma entry_ok_mono: "no_new_links fs fs' \<Longrightarrow> entry_ok fs B n \<Longrightarrow> entry_ok fs' B n"
  using nolinks_mono by (auto simp: entry_ok_def)

definition below :: "Fs \<Rightarrow> canon \<Rightarrow> canon \<Rightarrow> bool" where
  "below fs B q \<longleftrightarrow> strict_prefix B q \<and> is_dir_in (fs_node fs) (butlast q)"

lemma below_node: "below fs B q \<Longrightarrow> node_at fs q = fs_node fs q"
  by (auto simp: below_def node_at_def)

lemma good_file: "destination_ok p B fs \<Longrightarrow> below fs B q \<Longrightarrow> fs_node fs q = Some (NFile i) \<Longrightarrow> only_below B (fs_node fs) i"
  by (auto simp: destination_ok_def below_def)

lemma keeps_set_data: "destination_ok p B fs \<Longrightarrow> only_below B (fs_node fs) i \<Longrightarrow> keeps p B fs (set_data i d fs) \<and> no_new_links fs (set_data i d fs)"
  using good_set_data by (simp add: keeps_def)

lemma keeps_write_at:
  "destination_ok p B fs \<Longrightarrow> only_below B (fs_node fs) i \<Longrightarrow> keeps p B fs (write_at i off b fs) \<and> no_new_links fs (write_at i off b fs)"
  using keeps_set_data by (simp add: write_at_def Let_def keeps_refl)

lemma keeps_set_mtime:
  assumes "destination_ok p B fs" "\<And>q. resolve fs True path = Ok q \<Longrightarrow> q = B \<or> below fs B q"
  shows "keeps p B fs (set_mtime path t fs)"
proof (cases "resolve fs True path")
  case (Ok q)
  show ?thesis
  proof (cases "q = B")
    case True
    then have "node_at fs q = Some NDir" using assms(1) by (auto simp: destination_ok_def is_dir_in_def node_at_def)
    then show ?thesis using Ok assms(1) by (simp add: set_mtime_def keeps_refl)
  next
    case False
    then have b: "below fs B q" using assms(2) Ok by blast
    show ?thesis
      using Ok keeps_refl [OF assms(1)] keeps_set_data [OF assms(1) good_file [OF assms(1) b]] below_node [OF b]
      by (auto simp: set_mtime_def split: option.splits Node.splits)
  qed
qed (use assms(1) in \<open>simp add: set_mtime_def keeps_refl\<close>)

lemma keeps_remove_file:
  assumes "destination_ok p B fs" "\<And>q. resolve fs False path = Ok q \<Longrightarrow> below fs B q" "remove_file path fs = (r, fs')"
  shows "keeps p B fs fs' \<and> no_new_links fs fs'"
proof (cases "resolve fs False path")
  case (Ok q)
  note b = assms(2) [OF Ok]
  show ?thesis
  proof (cases "fs_deny fs q \<or> fs_node fs q = None \<or> fs_node fs q = Some NDir")
    case True
    then have "fs' = fs" using assms(3) Ok below_node [OF b] by (auto simp: remove_file_def split: if_splits)
    then show ?thesis using assms(1) by (simp add: keeps_refl)
  next
    case False
    then have "fs' = set_node q None fs" using assms(3) Ok below_node [OF b] by (auto simp: remove_file_def split: Node.splits)
    then show ?thesis using good_set_node [OF assms(1), of q None] b False by (simp add: below_def keeps_def)
  qed
qed (use assms(1,3) in \<open>simp add: remove_file_def keeps_refl\<close>)

lemma keeps_create_file:
  assumes g: "destination_ok p B fs" and r: "\<And>q. resolve fs True path = Ok q \<Longrightarrow> below fs B q" and c: "create_file path fs = (res, fs')"
  shows "keeps p B fs fs' \<and> no_new_links fs fs' \<and> (\<forall>i. res = Ok i \<longrightarrow> only_below B (fs_node fs') i)"
proof (cases "resolve fs True path")
  case (Ok q)
  note b = r [OF Ok]
  have eq: "(res, fs') = (if fs_deny fs q then (Err PermissionDenied, fs) else
      case fs_node fs q of
        None \<Rightarrow> (Ok (fs_next fs), set_node q (Some (NFile (fs_next fs))) (set_data (fs_next fs) ([], fs_time fs) (fs\<lparr>fs_next := fs_next fs + 1\<rparr>)))
      | Some (NFile i) \<Rightarrow> (Ok i, set_data i ([], fs_time fs) fs)
      | _ \<Rightarrow> (Err IsADirectory, fs))"
    using c [unfolded create_file_def Ok result.case below_node [OF b]] by (rule sym)
  consider "fs' = fs" "\<forall>i. res \<noteq> Ok i" | i where "fs_node fs q = Some (NFile i)" "res = Ok i" "fs' = set_data i ([], fs_time fs) fs"
    | "fs_node fs q = None" "res = Ok (fs_next fs)"
      "fs' = set_node q (Some (NFile (fs_next fs))) (set_data (fs_next fs) ([], fs_time fs) (fs\<lparr>fs_next := fs_next fs + 1\<rparr>))"
    using eq by (cases "fs_deny fs q"; cases "fs_node fs q") (auto split: Node.splits)
  then show ?thesis
  proof cases
    case 1
    then show ?thesis using g by (simp add: keeps_refl)
  next
    case 2
    then show ?thesis using keeps_set_data [OF g good_file [OF g b 2(1)]] good_file [OF g b 2(1)] by (simp add: set_data_def)
  next
    case 3
    let ?n = "fs_next fs" let ?f1 = "fs\<lparr>fs_next := fs_next fs + 1\<rparr>" let ?f2 = "set_data ?n ([], fs_time fs) ?f1"
    have fresh: "fs_node fs q \<noteq> Some (NFile ?n)" for q using g by (auto simp: destination_ok_def)
    have g1: "destination_ok p B ?f1" using g by (auto simp: destination_ok_def less_SucI)
    have o: "only_below B (fs_node ?f1) ?n" using fresh by (simp add: only_below_def)
    note d = good_set_data [OF g1 o, of "([], fs_time fs)"]
    have n2: "fs_node ?f2 = fs_node fs" "fs_next ?f2 = ?n + 1" by (simp_all add: set_data_def)
    have s: "destination_ok p B fs' \<and> confined B ?f2 fs' \<and> no_new_links ?f2 fs'"
      unfolding 3(3) using b o 3(1) n2 d by (intro good_set_node) (auto simp: below_def)
    have "confined B fs ?f2" using fresh by (auto simp: confined_def set_data_def)
    moreover have "only_below B (fs_node fs') ?n" using b fresh 3(3) n2 by (auto simp: only_below_def set_node_def below_def)
    ultimately show ?thesis using s 3(2) n2 confined_trans by (auto simp: keeps_def no_new_links_def)
  qed
qed (use g c in \<open>auto simp: create_file_def keeps_refl\<close>)

lemma keeps_write_file:
  assumes g: "destination_ok p B fs" and r: "\<And>q. resolve fs True path = Ok q \<Longrightarrow> below fs B q"
  shows "keeps p B fs (snd (write_file path b fs)) \<and> no_new_links fs (snd (write_file path b fs))"
proof -
  obtain res fs' where c: "create_file path fs = (res, fs')" by (cases "create_file path fs") auto
  note k = keeps_create_file [OF g r c]
  show ?thesis
  proof (cases res)
    case (Ok i)
    then have g': "destination_ok p B fs'" "only_below B (fs_node fs') i" using k by (auto simp: keeps_def)
    from keeps_write_at [OF this, of 0 b] k show ?thesis
      using c Ok keeps_trans no_new_links_trans by (auto simp: write_file_def)
  qed (use c k in \<open>simp add: write_file_def\<close>)
qed

lemma rename_cases:
  assumes q: "resolve fs False path = Ok a" "resolve fs False path' = Ok b"
  obtains "snd (rename path path' fs) = fs"
    | m where "snd (rename path path' fs) = set_node b (Some m) (set_node a None fs)" "node_at fs a = Some m" "m \<noteq> NDir"
        "node_at fs b \<noteq> Some NDir" "a \<noteq> b"
    | "snd (rename path path' fs) = move_tree a b fs" "node_at fs a = Some NDir" "\<not> prefix a b" "node_at fs b = None \<or> empty_dir fs b"
proof (cases "fs_deny fs a \<or> fs_deny fs b \<or> a = b \<or> node_at fs a = None")
  case True
  then have "snd (rename path path' fs) = fs" using q by (auto simp: rename_def)
  then show ?thesis by (rule that(1))
next
  case False
  show ?thesis
  proof (cases "node_at fs a = Some NDir")
    case True
    then have "snd (rename path path' fs) = fs
        \<or> snd (rename path path' fs) = move_tree a b fs \<and> \<not> prefix a b \<and> (node_at fs b = None \<or> empty_dir fs b)"
      using q False by (simp add: rename_def split: option.splits Node.splits)
    then show ?thesis using that(1,3) True by blast
  next
    case nd: False
    then obtain m where m: "node_at fs a = Some m" "m \<noteq> NDir" using False by auto
    then have "snd (rename path path' fs) = fs
        \<or> snd (rename path path' fs) = set_node b (Some m) (set_node a None fs) \<and> node_at fs b \<noteq> Some NDir"
      using q False by (cases m) (simp_all add: rename_def split: option.splits Node.splits)
    then show ?thesis using that(1,2) m False by blast
  qed
qed

lemma keeps_move_file:
  assumes g: "destination_ok p B fs" and a: "below fs B qa" "fs_node fs qa = Some (NFile i)"
    and b: "below fs B qb" "fs_node fs qb \<noteq> Some NDir" "qa \<noteq> qb"
  shows "keeps p B fs (set_node qb (Some (NFile i)) (set_node qa None fs))"
proof -
  let ?f1 = "set_node qa None fs"
  have g1: "destination_ok p B ?f1 \<and> confined B fs ?f1 \<and> no_new_links fs ?f1" using good_set_node [OF g, of qa None] a by (simp add: below_def)
  have "is_dir_in (fs_node ?f1) (butlast qb)" using b(1) a(2) by (auto simp: below_def is_dir_in_def set_node_def)
  moreover have "only_below B (fs_node ?f1) i" using good_file [OF g a] by (auto simp: only_below_def set_node_def)
  moreover have "i < fs_next fs" using g a(2) by (auto simp: destination_ok_def)
  ultimately have "destination_ok p B (set_node qb (Some (NFile i)) ?f1) \<and> confined B ?f1 (set_node qb (Some (NFile i)) ?f1)"
    using good_set_node [of p B ?f1 qb "Some (NFile i)"] g1 b by (auto simp: below_def set_node_def)
  then show ?thesis using g1 confined_trans by (auto simp: keeps_def)
qed

lemma keeps_rename:
  assumes g: "destination_ok p B fs" and a: "\<And>q. resolve fs False path = Ok q \<Longrightarrow> below fs B q \<and> (\<forall>target. fs_node fs q \<noteq> Some (NLink target))"
    and b: "\<And>q. resolve fs False path' = Ok q \<Longrightarrow> q = B \<or> below fs B q"
  shows "keeps p B fs (snd (rename path path' fs))"
proof (cases "\<exists>qa qb. resolve fs False path = Ok qa \<and> resolve fs False path' = Ok qb")
  case True
  then obtain qa qb where q: "resolve fs False path = Ok qa" "resolve fs False path' = Ok qb" by blast
  note A = a [OF q(1)]
  have na: "node_at fs qa = fs_node fs qa" using A below_node by blast
  have root: "node_at fs B = Some NDir" using g by (auto simp: destination_ok_def is_dir_in_def node_at_def)
  have bb: "below fs B qb \<and> node_at fs qb = fs_node fs qb"
    if "fs_node fs qa \<noteq> None" "node_at fs qb \<noteq> Some NDir \<or> empty_dir fs qb"
  proof -
    have "\<not> empty_dir fs B" using A that(1) by (auto simp: empty_dir_def below_def)
    then have "qb \<noteq> B" using that(2) root by auto
    then show ?thesis using b [OF q(2)] below_node by blast
  qed
  show ?thesis
  proof (rule rename_cases [OF q])
    assume "snd (rename path path' fs) = fs"
    then show ?thesis using g by (simp add: keeps_refl)
  next
    fix m assume c: "snd (rename path path' fs) = set_node qb (Some m) (set_node qa None fs)" "node_at fs qa = Some m" "m \<noteq> NDir"
      "node_at fs qb \<noteq> Some NDir" "qa \<noteq> qb"
    then obtain i where "m = NFile i" using A na by (cases m) auto
    then show ?thesis using keeps_move_file [OF g, of qa i qb] A bb c na by simp
  next
    assume c: "snd (rename path path' fs) = move_tree qa qb fs" "node_at fs qa = Some NDir" "\<not> prefix qa qb"
      "node_at fs qb = None \<or> empty_dir fs qb"
    then have "below fs B qb \<and> node_at fs qb = fs_node fs qb" using bb na by auto
    then show ?thesis using good_move [OF g, of qa qb] A c na by (auto simp: keeps_def below_def)
  qed
next
  case False
  then show ?thesis using g by (auto simp: rename_def keeps_refl split: result.splits)
qed

section \<open>Making the directories of an entry\<close>

lemma walk_Curs: "\<forall>u\<in>set us. u = CCur \<Longrightarrow> walk n t f cur (us @ ds) = walk n t f cur ds"
  by (induction us) auto

lemma walk_thin:
  assumes "walk n t True cur cs = Ok B" "is_dir_in t B" "filter (\<lambda>c. c \<noteq> CCur) ds = filter (\<lambda>c. c \<noteq> CCur) cs"
  shows "walk n t True cur ds = Ok B"
  using assms
proof (induction n t True cur cs arbitrary: ds rule: walk.induct)
  case (1 n t cur)
  then show ?case using walk_Curs [of ds n t True cur "[]"] by (simp add: filter_empty_conv)
next
  case (2 n t cur cs)
  then obtain us ds' where d: "ds = us @ CRoot # ds'" "\<forall>u\<in>set us. u = CCur" "filter (\<lambda>c. c \<noteq> CCur) ds' = filter (\<lambda>c. c \<noteq> CCur) cs"
    by (auto dest!: filter_eq_ConsD)
  with 2 show ?case by (simp add: walk_Curs)
next
  case (4 n t cur cs)
  then obtain us ds' where d: "ds = us @ CParent # ds'" "\<forall>u\<in>set us. u = CCur" "filter (\<lambda>c. c \<noteq> CCur) ds' = filter (\<lambda>c. c \<noteq> CCur) cs"
    by (auto dest!: filter_eq_ConsD)
  with 4 show ?case by (simp add: walk_Curs)
next
  case (5 n t cur s cs)
  from 5(5) obtain us ds' where d: "ds = us @ CNormal s # ds'" "\<forall>u\<in>set us. u = CCur" "filter (\<lambda>c. c \<noteq> CCur) ds' = filter (\<lambda>c. c \<noteq> CCur) cs"
    by (auto dest!: filter_eq_ConsD)
  have "walk n t True cur (CNormal s # ds') = Ok B"
  proof (cases "t (cur @ [s])")
    case None
    with 5 show ?thesis by (auto simp: is_dir_in_def split: if_splits)
  next
    case (Some a)
    show ?thesis
    proof (cases a)
      case (NFile i)
      with 5 Some show ?thesis by (auto simp: is_dir_in_def split: if_splits)
    next
      case NDir
      with 5(1) [OF Some NDir] 5(3,4) Some d(3) show ?thesis by simp
    next
      case (NLink target)
      with 5(3) Some obtain m where m: "n = Suc m" "walk m t True cur (kernel_path target @ cs) = Ok B" by (cases n) auto
      from 5(2) [OF Some NLink _ m(1,2) 5(4), of "kernel_path target @ ds'"] d(3) show ?thesis using Some NLink m by simp
    qed
  qed
  with d show ?case by (simp add: walk_Curs)
qed simp

text \<open>Every beginning of a path that leads to a directory leads to one.\<close>

lemma walk_prefix:
  assumes "walk n t True cur (cs @ ds) = Ok B" "is_dir_in t B" "is_dir_in t cur" "tree_ok t"
  shows "\<exists>r. walk n t True cur cs = Ok r \<and> is_dir_in t r"
  using assms
proof (induction n t True cur "cs @ ds" arbitrary: cs rule: walk.induct)
  case (5 n t cur s es)
  show ?case
  proof (cases cs)
    case Nil
    with 5 show ?thesis by simp
  next
    case (Cons c cs')
    with 5(3) have c: "c = CNormal s" "es = cs' @ ds" by auto
    show ?thesis
    proof (cases "t (cur @ [s])")
      case None
      with 5(4,5) c Cons show ?thesis by (auto simp: is_dir_in_def split: if_splits)
    next
      case (Some a)
      show ?thesis
      proof (cases a)
        case (NFile i)
        with 5(4,5) Some c Cons show ?thesis by (auto simp: is_dir_in_def split: if_splits)
      next
        case NDir
        with 5(1) [OF Some NDir c(2)] 5(4,5,7) Some c Cons show ?thesis by (simp add: is_dir_in_def)
      next
        case (NLink target)
        with 5(4) Some c Cons obtain m where m: "n = Suc m" "walk m t True cur ((kernel_path target @ cs') @ ds) = Ok B"
          by (cases n) auto
        from 5(2) [OF Some NLink _ m(1) _ _ 5(5,6,7), of "kernel_path target @ cs'"] m c show ?thesis
          using Some NLink Cons by simp
      qed
    qed
  qed
next
  case (4 n t cur es)
  have "is_dir_in t (butlast cur)"
    using 4(5) tree_okD [OF 4(6), of "butlast cur" "last cur"] by (cases "cur = []") (auto simp: is_dir_in_def)
  with 4 show ?case by (auto simp: Cons_eq_append_conv)
qed (auto simp: Cons_eq_append_conv is_dir_in_def)

lemma walk_nofollow:
  assumes "walk n t True cur cs = Ok r" "is_dir_in t r" "is_dir_in t cur" "tree_ok t"
  shows "\<exists>q. walk n t False cur cs = Ok q \<and> (q = r \<or> (\<exists>target. q \<noteq> [] \<and> t q = Some (NLink target)))"
  using assms
proof (induction n t True cur cs rule: walk.induct)
  case (4 n t cur cs)
  have "is_dir_in t (butlast cur)"
    using 4(4) tree_okD [OF 4(5), of "butlast cur" "last cur"] by (cases "cur = []") (auto simp: is_dir_in_def)
  with 4 show ?case by simp
next
  case (5 n t cur s cs)
  show ?case
  proof (cases "t (cur @ [s])")
    case None
    with 5(3,4) show ?thesis by (auto simp: is_dir_in_def split: if_splits)
  next
    case (Some a)
    show ?thesis
    proof (cases a)
      case (NFile i)
      with 5(3,4) Some show ?thesis by (auto simp: is_dir_in_def split: if_splits)
    next
      case NDir
      with 5(1) [OF Some NDir] 5(3,4,6) Some show ?thesis by (simp add: is_dir_in_def)
    next
      case (NLink target)
      with 5(3) Some obtain m where m: "n = Suc m" "walk m t True cur (kernel_path target @ cs) = Ok r" by (cases n) auto
      from 5(2) [OF Some NLink _ m(1,2) 5(4,5,6)] show ?thesis using Some NLink m by (cases "cs = []") auto
    qed
  qed
qed (auto simp: is_dir_in_def)

lemma make_dirs_skip:
  assumes w: "walk MAX_LINKS (fs_node fs) True (fs_cwd fs) (made @ [c]) = Ok r" "is_dir_in (fs_node fs) r"
    and g: "destination_ok p B fs"
  shows "make_dirs made (c # cs) fs = make_dirs (made @ [c]) cs fs"
proof -
  have "is_dir_in (fs_node fs) (fs_cwd fs)" "tree_ok (fs_node fs)" using g by (auto simp: destination_ok_def)
  from walk_nofollow [OF w this] obtain q where q: "walk MAX_LINKS (fs_node fs) False (fs_cwd fs) (made @ [c]) = Ok q"
    "q = r \<or> (\<exists>target. q \<noteq> [] \<and> fs_node fs q = Some (NLink target))" by blast
  have "node_at fs r = Some NDir" using w(2) by (auto simp: node_at_def is_dir_in_def)
  with q w(1) show ?thesis by (auto simp: node_at_def)
qed

lemma make_dirs_prefix:
  assumes g: "destination_ok p B fs" and w: "walk MAX_LINKS (fs_node fs) True (fs_cwd fs) (made @ cs @ rest) = Ok r" "is_dir_in (fs_node fs) r"
  shows "make_dirs made (cs @ ds) fs = make_dirs (made @ cs) ds fs"
  using w(1)
proof (induction cs arbitrary: made)
  case (Cons c cs)
  have "is_dir_in (fs_node fs) (fs_cwd fs)" "tree_ok (fs_node fs)" using g by (auto simp: destination_ok_def)
  with walk_prefix [of MAX_LINKS "fs_node fs" "fs_cwd fs" "made @ [c]" "cs @ rest" r] Cons.prems w(2)
  obtain r' where "walk MAX_LINKS (fs_node fs) True (fs_cwd fs) (made @ [c]) = Ok r'" "is_dir_in (fs_node fs) r'" by auto
  from make_dirs_skip [OF this g] Cons.IH [of "made @ [c]"] Cons.prems show ?case by simp
qed simp

lemma good_components: "destination_ok p B fs \<Longrightarrow> walk MAX_LINKS (fs_node fs) True (fs_cwd fs) (components p) = Ok B"
proof -
  assume "destination_ok p B fs"
  then have w: "walk MAX_LINKS (fs_node fs) True (fs_cwd fs) (kernel_path p) = Ok B" "is_dir_in (fs_node fs) B"
    using good_leads by (auto simp: leads_def)
  have f: "filter (\<lambda>c. c \<noteq> CCur) (map piece (filter (\<lambda>s. s \<noteq> ''.'') ps)) = filter (\<lambda>c. c \<noteq> CCur) (map piece ps)" for ps
    by (induction ps) auto
  show ?thesis by (rule walk_thin [OF w]) (simp add: components_def kernel_path_def f)
qed

lemma components_join:
  assumes "p \<noteq> []" "\<not> is_absolute n"
  shows "components (path_join p n) = components p @ map piece (filter (\<lambda>s. s \<noteq> ''.'') (pieces n))"
proof -
  have "pieces p \<noteq> []" if "\<not> is_absolute p"
    using pieces_ne [OF assms(1) that] .
  then show ?thesis using assms by (auto simp: components_def pieces_join is_absolute_join)
qed

lemma make_dirs_entry:
  assumes "destination_ok p B fs" "plain (ms @ cs)" "nolinks (fs_node fs) B (normals (ms @ cs))"
    "\<forall>c\<in>set cs. \<exists>s. c = CNormal s"
  shows "keeps p B fs (make_dirs (components p @ ms) cs fs) \<and> no_new_links fs (make_dirs (components p @ ms) cs fs)"
  using assms
proof (induction cs arbitrary: ms fs)
  case (Cons c cs)
  note g = Cons.prems(1)
  obtain s where c: "c = CNormal s" using Cons.prems(4) by auto
  have dir: "is_dir_in (fs_node fs) B" using g by (simp add: destination_ok_def)
  from walk_append [OF good_components [OF g] dir] obtain m where
    m: "walk MAX_LINKS (fs_node fs) False (fs_cwd fs) (components p @ ms @ [c]) = walk m (fs_node fs) False B (ms @ [c])" by blast
  have pl: "plain (ms @ [c])" "nolinks (fs_node fs) B (normals (ms @ [c]))"
    using Cons.prems(2,3) c by (auto simp: plain_def nolinks_append)
  show ?case
  proof (cases "walk m (fs_node fs) False B (ms @ [c])")
    case (Ok q)
    from walk_plain [OF Ok dir pl] c have q: "below fs B q" "q = B @ normals ms @ [s]" by (auto simp: below_def strict_prefix_def)
    have nl: "fs_node fs q \<noteq> Some (NLink target)" for target using pl(2) c q(2) by (simp add: nolinks_append)
    have IH: "keeps p B fs' (make_dirs (components p @ ms @ [c]) cs fs') \<and> no_new_links fs' (make_dirs (components p @ ms @ [c]) cs fs')"
      if "destination_ok p B fs'" "no_new_links fs fs'" for fs'
      using Cons.IH [of fs' "ms @ [c]"] that Cons.prems(2-4) nolinks_mono by simp
    have "fs_node fs q = Some a \<Longrightarrow> a = NDir \<or> (\<exists>i. a = NFile i)" for a using nl by (cases a) auto
    then consider "fs_node fs q = None" "\<not> fs_deny fs q" | "fs_node fs q = Some NDir"
      | "fs_node fs q = None" "fs_deny fs q" | i where "fs_node fs q = Some (NFile i)"
      by (cases "fs_node fs q") auto
    then show ?thesis
    proof cases
      case 1
      let ?f = "set_node q (Some NDir) fs"
      have k: "destination_ok p B ?f \<and> confined B fs ?f \<and> no_new_links fs ?f" using good_set_node [OF g, of q "Some NDir"] q(1) 1 by (simp add: below_def)
      have "make_dirs (components p @ ms) (c # cs) fs = make_dirs (components p @ ms @ [c]) cs ?f" using m Ok 1 below_node [OF q(1)] by simp
      with IH [of ?f] k show ?thesis using confined_trans no_new_links_trans by (auto simp: keeps_def)
    next
      case 2
      then have "make_dirs (components p @ ms) (c # cs) fs = make_dirs (components p @ ms @ [c]) cs fs" using m Ok below_node [OF q(1)] by simp
      with IH [of fs] g show ?thesis by simp
    next
      case 3
      then have "make_dirs (components p @ ms) (c # cs) fs = fs" using m Ok below_node [OF q(1)] by simp
      then show ?thesis using keeps_refl [OF g] by simp
    next
      case 4
      then have "make_dirs (components p @ ms) (c # cs) fs = fs" using m Ok below_node [OF q(1)] by simp
      then show ?thesis using keeps_refl [OF g] by simp
    qed
  qed (use m g in \<open>simp add: keeps_refl\<close>)
qed (simp add: keeps_refl)

lemma keeps_make_dirs:
  assumes g: "destination_ok p B fs" and e: "entry_ok fs B n" and pp: "path_parent (path_join p n) = Some pp"
  shows "keeps p B fs (make_dirs [] pp fs) \<and> no_new_links fs (make_dirs [] pp fs)"
proof -
  let ?x = "map piece (filter (\<lambda>s. s \<noteq> ''.'') (pieces n))"
  have n: "\<not> is_absolute n" "''..'' \<notin> set (pieces n)" "nolinks (fs_node fs) B (normals ?x)"
    using e by (auto simp: entry_ok_def normals_components normals_piece)
  have pne: "p \<noteq> []" and dir: "is_dir_in (fs_node fs) B" using g by (auto simp: destination_ok_def)
  have pp': "pp = butlast (components p @ ?x)" using pp components_join [OF pne n(1)] by (auto simp: path_parent_def split: if_splits)
  show ?thesis
  proof (cases "?x = []")
    case True
    then obtain zs where z: "components p = pp @ zs" using pp' by (metis append_butlast_last_id append_Nil2 butlast.simps(1))
    have "make_dirs [] (pp @ []) fs = make_dirs ([] @ pp) [] fs"
      by (rule make_dirs_prefix [OF g _ dir, of _ _ zs]) (use good_components [OF g] z in simp)
    then show ?thesis using g by (simp add: keeps_refl)
  next
    case False
    have "make_dirs [] (components p @ butlast ?x) fs = make_dirs ([] @ components p) (butlast ?x) fs"
      by (rule make_dirs_prefix [OF g _ dir, of _ _ "[]"]) (use good_components [OF g] in simp)
    moreover have "pp = components p @ butlast ?x" using pp' False by (simp add: butlast_append)
    moreover have "plain (butlast ?x)" "\<forall>c\<in>set (butlast ?x). \<exists>s. c = CNormal s"
      using n(2) by (auto simp: plain_def dest!: in_set_butlastD split: if_splits)
    moreover have "nolinks (fs_node fs) B (normals (butlast ?x))"
      using n(3) False by (metis append_butlast_last_id nolinks_append normals_append)
    ultimately show ?thesis using make_dirs_entry [OF g, of "[]" "butlast ?x"] by simp
  qed
qed

section \<open>The operations of a job\<close>

lemma nolinks_iff: "nolinks t C ns \<longleftrightarrow> (\<forall>ms s target. prefix (ms @ [s]) ns \<longrightarrow> t (C @ ms @ [s]) \<noteq> Some (NLink target))"
proof (induction ns arbitrary: C)
  case (Cons n ns)
  show ?case
  proof
    assume a: "nolinks t C (n # ns)"
    show "\<forall>ms s target. prefix (ms @ [s]) (n # ns) \<longrightarrow> t (C @ ms @ [s]) \<noteq> Some (NLink target)"
    proof (intro allI impI)
      fix ms s target assume "prefix (ms @ [s]) (n # ns)"
      then show "t (C @ ms @ [s]) \<noteq> Some (NLink target)" using a Cons.IH [of "C @ [n]"] by (cases ms) auto
    qed
  next
    assume a: "\<forall>ms s target. prefix (ms @ [s]) (n # ns) \<longrightarrow> t (C @ ms @ [s]) \<noteq> Some (NLink target)"
    have "t (C @ [n]) \<noteq> Some (NLink target)" for target using a [rule_format, of "[]" n] by simp
    moreover have "nolinks t (C @ [n]) ns" unfolding Cons.IH using a [rule_format, of "n # _"] by simp
    ultimately show "nolinks t C (n # ns)" by simp
  qed
qed simp

lemma rename_nolinks:
  assumes a: "\<And>q target. resolve fs False path = Ok q \<Longrightarrow> q \<noteq> [] \<and> fs_node fs q \<noteq> Some (NLink target)"
    and b: "\<And>q. resolve fs False path' = Ok q \<Longrightarrow> q = B @ ns" and n: "nolinks (fs_node fs) B ns"
  shows "nolinks (fs_node (snd (rename path path' fs))) B ns"
proof (cases "resolve fs False path")
  case qa: (Ok qa)
  note A = a [OF qa]
  show ?thesis
  proof (cases "resolve fs False path'")
    case (Ok qb)
    note B = b [OF Ok]
    consider "snd (rename path path' fs) = fs"
      | m where "snd (rename path path' fs) = set_node qb (Some m) (set_node qa None fs)" "fs_node fs qa = Some m"
      | "snd (rename path path' fs) = move_tree qa qb fs" "fs_node fs qa = Some NDir"
      by (rule rename_cases [OF qa Ok]) (use A in \<open>auto simp: node_at_def\<close>)
    then show ?thesis
    proof cases
      case 1
      then show ?thesis using n by simp
    next
      case (2 m)
      then have "no_new_links fs (snd (rename path path' fs))" using A by (auto simp: no_new_links_def set_node_def split: if_splits)
      then show ?thesis using n nolinks_mono by blast
    next
      case 3
      show ?thesis
        unfolding nolinks_iff
      proof (intro allI impI)
        fix ms s target assume p: "prefix (ms @ [s]) ns"
        show "fs_node (snd (rename path path' fs)) (B @ ms @ [s]) \<noteq> Some (NLink target)"
        proof (cases "ms @ [s] = ns")
          case True
          then show ?thesis using 3 B by (simp add: move_tree_def)
        next
          case False
          with p have "\<not> prefix qb (B @ ms @ [s])" using B by (auto simp: prefix_order.antisym)
          then show ?thesis using 3(1) n p by (simp add: move_tree_def nolinks_iff)
        qed
      qed
    qed
  qed (use qa n in \<open>simp add: rename_def\<close>)
qed (use n in \<open>simp add: rename_def\<close>)

definition writes_below :: "string \<Rightarrow> TransferJob \<Rightarrow> bool" where
  "writes_below p job \<longleftrightarrow> tj_type job = Generic \<and> tj_source job = FilePath p \<and> (\<forall>e\<in>set (tj_files job). fe_name e \<noteq> [])"

lemma resolve_entry_path_ok:
  assumes "destination_ok p B fs" "writes_below p job" "k < length (tj_files job)" "resolve_entry_path fs job p (fe_name (tj_files job ! k)) = Some path"
  shows "path = path_join p (fe_name (tj_files job ! k)) \<and> entry_ok fs B (fe_name (tj_files job ! k))"
proof -
  have "join_validated_path fs p (fe_name (tj_files job ! k)) = Ok path"
    using assms(2,4) by (cases "join_validated_path fs p (fe_name (tj_files job ! k))") (auto simp: resolve_entry_path_def writes_below_def)
  moreover have "fe_name (tj_files job ! k) \<noteq> []" using assms(2,3) by (simp add: writes_below_def)
  ultimately show ?thesis using join_validated_path_Ok [OF assms(1)] by blast
qed

lemma staged_below:
  assumes "destination_ok p B fs" "entry_ok fs B n"
  shows "resolve fs f (digest_of (path_join p n)) = Ok q \<Longrightarrow> below fs B q"
    and "resolve fs f (download_of (path_join p n)) = Ok q \<Longrightarrow> below fs B q \<and> fs_node fs q \<noteq> Some (NLink target)"
  using resolve_staged [OF assms, of "''.digest''"] resolve_staged [OF assms, of "''.download''"]
    staged_not_link [OF assms(1), of "''.download''" n target]
  by (auto simp: below_def digest_of_def download_of_def is_suffix_def)

lemma entry_below:
  assumes "destination_ok p B fs" "entry_ok fs B n" "resolve fs f (path_join p n) = Ok q"
  shows "q = B @ normals (components n) \<and> (q = B \<or> below fs B q)"
  using resolve_entry [OF assms] by (auto simp: below_def entry_at_def)

lemma keeps_promote:
  assumes g: "destination_ok p B fs" and e: "entry_ok fs B n"
  shows "keeps p B fs (set_mtime (path_join p n) t (snd (rename (download_of (path_join p n)) (path_join p n)
           (snd (remove_file (digest_of (path_join p n)) fs)))))"
proof -
  let ?p = "path_join p n"
  let ?f1 = "snd (remove_file (digest_of ?p) fs)" let ?f2 = "snd (rename (download_of ?p) ?p ?f1)"
  have k1: "keeps p B fs ?f1 \<and> no_new_links fs ?f1"
    using keeps_remove_file [OF g, of "digest_of ?p" "fst (remove_file (digest_of ?p) fs)"] staged_below(1) [OF g e] by force
  then have g1: "destination_ok p B ?f1" and e1: "entry_ok ?f1 B n" using entry_ok_mono [OF _ e] by (auto simp: keeps_def)
  have k2: "keeps p B ?f1 ?f2"
    by (rule keeps_rename [OF g1]) (use staged_below(2) [OF g1 e1] entry_below [OF g1 e1] in blast)+
  have e2: "entry_ok ?f2 B n"
  proof -
    have "nolinks (fs_node ?f2) B (normals (components n))"
    proof (rule rename_nolinks)
      fix q target assume "resolve ?f1 False (download_of ?p) = Ok q"
      from staged_below(2) [OF g1 e1 this] show "q \<noteq> [] \<and> fs_node ?f1 q \<noteq> Some (NLink target)" by (auto simp: below_def)
    next
      fix q assume "resolve ?f1 False ?p = Ok q"
      then show "q = B @ normals (components n)" using entry_below [OF g1 e1] by blast
    qed (use e1 in \<open>simp add: entry_ok_def\<close>)
    then show ?thesis using e1 by (simp add: entry_ok_def)
  qed
  have g2: "destination_ok p B ?f2" using k2 by (simp add: keeps_def)
  have "keeps p B ?f2 (set_mtime ?p t ?f2)" by (rule keeps_set_mtime [OF g2]) (use entry_below [OF g2 e2] in blast)
  with k1 k2 show ?thesis using keeps_trans by blast
qed

lemma keeps_modify_time:
  assumes "destination_ok p B fs" "writes_below p job"
  shows "keeps p B fs (modify_time job fs)"
proof -
  let ?k = "as_usize (tj_file_num job)"
  show ?thesis
  proof (cases "?k < length (tj_files job)")
    case True
    show ?thesis
    proof (cases "resolve_entry_path fs job p (fe_name (tj_files job ! ?k))")
      case (Some path)
      from resolve_entry_path_ok [OF assms True Some] keeps_promote [OF assms(1)] show ?thesis
        using assms True Some by (simp add: modify_time_def writes_below_def Let_def)
    qed (use assms True in \<open>simp add: modify_time_def writes_below_def keeps_refl\<close>)
  qed (use assms in \<open>simp add: modify_time_def writes_below_def keeps_refl\<close>)
qed

lemma keeps_remove_download:
  assumes g: "destination_ok p B fs" and w: "writes_below p job"
  shows "keeps p B fs (remove_download_file job fs)"
proof -
  let ?k = "as_usize (tj_file_num job)" let ?n = "fe_name (tj_files job ! ?k)"
  show ?thesis
  proof (cases "?k < length (tj_files job)")
    case True
    show ?thesis
    proof (cases "resolve_entry_path fs job p ?n")
      case (Some path)
      note e = resolve_entry_path_ok [OF assms True Some]
      let ?f1 = "snd (remove_file (download_of path) fs)"
      have k1: "keeps p B fs ?f1 \<and> no_new_links fs ?f1"
        using keeps_remove_file [OF g, of "download_of path" "fst (remove_file (download_of path) fs)"] staged_below(2) [OF g] e by force
      then have g1: "destination_ok p B ?f1" and e1: "entry_ok ?f1 B ?n" using entry_ok_mono e by (auto simp: keeps_def)
      have "keeps p B ?f1 (snd (remove_file (digest_of path) ?f1))"
        using keeps_remove_file [OF g1, of "digest_of path" "fst (remove_file (digest_of path) ?f1)"] staged_below(1) [OF g1 e1] e by force
      then show ?thesis using k1 keeps_trans w True Some by (auto simp: remove_download_file_def writes_below_def)
    qed (use assms True in \<open>simp add: remove_download_file_def writes_below_def keeps_refl\<close>)
  qed (use assms in \<open>simp add: remove_download_file_def writes_below_def keeps_refl\<close>)
qed

definition stream_below :: "canon \<Rightarrow> Fs \<Rightarrow> TransferJob \<Rightarrow> bool" where
  "stream_below B fs job \<longleftrightarrow> (\<forall>i off. tj_stream job = Some (FileStream i off) \<longrightarrow> only_below B (fs_node fs) i)"

lemma only_below_confined: "confined B fs fs' \<Longrightarrow> only_below B (fs_node fs) i \<Longrightarrow> only_below B (fs_node fs') i"
  by (metis confined_def only_below_def)

lemma stream_below_mono: "confined B fs fs' \<Longrightarrow> stream_below B fs job \<Longrightarrow> stream_below B fs' job"
  using only_below_confined by (auto simp: stream_below_def)

lemma open_target_keeps:
  assumes g: "destination_ok p B fs" and w: "writes_below p job" and n: "fe_name entry \<noteq> []"
    and o: "open_target L p entry job fs = (r, job', fs')" and s: "stream_below B fs job"
  shows "keeps p B fs fs' \<and> writes_below p job' \<and> stream_below B fs' job'"
proof (cases "join_validated_path fs p (fe_name entry)")
  case (Err e)
  then show ?thesis using o w s g by (auto simp: open_target_def writes_below_def keeps_refl)
next
  case (Ok path)
  let ?n = "fe_name entry"
  from join_validated_path_Ok [OF g Ok n] have p: "path = path_join p ?n" and e: "entry_ok fs B ?n" by auto
  let ?f1 = "case path_parent path of Some pp \<Rightarrow> make_dirs [] pp fs | None \<Rightarrow> fs"
  have k1: "keeps p B fs ?f1 \<and> no_new_links fs ?f1"
    using keeps_make_dirs [OF g e] keeps_refl [OF g] p by (simp split: option.splits)
  then have g1: "destination_ok p B ?f1" and e1: "entry_ok ?f1 B ?n" using entry_ok_mono e by (auto simp: keeps_def)
  obtain r2 f2 where f2: "(if fs_exists ?f1 (digest_of path) then remove_file (digest_of path) ?f1 else (Ok (), ?f1)) = (r2, f2)"
    by (cases "if fs_exists ?f1 (digest_of path) then remove_file (digest_of path) ?f1 else (Ok (), ?f1)") auto
  have k2: "keeps p B ?f1 f2 \<and> no_new_links ?f1 f2"
    using keeps_remove_file [OF g1, of "digest_of path" r2 f2] staged_below(1) [OF g1 e1] f2 p keeps_refl [OF g1]
    by (auto split: if_splits)
  then have g2: "destination_ok p B f2" and e2: "entry_ok f2 B ?n" using entry_ok_mono e1 by (auto simp: keeps_def)
  obtain r3 f3 where f3: "create_file (download_of path) f2 = (r3, f3)" by (cases "create_file (download_of path) f2") auto
  have k3: "keeps p B f2 f3 \<and> no_new_links f2 f3 \<and> (\<forall>i. r3 = Ok i \<longrightarrow> only_below B (fs_node f3) i)"
    using keeps_create_file [OF g2 _ f3] staged_below(2) [OF g2 e2] p by blast
  then have g3: "destination_ok p B f3" and e3: "entry_ok f3 B ?n" using entry_ok_mono e2 by (auto simp: keeps_def)
  let ?f4 = "snd (write_file (digest_of path) (fl_digest_text L (fd_size (tj_digest job), fd_modified (tj_digest job))) f3)"
  have k4: "keeps p B f3 ?f4" using keeps_write_file [OF g3] staged_below(1) [OF g3 e3] p by blast
  have k: "keeps p B fs ?f1" "keeps p B fs f2" "keeps p B fs f3" "keeps p B fs ?f4"
    using k1 k2 k3 k4 keeps_trans by blast+
  have st: "stream_below B f2 job" "stream_below B f3 job" using k(2,3) s stream_below_mono by (auto simp: keeps_def)
  have ty: "tj_type job = Generic" using w by (simp add: writes_below_def)
  note o' = o [unfolded open_target_def ty Ok result.case Let_def f2 prod.case]
  show ?thesis
  proof (cases r2)
    case (Err x)
    then show ?thesis using o' k(2) w st(1) by simp
  next
    case r2: (Ok x)
    show ?thesis
    proof (cases r3)
      case (Err y)
      then show ?thesis using o' r2 f3 k(3) w st(2) by simp
    next
      case (Ok i)
      have "only_below B (fs_node ?f4) i" using k3 Ok k4 only_below_confined by (auto simp: keeps_def)
      moreover have "job' = job\<lparr>tj_stream := Some (FileStream i 0)\<rparr>" "fs' = ?f4" using o' r2 Ok f3 by simp_all
      ultimately show ?thesis using k(4) w by (simp add: stream_below_def writes_below_def)
    qed
  qed
qed

lemma select_file_keeps:
  assumes g: "destination_ok p B fs" and w: "writes_below p job" and s: "stream_below B fs job"
    and o: "select_file L block job fs = (r, job', fs')"
  shows "keeps p B fs fs' \<and> writes_below p job' \<and> stream_below B fs' job'"
proof -
  let ?k = "as_usize (fb_file_num block)" let ?f1 = "modify_time job fs"
  have src: "tj_source job = FilePath p" using w by (simp add: writes_below_def)
  have k1: "keeps p B fs ?f1" using keeps_modify_time [OF g w] .
  then have g1: "destination_ok p B ?f1" and s1: "stream_below B ?f1 job" using stream_below_mono s by (auto simp: keeps_def)
  consider "job' = job" "fs' = fs" | "job' = job" "fs' = ?f1"
    | "?k < length (tj_files job)" "open_target L p (tj_files job ! ?k) (job\<lparr>tj_file_num := fb_file_num block\<rparr>) ?f1 = (r, job', fs')"
    using o by (auto simp: select_file_def src Let_def not_le split: if_splits)
  then show ?thesis
  proof cases
    case 3
    have "fe_name (tj_files job ! ?k) \<noteq> []" using w 3(1) by (simp add: writes_below_def)
    from open_target_keeps [OF g1 _ this 3(2)] w s1 k1 show ?thesis
      using keeps_trans by (auto simp: writes_below_def stream_below_def)
  qed (use g w s k1 s1 in \<open>simp_all add: keeps_refl\<close>)
qed

lemma write_block_keeps:
  assumes g: "destination_ok p B fs" and w: "writes_below p job" and s: "stream_below B fs job"
    and o: "write_block L block job fs = (r, job', fs')"
  shows "keeps p B fs fs' \<and> writes_below p job' \<and> stream_below B fs' job'"
proof (cases "fb_id block = tj_id job")
  case False
  then show ?thesis using o g w s by (simp add: write_block_def keeps_refl)
next
  case True
  obtain r1 j1 f1 where f1: "select_file L block job fs = (r1, j1, f1)" by (cases "select_file L block job fs") auto
  from select_file_keeps [OF g w s f1] have k: "keeps p B fs f1" "writes_below p j1" "stream_below B f1 j1" by auto
  note o' = o [unfolded write_block_def f1 prod.case]
  let ?b = "if fb_compressed block then fl_decompress L (fb_data block) else fb_data block"
  consider "job' = j1" "fs' = f1" | s' where "tj_stream j1 = Some s'" "tj_stream job' = Some (fst (stream_write ?b s' f1))"
      "fs' = snd (stream_write ?b s' f1)" "writes_below p job'"
  proof (cases r1)
    case (Ok x)
    show ?thesis
    proof (cases "tj_stream j1")
      case None
      then have "job' = j1" "fs' = f1" using o' True Ok by simp_all
      then show ?thesis by (rule that(1))
    next
      case (Some s')
      obtain s2 f2 where s2: "stream_write ?b s' f1 = (s2, f2)" by (cases "stream_write ?b s' f1") auto
      show ?thesis
      proof (cases "fl_write_ok L")
        case True
        have "writes_below p job'" "tj_stream job' = Some s2" "fs' = f2"
          using o' \<open>fb_id block = tj_id job\<close> True Ok Some k(2)
          by (simp_all add: Let_def s2 [simplified] writes_below_def del: if_split split del: if_split) (auto simp: writes_below_def)
        then show ?thesis using that(2) [OF Some] s2 by simp
      next
        case False
        then have "job' = j1" "fs' = f1" using o' \<open>fb_id block = tj_id job\<close> Ok Some by simp_all
        then show ?thesis by (rule that(1))
      qed
    qed
  next
    case (Err e)
    then have "job' = j1" "fs' = f1" using o' True by simp_all
    then show ?thesis by (rule that(1))
  qed
  then show ?thesis
  proof cases
    case (2 s')
    show ?thesis
    proof (cases s')
      case (FileStream i off)
      have "destination_ok p B f1" "only_below B (fs_node f1) i" using k 2(1) FileStream by (auto simp: keeps_def stream_below_def)
      from keeps_write_at [OF this, of off ?b] have k4: "keeps p B f1 fs'" using 2 FileStream by (simp add: stream_write_def)
      then have "only_below B (fs_node fs') i" using k 2(1) FileStream only_below_confined by (auto simp: keeps_def stream_below_def)
      moreover have "tj_stream job' = Some (FileStream i (off + length ?b))" using 2(2) FileStream by (simp add: stream_write_def)
      ultimately show ?thesis using keeps_trans [OF k(1) k4] 2(4) by (simp add: stream_below_def)
    next
      case (BufStream c pos)
      then show ?thesis using 2 k by (simp add: stream_below_def stream_write_def)
    qed
  qed (use k in simp)
qed

lemma set_stream_offset_below:
  assumes g: "destination_ok p B fs" and w: "writes_below p job" and s: "stream_below B fs job"
  shows "writes_below p (set_stream_offset fs k off job) \<and> stream_below B fs (set_stream_offset fs k off job)"
proof (cases "k < length (tj_files job)")
  case True
  have src: "tj_source job = FilePath p" using w by (simp add: writes_below_def)
  show ?thesis
  proof (cases "resolve_entry_path fs job p (fe_name (tj_files job ! k))")
    case (Some path)
    from resolve_entry_path_ok [OF g w True Some] have e: "path = path_join p (fe_name (tj_files job ! k))"
      "entry_ok fs B (fe_name (tj_files job ! k))" by auto
    have inode: "only_below B (fs_node fs) i" if "open_file f fs = Ok i" "f \<in> {path, download_of path}" for f i
    proof -
      from that(1) obtain q where q: "resolve fs True f = Ok q" "node_at fs q = Some (NFile i)"
        by (auto simp: open_file_def split: result.splits if_splits option.splits Node.splits)
      have "q = B \<or> below fs B q" using entry_below [OF g e(2)] staged_below(2) [OF g e(2)] e(1) q(1) that(2) by blast
      moreover have "node_at fs B = Some NDir" using g by (auto simp: destination_ok_def is_dir_in_def node_at_def)
      ultimately show ?thesis using q(2) good_file [OF g] below_node by fastforce
    qed
    then have f1: "result_ok (open_file f fs) = Some i \<Longrightarrow> f \<in> {path, download_of path} \<Longrightarrow> only_below B (fs_node fs) i" for f i
      by (cases "open_file f fs") auto
    show ?thesis
      using w s f1 True Some src
      by (auto simp: set_stream_offset_def writes_below_def stream_below_def Let_def split: option.splits if_splits)
  qed (use w s True src in \<open>simp add: set_stream_offset_def\<close>)
qed (use w s in \<open>simp add: set_stream_offset_def\<close>)

lemma confirm_below:
  assumes g: "destination_ok p B fs" and w: "writes_below p job" and s: "stream_below B fs job"
  shows "writes_below p (confirm fs r job) \<and> stream_below B fs (confirm fs r job)"
proof -
  have "writes_below p (set_file_confirmed c job)" "stream_below B fs (set_file_confirmed c job)" for c
    using w s by (simp_all add: set_file_confirmed_def writes_below_def stream_below_def)
  moreover have "writes_below p (set_file_skipped job)" "stream_below B fs (set_file_skipped job)"
    using w by (simp_all add: set_file_skipped_def set_file_is_waiting_def set_file_confirmed_def file_num_next_def
      writes_below_def stream_below_def)
  ultimately show ?thesis using w s set_stream_offset_below [OF g]
    by (simp add: confirm_def Let_def split: option.splits ConfirmUnion.splits)
qed

section \<open>Runs of a job\<close>

datatype JobOp = OpBlock FsLib FileTransferBlock | OpConfirm SendConfirmRequest | OpFinish | OpCancel

fun job_op :: "JobOp \<Rightarrow> TransferJob \<times> Fs \<Rightarrow> TransferJob \<times> Fs" where
  "job_op (OpBlock L block) (job, fs) = snd (write_block L block job fs)"
| "job_op (OpConfirm r) (job, fs) = (confirm fs r job, fs)"
| "job_op OpFinish (job, fs) = (job, modify_time job fs)"
| "job_op OpCancel (job, fs) = (job, remove_download_file job fs)"

definition job_inv :: "string \<Rightarrow> canon \<Rightarrow> Fs \<Rightarrow> TransferJob \<times> Fs \<Rightarrow> bool" where
  "job_inv p B fs0 s \<longleftrightarrow>
     destination_ok p B (snd s) \<and> confined B fs0 (snd s) \<and> writes_below p (fst s) \<and> stream_below B (snd s) (fst s)"

lemma job_op_inv: "job_inv p B fs0 s \<Longrightarrow> job_inv p B fs0 (job_op op s)"
proof (cases s)
  case (Pair job fs)
  assume "job_inv p B fs0 s"
  with Pair have i: "destination_ok p B fs" "confined B fs0 fs" "writes_below p job" "stream_below B fs job" by (auto simp: job_inv_def)
  have k: "keeps p B fs fs' \<Longrightarrow> confined B fs0 fs' \<and> destination_ok p B fs' \<and> stream_below B fs' job" for fs'
    using i confined_trans stream_below_mono by (auto simp: keeps_def)
  show ?thesis
  proof (cases op)
    case (OpBlock L block)
    obtain r job' fs' where o: "write_block L block job fs = (r, job', fs')" by (cases "write_block L block job fs") auto
    from write_block_keeps [OF i(1,3,4) o] k [of fs'] show ?thesis using OpBlock Pair o by (simp add: job_inv_def)
  next
    case (OpConfirm r)
    then show ?thesis using Pair i confirm_below [OF i(1,3,4)] by (simp add: job_inv_def)
  next
    case OpFinish
    then show ?thesis using Pair i(3) k [OF keeps_modify_time [OF i(1,3)]] by (simp add: job_inv_def)
  next
    case OpCancel
    then show ?thesis using Pair i(3) k [OF keeps_remove_download [OF i(1,3)]] by (simp add: job_inv_def)
  qed
qed

interpretation write_job: guarded_machine job_op "job_inv p B fs0" "\<lambda>_. True" for p B fs0
  by unfold_locales (rule job_op_inv)

section \<open>A destination that works and one that leaks\<close>

definition demo_node :: "canon \<Rightarrow> Node option" where
  "demo_node q = (if q = [''srv''] \<or> q = [''etc''] then Some NDir else if q = [''etc'', ''passwd''] then Some (NFile 0) else None)"

definition demo_fs :: Fs where
  "demo_fs = \<lparr>fs_node = demo_node, fs_data = [0 \<mapsto> ([1, 2, 3], 7)], fs_next = 1, fs_cwd = [''etc''], fs_deny = (\<lambda>_. False), fs_time = 9\<rparr>"

definition demo_lib :: FsLib where
  "demo_lib = \<lparr>fl_compress = id, fl_decompress = id, fl_digest_text = (\<lambda>(a, b). [a, b]), fl_digest_of = (\<lambda>_. None),
     fl_write_ok = True, fl_sync_ok = True, fl_read_ok = True\<rparr>"

definition demo_files :: "FileEntry list" where
  "demo_files = [\<lparr>fe_name = ''a'', fe_size = 2, fe_modified = 5\<rparr>, \<lparr>fe_name = ''d/b'', fe_size = 1, fe_modified = 6\<rparr>]"

abbreviation demo_new :: TransferJob where
  "demo_new \<equiv> new_write 4 Generic [] (FilePath ''/srv'') 0 False False False"

definition demo_job :: TransferJob where
  "demo_job = demo_new\<lparr>tj_total_size := 3, tj_files := demo_files\<rparr>"

definition demo_block :: FileTransferBlock where
  "demo_block = \<lparr>fb_id = 4, fb_file_num = 1, fb_data = [8], fb_compressed = False\<rparr>"

text \<open>The tree again, with a link at the place of the second file's \<open>.download\<close> file\<close>

definition trap_fs :: Fs where
  "trap_fs = set_node [''srv'', ''d'', ''b.download''] (Some (NLink ''/etc/passwd'')) (set_node [''srv'', ''d''] (Some NDir) demo_fs)"

lemma demo_destination: "destination_ok ''/srv'' [''srv''] demo_fs"
proof -
  have p: "butlast q = [] \<or> butlast q = [''etc'']" if "demo_node q \<noteq> None" for q
    using that by (auto simp: demo_node_def split: if_splits)
  have "tree_ok demo_node"
    unfolding tree_ok_def is_dir_in_def
  proof (intro allI impI)
    fix q s assume "demo_node (q @ [s]) \<noteq> None"
    then show "q = [] \<or> demo_node q = Some NDir" using p [of "q @ [s]"] by (auto simp: demo_node_def)
  qed
  moreover have "walk MAX_LINKS (mask [''srv''] demo_node) True [''etc''] (kernel_path ''/srv'') = Ok [''srv'']"
    by (simp add: kernel_path_def is_absolute_def pieces_def mask_def demo_node_def)
  ultimately show ?thesis
    by (auto simp: destination_ok_def demo_fs_def is_dir_in_def no_staged_links_def demo_node_def split: if_splits)
qed

lemmas path_eval = kernel_path_def is_absolute_def pieces_def path_join_def job_join_def components_def starts_with_def
lemmas fs_eval = MAX_LINKS_def resolve_def stat_def node_at_def fs_exists_def create_file_def write_at_def write_file_def remove_file_def
  set_node_def set_data_def data_of_def rename_def set_mtime_def path_parent_def
lemmas job_eval = validate_file_name_no_traversal_def validate_no_symlink_components_def join_validated_path_def resolve_entry_path_def
  download_of_def digest_of_def modify_time_def new_write_def job_default_def
lemmas demo_eval = demo_fs_def demo_node_def demo_files_def demo_job_def trap_fs_def as_usize_def

lemma set_files_demo: "set_files demo_fs demo_files demo_new = Ok demo_job" "set_files trap_fs demo_files demo_new = Ok demo_job"
  by (simp_all add: set_files_def validate_transfer_file_names_def path_eval fs_eval job_eval demo_eval sum_u64_def u64_max_def)

lemma trap_modify_time: "modify_time demo_job trap_fs = trap_fs"
  by (simp add: path_eval fs_eval job_eval demo_eval)

abbreviation trap_target :: "unit outcome \<times> TransferJob \<times> Fs" where
  "trap_target \<equiv> open_target demo_lib ''/srv'' \<lparr>fe_name = ''d/b'', fe_size = 1, fe_modified = 6\<rparr> (demo_job\<lparr>tj_file_num := 1\<rparr>) trap_fs"

lemma trap_open: "fst trap_target = Ok ()" "tj_stream (fst (snd trap_target)) = Some (FileStream 0 0)" "fs_data (snd (snd trap_target)) 0 = Some ([], 9)"
  "fs_time (snd (snd trap_target)) = 9"
  by code_simp+

lemma trap_select: "select_file demo_lib demo_block demo_job trap_fs = trap_target"
  using trap_modify_time by (simp add: select_file_def demo_block_def demo_job_def demo_files_def new_write_def job_default_def as_usize_def)

text \<open>C2: A writing job with several entries never leaves its destination. Whatever blocks, confirmations, completion and
cancellation follow the accepted list of names, in any order and with any answers of the device, every node that is not
below the destination and the contents and times of every file that has a name outside it stay as they were. The
destination is a directory that its path reaches without passing through its own contents; no entry below it that ends in
\<open>.download\<close> or \<open>.digest\<close> is a symbolic link, and no file below it has a second name outside.\<close>

theorem write_confined:
  assumes "set_files fs files (new_write jid Generic remote (FilePath p) file_num show_hidden is_remote overwrite) = Ok job"
    and "length files \<noteq> 1" "destination_ok p B fs"
  shows "confined B fs (snd (fold job_op ops (job, fs)))"
proof -
  from assms(1) have v: "validate_transfer_file_names files = Ok ()" "tj_files job = files" "tj_type job = Generic"
    "tj_source job = FilePath p" "tj_stream job = None"
    by (auto simp: set_files_def new_write_def job_default_def split: result.splits)
  have "validate_each fl = Ok () \<Longrightarrow> \<forall>e\<in>set fl. fe_name e \<noteq> []" for fl
    by (induction fl) (auto split: if_splits result.splits)
  then have "\<forall>e\<in>set files. fe_name e \<noteq> []" using v(1) assms(2) by (simp add: validate_transfer_file_names_def)
  then have "job_inv p B fs (job, fs)" using v assms(3) by (simp add: job_inv_def writes_below_def stream_below_def)
  then show ?thesis using write_job.run_inv [of p B fs "(job, fs)" ops] by (simp add: job_inv_def)
qed

theorem write_confined_witness:
  "set_files demo_fs demo_files demo_new = Ok demo_job \<and> length demo_files \<noteq> 1 \<and> destination_ok ''/srv'' [''srv''] demo_fs
   \<and> confined [''srv''] demo_fs (snd (fold job_op [OpBlock demo_lib demo_block, OpFinish] (demo_job, demo_fs)))"
  using set_files_demo(1) demo_destination
    write_confined [OF set_files_demo(1) _ demo_destination, of "[OpBlock demo_lib demo_block, OpFinish]"]
  by (simp add: demo_files_def)

text \<open>The condition on \<open>.download\<close> links is needed: the components of an entry's name are checked for symbolic links,
but not the \<open>.download\<close> name the data goes to. With a link there, a block of an accepted job replaces a file outside the
destination.\<close>

theorem staged_link_followed:
  "set_files trap_fs demo_files demo_new = Ok demo_job
   \<and> fs_node trap_fs [''etc'', ''passwd''] = Some (NFile 0) \<and> fs_data trap_fs 0 = Some ([1, 2, 3], 7)
   \<and> fs_data (snd (snd (write_block demo_lib demo_block demo_job trap_fs))) 0 = Some ([8], 9)"
proof -
  obtain r job fs where t: "trap_target = (r, job, fs)" by (cases trap_target) auto
  with trap_select have sel: "select_file demo_lib demo_block demo_job trap_fs = (r, job, fs)" by (simp only:)
  from t trap_open have o: "r = Ok ()" "tj_stream job = Some (FileStream 0 0)" "fs_data fs 0 = Some ([], 9)" "fs_time fs = 9" by auto
  have "fb_id demo_block = tj_id demo_job" "fb_data demo_block = [8]" "\<not> fb_compressed demo_block" "fl_write_ok demo_lib"
    by (simp_all add: demo_block_def demo_job_def new_write_def demo_lib_def)
  then have "fs_data (snd (snd (write_block demo_lib demo_block demo_job trap_fs))) 0 = Some ([8], 9)"
    using o by (simp add: write_block_def sel stream_write_def write_at_def data_of_def set_data_def)
  moreover have "fs_node trap_fs [''etc'', ''passwd''] = Some (NFile 0)" "fs_data trap_fs 0 = Some ([1, 2, 3], 7)"
    by (simp_all add: trap_fs_def set_node_def demo_fs_def demo_node_def)
  ultimately show ?thesis using set_files_demo(2) by simp
qed

end
