(* ===== verification/File_Copy.thy ===== *)
theory File_Copy
  imports File_Transfer
begin

text \<open>
  The blocks that the reading side of a job sends, written by the writing side, reproduce the file. Compression comes from
  outside the repository; all that is needed of it is that it can be undone.
\<close>

section \<open>Reading\<close>

definition transfer_lib_ok :: "FsLib \<Rightarrow> bool" where
  "transfer_lib_ok L \<longleftrightarrow> (\<forall>b. fl_decompress L (fl_compress L b) = b) \<and> fl_read_ok L \<and> fl_write_ok L"

definition reading :: "TransferJob \<Rightarrow> nat \<Rightarrow> nat \<Rightarrow> bool" where
  "reading job i off \<longleftrightarrow>
     tj_stream job = Some (FileStream i off) \<and> \<not> is_memory job \<and> as_usize (tj_file_num job) < length (tj_files job)
     \<and> (tj_overwrite_detection job \<longrightarrow> tj_file_confirmed job)"

definition payload :: "FsLib \<Rightarrow> FileTransferBlock \<Rightarrow> bytes" where
  "payload L b = (if fb_compressed b then fl_decompress L (fb_data b) else fb_data b)"

definition chunk :: "bytes \<Rightarrow> nat \<Rightarrow> bytes" where
  "chunk c off = take BUF_SIZE (drop off c)"

lemma read_block_chunk:
  assumes "transfer_lib_ok L" "reading job i off" "chunk (fst (data_of fs i)) off \<noteq> []"
  shows "\<exists>b job'. read_block L fs job = (Ok (Some b), job') \<and> fb_id b = tj_id job \<and> fb_file_num b = tj_file_num job
    \<and> payload L b = chunk (fst (data_of fs i)) off \<and> reading job' i (off + length (chunk (fst (data_of fs i)) off))
    \<and> tj_id job' = tj_id job \<and> tj_file_num job' = tj_file_num job"
  using assms
  by (auto simp: read_block_def reading_def stream_read_def chunk_def Let_def transfer_lib_ok_def payload_def is_memory_def split: DataSource.splits)

lemma read_block_end:
  assumes "transfer_lib_ok L" "reading job i off" "chunk (fst (data_of fs i)) off = []"
  shows "read_block L fs job
    = (Ok (Some \<lparr>fb_id = tj_id job, fb_file_num = tj_file_num job, fb_data = [], fb_compressed = False\<rparr>), next_read_file job)"
  using assms by (simp add: read_block_def reading_def stream_read_def chunk_def transfer_lib_ok_def Let_def)

text \<open>The blocks of the current file, the empty one that ends it included; at most \<open>n\<close> of them.\<close>

fun send_file :: "nat \<Rightarrow> FsLib \<Rightarrow> Fs \<Rightarrow> TransferJob \<Rightarrow> FileTransferBlock list \<times> TransferJob" where
  "send_file 0 L fs job = ([], job)"
| "send_file (Suc n) L fs job =
     (case read_block L fs job of
        (Ok (Some b), job') \<Rightarrow>
          if tj_stream job' = None then ([b], job') else (case send_file n L fs job' of (bs, job'') \<Rightarrow> (b # bs, job''))
      | (_, job') \<Rightarrow> ([], job'))"

fun receive :: "FsLib \<Rightarrow> FileTransferBlock list \<Rightarrow> TransferJob \<Rightarrow> Fs \<Rightarrow> TransferJob \<times> Fs" where
  "receive L [] job fs = (job, fs)"
| "receive L (b # bs) job fs = (case write_block L b job fs of (_, job', fs') \<Rightarrow> receive L bs job' fs')"

section \<open>Writing\<close>

definition writing :: "TransferJob \<Rightarrow> Fs \<Rightarrow> nat \<Rightarrow> bytes \<Rightarrow> bool" where
  "writing job fs j c \<longleftrightarrow>
     tj_stream job = Some (FileStream j (length c)) \<and> (\<exists>p. tj_source job = FilePath p)
     \<and> as_usize (tj_file_num job) < length (tj_files job) \<and> fst (data_of fs j) = c"

lemma write_block_appends:
  assumes "transfer_lib_ok L" "writing job fs j c" "fb_id b = tj_id job" "fb_file_num b = tj_file_num job"
  shows "\<exists>job' fs'. write_block L b job fs = (Ok (), job', fs') \<and> writing job' fs' j (c @ payload L b)
    \<and> tj_id job' = tj_id job \<and> tj_file_num job' = tj_file_num job"
proof -
  obtain p where p: "tj_source job = FilePath p" using assms(2) by (auto simp: writing_def)
  have "select_file L b job fs = (Ok (), job, fs)" using assms p by (simp add: select_file_def writing_def)
  then show ?thesis
    using assms p
    by (auto simp: write_block_def writing_def stream_write_def write_at_def set_data_def data_of_def payload_def transfer_lib_ok_def Let_def)
qed

lemma send_end:
  assumes "transfer_lib_ok L" "reading job i off" "chunk (fst (data_of fs i)) off = []" "writing wjob wfs j c"
    "tj_id wjob = tj_id job" "tj_file_num wjob = tj_file_num job"
  shows "case send_file (Suc n) L fs job of
           (bs, job') \<Rightarrow> fst (data_of (snd (receive L bs wjob wfs)) j) = c
             \<and> tj_stream job' = None \<and> tj_file_num job' = wrap_i32 (tj_file_num job + 1)"
proof -
  let ?b = "\<lparr>fb_id = tj_id job, fb_file_num = tj_file_num job, fb_data = [], fb_compressed = False\<rparr>"
  from write_block_appends [OF assms(1,4), of ?b] assms(5,6)
  obtain job' fs' where "write_block L ?b wjob wfs = (Ok (), job', fs')" "writing job' fs' j c" by (auto simp: payload_def)
  then show ?thesis using read_block_end [OF assms(1-3)]
    by (simp add: writing_def next_read_file_def reset_file_def file_num_next_def)
qed

text \<open>C33: Reading a file and writing the blocks on the other side reproduces it, with or without compression and from the
beginning or from an offset at which the receiver already has the first bytes. As many reads as the rest has buffers of
128 KiB, and one more, end the file on the sender, which goes on to the next one.\<close>

theorem transfer_reproduces_file:
  assumes L: "transfer_lib_ok L" and r: "reading job i off" and c: "fst (data_of fs i) = c" "off \<le> length c"
    and w: "writing wjob wfs j (take off c)" and ids: "tj_id wjob = tj_id job" "tj_file_num wjob = tj_file_num job"
    and n: "length c - off \<le> n * BUF_SIZE"
  shows "case send_file (Suc n) L fs job of
           (bs, job') \<Rightarrow> fst (data_of (snd (receive L bs wjob wfs)) j) = c
             \<and> tj_stream job' = None \<and> tj_file_num job' = wrap_i32 (tj_file_num job + 1)"
  using r c(2) w ids n
proof (induction n arbitrary: job off wjob wfs)
  case 0
  have "chunk (fst (data_of fs i)) off = []" "take off c = c" using 0(6,2) c(1) by (simp_all add: chunk_def)
  with send_end [OF L 0(1) _ 0(3-5)] show ?case by simp
next
  case (Suc n)
  let ?k = "chunk c off"
  show ?case
  proof (cases "?k = []")
    case True
    then have "length c \<le> off" by (auto simp: chunk_def BUF_SIZE_def)
    with True send_end [OF L Suc.prems(1) _ Suc.prems(3-5)] c(1) show ?thesis by simp
  next
    case False
    from read_block_chunk [OF L Suc.prems(1), of fs] False c(1) obtain b job' where
      b: "read_block L fs job = (Ok (Some b), job')" "fb_id b = tj_id job" "fb_file_num b = tj_file_num job" "payload L b = ?k"
        "reading job' i (off + length ?k)" "tj_id job' = tj_id job" "tj_file_num job' = tj_file_num job" by auto
    from write_block_appends [OF L Suc.prems(3), of b] b(2,3) Suc.prems(4,5) obtain wjob' wfs' where
      wb: "write_block L b wjob wfs = (Ok (), wjob', wfs')" "writing wjob' wfs' j (take off c @ ?k)"
        "tj_id wjob' = tj_id job" "tj_file_num wjob' = tj_file_num job" using b(4) by auto
    have tk: "take off c @ ?k = take (off + length ?k) c" by (cases "length c - off \<le> BUF_SIZE") (auto simp: chunk_def take_add min_def)
    have "off + length ?k \<le> length c" "length c - (off + length ?k) \<le> n * BUF_SIZE"
      using Suc.prems(2,6) by (auto simp: chunk_def)
    from Suc.IH [OF b(5) this(1) wb(2) [unfolded tk] _ _ this(2)] wb(3,4) b(6,7)
    have ih: "case send_file (Suc n) L fs job' of (bs, j') \<Rightarrow> fst (data_of (snd (receive L bs wjob' wfs')) j) = c
        \<and> tj_stream j' = None \<and> tj_file_num j' = wrap_i32 (tj_file_num job + 1)" by simp
    have "tj_stream job' \<noteq> None" using b(5) by (simp add: reading_def)
    then show ?thesis using ih b(1) wb(1) by (subst send_file.simps) (auto split: prod.splits)
  qed
qed

section \<open>An example\<close>

definition copy_lib :: FsLib where
  "copy_lib = \<lparr>fl_compress = rev, fl_decompress = rev, fl_digest_text = (\<lambda>(a, b). [a, b]), fl_digest_of = (\<lambda>_. None),
     fl_write_ok = True, fl_sync_ok = True, fl_read_ok = True\<rparr>"

definition copy_fs :: "bytes \<Rightarrow> Fs" where
  "copy_fs c = \<lparr>fs_node = (\<lambda>_. None), fs_data = [0 \<mapsto> (c, 7)], fs_next = 1, fs_cwd = [], fs_deny = (\<lambda>_. False), fs_time = 9\<rparr>"

definition copy_job :: "nat \<Rightarrow> TransferJob" where
  "copy_job off = (new_write 4 Generic [] (FilePath ''/srv'') 0 False False False)\<lparr>
     tj_files := [\<lparr>fe_name = ''x'', fe_size = 3, fe_modified = 5\<rparr>], tj_stream := Some (FileStream 0 off)\<rparr>"

theorem transfer_reproduces_file_witness:
  "transfer_lib_ok copy_lib \<and> reading (copy_job 1) 0 1 \<and> writing (copy_job 1) (copy_fs [5]) 0 [5]
   \<and> fst (data_of (snd (receive copy_lib (fst (send_file (Suc 1) copy_lib (copy_fs [5, 6, 7]) (copy_job 1))) (copy_job 1) (copy_fs [5]))) 0) = [5, 6, 7]"
proof -
  have h: "transfer_lib_ok copy_lib" "reading (copy_job 1) 0 1" "writing (copy_job 1) (copy_fs [5]) 0 (take 1 [5, 6, 7])"
    "fst (data_of (copy_fs [5, 6, 7]) 0) = [5, 6, 7]"
    by (simp_all add: transfer_lib_ok_def copy_lib_def reading_def writing_def copy_job_def copy_fs_def new_write_def job_default_def is_memory_def
      as_usize_def data_of_def)
  have n: "length [5, 6, 7 :: nat] - 1 \<le> 1 * BUF_SIZE" "1 \<le> length [5, 6, 7 :: nat]" by (simp_all add: BUF_SIZE_def)
  from transfer_reproduces_file [OF h(1,2,4) n(2) h(3) refl refl n(1)] h(1-3) show ?thesis
    by (cases "send_file (Suc 1) copy_lib (copy_fs [5, 6, 7]) (copy_job 1)") (simp del: send_file.simps)
qed

end
