(* ===== verification/File_Scan.thy ===== *)
theory File_Scan
  imports File_Transfer Json_Value
begin

text \<open>
  The policies on received files, \<^verbatim>\<open>src/src/clanto/file_scan.rs\<close>, and the connection manager's handler of file
  messages, \<open>handle_fs\<close> of \<^verbatim>\<open>src/src/ui_cm_interface.rs\<close>: scan modes, directions and extensions, the registry of scanned
  jobs with its reserved destinations, the scan of a completed download, quarantine, and the messages of a writing job.
  \<open>ScanEnv\<close> holds what one call reads of configuration, clock, engine and hash. The copy and paste of files and the
  engines themselves are not modelled.
\<close>

section \<open>Model: modes, directions, extensions\<close>

datatype ScanMode = ScanOff | ScanWarn | ScanBlock
datatype FileDirection = DirBoth | DirToHost | DirFromHost | DirNone
datatype TransferDirection = ToHost | FromHost
datatype ScanOutcomeKind = Clean | Malware | Unavailable
datatype ScanDecision = Deliver | Quarantine

definition DEFAULT_MAX_MB :: nat where "DEFAULT_MAX_MB = 512"
definition BLOCKED_SCAN_MESSAGE :: string where "BLOCKED_SCAN_MESSAGE = ''File bloccato dal controllo antimalware''"
definition BLOCKED_DIRECTION_MESSAGE :: string where
  "BLOCKED_DIRECTION_MESSAGE = ''Trasferimento file bloccato dalla policy dell'' @ [CHR 0x27] @ ''host''"
definition BLOCKED_EXTENSION_MESSAGE :: string where "BLOCKED_EXTENSION_MESSAGE = ''File bloccato per estensione non consentita''"
definition QUARANTINE_BASENAME_MAX :: nat where "QUARANTINE_BASENAME_MAX = 120"

definition scan_mode_from :: "string \<Rightarrow> ScanMode" where
  "scan_mode_from value =
     (let v = to_ascii_lowercase (trim value) in if v = ''warn'' then ScanWarn else if v = ''block'' then ScanBlock else ScanOff)"

definition file_direction_from :: "string \<Rightarrow> FileDirection" where
  "file_direction_from value =
     (let v = to_ascii_lowercase (trim value) in
      if v = ''to-host'' then DirToHost else if v = ''from-host'' then DirFromHost else if v = ''none'' then DirNone else DirBoth)"

fun direction_allowed :: "FileDirection \<Rightarrow> TransferDirection \<Rightarrow> bool" where
  "direction_allowed DirBoth _ = True"
| "direction_allowed DirToHost ToHost = True"
| "direction_allowed DirFromHost FromHost = True"
| "direction_allowed _ _ = False"

abbreviation is_separator :: "char \<Rightarrow> bool" where
  "is_separator c \<equiv> c = CHR ''/'' \<or> c = CHR 0x5C"

abbreviation is_dot_or_space :: "char \<Rightarrow> bool" where
  "is_dot_or_space c \<equiv> c = CHR ''.'' \<or> c = CHR '' ''"

definition normalized_extension :: "string \<Rightarrow> string option" where
  "normalized_extension name =
     (let name = trim_end_matches is_dot_or_space (last (split_on is_separator name)) in
      case rsplit_once (\<lambda>c. c = CHR ''.'') name of
        None \<Rightarrow> None
      | Some (_, extension) \<Rightarrow> if extension = [] then None else Some (to_ascii_lowercase extension))"

definition audit_basename :: "string \<Rightarrow> string" where
  "audit_basename name = (case List.find (\<lambda>s. s \<noteq> []) (rev (split_on is_separator name)) of Some s \<Rightarrow> s | None \<Rightarrow> [])"

definition extension_blocked :: "string \<Rightarrow> string \<Rightarrow> bool" where
  "extension_blocked name configured =
     (case normalized_extension name of
        None \<Rightarrow> False
      | Some extension \<Rightarrow>
          list_ex (\<lambda>candidate. eq_ignore_ascii_case
            (trim_end_matches is_dot_or_space (trim_start_matches (\<lambda>c. c = CHR ''.'') (trim candidate))) extension)
            (split_on (\<lambda>c. c = CHR '','') configured))"

definition incoming_name :: "string \<Rightarrow> string \<Rightarrow> string" where
  "incoming_name path entry_name = (if entry_name = [] then path else entry_name)"

record PolicyRejection =
  pr_id :: int
  pr_file_num :: int
  pr_message :: string

record FileRequest =
  fq_id :: int
  fq_path :: string
  fq_file_num :: int
  fq_type :: JobType
  fq_files :: "FileEntry list"
  fq_total_size :: nat

datatype FileActionUnion = FaSend FileRequest | FaReceive FileRequest | FaOther

text \<open>The options \<open>clanto-file-direction\<close> and \<open>clanto-file-blocked-ext\<close> are arguments.\<close>

definition reject_file_action :: "string \<Rightarrow> string \<Rightarrow> FileActionUnion option \<Rightarrow> PolicyRejection option" where
  "reject_file_action direction configured action =
     (let policy = file_direction_from direction;
          reject = (\<lambda>r msg. Some \<lparr>pr_id = fq_id r, pr_file_num = fq_file_num r, pr_message = msg\<rparr>)
      in case action of
           None \<Rightarrow> None
         | Some (FaSend r) \<Rightarrow>
             if fq_type r = Generic \<and> \<not> direction_allowed policy FromHost then reject r BLOCKED_DIRECTION_MESSAGE else None
         | Some (FaReceive r) \<Rightarrow>
             if \<not> direction_allowed policy ToHost then reject r BLOCKED_DIRECTION_MESSAGE
             else if list_ex (\<lambda>e. extension_blocked (incoming_name (fq_path r) (fe_name e)) configured) (fq_files r)
             then reject r BLOCKED_EXTENSION_MESSAGE
             else if fq_files r = [] \<and> extension_blocked (fq_path r) configured then reject r BLOCKED_EXTENSION_MESSAGE
             else None
         | Some FaOther \<Rightarrow> None)"

definition reject_files_from_host :: "string \<Rightarrow> string \<Rightarrow> (string \<times> nat) list \<Rightarrow> string option" where
  "reject_files_from_host configured path files =
     (if trim configured = [] then None
      else if list_ex (\<lambda>(name, _). extension_blocked (incoming_name path name) configured) files then Some BLOCKED_EXTENSION_MESSAGE
      else None)"

section \<open>Model: registry of scanned jobs\<close>

type_synonym JobOwner = "int \<times> int"

record RegisteredJob =
  rj_mode :: ScanMode
  rj_reserved_paths :: "string list"

record JobRegistry =
  jr_jobs :: "(JobOwner \<times> RegisteredJob) list"
  jr_reservations :: "(string \<times> JobOwner) list"

definition job_owner :: "TransferJob \<Rightarrow> JobOwner" where
  "job_owner job = (tj_conn_id job, tj_id job)"

text \<open>Pushing a component onto the normalised path, and popping one\<close>

fun normalize_step :: "Component \<Rightarrow> Component list \<Rightarrow> Component list" where
  "normalize_step CCur ns = ns"
| "normalize_step CParent ns = (if ns = [] \<or> ns = [CRoot] then ns else butlast ns)"
| "normalize_step CRoot ns = [CRoot]"
| "normalize_step (CNormal s) ns = ns @ [CNormal s]"

definition normalize_path :: "Fs \<Rightarrow> string \<Rightarrow> string" where
  "normalize_path fs path =
     (let absolute = (if is_absolute path then components path else CRoot # map CNormal (fs_cwd fs) @ components path)
      in print_components (fold normalize_step absolute []))"

definition reservation_key :: "Fs \<Rightarrow> string \<Rightarrow> string" where
  "reservation_key fs path = normalize_path fs path"

definition scan_mode_for :: "JobOwner \<Rightarrow> JobRegistry \<Rightarrow> ScanMode" where
  "scan_mode_for owner R = (case map_of (jr_jobs R) owner of Some j \<Rightarrow> rj_mode j | None \<Rightarrow> ScanOff)"

definition is_scan_enabled_for_job :: "TransferJob \<Rightarrow> JobRegistry \<Rightarrow> bool" where
  "is_scan_enabled_for_job job R = (scan_mode_for (job_owner job) R \<noteq> ScanOff)"

definition register_scan_job :: "ScanMode \<Rightarrow> Fs \<Rightarrow> TransferJob \<Rightarrow> JobRegistry \<Rightarrow> unit outcome \<times> JobRegistry" where
  "register_scan_job mode fs job R =
     (if mode = ScanOff then (Ok (), R)
      else
        (case download_paths fs job of
           Err _ \<Rightarrow> (Err BLOCKED_SCAN_MESSAGE, R)
         | Ok paths \<Rightarrow>
             let owner = job_owner job;
                 keys = map (reservation_key fs) paths
             in if \<not> distinct keys \<or> map_of (jr_jobs R) owner \<noteq> None
                  \<or> list_ex (\<lambda>k. case map_of (jr_reservations R) k of Some by' \<Rightarrow> by' \<noteq> owner | None \<Rightarrow> False) keys
                then (Err BLOCKED_SCAN_MESSAGE, R)
                else
                  (Ok (), \<lparr>jr_jobs = assoc_insert owner \<lparr>rj_mode = mode, rj_reserved_paths = keys\<rparr> (jr_jobs R),
                     jr_reservations = fold (\<lambda>k rs. assoc_insert k owner rs) keys (jr_reservations R)\<rparr>)))"

definition release_scan_job :: "TransferJob \<Rightarrow> JobRegistry \<Rightarrow> JobRegistry" where
  "release_scan_job job R =
     (let owner = job_owner job in
      case map_of (jr_jobs R) owner of
        None \<Rightarrow> R
      | Some j \<Rightarrow>
          \<lparr>jr_jobs = assoc_remove owner (jr_jobs R),
           jr_reservations = fold (\<lambda>k rs. if map_of rs k = Some owner then assoc_remove k rs else rs) (rj_reserved_paths j)
             (jr_reservations R)\<rparr>)"

definition release_scan_jobs :: "TransferJob list \<Rightarrow> JobRegistry \<Rightarrow> JobRegistry" where
  "release_scan_jobs jobs R = fold release_scan_job jobs R"

section \<open>Model: scan of a completed download\<close>

record ScanEnv =
  sv_mode :: string
  sv_max_mb :: string
  sv_engine :: "bytes \<Rightarrow> ScanOutcomeKind option"
  sv_engine_name :: string
  sv_prep_permit :: bool
  sv_scan_permit :: bool
  sv_sha256 :: "bytes \<Rightarrow> string"
  sv_millis :: nat
  sv_quarantine :: string
  sv_permissions_ok :: "string \<Rightarrow> bool"
  sv_lib :: FsLib

record ScanPipelineResult =
  sp_size :: nat
  sp_sha256 :: string
  sp_kind :: ScanOutcomeKind
  sp_engine :: string

fun scan_decision :: "ScanMode \<Rightarrow> ScanOutcomeKind \<Rightarrow> ScanDecision" where
  "scan_decision ScanBlock Malware = Quarantine"
| "scan_decision ScanBlock Unavailable = Quarantine"
| "scan_decision _ _ = Deliver"

definition max_scan_bytes :: "ScanEnv \<Rightarrow> nat" where
  "max_scan_bytes E =
     (let mb = (case parse_uint u64_max (trim (sv_max_mb E)) of Some mb \<Rightarrow> if mb > 0 then mb else DEFAULT_MAX_MB | None \<Rightarrow> DEFAULT_MAX_MB)
      in min (mb * 1048576) u64_max)"

definition unavailable_pipeline :: "nat \<Rightarrow> string \<Rightarrow> string \<Rightarrow> ScanPipelineResult" where
  "unavailable_pipeline sz sha engine = \<lparr>sp_size = sz, sp_sha256 = sha, sp_kind = Unavailable, sp_engine = engine\<rparr>"

definition prepare_scan :: "ScanEnv \<Rightarrow> Fs \<Rightarrow> string \<Rightarrow> (nat \<times> string) option" where
  "prepare_scan E fs path =
     (if \<not> fl_sync_ok (sv_lib E) \<or> \<not> fl_read_ok (sv_lib E) then None
      else map_option (\<lambda>b. (length b, sv_sha256 E b)) (read_file path fs))"

text \<open>\<open>sv_engine\<close> gives \<open>None\<close> when the engine does not answer in time.\<close>

definition bounded_scan_pipeline :: "ScanEnv \<Rightarrow> Fs \<Rightarrow> string \<Rightarrow> nat \<Rightarrow> ScanPipelineResult" where
  "bounded_scan_pipeline E fs path max_bytes =
     (if \<not> sv_prep_permit E then unavailable_pipeline 0 [] ''filesystem''
      else
        (case prepare_scan E fs path of
           None \<Rightarrow> unavailable_pipeline 0 [] ''filesystem''
         | Some (sz, sha) \<Rightarrow>
             if sz > max_bytes then unavailable_pipeline sz sha ''size-limit''
             else if \<not> sv_scan_permit E then unavailable_pipeline sz sha (sv_engine_name E)
             else
               (case Option.bind (read_file path fs) (sv_engine E) of
                  None \<Rightarrow> unavailable_pipeline sz sha (sv_engine_name E)
                | Some kind \<Rightarrow> \<lparr>sp_size = sz, sp_sha256 = sha, sp_kind = kind, sp_engine = sv_engine_name E\<rparr>)))"

definition safe_quarantine_basename :: "string \<Rightarrow> string" where
  "safe_quarantine_basename name =
     (let safe = take QUARANTINE_BASENAME_MAX (map (\<lambda>c. if is_ascii_alphanumeric c \<or> c \<in> set ''.-_'' then c else CHR ''_'') (audit_basename name))
      in if safe = [] then ''file'' else safe)"

definition quarantine_path :: "ScanEnv \<Rightarrow> CompletedDownload \<Rightarrow> string \<Rightarrow> string" where
  "quarantine_path E download sha =
     path_join (sv_quarantine E) (show_nat (sv_millis E) @ ''-'' @ (if sha = [] then ''sha256-unavailable'' else sha) @ ''-''
       @ safe_quarantine_basename (cd_name download))"

definition copy_file :: "string \<Rightarrow> string \<Rightarrow> Fs \<Rightarrow> (unit, FsError) result \<times> Fs" where
  "copy_file p p' fs =
     (case read_file p fs of None \<Rightarrow> (Err NotFound, fs) | Some b \<Rightarrow> write_file p' b fs)"

definition quarantine :: "ScanEnv \<Rightarrow> CompletedDownload \<Rightarrow> string \<Rightarrow> Fs \<Rightarrow> bool \<times> Fs" where
  "quarantine E download sha fs =
     (let destination = quarantine_path E download sha in
      case path_parent destination of
        None \<Rightarrow> (False, fs)
      | Some directory \<Rightarrow>
          let fs = make_dirs [] directory fs in
          if \<not> is_dir fs (print_components directory) \<or> \<not> sv_permissions_ok E (print_components directory) then (False, fs)
          else
            (case (case rename (cd_download_path download) destination fs of
                     (Ok _, fs) \<Rightarrow> (True, fs)
                   | (Err _, fs) \<Rightarrow>
                       (case copy_file (cd_download_path download) destination fs of
                          (Err _, fs) \<Rightarrow> (False, fs)
                        | (Ok _, fs) \<Rightarrow> (case remove_file (cd_download_path download) fs of (r, fs) \<Rightarrow> (is_ok r, fs)))) of
               (False, fs) \<Rightarrow> (False, fs)
             | (True, fs) \<Rightarrow> (sv_permissions_ok E destination, snd (remove_file (digest_of (cd_final_path download)) fs))))"

text \<open>The result: the value of the call, the job, the tree, and the outcome of the scan where one was made.\<close>

definition finish_completed_download ::
    "ScanEnv \<Rightarrow> JobRegistry \<Rightarrow> int option \<Rightarrow> TransferJob \<Rightarrow> Fs
       \<Rightarrow> bool outcome \<times> TransferJob \<times> Fs \<times> ScanPipelineResult option" where
  "finish_completed_download E R next_file_num job fs =
     (let mode = scan_mode_for (job_owner job) R in
      if mode = ScanOff \<or> next_file_num = Some (tj_file_num job) then (Ok False, job, fs, None)
      else
        (case current_download fs job of
           Err e \<Rightarrow> (Err e, job, fs, None)
         | Ok None \<Rightarrow> (Ok False, job, fs, None)
         | Ok (Some download) \<Rightarrow>
             (case drop_current_download_writer (sv_lib E) job of
                (Err e, job) \<Rightarrow> (Err e, job, fs, None)
              | (Ok _, job) \<Rightarrow>
                  let pipeline = bounded_scan_pipeline E fs (cd_download_path download) (max_scan_bytes E) in
                  (case scan_decision mode (sp_kind pipeline) of
                     Deliver \<Rightarrow> (Ok True, job, modify_time job fs, Some pipeline)
                   | Quarantine \<Rightarrow>
                       (case quarantine E download (sp_sha256 pipeline) fs of
                          (done', fs) \<Rightarrow>
                            (Err (if done' then BLOCKED_SCAN_MESSAGE else BLOCKED_SCAN_MESSAGE @ '': errore durante la quarantena''),
                             job, fs, Some pipeline))))))"

section \<open>Model: messages of a writing job\<close>

record Cm =
  cm_jobs :: "TransferJob list"
  cm_registry :: JobRegistry
  cm_fs :: Fs
  cm_out :: "FileMsg list"

datatype FsMsg =
    NewWrite string int int "(string \<times> nat) list" bool nat int
  | CancelWrite int
  | WriteDone int int
  | WriteError int int string
  | WriteBlock int int bytes bool
  | CheckDigest int int nat nat bool
  | SendConfirm SendConfirmRequest
  | RenameFile int string string
  | RemoveFileMsg int string int

definition reply :: "FileMsg \<Rightarrow> Cm \<Rightarrow> Cm" where
  "reply m s = s\<lparr>cm_out := cm_out s @ [m]\<rparr>"

definition put_job :: "TransferJob \<Rightarrow> TransferJob list \<Rightarrow> TransferJob list" where
  "put_job job jobs =
     (case List.find (\<lambda>x. tj_id x = tj_id job) jobs of
        None \<Rightarrow> jobs
      | Some _ \<Rightarrow> takeWhile (\<lambda>x. tj_id x \<noteq> tj_id job) jobs @ job # tl (dropWhile (\<lambda>x. tj_id x \<noteq> tj_id job) jobs))"

definition drop_job :: "TransferJob \<Rightarrow> Cm \<Rightarrow> Cm" where
  "drop_job job s = s\<lparr>cm_jobs := snd (remove_job (tj_id job) (cm_jobs s)), cm_registry := release_scan_job job (cm_registry s)\<rparr>"

definition new_write_msg :: "ScanEnv \<Rightarrow> string \<Rightarrow> int \<Rightarrow> int \<Rightarrow> (string \<times> nat) list \<Rightarrow> bool \<Rightarrow> nat \<Rightarrow> int \<Rightarrow> Cm \<Rightarrow> Cm" where
  "new_write_msg E path jid file_num files overwrite total_size conn_id s =
     (let entries = map (\<lambda>(n, t). \<lparr>fe_name = n, fe_size = 0, fe_modified = t\<rparr>) files;
          job = new_write jid Generic [] (FilePath path) file_num False False overwrite
      in case set_files (cm_fs s) entries job of
           Err e \<Rightarrow> reply (MsgError jid e file_num) s
         | Ok job \<Rightarrow>
             let job = job\<lparr>tj_total_size := total_size, tj_conn_id := conn_id\<rparr> in
             (case register_scan_job (scan_mode_from (sv_mode E)) (cm_fs s) job (cm_registry s) of
                (Err e, R) \<Rightarrow> reply (MsgError jid e file_num) s
              | (Ok _, R) \<Rightarrow> s\<lparr>cm_jobs := cm_jobs s @ [job], cm_registry := R\<rparr>))"

definition write_done_msg :: "ScanEnv \<Rightarrow> int \<Rightarrow> int \<Rightarrow> Cm \<Rightarrow> Cm" where
  "write_done_msg E jid file_num s =
     (case get_job jid (cm_jobs s) of
        None \<Rightarrow> s
      | Some job \<Rightarrow>
          if \<not> is_scan_enabled_for_job job (cm_registry s) then
            reply (MsgDone jid file_num) (drop_job job (s\<lparr>cm_fs := modify_time job (cm_fs s)\<rparr>))
          else
            (case finish_completed_download E (cm_registry s) None job (cm_fs s) of
               (Ok scanned, job', fs, _) \<Rightarrow>
                 reply (MsgDone jid file_num) (drop_job job (s\<lparr>cm_fs := if scanned then fs else modify_time job' fs\<rparr>))
             | (Err e, _, fs, _) \<Rightarrow> reply (MsgError jid e file_num) (drop_job job (s\<lparr>cm_fs := fs\<rparr>))))"

definition write_block_msg :: "ScanEnv \<Rightarrow> int \<Rightarrow> int \<Rightarrow> bytes \<Rightarrow> bool \<Rightarrow> Cm \<Rightarrow> Cm" where
  "write_block_msg E jid file_num data compressed s =
     (let block = \<lparr>fb_id = jid, fb_file_num = file_num, fb_data = data, fb_compressed = compressed\<rparr> in
      case get_job jid (cm_jobs s) of
        None \<Rightarrow> s
      | Some job \<Rightarrow>
          if \<not> is_scan_enabled_for_job job (cm_registry s) then
            (case write_block (sv_lib E) block job (cm_fs s) of
               (r, job', fs) \<Rightarrow>
                 let s = s\<lparr>cm_jobs := put_job job' (cm_jobs s), cm_fs := fs\<rparr>
                 in (case r of Err e \<Rightarrow> reply (MsgError jid e file_num) s | Ok _ \<Rightarrow> s))
          else
            (case finish_completed_download E (cm_registry s) (Some file_num) job (cm_fs s) of
               (Err e, _, fs, _) \<Rightarrow> reply (MsgError jid e (tj_file_num job)) (drop_job job (s\<lparr>cm_fs := fs\<rparr>))
             | (Ok _, job', fs, _) \<Rightarrow>
                 (case write_block (sv_lib E) block job' fs of
                    (Err e, _, fs) \<Rightarrow> drop_job job (reply (MsgError jid e file_num) (s\<lparr>cm_fs := fs\<rparr>))
                  | (Ok _, job', fs) \<Rightarrow> s\<lparr>cm_jobs := put_job job' (cm_jobs s), cm_fs := fs\<rparr>)))"

definition check_digest_msg :: "ScanEnv \<Rightarrow> int \<Rightarrow> int \<Rightarrow> nat \<Rightarrow> nat \<Rightarrow> bool \<Rightarrow> Cm \<Rightarrow> Cm" where
  "check_digest_msg E jid file_num file_size last_modified is_resume s =
     (case get_job jid (cm_jobs s) of
        None \<Rightarrow> s
      | Some job \<Rightarrow>
          (case tj_source job of
             MemoryCursor _ \<Rightarrow> s
           | FilePath p \<Rightarrow>
               if as_usize file_num \<ge> length (tj_files job) then s
               else
                 let digest = \<lparr>dg_id = jid, dg_file_num = file_num, dg_last_modified = last_modified, dg_file_size = file_size,
                       dg_is_identical = False, dg_transferred_size = 0\<rparr>;
                     path = job_join p (fe_name (tj_files job ! as_usize file_num));
                     s = s\<lparr>cm_jobs := put_job (set_digest file_size last_modified job) (cm_jobs s)\<rparr>
                 in case is_write_need_confirmation (sv_lib E) (cm_fs s) is_resume path digest of
                      IsSame \<Rightarrow> reply (MsgConfirm jid file_num (Skip True)) s
                    | NeedConfirm d \<Rightarrow> reply (MsgOverwrite d) s
                    | NoSuchFile \<Rightarrow> reply (MsgConfirm jid file_num (OffsetBlk 0)) s))"

fun handle_fs :: "ScanEnv \<Rightarrow> FsMsg \<Rightarrow> Cm \<Rightarrow> Cm" where
  "handle_fs E (NewWrite path jid file_num files overwrite total_size conn_id) s =
     new_write_msg E path jid file_num files overwrite total_size conn_id s"
| "handle_fs E (CancelWrite jid) s =
     (case get_job jid (cm_jobs s) of
        None \<Rightarrow> s
      | Some job \<Rightarrow> drop_job job (s\<lparr>cm_fs := remove_download_file job (cm_fs s)\<rparr>))"
| "handle_fs E (WriteDone jid file_num) s = write_done_msg E jid file_num s"
| "handle_fs E (WriteError jid file_num err) s =
     (case get_job jid (cm_jobs s) of
        None \<Rightarrow> s
      | Some job \<Rightarrow> drop_job job (reply (MsgError (tj_id job) err file_num) s))"
| "handle_fs E (WriteBlock jid file_num data compressed) s = write_block_msg E jid file_num data compressed s"
| "handle_fs E (CheckDigest jid file_num file_size last_modified is_resume) s = check_digest_msg E jid file_num file_size last_modified is_resume s"
| "handle_fs E (SendConfirm r) s =
     (case get_job (sc_id r) (cm_jobs s) of
        None \<Rightarrow> s
      | Some job \<Rightarrow> s\<lparr>cm_jobs := put_job (confirm (cm_fs s) r job) (cm_jobs s)\<rparr>)"
| "handle_fs E (RenameFile jid path new_name) s =
     (case rename_file path new_name (cm_fs s) of
        (Ok _, fs) \<Rightarrow> reply (MsgDone jid 0) (s\<lparr>cm_fs := fs\<rparr>)
      | (Err e, fs) \<Rightarrow> reply (MsgError jid e 0) (s\<lparr>cm_fs := fs\<rparr>))"
| "handle_fs E (RemoveFileMsg jid file file_num) s =
     (case fs_remove_file file (cm_fs s) of
        (Ok _, fs) \<Rightarrow> reply (MsgDone jid file_num) (s\<lparr>cm_fs := fs\<rparr>)
      | (Err e, fs) \<Rightarrow> reply (MsgError jid e file_num) (s\<lparr>cm_fs := fs\<rparr>))"

end
