(* ===== verification/File_Gate.thy ===== *)
theory File_Gate
  imports File_Scan
begin

text \<open>
  What the scan of received files guarantees (\<^verbatim>\<open>src/src/clanto/file_scan.rs\<close> and the handler of
  \<^verbatim>\<open>src/src/ui_cm_interface.rs\<close>): delivery in block mode, the reserved destinations of concurrent jobs, and the case in
  which the handler gives a file its name without a scan.
\<close>

section \<open>Names that newly name a file\<close>

definition new_file :: "Fs \<Rightarrow> Fs \<Rightarrow> canon \<Rightarrow> bool" where
  "new_file fs fs' q \<longleftrightarrow> (\<exists>i. fs_node fs' q = Some (NFile i) \<and> fs_node fs q \<noteq> Some (NFile i))"

lemma new_file_refl [simp]: "\<not> new_file fs fs q"
  by (simp add: new_file_def)

lemma new_file_trans: "new_file fs fs'' q \<Longrightarrow> new_file fs fs' q \<or> new_file fs' fs'' q"
  by (auto simp: new_file_def)

lemma make_dirs_no_file: "\<not> new_file fs (make_dirs made cs fs) q"
proof (induction made cs fs rule: make_dirs.induct)
  case (2 made c cs fs)
  have step: "\<not> new_file fs (set_node r (Some NDir) fs) q" for r by (auto simp: new_file_def set_node_def)
  have "make_dirs made (c # cs) fs = fs \<or> make_dirs made (c # cs) fs = make_dirs (made @ [c]) cs fs \<and> \<not> new_file fs (make_dirs (made @ [c]) cs fs) q
    \<or> (\<exists>r. make_dirs made (c # cs) fs = make_dirs (made @ [c]) cs (set_node r (Some NDir) fs)
        \<and> \<not> new_file (set_node r (Some NDir) fs) (make_dirs (made @ [c]) cs (set_node r (Some NDir) fs)) q)"
  proof (cases "walk MAX_LINKS (fs_node fs) False (fs_cwd fs) (made @ [c])")
    case (Ok r)
    show ?thesis
    proof (cases "node_at fs r")
      case None
      then show ?thesis using 2(1) [OF Ok None] Ok by (auto split: if_splits)
    next
      case (Some a)
      show ?thesis
      proof (cases a)
        case NDir
        then show ?thesis using 2(2) [OF Ok Some NDir] Ok Some by simp
      next
        case (NLink x)
        then show ?thesis using 2(3) [OF Ok Some NLink] Ok Some by (auto split: result.splits)
      qed (use Ok Some in simp)
    qed
  qed simp
  then show ?case
  proof (elim disjE exE conjE)
    fix r assume e: "make_dirs made (c # cs) fs = make_dirs (made @ [c]) cs (set_node r (Some NDir) fs)"
      and i: "\<not> new_file (set_node r (Some NDir) fs) (make_dirs (made @ [c]) cs (set_node r (Some NDir) fs)) q"
    show ?thesis unfolding e using step [of r] i new_file_trans by blast
  qed (simp_all only: new_file_refl not_False_eq_True)
qed simp

lemma remove_no_file: "remove_file p fs = (r, fs') \<Longrightarrow> \<not> new_file fs fs' q"
  by (auto simp: remove_file_def new_file_def set_node_def split: result.splits if_splits option.splits Node.splits)

lemma rename_new_file:
  assumes "rename p p' fs = (r, fs')" "new_file fs fs' q"
  shows "\<exists>b. resolve fs False p' = Ok b \<and> prefix b q"
proof (rule ccontr)
  assume n: "\<not> ?thesis"
  then have "\<not> new_file fs fs' q"
    using assms(1)
    by (auto simp: rename_def new_file_def set_node_def move_tree_def split: result.splits if_splits option.splits Node.splits)
  with assms(2) show False by simp
qed

lemma rename_Err: "rename p p' fs = (Err e, fs') \<Longrightarrow> fs' = fs"
  by (auto simp: rename_def split: result.splits if_splits option.splits Node.splits)

lemma create_new_file:
  assumes "create_file p fs = (r, fs')" "new_file fs fs' q"
  shows "\<exists>b. resolve fs True p = Ok b \<and> prefix b q"
  using assms by (auto simp: create_file_def new_file_def set_node_def set_data_def split: result.splits if_splits option.splits Node.splits)

lemma copy_new_file:
  assumes "copy_file p p' fs = (r, fs')" "new_file fs fs' q"
  shows "\<exists>b. resolve fs True p' = Ok b \<and> prefix b q"
proof -
  have w: "fs_node (write_at i off b f) = fs_node f" for i off b f by (simp add: write_at_def set_data_def Let_def)
  obtain r1 f1 where c: "create_file p' fs = (r1, f1)" by (cases "create_file p' fs") auto
  have "new_file fs f1 q" using assms c by (auto simp: copy_file_def write_file_def new_file_def w split: option.splits result.splits)
  with create_new_file [OF c] show ?thesis by blast
qed

definition quarantine_root :: "ScanEnv \<Rightarrow> CompletedDownload \<Rightarrow> string \<Rightarrow> Fs \<Rightarrow> canon \<Rightarrow> bool" where
  "quarantine_root E d sha fs b \<longleftrightarrow>
     (\<exists>follow directory. path_parent (quarantine_path E d sha) = Some directory
        \<and> resolve (make_dirs [] directory fs) follow (quarantine_path E d sha) = Ok b)"

lemma quarantine_new_file:
  assumes q: "quarantine E d sha fs = (ok, fs')" and n: "new_file fs fs' q"
  shows "\<exists>b. quarantine_root E d sha fs b \<and> prefix b q"
proof (cases "path_parent (quarantine_path E d sha)")
  case None
  then show ?thesis using q n by (simp add: quarantine_def)
next
  case (Some directory)
  let ?p = "cd_download_path d" let ?to = "quarantine_path E d sha" let ?f1 = "make_dirs [] directory fs"
  obtain r2 f2 where f2: "rename ?p ?to ?f1 = (r2, f2)" by (cases "rename ?p ?to ?f1") auto
  obtain r3 f3 where f3: "copy_file ?p ?to f2 = (r3, f3)" by (cases "copy_file ?p ?to f2") auto
  obtain r4 f4 where f4: "remove_file ?p f3 = (r4, f4)" by (cases "remove_file ?p f3") auto
  have d: "\<not> new_file g (snd (remove_file x g)) q" for g x using remove_no_file [of x g] by (cases "remove_file x g") auto
  have "new_file ?f1 fs' q"
    using n make_dirs_no_file new_file_trans by blast
  moreover have "\<not> new_file f2 fs' q \<or> (\<exists>e. r2 = Err e) \<and> \<not> new_file f3 fs' q" if "fs' \<noteq> ?f1"
  proof (cases r2)
    case (Ok x)
    then have "fs' = snd (remove_file (digest_of (cd_final_path d)) f2)"
      using q Some f2 that by (auto simp: quarantine_def Let_def split: if_splits)
    then show ?thesis using d by simp
  next
    case (Err e)
    then have "fs' = f3 \<or> fs' = f4 \<or> fs' = snd (remove_file (digest_of (cd_final_path d)) f4)"
      using q Some f2 f3 f4 that by (cases r3; cases "is_ok r4") (auto simp: quarantine_def Let_def split: if_splits)
    moreover have "\<not> new_file f3 (snd (remove_file (digest_of (cd_final_path d)) f4)) q"
      using d [of f4] remove_no_file [OF f4] new_file_trans by blast
    ultimately show ?thesis using Err remove_no_file [OF f4] by (elim disjE) simp_all
  qed
  moreover have "fs' \<noteq> ?f1" using \<open>new_file ?f1 fs' q\<close> by (metis new_file_refl)
  ultimately have "new_file ?f1 f2 q \<or> (\<exists>e. r2 = Err e) \<and> new_file f2 f3 q"
    using new_file_trans [of ?f1 fs' q f2] new_file_trans [of f2 fs' q f3] by blast
  moreover have "r2 = Err e \<Longrightarrow> f2 = ?f1" for e using rename_Err f2 by blast
  ultimately have "\<exists>follow b. resolve ?f1 follow ?to = Ok b \<and> prefix b q"
    using rename_new_file [OF f2] copy_new_file [OF f3] by metis
  then show ?thesis using Some by (auto simp: quarantine_root_def)
qed

section \<open>Delivery in block mode\<close>

text \<open>What a completed download has to pass: it was read whole, it is within the limit and the engine calls it clean.\<close>

definition passes_scan :: "ScanEnv \<Rightarrow> Fs \<Rightarrow> string \<Rightarrow> bool" where
  "passes_scan E fs path \<longleftrightarrow>
     sv_prep_permit E \<and> sv_scan_permit E \<and> fl_sync_ok (sv_lib E) \<and> fl_read_ok (sv_lib E)
     \<and> (\<exists>b. read_file path fs = Some b \<and> length b \<le> max_scan_bytes E \<and> sv_engine E b = Some Clean)"

lemma pipeline_Clean: "sp_kind (bounded_scan_pipeline E fs path (max_scan_bytes E)) = Clean \<longleftrightarrow> passes_scan E fs path"
  by (auto simp: bounded_scan_pipeline_def unavailable_pipeline_def prepare_scan_def passes_scan_def split: option.splits)

lemma scan_decision_block: "scan_decision ScanBlock k = Deliver \<longleftrightarrow> k = Clean"
  by (cases k) auto

lemma drop_writer: "drop_current_download_writer L job = (r, job') \<Longrightarrow> tj_stream job' = None \<and> (fl_sync_ok L \<longrightarrow> r = Ok ())"
  by (auto simp: drop_current_download_writer_def split: option.splits DataStream.splits)

text \<open>C4: In block mode a completed download is delivered exactly when it was flushed, read whole, is within the size limit
and the engine, having answered in time, calls it clean; then the job gives it its name. Otherwise the call fails, and
the only paths that newly name a file are at or below the quarantine's destination.\<close>

theorem block_mode_gate:
  assumes mode: "scan_mode_for (job_owner job) R = ScanBlock"
    and cur: "current_download fs job = Ok (Some d)"
    and nxt: "next_file_num \<noteq> Some (tj_file_num job)"
    and fin: "finish_completed_download E R next_file_num job fs = (r, job', fs', p)"
  shows "if passes_scan E fs (cd_download_path d)
         then r = Ok True \<and> fs' = modify_time job' fs \<and> job' = job\<lparr>tj_stream := None\<rparr>
         else (\<exists>e. r = Err e) \<and> (\<forall>q. new_file fs fs' q \<longrightarrow> (\<exists>sha b. quarantine_root E d sha fs b \<and> prefix b q))"
proof -
  let ?p = "bounded_scan_pipeline E fs (cd_download_path d) (max_scan_bytes E)"
  obtain w j1 where w: "drop_current_download_writer (sv_lib E) job = (w, j1)" by (cases "drop_current_download_writer (sv_lib E) job") auto
  have j1: "j1 = job\<lparr>tj_stream := None\<rparr>" using w by (auto simp: drop_current_download_writer_def split: option.splits DataStream.splits)
  obtain ok f1 where f1: "quarantine E d (sp_sha256 ?p) fs = (ok, f1)" by (cases "quarantine E d (sp_sha256 ?p) fs") auto
  note fin' = fin [unfolded finish_completed_download_def mode cur w f1 Let_def]
  show ?thesis
  proof (cases w)
    case (Err e)
    then have "\<not> fl_sync_ok (sv_lib E)" using drop_writer [OF w] by auto
    then have "\<not> passes_scan E fs (cd_download_path d)" by (simp add: passes_scan_def)
    then show ?thesis using fin' nxt Err by auto
  next
    case (Ok x)
    show ?thesis
    proof (cases "passes_scan E fs (cd_download_path d)")
      case True
      then have "scan_decision ScanBlock (sp_kind ?p) = Deliver" by (simp add: pipeline_Clean scan_decision_block)
      then show ?thesis using True fin' nxt Ok j1 by auto
    next
      case False
      then have "scan_decision ScanBlock (sp_kind ?p) = Quarantine"
        using scan_decision_block [of "sp_kind ?p"] by (cases "scan_decision ScanBlock (sp_kind ?p)") (simp_all add: pipeline_Clean)
      then have "(\<exists>e. r = Err e) \<and> fs' = f1" using fin' nxt Ok f1 by auto
      then show ?thesis using False quarantine_new_file [OF f1] by simp blast
    qed
  qed
qed

section \<open>A name without a scan\<close>

text \<open>The renaming of a regular file.\<close>

lemma rename_file_node:
  assumes "resolve fs False p = Ok a" "resolve fs False p' = Ok b" "node_at fs a = Some (NFile i)" "node_at fs b \<noteq> Some NDir"
    "a \<noteq> b" "\<not> fs_deny fs a" "\<not> fs_deny fs b"
  shows "rename p p' fs = (Ok (), set_node b (Some (NFile i)) (set_node a None fs))"
  using assms by (auto simp: rename_def split: option.split Node.split)

lemma set_mtime_keeps: "fs_node (set_mtime p t fs) = fs_node fs" "fst (data_of (set_mtime p t fs) i) = fst (data_of fs i)"
  by (auto simp: set_mtime_def set_data_def data_of_def split: result.split option.split Node.split)

text \<open>The entry's \<open>.download\<close> file and its final name, once the \<open>.digest\<close> file is gone.\<close>

definition staged :: "TransferJob \<Rightarrow> Fs \<Rightarrow> canon \<Rightarrow> canon \<Rightarrow> nat \<Rightarrow> bool" where
  "staged job fs a b i = (\<exists>p path. tj_type job \<noteq> Printer \<and> tj_source job = FilePath p \<and> as_usize (tj_file_num job) < length (tj_files job)
     \<and> resolve_entry_path fs job p (fe_name (tj_files job ! as_usize (tj_file_num job))) = Some path
     \<and> (let fs1 = snd (remove_file (digest_of path) fs) in
        resolve fs1 False (download_of path) = Ok a \<and> resolve fs1 False path = Ok b \<and> a \<noteq> b
        \<and> fs_node fs1 a = Some (NFile i) \<and> a \<noteq> [] \<and> b \<noteq> [] \<and> fs_node fs1 b \<noteq> Some NDir \<and> \<not> fs_deny fs1 a \<and> \<not> fs_deny fs1 b))"

lemma modify_time_renames:
  assumes "staged job fs a b i"
  shows "fs_node (modify_time job fs) b = Some (NFile i) \<and> fs_node (modify_time job fs) a = None
    \<and> fst (data_of (modify_time job fs) i) = fst (data_of fs i)"
proof -
  obtain p path where j: "tj_type job \<noteq> Printer" "tj_source job = FilePath p" "as_usize (tj_file_num job) < length (tj_files job)"
      "resolve_entry_path fs job p (fe_name (tj_files job ! as_usize (tj_file_num job))) = Some path"
    and f: "resolve (snd (remove_file (digest_of path) fs)) False (download_of path) = Ok a"
      "resolve (snd (remove_file (digest_of path) fs)) False path = Ok b"
      "node_at (snd (remove_file (digest_of path) fs)) a = Some (NFile i)" "node_at (snd (remove_file (digest_of path) fs)) b \<noteq> Some NDir"
      "a \<noteq> b" "\<not> fs_deny (snd (remove_file (digest_of path) fs)) a" "\<not> fs_deny (snd (remove_file (digest_of path) fs)) b"
    using assms by (auto simp: staged_def Let_def node_at_def)
  have d: "data_of (snd (remove_file x fs)) = data_of fs" for x
    by (auto simp: remove_file_def data_of_def set_node_def split: result.split option.split Node.split)
  show ?thesis using j f(5) rename_file_node [OF f] d
    by (simp add: modify_time_def Let_def set_mtime_keeps) (simp add: set_node_def data_of_def fun_eq_iff)
qed

text \<open>C34: A job that was registered but never received a block has no open stream, and for it the completion message is
answered with success and the entry's \<open>.download\<close> file \<open>a\<close> takes the final name \<open>b\<close> with the bytes it has, with no scan,
whatever the mode and the engine. A \<open>.download\<close> file left by an earlier job, which an error message drops without
removing it, is delivered so.\<close>

theorem unopened_download_delivered:
  assumes job: "get_job jid (cm_jobs s) = Some job" and none: "tj_stream job = None" and st: "staged job (cm_fs s) a b i"
  shows "cm_out (handle_fs E (WriteDone jid file_num) s) = cm_out s @ [MsgDone jid file_num]
    \<and> fs_node (cm_fs (handle_fs E (WriteDone jid file_num) s)) b = Some (NFile i)
    \<and> fs_node (cm_fs (handle_fs E (WriteDone jid file_num) s)) a = None
    \<and> fst (data_of (cm_fs (handle_fs E (WriteDone jid file_num) s)) i) = fst (data_of (cm_fs s) i)"
proof -
  have "current_download (cm_fs s) job = Ok None" using none by (simp add: current_download_def)
  then have "finish_completed_download E (cm_registry s) None job (cm_fs s) = (Ok False, job, cm_fs s, None)"
    by (simp add: finish_completed_download_def Let_def)
  then have "handle_fs E (WriteDone jid file_num) s
    = reply (MsgDone jid file_num) (drop_job job (s\<lparr>cm_fs := modify_time job (cm_fs s)\<rparr>))"
    using job by (simp add: write_done_msg_def)
  then show ?thesis using modify_time_renames [OF st] by (simp add: reply_def drop_job_def)
qed

section \<open>Reserved destinations\<close>

definition registry_ok :: "JobRegistry \<Rightarrow> bool" where
  "registry_ok R \<longleftrightarrow>
     (\<forall>owner j. map_of (jr_jobs R) owner = Some j \<longrightarrow>
        rj_mode j \<noteq> ScanOff \<and> distinct (rj_reserved_paths j)
        \<and> (\<forall>k\<in>set (rj_reserved_paths j). map_of (jr_reservations R) k = Some owner))
     \<and> (\<forall>k owner. map_of (jr_reservations R) k = Some owner \<longrightarrow>
          (\<exists>j. map_of (jr_jobs R) owner = Some j \<and> k \<in> set (rj_reserved_paths j)))"

lemma registry_job:
  "registry_ok R \<Longrightarrow> map_of (jr_jobs R) owner = Some j \<Longrightarrow>
     rj_mode j \<noteq> ScanOff \<and> distinct (rj_reserved_paths j) \<and> (\<forall>k\<in>set (rj_reserved_paths j). map_of (jr_reservations R) k = Some owner)"
  unfolding registry_ok_def by blast

lemma registry_path:
  "registry_ok R \<Longrightarrow> map_of (jr_reservations R) k = Some owner \<Longrightarrow> \<exists>j. map_of (jr_jobs R) owner = Some j \<and> k \<in> set (rj_reserved_paths j)"
  unfolding registry_ok_def by blast

lemma map_of_reserve:
  "map_of (fold (\<lambda>k rs. assoc_insert k owner rs) ks rs) k = (if k \<in> set ks then Some owner else map_of rs k)"
  by (induction ks arbitrary: rs) auto

lemma map_of_free:
  "map_of (fold (\<lambda>k rs. if map_of rs k = Some owner then assoc_remove k rs else rs) ks rs) k
   = (if k \<in> set ks \<and> map_of rs k = Some owner then None else map_of rs k)"
  by (induction ks arbitrary: rs) auto

lemma register_cases:
  assumes "register_scan_job mode fs job R = (r, R')"
  obtains "R' = R" "mode = ScanOff \<or> (\<exists>e. r = Err e)"
    | keys where "r = Ok ()" "mode \<noteq> ScanOff" "distinct keys" "map_of (jr_jobs R) (job_owner job) = None"
        "\<And>k. k \<in> set keys \<Longrightarrow> map_of (jr_reservations R) k \<in> {None, Some (job_owner job)}"
        "jr_jobs R' = assoc_insert (job_owner job) \<lparr>rj_mode = mode, rj_reserved_paths = keys\<rparr> (jr_jobs R)"
        "jr_reservations R' = fold (\<lambda>k rs. assoc_insert k (job_owner job) rs) keys (jr_reservations R)"
proof (cases "mode = ScanOff \<or> (\<exists>e. r = Err e)")
  case True
  then have "R' = R" using assms by (auto simp: register_scan_job_def Let_def split: if_splits result.splits)
  then show ?thesis using that(1) True by blast
next
  case False
  then obtain paths where p: "download_paths fs job = Ok paths"
    using assms by (cases "download_paths fs job") (auto simp: register_scan_job_def)
  let ?keys = "map (reservation_key fs) paths"
  let ?taken = "list_ex (\<lambda>k. case map_of (jr_reservations R) k of Some by' \<Rightarrow> by' \<noteq> job_owner job | None \<Rightarrow> False) ?keys"
  note reg = assms [unfolded register_scan_job_def p Let_def result.case]
  have c: "distinct ?keys" "map_of (jr_jobs R) (job_owner job) = None" "\<not> ?taken"
    using reg False by (auto simp del: distinct_map split: if_splits)
  have R: "r = Ok ()" "R' = \<lparr>jr_jobs = assoc_insert (job_owner job) \<lparr>rj_mode = mode, rj_reserved_paths = ?keys\<rparr> (jr_jobs R),
           jr_reservations = fold (\<lambda>k rs. assoc_insert k (job_owner job) rs) ?keys (jr_reservations R)\<rparr>"
    using reg False c by simp_all
  have "map_of (jr_reservations R) k \<in> {None, Some (job_owner job)}" if "k \<in> set ?keys" for k
    using c(3) that by (cases "map_of (jr_reservations R) k") (auto simp: list_ex_iff)
  then show ?thesis using that(2) [of ?keys] c R False by simp
qed

lemma register_scan_job_ok:
  assumes "registry_ok R" "register_scan_job mode fs job R = (r, R')"
  shows "registry_ok R'"
  using assms(2)
proof (cases rule: register_cases)
  case 1
  then show ?thesis using assms(1) by simp
next
  case (2 keys)
  note k = 2(3,4,2,5,6,7)
  have own: "map_of (jr_reservations R) k \<noteq> Some (job_owner job)" for k using registry_path [OF assms(1)] k(2) by fastforce
  have free: "k \<in> set keys \<Longrightarrow> map_of (jr_reservations R) k = None" for k using k(4) own by auto
  show ?thesis
    unfolding registry_ok_def k(5,6) map_of_assoc_insert map_of_reserve
  proof (intro conjI allI impI)
    fix owner j assume j: "((map_of (jr_jobs R))(job_owner job \<mapsto> \<lparr>rj_mode = mode, rj_reserved_paths = keys\<rparr>)) owner = Some j"
    show "rj_mode j \<noteq> ScanOff" "distinct (rj_reserved_paths j)"
      using j k(1,3) registry_job [OF assms(1)] by (auto split: if_splits)
    show "\<forall>x\<in>set (rj_reserved_paths j). (if x \<in> set keys then Some (job_owner job) else map_of (jr_reservations R) x) = Some owner"
      using j registry_job [OF assms(1)] free by (cases "owner = job_owner job") fastforce+
  next
    fix x owner assume "(if x \<in> set keys then Some (job_owner job) else map_of (jr_reservations R) x) = Some owner"
    then show "\<exists>j. ((map_of (jr_jobs R))(job_owner job \<mapsto> \<lparr>rj_mode = mode, rj_reserved_paths = keys\<rparr>)) owner = Some j
        \<and> x \<in> set (rj_reserved_paths j)"
      using registry_path [OF assms(1)] own by (cases "x \<in> set keys") auto
  qed
qed

lemma release_scan_job_ok:
  assumes "registry_ok R"
  shows "registry_ok (release_scan_job job R)"
proof (cases "map_of (jr_jobs R) (job_owner job)")
  case (Some j)
  let ?o = "job_owner job"
  note J = registry_job [OF assms Some]
  have R: "jr_jobs (release_scan_job job R) = assoc_remove ?o (jr_jobs R)"
    "map_of (jr_reservations (release_scan_job job R)) k = (if map_of (jr_reservations R) k = Some ?o then None else map_of (jr_reservations R) k)" for k
    using Some J registry_path [OF assms, of k ?o] by (auto simp: release_scan_job_def map_of_free Let_def)
  show ?thesis
    unfolding registry_ok_def R map_of_assoc_remove
  proof (intro conjI allI impI)
    fix owner j' assume j: "((map_of (jr_jobs R))(?o := None)) owner = Some j'"
    then have j': "owner \<noteq> ?o" "map_of (jr_jobs R) owner = Some j'" by (auto split: if_splits)
    from registry_job [OF assms j'(2)] show "rj_mode j' \<noteq> ScanOff" "distinct (rj_reserved_paths j')"
      "\<forall>k\<in>set (rj_reserved_paths j'). (if map_of (jr_reservations R) k = Some ?o then None else map_of (jr_reservations R) k) = Some owner"
      using j'(1) by auto
  next
    fix k owner assume "(if map_of (jr_reservations R) k = Some ?o then None else map_of (jr_reservations R) k) = Some owner"
    then have "map_of (jr_reservations R) k = Some owner" "owner \<noteq> ?o" by (auto split: if_splits)
    from registry_path [OF assms this(1)] this(2)
    show "\<exists>j. ((map_of (jr_jobs R))(?o := None)) owner = Some j \<and> k \<in> set (rj_reserved_paths j)" by auto
  qed
qed (use assms in \<open>simp add: release_scan_job_def\<close>)

text \<open>Releasing a job gives back exactly what registering it took.\<close>

lemma register_release:
  assumes R: "registry_ok R" and reg: "register_scan_job mode fs job R = (Ok (), R')" and m: "mode \<noteq> ScanOff"
  shows "map_of (jr_jobs (release_scan_job job R')) = map_of (jr_jobs R)
    \<and> map_of (jr_reservations (release_scan_job job R')) = map_of (jr_reservations R)"
proof -
  from reg m obtain keys where k: "map_of (jr_jobs R) (job_owner job) = None"
    "\<And>k. k \<in> set keys \<Longrightarrow> map_of (jr_reservations R) k \<in> {None, Some (job_owner job)}"
    "jr_jobs R' = assoc_insert (job_owner job) \<lparr>rj_mode = mode, rj_reserved_paths = keys\<rparr> (jr_jobs R)"
    "jr_reservations R' = fold (\<lambda>k rs. assoc_insert k (job_owner job) rs) keys (jr_reservations R)"
    by (cases rule: register_cases) auto
  have own: "map_of (jr_reservations R) k \<noteq> Some (job_owner job)" for k using registry_path [OF R] k(1) by fastforce
  have "map_of (jr_reservations R) x = None" if "x \<in> set keys" for x using k(2) [OF that] own by auto
  then have "map_of (jr_reservations (release_scan_job job R')) x = map_of (jr_reservations R) x" for x
    using own by (simp add: release_scan_job_def k(3,4) map_of_free map_of_reserve Let_def)
  moreover have "map_of (jr_jobs (release_scan_job job R')) = map_of (jr_jobs R)"
    using k(1) by (simp add: release_scan_job_def k(3) fun_upd_idem Let_def)
  ultimately show ?thesis by auto
qed

lemma handle_fs_registry: "registry_ok (cm_registry s) \<Longrightarrow> registry_ok (cm_registry (handle_fs E m s))"
proof (cases m)
  case (NewWrite path jid file_num files overwrite total_size conn_id)
  assume r: "registry_ok (cm_registry s)"
  have "register_scan_job mo f j (cm_registry s) = (x, R) \<Longrightarrow> registry_ok R" for mo f j x R
    using register_scan_job_ok [OF r] by blast
  then show ?thesis using r NewWrite by (auto simp: new_write_msg_def reply_def Let_def split: result.splits prod.splits)
next
  case (WriteDone jid file_num)
  assume "registry_ok (cm_registry s)"
  then show ?thesis using WriteDone release_scan_job_ok
    by (auto simp: write_done_msg_def reply_def drop_job_def Let_def split: result.splits prod.splits option.splits)
next
  case (WriteBlock jid file_num data compressed)
  assume "registry_ok (cm_registry s)"
  then show ?thesis using WriteBlock release_scan_job_ok
    by (auto simp: write_block_msg_def reply_def drop_job_def Let_def split: result.splits prod.splits option.splits)
next
  case (CheckDigest jid file_num file_size last_modified is_resume)
  assume "registry_ok (cm_registry s)"
  then show ?thesis using CheckDigest
    by (auto simp: check_digest_msg_def reply_def Let_def split: option.splits DataSource.splits DigestCheckResult.splits)
qed (auto simp: reply_def drop_job_def release_scan_job_ok split: option.splits prod.splits result.splits)

interpretation scan_registry: guarded_machine "handle_fs E" "\<lambda>s. registry_ok (cm_registry s)" "\<lambda>_. True" for E
  by unfold_locales (rule handle_fs_registry)

definition no_reservations :: JobRegistry where
  "no_reservations = \<lparr>jr_jobs = [], jr_reservations = []\<rparr>"

text \<open>C35: Whatever messages the connection manager handles, from an empty registry, two registered jobs never have a
reserved destination in common.\<close>

theorem destinations_exclusive:
  assumes "cm_registry s = no_reservations" "cm_registry (fold (handle_fs E) ms s) = R"
    and "map_of (jr_jobs R) o1 = Some j1" "map_of (jr_jobs R) o2 = Some j2" "o1 \<noteq> o2"
  shows "set (rj_reserved_paths j1) \<inter> set (rj_reserved_paths j2) = {}"
proof -
  have "registry_ok no_reservations" by (simp add: registry_ok_def no_reservations_def)
  with assms(1,2) scan_registry.run_inv [of s ms E] have "registry_ok R" by simp
  from registry_job [OF this assms(3)] registry_job [OF this assms(4)] assms(5) show ?thesis by fastforce
qed

section \<open>An example\<close>

definition gate_node :: "canon \<Rightarrow> Node option" where
  "gate_node q = (if q = [''srv''] \<or> q = [''q''] then Some NDir else if q = [''srv'', ''x.download''] then Some (NFile 0) else None)"

definition gate_fs :: Fs where
  "gate_fs = \<lparr>fs_node = gate_node, fs_data = [0 \<mapsto> ([6, 6], 7)], fs_next = 1, fs_cwd = [], fs_deny = (\<lambda>_. False), fs_time = 9\<rparr>"

definition gate_lib :: FsLib where
  "gate_lib = \<lparr>fl_compress = id, fl_decompress = id, fl_digest_text = (\<lambda>(a, b). [a, b]), fl_digest_of = (\<lambda>_. None),
     fl_write_ok = True, fl_sync_ok = True, fl_read_ok = True\<rparr>"

text \<open>An engine that calls everything malware\<close>

definition gate_env :: ScanEnv where
  "gate_env = \<lparr>sv_mode = ''block'', sv_max_mb = ''1'', sv_engine = (\<lambda>_. Some Malware), sv_engine_name = ''av'', sv_prep_permit = True,
     sv_scan_permit = True, sv_sha256 = (\<lambda>_. ''00''), sv_millis = 5, sv_quarantine = ''/q'', sv_permissions_ok = (\<lambda>_. True), sv_lib = gate_lib\<rparr>"

abbreviation gate_entry :: FileEntry where
  "gate_entry \<equiv> \<lparr>fe_name = ''x'', fe_size = 0, fe_modified = 0\<rparr>"

definition gate_job :: TransferJob where
  "gate_job = (new_write 4 Generic [] (FilePath ''/srv'') 0 False False False)\<lparr>tj_files := [gate_entry], tj_total_size := 2, tj_conn_id := 7\<rparr>"

definition gate_registry :: JobRegistry where
  "gate_registry = \<lparr>jr_jobs = [((7, 4), \<lparr>rj_mode = ScanBlock, rj_reserved_paths = [''/srv/x'', ''/srv/x.download'']\<rparr>)],
     jr_reservations = [(''/srv/x.download'', (7, 4)), (''/srv/x'', (7, 4))]\<rparr>"

definition gate_cm :: Cm where
  "gate_cm = \<lparr>cm_jobs = [gate_job], cm_registry = gate_registry, cm_fs = gate_fs, cm_out = []\<rparr>"

definition gate_open :: TransferJob where
  "gate_open = gate_job\<lparr>tj_stream := Some (FileStream 0 2)\<rparr>"

definition gate_download :: CompletedDownload where
  "gate_download = \<lparr>cd_download_path = ''/srv/x.download'', cd_final_path = ''/srv/x'', cd_name = ''x''\<rparr>"

lemmas gate_eval = gate_node_def gate_fs_def gate_job_def gate_open_def gate_registry_def new_write_def job_default_def
  kernel_path_def is_absolute_def pieces_def path_join_def job_join_def components_def starts_with_def
  MAX_LINKS_def resolve_def stat_def node_at_def remove_file_def set_node_def set_data_def data_of_def rename_def set_mtime_def
  validate_file_name_no_traversal_def validate_no_symlink_components_def join_validated_path_def resolve_entry_path_def
  download_of_def digest_of_def as_usize_def

lemma gate_current: "current_download gate_fs gate_open = Ok (Some gate_download)"
  by (simp add: current_download_def gate_download_def gate_eval)

lemma gate_mode: "scan_mode_for (job_owner gate_open) gate_registry = ScanBlock"
  by (simp add: scan_mode_for_def job_owner_def gate_eval)

lemma gate_blocked: "\<not> passes_scan gate_env gate_fs (cd_download_path gate_download)"
  by (simp add: passes_scan_def gate_env_def)

theorem block_mode_gate_witness:
  "scan_mode_for (job_owner gate_open) gate_registry = ScanBlock \<and> current_download gate_fs gate_open = Ok (Some gate_download)
   \<and> None \<noteq> Some (tj_file_num gate_open)
   \<and> (case finish_completed_download gate_env gate_registry None gate_open gate_fs of
        (r, job', fs', p) \<Rightarrow> (\<exists>e. r = Err e)
          \<and> (\<forall>q. new_file gate_fs fs' q \<longrightarrow> (\<exists>sha b. quarantine_root gate_env gate_download sha gate_fs b \<and> prefix b q)))"
proof -
  obtain r job' fs' p where f: "finish_completed_download gate_env gate_registry None gate_open gate_fs = (r, job', fs', p)"
    by (cases "finish_completed_download gate_env gate_registry None gate_open gate_fs") auto
  from block_mode_gate [OF gate_mode gate_current _ f] gate_mode gate_current gate_blocked f show ?thesis by simp
qed

lemma gate_get: "get_job 4 (cm_jobs gate_cm) = Some gate_job" "tj_stream gate_job = None"
  by (simp_all add: gate_cm_def get_job_def gate_job_def new_write_def job_default_def)

lemma gate_staged: "staged gate_job (cm_fs gate_cm) [''srv'', ''x.download''] [''srv'', ''x''] 0"
  by (auto simp: staged_def gate_cm_def Let_def gate_eval)

theorem unopened_download_delivered_witness:
  "get_job 4 (cm_jobs gate_cm) = Some gate_job \<and> tj_stream gate_job = None
   \<and> scan_mode_for (job_owner gate_job) (cm_registry gate_cm) = ScanBlock \<and> sv_engine gate_env [6, 6] = Some Malware
   \<and> fs_node (cm_fs (handle_fs gate_env (WriteDone 4 0) gate_cm)) [''srv'', ''x''] = Some (NFile 0)
   \<and> fst (data_of (cm_fs (handle_fs gate_env (WriteDone 4 0) gate_cm)) 0) = [6, 6]
   \<and> cm_out (handle_fs gate_env (WriteDone 4 0) gate_cm) = [MsgDone 4 0]"
proof -
  have "fst (data_of (cm_fs gate_cm) 0) = [6, 6]" "cm_out gate_cm = []" by (simp_all add: gate_cm_def gate_fs_def data_of_def)
  moreover have "scan_mode_for (job_owner gate_job) (cm_registry gate_cm) = ScanBlock" "sv_engine gate_env [6, 6] = Some Malware"
    by (simp_all add: scan_mode_for_def job_owner_def gate_cm_def gate_env_def gate_eval)
  ultimately show ?thesis using unopened_download_delivered [OF gate_get gate_staged, of gate_env 0] gate_get by simp
qed

definition gate_start :: Cm where
  "gate_start = \<lparr>cm_jobs = [], cm_registry = no_reservations, cm_fs = gate_fs, cm_out = []\<rparr>"

text \<open>Two jobs, of two connections\<close>

abbreviation two_jobs :: "FsMsg list" where
  "two_jobs \<equiv> [NewWrite ''/srv'' 4 0 [(''x'', 0)] False 2 7, NewWrite ''/srv/'' 5 0 [(''y'', 0)] False 2 8]"

definition second_job :: TransferJob where
  "second_job = (new_write 5 Generic [] (FilePath ''/srv/'') 0 False False False)\<lparr>tj_files := [\<lparr>fe_name = ''y'', fe_size = 0, fe_modified = 0\<rparr>],
     tj_total_size := 2, tj_conn_id := 8\<rparr>"

definition two_registry :: JobRegistry where
  "two_registry = \<lparr>jr_jobs = assoc_insert (8, 5) \<lparr>rj_mode = ScanBlock, rj_reserved_paths = [''/srv/y'', ''/srv/y.download'']\<rparr> (jr_jobs gate_registry),
     jr_reservations = assoc_insert ''/srv/y.download'' (8, 5) (assoc_insert ''/srv/y'' (8, 5) (jr_reservations gate_registry))\<rparr>"

lemma gate_files:
  "set_files gate_fs [gate_entry] (new_write 4 Generic [] (FilePath ''/srv'') 0 False False False)
     = Ok ((new_write 4 Generic [] (FilePath ''/srv'') 0 False False False)\<lparr>tj_files := [gate_entry]\<rparr>)"
  "set_files gate_fs [\<lparr>fe_name = ''y'', fe_size = 0, fe_modified = 0\<rparr>] (new_write 5 Generic [] (FilePath ''/srv/'') 0 False False False)
     = Ok ((new_write 5 Generic [] (FilePath ''/srv/'') 0 False False False)\<lparr>tj_files := [\<lparr>fe_name = ''y'', fe_size = 0, fe_modified = 0\<rparr>]\<rparr>)"
  by (simp_all add: set_files_def validate_transfer_file_names_def gate_eval sum_u64_def)

lemma gate_register:
  "register_scan_job ScanBlock gate_fs gate_job no_reservations = (Ok (), gate_registry)"
  "register_scan_job ScanBlock gate_fs second_job gate_registry = (Ok (), two_registry)"
  by (simp_all add: register_scan_job_def download_paths_def no_reservations_def job_owner_def reservation_key_def normalize_path_def
    print_components_def assoc_insert_def Let_def second_job_def two_registry_def gate_eval)

lemma gate_scan_mode: "scan_mode_from (sv_mode gate_env) = ScanBlock"
  by (simp add: scan_mode_from_def gate_env_def) code_simp

lemma gate_new: "cm_registry (fold (handle_fs gate_env) two_jobs gate_start) = two_registry"
proof -
  have "(new_write 4 Generic [] (FilePath ''/srv'') 0 False False False)\<lparr>tj_files := [gate_entry], tj_total_size := 2, tj_conn_id := 7\<rparr> = gate_job"
    "(new_write 5 Generic [] (FilePath ''/srv/'') 0 False False False)\<lparr>tj_files := [\<lparr>fe_name = ''y'', fe_size = 0, fe_modified = 0\<rparr>], tj_total_size := 2, tj_conn_id := 8\<rparr> = second_job"
    by (simp_all add: gate_job_def second_job_def)
  then show ?thesis using gate_files gate_register gate_scan_mode by (simp add: new_write_msg_def gate_start_def)
qed

theorem destinations_exclusive_witness:
  "cm_registry gate_start = no_reservations \<and> cm_registry (fold (handle_fs gate_env) two_jobs gate_start) = two_registry
   \<and> (\<exists>j1 j2. map_of (jr_jobs two_registry) (7, 4) = Some j1 \<and> map_of (jr_jobs two_registry) (8, 5) = Some j2
        \<and> set (rj_reserved_paths j1) \<inter> set (rj_reserved_paths j2) = {})"
proof -
  have r: "cm_registry gate_start = no_reservations" by (simp add: gate_start_def)
  obtain j1 j2 where j: "map_of (jr_jobs two_registry) (7, 4) = Some j1" "map_of (jr_jobs two_registry) (8, 5) = Some j2"
    by (simp add: two_registry_def gate_registry_def)
  from destinations_exclusive [OF r gate_new j] r gate_new j show ?thesis by simp
qed

end
