(* ===== verification/Audit_Sink.thy ===== *)
theory Audit_Sink
  imports Session_Log Forward_Policy
begin

text \<open>
  The additional destinations of audit events, \<open>src/src/clanto/audit_sink.rs\<close>: the table of events that is the
  contract with the SIEM, the classification of an event, the configuration, the two text formats, the
  framing of a stream, the bounded queue and the worker that delivers it.

  The JSON printer and reader are those of \<open>LogLib\<close>. Options are read through \<open>opt\<close>. What the clock, the
  host and the process say of themselves is the record \<open>HostInfo\<close>; what the network and the TLS library
  answer to one delivery is the record \<open>Io\<close>. Frames written to a stream are kept with the kind of stream
  and the transport it was opened for. A \<open>BTreeMap\<close> is a list sorted by key.
\<close>

section \<open>Events\<close>

datatype EventKey =
    ConnectionOpened | SessionOpened | ConnectionClosed | SessionCompleted
     | ControllerIdentityReceived | FileRemoteSend | FileRemoteReceive | AlarmIpWhitelist
     | AlarmExceedThirtyAttempts | AlarmSixAttemptsWithinOneMinute | AlarmExceedIpv6PrefixAttempts
     | AlarmTerminalOsLoginBackoff | AlarmTerminalOsLoginConcurrency | AlarmSessionScopeViolation
     | AlarmIdWhitelist | AlarmPostureRejected | AlarmPasswordWrong | AlarmTwoFactorWrong
     | PosturePassed | PostureBypass | TemporaryPasswordRotated | FileMalwareDetected
     | FileUnscannable | FileDirectionBlocked | FileExtensionBlocked | FileScannedClean
     | BinarySignatureInvalid | ForwardOpened | ForwardDenied | ForwardListenOpened
     | ForwardListenDenied | ForwardCameraOpened | ForwardCameraDenied | ForwardCameraClosed
     | Unknown

record EventDefinition =
  ev_key :: EventKey
  ev_id :: nat
  ev_name :: string
  ev_syslog_severity :: nat
  ev_cef_severity :: nat

definition event_row :: "EventKey \<Rightarrow> nat \<Rightarrow> string \<Rightarrow> nat \<Rightarrow> nat \<Rightarrow> EventDefinition" where
  "event_row k i n s c =
     \<lparr>ev_key = k, ev_id = i, ev_name = n, ev_syslog_severity = s, ev_cef_severity = c\<rparr>"

definition EVENTS :: "EventDefinition list" where
  "EVENTS =
    [event_row ConnectionOpened 61100 ''Connection opened'' 6 3,
     event_row SessionOpened 61101 ''Session opened'' 6 3,
     event_row ConnectionClosed 61102 ''Connection closed'' 6 3,
     event_row SessionCompleted 61103 ''Session completed'' 6 3,
     event_row ControllerIdentityReceived 61104 ''Controller identity received'' 6 3,
     event_row FileRemoteSend 61110 ''File sent to peer'' 5 5,
     event_row FileRemoteReceive 61111 ''File received from peer'' 5 5,
     event_row AlarmIpWhitelist 61120 ''IP whitelist rejected'' 4 7,
     event_row AlarmExceedThirtyAttempts 61121 ''Login attempt limit exceeded'' 4 7,
     event_row AlarmSixAttemptsWithinOneMinute 61122 ''Login rate limit exceeded'' 4 7,
     event_row AlarmExceedIpv6PrefixAttempts 61123 ''IPv6 prefix attempt limit exceeded'' 4 7,
     event_row AlarmTerminalOsLoginBackoff 61124 ''Terminal OS login backoff'' 4 7,
     event_row AlarmTerminalOsLoginConcurrency 61125 ''Terminal OS login concurrency rejected'' 4 7,
     event_row AlarmSessionScopeViolation 61126 ''Session scope violation'' 4 7,
     event_row AlarmIdWhitelist 61127 ''ID whitelist rejected'' 4 7,
     event_row AlarmPostureRejected 61128 ''Device posture rejected'' 4 7,
     event_row AlarmPasswordWrong 61129 ''Password authentication failed'' 4 7,
     event_row AlarmTwoFactorWrong 61130 ''Two-factor authentication failed'' 4 7,
     event_row PosturePassed 61140 ''Device posture passed'' 6 3,
     event_row PostureBypass 61141 ''Device posture bypassed'' 5 5,
     event_row TemporaryPasswordRotated 61150 ''Temporary password rotated'' 5 5,
     event_row FileMalwareDetected 61160 ''File malware detected'' 4 7,
     event_row FileUnscannable 61161 ''File could not be scanned'' 4 7,
     event_row FileDirectionBlocked 61162 ''File transfer direction blocked'' 4 7,
     event_row FileExtensionBlocked 61163 ''File extension blocked'' 4 7,
     event_row FileScannedClean 61164 ''File scanned clean'' 6 3,
     event_row BinarySignatureInvalid 61180 ''ClantoDesk binary tampered (not signed by Clanto)'' 2 8,
     event_row ForwardOpened 61170 ''Forwarding channel opened'' 5 5,
     event_row ForwardDenied 61171 ''Forwarding channel denied'' 4 7,
     event_row ForwardListenOpened 61172 ''Forwarding listener opened'' 5 5,
     event_row ForwardListenDenied 61173 ''Forwarding listener denied'' 4 7,
     event_row ForwardCameraOpened 61174 ''Controller camera opened'' 5 5,
     event_row ForwardCameraDenied 61175 ''Controller camera denied'' 4 7,
     event_row ForwardCameraClosed 61176 ''Controller camera closed'' 6 3,
     event_row Unknown 61999 ''Unknown audit event'' 5 5]"

definition KIND_TEMP_PASSWORD_ROTATION :: string where
  "KIND_TEMP_PASSWORD_ROTATION = ''temp_password_rotation''"

definition alarm_key :: "int option \<Rightarrow> EventKey" where
  "alarm_key t =
     (if t = Some 0 then AlarmIpWhitelist
      else if t = Some 1 then AlarmExceedThirtyAttempts
      else if t = Some 2 then AlarmSixAttemptsWithinOneMinute
      else if t = Some 6 then AlarmExceedIpv6PrefixAttempts
      else if t = Some 7 then AlarmTerminalOsLoginBackoff
      else if t = Some 8 then AlarmTerminalOsLoginConcurrency
      else if t = Some 9 then AlarmSessionScopeViolation
      else if t = Some 10 then AlarmIdWhitelist
      else if t = Some 11 then AlarmPostureRejected
      else if t = Some 12 then AlarmPasswordWrong
      else if t = Some 13 then AlarmTwoFactorWrong
      else Unknown)"

definition event_key :: "string \<Rightarrow> Value \<Rightarrow> EventKey" where
  "event_key kind v =
     (if kind = ''conn'' \<and> get_str ''action'' v = Some ''new'' then ConnectionOpened
      else if kind = ''conn'' \<and> get_str ''action'' v = Some ''close'' then ConnectionClosed
      else if kind = ''conn'' \<and> get_str ''action'' v = Some ''controller_identity''
      then ControllerIdentityReceived
      else if kind = ''conn'' \<and> get_str ''type'' v = Some ''clanto_posture'' then PosturePassed
      else if kind = ''conn'' \<and> get_str ''type'' v = Some ''clanto_posture_bypass'' then PostureBypass
      else if kind = ''conn'' \<and> value_get ''peer'' v \<noteq> None then SessionOpened
      else if kind = ''session'' then SessionCompleted
      else if kind = ''file'' then
        (if get_i64 ''type'' v = Some 0 then FileRemoteSend
         else if get_i64 ''type'' v = Some 1 then FileRemoteReceive
         else Unknown)
      else if kind = ''alarm'' then alarm_key (get_i64 ''typ'' v)
      else if kind = KIND_TEMP_PASSWORD_ROTATION then TemporaryPasswordRotated
      else if kind = ''clanto_file_malware'' then FileMalwareDetected
      else if kind = ''clanto_file_unscannable'' then FileUnscannable
      else if kind = ''clanto_file_direction_blocked'' then FileDirectionBlocked
      else if kind = ''clanto_file_extension_blocked'' then FileExtensionBlocked
      else if kind = ''clanto_file_clean'' then FileScannedClean
      else if kind = ''clanto_binary_signature'' then BinarySignatureInvalid
      else if kind = ''clanto_forward_opened'' then ForwardOpened
      else if kind = ''clanto_forward_denied'' then ForwardDenied
      else if kind = ''clanto_forward_listen'' then ForwardListenOpened
      else if kind = ''clanto_forward_listen_denied'' then ForwardListenDenied
      else if kind = ''clanto_forward_camera_opened'' then ForwardCameraOpened
      else if kind = ''clanto_forward_camera_denied'' then ForwardCameraDenied
      else if kind = ''clanto_forward_camera_closed'' then ForwardCameraClosed
      else Unknown)"

definition event_definition :: "string \<Rightarrow> Value \<Rightarrow> EventDefinition" where
  "event_definition kind v =
     (case find (\<lambda>d. ev_key d = event_key kind v) EVENTS of
        Some d \<Rightarrow> d
      | None \<Rightarrow> EVENTS ! (length EVENTS - 1))"

section \<open>Configuration\<close>

datatype Protocol = Udp | Tcp | Tls

datatype OutputFormat = Rfc5424 | Cef

record DeliveryConfig =
  dc_host :: string
  dc_port :: nat
  dc_protocol :: Protocol
  dc_format :: OutputFormat
  dc_facility :: nat
  dc_tls_ca :: string

definition OPT_SYSLOG_ENABLED :: string where "OPT_SYSLOG_ENABLED = ''clanto-syslog-enabled''"
definition OPT_SYSLOG_HOST :: string where "OPT_SYSLOG_HOST = ''clanto-syslog-host''"
definition OPT_SYSLOG_PORT :: string where "OPT_SYSLOG_PORT = ''clanto-syslog-port''"
definition OPT_SYSLOG_PROTOCOL :: string where "OPT_SYSLOG_PROTOCOL = ''clanto-syslog-protocol''"
definition OPT_SYSLOG_FACILITY :: string where "OPT_SYSLOG_FACILITY = ''clanto-syslog-facility''"
definition OPT_SYSLOG_TLS_CA :: string where "OPT_SYSLOG_TLS_CA = ''clanto-syslog-tls-ca''"
definition OPT_SYSLOG_FORMAT :: string where "OPT_SYSLOG_FORMAT = ''clanto-syslog-format''"
definition OPT_EVENTLOG_ENABLED :: string where "OPT_EVENTLOG_ENABLED = ''clanto-eventlog-enabled''"

definition DEFAULT_PORT :: nat where "DEFAULT_PORT = 514"
definition DEFAULT_TLS_PORT :: nat where "DEFAULT_TLS_PORT = 6514"
definition DEFAULT_FACILITY :: nat where "DEFAULT_FACILITY = 16"
definition QUEUE_CAPACITY :: nat where "QUEUE_CAPACITY = 1000"
definition MAX_BACKOFF :: nat where "MAX_BACKOFF = 60"
definition EVENT_SOURCE :: string where "EVENT_SOURCE = ''ClantoDesk''"

definition is_on :: "(string \<Rightarrow> string) \<Rightarrow> string \<Rightarrow> bool" where
  "is_on opt key = (opt key = ''Y'')"

definition delivery_config :: "(string \<Rightarrow> string) \<Rightarrow> DeliveryConfig" where
  "delivery_config opt =
     (let name = to_ascii_lowercase (opt OPT_SYSLOG_PROTOCOL);
          protocol = (if name = ''udp'' then Udp else if name = ''tcp'' then Tcp else Tls);
          default_port = (if protocol = Tls then DEFAULT_TLS_PORT else DEFAULT_PORT)
      in \<lparr>dc_host = opt OPT_SYSLOG_HOST,
          dc_port = (case parse_uint u16_max (opt OPT_SYSLOG_PORT) of Some p \<Rightarrow> p | None \<Rightarrow> default_port),
          dc_protocol = protocol,
          dc_format = (if eq_ignore_ascii_case (opt OPT_SYSLOG_FORMAT) ''cef'' then Cef else Rfc5424),
          dc_facility =
            (case parse_uint u8_max (opt OPT_SYSLOG_FACILITY) of
               Some f \<Rightarrow> if f \<le> 23 then f else DEFAULT_FACILITY
             | None \<Rightarrow> DEFAULT_FACILITY),
          dc_tls_ca = opt OPT_SYSLOG_TLS_CA\<rparr>)"

definition active_delivery_config :: "bool \<Rightarrow> DeliveryConfig \<Rightarrow> DeliveryConfig option" where
  "active_delivery_config active C = (if active \<and> dc_host C \<noteq> [] then Some C else None)"

definition active_config :: "(string \<Rightarrow> string) \<Rightarrow> DeliveryConfig option" where
  "active_config opt = active_delivery_config (is_on opt OPT_SYSLOG_ENABLED) (delivery_config opt)"

section \<open>Text formats\<close>

text \<open>\<open>str::replace\<close> with a character pattern.\<close>

definition replace_char :: "char \<Rightarrow> string \<Rightarrow> string \<Rightarrow> string" where
  "replace_char c t s = concat (map (\<lambda>x. if x = c then t else [x]) s)"

abbreviation BSLASH :: char where "BSLASH \<equiv> CHR 0x5C"
abbreviation DQUOTE :: char where "DQUOTE \<equiv> CHR 0x22"
abbreviation CR :: char where "CR \<equiv> CHR 0x0D"
abbreviation LF :: char where "LF \<equiv> CHR 0x0A"

definition escape_structured_data :: "string \<Rightarrow> string" where
  "escape_structured_data s =
     replace_char CHR '']'' [BSLASH, CHR '']'']
       (replace_char DQUOTE [BSLASH, DQUOTE] (replace_char BSLASH [BSLASH, BSLASH] s))"

definition escape_cef_header :: "string \<Rightarrow> string" where
  "escape_cef_header s =
     replace_char CHR ''|'' [BSLASH, CHR ''|''] (replace_char BSLASH [BSLASH, BSLASH] s)"

definition escape_cef_extension :: "string \<Rightarrow> string" where
  "escape_cef_extension s =
     replace_char LF [BSLASH, CHR ''n'']
       (replace_char CR [BSLASH, CHR ''r'']
         (replace_char CHR ''='' [BSLASH, CHR ''='']
           (replace_char BSLASH [BSLASH, BSLASH] s)))"

definition cef_extension_key :: "string \<Rightarrow> string" where
  "cef_extension_key key =
     map (\<lambda>c. if is_ascii_alphanumeric c \<or> c = CHR ''_'' then c else CHR ''_'') key"

definition json_value_text :: "LogLib \<Rightarrow> Value \<Rightarrow> string" where
  "json_value_text J v = (case as_str v of Some s \<Rightarrow> s | None \<Rightarrow> ll_print J v)"

text \<open>\<open>BTreeMap::insert\<close> and \<open>entry(k).or_insert_with\<close>.\<close>

fun bt_insert :: "string \<Rightarrow> 'v \<Rightarrow> (string \<times> 'v) list \<Rightarrow> (string \<times> 'v) list" where
  "bt_insert k v [] = [(k, v)]"
| "bt_insert k v ((k', v') # xs) =
     (if k = k' then (k, v) # xs
      else if k < k' then (k, v) # (k', v') # xs
      else (k', v') # bt_insert k v xs)"

definition bt_or_insert :: "string \<Rightarrow> 'v \<Rightarrow> (string \<times> 'v) list \<Rightarrow> (string \<times> 'v) list" where
  "bt_or_insert k v xs = (if map_of xs k = None then bt_insert k v xs else xs)"

text \<open>The entries of an object in the order of its iteration, which is that of the keys.\<close>

definition object_entries :: "(string \<times> Value) list \<Rightarrow> (string \<times> Value) list" where
  "object_entries fs = fold (\<lambda>(k, v). bt_insert k v) fs []"

definition or_insert_from :: "LogLib \<Rightarrow> string \<Rightarrow> string \<Rightarrow> Value \<Rightarrow> (string \<times> string) list \<Rightarrow> (string \<times> string) list" where
  "or_insert_from J key name v ext =
     (case value_get name v of Some x \<Rightarrow> bt_or_insert key (json_value_text J x) ext | None \<Rightarrow> ext)"

fun cef_extensions :: "LogLib \<Rightarrow> Value \<Rightarrow> (string \<times> string) list" where
  "cef_extensions J (VObject fs) =
     (let ext = fold (\<lambda>(k, v). bt_insert (cef_extension_key (if k = ''ip'' then ''src'' else k)) (json_value_text J v))
                  (object_entries fs) [];
          ext = or_insert_from J ''peer'' ''peer_id'' (VObject fs) ext
      in case Option.bind (get_str ''info'' (VObject fs)) (ll_parse J) of
           Some (VObject gs) \<Rightarrow>
             or_insert_from J ''reason'' ''reason'' (VObject gs)
               (or_insert_from J ''peer'' ''id'' (VObject gs)
                 (or_insert_from J ''src'' ''ip'' (VObject gs) ext))
         | _ \<Rightarrow> ext)"
| "cef_extensions J _ = []"

record HostInfo =
  hi_timestamp :: string
  hi_hostname :: string
  hi_pid :: nat
  hi_version :: string

definition format_cef :: "LogLib \<Rightarrow> HostInfo \<Rightarrow> EventDefinition \<Rightarrow> Value \<Rightarrow> string" where
  "format_cef J H ev v =
     (let extensions = join '' '' (map (\<lambda>(k, x). k @ ''='' @ escape_cef_extension x) (cef_extensions J v))
      in ''CEF:0|'' @ escape_cef_header ''Clanto Services'' @ ''|'' @ escape_cef_header EVENT_SOURCE
         @ ''|'' @ escape_cef_header (hi_version H) @ ''|'' @ show_nat (ev_id ev)
         @ ''|'' @ escape_cef_header (ev_name ev) @ ''|'' @ show_nat (ev_cef_severity ev)
         @ ''|'' @ extensions)"

definition pri_value :: "nat \<Rightarrow> EventDefinition \<Rightarrow> nat" where
  "pri_value facility ev = facility * 8 + ev_syslog_severity ev"

definition format_rfc5424 :: "LogLib \<Rightarrow> HostInfo \<Rightarrow> EventDefinition \<Rightarrow> Value \<Rightarrow> nat \<Rightarrow> nat \<Rightarrow> string" where
  "format_rfc5424 J H ev v facility lost =
     (let hostname = (if hi_hostname H = [] then ''-'' else hi_hostname H);
          structured_data =
            ''[clanto@32473 eventId='' @ [DQUOTE] @ show_nat (ev_id ev) @ [DQUOTE]
            @ '' eventName='' @ [DQUOTE] @ escape_structured_data (ev_name ev) @ [DQUOTE]
            @ '' severity='' @ [DQUOTE] @ show_nat (ev_syslog_severity ev) @ [DQUOTE]
            @ '' lostRecords='' @ [DQUOTE] @ show_nat lost @ [DQUOTE] @ '']''
      in ''<'' @ show_nat (pri_value facility ev) @ ''>1 '' @ hi_timestamp H @ '' '' @ hostname @ '' ''
         @ EVENT_SOURCE @ '' '' @ show_nat (hi_pid H) @ '' '' @ show_nat (ev_id ev) @ '' ''
         @ structured_data @ '' '' @ ll_print J v)"

definition value_with_lost :: "Value \<Rightarrow> nat \<Rightarrow> Value" where
  "value_with_lost v lost =
     (case v of
        VObject fs \<Rightarrow> if 0 < lost then VObject (assoc_insert ''lost_records'' (VNumber (int lost)) fs) else v
      | _ \<Rightarrow> v)"

definition format_record :: "LogLib \<Rightarrow> HostInfo \<Rightarrow> EventDefinition \<Rightarrow> Value \<Rightarrow> DeliveryConfig \<Rightarrow> nat \<Rightarrow> string" where
  "format_record J H ev v C lost =
     (let v = value_with_lost v lost in
      case dc_format C of
        Rfc5424 \<Rightarrow> format_rfc5424 J H ev v (dc_facility C) lost
      | Cef \<Rightarrow> format_cef J H ev v)"

definition octet_counting_frame :: "string \<Rightarrow> nat list" where
  "octet_counting_frame m = as_bytes (show_nat (length (as_bytes m)) @ '' '' @ m)"

definition target :: "DeliveryConfig \<Rightarrow> string" where
  "target C =
     (if CHR '':'' \<in> set (dc_host C) \<and> \<not> starts_with (dc_host C) ''[''
      then ''['' @ dc_host C @ '']:'' @ show_nat (dc_port C)
      else dc_host C @ '':'' @ show_nat (dc_port C))"

definition tls_server_name :: "string \<Rightarrow> string" where
  "tls_server_name host =
     (case host of
        [] \<Rightarrow> host
      | c # rest \<Rightarrow>
          if c = CHR ''['' \<and> rest \<noteq> [] \<and> last rest = CHR '']'' then
            (if parse_ip (butlast rest) \<noteq> None then butlast rest else host)
          else host)"

section \<open>The queue\<close>

record PendingRecord =
  pr_sequence :: nat
  pr_event :: EventDefinition
  pr_value :: Value

record AuditQueue =
  aq_records :: "PendingRecord list"
  aq_capacity :: nat
  aq_next_sequence :: nat
  aq_lost :: nat

definition queue_new :: "nat \<Rightarrow> AuditQueue" where
  "queue_new capacity =
     \<lparr>aq_records = [], aq_capacity = max capacity 1, aq_next_sequence = 0, aq_lost = 0\<rparr>"

definition push :: "EventDefinition \<Rightarrow> Value \<Rightarrow> AuditQueue \<Rightarrow> AuditQueue" where
  "push ev v q =
     (let full = length (aq_records q) = aq_capacity q;
          rs = (if full then tl (aq_records q) else aq_records q);
          lost = (if full then sat_add u64_max (aq_lost q) 1 else aq_lost q)
      in q\<lparr>aq_records := rs @ [\<lparr>pr_sequence = aq_next_sequence q, pr_event = ev, pr_value = v\<rparr>],
           aq_next_sequence := add_u64 (aq_next_sequence q) 1,
           aq_lost := lost\<rparr>)"

definition front :: "AuditQueue \<Rightarrow> (PendingRecord \<times> nat) option" where
  "front q = (case aq_records q of [] \<Rightarrow> None | r # _ \<Rightarrow> Some (r, aq_lost q))"

definition is_front :: "nat \<Rightarrow> AuditQueue \<Rightarrow> bool" where
  "is_front s q = (case aq_records q of [] \<Rightarrow> False | r # _ \<Rightarrow> pr_sequence r = s)"

definition finish :: "nat \<Rightarrow> nat \<Rightarrow> bool \<Rightarrow> AuditQueue \<Rightarrow> AuditQueue" where
  "finish s reported delivered q =
     (let still_front = is_front s q;
          q = (if still_front then q\<lparr>aq_records := tl (aq_records q)\<rparr> else q)
      in if delivered
         then q\<lparr>aq_lost := sat_sub (aq_lost q) (sat_add u64_max reported (if still_front then 0 else 1))\<rparr>
         else q)"

section \<open>Delivery\<close>

record TransportKey =
  tk_host :: string
  tk_port :: nat
  tk_protocol :: Protocol
  tk_tls_ca :: string

definition transport_key :: "DeliveryConfig \<Rightarrow> TransportKey" where
  "transport_key C =
     \<lparr>tk_host = dc_host C, tk_port = dc_port C, tk_protocol = dc_protocol C, tk_tls_ca = dc_tls_ca C\<rparr>"

datatype ConnectedStream = TcpStream | TlsStream

datatype DeliveryError = Permanent string | Retryable string

record ActiveConnection =
  ac_key :: TransportKey
  ac_stream :: ConnectedStream

text \<open>The answers of the system and of the TLS library to one delivery. \<open>io_tls_config\<close> is
  \<open>tls_config_from_pem\<close>, \<open>io_timeout\<close> tells that the five seconds ran out.\<close>

record Io =
  io_timeout :: bool
  io_bind :: "string \<Rightarrow> (unit, string) result"
  io_send_to :: "nat list \<Rightarrow> string \<Rightarrow> (unit, string) result"
  io_read_ca :: "string \<Rightarrow> (nat list, string) result"
  io_tls_config :: "nat list \<Rightarrow> (unit, string) result"
  io_server_name :: "string \<Rightarrow> (unit, string) result"
  io_connect :: "string \<Rightarrow> (unit, string) result"
  io_handshake :: "string \<Rightarrow> (unit, string) result"
  io_write :: "nat list \<Rightarrow> (unit, string) result"

definition map_err :: "('e \<Rightarrow> 'f) \<Rightarrow> ('a, 'e) result \<Rightarrow> ('a, 'f) result" where
  "map_err f r = (case r of Ok x \<Rightarrow> Ok x | Err e \<Rightarrow> Err (f e))"

definition send_udp :: "Io \<Rightarrow> DeliveryConfig \<Rightarrow> string \<Rightarrow> (unit, string) result" where
  "send_udp I C m =
     (let bind = (if CHR '':'' \<in> set (dc_host C) then ''[::]:0'' else ''0.0.0.0:0'')
      in result_bind (map_err (\<lambda>e. ''bind: '' @ e) (io_bind I bind))
           (\<lambda>_. io_send_to I (as_bytes m) (target C)))"

definition quoted :: "string \<Rightarrow> string" where
  "quoted s = [CHR 0x27] @ s @ [CHR 0x27]"

definition connect_tls :: "Io \<Rightarrow> DeliveryConfig \<Rightarrow> TransportKey \<Rightarrow> (ActiveConnection, DeliveryError) result" where
  "connect_tls I C key =
     (if dc_tls_ca C = [] then Err (Permanent ''CA TLS non configurata'')
      else
        result_bind (map_err (\<lambda>e. Permanent (''CA TLS '' @ quoted (dc_tls_ca C) @ '': '' @ e)) (io_read_ca I (dc_tls_ca C))) (\<lambda>pem.
        result_bind (map_err Permanent (io_tls_config I pem)) (\<lambda>_.
        result_bind (map_err (\<lambda>e. Permanent (''nome server TLS '' @ quoted (dc_host C) @ '': '' @ e))
          (io_server_name I (tls_server_name (dc_host C)))) (\<lambda>_.
        result_bind (map_err Retryable (io_connect I (target C))) (\<lambda>_.
        result_bind (map_err Retryable (io_handshake I (tls_server_name (dc_host C)))) (\<lambda>_.
        Ok \<lparr>ac_key = key, ac_stream = TlsStream\<rparr>))))))"

definition connect_stream :: "Io \<Rightarrow> DeliveryConfig \<Rightarrow> TransportKey \<Rightarrow> (ActiveConnection, DeliveryError) result" where
  "connect_stream I C key =
     (if dc_protocol C = Tls then connect_tls I C key
      else result_bind (map_err Retryable (io_connect I (target C)))
             (\<lambda>_. Ok \<lparr>ac_key = key, ac_stream = TcpStream\<rparr>))"

text \<open>The result, the connection kept and the write that was started, if any.\<close>

definition send_stream :: "Io \<Rightarrow> DeliveryConfig \<Rightarrow> string \<Rightarrow> ActiveConnection option
    \<Rightarrow> (unit, DeliveryError) result \<times> ActiveConnection option \<times> (ActiveConnection \<times> nat list) option" where
  "send_stream I C m conn =
     (let key = transport_key C;
          conn = (case conn of Some a \<Rightarrow> if ac_key a \<noteq> key then None else Some a | None \<Rightarrow> None);
          opened = (case conn of Some a \<Rightarrow> Ok a | None \<Rightarrow> connect_stream I C key)
      in case opened of
           Err e \<Rightarrow> (Err e, None, None)
         | Ok a \<Rightarrow>
             let frame = octet_counting_frame m
             in (map_err Retryable (io_write I frame), Some a, Some (a, frame)))"

section \<open>The worker\<close>

record Worker =
  wk_connection :: "ActiveConnection option"
  wk_backoff :: nat
  wk_slept :: nat

definition worker_new :: Worker where
  "worker_new = \<lparr>wk_connection = None, wk_backoff = 1, wk_slept = 0\<rparr>"

text \<open>After a retryable failure: wait while the record is still the oldest one.\<close>

definition retry_later :: "nat \<Rightarrow> AuditQueue \<Rightarrow> Worker \<Rightarrow> Worker" where
  "retry_later s q w =
     (if is_front s q
      then w\<lparr>wk_connection := None, wk_slept := wk_slept w + wk_backoff w, wk_backoff := min (wk_backoff w * 2) MAX_BACKOFF\<rparr>
      else w\<lparr>wk_connection := None, wk_backoff := 1\<rparr>)"

datatype Outcome = Delivered | Given_Up | Kept

text \<open>One turn of the loop after \<open>next_record\<close>, on the queue as it is when the delivery is over:
  what became of the record, the queue, the worker, and what was handed to a stream. A delivery that runs out of
  time may have been stopped before its write.\<close>

definition worker_turn :: "LogLib \<Rightarrow> HostInfo \<Rightarrow> Io \<Rightarrow> (string \<Rightarrow> string) \<Rightarrow> PendingRecord \<Rightarrow> nat \<Rightarrow> AuditQueue \<Rightarrow> Worker
    \<Rightarrow> Outcome \<times> AuditQueue \<times> Worker \<times> (ActiveConnection \<times> nat list) option" where
  "worker_turn J H I opt r lost q w =
     (case active_config opt of
        None \<Rightarrow> (Given_Up, finish (pr_sequence r) lost False q, w\<lparr>wk_connection := None, wk_backoff := 1\<rparr>, None)
      | Some C \<Rightarrow>
          let m = format_record J H (pr_event r) (pr_value r) C lost in
          if dc_protocol C = Udp then
            let sent = (\<not> io_timeout I \<and> is_ok (send_udp I C m))
            in (if sent then Delivered else Given_Up, finish (pr_sequence r) lost sent q,
                w\<lparr>wk_connection := None, wk_backoff := 1\<rparr>, None)
          else
            (case send_stream I C m (wk_connection w) of (res, conn, written) \<Rightarrow>
               if io_timeout I then (Kept, q, retry_later (pr_sequence r) q w, written)
               else (case res of
                 Ok _ \<Rightarrow> (Delivered, finish (pr_sequence r) lost True q, w\<lparr>wk_connection := conn, wk_backoff := 1\<rparr>, written)
               | Err (Permanent _) \<Rightarrow>
                   (Given_Up, finish (pr_sequence r) lost False q, w\<lparr>wk_connection := None, wk_backoff := 1\<rparr>, written)
               | Err (Retryable _) \<Rightarrow> (Kept, q, retry_later (pr_sequence r) q w, written))))"

section \<open>Emission\<close>

datatype EventLogType = ErrorType | WarningType | InformationType

definition event_log_type :: "EventDefinition \<Rightarrow> EventLogType" where
  "event_log_type ev =
     (if ev_syslog_severity ev \<le> 3 then ErrorType
      else if ev_syslog_severity ev = 4 then WarningType else InformationType)"

record SinkState =
  sk_queue :: AuditQueue
  sk_worker_started :: bool
  sk_event_log :: "(EventLogType \<times> nat \<times> string) list"

definition sink_new :: SinkState where
  "sink_new = \<lparr>sk_queue = queue_new QUEUE_CAPACITY, sk_worker_started = False, sk_event_log = []\<rparr>"

text \<open>\<open>windows\<close>: built for Windows, and the system takes the entry; \<open>runtime\<close>: a Tokio runtime is running.\<close>

definition write_event_log :: "bool \<Rightarrow> EventDefinition \<Rightarrow> string \<Rightarrow> SinkState \<Rightarrow> SinkState" where
  "write_event_log windows ev payload K =
     (if windows then K\<lparr>sk_event_log := sk_event_log K @ [(event_log_type ev, ev_id ev, payload)]\<rparr> else K)"

definition start_worker :: "bool \<Rightarrow> SinkState \<Rightarrow> SinkState" where
  "start_worker runtime K =
     (if sk_worker_started K then K else if runtime then K\<lparr>sk_worker_started := True\<rparr> else K)"

definition emit :: "LogLib \<Rightarrow> LogEnv \<Rightarrow> bool \<Rightarrow> bool \<Rightarrow> (string \<Rightarrow> string) \<Rightarrow> string \<Rightarrow> Value
    \<Rightarrow> SessionLog \<times> SinkState \<Rightarrow> SessionLog \<times> SinkState" where
  "emit J E windows runtime opt kind v LK =
     (case LK of (L, K) \<Rightarrow>
        let L = on_audit J E kind v L;
            ev = event_definition kind v;
            K = (if is_on opt OPT_EVENTLOG_ENABLED then write_event_log windows ev (ll_print J v) K else K)
        in case active_config opt of
             None \<Rightarrow> (L, K)
           | Some _ \<Rightarrow> (L, start_worker runtime (K\<lparr>sk_queue := push ev v (sk_queue K)\<rparr>)))"

end
