(* ===== verification/Audit_Format.thy ===== *)
theory Audit_Format
  imports Audit_Sink
begin

text \<open>
  The text formats of \<open>Audit_Sink\<close> read back. A reader of CEF, of the octet-counting stream and of the
  escapes stands for the collector; what the program prints is read as exactly the fields it had, whatever
  the values, so that a value chosen by a peer cannot add or change a field.
\<close>

section \<open>A reader of CEF\<close>

text \<open>The part before the first unescaped separator and the rest.\<close>

fun cut_at :: "char \<Rightarrow> string \<Rightarrow> (string \<times> string) option" where
  "cut_at d [] = None"
| "cut_at d (c # s) =
     (if c = d then Some ([], s)
      else if c = BSLASH then
        (case s of
           [] \<Rightarrow> None
         | e # t \<Rightarrow> map_option (\<lambda>(a, b). (c # e # a, b)) (cut_at d t))
      else map_option (\<lambda>(a, b). (c # a, b)) (cut_at d s))"

fun unescape :: "string \<Rightarrow> string" where
  "unescape (c # e # s) =
     (if c = BSLASH then (if e = CHR ''n'' then LF else if e = CHR ''r'' then CR else e) # unescape s
      else c # unescape (e # s))"
| "unescape s = s"

fun read_fields :: "nat \<Rightarrow> string \<Rightarrow> (string list \<times> string) option" where
  "read_fields 0 s = Some ([], s)"
| "read_fields (Suc n) s =
     (case cut_at CHR ''|'' s of
        None \<Rightarrow> None
      | Some (a, b) \<Rightarrow> map_option (\<lambda>(fs, r). (unescape a # fs, r)) (read_fields n b))"

text \<open>The value of \<open>key\<close> starts here: it ends before the key of the next unescaped equals sign.\<close>

fun read_pairs :: "nat \<Rightarrow> string \<Rightarrow> string \<Rightarrow> (string \<times> string) list option" where
  "read_pairs 0 key s = None"
| "read_pairs (Suc n) key s =
     (case cut_at CHR ''='' s of
        None \<Rightarrow> Some [(key, unescape s)]
      | Some (a, b) \<Rightarrow>
          (case rsplit_once (\<lambda>c. c = CHR '' '') a of
             None \<Rightarrow> None
           | Some (v, key') \<Rightarrow> map_option (Cons (key, unescape v)) (read_pairs n key' b)))"

definition read_extensions :: "string \<Rightarrow> (string \<times> string) list option" where
  "read_extensions s =
     (if s = [] then Some []
      else case cut_at CHR ''='' s of None \<Rightarrow> None | Some (key, b) \<Rightarrow> read_pairs (length s) key b)"

definition read_cef :: "string \<Rightarrow> (string list \<times> (string \<times> string) list) option" where
  "read_cef s =
     (case read_fields 7 s of
        None \<Rightarrow> None
      | Some (fs, r) \<Rightarrow> map_option (Pair fs) (read_extensions r))"

section \<open>Escapes\<close>

lemma replace_char_simps [simp]:
  "replace_char c t [] = []"
  "replace_char c t (x # s) = (if x = c then t else [x]) @ replace_char c t s"
  "replace_char c t (s @ s') = replace_char c t s @ replace_char c t s'"
  by (simp_all add: replace_char_def)

definition ext_char :: "char \<Rightarrow> string" where
  "ext_char c =
     (if c = BSLASH then [BSLASH, BSLASH] else if c = CHR ''='' then [BSLASH, CHR ''='']
      else if c = CR then [BSLASH, CHR ''r''] else if c = LF then [BSLASH, CHR ''n''] else [c])"

definition header_char :: "char \<Rightarrow> string" where
  "header_char c =
     (if c = BSLASH then [BSLASH, BSLASH] else if c = CHR ''|'' then [BSLASH, CHR ''|''] else [c])"

text \<open>The successive replacements are one pass over the characters.\<close>

lemma escape_cef_extension_eq: "escape_cef_extension s = concat (map ext_char s)"
  by (induction s) (simp_all add: escape_cef_extension_def ext_char_def)

lemma escape_cef_header_eq: "escape_cef_header s = concat (map header_char s)"
  by (induction s) (simp_all add: escape_cef_header_def header_char_def)

lemma unescape_Cons: "c \<noteq> BSLASH \<Longrightarrow> unescape (c # s) = c # unescape s"
  by (cases s) simp_all

lemma unescape_ext: "unescape (concat (map ext_char s)) = s"
  by (induction s) (simp_all add: ext_char_def unescape_Cons)

lemma unescape_header: "unescape (concat (map header_char s)) = s"
  by (induction s) (simp_all add: header_char_def unescape_Cons)

definition cons_fst :: "string \<Rightarrow> (string \<times> string) option \<Rightarrow> (string \<times> string) option" where
  "cons_fst p r = map_option (\<lambda>(a, b). (p @ a, b)) r"

lemma cons_fst_simps [simp]:
  "cons_fst p (cons_fst p' r) = cons_fst (p @ p') r" "cons_fst [] r = r" "cons_fst p None = None"
  "cons_fst p (Some (a, b)) = Some (p @ a, b)"
  by (cases r; auto simp: cons_fst_def)+

lemma map_cons_fst:
  "map_option (\<lambda>(a, b). (c # a, b)) r = cons_fst [c] r" "map_option (\<lambda>(a, b). (c # e # a, b)) r = cons_fst [c, e] r"
  by (simp_all add: cons_fst_def)

lemma cut_ext_char: "cut_at CHR ''='' (ext_char c @ t) = cons_fst (ext_char c) (cut_at CHR ''='' t)"
  by (simp add: ext_char_def map_cons_fst)

lemma cut_header_char: "cut_at CHR ''|'' (header_char c @ t) = cons_fst (header_char c) (cut_at CHR ''|'' t)"
  by (simp add: header_char_def map_cons_fst)

lemma cut_ext: "cut_at CHR ''='' (concat (map ext_char s) @ t) = cons_fst (concat (map ext_char s)) (cut_at CHR ''='' t)"
  by (induction s) (simp_all add: cut_ext_char)

lemma cut_header:
  "cut_at CHR ''|'' (concat (map header_char s) @ t) = cons_fst (concat (map header_char s)) (cut_at CHR ''|'' t)"
  by (induction s) (simp_all add: cut_header_char)

lemma cut_plain: "BSLASH \<notin> set k \<Longrightarrow> d \<notin> set k \<Longrightarrow> cut_at d (k @ d # t) = Some (k, t)"
  by (induction k) auto

section \<open>The extensions\<close>

definition key_char :: "char \<Rightarrow> bool" where
  "key_char c = (is_ascii_alphanumeric c \<or> c = CHR ''_'')"

lemma cef_key_chars: "c \<in> set (cef_extension_key k) \<Longrightarrow> key_char c"
  by (auto simp: cef_extension_key_def key_char_def split: if_splits)

lemma key_char_not: "\<not> key_char CHR ''='' \<and> \<not> key_char CHR '' '' \<and> \<not> key_char BSLASH \<and> \<not> key_char CR \<and> \<not> key_char LF"
  by (simp add: key_char_def string_defs)

definition keys_clean :: "(string \<times> 'v) list \<Rightarrow> bool" where
  "keys_clean xs = (\<forall>k\<in>fst ` set xs. \<forall>c\<in>set k. key_char c)"

lemma fst_bt_insert: "fst ` set (bt_insert k v xs) = insert k (fst ` set xs)"
  by (induction k v xs rule: bt_insert.induct) auto

lemma keys_clean_insert: "keys_clean xs \<Longrightarrow> \<forall>c\<in>set k. key_char c \<Longrightarrow> keys_clean (bt_insert k v xs)"
  by (auto simp: keys_clean_def fst_bt_insert)

lemma keys_clean_or_insert:
  "keys_clean xs \<Longrightarrow> \<forall>c\<in>set k. key_char c \<Longrightarrow> keys_clean (or_insert_from J k n v xs)"
  by (auto simp: or_insert_from_def bt_or_insert_def keys_clean_insert split: option.splits)

lemma keys_clean_fold:
  "keys_clean ext \<Longrightarrow> keys_clean (fold (\<lambda>(k, v). bt_insert (cef_extension_key (g k)) (f v)) xs ext)"
  by (induction xs arbitrary: ext) (auto intro!: keys_clean_insert cef_key_chars)

lemma literal_keys:
  "\<forall>c\<in>set ''peer''. key_char c" "\<forall>c\<in>set ''src''. key_char c" "\<forall>c\<in>set ''reason''. key_char c"
  by (simp_all add: key_char_def string_defs)

lemma cef_extensions_clean: "keys_clean (cef_extensions J v)"
proof (cases v)
  case (VObject fs)
  define ext where "ext = or_insert_from J ''peer'' ''peer_id'' v
    (fold (\<lambda>(k, v). bt_insert (cef_extension_key (if k = ''ip'' then ''src'' else k)) (json_value_text J v)) (object_entries fs) [])"
  have ext: "keys_clean ext"
    unfolding ext_def by (intro keys_clean_or_insert keys_clean_fold literal_keys) (simp add: keys_clean_def)
  have eq: "cef_extensions J v = (case Option.bind (get_str ''info'' v) (ll_parse J) of
      Some (VObject gs) \<Rightarrow> or_insert_from J ''reason'' ''reason'' (VObject gs)
        (or_insert_from J ''peer'' ''id'' (VObject gs) (or_insert_from J ''src'' ''ip'' (VObject gs) ext))
    | _ \<Rightarrow> ext)"
    by (simp only: VObject ext_def cef_extensions.simps Let_def)
  have "keys_clean (or_insert_from J ''reason'' ''reason'' (VObject gs)
      (or_insert_from J ''peer'' ''id'' (VObject gs) (or_insert_from J ''src'' ''ip'' (VObject gs) ext)))" for gs
    by (intro ext keys_clean_or_insert literal_keys)
  with ext show ?thesis unfolding eq by (simp split: option.split Value.split)
qed (simp_all add: keys_clean_def)

text \<open>An extension as it is printed.\<close>

definition print_pair :: "string \<times> string \<Rightarrow> string" where
  "print_pair kx = fst kx @ CHR ''='' # concat (map ext_char (snd kx))"

lemma read_pairs_mono: "read_pairs n k s = Some r \<Longrightarrow> n \<le> m \<Longrightarrow> read_pairs m k s = Some r"
proof (induction n k s arbitrary: m r rule: read_pairs.induct)
  case (2 n key s)
  then obtain m' where m: "m = Suc m'" "n \<le> m'" by (cases m) auto
  show ?case
  proof (cases "cut_at CHR ''='' s")
    case None
    with 2 show ?thesis by (simp add: m)
  next
    case (Some ab)
    obtain a b where ab: "ab = (a, b)" by (cases ab)
    obtain v k' where v: "rsplit_once (\<lambda>c. c = CHR '' '') a = Some (v, k')"
      using 2 Some ab by (auto split: option.splits)
    obtain r' where r': "read_pairs n k' b = Some r'" "r = (key, unescape v) # r'"
      using 2(2) Some ab v by auto
    have "read_pairs m' k' b = Some r'" using 2(1) [OF Some ab [symmetric] v refl r'(1) m(2)] .
    then show ?thesis by (simp add: m Some ab v r')
  qed
qed simp

lemma rsplit_once_key: "\<forall>c\<in>set k. \<not> P c \<Longrightarrow> P x \<Longrightarrow> rsplit_once P (a @ x # k) = Some (a, k)"
proof (induction a)
  case Nil
  have "rsplit_once P k = None" if "\<forall>c\<in>set k. \<not> P c" for k using that by (induction k) auto
  with Nil show ?case by simp
qed simp

lemma join_Cons: "join sep (s # ss) = (if ss = [] then s else s @ sep @ join sep ss)"
  by (cases ss) simp_all

lemma clean_key:
  "\<forall>c\<in>set k. key_char c \<Longrightarrow> BSLASH \<notin> set k \<and> CHR ''='' \<notin> set k \<and> CHR '' '' \<notin> set k"
  using key_char_not by blast

lemma cut_ext_none: "cut_at CHR ''='' (concat (map ext_char s)) = None"
  using cut_ext [of s "[]"] by simp

lemma read_pairs_print:
  assumes "keys_clean ((k, x) # xs)"
  shows "read_pairs (Suc (length xs)) k (concat (map ext_char x) @ concat (map (\<lambda>p. CHR '' '' # print_pair p) xs))
    = Some ((k, x) # xs)"
  using assms
proof (induction xs arbitrary: k x)
  case Nil
  then show ?case by (simp add: cut_ext_none unescape_ext)
next
  case (Cons kx xs)
  obtain k' x' where kx: "kx = (k', x')" by (cases kx)
  define rest where "rest = concat (map ext_char x') @ concat (map (\<lambda>p. CHR '' '' # print_pair p) xs)"
  from Cons.prems have clean: "\<forall>c\<in>set k'. key_char c" "keys_clean ((k', x') # xs)"
    by (auto simp: keys_clean_def kx)
  have "cut_at CHR ''='' (concat (map ext_char x) @ (CHR '' '' # k') @ CHR ''='' # rest)
      = Some (concat (map ext_char x) @ CHR '' '' # k', rest)"
    unfolding cut_ext using clean_key [OF clean(1)] by (subst cut_plain) auto
  moreover have "rsplit_once (\<lambda>c. c = CHR '' '') (concat (map ext_char x) @ CHR '' '' # k')
      = Some (concat (map ext_char x), k')"
    using clean_key [OF clean(1)] by (intro rsplit_once_key) auto
  ultimately show ?case using Cons.IH [OF clean(2)]
    by (simp add: kx print_pair_def rest_def unescape_ext)
qed

lemma join_print: "join '' '' (map print_pair (p # ps)) = print_pair p @ concat (map (\<lambda>p. CHR '' '' # print_pair p) ps)"
  by (induction ps arbitrary: p) (simp_all add: join_Cons)

lemma read_extensions_print:
  assumes "keys_clean xs" shows "read_extensions (join '' '' (map print_pair xs)) = Some xs"
proof (cases xs)
  case Nil
  then show ?thesis by (simp add: read_extensions_def)
next
  case (Cons kx ys)
  obtain k x where kx: "kx = (k, x)" by (cases kx)
  define t where "t = concat (map ext_char x) @ concat (map (\<lambda>p. CHR '' '' # print_pair p) ys)"
  have text_eq: "join '' '' (map print_pair xs) = k @ CHR ''='' # t"
    unfolding Cons join_print by (simp add: t_def kx print_pair_def)
  have clean: "\<forall>c\<in>set k. key_char c" using assms by (auto simp: keys_clean_def Cons kx)
  have "length ys \<le> length (concat (map (\<lambda>p. CHR '' '' # print_pair p) ys))"
    by (induction ys) auto
  then have len: "Suc (length ys) \<le> length (k @ CHR ''='' # t)" by (simp add: t_def)
  have "read_pairs (length (k @ CHR ''='' # t)) k t = Some xs"
    using read_pairs_mono [OF read_pairs_print [of k x ys] len] assms by (simp add: Cons kx t_def)
  moreover have "cut_at CHR ''='' (k @ CHR ''='' # t) = Some (k, t)"
    using clean_key [OF clean] by (intro cut_plain) auto
  ultimately show ?thesis by (simp only: text_eq read_extensions_def) simp
qed

definition print_fields :: "string list \<Rightarrow> string" where
  "print_fields fs = concat (map (\<lambda>f. concat (map header_char f) @ ''|'') fs)"

lemma read_fields_print: "read_fields (length fs) (print_fields fs @ r) = Some (fs, r)"
  by (induction fs) (simp_all add: print_fields_def cut_header unescape_header)

lemma header_plain: "BSLASH \<notin> set s \<Longrightarrow> CHR ''|'' \<notin> set s \<Longrightarrow> concat (map header_char s) = s"
  by (induction s) (auto simp: header_char_def)

lemma show_nat_plain: "BSLASH \<notin> set (show_nat n) \<and> CHR ''|'' \<notin> set (show_nat n)"
  using show_nat_digits [of n] by (auto simp: is_ascii_digit_def)

lemma format_cef_eq:
  "format_cef J H ev v =
     print_fields [''CEF:0'', ''Clanto Services'', EVENT_SOURCE, hi_version H, show_nat (ev_id ev), ev_name ev,
       show_nat (ev_cef_severity ev)]
     @ join '' '' (map print_pair (cef_extensions J v))"
proof -
  have "concat (map header_char ''CEF:0'') = ''CEF:0''" by (simp add: header_char_def)
  moreover have "(\<lambda>(k, x). k @ ''='' @ escape_cef_extension x) = print_pair"
    by (auto simp: print_pair_def escape_cef_extension_eq)
  ultimately show ?thesis
    by (simp add: print_fields_def format_cef_def escape_cef_header_eq header_plain show_nat_plain)
qed

text \<open>C23: A CEF record reads back as it was built: a reader that splits the header at the unescaped bars and
  the extensions at the unescaped equals signs finds the product, the event's identifier, name and severity,
  and exactly the list of keys and values of the event, whatever the values contain. No text of a peer can
  close a field, open another one or change the header.\<close>

theorem cef_read_back:
  "read_cef (format_cef J H ev v) =
     Some ([''CEF:0'', ''Clanto Services'', EVENT_SOURCE, hi_version H, show_nat (ev_id ev), ev_name ev,
            show_nat (ev_cef_severity ev)], cef_extensions J v)"
proof -
  define fs where "fs = [''CEF:0'', ''Clanto Services'', EVENT_SOURCE, hi_version H, show_nat (ev_id ev), ev_name ev,
    show_nat (ev_cef_severity ev)]"
  have "length fs = 7" by (simp add: fs_def)
  then have "read_fields 7 (format_cef J H ev v) = Some (fs, join '' '' (map print_pair (cef_extensions J v)))"
    unfolding format_cef_eq fs_def [symmetric] using read_fields_print [of fs] by simp
  then show ?thesis
    by (simp add: read_cef_def read_extensions_print cef_extensions_clean fs_def)
qed

section \<open>One line per record\<close>

definition one_line :: "string \<Rightarrow> bool" where
  "one_line s = (CR \<notin> set s \<and> LF \<notin> set s)"

lemma one_line_simps [simp]:
  "one_line []" "one_line (c # s) \<longleftrightarrow> c \<noteq> CR \<and> c \<noteq> LF \<and> one_line s" "one_line (s @ t) \<longleftrightarrow> one_line s \<and> one_line t"
  by (auto simp: one_line_def)

lemma one_line_concat: "(\<And>s. s \<in> set ss \<Longrightarrow> one_line s) \<Longrightarrow> one_line (concat ss)"
  by (auto simp: one_line_def)

lemma one_line_print: "\<forall>c\<in>set (fst p). key_char c \<Longrightarrow> one_line (print_pair p)"
  using key_char_not by (auto simp: print_pair_def one_line_def ext_char_def split: if_splits)

lemma one_line_join: "\<forall>p\<in>set ps. one_line (print_pair p) \<Longrightarrow> one_line (join '' '' (map print_pair ps))"
  by (induction ps) (auto simp: join_Cons)

lemma one_line_show [simp]: "one_line (show_nat n)"
  using show_nat_digits [of n] by (auto simp: is_ascii_digit_def one_line_def)

lemma one_line_header: "one_line s \<Longrightarrow> one_line (concat (map header_char s))"
  by (induction s) (auto simp: header_char_def)

lemma event_names_one_line: "\<forall>d\<in>set EVENTS. one_line (ev_name d)"
  by (simp add: EVENTS_def event_row_def)

lemma event_definition_in: "event_definition kind v \<in> set EVENTS"
proof -
  have "find P xs = Some d \<Longrightarrow> d \<in> set xs" for P and xs :: "EventDefinition list" and d
    by (induction xs) (auto split: if_splits)
  moreover have "EVENTS ! (length EVENTS - 1) \<in> set EVENTS" by (rule nth_mem) (simp add: EVENTS_def)
  ultimately show ?thesis by (auto simp: event_definition_def split: option.split)
qed

lemma format_cef_one_line: "one_line (hi_version H) \<Longrightarrow> one_line (format_cef J H (event_definition kind v) w)"
proof -
  assume "one_line (hi_version H)"
  moreover have "one_line (ev_name (event_definition kind v))"
    using event_names_one_line event_definition_in by blast
  moreover have "one_line (join '' '' (map print_pair (cef_extensions J w)))"
    using cef_extensions_clean [of J w] by (intro one_line_join) (force simp: keys_clean_def intro!: one_line_print)
  ultimately show ?thesis by (simp add: format_cef_eq print_fields_def one_line_header EVENT_SOURCE_def header_char_def)
qed

section \<open>Events and priorities\<close>

lemma events_distinct: "distinct (map ev_id EVENTS)" "distinct (map ev_key EVENTS)"
  by (simp_all add: EVENTS_def event_row_def)

lemma event_keys: "map ev_key EVENTS =
     [ConnectionOpened, SessionOpened, ConnectionClosed, SessionCompleted, ControllerIdentityReceived,
      FileRemoteSend, FileRemoteReceive, AlarmIpWhitelist, AlarmExceedThirtyAttempts,
      AlarmSixAttemptsWithinOneMinute, AlarmExceedIpv6PrefixAttempts, AlarmTerminalOsLoginBackoff,
      AlarmTerminalOsLoginConcurrency, AlarmSessionScopeViolation, AlarmIdWhitelist,
      AlarmPostureRejected, AlarmPasswordWrong, AlarmTwoFactorWrong, PosturePassed, PostureBypass,
      TemporaryPasswordRotated, FileMalwareDetected, FileUnscannable, FileDirectionBlocked,
      FileExtensionBlocked, FileScannedClean, BinarySignatureInvalid, ForwardOpened, ForwardDenied,
      ForwardListenOpened, ForwardListenDenied, ForwardCameraOpened, ForwardCameraDenied,
      ForwardCameraClosed, Unknown]"
  by (simp add: EVENTS_def event_row_def)

lemma events_complete: "k \<in> ev_key ` set EVENTS"
  unfolding set_map [symmetric] event_keys by (cases k) simp_all

lemma event_definition_key: "ev_key (event_definition kind v) = event_key kind v"
proof -
  obtain d where "d \<in> set EVENTS" "ev_key d = event_key kind v" using events_complete [of "event_key kind v"] by auto
  then have "find (\<lambda>d. ev_key d = event_key kind v) EVENTS \<noteq> None" by (auto simp: find_None_iff)
  then obtain e where "find (\<lambda>d. ev_key d = event_key kind v) EVENTS = Some e" by blast
  moreover then have "ev_key e = event_key kind v" by (auto simp: find_Some_iff)
  ultimately show ?thesis by (simp add: event_definition_def)
qed

text \<open>The identifier that goes to the SIEM and the event are the same thing: two audit events have the same
  number exactly when they are of the same kind of event, and the priority of the syslog header is within
  RFC 5424's 0 to 191 with every setting of the facility option, so that it splits back into the facility
  and the severity of the event.\<close>

theorem event_identity:
  "(ev_id (event_definition a v) = ev_id (event_definition b w) \<longleftrightarrow> event_key a v = event_key b w)
   \<and> pri_value (dc_facility (delivery_config opt)) (event_definition a v) \<le> 191
   \<and> pri_value (dc_facility (delivery_config opt)) (event_definition a v) div 8 = dc_facility (delivery_config opt)
   \<and> pri_value (dc_facility (delivery_config opt)) (event_definition a v) mod 8
     = ev_syslog_severity (event_definition a v)"
proof -
  have "inj_on ev_id (set EVENTS)" "inj_on ev_key (set EVENTS)"
    using events_distinct by (simp_all add: distinct_map)
  then have "(ev_id (event_definition a v) = ev_id (event_definition b w)) \<longleftrightarrow>
      (ev_key (event_definition a v) = ev_key (event_definition b w))"
    using event_definition_in by (metis inj_on_eq_iff)
  moreover have "\<forall>d\<in>set EVENTS. ev_syslog_severity d \<le> 7" by (simp add: EVENTS_def event_row_def)
  then have "ev_syslog_severity (event_definition a v) \<le> 7" using event_definition_in by blast
  moreover have "dc_facility (delivery_config opt) \<le> 23"
    by (simp add: delivery_config_def Let_def DEFAULT_FACILITY_def split: option.split)
  ultimately show ?thesis by (simp add: event_definition_key pri_value_def)
qed

section \<open>The stream\<close>

text \<open>A reader of octet-counting frames: the number up to the space, then so many bytes.\<close>

function read_frames :: "nat list \<Rightarrow> nat list list option" where
  "read_frames bs =
     (if bs = [] then Some []
      else case dropWhile (\<lambda>b. b \<noteq> 32) bs of
        [] \<Rightarrow> None
      | _ # body \<Rightarrow>
          (case parse_uint (length bs) (map char_of (takeWhile (\<lambda>b. b \<noteq> 32) bs)) of
             None \<Rightarrow> None
           | Some n \<Rightarrow> if length body < n then None
               else map_option (Cons (take n body)) (read_frames (drop n body))))"
  by pat_completeness auto
termination
proof (relation "measure length", simp, clarsimp)
  fix bs body :: "nat list" and x n
  assume "dropWhile (\<lambda>b. b \<noteq> 32) bs = x # body"
  then have "length (x # body) \<le> length bs" by (metis length_dropWhile_le)
  then show "length body - n < length bs" by simp
qed

declare read_frames.simps [simp del]

lemma utf8_bytes_ascii: "(of_char c :: nat) < 128 \<Longrightarrow> utf8_bytes c = [of_char c]"
  by (simp add: utf8_bytes_def)

lemma as_bytes_digits: "set s \<subseteq> {c. is_ascii_digit c} \<Longrightarrow> as_bytes s = map of_char s"
  by (induction s) (auto simp: utf8_bytes_def is_ascii_digit_def Let_def)

lemma digits_no_space: "set s \<subseteq> {c. is_ascii_digit c} \<Longrightarrow> \<forall>b\<in>set (map of_char s). b \<noteq> (32 :: nat)"
  by (auto simp: is_ascii_digit_def Let_def)

lemma read_frames_step: "read_frames (octet_counting_frame m @ bs) = map_option (Cons (as_bytes m)) (read_frames bs)"
proof -
  define ds where "ds = map (of_char :: char \<Rightarrow> nat) (show_nat (length (as_bytes m)))"
  have frame: "octet_counting_frame m = ds @ 32 # as_bytes m"
    by (simp add: octet_counting_frame_def ds_def as_bytes_digits show_nat_digits utf8_bytes_ascii)
  have nosp: "\<forall>b\<in>set ds. b \<noteq> 32" unfolding ds_def by (rule digits_no_space) (rule show_nat_digits)
  then have tw: "takeWhile (\<lambda>b. b \<noteq> 32) (ds @ 32 # as_bytes m @ bs) = ds"
    and dw: "dropWhile (\<lambda>b. b \<noteq> 32) (ds @ 32 # as_bytes m @ bs) = 32 # as_bytes m @ bs"
    by (simp_all add: takeWhile_append2 dropWhile_append2)
  have ch: "map char_of ds = show_nat (length (as_bytes m))" by (simp add: ds_def comp_def)
  have "parse_uint (length (ds @ 32 # as_bytes m @ bs)) (map char_of ds) = Some (length (as_bytes m))"
    unfolding ch by (rule parse_show) simp
  then show ?thesis by (subst read_frames.simps) (simp add: frame tw dw)
qed

text \<open>C36: Octet counting delimits the records of a stream: the bytes that the worker has written on a connection
  are read back as exactly the messages it sent, in order, whatever bytes the messages contain.\<close>

theorem frames_read_back: "read_frames (concat (map octet_counting_frame ms)) = Some (map as_bytes ms)"
proof (induction ms)
  case Nil
  then show ?case by (simp add: read_frames.simps)
next
  case (Cons m ms)
  then show ?case by (simp add: read_frames_step)
qed

end
