(* ===== verification/Audit_Delivery.thy ===== *)
theory Audit_Delivery
  imports Audit_Sink
begin

text \<open>
  The queue and the worker of \<open>Audit_Sink\<close> running together: events are pushed by any thread while the
  worker holds a copy of the oldest record. The run keeps, beside the program's state, how many events
  were pushed, which records were delivered with which report of lost records, and which were given up.
\<close>

section \<open>Runs\<close>

record Run =
  rn_queue :: AuditQueue
  rn_worker :: Worker
  rn_flight :: "(PendingRecord \<times> nat) option"
  rn_pushed :: nat
  rn_delivered :: "(nat \<times> nat) list"
  rn_given_up :: "nat list"

definition run_new :: "nat \<Rightarrow> Run" where
  "run_new cap =
     \<lparr>rn_queue = queue_new cap, rn_worker = worker_new, rn_flight = None, rn_pushed = 0,
      rn_delivered = [], rn_given_up = []\<rparr>"

text \<open>The end of a turn. A record given up after its eviction is one of the lost ones.\<close>

definition end_turn :: "PendingRecord \<Rightarrow> nat \<Rightarrow> Outcome \<Rightarrow> AuditQueue \<Rightarrow> Worker \<Rightarrow> Run \<Rightarrow> Run" where
  "end_turn r lost out q w R =
     R\<lparr>rn_queue := q, rn_worker := w, rn_flight := None,
       rn_delivered := rn_delivered R @ (if out = Delivered then [(pr_sequence r, lost)] else []),
       rn_given_up := rn_given_up R
         @ (if out = Given_Up \<and> is_front (pr_sequence r) (rn_queue R) then [pr_sequence r] else [])\<rparr>"

inductive sink_run :: "LogLib \<Rightarrow> nat \<Rightarrow> Run \<Rightarrow> bool" for J cap where
  run_start: "sink_run J cap (run_new cap)"
| run_push: "sink_run J cap R \<Longrightarrow>
    sink_run J cap (R\<lparr>rn_queue := push ev v (rn_queue R), rn_pushed := Suc (rn_pushed R)\<rparr>)"
| run_next: "sink_run J cap R \<Longrightarrow> rn_flight R = None \<Longrightarrow> front (rn_queue R) = Some x \<Longrightarrow>
    sink_run J cap (R\<lparr>rn_flight := Some x\<rparr>)"
| run_turn: "sink_run J cap R \<Longrightarrow> rn_flight R = Some (r, lost) \<Longrightarrow>
    worker_turn J H I opt r lost (rn_queue R) (rn_worker R) = (out, q, w, written) \<Longrightarrow>
    sink_run J cap (end_turn r lost out q w R)"

section \<open>The invariant\<close>

text \<open>The number of records that have left the queue.\<close>

definition gone :: "Run \<Rightarrow> nat" where
  "gone R = rn_pushed R - length (aq_records (rn_queue R))"

definition settled :: "Run \<Rightarrow> nat list" where
  "settled R = map fst (rn_delivered R) @ rn_given_up R"

definition reported :: "Run \<Rightarrow> nat" where
  "reported R = sum_list (map snd (rn_delivered R))"

definition queue_ok :: "Run \<Rightarrow> bool" where
  "queue_ok R =
     (let q = rn_queue R in
      0 < aq_capacity q \<and> length (aq_records q) \<le> aq_capacity q \<and> aq_next_sequence q = rn_pushed R
      \<and> length (aq_records q) \<le> rn_pushed R
      \<and> map pr_sequence (aq_records q) = [gone R ..< rn_pushed R])"

definition ledger_ok :: "Run \<Rightarrow> bool" where
  "ledger_ok R =
     (reported R + aq_lost (rn_queue R) + length (settled R) = gone R
      \<and> distinct (settled R) \<and> sorted_wrt (<) (map fst (rn_delivered R)))"

definition flight_ok :: "Run \<Rightarrow> bool" where
  "flight_ok R =
     (case rn_flight R of
        None \<Rightarrow> \<forall>s\<in>set (settled R). s < gone R
      | Some (r, lost) \<Rightarrow>
          aq_records (rn_queue R) \<noteq> [] \<and> pr_sequence r \<le> gone R
          \<and> (\<forall>s\<in>set (settled R). s < pr_sequence r)
          \<and> aq_lost (rn_queue R) = lost + (gone R - pr_sequence r))"

definition run_ok :: "Run \<Rightarrow> bool" where
  "run_ok R = (queue_ok R \<and> ledger_ok R \<and> flight_ok R)"

lemmas run_ok_defs = run_ok_def queue_ok_def ledger_ok_def flight_ok_def gone_def settled_def reported_def

lemma upt_Cons_hd: "x # xs = [a ..< b] \<Longrightarrow> x = a"
  by (cases "a < b") (auto simp: upt_conv_Cons)

lemma run_ok_new: "run_ok (run_new cap)"
  by (simp add: run_ok_defs run_new_def queue_new_def)

lemma settled_simps [simp]:
  "settled (R\<lparr>rn_queue := q\<rparr>) = settled R" "settled (R\<lparr>rn_pushed := n\<rparr>) = settled R" "settled (R\<lparr>rn_flight := f\<rparr>) = settled R"
  "reported (R\<lparr>rn_queue := q\<rparr>) = reported R" "reported (R\<lparr>rn_pushed := n\<rparr>) = reported R" "reported (R\<lparr>rn_flight := f\<rparr>) = reported R"
  by (simp_all add: settled_def reported_def)

text \<open>A push takes the next number; in a full queue the oldest record makes room and is counted.\<close>

lemma run_ok_push:
  assumes "run_ok R" "rn_pushed R < u64_max"
  shows "run_ok (R\<lparr>rn_queue := push ev v (rn_queue R), rn_pushed := Suc (rn_pushed R)\<rparr>)" (is "run_ok ?R")
proof -
  define R' where "R' = ?R"
  have R': "rn_queue R' = push ev v (rn_queue R)" "rn_pushed R' = Suc (rn_pushed R)" "rn_flight R' = rn_flight R"
    "rn_delivered R' = rn_delivered R" "settled R' = settled R" "reported R' = reported R"
    by (simp_all add: R'_def)
  define q where "q = rn_queue R"
  define L where "L = length (aq_records q)"
  define full where "full = (L = aq_capacity q)"
  have q: "0 < aq_capacity q" "L \<le> aq_capacity q" "aq_next_sequence q = rn_pushed R" "L \<le> rn_pushed R"
      "map pr_sequence (aq_records q) = [gone R ..< rn_pushed R]"
    using assms(1) by (simp_all add: run_ok_def queue_ok_def q_def L_def Let_def)
  have lost: "aq_lost q \<le> gone R" using assms(1) by (simp add: run_ok_def ledger_ok_def q_def)
  have g: "gone R = rn_pushed R - L" by (simp add: gone_def L_def q_def)
  have lost': "aq_lost (push ev v q) = aq_lost q + (if full then 1 else 0)"
    using lost assms(2) by (simp add: push_def Let_def full_def L_def sat_add_def g)
  have len': "length (aq_records (push ev v q)) = (if full then L else Suc L)"
    using q(1) by (auto simp: push_def Let_def full_def L_def)
  have gone': "gone R' = gone R + (if full then 1 else 0)"
    using len' q(4) g by (simp add: gone_def q_def R')
  have "map pr_sequence (aq_records (push ev v q)) = map pr_sequence (if full then tl (aq_records q) else aq_records q) @ [rn_pushed R]"
    by (simp add: push_def Let_def full_def L_def q(3))
  also have "\<dots> = [gone R' ..< Suc (rn_pushed R)]"
    using q g by (auto simp: gone' map_tl full_def upt_conv_Cons Suc_diff_le)
  finally have seqs: "map pr_sequence (aq_records (push ev v q)) = [gone R' ..< Suc (rn_pushed R)]" .
  have "queue_ok R'"
    using q len' seqs assms(2)
    by (simp add: queue_ok_def Let_def R' q_def [symmetric] full_def) (simp add: push_def Let_def q(3))
  moreover have "ledger_ok R'"
    using assms(1) by (simp add: run_ok_def ledger_ok_def gone' lost' R' q_def [symmetric])
  moreover have "flight_ok R'"
    using assms(1) len' q(1) full_def by (auto simp: L_def run_ok_def flight_ok_def gone' lost' R' q_def [symmetric] split: option.splits)
  ultimately show ?thesis by (simp add: run_ok_def R'_def)
qed

lemma run_ok_next:
  assumes "run_ok R" "rn_flight R = None" "front (rn_queue R) = Some x"
  shows "run_ok (R\<lparr>rn_flight := Some x\<rparr>)"
proof -
  from assms(3) obtain r rs where r: "aq_records (rn_queue R) = r # rs" "x = (r, aq_lost (rn_queue R))"
    by (auto simp: front_def split: list.splits)
  have "map pr_sequence (r # rs) = [gone R ..< rn_pushed R]" "length (r # rs) \<le> rn_pushed R"
    using assms(1) by (simp_all add: run_ok_def queue_ok_def Let_def r(1))
  then have "pr_sequence r = gone R" using upt_Cons_hd by simp
  then show ?thesis using assms(1, 2)
    by (simp add: run_ok_def queue_ok_def ledger_ok_def flight_ok_def r gone_def Let_def)
qed

lemma is_front_flight:
  assumes "run_ok R" "rn_flight R = Some (r, lost)"
  shows "is_front (pr_sequence r) (rn_queue R) \<longleftrightarrow> pr_sequence r = gone R"
proof -
  obtain r' rs where r: "aq_records (rn_queue R) = r' # rs"
    using assms by (cases "aq_records (rn_queue R)") (auto simp: run_ok_def flight_ok_def)
  have "map pr_sequence (r' # rs) = [gone R ..< rn_pushed R]"
    using assms(1) by (simp add: run_ok_def queue_ok_def Let_def r(1))
  then have "pr_sequence r' = gone R" using upt_Cons_hd by simp
  then show ?thesis by (auto simp: is_front_def r)
qed

text \<open>What a turn does to the queue depends on the outcome alone.\<close>

definition settle :: "PendingRecord \<Rightarrow> nat \<Rightarrow> Outcome \<Rightarrow> AuditQueue \<Rightarrow> AuditQueue" where
  "settle r lost out q =
     (case out of
        Delivered \<Rightarrow> finish (pr_sequence r) lost True q
      | Given_Up \<Rightarrow> finish (pr_sequence r) lost False q
      | Kept \<Rightarrow> q)"

lemma worker_turn_queue:
  "worker_turn J H I opt r lost q w = (out, q', w', written) \<Longrightarrow> q' = settle r lost out q"
  by (auto simp: worker_turn_def settle_def Let_def split: option.splits if_splits prod.splits result.splits DeliveryError.splits)

lemma finish_simps:
  "aq_records (finish s l d q) = (if is_front s q then tl (aq_records q) else aq_records q)"
  "aq_capacity (finish s l d q) = aq_capacity q" "aq_next_sequence (finish s l d q) = aq_next_sequence q"
  "aq_lost (finish s l d q) = (if d then aq_lost q - min (l + (if is_front s q then 0 else 1)) u64_max else aq_lost q)"
  by (simp_all add: finish_def Let_def sat_sub_def sat_add_def)

lemma settle_simps:
  "aq_records (settle r l out q) = (if out \<noteq> Kept \<and> is_front (pr_sequence r) q then tl (aq_records q) else aq_records q)"
  "aq_capacity (settle r l out q) = aq_capacity q" "aq_next_sequence (settle r l out q) = aq_next_sequence q"
  "aq_lost (settle r l out q) =
     (if out = Delivered then aq_lost q - min (l + (if is_front (pr_sequence r) q then 0 else 1)) u64_max else aq_lost q)"
  by (simp_all add: settle_def finish_simps split: Outcome.split)

lemma run_ok_turn:
  assumes "run_ok R" "rn_flight R = Some (r, lost)" "rn_pushed R \<le> u64_max"
  shows "run_ok (end_turn r lost out (settle r lost out (rn_queue R)) w R)" (is "run_ok ?R")
proof -
  define q where "q = rn_queue R"
  define s where "s = pr_sequence r"
  define popped where "popped = (out \<noteq> Kept \<and> s = gone R)"
  have fl: "aq_records q \<noteq> []" "s \<le> gone R" "\<forall>x\<in>set (settled R). x < s" "aq_lost q = lost + (gone R - s)"
    using assms(1, 2) by (simp_all add: run_ok_def flight_ok_def q_def s_def)
  have qu: "length (aq_records q) \<le> aq_capacity q" "0 < aq_capacity q" "aq_next_sequence q = rn_pushed R"
      "length (aq_records q) \<le> rn_pushed R" "map pr_sequence (aq_records q) = [gone R ..< rn_pushed R]"
    using assms(1) by (simp_all add: run_ok_def queue_ok_def q_def Let_def)
  have le: "reported R + aq_lost q + length (settled R) = gone R" "distinct (settled R)" "sorted_wrt (<) (map fst (rn_delivered R))"
    using assms(1) by (simp_all add: run_ok_def ledger_ok_def q_def)
  have fr: "is_front s q \<longleftrightarrow> s = gone R" using is_front_flight [OF assms(1, 2)] by (simp add: s_def q_def)
  define R' where "R' = ?R"
  have rn: "rn_queue R' = settle r lost out q" "rn_flight R' = None" "rn_pushed R' = rn_pushed R"
    "rn_delivered R' = rn_delivered R @ (if out = Delivered then [(s, lost)] else [])"
    "rn_given_up R' = rn_given_up R @ (if out = Given_Up \<and> s = gone R then [s] else [])"
    using fr by (simp_all add: R'_def end_turn_def q_def s_def)
  have records: "aq_records (settle r lost out q) = (if popped then tl (aq_records q) else aq_records q)"
    using fr by (simp add: settle_simps popped_def s_def)
  have gone_lt: "gone R < rn_pushed R" using fl(1) qu(4) by (cases "aq_records q") (simp_all add: gone_def q_def)
  have gone': "gone R' = gone R + (if popped then 1 else 0)"
    using fl(1) qu(4) by (cases "aq_records q") (auto simp: gone_def rn records q_def [symmetric])
  have lost': "aq_lost (settle r lost out q) = (if out = Delivered then gone R - s - (if s = gone R then 0 else 1) else aq_lost q)"
    using fl(2, 4) le(1) fr assms(3) gone_lt by (simp add: settle_simps s_def [symmetric])
  have "queue_ok R'"
    using qu gone_lt by (auto simp: queue_ok_def Let_def rn settle_simps(2, 3) gone' records map_tl upt_conv_Cons)
  moreover have "ledger_ok R'"
  proof -
    have "distinct (settled R')" using fl(3) le(2) by (auto simp: settled_def rn)
    moreover have "sorted_wrt (<) (map fst (rn_delivered R'))"
      using le(3) fl(3) by (auto simp: rn sorted_wrt_append settled_def)
    moreover have "reported R' + aq_lost (rn_queue R') + length (settled R') = gone R'"
      using le(1) fl(2, 4) lost' by (cases out) (auto simp: rn(1) gone' popped_def reported_def settled_def rn(4, 5))
    ultimately show ?thesis by (simp add: ledger_ok_def)
  qed
  moreover have "flight_ok R'"
    using fl(2, 3) by (auto simp: flight_ok_def rn(2) gone' settled_def rn(4, 5) popped_def dest: bspec)
  ultimately show ?thesis by (simp add: run_ok_def R'_def)
qed

lemma sink_run_ok: "sink_run J cap R \<Longrightarrow> rn_pushed R \<le> u64_max \<Longrightarrow> run_ok R \<and> aq_capacity (rn_queue R) = max cap 1"
proof (induction rule: sink_run.induct)
  case run_start
  show ?case by (simp add: run_ok_new) (simp add: run_new_def queue_new_def)
next
  case (run_push R ev v)
  then show ?case using run_ok_push [of R ev v] by (simp add: push_def Let_def)
next
  case (run_next R x)
  then show ?case using run_ok_next by simp
next
  case (run_turn R r lost H I opt out q w written)
  have "rn_pushed R \<le> u64_max" using run_turn.prems by (simp add: end_turn_def)
  with run_turn run_ok_turn [of R r lost out w] worker_turn_queue [OF run_turn.hyps(3)]
  show ?case by (simp add: end_turn_def settle_simps)
qed

text \<open>C7: Every audit record is accounted for. In every interleaving of pushes and deliveries, as long as fewer
  than \<open>2^64\<close> events were emitted: the queue holds the most recent records, in order and never more than its
  capacity; no record is delivered twice and deliveries are in the order of emission; and the losses already
  reported to the collector together with the counter still to be reported are exactly the records that
  left the queue without being delivered and without being given up by the worker, so that each eviction is
  reported once, a record evicted while its delivery was succeeding excepted.\<close>

theorem losses_accounted:
  assumes "sink_run J cap R" "rn_pushed R \<le> u64_max"
  shows "map pr_sequence (aq_records (rn_queue R)) = [rn_pushed R - length (aq_records (rn_queue R)) ..< rn_pushed R]
    \<and> length (aq_records (rn_queue R)) \<le> max cap 1
    \<and> sorted_wrt (<) (map fst (rn_delivered R))
    \<and> sum_list (map snd (rn_delivered R)) + aq_lost (rn_queue R)
      = card ({..<rn_pushed R} - pr_sequence ` set (aq_records (rn_queue R))
              - fst ` set (rn_delivered R) - set (rn_given_up R))"
proof -
  have ok: "run_ok R" "aq_capacity (rn_queue R) = max cap 1" using sink_run_ok assms by blast+
  have q: "map pr_sequence (aq_records (rn_queue R)) = [gone R ..< rn_pushed R]" "gone R \<le> rn_pushed R"
      "length (aq_records (rn_queue R)) \<le> aq_capacity (rn_queue R)"
    using ok(1) by (simp_all add: run_ok_def queue_ok_def Let_def gone_def)
  then have "pr_sequence ` set (aq_records (rn_queue R)) = {gone R ..< rn_pushed R}"
    by (metis set_map atLeastLessThan_upt)
  then have "{..<rn_pushed R} - pr_sequence ` set (aq_records (rn_queue R)) - fst ` set (rn_delivered R) - set (rn_given_up R)
      = {..<gone R} - set (settled R)"
    using q(2) by (auto simp: settled_def)
  moreover have "set (settled R) \<subseteq> {..<gone R}"
    using ok(1) by (fastforce simp: run_ok_def flight_ok_def split: option.splits)
  then have "card ({..<gone R} - set (settled R)) = gone R - length (settled R)"
    using ok(1) by (simp add: card_Diff_subset distinct_card run_ok_def ledger_ok_def)
  moreover have "reported R + aq_lost (rn_queue R) + length (settled R) = gone R"
      "sorted_wrt (<) (map fst (rn_delivered R))"
    using ok(1) by (simp_all add: run_ok_def ledger_ok_def)
  ultimately show ?thesis using q ok(2) by (simp add: reported_def gone_def)
qed

section \<open>The connection\<close>

definition stream_ok :: "ActiveConnection \<Rightarrow> bool" where
  "stream_ok a =
     ((ac_stream a = TlsStream \<longleftrightarrow> tk_protocol (ac_key a) = Tls)
      \<and> (ac_stream a = TlsStream \<longrightarrow> tk_tls_ca (ac_key a) \<noteq> []))"

definition worker_ok :: "Worker \<Rightarrow> bool" where
  "worker_ok w =
     ((\<forall>a. wk_connection w = Some a \<longrightarrow> stream_ok a) \<and> 1 \<le> wk_backoff w \<and> wk_backoff w \<le> MAX_BACKOFF)"

lemma map_err_Ok [simp]: "map_err f r = Ok x \<longleftrightarrow> r = Ok x"
  by (simp add: map_err_def split: result.split)

lemma connect_stream_Ok:
  "connect_stream I C (transport_key C) = Ok a \<Longrightarrow> stream_ok a \<and> ac_key a = transport_key C"
  by (auto simp: connect_stream_def connect_tls_def result_bind_eq_Ok stream_ok_def transport_key_def split: if_splits)

lemma send_stream_stream:
  assumes "send_stream I C m conn = (res, conn', written)" "\<forall>a. conn = Some a \<longrightarrow> stream_ok a"
  shows "(\<forall>a. conn' = Some a \<longrightarrow> stream_ok a)
    \<and> (\<forall>a f. written = Some (a, f) \<longrightarrow> stream_ok a \<and> ac_key a = transport_key C \<and> f = octet_counting_frame m)"
proof -
  define kept where "kept = (case conn of Some a \<Rightarrow> if ac_key a \<noteq> transport_key C then None else Some a | None \<Rightarrow> None)"
  define opened where "opened = (case kept of Some a \<Rightarrow> Ok a | None \<Rightarrow> connect_stream I C (transport_key C))"
  have "stream_ok a \<and> ac_key a = transport_key C" if "opened = Ok a" for a
    using that assms(2) connect_stream_Ok
    by (auto simp: opened_def kept_def split: option.splits if_splits)
  moreover have "(res, conn', written) = (case opened of Err e \<Rightarrow> (Err e, None, None)
      | Ok a \<Rightarrow> (map_err Retryable (io_write I (octet_counting_frame m)), Some a, Some (a, octet_counting_frame m)))"
    using assms(1) unfolding send_stream_def Let_def opened_def kept_def by (rule sym)
  ultimately show ?thesis by (cases opened) auto
qed

lemma retry_later_ok: "worker_ok w \<Longrightarrow> worker_ok (retry_later s q w)"
  by (auto simp: worker_ok_def retry_later_def MAX_BACKOFF_def)

lemma reset_ok: "worker_ok (w\<lparr>wk_connection := None, wk_backoff := 1\<rparr>)"
  "worker_ok (w\<lparr>wk_connection := None, wk_backoff := Suc 0\<rparr>)"
  by (simp_all add: worker_ok_def MAX_BACKOFF_def)

lemma worker_turn_stream:
  assumes "worker_turn J H I opt r lost q w = (out, q', w', written)" "worker_ok w"
  shows "worker_ok w' \<and> (\<forall>a f. written = Some (a, f) \<longrightarrow> stream_ok a \<and>
    (\<exists>C. active_config opt = Some C \<and> dc_protocol C \<noteq> Udp \<and> ac_key a = transport_key C
       \<and> f = octet_counting_frame (format_record J H (pr_event r) (pr_value r) C lost)))"
proof (cases "active_config opt")
  case None
  with assms show ?thesis by (auto simp: worker_turn_def reset_ok)
next
  case (Some C)
  define m where "m = format_record J H (pr_event r) (pr_value r) C lost"
  show ?thesis
  proof (cases "dc_protocol C = Udp")
    case True
    with Some assms show ?thesis by (auto simp: worker_turn_def Let_def reset_ok)
  next
    case False
    obtain res conn wr where s: "send_stream I C m (wk_connection w) = (res, conn, wr)"
      by (cases "send_stream I C m (wk_connection w)")
    have ok: "(\<forall>a. conn = Some a \<longrightarrow> stream_ok a)
      \<and> (\<forall>a f. wr = Some (a, f) \<longrightarrow> stream_ok a \<and> ac_key a = transport_key C \<and> f = octet_counting_frame m)"
      by (rule send_stream_stream [OF s]) (use assms(2) in \<open>simp add: worker_ok_def\<close>)
    then have "worker_ok (w\<lparr>wk_connection := conn, wk_backoff := 1\<rparr>)" by (simp add: worker_ok_def MAX_BACKOFF_def)
    have turn: "worker_turn J H I opt r lost q w =
      (if io_timeout I then (Kept, q, retry_later (pr_sequence r) q w, wr)
       else (case res of
         Ok _ \<Rightarrow> (Delivered, finish (pr_sequence r) lost True q, w\<lparr>wk_connection := conn, wk_backoff := 1\<rparr>, wr)
       | Err (Permanent _) \<Rightarrow>
           (Given_Up, finish (pr_sequence r) lost False q, w\<lparr>wk_connection := None, wk_backoff := 1\<rparr>, wr)
       | Err (Retryable _) \<Rightarrow> (Kept, q, retry_later (pr_sequence r) q w, wr)))"
      by (simp only: worker_turn_def Some option.case Let_def False if_False s [unfolded m_def] prod.case)
    have "(out, q', w', written) \<in> {(Kept, q, retry_later (pr_sequence r) q w, wr),
        (Delivered, finish (pr_sequence r) lost True q, w\<lparr>wk_connection := conn, wk_backoff := 1\<rparr>, wr),
        (Given_Up, finish (pr_sequence r) lost False q, w\<lparr>wk_connection := None, wk_backoff := 1\<rparr>, wr)}"
      unfolding assms(1) [symmetric] turn by (simp split: result.split DeliveryError.split)
    moreover note \<open>worker_ok (w\<lparr>wk_connection := conn, wk_backoff := 1\<rparr>)\<close>
    ultimately have "worker_ok w' \<and> written = wr" using reset_ok(1) retry_later_ok assms(2) by blast
    with ok Some False show ?thesis unfolding m_def by blast
  qed
qed

lemma sink_run_worker_ok: "sink_run J cap R \<Longrightarrow> worker_ok (rn_worker R)"
proof (induction rule: sink_run.induct)
  case run_start
  show ?case by (simp add: run_new_def worker_new_def worker_ok_def MAX_BACKOFF_def)
next
  case (run_turn R r lost H I opt out q w written)
  then show ?case using worker_turn_stream by (simp add: end_turn_def)
qed simp_all

lemma protocol_tls: "to_ascii_lowercase (opt OPT_SYSLOG_PROTOCOL) \<notin> {''udp'', ''tcp''} \<Longrightarrow> dc_protocol (delivery_config opt) = Tls"
  by (simp add: delivery_config_def Let_def)

lemma protocol_udp: "to_ascii_lowercase (opt OPT_SYSLOG_PROTOCOL) = ''udp'' \<Longrightarrow> dc_protocol (delivery_config opt) = Udp"
  by (simp add: delivery_config_def Let_def)

text \<open>C24: The worker writes audit records in clear on a stream only where the administrator wrote \<open>tcp\<close>. In every run,
  also across changes of the options while a connection is open, a frame is the record in its configured
  format, goes to a stream opened for the host, port, protocol and CA configured now, and unless the protocol
  option says \<open>tcp\<close> that stream is a TLS one, opened with a configured CA; the wait between two attempts is
  always from 1 to 60 seconds.\<close>

theorem audit_stream_encrypted:
  assumes "sink_run J cap R" "rn_flight R = Some (r, lost)"
    and "worker_turn J H I opt r lost (rn_queue R) (rn_worker R) = (out, q, w, Some (a, frame))"
  shows "ac_key a = transport_key (delivery_config opt)
    \<and> is_on opt OPT_SYSLOG_ENABLED
    \<and> frame = octet_counting_frame (format_record J H (pr_event r) (pr_value r) (delivery_config opt) lost)
    \<and> (to_ascii_lowercase (opt OPT_SYSLOG_PROTOCOL) \<noteq> ''tcp'' \<longrightarrow>
         ac_stream a = TlsStream \<and> opt OPT_SYSLOG_TLS_CA \<noteq> [])
    \<and> 1 \<le> wk_backoff w \<and> wk_backoff w \<le> 60"
proof -
  have t: "worker_ok w" "stream_ok a" "\<exists>C. active_config opt = Some C \<and> dc_protocol C \<noteq> Udp \<and> ac_key a = transport_key C
       \<and> frame = octet_counting_frame (format_record J H (pr_event r) (pr_value r) C lost)"
    using worker_turn_stream [OF assms(3) sink_run_worker_ok [OF assms(1)]] by blast+
  then obtain C where C: "active_config opt = Some C" "dc_protocol C \<noteq> Udp" "ac_key a = transport_key C"
    "frame = octet_counting_frame (format_record J H (pr_event r) (pr_value r) C lost)" by blast
  then have eq: "C = delivery_config opt" "is_on opt OPT_SYSLOG_ENABLED"
    by (auto simp: active_config_def active_delivery_config_def split: if_splits)
  have "ac_stream a = TlsStream \<and> opt OPT_SYSLOG_TLS_CA \<noteq> []"
    if "to_ascii_lowercase (opt OPT_SYSLOG_PROTOCOL) \<noteq> ''tcp''"
  proof -
    have "dc_protocol C = Tls" using that C(2) eq(1) protocol_tls protocol_udp by blast
    then have "ac_stream a = TlsStream" "tk_tls_ca (ac_key a) \<noteq> []"
      using t(2) C(3) by (auto simp: stream_ok_def transport_key_def)
    then show ?thesis by (simp add: C(3) eq(1) transport_key_def delivery_config_def Let_def)
  qed
  with C eq t(1) show ?thesis by (simp add: worker_ok_def MAX_BACKOFF_def)
qed

section \<open>Two runs\<close>

text \<open>A queue of one place, two events, then a delivery over TLS that succeeds: the first event was evicted and
  the second one reports it.\<close>

definition demo_lib :: LogLib where
  "demo_lib = \<lparr>ll_print = (\<lambda>_. ''{}''), ll_parse = (\<lambda>_. None), ll_seal = id, ll_unseal = (\<lambda>s. (s, True)), ll_sha = id, ll_millis = (\<lambda>_. None)\<rparr>"

definition demo_host :: HostInfo where
  "demo_host = \<lparr>hi_timestamp = ''2026-01-01T00:00:00.000Z'', hi_hostname = ''pc'', hi_pid = 7, hi_version = ''1.4''\<rparr>"

definition demo_io :: Io where
  "demo_io = \<lparr>io_timeout = False, io_bind = (\<lambda>_. Ok ()), io_send_to = (\<lambda>_ _. Ok ()), io_read_ca = (\<lambda>_. Ok []),
     io_tls_config = (\<lambda>_. Ok ()), io_server_name = (\<lambda>_. Ok ()), io_connect = (\<lambda>_. Ok ()),
     io_handshake = (\<lambda>_. Ok ()), io_write = (\<lambda>_. Ok ())\<rparr>"

definition demo_opt :: "string \<Rightarrow> string" where
  "demo_opt k =
     (if k = OPT_SYSLOG_ENABLED then ''Y'' else if k = OPT_SYSLOG_HOST then ''siem'' else if k = OPT_SYSLOG_TLS_CA then ''ca.pem'' else [])"

definition demo_record :: PendingRecord where
  "demo_record = \<lparr>pr_sequence = 1, pr_event = event_definition ''session'' VNull, pr_value = VNull\<rparr>"

definition demo_flight :: Run where
  "demo_flight =
     \<lparr>rn_queue = \<lparr>aq_records = [demo_record], aq_capacity = 1, aq_next_sequence = 2, aq_lost = 1\<rparr>, rn_worker = worker_new,
      rn_flight = Some (demo_record, 1), rn_pushed = 2, rn_delivered = [], rn_given_up = []\<rparr>"

definition demo_config :: DeliveryConfig where
  "demo_config = \<lparr>dc_host = ''siem'', dc_port = 6514, dc_protocol = Tls, dc_format = Rfc5424, dc_facility = 16, dc_tls_ca = ''ca.pem''\<rparr>"

definition demo_conn :: ActiveConnection where
  "demo_conn = \<lparr>ac_key = transport_key demo_config, ac_stream = TlsStream\<rparr>"

definition demo_frame :: "nat list" where
  "demo_frame = octet_counting_frame (format_record demo_lib demo_host (pr_event demo_record) VNull demo_config 1)"

definition demo_queue :: AuditQueue where
  "demo_queue = \<lparr>aq_records = [], aq_capacity = 1, aq_next_sequence = 2, aq_lost = 0\<rparr>"

definition demo_worker :: Worker where
  "demo_worker = \<lparr>wk_connection = Some demo_conn, wk_backoff = 1, wk_slept = 0\<rparr>"

lemmas demo_opts =
  demo_opt_def OPT_SYSLOG_ENABLED_def OPT_SYSLOG_HOST_def OPT_SYSLOG_TLS_CA_def OPT_SYSLOG_PORT_def
  OPT_SYSLOG_PROTOCOL_def OPT_SYSLOG_FACILITY_def OPT_SYSLOG_FORMAT_def

lemma demo_delivery_config: "delivery_config demo_opt = demo_config"
  by (simp add: delivery_config_def demo_config_def demo_opts Let_def string_defs DEFAULT_TLS_PORT_def DEFAULT_FACILITY_def)

lemma demo_active: "active_config demo_opt = Some demo_config"
  unfolding active_config_def demo_delivery_config
  by (simp add: active_delivery_config_def is_on_def demo_opts demo_config_def)

lemma demo_send: "send_stream demo_io demo_config m None = (Ok (), Some demo_conn, Some (demo_conn, octet_counting_frame m))"
  by (simp add: send_stream_def Let_def connect_stream_def connect_tls_def demo_io_def map_err_def demo_conn_def)
    (simp add: demo_config_def)

lemma demo_turn:
  "worker_turn demo_lib demo_host demo_io demo_opt demo_record 1 (rn_queue demo_flight) (rn_worker demo_flight)
   = (Delivered, demo_queue, demo_worker, Some (demo_conn, demo_frame))"
proof -
  have "dc_protocol demo_config \<noteq> Udp" "\<not> io_timeout demo_io" "pr_value demo_record = VNull" "wk_connection worker_new = None"
    by (simp_all add: demo_config_def demo_io_def demo_record_def worker_new_def)
  moreover have "finish (pr_sequence demo_record) 1 True (rn_queue demo_flight) = demo_queue"
    by (simp add: finish_def is_front_def demo_flight_def demo_queue_def demo_record_def sat_sub_def sat_add_def u64_max_def)
  moreover have "worker_new\<lparr>wk_connection := Some demo_conn, wk_backoff := 1\<rparr> = demo_worker"
    by (simp add: worker_new_def demo_worker_def)
  moreover have "rn_worker demo_flight = worker_new" by (simp add: demo_flight_def)
  ultimately show ?thesis
    by (simp only: worker_turn_def demo_active option.case Let_def demo_send prod.case if_False result.case demo_frame_def)
qed

lemma demo_reach: "sink_run demo_lib 1 demo_flight"
proof -
  define p where "p = push (event_definition ''session'' VNull) VNull"
  define R where "R = (run_new 1)\<lparr>rn_queue := p (p (queue_new 1)), rn_pushed := Suc (Suc 0)\<rparr>"
  have "sink_run demo_lib 1 ((run_new 1)\<lparr>rn_queue := p (rn_queue (run_new 1)), rn_pushed := Suc (rn_pushed (run_new 1))\<rparr>)"
    unfolding p_def by (intro sink_run.intros)
  from run_push [OF this, of "event_definition ''session'' VNull" VNull] have "sink_run demo_lib 1 R"
    by (simp add: R_def p_def run_new_def)
  moreover have "R\<lparr>rn_flight := Some (demo_record, 1)\<rparr> = demo_flight" "rn_flight R = None" "front (rn_queue R) = Some (demo_record, 1)"
    by (simp_all add: R_def p_def run_new_def push_def queue_new_def front_def demo_flight_def demo_record_def
        add_u64_def sat_add_def u64_max_def Let_def)
  ultimately show ?thesis using run_next by metis
qed

theorem losses_accounted_witness:
  "(let R = end_turn demo_record 1 Delivered demo_queue demo_worker demo_flight in
    sum_list (map snd (rn_delivered R)) + aq_lost (rn_queue R) = 1 \<and>
    card ({..<rn_pushed R} - pr_sequence ` set (aq_records (rn_queue R)) - fst ` set (rn_delivered R) - set (rn_given_up R)) = 1)"
proof -
  define R where "R = end_turn demo_record 1 Delivered demo_queue demo_worker demo_flight"
  have "rn_flight demo_flight = Some (demo_record, 1)" by (simp add: demo_flight_def)
  then have "sink_run demo_lib 1 R" unfolding R_def by (intro run_turn [OF demo_reach _ demo_turn])
  moreover have "rn_pushed R \<le> u64_max" by (simp add: R_def end_turn_def demo_flight_def u64_max_def)
  ultimately have "sum_list (map snd (rn_delivered R)) + aq_lost (rn_queue R)
      = card ({..<rn_pushed R} - pr_sequence ` set (aq_records (rn_queue R)) - fst ` set (rn_delivered R) - set (rn_given_up R))"
    using losses_accounted by blast
  moreover have "sum_list (map snd (rn_delivered R)) + aq_lost (rn_queue R) = 1"
    by (simp add: R_def end_turn_def demo_flight_def demo_queue_def)
  ultimately show ?thesis unfolding Let_def R_def [symmetric] by metis
qed

theorem audit_stream_encrypted_witness: "ac_stream demo_conn = TlsStream \<and> demo_opt OPT_SYSLOG_TLS_CA \<noteq> []"
proof -
  have "rn_flight demo_flight = Some (demo_record, 1)" by (simp add: demo_flight_def)
  from audit_stream_encrypted [OF demo_reach this demo_turn]
  have "to_ascii_lowercase (demo_opt OPT_SYSLOG_PROTOCOL) \<noteq> ''tcp'' \<longrightarrow>
    ac_stream demo_conn = TlsStream \<and> demo_opt OPT_SYSLOG_TLS_CA \<noteq> []" by blast
  moreover have "to_ascii_lowercase (demo_opt OPT_SYSLOG_PROTOCOL) \<noteq> ''tcp''" by (simp add: demo_opts to_ascii_lowercase_def)
  ultimately show ?thesis by blast
qed

end
