(* ===== verification/Forward_Media.thy ===== *)
theory Forward_Media
  imports Json_Value
begin

text \<open>
  The media streams of the forwarding: \<^verbatim>\<open>src/src/clanto/forwarding/media.rs\<close> (the sender of a webcam),
  \<^verbatim>\<open>camera_receiver.rs\<close> (its receiver, which writes to the virtual camera) and the audit of
  \<^verbatim>\<open>host.rs\<close> that the receiver uses, with its limit on refused requests.

  The statics of the modules are the record \<open>Media\<close>. A receiving thread is a task: it waits for the
  virtual camera, opens it, handles the frames of its channel one by one and ends; each of these is a
  step that the scheduler may take at any time. Times are milliseconds. The codec and the virtual camera
  are arguments: \<open>Codec\<close> answers from the history of what the decoder was given, and \<open>sink_write\<close>
  from the number of images written. Messages to the peer and audit events are kept in the order
  they were handed out.
\<close>

section \<open>Messages\<close>

record MediaOpen =
  mo_stream_id :: int
  mo_kind :: string
  mo_codec :: string
  mo_width :: int
  mo_height :: int
  mo_fps :: int
  mo_name :: string

record MediaFrame =
  mf_stream_id :: int
  mf_data :: "nat list"
  mf_key :: bool
  mf_pts :: int

record CameraInfo =
  ci_index :: int
  ci_name :: string

datatype Union =
    UMediaOpen MediaOpen
  | UMediaOpened int bool string string
  | UMediaFrame MediaFrame
  | UMediaAck int int bool
  | UMediaClose int string
  | UCameraRequest int
  | UCameraGrant int bool string "CameraInfo list"
  | UCameraPull int int
  | UTargetsQuery
  | UTargets "(string \<times> string) list" string

datatype Key = HostKey int | ControllerKey nat

record Peer =
  pe_conn_id :: int
  pe_id :: string
  pe_name :: string
  pe_ip :: string

record Status =
  st_state :: string
  st_message :: string
  st_sink :: string
  st_width :: nat
  st_height :: nat

definition status_default :: Status where
  "status_default = \<lparr>st_state = [], st_message = [], st_sink = [], st_width = 0, st_height = 0\<rparr>"

section \<open>State\<close>

text \<open>The receiving loop of a task: \<open>rx_history\<close> is what the decoder was given.\<close>

record Rx =
  rx_frames :: nat
  rx_waiting_key :: bool
  rx_history :: "nat list list"
  rx_started :: nat

datatype Phase = Waiting | Receiving Rx | Ended

record Task =
  tk_key :: Key
  tk_peer :: "Peer option"
  tk_stream_id :: int
  tk_size :: "nat \<times> nat"
  tk_fps :: int
  tk_name :: string
  tk_queue :: "MediaFrame list"
  tk_connected :: bool
  tk_phase :: Phase

text \<open>\<open>STREAMS\<close> maps a key to the stream identifier and the task that owns the receiving end.\<close>

record Media =
  me_streams :: "(Key \<times> int \<times> nat) list"
  me_status :: "(Key \<times> Status) list"
  me_busy :: bool
  me_tasks :: "Task list"
  me_denied :: "(int \<times> nat \<times> nat) list"
  me_audits :: "(string \<times> Value) list"
  me_out :: "(Key \<times> Union) list"

definition media_new :: Media where
  "media_new = \<lparr>me_streams = [], me_status = [], me_busy = False, me_tasks = [], me_denied = [], me_audits = [], me_out = []\<rparr>"

definition out :: "Key \<Rightarrow> Union \<Rightarrow> Media \<Rightarrow> Media" where
  "out key u M = M\<lparr>me_out := me_out M @ [(key, u)]\<rparr>"

definition set_status :: "Key \<Rightarrow> Status \<Rightarrow> Media \<Rightarrow> Media" where
  "set_status key s M = M\<lparr>me_status := assoc_insert key s (me_status M)\<rparr>"

section \<open>Audit\<close>

definition audit_value :: "Peer \<Rightarrow> (string \<times> Value) list \<Rightarrow> Value" where
  "audit_value peer extra =
     VObject (fold (\<lambda>(k, v). assoc_insert k v) extra
       [(''conn_id'', VNumber (pe_conn_id peer)), (''id'', VString (pe_id peer)),
        (''name'', VString (pe_name peer)), (''ip'', VString (pe_ip peer))])"

definition audit :: "string \<Rightarrow> Peer \<Rightarrow> (string \<times> Value) list \<Rightarrow> Media \<Rightarrow> Media" where
  "audit kind peer extra M = M\<lparr>me_audits := me_audits M @ [(kind, audit_value peer extra)]\<rparr>"

definition DENIED_AUDITS_PER_MINUTE :: nat where "DENIED_AUDITS_PER_MINUTE = 30"

definition MINUTE :: nat where "MINUTE = 60000"

text \<open>The entry of a connection after one more refusal.\<close>

definition count_denied :: "nat \<Rightarrow> (nat \<times> nat) option \<Rightarrow> nat \<times> nat" where
  "count_denied now entry =
     (let (since, n) = (case entry of Some e \<Rightarrow> e | None \<Rightarrow> (now, 0));
          (since, n) = (if sat_sub now since \<ge> MINUTE then (now, 0) else (since, n))
      in (since, add_u32 n 1))"

definition audit_denied :: "nat \<Rightarrow> string \<Rightarrow> Peer \<Rightarrow> (string \<times> Value) list \<Rightarrow> Media \<Rightarrow> Media" where
  "audit_denied now kind peer extra M =
     (let entry = count_denied now (map_of (me_denied M) (pe_conn_id peer));
          M = M\<lparr>me_denied := assoc_insert (pe_conn_id peer) entry (me_denied M)\<rparr>
      in if snd entry \<le> DENIED_AUDITS_PER_MINUTE then audit kind peer extra M else M)"

section \<open>Formats\<close>

definition KIND_CAMERA :: string where "KIND_CAMERA = ''camera''"
definition CODEC_VP8 :: string where "CODEC_VP8 = ''vp8''"
definition MAX_IN_FLIGHT :: int where "MAX_IN_FLIGHT = 3"
definition MAX_LONG :: nat where "MAX_LONG = 1920"
definition MAX_SHORT :: nat where "MAX_SHORT = 1080"
definition MAX_FRAME_BYTES :: nat where "MAX_FRAME_BYTES = 2097152"
definition MAX_FPS :: int where "MAX_FPS = 30"
definition MAX_QUEUED :: nat where "MAX_QUEUED = 16"

definition size_ok :: "nat \<Rightarrow> nat \<Rightarrow> bool" where
  "size_ok w h =
     (w > 0 \<and> h > 0 \<and> w mod 2 = 0 \<and> h mod 2 = 0 \<and> max w h \<le> MAX_LONG \<and> min w h \<le> MAX_SHORT)"

text \<open>\<open>as usize\<close> of an \<open>i32\<close>: the sign is extended.\<close>

definition as_usize :: "int \<Rightarrow> nat" where
  "as_usize n = nat (n mod 18446744073709551616)"

definition validate :: "MediaOpen \<Rightarrow> (nat \<times> nat, string) result" where
  "validate m =
     (if mo_kind m \<noteq> KIND_CAMERA \<or> mo_codec m \<noteq> CODEC_VP8
      then Err (''Unsupported media '' @ mo_kind m @ '' '' @ mo_codec m)
      else
        (let w = as_usize (mo_width m); h = as_usize (mo_height m)
         in if \<not> size_ok w h \<or> \<not> (1 \<le> mo_fps m \<and> mo_fps m \<le> MAX_FPS) then Err ''Unsupported camera format''
            else Ok (w, h)))"

definition vp8_keyframe_size :: "nat list \<Rightarrow> (nat \<times> nat) option" where
  "vp8_keyframe_size d =
     (if length d < 10 \<or> d ! 0 mod 2 \<noteq> 0 \<or> take 3 (drop 3 d) \<noteq> [0x9d, 0x01, 0x2a] then None
      else Some ((d ! 6 + 256 * d ! 7) mod 16384, (d ! 8 + 256 * d ! 9) mod 16384))"

section \<open>The receiver\<close>

record Image =
  im_width :: nat
  im_height :: nat
  im_data :: "nat list"

record Codec =
  cd_new :: "(unit, string) result"
  cd_decode :: "nat list list \<Rightarrow> nat list \<Rightarrow> (Image list, string) result"

text \<open>\<open>Decoder::decode\<close>: an image of a size that is not accepted is an error.\<close>

definition decode :: "Codec \<Rightarrow> nat list list \<Rightarrow> nat list \<Rightarrow> (Image list, string) result" where
  "decode X hist d =
     result_bind (cd_decode X hist d) (\<lambda>imgs.
       case find (\<lambda>i. \<not> size_ok (im_width i) (im_height i)) imgs of
         Some i \<Rightarrow> Err (''unexpected frame size '' @ show_nat (im_width i) @ ''x'' @ show_nat (im_height i))
       | None \<Rightarrow> Ok imgs)"

definition remove_stream :: "Key \<Rightarrow> int \<Rightarrow> Media \<Rightarrow> Media" where
  "remove_stream key sid M =
     (case map_of (me_streams M) key of
        Some (sid', t) \<Rightarrow>
          if sid' = sid
          then M\<lparr>me_streams := assoc_remove key (me_streams M), me_tasks := (me_tasks M)[t := (me_tasks M ! t)\<lparr>tk_connected := False\<rparr>]\<rparr>
          else M
      | None \<Rightarrow> M)"

definition set_task :: "nat \<Rightarrow> Task \<Rightarrow> Media \<Rightarrow> Media" where
  "set_task t k M = M\<lparr>me_tasks := (me_tasks M)[t := k]\<rparr>"

text \<open>A refusal before the thread: \<open>denied\<close> of \<open>on_open\<close>.\<close>

definition open_denied :: "nat \<Rightarrow> Key \<Rightarrow> Peer option \<Rightarrow> MediaOpen \<Rightarrow> string \<Rightarrow> Media \<Rightarrow> Media" where
  "open_denied now key peer m reason M =
     (let M = (case peer of
                 Some p \<Rightarrow> audit_denied now ''clanto_forward_camera_denied'' p
                   [(''stream'', VString (mo_name m)), (''width'', VNumber (mo_width m)), (''height'', VNumber (mo_height m)),
                    (''fps'', VNumber (mo_fps m)), (''reason'', VString reason)] M
               | None \<Rightarrow> M)
      in out key (UMediaOpened (mo_stream_id m) False reason [])
           (set_status key (status_default\<lparr>st_state := ''error'', st_message := reason\<rparr>) M))"

definition on_open :: "nat \<Rightarrow> Key \<Rightarrow> Peer option \<Rightarrow> (unit, string) result \<Rightarrow> bool \<Rightarrow> MediaOpen \<Rightarrow> Media \<Rightarrow> Media" where
  "on_open now key peer authorized spawned m M =
     (case authorized of
        Err e \<Rightarrow> open_denied now key peer m e M
      | Ok _ \<Rightarrow>
          (case validate m of
             Err e \<Rightarrow> open_denied now key peer m e M
           | Ok (w, h) \<Rightarrow>
               if map_of (me_streams M) key \<noteq> None
               then open_denied now key peer m ''Camera already active in this session'' M
               else
                 let t = length (me_tasks M);
                     task = \<lparr>tk_key = key, tk_peer = peer, tk_stream_id = mo_stream_id m, tk_size = (w, h), tk_fps = mo_fps m,
                             tk_name = take 128 (mo_name m), tk_queue = [], tk_connected = True,
                             tk_phase = (if spawned then Waiting else Ended)\<rparr>;
                     M = M\<lparr>me_streams := assoc_insert key (mo_stream_id m, t) (me_streams M), me_tasks := me_tasks M @ [task]\<rparr>;
                     M = set_status key (status_default\<lparr>st_state := ''starting'', st_width := w, st_height := h\<rparr>) M
                 in if spawned then M else remove_stream key (mo_stream_id m) M))"

text \<open>The end of a receiving task: with the number of images and the error, if any. \<open>Busy\<close> is dropped last.\<close>

definition end_task :: "nat \<Rightarrow> nat \<Rightarrow> nat \<Rightarrow> string option \<Rightarrow> nat \<Rightarrow> Media \<Rightarrow> Media" where
  "end_task now t frames error started M =
     (let k = me_tasks M ! t; key = tk_key k;
          M = (case error of Some e \<Rightarrow> out key (UMediaClose (tk_stream_id k) e) M | None \<Rightarrow> M);
          M = remove_stream key (tk_stream_id k) M;
          M = set_status key (status_default\<lparr>st_state := (if error \<noteq> None then ''error'' else ''closed''),
                st_message := (case error of Some e \<Rightarrow> e | None \<Rightarrow> [])\<rparr>) M;
          M = (case tk_peer k of
                 Some p \<Rightarrow> audit ''clanto_forward_camera_closed'' p
                   [(''frames'', VNumber (int frames)), (''seconds'', VNumber (int (sat_sub now started div 1000))),
                    (''reason'', VString (case error of Some e \<Rightarrow> e | None \<Rightarrow> []))] M
               | None \<Rightarrow> M)
      in (set_task t ((me_tasks M ! t)\<lparr>tk_phase := Ended\<rparr>) M)\<lparr>me_busy := False\<rparr>)"

text \<open>The refusal of the thread: no virtual camera.\<close>

definition task_denied :: "nat \<Rightarrow> nat \<Rightarrow> string \<Rightarrow> Media \<Rightarrow> Media" where
  "task_denied now t reason M =
     (let k = me_tasks M ! t; key = tk_key k;
          M = remove_stream key (tk_stream_id k) M;
          M = (case tk_peer k of
                 Some p \<Rightarrow> audit_denied now ''clanto_forward_camera_denied'' p
                   [(''stream'', VString (tk_name k)), (''width'', VNumber (int (fst (tk_size k)))),
                    (''height'', VNumber (int (snd (tk_size k)))), (''fps'', VNumber (tk_fps k)), (''reason'', VString reason)] M
               | None \<Rightarrow> M);
          M = out key (UMediaOpened (tk_stream_id k) False reason [])
                (set_status key (status_default\<lparr>st_state := ''error'', st_message := reason\<rparr>) M)
      in set_task t ((me_tasks M ! t)\<lparr>tk_phase := Ended\<rparr>) M)"

text \<open>One attempt to reserve the virtual camera. \<open>expired\<close>: the three seconds are over; \<open>sink\<close> is the name
  of the virtual camera or the error of opening it, on which the reservation is dropped.\<close>

definition task_open :: "Codec \<Rightarrow> nat \<Rightarrow> bool \<Rightarrow> (string, string) result \<Rightarrow> nat \<Rightarrow> Media \<Rightarrow> Media" where
  "task_open X now expired sink t M =
     (let k = me_tasks M ! t; key = tk_key k in
      if t \<ge> length (me_tasks M) \<or> tk_phase k \<noteq> Waiting then M
      else if me_busy M then
        (if expired then task_denied now t ''The virtual camera is in use by another session'' M else M)
      else
        (case sink of
           Err e \<Rightarrow> task_denied now t e M
         | Ok name \<Rightarrow>
             let M = M\<lparr>me_busy := True\<rparr>;
                 M = (case tk_peer k of
                        Some p \<Rightarrow> audit ''clanto_forward_camera_opened'' p
                          [(''stream'', VString (tk_name k)), (''width'', VNumber (int (fst (tk_size k)))),
                           (''height'', VNumber (int (snd (tk_size k)))), (''fps'', VNumber (tk_fps k)), (''sink'', VString name)] M
                      | None \<Rightarrow> M);
                 M = set_status key (status_default\<lparr>st_state := ''active'', st_sink := name,
                       st_width := fst (tk_size k), st_height := snd (tk_size k)\<rparr>) M;
                 M = out key (UMediaOpened (tk_stream_id k) True [] name) M;
                 rx = \<lparr>rx_frames = 0, rx_waiting_key = True, rx_history = [], rx_started = now\<rparr>;
                 M = set_task t ((me_tasks M ! t)\<lparr>tk_phase := Receiving rx\<rparr>) M
             in (case cd_new X of
                   Ok _ \<Rightarrow> M
                 | Err e \<Rightarrow> end_task now t 0 (Some e) now M)))"

text \<open>The images of one packet written to the virtual camera: the count and the error that ends the stream.\<close>

fun write_images :: "(nat \<Rightarrow> Image \<Rightarrow> (unit, string) result) \<Rightarrow> nat \<times> nat \<Rightarrow> nat \<Rightarrow> Image list \<Rightarrow> nat \<times> string option" where
  "write_images sink_write sz n [] = (n, None)"
| "write_images sink_write sz n (i # imgs) =
     (if (im_width i, im_height i) \<noteq> sz then (n, Some ''The camera changed resolution'')
      else (case sink_write n i of
              Err e \<Rightarrow> (n, Some e)
            | Ok _ \<Rightarrow> write_images sink_write sz (Suc n) imgs))"

text \<open>One turn of \<open>receive\<close> on a frame: the error that ends the stream, or the loop's state and whether a keyframe
  is asked for in the confirmation.\<close>

definition receive_frame :: "Codec \<Rightarrow> (nat \<Rightarrow> Image \<Rightarrow> (unit, string) result) \<Rightarrow> nat \<times> nat \<Rightarrow> MediaFrame \<Rightarrow> Rx
    \<Rightarrow> (Rx \<times> bool, Rx \<times> string) result" where
  "receive_frame X sink_write sz f rx =
     (if mf_key f \<and> vp8_keyframe_size (mf_data f) = None then Err (rx, ''Invalid camera frame'')
      else if mf_key f \<and> vp8_keyframe_size (mf_data f) \<noteq> Some sz then Err (rx, ''The camera changed resolution'')
      else if rx_waiting_key rx \<and> \<not> mf_key f then Ok (rx, True)
      else
        (let res = decode X (rx_history rx) (mf_data f);
             rx = rx\<lparr>rx_history := rx_history rx @ [mf_data f]\<rparr>
         in case res of
              Err e \<Rightarrow> Ok (rx\<lparr>rx_waiting_key := True\<rparr>, True)
            | Ok imgs \<Rightarrow>
                (case write_images sink_write sz (rx_frames rx) imgs of
                   (n, err) \<Rightarrow>
                     let rx = rx\<lparr>rx_waiting_key := False, rx_frames := n\<rparr>
                     in (case err of Some e \<Rightarrow> Err (rx, e) | None \<Rightarrow> Ok (rx, False)))))"

text \<open>One step of a task that receives: the next frame of its channel, or the end when the channel is closed
  and empty.\<close>

definition task_step :: "Codec \<Rightarrow> (nat \<Rightarrow> Image \<Rightarrow> (unit, string) result) \<Rightarrow> nat \<Rightarrow> nat \<Rightarrow> Media \<Rightarrow> Media" where
  "task_step X sink_write now t M =
     (if t \<ge> length (me_tasks M) then M
      else let k = me_tasks M ! t in
      case tk_phase k of
        Receiving rx \<Rightarrow>
          (case tk_queue k of
             [] \<Rightarrow> if tk_connected k then M else end_task now t (rx_frames rx) None (rx_started rx) M
           | f # fs \<Rightarrow>
               let M = set_task t (k\<lparr>tk_queue := fs\<rparr>) M in
               (case receive_frame X sink_write (tk_size k) f rx of
                  Err (rx, e) \<Rightarrow>
                    end_task now t (rx_frames rx) (Some e) (rx_started rx)
                      (set_task t (k\<lparr>tk_queue := fs, tk_phase := Receiving rx\<rparr>) M)
                | Ok (rx, keyframe) \<Rightarrow>
                    out (tk_key k) (UMediaAck (tk_stream_id k) (mf_pts f) keyframe)
                      (set_task t (k\<lparr>tk_queue := fs, tk_phase := Receiving rx\<rparr>) M)))
      | _ \<Rightarrow> M)"

text \<open>\<open>try_send\<close> fails on a full channel and on one whose receiver is gone.\<close>

definition on_frame :: "Key \<Rightarrow> MediaFrame \<Rightarrow> Media \<Rightarrow> Media" where
  "on_frame key f M =
     (case map_of (me_streams M) key of
        None \<Rightarrow> M
      | Some (sid, t) \<Rightarrow>
          if sid \<noteq> mf_stream_id f then M
          else
            let k = me_tasks M ! t;
                rejected =
                  (if length (mf_data f) > MAX_FRAME_BYTES then Some ''Camera frame too large''
                   else if length (tk_queue k) \<ge> MAX_QUEUED \<or> tk_phase k = Ended then Some ''Camera stream overflow''
                   else None)
            in (case rejected of
                  Some reason \<Rightarrow> out key (UMediaClose sid reason) (remove_stream key sid M)
                | None \<Rightarrow> set_task t (k\<lparr>tk_queue := tk_queue k @ [f]\<rparr>) M))"

definition receiver_on_close :: "Key \<Rightarrow> int \<Rightarrow> Media \<Rightarrow> Media" where
  "receiver_on_close key sid M = remove_stream key sid M"

definition receiver_stop :: "Key \<Rightarrow> Media \<Rightarrow> Media" where
  "receiver_stop key M =
     (case map_of (me_streams M) key of
        Some (sid, _) \<Rightarrow> out key (UMediaClose sid []) (remove_stream key sid M)
      | None \<Rightarrow> M)"

definition receiver_close :: "Key \<Rightarrow> Media \<Rightarrow> Media" where
  "receiver_close key M =
     (let M = (case map_of (me_streams M) key of Some (sid, _) \<Rightarrow> remove_stream key sid M | None \<Rightarrow> M)
      in M\<lparr>me_status := assoc_remove key (me_status M)\<rparr>)"

section \<open>The sender\<close>

record SendInfo =
  si_state :: string
  si_message :: string
  si_source :: string
  si_sink :: string
  si_width :: nat
  si_height :: nat
  si_sent :: int
  si_acked :: int

record SendStream =
  ss_stream_id :: int
  ss_stop :: bool
  ss_acked :: int
  ss_keyframe :: bool
  ss_info :: SendInfo

definition send_new :: "int \<Rightarrow> SendStream" where
  "send_new sid =
     \<lparr>ss_stream_id = sid, ss_stop = False, ss_acked = 0, ss_keyframe = False,
      ss_info = \<lparr>si_state = ''starting'', si_message = [], si_source = [], si_sink = [], si_width = 0, si_height = 0,
                 si_sent = 0, si_acked = 0\<rparr>\<rparr>"

definition send_on_opened :: "bool \<Rightarrow> string \<Rightarrow> string \<Rightarrow> SendStream \<Rightarrow> SendStream" where
  "send_on_opened success message sink s =
     (if success then s\<lparr>ss_info := (ss_info s)\<lparr>si_state := ''active'', si_sink := sink\<rparr>\<rparr>
      else s\<lparr>ss_info := (ss_info s)\<lparr>si_state := ''error'', si_message := message\<rparr>, ss_stop := True\<rparr>)"

definition send_on_ack :: "int \<Rightarrow> bool \<Rightarrow> SendStream \<Rightarrow> SendStream" where
  "send_on_ack pts keyframe s =
     (let acked = max (ss_acked s) pts
      in s\<lparr>ss_acked := acked, ss_keyframe := (ss_keyframe s \<or> keyframe), ss_info := (ss_info s)\<lparr>si_acked := acked\<rparr>\<rparr>)"

definition send_on_close :: "string \<Rightarrow> SendStream \<Rightarrow> SendStream" where
  "send_on_close message s =
     s\<lparr>ss_info := (ss_info s)\<lparr>si_state := (if message = [] then ''closed'' else ''error''), si_message := message\<rparr>, ss_stop := True\<rparr>"

text \<open>The message to the peer, if this is the first stop.\<close>

definition send_stop :: "SendStream \<Rightarrow> Union option \<times> SendStream" where
  "send_stop s = (if ss_stop s then None else Some (UMediaClose (ss_stream_id s) []), s\<lparr>ss_stop := True\<rparr>)"

text \<open>One turn of the sending loop with a frame from the source: \<open>seq\<close> is the number of packets sent, \<open>encoded\<close> what
  the encoder gives for this frame, after a reset if one is due. The result is the next number and the messages.\<close>

definition send_turn :: "(nat \<times> nat) \<Rightarrow> (unit, string) result \<Rightarrow> ((nat list \<times> bool) list, string) result \<Rightarrow> (nat \<times> nat) \<Rightarrow> int \<Rightarrow> SendStream
    \<Rightarrow> (int \<times> SendStream \<times> Union list, string \<times> SendStream) result" where
  "send_turn frame_size reset_res encoded encoder_size seq s =
     (if seq - ss_acked s \<ge> MAX_IN_FLIGHT then Ok (seq, s, [])
      else if frame_size \<noteq> encoder_size then Err (''The camera changed resolution'', s)
      else
        (let reset = ss_keyframe s; s = s\<lparr>ss_keyframe := False\<rparr> in
         case (if reset then reset_res else Ok ()) of
           Err e \<Rightarrow> Err (e, s)
         | Ok _ \<Rightarrow>
             (case encoded of
                Err e \<Rightarrow> Err (e, s)
              | Ok packets \<Rightarrow>
                  let msgs = map (\<lambda>(i, data, key). UMediaFrame \<lparr>mf_stream_id = ss_stream_id s, mf_data = data, mf_key = key,
                               mf_pts = seq + 1 + int i\<rparr>) (enumerate 0 packets);
                      seq = seq + int (length packets)
                  in Ok (seq, s\<lparr>ss_info := (ss_info s)\<lparr>si_sent := seq\<rparr>\<rparr>, msgs))))"

end
