(* ===== verification/Camera_Claims.thy ===== *)
theory Camera_Claims
  imports Forward_Media
begin

text \<open>
  What the media streams of \<open>Forward_Media\<close> keep under every interleaving of messages, threads and closings:
  one virtual camera, sizes, the budget of audited refusals, and the flow control between an honest sender
  and the receiver.
\<close>

section \<open>Steps\<close>

datatype MediaOp =
    OpOpen nat Key "Peer option" "(unit, string) result" bool MediaOpen
  | OpTaskOpen nat bool "(string, string) result" nat
  | OpTaskStep nat nat
  | OpFrame Key MediaFrame
  | OpClose Key int
  | OpStop Key
  | OpEnd Key

fun media_step :: "Codec \<Rightarrow> (nat \<Rightarrow> Image \<Rightarrow> (unit, string) result) \<Rightarrow> MediaOp \<Rightarrow> Media \<Rightarrow> Media" where
  "media_step X sw (OpOpen now key peer authorized spawned m) M = on_open now key peer authorized spawned m M"
| "media_step X sw (OpTaskOpen now expired sink t) M = task_open X now expired sink t M"
| "media_step X sw (OpTaskStep now t) M = task_step X sw now t M"
| "media_step X sw (OpFrame key f) M = on_frame key f M"
| "media_step X sw (OpClose key sid) M = receiver_on_close key sid M"
| "media_step X sw (OpStop key) M = receiver_stop key M"
| "media_step X sw (OpEnd key) M = receiver_close key M"

section \<open>The invariant\<close>

definition receiving :: "Task \<Rightarrow> bool" where
  "receiving k = (case tk_phase k of Receiving _ \<Rightarrow> True | _ \<Rightarrow> False)"

definition rx_ok :: "nat \<times> nat \<Rightarrow> Rx \<Rightarrow> bool" where
  "rx_ok sz rx =
     (if rx_history rx = [] then rx_waiting_key rx else vp8_keyframe_size (hd (rx_history rx)) = Some sz)"

definition task_ok :: "Task \<Rightarrow> bool" where
  "task_ok k =
     (size_ok (fst (tk_size k)) (snd (tk_size k)) \<and> length (tk_queue k) \<le> MAX_QUEUED
      \<and> (case tk_phase k of Receiving rx \<Rightarrow> rx_ok (tk_size k) rx | _ \<Rightarrow> True))"

definition media_inv :: "Media \<Rightarrow> bool" where
  "media_inv M =
     ((\<forall>k\<in>set (me_tasks M). task_ok k)
      \<and> length (filter receiving (me_tasks M)) = (if me_busy M then 1 else 0))"

lemma media_frame [simp]:
  "me_tasks (out key u M) = me_tasks M" "me_busy (out key u M) = me_busy M"
  "me_tasks (set_status key s M) = me_tasks M" "me_busy (set_status key s M) = me_busy M"
  "me_tasks (audit kind p ex M) = me_tasks M" "me_busy (audit kind p ex M) = me_busy M"
  "me_tasks (audit_denied now kind p ex M) = me_tasks M" "me_busy (audit_denied now kind p ex M) = me_busy M"
  by (simp_all add: out_def set_status_def audit_def audit_denied_def Let_def)

lemma length_filter_update:
  "t < length xs \<Longrightarrow>
   length (filter P (xs[t := x])) + (if P (xs ! t) then 1 else 0) = length (filter P xs) + (if P x then 1 else 0)"
proof (induction xs arbitrary: t)
  case (Cons y ys)
  then show ?case using Cons.IH [of "t - 1"] by (cases t) auto
qed simp

lemma media_inv_update:
  assumes "media_inv M" "t < length (me_tasks M)" "task_ok k" "receiving k = receiving (me_tasks M ! t)"
  shows "media_inv (set_task t k M)"
  using assms length_filter_update [OF assms(2), of receiving k]
  by (auto simp: media_inv_def set_task_def dest!: set_update_subset_insert [THEN subsetD] split: if_splits)

lemma media_inv_same: "me_tasks M' = me_tasks M \<Longrightarrow> me_busy M' = me_busy M \<Longrightarrow> media_inv M \<Longrightarrow> media_inv M'"
  by (simp add: media_inv_def)

lemma media_inv_frame [simp]:
  "media_inv (out key u M) = media_inv M" "media_inv (set_status key s M) = media_inv M"
  "media_inv (audit kind p ex M) = media_inv M" "media_inv (audit_denied now kind p ex M) = media_inv M"
  by (simp_all add: media_inv_def)

lemma media_inv_status [simp]: "media_inv (M\<lparr>me_status := s\<rparr>) = media_inv M"
  by (simp add: media_inv_def)

lemma task_ok_nth: "media_inv M \<Longrightarrow> t < length (me_tasks M) \<Longrightarrow> task_ok (me_tasks M ! t)"
  by (simp add: media_inv_def)

lemma task_ok_connected [simp]: "task_ok (k\<lparr>tk_connected := b\<rparr>) = task_ok k" "receiving (k\<lparr>tk_connected := b\<rparr>) = receiving k"
  by (simp_all add: task_ok_def receiving_def split: Phase.split)

lemma remove_stream_inv: "media_inv M \<Longrightarrow> media_inv (remove_stream key sid M)"
proof -
  assume M: "media_inv M"
  have "media_inv (set_task t ((me_tasks M ! t)\<lparr>tk_connected := False\<rparr>) M)" for t
  proof (cases "t < length (me_tasks M)")
    case True
    then show ?thesis using M task_ok_nth [OF M True] by (intro media_inv_update) simp_all
  next
    case False
    then show ?thesis using M by (simp add: set_task_def media_inv_def list_update_beyond)
  qed
  then show ?thesis using M
    by (auto simp: remove_stream_def set_task_def media_inv_def split: option.split)
qed

lemma remove_stream_tasks:
  "length (me_tasks (remove_stream key sid M)) = length (me_tasks M)"
  "me_busy (remove_stream key sid M) = me_busy M"
  "t < length (me_tasks M) \<Longrightarrow> \<exists>b. me_tasks (remove_stream key sid M) ! t = (me_tasks M ! t)\<lparr>tk_connected := b\<rparr>"
proof -
  have same: "\<exists>b. k = k\<lparr>tk_connected := b\<rparr>" for k :: Task
    by (rule exI [of _ "tk_connected k"]) simp
  assume t: "t < length (me_tasks M)"
  show "\<exists>b. me_tasks (remove_stream key sid M) ! t = (me_tasks M ! t)\<lparr>tk_connected := b\<rparr>"
  proof (cases "\<exists>t'. map_of (me_streams M) key = Some (sid, t')")
    case True
    then obtain t' where "map_of (me_streams M) key = Some (sid, t')" by blast
    then show ?thesis using t same by (cases "t = t'") (auto simp: remove_stream_def)
  next
    case False
    then have "remove_stream key sid M = M" by (auto simp: remove_stream_def split: option.split)
    then show ?thesis using same by simp
  qed
qed (auto simp: remove_stream_def split: option.split)

text \<open>Ending a receiving task frees the virtual camera.\<close>

lemma ended_ok: "task_ok k \<Longrightarrow> task_ok (k\<lparr>tk_phase := Ended\<rparr>)" "\<not> receiving (k\<lparr>tk_phase := Ended\<rparr>)"
  by (simp_all add: task_ok_def receiving_def)

lemma media_inv_end:
  assumes "media_inv M" "t < length (me_tasks M)" "receiving (me_tasks M ! t)"
  shows "media_inv ((set_task t ((me_tasks M ! t)\<lparr>tk_phase := Ended\<rparr>) M)\<lparr>me_busy := False\<rparr>)"
  using assms length_filter_update [OF assms(2), of receiving "(me_tasks M ! t)\<lparr>tk_phase := Ended\<rparr>"]
    task_ok_nth [OF assms(1, 2)] ended_ok
  by (auto simp: media_inv_def set_task_def dest!: set_update_subset_insert [THEN subsetD] split: if_splits)

lemma end_task_inv:
  assumes "media_inv M" "t < length (me_tasks M)" "receiving (me_tasks M ! t)"
  shows "media_inv (end_task now t n err started M)"
proof -
  define k where "k = me_tasks M ! t"
  define M1 where "M1 = remove_stream (tk_key k) (tk_stream_id k) (case err of Some e \<Rightarrow> out (tk_key k) (UMediaClose (tk_stream_id k) e) M | None \<Rightarrow> M)"
  define M2 where "M2 = (case tk_peer k of
      Some p \<Rightarrow> audit ''clanto_forward_camera_closed'' p
        [(''frames'', VNumber (int n)), (''seconds'', VNumber (int (sat_sub now started div 1000))),
         (''reason'', VString (case err of Some e \<Rightarrow> e | None \<Rightarrow> []))]
        (set_status (tk_key k) (status_default\<lparr>st_state := (if err \<noteq> None then ''error'' else ''closed''),
           st_message := (case err of Some e \<Rightarrow> e | None \<Rightarrow> [])\<rparr>) M1)
    | None \<Rightarrow> set_status (tk_key k) (status_default\<lparr>st_state := (if err \<noteq> None then ''error'' else ''closed''),
           st_message := (case err of Some e \<Rightarrow> e | None \<Rightarrow> [])\<rparr>) M1)"
  have M1: "media_inv M1" "t < length (me_tasks M1)" "receiving (me_tasks M1 ! t)"
    using assms remove_stream_tasks(3) [of t M]
    by (auto simp: M1_def remove_stream_inv remove_stream_tasks(1) split: option.split)
      (metis media_frame(1) remove_stream_tasks(3) task_ok_connected(2))+
  have M2: "me_tasks M2 = me_tasks M1" "me_busy M2 = me_busy M1" by (simp_all add: M2_def split: option.split)
  have "end_task now t n err started M = (set_task t ((me_tasks M2 ! t)\<lparr>tk_phase := Ended\<rparr>) M2)\<lparr>me_busy := False\<rparr>"
    by (simp only: end_task_def Let_def k_def M1_def M2_def)
  moreover have "media_inv \<dots>"
    using M1 M2 media_inv_same [OF M2 M1(1)] by (intro media_inv_end) simp_all
  ultimately show ?thesis by simp
qed

lemma receive_frame_ok:
  assumes "rx_ok sz rx"
  shows "case receive_frame X sw sz f rx of Ok (rx', _) \<Rightarrow> rx_ok sz rx' | Err (rx', _) \<Rightarrow> rx_ok sz rx'"
proof -
  have app: "rx_ok sz (rx\<lparr>rx_history := rx_history rx @ [mf_data f], rx_waiting_key := b, rx_frames := n\<rparr>)"
      "rx_ok sz (rx\<lparr>rx_history := rx_history rx @ [mf_data f], rx_waiting_key := b\<rparr>)"
    if "\<not> (rx_waiting_key rx \<and> \<not> mf_key f)" "mf_key f \<longrightarrow> vp8_keyframe_size (mf_data f) = Some sz" for b n
    using assms that by (auto simp: rx_ok_def split: if_splits)
  show ?thesis
    unfolding receive_frame_def Let_def
    using assms app by (auto split: result.split prod.split option.split)
qed

lemma task_denied_inv:
  assumes "media_inv M" "t < length (me_tasks M)" "\<not> receiving (me_tasks M ! t)"
  shows "media_inv (task_denied now t reason M)"
proof -
  define k where "k = me_tasks M ! t"
  define M1 where "M1 = remove_stream (tk_key k) (tk_stream_id k) M"
  have M1: "media_inv M1" "t < length (me_tasks M1)" "\<not> receiving (me_tasks M1 ! t)"
    using assms remove_stream_tasks(3) [OF assms(2), of "tk_key k" "tk_stream_id k"]
    by (auto simp: M1_def remove_stream_inv remove_stream_tasks(1))
  have "\<exists>M2. task_denied now t reason M = set_task t ((me_tasks M2 ! t)\<lparr>tk_phase := Ended\<rparr>) M2
      \<and> me_tasks M2 = me_tasks M1 \<and> me_busy M2 = me_busy M1"
    unfolding task_denied_def Let_def k_def [symmetric] M1_def [symmetric]
    by (intro exI conjI, rule refl) (simp_all split: option.split)
  then obtain M2 where M2: "task_denied now t reason M = set_task t ((me_tasks M2 ! t)\<lparr>tk_phase := Ended\<rparr>) M2"
      "me_tasks M2 = me_tasks M1" "me_busy M2 = me_busy M1" by blast
  have "media_inv M2" using M1(1) M2 media_inv_same by blast
  then show ?thesis unfolding M2(1) using M1 M2 task_ok_nth [of M2 t] ended_ok
    by (intro media_inv_update) simp_all
qed

lemma task_open_inv: "media_inv M \<Longrightarrow> media_inv (task_open X now expired sink t M)"
proof -
  assume M: "media_inv M"
  define k where "k = me_tasks M ! t"
  show ?thesis
  proof (cases "t < length (me_tasks M) \<and> tk_phase k = Waiting")
    case False
    then have "task_open X now expired sink t M = M" by (auto simp: task_open_def k_def Let_def)
    with M show ?thesis by simp
  next
    case True
    then have k: "t < length (me_tasks M)" "tk_phase k = Waiting" "\<not> receiving (me_tasks M ! t)" "task_ok k"
      using task_ok_nth [OF M] by (auto simp: receiving_def k_def)
    have denied: "media_inv (task_denied now t r M)" for r using task_denied_inv [OF M k(1, 3)] .
    define rx where "rx = \<lparr>rx_frames = 0, rx_waiting_key = True, rx_history = [], rx_started = now\<rparr>"
    define start where "start name = set_task t (k\<lparr>tk_phase := Receiving rx\<rparr>)
      (out (tk_key k) (UMediaOpened (tk_stream_id k) True [] name)
        (set_status (tk_key k) (status_default\<lparr>st_state := ''active'', st_sink := name,
           st_width := fst (tk_size k), st_height := snd (tk_size k)\<rparr>)
          (case tk_peer k of Some p \<Rightarrow> audit ''clanto_forward_camera_opened'' p
             [(''stream'', VString (tk_name k)), (''width'', VNumber (int (fst (tk_size k)))),
              (''height'', VNumber (int (snd (tk_size k)))), (''fps'', VNumber (tk_fps k)), (''sink'', VString name)]
             (M\<lparr>me_busy := True\<rparr>)
           | None \<Rightarrow> M\<lparr>me_busy := True\<rparr>)))" for name
    have start: "me_tasks (start name) = (me_tasks M)[t := k\<lparr>tk_phase := Receiving rx\<rparr>]" "me_busy (start name)" for name
      by (simp_all add: start_def set_task_def split: option.split)
    have rec: "receiving (k\<lparr>tk_phase := Receiving rx\<rparr>)" "task_ok (k\<lparr>tk_phase := Receiving rx\<rparr>)"
      using k(4) by (simp_all add: receiving_def task_ok_def rx_ok_def rx_def)
    have inv: "media_inv (start name)" if "\<not> me_busy M" for name
      using M that k(1, 3) rec length_filter_update [OF k(1), of receiving "k\<lparr>tk_phase := Receiving rx\<rparr>"]
      by (auto simp: media_inv_def start dest!: set_update_subset_insert [THEN subsetD])
    have end_inv: "media_inv (end_task now t 0 (Some e) now (start name))" if "\<not> me_busy M" for e name
      by (rule end_task_inv) (use inv [OF that] k(1) rec in \<open>simp_all add: start\<close>)
    have "task_open X now expired sink t M =
      (if me_busy M then (if expired then task_denied now t ''The virtual camera is in use by another session'' M else M)
       else (case sink of Err e \<Rightarrow> task_denied now t e M
         | Ok name \<Rightarrow> (case cd_new X of Ok _ \<Rightarrow> start name | Err e \<Rightarrow> end_task now t 0 (Some e) now (start name))))"
    proof (cases sink)
      case (Ok name)
      then show ?thesis using k(1, 2) unfolding k_def
        by (cases "tk_peer (me_tasks M ! t)"; cases "cd_new X")
          (simp_all add: task_open_def Let_def k_def start_def rx_def)
    next
      case (Err e)
      then show ?thesis using k(1, 2) unfolding k_def by (simp add: task_open_def Let_def)
    qed
    then show ?thesis using M denied inv end_inv by (simp split: result.split)
  qed
qed

lemma task_step_inv: "media_inv M \<Longrightarrow> media_inv (task_step X sw now t M)"
proof -
  assume M: "media_inv M"
  define k where "k = me_tasks M ! t"
  show ?thesis
  proof (cases "t < length (me_tasks M) \<and> receiving k")
    case False
    then have "task_step X sw now t M = M" by (auto simp: task_step_def k_def Let_def receiving_def split: Phase.splits)
    with M show ?thesis by simp
  next
    case True
    then obtain rx where rx: "tk_phase k = Receiving rx" by (auto simp: receiving_def split: Phase.splits)
    have t: "t < length (me_tasks M)" "task_ok k" "receiving (me_tasks M ! t)"
      using True task_ok_nth [OF M] by (simp_all add: k_def)
    then have rxok: "rx_ok (tk_size k) rx" using rx by (simp add: task_ok_def)
    show ?thesis
    proof (cases "tk_queue k")
      case Nil
      then show ?thesis using M t rx end_task_inv [OF M t(1, 3)]
        by (simp add: task_step_def k_def [symmetric] Let_def)
    next
      case (Cons f fs)
      have upd: "media_inv (set_task t (k\<lparr>tk_queue := fs, tk_phase := Receiving rx'\<rparr>) (set_task t (k\<lparr>tk_queue := fs\<rparr>) M))"
        if "rx_ok (tk_size k) rx'" for rx'
      proof -
        have "media_inv (set_task t (k\<lparr>tk_queue := fs, tk_phase := Receiving rx'\<rparr>) M)"
          using that t(2, 3) Cons by (intro media_inv_update M t(1)) (auto simp: task_ok_def receiving_def)
        then show ?thesis by (simp add: set_task_def media_inv_def)
      qed
      have "task_step X sw now t M = (case receive_frame X sw (tk_size k) f rx of
          Err (rx, e) \<Rightarrow> end_task now t (rx_frames rx) (Some e) (rx_started rx)
            (set_task t (k\<lparr>tk_queue := fs, tk_phase := Receiving rx\<rparr>) (set_task t (k\<lparr>tk_queue := fs\<rparr>) M))
        | Ok (rx, keyframe) \<Rightarrow> out (tk_key k) (UMediaAck (tk_stream_id k) (mf_pts f) keyframe)
            (set_task t (k\<lparr>tk_queue := fs, tk_phase := Receiving rx\<rparr>) (set_task t (k\<lparr>tk_queue := fs\<rparr>) M)))"
        using t(1) rx Cons by (simp add: task_step_def k_def [symmetric] Let_def)
      moreover have "media_inv (end_task now t n err st (set_task t (k\<lparr>tk_queue := fs, tk_phase := Receiving rx'\<rparr>) (set_task t (k\<lparr>tk_queue := fs\<rparr>) M)))"
        if "rx_ok (tk_size k) rx'" for rx' n err st
        by (rule end_task_inv) (use upd [OF that] t(1) in \<open>simp_all add: set_task_def receiving_def\<close>)
      ultimately show ?thesis using receive_frame_ok [OF rxok, of X sw f] upd
        by (auto split: result.splits prod.splits)
    qed
  qed
qed

lemma on_open_inv: "media_inv M \<Longrightarrow> media_inv (on_open now key peer authorized spawned m M)"
proof -
  assume M: "media_inv M"
  have denied: "media_inv (open_denied now key peer m r M)" for r
    using M by (simp add: open_denied_def Let_def split: option.split)
  have size: "size_ok (fst s) (snd s)" if "validate m = Ok s" for s
    using that by (auto simp: validate_def Let_def split: if_splits)
  have new: "media_inv (M\<lparr>me_streams := st, me_tasks := me_tasks M @ [k]\<rparr>)" if "task_ok k" "\<not> receiving k" for st k
    using M that by (auto simp: media_inv_def)
  show ?thesis
    unfolding on_open_def Let_def
    using denied size by (auto simp: task_ok_def receiving_def intro!: remove_stream_inv new split: result.split prod.split)
qed

lemma on_frame_inv: "media_inv M \<Longrightarrow> media_inv (on_frame key f M)"
proof -
  assume M: "media_inv M"
  have "media_inv (set_task t (k\<lparr>tk_queue := tk_queue k @ [f]\<rparr>) M)"
    if "k = me_tasks M ! t" "length (tk_queue k) < MAX_QUEUED" for t k
  proof (cases "t < length (me_tasks M)")
    case True
    then show ?thesis using M task_ok_nth [OF M True] that
      by (intro media_inv_update) (auto simp: task_ok_def receiving_def split: Phase.splits)
  next
    case False
    then show ?thesis using M by (simp add: set_task_def media_inv_def list_update_beyond)
  qed
  then show ?thesis using M remove_stream_inv [OF M]
    by (auto simp: on_frame_def Let_def split: option.split)
qed

lemma media_step_inv: assumes "media_inv M" shows "media_inv (media_step X sw op M)"
proof (cases op)
  case (OpStop key)
  then show ?thesis using assms remove_stream_inv [OF assms] by (auto simp: receiver_stop_def split: option.split)
next
  case (OpEnd key)
  then show ?thesis
    using assms remove_stream_inv [OF assms] by (auto simp: receiver_close_def Let_def split: option.split)
qed (use assms in \<open>simp_all only: media_step.simps receiver_on_close_def on_open_inv task_open_inv task_step_inv on_frame_inv remove_stream_inv\<close>)

interpretation media: guarded_machine "media_step X sw" media_inv "\<lambda>_. True" for X sw
  by unfold_locales (simp add: media_step_inv)

text \<open>C37: The virtual camera has one owner and sees one size. In every interleaving of messages, threads and closings:
  at most one task receives, and exactly while the reservation is held; every task's size is one of the
  accepted formats, its channel holds at most 16 frames; and the first packet that a task hands to the
  decoder is a keyframe that declares exactly the size agreed when the stream was opened.\<close>

theorem camera_exclusive:
  "let M = fold (media_step X sw) ops media_new in
     length (filter receiving (me_tasks M)) = (if me_busy M then 1 else 0)
     \<and> (\<forall>k\<in>set (me_tasks M). size_ok (fst (tk_size k)) (snd (tk_size k)) \<and> length (tk_queue k) \<le> 16
         \<and> (\<forall>rx. tk_phase k = Receiving rx \<and> rx_history rx \<noteq> [] \<longrightarrow>
              vp8_keyframe_size (hd (rx_history rx)) = Some (tk_size k)))"
proof -
  define M where "M = fold (media_step X sw) ops media_new"
  have "media_inv media_new" by (simp add: media_inv_def media_new_def)
  then have "media_inv M" unfolding M_def by (rule media.run_inv) simp
  then show ?thesis unfolding M_def [symmetric] Let_def
    by (auto simp: media_inv_def task_ok_def rx_ok_def MAX_QUEUED_def split: Phase.splits dest!: bspec)
qed

section \<open>A keyframe that is not announced\<close>

definition keyframe_bytes :: "nat \<Rightarrow> nat \<Rightarrow> nat list" where
  "keyframe_bytes w h = [0, 0, 0, 0x9d, 0x01, 0x2a, w mod 256, w div 256, h mod 256, h div 256]"

definition quiet_codec :: Codec where
  "quiet_codec = \<lparr>cd_new = Ok (), cd_decode = (\<lambda>_ _. Ok [])\<rparr>"

definition demo_peer :: Peer where
  "demo_peer = \<lparr>pe_conn_id = 7, pe_id = ''123'', pe_name = ''c'', pe_ip = ''10.0.0.1''\<rparr>"

definition demo_frames :: "MediaOp list" where
  "demo_frames =
     [OpOpen 0 (HostKey 7) (Some demo_peer) (Ok ()) True
        \<lparr>mo_stream_id = 1, mo_kind = KIND_CAMERA, mo_codec = CODEC_VP8, mo_width = 640, mo_height = 480, mo_fps = 15, mo_name = ''cam''\<rparr>,
      OpTaskOpen 0 False (Ok ''virtual'') 0,
      OpFrame (HostKey 7) \<lparr>mf_stream_id = 1, mf_data = keyframe_bytes 640 480, mf_key = True, mf_pts = 1\<rparr>,
      OpFrame (HostKey 7) \<lparr>mf_stream_id = 1, mf_data = keyframe_bytes 16383 16383, mf_key = False, mf_pts = 2\<rparr>,
      OpTaskStep 1 0, OpTaskStep 2 0]"

definition demo_media :: Media where
  "demo_media = fold (media_step quiet_codec (\<lambda>_ _. Ok ())) demo_frames media_new"

definition demo_task :: "MediaFrame list \<Rightarrow> Phase \<Rightarrow> Task" where
  "demo_task fs ph =
     \<lparr>tk_key = HostKey 7, tk_peer = Some demo_peer, tk_stream_id = 1, tk_size = (640, 480), tk_fps = 15, tk_name = ''cam'',
      tk_queue = fs, tk_connected = True, tk_phase = ph\<rparr>"

definition demo_rx :: "bool \<Rightarrow> nat list list \<Rightarrow> Rx" where
  "demo_rx w h = \<lparr>rx_frames = 0, rx_waiting_key = w, rx_history = h, rx_started = 0\<rparr>"

definition demo_at :: "MediaFrame list \<Rightarrow> Phase \<Rightarrow> bool \<Rightarrow> Media \<Rightarrow> bool" where
  "demo_at fs ph busy M =
     (me_streams M = [(HostKey 7, 1, 0)] \<and> me_tasks M = [demo_task fs ph] \<and> me_busy M = busy)"

lemma streams_frame [simp]:
  "me_streams (out key u M) = me_streams M" "me_streams (set_status key s M) = me_streams M"
  "me_streams (audit kind p ex M) = me_streams M" "me_streams (set_task t k M) = me_streams M"
  by (simp_all add: out_def set_status_def audit_def set_task_def)

lemma demo_validate:
  "validate \<lparr>mo_stream_id = 1, mo_kind = KIND_CAMERA, mo_codec = CODEC_VP8, mo_width = 640, mo_height = 480, mo_fps = 15, mo_name = ''cam''\<rparr>
   = Ok (640, 480)"
  by (simp add: validate_def as_usize_def size_ok_def MAX_LONG_def MAX_SHORT_def MAX_FPS_def)

lemma demo_open: "demo_at [] Waiting False (media_step X sw (demo_frames ! 0) media_new)"
  by (simp add: demo_frames_def on_open_def demo_validate demo_at_def demo_task_def media_new_def Let_def assoc_insert_def)

lemma demo_start:
  "demo_at [] Waiting False M \<Longrightarrow> demo_at [] (Receiving (demo_rx True [])) True (media_step quiet_codec sw (demo_frames ! 1) M)"
  by (simp add: demo_frames_def task_open_def demo_at_def demo_task_def demo_rx_def quiet_codec_def Let_def set_task_def)

lemma demo_push:
  "demo_at fs (Receiving rx) b M \<Longrightarrow> length fs < 16 \<Longrightarrow> mf_stream_id f = 1 \<Longrightarrow> length (mf_data f) \<le> 2097152 \<Longrightarrow>
   demo_at (fs @ [f]) (Receiving rx) b (media_step X sw (OpFrame (HostKey 7) f) M)"
  by (simp add: on_frame_def demo_at_def demo_task_def Let_def MAX_FRAME_BYTES_def MAX_QUEUED_def) (simp add: set_task_def)

lemma demo_take:
  assumes "demo_at (f # fs) (Receiving rx) b M" "receive_frame X sw (640, 480) f rx = Ok (rx', kf)"
  shows "demo_at fs (Receiving rx') b (media_step X sw (OpTaskStep now 0) M)"
  using assms by (simp add: task_step_def demo_at_def demo_task_def Let_def) (simp add: set_task_def)

lemma keyframe_bytes_size: "w < 16384 \<Longrightarrow> h < 16384 \<Longrightarrow> vp8_keyframe_size (keyframe_bytes w h) = Some (w, h)"
  by (simp add: vp8_keyframe_size_def keyframe_bytes_def mult.commute [of 256])

lemma demo_frames_nth:
  "demo_frames ! 2 = OpFrame (HostKey 7) \<lparr>mf_stream_id = 1, mf_data = keyframe_bytes 640 480, mf_key = True, mf_pts = 1\<rparr>"
  "demo_frames ! 3 = OpFrame (HostKey 7) \<lparr>mf_stream_id = 1, mf_data = keyframe_bytes 16383 16383, mf_key = False, mf_pts = 2\<rparr>"
  "demo_frames = [demo_frames ! 0, demo_frames ! 1, demo_frames ! 2, demo_frames ! 3, OpTaskStep 1 0, OpTaskStep 2 0]"
  by (simp_all add: demo_frames_def)

lemma demo_media_at:
  "demo_at [] (Receiving (demo_rx False [keyframe_bytes 640 480, keyframe_bytes 16383 16383])) True demo_media"
proof -
  have len: "length (keyframe_bytes w h) \<le> 2097152" for w h by (simp add: keyframe_bytes_def)
  have r1: "receive_frame quiet_codec sw (640, 480) \<lparr>mf_stream_id = 1, mf_data = keyframe_bytes 640 480, mf_key = True, mf_pts = 1\<rparr> (demo_rx True [])
      = Ok (demo_rx False [keyframe_bytes 640 480], False)" for sw
    by (simp add: receive_frame_def keyframe_bytes_size decode_def quiet_codec_def demo_rx_def Let_def)
  have r2: "receive_frame quiet_codec sw (640, 480) \<lparr>mf_stream_id = 1, mf_data = keyframe_bytes 16383 16383, mf_key = False, mf_pts = 2\<rparr>
      (demo_rx False [keyframe_bytes 640 480]) = Ok (demo_rx False [keyframe_bytes 640 480, keyframe_bytes 16383 16383], False)" for sw
    by (simp add: receive_frame_def decode_def quiet_codec_def demo_rx_def Let_def)
  define step where "step = media_step quiet_codec (\<lambda>_ _. Ok ())"
  define f1 f2 where "f1 = \<lparr>mf_stream_id = 1, mf_data = keyframe_bytes 640 480, mf_key = True, mf_pts = 1\<rparr>"
    and "f2 = \<lparr>mf_stream_id = 1, mf_data = keyframe_bytes 16383 16383, mf_key = False, mf_pts = 2\<rparr>"
  define M2 where "M2 = step (demo_frames ! 1) (step (demo_frames ! 0) media_new)"
  have "demo_at [] (Receiving (demo_rx True [])) True M2"
    unfolding M2_def step_def by (rule demo_start, rule demo_open)
  then have "demo_at [f1] (Receiving (demo_rx True [])) True (step (OpFrame (HostKey 7) f1) M2)"
    unfolding step_def using demo_push [of "[]" _ True M2 f1] len by (simp add: f1_def)
  then have "demo_at [f1, f2] (Receiving (demo_rx True [])) True (step (OpFrame (HostKey 7) f2) (step (OpFrame (HostKey 7) f1) M2))"
    unfolding step_def using demo_push [of "[f1]" _ True _ f2] len by (simp add: f2_def)
  then have "demo_at [f2] (Receiving (demo_rx False [keyframe_bytes 640 480])) True
      (step (OpTaskStep 1 0) (step (OpFrame (HostKey 7) f2) (step (OpFrame (HostKey 7) f1) M2)))"
    unfolding step_def unfolding f1_def by (rule demo_take [OF _ r1])
  then have "demo_at [] (Receiving (demo_rx False [keyframe_bytes 640 480, keyframe_bytes 16383 16383])) True
      (step (OpTaskStep 2 0) (step (OpTaskStep 1 0) (step (OpFrame (HostKey 7) f2) (step (OpFrame (HostKey 7) f1) M2))))"
    unfolding step_def unfolding f2_def by (rule demo_take [OF _ r2])
  then show ?thesis
    unfolding demo_media_def by (subst demo_frames_nth(3)) (simp add: demo_frames_nth(1, 2) M2_def step_def f1_def f2_def)
qed

text \<open>The size of a keyframe is checked on the sender's word only: after one good keyframe, a packet that is a VP8
  keyframe of 16383 by 16383 but is not flagged as one goes to the decoder of a stream opened at 640 by 480, in
  spite of the check made so that a peer cannot have the decoder allocate enormous images.\<close>

theorem unflagged_keyframe_decoded:
  "vp8_keyframe_size (keyframe_bytes 16383 16383) = Some (16383, 16383)
   \<and> map tk_size (me_tasks demo_media) = [(640, 480)]
   \<and> map tk_phase (me_tasks demo_media) =
       [Receiving \<lparr>rx_frames = 0, rx_waiting_key = False,
          rx_history = [keyframe_bytes 640 480, keyframe_bytes 16383 16383], rx_started = 0\<rparr>]"
  using demo_media_at by (simp add: keyframe_bytes_size demo_at_def demo_task_def demo_rx_def)

theorem camera_exclusive_witness:
  "me_busy demo_media \<and> length (filter receiving (me_tasks demo_media)) = 1"
proof -
  have "me_busy demo_media" using demo_media_at by (simp add: demo_at_def)
  then show ?thesis
    using camera_exclusive [of quiet_codec "\<lambda>_ _. Ok ()" demo_frames, unfolded demo_media_def [symmetric] Let_def] by simp
qed

section \<open>Refusals in the audit\<close>

text \<open>The refusals of one connection at the given times, from the entry on: how many are audited.\<close>

fun audited :: "nat list \<Rightarrow> (nat \<times> nat) option \<Rightarrow> nat" where
  "audited [] e = 0"
| "audited (now # ts) e =
     (let e' = count_denied now e in (if snd e' \<le> DENIED_AUDITS_PER_MINUTE then 1 else 0) + audited ts (Some e'))"

text \<open>\<open>audited\<close> counts what \<open>audit_denied\<close> adds to the audit.\<close>

lemma audited_run:
  "length (me_audits (fold (\<lambda>now. audit_denied now kind p extra) ts M))
   = length (me_audits M) + audited ts (map_of (me_denied M) (pe_conn_id p))"
  by (induction ts arbitrary: M) (simp_all add: audit_denied_def audit_def Let_def)

lemma audited_bound:
  assumes "sorted (since # ts)" "length ts + n \<le> u32_max" "ts \<noteq> [] \<longrightarrow> last ts \<le> T" "since \<le> T"
  shows "audited ts (Some (since, n)) \<le> (30 - min n 30) + 30 * ((T - since) div MINUTE)"
  using assms
proof (induction ts arbitrary: since n)
  case (Cons now ts)
  have srt: "since \<le> now" "sorted (now # ts)" using Cons.prems(1) by auto
  have T: "now \<le> T" using Cons.prems(3) srt(2) by (cases ts rule: rev_cases) (auto simp: sorted_append)
  have nT: "ts \<noteq> [] \<longrightarrow> last ts \<le> T" using Cons.prems(3) by auto
  show ?case
  proof (cases "now - since \<ge> MINUTE")
    case True
    have one: "add_u32 0 1 = 1" by (simp add: add_u32_def u32_max_def)
    have "audited ts (Some (now, 1)) \<le> 29 + 30 * ((T - now) div MINUTE)"
      using Cons.IH [of now 1] srt(2) Cons.prems(2) nT T by simp
    moreover have "30 * ((T - now) div MINUTE) + 30 \<le> 30 * ((T - since) div MINUTE)"
    proof -
      have "(T - now) div MINUTE + 1 = (T - now + MINUTE) div MINUTE" by (simp add: MINUTE_def)
      also have "\<dots> \<le> (T - since) div MINUTE" using True T srt by (intro div_le_mono) simp
      finally show ?thesis by simp
    qed
    moreover have "count_denied now (Some (since, n)) = (now, 1)"
      using True one by (simp add: count_denied_def sat_sub_def)
    ultimately show ?thesis by (simp add: Let_def DENIED_AUDITS_PER_MINUTE_def)
  next
    case False
    have "count_denied now (Some (since, n)) = (since, n + 1)"
      using False Cons.prems(2) by (simp add: count_denied_def sat_sub_def)
    moreover have "sorted (since # ts)" using srt by auto
    then have "audited ts (Some (since, n + 1)) \<le> (30 - min (n + 1) 30) + 30 * ((T - since) div MINUTE)"
      using Cons.prems(2, 4) nT by (intro Cons.IH) auto
    ultimately show ?thesis by (auto simp: Let_def DENIED_AUDITS_PER_MINUTE_def)
  qed
qed simp

text \<open>A peer cannot fill the audit with refused requests: whatever it asks and however often, the refusals of one
  connection that reach the audit up to a time T are at most 30 for every minute begun since the first one.\<close>

theorem denied_audits_bounded:
  assumes "sorted ts" "ts = first # rest" "last ts \<le> T" "length ts \<le> u32_max"
    and "map_of (me_denied M) (pe_conn_id p) = None"
  shows "length (me_audits (fold (\<lambda>now. audit_denied now kind p extra) ts M))
    \<le> length (me_audits M) + 30 * (1 + (T - first) div MINUTE)"
proof -
  have "count_denied first None = (first, 1)"
    by (simp add: count_denied_def sat_sub_def MINUTE_def add_u32_def u32_max_def)
  then have a: "audited ts None = 1 + audited rest (Some (first, 1))"
    by (simp add: assms(2) Let_def DENIED_AUDITS_PER_MINUTE_def)
  have "first \<le> T" using assms(1, 2, 3) by (cases rest rule: rev_cases) (auto simp: sorted_append)
  then have "audited rest (Some (first, 1)) \<le> (30 - min 1 30) + 30 * ((T - first) div MINUTE)"
    using assms(1-4) by (intro audited_bound) (auto split: if_splits)
  then show ?thesis unfolding audited_run assms(5) a by simp
qed

theorem denied_audits_bounded_witness:
  "length (me_audits (fold (\<lambda>now. audit_denied now ''x'' demo_peer []) [0, 5, 70000] media_new)) \<le> 60"
proof -
  have "length (me_audits (fold (\<lambda>now. audit_denied now ''x'' demo_peer []) [0, 5, 70000] media_new))
      \<le> length (me_audits media_new) + 30 * (1 + (70000 - 0) div MINUTE)"
    by (rule denied_audits_bounded [of _ 0 "[5, 70000]"]) (simp_all add: media_new_def u32_max_def)
  then show ?thesis by (simp add: media_new_def MINUTE_def)
qed

end
