(* ===== verification/Camera_Flow.thy ===== *)
theory Camera_Flow
  imports Camera_Claims
begin

text \<open>
  The sender of \<open>media.rs\<close> and the receiver of \<open>camera_receiver.rs\<close> together: frames and confirmations
  travel in order, and each side takes its steps when it is scheduled. The limit on unconfirmed frames
  of the sender keeps the bounded channel of the receiver from overflowing.
\<close>

section \<open>Sender, network and receiver\<close>

record Flow =
  fl_seq :: int
  fl_send :: SendStream
  fl_net :: "MediaFrame list"
  fl_media :: Media
  fl_read :: nat

definition frames_of :: "Union list \<Rightarrow> MediaFrame list" where
  "frames_of us = concat (map (\<lambda>u. case u of UMediaFrame f \<Rightarrow> [f] | _ \<Rightarrow> []) us)"

definition acks_of :: "Key \<Rightarrow> int \<Rightarrow> (Key \<times> Union) list \<Rightarrow> int list" where
  "acks_of key sid us =
     concat (map (\<lambda>(k, u). case u of UMediaAck s p _ \<Rightarrow> if k = key \<and> s = sid then [p] else [] | _ \<Rightarrow> []) us)"

text \<open>The sender's side of a message of the receiver.\<close>

definition take_message :: "Key \<Rightarrow> Key \<times> Union \<Rightarrow> SendStream \<Rightarrow> SendStream" where
  "take_message key ku s =
     (case ku of (k, u) \<Rightarrow>
        if k \<noteq> key then s
        else (case u of
                UMediaAck sid p kf \<Rightarrow> if sid = ss_stream_id s then send_on_ack p kf s else s
              | UMediaOpened sid ok m sink \<Rightarrow> if sid = ss_stream_id s then send_on_opened ok m sink s else s
              | UMediaClose sid m \<Rightarrow> if sid = ss_stream_id s then send_on_close m s else s
              | _ \<Rightarrow> s))"

definition stream_new :: "Key \<Rightarrow> int \<Rightarrow> nat \<Rightarrow> Media \<Rightarrow> bool" where
  "stream_new key sid t M =
     (map_of (me_streams M) key = Some (sid, t) \<and> t < length (me_tasks M) \<and> tk_key (me_tasks M ! t) = key
      \<and> tk_stream_id (me_tasks M ! t) = sid \<and> tk_queue (me_tasks M ! t) = [])"

text \<open>\<open>n\<close> is the most packets the encoder gives for one image.\<close>

inductive flow_run :: "Codec \<Rightarrow> (nat \<Rightarrow> Image \<Rightarrow> (unit, string) result) \<Rightarrow> nat \<Rightarrow> Key \<Rightarrow> int \<Rightarrow> nat \<Rightarrow> Flow \<Rightarrow> bool"
  for X sw n key sid t where
  flow_start: "stream_new key sid t M \<Longrightarrow>
    flow_run X sw n key sid t \<lparr>fl_seq = 0, fl_send = send_new sid, fl_net = [], fl_media = M, fl_read = length (me_out M)\<rparr>"
| flow_send: "flow_run X sw n key sid t F \<Longrightarrow>
    send_turn fsz rr (Ok packets) esz (fl_seq F) (fl_send F) = Ok (seq, s, msgs) \<Longrightarrow> length packets \<le> n \<Longrightarrow>
    flow_run X sw n key sid t (F\<lparr>fl_seq := seq, fl_send := s, fl_net := fl_net F @ frames_of msgs\<rparr>)"
| flow_deliver: "flow_run X sw n key sid t F \<Longrightarrow> fl_net F = f # fs \<Longrightarrow>
    flow_run X sw n key sid t (F\<lparr>fl_net := fs, fl_media := on_frame key f (fl_media F)\<rparr>)"
| flow_open: "flow_run X sw n key sid t F \<Longrightarrow>
    flow_run X sw n key sid t (F\<lparr>fl_media := task_open X now expired sink t (fl_media F)\<rparr>)"
| flow_receive: "flow_run X sw n key sid t F \<Longrightarrow>
    flow_run X sw n key sid t (F\<lparr>fl_media := task_step X sw now t (fl_media F)\<rparr>)"
| flow_answer: "flow_run X sw n key sid t F \<Longrightarrow> fl_read F < length (me_out (fl_media F)) \<Longrightarrow>
    flow_run X sw n key sid t (F\<lparr>fl_send := take_message key (me_out (fl_media F) ! fl_read F) (fl_send F), fl_read := Suc (fl_read F)\<rparr>)"

section \<open>The invariant\<close>

text \<open>While the stream is open, the numbers of the confirmations on their way, of the frames in the channel and of the
  frames on their way are, in this order, those after the last confirmed one up to the last sent.\<close>

definition flow_ok :: "nat \<Rightarrow> Key \<Rightarrow> int \<Rightarrow> nat \<Rightarrow> Flow \<Rightarrow> bool" where
  "flow_ok n key sid t F =
     (let M = fl_media F; k = me_tasks M ! t in
      ss_stream_id (fl_send F) = sid \<and> t < length (me_tasks M) \<and> tk_key k = key \<and> tk_stream_id k = sid
      \<and> fl_read F \<le> length (me_out M) \<and> map_of (me_streams M) key \<in> {None, Some (sid, t)}
      \<and> (map_of (me_streams M) key = Some (sid, t) \<longrightarrow>
           acks_of key sid (drop (fl_read F) (me_out M)) @ map mf_pts (tk_queue k) @ map mf_pts (fl_net F)
             = [ss_acked (fl_send F) + 1 .. fl_seq F]
           \<and> fl_seq F \<le> ss_acked (fl_send F) + 2 + int n \<and> ss_acked (fl_send F) \<le> fl_seq F))"

lemma acks_simps [simp]:
  "acks_of key sid [] = []" "acks_of key sid (xs @ ys) = acks_of key sid xs @ acks_of key sid ys"
  "acks_of key sid [(k, UMediaOpened a b c d)] = []" "acks_of key sid [(k, UMediaClose a c)] = []"
  "acks_of key sid [(k, UMediaAck s p kf)] = (if k = key \<and> s = sid then [p] else [])"
  by (simp_all add: acks_of_def)

lemma send_turn_Ok:
  assumes "send_turn fsz rr (Ok packets) esz seq s = Ok (seq', s', msgs)"
  shows "ss_acked s' = ss_acked s \<and> ss_stream_id s' = ss_stream_id s \<and>
    ((seq' = seq \<and> msgs = []) \<or>
     (seq - ss_acked s < 3 \<and> seq' = seq + int (length packets) \<and> map mf_pts (frames_of msgs) = [seq + 1 .. seq']))"
proof (cases "seq - ss_acked s \<ge> MAX_IN_FLIGHT")
  case True
  with assms show ?thesis by (auto simp: send_turn_def)
next
  case False
  have upto: "map mf_pts (frames_of (map (\<lambda>(i, data, key). UMediaFrame \<lparr>mf_stream_id = sid, mf_data = data, mf_key = key, mf_pts = a + 1 + int i\<rparr>) (enumerate m ps)))
      = [a + 1 + int m .. a + int m + int (length ps)]" for sid a m ps
  proof (induction ps arbitrary: m)
    case (Cons p ps)
    obtain d k where p: "p = (d, k)" by (cases p)
    show ?case using Cons.IH [of "Suc m"] by (subst upto.simps) (simp add: p frames_of_def ac_simps)
  qed (simp add: frames_of_def)
  from assms False show ?thesis
    using upto [of "ss_stream_id s" seq 0 packets]
    by (auto simp: send_turn_def Let_def MAX_IN_FLIGHT_def ac_simps split: if_splits result.splits)
qed

section \<open>What the receiver's steps do to the stream\<close>

definition stream_at :: "Key \<Rightarrow> int \<Rightarrow> nat \<Rightarrow> Media \<Rightarrow> bool" where
  "stream_at key sid t M =
     (t < length (me_tasks M) \<and> tk_key (me_tasks M ! t) = key \<and> tk_stream_id (me_tasks M ! t) = sid
      \<and> map_of (me_streams M) key \<in> {None, Some (sid, t)})"

text \<open>The messages \<open>us\<close> are sent and the channel becomes \<open>q\<close>, unless the stream is closed.\<close>

definition moves :: "Key \<Rightarrow> int \<Rightarrow> nat \<Rightarrow> Media \<Rightarrow> (Key \<times> Union) list \<Rightarrow> MediaFrame list \<Rightarrow> Media \<Rightarrow> bool" where
  "moves key sid t M us q M' =
     (stream_at key sid t M' \<and> me_out M' = me_out M @ us
      \<and> (map_of (me_streams M') key = None
         \<or> map_of (me_streams M') key = map_of (me_streams M) key \<and> tk_queue (me_tasks M' ! t) = q))"

lemma moves_refl: "stream_at key sid t M \<Longrightarrow> moves key sid t M [] (tk_queue (me_tasks M ! t)) M"
  by (simp add: moves_def)

lemma out_frame [simp]:
  "me_out (out key u M) = me_out M @ [(key, u)]" "me_out (set_status key s M) = me_out M" "me_out (audit kind p ex M) = me_out M"
  "me_out (audit_denied now kind p ex M) = me_out M" "me_out (set_task t k M) = me_out M"
  "me_streams (audit_denied now kind p ex M) = me_streams M"
  by (simp_all add: out_def set_status_def audit_def audit_denied_def set_task_def Let_def)

lemma set_task_nth [simp]:
  "length (me_tasks (set_task t k M)) = length (me_tasks M)"
  "t < length (me_tasks M) \<Longrightarrow> me_tasks (set_task t k M) ! t = k"
  by (simp_all add: set_task_def)

text \<open>A step that only changes the rest of the task.\<close>

lemma moves_set:
  assumes "moves key sid t M us q M'" "tk_key k = key" "tk_stream_id k = sid" "tk_queue k = q'"
  shows "moves key sid t M us q' (set_task t k M')"
  using assms by (auto simp: moves_def stream_at_def)

lemma moves_out: "moves key sid t M us q M' \<Longrightarrow> moves key sid t M (us @ [(k, u)]) q (out k u M')"
  by (auto simp: moves_def stream_at_def)

lemma moves_same:
  assumes "moves key sid t M us q M'" "me_streams M'' = me_streams M'" "me_tasks M'' = me_tasks M'" "me_out M'' = me_out M'"
  shows "moves key sid t M us q M''"
  using assms by (auto simp: moves_def stream_at_def)

lemma moves_remove:
  assumes "moves key sid t M us q M'"
  shows "moves key sid t M us q (remove_stream key sid M')" "map_of (me_streams (remove_stream key sid M')) key = None"
  using assms by (auto simp: moves_def stream_at_def remove_stream_def split: option.splits)

lemma moves_closed: "moves key sid t M us q M' \<Longrightarrow> map_of (me_streams M') key = None \<Longrightarrow> moves key sid t M us q' M'"
  by (simp add: moves_def)

lemma end_task_moves:
  assumes "moves key sid t M us q M'"
  shows "\<exists>us'. moves key sid t M (us @ us') q (end_task now t n err st M') \<and> acks_of key sid us' = []
    \<and> map_of (me_streams (end_task now t n err st M')) key = None"
proof -
  define k where "k = me_tasks M' ! t"
  have k: "tk_key k = key" "tk_stream_id k = sid" using assms by (simp_all add: moves_def stream_at_def k_def)
  define us' where "us' = (case err of Some e \<Rightarrow> [(key, UMediaClose sid e)] | None \<Rightarrow> [])"
  define M1 where "M1 = (case err of Some e \<Rightarrow> out key (UMediaClose sid e) M' | None \<Rightarrow> M')"
  have m1: "moves key sid t M (us @ us') q M1"
    using assms moves_out [OF assms] by (auto simp: M1_def us'_def split: option.split)
  note m2 = moves_remove [OF m1]
  define M2 where "M2 = remove_stream key sid M1"
  obtain M3 where M3: "end_task now t n err st M' = (set_task t ((me_tasks M3 ! t)\<lparr>tk_phase := Ended\<rparr>) M3)\<lparr>me_busy := False\<rparr>"
    "me_streams M3 = me_streams M2" "me_tasks M3 = me_tasks M2" "me_out M3 = me_out M2"
  proof -
    define M3 where "M3 = (case tk_peer k of
        Some p \<Rightarrow> audit ''clanto_forward_camera_closed'' p
          [(''frames'', VNumber (int n)), (''seconds'', VNumber (int (sat_sub now st div 1000))),
           (''reason'', VString (case err of Some e \<Rightarrow> e | None \<Rightarrow> []))]
          (set_status (tk_key k) (status_default\<lparr>st_state := (if err \<noteq> None then ''error'' else ''closed''),
             st_message := (case err of Some e \<Rightarrow> e | None \<Rightarrow> [])\<rparr>) M2)
      | None \<Rightarrow> set_status (tk_key k) (status_default\<lparr>st_state := (if err \<noteq> None then ''error'' else ''closed''),
             st_message := (case err of Some e \<Rightarrow> e | None \<Rightarrow> [])\<rparr>) M2)"
    have "end_task now t n err st M' = (set_task t ((me_tasks M3 ! t)\<lparr>tk_phase := Ended\<rparr>) M3)\<lparr>me_busy := False\<rparr>"
      unfolding end_task_def Let_def k_def [symmetric] k M3_def M2_def M1_def ..
    then show thesis by (rule that) (simp_all add: M3_def split: option.split)
  qed
  have m3: "moves key sid t M (us @ us') q M3" using m2(1) M3(2-4) unfolding M2_def by (rule moves_same)
  have t3: "tk_key (me_tasks M3 ! t) = key" "tk_stream_id (me_tasks M3 ! t) = sid" using m3 by (simp_all add: moves_def stream_at_def)
  have "moves key sid t M (us @ us') (tk_queue (me_tasks M3 ! t)) (set_task t ((me_tasks M3 ! t)\<lparr>tk_phase := Ended\<rparr>) M3)"
    by (rule moves_set [OF m3]) (simp_all add: t3)
  moreover have gone: "map_of (me_streams (end_task now t n err st M')) key = None"
    using m2(2) by (simp add: M3(1, 2) M2_def)
  ultimately have "moves key sid t M (us @ us') q (end_task now t n err st M')"
    by (auto simp: moves_def stream_at_def M3(1))
  then show ?thesis using gone by (intro exI [of _ us']) (auto simp: us'_def split: option.split)
qed

lemma task_denied_moves:
  assumes "stream_at key sid t M"
  shows "\<exists>us. moves key sid t M us (tk_queue (me_tasks M ! t)) (task_denied now t r M) \<and> acks_of key sid us = []"
proof -
  define k where "k = me_tasks M ! t"
  have k: "tk_key k = key" "tk_stream_id k = sid" using assms by (simp_all add: stream_at_def k_def)
  define M1 where "M1 = remove_stream key sid M"
  note m1 = moves_remove [OF moves_refl [OF assms], folded M1_def k_def]
  obtain M2 where M2: "task_denied now t r M = set_task t ((me_tasks M2 ! t)\<lparr>tk_phase := Ended\<rparr>) M2"
    "me_streams M2 = me_streams M1" "me_tasks M2 = me_tasks M1" "me_out M2 = me_out M1 @ [(key, UMediaOpened sid False r [])]"
  proof -
    define M2 where "M2 = out key (UMediaOpened sid False r [])
      (set_status key (status_default\<lparr>st_state := ''error'', st_message := r\<rparr>)
        (case tk_peer k of
           Some p \<Rightarrow> audit_denied now ''clanto_forward_camera_denied'' p
             [(''stream'', VString (tk_name k)), (''width'', VNumber (int (fst (tk_size k)))),
              (''height'', VNumber (int (snd (tk_size k)))), (''fps'', VNumber (tk_fps k)), (''reason'', VString r)] M1
         | None \<Rightarrow> M1))"
    have "task_denied now t r M = set_task t ((me_tasks M2 ! t)\<lparr>tk_phase := Ended\<rparr>) M2"
      unfolding task_denied_def Let_def k_def [symmetric] k M2_def M1_def ..
    then show thesis by (rule that) (simp_all add: M2_def split: option.split)
  qed
  have t2: "tk_key (me_tasks M2 ! t) = key" "tk_stream_id (me_tasks M2 ! t) = sid"
    using m1(1) by (simp_all add: moves_def stream_at_def M2(3))
  have "moves key sid t M [(key, UMediaOpened sid False r [])] (tk_queue k) M2"
    using moves_same [OF moves_out [OF m1(1), of key "UMediaOpened sid False r []"], of M2] by (simp add: M2(2-4))
  then have "moves key sid t M [(key, UMediaOpened sid False r [])] (tk_queue (me_tasks M2 ! t)) (task_denied now t r M)"
    unfolding M2(1) by (rule moves_set) (simp_all add: t2)
  moreover have "map_of (me_streams (task_denied now t r M)) key = None" using m1(2) by (simp add: M2(1, 2))
  ultimately have "moves key sid t M [(key, UMediaOpened sid False r [])] (tk_queue k) (task_denied now t r M)"
    by (rule moves_closed)
  then show ?thesis unfolding k_def by (intro exI [of _ "[(key, UMediaOpened sid False r [])]"]) simp
qed

lemma task_open_moves:
  assumes "stream_at key sid t M"
  shows "\<exists>us. moves key sid t M us (tk_queue (me_tasks M ! t)) (task_open X now expired sink t M) \<and> acks_of key sid us = []"
proof -
  define k where "k = me_tasks M ! t"
  have k: "tk_key k = key" "tk_stream_id k = sid" "t < length (me_tasks M)" using assms by (simp_all add: stream_at_def k_def)
  have keep: "\<exists>us. moves key sid t M us (tk_queue k) M \<and> acks_of key sid us = []"
    using moves_refl [OF assms] by (auto simp: k_def intro: exI [of _ "[]"])
  have denied: "\<exists>us. moves key sid t M us (tk_queue k) (task_denied now t r M) \<and> acks_of key sid us = []" for r
    using task_denied_moves [OF assms] by (simp add: k_def)
  define rx where "rx = \<lparr>rx_frames = 0, rx_waiting_key = True, rx_history = [], rx_started = now\<rparr>"
  define M1 where "M1 name = out key (UMediaOpened sid True [] name)
    (set_status key (status_default\<lparr>st_state := ''active'', st_sink := name, st_width := fst (tk_size k), st_height := snd (tk_size k)\<rparr>)
      (case tk_peer k of Some p \<Rightarrow> audit ''clanto_forward_camera_opened'' p
         [(''stream'', VString (tk_name k)), (''width'', VNumber (int (fst (tk_size k)))),
          (''height'', VNumber (int (snd (tk_size k)))), (''fps'', VNumber (tk_fps k)), (''sink'', VString name)]
         (M\<lparr>me_busy := True\<rparr>)
       | None \<Rightarrow> M\<lparr>me_busy := True\<rparr>))" for name
  have M1: "me_streams (M1 name) = me_streams M" "me_tasks (M1 name) = me_tasks M"
    "me_out (M1 name) = me_out M @ [(key, UMediaOpened sid True [] name)]" for name
    by (simp_all add: M1_def split: option.split)
  have m1: "moves key sid t M [(key, UMediaOpened sid True [] name)] (tk_queue k) (set_task t (k\<lparr>tk_phase := Receiving rx\<rparr>) (M1 name))" for name
  proof (rule moves_set)
    show "moves key sid t M [(key, UMediaOpened sid True [] name)] (tk_queue k) (M1 name)"
      using assms by (auto simp: moves_def stream_at_def M1 k_def)
  qed (simp_all add: k)
  have start: "\<exists>us. moves key sid t M us (tk_queue k) (set_task t (k\<lparr>tk_phase := Receiving rx\<rparr>) (M1 name)) \<and> acks_of key sid us = []" for name
    using m1 by (intro exI [of _ "[(key, UMediaOpened sid True [] name)]"]) simp
  have fail: "\<exists>us. moves key sid t M us (tk_queue k) (end_task now t 0 (Some e) now (set_task t (k\<lparr>tk_phase := Receiving rx\<rparr>) (M1 name)))
      \<and> acks_of key sid us = []" for name e
  proof -
    obtain us' where "moves key sid t M ([(key, UMediaOpened sid True [] name)] @ us') (tk_queue k)
        (end_task now t 0 (Some e) now (set_task t (k\<lparr>tk_phase := Receiving rx\<rparr>) (M1 name)))" "acks_of key sid us' = []"
      using end_task_moves [OF m1] by blast
    then show ?thesis by (intro exI [of _ "[(key, UMediaOpened sid True [] name)] @ us'"]) (simp del: append_Cons append_Nil)
  qed
  have "task_open X now expired sink t M \<in>
      {M} \<union> (\<lambda>r. task_denied now t r M) ` UNIV \<union> (\<lambda>name. set_task t (k\<lparr>tk_phase := Receiving rx\<rparr>) (M1 name)) ` UNIV
      \<union> (\<lambda>(e, name). end_task now t 0 (Some e) now (set_task t (k\<lparr>tk_phase := Receiving rx\<rparr>) (M1 name))) ` UNIV"
  proof (cases sink)
    case (Ok name)
    have "set_task t ((me_tasks (M1 name) ! t)\<lparr>tk_phase := Receiving rx\<rparr>) (M1 name) = set_task t (k\<lparr>tk_phase := Receiving rx\<rparr>) (M1 name)"
      by (simp add: M1 k_def)
    then have "task_open X now expired sink t M =
      (if tk_phase k \<noteq> Waiting then M
       else if me_busy M then (if expired then task_denied now t ''The virtual camera is in use by another session'' M else M)
       else (case cd_new X of Ok _ \<Rightarrow> set_task t (k\<lparr>tk_phase := Receiving rx\<rparr>) (M1 name)
             | Err e \<Rightarrow> end_task now t 0 (Some e) now (set_task t (k\<lparr>tk_phase := Receiving rx\<rparr>) (M1 name))))"
      using k(3) unfolding task_open_def Let_def k_def [symmetric] k Ok rx_def [symmetric] M1_def [symmetric] by (simp split: result.split)
    then show ?thesis by (auto split: result.split)
  next
    case (Err e)
    then show ?thesis using k(3) by (auto simp: task_open_def Let_def k_def [symmetric])
  qed
  then show ?thesis unfolding k_def [symmetric] using keep denied start fail by auto
qed

lemma task_step_moves:
  assumes "stream_at key sid t M"
  shows "\<exists>us q. moves key sid t M us q (task_step X sw now t M)
    \<and> (map_of (me_streams (task_step X sw now t M)) key = None
       \<or> acks_of key sid us @ map mf_pts q = map mf_pts (tk_queue (me_tasks M ! t)))"
proof -
  define k where "k = me_tasks M ! t"
  have k: "tk_key k = key" "tk_stream_id k = sid" "t < length (me_tasks M)" using assms by (simp_all add: stream_at_def k_def)
  have keep: ?thesis if "task_step X sw now t M = M"
    using moves_refl [OF assms] that by (intro exI [of _ "[]"] exI [of _ "tk_queue k"]) (simp add: k_def)
  show ?thesis
  proof (cases "tk_phase k")
    case (Receiving rx)
    show ?thesis
    proof (cases "tk_queue k")
      case Nil
      have "\<exists>us'. moves key sid t M ([] @ us') (tk_queue k) (end_task now t (rx_frames rx) None (rx_started rx) M) \<and> acks_of key sid us' = []
          \<and> map_of (me_streams (end_task now t (rx_frames rx) None (rx_started rx) M)) key = None"
        using end_task_moves [OF moves_refl [OF assms]] by (simp add: k_def)
      moreover have "task_step X sw now t M = (if tk_connected k then M else end_task now t (rx_frames rx) None (rx_started rx) M)"
        using k(3) Receiving Nil by (simp add: task_step_def k_def [symmetric] Let_def)
      ultimately show ?thesis using keep by (cases "tk_connected k") auto
    next
      case (Cons f fs)
      define M1 where "M1 rx' = set_task t (k\<lparr>tk_queue := fs, tk_phase := Receiving rx'\<rparr>) (set_task t (k\<lparr>tk_queue := fs\<rparr>) M)" for rx'
      have m1: "moves key sid t M [] fs (M1 rx')" for rx'
        unfolding M1_def by (rule moves_set, rule moves_set, rule moves_refl [OF assms]) (simp_all add: k)
      have eq: "task_step X sw now t M = (case receive_frame X sw (tk_size k) f rx of
          Err (rx, e) \<Rightarrow> end_task now t (rx_frames rx) (Some e) (rx_started rx) (M1 rx)
        | Ok (rx, kf) \<Rightarrow> out key (UMediaAck sid (mf_pts f) kf) (M1 rx))"
        using k Receiving Cons by (simp add: task_step_def k_def [symmetric] Let_def M1_def split: result.split prod.split)
      show ?thesis
      proof (cases "receive_frame X sw (tk_size k) f rx")
        case (Ok r)
        obtain rx' kf where r: "r = (rx', kf)" by (cases r)
        have "moves key sid t M ([] @ [(key, UMediaAck sid (mf_pts f) kf)]) fs (task_step X sw now t M)"
          unfolding eq Ok r using moves_out [OF m1] by simp
        then show ?thesis unfolding k_def [symmetric] Cons
          by (intro exI [of _ "[(key, UMediaAck sid (mf_pts f) kf)]"] exI [of _ fs]) simp
      next
        case (Err r)
        obtain rx' e where r: "r = (rx', e)" by (cases r)
        show ?thesis unfolding eq Err r using end_task_moves [OF m1] by (simp add: exI) blast
      qed
    qed
  qed (use keep k(3) in \<open>simp_all add: task_step_def k_def [symmetric] Let_def\<close>)
qed

lemma on_frame_moves:
  assumes "stream_at key sid t M" "mf_stream_id f = sid"
  shows "\<exists>us. moves key sid t M us (tk_queue (me_tasks M ! t) @ [f]) (on_frame key f M) \<and> acks_of key sid us = []"
proof (cases "map_of (me_streams M) key")
  case None
  then show ?thesis using assms by (intro exI [of _ "[]"]) (simp add: moves_def on_frame_def)
next
  case (Some st)
  then have st: "st = (sid, t)" using assms(1) by (auto simp: stream_at_def)
  define k where "k = me_tasks M ! t"
  have k: "tk_key k = key" "tk_stream_id k = sid" using assms(1) by (simp_all add: stream_at_def k_def)
  have m: "moves key sid t M ([] @ [(key, UMediaClose sid r)]) q (out key (UMediaClose sid r) (remove_stream key sid M))" for r q
    by (rule moves_out, rule moves_closed [OF moves_remove [OF moves_refl [OF assms(1)]]])
  have "moves key sid t M [] (tk_queue k @ [f]) (set_task t (k\<lparr>tk_queue := tk_queue k @ [f]\<rparr>) M)"
    by (rule moves_set [OF moves_refl [OF assms(1)]]) (simp_all add: k)
  moreover have "on_frame key f M \<in> {set_task t (k\<lparr>tk_queue := tk_queue k @ [f]\<rparr>) M}
      \<union> (\<lambda>r. out key (UMediaClose sid r) (remove_stream key sid M)) ` UNIV"
    using assms(2) by (auto simp: on_frame_def Some st Let_def k_def)
  ultimately consider "moves key sid t M [] (tk_queue k @ [f]) (on_frame key f M)"
    | r where "moves key sid t M ([] @ [(key, UMediaClose sid r)]) (tk_queue k @ [f]) (on_frame key f M)"
    using m by (elim UnE singletonE imageE) metis+
  then show ?thesis
  proof cases
    case 1
    then show ?thesis by (intro exI [of _ "[]"]) (simp add: k_def)
  next
    case (2 r)
    then show ?thesis by (intro exI [of _ "[(key, UMediaClose sid r)]"]) (simp add: k_def)
  qed
qed

section \<open>Overflow\<close>

lemma flow_ok_move:
  assumes "flow_ok n key sid t F" "moves key sid t (fl_media F) us q M'"
    and "map_of (me_streams M') key = None
      \<or> acks_of key sid us @ map mf_pts q @ map mf_pts net = map mf_pts (tk_queue (me_tasks (fl_media F) ! t)) @ map mf_pts (fl_net F)"
  shows "flow_ok n key sid t (F\<lparr>fl_net := net, fl_media := M'\<rparr>)"
proof -
  have at: "stream_at key sid t M'" "me_out M' = me_out (fl_media F) @ us" using assms(2) by (simp_all add: moves_def)
  have "fl_read F \<le> length (me_out (fl_media F))" using assms(1) by (simp add: flow_ok_def Let_def)
  then have drop: "drop (fl_read F) (me_out M') = drop (fl_read F) (me_out (fl_media F)) @ us" "fl_read F \<le> length (me_out M')"
    by (simp_all add: at(2))
  show ?thesis
  proof (cases "map_of (me_streams M') key = None")
    case True
    then show ?thesis using assms(1) at(1) drop(2) by (simp add: flow_ok_def Let_def stream_at_def)
  next
    case False
    then have "map_of (me_streams M') key = map_of (me_streams (fl_media F)) key" "tk_queue (me_tasks M' ! t) = q"
      using assms(2) by (auto simp: moves_def)
    then show ?thesis using assms(1, 3) False at(1) drop by (auto simp: flow_ok_def Let_def stream_at_def)
  qed
qed

lemma flow_ok_at: "flow_ok n key sid t F \<Longrightarrow> stream_at key sid t (fl_media F)"
  by (simp add: flow_ok_def stream_at_def Let_def)

lemma take_message_acked:
  "ss_stream_id (take_message key ku s) = ss_stream_id s \<and>
   (acks_of key (ss_stream_id s) [ku] = [] \<longrightarrow> ss_acked (take_message key ku s) = ss_acked s) \<and>
   (\<forall>p. acks_of key (ss_stream_id s) [ku] = [p] \<longrightarrow> ss_acked (take_message key ku s) = max (ss_acked s) p)"
proof -
  obtain k u where ku: "ku = (k, u)" by (cases ku)
  show ?thesis
    by (cases u) (auto simp: ku take_message_def acks_of_def send_on_ack_def send_on_opened_def send_on_close_def Let_def)
qed

lemma acks_of_one: "acks_of key sid [ku] = [] \<or> (\<exists>p. acks_of key sid [ku] = [p])"
proof -
  obtain k u where ku: "ku = (k, u)" by (cases ku)
  show ?thesis by (cases u) (auto simp: ku acks_of_def)
qed

lemma flow_ok_send:
  assumes "flow_ok n key sid t F" "send_turn fsz rr (Ok packets) esz (fl_seq F) (fl_send F) = Ok (seq, s, msgs)" "length packets \<le> n"
  shows "flow_ok n key sid t (F\<lparr>fl_seq := seq, fl_send := s, fl_net := fl_net F @ frames_of msgs\<rparr>)"
proof -
  note st = send_turn_Ok [OF assms(2)]
  show ?thesis
  proof (cases "seq = fl_seq F \<and> msgs = []")
    case True
    then show ?thesis using assms(1) st by (simp add: flow_ok_def Let_def frames_of_def)
  next
    case False
    then have new: "fl_seq F - ss_acked (fl_send F) < 3" "seq = fl_seq F + int (length packets)"
      "map mf_pts (frames_of msgs) = [fl_seq F + 1 .. seq]" using st by auto
    have "[ss_acked (fl_send F) + 1 .. fl_seq F] @ [fl_seq F + 1 .. seq] = [ss_acked (fl_send F) + 1 .. seq]"
      if "ss_acked (fl_send F) \<le> fl_seq F"
      using that new(2) upto_split2 [of "ss_acked (fl_send F) + 1" "fl_seq F" seq] by (cases "ss_acked (fl_send F) = fl_seq F") auto
    then show ?thesis using assms(1, 3) st new by (auto simp: flow_ok_def Let_def simp flip: append_assoc)
  qed
qed

lemma flow_ok_answer:
  assumes "flow_ok n key sid t F" "fl_read F < length (me_out (fl_media F))"
  shows "flow_ok n key sid t (F\<lparr>fl_send := take_message key (me_out (fl_media F) ! fl_read F) (fl_send F), fl_read := Suc (fl_read F)\<rparr>)"
proof -
  define ku where "ku = me_out (fl_media F) ! fl_read F"
  have sid: "ss_stream_id (fl_send F) = sid" using assms(1) by (simp add: flow_ok_def Let_def)
  have drop: "drop (fl_read F) (me_out (fl_media F)) = [ku] @ drop (Suc (fl_read F)) (me_out (fl_media F))"
    using assms(2) by (simp add: ku_def Cons_nth_drop_Suc)
  have da: "acks_of key sid (drop (fl_read F) (me_out (fl_media F))) = acks_of key sid [ku] @ acks_of key sid (drop (Suc (fl_read F)) (me_out (fl_media F)))"
    unfolding drop by (rule acks_simps(2))
  note tm = take_message_acked [of key ku "fl_send F", unfolded sid]
  from acks_of_one [of key sid ku] show ?thesis
  proof
    assume "acks_of key sid [ku] = []"
    then show ?thesis using assms tm da by (simp add: flow_ok_def Let_def ku_def [symmetric])
  next
    assume "\<exists>p. acks_of key sid [ku] = [p]"
    then obtain p where p: "acks_of key sid [ku] = [p]" by blast
    define rest where "rest = acks_of key sid (drop (Suc (fl_read F)) (me_out (fl_media F)))
      @ map mf_pts (tk_queue (me_tasks (fl_media F) ! t)) @ map mf_pts (fl_net F)"
    show ?thesis
    proof (cases "map_of (me_streams (fl_media F)) key = Some (sid, t)")
      case True
      have eq: "p # rest = [ss_acked (fl_send F) + 1 .. fl_seq F]"
        and le: "fl_seq F \<le> ss_acked (fl_send F) + 2 + int n" "ss_acked (fl_send F) \<le> fl_seq F"
        using assms(1) True by (simp_all add: flow_ok_def Let_def da p rest_def)
      have lt: "ss_acked (fl_send F) + 1 \<le> fl_seq F"
        using eq by (metis list.distinct(1) not_less upto_Nil zless_add1_eq linorder_le_less_linear)
      then have "p = ss_acked (fl_send F) + 1" "rest = [ss_acked (fl_send F) + 1 + 1 .. fl_seq F]"
        using eq upto_rec1 [OF lt] by auto
      then show ?thesis using assms tm p le lt
        by (auto simp: flow_ok_def Let_def ku_def [symmetric] rest_def [symmetric])
    next
      case False
      then show ?thesis using assms tm by (simp add: flow_ok_def Let_def ku_def [symmetric])
    qed
  qed
qed

lemma flow_frames_sid: "flow_run X sw n key sid t F \<Longrightarrow> ss_stream_id (fl_send F) = sid \<and> (\<forall>f\<in>set (fl_net F). mf_stream_id f = sid)"
proof (induction rule: flow_run.induct)
  case (flow_send F fsz rr packets esz seq s msgs)
  have "\<forall>f\<in>set (frames_of msgs). mf_stream_id f = ss_stream_id (fl_send F)"
    using flow_send.hyps(2)
    by (auto simp: send_turn_def frames_of_def Let_def split: if_splits result.splits)
  then show ?case using flow_send send_turn_Ok [OF flow_send.hyps(2)] by auto
next
  case (flow_answer F)
  then show ?case using take_message_acked by simp
qed (auto simp: send_new_def)

lemma flow_run_ok: "flow_run X sw n key sid t F \<Longrightarrow> flow_ok n key sid t F"
proof (induction rule: flow_run.induct)
  case (flow_start M)
  then show ?case by (simp add: flow_ok_def stream_new_def send_new_def Let_def)
next
  case (flow_send F fsz rr packets esz seq s msgs)
  then show ?case by (intro flow_ok_send)
next
  case (flow_deliver F f fs)
  have "mf_stream_id f = sid" using flow_frames_sid [OF flow_deliver.hyps(1)] flow_deliver.hyps(2) by simp
  then obtain us where "moves key sid t (fl_media F) us (tk_queue (me_tasks (fl_media F) ! t) @ [f]) (on_frame key f (fl_media F))"
      "acks_of key sid us = []"
    using on_frame_moves [OF flow_ok_at [OF flow_deliver.IH]] by blast
  then show ?case using flow_deliver by (intro flow_ok_move) auto
next
  case (flow_open F now expired sink)
  obtain us where "moves key sid t (fl_media F) us (tk_queue (me_tasks (fl_media F) ! t)) (task_open X now expired sink t (fl_media F))"
      "acks_of key sid us = []"
    using task_open_moves [OF flow_ok_at [OF flow_open.IH]] by blast
  then show ?case using flow_ok_move [OF flow_open.IH, where net = "fl_net F"] by simp
next
  case (flow_receive F now)
  obtain us q where "moves key sid t (fl_media F) us q (task_step X sw now t (fl_media F))"
    and "map_of (me_streams (task_step X sw now t (fl_media F))) key = None
       \<or> acks_of key sid us @ map mf_pts q = map mf_pts (tk_queue (me_tasks (fl_media F) ! t))"
    using task_step_moves [OF flow_ok_at [OF flow_receive.IH]] by blast
  then show ?case using flow_ok_move [OF flow_receive.IH, where net = "fl_net F"] by (auto simp flip: append_assoc)
next
  case (flow_answer F)
  then show ?case by (intro flow_ok_answer)
qed

text \<open>C20: Flow control of the webcam. A sender that follows the code never overflows the receiver: in every interleaving
  of sending, delivery, decoding and confirmations, with an encoder that gives at most 14 packets per image, a
  frame that arrives on an open stream finds room in the channel, so the stream is not closed for overflow.\<close>

theorem honest_sender_never_overflows:
  assumes "flow_run X sw n key sid t F" "n \<le> 14" "fl_net F = f # fs"
    and "map_of (me_streams (fl_media F)) key = Some (sid, t)"
    and "tk_phase (me_tasks (fl_media F) ! t) \<noteq> Ended" "length (mf_data f) \<le> MAX_FRAME_BYTES"
  shows "map_of (me_streams (on_frame key f (fl_media F))) key = Some (sid, t)
    \<and> tk_queue (me_tasks (on_frame key f (fl_media F)) ! t) = tk_queue (me_tasks (fl_media F) ! t) @ [f]"
proof -
  have ok: "flow_ok n key sid t F" using flow_run_ok assms(1) .
  define k where "k = me_tasks (fl_media F) ! t"
  have t: "t < length (me_tasks (fl_media F))" using ok by (simp add: flow_ok_def Let_def)
  have "length (acks_of key sid (drop (fl_read F) (me_out (fl_media F))) @ map mf_pts (tk_queue k) @ map mf_pts (f # fs))
      = length [ss_acked (fl_send F) + 1 .. fl_seq F]"
    using ok assms(3, 4) by (simp add: flow_ok_def Let_def k_def)
  then have "length (tk_queue k) + 1 \<le> nat (fl_seq F - ss_acked (fl_send F))" by simp
  moreover have "fl_seq F \<le> ss_acked (fl_send F) + 2 + int n" using ok assms(4) by (simp add: flow_ok_def Let_def)
  ultimately have "length (tk_queue k) < MAX_QUEUED" using assms(2) by (simp add: MAX_QUEUED_def)
  moreover have "mf_stream_id f = sid" using flow_frames_sid [OF assms(1)] assms(3) by simp
  ultimately have "on_frame key f (fl_media F) = set_task t (k\<lparr>tk_queue := tk_queue k @ [f]\<rparr>) (fl_media F)"
    using assms(4-6) by (simp add: on_frame_def Let_def k_def)
  then show ?thesis using t assms(4) by (simp add: k_def)
qed

definition demo_first :: MediaFrame where
  "demo_first = \<lparr>mf_stream_id = 1, mf_data = keyframe_bytes 640 480, mf_key = True, mf_pts = 1\<rparr>"

definition demo_opened :: Media where
  "demo_opened = media_step quiet_codec (\<lambda>_ _. Ok ()) (demo_frames ! 0) media_new"

theorem honest_sender_never_overflows_witness:
  "tk_queue (me_tasks (on_frame (HostKey 7) demo_first demo_opened) ! 0) = [demo_first]"
proof -
  have at: "demo_at [] Waiting False demo_opened" unfolding demo_opened_def by (rule demo_open)
  then have new: "stream_new (HostKey 7) 1 0 demo_opened" by (simp add: demo_at_def stream_new_def demo_task_def)
  define F where "F = \<lparr>fl_seq = 0, fl_send = send_new 1, fl_net = [], fl_media = demo_opened, fl_read = length (me_out demo_opened)\<rparr>"
  have run: "flow_run quiet_codec (\<lambda>_ _. Ok ()) 1 (HostKey 7) 1 0 F" unfolding F_def using new by (rule flow_start)
  obtain s where turn: "send_turn (640, 480) (Ok ()) (Ok [(keyframe_bytes 640 480, True)]) (640, 480) (fl_seq F) (fl_send F)
      = Ok (1, s, [UMediaFrame demo_first])"
    by (simp add: send_turn_def F_def send_new_def MAX_IN_FLIGHT_def Let_def demo_first_def)
  define G where "G = F\<lparr>fl_seq := 1, fl_send := s, fl_net := fl_net F @ frames_of [UMediaFrame demo_first]\<rparr>"
  have "flow_run quiet_codec (\<lambda>_ _. Ok ()) 1 (HostKey 7) 1 0 G"
    unfolding G_def by (rule flow_send [OF run turn]) simp
  then have "tk_queue (me_tasks (on_frame (HostKey 7) demo_first (fl_media G)) ! 0) = tk_queue (me_tasks (fl_media G) ! 0) @ [demo_first]"
    using honest_sender_never_overflows [of quiet_codec "\<lambda>_ _. Ok ()" 1 "HostKey 7" 1 0 G demo_first "[]"] at
    by (simp add: G_def F_def frames_of_def demo_at_def demo_task_def demo_first_def MAX_FRAME_BYTES_def keyframe_bytes_def)
  then show ?thesis using at by (simp add: G_def F_def demo_at_def demo_task_def)
qed

end
