(* ===== verification/Forward_Host.thy ===== *)
theory Forward_Host
  imports Forward_Engine Forward_Media
begin

text \<open>
  The host side of the forwarding, \<^verbatim>\<open>src/src/clanto/forwarding/host.rs\<close>: permissions of a connection, the
  decisions of the host with their audit, the consent of the host's user to the webcam, and the
  dispatch of a message to the receiver, to the share of the webcam or to the engine.

  The statics of the module are the record \<open>HostState\<close>, with the record \<open>Media\<close> of the receiver inside it.
  The option store is read through \<open>opt\<close>; the clock, the list of cameras, DNS and the socket of a listener
  are arguments. The thread that waits for the consent is the entry it leaves in \<open>ho_timers\<close> and the operation
  \<open>consent_timeout\<close>. \<open>ho_started\<close> keeps the webcam streams started towards the controller.
\<close>

section \<open>State\<close>

record Permissions =
  pm_forward :: bool
  pm_camera :: bool

definition permissions_default :: Permissions where
  "permissions_default = \<lparr>pm_forward = False, pm_camera = False\<rparr>"

record Share =
  sh_pending :: "(int \<times> nat) option"
  sh_granted :: bool
  sh_sender :: "SendStream option"

definition share_new :: Share where
  "share_new = \<lparr>sh_pending = None, sh_granted = False, sh_sender = None\<rparr>"

record HostState =
  ho_media :: Media
  ho_allowed :: "(int \<times> Permissions) list"
  ho_shares :: "(int \<times> Share) list"
  ho_engines :: "(int \<times> Engine) list"
  ho_timers :: "(int \<times> int \<times> nat) list"
  ho_started :: "(int \<times> int) list"

definition host_new :: HostState where
  "host_new =
     \<lparr>ho_media = media_new, ho_allowed = [], ho_shares = [], ho_engines = [], ho_timers = [], ho_started = []\<rparr>"

definition CONSENT_TIMEOUT :: nat where "CONSENT_TIMEOUT = 60000"
definition DEFAULT_FPS :: int where "DEFAULT_FPS = 15"
definition DENIED_PERMISSION :: string where
  "DENIED_PERMISSION = ''Forwarding is not allowed for this connection''"
definition DENIED_WEBCAM_CONSENT :: string where
  "DENIED_WEBCAM_CONSENT = ''The remote user did not allow the webcam''"
definition LISTEN_HOST :: string where "LISTEN_HOST = ''clanto-listen''"

definition on_media :: "(Media \<Rightarrow> Media) \<Rightarrow> HostState \<Rightarrow> HostState" where
  "on_media f H = H\<lparr>ho_media := f (ho_media H)\<rparr>"

definition host_out :: "int \<Rightarrow> Union \<Rightarrow> HostState \<Rightarrow> HostState" where
  "host_out conn u = on_media (Forward_Media.out (HostKey conn) u)"

section \<open>Permissions\<close>

definition permissions :: "int \<Rightarrow> HostState \<Rightarrow> Permissions" where
  "permissions conn H = (case map_of (ho_allowed H) conn of Some p \<Rightarrow> p | None \<Rightarrow> permissions_default)"

definition allowed :: "int \<Rightarrow> HostState \<Rightarrow> (unit, string) result" where
  "allowed conn H = (if pm_forward (permissions conn H) then Ok () else Err DENIED_PERMISSION)"

definition camera_allowed :: "(string \<Rightarrow> string) \<Rightarrow> int \<Rightarrow> HostState \<Rightarrow> (unit, string) result" where
  "camera_allowed opt conn H =
     (if \<not> pm_camera (permissions conn H) then Err DENIED_PERMISSION else authorize_camera opt)"

section \<open>Decisions of the host\<close>

text \<open>The answer to the engine and the state with the audit of the decision. A host name is joined to its port in
  the audit.\<close>

definition host_target :: "string \<Rightarrow> int \<Rightarrow> string" where
  "host_target host port = host @ '':'' @ show_int port"

definition authorize_open :: "(string \<Rightarrow> string) \<Rightarrow> (string \<Rightarrow> nat \<Rightarrow> IpAddr list option) \<Rightarrow> nat \<Rightarrow> Peer \<Rightarrow> string \<Rightarrow> int \<Rightarrow> HostState
    \<Rightarrow> (Target, string) result \<times> HostState" where
  "authorize_open opt lookup now peer host port H =
     (if host = LISTEN_HOST then (Err DENIED_TARGET, H)
      else
        (let decision = result_bind (allowed (pe_conn_id peer) H) (\<lambda>_. authorize_target opt lookup ToHost host port)
         in case decision of
              Ok d \<Rightarrow>
                (Ok (de_target d),
                 on_media (audit ''clanto_forward_opened'' peer
                   [(''direction'', VString ''to_host''), (''target'', VString (host_target host port)),
                    (''service'', VString (de_service d))]) H)
            | Err reason \<Rightarrow>
                (Err reason,
                 on_media (audit_denied now ''clanto_forward_denied'' peer
                   [(''direction'', VString ''to_host''), (''target'', VString (host_target host port)),
                    (''reason'', VString reason)]) H)))"

definition host_authorize_listen :: "(string \<Rightarrow> string) \<Rightarrow> nat \<Rightarrow> Peer \<Rightarrow> int \<Rightarrow> string \<Rightarrow> HostState \<Rightarrow> (unit, string) result \<times> HostState" where
  "host_authorize_listen opt now peer port description H =
     (let result = result_bind (allowed (pe_conn_id peer) H) (\<lambda>_. authorize_listen opt);
          detail = [(''direction'', VString ''to_controller''), (''listen_port'', VNumber port),
                    (''description'', VString description),
                    (''reason'', VString (case result of Err e \<Rightarrow> e | Ok _ \<Rightarrow> []))]
      in (result,
          on_media (case result of
             Ok _ \<Rightarrow> audit ''clanto_forward_listen'' peer detail
           | Err _ \<Rightarrow> audit_denied now ''clanto_forward_listen_denied'' peer detail) H))"

section \<open>The webcam of the host\<close>

definition share_of :: "int \<Rightarrow> HostState \<Rightarrow> Share" where
  "share_of conn H = (case map_of (ho_shares H) conn of Some s \<Rightarrow> s | None \<Rightarrow> share_new)"

text \<open>\<open>with_share\<close>: the entry is created when it is missing, whatever is done to it.\<close>

definition with_share :: "int \<Rightarrow> (Share \<Rightarrow> Share) \<Rightarrow> HostState \<Rightarrow> HostState" where
  "with_share conn f H = H\<lparr>ho_shares := assoc_insert conn (f (share_of conn H)) (ho_shares H)\<rparr>"

definition camera_grant :: "int \<Rightarrow> int \<Rightarrow> (CameraInfo list, string) result \<Rightarrow> HostState \<Rightarrow> HostState" where
  "camera_grant conn rid res =
     host_out conn (case res of Ok cams \<Rightarrow> UCameraGrant rid True [] cams | Err e \<Rightarrow> UCameraGrant rid False e [])"

datatype Action = NoAction | AskCameraConsent

definition on_camera_request :: "(string \<Rightarrow> string) \<Rightarrow> nat \<Rightarrow> bool \<Rightarrow> (CameraInfo list, string) result \<Rightarrow> Peer \<Rightarrow> int \<Rightarrow> HostState
    \<Rightarrow> Action \<times> HostState" where
  "on_camera_request opt now mobile cameras peer rid H =
     (let conn = pe_conn_id peer in
      case camera_allowed opt conn H of
        Err e \<Rightarrow>
          (NoAction, camera_grant conn rid (Err e)
             (on_media (audit_denied now ''clanto_forward_camera_denied'' peer
                [(''direction'', VString ''to_controller''), (''reason'', VString e)]) H))
      | Ok _ \<Rightarrow>
          if mobile then (NoAction, camera_grant conn rid (Err ''Not supported on this device'') H)
          else if sh_granted (share_of conn H) then (NoAction, camera_grant conn rid cameras (with_share conn id H))
          else
            (AskCameraConsent,
             (with_share conn (\<lambda>s. s\<lparr>sh_pending := Some (rid, now)\<rparr>) H)\<lparr>ho_timers := ho_timers H @ [(conn, rid, now)]\<rparr>))"

text \<open>What the waiting thread does when it wakes up.\<close>

definition consent_timeout :: "nat \<Rightarrow> int \<Rightarrow> int \<Rightarrow> HostState \<Rightarrow> HostState" where
  "consent_timeout now conn rid H =
     (case sh_pending (share_of conn H) of
        Some (rid', since) \<Rightarrow>
          if rid' = rid \<and> sat_sub now since \<ge> CONSENT_TIMEOUT
          then camera_grant conn rid (Err DENIED_WEBCAM_CONSENT) (with_share conn (\<lambda>s. s\<lparr>sh_pending := None\<rparr>) H)
          else with_share conn id H
      | None \<Rightarrow> with_share conn id H)"

definition camera_consent :: "nat \<Rightarrow> (CameraInfo list, string) result \<Rightarrow> int \<Rightarrow> Peer \<Rightarrow> bool \<Rightarrow> HostState \<Rightarrow> HostState" where
  "camera_consent now cameras conn peer accepted H =
     (let pending = sh_pending (share_of conn H);
          H = with_share conn (\<lambda>s. s\<lparr>sh_pending := None, sh_granted := (sh_granted s \<or> (pending \<noteq> None \<and> accepted))\<rparr>) H
      in case pending of
           None \<Rightarrow> H
         | Some (rid, _) \<Rightarrow>
             if accepted then
               camera_grant conn rid cameras
                 (on_media (audit ''clanto_forward_camera_opened'' peer
                    [(''direction'', VString ''to_controller''), (''consent'', VBool True)]) H)
             else
               camera_grant conn rid (Err DENIED_WEBCAM_CONSENT)
                 (on_media (audit_denied now ''clanto_forward_camera_denied'' peer
                    [(''direction'', VString ''to_controller''), (''reason'', VString DENIED_WEBCAM_CONSENT)]) H))"

text \<open>Dropping a stream stops it and tells the peer, once.\<close>

definition drop_sender :: "int \<Rightarrow> SendStream option \<Rightarrow> HostState \<Rightarrow> HostState" where
  "drop_sender conn s H =
     (case s of
        None \<Rightarrow> H
      | Some s \<Rightarrow> (case fst (send_stop s) of Some u \<Rightarrow> host_out conn u H | None \<Rightarrow> H))"

definition on_camera_pull :: "(string \<Rightarrow> string) \<Rightarrow> bool \<Rightarrow> Peer \<Rightarrow> int \<Rightarrow> int \<Rightarrow> HostState \<Rightarrow> HostState" where
  "on_camera_pull opt mobile peer sid index H =
     (let conn = pe_conn_id peer; refuse = (\<lambda>e. host_out conn (UMediaClose sid e)) in
      case camera_allowed opt conn H of
        Err e \<Rightarrow> refuse e H
      | Ok _ \<Rightarrow>
          let granted = sh_granted (share_of conn H); H = with_share conn id H in
          if \<not> granted then refuse DENIED_WEBCAM_CONSENT H
          else if sid \<le> 0 \<or> odd sid \<or> index < 0 then refuse ''Invalid camera'' H
          else if mobile then refuse ''Not supported on this device'' H
          else
            let H = on_media (audit ''clanto_forward_camera_opened'' peer
                      [(''direction'', VString ''to_controller''), (''camera'', VNumber index)]) H;
                previous = sh_sender (share_of conn H);
                H = with_share conn (\<lambda>s. s\<lparr>sh_sender := Some (send_new sid)\<rparr>) H
            in drop_sender conn previous (H\<lparr>ho_started := ho_started H @ [(conn, sid)]\<rparr>))"

section \<open>Messages\<close>

datatype HostMsg = MediaMsg Union | EngineMsg ForwardMsg string

definition media_id :: "Union \<Rightarrow> int" where
  "media_id u =
     (case u of UMediaOpen m \<Rightarrow> mo_stream_id m | UMediaOpened i _ _ _ \<Rightarrow> i | UMediaFrame f \<Rightarrow> mf_stream_id f
      | UMediaAck i _ _ \<Rightarrow> i | UMediaClose i _ \<Rightarrow> i | _ \<Rightarrow> 0)"

definition map_sender :: "int \<Rightarrow> int \<Rightarrow> (SendStream \<Rightarrow> SendStream) \<Rightarrow> HostState \<Rightarrow> HostState" where
  "map_sender conn sid f =
     with_share conn (\<lambda>s. s\<lparr>sh_sender := map_option (\<lambda>x. if ss_stream_id x = sid then f x else x) (sh_sender s)\<rparr>)"

definition engine_of :: "int \<Rightarrow> HostState \<Rightarrow> Engine" where
  "engine_of conn H = (case map_of (ho_engines H) conn of Some g \<Rightarrow> g | None \<Rightarrow> engine_new Host)"

text \<open>A grant is for the controller: it reaches the engine, which ignores it.\<close>

definition host_media :: "(string \<Rightarrow> string) \<Rightarrow> nat \<Rightarrow> bool \<Rightarrow> bool \<Rightarrow> (CameraInfo list, string) result \<Rightarrow> Peer \<Rightarrow> Union \<Rightarrow> HostState
    \<Rightarrow> Action \<times> HostState" where
  "host_media opt now mobile spawned cameras peer u H =
     (let conn = pe_conn_id peer; key = HostKey conn; from_controller = odd (media_id u) in
      case u of
        UMediaOpen m \<Rightarrow>
          (NoAction, if from_controller then on_media (on_open now key (Some peer) (camera_allowed opt conn H) spawned m) H else H)
      | UMediaFrame f \<Rightarrow> (NoAction, if from_controller then on_media (on_frame key f) H else H)
      | UMediaClose sid message \<Rightarrow>
          (NoAction,
           if from_controller then on_media (receiver_on_close key sid) H
           else with_share conn (\<lambda>s. case sh_sender s of
               Some x \<Rightarrow> if ss_stream_id x = sid then s\<lparr>sh_sender := None\<rparr> else s
             | None \<Rightarrow> s) H)
      | UMediaOpened sid success message sink \<Rightarrow> (NoAction, map_sender conn sid (send_on_opened success message sink) H)
      | UMediaAck sid pts keyframe \<Rightarrow> (NoAction, map_sender conn sid (send_on_ack pts keyframe) H)
      | UTargetsQuery \<Rightarrow>
          (NoAction, host_out conn (case result_bind (allowed conn H) (\<lambda>_. offered_targets opt ToHost) of
             Ok ts \<Rightarrow> UTargets ts [] | Err e \<Rightarrow> UTargets [] e) H)
      | UTargets _ _ \<Rightarrow> (NoAction, H)
      | UCameraRequest rid \<Rightarrow> on_camera_request opt now mobile cameras peer rid H
      | UCameraPull sid index \<Rightarrow> (NoAction, on_camera_pull opt mobile peer sid index H)
      | UCameraGrant _ _ _ _ \<Rightarrow> (NoAction, H\<lparr>ho_engines := assoc_insert conn (engine_of conn H) (ho_engines H)\<rparr>))"

text \<open>A message for the engine: it is created at the first one, and the decision on a listener is the host's.\<close>

definition host_engine :: "(string \<Rightarrow> string) \<Rightarrow> nat \<Rightarrow> (int, string) result \<Rightarrow> Peer \<Rightarrow> ForwardMsg \<Rightarrow> string \<Rightarrow> HostState \<Rightarrow> HostState" where
  "host_engine opt now bound peer msg description H =
     (let conn = pe_conn_id peer;
          g = engine_of conn H;
          (authorized, H) = (case msg of
             Listen _ port \<Rightarrow> host_authorize_listen opt now peer port description H
           | _ \<Rightarrow> (Ok (), H))
      in H\<lparr>ho_engines := assoc_insert conn (Forward_Engine.on_message authorized bound msg g) (ho_engines H)\<rparr>)"

definition host_on_message :: "(string \<Rightarrow> string) \<Rightarrow> nat \<Rightarrow> bool \<Rightarrow> bool \<Rightarrow> (int, string) result \<Rightarrow> (CameraInfo list, string) result
    \<Rightarrow> Peer \<Rightarrow> Permissions \<Rightarrow> HostMsg \<Rightarrow> HostState \<Rightarrow> Action \<times> HostState" where
  "host_on_message opt now mobile spawned bound cameras peer perms msg H =
     (let H = H\<lparr>ho_allowed := assoc_insert (pe_conn_id peer) perms (ho_allowed H)\<rparr> in
      case msg of
        MediaMsg u \<Rightarrow> host_media opt now mobile spawned cameras peer u H
      | EngineMsg m description \<Rightarrow> (NoAction, host_engine opt now bound peer m description H))"

definition host_close :: "int \<Rightarrow> HostState \<Rightarrow> HostState" where
  "host_close conn H =
     (let H = on_media (receiver_close (HostKey conn)) H;
          sender = sh_sender (share_of conn H);
          H = drop_sender conn sender (H\<lparr>ho_shares := assoc_remove conn (ho_shares H)\<rparr>);
          H = H\<lparr>ho_allowed := assoc_remove conn (ho_allowed H)\<rparr>;
          H = on_media (\<lambda>M. M\<lparr>me_denied := assoc_remove conn (me_denied M)\<rparr>) H
      in H\<lparr>ho_engines := assoc_remove conn (ho_engines H)\<rparr>)"

end
