(* ===== verification/Host_Claims.thy ===== *)
theory Host_Claims
  imports Forward_Host
begin

text \<open>
  The consent of the host's user to the webcam, over every sequence of messages, answers, timeouts and
  closings of all connections.
\<close>

section \<open>Operations\<close>

datatype HostOp =
    HMessage "string \<Rightarrow> string" nat bool bool "(int, string) result" "(CameraInfo list, string) result" Peer Permissions HostMsg
  | HConsent nat "(CameraInfo list, string) result" int Peer bool
  | HTimeout nat int int
  | HOpen "string \<Rightarrow> string" "string \<Rightarrow> nat \<Rightarrow> IpAddr list option" nat Peer string int
  | HClose int

fun host_step :: "HostOp \<Rightarrow> HostState \<Rightarrow> HostState" where
  "host_step (HMessage opt now mobile spawned bound cameras peer perms msg) H =
     snd (host_on_message opt now mobile spawned bound cameras peer perms msg H)"
| "host_step (HConsent now cameras conn peer accepted) H = camera_consent now cameras conn peer accepted H"
| "host_step (HTimeout now conn rid) H = consent_timeout now conn rid H"
| "host_step (HOpen opt lookup now peer host port) H = snd (authorize_open opt lookup now peer host port H)"
| "host_step (HClose conn) H = host_close conn H"

definition host_run :: "HostOp list \<Rightarrow> HostState" where
  "host_run ops = fold host_step ops host_new"

section \<open>The history\<close>

text \<open>A request for the webcam by a connection that has the permission, with the webcam enabled.\<close>

fun asks :: "int \<Rightarrow> HostOp \<Rightarrow> bool" where
  "asks conn (HMessage opt now mobile spawned bound cameras peer perms (MediaMsg (UCameraRequest rid))) =
     (pe_conn_id peer = conn \<and> pm_camera perms \<and> opt ''clanto-forward-webcam'' = ''Y'')"
| "asks conn _ = False"

fun accepts :: "int \<Rightarrow> HostOp \<Rightarrow> bool" where
  "accepts conn (HConsent now cameras conn' peer accepted) = (conn' = conn \<and> accepted)"
| "accepts conn _ = False"

text \<open>An operation that satisfies \<open>P\<close>, after \<open>Q\<close> holds of what came before it, and no closing of the connection since.\<close>

definition since_open :: "int \<Rightarrow> (HostOp \<Rightarrow> bool) \<Rightarrow> (HostOp list \<Rightarrow> bool) \<Rightarrow> HostOp list \<Rightarrow> bool" where
  "since_open conn P Q ops = (\<exists>pre op post. ops = pre @ op # post \<and> P op \<and> Q pre \<and> HClose conn \<notin> set post)"

definition asked :: "int \<Rightarrow> HostOp list \<Rightarrow> bool" where
  "asked conn = since_open conn (asks conn) (\<lambda>_. True)"

definition consented :: "int \<Rightarrow> HostOp list \<Rightarrow> bool" where
  "consented conn = since_open conn (accepts conn) (asked conn)"

lemma since_open_step: "since_open conn P Q ops \<Longrightarrow> op \<noteq> HClose conn \<Longrightarrow> since_open conn P Q (ops @ [op])"
proof -
  assume "since_open conn P Q ops" "op \<noteq> HClose conn"
  then obtain pre op' post where "ops @ [op] = pre @ op' # (post @ [op])" "P op'" "Q pre" "HClose conn \<notin> set (post @ [op])"
    by (auto simp: since_open_def)
  then show ?thesis unfolding since_open_def by blast
qed

lemma since_open_now: "P op \<Longrightarrow> Q ops \<Longrightarrow> since_open conn P Q (ops @ [op])"
  unfolding since_open_def by (rule exI [of _ ops], rule exI [of _ op], rule exI [of _ "[]"]) simp

section \<open>What an operation does to a share\<close>

lemma share_frame [simp]:
  "share_of c (on_media f H) = share_of c H" "share_of c (host_out d u H) = share_of c H"
  "share_of c (H\<lparr>ho_allowed := a\<rparr>) = share_of c H" "share_of c (H\<lparr>ho_engines := e\<rparr>) = share_of c H"
  "share_of c (H\<lparr>ho_timers := t\<rparr>) = share_of c H" "share_of c (H\<lparr>ho_started := b\<rparr>) = share_of c H"
  "share_of c (camera_grant d rid res H) = share_of c H" "share_of c (drop_sender d s H) = share_of c H"
  by (simp_all add: share_of_def on_media_def host_out_def camera_grant_def drop_sender_def split: option.split)

lemma share_with [simp]: "share_of c (with_share d f H) = (if c = d then f (share_of c H) else share_of c H)"
  by (simp add: with_share_def share_of_def)

lemma started_frame [simp]:
  "ho_started (on_media f H) = ho_started H" "ho_started (host_out d u H) = ho_started H"
  "ho_started (camera_grant d rid res H) = ho_started H" "ho_started (drop_sender d s H) = ho_started H"
  "ho_started (with_share d g H) = ho_started H" "ho_started (map_sender d i h H) = ho_started H"
  by (simp_all add: on_media_def host_out_def camera_grant_def drop_sender_def with_share_def map_sender_def split: option.split)

lemma permissions_message: "permissions (pe_conn_id p) (H\<lparr>ho_allowed := assoc_insert (pe_conn_id p) perms a\<rparr>) = perms"
  by (simp add: permissions_def)

lemma share_map_sender:
  "sh_granted (share_of c (map_sender d i f H)) = sh_granted (share_of c H)"
  "sh_pending (share_of c (map_sender d i f H)) = sh_pending (share_of c H)"
  by (simp_all add: map_sender_def)

lemma share_request:
  "sh_granted (share_of c (snd (on_camera_request opt now mobile cameras peer rid H))) = sh_granted (share_of c H)"
  "sh_pending (share_of c (snd (on_camera_request opt now mobile cameras peer rid H))) \<noteq> None \<Longrightarrow>
   sh_pending (share_of c H) \<noteq> None \<or> (c = pe_conn_id peer \<and> camera_allowed opt c H = Ok ())"
  by (auto simp: on_camera_request_def Let_def split: result.splits if_splits)

lemma share_pull:
  "sh_granted (share_of c (on_camera_pull opt mobile peer sid index H)) = sh_granted (share_of c H)"
  "sh_pending (share_of c (on_camera_pull opt mobile peer sid index H)) = sh_pending (share_of c H)"
  by (simp_all add: on_camera_pull_def Let_def split: result.split)

lemma camera_allowed_Ok: "camera_allowed opt c H = Ok () \<longleftrightarrow> pm_camera (permissions c H) \<and> opt ''clanto-forward-webcam'' = ''Y''"
  by (simp add: camera_allowed_def authorize_camera_def on_def)

lemma host_engine_share: "share_of c (host_engine opt now bound peer m d H) = share_of c H"
  by (simp add: host_engine_def host_authorize_listen_def Let_def split: prod.split ForwardMsg.split)

lemma host_engine_started: "ho_started (host_engine opt now bound peer m d H) = ho_started H"
  by (simp add: host_engine_def host_authorize_listen_def Let_def split: prod.split ForwardMsg.split)

lemma authorize_open_frame:
  "share_of c (snd (authorize_open opt lookup now peer host port H)) = share_of c H"
  "ho_started (snd (authorize_open opt lookup now peer host port H)) = ho_started H"
  by (simp_all add: authorize_open_def Let_def split: result.split)

lemma consent_started:
  "ho_started (camera_consent now cameras conn peer accepted H) = ho_started H"
  "ho_started (consent_timeout now conn rid H) = ho_started H"
  "ho_started (host_close conn H) = ho_started H"
  by (simp_all add: camera_consent_def consent_timeout_def host_close_def Let_def split: option.split prod.split)

text \<open>Consent is only given by the user's answer to a pending request, and a request only becomes pending with the
  permission.\<close>

lemma granted_step:
  assumes "sh_granted (share_of c (host_step op H))"
  shows "(sh_granted (share_of c H) \<and> op \<noteq> HClose c) \<or> (accepts c op \<and> sh_pending (share_of c H) \<noteq> None)"
proof (cases op)
  case (HMessage opt now mobile spawned bound cameras peer perms msg)
  then show ?thesis
  proof (cases msg)
    case (MediaMsg u)
    then show ?thesis using assms HMessage
      by (cases u) (auto simp: host_on_message_def host_media_def Let_def share_request share_map_sender share_pull
          split: if_splits option.splits)
  next
    case (EngineMsg m d)
    then show ?thesis using assms HMessage by (simp add: host_on_message_def host_engine_share)
  qed
next
  case (HConsent now cameras conn peer accepted)
  then show ?thesis using assms by (auto simp: camera_consent_def Let_def split: option.splits if_splits)
next
  case (HTimeout now conn rid)
  then show ?thesis using assms by (auto simp: consent_timeout_def split: option.splits if_splits prod.splits)
next
  case (HOpen opt lookup now peer host port)
  then show ?thesis using assms by (simp add: authorize_open_frame)
next
  case (HClose conn)
  then show ?thesis using assms by (auto simp: host_close_def Let_def share_of_def on_media_def share_new_def drop_sender_def
        host_out_def split: if_splits option.splits)
qed

lemma request_pending_step:
  assumes "sh_pending (share_of c (host_step op H)) \<noteq> None"
  shows "(sh_pending (share_of c H) \<noteq> None \<and> op \<noteq> HClose c) \<or> asks c op"
proof (cases op)
  case (HMessage opt now mobile spawned bound cameras peer perms msg)
  then show ?thesis
  proof (cases msg)
    case (MediaMsg u)
    show ?thesis
    proof (cases "\<exists>rid. u = UCameraRequest rid")
      case True
      then obtain rid where u: "u = UCameraRequest rid" by blast
      define H' where "H' = H\<lparr>ho_allowed := assoc_insert (pe_conn_id peer) perms (ho_allowed H)\<rparr>"
      have "sh_pending (share_of c (snd (on_camera_request opt now mobile cameras peer rid H'))) \<noteq> None"
        using assms by (simp add: HMessage MediaMsg u host_on_message_def host_media_def Let_def H'_def)
      from share_request(2) [OF this] show ?thesis
        by (auto simp: HMessage MediaMsg u H'_def camera_allowed_Ok permissions_message)
    next
      case False
      then show ?thesis using assms HMessage MediaMsg
        by (cases u) (auto simp: host_on_message_def host_media_def Let_def share_map_sender share_pull
            split: if_splits option.splits)
    qed
  next
    case (EngineMsg m d)
    then show ?thesis using assms HMessage by (simp add: host_on_message_def host_engine_share)
  qed
next
  case (HConsent now cameras conn peer accepted)
  then show ?thesis using assms by (auto simp: camera_consent_def Let_def split: option.splits if_splits)
next
  case (HTimeout now conn rid)
  then show ?thesis using assms by (auto simp: consent_timeout_def split: option.splits if_splits prod.splits)
next
  case (HOpen opt lookup now peer host port)
  then show ?thesis using assms by (simp add: authorize_open_frame)
next
  case (HClose conn)
  then show ?thesis using assms by (auto simp: host_close_def Let_def share_of_def on_media_def share_new_def drop_sender_def
        host_out_def split: if_splits option.splits)
qed

lemma host_run_snoc: "host_run (ops @ [op]) = host_step op (host_run ops)"
  by (simp add: host_run_def)

lemma history:
  "(sh_pending (share_of c (host_run ops)) \<noteq> None \<longrightarrow> asked c ops) \<and> (sh_granted (share_of c (host_run ops)) \<longrightarrow> consented c ops)"
proof (induction ops rule: rev_induct)
  case Nil
  then show ?case by (simp add: host_run_def host_new_def share_of_def share_new_def)
next
  case (snoc op ops)
  have "asked c (ops @ [op])" if "sh_pending (share_of c (host_run (ops @ [op]))) \<noteq> None"
    using request_pending_step [OF that [unfolded host_run_snoc]] snoc unfolding asked_def
    by (auto intro: since_open_step since_open_now)
  moreover have "consented c (ops @ [op])" if "sh_granted (share_of c (host_run (ops @ [op])))"
    using granted_step [OF that [unfolded host_run_snoc]] snoc unfolding consented_def
    by (auto intro: since_open_step since_open_now)
  ultimately show ?case by blast
qed

section \<open>Consent\<close>

lemma started_pull:
  assumes "ho_started (on_camera_pull opt mobile peer sid index H) = ho_started H @ [x]"
  shows "x = (pe_conn_id peer, sid) \<and> camera_allowed opt (pe_conn_id peer) H = Ok () \<and> sh_granted (share_of (pe_conn_id peer) H)
    \<and> sid > 0 \<and> even sid"
  using assms by (auto simp: on_camera_pull_def Let_def split: result.splits if_splits)

lemma started_step:
  assumes "ho_started (host_step op H) = ho_started H @ [x]"
  obtains opt now mobile spawned bound cameras peer perms sid index
  where "op = HMessage opt now mobile spawned bound cameras peer perms (MediaMsg (UCameraPull sid index))"
    "x = (pe_conn_id peer, sid)" "pm_camera perms" "opt ''clanto-forward-webcam'' = ''Y''" "sh_granted (share_of (pe_conn_id peer) H)"
    "sid > 0" "even sid"
proof (cases op)
  case (HMessage opt now mobile spawned bound cameras peer perms msg)
  show thesis
  proof (cases msg)
    case (MediaMsg u)
    show thesis
    proof (cases "\<exists>sid index. u = UCameraPull sid index")
      case True
      then obtain sid index where u: "u = UCameraPull sid index" by blast
      define H' where "H' = H\<lparr>ho_allowed := assoc_insert (pe_conn_id peer) perms (ho_allowed H)\<rparr>"
      have "ho_started (on_camera_pull opt mobile peer sid index H') = ho_started H' @ [x]"
        using assms by (simp add: HMessage MediaMsg u host_on_message_def host_media_def Let_def H'_def)
      from started_pull [OF this] show thesis
        using that [OF HMessage [unfolded MediaMsg u]] by (simp add: camera_allowed_Ok H'_def permissions_message)
    next
      case False
      then have "ho_started (host_step op H) = ho_started H"
        unfolding HMessage MediaMsg
        by (cases u) (auto simp: host_on_message_def host_media_def on_camera_request_def Let_def split: result.split)
      with assms show thesis by simp
    qed
  next
    case (EngineMsg m d)
    with assms HMessage show thesis by (simp add: host_on_message_def host_engine_started)
  qed
next
  case (HConsent now cameras conn peer accepted)
  with assms show thesis by (simp add: consent_started)
next
  case (HTimeout now conn rid)
  with assms show thesis by (simp add: consent_started)
next
  case (HOpen opt lookup now peer host port)
  with assms show thesis by (simp add: authorize_open_frame)
next
  case (HClose conn)
  with assms show thesis by (simp add: consent_started)
qed

text \<open>C6: The webcam of the host is sent only with its user's consent. Whatever messages, answers, timeouts and
  closings of connections came before, a stream towards a controller starts only for a message of its connection
  that asks for it while the connection has the webcam permission and the webcam is enabled on the host, and only
  if, since the connection was opened, the host's user accepted after that connection had asked with the permission.\<close>

theorem camera_needs_consent:
  assumes "ho_started (host_step op (host_run ops)) = ho_started (host_run ops) @ [(conn, sid)]"
  shows "consented conn ops \<and> sid > 0 \<and> even sid \<and>
    (\<exists>opt now mobile spawned bound cameras peer perms index.
       op = HMessage opt now mobile spawned bound cameras peer perms (MediaMsg (UCameraPull sid index))
       \<and> pe_conn_id peer = conn \<and> pm_camera perms \<and> opt ''clanto-forward-webcam'' = ''Y'')"
proof -
  obtain opt now mobile spawned bound cameras peer perms sid' index
    where op: "op = HMessage opt now mobile spawned bound cameras peer perms (MediaMsg (UCameraPull sid' index))"
      "(conn, sid) = (pe_conn_id peer, sid')" "pm_camera perms" "opt ''clanto-forward-webcam'' = ''Y''"
      "sh_granted (share_of (pe_conn_id peer) (host_run ops))" "sid' > 0" "even sid'"
    by (rule started_step [OF assms])
  then have "consented conn ops" using history [of conn ops] by simp
  with op show ?thesis by auto
qed

definition demo_opts :: "string \<Rightarrow> string" where
  "demo_opts k = (if k = ''clanto-forward-webcam'' then ''Y'' else [])"

definition demo_peer7 :: Peer where
  "demo_peer7 = \<lparr>pe_conn_id = 7, pe_id = ''123'', pe_name = ''c'', pe_ip = ''10.0.0.1''\<rparr>"

definition demo_say :: "nat \<Rightarrow> Union \<Rightarrow> HostOp" where
  "demo_say now u = HMessage demo_opts now False True (Ok 0) (Ok []) demo_peer7 \<lparr>pm_forward = False, pm_camera = True\<rparr> (MediaMsg u)"

lemma demo_camera_allowed:
  "camera_allowed demo_opts 7 (H\<lparr>ho_allowed := assoc_insert 7 \<lparr>pm_forward = False, pm_camera = True\<rparr> a\<rparr>) = Ok ()"
  by (simp add: camera_allowed_def permissions_def authorize_camera_def on_def demo_opts_def)

lemma demo_ask:
  assumes "\<not> sh_granted (share_of 7 H)"
  shows "share_of 7 (host_step (demo_say now (UCameraRequest rid)) H) = (share_of 7 H)\<lparr>sh_pending := Some (rid, now)\<rparr>"
    "ho_started (host_step (demo_say now (UCameraRequest rid)) H) = ho_started H"
    "ho_media (host_step (demo_say now (UCameraRequest rid)) H) = ho_media H"
  using assms
  by (simp_all add: demo_say_def demo_peer7_def host_on_message_def host_media_def on_camera_request_def demo_camera_allowed Let_def)
    (simp add: with_share_def)

lemma demo_accept:
  assumes "sh_pending (share_of 7 H) = Some (rid, since)"
  shows "sh_granted (share_of 7 (host_step (HConsent now (Ok []) 7 demo_peer7 True) H))"
    "ho_started (host_step (HConsent now (Ok []) 7 demo_peer7 True) H) = ho_started H"
  using assms by (simp_all add: camera_consent_def Let_def consent_started)

lemma demo_pull:
  assumes "sh_granted (share_of 7 H)"
  shows "ho_started (host_step (demo_say now (UCameraPull 2 0)) H) = ho_started H @ [(7, 2)]"
  using assms
  by (simp add: demo_say_def demo_peer7_def host_on_message_def host_media_def on_camera_pull_def demo_camera_allowed Let_def)

lemma demo_share_new: "share_of 7 host_new = share_new" "ho_started host_new = []"
  by (simp_all add: share_of_def host_new_def)

theorem camera_needs_consent_witness:
  "consented 7 [demo_say 0 (UCameraRequest 1), HConsent 5 (Ok []) 7 demo_peer7 True]"
proof -
  define ops where "ops = [demo_say 0 (UCameraRequest 1), HConsent 5 (Ok []) 7 demo_peer7 True]"
  define H1 where "H1 = host_step (demo_say 0 (UCameraRequest 1)) host_new"
  have "sh_pending (share_of 7 H1) = Some (1, 0)" unfolding H1_def by (simp add: demo_ask demo_share_new share_new_def)
  note a = demo_accept [OF this, of 5]
  have run: "host_run ops = host_step (HConsent 5 (Ok []) 7 demo_peer7 True) H1" by (simp add: ops_def host_run_def H1_def)
  have "ho_started (host_step (demo_say 9 (UCameraPull 2 0)) (host_run ops)) = ho_started (host_run ops) @ [(7, 2)]"
    unfolding run by (rule demo_pull [OF a(1)])
  from camera_needs_consent [OF this] show ?thesis unfolding ops_def by blast
qed

text \<open>A request for the webcam that is replaced by another one before the user answers is never answered: after
  both threads have waited their minute, only the second request has been refused, although the timeout is meant
  to refuse every request left without an answer.\<close>

theorem replaced_request_unanswered:
  "me_out (ho_media (host_run [demo_say 0 (UCameraRequest 1), demo_say 1000 (UCameraRequest 2),
     HTimeout 60000 7 1, HTimeout 61000 7 2])) = [(HostKey 7, UCameraGrant 2 False DENIED_WEBCAM_CONSENT [])]"
proof -
  define H2 where "H2 = host_step (demo_say 1000 (UCameraRequest 2)) (host_step (demo_say 0 (UCameraRequest 1)) host_new)"
  have g: "\<not> sh_granted (share_of 7 (host_step (demo_say 0 (UCameraRequest 1)) host_new))"
    by (simp add: demo_ask demo_share_new share_new_def)
  have p: "sh_pending (share_of 7 H2) = Some (2, 1000)" unfolding H2_def by (simp add: demo_ask [OF g])
  have m: "me_out (ho_media H2) = []"
    using demo_ask(3) [OF g, of 1000 2] demo_ask(3) [of host_new 0 1]
    by (simp add: H2_def demo_share_new share_new_def) (simp add: host_new_def media_new_def)
  have "consent_timeout 61000 7 2 (consent_timeout 60000 7 1 H2)
      = camera_grant 7 2 (Err DENIED_WEBCAM_CONSENT) (with_share 7 (\<lambda>s. s\<lparr>sh_pending := None\<rparr>) (with_share 7 id H2))"
    using p by (simp add: consent_timeout_def CONSENT_TIMEOUT_def sat_sub_def)
  then show ?thesis using m
    by (simp add: host_run_def H2_def [symmetric] camera_grant_def host_out_def on_media_def Forward_Media.out_def with_share_def)
qed

text \<open>A thread that wakes up after the connection was closed leaves an empty share behind.\<close>

lemma timeout_leaves_share: "map_of (ho_shares (consent_timeout now conn rid (host_close conn H))) conn = Some share_new"
proof -
  have "share_of conn (host_close conn H) = share_new"
    by (simp add: host_close_def Let_def share_of_def on_media_def drop_sender_def host_out_def split: option.split)
  then show ?thesis by (simp add: consent_timeout_def with_share_def share_new_def)
qed

end
