(* ===== verification/Conn_Service.thy ===== *)
theory Conn_Service
  imports Rust_Prelude
begin

text \<open>
  The services of a server, \<^verbatim>\<open>src/src/server/service.rs\<close>: who is subscribed, the snapshot that a new subscriber
  gets first, broadcasts, options, and the two loops that run a service's callback.

  A subscriber is its connection's identifier, which is the key of both tables. What was sent to whom is
  kept in \<open>sv_log\<close>, in order, with the mark of the snapshots. The lock of the state makes each operation one
  step; the worker's callback and the connections interleave between them.
\<close>

section \<open>State\<close>

datatype 'm Sent = Snap 'm | Live 'm

record 'm ServiceInner =
  sv_name :: string
  sv_subscribes :: "int list"
  sv_new_subscribes :: "int list"
  sv_active :: bool
  sv_need_snapshot :: bool
  sv_options :: "(string \<times> string) list"
  sv_log :: "(int \<times> 'm Sent) list"

definition HIBERNATE_TIMEOUT :: nat where "HIBERNATE_TIMEOUT = 30"
definition MAX_ERROR_TIMEOUT :: nat where "MAX_ERROR_TIMEOUT = 1000"
definition SERVICE_OPTION_VALUE_TRUE :: string where "SERVICE_OPTION_VALUE_TRUE = ''1''"
definition SERVICE_OPTION_VALUE_FALSE :: string where "SERVICE_OPTION_VALUE_FALSE = ''0''"

definition service_new :: "string \<Rightarrow> bool \<Rightarrow> 'm ServiceInner" where
  "service_new name need_snapshot =
     \<lparr>sv_name = name, sv_subscribes = [], sv_new_subscribes = [], sv_active = True, sv_need_snapshot = need_snapshot,
      sv_options = [], sv_log = []\<rparr>"

definition key_insert :: "int \<Rightarrow> int list \<Rightarrow> int list" where
  "key_insert i xs = (if i \<in> set xs then xs else xs @ [i])"

definition has_subscribes :: "'m ServiceInner \<Rightarrow> bool" where
  "has_subscribes S = (sv_subscribes S \<noteq> [] \<or> sv_new_subscribes S \<noteq> [])"

definition service_ok :: "'m ServiceInner \<Rightarrow> bool" where
  "service_ok S = (sv_active S \<and> has_subscribes S)"

definition is_subed :: "int \<Rightarrow> 'm ServiceInner \<Rightarrow> bool" where
  "is_subed i S = (i \<in> set (sv_subscribes S) \<or> i \<in> set (sv_new_subscribes S))"

definition on_subscribe :: "int \<Rightarrow> 'm ServiceInner \<Rightarrow> 'm ServiceInner" where
  "on_subscribe i S =
     (if i \<in> set (sv_subscribes S) then S
      else if sv_need_snapshot S then S\<lparr>sv_new_subscribes := key_insert i (sv_new_subscribes S)\<rparr>
      else S\<lparr>sv_subscribes := key_insert i (sv_subscribes S)\<rparr>)"

definition on_unsubscribe :: "int \<Rightarrow> 'm ServiceInner \<Rightarrow> 'm ServiceInner" where
  "on_unsubscribe i S =
     (if i \<in> set (sv_subscribes S) then S\<lparr>sv_subscribes := filter (\<lambda>j. j \<noteq> i) (sv_subscribes S)\<rparr>
      else S\<lparr>sv_new_subscribes := filter (\<lambda>j. j \<noteq> i) (sv_new_subscribes S)\<rparr>)"

definition join_service :: "'m ServiceInner \<Rightarrow> 'm ServiceInner" where
  "join_service S = S\<lparr>sv_active := False\<rparr>"

definition get_option :: "string \<Rightarrow> 'm ServiceInner \<Rightarrow> string option" where
  "get_option opt S = map_of (sv_options S) opt"

definition set_option :: "string \<Rightarrow> string \<Rightarrow> 'm ServiceInner \<Rightarrow> string option \<times> 'm ServiceInner" where
  "set_option opt val S = (map_of (sv_options S) opt, S\<lparr>sv_options := assoc_insert opt val (sv_options S)\<rparr>)"

definition is_option_true :: "string \<Rightarrow> 'm ServiceInner \<Rightarrow> bool" where
  "is_option_true opt S = (case get_option opt S of Some v \<Rightarrow> v = SERVICE_OPTION_VALUE_TRUE | None \<Rightarrow> False)"

definition set_option_bool :: "string \<Rightarrow> bool \<Rightarrow> 'm ServiceInner \<Rightarrow> 'm ServiceInner" where
  "set_option_bool opt val S =
     snd (set_option opt (if val then SERVICE_OPTION_VALUE_TRUE else SERVICE_OPTION_VALUE_FALSE) S)"

section \<open>Sending\<close>

definition deliver :: "int list \<Rightarrow> 'm Sent \<Rightarrow> 'm ServiceInner \<Rightarrow> 'm ServiceInner" where
  "deliver ids m S = S\<lparr>sv_log := sv_log S @ map (\<lambda>i. (i, m)) ids\<rparr>"

definition send_shared :: "'m \<Rightarrow> 'm ServiceInner \<Rightarrow> 'm ServiceInner" where
  "send_shared m S = deliver (sv_subscribes S) (Live m) S"

definition send_to :: "'m \<Rightarrow> int \<Rightarrow> 'm ServiceInner \<Rightarrow> 'm ServiceInner" where
  "send_to m i S = (if i \<in> set (sv_subscribes S) then deliver [i] (Live m) S else S)"

definition send_to_others :: "'m \<Rightarrow> int \<Rightarrow> 'm ServiceInner \<Rightarrow> 'm ServiceInner" where
  "send_to_others m i S = deliver (filter (\<lambda>j. j \<noteq> i) (sv_subscribes S)) (Live m) S"

definition send_video_frame_shared :: "'m \<Rightarrow> 'm ServiceInner \<Rightarrow> int set \<times> 'm ServiceInner" where
  "send_video_frame_shared m S = (set (sv_subscribes S), deliver (sv_subscribes S) (Live m) S)"

definition send_without :: "'m \<Rightarrow> int \<Rightarrow> 'm ServiceInner \<Rightarrow> 'm ServiceInner" where
  "send_without m i S = deliver (filter (\<lambda>j. i \<noteq> j) (sv_subscribes S)) (Live m) S"

text \<open>\<open>ServiceSwap\<close>: what the snapshot's callback sends, and its drop.\<close>

definition send_new_subscribes :: "'m \<Rightarrow> 'm ServiceInner \<Rightarrow> 'm ServiceInner" where
  "send_new_subscribes m S = deliver (sv_new_subscribes S) (Snap m) S"

definition swap_new_subscribes :: "'m ServiceInner \<Rightarrow> 'm ServiceInner" where
  "swap_new_subscribes S =
     S\<lparr>sv_subscribes := fold key_insert (sv_new_subscribes S) (sv_subscribes S), sv_new_subscribes := []\<rparr>"

text \<open>\<open>snapshot\<close> with a callback that sends \<open>ms\<close>, taken without interruption.\<close>

definition snapshot :: "'m list \<Rightarrow> 'm ServiceInner \<Rightarrow> 'm ServiceInner" where
  "snapshot ms S =
     (if sv_new_subscribes S \<noteq> [] then swap_new_subscribes (fold send_new_subscribes ms S) else S)"

section \<open>Loops\<close>

text \<open>The pause after an error of the callback that ran for \<open>elapsed\<close> milliseconds.\<close>

definition next_error_timeout :: "nat \<Rightarrow> nat \<Rightarrow> nat" where
  "next_error_timeout elapsed t =
     (let t = (if elapsed > MAX_ERROR_TIMEOUT then HIBERNATE_TIMEOUT else t * 2)
      in if t > MAX_ERROR_TIMEOUT then MAX_ERROR_TIMEOUT else t)"

text \<open>One turn of \<open>run\<close>: the callback's result and duration, if it was called; the pause kept and the time slept.\<close>

definition run_turn :: "(unit, string) result \<Rightarrow> nat \<Rightarrow> 'm ServiceInner \<Rightarrow> nat \<Rightarrow> nat \<times> nat" where
  "run_turn res elapsed S t =
     (if has_subscribes S then
        (case res of
           Err _ \<Rightarrow> (let t = next_error_timeout elapsed t in (t, t + HIBERNATE_TIMEOUT))
         | Ok _ \<Rightarrow> (t, HIBERNATE_TIMEOUT))
      else (t, HIBERNATE_TIMEOUT))"

text \<open>One turn of \<open>repeat\<close>: whether the state was initialised before and after, what is done to it, and the pause.\<close>

datatype StateOp = Init | Reset

definition repeat_turn :: "nat \<Rightarrow> (unit, string) result \<Rightarrow> nat \<Rightarrow> 'm ServiceInner \<Rightarrow> bool \<Rightarrow> bool \<times> StateOp list \<times> nat" where
  "repeat_turn interval res elapsed S may_reset =
     (let slept = (if has_subscribes S \<and> \<not> is_ok res then MAX_ERROR_TIMEOUT else 0);
          used = elapsed + slept;
          pause = slept + (if used < interval then interval - used else 0)
      in if has_subscribes S then (True, if may_reset then [] else [Init], pause)
         else (False, if may_reset then [Reset] else [], pause))"

section \<open>Steps\<close>

datatype 'm ServiceOp =
    Subscribe int | Unsubscribe int | SnapSend 'm | SnapEnd | Send 'm | SendTo 'm int | SendOthers 'm int | SendWithout 'm int
  | SetOption string bool | Join

fun service_step :: "'m ServiceOp \<Rightarrow> 'm ServiceInner \<Rightarrow> 'm ServiceInner" where
  "service_step (Subscribe i) S = on_subscribe i S"
| "service_step (Unsubscribe i) S = on_unsubscribe i S"
| "service_step (SnapSend m) S = send_new_subscribes m S"
| "service_step SnapEnd S = swap_new_subscribes S"
| "service_step (Send m) S = send_shared m S"
| "service_step (SendTo m i) S = send_to m i S"
| "service_step (SendOthers m i) S = send_to_others m i S"
| "service_step (SendWithout m i) S = send_without m i S"
| "service_step (SetOption opt val) S = set_option_bool opt val S"
| "service_step Join S = join_service S"

definition service_run :: "bool \<Rightarrow> 'm ServiceOp list \<Rightarrow> 'm ServiceInner" where
  "service_run need_snapshot ops = fold service_step ops (service_new [] need_snapshot)"

lemma service_run_snoc: "service_run b (ops @ [op]) = service_step op (service_run b ops)"
  by (simp add: service_run_def)

section \<open>Subscriptions\<close>

definition subscribed :: "int \<Rightarrow> 'm ServiceOp list \<Rightarrow> bool" where
  "subscribed i ops = (\<exists>pre post. ops = pre @ Subscribe i # post \<and> Unsubscribe i \<notin> set post)"

lemma subscribed_snoc:
  "subscribed i (ops @ [op]) \<longleftrightarrow> op = Subscribe i \<or> (subscribed i ops \<and> op \<noteq> Unsubscribe i)"
proof
  assume "subscribed i (ops @ [op])"
  then obtain pre post where eq: "ops @ [op] = pre @ Subscribe i # post" "Unsubscribe i \<notin> set post"
    by (auto simp: subscribed_def)
  show "op = Subscribe i \<or> (subscribed i ops \<and> op \<noteq> Unsubscribe i)"
  proof (cases post rule: rev_cases)
    case (snoc post' x)
    then have "ops = pre @ Subscribe i # post'" "x = op" using eq(1) by auto
    then show ?thesis using eq(2) snoc unfolding subscribed_def by auto
  qed (use eq(1) in simp)
next
  assume "op = Subscribe i \<or> (subscribed i ops \<and> op \<noteq> Unsubscribe i)"
  then show "subscribed i (ops @ [op])"
  proof
    assume "subscribed i ops \<and> op \<noteq> Unsubscribe i"
    then obtain pre post where "ops @ [op] = pre @ Subscribe i # (post @ [op])" "Unsubscribe i \<notin> set (post @ [op])"
      by (auto simp: subscribed_def)
    then show ?thesis unfolding subscribed_def by blast
  qed (auto simp: subscribed_def intro: exI [of _ ops] exI [of _ "[]"])
qed

lemma set_key_insert: "set (key_insert i xs) = insert i (set xs)"
  by (auto simp: key_insert_def)

lemma set_fold_key_insert: "set (fold key_insert ys xs) = set ys \<union> set xs"
  by (induction ys arbitrary: xs) (auto simp: set_key_insert)

lemma deliver_frame [simp]:
  "sv_subscribes (deliver ids m S) = sv_subscribes S" "sv_new_subscribes (deliver ids m S) = sv_new_subscribes S"
  "sv_need_snapshot (deliver ids m S) = sv_need_snapshot S" "sv_log (deliver ids m S) = sv_log S @ map (\<lambda>i. (i, m)) ids"
  by (simp_all add: deliver_def)

lemmas service_op_defs =
  on_subscribe_def on_unsubscribe_def send_new_subscribes_def swap_new_subscribes_def send_shared_def send_to_def
  send_to_others_def send_without_def set_option_bool_def set_option_def join_service_def

lemma need_snapshot_step [simp]: "sv_need_snapshot (service_step op S) = sv_need_snapshot S"
  by (cases op) (auto simp: service_op_defs)

lemma need_snapshot_run [simp]: "sv_need_snapshot (service_run b ops) = b"
  by (induction ops rule: rev_induct) (simp_all add: service_run_snoc, simp add: service_run_def service_new_def)

definition tables_ok :: "'m ServiceInner \<Rightarrow> bool" where
  "tables_ok S =
     ((\<forall>j\<in>set (sv_subscribes S). j \<notin> set (sv_new_subscribes S))
      \<and> (sv_need_snapshot S \<or> sv_new_subscribes S = []))"

lemma tables_step: "tables_ok S \<Longrightarrow> tables_ok (service_step op S)"
  by (cases op) (auto simp: tables_ok_def service_op_defs set_key_insert set_fold_key_insert)

lemma is_subed_step:
  "tables_ok S \<Longrightarrow> is_subed i (service_step op S) \<longleftrightarrow> op = Subscribe i \<or> (is_subed i S \<and> op \<noteq> Unsubscribe i)"
  by (cases op) (auto simp: tables_ok_def service_op_defs is_subed_def set_key_insert set_fold_key_insert)

lemma service_tables: "tables_ok (service_run b ops) \<and> (\<forall>i. is_subed i (service_run b ops) \<longleftrightarrow> subscribed i ops)"
proof (induction ops rule: rev_induct)
  case Nil
  then show ?case by (simp add: service_run_def service_new_def is_subed_def subscribed_def tables_ok_def)
next
  case (snoc op ops)
  then have "tables_ok (service_run b ops)" by blast
  from tables_step [OF this] is_subed_step [OF this] snoc show ?case by (simp add: service_run_snoc subscribed_snoc)
qed

text \<open>What one step sends.\<close>

definition sent_by :: "'m ServiceOp \<Rightarrow> 'm ServiceInner \<Rightarrow> (int \<times> 'm Sent) list" where
  "sent_by op S = drop (length (sv_log S)) (sv_log (service_step op S))"

lemma sent_by_members: "(i, x) \<in> set (sent_by op S) \<Longrightarrow>
   case x of Live _ \<Rightarrow> i \<in> set (sv_subscribes S) | Snap _ \<Rightarrow> i \<in> set (sv_new_subscribes S)"
  by (cases op) (auto simp: sent_by_def service_op_defs split: if_splits)

text \<open>C38: A service sends to its subscribers only: whatever subscriptions, unsubscriptions, snapshots and broadcasts came
  before, a message of the next step goes to connections that subscribed and have not unsubscribed since; the two
  tables never hold the same connection.\<close>

theorem service_sends_to_subscribers:
  "tables_ok (service_run b ops) \<and> fst ` set (sent_by op (service_run b ops)) \<subseteq> {i. subscribed i ops}"
proof -
  have "subscribed i ops" if "(i, x) \<in> set (sent_by op (service_run b ops))" for i x
  proof -
    have "is_subed i (service_run b ops)" using sent_by_members [OF that] by (auto simp: is_subed_def split: Sent.splits)
    then show ?thesis using service_tables by blast
  qed
  then show ?thesis using service_tables by auto
qed

section \<open>The snapshot comes first\<close>

text \<open>The messages each connection got since it last unsubscribed.\<close>

fun tracked_step :: "'m ServiceOp \<Rightarrow> 'm ServiceInner \<times> (int \<Rightarrow> 'm Sent list) \<Rightarrow> 'm ServiceInner \<times> (int \<Rightarrow> 'm Sent list)" where
  "tracked_step op (S, box) =
     (service_step op S,
      \<lambda>i. if op = Unsubscribe i then [] else box i @ map snd (filter (\<lambda>e. fst e = i) (sent_by op S)))"

definition inbox :: "'m ServiceOp list \<Rightarrow> int \<Rightarrow> 'm Sent list" where
  "inbox ops = snd (fold tracked_step ops (service_new [] True, \<lambda>_. []))"

text \<open>Each snapshot sends something before it ends, and nobody subscribes after its first message until it ends.\<close>

fun snaps_ok :: "bool \<Rightarrow> 'm ServiceOp list \<Rightarrow> bool" where
  "snaps_ok sent [] = True"
| "snaps_ok sent (SnapSend m # ops) = snaps_ok True ops"
| "snaps_ok sent (SnapEnd # ops) = (sent \<and> snaps_ok False ops)"
| "snaps_ok sent (Subscribe i # ops) = (\<not> sent \<and> snaps_ok sent ops)"
| "snaps_ok sent (op # ops) = snaps_ok sent ops"

definition snap_first :: "'m Sent list \<Rightarrow> bool" where
  "snap_first ms = (case ms of Snap _ # _ \<Rightarrow> True | _ \<Rightarrow> False)"

definition boxes_ok :: "bool \<Rightarrow> 'm ServiceInner \<times> (int \<Rightarrow> 'm Sent list) \<Rightarrow> bool" where
  "boxes_ok sent Sb =
     (case Sb of (S, box) \<Rightarrow>
        tables_ok S \<and> sv_need_snapshot S
        \<and> (\<forall>i. box i = [] \<or> snap_first (box i))
        \<and> (\<forall>i\<in>set (sv_subscribes S). snap_first (box i))
        \<and> (sent \<longrightarrow> (\<forall>i\<in>set (sv_new_subscribes S). snap_first (box i))))"

lemma snap_first_append: "snap_first ms \<Longrightarrow> snap_first (ms @ ms')"
  by (auto simp: snap_first_def split: list.splits Sent.splits)

definition next_sent :: "bool \<Rightarrow> 'm ServiceOp \<Rightarrow> bool" where
  "next_sent sent op = (case op of SnapSend _ \<Rightarrow> True | SnapEnd \<Rightarrow> False | _ \<Rightarrow> sent)"

lemma snaps_ok_Cons:
  "snaps_ok sent (op # ops) \<longleftrightarrow> (op = SnapEnd \<longrightarrow> sent) \<and> (\<forall>i. op = Subscribe i \<longrightarrow> \<not> sent) \<and> snaps_ok (next_sent sent op) ops"
  by (cases op) (auto simp: next_sent_def)

lemma box_step:
  assumes "boxes_ok sent (S, box)" and upd: "tracked_step op (S, box) = (S', box')"
  shows "box' i = [] \<or> snap_first (box' i)" "op \<noteq> Unsubscribe i \<Longrightarrow> snap_first (box i) \<Longrightarrow> snap_first (box' i)"
proof -
  have b: "box i = [] \<or> snap_first (box i)" "\<forall>i\<in>set (sv_subscribes S). snap_first (box i)"
    using assms(1) by (simp_all add: boxes_ok_def)
  define new where "new = map snd (filter (\<lambda>e. fst e = i) (sent_by op S))"
  have box': "box' i = (if op = Unsubscribe i then [] else box i @ new)" using upd by (auto simp: new_def)
  show "op \<noteq> Unsubscribe i \<Longrightarrow> snap_first (box i) \<Longrightarrow> snap_first (box' i)" by (simp add: box' snap_first_append)
  have "new = [] \<or> snap_first new" if "box i = []"
  proof -
    have "\<forall>x\<in>set new. \<exists>m. x = Snap m"
    proof
      fix x assume "x \<in> set new"
      then have "(i, x) \<in> set (sent_by op S)" by (auto simp: new_def)
      from sent_by_members [OF this] show "\<exists>m. x = Snap m" using b(2) that by (cases x) (auto simp: snap_first_def)
    qed
    then show ?thesis by (cases new) (auto simp: snap_first_def)
  qed
  then show "box' i = [] \<or> snap_first (box' i)" using b(1) by (auto simp: box' snap_first_append)
qed

lemma boxes_step:
  assumes "boxes_ok sent (S, box)" "op = SnapEnd \<longrightarrow> sent" "\<forall>i. op = Subscribe i \<longrightarrow> \<not> sent"
  shows "boxes_ok (next_sent sent op) (tracked_step op (S, box))"
proof -
  obtain S' box' where upd: "tracked_step op (S, box) = (S', box')" by (cases "tracked_step op (S, box)")
  have S': "S' = service_step op S" using upd by simp
  have ok: "tables_ok S" "sv_need_snapshot S" "\<forall>i\<in>set (sv_subscribes S). snap_first (box i)"
    "sent \<longrightarrow> (\<forall>i\<in>set (sv_new_subscribes S). snap_first (box i))"
    using assms(1) by (simp_all add: boxes_ok_def)
  have keep: "snap_first (box' i)" if "snap_first (box i)" "op \<noteq> Unsubscribe i" for i
    using box_step(2) [OF assms(1) upd that(2, 1)] .
  have subs: "snap_first (box' i)" if "i \<in> set (sv_subscribes S')" for i
  proof (rule keep)
    show "snap_first (box i)" using that ok assms(2)
      by (cases op) (auto simp: S' service_op_defs set_fold_key_insert split: if_splits)
    show "op \<noteq> Unsubscribe i" using that ok(1) by (auto simp: S' on_unsubscribe_def split: if_splits)
  qed
  have news: "snap_first (box' i)" if "next_sent sent op" "i \<in> set (sv_new_subscribes S')" for i
  proof (cases "\<exists>m. op = SnapSend m")
    case True
    then obtain m where op: "op = SnapSend m" by blast
    have "i \<in> set (sv_new_subscribes S)" using that(2) by (simp add: S' op send_new_subscribes_def)
    then have "map snd (filter (\<lambda>e. fst e = i) (sent_by op S)) \<noteq> []"
      by (auto simp: op sent_by_def send_new_subscribes_def filter_empty_conv)
    then have "box' i \<noteq> []" using upd by (auto simp: op)
    then show ?thesis using box_step(1) [OF assms(1) upd, of i] by blast
  next
    case False
    then have s: sent "op \<noteq> SnapEnd" using that(1) by (cases op; simp add: next_sent_def)+
    show ?thesis
    proof (rule keep)
      show "snap_first (box i)" using that(2) ok s assms(3) False
        by (cases op) (auto simp: S' service_op_defs split: if_splits)
      show "op \<noteq> Unsubscribe i" using that(2) ok(1) by (auto simp: S' on_unsubscribe_def tables_ok_def split: if_splits)
    qed
  qed
  show ?thesis using tables_step [OF ok(1)] ok(2) subs news box_step(1) [OF assms(1) upd]
    unfolding upd by (simp add: boxes_ok_def S')
qed

text \<open>A new subscriber starts from the snapshot: in a service with snapshots, if every snapshot sends something and
  nobody subscribes between its first message and its end, then the first message a connection gets after
  subscribing is one of a snapshot, never a live one.\<close>

theorem snapshot_first:
  assumes "snaps_ok False ops" "inbox ops i = x # xs"
  shows "\<exists>m. x = Snap m"
proof -
  have "boxes_ok sent Sb \<Longrightarrow> snaps_ok sent ops \<Longrightarrow> \<exists>sent'. boxes_ok sent' (fold tracked_step ops Sb)" for sent Sb
  proof (induction ops arbitrary: sent Sb)
    case (Cons op ops)
    obtain S box where Sb: "Sb = (S, box)" by (cases Sb)
    show ?case using Cons boxes_step [of sent S box op] unfolding snaps_ok_Cons Sb by auto
  qed auto
  moreover have "boxes_ok False (service_new [] True, \<lambda>_. [])" by (simp add: boxes_ok_def service_new_def tables_ok_def)
  ultimately obtain sent' where "boxes_ok sent' (fold tracked_step ops (service_new [] True, \<lambda>_. []))"
    using assms(1) by blast
  then have "inbox ops i = [] \<or> snap_first (inbox ops i)" by (auto simp: boxes_ok_def inbox_def split: prod.splits)
  then show ?thesis using assms(2) by (auto simp: snap_first_def split: Sent.splits)
qed

theorem snapshot_first_witness:
  "\<exists>m :: nat. hd (inbox [Subscribe 1, SnapSend (5 :: nat), SnapEnd, Send 6] 1) = Snap m"
proof -
  have "inbox [Subscribe 1, SnapSend (5 :: nat), SnapEnd, Send 6] 1 = [Snap 5, Live 6]" by code_simp
  from snapshot_first [OF _ this] show ?thesis
    by (simp add: \<open>inbox [Subscribe 1, SnapSend (5 :: nat), SnapEnd, Send 6] 1 = [Snap 5, Live 6]\<close>)
qed

text \<open>A connection that subscribes while a snapshot is being sent loses it: it is moved to the subscribers when the
  snapshot ends, without having got any of its messages, and its first message is a live one.\<close>

theorem snapshot_lost_in_race:
  "inbox [Subscribe 1, SnapSend (5 :: nat), Subscribe 2, SnapEnd, Send 6] 2 = [Live 6]
   \<and> inbox [Subscribe 1, SnapSend (5 :: nat), Subscribe 2, SnapEnd, Send 6] 1 = [Snap 5, Live 6]"
  by code_simp

section \<open>Pauses\<close>

lemma next_error_timeout_bounds:
  "HIBERNATE_TIMEOUT \<le> t \<Longrightarrow> HIBERNATE_TIMEOUT \<le> next_error_timeout elapsed t \<and> next_error_timeout elapsed t \<le> MAX_ERROR_TIMEOUT"
  by (simp add: next_error_timeout_def HIBERNATE_TIMEOUT_def MAX_ERROR_TIMEOUT_def Let_def)

lemma run_turn_bounds:
  "HIBERNATE_TIMEOUT \<le> t \<Longrightarrow> t \<le> MAX_ERROR_TIMEOUT \<Longrightarrow>
   case run_turn res elapsed S t of (t', slept) \<Rightarrow>
     HIBERNATE_TIMEOUT \<le> t' \<and> t' \<le> MAX_ERROR_TIMEOUT \<and> HIBERNATE_TIMEOUT \<le> slept \<and> slept \<le> MAX_ERROR_TIMEOUT + HIBERNATE_TIMEOUT"
  using next_error_timeout_bounds [of t elapsed]
  by (simp add: run_turn_def Let_def split: result.split)

text \<open>The state of a repeated service is initialised and reset in turns, starting with the initialisation.\<close>

fun alternate :: "bool \<Rightarrow> StateOp list \<Rightarrow> bool" where
  "alternate b [] = True"
| "alternate b (Init # ops) = (\<not> b \<and> alternate True ops)"
| "alternate b (Reset # ops) = (b \<and> alternate False ops)"

lemma alternate_append: "alternate b ops \<Longrightarrow> alternate (fold (\<lambda>op _. op = Init) ops b) ops' \<Longrightarrow> alternate b (ops @ ops')"
  by (induction b ops rule: alternate.induct) auto

lemma repeat_turn_alternates:
  "case repeat_turn interval res elapsed S b of (b', ops, _) \<Rightarrow> alternate b ops \<and> fold (\<lambda>op _. op = Init) ops b = b'"
  by (auto simp: repeat_turn_def Let_def)

end
