(* ===== verification/Ticket.thy ===== *)
theory Ticket
  imports Json_Value
begin

text \<open>
  The optional ticket reference of a session, \<^verbatim>\<open>src/src/clanto/ticket.rs\<close>: the controller keeps one per
  peer and sends it with the login, the host adds it to its audit events.
\<close>

definition MAX_LEN :: nat where "MAX_LEN = 64"

definition ticket_char :: "char \<Rightarrow> bool" where
  "ticket_char c = (is_ascii_alphanumeric c \<or> c \<in> set '' _-.:#/'')"

definition sanitize :: "string \<Rightarrow> string" where
  "sanitize ticket = trim (take MAX_LEN (filter ticket_char (trim ticket)))"

definition peer_key :: "string \<Rightarrow> string" where
  "peer_key i = filter (\<lambda>c. \<not> is_whitespace c) (hd (split_on (\<lambda>c. c = CHR ''@'' \<or> c = CHR ''?'') i))"

text \<open>The table is created by the first \<open>set\<close>.\<close>

type_synonym Tickets = "(string \<times> string) list option"

definition set_ticket :: "string \<Rightarrow> string \<Rightarrow> Tickets \<Rightarrow> Tickets" where
  "set_ticket i ticket m =
     (let tab = (case m of Some t \<Rightarrow> t | None \<Rightarrow> []); ticket = sanitize ticket
      in Some (if ticket = [] then assoc_remove (peer_key i) tab else assoc_insert (peer_key i) ticket tab))"

definition for_peer :: "string \<Rightarrow> Tickets \<Rightarrow> string" where
  "for_peer i m =
     (case Option.bind m (\<lambda>tab. map_of tab (peer_key i)) of Some t \<Rightarrow> t | None \<Rightarrow> [])"

text \<open>\<open>None\<close> is the panic of the indexed assignment on a value that is neither an object nor null.\<close>

definition audit_ticket :: "string \<Rightarrow> Value \<Rightarrow> Value option" where
  "audit_ticket ticket v =
     (let ticket = sanitize ticket in if ticket = [] then Some v else value_set ''ticket'' (VString ticket) v)"

section \<open>What is kept\<close>

lemma trim_length: "length (trim s) \<le> length s"
  by (simp add: trim_def trim_end_matches_def trim_start_matches_def) (metis le_trans length_dropWhile_le length_rev)

lemma dropWhile_hd: "dropWhile P s = [] \<or> \<not> P (hd (dropWhile P s))"
  using hd_dropWhile by blast

lemma trim_trim: "trim (trim s) = trim s"
proof -
  define a where "a = dropWhile is_whitespace s"
  define b where "b = rev (dropWhile is_whitespace (rev a))"
  have t: "trim s = b" by (simp add: trim_def trim_start_matches_def trim_end_matches_def a_def b_def)
  obtain n where n: "b = take n a" unfolding b_def by (metis dropWhile_eq_drop rev_drop rev_rev_ident)
  have "dropWhile is_whitespace b = b"
  proof (cases b)
    case (Cons x xs)
    then have "a \<noteq> []" "x = hd a" using n by (cases a; cases n; auto)+
    then have "\<not> is_whitespace x" using dropWhile_hd [of is_whitespace s] unfolding a_def by blast
    then show ?thesis by (simp add: Cons)
  qed simp
  moreover have "rev (dropWhile is_whitespace (rev b)) = b"
  proof -
    have "dropWhile is_whitespace (rev b) = rev b"
      unfolding b_def rev_rev_ident using dropWhile_hd [of is_whitespace "rev a"]
      by (cases "dropWhile is_whitespace (rev a)") auto
    then show ?thesis by simp
  qed
  ultimately have "trim b = b" by (simp only: trim_def trim_start_matches_def trim_end_matches_def)
  then show ?thesis by (simp only: t)
qed

lemma sanitize_chars: "c \<in> set (sanitize t) \<Longrightarrow> ticket_char c"
  using trim_subset [of "take MAX_LEN (filter ticket_char (trim t))"] set_take_subset [of MAX_LEN "filter ticket_char (trim t)"]
  by (auto simp: sanitize_def)

lemma sanitize_length: "length (sanitize t) \<le> 64"
  unfolding sanitize_def using trim_length [of "take MAX_LEN (filter ticket_char (trim t))"] by (simp add: MAX_LEN_def)

lemma sanitize_fixed: "trim s = s \<Longrightarrow> \<forall>c\<in>set s. ticket_char c \<Longrightarrow> length s \<le> 64 \<Longrightarrow> sanitize s = s"
proof -
  assume s: "trim s = s" "\<forall>c\<in>set s. ticket_char c" "length s \<le> 64"
  then have "filter ticket_char s = s" by simp
  with s show ?thesis by (simp add: sanitize_def MAX_LEN_def)
qed

lemma sanitize_idem: "sanitize (sanitize t) = sanitize t"
proof (rule sanitize_fixed)
  show "trim (sanitize t) = sanitize t" unfolding sanitize_def by (rule trim_trim)
  show "\<forall>c\<in>set (sanitize t). ticket_char c" using sanitize_chars by blast
qed (rule sanitize_length)

text \<open>A ticket reference goes through unchanged and harmless: what the controller puts into the login towards a peer
  is the sanitised text of the last \<open>set\<close> for the same ID, whatever server or key was attached to it, and other
  peers keep theirs; the host's own sanitising leaves it as it is, and it has at most 64 characters, none of them a
  control character, a quote or a separator of the log formats.\<close>

theorem ticket_roundtrip:
  "for_peer j (set_ticket i t m) = (if peer_key j = peer_key i then sanitize t else for_peer j m)
   \<and> sanitize (sanitize t) = sanitize t \<and> length (sanitize t) \<le> 64
   \<and> set (sanitize t) \<inter> {CHR ''='', CHR ''|'', CHR 0x22, CHR 0x5C, CHR 0x0A, CHR 0x0D} = {}"
proof -
  have "c \<notin> set (sanitize t)" if "\<not> ticket_char c" for c using that sanitize_chars by blast
  moreover have "\<not> ticket_char CHR ''=''" "\<not> ticket_char CHR ''|''" "\<not> ticket_char CHR 0x22" "\<not> ticket_char CHR 0x5C"
    "\<not> ticket_char CHR 0x0A" "\<not> ticket_char CHR 0x0D" by (simp_all add: ticket_char_def string_defs)
  moreover have "for_peer j (set_ticket i t m) = (if peer_key j = peer_key i then sanitize t else for_peer j m)"
    by (auto simp: for_peer_def set_ticket_def Let_def split: option.split)
  ultimately show ?thesis using sanitize_idem sanitize_length by simp
qed

end
