(* ===== verification/Temp_Password.thy ===== *)
theory Temp_Password
  imports Audit_Sink
begin

text \<open>
  The periodic rotation of the temporary password, \<^verbatim>\<open>src/src/clanto/temp_password.rs\<close>. The passwords themselves
  are those of the library: a turn is given whether temporary passwords are enabled, the password before and after
  the library was asked for a new one, and the readings of the clocks in the order the code takes them, in
  milliseconds.
\<close>

section \<open>State\<close>

record TempState =
  ts_password :: string
  ts_observed :: bool
  ts_changed_at :: "nat option"
  ts_next_rotation :: "nat option"
  ts_invalid_option :: "string option"

definition temp_default :: TempState where
  "temp_default =
     \<lparr>ts_password = [], ts_observed = False, ts_changed_at = None, ts_next_rotation = None, ts_invalid_option = None\<rparr>"

definition rotation_minutes :: "string \<Rightarrow> nat option" where
  "rotation_minutes v =
     (case parse_uint u64_max v of Some m \<Rightarrow> if 1 \<le> m \<and> m \<le> 1440 then Some m else None | None \<Rightarrow> None)"

definition rotation_disabled :: "string \<Rightarrow> bool" where
  "rotation_disabled v = (v = [] \<or> parse_uint u64_max v = Some 0)"

definition should_rotate :: "string \<Rightarrow> nat \<Rightarrow> bool" where
  "should_rotate v elapsed =
     (case rotation_minutes v of Some m \<Rightarrow> elapsed \<ge> m * 60 * 1000 | None \<Rightarrow> False)"

definition next_rotation_epoch :: "TempState \<Rightarrow> nat option" where
  "next_rotation_epoch S = map_option (\<lambda>t. t div 1000) (ts_next_rotation S)"

record Turn =
  tu_option :: string
  tu_enabled :: bool
  tu_current :: string
  tu_updated :: string
  tu_now :: nat
  tu_wall :: nat
  tu_checked :: nat
  tu_rechecked :: nat
  tu_after :: nat
  tu_wall_after :: nat

definition forget :: "TempState \<Rightarrow> TempState" where
  "forget S = S\<lparr>ts_password := [], ts_observed := False, ts_changed_at := None, ts_next_rotation := None\<rparr>"

definition observe :: "Turn \<Rightarrow> TempState \<Rightarrow> TempState" where
  "observe T S =
     (let S = S\<lparr>ts_invalid_option := None\<rparr> in
      if \<not> ts_observed S \<or> ts_password S \<noteq> tu_current T
      then S\<lparr>ts_password := tu_current T, ts_observed := True, ts_changed_at := Some (tu_now T)\<rparr>
      else S)"

text \<open>One turn: whether the library is asked for a new password, the state and the audit events.\<close>

definition refresh :: "Turn \<Rightarrow> TempState \<Rightarrow> bool \<times> TempState \<times> (string \<times> Value) list" where
  "refresh T S =
     (case rotation_minutes (tu_option T) of
        None \<Rightarrow>
          (False,
           (let S = forget S; off = rotation_disabled (tu_option T) in
            if \<not> off \<and> ts_invalid_option S \<noteq> Some (tu_option T) then S\<lparr>ts_invalid_option := Some (tu_option T)\<rparr>
            else if off then S\<lparr>ts_invalid_option := None\<rparr> else S), [])
      | Some m \<Rightarrow>
          if \<not> tu_enabled T then (False, (forget S)\<lparr>ts_invalid_option := None\<rparr>, [])
          else
            (let S = observe T S;
                 rotate = (case ts_changed_at S of
                     Some c \<Rightarrow> should_rotate (tu_option T) (sat_sub (tu_checked T) c) | None \<Rightarrow> False);
                 S = (case ts_changed_at S of
                     Some c \<Rightarrow>
                       if rotate then S
                       else (case checked_sub (m * 60 * 1000) (sat_sub (tu_rechecked T) c) of
                               Some remaining \<Rightarrow> S\<lparr>ts_next_rotation := Some (tu_wall T + remaining)\<rparr>
                             | None \<Rightarrow> S)
                   | None \<Rightarrow> S)
             in if \<not> rotate then (False, S, [])
                else if tu_updated T = tu_current T then (True, S, [])
                else
                  (True,
                   S\<lparr>ts_password := tu_updated T, ts_changed_at := Some (tu_after T),
                     ts_next_rotation := Some (tu_wall_after T + m * 60 * 1000)\<rparr>,
                   [(KIND_TEMP_PASSWORD_ROTATION, VObject [(''action'', VString ''rotate'')])])))"

section \<open>Rotation in time\<close>

definition temp_ok :: "TempState \<Rightarrow> bool" where
  "temp_ok S = (ts_observed S \<longrightarrow> ts_changed_at S \<noteq> None)"

lemma temp_ok_refresh: "temp_ok S \<Longrightarrow> temp_ok (fst (snd (refresh T S)))"
  by (auto simp: refresh_def Let_def temp_ok_def forget_def observe_def split: option.splits)

definition age_base :: "Turn \<Rightarrow> TempState \<Rightarrow> nat" where
  "age_base T S = (if ts_observed S \<and> ts_password S = tu_current T then the (ts_changed_at S) else tu_now T)"

lemma observe_changed: "temp_ok S \<Longrightarrow> ts_changed_at (observe T S) = Some (age_base T S)"
  by (auto simp: observe_def Let_def temp_ok_def age_base_def)

lemma should_rotate_iff:
  "rotation_minutes v = Some m \<Longrightarrow> should_rotate v e \<longleftrightarrow> m * 60 * 1000 \<le> e"
  by (simp add: should_rotate_def)

lemma refresh_active:
  assumes "temp_ok S" "rotation_minutes (tu_option T) = Some m" "tu_enabled T"
  defines "due \<equiv> m * 60 * 1000 \<le> tu_checked T - age_base T S"
  shows "fst (refresh T S) = due"
    "\<not> due \<Longrightarrow> ts_changed_at (fst (snd (refresh T S))) = Some (age_base T S) \<and> ts_password (fst (snd (refresh T S))) = tu_current T
       \<and> snd (snd (refresh T S)) = []"
    "due \<Longrightarrow> tu_updated T \<noteq> tu_current T \<Longrightarrow> ts_changed_at (fst (snd (refresh T S))) = Some (tu_after T)
       \<and> ts_password (fst (snd (refresh T S))) = tu_updated T \<and> length (snd (snd (refresh T S))) = 1"
    "ts_observed (fst (snd (refresh T S)))"
proof -
  have obs: "ts_observed (observe T S)" "ts_password (observe T S) = tu_current T"
    by (simp_all add: observe_def Let_def)
  note [simp] = observe_changed [OF assms(1)] should_rotate_iff [OF assms(2)]
  show "fst (refresh T S) = due"
    using assms(2, 3) by (simp add: refresh_def Let_def due_def sat_sub_def)
  show "\<not> due \<Longrightarrow> ts_changed_at (fst (snd (refresh T S))) = Some (age_base T S) \<and> ts_password (fst (snd (refresh T S))) = tu_current T
       \<and> snd (snd (refresh T S)) = []"
    using assms(2, 3) obs by (simp add: refresh_def Let_def due_def sat_sub_def split: option.split)
  show "due \<Longrightarrow> tu_updated T \<noteq> tu_current T \<Longrightarrow> ts_changed_at (fst (snd (refresh T S))) = Some (tu_after T)
       \<and> ts_password (fst (snd (refresh T S))) = tu_updated T \<and> length (snd (snd (refresh T S))) = 1"
    using assms(2, 3) by (simp add: refresh_def Let_def due_def sat_sub_def)
  show "ts_observed (fst (snd (refresh T S)))"
    using assms(2, 3) obs by (simp add: refresh_def Let_def split: option.split)
qed

text \<open>The state after several turns.\<close>

definition turns :: "Turn list \<Rightarrow> TempState \<Rightarrow> TempState" where
  "turns Ts S = fold (\<lambda>T S. fst (snd (refresh T S))) Ts S"

text \<open>Turns that find the rotation active, the same interval and the same password, before it is due.\<close>

definition waiting_turn :: "nat \<Rightarrow> string \<Rightarrow> nat \<Rightarrow> Turn \<Rightarrow> bool" where
  "waiting_turn m pw since T =
     (rotation_minutes (tu_option T) = Some m \<and> tu_enabled T \<and> tu_current T = pw \<and> tu_checked T - since < m * 60 * 1000)"

lemma turns_waiting:
  assumes "\<forall>T\<in>set Ts. waiting_turn m pw since T" "temp_ok S" "ts_observed S" "ts_password S = pw" "ts_changed_at S = Some since"
  shows "temp_ok (turns Ts S) \<and> ts_observed (turns Ts S) \<and> ts_password (turns Ts S) = pw \<and> ts_changed_at (turns Ts S) = Some since"
  using assms
proof (induction Ts arbitrary: S)
  case (Cons T Ts)
  have w: "waiting_turn m pw since T" using Cons.prems(1) by simp
  have base: "age_base T S = since" using w Cons.prems by (simp add: age_base_def waiting_turn_def)
  have r: "rotation_minutes (tu_option T) = Some m" "tu_enabled T" using w by (simp_all add: waiting_turn_def)
  define S' where "S' = fst (snd (refresh T S))"
  have "ts_changed_at S' = Some since" "ts_password S' = pw" "ts_observed S'" "temp_ok S'"
    using refresh_active [OF Cons.prems(2) r] w base temp_ok_refresh [OF Cons.prems(2)]
    by (auto simp: S'_def waiting_turn_def)
  then show ?case using Cons.IH [of S'] Cons.prems(1) by (simp add: turns_def S'_def)
qed (simp add: turns_def)

text \<open>The temporary password is rotated when its time has come and not before. From the turn that first sees a
  password on, through any turns that come before it is due, the next turn asks for a new password exactly if the
  configured minutes have passed since that first turn; when the new one differs, its age starts again and the
  rotation is audited once, and when it is not due nothing is audited.\<close>

theorem rotation_in_time:
  assumes "temp_ok S" "\<not> (ts_observed S \<and> ts_password S = tu_current F)"
    and "rotation_minutes (tu_option F) = Some m" "tu_enabled F" "tu_checked F - tu_now F < m * 60 * 1000"
    and "\<forall>T\<in>set Ts. waiting_turn m (tu_current F) (tu_now F) T"
    and "rotation_minutes (tu_option L) = Some m" "tu_enabled L" "tu_current L = tu_current F"
  shows "(fst (refresh L (turns (F # Ts) S)) \<longleftrightarrow> m * 60 * 1000 \<le> tu_checked L - tu_now F)
    \<and> (m * 60 * 1000 \<le> tu_checked L - tu_now F \<and> tu_updated L \<noteq> tu_current L \<longrightarrow>
         ts_changed_at (fst (snd (refresh L (turns (F # Ts) S)))) = Some (tu_after L)
         \<and> length (snd (snd (refresh L (turns (F # Ts) S)))) = 1)
    \<and> (tu_checked L - tu_now F < m * 60 * 1000 \<longrightarrow> snd (snd (refresh L (turns (F # Ts) S))) = [])"
proof -
  define S1 where "S1 = fst (snd (refresh F S))"
  have base: "age_base F S = tu_now F" using assms(2) by (auto simp: age_base_def)
  have S1: "ts_changed_at S1 = Some (tu_now F)" "ts_password S1 = tu_current F" "ts_observed S1" "temp_ok S1"
    using refresh_active [OF assms(1, 3, 4)] assms(5) base temp_ok_refresh [OF assms(1)] by (auto simp: S1_def)
  define S2 where "S2 = turns (F # Ts) S"
  have S2: "temp_ok S2" "ts_observed S2" "ts_password S2 = tu_current F" "ts_changed_at S2 = Some (tu_now F)"
    using turns_waiting [OF assms(6) S1(4) S1(3) S1(2) S1(1)] by (simp_all add: S2_def turns_def S1_def)
  have "age_base L S2 = tu_now F" using S2 assms(9) by (simp add: age_base_def)
  note r = refresh_active [OF S2(1) assms(7, 8), unfolded this, folded S2_def]
  show ?thesis unfolding S2_def [symmetric] using r(1-3) by auto
qed

definition demo_turn_at :: "nat \<Rightarrow> Turn" where
  "demo_turn_at now =
     \<lparr>tu_option = ''1'', tu_enabled = True, tu_current = ''abc'', tu_updated = ''xyz'', tu_now = now, tu_wall = now,
      tu_checked = now, tu_rechecked = now, tu_after = now, tu_wall_after = now\<rparr>"

lemma demo_minutes: "rotation_minutes ''1'' = Some 1"
  by (simp add: rotation_minutes_def parse_uint_def digit_val_def is_ascii_digit_def u64_max_def)

theorem rotation_in_time_witness:
  "fst (refresh (demo_turn_at 60000) (turns [demo_turn_at 0, demo_turn_at 30000] temp_default))
   \<and> \<not> fst (refresh (demo_turn_at 45000) (turns [demo_turn_at 0, demo_turn_at 30000] temp_default))"
proof -
  have "fst (refresh (demo_turn_at t) (turns (demo_turn_at 0 # [demo_turn_at 30000]) temp_default)) \<longleftrightarrow>
      1 * 60 * 1000 \<le> tu_checked (demo_turn_at t) - tu_now (demo_turn_at 0)" for t
    using rotation_in_time [of temp_default "demo_turn_at 0" 1 "[demo_turn_at 30000]" "demo_turn_at t"]
    by (simp add: demo_turn_at_def demo_minutes temp_default_def temp_ok_def waiting_turn_def)
  then show ?thesis by (simp add: demo_turn_at_def)
qed

end
