(* ===== verification/Key_Store.thy ===== *)
theory Key_Store
  imports Rust_Prelude Json_Value
begin

text \<open>
  The store of the credential keys, \<^verbatim>\<open>src/src/clanto/keystore.rs\<close>, on Linux: the key files and how they are
  written, the user's key in the Secret Service with its fallback file and its marker, the provider with its
  cache. The configuration directory is a map from file names to contents; \<open>KeyEnv\<close> holds the answers of the
  operating system in one call. The Secret Service is reached by D-Bus: the record \<open>Bus\<close> has one field for each
  method call, a function of a state that the program does not see; \<open>bus_ok\<close> says what is asked of it. A prompt is
  one step of the bus, its outcome that of the loop that waits for the signal. Log lines are left out.

  Nothing excludes two processes of the user from loading the key at the same time, so \<open>load_user_key\<close> is a program of
  atomic steps (\<open>proc\<close>): one step is one D-Bus call or one operation on a file. \<open>atomic_create\<close> and
  \<open>atomic_replace\<close> are one step each: their temporary file has a name that no other process uses, and the others
  see only the link or the renaming. \<open>run\<close> executes a program without interruption.
\<close>

section \<open>Fallible actions on a state\<close>

datatype KeyError = KeyError string | MustNotFallback string

type_synonym ('s, 'a) act = "'s \<Rightarrow> ('a, KeyError) result \<times> 's"

definition ret :: "'a \<Rightarrow> ('s, 'a) act" where
  "ret x = (\<lambda>s. (Ok x, s))"

definition throw :: "KeyError \<Rightarrow> ('s, 'a) act" where
  "throw e = (\<lambda>s. (Err e, s))"

text \<open>The operator \<open>?\<close>: an error ends the action in the state it was found.\<close>

definition and_then :: "('s, 'a) act \<Rightarrow> ('a \<Rightarrow> ('s, 'b) act) \<Rightarrow> ('s, 'b) act" where
  "and_then m f = (\<lambda>s. case m s of (Ok x, t) \<Rightarrow> f x t | (Err e, t) \<Rightarrow> (Err e, t))"

lemma and_then_Ok: "and_then m f s = (Ok y, u) \<longleftrightarrow> (\<exists>x t. m s = (Ok x, t) \<and> f x t = (Ok y, u))"
  by (auto simp: and_then_def split: prod.split result.split)

lemma and_then_simps [simp]:
  "m s = (Ok x, t) \<Longrightarrow> and_then m f s = f x t"
  "m s = (Err e, t) \<Longrightarrow> and_then m f s = (Err e, t)"
  by (simp_all add: and_then_def)

section \<open>Key files\<close>

type_synonym StoredKey = "nat list"
type_synonym Dir = "string \<Rightarrow> nat list option"

definition KEY_LEN :: nat where "KEY_LEN = 32"
definition MACHINE_KEY_FILE :: string where "MACHINE_KEY_FILE = ''machine.key''"
definition USER_KEY_FILE :: string where "USER_KEY_FILE = ''user.key''"
definition USER_KEY_BACKEND_FILE :: string where "USER_KEY_BACKEND_FILE = ''user.key.backend''"
definition SECRET_SERVICE_BACKEND_MARKER :: "nat list" where
  "SECRET_SERVICE_BACKEND_MARKER = as_bytes (''secret-service'' @ [CHR 0x0A])"

datatype KeyScope = Machine | User

definition key_path :: "KeyScope \<Rightarrow> string" where
  "key_path scope = (case scope of Machine \<Rightarrow> MACHINE_KEY_FILE | User \<Rightarrow> USER_KEY_FILE)"

text \<open>The answers of one call: whether an operation on a file succeeds (a read is numbered, since a file is read
  more than once), the bytes written before a failure, the numbers and the key drawn.\<close>

record KeyEnv =
  ke_pid :: nat
  ke_rand :: "string \<Rightarrow> nat \<Rightarrow> nat"
  ke_mkdir :: bool
  ke_open :: "string \<Rightarrow> bool"
  ke_write :: "string \<Rightarrow> nat list option"
  ke_remove :: "string \<Rightarrow> bool"
  ke_link :: "string \<Rightarrow> bool"
  ke_rename :: "string \<Rightarrow> bool"
  ke_read :: "nat \<Rightarrow> string \<Rightarrow> bool"
  ke_meta :: "string \<Rightarrow> bool"
  ke_fresh :: StoredKey

definition encode_stored_key :: "StoredKey \<Rightarrow> nat list" where
  "encode_stored_key key = key"

definition decode_stored_key :: "nat list \<Rightarrow> (StoredKey, KeyError) result" where
  "decode_stored_key d = (if length d = KEY_LEN then Ok d
     else Err (KeyError ''credential key file must contain exactly 32 bytes''))"

definition temporary_name :: "KeyEnv \<Rightarrow> string \<Rightarrow> nat \<Rightarrow> string" where
  "temporary_name E path i = ''.'' @ path @ ''.'' @ show_nat (ke_pid E) @ ''.'' @ show_nat (ke_rand E path i) @ ''.tmp''"

definition remove_file :: "KeyEnv \<Rightarrow> string \<Rightarrow> Dir \<Rightarrow> Dir" where
  "remove_file E path d = (if ke_remove E path then d(path := None) else d)"

text \<open>The tries numbered from \<open>i\<close>; a temporary name that exists is skipped.\<close>

fun temporary_tries :: "KeyEnv \<Rightarrow> string \<Rightarrow> nat list \<Rightarrow> nat list \<Rightarrow> (Dir, string) act" where
  "temporary_tries E path bytes [] = throw (KeyError ''failed to allocate a temporary credential key file'')"
| "temporary_tries E path bytes (i # is) = (\<lambda>d. let tmp = temporary_name E path i in
     if d tmp \<noteq> None then temporary_tries E path bytes is d
     else if \<not> ke_open E tmp then (Err (KeyError ''open''), d)
     else case ke_write E path of
         Some part \<Rightarrow> (Err (KeyError ''write''), remove_file E tmp (d(tmp \<mapsto> part)))
       | None \<Rightarrow> (Ok tmp, d(tmp \<mapsto> bytes)))"

definition write_temporary :: "KeyEnv \<Rightarrow> string \<Rightarrow> nat list \<Rightarrow> (Dir, string) act" where
  "write_temporary E path bytes = (if \<not> ke_mkdir E then throw (KeyError ''create_dir_all'')
     else temporary_tries E path bytes [0..<8])"

definition replace_file :: "KeyEnv \<Rightarrow> string \<Rightarrow> string \<Rightarrow> (Dir, unit) act" where
  "replace_file E source destination = (\<lambda>d. if \<not> ke_rename E destination then (Err (KeyError ''rename''), d)
     else (Ok (), d(destination := d source, source := None)))"

definition atomic_replace :: "KeyEnv \<Rightarrow> string \<Rightarrow> nat list \<Rightarrow> (Dir, unit) act" where
  "atomic_replace E path bytes = and_then (write_temporary E path bytes) (\<lambda>tmp d.
     case replace_file E tmp path d of
       (Ok u, d') \<Rightarrow> (Ok u, d')
     | (Err e, d') \<Rightarrow> (Err e, remove_file E tmp d'))"

definition atomic_create :: "KeyEnv \<Rightarrow> string \<Rightarrow> nat list \<Rightarrow> (Dir, bool) act" where
  "atomic_create E path bytes = and_then (write_temporary E path bytes) (\<lambda>tmp d.
     if d path \<noteq> None then (Ok False, remove_file E tmp d)
     else if \<not> ke_link E path then (Err (KeyError ''hard_link''), remove_file E tmp d)
     else (Ok True, remove_file E tmp (d(path := d tmp))))"

text \<open>\<open>fs::read\<close>, which the callers split into the contents, \<open>NotFound\<close> and another error.\<close>

definition read_file :: "KeyEnv \<Rightarrow> nat \<Rightarrow> string \<Rightarrow> Dir \<Rightarrow> (nat list option, KeyError) result" where
  "read_file E n path d = (if \<not> ke_read E n path then Err (KeyError ''read'') else Ok (d path))"

definition read_existing_key_file :: "KeyEnv \<Rightarrow> string \<Rightarrow> Dir \<Rightarrow> (StoredKey option, KeyError) result" where
  "read_existing_key_file E path d = result_bind (read_file E 0 path d) (\<lambda>r. case r of
       None \<Rightarrow> Ok None
     | Some bytes \<Rightarrow> result_bind (decode_stored_key bytes) (\<lambda>k. Ok (Some k)))"

definition read_again :: "KeyEnv \<Rightarrow> string \<Rightarrow> Dir \<Rightarrow> (StoredKey, KeyError) result" where
  "read_again E path d = result_bind (read_file E 2 path d) (\<lambda>r. case r of
       None \<Rightarrow> Err (KeyError ''read'')
     | Some bytes \<Rightarrow> decode_stored_key bytes)"

definition create_or_read :: "KeyEnv \<Rightarrow> string \<Rightarrow> StoredKey \<Rightarrow> (Dir, StoredKey) act" where
  "create_or_read E path key = and_then (atomic_create E path (encode_stored_key key)) (\<lambda>created d.
     if created then (Ok key, d) else (read_again E path d, d))"

definition load_or_create_key :: "KeyEnv \<Rightarrow> string \<Rightarrow> (Dir, StoredKey) act" where
  "load_or_create_key E path = (\<lambda>d. case read_file E 1 path d of
       Err e \<Rightarrow> (Err e, d)
     | Ok (Some bytes) \<Rightarrow> (decode_stored_key bytes, d)
     | Ok None \<Rightarrow> create_or_read E path (ke_fresh E) d)"

section \<open>Programs of atomic steps\<close>

text \<open>\<open>Step f u\<close> turns the state \<open>w\<close> into \<open>u w\<close> and goes on with \<open>f w\<close>.\<close>

datatype ('w, 'a) proc = Done 'a | Step "'w \<Rightarrow> ('w, 'a) proc" "'w \<Rightarrow> 'w"

primrec seq :: "('w, 'a) proc \<Rightarrow> ('a \<Rightarrow> ('w, 'b) proc) \<Rightarrow> ('w, 'b) proc" where
  "seq (Done a) g = g a"
| "seq (Step f u) g = Step (\<lambda>w. seq (f w) g) u"

primrec run :: "('w, 'a) proc \<Rightarrow> 'w \<Rightarrow> 'a \<times> 'w" where
  "run (Done a) w = (a, w)"
| "run (Step f u) w = run (f w) (u w)"

definition atomically :: "('w \<Rightarrow> 'a \<times> 'w) \<Rightarrow> ('w, 'a) proc" where
  "atomically m = Step (\<lambda>w. Done (fst (m w))) (\<lambda>w. snd (m w))"

lemma run_seq: "run (seq p g) w = (case run p w of (a, v) \<Rightarrow> run (g a) v)"
  by (induction p arbitrary: w) simp_all

type_synonym ('w, 'a) prog = "('w, ('a, KeyError) result) proc"

definition give :: "'a \<Rightarrow> ('w, 'a) prog" where
  "give x = Done (Ok x)"

definition fail :: "KeyError \<Rightarrow> ('w, 'a) prog" where
  "fail e = Done (Err e)"

text \<open>The operator \<open>?\<close> between steps.\<close>

definition try_then :: "('w, 'a) prog \<Rightarrow> ('a \<Rightarrow> ('w, 'b) prog) \<Rightarrow> ('w, 'b) prog" where
  "try_then p g = seq p (\<lambda>r. case r of Ok x \<Rightarrow> g x | Err e \<Rightarrow> Done (Err e))"

record 's KeyWorld =
  kw_dir :: Dir
  kw_bus :: 's

definition on_dir :: "(Dir \<Rightarrow> 'a \<times> Dir) \<Rightarrow> ('s KeyWorld, 'a) proc" where
  "on_dir m = atomically (\<lambda>w. let (r, d) = m (kw_dir w) in (r, w\<lparr>kw_dir := d\<rparr>))"

definition on_bus :: "('s \<Rightarrow> 'a \<times> 's) \<Rightarrow> ('s KeyWorld, 'a) proc" where
  "on_bus m = atomically (\<lambda>w. let (r, s) = m (kw_bus w) in (r, w\<lparr>kw_bus := s\<rparr>))"

section \<open>The Secret Service\<close>

record 's Bus =
  b_connect :: "('s, unit) act"
  b_read_alias :: "'s \<Rightarrow> (string, string option) result \<times> 's"
  b_create_collection :: "('s, string \<times> string) act"
  b_prompt_path :: "string \<Rightarrow> ('s, string) act"
  b_prompt_paths :: "string \<Rightarrow> ('s, string list) act"
  b_locked :: "string \<Rightarrow> string \<Rightarrow> ('s, bool) act"
  b_unlock :: "string list \<Rightarrow> ('s, string list \<times> string) act"
  b_search :: "string \<Rightarrow> ('s, string list) act"
  b_open_session :: "('s, string) act"
  b_get_secret :: "string \<Rightarrow> string \<Rightarrow> ('s, nat list) act"
  b_create_item :: "string \<Rightarrow> string \<Rightarrow> nat list \<Rightarrow> ('s, string \<times> string) act"
  b_close :: "string \<Rightarrow> 's \<Rightarrow> 's"

definition SECRET_COLLECTION_INTERFACE :: string where
  "SECRET_COLLECTION_INTERFACE = ''org.freedesktop.Secret.Collection''"

definition SECRET_ITEM_INTERFACE :: string where
  "SECRET_ITEM_INTERFACE = ''org.freedesktop.Secret.Item''"

text \<open>An error of \<open>ReadAlias\<close> is its D-Bus name.\<close>

definition linux_secret_service_is_absent :: "string option \<Rightarrow> bool" where
  "linux_secret_service_is_absent name = (name \<in> {Some ''org.freedesktop.DBus.Error.ServiceUnknown'',
     Some ''org.freedesktop.DBus.Error.NameHasNoOwner'', Some ''org.freedesktop.DBus.Error.Spawn.ServiceNotFound''})"

definition linux_wait_path_prompt :: "'s Bus \<Rightarrow> string \<Rightarrow> ('s KeyWorld, string) prog" where
  "linux_wait_path_prompt B prompt = (if prompt = ''/'' then fail (KeyError ''Secret Service returned no prompt result'')
     else on_bus (b_prompt_path B prompt))"

definition linux_wait_paths_prompt :: "'s Bus \<Rightarrow> string \<Rightarrow> ('s KeyWorld, string list) prog" where
  "linux_wait_paths_prompt B prompt = (if prompt = ''/'' then fail (KeyError ''Secret Service returned no prompt result'')
     else on_bus (b_prompt_paths B prompt))"

definition linux_default_collection :: "'s Bus \<Rightarrow> bool \<Rightarrow> ('s KeyWorld, string option) prog" where
  "linux_default_collection B create = seq (on_bus (b_read_alias B)) (\<lambda>r. case r of
       Err name \<Rightarrow> fail (if linux_secret_service_is_absent name then KeyError ''ReadAlias'' else MustNotFallback ''ReadAlias'')
     | Ok collection \<Rightarrow>
         if collection \<noteq> ''/'' then give (Some collection)
         else if \<not> create then give None
         else try_then (on_bus (b_create_collection B)) (\<lambda>(c, prompt).
           if c \<noteq> ''/'' then give (Some c)
           else try_then (linux_wait_path_prompt B prompt) (\<lambda>c'.
             if c' = ''/'' then fail (KeyError ''Secret Service did not create the default collection'')
             else give (Some c'))))"

fun locked_paths :: "'s Bus \<Rightarrow> string \<Rightarrow> string list \<Rightarrow> ('s KeyWorld, string list) prog" where
  "locked_paths B interface [] = give []"
| "locked_paths B interface (p # ps) = try_then (on_bus (b_locked B interface p)) (\<lambda>l.
     try_then (locked_paths B interface ps) (\<lambda>rest. give (if l then p # rest else rest)))"

fun all_unlocked :: "'s Bus \<Rightarrow> string \<Rightarrow> string list \<Rightarrow> ('s KeyWorld, unit) prog" where
  "all_unlocked B interface [] = give ()"
| "all_unlocked B interface (p # ps) = try_then (on_bus (b_locked B interface p)) (\<lambda>l.
     if l then fail (KeyError ''Secret Service object remains locked after the prompt'')
     else all_unlocked B interface ps)"

definition linux_unlock_paths :: "'s Bus \<Rightarrow> string list \<Rightarrow> string \<Rightarrow> ('s KeyWorld, unit) prog" where
  "linux_unlock_paths B paths interface = (if paths = [] then give ()
     else try_then (locked_paths B interface paths) (\<lambda>locked.
       if locked = [] then give ()
       else try_then (on_bus (b_unlock B locked)) (\<lambda>(unlocked, prompt).
         if list_all (\<lambda>p. p \<in> set unlocked) locked then give ()
         else if prompt = ''/'' then fail (KeyError ''Secret Service did not unlock the requested objects'')
         else try_then (linux_wait_paths_prompt B prompt) (\<lambda>_. all_unlocked B interface locked))))"

definition with_session :: "'s Bus \<Rightarrow> (string \<Rightarrow> ('s KeyWorld, 'a) prog) \<Rightarrow> ('s KeyWorld, 'a) prog" where
  "with_session B body = try_then (on_bus (b_open_session B)) (\<lambda>session.
     seq (body session) (\<lambda>r. seq (on_bus (\<lambda>s. ((), b_close B session s))) (\<lambda>_. Done r)))"

fun find_key :: "'s Bus \<Rightarrow> string \<Rightarrow> string list \<Rightarrow> StoredKey option \<Rightarrow> ('s KeyWorld, StoredKey option) prog" where
  "find_key B session [] found = give found"
| "find_key B session (i # is) found = try_then (on_bus (b_get_secret B session i)) (\<lambda>secret.
     case decode_stored_key secret of
       Err e \<Rightarrow> fail e
     | Ok key \<Rightarrow> if found \<noteq> None \<and> found \<noteq> Some key
         then fail (KeyError ''Secret Service contains conflicting ClantoDesk user keys'')
         else find_key B session is (Some key))"

definition linux_secret_service_read_collection :: "'s Bus \<Rightarrow> string \<Rightarrow> ('s KeyWorld, StoredKey option) prog" where
  "linux_secret_service_read_collection B collection =
     try_then (linux_unlock_paths B [collection] SECRET_COLLECTION_INTERFACE) (\<lambda>_.
     try_then (on_bus (b_search B collection)) (\<lambda>items.
       if items = [] then give None
       else try_then (locked_paths B SECRET_ITEM_INTERFACE items) (\<lambda>locked.
         try_then (linux_unlock_paths B locked SECRET_ITEM_INTERFACE) (\<lambda>_.
         with_session B (\<lambda>session. find_key B session items None)))))"

definition must_not_fallback :: "KeyError \<Rightarrow> KeyError" where
  "must_not_fallback e = MustNotFallback (case e of KeyError m \<Rightarrow> m | MustNotFallback m \<Rightarrow> m)"

definition map_err :: "(KeyError \<Rightarrow> KeyError) \<Rightarrow> ('w, 'a) prog \<Rightarrow> ('w, 'a) prog" where
  "map_err g p = seq p (\<lambda>r. case r of Ok x \<Rightarrow> Done (Ok x) | Err e \<Rightarrow> Done (Err (g e)))"

definition linux_secret_service_read :: "'s Bus \<Rightarrow> ('s KeyWorld, StoredKey option) prog" where
  "linux_secret_service_read B = try_then (on_bus (b_connect B)) (\<lambda>_.
     try_then (linux_default_collection B False) (\<lambda>c. case c of
       None \<Rightarrow> give None
     | Some collection \<Rightarrow> map_err must_not_fallback (linux_secret_service_read_collection B collection)))"

definition linux_secret_service_write_collection :: "'s Bus \<Rightarrow> string \<Rightarrow> StoredKey \<Rightarrow> ('s KeyWorld, unit) prog" where
  "linux_secret_service_write_collection B collection key =
     try_then (linux_unlock_paths B [collection] SECRET_COLLECTION_INTERFACE) (\<lambda>_.
     with_session B (\<lambda>session. try_then (on_bus (b_create_item B collection session key)) (\<lambda>(item, prompt).
       if item = ''/'' then try_then (linux_wait_path_prompt B prompt) (\<lambda>created.
         if created = ''/'' then fail (KeyError ''Secret Service did not create the user key item'') else give ())
       else give ())))"

definition linux_secret_service_write :: "'s Bus \<Rightarrow> StoredKey \<Rightarrow> ('s KeyWorld, unit) prog" where
  "linux_secret_service_write B key = try_then (on_bus (b_connect B)) (\<lambda>_.
     try_then (linux_default_collection B True) (\<lambda>c. case c of
       None \<Rightarrow> fail (KeyError ''Secret Service has no default collection'')
     | Some collection \<Rightarrow> map_err must_not_fallback (linux_secret_service_write_collection B collection key)))"

section \<open>The key of the user\<close>

datatype BackendSnapshot = Snap_Missing | Snap_Present StoredKey | Snap_Unavailable

datatype UserKeyChoice =
    Backend StoredKey bool
  | ImportFile StoredKey
  | FileFallback StoredKey
  | CreateBackend
  | CreateFileFallback

datatype BackendReadback = Back_Missing | Back_Present StoredKey | Back_Failed

definition choose_user_key ::
  "BackendSnapshot \<Rightarrow> StoredKey option \<Rightarrow> bool \<Rightarrow> bool \<Rightarrow> (UserKeyChoice, KeyError) result" where
  "choose_user_key backend f fallback_when_unavailable backend_marker_present = (case (backend, f) of
       (Snap_Present key, Some k) \<Rightarrow> if key \<noteq> k
         then Err (KeyError ''user credential key differs between the system key store and user.key'')
         else Ok (Backend key True)
     | (Snap_Present key, None) \<Rightarrow> Ok (Backend key False)
     | (Snap_Missing, Some key) \<Rightarrow> Ok (ImportFile key)
     | (Snap_Missing, None) \<Rightarrow> if \<not> backend_marker_present then Ok CreateBackend
         else Err (KeyError ''the recorded user credential key backend no longer contains the key'')
     | (Snap_Unavailable, _) \<Rightarrow>
         if backend_marker_present then Err (KeyError ''the recorded user credential key backend is unavailable'')
         else (case f of
             Some key \<Rightarrow> Ok (FileFallback key)
           | None \<Rightarrow> if fallback_when_unavailable then Ok CreateFileFallback
               else Err (KeyError ''the user credential key store is unavailable'')))"

definition migration_verified :: "StoredKey \<Rightarrow> BackendReadback \<Rightarrow> bool" where
  "migration_verified key readback = (readback = Back_Present key)"

definition snapshot_of :: "(StoredKey option, KeyError) result \<Rightarrow> BackendSnapshot" where
  "snapshot_of r = (case r of Ok (Some key) \<Rightarrow> Snap_Present key | Ok None \<Rightarrow> Snap_Missing | Err _ \<Rightarrow> Snap_Unavailable)"

definition readback_of :: "(StoredKey option, KeyError) result \<Rightarrow> BackendReadback" where
  "readback_of r = (case r of Ok (Some key) \<Rightarrow> Back_Present key | Ok None \<Rightarrow> Back_Missing | Err _ \<Rightarrow> Back_Failed)"

definition user_backend_marker_present :: "KeyEnv \<Rightarrow> Dir \<Rightarrow> (bool, KeyError) result" where
  "user_backend_marker_present E d = (if \<not> ke_meta E USER_KEY_BACKEND_FILE then Err (KeyError ''metadata'')
     else Ok (d USER_KEY_BACKEND_FILE \<noteq> None))"

definition record_user_backend :: "KeyEnv \<Rightarrow> ('s KeyWorld, unit) prog" where
  "record_user_backend E = on_dir (atomic_replace E USER_KEY_BACKEND_FILE SECRET_SERVICE_BACKEND_MARKER)"

definition record_present_user_backend :: "KeyEnv \<Rightarrow> BackendSnapshot \<Rightarrow> ('s KeyWorld, unit) prog" where
  "record_present_user_backend E backend = (case backend of Snap_Present _ \<Rightarrow> record_user_backend E | _ \<Rightarrow> give ())"

fun is_must_not_fallback :: "KeyError \<Rightarrow> bool" where
  "is_must_not_fallback (MustNotFallback _) = True"
| "is_must_not_fallback (KeyError _) = False"

definition user_backend_has_file_fallback :: "KeyError option \<Rightarrow> KeyError option \<Rightarrow> bool" where
  "user_backend_has_file_fallback write_error readback_error =
     (\<forall>e \<in> set_option write_error \<union> set_option readback_error. \<not> is_must_not_fallback e)"

definition user_backend_allows_new_file_when_unavailable :: "(StoredKey option, KeyError) result \<Rightarrow> bool" where
  "user_backend_allows_new_file_when_unavailable r = (case r of Ok _ \<Rightarrow> True | Err e \<Rightarrow> \<not> is_must_not_fallback e)"

fun result_err :: "('a, 'e) result \<Rightarrow> 'e option" where
  "result_err (Ok _) = None"
| "result_err (Err e) = Some e"

definition remove_migrated_key_file :: "KeyEnv \<Rightarrow> ('s KeyWorld, unit) proc" where
  "remove_migrated_key_file E = on_dir (\<lambda>d. ((), remove_file E USER_KEY_FILE d))"

text \<open>\<open>atomic_create\<close> and the reading of a file that another process has created in the meantime, and \<open>load_or_create_key\<close>,
  step by step.\<close>

definition create_then_read :: "KeyEnv \<Rightarrow> string \<Rightarrow> StoredKey \<Rightarrow> ('s KeyWorld, StoredKey) prog" where
  "create_then_read E path key = try_then (on_dir (atomic_create E path (encode_stored_key key))) (\<lambda>created.
     if created then give key else on_dir (\<lambda>d. (read_again E path d, d)))"

definition load_then_create :: "KeyEnv \<Rightarrow> string \<Rightarrow> ('s KeyWorld, StoredKey) prog" where
  "load_then_create E path = try_then (on_dir (\<lambda>d. (read_file E 1 path d, d))) (\<lambda>r. case r of
       Some bytes \<Rightarrow> Done (decode_stored_key bytes)
     | None \<Rightarrow> create_then_read E path (ke_fresh E))"

text \<open>Without interruption these are the calls on the directory.\<close>

lemma run_on_dir: "run (on_dir m) w = (fst (m (kw_dir w)), w\<lparr>kw_dir := snd (m (kw_dir w))\<rparr>)"
  by (simp add: on_dir_def atomically_def split_beta Let_def)

lemma run_create_then_read: "run (create_then_read E path key) w =
    (case create_or_read E path key (kw_dir w) of (r, d) \<Rightarrow> (r, w\<lparr>kw_dir := d\<rparr>))"
  by (cases "atomic_create E path (encode_stored_key key) (kw_dir w)")
    (auto simp: create_then_read_def create_or_read_def try_then_def run_seq run_on_dir give_def and_then_def split: result.split)

theorem load_then_create_run: "run (load_then_create E path) w =
    (case load_or_create_key E path (kw_dir w) of (r, d) \<Rightarrow> (r, w\<lparr>kw_dir := d\<rparr>))"
  by (auto simp: load_then_create_def load_or_create_key_def try_then_def run_seq run_on_dir run_create_then_read
      split: result.split option.split)

definition persist_user_backend :: "'s Bus \<Rightarrow> KeyEnv \<Rightarrow> StoredKey \<Rightarrow> bool \<Rightarrow> ('s KeyWorld, StoredKey) prog" where
  "persist_user_backend B E key migrating_file =
     seq (linux_secret_service_write B key) (\<lambda>wr.
     seq (linux_secret_service_read B) (\<lambda>readback_result.
     let write_error = result_err wr;
         readback = readback_of readback_result;
         file_fallback_allowed = (migrating_file \<or> user_backend_has_file_fallback write_error (result_err readback_result))
     in if migration_verified key readback
        then try_then (record_user_backend E) (\<lambda>_.
          if migrating_file then seq (remove_migrated_key_file E) (\<lambda>_. give key) else give key)
        else case readback of
            Back_Present _ \<Rightarrow> fail (KeyError ''the user credential key store changed while the key was being saved'')
          | _ \<Rightarrow>
            if migrating_file then give key
            else if file_fallback_allowed then create_then_read E USER_KEY_FILE key
            else fail (case write_error of Some e \<Rightarrow> e
                | None \<Rightarrow> (case result_err readback_result of Some e \<Rightarrow> e
                    | None \<Rightarrow> KeyError ''failed to verify the saved user credential key''))))"

text \<open>\<open>load_user_key\<close> up to the choice: file, marker, Secret Service, and the marker for a key that was found there,
  whose failure is only logged.\<close>

definition load_choice :: "'s Bus \<Rightarrow> KeyEnv \<Rightarrow> ('s KeyWorld, UserKeyChoice) prog" where
  "load_choice B E =
     try_then (on_dir (\<lambda>d. (read_existing_key_file E USER_KEY_FILE d, d))) (\<lambda>file_key.
     try_then (on_dir (\<lambda>d. (user_backend_marker_present E d, d))) (\<lambda>backend_marker_present.
     seq (linux_secret_service_read B) (\<lambda>backend_result.
     seq (record_present_user_backend E (snapshot_of backend_result)) (\<lambda>_.
     Done (choose_user_key (snapshot_of backend_result) file_key
       (user_backend_allows_new_file_when_unavailable backend_result) backend_marker_present)))))"

text \<open>\<open>load_user_key\<close> from the choice on.\<close>

definition load_act :: "'s Bus \<Rightarrow> KeyEnv \<Rightarrow> UserKeyChoice \<Rightarrow> ('s KeyWorld, StoredKey) prog" where
  "load_act B E choice = (case choice of
       Backend key remove \<Rightarrow>
         if remove then seq (linux_secret_service_read B) (\<lambda>r.
           if migration_verified key (readback_of r) then seq (remove_migrated_key_file E) (\<lambda>_. give key) else give key)
         else give key
     | ImportFile key \<Rightarrow> persist_user_backend B E key True
     | FileFallback key \<Rightarrow> give key
     | CreateBackend \<Rightarrow> persist_user_backend B E (ke_fresh E) False
     | CreateFileFallback \<Rightarrow> load_then_create E USER_KEY_FILE)"

definition load_user_key :: "'s Bus \<Rightarrow> KeyEnv \<Rightarrow> ('s KeyWorld, StoredKey) prog" where
  "load_user_key B E = try_then (load_choice B E) (load_act B E)"

section \<open>The provider\<close>

datatype UserKeyCacheDecision = ReturnCached | ResolveSynchronously | ResolveInBackground

definition user_key_cache_decision :: "bool \<Rightarrow> bool \<Rightarrow> UserKeyCacheDecision" where
  "user_key_cache_decision cached inside_tokio_runtime = (if cached then ReturnCached
     else if inside_tokio_runtime then ResolveInBackground else ResolveSynchronously)"

text \<open>A resolution that holds \<open>USER_KEY_RESOLUTION_LOCK\<close>: whether the background thread runs it, the answers of the system,
  what is left to execute.\<close>

record 's Resolution =
  rs_background :: bool
  rs_env :: KeyEnv
  rs_rest :: "('s KeyWorld, StoredKey) prog"

text \<open>What one process keeps: the cached key, whether a thread for the background has been started, and the holder of the
  lock.\<close>

record 's KeyProc =
  kp_cache :: "StoredKey option"
  kp_background :: bool
  kp_lock :: "'s Resolution option"

definition cache_user_key :: "StoredKey \<Rightarrow> 's KeyProc \<Rightarrow> StoredKey \<times> 's KeyProc" where
  "cache_user_key key p = (case kp_cache p of Some k \<Rightarrow> (k, p) | None \<Rightarrow> (key, p\<lparr>kp_cache := Some key\<rparr>))"

text \<open>\<open>resolve_linux_user_key\<close>, from its call until it holds the lock. With a cached key it is over; a caller that finds the
  lock taken waits, and tries again in a later event.\<close>

definition resolve_linux_user_key :: "'s Bus \<Rightarrow> KeyEnv \<Rightarrow> bool \<Rightarrow> 's KeyProc \<Rightarrow> StoredKey option \<times> 's KeyProc" where
  "resolve_linux_user_key B E background p = (case kp_cache p of
       Some key \<Rightarrow> (Some key, if background then p\<lparr>kp_background := False\<rparr> else p)
     | None \<Rightarrow> (case kp_lock p of
         Some _ \<Rightarrow> (None, p)
       | None \<Rightarrow> (None, p\<lparr>kp_lock := Some \<lparr>rs_background = background, rs_env = E, rs_rest = load_user_key B E\<rparr>\<rparr>)))"

text \<open>The next step of the resolution that holds the lock; at its end the key is cached, the lock released, and the flag of
  the background thread cleared.\<close>

definition resolution_step :: "'s KeyProc \<Rightarrow> 's KeyWorld \<Rightarrow> StoredKey option \<times> 's KeyProc \<times> 's KeyWorld" where
  "resolution_step p w = (case kp_lock p of
       None \<Rightarrow> (None, p, w)
     | Some rs \<Rightarrow> (case rs_rest rs of
         Step f u \<Rightarrow> (None, p\<lparr>kp_lock := Some (rs\<lparr>rs_rest := f w\<rparr>)\<rparr>, u w)
       | Done r \<Rightarrow>
           let p1 = p\<lparr>kp_lock := None, kp_background := (kp_background p \<and> \<not> rs_background rs)\<rparr>
           in case r of Err e \<Rightarrow> (None, p1, w) | Ok key \<Rightarrow> let (k, p2) = cache_user_key key p1 in (Some k, p2, w)))"

definition initialize_linux_user_key_cache :: "'s Bus \<Rightarrow> KeyEnv \<Rightarrow> bool \<Rightarrow> 's KeyProc \<Rightarrow> 's KeyProc" where
  "initialize_linux_user_key_cache B E is_root p = (if is_root then p else snd (resolve_linux_user_key B E False p))"

text \<open>The thread is a separate event; here it is only marked as started, or not when it cannot be spawned.\<close>

definition start_linux_user_key_resolution :: "bool \<Rightarrow> 's KeyProc \<Rightarrow> 's KeyProc" where
  "start_linux_user_key_resolution spawned p = (if kp_background p then p else p\<lparr>kp_background := spawned\<rparr>)"

definition background_resolution :: "'s Bus \<Rightarrow> KeyEnv \<Rightarrow> 's KeyProc \<Rightarrow> 's KeyProc" where
  "background_resolution B E p = (if kp_background p then snd (resolve_linux_user_key B E True p) else p)"

text \<open>The answer that is there at once; the one of a resolution comes with the end of it.\<close>

definition linux_user_key_for_provider ::
  "'s Bus \<Rightarrow> KeyEnv \<Rightarrow> bool \<Rightarrow> bool \<Rightarrow> 's KeyProc \<Rightarrow> StoredKey option \<times> 's KeyProc" where
  "linux_user_key_for_provider B E inside_tokio_runtime spawned p =
     (case user_key_cache_decision (kp_cache p \<noteq> None) inside_tokio_runtime of
       ReturnCached \<Rightarrow> (kp_cache p, p)
     | ResolveSynchronously \<Rightarrow> resolve_linux_user_key B E False p
     | ResolveInBackground \<Rightarrow> (None, start_linux_user_key_resolution spawned p))"

text \<open>\<open>ClientKeyProvider::key\<close>.\<close>

definition provider_key ::
  "'s Bus \<Rightarrow> KeyEnv \<Rightarrow> bool \<Rightarrow> bool \<Rightarrow> bool \<Rightarrow> KeyScope \<Rightarrow> 's KeyProc \<Rightarrow> 's KeyWorld \<Rightarrow> StoredKey option \<times> 's KeyProc \<times> 's KeyWorld" where
  "provider_key B E is_root inside_tokio_runtime spawned scope p w = (case scope of
       User \<Rightarrow> if is_root then (None, p, w)
         else let (k, p') = linux_user_key_for_provider B E inside_tokio_runtime spawned p in (k, p', w)
     | Machine \<Rightarrow> let (r, w') = run (load_then_create E (key_path Machine)) w in (result_ok r, p, w'))"

end
