(* ===== verification/Key_Claims.thy ===== *)
theory Key_Claims
  imports Key_Store
begin

text \<open>
  The key of the user is never exchanged for another one: what the files keep under every failure, what the
  Secret Service is asked to promise, the invariant of the start of a process, and the history of several
  processes and restarts. Two further theorems show what the invariant needs.
\<close>

section \<open>Files\<close>

text \<open>Names of temporary files begin with a dot; the files of the key store do not.\<close>

definition ordinary :: "string \<Rightarrow> bool" where
  "ordinary q = (case q of [] \<Rightarrow> True | c # _ \<Rightarrow> c \<noteq> CHR ''.'')"

definition same_files :: "string set \<Rightarrow> Dir \<Rightarrow> Dir \<Rightarrow> bool" where
  "same_files X d d' = (\<forall>q. ordinary q \<longrightarrow> q \<notin> X \<longrightarrow> d' q = d q)"

lemma ordinary_names [simp]: "ordinary USER_KEY_FILE" "ordinary USER_KEY_BACKEND_FILE" "ordinary MACHINE_KEY_FILE"
    "\<not> ordinary (temporary_name E path i)"
  by (simp_all add: ordinary_def USER_KEY_FILE_def USER_KEY_BACKEND_FILE_def MACHINE_KEY_FILE_def temporary_name_def)

lemma distinct_names [simp]: "USER_KEY_FILE \<noteq> USER_KEY_BACKEND_FILE" "USER_KEY_BACKEND_FILE \<noteq> USER_KEY_FILE"
    "MACHINE_KEY_FILE \<noteq> USER_KEY_FILE" "MACHINE_KEY_FILE \<noteq> USER_KEY_BACKEND_FILE"
    "USER_KEY_FILE \<noteq> MACHINE_KEY_FILE" "USER_KEY_BACKEND_FILE \<noteq> MACHINE_KEY_FILE"
  by (simp_all add: USER_KEY_FILE_def USER_KEY_BACKEND_FILE_def MACHINE_KEY_FILE_def)

lemma same_files_refl [simp]: "same_files X d d" by (simp add: same_files_def)

lemma same_files_trans: "same_files X d d' \<Longrightarrow> same_files X d' d'' \<Longrightarrow> same_files X d d''"
  by (auto simp: same_files_def)

lemma same_files_mono: "same_files X d d' \<Longrightarrow> X \<subseteq> Y \<Longrightarrow> same_files Y d d'"
  by (auto simp: same_files_def)

lemma same_files_tmp [simp]: "\<not> ordinary tmp \<Longrightarrow> same_files X d (d(tmp := v))"
  by (auto simp: same_files_def)

lemma same_files_put: "same_files X d d' \<Longrightarrow> path \<in> X \<or> \<not> ordinary path \<Longrightarrow> same_files X d (d'(path := v))"
  by (auto simp: same_files_def)

lemma same_filesD: "same_files X d d' \<Longrightarrow> ordinary q \<Longrightarrow> q \<notin> X \<Longrightarrow> d' q = d q"
  by (simp add: same_files_def)

lemma remove_tmp: "\<not> ordinary tmp \<Longrightarrow> same_files X d d' \<Longrightarrow> same_files X d (remove_file E tmp d')"
  by (auto simp: same_files_def remove_file_def)

lemma temporary_tries_ok:
  "temporary_tries E path bytes is d = (r, d') \<Longrightarrow>
   same_files {} d d' \<and> (\<forall>tmp. r = Ok tmp \<longrightarrow> \<not> ordinary tmp \<and> d' tmp = Some bytes)"
proof (induction "is" arbitrary: d)
  case Nil
  then show ?case by (auto simp: throw_def)
next
  case (Cons i "is")
  show ?case
  proof (cases "d (temporary_name E path i) = None")
    case False
    then have "temporary_tries E path bytes is d = (r, d')" using Cons.prems by (auto simp: Let_def)
    then show ?thesis by (rule Cons.IH)
  next
    case True
    define t where "t = temporary_name E path i"
    have t: "\<not> ordinary t" "same_files {} d (d(t := v))" for v by (simp_all add: t_def)
    show ?thesis
    proof (cases "ke_write E path")
      case None
      then show ?thesis using Cons.prems True t
        by (cases "ke_open E t") (auto simp: Let_def t_def [symmetric] simp del: fun_upd_apply, simp)
    next
      case (Some part)
      then show ?thesis using Cons.prems True t
        by (cases "ke_open E t") (auto simp: Let_def remove_tmp t_def [symmetric] simp del: fun_upd_apply)
    qed
  qed
qed

lemma write_temporary_ok:
  "write_temporary E path bytes d = (r, d') \<Longrightarrow>
   same_files {} d d' \<and> (\<forall>tmp. r = Ok tmp \<longrightarrow> \<not> ordinary tmp \<and> d' tmp = Some bytes)"
  by (auto simp: write_temporary_def throw_def dest: temporary_tries_ok split: if_splits)

text \<open>A replacement is complete or leaves the file as it was; no other file changes.\<close>

lemma atomic_replace_ok:
  assumes "atomic_replace E path bytes d = (r, d')" "ordinary path"
  shows "same_files {path} d d' \<and> (if r = Ok () then d' path = Some bytes else d' path = d path)"
proof (cases "write_temporary E path bytes d")
  case (Pair r1 d1)
  note W = write_temporary_ok [OF Pair]
  show ?thesis
  proof (cases r1)
    case (Err e)
    then show ?thesis using assms W Pair by (auto simp: atomic_replace_def same_files_def)
  next
    case (Ok tmp)
    with W have T: "\<not> ordinary tmp" "d1 tmp = Some bytes" "same_files {} d d1" by auto
    with assms(2) have ne: "tmp \<noteq> path" by auto
    have S: "same_files {path} d d1" using T(3) by (rule same_files_mono) simp
    have p: "d1 path = d path" using same_filesD [OF T(3) assms(2)] by simp
    show ?thesis
    proof (cases "ke_rename E path")
      case True
      then have "d' = d1(path := d1 tmp, tmp := None)" "r = Ok ()"
        using assms(1) Pair Ok by (simp_all add: atomic_replace_def replace_file_def)
      then show ?thesis using S T ne by (simp add: same_files_put)
    next
      case False
      then have "d' = remove_file E tmp d1" "r \<noteq> Ok ()"
        using assms(1) Pair Ok by (auto simp: atomic_replace_def replace_file_def)
      then show ?thesis using S T(1) p ne by (simp add: remove_tmp) (simp add: remove_file_def)
    qed
  qed
qed

lemma atomic_create_ok:
  assumes "atomic_create E path bytes d = (r, d')" "ordinary path"
  shows "same_files {path} d d' \<and> (case r of Ok True \<Rightarrow> d path = None \<and> d' path = Some bytes | _ \<Rightarrow> d' path = d path)"
proof (cases "write_temporary E path bytes d")
  case (Pair r1 d1)
  note W = write_temporary_ok [OF Pair]
  show ?thesis
  proof (cases r1)
    case (Err e)
    then show ?thesis using assms W Pair by (auto simp: atomic_create_def same_files_def)
  next
    case (Ok tmp)
    with W have T: "\<not> ordinary tmp" "d1 tmp = Some bytes" "same_files {} d d1" by auto
    with assms(2) have ne: "tmp \<noteq> path" by auto
    have S: "same_files {path} d d1" using T(3) by (rule same_files_mono) simp
    have p: "d1 path = d path" using same_filesD [OF T(3) assms(2)] by simp
    have rm: "remove_file E tmp x path = x path" for x using ne by (simp add: remove_file_def)
    show ?thesis
      using assms(1) Pair Ok S T(1,2) p ne
      by (auto simp: atomic_create_def rm remove_tmp same_files_put split: if_splits)
  qed
qed

lemma create_or_read_ok:
  assumes "create_or_read E path key d = (r, d')" "ordinary path"
  shows "same_files {path} d d' \<and> (\<forall>k. r = Ok k \<longrightarrow> d' path = Some k) \<and> (d path \<noteq> None \<longrightarrow> d' path = d path)"
proof (cases "atomic_create E path (encode_stored_key key) d")
  case (Pair r1 d1)
  note A = atomic_create_ok [OF Pair assms(2)]
  then show ?thesis using assms Pair
    by (cases r1) (auto simp: create_or_read_def encode_stored_key_def read_again_def read_file_def decode_stored_key_def
        split: if_splits option.splits bool.splits)
qed

lemma load_or_create_key_ok:
  assumes "load_or_create_key E path d = (r, d')" "ordinary path"
  shows "same_files {path} d d' \<and> (\<forall>k. r = Ok k \<longrightarrow> d' path = Some k) \<and> (d path \<noteq> None \<longrightarrow> d' path = d path)"
  using assms create_or_read_ok [of E path "ke_fresh E" d r d']
  by (auto simp: load_or_create_key_def read_file_def decode_stored_key_def split: if_splits option.splits)

section \<open>What is asked of the Secret Service\<close>

text \<open>\<open>C\<close> gives the items with the program's attributes, all in the default collection, and their secrets. Items are
  neither changed nor removed, a search finds all of them, a secret that is returned is the one of its item.\<close>

definition grows :: "('s \<Rightarrow> string \<rightharpoonup> nat list) \<Rightarrow> ('s \<Rightarrow> 'r \<times> 's) \<Rightarrow> bool" where
  "grows C m = (\<forall>s. C s \<subseteq>\<^sub>m C (snd (m s)))"

definition bus_ok :: "'s Bus \<Rightarrow> ('s \<Rightarrow> string \<rightharpoonup> nat list) \<Rightarrow> bool" where
  "bus_ok B C = (grows C (b_connect B) \<and> grows C (b_read_alias B) \<and> grows C (b_create_collection B)
     \<and> (\<forall>p. grows C (b_prompt_path B p)) \<and> (\<forall>p. grows C (b_prompt_paths B p)) \<and> (\<forall>i p. grows C (b_locked B i p))
     \<and> (\<forall>ps. grows C (b_unlock B ps)) \<and> (\<forall>c. grows C (b_search B c)) \<and> grows C (b_open_session B)
     \<and> (\<forall>z i. grows C (b_get_secret B z i)) \<and> (\<forall>c z k. grows C (b_create_item B c z k))
     \<and> (\<forall>z s. C s \<subseteq>\<^sub>m C (b_close B z s))
     \<and> (\<forall>c s items t. b_search B c s = (Ok items, t) \<longrightarrow> dom (C s) \<subseteq> set items)
     \<and> (\<forall>z i s v t. b_get_secret B z i s = (Ok v, t) \<longrightarrow> C s i = Some v))"

lemma growsD: "grows C m \<Longrightarrow> m s = (r, t) \<Longrightarrow> C s \<subseteq>\<^sub>m C t"
  by (metis grows_def snd_conv)

lemma bus_ok_grows:
  assumes "bus_ok B C"
  shows "grows C (b_connect B)" "grows C (b_read_alias B)" "grows C (b_create_collection B)" "grows C (b_prompt_path B p)"
    "grows C (b_prompt_paths B p)" "grows C (b_locked B i p)" "grows C (b_unlock B ps)" "grows C (b_search B c)"
    "grows C (b_open_session B)" "grows C (b_get_secret B z j)" "grows C (b_create_item B c z k)" "C s \<subseteq>\<^sub>m C (b_close B z s)"
  using assms by (auto simp: bus_ok_def)

section \<open>Programs among other processes\<close>

text \<open>\<open>safe J R G Q p w\<close>: started in \<open>w\<close>, whatever the others do between two steps within \<open>R\<close>, every step of \<open>p\<close> taken where
  \<open>J\<close> holds is within \<open>G\<close>, and the result satisfies \<open>Q\<close>.\<close>

primrec safe :: "('w \<Rightarrow> bool) \<Rightarrow> ('w \<Rightarrow> 'w \<Rightarrow> bool) \<Rightarrow> ('w \<Rightarrow> 'w \<Rightarrow> bool) \<Rightarrow> ('a \<Rightarrow> 'w \<Rightarrow> bool) \<Rightarrow> ('w, 'a) proc \<Rightarrow> 'w \<Rightarrow> bool" where
  "safe J R G Q (Done a) w = Q a w"
| "safe J R G Q (Step f u) w = (\<forall>v. R w v \<longrightarrow> J v \<longrightarrow> G v (u v) \<and> safe J R G Q (f v) (u v))"

lemma safe_seq: "safe J R G Q (seq p g) w = safe J R G (\<lambda>a v. safe J R G Q (g a) v) p w"
  by (induction p arbitrary: w) simp_all

lemma safe_mono:
  assumes "safe J R G Q p w" "\<And>a v. Q a v \<Longrightarrow> Q' a v"
  shows "safe J R G Q' p w"
  using assms(1) by (induction p arbitrary: w) (use assms(2) in auto)

lemma safe_try: "safe J R G Q (try_then p g) w =
    safe J R G (\<lambda>r v. case r of Ok x \<Rightarrow> safe J R G Q (g x) v | Err e \<Rightarrow> Q (Err e) v) p w"
proof -
  have "(\<lambda>r v. safe J R G Q (case r of Ok x \<Rightarrow> g x | Err e \<Rightarrow> Done (Err e)) v)
      = (\<lambda>r v. case r of Ok x \<Rightarrow> safe J R G Q (g x) v | Err e \<Rightarrow> Q (Err e) v)"
    by (intro ext) (simp split: result.split)
  then show ?thesis by (simp add: try_then_def safe_seq)
qed

lemma safe_dir:
  assumes "\<And>v r d. R w v \<Longrightarrow> J v \<Longrightarrow> m (kw_dir v) = (r, d) \<Longrightarrow> G v (v\<lparr>kw_dir := d\<rparr>) \<and> Q r (v\<lparr>kw_dir := d\<rparr>)"
  shows "safe J R G Q (on_dir m) w"
  using assms [OF _ _ prod.collapse [symmetric]] by (simp add: on_dir_def atomically_def split_beta Let_def)

text \<open>A step that only looks at the files.\<close>

lemma safe_query:
  assumes "\<And>v x. R w v \<Longrightarrow> h (kw_dir v) = Ok x \<Longrightarrow> safe J R G Q (g x) v" "\<And>e v. R w v \<Longrightarrow> Q (Err e) v" "\<And>v. G v v"
  shows "safe J R G Q (try_then (on_dir (\<lambda>d. (h d, d))) g) w"
  unfolding safe_try by (rule safe_dir) (use assms in \<open>auto split: result.split\<close>)

lemma seq_assoc: "seq (seq p f) g = seq p (\<lambda>a. seq (f a) g)"
  by (induction p) simp_all

lemma try_assoc: "try_then (try_then p f) g = try_then p (\<lambda>x. try_then (f x) g)"
    "try_then (seq q h) g = seq q (\<lambda>a. try_then (h a) g)"
proof -
  show "try_then (try_then p f) g = try_then p (\<lambda>x. try_then (f x) g)"
    unfolding try_then_def seq_assoc by (rule arg_cong [where f = "seq p"], rule ext) (simp split: result.split)
  show "try_then (seq q h) g = seq q (\<lambda>a. try_then (h a) g)" by (simp add: try_then_def seq_assoc)
qed

text \<open>Without interruption.\<close>

lemma safe_run:
  assumes "safe (\<lambda>_. True) R G Q p w" "\<And>v. R v v"
  shows "Q (fst (run p w)) (snd (run p w))"
  using assms(1) by (induction p arbitrary: w) (use assms(2) in auto)

text \<open>What the others do before the first step does no harm either.\<close>

lemma safe_later:
  assumes "safe J R G Q p w" "R w v" "\<And>a b c. R a b \<Longrightarrow> R b c \<Longrightarrow> R a c" "\<And>r. Q r w \<Longrightarrow> Q r v"
  shows "safe J R G Q p v"
  using assms(1,2,4) by (cases p) (auto intro: assms(3))

text \<open>Programs that only call the Secret Service.\<close>

primrec quiet :: "('s \<Rightarrow> string \<rightharpoonup> nat list) \<Rightarrow> ('s KeyWorld, 'a) proc \<Rightarrow> bool" where
  "quiet C (Done a) = True"
| "quiet C (Step f u) = (\<forall>w. (\<exists>s. u w = w\<lparr>kw_bus := s\<rparr> \<and> C (kw_bus w) \<subseteq>\<^sub>m C s) \<and> quiet C (f w))"

lemma quiet_seq: "quiet C p \<Longrightarrow> (\<And>a. quiet C (g a)) \<Longrightarrow> quiet C (seq p g)"
  by (induction p) simp_all

lemma quiet_try: "quiet C p \<Longrightarrow> (\<And>a. quiet C (g a)) \<Longrightarrow> quiet C (try_then p g)"
  by (auto simp: try_then_def intro!: quiet_seq split: result.split)

lemma quiet_basic: "quiet C (give x)" "quiet C (fail e)"
  by (simp_all add: give_def fail_def)

lemma quiet_map_err: "quiet C p \<Longrightarrow> quiet C (map_err g p)"
  by (auto simp: map_err_def intro!: quiet_seq split: result.split)

lemma quiet_bus: "grows C m \<Longrightarrow> quiet C (on_bus m)"
  by (auto simp: on_bus_def atomically_def grows_def split_beta Let_def)

lemma quiet_if: "quiet C p \<Longrightarrow> quiet C q \<Longrightarrow> quiet C (if b then p else q)" by simp

lemmas quiets = quiet_seq quiet_try quiet_basic quiet_map_err quiet_bus quiet_if

lemma quiet_locked: "bus_ok B C \<Longrightarrow> quiet C (locked_paths B i ps)"
  by (induction ps) (auto intro!: bus_ok_grows quiets)

lemma quiet_all_unlocked: "bus_ok B C \<Longrightarrow> quiet C (all_unlocked B i ps)"
  by (induction ps) (auto intro!: bus_ok_grows quiets)

lemma quiet_wait: "bus_ok B C \<Longrightarrow> quiet C (linux_wait_path_prompt B p)" "bus_ok B C \<Longrightarrow> quiet C (linux_wait_paths_prompt B p)"
  by (auto simp: linux_wait_path_prompt_def linux_wait_paths_prompt_def intro!: bus_ok_grows quiets)

lemma quiet_unlock: "bus_ok B C \<Longrightarrow> quiet C (linux_unlock_paths B ps i)"
  by (auto simp: linux_unlock_paths_def intro!: quiets bus_ok_grows quiet_locked quiet_all_unlocked quiet_wait split: prod.split)

lemma quiet_close: "bus_ok B C \<Longrightarrow> quiet C (on_bus (\<lambda>s. ((), b_close B z s)))"
  by (rule quiet_bus) (simp add: grows_def bus_ok_grows)

lemma quiet_with_session: "bus_ok B C \<Longrightarrow> (\<And>z. quiet C (f z)) \<Longrightarrow> quiet C (with_session B f)"
  unfolding with_session_def by (intro quiets bus_ok_grows quiet_close) simp_all

lemma quiet_default: "bus_ok B C \<Longrightarrow> quiet C (linux_default_collection B create)"
  unfolding linux_default_collection_def
  by (rule quiet_seq [OF quiet_bus]) (auto intro!: quiets bus_ok_grows quiet_wait split: result.split prod.split)

lemma quiet_write: "bus_ok B C \<Longrightarrow> quiet C (linux_secret_service_write B k)"
  unfolding linux_secret_service_write_def linux_secret_service_write_collection_def
  by (auto intro!: quiets bus_ok_grows quiet_default quiet_unlock quiet_with_session quiet_wait split: option.split prod.split)

text \<open>What is asked of the other processes while the Secret Service is in use: nothing they do is undone by a call, and
  they remove no item.\<close>

locale interference =
  fixes C :: "'s \<Rightarrow> string \<rightharpoonup> nat list"
    and T :: "'s KeyWorld \<Rightarrow> 's KeyWorld \<Rightarrow> bool"
    and G :: "'s KeyWorld \<Rightarrow> 's KeyWorld \<Rightarrow> bool"
  assumes T_refl: "T w w"
    and T_trans: "T u v \<Longrightarrow> T v w \<Longrightarrow> T u w"
    and T_grows: "T v w \<Longrightarrow> C (kw_bus v) \<subseteq>\<^sub>m C (kw_bus w)"
    and T_bus: "C (kw_bus w) \<subseteq>\<^sub>m C s \<Longrightarrow> T w (w\<lparr>kw_bus := s\<rparr>)"
    and T_allowed: "T v w \<Longrightarrow> G v w"
begin

lemma safe_quiet:
  assumes "quiet C p" "\<And>r v. T w v \<Longrightarrow> Q r v"
  shows "safe J T G Q p w"
  using assms
proof (induction p arbitrary: w)
  case (Done a)
  then show ?case using T_refl by simp
next
  case (Step f u)
  have "G v (u v) \<and> safe J T G Q (f v) (u v)" if v: "T w v" for v
  proof -
    have t: "T v (u v)" using Step.prems(1) T_bus by (metis quiet.simps(2))
    then have "T w (u v)" using v T_trans by blast
    then have "safe J T G Q (f v) (u v)" using Step.prems Step.IH [of "f v" "u v"] T_trans by auto
    then show ?thesis using t T_allowed by blast
  qed
  then show ?case by simp
qed

lemma safe_quiet_seq:
  assumes "quiet C p" "\<And>r v. T w v \<Longrightarrow> safe J T G Q (g r) v"
  shows "safe J T G Q (seq p g) w"
  unfolding safe_seq by (rule safe_quiet [OF assms])

lemma safe_quiet_try:
  assumes "quiet C p" "\<And>x v. T w v \<Longrightarrow> safe J T G Q (g x) v" "\<And>e v. T w v \<Longrightarrow> Q (Err e) v"
  shows "safe J T G Q (try_then p g) w"
  unfolding try_then_def by (rule safe_quiet_seq [OF assms(1)]) (simp add: assms(2,3) split: result.split)

text \<open>One call, with what its answer says.\<close>

lemma safe_bus:
  assumes "grows C m" "\<And>v r s. T w v \<Longrightarrow> m (kw_bus v) = (r, s) \<Longrightarrow> T w (v\<lparr>kw_bus := s\<rparr>) \<Longrightarrow> Q r (v\<lparr>kw_bus := s\<rparr>)"
  shows "safe J T G Q (on_bus m) w"
proof -
  have "G v (v\<lparr>kw_bus := s\<rparr>) \<and> Q r (v\<lparr>kw_bus := s\<rparr>)" if "T w v" "m (kw_bus v) = (r, s)" for v r s
  proof -
    have t: "T v (v\<lparr>kw_bus := s\<rparr>)" using growsD [OF assms(1) that(2)] T_bus by blast
    then show ?thesis using assms(2) [OF that] T_allowed T_trans [OF that(1)] by blast
  qed
  from this [OF _ prod.collapse [symmetric]] show ?thesis by (simp add: on_bus_def atomically_def split_beta Let_def)
qed

lemma find_key_safe:
  assumes "bus_ok B C"
    "\<And>r v. T w v \<Longrightarrow> (\<And>y. r = Ok y \<Longrightarrow> (\<forall>x. found = Some x \<longrightarrow> y = Some x) \<and> (\<forall>i\<in>set items. y \<noteq> None \<and> C (kw_bus v) i = y)) \<Longrightarrow> Q r v"
  shows "safe J T G Q (find_key B z items found) w"
  using assms(2)
proof (induction items arbitrary: found w)
  case Nil
  show ?case using Nil.prems [OF T_refl, of "Ok found"] by (simp add: give_def)
next
  case (Cons i items)
  show ?case unfolding find_key.simps try_then_def safe_seq
  proof (rule safe_bus [OF bus_ok_grows(10) [OF assms(1)]])
    fix v :: "'s KeyWorld" and r s
    let ?v = "v\<lparr>kw_bus := s\<rparr>"
    assume v: "T w v" "b_get_secret B z i (kw_bus v) = (r, s)" "T w ?v"
    have bad: "Q (Err e) ?v" for e using Cons.prems [OF v(3), of "Err e"] by simp
    show "safe J T G Q (case r of Ok secret \<Rightarrow> (case decode_stored_key secret of
       Ok key \<Rightarrow> if found \<noteq> None \<and> found \<noteq> Some key
         then fail (KeyError ''Secret Service contains conflicting ClantoDesk user keys'')
         else find_key B z items (Some key) | Err e \<Rightarrow> fail e) | Err e \<Rightarrow> Done (Err e)) ?v"
    proof (cases "\<exists>key. r = Ok key \<and> decode_stored_key key = Ok key \<and> (found = None \<or> found = Some key)")
      case True
      then obtain key where k: "r = Ok key" "decode_stored_key key = Ok key" "found = None \<or> found = Some key" by blast
      have "C (kw_bus v) i = Some key" using assms(1) v(2) k(1) unfolding bus_ok_def by blast
      then have c: "C s i = Some key" using growsD [OF bus_ok_grows(10) [OF assms(1)] v(2)] by (metis domI map_le_def)
      have "safe J T G Q (find_key B z items (Some key)) ?v"
      proof (rule Cons.IH)
        fix r' :: "(StoredKey option, KeyError) result" and v'
        assume t: "T ?v v'" and y: "\<And>y. r' = Ok y \<Longrightarrow> (\<forall>x. Some key = Some x \<longrightarrow> y = Some x) \<and> (\<forall>i\<in>set items. y \<noteq> None \<and> C (kw_bus v') i = y)"
        have "C (kw_bus v') i = Some key" using T_grows [OF t] c by (metis KeyWorld.select_convs(2) KeyWorld.surjective KeyWorld.update_convs(2) domI map_le_def)
        then show "Q r' v'" using Cons.prems [of v' r'] T_trans [OF v(3) t] y k(3) by auto
      qed
      then show ?thesis using k by auto
    next
      case False
      then show ?thesis using bad
        by (auto simp: fail_def decode_stored_key_def split: result.split)
    qed
  qed
qed

lemma all_items_key:
  assumes "T w u" "T w t" "dom (C (kw_bus u)) \<subseteq> set items" "items \<noteq> []" "\<forall>i\<in>set items. C (kw_bus t) i = Some x"
  shows "x \<in> ran (C (kw_bus t)) \<and> (\<forall>k\<in>ran (C (kw_bus w)). k = x)"
proof -
  have "x \<in> ran (C (kw_bus t))" using assms(4,5) by (metis list.set_sel(1) ranI)
  moreover have "k = x" if k: "k \<in> ran (C (kw_bus w))" for k
  proof -
    from k obtain j where "C (kw_bus w) j = Some k" by (auto simp: ran_def)
    then have "C (kw_bus u) j = Some k" "C (kw_bus t) j = Some k"
      using T_grows [OF assms(1)] T_grows [OF assms(2)] by (metis domI map_le_def)+
    then show ?thesis using assms(3,5) by fastforce
  qed
  ultimately show ?thesis by blast
qed

text \<open>A key that is read is in an item, and no item that was there before has another one.\<close>

lemma read_collection_safe:
  assumes B: "bus_ok B C" and
    Q: "\<And>r v. T w v \<Longrightarrow> (\<And>x. r = Ok (Some x) \<Longrightarrow> x \<in> ran (C (kw_bus v)) \<and> (\<forall>k\<in>ran (C (kw_bus w)). k = x)) \<Longrightarrow> Q r v"
  shows "safe J T G Q (linux_secret_service_read_collection B c) w"
  unfolding linux_secret_service_read_collection_def
proof (rule safe_quiet_try [OF quiet_unlock [OF B]])
  fix x v assume wv: "T w v"
  show "safe J T G Q (try_then (on_bus (b_search B c)) (\<lambda>items. if items = [] then give None
       else try_then (locked_paths B SECRET_ITEM_INTERFACE items) (\<lambda>locked.
         try_then (linux_unlock_paths B locked SECRET_ITEM_INTERFACE) (\<lambda>_.
         with_session B (\<lambda>session. find_key B session items None))))) v"
    unfolding try_then_def [of "on_bus (b_search B c)"] safe_seq
  proof (rule safe_bus [OF bus_ok_grows(8) [OF B]])
    fix u :: "'s KeyWorld" and r s
    let ?u = "u\<lparr>kw_bus := s\<rparr>"
    assume u: "T v u" "b_search B c (kw_bus u) = (r, s)" "T v ?u"
    have wu: "T w ?u" "T w u" using T_trans [OF wv] u by blast+
    have bad: "Q (Err e) t" if "T ?u t" for e t using Q [OF T_trans [OF wu(1) that], of "Err e"] by simp
    show "safe J T G Q (case r of Ok items \<Rightarrow> if items = [] then give None
       else try_then (locked_paths B SECRET_ITEM_INTERFACE items) (\<lambda>locked.
         try_then (linux_unlock_paths B locked SECRET_ITEM_INTERFACE) (\<lambda>_.
         with_session B (\<lambda>session. find_key B session items None))) | Err e \<Rightarrow> Done (Err e)) ?u"
    proof (cases "\<exists>items. r = Ok items \<and> items \<noteq> []")
      case False
      then show ?thesis using Q [OF wu(1)] by (auto simp: give_def split: result.split)
    next
      case True
      then obtain items where i: "r = Ok items" "items \<noteq> []" by blast
      have d: "dom (C (kw_bus u)) \<subseteq> set items" using B u(2) i(1) unfolding bus_ok_def by blast
      have last_step: "Q r' t" if t: "T ?u t" and y: "\<And>y. r' = Ok y \<Longrightarrow> (\<forall>i\<in>set items. y \<noteq> None \<and> C (kw_bus t) i = y)" for r' t
      proof (rule Q [OF T_trans [OF wu(1) t]], rule all_items_key [OF wu(2) T_trans [OF wu(1) t] d i(2)])
        fix x assume "r' = Ok (Some x)"
        then show "\<forall>i\<in>set items. C (kw_bus t) i = Some x" using y by blast
      qed
      have close: "safe J T G Q (seq (on_bus (\<lambda>s. ((), b_close B z s))) (\<lambda>_. Done r')) t"
        if t: "T ?u t" and y: "\<And>y. r' = Ok y \<Longrightarrow> (\<forall>i\<in>set items. y \<noteq> None \<and> C (kw_bus t) i = y)" for r' t z
      proof (rule safe_quiet_seq [OF quiet_close [OF B]], simp, rule last_step)
        fix t' assume t': "T t t'"
        show "T ?u t'" using T_trans [OF t t'] .
        fix y' assume "r' = Ok y'"
        then show "\<forall>i\<in>set items. y' \<noteq> None \<and> C (kw_bus t') i = y'" using y T_grows [OF t'] by (fastforce simp: map_le_def dom_def)
      qed
      have "safe J T G Q (try_then (locked_paths B SECRET_ITEM_INTERFACE items) (\<lambda>locked.
         try_then (linux_unlock_paths B locked SECRET_ITEM_INTERFACE) (\<lambda>_.
         with_session B (\<lambda>session. find_key B session items None)))) ?u"
        unfolding with_session_def
      proof (rule safe_quiet_try [OF quiet_locked [OF B]], rule safe_quiet_try [OF quiet_unlock [OF B]],
          rule safe_quiet_try [OF quiet_bus [OF bus_ok_grows(9) [OF B]]])
        fix t1 t2 t3 z
        assume t: "T ?u t1" "T t1 t2" "T t2 t3"
        have ut: "T ?u t3" using T_trans [OF T_trans [OF t(1,2)] t(3)] .
        show "safe J T G Q (seq (find_key B z items None) (\<lambda>r. seq (on_bus (\<lambda>s. ((), b_close B z s))) (\<lambda>_. Done r))) t3"
          unfolding safe_seq
        proof (rule find_key_safe [OF B], unfold safe_seq [symmetric], rule close)
          fix r' t' assume "T t3 t'"
          then show "T ?u t'" using T_trans [OF ut] by blast
        qed blast
      qed (use bad T_trans in blast)+
      then show ?thesis using i by simp
    qed
  qed
qed (use Q in blast)

lemma read_safe:
  assumes B: "bus_ok B C" and
    Q: "\<And>r v. T w v \<Longrightarrow> (\<And>x. r = Ok (Some x) \<Longrightarrow> x \<in> ran (C (kw_bus v)) \<and> (\<forall>k\<in>ran (C (kw_bus w)). k = x)) \<Longrightarrow> Q r v"
  shows "safe J T G Q (linux_secret_service_read B) w"
  unfolding linux_secret_service_read_def
proof (rule safe_quiet_try [OF quiet_bus [OF bus_ok_grows(1) [OF B]]], rule safe_quiet_try [OF quiet_default [OF B]])
  fix c x u v
  assume v: "T w u" "T u v"
  have wv: "T w v" using T_trans [OF v] .
  then have g: "ran (C (kw_bus w)) \<subseteq> ran (C (kw_bus v))" using T_grows by (auto simp: ran_def map_le_def) (metis domI)
  show "safe J T G Q (case c of None \<Rightarrow> give None
     | Some collection \<Rightarrow> map_err must_not_fallback (linux_secret_service_read_collection B collection)) v"
  proof (cases c)
    case None
    then show ?thesis using Q [OF wv, of "Ok None"] by (simp add: give_def)
  next
    case (Some collection)
    show ?thesis unfolding Some option.case map_err_def safe_seq
    proof (rule read_collection_safe [OF B])
      fix r :: "(StoredKey option, KeyError) result" and t
      assume t: "T v t" and x: "\<And>x. r = Ok (Some x) \<Longrightarrow> x \<in> ran (C (kw_bus t)) \<and> (\<forall>k\<in>ran (C (kw_bus v)). k = x)"
      show "safe J T G Q (case r of Ok x \<Rightarrow> Done (Ok x) | Err e \<Rightarrow> Done (Err (must_not_fallback e))) t"
        by (cases r) (use Q [OF T_trans [OF wv t]] x g in auto)
    qed
  qed
next
  fix e u v assume "T w u" "T u v"
  then show "Q (Err e) v" using Q [OF T_trans] by blast
next
  fix e v assume "T w v"
  then show "Q (Err e) v" using Q by blast
qed

end

end
