(* ===== verification/Key_Single.thy ===== *)
theory Key_Single
  imports Key_Claims
begin

text \<open>
  One key for the user: what a first load that is not disturbed establishes, what every later load keeps among any
  other processes of the user, step by step, and what happens when the marker cannot be written or when two processes
  start for the first time at once.
\<close>

section \<open>The invariant\<close>

text \<open>The key is in its file; or the file is gone, the marker is there and an item has the key.\<close>

definition kept :: "('s \<Rightarrow> string \<rightharpoonup> nat list) \<Rightarrow> StoredKey \<Rightarrow> 's KeyWorld \<Rightarrow> bool" where
  "kept C k w = (kw_dir w USER_KEY_FILE = Some k
     \<or> kw_dir w USER_KEY_FILE = None \<and> kw_dir w USER_KEY_BACKEND_FILE \<noteq> None \<and> k \<in> ran (C (kw_bus w)))"

definition marker_ok :: "KeyEnv \<Rightarrow> 's KeyWorld \<Rightarrow> bool" where
  "marker_ok E w = (fst (atomic_replace E USER_KEY_BACKEND_FILE SECRET_SERVICE_BACKEND_MARKER (kw_dir w)) = Ok ())"

lemma ran_mono: "m \<subseteq>\<^sub>m m' \<Longrightarrow> ran m \<subseteq> ran m'"
  by (auto simp: ran_def map_le_def) (metis domI)

section \<open>The first load\<close>

text \<open>The others may use the Secret Service, and leave the files alone.\<close>

definition alone :: "('s \<Rightarrow> string \<rightharpoonup> nat list) \<Rightarrow> 's KeyWorld \<Rightarrow> 's KeyWorld \<Rightarrow> bool" where
  "alone C w v = (kw_dir v = kw_dir w \<and> C (kw_bus w) \<subseteq>\<^sub>m C (kw_bus v))"

interpretation alone: interference C "alone C" "\<lambda>_ _. True" for C
  by unfold_locales (auto simp: alone_def intro: map_le_trans)

lemma record_ok:
  assumes "marker_ok E w" "atomic_replace E USER_KEY_BACKEND_FILE SECRET_SERVICE_BACKEND_MARKER (kw_dir w) = (r, d)"
  shows "r = Ok ()" "d USER_KEY_FILE = kw_dir w USER_KEY_FILE" "d USER_KEY_BACKEND_FILE \<noteq> None"
proof -
  show r: "r = Ok ()" using assms by (simp add: marker_ok_def)
  show "d USER_KEY_FILE = kw_dir w USER_KEY_FILE" "d USER_KEY_BACKEND_FILE \<noteq> None"
    using r atomic_replace_ok [OF assms(2)] same_filesD [of "{USER_KEY_BACKEND_FILE}" "kw_dir w" d USER_KEY_FILE] by simp_all
qed

text \<open>Once the item and the marker are there, the key may stay in its file or not.\<close>

lemma kept_backend:
  assumes "kw_dir w USER_KEY_BACKEND_FILE \<noteq> None" "k \<in> ran (C (kw_bus w))" "kw_dir w USER_KEY_FILE \<in> {None, Some k}"
  shows "kept C k w" "kept C k (w\<lparr>kw_dir := remove_file E USER_KEY_FILE (kw_dir w)\<rparr>)"
  using assms by (auto simp: kept_def remove_file_def)

lemma verified_iff: "migration_verified key (readback_of r) \<longleftrightarrow> r = Ok (Some key)"
  by (auto simp: migration_verified_def readback_of_def split: result.split option.split)

definition keeps :: "('s \<Rightarrow> string \<rightharpoonup> nat list) \<Rightarrow> (StoredKey, KeyError) result \<Rightarrow> 's KeyWorld \<Rightarrow> bool" where
  "keeps C r w = (\<forall>k. r = Ok k \<longrightarrow> kept C k w)"

abbreviation undisturbed :: "('s \<Rightarrow> string \<rightharpoonup> nat list) \<Rightarrow> ('s KeyWorld, StoredKey) prog \<Rightarrow> 's KeyWorld \<Rightarrow> bool" where
  "undisturbed C \<equiv> safe (\<lambda>_. True) (alone C) (\<lambda>_ _. True) (keeps C)"

lemma remove_undisturbed:
  assumes "kw_dir w USER_KEY_BACKEND_FILE \<noteq> None" "k \<in> ran (C (kw_bus w))" "kw_dir w USER_KEY_FILE \<in> {None, Some k}"
  shows "undisturbed C (seq (remove_migrated_key_file E) (\<lambda>_. give k)) w" "undisturbed C (give k) w"
proof -
  show "undisturbed C (give k) w" using kept_backend(1) [of w k C, OF assms] by (simp add: give_def keeps_def)
  have "kept C k (v\<lparr>kw_dir := remove_file E USER_KEY_FILE (kw_dir v)\<rparr>)" if "alone C w v" for v
    using that assms ran_mono [of "C (kw_bus w)" "C (kw_bus v)"] by (intro kept_backend(2)) (auto simp: alone_def)
  then show "undisturbed C (seq (remove_migrated_key_file E) (\<lambda>_. give k)) w"
    unfolding remove_migrated_key_file_def safe_seq by (intro safe_dir) (auto simp: give_def keeps_def)
qed

lemma create_undisturbed: "undisturbed C (create_then_read E USER_KEY_FILE key) (w :: 'a KeyWorld)"
  unfolding create_then_read_def safe_try
proof (rule safe_dir)
  fix v :: "'a KeyWorld" and r d
  assume "atomic_create E USER_KEY_FILE (encode_stored_key key) (kw_dir v) = (r, d)"
  from atomic_create_ok [OF this] have a: "r = Ok True \<Longrightarrow> d USER_KEY_FILE = Some key" by (simp add: encode_stored_key_def)
  have b: "undisturbed C (on_dir (\<lambda>d. (read_again E USER_KEY_FILE d, d))) u" for u
    by (rule safe_dir) (auto simp: read_again_def read_file_def decode_stored_key_def keeps_def kept_def split: if_splits option.splits)
  show "True \<and> (case r of Ok created \<Rightarrow> undisturbed C (if created then give key else on_dir (\<lambda>d. (read_again E USER_KEY_FILE d, d)))
      (v\<lparr>kw_dir := d\<rparr>) | Err e \<Rightarrow> keeps C (Err e) (v\<lparr>kw_dir := d\<rparr>))"
    using a b by (cases r) (auto simp: give_def keeps_def kept_def)
qed

lemma load_create_undisturbed: "undisturbed C (load_then_create E USER_KEY_FILE) w"
  unfolding load_then_create_def safe_try
  by (rule safe_dir) (auto simp: read_file_def decode_stored_key_def keeps_def kept_def create_undisturbed
      split: option.split result.split if_splits)

lemma record_undisturbed:
  assumes "marker_ok E w" "k \<in> ran (C (kw_bus w))" "kw_dir w USER_KEY_FILE \<in> {None, Some k}"
  shows "undisturbed C (try_then (record_user_backend E) (\<lambda>_. if b then seq (remove_migrated_key_file E) (\<lambda>_. give k) else give k)) w"
  unfolding record_user_backend_def safe_try
proof (rule safe_dir)
  fix v r d
  assume v: "alone C w v" "atomic_replace E USER_KEY_BACKEND_FILE SECRET_SERVICE_BACKEND_MARKER (kw_dir v) = (r, d)"
  have "marker_ok E v" using v(1) assms(1) by (simp add: alone_def marker_ok_def)
  note R = record_ok [OF this v(2)]
  have "k \<in> ran (C (kw_bus v))" using v(1) assms(2) ran_mono by (auto simp: alone_def)
  then show "True \<and> (case r of Ok x \<Rightarrow> undisturbed C (if b then seq (remove_migrated_key_file E) (\<lambda>_. give k) else give k) (v\<lparr>kw_dir := d\<rparr>)
      | Err e \<Rightarrow> keeps C (Err e) (v\<lparr>kw_dir := d\<rparr>))"
    using R v(1) assms(3) remove_undisturbed [of "v\<lparr>kw_dir := d\<rparr>" k C] by (auto simp: alone_def)
qed

lemma persist_undisturbed:
  assumes B: "bus_ok B C" and m: "marker_ok E w" and f: "kw_dir w USER_KEY_FILE = (if mig then Some key else None)"
  shows "undisturbed C (persist_user_backend B E key mig) w"
  unfolding persist_user_backend_def
proof (rule alone.safe_quiet_seq [OF quiet_write [OF B]], unfold safe_seq, rule alone.read_safe [OF B])
  fix wr v1 and rb :: "(StoredKey option, KeyError) result" and v
  assume v: "alone C w v1" "alone C v1 v"
    and x: "\<And>x. rb = Ok (Some x) \<Longrightarrow> x \<in> ran (C (kw_bus v)) \<and> (\<forall>k\<in>ran (C (kw_bus v1)). k = x)"
  have d: "kw_dir v = kw_dir w" "marker_ok E v" using v m by (auto simp: alone_def marker_ok_def)
  show "undisturbed C (let write_error = result_err wr; readback = readback_of rb;
         file_fallback_allowed = (mig \<or> user_backend_has_file_fallback write_error (result_err rb))
     in if migration_verified key readback
        then try_then (record_user_backend E) (\<lambda>_. if mig then seq (remove_migrated_key_file E) (\<lambda>_. give key) else give key)
        else case readback of
            Back_Present _ \<Rightarrow> fail (KeyError ''the user credential key store changed while the key was being saved'')
          | _ \<Rightarrow> if mig then give key
            else if file_fallback_allowed then create_then_read E USER_KEY_FILE key
            else fail (case write_error of Some e \<Rightarrow> e | None \<Rightarrow> (case result_err rb of Some e \<Rightarrow> e
                    | None \<Rightarrow> KeyError ''failed to verify the saved user credential key''))) v"
  proof (cases "rb = Ok (Some key)")
    case True
    then show ?thesis using record_undisturbed [OF d(2), of key C mig] x d(1) f by (simp add: verified_iff Let_def)
  next
    case False
    then show ?thesis using d(1) f
      by (auto simp: verified_iff Let_def create_undisturbed give_def fail_def keeps_def kept_def split: BackendReadback.split)
  qed
qed

lemma read_key_file: "read_existing_key_file E USER_KEY_FILE d = Ok f \<Longrightarrow> d USER_KEY_FILE = f"
  by (auto simp: read_existing_key_file_def read_file_def result_bind_eq_Ok decode_stored_key_def split: if_splits option.splits)

lemma read_marker: "user_backend_marker_present E d = Ok b \<Longrightarrow> b = (d USER_KEY_BACKEND_FILE \<noteq> None)"
  by (auto simp: user_backend_marker_present_def split: if_splits)

text \<open>From the choice on.\<close>

lemma act_undisturbed:
  assumes B: "bus_ok B C"
    and b: "\<And>key rm. choice = Backend key rm \<Longrightarrow> kw_dir w USER_KEY_BACKEND_FILE \<noteq> None \<and> key \<in> ran (C (kw_bus w))
        \<and> kw_dir w USER_KEY_FILE \<in> {None, Some key}"
    and i: "\<And>key. choice = ImportFile key \<or> choice = FileFallback key \<Longrightarrow> kw_dir w USER_KEY_FILE = Some key"
    and n: "choice = CreateBackend \<Longrightarrow> kw_dir w USER_KEY_FILE = None"
    and m: "choice = CreateBackend \<or> (\<exists>key. choice = ImportFile key) \<Longrightarrow> marker_ok E w"
  shows "undisturbed C (load_act B E choice) w"
proof (cases choice)
  case (Backend key rm)
  note k = b [OF Backend]
  have "undisturbed C (seq (linux_secret_service_read B) (\<lambda>r.
      if migration_verified key (readback_of r) then seq (remove_migrated_key_file E) (\<lambda>_. give key) else give key)) w"
    unfolding safe_seq
  proof (rule alone.read_safe [OF B])
    fix r v assume "alone C w v"
    then have "kw_dir v USER_KEY_BACKEND_FILE \<noteq> None" "key \<in> ran (C (kw_bus v))" "kw_dir v USER_KEY_FILE \<in> {None, Some key}"
      using k ran_mono by (auto simp: alone_def)
    then show "undisturbed C
      (if migration_verified key (readback_of r) then seq (remove_migrated_key_file E) (\<lambda>_. give key) else give key) v"
      using remove_undisturbed [of v key C] by simp
  qed
  then show ?thesis using Backend remove_undisturbed(2) [of w key C] k by (simp add: load_act_def)
next
  case (ImportFile key)
  then show ?thesis using persist_undisturbed [OF B, of E w True key] i m by (auto simp: load_act_def)
next
  case (FileFallback key)
  then show ?thesis using i by (auto simp: load_act_def give_def keeps_def kept_def)
next
  case CreateBackend
  then show ?thesis using persist_undisturbed [OF B, of E w False] n m by (auto simp: load_act_def)
next
  case CreateFileFallback
  then show ?thesis using load_create_undisturbed by (simp add: load_act_def)
qed

lemma choice_undisturbed:
  assumes B: "bus_ok B C" and m: "marker_ok E (w :: 'a KeyWorld)" and f: "kw_dir w USER_KEY_FILE = f" and b: "b = (kw_dir w USER_KEY_BACKEND_FILE \<noteq> None)"
    and x: "\<And>x. r = Ok (Some x) \<Longrightarrow> x \<in> ran (C (kw_bus w))"
  shows "safe (\<lambda>_. True) (alone C) (\<lambda>_ _. True)
    (\<lambda>_ v. case choose_user_key (snapshot_of r) f (user_backend_allows_new_file_when_unavailable r) b of
       Ok choice \<Rightarrow> undisturbed C (load_act B E choice) v | Err e \<Rightarrow> keeps C (Err e) v)
    (record_present_user_backend E (snapshot_of r)) w"
proof (cases "\<exists>key. r = Ok (Some key)")
  case True
  then obtain key where key: "r = Ok (Some key)" by blast
  then have s: "snapshot_of r = Snap_Present key" by (simp add: snapshot_of_def)
  show ?thesis unfolding s record_present_user_backend_def BackendSnapshot.case record_user_backend_def
  proof (rule safe_dir)
    fix v :: "'a KeyWorld" and r' d
    let ?v = "v\<lparr>kw_dir := d\<rparr>"
    assume v: "alone C w v" "atomic_replace E USER_KEY_BACKEND_FILE SECRET_SERVICE_BACKEND_MARKER (kw_dir v) = (r', d)"
    have "marker_ok E v" using v(1) m by (simp add: alone_def marker_ok_def)
    note R = record_ok [OF this v(2)]
    have k: "key \<in> ran (C (kw_bus v))" "kw_dir v USER_KEY_FILE = f" using x [OF key] v(1) f ran_mono by (auto simp: alone_def)
    have "undisturbed C (load_act B E (Backend key rm)) ?v" if "f \<in> {None, Some key}" for rm
      by (rule act_undisturbed [OF B]) (use R k that in auto)
    then show "True \<and> (case choose_user_key (Snap_Present key) f (user_backend_allows_new_file_when_unavailable r) b of
       Ok choice \<Rightarrow> undisturbed C (load_act B E choice) ?v | Err e \<Rightarrow> keeps C (Err e) ?v)"
      by (auto simp: choose_user_key_def keeps_def split: option.split)
  qed
next
  case False
  then have s: "snapshot_of r = Snap_Missing \<or> snapshot_of r = Snap_Unavailable"
    by (auto simp: snapshot_of_def split: result.split option.split)
  have "undisturbed C (load_act B E choice) w"
    if "choice = CreateFileFallback \<or> choice = CreateBackend \<and> f = None \<or> (\<exists>key. (choice = ImportFile key \<or> choice = FileFallback key) \<and> f = Some key)"
    for choice by (rule act_undisturbed [OF B]) (use that f m in auto)
  then show ?thesis using s
    by (auto simp: choose_user_key_def record_present_user_backend_def give_def keeps_def split: option.split)
qed

lemma load_user_key_steps:
  "load_user_key B E =
     try_then (on_dir (\<lambda>d. (read_existing_key_file E USER_KEY_FILE d, d))) (\<lambda>f.
     try_then (on_dir (\<lambda>d. (user_backend_marker_present E d, d))) (\<lambda>b.
     seq (linux_secret_service_read B) (\<lambda>r.
     seq (record_present_user_backend E (snapshot_of r)) (\<lambda>_.
     case choose_user_key (snapshot_of r) f (user_backend_allows_new_file_when_unavailable r) b of
       Ok choice \<Rightarrow> load_act B E choice | Err e \<Rightarrow> Done (Err e)))))"
  unfolding load_user_key_def load_choice_def try_assoc by (simp add: try_then_def)

lemma load_undisturbed:
  assumes B: "bus_ok B C" and m: "marker_ok E w"
  shows "undisturbed C (load_user_key B E) w"
  unfolding load_user_key_steps
proof (rule safe_query, rule safe_query)
  fix v1 f v2 b
  assume v: "alone C w v1" "alone C v1 v2" and
    f: "read_existing_key_file E USER_KEY_FILE (kw_dir v1) = Ok f" and b: "user_backend_marker_present E (kw_dir v2) = Ok b"
  show "undisturbed C (seq (linux_secret_service_read B) (\<lambda>r.
     seq (record_present_user_backend E (snapshot_of r)) (\<lambda>_.
     case choose_user_key (snapshot_of r) f (user_backend_allows_new_file_when_unavailable r) b of
       Ok choice \<Rightarrow> load_act B E choice | Err e \<Rightarrow> Done (Err e)))) v2"
    unfolding safe_seq
  proof (rule alone.read_safe [OF B])
    fix r :: "(StoredKey option, KeyError) result" and t
    assume t: "alone C v2 t" and x: "\<And>x. r = Ok (Some x) \<Longrightarrow> x \<in> ran (C (kw_bus t)) \<and> (\<forall>k\<in>ran (C (kw_bus v2)). k = x)"
    have d: "kw_dir t = kw_dir w" "kw_dir v1 = kw_dir w" "kw_dir v2 = kw_dir w" using v t by (auto simp: alone_def)
    have "marker_ok E t" using m d by (simp add: marker_ok_def)
    from choice_undisturbed [OF B this] show "safe (\<lambda>_. True) (alone C) (\<lambda>_ _. True) (\<lambda>_ v. undisturbed C
        (case choose_user_key (snapshot_of r) f (user_backend_allows_new_file_when_unavailable r) b of
           Ok choice \<Rightarrow> load_act B E choice | Err e \<Rightarrow> Done (Err e)) v) (record_present_user_backend E (snapshot_of r)) t"
      by (rule safe_mono) (use x d read_key_file [OF f] read_marker [OF b] in \<open>auto split: result.splits\<close>)
  qed
qed (simp_all add: keeps_def)

text \<open>A key that an undisturbed load returns is kept.\<close>

lemma first_load_keeps:
  assumes "bus_ok B C" "marker_ok E w" "run (load_user_key B E) w = (Ok k, w')"
  shows "kept C k w'"
  using safe_run [OF load_undisturbed [OF assms(1,2)] alone.T_refl] assms(3) by (simp add: keeps_def)

section \<open>Every later load\<close>

text \<open>What any process may do to the world once the key is kept: the key stays kept, its file does not come back, and neither
  the marker nor an item goes away.\<close>

definition later :: "('s \<Rightarrow> string \<rightharpoonup> nat list) \<Rightarrow> StoredKey \<Rightarrow> 's KeyWorld \<Rightarrow> 's KeyWorld \<Rightarrow> bool" where
  "later C k w v = ((kept C k w \<longrightarrow> kept C k v \<and> (kw_dir w USER_KEY_FILE = None \<longrightarrow> kw_dir v USER_KEY_FILE = None))
     \<and> (kw_dir w USER_KEY_BACKEND_FILE \<noteq> None \<longrightarrow> kw_dir v USER_KEY_BACKEND_FILE \<noteq> None) \<and> C (kw_bus w) \<subseteq>\<^sub>m C (kw_bus v))"

lemma later_bus: "C (kw_bus w) \<subseteq>\<^sub>m C s \<Longrightarrow> later C k w (w\<lparr>kw_bus := s\<rparr>)"
  using ran_mono by (auto simp: later_def kept_def)

interpretation later: interference C "later C k" "later C k" for C k
  by unfold_locales (auto simp: later_def later_bus [unfolded later_def] intro: map_le_trans)

lemma later_kept: "later C k w v \<Longrightarrow> kept C k w \<Longrightarrow> kept C k v"
  by (simp add: later_def)

text \<open>The key is in the Secret Service and the marker is there.\<close>

definition marked :: "('s \<Rightarrow> string \<rightharpoonup> nat list) \<Rightarrow> StoredKey \<Rightarrow> 's KeyWorld \<Rightarrow> bool" where
  "marked C k w = (kept C k w \<and> kw_dir w USER_KEY_BACKEND_FILE \<noteq> None \<and> k \<in> ran (C (kw_bus w)))"

lemma later_marked: "later C k w v \<Longrightarrow> marked C k w \<Longrightarrow> marked C k v"
  using ran_mono [of "C (kw_bus w)" "C (kw_bus v)"] by (auto simp: later_def marked_def)

lemma kept_file: "kept C k w \<Longrightarrow> kw_dir w USER_KEY_FILE = f \<Longrightarrow> f = Some k \<or> f = None \<and> marked C k w"
  by (auto simp: kept_def marked_def)

definition only :: "StoredKey \<Rightarrow> (StoredKey, KeyError) result \<Rightarrow> 's KeyWorld \<Rightarrow> bool" where
  "only k r w = (r = Ok k \<or> \<not> is_ok r)"

lemma only_simps [simp]: "only k (Ok x) w \<longleftrightarrow> x = k" "only k (Err e) w"
  by (simp_all add: only_def)

text \<open>Among the others, when the marker can be written.\<close>

abbreviation among :: "('s \<Rightarrow> string \<rightharpoonup> nat list) \<Rightarrow> StoredKey \<Rightarrow> KeyEnv \<Rightarrow> ('s KeyWorld, StoredKey) prog \<Rightarrow> 's KeyWorld \<Rightarrow> bool" where
  "among C k E \<equiv> safe (marker_ok E) (later C k) (later C k) (only k)"

lemma remove_among:
  assumes "marked C k w"
  shows "among C k E (seq (remove_migrated_key_file E') (\<lambda>_. give k)) w"
proof -
  have "later C k v (v\<lparr>kw_dir := remove_file E' USER_KEY_FILE (kw_dir v)\<rparr>)" if "later C k w v" for v
    using later_marked [OF that assms] by (auto simp: later_def marked_def kept_def remove_file_def)
  then show ?thesis unfolding remove_migrated_key_file_def safe_seq by (intro safe_dir) (auto simp: give_def)
qed

text \<open>Writing the marker.\<close>

lemma record_among:
  assumes "kept C k w" "\<And>v. later C k w v \<Longrightarrow> kw_dir v USER_KEY_BACKEND_FILE \<noteq> None \<Longrightarrow> Q (Ok ()) v"
  shows "safe (marker_ok E) (later C k) (later C k) Q (record_user_backend E) w"
  unfolding record_user_backend_def
proof (rule safe_dir)
  fix v :: "'a KeyWorld" and r d
  assume v: "later C k w v" "marker_ok E v" "atomic_replace E USER_KEY_BACKEND_FILE SECRET_SERVICE_BACKEND_MARKER (kw_dir v) = (r, d)"
  note R = record_ok [OF v(2,3)]
  have l: "later C k v (v\<lparr>kw_dir := d\<rparr>)" using R by (auto simp: later_def kept_def)
  then show "later C k v (v\<lparr>kw_dir := d\<rparr>) \<and> Q r (v\<lparr>kw_dir := d\<rparr>)"
    using R assms(2) later.T_trans [OF v(1) l] by simp
qed

lemma import_among:
  assumes B: "bus_ok B C" and k: "kept C k w"
  shows "among C k E (persist_user_backend B E k True) w"
  unfolding persist_user_backend_def
proof (rule later.safe_quiet_seq [OF quiet_write [OF B]], unfold safe_seq, rule later.read_safe [OF B])
  fix wr v1 and rb :: "(StoredKey option, KeyError) result" and v
  assume v: "later C k w v1" "later C k v1 v"
    and x: "\<And>x. rb = Ok (Some x) \<Longrightarrow> x \<in> ran (C (kw_bus v)) \<and> (\<forall>k\<in>ran (C (kw_bus v1)). k = x)"
  have kv: "kept C k v" using k v later_kept by blast
  have "among C k E (try_then (record_user_backend E) (\<lambda>_. seq (remove_migrated_key_file E) (\<lambda>_. give k))) v"
    if "k \<in> ran (C (kw_bus v))" unfolding safe_try
  proof (rule record_among [OF kv], simp, rule remove_among)
    fix t assume t: "later C k v t" "\<exists>y. kw_dir t USER_KEY_BACKEND_FILE = Some y"
    then show "marked C k t" using later_kept [OF t(1) kv] that ran_mono by (fastforce simp: marked_def later_def)
  qed
  then show "among C k E (let write_error = result_err wr; readback = readback_of rb;
         file_fallback_allowed = (True \<or> user_backend_has_file_fallback write_error (result_err rb))
     in if migration_verified k readback
        then try_then (record_user_backend E) (\<lambda>_. if True then seq (remove_migrated_key_file E) (\<lambda>_. give k) else give k)
        else case readback of
            Back_Present _ \<Rightarrow> fail (KeyError ''the user credential key store changed while the key was being saved'')
          | _ \<Rightarrow> if True then give k
            else if file_fallback_allowed then create_then_read E USER_KEY_FILE k
            else fail (case write_error of Some e \<Rightarrow> e | None \<Rightarrow> (case result_err rb of Some e \<Rightarrow> e
                    | None \<Rightarrow> KeyError ''failed to verify the saved user credential key''))) v"
    using x by (auto simp: verified_iff Let_def give_def fail_def split: BackendReadback.split)
qed

lemma act_among:
  assumes B: "bus_ok B C" and k: "kept C k w" and
    c: "choice = Backend k True \<and> marked C k w \<or> choice = Backend k False \<or> choice = ImportFile k \<or> choice = FileFallback k"
  shows "among C k E (load_act B E choice) w"
proof -
  have "among C k E (seq (linux_secret_service_read B) (\<lambda>r.
      if migration_verified k (readback_of r) then seq (remove_migrated_key_file E) (\<lambda>_. give k) else give k)) w" if "marked C k w"
    unfolding safe_seq
  proof (rule later.read_safe [OF B])
    fix r v assume "later C k w v"
    from remove_among [OF later_marked [OF this that]] show "among C k E
      (if migration_verified k (readback_of r) then seq (remove_migrated_key_file E) (\<lambda>_. give k) else give k) v" by (simp add: give_def)
  qed
  then show ?thesis using c import_among [OF B k] by (auto simp: load_act_def give_def)
qed

lemma choice_among:
  assumes B: "bus_ok B C" and k: "kept C k w" and f: "f = Some k \<or> f = None \<and> b \<and> (\<forall>x. r = Ok (Some x) \<longrightarrow> x = k)"
    and x: "\<And>x. r = Ok (Some x) \<Longrightarrow> x \<in> ran (C (kw_bus w))"
  shows "safe (marker_ok E) (later C k) (later C k)
    (\<lambda>_. among C k E (case choose_user_key (snapshot_of r) f (user_backend_allows_new_file_when_unavailable r) b of
       Ok choice \<Rightarrow> load_act B E choice | Err e \<Rightarrow> Done (Err e)))
    (record_present_user_backend E (snapshot_of r)) w"
proof (cases "\<exists>key. r = Ok (Some key)")
  case True
  then obtain key where key: "r = Ok (Some key)" by blast
  then have s: "snapshot_of r = Snap_Present key" by (simp add: snapshot_of_def)
  show ?thesis unfolding s record_present_user_backend_def BackendSnapshot.case
  proof (rule record_among [OF k])
    fix v assume v: "later C k w v" "kw_dir v USER_KEY_BACKEND_FILE \<noteq> None"
    have kv: "kept C k v" using later_kept [OF v(1) k] .
    moreover have "key = k \<longrightarrow> marked C k v" using kv v x [OF key] ran_mono by (fastforce simp: marked_def later_def)
    ultimately show "among C k E (case choose_user_key (Snap_Present key) f (user_backend_allows_new_file_when_unavailable r) b of
        Ok choice \<Rightarrow> load_act B E choice | Err e \<Rightarrow> Done (Err e)) v"
      using f key act_among [OF B kv] by (auto simp: choose_user_key_def)
  qed
next
  case False
  then have "snapshot_of r = Snap_Missing \<or> snapshot_of r = Snap_Unavailable"
    by (auto simp: snapshot_of_def split: result.split option.split)
  then show ?thesis using f act_among [OF B k]
    by (auto simp: choose_user_key_def record_present_user_backend_def give_def)
qed

lemma load_among:
  assumes B: "bus_ok B C" and k: "kept C k w"
  shows "among C k E (load_user_key B E) w"
  unfolding load_user_key_steps
proof (rule safe_query, rule safe_query)
  fix v1 f v2 b
  assume v: "later C k w v1" "later C k v1 v2" and
    f: "read_existing_key_file E USER_KEY_FILE (kw_dir v1) = Ok f" and b: "user_backend_marker_present E (kw_dir v2) = Ok b"
  have k1: "kept C k v1" using later_kept [OF v(1) k] .
  from kept_file [OF this read_key_file [OF f]] have f1: "f = Some k \<or> f = None \<and> b \<and> k \<in> ran (C (kw_bus v2))"
    using later_marked [OF v(2)] read_marker [OF b] by (auto simp: marked_def)
  show "among C k E (seq (linux_secret_service_read B) (\<lambda>r.
     seq (record_present_user_backend E (snapshot_of r)) (\<lambda>_.
     case choose_user_key (snapshot_of r) f (user_backend_allows_new_file_when_unavailable r) b of
       Ok choice \<Rightarrow> load_act B E choice | Err e \<Rightarrow> Done (Err e)))) v2"
    unfolding safe_seq
  proof (rule later.read_safe [OF B], rule choice_among [OF B])
    fix r :: "(StoredKey option, KeyError) result" and t
    assume t: "later C k v2 t" and x: "\<And>x. r = Ok (Some x) \<Longrightarrow> x \<in> ran (C (kw_bus t)) \<and> (\<forall>k\<in>ran (C (kw_bus v2)). k = x)"
    show "kept C k t" using later_kept [OF t later_kept [OF v(2) k1]] .
    show "f = Some k \<or> f = None \<and> b \<and> (\<forall>x. r = Ok (Some x) \<longrightarrow> x = k)" using f1 x by auto
  qed blast
qed (simp_all add: later.T_refl)

section \<open>Processes and restarts\<close>

text \<open>Any number of processes of the user, each with its cache and its lock: the initialisation, a request to the provider,
  the thread in the background asking for the lock, the next step of the load that holds the lock, a restart at any
  moment. A load of the machine's key, which touches none of the user's files, is one event.\<close>

datatype KeyEvent =
    Init nat KeyEnv bool
  | Ask nat KeyEnv bool bool bool KeyScope
  | Background nat KeyEnv
  | Advance nat
  | Restart nat

definition new_proc :: "'s KeyProc" where
  "new_proc = \<lparr>kp_cache = None, kp_background = False, kp_lock = None\<rparr>"

text \<open>An event gives the user's key that was handed out or cached, if any, and the new state.\<close>

fun key_step :: "'s Bus \<Rightarrow> KeyEvent \<Rightarrow> (nat \<Rightarrow> 's KeyProc) \<times> 's KeyWorld \<Rightarrow> StoredKey option \<times> (nat \<Rightarrow> 's KeyProc) \<times> 's KeyWorld" where
  "key_step B (Init n E is_root) (ps, w) = (None, ps(n := initialize_linux_user_key_cache B E is_root (ps n)), w)"
| "key_step B (Ask n E is_root tokio spawned scope) (ps, w) =
     (let (k, p, w') = provider_key B E is_root tokio spawned scope (ps n) w
      in (if scope = User then k else None, ps(n := p), w'))"
| "key_step B (Background n E) (ps, w) = (None, ps(n := background_resolution B E (ps n)), w)"
| "key_step B (Advance n) (ps, w) = (let (k, p, w') = resolution_step (ps n) w in (k, ps(n := p), w'))"
| "key_step B (Restart n) (ps, w) = (None, ps(n := new_proc), w)"

fun keys_given :: "'s Bus \<Rightarrow> KeyEvent list \<Rightarrow> (nat \<Rightarrow> 's KeyProc) \<times> 's KeyWorld \<Rightarrow> StoredKey list" where
  "keys_given B [] st = []"
| "keys_given B (e # es) st = (let (k, st') = key_step B e st in (case k of None \<Rightarrow> [] | Some x \<Rightarrow> [x]) @ keys_given B es st')"

text \<open>Whenever a load takes a step, the marker can be written.\<close>

fun marker_writable :: "KeyEvent \<Rightarrow> (nat \<Rightarrow> 's KeyProc) \<times> 's KeyWorld \<Rightarrow> bool" where
  "marker_writable (Advance n) (ps, w) = (case kp_lock (ps n) of None \<Rightarrow> True | Some rs \<Rightarrow> marker_ok (rs_env rs) w)"
| "marker_writable _ _ = True"

fun markers_ok :: "'s Bus \<Rightarrow> KeyEvent list \<Rightarrow> (nat \<Rightarrow> 's KeyProc) \<times> 's KeyWorld \<Rightarrow> bool" where
  "markers_ok B [] st = True"
| "markers_ok B (e # es) st = (marker_writable e st \<and> markers_ok B es (snd (key_step B e st)))"

definition proc_ok :: "('s \<Rightarrow> string \<rightharpoonup> nat list) \<Rightarrow> StoredKey \<Rightarrow> 's KeyWorld \<Rightarrow> 's KeyProc \<Rightarrow> bool" where
  "proc_ok C k w p = (kp_cache p \<in> {None, Some k} \<and> (\<forall>rs. kp_lock p = Some rs \<longrightarrow> among C k (rs_env rs) (rs_rest rs) w))"

definition settled :: "('s \<Rightarrow> string \<rightharpoonup> nat list) \<Rightarrow> StoredKey \<Rightarrow> (nat \<Rightarrow> 's KeyProc) \<times> 's KeyWorld \<Rightarrow> bool" where
  "settled C k st = (kept C k (snd st) \<and> (\<forall>n. proc_ok C k (snd st) (fst st n)))"

lemma proc_ok_later:
  assumes "proc_ok C k w p" "later C k w v"
  shows "proc_ok C k v p"
proof -
  have "among C k E q v" if "among C k E q w" for E q
    using that assms(2) by (rule safe_later) (auto simp: only_def intro: later.T_trans)
  then show ?thesis using assms(1) by (simp add: proc_ok_def)
qed

text \<open>A process that asks, and one that goes on with its load.\<close>

lemma resolve_ok:
  assumes "bus_ok B C" "kept C k w" "proc_ok C k w p" "resolve_linux_user_key B E bg p = (out, q)"
  shows "proc_ok C k w q \<and> out \<in> {None, Some k}"
  using assms load_among [OF assms(1,2)]
  by (cases bg) (auto simp: resolve_linux_user_key_def proc_ok_def split: option.splits)

lemma resolution_step_ok:
  assumes "kept C k w" "proc_ok C k w p" "\<And>rs. kp_lock p = Some rs \<Longrightarrow> marker_ok (rs_env rs) w" "resolution_step p w = (out, q, w')"
  shows "later C k w w' \<and> proc_ok C k w' q \<and> out \<in> {None, Some k}"
proof (cases "kp_lock p")
  case None
  then show ?thesis using assms later.T_refl by (auto simp: resolution_step_def)
next
  case (Some rs)
  then have a: "among C k (rs_env rs) (rs_rest rs) w" using assms(2) by (simp add: proc_ok_def)
  show ?thesis
  proof (cases "rs_rest rs")
    case (Done r)
    then show ?thesis using assms Some a later.T_refl
      by (cases r) (auto simp: resolution_step_def cache_user_key_def proc_ok_def Let_def split: option.splits)
  next
    case (Step f u)
    then show ?thesis using assms Some a later.T_refl [of C k w] by (auto simp: resolution_step_def proc_ok_def)
  qed
qed

lemma machine_later:
  assumes "run (load_then_create E (key_path Machine)) w = (r, w')"
  shows "later C k w w'"
proof -
  obtain r1 d where d: "load_or_create_key E MACHINE_KEY_FILE (kw_dir w) = (r1, d)" by fastforce
  have "same_files {MACHINE_KEY_FILE} (kw_dir w) d" using load_or_create_key_ok [OF d] by simp
  then have "d USER_KEY_FILE = kw_dir w USER_KEY_FILE" "d USER_KEY_BACKEND_FILE = kw_dir w USER_KEY_BACKEND_FILE"
    using same_filesD by fastforce+
  then show ?thesis using assms d by (auto simp: load_then_create_run key_path_def later_def kept_def)
qed

lemma provider_ok:
  assumes "bus_ok B C" "kept C k w" "proc_ok C k w p" "provider_key B E is_root tokio spawned scope p w = (out, q, w')"
  shows "later C k w w' \<and> proc_ok C k w' q \<and> (scope = User \<longrightarrow> out \<in> {None, Some k})"
proof (cases scope)
  case User
  obtain o1 p1 where r: "resolve_linux_user_key B E False p = (o1, p1)" by fastforce
  show ?thesis using assms User r resolve_ok [OF assms(1-3) r] later.T_refl [of C k w]
    by (auto simp: provider_key_def linux_user_key_for_provider_def user_key_cache_decision_def
        start_linux_user_key_resolution_def proc_ok_def split: if_splits prod.splits)
next
  case Machine
  then obtain r where r: "run (load_then_create E (key_path Machine)) w = (r, w')" "q = p"
    using assms(4) by (auto simp: provider_key_def split: prod.splits)
  from machine_later [OF r(1)] have "later C k w w'" .
  then show ?thesis using Machine r(2) proc_ok_later [OF assms(3)] by blast
qed

lemma key_step_settled:
  assumes "bus_ok B C" "settled C k (ps, w)" "marker_writable e (ps, w)" "key_step B e (ps, w) = (out, st)"
  shows "settled C k st \<and> out \<in> {None, Some k}"
proof -
  have P: "kept C k w" "proc_ok C k w (ps n)" for n using assms(2) by (simp_all add: settled_def)
  have put: "settled C k (ps(n := q), w')" if "later C k w w'" "proc_ok C k w' q" for n q w'
    using that P proc_ok_later later_kept [OF that(1)] by (fastforce simp: settled_def)
  have stay: "settled C k (ps(n := q), w)" if "proc_ok C k w q" for n q using put later.T_refl that .
  show ?thesis
  proof (cases e)
    case (Init n E is_root)
    obtain o1 p1 where r: "resolve_linux_user_key B E False (ps n) = (o1, p1)" by fastforce
    have "proc_ok C k w (initialize_linux_user_key_cache B E is_root (ps n))"
      using r resolve_ok [OF assms(1) P r] P(2) [of n] by (simp add: initialize_linux_user_key_cache_def)
    then show ?thesis using assms(4) Init stay by auto
  next
    case (Ask n E a b c scope)
    obtain o1 p1 w1 where r: "provider_key B E a b c scope (ps n) w = (o1, p1, w1)" by (metis prod_cases3)
    then have "out = (if scope = User then o1 else None)" "st = (ps(n := p1), w1)" using assms(4) Ask by auto
    then show ?thesis using provider_ok [OF assms(1) P r] put by auto
  next
    case (Background n E)
    obtain o1 p1 where r: "resolve_linux_user_key B E True (ps n) = (o1, p1)" by fastforce
    have "proc_ok C k w (background_resolution B E (ps n))"
      using r resolve_ok [OF assms(1) P r] P(2) [of n] by (simp add: background_resolution_def)
    then show ?thesis using assms(4) Background stay by auto
  next
    case (Advance n)
    obtain o1 p1 w1 where r: "resolution_step (ps n) w = (o1, p1, w1)" by (metis prod_cases3)
    have "marker_ok (rs_env rs) w" if "kp_lock (ps n) = Some rs" for rs using assms(3) Advance that by simp
    from resolution_step_ok [OF P this r] show ?thesis using assms(4) Advance r put by auto
  next
    case (Restart n)
    then show ?thesis using assms(4) stay by (auto simp: new_proc_def proc_ok_def simp del: fun_upd_apply)
  qed
qed

lemma keys_given_settled:
  assumes "bus_ok B C"
  shows "settled C k st \<Longrightarrow> markers_ok B es st \<Longrightarrow> set (keys_given B es st) \<subseteq> {k}"
proof (induction es arbitrary: st)
  case (Cons e es)
  obtain ps w out st' where st: "st = (ps, w)" "key_step B e st = (out, st')" by (metis surj_pair)
  then have "settled C k st'" "out \<in> {None, Some k}" using key_step_settled [OF assms, of k ps w e out st'] Cons.prems by auto
  then show ?case using Cons.IH [of st'] Cons.prems(2) st by auto
qed simp

text \<open>C8: the user has one key. Let a load of the key that no other load overlaps have returned \<open>k\<close>, the marker being writable.
  From then on, over every interleaving of the steps (one D-Bus call or one file operation each) of any number of
  processes of the user, each restarted at any moment, with requests from inside and outside the runtime and
  resolutions in the background, with the Secret Service present, absent, locked or failing at any call and the files
  failing in any way but the writing of the marker, every key that is handed out or cached is \<open>k\<close>. The Secret Service
  is asked to keep its items and to have them in one collection. Loads that overlap the first one are excluded by the
  hypothesis; what they can do is shown below.\<close>

theorem user_key_single:
  assumes "bus_ok B C" "marker_ok E w0" "run (load_user_key B E) w0 = (Ok k, w)"
    "\<forall>n. ps n = new_proc \<or> ps n = new_proc\<lparr>kp_cache := Some k\<rparr>" "markers_ok B es (ps, w)"
  shows "set (keys_given B es (ps, w)) \<subseteq> {k}"
proof -
  have "proc_ok C k w (ps n)" for n using assms(4) by (auto simp: proc_ok_def new_proc_def elim!: allE [of _ n])
  then have "settled C k (ps, w)" using first_load_keeps [OF assms(1-3)] by (simp add: settled_def)
  with keys_given_settled [OF assms(1)] assms(5) show ?thesis by blast
qed

text \<open>A Secret Service with the default collection and a list of items. It answers according to a list of Booleans, one
  for each look-up of the alias; with the list used up it answers.\<close>

type_synonym Demo = "bool list \<times> nat list list"

definition demo_path :: "nat \<Rightarrow> string" where
  "demo_path n = replicate n CHR ''i''"

definition demo_items :: "Demo \<Rightarrow> string \<rightharpoonup> nat list" where
  "demo_items s i = (if i = demo_path (length i) \<and> length i < length (snd s) then Some (snd s ! length i) else None)"

definition demo_bus :: "Demo Bus" where
  "demo_bus = \<lparr>b_connect = ret (),
     b_read_alias = (\<lambda>(up, items). (if take 1 up = [False] then Err (Some ''org.freedesktop.DBus.Error.ServiceUnknown'') else Ok ''/c'',
       drop 1 up, items)),
     b_create_collection = throw (KeyError ''none''), b_prompt_path = (\<lambda>p. throw (KeyError ''none'')),
     b_prompt_paths = (\<lambda>p. throw (KeyError ''none'')), b_locked = (\<lambda>i p. ret False), b_unlock = (\<lambda>ps. ret (ps, ''/'')),
     b_search = (\<lambda>c (up, items). (Ok (map demo_path [0..<length items]), up, items)), b_open_session = ret ''/s'',
     b_get_secret = (\<lambda>z i s. (case demo_items s i of None \<Rightarrow> Err (KeyError ''none'') | Some v \<Rightarrow> Ok v, s)),
     b_create_item = (\<lambda>c z k (up, items). (Ok (demo_path (length items), ''/''), up, items @ [k])),
     b_close = (\<lambda>z s. s)\<rparr>"

lemma demo_bus_ok: "bus_ok demo_bus demo_items"
proof -
  have "demo_items (up, items) \<subseteq>\<^sub>m demo_items (up', items @ [k])" for up up' items k
    by (auto simp: map_le_def demo_items_def nth_append split: if_splits)
  moreover have "demo_items (up, items) \<subseteq>\<^sub>m demo_items (up', items)" for up up' items
    by (auto simp: map_le_def demo_items_def)
  moreover have "dom (demo_items (up, items)) \<subseteq> set (map demo_path [0..<length items])" for up items
    by (auto simp: demo_items_def split: if_splits)
  ultimately show ?thesis
    unfolding bus_ok_def grows_def demo_bus_def
    by (auto simp: ret_def throw_def split: option.splits)
qed

definition demo_env :: "nat \<Rightarrow> bool \<Rightarrow> KeyEnv" where
  "demo_env n marker = \<lparr>ke_pid = 7, ke_rand = (\<lambda>p i. i), ke_mkdir = True, ke_open = (\<lambda>p. True),
     ke_write = (\<lambda>p. if p = USER_KEY_BACKEND_FILE \<and> \<not> marker then Some [] else None), ke_remove = (\<lambda>p. True),
     ke_link = (\<lambda>p. True), ke_rename = (\<lambda>p. True), ke_read = (\<lambda>i p. True), ke_meta = (\<lambda>p. True), ke_fresh = replicate KEY_LEN n\<rparr>"

definition demo_world :: "bool list \<Rightarrow> Demo KeyWorld" where
  "demo_world up = \<lparr>kw_dir = (\<lambda>p. None), kw_bus = (up, [])\<rparr>"

definition demo_ask :: "nat \<Rightarrow> nat \<Rightarrow> bool \<Rightarrow> KeyEvent" where
  "demo_ask n key marker = Ask n (demo_env key marker) False False True User"

definition demo_first :: "Demo KeyWorld" where
  "demo_first = snd (run (load_user_key demo_bus (demo_env 1 True)) (demo_world [False, False, False]))"

text \<open>After the first load two processes load the key at the same time, in turn.\<close>

definition demo_pair :: "KeyEvent list" where
  "demo_pair = [demo_ask 1 2 True, demo_ask 2 3 True] @ concat (replicate 5 [Advance 1, Advance 2])"

theorem user_key_single_witness:
  "bus_ok demo_bus demo_items \<and> markers_ok demo_bus demo_pair (\<lambda>n. new_proc, demo_first)
   \<and> length (keys_given demo_bus demo_pair (\<lambda>n. new_proc, demo_first)) = 2
   \<and> set (keys_given demo_bus demo_pair (\<lambda>n. new_proc, demo_first)) \<subseteq> {replicate 32 1}"
proof -
  let ?st = "(\<lambda>n. new_proc, demo_first)"
  have m: "markers_ok demo_bus demo_pair ?st" by code_simp
  have l: "length (keys_given demo_bus demo_pair ?st) = 2" by code_simp
  have m0: "marker_ok (demo_env 1 True) (demo_world [False, False, False])" by code_simp
  have "fst (run (load_user_key demo_bus (demo_env 1 True)) (demo_world [False, False, False])) = Ok (replicate 32 1)" by code_simp
  then have r: "run (load_user_key demo_bus (demo_env 1 True)) (demo_world [False, False, False]) = (Ok (replicate 32 1), demo_first)"
    by (simp add: demo_first_def prod_eq_iff)
  show ?thesis using user_key_single [OF demo_bus_ok m0 r _ m] m l demo_bus_ok by blast
qed

text \<open>The loads of one process after the other, each undisturbed: the key and the flag for the marker of each, and the keys
  returned.\<close>

fun demo_loads :: "(nat \<times> bool) list \<Rightarrow> Demo KeyWorld \<Rightarrow> (StoredKey, KeyError) result list" where
  "demo_loads [] w = []"
| "demo_loads ((n, marker) # es) w = (case run (load_user_key demo_bus (demo_env n marker)) w of (r, v) \<Rightarrow> r # demo_loads es v)"

text \<open>The service absent at first, then present: the key moves from its file to the service.\<close>

lemma key_moves: "demo_loads [(1, True), (2, True), (3, True)] (demo_world [False]) = replicate 3 (Ok (replicate 32 1))"
  by code_simp

text \<open>The marker is needed. The service is absent at the first start, present at the second but lost before the
  read-back, present at the third, where the marker cannot be written (a full disk, say) but the key file is removed
  all the same, and absent at the fourth: then a new key is made, without an error, in place of the one used so far.\<close>

theorem unmarked_key_replaced:
  "demo_loads [(1, True), (2, True), (3, False), (4, True)] (demo_world [False, True, True, False, True, True, False])
   = [Ok (replicate 32 1), Ok (replicate 32 1), Ok (replicate 32 1), Ok (replicate 32 4)]"
  by code_simp

text \<open>Two first starts at once: both make their choice before either saves a key, then the first goes on, then the second.
  The results, and that of a third start afterwards.\<close>

definition demo_race :: "bool list \<Rightarrow> (StoredKey, KeyError) result list" where
  "demo_race up =
    (case run (load_choice demo_bus (demo_env 1 True)) (demo_world up) of (a, w1) \<Rightarrow>
     case run (load_choice demo_bus (demo_env 2 True)) w1 of (b, w2) \<Rightarrow>
     case run (try_then (Done a) (load_act demo_bus (demo_env 1 True))) w2 of (ra, w3) \<Rightarrow>
     case run (try_then (Done b) (load_act demo_bus (demo_env 2 True))) w3 of (rb, w4) \<Rightarrow>
       [ra, rb, fst (run (load_user_key demo_bus (demo_env 3 True)) w4)])"

text \<open>When both find an empty service, the first keeps the key it saved and the second reports an error; from then on the
  service holds two keys, and every later start with the service present fails.\<close>

theorem first_start_race:
  "demo_race [] ! 0 = Ok (replicate 32 1) \<and> \<not> is_ok (demo_race [] ! 1) \<and> \<not> is_ok (demo_race [] ! 2)"
  by code_simp

text \<open>When one of them finds the service absent and the other finds it empty, both end without an error and with
  different keys, one in the file and one in the service; later starts fail.\<close>

theorem first_start_two_keys:
  "demo_race [False] ! 0 = Ok (replicate 32 1) \<and> demo_race [False] ! 1 = Ok (replicate 32 2) \<and> \<not> is_ok (demo_race [False] ! 2)"
  by code_simp

end
