(* ===== verification/Key_Import.thy ===== *)
theory Key_Import
  imports Key_Claims
begin

text \<open>
  Import of a profile into the service's configuration, \<^verbatim>\<open>src/src/clanto/config_import.rs\<close>, and of its machine key, with
  the re-encryption of the protected values, \<^verbatim>\<open>src/src/clanto/keystore.rs\<close>. The libraries (TOML, JSON, Base64, the
  sealed box, UTF-8) are the record \<open>SealLib\<close>; the nonces drawn are a sequence, whose index is the state of the
  re-encryption. The files of the destination are a directory; those of the source are given by their contents.
\<close>

section \<open>Values and their seals\<close>

datatype Toml = TString string | TArray "Toml list" | TTable "(string \<times> Toml) list" | TOther string

record SealLib =
  sl_version :: string
  sl_encode :: "nat list \<Rightarrow> string"
  sl_decode :: "nat list \<Rightarrow> nat list option"
  sl_seal :: "nat list \<Rightarrow> nat list \<Rightarrow> StoredKey \<Rightarrow> nat list"
  sl_open :: "nat list \<Rightarrow> nat list \<Rightarrow> StoredKey \<Rightarrow> nat list option"
  sl_nonce :: "nat \<Rightarrow> nat list"
  sl_utf8 :: "nat list \<Rightarrow> string option"
  sl_json :: "string \<Rightarrow> Value option"
  sl_json_print :: "Value \<Rightarrow> string option"
  sl_toml :: "string \<Rightarrow> Toml option"
  sl_toml_print :: "Toml \<Rightarrow> string option"

definition SCOPED_KEY_FORMAT_V1 :: nat where "SCOPED_KEY_FORMAT_V1 = 1"
definition NONCEBYTES :: nat where "NONCEBYTES = 24"
definition MACBYTES :: nat where "MACBYTES = 16"

definition strip_prefix :: "nat list \<Rightarrow> nat list \<Rightarrow> nat list option" where
  "strip_prefix p xs = (if take (length p) xs = p then Some (drop (length p) xs) else None)"

definition is_sealed :: "SealLib \<Rightarrow> nat list \<Rightarrow> bool" where
  "is_sealed S bytes = (take (length (as_bytes (sl_version S))) bytes = as_bytes (sl_version S))"

definition of_opt :: "KeyError \<Rightarrow> 'a option \<Rightarrow> ('a, KeyError) result" where
  "of_opt e x = (case x of None \<Rightarrow> Err e | Some v \<Rightarrow> Ok v)"

definition decrypt_machine_value :: "SealLib \<Rightarrow> nat list \<Rightarrow> StoredKey \<Rightarrow> (nat list, KeyError) result" where
  "decrypt_machine_value S value key =
     result_bind (of_opt (KeyError ''not a machine-scoped credential'') (strip_prefix (as_bytes (sl_version S)) value)) (\<lambda>encoded.
     result_bind (of_opt (KeyError ''invalid base64 payload'') (sl_decode S encoded)) (\<lambda>payload.
       let nonce_end = 1 + NONCEBYTES in
       if take 1 payload \<noteq> [SCOPED_KEY_FORMAT_V1] \<or> length payload < nonce_end + MACBYTES
       then Err (KeyError ''invalid encrypted payload'')
       else if length key \<noteq> KEY_LEN then Err (KeyError ''invalid machine key'')
       else of_opt (KeyError ''credential authentication failed'')
         (sl_open S (drop nonce_end payload) (take NONCEBYTES (drop 1 payload)) key)))"

definition encrypt_machine_value :: "SealLib \<Rightarrow> nat list \<Rightarrow> StoredKey \<Rightarrow> (nat, nat list) act" where
  "encrypt_machine_value S value key = (\<lambda>n.
     if length key \<noteq> KEY_LEN then (Err (KeyError ''invalid machine key''), n + 1)
     else let payload = [SCOPED_KEY_FORMAT_V1] @ sl_nonce S n @ sl_seal S value (sl_nonce S n) key
          in (Ok (as_bytes (sl_version S) @ as_bytes (sl_encode S payload)), n + 1))"

definition encrypt_to_string :: "SealLib \<Rightarrow> nat list \<Rightarrow> StoredKey \<Rightarrow> (nat, string) act" where
  "encrypt_to_string S value key = and_then (encrypt_machine_value S value key) (\<lambda>bytes n.
     (of_opt (KeyError ''from_utf8'') (sl_utf8 S bytes), n))"

definition is_plain_config2_secret :: "string \<Rightarrow> string \<Rightarrow> bool" where
  "is_plain_config2_secret path value = (value \<noteq> [] \<and> \<not> starts_with value ''00''
     \<and> path \<in> {''unlock_pin'', ''trusted_devices'', ''socks.password''})"

definition config_path :: "string \<Rightarrow> string \<Rightarrow> string" where
  "config_path parent child = (if parent = [] then child else parent @ ''.'' @ child)"

text \<open>The new string and whether it changed; a value that does not open keeps its text.\<close>

definition reencrypt_string :: "SealLib \<Rightarrow> StoredKey \<Rightarrow> StoredKey \<Rightarrow> string \<Rightarrow> (nat, string \<times> bool) act" where
  "reencrypt_string S old_key new_key stored = (case decrypt_machine_value S (as_bytes stored) old_key of
       Ok plain \<Rightarrow> and_then (encrypt_to_string S plain new_key) (\<lambda>s. ret (s, True))
     | Err _ \<Rightarrow> ret (stored, False))"

fun collect :: "'a option list \<Rightarrow> 'a list option" where
  "collect [] = Some []"
| "collect (x # xs) = Option.bind x (\<lambda>v. map_option (\<lambda>vs. v # vs) (collect xs))"

definition byte_of :: "Value \<Rightarrow> nat option" where
  "byte_of v = Option.bind (as_u64 v) (\<lambda>n. if n \<le> u8_max then Some n else None)"

definition sealed_bytes :: "SealLib \<Rightarrow> Value list \<Rightarrow> nat list option" where
  "sealed_bytes S vs = Option.bind (collect (map byte_of vs)) (\<lambda>bytes. if is_sealed S bytes then Some bytes else None)"

fun reencrypt_json_value :: "SealLib \<Rightarrow> StoredKey \<Rightarrow> StoredKey \<Rightarrow> Value \<Rightarrow> (nat, Value \<times> bool) act"
  and reencrypt_json_array :: "SealLib \<Rightarrow> StoredKey \<Rightarrow> StoredKey \<Rightarrow> Value list \<Rightarrow> (nat, Value list \<times> bool) act"
  and reencrypt_json_object :: "SealLib \<Rightarrow> StoredKey \<Rightarrow> StoredKey \<Rightarrow> (string \<times> Value) list \<Rightarrow> (nat, (string \<times> Value) list \<times> bool) act" where
  "reencrypt_json_value S old new (VString stored) = (if is_sealed S (as_bytes stored)
     then and_then (reencrypt_string S old new stored) (\<lambda>(s, c). ret (VString s, c)) else ret (VString stored, False))"
| "reencrypt_json_value S old new (VArray vs) = (case sealed_bytes S vs of
       Some bytes \<Rightarrow> (case decrypt_machine_value S bytes old of
           Ok plain \<Rightarrow> and_then (encrypt_machine_value S plain new) (\<lambda>b. ret (VArray (map (\<lambda>x. VNumber (int x)) b), True))
         | Err _ \<Rightarrow> ret (VArray vs, False))
     | None \<Rightarrow> and_then (reencrypt_json_array S old new vs) (\<lambda>(vs', c). ret (VArray vs', c)))"
| "reencrypt_json_value S old new (VObject fs) = and_then (reencrypt_json_object S old new fs) (\<lambda>(fs', c). ret (VObject fs', c))"
| "reencrypt_json_value S old new v = ret (v, False)"
| "reencrypt_json_array S old new [] = ret ([], False)"
| "reencrypt_json_array S old new (v # vs) = and_then (reencrypt_json_value S old new v) (\<lambda>(v', c).
     and_then (reencrypt_json_array S old new vs) (\<lambda>(vs', d). ret (v' # vs', c \<or> d)))"
| "reencrypt_json_object S old new [] = ret ([], False)"
| "reencrypt_json_object S old new ((k, v) # fs) = and_then (reencrypt_json_value S old new v) (\<lambda>(v', c).
     and_then (reencrypt_json_object S old new fs) (\<lambda>(fs', d). ret ((k, v') # fs', c \<or> d)))"

definition reencrypt_text :: "SealLib \<Rightarrow> StoredKey \<Rightarrow> StoredKey \<Rightarrow> string \<Rightarrow> string \<Rightarrow> (nat, string) act" where
  "reencrypt_text S old new path stored =
     (if is_sealed S (as_bytes stored) then and_then (reencrypt_string S old new stored) (\<lambda>(s, c). ret s)
      else if is_plain_config2_secret path stored then encrypt_to_string S (as_bytes stored) new
      else case sl_json S stored of
          Some json \<Rightarrow> and_then (reencrypt_json_value S old new json) (\<lambda>(j, c). if c
            then (\<lambda>n. (of_opt (KeyError ''to_string'') (sl_json_print S j), n)) else ret stored)
        | None \<Rightarrow> ret stored)"

fun reencrypt_config2_value :: "SealLib \<Rightarrow> StoredKey \<Rightarrow> StoredKey \<Rightarrow> string \<Rightarrow> Toml \<Rightarrow> (nat, Toml) act"
  and reencrypt_array :: "SealLib \<Rightarrow> StoredKey \<Rightarrow> StoredKey \<Rightarrow> string \<Rightarrow> nat \<Rightarrow> Toml list \<Rightarrow> (nat, Toml list) act"
  and reencrypt_table :: "SealLib \<Rightarrow> StoredKey \<Rightarrow> StoredKey \<Rightarrow> string \<Rightarrow> (string \<times> Toml) list \<Rightarrow> (nat, (string \<times> Toml) list) act" where
  "reencrypt_config2_value S old new path (TString stored) = and_then (reencrypt_text S old new path stored) (\<lambda>s. ret (TString s))"
| "reencrypt_config2_value S old new path (TArray vs) = and_then (reencrypt_array S old new path 0 vs) (\<lambda>vs'. ret (TArray vs'))"
| "reencrypt_config2_value S old new path (TTable fs) = and_then (reencrypt_table S old new path fs) (\<lambda>fs'. ret (TTable fs'))"
| "reencrypt_config2_value S old new path (TOther x) = ret (TOther x)"
| "reencrypt_array S old new path i [] = ret []"
| "reencrypt_array S old new path i (v # vs) = and_then (reencrypt_config2_value S old new (config_path path (show_nat i)) v) (\<lambda>v'.
     and_then (reencrypt_array S old new path (i + 1) vs) (\<lambda>vs'. ret (v' # vs')))"
| "reencrypt_table S old new path [] = ret []"
| "reencrypt_table S old new path ((k, v) # fs) = and_then (reencrypt_config2_value S old new (config_path path k) v) (\<lambda>v'.
     and_then (reencrypt_table S old new path fs) (\<lambda>fs'. ret ((k, v') # fs')))"

section \<open>Import of the machine key\<close>

text \<open>\<open>source_data\<close> is the key file of the source as read, \<open>E'\<close> the system at the restoration of the previous key.\<close>

definition prepare_config2 ::
  "SealLib \<Rightarrow> KeyEnv \<Rightarrow> StoredKey \<Rightarrow> string option \<Rightarrow> (Dir, (string \<times> nat list \<times> nat list) option) act" where
  "prepare_config2 S E new_key destination_config2 = (\<lambda>d.
     case destination_config2 of
       None \<Rightarrow> (Ok None, d)
     | Some path \<Rightarrow> if d path = None then (Ok None, d)
         else and_then (load_or_create_key E MACHINE_KEY_FILE) (\<lambda>old_key d1.
           (result_bind (result_bind (read_file E 2 MACHINE_KEY_FILE d1) (of_opt (KeyError ''read''))) (\<lambda>old_key_data.
            result_bind (result_bind (read_file E 2 path d1) (of_opt (KeyError ''read''))) (\<lambda>bytes.
            result_bind (of_opt (KeyError ''read_to_string'') (sl_utf8 S bytes)) (\<lambda>source.
            result_bind (of_opt (KeyError ''failed to parse'') (sl_toml S source)) (\<lambda>config.
            result_bind (fst (reencrypt_config2_value S old_key new_key [] config 0)) (\<lambda>config'.
            result_bind (of_opt (KeyError ''failed to serialize'') (sl_toml_print S config')) (\<lambda>serialized.
              Ok (Some (path, old_key_data, as_bytes serialized)))))))), d1)) d)"

definition import_machine_key_files ::
  "SealLib \<Rightarrow> KeyEnv \<Rightarrow> KeyEnv \<Rightarrow> (nat list, KeyError) result \<Rightarrow> string option \<Rightarrow> (Dir, unit) act" where
  "import_machine_key_files S E E' source_data destination_config2 = (\<lambda>d.
     case result_bind source_data (\<lambda>bytes. result_bind (decode_stored_key bytes) (\<lambda>k. Ok (bytes, k))) of
       Err e \<Rightarrow> (Err e, d)
     | Ok (bytes, new_key) \<Rightarrow> and_then (prepare_config2 S E new_key destination_config2) (\<lambda>prepared.
         and_then (atomic_replace E MACHINE_KEY_FILE bytes) (\<lambda>_ d2. case prepared of
             None \<Rightarrow> (Ok (), d2)
           | Some (path, old_key_data, config2_data) \<Rightarrow> (case atomic_replace E path config2_data d2 of
               (Ok u, d3) \<Rightarrow> (Ok u, d3)
             | (Err err, d3) \<Rightarrow> (case atomic_replace E' MACHINE_KEY_FILE old_key_data d3 of
                 (Err rollback_err, d4) \<Rightarrow> (Err (KeyError ''failed to restore the previous machine key''), d4)
               | (Ok _, d4) \<Rightarrow> (Err (KeyError ''failed to rewrite; restored the previous machine key''), d4))))) d)"

text \<open>\<open>source_key\<close> is \<open>None\<close> when the profile has no machine key.\<close>

definition import_machine_key_to ::
  "SealLib \<Rightarrow> KeyEnv \<Rightarrow> KeyEnv \<Rightarrow> (nat list, KeyError) result option \<Rightarrow> string \<Rightarrow> bool \<Rightarrow> (Dir, unit) act" where
  "import_machine_key_to S E E' source_key destination_config2 config2_is_imported = (case source_key of
       None \<Rightarrow> ret ()
     | Some source_data \<Rightarrow> import_machine_key_files S E E' source_data
         (if config2_is_imported then None else Some destination_config2))"

section \<open>Import of the configuration\<close>

definition should_import_config :: "bool \<Rightarrow> bool \<Rightarrow> bool \<Rightarrow> bool" where
  "should_import_config destination_has_identity source_newer source_older_than_exe =
     (\<not> destination_has_identity \<and> source_newer \<and> source_older_than_exe)"

fun value_has_data :: "Toml \<Rightarrow> bool" where
  "value_has_data (TString s) = (s \<noteq> [])"
| "value_has_data (TArray vs) = (\<exists>v \<in> set vs. value_has_data v)"
| "value_has_data (TTable fs) = (\<exists>f \<in> set fs. value_has_data (snd f))"
| "value_has_data (TOther _) = True"

definition destination_has_identity :: "SealLib \<Rightarrow> KeyEnv \<Rightarrow> string \<Rightarrow> Dir \<Rightarrow> (bool, KeyError) result" where
  "destination_has_identity S E path d = result_bind (read_file E 0 path d) (\<lambda>r. case r of
       None \<Rightarrow> Ok False
     | Some bytes \<Rightarrow>
         result_bind (of_opt (KeyError ''failed to read'') (sl_utf8 S bytes)) (\<lambda>source.
         result_bind (of_opt (KeyError ''failed to parse'') (sl_toml S source)) (\<lambda>config. case config of
             TTable table \<Rightarrow> Ok (\<exists>key \<in> set [''id'', ''enc_id'', ''key_pair'']. case map_of table key of
               None \<Rightarrow> False | Some v \<Rightarrow> value_has_data v)
           | _ \<Rightarrow> Err (KeyError ''is not a TOML table''))))"

definition backup_name :: "string \<Rightarrow> string" where
  "backup_name path = path @ ''.pre-import''"

text \<open>\<open>fs::copy\<close>, which may leave part of the copy when it fails.\<close>

definition backup_if_replaced :: "KeyEnv \<Rightarrow> string \<Rightarrow> (Dir, unit) act" where
  "backup_if_replaced E path = (\<lambda>d. case d path of
       None \<Rightarrow> (Ok (), d)
     | Some bytes \<Rightarrow> (case ke_write E (backup_name path) of
         None \<Rightarrow> (Ok (), d(backup_name path \<mapsto> bytes))
       | Some part \<Rightarrow> (Err (KeyError ''failed to back up''), d(backup_name path \<mapsto> part))))"

text \<open>The source profile: its configurations as \<open>load_path\<close> reads them and \<open>store_path\<close> writes them, and its key file.
  \<open>store_path\<close> writes the file or leaves it.\<close>

record Profile =
  pr_config_empty :: bool
  pr_config :: "nat list"
  pr_config2 :: "nat list"
  pr_key :: "(nat list, KeyError) result option"

definition store_path :: "KeyEnv \<Rightarrow> string \<Rightarrow> nat list \<Rightarrow> (Dir, unit) act" where
  "store_path E path bytes = (\<lambda>d. if ke_open E path then (Ok (), d(path \<mapsto> bytes)) else (Err (KeyError ''store_path''), d))"

definition import_config_files ::
  "SealLib \<Rightarrow> KeyEnv \<Rightarrow> KeyEnv \<Rightarrow> Profile \<Rightarrow> string \<Rightarrow> string \<Rightarrow> bool \<Rightarrow> bool \<Rightarrow> bool \<Rightarrow> (Dir, unit) act" where
  "import_config_files S E E' P dest dest2 source_newer source_older_than_exe source_config2_newer = (\<lambda>d.
     case destination_has_identity S E dest d of
       Err e \<Rightarrow> (Err e, d)
     | Ok has_identity \<Rightarrow>
       if has_identity then (Ok (), d)
       else if pr_config_empty P then (Ok (), d)
       else
         let import_config = should_import_config has_identity source_newer source_older_than_exe;
             import_config2 = source_config2_newer;
             source_has_machine_key = (pr_key P \<noteq> None)
         in if \<not> import_config \<and> import_config2 \<and> source_has_machine_key then (Ok (), d)
         else and_then (if import_config
             then and_then (backup_if_replaced E dest) (\<lambda>_ d1.
               and_then (if import_config2 \<or> source_has_machine_key \<and> d1 dest2 \<noteq> None then backup_if_replaced E dest2 else ret ()) (\<lambda>_.
               and_then (import_machine_key_to S E E' (pr_key P) dest2 import_config2) (\<lambda>_.
               store_path E dest (pr_config P))) d1)
             else ret ()) (\<lambda>_.
           if import_config2
           then and_then (if \<not> import_config then backup_if_replaced E dest2 else ret ()) (\<lambda>_. store_path E dest2 (pr_config2 P))
           else ret ()) d)"

end
