(* ===== verification/Import_Claims.thy ===== *)
theory Import_Claims
  imports Key_Import
begin

text \<open>
  Nothing protected is lost by an import: a value that the previous machine key opens is opened by the new one
  afterwards, a failed rewrite puts the previous key back, an existing identity is not touched, and what an import
  replaces is in a backup.
\<close>

section \<open>What is asked of the libraries\<close>

fun composite :: "Value \<Rightarrow> bool" where
  "composite (VString _) = True"
| "composite (VArray _) = True"
| "composite (VObject _) = True"
| "composite _ = False"

text \<open>Round trips of the libraries; a text that is JSON is not empty and does not begin with two zeros, and a printed
  string, array or object does not begin with the mark of a sealed value.\<close>

definition seal_ok :: "SealLib \<Rightarrow> bool" where
  "seal_ok S = ((\<forall>n. length (sl_nonce S n) = NONCEBYTES)
     \<and> (\<forall>v n k. length (sl_seal S v n k) = length v + MACBYTES)
     \<and> (\<forall>v n k. length n = NONCEBYTES \<longrightarrow> length k = KEY_LEN \<longrightarrow> sl_open S (sl_seal S v n k) n k = Some v)
     \<and> (\<forall>p. sl_decode S (as_bytes (sl_encode S p)) = Some p)
     \<and> (\<forall>s. sl_utf8 S (as_bytes s) = Some s)
     \<and> (\<forall>j s. sl_json_print S j = Some s \<longrightarrow> sl_json S s = Some j \<and> (composite j \<longrightarrow> \<not> is_sealed S (as_bytes s)))
     \<and> (\<forall>s j. sl_json S s = Some j \<longrightarrow> s \<noteq> [] \<and> \<not> starts_with s ''00'')
     \<and> (\<forall>t s. sl_toml_print S t = Some s \<longrightarrow> sl_toml S s = Some t))"

section \<open>The values that a key opens\<close>

definition opened_value :: "SealLib \<Rightarrow> StoredKey \<Rightarrow> string \<Rightarrow> nat list \<Rightarrow> (string \<times> nat list) list" where
  "opened_value S key path bytes = (case decrypt_machine_value S bytes key of Ok v \<Rightarrow> [(path, v)] | Err _ \<Rightarrow> [])"

fun opened_json :: "SealLib \<Rightarrow> StoredKey \<Rightarrow> string \<Rightarrow> Value \<Rightarrow> (string \<times> nat list) list"
  and opened_json_array :: "SealLib \<Rightarrow> StoredKey \<Rightarrow> string \<Rightarrow> nat \<Rightarrow> Value list \<Rightarrow> (string \<times> nat list) list"
  and opened_json_object :: "SealLib \<Rightarrow> StoredKey \<Rightarrow> string \<Rightarrow> (string \<times> Value) list \<Rightarrow> (string \<times> nat list) list" where
  "opened_json S key path (VString s) = (if is_sealed S (as_bytes s) then opened_value S key path (as_bytes s) else [])"
| "opened_json S key path (VArray vs) = (case sealed_bytes S vs of
      Some bytes \<Rightarrow> opened_value S key path bytes | None \<Rightarrow> opened_json_array S key path 0 vs)"
| "opened_json S key path (VObject fs) = opened_json_object S key path fs"
| "opened_json S key path v = []"
| "opened_json_array S key path i [] = []"
| "opened_json_array S key path i (v # vs) = opened_json S key (config_path path (show_nat i)) v @ opened_json_array S key path (i + 1) vs"
| "opened_json_object S key path [] = []"
| "opened_json_object S key path ((k, v) # fs) = opened_json S key (config_path path k) v @ opened_json_object S key path fs"

definition opened_text :: "SealLib \<Rightarrow> StoredKey \<Rightarrow> string \<Rightarrow> string \<Rightarrow> (string \<times> nat list) list" where
  "opened_text S key path s = (if is_sealed S (as_bytes s) then opened_value S key path (as_bytes s)
     else if is_plain_config2_secret path s then [(path, as_bytes s)]
     else case sl_json S s of Some j \<Rightarrow> opened_json S key path j | None \<Rightarrow> [])"

fun opened :: "SealLib \<Rightarrow> StoredKey \<Rightarrow> string \<Rightarrow> Toml \<Rightarrow> (string \<times> nat list) list"
  and opened_array :: "SealLib \<Rightarrow> StoredKey \<Rightarrow> string \<Rightarrow> nat \<Rightarrow> Toml list \<Rightarrow> (string \<times> nat list) list"
  and opened_table :: "SealLib \<Rightarrow> StoredKey \<Rightarrow> string \<Rightarrow> (string \<times> Toml) list \<Rightarrow> (string \<times> nat list) list" where
  "opened S key path (TString s) = opened_text S key path s"
| "opened S key path (TArray vs) = opened_array S key path 0 vs"
| "opened S key path (TTable fs) = opened_table S key path fs"
| "opened S key path (TOther x) = []"
| "opened_array S key path i [] = []"
| "opened_array S key path i (v # vs) = opened S key (config_path path (show_nat i)) v @ opened_array S key path (i + 1) vs"
| "opened_table S key path [] = []"
| "opened_table S key path ((k, v) # fs) = opened S key (config_path path k) v @ opened_table S key path fs"

section \<open>Sealing\<close>

lemma as_bytes_byte: "x \<in> set (as_bytes s) \<Longrightarrow> x \<le> u8_max"
proof -
  have "y \<le> 255" if "y \<in> set (utf8_bytes c)" for y c
  proof -
    have "(of_char c :: nat) < 256" by simp
    then have "192 + of_char c div 64 \<le> (255::nat)" "128 + of_char c mod 64 \<le> (255::nat)" by linarith+
    then show ?thesis using that by (auto simp: utf8_bytes_def Let_def split: if_splits)
  qed
  then show "x \<in> set (as_bytes s) \<Longrightarrow> x \<le> u8_max" by (auto simp: as_bytes_def u8_max_def)
qed

lemma encrypt_ok:
  assumes "seal_ok S" "encrypt_machine_value S v key n = (Ok b, n')"
  shows "is_sealed S b" "decrypt_machine_value S b key = Ok v" "\<exists>s. b = as_bytes s"
proof -
  from assms(2) have k: "length key = KEY_LEN"
    and b: "b = as_bytes (sl_version S) @ as_bytes (sl_encode S ([SCOPED_KEY_FORMAT_V1] @ sl_nonce S n @ sl_seal S v (sl_nonce S n) key))"
    by (auto simp: encrypt_machine_value_def split: if_splits)
  show "is_sealed S b" "\<exists>s. b = as_bytes s"
    using b by (simp_all add: is_sealed_def) (metis as_bytes_simps(3))
  have "length (sl_nonce S n) = NONCEBYTES" "length (sl_seal S v (sl_nonce S n) key) = length v + MACBYTES"
    using assms(1) by (auto simp: seal_ok_def)
  moreover have "sl_open S (sl_seal S v (sl_nonce S n) key) (sl_nonce S n) key = Some v" "sl_decode S (as_bytes (sl_encode S p)) = Some p" for p
    using assms(1) k by (auto simp: seal_ok_def)
  ultimately show "decrypt_machine_value S b key = Ok v"
    using b k by (simp add: decrypt_machine_value_def strip_prefix_def of_opt_def Let_def)
qed

lemma encrypt_to_string_ok:
  assumes "seal_ok S" "encrypt_to_string S v key n = (Ok s, n')"
  shows "is_sealed S (as_bytes s)" "decrypt_machine_value S (as_bytes s) key = Ok v"
proof -
  from assms(2) obtain b m where b: "encrypt_machine_value S v key n = (Ok b, m)" "sl_utf8 S b = Some s"
    by (auto simp: encrypt_to_string_def and_then_Ok of_opt_def split: option.splits)
  from encrypt_ok(3) [OF assms(1) b(1)] obtain s' where "b = as_bytes s'" by blast
  then have "b = as_bytes s" using b(2) assms(1) by (auto simp: seal_ok_def)
  then show "is_sealed S (as_bytes s)" "decrypt_machine_value S (as_bytes s) key = Ok v"
    using encrypt_ok [OF assms(1) b(1)] by auto
qed

lemma reencrypt_string_ok:
  assumes "seal_ok S" "reencrypt_string S old new s n = (Ok (s', c), n')" "is_sealed S (as_bytes s)"
  shows "is_sealed S (as_bytes s')" "c \<Longrightarrow> opened_value S new p (as_bytes s') = opened_value S old p (as_bytes s)"
    "\<not> c \<Longrightarrow> s' = s \<and> opened_value S old p (as_bytes s) = []"
  using assms encrypt_to_string_ok [OF assms(1)]
  by (auto simp: reencrypt_string_def and_then_Ok ret_def opened_value_def split: result.splits)

section \<open>JSON\<close>

lemma collect_bytes: "(\<And>x. x \<in> set b \<Longrightarrow> x \<le> u8_max) \<Longrightarrow> collect (map byte_of (map (\<lambda>x. VNumber (int x)) b)) = Some b"
proof (induction b)
  case (Cons a b)
  have "a \<le> 255" using Cons.prems by (simp add: u8_max_def)
  then have "byte_of (VNumber (int a)) = Some a" by (simp add: byte_of_def u64_max_def u8_max_def)
  then show ?case using Cons by simp
qed simp

text \<open>\<open>json_kept\<close>: the new value opens what the old one did; an unchanged one did not open at all.\<close>

definition json_kept :: "SealLib \<Rightarrow> StoredKey \<Rightarrow> StoredKey \<Rightarrow> Value \<Rightarrow> Value \<Rightarrow> bool \<Rightarrow> bool" where
  "json_kept S old new v v' c = (byte_of v' = byte_of v \<and> (c \<longrightarrow> composite v')
     \<and> (\<forall>p. set (opened_json S old p v) \<subseteq> set (opened_json S new p v') \<and> (\<not> c \<longrightarrow> v' = v \<and> opened_json S old p v = [])))"

lemma reencrypt_json_ok:
  shows "seal_ok S \<Longrightarrow> reencrypt_json_value S old new v n = (Ok (v', c), n') \<Longrightarrow> json_kept S old new v v' c"
    and "seal_ok S \<Longrightarrow> reencrypt_json_array S old new vs n = (Ok (vs', c), n') \<Longrightarrow> map byte_of vs' = map byte_of vs
      \<and> (\<forall>p i. set (opened_json_array S old p i vs) \<subseteq> set (opened_json_array S new p i vs') \<and> (\<not> c \<longrightarrow> vs' = vs \<and> opened_json_array S old p i vs = []))"
    and "seal_ok S \<Longrightarrow> reencrypt_json_object S old new fs n = (Ok (fs', c), n') \<Longrightarrow>
      (\<forall>p. set (opened_json_object S old p fs) \<subseteq> set (opened_json_object S new p fs') \<and> (\<not> c \<longrightarrow> fs' = fs \<and> opened_json_object S old p fs = []))"
proof (induction S old new v and S old new vs and S old new fs arbitrary: n v' c n' and n vs' c n' and n fs' c n'
    rule: reencrypt_json_value_reencrypt_json_array_reencrypt_json_object.induct)
  case (1 S old new stored)
  show ?case
  proof (cases "is_sealed S (as_bytes stored)")
    case False
    then show ?thesis using 1 by (auto simp: ret_def json_kept_def)
  next
    case True
    with 1 obtain s' m where s: "reencrypt_string S old new stored n = (Ok (s', c), m)" "v' = VString s'"
      by (auto simp: and_then_Ok ret_def)
    then show ?thesis using reencrypt_string_ok [OF 1(1) s(1) True] True
      by (cases c) (auto simp: json_kept_def byte_of_def)
  qed
next
  case (2 S old new vs)
  show ?case
  proof (cases "sealed_bytes S vs")
    case None
    with 2 obtain vs' m where v: "reencrypt_json_array S old new vs n = (Ok (vs', c), m)" "v' = VArray vs'"
      by (auto simp: and_then_Ok ret_def)
    note I = 2(1) [OF None 2(2) v(1)]
    then have "sealed_bytes S vs' = None" using None by (simp add: sealed_bytes_def)
    then show ?thesis using I None v(2) by (auto simp: json_kept_def byte_of_def)
  next
    case (Some bytes)
    show ?thesis
    proof (cases "decrypt_machine_value S bytes old")
      case (Err e)
      then show ?thesis using 2(2,3) Some by (auto simp: json_kept_def ret_def opened_value_def)
    next
      case (Ok plain)
      with 2(3) Some obtain b m where b: "encrypt_machine_value S plain new n = (Ok b, m)"
          "v' = VArray (map (\<lambda>x. VNumber (int x)) b)" c by (auto simp: and_then_Ok ret_def)
      note K = encrypt_ok [OF 2(2) b(1)]
      have "sealed_bytes S (map (\<lambda>x. VNumber (int x)) b) = Some b"
        using K(1,3) collect_bytes [of b] as_bytes_byte by (fastforce simp: sealed_bytes_def)
      then show ?thesis using Ok K(2) Some b(2,3) by (auto simp: json_kept_def byte_of_def opened_value_def)
    qed
  qed
next
  case (3 S old new fs)
  then obtain fs' m where v: "reencrypt_json_object S old new fs n = (Ok (fs', c), m)" "v' = VObject fs'"
    by (auto simp: and_then_Ok ret_def)
  then show ?case using 3(1) [OF 3(2) v(1)] by (auto simp: json_kept_def byte_of_def)
next
  case (6 S old new v vs)
  then obtain v1 c1 m vs1 d where a: "reencrypt_json_value S old new v n = (Ok (v1, c1), m)"
      "reencrypt_json_array S old new vs m = (Ok (vs1, d), n')" "vs' = v1 # vs1" "c = (c1 \<or> d)"
    by (simp add: and_then_Ok ret_def split_beta) (metis prod.collapse)
  have I: "json_kept S old new v v1 c1" using 6(1) [OF 6(3) a(1)] .
  have J: "map byte_of vs1 = map byte_of vs"
    "set (opened_json_array S old p i vs) \<subseteq> set (opened_json_array S new p i vs1)"
    "\<not> d \<Longrightarrow> vs1 = vs \<and> opened_json_array S old p i vs = []" for p i
    using 6(2) [OF 6(3) a(2)] by auto
  show ?case using I J a(3,4) unfolding json_kept_def by auto
next
  case (8 S old new k v fs)
  then obtain v1 c1 m fs1 d where a: "reencrypt_json_value S old new v n = (Ok (v1, c1), m)"
      "reencrypt_json_object S old new fs m = (Ok (fs1, d), n')" "fs' = (k, v1) # fs1" "c = (c1 \<or> d)"
    by (simp add: and_then_Ok ret_def split_beta) (metis prod.collapse)
  have I: "json_kept S old new v v1 c1" using 8(1) [OF 8(3) a(1)] .
  have J: "set (opened_json_object S old p fs) \<subseteq> set (opened_json_object S new p fs1)"
    "\<not> d \<Longrightarrow> fs1 = fs \<and> opened_json_object S old p fs = []" for p
    using 8(2) [OF 8(3) a(2)] by auto
  show ?case using I J a(3,4) unfolding json_kept_def by auto
qed (auto simp: ret_def json_kept_def)

section \<open>TOML\<close>

lemma reencrypt_text_ok:
  assumes S: "seal_ok S" and t: "reencrypt_text S old new path s n = (Ok s', n')"
  shows "set (opened_text S old path s) \<subseteq> set (opened_text S new path s')"
proof (cases "is_sealed S (as_bytes s)")
  case True
  with t obtain c m where "reencrypt_string S old new s n = (Ok (s', c), m)"
    by (auto simp: reencrypt_text_def and_then_Ok ret_def)
  then show ?thesis using reencrypt_string_ok [OF S _ True] True by (cases c) (auto simp: opened_text_def)
next
  case ns: False
  show ?thesis
  proof (cases "is_plain_config2_secret path s")
    case True
    with t ns have "encrypt_to_string S (as_bytes s) new n = (Ok s', n')" by (simp add: reencrypt_text_def)
    then show ?thesis using encrypt_to_string_ok [OF S] ns True by (auto simp: opened_text_def opened_value_def)
  next
    case np: False
    show ?thesis
    proof (cases "sl_json S s")
      case None
      then show ?thesis using ns np by (simp add: opened_text_def)
    next
      case (Some j)
      with t ns np obtain j' c m where j: "reencrypt_json_value S old new j n = (Ok (j', c), m)"
          "if c then sl_json_print S j' = Some s' else s' = s"
        by (auto simp: reencrypt_text_def and_then_Ok ret_def of_opt_def split: if_splits option.splits)
      note K = reencrypt_json_ok(1) [OF S j(1), unfolded json_kept_def]
      show ?thesis
      proof (cases c)
        case False
        then show ?thesis using K Some ns np by (auto simp: opened_text_def)
      next
        case True
        have "sl_json S s' = Some j'" "\<not> is_sealed S (as_bytes s')" using S K j(2) True by (auto simp: seal_ok_def)
        moreover have "s \<noteq> []" "\<not> starts_with s ''00''" using S Some by (auto simp: seal_ok_def)
        then have "\<not> is_plain_config2_secret path s'" using np by (simp add: is_plain_config2_secret_def)
        ultimately show ?thesis using K Some ns np by (auto simp: opened_text_def)
      qed
    qed
  qed
qed

lemma reencrypt_config2_ok:
  shows "seal_ok S \<Longrightarrow> reencrypt_config2_value S old new path v n = (Ok v', n') \<Longrightarrow> set (opened S old path v) \<subseteq> set (opened S new path v')"
    and "seal_ok S \<Longrightarrow> reencrypt_array S old new path i vs n = (Ok vs', n') \<Longrightarrow>
      set (opened_array S old path i vs) \<subseteq> set (opened_array S new path i vs')"
    and "seal_ok S \<Longrightarrow> reencrypt_table S old new path fs n = (Ok fs', n') \<Longrightarrow>
      set (opened_table S old path fs) \<subseteq> set (opened_table S new path fs')"
proof (induction S old new path v and S old new path i vs and S old new path fs arbitrary: n v' n' and n vs' n' and n fs' n'
    rule: reencrypt_config2_value_reencrypt_array_reencrypt_table.induct)
  case (1 S old new path stored)
  then show ?case by (auto simp: and_then_Ok ret_def dest: subsetD [OF reencrypt_text_ok [OF 1(1)]])
next
  case (6 S old new path i v vs)
  then show ?case by (fastforce simp: and_then_Ok ret_def)
next
  case (8 S old new path k v fs)
  then show ?case by (fastforce simp: and_then_Ok ret_def)
qed (fastforce simp: and_then_Ok ret_def)+

section \<open>The import of a key\<close>

lemma prepare_config2_ok:
  assumes "prepare_config2 S E new dest2 d = (r, d1)" "d MACHINE_KEY_FILE = Some old"
  shows "d1 = d"
    "r = Ok (Some (path, old_data, data2)) \<Longrightarrow> old_data = old \<and> (\<exists>b src cfg cfg' out n. d path = Some b \<and> sl_utf8 S b = Some src
        \<and> sl_toml S src = Some cfg \<and> reencrypt_config2_value S old new [] cfg 0 = (Ok cfg', n)
        \<and> sl_toml_print S cfg' = Some out \<and> data2 = as_bytes out) \<and> dest2 = Some path"
    "r = Ok None \<Longrightarrow> case dest2 of None \<Rightarrow> True | Some path \<Rightarrow> d path = None"
proof -
  have k: "load_or_create_key E MACHINE_KEY_FILE d = (if ke_read E 1 MACHINE_KEY_FILE then decode_stored_key old else Err (KeyError ''read''), d)"
    using assms(2) by (simp add: load_or_create_key_def read_file_def)
  show "d1 = d" using assms(1) k by (auto simp: prepare_config2_def and_then_def split: option.splits if_splits result.splits)
  show "r = Ok None \<Longrightarrow> case dest2 of None \<Rightarrow> True | Some path \<Rightarrow> d path = None"
    using assms(1) by (auto simp: prepare_config2_def and_then_def result_bind_eq_Ok split: option.splits if_splits result.splits prod.splits)
  assume r: "r = Ok (Some (path, old_data, data2))"
  show "old_data = old \<and> (\<exists>b src cfg cfg' out n. d path = Some b \<and> sl_utf8 S b = Some src
        \<and> sl_toml S src = Some cfg \<and> reencrypt_config2_value S old new [] cfg 0 = (Ok cfg', n)
        \<and> sl_toml_print S cfg' = Some out \<and> data2 = as_bytes out) \<and> dest2 = Some path"
    using assms r k
    by (auto simp: prepare_config2_def and_then_Ok result_bind_eq_Ok read_file_def of_opt_def decode_stored_key_def
        split: option.splits if_splits) (metis prod.collapse)
qed

text \<open>The two replacements of an import and the restoration.\<close>

lemma import_files_cases:
  assumes "import_machine_key_files S E E' (Ok bytes) (Some path) d = (r, d')" "ordinary path" "path \<noteq> MACHINE_KEY_FILE"
    "d MACHINE_KEY_FILE = Some old" "d path \<noteq> None"
  shows "(\<exists>e. r = Err e) \<and> same_files {} d d'
    \<or> (\<exists>data2. prepare_config2 S E bytes (Some path) d = (Ok (Some (path, old, data2)), d)
        \<and> (r = Ok () \<and> d' MACHINE_KEY_FILE = Some bytes \<and> d' path = Some data2
          \<or> r = Err (KeyError ''failed to restore the previous machine key'')))"
proof (cases "decode_stored_key bytes")
  case (Err e)
  then show ?thesis using assms(1) by (auto simp: import_machine_key_files_def)
next
  case (Ok k)
  then have k: "k = bytes" by (auto simp: decode_stored_key_def split: if_splits)
  obtain pr d1 where p: "prepare_config2 S E bytes (Some path) d = (pr, d1)" by fastforce
  note P = prepare_config2_ok [OF p assms(4)]
  show ?thesis
  proof (cases pr)
    case (Err e)
    then show ?thesis using assms(1) Ok k p P(1) by (auto simp: import_machine_key_files_def)
  next
    case pr: (Ok prepared)
    then obtain data2 where data2: "prepared = Some (path, old, data2)"
      using P(2,3) assms(5) by (cases prepared) auto
    obtain r2 d2 where a2: "atomic_replace E MACHINE_KEY_FILE bytes d = (r2, d2)" by fastforce
    note A2 = atomic_replace_ok [OF a2 ordinary_names(3)]
    show ?thesis
    proof (cases r2)
      case (Err e)
      then have "r = Err e" "d' = d2" using assms(1) Ok k p P(1) pr a2 by (auto simp: import_machine_key_files_def)
      then show ?thesis using A2 Err by (auto simp: same_files_def)
    next
      case r2: (Ok u)
      obtain r3 d3 where a3: "atomic_replace E path data2 d2 = (r3, d3)" by fastforce
      note A3 = atomic_replace_ok [OF a3 assms(2)]
      have m3: "d3 MACHINE_KEY_FILE = d2 MACHINE_KEY_FILE" using A3 assms(3) by (auto simp: same_files_def)
      show ?thesis
      proof (cases r3)
        case (Ok u')
        then have "r = Ok ()" "d' = d3"
          using assms(1) \<open>decode_stored_key bytes = Ok k\<close> k p P(1) pr data2 a2 r2 a3 by (auto simp: import_machine_key_files_def)
        then show ?thesis using A2 A3 r2 Ok m3 p P(1) pr data2 by auto
      next
        case r3: (Err e)
        obtain r4 d4 where a4: "atomic_replace E' MACHINE_KEY_FILE old d3 = (r4, d4)" by fastforce
        note A4 = atomic_replace_ok [OF a4 ordinary_names(3)]
        have r: "d' = d4" "r = Err (KeyError (if r4 = Ok () then ''failed to rewrite; restored the previous machine key''
            else ''failed to restore the previous machine key''))"
          using assms(1) Ok k p P(1) pr data2 a2 r2 a3 r3 a4
          by (cases r4; auto simp: import_machine_key_files_def)+
        show ?thesis
        proof (cases "r4 = Ok ()")
          case True
          have "same_files {} d d4"
            unfolding same_files_def
          proof (intro allI impI)
            fix q :: string
            assume q: "ordinary q"
            show "d4 q = d q"
            proof (cases "q = MACHINE_KEY_FILE")
              case True
              then show ?thesis using A4 \<open>r4 = Ok ()\<close> assms(4) by simp
            next
              case False
              then have "d4 q = d3 q" "d2 q = d q" using A4 A2 q by (auto simp: same_files_def)
              moreover have "d3 q = d2 q" using A3 r3 q by (cases "q = path") (auto simp: same_files_def)
              ultimately show ?thesis by simp
            qed
          qed
          then show ?thesis using r True by auto
        next
          case False
          then show ?thesis using r p P(1) pr data2 by auto
        qed
      qed
    qed
  qed
qed

text \<open>C39: the import of a machine key loses no protected value. When it succeeds, every value of the configuration that
  the previous key opens, plain secrets and values inside JSON texts included, is opened by the new key to the same
  bytes. When it fails, the files of the directory are those from before, unless the error says that the previous key
  could not be put back.\<close>

theorem key_import_keeps_secrets:
  assumes "import_machine_key_files S E E' (Ok bytes) (Some path) d = (r, d')" "seal_ok S" "ordinary path" "path \<noteq> MACHINE_KEY_FILE"
    "d MACHINE_KEY_FILE = Some old" "d path = Some b" "sl_utf8 S b = Some src" "sl_toml S src = Some cfg"
  shows "case r of
      Ok _ \<Rightarrow> d' MACHINE_KEY_FILE = Some bytes \<and> (\<exists>src' cfg'. d' path = Some (as_bytes src')
        \<and> sl_toml S src' = Some cfg' \<and> set (opened S old [] cfg) \<subseteq> set (opened S bytes [] cfg'))
    | Err e \<Rightarrow> e = KeyError ''failed to restore the previous machine key'' \<or> same_files {} d d'"
proof (cases r)
  case (Err e)
  then show ?thesis using import_files_cases [OF assms(1,3,4,5)] assms(6) by auto
next
  case (Ok u)
  with import_files_cases [OF assms(1,3,4,5)] assms(6) obtain data2
    where p: "prepare_config2 S E bytes (Some path) d = (Ok (Some (path, old, data2)), d)"
      and d: "d' MACHINE_KEY_FILE = Some bytes" "d' path = Some data2" by auto
  from prepare_config2_ok(2) [OF p assms(5) refl] assms(6-8) obtain cfg' out n
    where c: "reencrypt_config2_value S old bytes [] cfg 0 = (Ok cfg', n)" "sl_toml_print S cfg' = Some out" "data2 = as_bytes out"
    by auto
  have "sl_toml S out = Some cfg'" using assms(2) c(2) by (auto simp: seal_ok_def)
  then show ?thesis using Ok d c(3) reencrypt_config2_ok(1) [OF assms(2) c(1)] by auto
qed

text \<open>Small libraries that keep these laws: a configuration with one field, a box that checks half of its key.\<close>

fun demo_utf8 :: "nat list \<Rightarrow> string option" where
  "demo_utf8 [] = Some []"
| "demo_utf8 (x # xs) = (if x < 128 then map_option (\<lambda>s. char_of x # s) (demo_utf8 xs)
     else case xs of [] \<Rightarrow> None | y # ys \<Rightarrow> map_option (\<lambda>s. char_of ((x - 192) * 64 + (y - 128)) # s) (demo_utf8 ys))"

lemma demo_utf8_ok: "demo_utf8 (as_bytes s) = Some s"
proof (induction s)
  case (Cons c s)
  define m where "m = (of_char c :: nat)"
  have m: "char_of m = c" by (simp add: m_def)
  have "m div 64 * 64 + m mod 64 = m" by simp
  then show ?case using Cons m by (simp add: utf8_bytes_def m_def [symmetric] Let_def)
qed simp

fun demo_encode :: "nat list \<Rightarrow> string" where
  "demo_encode [] = []"
| "demo_encode (x # xs) = replicate x CHR ''a'' @ CHR ''b'' # demo_encode xs"

fun demo_decode :: "nat \<Rightarrow> nat list \<Rightarrow> nat list option" where
  "demo_decode n [] = (if n = 0 then Some [] else None)"
| "demo_decode n (x # xs) = (if x = 97 then demo_decode (n + 1) xs else map_option (\<lambda>ys. n # ys) (demo_decode 0 xs))"

lemma demo_decode_ok: "demo_decode 0 (as_bytes (demo_encode p)) = Some p"
proof (induction p)
  case (Cons x p)
  have "demo_decode n (as_bytes (replicate x CHR ''a'') @ ys) = demo_decode (n + x) ys" for n ys
    by (induction x arbitrary: n) (simp_all add: utf8_bytes_def)
  then show ?case using Cons by (simp add: utf8_bytes_def)
qed simp

definition demo_lib :: SealLib where
  "demo_lib = \<lparr>sl_version = ''01'', sl_encode = demo_encode, sl_decode = demo_decode 0,
     sl_seal = (\<lambda>v n k. take MACBYTES (k @ replicate MACBYTES 0) @ v),
     sl_open = (\<lambda>c n k. if take MACBYTES c = take MACBYTES k then Some (drop MACBYTES c) else None),
     sl_nonce = (\<lambda>i. replicate NONCEBYTES 0), sl_utf8 = demo_utf8, sl_json = (\<lambda>s. None), sl_json_print = (\<lambda>j. None),
     sl_toml = (\<lambda>s. Some (TTable [(''unlock_pin'', TString s)])),
     sl_toml_print = (\<lambda>t. case t of TTable [(k, TString s)] \<Rightarrow> if k = ''unlock_pin'' then Some s else None | _ \<Rightarrow> None)\<rparr>"

lemma demo_lib_ok: "seal_ok demo_lib"
  by (auto simp: seal_ok_def demo_lib_def demo_utf8_ok demo_decode_ok MACBYTES_def KEY_LEN_def NONCEBYTES_def
      split: Toml.splits list.splits if_splits)

definition import_env :: KeyEnv where
  "import_env = \<lparr>ke_pid = 7, ke_rand = (\<lambda>p i. i), ke_mkdir = True, ke_open = (\<lambda>p. True), ke_write = (\<lambda>p. None), ke_remove = (\<lambda>p. True),
     ke_link = (\<lambda>p. True), ke_rename = (\<lambda>p. True), ke_read = (\<lambda>i p. True), ke_meta = (\<lambda>p. True), ke_fresh = replicate 32 3\<rparr>"

definition import_dir :: Dir where
  "import_dir = [MACHINE_KEY_FILE \<mapsto> replicate 32 1,
     ''c2'' \<mapsto> as_bytes (''01'' @ demo_encode (1 # replicate NONCEBYTES 0 @ replicate MACBYTES 1 @ [4, 5]))]"

theorem key_import_keeps_secrets_witness:
  "(case import_machine_key_files demo_lib import_env import_env (Ok (replicate 32 2)) (Some ''c2'') import_dir of (r, d') \<Rightarrow>
     r = Ok () \<and> d' MACHINE_KEY_FILE = Some (replicate 32 2) \<and> (\<exists>src' cfg'. d' ''c2'' = Some (as_bytes src')
        \<and> sl_toml demo_lib src' = Some cfg' \<and> (''unlock_pin'', [4, 5]) \<in> set (opened demo_lib (replicate 32 2) [] cfg')))"
proof -
  let ?src = "''01'' @ demo_encode (1 # replicate NONCEBYTES 0 @ replicate MACBYTES 1 @ [4, 5])"
  let ?cfg = "TTable [(''unlock_pin'', TString ?src)]"
  obtain r d' where i: "import_machine_key_files demo_lib import_env import_env (Ok (replicate 32 2)) (Some ''c2'') import_dir = (r, d')"
    by fastforce
  have ok: "fst (import_machine_key_files demo_lib import_env import_env (Ok (replicate 32 2)) (Some ''c2'') import_dir) = Ok ()"
    by code_simp
  have d: "import_dir MACHINE_KEY_FILE = Some (replicate 32 1)" "import_dir ''c2'' = Some (as_bytes ?src)"
    by (simp_all add: import_dir_def MACHINE_KEY_FILE_def)
  have l: "sl_utf8 demo_lib (as_bytes ?src) = Some ?src" "sl_toml demo_lib ?src = Some ?cfg"
    by (simp_all only: demo_lib_def demo_utf8_ok SealLib.simps)
  have o: "(''unlock_pin'', [4, 5]) \<in> set (opened demo_lib (replicate 32 1) [] ?cfg)" by code_simp
  have "ordinary ''c2''" "''c2'' \<noteq> MACHINE_KEY_FILE" by (simp_all add: ordinary_def MACHINE_KEY_FILE_def)
  from key_import_keeps_secrets [OF i demo_lib_ok this d l] ok i o show ?thesis by auto
qed

section \<open>The import of a profile\<close>

lemma prepare_frame:
  assumes "prepare_config2 S E new dest2 d = (r, d1)"
  shows "same_files {MACHINE_KEY_FILE} d d1" "r = Ok (Some (p, x, y)) \<Longrightarrow> dest2 = Some p"
proof -
  obtain l u where l: "load_or_create_key E MACHINE_KEY_FILE d = (l, u)" by fastforce
  have "same_files {MACHINE_KEY_FILE} d u" using load_or_create_key_ok [OF l] by simp
  then show "same_files {MACHINE_KEY_FILE} d d1"
    using assms l by (auto simp: prepare_config2_def and_then_def split: option.splits if_splits result.splits)
  show "r = Ok (Some (p, x, y)) \<Longrightarrow> dest2 = Some p"
    using assms by (auto simp: prepare_config2_def and_then_Ok result_bind_eq_Ok split: option.splits if_splits)
qed

lemma replace_frame:
  "atomic_replace E path bytes d = (r, d') \<Longrightarrow> ordinary path \<Longrightarrow> path \<in> X \<Longrightarrow> same_files X d d'"
  using atomic_replace_ok same_files_mono by blast

text \<open>An import of a key touches the key file and, when it re-encrypts it, the second configuration.\<close>

lemma import_files_frame:
  assumes "import_machine_key_files S E E' src dest2 d = (r, d')" "\<And>p. dest2 = Some p \<Longrightarrow> ordinary p"
  shows "same_files ({MACHINE_KEY_FILE} \<union> set_option dest2) d d'"
proof -
  let ?X = "{MACHINE_KEY_FILE} \<union> set_option dest2"
  note M = replace_frame [OF _ ordinary_names(3), where X = ?X]
  show ?thesis
  proof (cases "result_bind src (\<lambda>bytes. result_bind (decode_stored_key bytes) (\<lambda>k. Ok (bytes, k)))")
    case (Err e)
    then show ?thesis using assms(1) by (simp add: import_machine_key_files_def)
  next
    case (Ok bk)
    obtain bytes k where bk: "bk = (bytes, k)" by fastforce
    obtain pr d1 where p: "prepare_config2 S E k dest2 d = (pr, d1)" by fastforce
    have d1: "same_files ?X d d1" using prepare_frame(1) [OF p] by (rule same_files_mono) simp
    obtain r2 d2 where a2: "atomic_replace E MACHINE_KEY_FILE bytes d1 = (r2, d2)" by fastforce
    have d2: "same_files ?X d d2" using same_files_trans [OF d1] M [OF a2] by simp
    show ?thesis
    proof (cases "(\<exists>e. pr = Err e) \<or> (\<exists>e. r2 = Err e) \<or> pr = Ok None")
      case True
      then have "d' = d1 \<or> d' = d2" using assms(1) Ok bk p a2
        by (cases pr; cases r2) (auto simp: import_machine_key_files_def)
      then show ?thesis using d1 d2 by blast
    next
      case False
      then obtain q x y where pr: "pr = Ok (Some (q, x, y))" "r2 = Ok ()" by (cases pr; cases r2) auto
      have q: "dest2 = Some q" using prepare_frame(2) [OF p pr(1)] .
      obtain r3 d3 where a3: "atomic_replace E q y d2 = (r3, d3)" by fastforce
      have d3: "same_files ?X d d3" using same_files_trans [OF d2] replace_frame [OF a3 assms(2) [OF q], of ?X] q by simp
      obtain r4 d4 where a4: "atomic_replace E' MACHINE_KEY_FILE x d3 = (r4, d4)" by fastforce
      have d4: "same_files ?X d d4" using same_files_trans [OF d3] M [OF a4] by simp
      have "d' = d3 \<or> d' = d4" using assms(1) Ok bk p a2 pr a3 a4
        by (cases r3; cases r4) (auto simp: import_machine_key_files_def)
      then show ?thesis using d3 d4 by blast
    qed
  qed
qed

lemma import_to_frame:
  assumes "import_machine_key_to S E E' key dest2 imported d = (r, d')" "ordinary dest2"
  shows "same_files {MACHINE_KEY_FILE, dest2} d d'"
    "key = None \<or> imported \<Longrightarrow> same_files {MACHINE_KEY_FILE} d d'"
proof -
  show "key = None \<or> imported \<Longrightarrow> same_files {MACHINE_KEY_FILE} d d'"
    using assms(1) import_files_frame [of S E E' _ None d r d'] by (auto simp: import_machine_key_to_def ret_def split: option.splits)
  show "same_files {MACHINE_KEY_FILE, dest2} d d'"
  proof (cases "key = None \<or> imported")
    case True
    then show ?thesis
      using \<open>key = None \<or> imported \<Longrightarrow> same_files {MACHINE_KEY_FILE} d d'\<close> by (auto elim: same_files_mono)
  next
    case False
    then show ?thesis using assms import_files_frame [of S E E' _ "Some dest2" d r d']
      by (auto simp: import_machine_key_to_def insert_commute)
  qed
qed

text \<open>\<open>saved p b d\<close>: the contents \<open>b\<close> are in the file \<open>p\<close> or in its backup.\<close>

definition saved :: "string \<Rightarrow> nat list \<Rightarrow> Dir \<Rightarrow> bool" where
  "saved p b d = (d p = Some b \<or> d (backup_name p) = Some b)"

lemma backup_ok:
  assumes "backup_if_replaced E p d = (r, d')"
  shows "same_files {backup_name p} d d'" "d' p = d p" "r = Ok () \<Longrightarrow> d p = Some b \<Longrightarrow> d' (backup_name p) = Some b"
  using assms by (auto simp: backup_if_replaced_def same_files_def backup_name_def split: option.splits)

lemma store_frame: "store_path E p x d = (r, d') \<Longrightarrow> same_files {p} d d'"
  by (auto simp: store_path_def same_files_def split: if_splits)

text \<open>\<open>triple P m Q I\<close>: from a directory with \<open>P\<close> the action leaves \<open>I\<close>, and \<open>Q\<close> when it succeeds.\<close>

definition triple :: "(Dir \<Rightarrow> bool) \<Rightarrow> (Dir, 'a) act \<Rightarrow> (Dir \<Rightarrow> bool) \<Rightarrow> (Dir \<Rightarrow> bool) \<Rightarrow> bool" where
  "triple P m Q I = (\<forall>d r d'. P d \<longrightarrow> m d = (r, d') \<longrightarrow> I d' \<and> (is_ok r \<longrightarrow> Q d'))"

lemma triple_ret: "(\<And>d. P d \<Longrightarrow> I d \<and> Q d) \<Longrightarrow> triple P (ret x) Q I"
  by (simp add: triple_def ret_def)

lemma triple_and_then:
  assumes "triple P m Q I" "\<And>x. triple Q (f x) R I"
  shows "triple P (and_then m f) R I"
  unfolding triple_def
proof (intro allI impI)
  fix d r d'
  assume p: "P d" and a: "and_then m f d = (r, d')"
  obtain x t where m: "m d = (x, t)" by fastforce
  then have t: "I t" "is_ok x \<Longrightarrow> Q t" using assms(1) p by (auto simp: triple_def)
  show "I d' \<and> (is_ok r \<longrightarrow> R d')"
  proof (cases x)
    case (Ok y)
    then have "f y t = (r, d')" "Q t" using a m t by auto
    then show ?thesis using assms(2) unfolding triple_def by blast
  next
    case (Err e)
    then show ?thesis using a m t by auto
  qed
qed

lemma triple_if: "(c \<Longrightarrow> triple P m Q I) \<Longrightarrow> (\<not> c \<Longrightarrow> triple P n Q I) \<Longrightarrow> triple P (if c then m else n) Q I"
  by simp

text \<open>A file outside the frame keeps its contents.\<close>

lemma triple_frame:
  assumes "\<And>d r d'. m d = (r, d') \<Longrightarrow> same_files X d d'" "ordinary q" "q \<notin> X" "\<And>d. d q = Some b \<Longrightarrow> I d"
  shows "triple (\<lambda>d. d q = Some b) m (\<lambda>d. d q = Some b) I"
  unfolding triple_def using assms by (metis same_filesD)

definition import_names_ok :: "string \<Rightarrow> string \<Rightarrow> bool" where
  "import_names_ok dest dest2 = (dest \<noteq> [] \<and> ordinary dest \<and> dest2 \<noteq> [] \<and> ordinary dest2
     \<and> distinct [dest, dest2, backup_name dest, backup_name dest2, MACHINE_KEY_FILE])"

lemma ordinary_backup: "p \<noteq> [] \<Longrightarrow> ordinary p \<Longrightarrow> ordinary (backup_name p)"
  by (auto simp: ordinary_def backup_name_def split: list.splits)

lemma triple_backup: "triple (\<lambda>d. d p = Some b) (backup_if_replaced E p) (\<lambda>d. d (backup_name p) = Some b) (saved p b)"
  unfolding triple_def
proof (intro allI impI)
  fix d r d'
  assume a: "d p = Some b" "backup_if_replaced E p d = (r, d')"
  note B = backup_ok [OF a(2)]
  show "saved p b d' \<and> (is_ok r \<longrightarrow> d' (backup_name p) = Some b)"
    using a(1) B(2) B(3) [OF _ a(1)] by (cases r) (auto simp: saved_def)
qed

lemma triple_state: "(\<And>s. P s \<Longrightarrow> triple P (F s) Q I) \<Longrightarrow> triple P (\<lambda>d. F d d) Q I"
  unfolding triple_def by blast

lemma triple_backup_frame:
  "ordinary q \<Longrightarrow> q \<noteq> backup_name p \<Longrightarrow> (\<And>d. d q = Some b \<Longrightarrow> I d) \<Longrightarrow>
   triple (\<lambda>d. d q = Some b) (backup_if_replaced E p) (\<lambda>d. d q = Some b) I"
  by (rule triple_frame [of _ "{backup_name p}"]) (auto dest: backup_ok(1))

lemma triple_store:
  "ordinary q \<Longrightarrow> q \<noteq> p \<Longrightarrow> (\<And>d. d q = Some b \<Longrightarrow> I d) \<Longrightarrow>
   triple (\<lambda>d. d q = Some b) (store_path E p x) (\<lambda>d. d q = Some b) I"
  by (rule triple_frame [of _ "{p}"]) (auto dest: store_frame)

lemma triple_import:
  assumes "ordinary dest2" "ordinary q" "q \<noteq> MACHINE_KEY_FILE" "q \<noteq> dest2 \<or> key = None \<or> imported" "\<And>d. d q = Some b \<Longrightarrow> I d"
  shows "triple (\<lambda>d. d q = Some b) (import_machine_key_to S E E' key dest2 imported) (\<lambda>d. d q = Some b) I"
proof (cases "key = None \<or> imported")
  case True
  then show ?thesis using assms import_to_frame(2) by (intro triple_frame [of _ "{MACHINE_KEY_FILE}"]) auto
next
  case False
  then show ?thesis using assms import_to_frame(1) by (intro triple_frame [of _ "{MACHINE_KEY_FILE, dest2}"]) auto
qed

lemma triple_keep: "triple P m P I \<Longrightarrow> (\<And>x. triple P (f x) P I) \<Longrightarrow> triple P (and_then m f) P I"
  by (rule triple_and_then)

lemma triple_weaken: "triple P m P I \<Longrightarrow> triple P m (\<lambda>d. True) I"
  by (auto simp: triple_def)

lemmas triple_rules = triple_keep triple_if triple_backup_frame triple_ret triple_import triple_store

text \<open>The two parts of an import: \<open>dest\<close> with the key, then \<open>dest2\<close>.\<close>

definition import_first :: "SealLib \<Rightarrow> KeyEnv \<Rightarrow> KeyEnv \<Rightarrow> Profile \<Rightarrow> string \<Rightarrow> string \<Rightarrow> bool \<Rightarrow> (Dir, unit) act" where
  "import_first S E E' P dest dest2 c2 = and_then (backup_if_replaced E dest) (\<lambda>_ d1.
     and_then (if c2 \<or> pr_key P \<noteq> None \<and> d1 dest2 \<noteq> None then backup_if_replaced E dest2 else ret ()) (\<lambda>_.
     and_then (import_machine_key_to S E E' (pr_key P) dest2 c2) (\<lambda>_. store_path E dest (pr_config P))) d1)"

definition import_second :: "KeyEnv \<Rightarrow> Profile \<Rightarrow> string \<Rightarrow> bool \<Rightarrow> bool \<Rightarrow> (Dir, unit) act" where
  "import_second E P dest2 c c2 = (if c2
     then and_then (if \<not> c then backup_if_replaced E dest2 else ret ()) (\<lambda>_. store_path E dest2 (pr_config2 P)) else ret ())"

lemma import_dest_saved:
  assumes N: "import_names_ok dest dest2"
  shows "triple (\<lambda>d. d dest = Some b) (import_first S E E' P dest dest2 c2) (\<lambda>d. d (backup_name dest) = Some b) (saved dest b)"
    "triple (\<lambda>d. d (backup_name dest) = Some b) (import_second E P dest2 True c2) (\<lambda>d. True) (saved dest b)"
    "triple (\<lambda>d. d dest = Some b) (import_second E P dest2 False c2) (\<lambda>d. True) (saved dest b)"
proof -
  have o: "ordinary (backup_name dest)" "ordinary dest" "ordinary dest2" using N ordinary_backup by (auto simp: import_names_ok_def)
  have n: "backup_name dest \<noteq> backup_name dest2" "backup_name dest \<noteq> MACHINE_KEY_FILE" "backup_name dest \<noteq> dest2" "backup_name dest \<noteq> dest"
      "dest \<noteq> backup_name dest2" "dest \<noteq> dest2"
    using N by (auto simp: import_names_ok_def)
  have I: "saved dest b d" if "d (backup_name dest) = Some b \<or> d dest = Some b" for d using that by (auto simp: saved_def)
  show "triple (\<lambda>d. d dest = Some b) (import_first S E E' P dest dest2 c2) (\<lambda>d. d (backup_name dest) = Some b) (saved dest b)"
    unfolding import_first_def
  proof (rule triple_and_then [OF triple_backup])
    fix u
    let ?F = "\<lambda>s. and_then (if c2 \<or> pr_key P \<noteq> None \<and> s dest2 \<noteq> None then backup_if_replaced E dest2 else ret ()) (\<lambda>_.
      and_then (import_machine_key_to S E E' (pr_key P) dest2 c2) (\<lambda>_. store_path E dest (pr_config P)))"
    have "triple (\<lambda>d. d (backup_name dest) = Some b) (?F s) (\<lambda>d. d (backup_name dest) = Some b) (saved dest b)" for s
      by (intro triple_rules o n I conjI) (use n in auto)
    then show "triple (\<lambda>d. d (backup_name dest) = Some b) (\<lambda>d1. ?F d1 d1) (\<lambda>d. d (backup_name dest) = Some b) (saved dest b)"
      by (rule triple_state)
  qed
  show "triple (\<lambda>d. d (backup_name dest) = Some b) (import_second E P dest2 True c2) (\<lambda>d. True) (saved dest b)"
    unfolding import_second_def
    by (rule triple_weaken, intro triple_rules o n I conjI) (use n in auto)
  show "triple (\<lambda>d. d dest = Some b) (import_second E P dest2 False c2) (\<lambda>d. True) (saved dest b)"
    unfolding import_second_def
    by (rule triple_weaken, intro triple_rules o n I conjI) (use n in auto)
qed

lemma import_dest2_saved:
  assumes N: "import_names_ok dest dest2"
  shows "triple (\<lambda>d. d dest2 = Some b) (and_then (import_first S E E' P dest dest2 c2) (\<lambda>_. import_second E P dest2 True c2)) (\<lambda>d. True) (saved dest2 b)"
    "triple (\<lambda>d. d dest2 = Some b) (import_second E P dest2 False c2) (\<lambda>d. True) (saved dest2 b)"
proof -
  have o: "ordinary (backup_name dest2)" "ordinary dest" "ordinary dest2" using N ordinary_backup by (auto simp: import_names_ok_def)
  have n: "backup_name dest2 \<noteq> backup_name dest" "backup_name dest2 \<noteq> MACHINE_KEY_FILE" "backup_name dest2 \<noteq> dest2" "backup_name dest2 \<noteq> dest"
      "dest2 \<noteq> backup_name dest" "dest2 \<noteq> dest" "dest2 \<noteq> MACHINE_KEY_FILE"
    using N by (auto simp: import_names_ok_def)
  have I: "saved dest2 b d" if "d (backup_name dest2) = Some b \<or> d dest2 = Some b" for d using that by (auto simp: saved_def)
  let ?B = "\<lambda>d. d (backup_name dest2) = Some b" and ?D = "\<lambda>d. d dest2 = Some b"
  let ?F = "\<lambda>s. and_then (if c2 \<or> pr_key P \<noteq> None \<and> s dest2 \<noteq> None then backup_if_replaced E dest2 else ret ()) (\<lambda>_.
      and_then (import_machine_key_to S E E' (pr_key P) dest2 c2) (\<lambda>_. store_path E dest (pr_config P)))"
  show "triple ?D (import_second E P dest2 False c2) (\<lambda>d. True) (saved dest2 b)"
  proof (cases c2)
    case True
    have "triple ?D (and_then (backup_if_replaced E dest2) (\<lambda>_. store_path E dest2 (pr_config2 P))) ?B (saved dest2 b)"
      by (rule triple_and_then [OF triple_backup]) (intro triple_rules o n I, use n in auto)
    then show ?thesis using True by (simp add: import_second_def triple_def)
  next
    case False
    then show ?thesis using I by (simp add: import_second_def triple_def ret_def)
  qed
  show "triple ?D (and_then (import_first S E E' P dest dest2 c2) (\<lambda>_. import_second E P dest2 True c2)) (\<lambda>d. True) (saved dest2 b)"
  proof (cases "c2 \<or> pr_key P \<noteq> None")
    case True
    have "triple ?D (?F s) ?B (saved dest2 b)" if "s dest2 = Some b" for s
    proof -
      have "triple ?D (and_then (backup_if_replaced E dest2) (\<lambda>_.
          and_then (import_machine_key_to S E E' (pr_key P) dest2 c2) (\<lambda>_. store_path E dest (pr_config P)))) ?B (saved dest2 b)"
        by (rule triple_and_then [OF triple_backup]) (intro triple_rules o n I, use n in auto)
      then show ?thesis using True that by simp
    qed
    then have "triple ?D (\<lambda>d. ?F d d) ?B (saved dest2 b)" by (rule triple_state)
    then have "triple ?D (import_first S E E' P dest dest2 c2) ?B (saved dest2 b)"
      unfolding import_first_def
      by (rule triple_and_then [rotated]) (intro triple_backup_frame o n I, simp)
    then show ?thesis
      by (rule triple_and_then) (unfold import_second_def, rule triple_weaken, intro triple_rules o n I conjI, use n in auto)
  next
    case False
    have "triple ?D (?F s) ?D (saved dest2 b)" for s
      using False by simp (intro triple_rules o n I conjI, use n in auto)
    then have "triple ?D (\<lambda>d. ?F d d) ?D (saved dest2 b)" by (rule triple_state)
    then have "triple ?D (import_first S E E' P dest dest2 c2) ?D (saved dest2 b)"
      unfolding import_first_def
      by (rule triple_and_then [rotated]) (intro triple_backup_frame o n I, simp)
    then show ?thesis
      by (rule triple_and_then) (use False I in \<open>simp add: import_second_def triple_def ret_def\<close>)
  qed
qed

lemma import_config_parts:
  assumes "import_config_files S E E' P dest dest2 newer older newer2 d = (r, d')"
  shows "d' = d \<or> newer \<and> older \<and> and_then (import_first S E E' P dest dest2 newer2) (\<lambda>_. import_second E P dest2 True newer2) d = (r, d')
    \<or> import_second E P dest2 False newer2 d = (r, d')"
  using assms
  by (auto simp: import_config_files_def import_first_def import_second_def should_import_config_def Let_def ret_def
      split: result.splits if_splits)

text \<open>C40: an import loses no configuration of the service. When the destination already has an identity, the import
  changes nothing. Otherwise, wherever it stops, with success or with an error, what was in either of the two
  configuration files is still in the file or is in its backup.\<close>

theorem import_loses_nothing:
  assumes "import_config_files S E E' P dest dest2 newer older newer2 d = (r, d')" "import_names_ok dest dest2"
    "p \<in> {dest, dest2}" "d p = Some b"
  shows "(if destination_has_identity S E dest d = Ok True then r = Ok () \<and> d' = d else saved p b d')"
proof -
  have "saved p b d'"
  proof (cases "d' = d")
    case True
    then show ?thesis using assms(4) by (simp add: saved_def)
  next
    case False
    consider "and_then (import_first S E E' P dest dest2 newer2) (\<lambda>_. import_second E P dest2 True newer2) d = (r, d')"
      | "import_second E P dest2 False newer2 d = (r, d')"
      using import_config_parts [OF assms(1)] False by blast
    then show ?thesis
    proof cases
      case 1
      have "triple (\<lambda>d. d dest = Some b) (and_then (import_first S E E' P dest dest2 newer2) (\<lambda>_. import_second E P dest2 True newer2))
          (\<lambda>d. True) (saved dest b)"
        using import_dest_saved(1,2) [OF assms(2)] by (blast intro: triple_and_then)
      then show ?thesis using 1 assms(3,4) import_dest2_saved(1) [OF assms(2)] unfolding triple_def by blast
    next
      case 2
      then show ?thesis
        using assms(3,4) import_dest_saved(3) [OF assms(2)] import_dest2_saved(2) [OF assms(2)] unfolding triple_def by blast
    qed
  qed
  moreover have "r = Ok () \<and> d' = d" if "destination_has_identity S E dest d = Ok True"
    using assms(1) that by (simp add: import_config_files_def)
  ultimately show ?thesis by simp
qed

text \<open>A profile with a key and both configurations, over a service that has only a second configuration: its previous
  contents are in the backup.\<close>

definition import_profile :: Profile where
  "import_profile = \<lparr>pr_config_empty = False, pr_config = [9], pr_config2 = [8], pr_key = Some (Ok (replicate 32 2))\<rparr>"

theorem import_loses_nothing_witness:
  "(case import_config_files demo_lib import_env import_env import_profile ''c1'' ''c2'' True True True import_dir of (r, d') \<Rightarrow>
     r = Ok () \<and> d' ''c2'' = Some [8] \<and> d' ''c2.pre-import'' = import_dir ''c2'')"
proof -
  obtain r d' where i: "import_config_files demo_lib import_env import_env import_profile ''c1'' ''c2'' True True True import_dir = (r, d')"
    by fastforce
  obtain b where b: "import_dir ''c2'' = Some b" by (simp add: import_dir_def)
  have n: "import_names_ok ''c1'' ''c2''" by code_simp
  have h: "destination_has_identity demo_lib import_env ''c1'' import_dir \<noteq> Ok True" by code_simp
  have "case import_config_files demo_lib import_env import_env import_profile ''c1'' ''c2'' True True True import_dir of (r, d') \<Rightarrow>
      r = Ok () \<and> d' ''c2'' = Some [8] \<and> import_dir ''c2'' \<noteq> Some [8]" by code_simp
  moreover have "saved ''c2'' b d'" using import_loses_nothing [OF i n _ b] h by simp
  ultimately show ?thesis using i b by (auto simp: saved_def backup_name_def)
qed

text \<open>The key that sealed the values in the backup is in no file after the import: the new key does not open them.\<close>

theorem backup_cannot_be_opened:
  "(case import_config_files demo_lib import_env import_env import_profile ''c1'' ''c2'' True True True import_dir of (r, d') \<Rightarrow>
     r = Ok () \<and> d' MACHINE_KEY_FILE = Some (replicate 32 2)
     \<and> map_option (\<lambda>b. opened_value demo_lib (replicate 32 2) ''unlock_pin'' b) (d' ''c2.pre-import'') = Some []
     \<and> map_option (\<lambda>b. opened_value demo_lib (replicate 32 1) ''unlock_pin'' b) (d' ''c2.pre-import'') = Some [(''unlock_pin'', [4, 5])])"
  by code_simp

end
