(* ===== verification/Spec2Isabelle.thy ===== *)
theory Spec2Isabelle
  imports Access_Hours Id_Permissions Device_Commands Audit_Queue Forward_Engine Login_Guard Session_Chain Qos_Bounds Login_Claims Conn_Scope
    File_Confine File_Copy File_Gate Audit_Format Audit_Delivery Camera_Flow Host_Claims Conn_Service Ticket Temp_Password
    Key_Single Import_Claims
begin

text \<open>
  A verification of the security and forwarding core of ClantoDesk, a remote-desktop client in Rust.

  \<^bold>\<open>The program.\<close> A \<^emph>\<open>controller\<close> connects to a \<^emph>\<open>host\<close>; both may be devices enrolled in a tenant,
  whose server signs documents: key updates, session grants, policies and commands. The part added by
  ClantoDesk is \<^verbatim>\<open>src/src/clanto/\<close>; the tunnel it shares with the upstream program is
  \<^verbatim>\<open>src/src/port_forward_mux.rs\<close> and \<^verbatim>\<open>src/src/server/port_forward_mux.rs\<close>. At a login the host asks
  the access hours, the permissions by controller ID and the session grant; a grant is checked with
  the tenant's keys. Policies and commands are checked with the same keys; a policy rewrites the
  settings the other parts read, a command may block or close sessions. Audit events are stamped and
  queued for the server. Once a session is open, forwarding requests are decided by the forwarding
  policy and carried as channels with windows and credit.

  \<^bold>\<open>Theories.\<close>
  \<^item> \<open>Rust_Prelude\<close>: \<open>Result\<close>, bounded integers, string operations of the standard library, association
    lists as \<open>HashMap\<close>s (locale \<open>rust_map\<close>), generic lemmas. \<open>Json_Value\<close>: \<open>serde_json::Value\<close>.
  \<^item> \<open>Access_Hours\<close> (\<^verbatim>\<open>access_hours.rs\<close>): parser, \<open>allowed_at\<close>, \<open>login_block\<close>. The loop over days
    returns; the check is membership of the minute of the week in the parsed intervals; the gate
    closes on an invalid option.
  \<^item> \<open>Id_Permissions\<close> (\<^verbatim>\<open>id_permissions.rs\<close>): \<open>wildcard_match\<close>, \<open>matching_entry\<close>,
    \<open>resolve_profile\<close>. The backtracking matcher terminates and equals the recursive glob relation; the
    chosen entry is the first of the highest rank; bad input leaves a profile that allows nothing.
  \<^item> \<open>Tenant_Keys\<close> (\<^verbatim>\<open>tenant_keys.rs\<close>, \<open>Enrollment\<close> of \<^verbatim>\<open>enrollment.rs\<close>): \<open>KeyState\<close> is the store in
    memory and the state file. Only signed documents change it (locale \<open>authenticated_update\<close>), sequence
    numbers are monotone, a root rotation revokes the earlier keys.
  \<^item> \<open>Session_Grant\<close> (\<^verbatim>\<open>session_grant.rs\<close>): \<open>GrantState\<close> holds the keys, the used nonces, the block flag
    and the cache. What a granted login carried, no replay while the nonce is remembered (locale
    \<open>replay_guard\<close>, for expiries that leave room for the clock skew in an \<open>i64\<close>), which logins need no grant, closing and blocking.
  \<^item> \<open>Tenant_Policy\<close> (\<^verbatim>\<open>policy.rs\<close>, \<^verbatim>\<open>gpo.rs\<close>, \<^verbatim>\<open>managed_config.rs\<close>, \<^verbatim>\<open>settings_lock.rs\<close>,
    \<^verbatim>\<open>outgoing.rs\<close>): \<open>PolicyWorld\<close> holds the process-wide maps, the applied policy and the saved file. An
    invariant over every sequence of operations gives: settings only get stricter, clearing restores
    them, versions are monotone, the UI process mirrors the service.
  \<^item> \<open>Device_Commands\<close> (\<^verbatim>\<open>device_commands.rs\<close>): \<open>Device\<close> is what a command may change. Only signed, current,
    unseen commands are executed, and once.
  \<^item> \<open>Audit_Queue\<close> (\<^verbatim>\<open>audit_queue.rs\<close>): the queue, its counters and its two files. The stamps in the
    events are unique across restarts, while the state file can be written and UUIDs are fresh; overflow keeps the most recent events and counts the rest; delivery removes the
    settled prefix; \<open>flush_peek\<close> and \<open>flush_commit\<close> are the two critical sections.
  \<^item> \<open>Forward_Policy\<close> (\<^verbatim>\<open>forwarding/policy.rs\<close>, \<^verbatim>\<open>forwarding/catalog.rs\<close>): patterns, networks on machine
    words, the decisions. Every address opened is justified by an enabled pattern.
  \<^item> \<open>Port_Mux\<close> (the two \<^verbatim>\<open>port_forward_mux.rs\<close>): windows, credit, relay halves, channel tables, and the step
    relation \<open>link_step\<close> of one direction of a channel. No interleaving overruns a window or leaves the
    sender without credit; identifiers are free ones.
  \<^item> \<open>Forward_Engine\<close> (\<^verbatim>\<open>forwarding/engine.rs\<close>): the two-sided channel table with its parities. Over every history of the
    engine, the ends of its tasks included, a channel opened gets a free identifier of its side, and not that of the
    one opened before it.
  \<^item> \<open>Login_Guard\<close> (\<^verbatim>\<open>src/src/server/login_failure_check.rs\<close> and parts of \<^verbatim>\<open>src/src/server/connection.rs\<close>):
    admission of unauthorised connections, failure counters per address and IPv6 prefix, ID whitelist, backoff of
    operating-system logins. Floods and guesses are bounded in every interval; the whitelist is glob matching.
  \<^item> \<open>Trusted_Controllers\<close> (\<^verbatim>\<open>trusted_controllers.rs\<close>): the list of controllers excused from the second factor, its
    text form, signatures bound to host and challenge. \<open>Posture\<close> (\<^verbatim>\<open>posture.rs\<close>): the host's side of the check of
    the controller's device.
  \<^item> \<open>Conn_Login\<close> (login part of \<^verbatim>\<open>src/src/server/connection.rs\<close>, \<^verbatim>\<open>two_factor_policy.rs\<close>, \<^verbatim>\<open>two_factor_store.rs\<close>):
    \<open>LoginConn\<close> is one connection, \<open>LoginWorld\<close> what connections share, \<open>LoginEnv\<close> what one event reads of
    configuration, clock and libraries; \<open>conn_step\<close> handles a login request, a one-time code, a switch of sides or the
    approval at the host. \<open>Login_Evidence\<close> traces which gate each authorisation passed; \<open>Login_Claims\<close> states it.
  \<^item> \<open>Conn_Scope\<close> (scope part of \<^verbatim>\<open>connection.rs\<close>): which messages an authorised session may send, by its kind, and
    what \<open>update_options\<close> changes. The classification is a table; a limited session's options stay within its kind.
  \<^item> \<open>File_Store\<close>: paths of the standard library and a Unix file system, the ground for the next theories.
    \<open>File_Transfer\<close> (\<^verbatim>\<open>src/libs/base/src/fs.rs\<close>): writing and reading jobs. \<open>File_Paths\<close> and \<open>File_Confine\<close>: a job stays
    below its destination, if that is a directory without symbolic links under the names of partial files and without
    hard links to the outside; the first condition is shown to be needed. \<open>File_Copy\<close>: reading and writing
    reproduce the file. \<open>File_Scan\<close> (\<^verbatim>\<open>file_scan.rs\<close>, \<open>handle_fs\<close> of \<^verbatim>\<open>src/src/ui_cm_interface.rs\<close>): policies on received
    files. \<open>File_Gate\<close>: delivery in block mode, exclusive destinations, and the path that avoids the scan.
  \<^item> \<open>Session_Log\<close> and \<open>Session_Chain\<close> (\<^verbatim>\<open>session_log.rs\<close>): the log of sessions, its rotation and limits; the chain of
    sealed lines, what verification accepts and detects. What was written verifies across clears, retention and
    restarts, as long as the clock does not go back, writes are whole and removals succeed. \<open>LogLib\<close> holds hash, cipher and JSON, \<open>lib_ok\<close> what is asked of them.
  \<^item> \<open>Video_Qos\<close> and \<open>Qos_Bounds\<close> (\<^verbatim>\<open>src/src/server/video_qos.rs\<close>): frame rate and bitrate from the users' delays. An
    \<open>f32\<close> is a rational, rounded by a parameter \<open>F\<close> after every operation; \<open>f32_ok\<close> says that rounding is monotone and
    keeps the constants of the code.
  \<^item> \<open>Audit_Sink\<close> (\<^verbatim>\<open>audit_sink.rs\<close>): events, formats, framing, the bounded queue, the worker and its connection.
    \<open>Audit_Format\<close>: CEF fields and octet-counted frames are read back as what was sent. \<open>Audit_Delivery\<close>: every loss is
    counted over all interleavings of producers and worker; nothing leaves unencrypted once TLS is configured.
  \<^item> \<open>Forward_Media\<close> (\<^verbatim>\<open>forwarding/media.rs\<close>, \<^verbatim>\<open>forwarding/camera_receiver.rs\<close>): the webcam as a stream of packets.
    \<open>Camera_Claims\<close>: the virtual camera has one receiver; \<open>Camera_Flow\<close>: a sender that counts confirmations never
    overflows the receiver. \<open>Forward_Host\<close> (\<^verbatim>\<open>forwarding/host.rs\<close>) and \<open>Host_Claims\<close>: no camera without consent.
  \<^item> \<open>Conn_Service\<close> (\<^verbatim>\<open>src/src/server/service.rs\<close>): subscriptions and snapshots; messages go to subscribers only.
    \<open>Ticket\<close> (\<^verbatim>\<open>ticket.rs\<close>) and \<open>Temp_Password\<close> (\<^verbatim>\<open>temp_password.rs\<close>): references of tickets, rotation of the temporary
    password.
  \<^item> \<open>Key_Store\<close> (\<^verbatim>\<open>keystore.rs\<close>, Linux): key files, the Secret Service, the provider. Loading the user's key is a program
    of atomic steps, one D-Bus call or file operation each. \<open>Key_Claims\<close> has a calculus of rely and guarantee for such
    programs (\<open>safe\<close>, locale \<open>interference\<close>); \<open>Key_Single\<close> shows that after one load that no other overlaps, every interleaving
    of processes and restarts hands out the same key, and what happens when two first loads overlap or the marker
    cannot be written. \<open>Key_Import\<close> (\<^verbatim>\<open>keystore.rs\<close>, \<^verbatim>\<open>config_import.rs\<close>) and \<open>Import_Claims\<close>: an import of keys and
    profiles keeps every secret.
  \<^item> This theory: properties that span components. A block command refuses later logins; after a root
    rotation only documents of the new key are granted.

  \<^bold>\<open>Conventions.\<close> State is passed and returned; a raise or early return is a value of \<open>Result\<close> or \<open>option\<close>;
  a lock-protected section is one function, and where the source releases the lock between two sections
  they are two functions; where processes share files without a lock, a call is a program of steps. Code outside the repository is an argument: Base64, SHA-256 and Ed25519 with the
  decoders of signed payloads are the record \<open>Crypto\<close>; \<open>serde_json\<close> the records \<open>GrantJson\<close>,
  \<open>CommandJson\<close> and the like; the clock, the disk, the network and fresh UUIDs are further arguments, so that
  every theorem holds for all their answers. Strings are lists of scalar values up to U+00FF with their
  UTF-8 byte lengths; JSON numbers are integers; \<open>u32\<close>, \<open>u64\<close> and \<open>i32\<close> values are \<^typ>\<open>nat\<close> or \<^typ>\<open>int\<close> with
  wrapping, saturating and checked operations written out, IP addresses are \<open>32 word\<close> and \<open>128 word\<close>.

  \<^bold>\<open>Loops.\<close> The loops \<open>wildcard_loop\<close>, \<open>days_loop\<close>, \<open>free_id\<close> and \<open>engine_free_id\<close> are
  \<open>partial_function (option)\<close>, with a theorem that each returns. No definition of the model has fuel: \<open>flush_once\<close>
  consumes the list of the server's answers, the polling loop of the commands is modelled by its turn. \<open>walk\<close> follows at most
  40 symbolic links, as Linux does, and then fails. \<open>send_file n\<close>, which states a property, reads at most \<open>n\<close> blocks; the
  theorem says which \<open>n\<close> is enough.

  \<^bold>\<open>Not modelled.\<close> User interface, platform code, capture, codecs and input injection, the vendored
  libraries, sockets and task scheduling: they carry data and have no contract that this kind of model can
  state. Of the modelled files: directory listings and the removal of directory trees, the Windows and Android branches of
  the file transfer, the handlers of the other messages of an authorised session, the key stores of Windows, Apple and
  Android. \<^bold>\<open>Left for later\<close>: enrolment, the forwarding session of the controller, the controller's side of the posture.
\<close>

section \<open>Commands and logins\<close>

lemma handle_block:
  assumes "handle C J X raw d = Some d'" "cx_current X = Some e"
    "open_command C J (Some e) raw (en_device_id e) (cx_now X) (gs_keys (dv_grants d)) = (Ok cmd, ks)"
    "cm_kind cmd = ''block_sessions''" "cm_id cmd \<notin> set (dv_done d)" "cx_crash X = None" "cx_io_ok X"
  shows "gs_blocked (dv_grants d')
    \<and> (dv_active d \<noteq> [] \<longrightarrow> (\<exists>conns. last (dv_disconnects d') = conns \<and> set conns = fst ` set (dv_active d) \<union> set (dv_authed d)))"
proof -
  let ?d = "d\<lparr>dv_grants := (dv_grants d)\<lparr>gs_keys := ks\<rparr>\<rparr>"
  let ?conns = "remdups_adj (sort (map fst (dv_active d) @ dv_authed d))"
  have h: "handle_command X cmd ?d = Some d'" using assms(1-3) by (simp add: handle_def)
  then obtain d1 where d1: "report X (cm_id cmd) (Outcome_new ''accepted'' []) ?d = Some d1"
    using assms(5) by (auto simp: handle_command_def bind_eq_Some_conv)
  from report_fields(4) [OF d1] obtain r where r: "d1 = ?d\<lparr>dv_reports := dv_reports ?d @ r\<rparr>" by blast
  define d2 where "d2 = d1\<lparr>dv_executed := dv_executed d1 @ [cm_id cmd]\<rparr>"
  have ex: "execute X cmd d2 = (Outcome_new ''done'' [], disconnect ?conns (d2\<lparr>dv_grants := (dv_grants d2)\<lparr>gs_blocked := True\<rparr>\<rparr>))"
    using assms(4,7) r by (simp add: execute_def set_sessions_blocked_def Let_def d2_def)
  let ?d3 = "disconnect ?conns (d2\<lparr>dv_grants := (dv_grants d2)\<lparr>gs_blocked := True\<rparr>\<rparr>)"
  have rt: "run_task X cmd d1 = (cm_id cmd, Outcome_new ''done'' [], ?d3)"
    using ex assms(6) by (simp add: run_task_def Let_def d2_def [symmetric])
  have "\<exists>d4. (cm_id cmd = [] \<and> d' = ?d3) \<or> (report X (cm_id cmd) (Outcome_new ''done'' []) ?d3 = Some d4
      \<and> d' = d4\<lparr>dv_done := remember (cm_id cmd) (dv_done d4)\<rparr>)"
    using h assms(5) d1 rt by (auto simp: handle_command_def bind_eq_Some_conv split: if_splits)
  then have "dv_grants d' = dv_grants ?d3 \<and> dv_disconnects d' = dv_disconnects ?d3"
    by (elim exE disjE conjE) (use report_fields(4) in \<open>fastforce+\<close>)
  then have "dv_grants d' = (dv_grants d2)\<lparr>gs_blocked := True\<rparr>" "dv_disconnects d' = dv_disconnects ?d3" by simp_all
  moreover have "set ?conns = fst ` set (dv_active d) \<union> set (dv_authed d)" by simp
  moreover have "dv_disconnects ?d3 = dv_disconnects d @ [?conns]" if "dv_active d \<noteq> []"
  proof -
    from that have "set ?conns \<noteq> {}" by simp
    then have "?conns \<noteq> []" by (metis set_empty)
    then show ?thesis by (simp add: disconnect_def d2_def r)
  qed
  ultimately show ?thesis by auto
qed

text \<open>C19: a block command takes effect. When a signed \<open>block_sessions\<close> command for this device is
  handled and its state is written, every active and every authorised connection is disconnected, and
  from then on every login of an enrolled device is refused, whatever grant it carries.\<close>

theorem block_command_refuses_logins:
  assumes "handle C J X raw d = Some d'" "cx_current X = Some e"
    "open_command C J (Some e) raw (en_device_id e) (cx_now X) (gs_keys (dv_grants d)) = (Ok cmd, ks)"
    "cm_kind cmd = ''block_sessions''" "cm_id cmd \<notin> set (dv_done d)" "cx_crash X = None" "cx_io_ok X"
  shows "fst (evaluate C G (Some en) mode doc now (dv_grants d')) = Refuse ''sessions_blocked'' MSG_SESSIONS_BLOCKED [] []
    \<and> (dv_active d \<noteq> [] \<longrightarrow> set (last (dv_disconnects d')) = fst ` set (dv_active d) \<union> set (dv_authed d))"
  using handle_block [OF assms] by (auto simp: evaluate_def)

theorem block_command_refuses_logins_witness:
  "fst (evaluate toy toy_json (Some toy_enrollment) ''account_2fa'' ''g'' 960 (dv_grants toy_handled))
     = Refuse ''sessions_blocked'' MSG_SESSIONS_BLOCKED [] []
   \<and> set (last (dv_disconnects toy_handled)) = {7, 9}"
proof -
  have c: "cx_current toy_cx = Some toy_enrollment" by code_simp
  have o: "open_command toy toy_cjson (Some toy_enrollment) VNull (en_device_id toy_enrollment) (cx_now toy_cx)
      (gs_keys (dv_grants toy_device)) = (Ok toy_command, gs_keys toy_grants)" by code_simp
  have k: "cm_kind toy_command = ''block_sessions''" "cm_id toy_command \<notin> set (dv_done toy_device)"
    "cx_crash toy_cx = None" "cx_io_ok toy_cx" by code_simp+
  have "dv_active toy_device \<noteq> []" "fst ` set (dv_active toy_device) \<union> set (dv_authed toy_device) = {7, 9}"
    by (auto simp: toy_device_def)
  then show ?thesis using block_command_refuses_logins [OF toy_handle c o k, of toy_json toy_enrollment "''account_2fa''" "''g''" 960] by simp
qed

section \<open>Key rotation and logins\<close>

text \<open>After a rotation that only the root key vouches for, a usable key is the new one.\<close>

lemma root_rotation_keys:
  assumes "apply_rotation C s r True now = Ok s'" "k \<in> set (st_keys (prune s' t))" "usable k t"
  shows "tk_public_key k = ro_new_key r"
  using assms(2,3) unfolding prune_def apply_rotation_Ok(7) [OF assms(1)]
  by (auto simp: usable_def prune_key_def retire_key_def split: if_splits)

text \<open>C13: recovery by the root key. When a rotation is accepted that no usable tenant key signed, every
  login granted afterwards carries a document signed with the new key: grants signed with any
  earlier key, compromised ones included, are refused.\<close>

theorem root_rotation_revokes_grants:
  assumes "receive_rotation C (Some e) now disk_ok d ks = (Some (Ok ()), ks')"
    and "current_store C (Some e) now ks = Some s" "verify_in C s d None now = None"
    and "evaluate C J (Some e) mode doc t (gs\<lparr>gs_keys := ks'\<rparr>) = (Grant info, gs')"
  shows "\<exists>payload r signed. verify_root C d = Some payload \<and> rotation_of C payload = Some r
    \<and> gj_signed J doc = Some signed \<and> verify_with C (ro_new_key r) signed \<noteq> None"
proof -
  from assms(1,2) obtain s' where s': "rotate_store C now d s = Ok s'"
    and ks': "ks' = ks\<lparr>ks_mem := Some s', ks_file := if disk_ok then Some s' else ks_file ks\<rparr>"
    by (auto simp: receive_rotation_current split: result.splits)
  from s' assms(3) obtain payload r where r: "verify_root C d = Some payload" "rotation_of C payload = Some r"
    and ar: "apply_rotation C s r True now = Ok s'"
    by (auto simp: rotate_store_def signer_def split: option.splits)
  from evaluate_Grant [OF assms(4)] obtain p where "passes C J e mode doc t ks' p info" by auto
  then obtain signed payload' s2 k where g: "gj_signed J doc = Some signed"
      "current_store C (Some e) t ks' = Some s2" "k \<in> set (st_keys s2)" "usable k t"
      "verify_with C (tk_public_key k) signed = Some payload'"
    unfolding passes_def by blast
  have "st_tenant_id s' = en_tenant_id e"
    using apply_rotation_Ok(4) [OF ar] current_store_tenant [OF assms(2)] by simp
  then have "s2 = prune s' t" using g(2) ks' by (simp add: current_store_def)
  with root_rotation_keys [OF ar _ g(4)] g(3,5) have "verify_with C (ro_new_key r) signed = Some payload'" by simp
  with r g(1) show ?thesis by blast
qed

definition toy_root :: Crypto where
  "toy_root = toy\<lparr>root_key := Some (map of_char ''rk'')\<rparr>"

definition toy_json_k2 :: GrantJson where
  "toy_json_k2 = toy_json\<lparr>gj_signed := (\<lambda>g. Some \<lparr>sg_payload = g, sg_signature = ''k2'' @ g\<rparr>),
     gj_payload := (\<lambda>b. Some (toy_payload\<lparr>gp_kid := None\<rparr>))\<rparr>"

definition toy_recovered :: Store where
  "toy_recovered = toy_store\<lparr>st_keys := [\<lparr>tk_kid = ''k1'', tk_public_key = ''k1'', tk_state = ''revoked'', tk_not_after = None\<rparr>,
     \<lparr>tk_kid = ''k2'', tk_public_key = ''k2'', tk_state = ''active'', tk_not_after = None\<rparr>], st_rotation_seq := 1\<rparr>"

theorem root_rotation_revokes_grants_witness:
  "\<exists>payload r signed. verify_root toy_root \<lparr>sg_payload = ''R'', sg_signature = ''rkR''\<rparr> = Some payload
    \<and> rotation_of toy_root payload = Some r
    \<and> gj_signed toy_json_k2 ''g'' = Some signed \<and> verify_with toy_root (ro_new_key r) signed \<noteq> None"
proof (rule root_rotation_revokes_grants)
  show "receive_rotation toy_root (Some toy_enrollment) 100 True \<lparr>sg_payload = ''R'', sg_signature = ''rkR''\<rparr>
      \<lparr>ks_mem = None, ks_file = None\<rparr> = (Some (Ok ()), \<lparr>ks_mem = Some toy_recovered, ks_file = Some toy_recovered\<rparr>)"
    by code_simp
  show "current_store toy_root (Some toy_enrollment) 100 \<lparr>ks_mem = None, ks_file = None\<rparr> = Some toy_store" by code_simp
  show "verify_in toy_root toy_store \<lparr>sg_payload = ''R'', sg_signature = ''rkR''\<rparr> None 100 = None" by code_simp
  show "evaluate toy_root toy_json_k2 (Some toy_enrollment) ''account_2fa'' ''g'' 950
      (toy_grants\<lparr>gs_keys := \<lparr>ks_mem = Some toy_recovered, ks_file = Some toy_recovered\<rparr>\<rparr>)
    = (Grant toy_info, toy_grants\<lparr>gs_keys := \<lparr>ks_mem = Some toy_recovered, ks_file = Some toy_recovered\<rparr>, gs_seen := [(''n1'', 1120)]\<rparr>)"
    by code_simp
qed

end
